(* ===== verification/Prelude.thy ===== *)
theory Prelude
  imports Main "HOL-Library.Word"
begin

text \<open>
  Shared vocabulary of the development: the result monad that every fallible operation of the
  C++ code is written in (\<open>Inl\<close> an abort, \<open>Inr\<close> a normal return), the two collections of
  rules the component proofs draw on, and generic facts on lists, on linked chains and on
  majorities that several components need.
\<close>

named_theorems result_simps \<open>evaluation and inversion of the result monad\<close>
named_theorems wf_rules \<open>preservation of well-formedness invariants\<close>

subsection \<open>The result monad\<close>

definition bindE :: "'e + 'a \<Rightarrow> ('a \<Rightarrow> 'e + 'b) \<Rightarrow> 'e + 'b" where
  "bindE m f = (case m of Inl e \<Rightarrow> Inl e | Inr x \<Rightarrow> f x)"

definition guardE :: "'e \<Rightarrow> bool \<Rightarrow> 'e + unit" where
  "guardE e b = (if b then Inr () else Inl e)"

definition optE :: "'e \<Rightarrow> 'a option \<Rightarrow> 'e + 'a" where
  "optE e m = (case m of None \<Rightarrow> Inl e | Some x \<Rightarrow> Inr x)"

definition okE :: "'e + 'a \<Rightarrow> bool" where
  "okE m = (case m of Inl _ \<Rightarrow> False | Inr _ \<Rightarrow> True)"

primrec foldE :: "('a \<Rightarrow> 's \<Rightarrow> 'e + 's) \<Rightarrow> 'a list \<Rightarrow> 's \<Rightarrow> 'e + 's" where
  "foldE f [] s = Inr s"
| "foldE f (x # xs) s = bindE (f x s) (foldE f xs)"

lemma bindE_Inl [simp, result_simps]: "bindE (Inl e) f = Inl e"
  by (simp add: bindE_def)

lemma bindE_Inr [simp, result_simps]: "bindE (Inr x) f = f x"
  by (simp add: bindE_def)

lemma bindE_eq_Inr [result_simps]: "bindE m f = Inr y \<longleftrightarrow> (\<exists>x. m = Inr x \<and> f x = Inr y)"
  by (cases m) auto

lemma bindE_eq_Inl: "bindE m f = Inl e \<longleftrightarrow> m = Inl e \<or> (\<exists>x. m = Inr x \<and> f x = Inl e)"
  by (cases m) auto

lemma guardE_True [simp]: "guardE e True = Inr ()"
  by (simp add: guardE_def)

lemma guardE_False [simp]: "guardE e False = Inl e"
  by (simp add: guardE_def)

lemma guardE_eq_Inr [simp, result_simps]: "guardE e b = Inr u \<longleftrightarrow> b"
  by (cases b) auto

lemma guardE_eq_Inl [simp]: "guardE e b = Inl e' \<longleftrightarrow> \<not> b \<and> e' = e"
  by (cases b) auto

lemma optE_simps [simp, result_simps]: "optE e None = Inl e" "optE e (Some x) = Inr x"
  by (simp_all add: optE_def)

lemma optE_eq_Inr [simp, result_simps]: "optE e m = Inr x \<longleftrightarrow> m = Some x"
  by (cases m) auto

lemma okE_simps [simp]: "okE (Inl e) = False" "okE (Inr x) = True"
  by (simp_all add: okE_def)

lemma okE_iff: "okE m \<longleftrightarrow> (\<exists>x. m = Inr x)"
  by (cases m) auto

lemma foldE_append: "foldE f (xs @ ys) s = bindE (foldE f xs s) (foldE f ys)"
  by (induction xs arbitrary: s) (auto simp: bindE_def split: sum.splits)

text \<open>An invariant kept by each step of a fold is kept by the fold.\<close>

lemma foldE_invariant:
  assumes "\<And>x s s'. P s \<Longrightarrow> x \<in> set xs \<Longrightarrow> f x s = Inr s' \<Longrightarrow> P s'"
    and "P s" and "foldE f xs s = Inr s'"
  shows "P s'"
  using assms
proof (induction xs arbitrary: s)
  case Nil
  then show ?case by simp
next
  case (Cons x xs)
  from Cons.prems(3) obtain t where t: "f x s = Inr t" "foldE f xs t = Inr s'"
    by (auto simp: result_simps)
  from Cons.prems(1,2) t(1) have "P t" by (meson list.set_intros(1))
  from Cons.IH [OF _ this t(2)] Cons.prems(1) show ?case by (meson list.set_intros(2))
qed

text \<open>A fold of steps that succeed on related states succeeds.\<close>

lemma foldE_total:
  assumes step: "\<And>x t. R s t \<Longrightarrow> x \<in> set xs \<Longrightarrow> \<exists>t'. f x t = Inr t' \<and> R t t'"
    and trans: "\<And>a b c. R a b \<Longrightarrow> R b c \<Longrightarrow> R a c" and refl: "R s s"
  shows "\<exists>t. foldE f xs s = Inr t \<and> R s t"
proof -
  have "\<exists>t'. foldE f ys t = Inr t' \<and> R s t'" if "R s t" "set ys \<subseteq> set xs" for ys t
    using that
  proof (induction ys arbitrary: t)
    case (Cons y ys)
    with step obtain u where u: "f y t = Inr u" "R t u" by force
    with Cons trans have "R s u" by blast
    with Cons u show ?case by auto
  qed simp
  with refl show ?thesis by blast
qed

text \<open>Changing the error, where one component calls another.\<close>

definition mapE :: "('e \<Rightarrow> 'f) \<Rightarrow> 'e + 'a \<Rightarrow> 'f + 'a" where
  "mapE f m = (case m of Inl e \<Rightarrow> Inl (f e) | Inr x \<Rightarrow> Inr x)"

lemma mapE_simps [simp, result_simps]: "mapE f (Inl e) = Inl (f e)" "mapE f (Inr x) = Inr x"
  by (simp_all add: mapE_def)

lemma mapE_eq_Inr [simp, result_simps]: "mapE f m = Inr x \<longleftrightarrow> m = Inr x"
  by (cases m) auto

subsection \<open>Lists\<close>

lemma takeWhile_filter_sorted:
  assumes "sorted_wrt (\<lambda>x y. P y \<longrightarrow> P x) xs"
  shows "takeWhile P (filter Q xs) = filter Q (takeWhile P xs)"
  using assms
proof (induction xs)
  case Nil
  then show ?case by simp
next
  case (Cons x xs)
  show ?case
  proof (cases "P x")
    case True
    with Cons show ?thesis by simp
  next
    case False
    with Cons.prems have "\<forall>y \<in> set xs. \<not> P y" by auto
    then have "\<forall>y \<in> set (filter Q xs). \<not> P y" by simp
    then have "takeWhile P (filter Q xs) = []" by (cases "filter Q xs") auto
    with False show ?thesis by simp
  qed
qed

lemma dropWhile_filter_sorted:
  assumes "sorted_wrt (\<lambda>x y. P y \<longrightarrow> P x) xs"
  shows "dropWhile P (filter Q xs) = filter Q (dropWhile P xs)"
proof -
  have "takeWhile P (filter Q xs) @ dropWhile P (filter Q xs)
      = filter Q (takeWhile P xs) @ filter Q (dropWhile P xs)"
    by (simp flip: filter_append)
  then show ?thesis by (simp add: takeWhile_filter_sorted [OF assms])
qed

subsection \<open>Chains: singly linked lists given by their successor function\<close>

text \<open>
  \<open>path f a xs\<close>: following \<open>f\<close> from \<open>a\<close> one meets exactly \<open>xs\<close>, in order;
  \<open>chain f a xs\<close>: moreover the last one has no successor.
\<close>

primrec path :: "('a \<Rightarrow> 'a option) \<Rightarrow> 'a \<Rightarrow> 'a list \<Rightarrow> bool" where
  "path f a [] \<longleftrightarrow> True"
| "path f a (x # xs) \<longleftrightarrow> f a = Some x \<and> path f x xs"

definition chain :: "('a \<Rightarrow> 'a option) \<Rightarrow> 'a \<Rightarrow> 'a list \<Rightarrow> bool" where
  "chain f a xs \<longleftrightarrow> path f a xs \<and> f (last (a # xs)) = None"

lemma path_append: "path f a (xs @ ys) \<longleftrightarrow> path f a xs \<and> path f (last (a # xs)) ys"
  by (induction xs arbitrary: a) auto

lemma chain_Nil [simp]: "chain f a [] \<longleftrightarrow> f a = None"
  by (simp add: chain_def)

lemma chain_Cons [simp]: "chain f a (x # xs) \<longleftrightarrow> f a = Some x \<and> chain f x xs"
  by (auto simp: chain_def)

lemma chain_append: "chain f a (xs @ ys) \<longleftrightarrow> path f a xs \<and> chain f (last (a # xs)) ys"
  by (induction xs arbitrary: a) auto

lemma path_cong: "(\<And>x. x \<in> set (butlast (a # xs)) \<Longrightarrow> f x = g x) \<Longrightarrow> path f a xs = path g a xs"
  by (induction xs arbitrary: a) auto

lemma chain_cong: "(\<And>x. x \<in> set (a # xs) \<Longrightarrow> f x = g x) \<Longrightarrow> chain f a xs = chain g a xs"
  by (induction xs arbitrary: a) auto

lemma chain_last: "chain f a xs \<Longrightarrow> f (last (a # xs)) = None"
  by (simp only: chain_def)

lemma chain_next: "chain f a (xs @ ys) \<Longrightarrow> f (last (a # xs)) = (case ys of [] \<Rightarrow> None | y # _ \<Rightarrow> Some y)"
  by (cases ys) (simp_all add: chain_append chain_last del: last.simps)

lemma last_in_set_Cons: "last (a # xs) \<in> set (a # xs)"
  by (rule last_in_set) simp

lemma set_butlast_Cons_distinct:
  "distinct (a # xs @ ys) \<Longrightarrow> x \<in> set (butlast (a # xs)) \<Longrightarrow> x \<noteq> last (a # xs) \<and> x \<notin> set ys"
proof (induction xs rule: rev_induct)
  case Nil
  then show ?case by simp
next
  case (snoc z zs)
  then show ?case by (auto simp: butlast_append split: if_splits)
qed

text \<open>Splicing one node into a chain and taking one out.\<close>

lemma chain_insert:
  assumes "chain f a (xs @ ys)" and "distinct (a # xs @ ys)" and "n \<notin> set (a # xs @ ys)"
  shows "chain (f(last (a # xs) := Some n, n := f (last (a # xs)))) a (xs @ n # ys)"
proof -
  let ?l = "last (a # xs)"
  let ?g = "f(?l := Some n, n := f ?l)"
  have l: "?l \<in> set (a # xs)" by (rule last_in_set_Cons)
  with assms(3) have ln: "?l \<noteq> n" by auto
  from l assms(2) have ly: "?l \<notin> set ys" by (auto simp del: last.simps)
  have "path ?g a xs = path f a xs"
  proof (rule path_cong)
    fix x assume x: "x \<in> set (butlast (a # xs))"
    then have "x \<in> set (a # xs)" by (rule in_set_butlastD)
    with assms(3) have "x \<noteq> n" by auto
    with set_butlast_Cons_distinct [OF assms(2) x] show "?g x = f x" by (simp del: last.simps)
  qed
  moreover from assms(1) have "chain ?g n ys"
  proof (cases ys)
    case Nil
    with chain_next [OF assms(1)] show ?thesis by (simp del: last.simps)
  next
    case (Cons y zs)
    with assms(1) have "chain f y zs" "f ?l = Some y" by (simp_all add: chain_append del: last.simps)
    moreover have "chain ?g y zs = chain f y zs"
      by (rule chain_cong) (use ly assms(3) Cons in \<open>auto simp del: last.simps\<close>)
    ultimately show ?thesis using Cons by simp
  qed
  ultimately show ?thesis using assms(1) ln by (simp add: chain_append del: last.simps)
qed

lemma chain_remove:
  assumes "chain f a (xs @ d # ys)" and "distinct (a # xs @ d # ys)"
  shows "chain (f(last (a # xs) := f d)) a (xs @ ys)"
proof -
  let ?l = "last (a # xs)"
  let ?g = "f(?l := f d)"
  have l: "?l \<in> set (a # xs)" by (rule last_in_set_Cons)
  with assms(2) have ly: "?l \<notin> set (d # ys)" by (auto simp del: last.simps)
  have "path ?g a xs = path f a xs"
    by (rule path_cong) (use set_butlast_Cons_distinct [OF assms(2)] in \<open>auto simp del: last.simps\<close>)
  moreover from assms(1) have "chain f d ys" by (simp add: chain_append del: last.simps)
  then have "chain ?g ?l ys"
  proof (cases ys)
    case Nil
    with \<open>chain f d ys\<close> show ?thesis by simp
  next
    case (Cons y zs)
    have "chain ?g y zs = chain f y zs"
      by (rule chain_cong) (use ly Cons in \<open>auto simp del: last.simps\<close>)
    with \<open>chain f d ys\<close> Cons show ?thesis by simp
  qed
  ultimately show ?thesis using assms(1) by (simp add: chain_append del: last.simps)
qed

subsection \<open>Majorities\<close>

text \<open>Two subsets of \<open>{..<n}\<close> with more than half of the members each share one.\<close>

lemma majorities_meet:
  fixes A B :: "nat set"
  assumes "A \<subseteq> {..<n}" and "B \<subseteq> {..<n}" and "n div 2 + 1 \<le> card A" and "n div 2 + 1 \<le> card B"
  shows "\<exists>x. x \<in> A \<and> x \<in> B"
proof (rule ccontr)
  assume "\<not> ?thesis"
  then have disj: "A \<inter> B = {}" by blast
  have fin: "finite A" "finite B" using assms(1,2) finite_subset by blast+
  have "card (A \<union> B) = card A + card B" by (rule card_Un_disjoint [OF fin disj])
  moreover have "card (A \<union> B) \<le> n"
    using card_mono [of "{..<n}" "A \<union> B"] assms(1,2) by simp
  ultimately show False using assms(3,4) by linarith
qed

end
