(* ===== verification/SkipList.thy ===== *)
theory SkipList
  imports Prelude
begin

text \<open>
  The ordered store of the key-value server (\<open>src/skipList/include/skipList.h\<close>): nodes with an
  array of forward pointers, a header node, and the pointer surgery of \<open>insert_element\<close>,
  \<open>delete_element\<close> and \<open>search_element\<close>, on an explicit heap. A pointer is \<open>nat option\<close>
  (\<open>None\<close> is NULL), an address indexes the heap, \<open>new\<close> appends a cell and \<open>delete\<close> empties one,
  so that following a dangling pointer, a NULL pointer or an index outside an array is an error
  of the model and never a value. The mutex and the console output are left out.
\<close>

section \<open>Model\<close>

subsection \<open>Nodes and the heap\<close>

datatype heap_error = NullPointer | BadPointer | OutOfBounds | NoFuel

record ('k, 'v) Node =
  nkey :: 'k
  nvalue :: 'v
  node_level :: nat
  forward :: "nat option list"

type_synonym ('k, 'v) heap = "('k, 'v) Node option list"

record ('k, 'v) SkipList =
  heap :: "('k, 'v) heap"
  max_level :: nat
  skip_list_level :: nat
  header :: nat
  element_count :: int

text \<open>\<open>Node::Node(k, v, level)\<close>: the array has \<open>level + 1\<close> NULL entries.\<close>

definition Node_new :: "'k \<Rightarrow> 'v \<Rightarrow> nat \<Rightarrow> ('k, 'v) Node" where
  "Node_new k v level =
     \<lparr>nkey = k, nvalue = v, node_level = level, forward = replicate (level + 1) None\<rparr>"

definition hget :: "('k, 'v) heap \<Rightarrow> nat \<Rightarrow> ('k, 'v) Node option" where
  "hget h a = (if a < length h then h ! a else None)"

definition deref :: "('k, 'v) heap \<Rightarrow> nat \<Rightarrow> heap_error + ('k, 'v) Node" where
  "deref h a = optE BadPointer (hget h a)"

text \<open>Reading and writing \<open>a->forward[i]\<close>.\<close>

definition get_forward :: "('k, 'v) heap \<Rightarrow> nat \<Rightarrow> nat \<Rightarrow> heap_error + nat option" where
  "get_forward h a i =
     bindE (deref h a) (\<lambda>n. bindE (guardE OutOfBounds (i < length (forward n)))
       (\<lambda>_. Inr (forward n ! i)))"

definition set_forward :: "nat \<Rightarrow> nat \<Rightarrow> nat option \<Rightarrow> ('k, 'v) heap \<Rightarrow> heap_error + ('k, 'v) heap" where
  "set_forward a i p h =
     bindE (deref h a) (\<lambda>n. bindE (guardE OutOfBounds (i < length (forward n)))
       (\<lambda>_. Inr (h[a := Some (n\<lparr>forward := (forward n)[i := p]\<rparr>)])))"

text \<open>\<open>SkipList::create_node\<close>: a fresh cell at the end of the heap.\<close>

definition create_node :: "'k \<Rightarrow> 'v \<Rightarrow> nat \<Rightarrow> ('k, 'v) heap \<Rightarrow> nat \<times> ('k, 'v) heap" where
  "create_node k v level h = (length h, h @ [Some (Node_new k v level)])"

text \<open>
  \<open>SkipList::SkipList(max_level)\<close>. The header's key and value are default-constructed and
  never read: they are arguments here.
\<close>

definition SkipList_new :: "'k \<Rightarrow> 'v \<Rightarrow> nat \<Rightarrow> ('k, 'v) SkipList" where
  "SkipList_new k v ml =
     \<lparr>heap = [Some (Node_new k v ml)], max_level = ml, skip_list_level = 0, header = 0,
      element_count = 0\<rparr>"

subsection \<open>Search\<close>

text \<open>
  The inner loop: while \<open>current->forward[i]\<close> exists and its key is smaller, move on. The fuel
  bounds the number of moves; one more than the number of cells of the heap is always enough
  on a well-formed list.
\<close>

fun advance :: "nat \<Rightarrow> ('k::linorder, 'v) heap \<Rightarrow> 'k \<Rightarrow> nat \<Rightarrow> nat \<Rightarrow> heap_error + nat" where
  "advance 0 h key i current = Inl NoFuel"
| "advance (Suc fuel) h key i current =
     bindE (get_forward h current i) (\<lambda>p. case p of
       None \<Rightarrow> Inr current
     | Some a \<Rightarrow> bindE (deref h a) (\<lambda>n.
         if nkey n < key then advance fuel h key i a else Inr current))"

text \<open>\<open>update[i] = p\<close> on the local array of \<open>_max_level + 1\<close> pointers.\<close>

definition set_update :: "nat \<Rightarrow> nat option \<Rightarrow> nat option list \<Rightarrow> heap_error + nat option list" where
  "set_update i p update = (if i < length update then Inr (update[i := p]) else Inl OutOfBounds)"

definition get_update :: "nat option list \<Rightarrow> nat \<Rightarrow> heap_error + nat" where
  "get_update update i =
     (if i < length update then optE NullPointer (update ! i) else Inl OutOfBounds)"

text \<open>The descent over the levels, with and without recording \<open>update\<close>.\<close>

fun descend ::
  "('k::linorder, 'v) heap \<Rightarrow> 'k \<Rightarrow> nat \<Rightarrow> nat \<Rightarrow> nat option list
   \<Rightarrow> heap_error + nat \<times> nat option list" where
  "descend h key 0 current update =
     bindE (advance (Suc (length h)) h key 0 current) (\<lambda>c.
     bindE (set_update 0 (Some c) update) (\<lambda>u. Inr (c, u)))"
| "descend h key (Suc i) current update =
     bindE (advance (Suc (length h)) h key (Suc i) current) (\<lambda>c.
     bindE (set_update (Suc i) (Some c) update) (\<lambda>u. descend h key i c u))"

fun descend_search :: "('k::linorder, 'v) heap \<Rightarrow> 'k \<Rightarrow> nat \<Rightarrow> nat \<Rightarrow> heap_error + nat" where
  "descend_search h key 0 current = advance (Suc (length h)) h key 0 current"
| "descend_search h key (Suc i) current =
     bindE (advance (Suc (length h)) h key (Suc i) current) (descend_search h key i)"

text \<open>\<open>search_element\<close>: \<open>Some v\<close> for true with \<open>v\<close> stored in the out parameter, \<open>None\<close> for false.\<close>

definition search_element :: "'k::linorder \<Rightarrow> ('k, 'v) SkipList \<Rightarrow> heap_error + 'v option" where
  "search_element key sl =
     bindE (descend_search (heap sl) key (skip_list_level sl) (header sl)) (\<lambda>c.
     bindE (get_forward (heap sl) c 0) (\<lambda>p. case p of
       None \<Rightarrow> Inr None
     | Some a \<Rightarrow> bindE (deref (heap sl) a) (\<lambda>n.
         if nkey n = key then Inr (Some (nvalue n)) else Inr None)))"

subsection \<open>Insertion\<close>

text \<open>
  \<open>get_random_level\<close>: the successive results of \<open>rand()\<close> are the list argument; a list with
  odd numbers only would keep the loop going and is reported as \<open>NoFuel\<close>.
\<close>

fun random_loop :: "int list \<Rightarrow> nat \<Rightarrow> heap_error + nat" where
  "random_loop [] k = Inl NoFuel"
| "random_loop (r # rs) k = (if r mod 2 \<noteq> 0 then random_loop rs (k + 1) else Inr k)"

definition get_random_level :: "int list \<Rightarrow> ('k, 'v) SkipList \<Rightarrow> heap_error + nat" where
  "get_random_level rs sl =
     bindE (random_loop rs 1) (\<lambda>k. Inr (if k < max_level sl then k else max_level sl))"

text \<open>\<open>for (i = _skip_list_level + 1; i < random_level + 1; i++) update[i] = _header\<close>.\<close>

definition raise_update :: "nat \<Rightarrow> nat \<Rightarrow> nat \<Rightarrow> nat option list \<Rightarrow> heap_error + nat option list" where
  "raise_update lo hi hdr update = foldE (\<lambda>i u. set_update i (Some hdr) u) [lo ..< hi] update"

text \<open>The linking loop body at level \<open>i\<close>, for the new node \<open>n\<close>.\<close>

definition link_level :: "nat option list \<Rightarrow> nat \<Rightarrow> nat \<Rightarrow> ('k, 'v) heap \<Rightarrow> heap_error + ('k, 'v) heap" where
  "link_level update n i h =
     bindE (get_update update i) (\<lambda>u.
     bindE (get_forward h u i) (\<lambda>p.
     bindE (set_forward n i p h) (\<lambda>h'. set_forward u i (Some n) h')))"

definition insert_element ::
  "'k::linorder \<Rightarrow> 'v \<Rightarrow> int list \<Rightarrow> ('k, 'v) SkipList \<Rightarrow> heap_error + int \<times> ('k, 'v) SkipList" where
  "insert_element key val rs sl =
     bindE (descend (heap sl) key (skip_list_level sl) (header sl)
              (replicate (max_level sl + 1) None)) (\<lambda>(c, update).
     bindE (get_forward (heap sl) c 0) (\<lambda>p.
     bindE (case p of None \<Rightarrow> Inr False
            | Some a \<Rightarrow> bindE (deref (heap sl) a) (\<lambda>n. Inr (nkey n = key))) (\<lambda>found.
     if found then Inr (1, sl)
     else
       bindE (get_random_level rs sl) (\<lambda>random_level.
       bindE (if random_level > skip_list_level sl
              then raise_update (skip_list_level sl + 1) (random_level + 1) (header sl) update
              else Inr update) (\<lambda>update'.
       let level' = (if random_level > skip_list_level sl then random_level
                     else skip_list_level sl);
           (n, h) = create_node key val random_level (heap sl) in
       bindE (foldE (link_level update' n) [0 ..< random_level + 1] h) (\<lambda>h'.
       Inr (0, sl\<lparr>heap := h', skip_list_level := level',
                  element_count := element_count sl + 1\<rparr>)))))))"

subsection \<open>Deletion\<close>

text \<open>
  The unlinking loop over the levels in the list, from \<open>i = 0\<close> to \<open>_skip_list_level\<close>; it
  stops at the first level on which \<open>update[i]\<close> does not point to the node.
\<close>

fun unlink :: "nat option list \<Rightarrow> nat \<Rightarrow> nat list \<Rightarrow> ('k, 'v) heap \<Rightarrow> heap_error + ('k, 'v) heap" where
  "unlink update current [] h = Inr h"
| "unlink update current (i # is) h =
     bindE (get_update update i) (\<lambda>u.
     bindE (get_forward h u i) (\<lambda>p.
       if p \<noteq> Some current then Inr h
       else bindE (get_forward h current i) (\<lambda>q.
            bindE (set_forward u i q h) (unlink update current is))))"

text \<open>\<open>while (_skip_list_level > 0 && _header->forward[_skip_list_level] == 0) _skip_list_level--\<close>.\<close>

fun shrink_level :: "('k, 'v) heap \<Rightarrow> nat \<Rightarrow> nat \<Rightarrow> heap_error + nat" where
  "shrink_level h hdr 0 = Inr 0"
| "shrink_level h hdr (Suc l) =
     bindE (get_forward h hdr (Suc l)) (\<lambda>p. if p = None then shrink_level h hdr l else Inr (Suc l))"

definition free_node :: "nat \<Rightarrow> ('k, 'v) heap \<Rightarrow> heap_error + ('k, 'v) heap" where
  "free_node a h = bindE (deref h a) (\<lambda>_. Inr (h[a := None]))"

definition delete_element :: "'k::linorder \<Rightarrow> ('k, 'v) SkipList \<Rightarrow> heap_error + ('k, 'v) SkipList" where
  "delete_element key sl =
     bindE (descend (heap sl) key (skip_list_level sl) (header sl)
              (replicate (max_level sl + 1) None)) (\<lambda>(c, update).
     bindE (get_forward (heap sl) c 0) (\<lambda>p. case p of
       None \<Rightarrow> Inr sl
     | Some current \<Rightarrow>
         bindE (deref (heap sl) current) (\<lambda>n.
         if nkey n \<noteq> key then Inr sl
         else
           bindE (unlink update current [0 ..< skip_list_level sl + 1] (heap sl)) (\<lambda>h.
           bindE (shrink_level h (header sl) (skip_list_level sl)) (\<lambda>level'.
           bindE (free_node current h) (\<lambda>h'.
           Inr (sl\<lparr>heap := h', skip_list_level := level',
                   element_count := element_count sl - 1\<rparr>)))))))"

subsection \<open>Insertion with replacement, size, dump and load, destruction\<close>

definition insert_set_element ::
  "'k::linorder \<Rightarrow> 'v \<Rightarrow> int list \<Rightarrow> ('k, 'v) SkipList \<Rightarrow> heap_error + ('k, 'v) SkipList" where
  "insert_set_element key val rs sl =
     bindE (search_element key sl) (\<lambda>r.
     bindE (case r of Some _ \<Rightarrow> delete_element key sl | None \<Rightarrow> Inr sl) (\<lambda>sl'.
     bindE (insert_element key val rs sl') (\<lambda>(_, sl''). Inr sl'')))"

definition size_sl :: "('k, 'v) SkipList \<Rightarrow> int" where
  "size_sl sl = element_count sl"

text \<open>\<open>SkipListDump\<close>: two parallel vectors; \<open>SkipListDump::insert\<close> appends to both.\<close>

record ('k, 'v) SkipListDump =
  keyDumpVt :: "'k list"
  valDumpVt :: "'v list"

definition dump_insert :: "('k, 'v) Node \<Rightarrow> ('k, 'v) SkipListDump \<Rightarrow> ('k, 'v) SkipListDump" where
  "dump_insert n d = \<lparr>keyDumpVt = keyDumpVt d @ [nkey n], valDumpVt = valDumpVt d @ [nvalue n]\<rparr>"

text \<open>The loop of \<open>dump_file\<close> along level 0.\<close>

fun dump_loop ::
  "nat \<Rightarrow> ('k, 'v) heap \<Rightarrow> nat option \<Rightarrow> ('k, 'v) SkipListDump \<Rightarrow> heap_error + ('k, 'v) SkipListDump" where
  "dump_loop fuel h None d = Inr d"
| "dump_loop 0 h (Some a) d = Inl NoFuel"
| "dump_loop (Suc fuel) h (Some a) d =
     bindE (deref h a) (\<lambda>n. bindE (get_forward h a 0) (\<lambda>p. dump_loop fuel h p (dump_insert n d)))"

definition dump_data :: "('k, 'v) SkipList \<Rightarrow> heap_error + ('k, 'v) SkipListDump" where
  "dump_data sl =
     bindE (get_forward (heap sl) (header sl) 0) (\<lambda>p.
       dump_loop (length (heap sl)) (heap sl) p \<lparr>keyDumpVt = [], valDumpVt = []\<rparr>)"

text \<open>
  \<open>dump_file\<close> and \<open>load_file\<close>: the text archive of Boost is the pair of arguments
  \<open>oarchive\<close>, \<open>iarchive\<close> (\<open>None\<close> where reading throws). \<open>load_file\<close> is for a list whose keys
  and values have the same type, as in the server, and inserts the \<^emph>\<open>key\<close> as the value, as
  the code does (line 264). Each insertion draws its own random numbers: \<open>rss\<close>.
\<close>

definition dump_file ::
  "(('k, 'v) SkipListDump \<Rightarrow> string) \<Rightarrow> ('k, 'v) SkipList \<Rightarrow> heap_error + string" where
  "dump_file oarchive sl = bindE (dump_data sl) (\<lambda>d. Inr (oarchive d))"

fun load_loop ::
  "'k::linorder list \<Rightarrow> int list list \<Rightarrow> ('k, 'k) SkipList \<Rightarrow> heap_error + ('k, 'k) SkipList" where
  "load_loop [] rss sl = Inr sl"
| "load_loop (k # ks) [] sl = Inl NoFuel"
| "load_loop (k # ks) (rs # rss) sl = bindE (insert_element k k rs sl) (\<lambda>(_, sl'). load_loop ks rss sl')"

definition load_file ::
  "(string \<Rightarrow> ('k::linorder, 'k) SkipListDump option) \<Rightarrow> string \<Rightarrow> int list list
   \<Rightarrow> ('k, 'k) SkipList \<Rightarrow> heap_error + ('k, 'k) SkipList" where
  "load_file iarchive dumpStr rss sl =
     (if dumpStr = [] then Inr sl
      else bindE (optE BadPointer (iarchive dumpStr)) (\<lambda>d. load_loop (keyDumpVt d) rss sl))"

text \<open>\<open>clear\<close> recurses along level 0 and deletes on the way back; the destructor deletes the header last.\<close>

fun clear_nodes :: "nat \<Rightarrow> nat \<Rightarrow> ('k, 'v) heap \<Rightarrow> heap_error + ('k, 'v) heap" where
  "clear_nodes 0 cur h = Inl NoFuel"
| "clear_nodes (Suc fuel) cur h =
     bindE (get_forward h cur 0) (\<lambda>p.
     bindE (case p of None \<Rightarrow> Inr h | Some a \<Rightarrow> clear_nodes fuel a h) (free_node cur))"

definition SkipList_destroy :: "('k, 'v) SkipList \<Rightarrow> heap_error + ('k, 'v) heap" where
  "SkipList_destroy sl =
     bindE (get_forward (heap sl) (header sl) 0) (\<lambda>p.
     bindE (case p of None \<Rightarrow> Inr (heap sl)
            | Some a \<Rightarrow> clear_nodes (length (heap sl)) a (heap sl)) (free_node (header sl)))"

subsection \<open>The text helpers\<close>

text \<open>\<open>str.find(delimiter)\<close> for the one-character delimiter \<open>":"\<close>.\<close>

fun find_char :: "char \<Rightarrow> string \<Rightarrow> nat option" where
  "find_char c [] = None"
| "find_char c (x # xs) = (if x = c then Some 0 else map_option Suc (find_char c xs))"

definition is_valid_string :: "string \<Rightarrow> bool" where
  "is_valid_string str =
     (if str = [] then False else if find_char CHR '':'' str = None then False else True)"

definition get_key_value_from_string :: "string \<Rightarrow> (string \<times> string) option" where
  "get_key_value_from_string str =
     (if \<not> is_valid_string str then None
      else case find_char CHR '':'' str of
             None \<Rightarrow> None
           | Some i \<Rightarrow> Some (take i str, drop (i + 1) str))"

end
