(* ===== verification/SkipListInv.thy ===== *)
theory SkipListInv
  imports SkipList
begin

text \<open>
  The representation invariant of the skip list of \<open>SkipList\<close> and the descent of its search:
  on a well-formed list, level \<open>i\<close> is the chain of the nodes whose height is at least \<open>i\<close>,
  and the search finds, on each level, the last node with a smaller key.
\<close>

section \<open>Reading the heap\<close>

definition nxt :: "('k, 'v) heap \<Rightarrow> nat \<Rightarrow> nat \<Rightarrow> nat option" where
  "nxt h i a = forward (the (hget h a)) ! i"

definition keyof :: "('k, 'v) heap \<Rightarrow> nat \<Rightarrow> 'k" where
  "keyof h a = nkey (the (hget h a))"

definition valof :: "('k, 'v) heap \<Rightarrow> nat \<Rightarrow> 'v" where
  "valof h a = nvalue (the (hget h a))"

definition lvlof :: "('k, 'v) heap \<Rightarrow> nat \<Rightarrow> nat" where
  "lvlof h a = node_level (the (hget h a))"

definition fwd_len :: "('k, 'v) heap \<Rightarrow> nat \<Rightarrow> nat" where
  "fwd_len h a = length (forward (the (hget h a)))"

definition live :: "('k, 'v) heap \<Rightarrow> nat \<Rightarrow> bool" where
  "live h a \<longleftrightarrow> hget h a \<noteq> None"

text \<open>Two heaps that differ in forward pointers only.\<close>

definition same_shape :: "('k, 'v) heap \<Rightarrow> ('k, 'v) heap \<Rightarrow> bool" where
  "same_shape h h' \<longleftrightarrow>
     length h = length h' \<and> live h = live h' \<and> keyof h = keyof h' \<and> valof h = valof h'
     \<and> lvlof h = lvlof h' \<and> fwd_len h = fwd_len h'"

lemma same_shape_refl [simp]: "same_shape h h"
  by (simp add: same_shape_def)

lemma same_shape_trans: "same_shape h h' \<Longrightarrow> same_shape h' h'' \<Longrightarrow> same_shape h h''"
  by (simp add: same_shape_def)

lemma live_less: "live h a \<Longrightarrow> a < length h"
  by (auto simp: live_def hget_def split: if_splits)

lemma deref_live: "live h a \<Longrightarrow> deref h a = Inr (the (hget h a))"
  by (auto simp: live_def deref_def)

lemma get_forward_live:
  "live h a \<Longrightarrow> i < fwd_len h a \<Longrightarrow> get_forward h a i = Inr (nxt h i a)"
  by (simp add: get_forward_def deref_live fwd_len_def nxt_def guardE_def)

lemma hget_upd: "a < length h \<Longrightarrow> hget (h[a := x]) b = (if b = a then x else hget h b)"
  by (auto simp: hget_def)

lemma hget_append: "hget (h @ [x]) b = (if b = length h then x else hget h b)"
  by (auto simp: hget_def nth_append)

lemma set_forward_live:
  assumes "live h a" and "i < fwd_len h a"
  obtains h' where "set_forward a i p h = Inr h'" and "same_shape h h'"
    and "\<And>j b. nxt h' j b = (if j = i \<and> b = a then p else nxt h j b)"
proof -
  let ?n = "the (hget h a)"
  let ?h' = "h[a := Some (?n\<lparr>forward := (forward ?n)[i := p]\<rparr>)]"
  have a: "a < length h" using assms(1) by (rule live_less)
  have "set_forward a i p h = Inr ?h'"
    using assms by (simp add: set_forward_def deref_live fwd_len_def guardE_def)
  moreover have "same_shape h ?h'"
    using assms(1) unfolding same_shape_def fun_eq_iff
    by (auto simp: live_def keyof_def valof_def lvlof_def fwd_len_def hget_upd [OF a])
  moreover have "nxt ?h' j b = (if j = i \<and> b = a then p else nxt h j b)" for j b
    using assms(2) by (auto simp: nxt_def hget_upd [OF a] fwd_len_def nth_list_update)
  ultimately show thesis by (rule that)
qed

section \<open>The invariant\<close>

definition level_list :: "('k, 'v) heap \<Rightarrow> nat \<Rightarrow> nat list \<Rightarrow> nat list" where
  "level_list h i as = filter (\<lambda>a. i \<le> lvlof h a) as"

definition sl_inv :: "('k::linorder, 'v) SkipList \<Rightarrow> nat list \<Rightarrow> bool" where
  "sl_inv sl as \<longleftrightarrow>
     distinct (header sl # as)
   \<and> (\<forall>a. live (heap sl) a \<longleftrightarrow> a \<in> set (header sl # as))
   \<and> fwd_len (heap sl) (header sl) = max_level sl + 1
   \<and> (\<forall>a \<in> set as. fwd_len (heap sl) a = lvlof (heap sl) a + 1
        \<and> lvlof (heap sl) a \<le> skip_list_level sl)
   \<and> sorted_wrt (<) (map (keyof (heap sl)) as)
   \<and> (\<forall>i \<le> max_level sl. chain (nxt (heap sl) i) (header sl) (level_list (heap sl) i as))
   \<and> skip_list_level sl \<le> max_level sl
   \<and> (skip_list_level sl = 0 \<or> (\<exists>a \<in> set as. lvlof (heap sl) a = skip_list_level sl))
   \<and> element_count sl = int (length as)"

definition sl_ok :: "('k::linorder, 'v) SkipList \<Rightarrow> bool" where
  "sl_ok sl \<longleftrightarrow> (\<exists>as. sl_inv sl as)"

text \<open>The association list a skip list stands for, read along level 0.\<close>

definition sl_entries :: "('k, 'v) SkipList \<Rightarrow> ('k \<times> 'v) list" where
  "sl_entries sl = (case dump_data sl of Inl _ \<Rightarrow> [] | Inr d \<Rightarrow> zip (keyDumpVt d) (valDumpVt d))"

definition sl_map :: "('k, 'v) SkipList \<Rightarrow> 'k \<rightharpoonup> 'v" where
  "sl_map sl = map_of (sl_entries sl)"

lemma level_list_0 [simp]: "level_list h 0 as = as"
  by (simp add: level_list_def)

lemma set_level_list: "set (level_list h i as) = {a \<in> set as. i \<le> lvlof h a}"
  by (auto simp: level_list_def)

lemma sl_inv_liveD:
  assumes "sl_inv sl as" and "a \<in> set (header sl # as)"
  shows "live (heap sl) a"
  using assms by (simp add: sl_inv_def)

lemma sl_inv_fwd:
  assumes "sl_inv sl as" and "i \<le> max_level sl" and "a \<in> set (header sl # level_list (heap sl) i as)"
  shows "live (heap sl) a \<and> i < fwd_len (heap sl) a"
  using assms by (auto simp: sl_inv_def set_level_list)

lemma sl_inv_length:
  assumes "sl_inv sl as" shows "length as < length (heap sl)"
proof -
  have "set (header sl # as) \<subseteq> {..< length (heap sl)}"
    using assms by (auto simp: sl_inv_def intro: live_less)
  then have "card (set (header sl # as)) \<le> length (heap sl)"
    using card_mono [of "{..< length (heap sl)}"] by fastforce
  moreover have "card (set (header sl # as)) = length (header sl # as)"
    using assms by (intro distinct_card) (simp add: sl_inv_def)
  ultimately show ?thesis by simp
qed

subsection \<open>Level 0 is the abstract list\<close>

lemma dump_loop_chain:
  assumes "chain (nxt h 0) a xs" and "\<forall>x \<in> set (a # xs). live h x \<and> 0 < fwd_len h x"
    and "length xs \<le> fuel"
  shows "dump_loop fuel h (nxt h 0 a) d =
    Inr \<lparr>keyDumpVt = keyDumpVt d @ map (keyof h) xs, valDumpVt = valDumpVt d @ map (valof h) xs\<rparr>"
  using assms
proof (induction xs arbitrary: a fuel d)
  case Nil
  then show ?case by simp
next
  case (Cons x xs)
  then obtain f where f: "fuel = Suc f" by (cases fuel) auto
  with Cons show ?case
    by (simp add: deref_live get_forward_live dump_insert_def keyof_def valof_def)
qed

lemma dump_data_inv:
  assumes "sl_inv sl as"
  shows "dump_data sl = Inr \<lparr>keyDumpVt = map (keyof (heap sl)) as, valDumpVt = map (valof (heap sl)) as\<rparr>"
proof -
  have ok: "\<forall>x \<in> set (header sl # as). live (heap sl) x \<and> 0 < fwd_len (heap sl) x"
    using sl_inv_fwd [OF assms, of 0] by auto
  have "chain (nxt (heap sl) 0) (header sl) as"
    using assms by (auto simp: sl_inv_def dest: spec [of _ 0])
  from dump_loop_chain [OF this ok] sl_inv_length [OF assms] ok show ?thesis
    by (simp add: dump_data_def get_forward_live)
qed

lemma sl_entries_inv:
  assumes "sl_inv sl as"
  shows "sl_entries sl = map (\<lambda>a. (keyof (heap sl) a, valof (heap sl) a)) as"
  by (simp add: sl_entries_def dump_data_inv [OF assms] zip_map_map zip_same_conv_map)

section \<open>The descent\<close>

definition pred_at :: "('k::linorder, 'v) heap \<Rightarrow> nat \<Rightarrow> 'k \<Rightarrow> nat list \<Rightarrow> nat \<Rightarrow> nat" where
  "pred_at h hdr key as i = last (hdr # level_list h i (takeWhile (\<lambda>a. keyof h a < key) as))"

lemma advance_chain:
  assumes "chain (nxt h i) cur xs" and "\<forall>x \<in> set (cur # xs). live h x \<and> i < fwd_len h x"
    and "length xs < fuel"
  shows "advance fuel h key i cur = Inr (last (cur # takeWhile (\<lambda>a. keyof h a < key) xs))"
  using assms
proof (induction xs arbitrary: cur fuel)
  case Nil
  then obtain f where "fuel = Suc f" by (cases fuel) auto
  with Nil show ?case by (simp add: get_forward_live)
next
  case (Cons x xs)
  then obtain f where "fuel = Suc f" by (cases fuel) auto
  with Cons show ?case by (simp add: get_forward_live deref_live keyof_def)
qed

lemma chain_from:
  assumes "chain f a L" and "c \<in> set (a # takeWhile P L)"
  obtains zs where "chain f c zs" and "set zs \<subseteq> set L" and "length zs \<le> length L"
    and "last (c # takeWhile P zs) = last (a # takeWhile P L)"
proof (cases "c = a")
  case True
  with assms(1) show thesis by (intro that [of L]) auto
next
  case False
  with assms(2) obtain ys ws where tw: "takeWhile P L = ys @ c # ws"
    by (auto dest: split_list)
  let ?zs = "ws @ dropWhile P L"
  have L: "L = (ys @ [c]) @ ?zs" using takeWhile_dropWhile_id [of P L] by (simp add: tw)
  have ws: "\<forall>x \<in> set ws. P x" using set_takeWhileD [of _ P L] unfolding tw by auto
  have "takeWhile P (dropWhile P L) = []" by (induction L) auto
  with ws have tz: "takeWhile P ?zs = ws" by (simp add: takeWhile_append2)
  have "chain f c ?zs" using assms(1) by (subst (asm) L) (simp only: chain_append, simp)
  then show thesis
  proof (rule that)
    show "set ?zs \<subseteq> set L" by (subst (2) L) auto
    show "length ?zs \<le> length L" by (subst (2) L) auto
    show "last (c # takeWhile P ?zs) = last (a # takeWhile P L)" unfolding tz tw by simp
  qed
qed

lemma key_sorted:
  assumes "sl_inv sl as"
  shows "sorted_wrt (\<lambda>x y. keyof (heap sl) y < key \<longrightarrow> keyof (heap sl) x < key) as"
proof -
  have "sorted_wrt (\<lambda>x y. keyof (heap sl) x < keyof (heap sl) y) as"
    using assms by (simp add: sl_inv_def sorted_wrt_map)
  then show ?thesis by (rule sorted_wrt_mono_rel [rotated]) auto
qed

lemma level_list_takeWhile:
  assumes "sl_inv sl as"
  shows "takeWhile (\<lambda>a. keyof (heap sl) a < key) (level_list (heap sl) i as)
       = level_list (heap sl) i (takeWhile (\<lambda>a. keyof (heap sl) a < key) as)"
  unfolding level_list_def by (rule takeWhile_filter_sorted [OF key_sorted [OF assms]])

text \<open>One level of the descent, from any node at or before the wanted one.\<close>

lemma advance_level:
  assumes inv: "sl_inv sl as" and i: "i \<le> max_level sl"
    and cur: "cur \<in> set (header sl # level_list (heap sl) i
                 (takeWhile (\<lambda>a. keyof (heap sl) a < key) as))"
  shows "advance (Suc (length (heap sl))) (heap sl) key i cur
       = Inr (pred_at (heap sl) (header sl) key as i)"
proof -
  let ?h = "heap sl" let ?P = "\<lambda>a. keyof ?h a < key" let ?L = "level_list ?h i as"
  have ch: "chain (nxt ?h i) (header sl) ?L" using inv i by (simp add: sl_inv_def)
  have cur': "cur \<in> set (header sl # takeWhile ?P ?L)"
    using cur by (simp add: level_list_takeWhile [OF inv])
  obtain zs where zs: "chain (nxt ?h i) cur zs" "set zs \<subseteq> set ?L" "length zs \<le> length ?L"
      "last (cur # takeWhile ?P zs) = last (header sl # takeWhile ?P ?L)"
    using chain_from [OF ch cur'] by metis
  have ok: "\<forall>x \<in> set (cur # zs). live ?h x \<and> i < fwd_len ?h x"
    using sl_inv_fwd [OF inv i] zs(2) cur' by (auto dest: set_takeWhileD)
  have "length ?L \<le> length as" by (simp add: level_list_def)
  with zs(3) sl_inv_length [OF inv] have "length zs < Suc (length ?h)" by simp
  from advance_chain [OF zs(1) ok this] zs(4) show ?thesis
    by (simp add: pred_at_def level_list_takeWhile [OF inv])
qed

lemma pred_at_in:
  "pred_at h hdr key as i \<in> set (hdr # level_list h i (takeWhile (\<lambda>a. keyof h a < key) as))"
  unfolding pred_at_def by (rule last_in_set_Cons)

lemma pred_at_down:
  "pred_at h hdr key as (Suc i) \<in> set (hdr # level_list h i (takeWhile (\<lambda>a. keyof h a < key) as))"
  using pred_at_in [of h hdr key as "Suc i"] by (auto simp: set_level_list)

lemma descend_inv:
  assumes "sl_inv sl as" and "i \<le> max_level sl" and "length update = max_level sl + 1"
    and "cur \<in> set (header sl # level_list (heap sl) i (takeWhile (\<lambda>a. keyof (heap sl) a < key) as))"
  shows "\<exists>u. descend (heap sl) key i cur update
        = Inr (pred_at (heap sl) (header sl) key as 0, u)
      \<and> length u = max_level sl + 1
      \<and> (\<forall>j. u ! j = (if j \<le> i then Some (pred_at (heap sl) (header sl) key as j) else update ! j))"
  using assms(2-4)
proof (induction i arbitrary: cur update)
  case 0
  then show ?case
    by (simp add: advance_level [OF assms(1)] set_update_def nth_list_update del: advance.simps)
next
  case (Suc i)
  let ?p = "pred_at (heap sl) (header sl) key as (Suc i)"
  have "\<exists>u. descend (heap sl) key i ?p (update[Suc i := Some ?p])
        = Inr (pred_at (heap sl) (header sl) key as 0, u)
      \<and> length u = max_level sl + 1
      \<and> (\<forall>j. u ! j = (if j \<le> i then Some (pred_at (heap sl) (header sl) key as j)
                        else update[Suc i := Some ?p] ! j))"
    using Suc.prems by (intro Suc.IH pred_at_down) auto
  then obtain u where u: "descend (heap sl) key i ?p (update[Suc i := Some ?p])
        = Inr (pred_at (heap sl) (header sl) key as 0, u)" "length u = max_level sl + 1"
      "\<And>j. u ! j = (if j \<le> i then Some (pred_at (heap sl) (header sl) key as j)
                        else update[Suc i := Some ?p] ! j)" by blast
  have "descend (heap sl) key (Suc i) cur update = Inr (pred_at (heap sl) (header sl) key as 0, u)"
    using Suc.prems u(1) by (simp add: advance_level [OF assms(1)] set_update_def del: advance.simps)
  moreover have "u ! j = (if j \<le> Suc i then Some (pred_at (heap sl) (header sl) key as j)
                     else update ! j)" for j
    using Suc.prems(1,2) by (auto simp: u(3) le_Suc_eq)
  ultimately show ?case using u(2) by blast
qed

lemma descend_search_inv:
  assumes "sl_inv sl as" and "i \<le> max_level sl"
    and "cur \<in> set (header sl # level_list (heap sl) i (takeWhile (\<lambda>a. keyof (heap sl) a < key) as))"
  shows "descend_search (heap sl) key i cur = Inr (pred_at (heap sl) (header sl) key as 0)"
  using assms(2,3)
proof (induction i arbitrary: cur)
  case 0
  then show ?case by (simp add: advance_level [OF assms(1)] del: advance.simps)
next
  case (Suc i)
  have "descend_search (heap sl) key i (pred_at (heap sl) (header sl) key as (Suc i))
      = Inr (pred_at (heap sl) (header sl) key as 0)"
    using Suc.prems by (intro Suc.IH pred_at_down) auto
  then show ?case using Suc.prems by (simp add: advance_level [OF assms(1)] del: advance.simps)
qed

text \<open>The successor on level 0 of the node the descent ends in.\<close>

lemma pred_at_0_next:
  assumes "sl_inv sl as"
  shows "get_forward (heap sl) (pred_at (heap sl) (header sl) key as 0) 0
    = Inr (case dropWhile (\<lambda>a. keyof (heap sl) a < key) as of [] \<Rightarrow> None | a # _ \<Rightarrow> Some a)"
proof -
  let ?h = "heap sl" let ?P = "\<lambda>a. keyof ?h a < key"
  have "chain (nxt ?h 0) (header sl) (takeWhile ?P as @ dropWhile ?P as)"
    using assms by (auto simp: sl_inv_def dest: spec [of _ 0])
  from chain_next [OF this] have n: "nxt ?h 0 (pred_at ?h (header sl) key as 0)
      = (case dropWhile ?P as of [] \<Rightarrow> None | a # _ \<Rightarrow> Some a)"
    by (simp add: pred_at_def)
  have "pred_at ?h (header sl) key as 0 \<in> set (header sl # level_list ?h 0 as)"
    using pred_at_in [of ?h "header sl" key as 0] by (auto dest: set_takeWhileD)
  with sl_inv_fwd [OF assms, of 0] n show ?thesis by (simp add: get_forward_live)
qed

lemma found_iff:
  assumes "sl_inv sl as" and "dropWhile (\<lambda>a. keyof (heap sl) a < key) as = a # bs"
  shows "keyof (heap sl) a = key \<longleftrightarrow> (\<exists>x \<in> set as. keyof (heap sl) x = key)"
proof
  have "a \<in> set as" using assms(2) by (metis list.set_intros(1) set_dropWhileD)
  then show "keyof (heap sl) a = key \<Longrightarrow> \<exists>x \<in> set as. keyof (heap sl) x = key" by blast
next
  assume "\<exists>x \<in> set as. keyof (heap sl) x = key"
  then obtain x where x: "x \<in> set as" "keyof (heap sl) x = key" by blast
  let ?P = "\<lambda>a. keyof (heap sl) a < key"
  have "x \<notin> set (takeWhile ?P as)" using x(2) by (auto dest: set_takeWhileD)
  with x(1) have "x \<in> set (a # bs)"
    unfolding assms(2) [symmetric] by (metis Un_iff set_append takeWhile_dropWhile_id)
  moreover have "sorted_wrt (<) (map (keyof (heap sl)) (takeWhile ?P as @ a # bs))"
    unfolding assms(2) [symmetric] takeWhile_dropWhile_id using assms(1) by (simp add: sl_inv_def)
  then have "\<forall>b \<in> set bs. keyof (heap sl) a < keyof (heap sl) b" by (simp add: sorted_wrt_append)
  moreover have "\<not> keyof (heap sl) a < key" using assms(2) by (metis hd_dropWhile list.sel(1) list.simps(3))
  ultimately show "keyof (heap sl) a = key" using x(2) by (metis set_ConsD)
qed

lemma not_found_all:
  "dropWhile (\<lambda>a. keyof h a < key) as = [] \<Longrightarrow> x \<in> set as \<Longrightarrow> keyof h x < key"
  by (metis dropWhile_eq_Nil_conv)

section \<open>Search and construction\<close>

lemma sl_map_inv:
  assumes "sl_inv sl as" and "a \<in> set as"
  shows "sl_map sl (keyof (heap sl) a) = Some (valof (heap sl) a)"
proof -
  have "distinct (map fst (sl_entries sl))"
    using assms(1) by (simp add: sl_entries_inv [OF assms(1)] comp_def sl_inv_def strict_sorted_iff)
  moreover have "(keyof (heap sl) a, valof (heap sl) a) \<in> set (sl_entries sl)"
    using assms(2) by (auto simp: sl_entries_inv [OF assms(1)])
  ultimately show ?thesis by (simp add: sl_map_def)
qed

lemma sl_map_None:
  assumes "sl_inv sl as" and "\<forall>a \<in> set as. keyof (heap sl) a \<noteq> key"
  shows "sl_map sl key = None"
  using assms(2) by (auto simp: sl_map_def sl_entries_inv [OF assms(1)] map_of_eq_None_iff)

lemma search_inv:
  assumes "sl_inv sl as"
  shows "search_element key sl = Inr (sl_map sl key)"
proof -
  let ?h = "heap sl" let ?P = "\<lambda>a. keyof ?h a < key"
  have lvl: "skip_list_level sl \<le> max_level sl" using assms by (simp add: sl_inv_def)
  have d: "descend_search ?h key (skip_list_level sl) (header sl)
      = Inr (pred_at ?h (header sl) key as 0)"
    using descend_search_inv [OF assms lvl] by simp
  show ?thesis
  proof (cases "dropWhile ?P as")
    case Nil
    then have "\<forall>a \<in> set as. keyof ?h a \<noteq> key" using not_found_all by fastforce
    with sl_map_None [OF assms] d pred_at_0_next [OF assms, of key] Nil show ?thesis
      by (simp add: search_element_def)
  next
    case (Cons a bs)
    have a: "a \<in> set as" using Cons by (metis list.set_intros(1) set_dropWhileD)
    then have dr: "deref ?h a = Inr (the (hget ?h a))"
      using sl_inv_liveD [OF assms] by (simp add: deref_live)
    have "search_element key sl
        = (if keyof ?h a = key then Inr (Some (valof ?h a)) else Inr None)"
      using d pred_at_0_next [OF assms, of key] Cons dr
      by (simp add: search_element_def keyof_def valof_def)
    moreover have "sl_map sl key = (if keyof ?h a = key then Some (valof ?h a) else None)"
      using sl_map_inv [OF assms a] sl_map_None [OF assms, of key] found_iff [OF assms Cons] by auto
    ultimately show ?thesis by simp
  qed
qed

lemma new_inv: "sl_inv (SkipList_new k v ml) []"
proof -
  have h: "hget (heap (SkipList_new k v ml)) a = (if a = 0 then Some (Node_new k v ml) else None)" for a
    by (simp add: SkipList_new_def hget_def)
  show ?thesis
    unfolding sl_inv_def live_def fwd_len_def nxt_def h
    by (simp add: SkipList_new_def Node_new_def level_list_def nth_Cons split: nat.splits)
qed

end
