(* ===== verification/SkipListOps.thy ===== *)
theory SkipListOps
  imports SkipListInv
begin

text \<open>
  The mutating operations of the skip list: on a well-formed list, \<open>insert_element\<close> and
  \<open>delete_element\<close> return normally, keep the invariant, and act on the map the list stands for
  as an update and a removal.
\<close>

section \<open>Linking a new node\<close>

lemma link_level_live:
  assumes "i < length update" and "update ! i = Some u" and "u \<noteq> n"
    and "live h u" and "i < fwd_len h u" and "live h n" and "i < fwd_len h n"
  obtains h' where "link_level update n i h = Inr h'" and "same_shape h h'"
    and "\<And>j b. nxt h' j b = (if j = i \<and> b = u then Some n
                             else if j = i \<and> b = n then nxt h i u else nxt h j b)"
proof -
  obtain h1 where h1: "set_forward n i (nxt h i u) h = Inr h1" "same_shape h h1"
      "\<And>j b. nxt h1 j b = (if j = i \<and> b = n then nxt h i u else nxt h j b)"
    using set_forward_live [OF assms(6,7)] by metis
  have "live h1 u" "i < fwd_len h1 u" using assms(4,5) h1(2) by (simp_all add: same_shape_def)
  then obtain h2 where h2: "set_forward u i (Some n) h1 = Inr h2" "same_shape h1 h2"
      "\<And>j b. nxt h2 j b = (if j = i \<and> b = u then Some n else nxt h1 j b)"
    using set_forward_live by metis
  show thesis
  proof (rule that)
    show "link_level update n i h = Inr h2"
      using assms h1(1) h2(1) by (simp add: link_level_def get_update_def get_forward_live)
    show "same_shape h h2" using h1(2) h2(2) by (rule same_shape_trans)
    show "nxt h2 j b = (if j = i \<and> b = u then Some n
        else if j = i \<and> b = n then nxt h i u else nxt h j b)" for j b
      by (simp add: h1(3) h2(3))
  qed
qed

lemma link_loop:
  assumes "m \<le> length update"
    and "\<And>i. i < m \<Longrightarrow> update ! i = Some (p i) \<and> p i \<noteq> n \<and> live h (p i) \<and> i < fwd_len h (p i)"
    and "live h n" and "m \<le> fwd_len h n"
  shows "\<exists>h'. foldE (link_level update n) [0 ..< m] h = Inr h' \<and> same_shape h h'
    \<and> (\<forall>j b. nxt h' j b = (if j < m \<and> b = p j then Some n
                           else if j < m \<and> b = n then nxt h j (p j) else nxt h j b))"
  using assms
proof (induction m)
  case 0
  then show ?case by simp
next
  case (Suc m)
  then obtain h1 where h1: "foldE (link_level update n) [0 ..< m] h = Inr h1" "same_shape h h1"
      "\<And>j b. nxt h1 j b = (if j < m \<and> b = p j then Some n
                           else if j < m \<and> b = n then nxt h j (p j) else nxt h j b)"
    by (auto simp: less_Suc_eq)
  have pm: "update ! m = Some (p m)" "p m \<noteq> n" "live h1 (p m)" "m < fwd_len h1 (p m)"
    and n: "live h1 n" "m < fwd_len h1 n"
    using Suc.prems(2) [of m] Suc.prems(3,4) h1(2) by (auto simp: same_shape_def)
  obtain h2 where h2: "link_level update n m h1 = Inr h2" "same_shape h1 h2"
      "\<And>j b. nxt h2 j b = (if j = m \<and> b = p m then Some n
                             else if j = m \<and> b = n then nxt h1 m (p m) else nxt h1 j b)"
    using link_level_live [OF _ pm n] Suc.prems(1) by (metis Suc_le_lessD)
  have "foldE (link_level update n) [0 ..< Suc m] h = Inr h2"
    using h1(1) h2(1) by (simp add: foldE_append)
  moreover have "nxt h2 j b = (if j < Suc m \<and> b = p j then Some n
      else if j < Suc m \<and> b = n then nxt h j (p j) else nxt h j b)" for j b
    by (auto simp: h2(3) h1(3) less_Suc_eq)
  ultimately show ?case using same_shape_trans [OF h1(2) h2(2)] by blast
qed

lemma raise_update_ok:
  assumes "lo \<le> hi" and "hi \<le> length update"
  shows "\<exists>u. raise_update lo hi hdr update = Inr u \<and> length u = length update
    \<and> (\<forall>j. u ! j = (if lo \<le> j \<and> j < hi then Some hdr else update ! j))"
  using assms(1,2) unfolding raise_update_def
proof (induction hi rule: dec_induct)
  case base
  then show ?case by auto
next
  case (step m)
  then obtain u where "foldE (\<lambda>i u. set_update i (Some hdr) u) [lo ..< m] update = Inr u"
    "length u = length update" "\<And>j. u ! j = (if lo \<le> j \<and> j < m then Some hdr else update ! j)"
    by auto
  with step show ?case
    by (auto simp: foldE_append set_update_def nth_list_update less_Suc_eq)
qed

section \<open>Insertion\<close>

definition draws_end :: "int list \<Rightarrow> bool" where
  "draws_end rs \<longleftrightarrow> (\<exists>r \<in> set rs. r mod 2 = 0)"

lemma random_loop_ends: "draws_end rs \<Longrightarrow> \<exists>k'. random_loop rs k = Inr k' \<and> k \<le> k'"
proof (induction rs arbitrary: k)
  case Nil
  then show ?case by (simp add: draws_end_def)
next
  case (Cons r rs)
  show ?case
  proof (cases "r mod 2 = 0")
    case True
    then show ?thesis by simp
  next
    case False
    with Cons.prems have "draws_end rs" by (simp add: draws_end_def)
    from Cons.IH [OF this, of "k + 1"] False show ?thesis by auto
  qed
qed

lemma get_random_level_ok:
  assumes "draws_end rs"
  shows "\<exists>r. get_random_level rs sl = Inr r \<and> r \<le> max_level sl \<and> (0 < max_level sl \<longrightarrow> 0 < r)"
  using random_loop_ends [OF assms, of 1] by (auto simp: get_random_level_def)

lemma insert_present:
  assumes inv: "sl_inv sl as" and x: "x \<in> set as" "keyof (heap sl) x = key"
  shows "insert_element key val rs sl = Inr (1, sl)"
proof -
  let ?h = "heap sl" let ?P = "\<lambda>a. keyof ?h a < key"
  have lvl: "skip_list_level sl \<le> max_level sl" using inv by (simp add: sl_inv_def)
  obtain u where d: "descend ?h key (skip_list_level sl) (header sl) (replicate (max_level sl + 1) None)
      = Inr (pred_at ?h (header sl) key as 0, u)"
    using descend_inv [OF inv lvl, of "replicate (max_level sl + 1) None" "header sl"] by auto
  obtain a bs where ab: "dropWhile ?P as = a # bs"
    using x not_found_all by (metis neq_Nil_conv less_irrefl)
  then have a: "a \<in> set as" by (metis list.set_intros(1) set_dropWhileD)
  have "keyof ?h a = key" using found_iff [OF inv ab] x by blast
  with d pred_at_0_next [OF inv, of key] ab sl_inv_liveD [OF inv, of a] a show ?thesis
    by (simp add: insert_element_def deref_live keyof_def)
qed

lemma map_of_insert_sorted:
  fixes xs :: "('k::linorder \<times> 'v) list"
  assumes "k \<notin> fst ` set (xs @ ys)"
  shows "map_of (xs @ (k, v) # ys) = (map_of (xs @ ys))(k \<mapsto> v)"
  using assms by (induction xs) (auto simp: fun_eq_iff)

text \<open>
  A heap \<open>h'\<close> that arises from \<open>h\<close> by allocating node \<open>n\<close> with height \<open>rl\<close> and linking it, on
  every level up to \<open>rl\<close>, behind the node \<open>p j\<close>.
\<close>

definition spliced ::
  "('k, 'v) heap \<Rightarrow> ('k, 'v) heap \<Rightarrow> nat \<Rightarrow> 'k \<Rightarrow> 'v \<Rightarrow> nat \<Rightarrow> (nat \<Rightarrow> nat) \<Rightarrow> bool" where
  "spliced h h' n key val rl p \<longleftrightarrow>
     \<not> live h n
   \<and> (\<forall>b. live h' b \<longleftrightarrow> b = n \<or> live h b)
   \<and> keyof h' n = key \<and> valof h' n = val \<and> lvlof h' n = rl \<and> fwd_len h' n = rl + 1
   \<and> (\<forall>b. b \<noteq> n \<longrightarrow> keyof h' b = keyof h b \<and> valof h' b = valof h b \<and> lvlof h' b = lvlof h b
        \<and> fwd_len h' b = fwd_len h b)
   \<and> (\<forall>j b. b \<noteq> n \<longrightarrow> nxt h' j b = (if j \<le> rl \<and> b = p j then Some n else nxt h j b))
   \<and> (\<forall>j \<le> rl. nxt h' j n = nxt h j (p j))"

lemma create_link_spliced:
  assumes "rl < length u" and "rl < max_len"
    and "\<And>j. j \<le> rl \<Longrightarrow> u ! j = Some (p j) \<and> live h (p j) \<and> j < fwd_len h (p j)"
    and "create_node key val rl h = (n, h0)"
  shows "\<exists>h'. foldE (link_level u n) [0 ..< rl + 1] h0 = Inr h' \<and> spliced h h' n key val rl p"
proof -
  have n: "n = length h" and h0: "h0 = h @ [Some (Node_new key val rl)]"
    using assms(4) by (simp_all add: create_node_def)
  have g0: "hget h0 b = (if b = n then Some (Node_new key val rl) else hget h b)" for b
    by (simp add: h0 n hget_append)
  have nlive: "\<not> live h n" using live_less by (auto simp: n)
  have "p i \<noteq> n" if "i \<le> rl" for i using assms(3) [OF that] nlive by auto
  then have "\<exists>h'. foldE (link_level u n) [0 ..< rl + 1] h0 = Inr h' \<and> same_shape h0 h'
      \<and> (\<forall>j b. nxt h' j b = (if j < rl + 1 \<and> b = p j then Some n
                           else if j < rl + 1 \<and> b = n then nxt h0 j (p j) else nxt h0 j b))"
    using assms(1,3)
    by (intro link_loop) (auto simp: live_def fwd_len_def g0 Node_new_def less_Suc_eq_le)
  then obtain h' where h': "foldE (link_level u n) [0 ..< rl + 1] h0 = Inr h'" "same_shape h0 h'"
      "\<And>j b. nxt h' j b = (if j < rl + 1 \<and> b = p j then Some n
                           else if j < rl + 1 \<and> b = n then nxt h0 j (p j) else nxt h0 j b)"
    by blast
  have "live h' = live h0" "keyof h' = keyof h0" "valof h' = valof h0" "lvlof h' = lvlof h0"
      "fwd_len h' = fwd_len h0"
    using h'(2) by (simp_all add: same_shape_def)
  moreover have "b \<noteq> n \<Longrightarrow> keyof h0 b = keyof h b \<and> valof h0 b = valof h b \<and> lvlof h0 b = lvlof h b
      \<and> fwd_len h0 b = fwd_len h b \<and> nxt h0 j b = nxt h j b" for b j
    by (simp add: keyof_def valof_def lvlof_def fwd_len_def nxt_def g0)
  moreover have "keyof h0 n = key" "valof h0 n = val" "lvlof h0 n = rl" "fwd_len h0 n = rl + 1"
      "\<And>b. live h0 b \<longleftrightarrow> b = n \<or> live h b"
    by (simp_all add: keyof_def valof_def lvlof_def fwd_len_def live_def g0 Node_new_def)
  ultimately have "spliced h h' n key val rl p"
    using nlive \<open>\<And>i. i \<le> rl \<Longrightarrow> p i \<noteq> n\<close> unfolding spliced_def
    by (auto simp: h'(3) less_Suc_eq_le)
  with h'(1) show ?thesis by blast
qed

text \<open>Splicing keeps every level a chain.\<close>

lemma spliced_chain:
  assumes sp: "spliced h h' n key val rl p" and dist: "distinct (hdr # tw @ dw)"
    and notin: "n \<notin> set (hdr # tw @ dw)"
    and ch: "chain (nxt h j) hdr (level_list h j (tw @ dw))"
    and pj: "j \<le> rl \<Longrightarrow> p j = last (hdr # level_list h j tw)"
  shows "chain (nxt h' j) hdr (level_list h' j (tw @ n # dw))"
proof -
  have "\<forall>a \<in> set (tw @ dw). lvlof h' a = lvlof h a" using sp notin by (auto simp: spliced_def)
  then have split: "level_list h' j (tw @ n # dw)
      = level_list h j tw @ (if j \<le> rl then [n] else []) @ level_list h j dw"
    using sp by (simp add: level_list_def spliced_def cong: filter_cong)
  have c0: "chain (nxt h j) hdr (level_list h j tw @ level_list h j dw)"
    using ch by (simp add: level_list_def)
  have sub: "set (level_list h j tw) \<subseteq> set tw" "set (level_list h j dw) \<subseteq> set dw"
    by (auto simp: level_list_def)
  show ?thesis
  proof (cases "j \<le> rl")
    case True
    have "distinct (hdr # level_list h j tw @ level_list h j dw)"
      using dist by (auto simp: level_list_def)
    moreover have "n \<notin> set (hdr # level_list h j tw @ level_list h j dw)" using notin sub by auto
    ultimately have "chain ((nxt h j)(p j := Some n, n := nxt h j (p j))) hdr
        (level_list h j tw @ n # level_list h j dw)"
      unfolding pj [OF True] by (rule chain_insert [OF c0])
    moreover have "p j \<noteq> n"
      using last_in_set_Cons [of hdr "level_list h j tw"] notin sub pj [OF True] by auto
    have "((nxt h j)(p j := Some n, n := nxt h j (p j))) b = nxt h' j b" for b
      using sp True \<open>p j \<noteq> n\<close> unfolding spliced_def by (cases "b = n") simp_all
    then have "(nxt h j)(p j := Some n, n := nxt h j (p j)) = nxt h' j" by blast
    ultimately show ?thesis using True by (simp add: split)
  next
    case False
    have "nxt h' j b = nxt h j b" if "b \<in> set (hdr # level_list h j tw @ level_list h j dw)" for b
    proof -
      have "b \<noteq> n" using that notin sub by auto
      with sp False show ?thesis by (simp add: spliced_def)
    qed
    with c0 have "chain (nxt h' j) hdr (level_list h j tw @ level_list h j dw)"
      using chain_cong by metis
    with False show ?thesis by (simp add: split)
  qed
qed

lemma absent_bounds:
  assumes inv: "sl_inv sl as" and absent: "\<forall>x \<in> set as. keyof (heap sl) x \<noteq> key"
  shows "(\<forall>a \<in> set (takeWhile (\<lambda>a. keyof (heap sl) a < key) as). keyof (heap sl) a < key)
    \<and> (\<forall>a \<in> set (dropWhile (\<lambda>a. keyof (heap sl) a < key) as). key < keyof (heap sl) a)"
proof (intro conjI ballI)
  let ?P = "\<lambda>a. keyof (heap sl) a < key"
  show "keyof (heap sl) a < key" if "a \<in> set (takeWhile ?P as)" for a
    using that by (auto dest: set_takeWhileD)
  fix a assume a: "a \<in> set (dropWhile ?P as)"
  then obtain b bs where b: "dropWhile ?P as = b # bs" by (cases "dropWhile ?P as") auto
  have "\<not> ?P b" using b by (metis (no_types, lifting) hd_dropWhile list.sel(1) list.simps(3))
  moreover have "sorted_wrt (<) (map (keyof (heap sl)) (takeWhile ?P as @ dropWhile ?P as))"
    using inv by (simp add: sl_inv_def)
  then have "b = a \<or> keyof (heap sl) b < keyof (heap sl) a"
    using a by (auto simp: b sorted_wrt_append)
  moreover have "keyof (heap sl) a \<noteq> key" using a absent by (metis set_dropWhileD)
  ultimately show "key < keyof (heap sl) a" by auto
qed

text \<open>Splicing keeps the invariant and updates the map.\<close>

lemma spliced_inv:
  assumes inv: "sl_inv sl as" and as: "as = tw @ dw"
    and lo: "\<forall>a \<in> set tw. keyof (heap sl) a < key" and hi: "\<forall>a \<in> set dw. key < keyof (heap sl) a"
    and sp: "spliced (heap sl) h' n key val rl p" and rl: "rl \<le> max_level sl"
    and p: "\<And>j. j \<le> rl \<Longrightarrow> p j = last (header sl # level_list (heap sl) j tw)"
    and sl': "sl' = sl\<lparr>heap := h', skip_list_level := max rl (skip_list_level sl),
                       element_count := element_count sl + 1\<rparr>"
  shows "sl_inv sl' (tw @ n # dw)"
proof -
  have notin: "n \<notin> set (header sl # tw @ dw)" using inv sp by (auto simp: sl_inv_def spliced_def as)
  have keq: "map (keyof h') tw = map (keyof (heap sl)) tw" "map (keyof h') dw = map (keyof (heap sl)) dw"
    using sp notin by (auto simp: spliced_def)
  have ns: "sorted_wrt (<) (map (keyof (heap sl)) (tw @ dw))" and kn: "keyof h' n = key"
    using inv sp by (simp_all add: sl_inv_def as spliced_def)
  then have "sorted_wrt (<) (map (keyof h') (tw @ n # dw))"
    using lo hi by (simp add: sorted_wrt_append keq kn)
  moreover have "chain (nxt h' i) (header sl) (level_list h' i (tw @ n # dw))"
    if "i \<le> max_level sl" for i
    using inv that by (intro spliced_chain [OF sp _ notin _ p]) (auto simp: sl_inv_def as)
  moreover have same: "\<forall>a \<in> set (header sl # tw @ dw). lvlof h' a = lvlof (heap sl) a
      \<and> fwd_len h' a = fwd_len (heap sl) a"
    and new: "lvlof h' n = rl" "fwd_len h' n = rl + 1"
    using sp notin unfolding spliced_def by metis+
  have "skip_list_level sl = 0 \<or> (\<exists>a \<in> set (tw @ dw). lvlof (heap sl) a = skip_list_level sl)"
    using inv unfolding sl_inv_def as by blast
  then have "max rl (skip_list_level sl) = 0
      \<or> (\<exists>a \<in> set (tw @ n # dw). lvlof h' a = max rl (skip_list_level sl))"
    using same new by (cases "skip_list_level sl \<le> rl") auto
  moreover have "\<forall>a \<in> set (tw @ dw). fwd_len (heap sl) a = lvlof (heap sl) a + 1
      \<and> lvlof (heap sl) a \<le> skip_list_level sl"
    using inv unfolding sl_inv_def as by blast
  then have "\<forall>a \<in> set (tw @ n # dw). fwd_len h' a = lvlof h' a + 1
      \<and> lvlof h' a \<le> max rl (skip_list_level sl)"
    using same new by (auto simp: le_max_iff_disj)
  moreover have "\<forall>a. live (heap sl) a \<longleftrightarrow> a \<in> set (header sl # as)"
    using inv unfolding sl_inv_def by blast
  with sp have "\<forall>a. live h' a \<longleftrightarrow> a \<in> set (header sl # tw @ n # dw)"
    by (auto simp: as spliced_def)
  moreover have "fwd_len h' (header sl) = max_level sl + 1" "distinct (header sl # tw @ n # dw)"
      "max rl (skip_list_level sl) \<le> max_level sl"
      "element_count sl + 1 = int (length (tw @ n # dw))"
    using inv same notin rl by (auto simp: sl_inv_def as)
  ultimately show ?thesis
    unfolding sl_inv_def sl'
    by (intro conjI) (simp_all only: SkipList.simps, simp_all)
qed

lemma spliced_map:
  assumes inv: "sl_inv sl as" and as: "as = tw @ dw" and inv': "sl_inv sl' (tw @ n # dw)"
    and sp: "spliced (heap sl) (heap sl') n key val rl p"
    and absent: "\<forall>x \<in> set as. keyof (heap sl) x \<noteq> key"
  shows "sl_map sl' = (sl_map sl)(key \<mapsto> val)"
proof -
  let ?e = "\<lambda>a. (keyof (heap sl) a, valof (heap sl) a)"
  have notin: "n \<notin> set as" using inv sp by (auto simp: sl_inv_def spliced_def)
  then have "sl_entries sl' = map ?e tw @ (key, val) # map ?e dw"
    using sp by (auto simp: sl_entries_inv [OF inv'] spliced_def as)
  moreover have "sl_entries sl = map ?e tw @ map ?e dw" by (simp add: sl_entries_inv [OF inv] as)
  moreover have "key \<notin> fst ` set (map ?e tw @ map ?e dw)" using absent by (auto simp: as)
  ultimately show ?thesis by (metis map_of_insert_sorted sl_map_def)
qed

text \<open>The update array handed to the linking loop: the predecessors on all levels up to \<open>rl\<close>.\<close>

lemma update_for_insert:
  assumes inv: "sl_inv sl as" and rl: "rl \<le> max_level sl" and lu: "length u = max_level sl + 1"
    and u: "\<And>j. j \<le> skip_list_level sl \<Longrightarrow> u ! j = Some (pred_at (heap sl) (header sl) key as j)"
  shows "\<exists>u'. (if rl > skip_list_level sl
          then raise_update (skip_list_level sl + 1) (rl + 1) (header sl) u else Inr u) = Inr u'
      \<and> length u' = max_level sl + 1
      \<and> (\<forall>j \<le> rl. u' ! j = Some (pred_at (heap sl) (header sl) key as j))"
proof (cases "rl > skip_list_level sl")
  case True
  obtain u' where u': "raise_update (skip_list_level sl + 1) (rl + 1) (header sl) u = Inr u'"
      "length u' = max_level sl + 1"
      "\<And>j. u' ! j = (if skip_list_level sl + 1 \<le> j \<and> j < rl + 1 then Some (header sl) else u ! j)"
    using raise_update_ok [of "skip_list_level sl + 1" "rl + 1" u "header sl"] True lu rl by auto
  have "pred_at (heap sl) (header sl) key as j = header sl" if "skip_list_level sl < j" for j
  proof -
    have "level_list (heap sl) j (takeWhile (\<lambda>a. keyof (heap sl) a < key) as) = []"
      using inv that unfolding level_list_def filter_empty_conv
      by (fastforce simp: sl_inv_def dest!: set_takeWhileD)
    then show ?thesis by (simp add: pred_at_def)
  qed
  with u u' True show ?thesis by auto
next
  case False
  then show ?thesis using lu u by auto
qed

lemma search_absent:
  assumes inv: "sl_inv sl as" and absent: "\<forall>x \<in> set as. keyof (heap sl) x \<noteq> key"
  shows "bindE (get_forward (heap sl) (pred_at (heap sl) (header sl) key as 0) 0)
      (\<lambda>p. case p of None \<Rightarrow> Inr False
        | Some a \<Rightarrow> bindE (deref (heap sl) a) (\<lambda>n. Inr (nkey n = key))) = Inr False"
proof (cases "dropWhile (\<lambda>a. keyof (heap sl) a < key) as")
  case Nil
  show ?thesis by (simp add: pred_at_0_next [OF inv] Nil)
next
  case (Cons a bs)
  then have "a \<in> set as" by (metis list.set_intros(1) set_dropWhileD)
  with absent have "nkey (the (hget (heap sl) a)) \<noteq> key" by (simp add: keyof_def)
  with \<open>a \<in> set as\<close> sl_inv_liveD [OF inv, of a] show ?thesis
    by (simp add: pred_at_0_next [OF inv] Cons deref_live)
qed

lemma insert_absent:
  assumes inv: "sl_inv sl as" and absent: "\<forall>x \<in> set as. keyof (heap sl) x \<noteq> key"
    and rnd: "draws_end rs"
  obtains sl' n where "insert_element key val rs sl = Inr (0, sl')"
    and "sl_inv sl' (takeWhile (\<lambda>a. keyof (heap sl) a < key) as @ n
                      # dropWhile (\<lambda>a. keyof (heap sl) a < key) as)"
    and "sl_map sl' = (sl_map sl)(key \<mapsto> val)" and "max_level sl' = max_level sl"
proof -
  let ?p = "pred_at (heap sl) (header sl) key as"
  let ?P = "\<lambda>a. keyof (heap sl) a < key"
  have lvl: "skip_list_level sl \<le> max_level sl" using inv by (simp add: sl_inv_def)
  obtain u where d: "descend (heap sl) key (skip_list_level sl) (header sl)
        (replicate (max_level sl + 1) None) = Inr (?p 0, u)"
    and lu: "length u = max_level sl + 1" and u: "\<And>j. j \<le> skip_list_level sl \<Longrightarrow> u ! j = Some (?p j)"
    using descend_inv [OF inv lvl, of "replicate (max_level sl + 1) None" "header sl" key] by auto
  obtain rl where rl: "get_random_level rs sl = Inr rl" "rl \<le> max_level sl"
    using get_random_level_ok [OF rnd] by metis
  obtain u' where u': "(if rl > skip_list_level sl
        then raise_update (skip_list_level sl + 1) (rl + 1) (header sl) u else Inr u) = Inr u'"
      "length u' = max_level sl + 1" "\<And>j. j \<le> rl \<Longrightarrow> u' ! j = Some (?p j)"
    using update_for_insert [OF inv rl(2) lu u] by blast
  obtain n h0 where new: "create_node key val rl (heap sl) = (n, h0)" by fastforce
  have pok: "live (heap sl) (?p j) \<and> j < fwd_len (heap sl) (?p j)" if "j \<le> rl" for j
    using sl_inv_fwd [OF inv, of j "?p j"] pred_at_in [of "heap sl" "header sl" key as j] that rl(2)
    by (auto simp: set_level_list dest: set_takeWhileD)
  obtain h' where h': "foldE (link_level u' n) [0 ..< rl + 1] h0 = Inr h'"
      "spliced (heap sl) h' n key val rl ?p"
    using create_link_spliced [OF _ _ _ new, of u' "rl + 1" ?p] u'(2,3) rl(2) pok by auto
  define sl' where "sl' = sl\<lparr>heap := h', skip_list_level := max rl (skip_list_level sl),
                       element_count := element_count sl + 1\<rparr>"
  have mx: "max rl (skip_list_level sl) = (if rl > skip_list_level sl then rl else skip_list_level sl)"
    by auto
  obtain q where q: "get_forward (heap sl) (?p 0) 0 = Inr q"
      "(case q of None \<Rightarrow> Inr False
        | Some a \<Rightarrow> bindE (deref (heap sl) a) (\<lambda>n. Inr (nkey n = key))) = (Inr False :: heap_error + bool)"
    using search_absent [OF inv absent] by (auto simp: bindE_eq_Inr)
  have res: "insert_element key val rs sl = Inr (0, sl')"
    using d q rl(1) u'(1) new h'(1)
    by (simp add: insert_element_def sl'_def mx Let_def del: upt_Suc)
  have inv': "sl_inv sl' (takeWhile ?P as @ n # dropWhile ?P as)"
    using absent_bounds [OF inv absent] h'(2) rl(2)
    by (intro spliced_inv [OF inv _ _ _ h'(2) rl(2) _ sl'_def]) (auto simp: pred_at_def)
  have "sl_map sl' = (sl_map sl)(key \<mapsto> val)"
    using h'(2) absent by (intro spliced_map [OF inv _ inv']) (auto simp: sl'_def)
  with res inv' show thesis by (intro that [of sl' n]) (simp_all add: sl'_def)
qed

section \<open>Deletion\<close>

text \<open>
  The unlinking loop: on the levels \<open>i \<le> j < c\<close> the node \<open>p j\<close> points to \<open>a\<close>, on level \<open>c\<close>
  it does not, so exactly the levels below \<open>c\<close> are rewired.
\<close>

lemma unlink_upt:
  assumes "c \<le> m" and "i \<le> c" and "m \<le> length u"
    and "\<And>j. j < m \<Longrightarrow> u ! j = Some (p j) \<and> live h (p j) \<and> j < fwd_len h (p j)"
    and "\<And>j. i \<le> j \<Longrightarrow> j < c \<Longrightarrow> nxt h j (p j) = Some a"
    and "c < m \<Longrightarrow> nxt h c (p c) \<noteq> Some a"
    and "live h a" and "c \<le> fwd_len h a"
  shows "\<exists>h'. unlink u a [i ..< m] h = Inr h' \<and> same_shape h h'
    \<and> (\<forall>j b. nxt h' j b = (if i \<le> j \<and> j < c \<and> b = p j then nxt h j a else nxt h j b))"
  using assms
proof (induction "c - i" arbitrary: i h)
  case 0
  then have ic: "i = c" by simp
  show ?case
  proof (cases "c < m")
    case True
    then have "[i ..< m] = c # [Suc c ..< m]" by (simp add: ic upt_conv_Cons)
    with 0 True show ?thesis by (auto simp: ic get_update_def get_forward_live)
  next
    case False
    with 0 show ?thesis by (auto simp: ic)
  qed
next
  case (Suc d)
  then have i: "i < c" "i < m" by simp_all
  have pi: "u ! i = Some (p i)" "live h (p i)" "i < fwd_len h (p i)"
    using Suc.prems(4) [of i] i by simp_all
  obtain h1 where h1: "set_forward (p i) i (nxt h i a) h = Inr h1" "same_shape h h1"
      "\<And>j b. nxt h1 j b = (if j = i \<and> b = p i then nxt h i a else nxt h j b)"
    using set_forward_live [OF pi(2,3)] by metis
  have "\<exists>h'. unlink u a [Suc i ..< m] h1 = Inr h' \<and> same_shape h1 h'
    \<and> (\<forall>j b. nxt h' j b = (if Suc i \<le> j \<and> j < c \<and> b = p j then nxt h1 j a else nxt h1 j b))"
    using Suc.prems Suc.hyps(2) i h1(2)
    by (intro Suc.hyps(1)) (auto simp: h1(3) same_shape_def)
  then obtain h' where h': "unlink u a [Suc i ..< m] h1 = Inr h'" "same_shape h1 h'"
      "\<And>j b. nxt h' j b = (if Suc i \<le> j \<and> j < c \<and> b = p j then nxt h1 j a else nxt h1 j b)"
    by blast
  have "[i ..< m] = i # [Suc i ..< m]" using i by (simp add: upt_conv_Cons)
  then have "unlink u a [i ..< m] h = Inr h'"
    using Suc.prems i pi h1(1) h'(1) by (simp add: get_update_def get_forward_live)
  moreover have "nxt h' j b = (if i \<le> j \<and> j < c \<and> b = p j then nxt h j a else nxt h j b)" for j b
    using i by (auto simp: h'(3) h1(3) Suc_le_eq dest: le_neq_implies_less)
  ultimately show ?case using same_shape_trans [OF h1(2) h'(2)] by blast
qed

lemma shrink_level_ok:
  assumes "live h hdr" and "l < fwd_len h hdr"
  shows "\<exists>l'. shrink_level h hdr l = Inr l' \<and> l' \<le> l
    \<and> (\<forall>j. l' < j \<and> j \<le> l \<longrightarrow> nxt h j hdr = None) \<and> (l' = 0 \<or> nxt h l' hdr \<noteq> None)"
  using assms(2)
proof (induction l)
  case 0
  then show ?case by simp
next
  case (Suc l)
  show ?case
  proof (cases "nxt h (Suc l) hdr = None")
    case True
    with Suc obtain l' where "shrink_level h hdr l = Inr l'" "l' \<le> l"
      "\<forall>j. l' < j \<and> j \<le> l \<longrightarrow> nxt h j hdr = None" "l' = 0 \<or> nxt h l' hdr \<noteq> None" by auto
    with True Suc.prems assms(1) show ?thesis by (auto simp: get_forward_live le_Suc_eq)
  next
    case False
    with Suc.prems assms(1) show ?thesis by (auto simp: get_forward_live)
  qed
qed

text \<open>
  A heap \<open>h'\<close> that arises from \<open>h\<close> by unlinking node \<open>a\<close> from the levels up to its height and
  deleting it.
\<close>

definition removed :: "('k, 'v) heap \<Rightarrow> ('k, 'v) heap \<Rightarrow> nat \<Rightarrow> (nat \<Rightarrow> nat) \<Rightarrow> bool" where
  "removed h h' a p \<longleftrightarrow>
     (\<forall>b. live h' b \<longleftrightarrow> b \<noteq> a \<and> live h b)
   \<and> (\<forall>b. b \<noteq> a \<longrightarrow> keyof h' b = keyof h b \<and> valof h' b = valof h b \<and> lvlof h' b = lvlof h b
        \<and> fwd_len h' b = fwd_len h b)
   \<and> (\<forall>j b. b \<noteq> a \<longrightarrow> nxt h' j b = (if j \<le> lvlof h a \<and> b = p j then nxt h j a else nxt h j b))"

lemma free_node_ok:
  assumes "live h a"
  obtains h' where "free_node a h = Inr h'" and "\<And>b. live h' b \<longleftrightarrow> b \<noteq> a \<and> live h b"
    and "\<And>b. b \<noteq> a \<Longrightarrow> hget h' b = hget h b" and "length h' = length h"
proof -
  have "free_node a h = Inr (h[a := None])" using assms by (simp add: free_node_def deref_live)
  moreover have "live (h[a := None]) b \<longleftrightarrow> b \<noteq> a \<and> live h b" for b
    using live_less [OF assms] by (auto simp: live_def hget_upd)
  moreover have "b \<noteq> a \<Longrightarrow> hget (h[a := None]) b = hget h b" for b
    using live_less [OF assms] by (simp add: hget_upd)
  ultimately show thesis using that by simp
qed

lemma removed_chain:
  assumes rm: "removed h h' a p" and dist: "distinct (hdr # tw @ a # bs)"
    and ch: "chain (nxt h j) hdr (level_list h j (tw @ a # bs))"
    and pj: "p j = last (hdr # level_list h j tw)"
  shows "chain (nxt h' j) hdr (level_list h' j (tw @ bs))"
proof -
  have lv: "\<forall>b \<in> set (tw @ bs). lvlof h' b = lvlof h b" using rm dist by (auto simp: removed_def)
  then have split: "level_list h' j (tw @ bs) = level_list h j tw @ level_list h j bs"
    by (simp add: level_list_def cong: filter_cong)
  have sub: "set (hdr # level_list h j tw @ level_list h j bs) \<subseteq> set (hdr # tw @ bs)"
    by (auto simp: level_list_def)
  then have na: "b \<noteq> a" if "b \<in> set (hdr # level_list h j tw @ level_list h j bs)" for b
    using that dist by auto
  show ?thesis
  proof (cases "j \<le> lvlof h a")
    case True
    then have c: "chain (nxt h j) hdr (level_list h j tw @ a # level_list h j bs)"
      using ch by (simp add: level_list_def)
    have "distinct (hdr # level_list h j tw @ a # level_list h j bs)"
      using dist by (auto simp: level_list_def)
    from chain_remove [OF c this]
    have "chain ((nxt h j)(p j := nxt h j a)) hdr (level_list h j tw @ level_list h j bs)"
      by (simp only: pj)
    moreover have "((nxt h j)(p j := nxt h j a)) b = nxt h' j b"
      if "b \<in> set (hdr # level_list h j tw @ level_list h j bs)" for b
      using na [OF that] rm True by (simp add: removed_def)
    ultimately show ?thesis unfolding split using chain_cong by metis
  next
    case False
    then have c: "chain (nxt h j) hdr (level_list h j tw @ level_list h j bs)"
      using ch by (simp add: level_list_def)
    moreover have "nxt h j b = nxt h' j b"
      if "b \<in> set (hdr # level_list h j tw @ level_list h j bs)" for b
      using na [OF that] rm False by (simp add: removed_def)
    ultimately show ?thesis unfolding split using chain_cong by metis
  qed
qed

lemma removed_inv:
  assumes inv: "sl_inv sl (tw @ a # bs)" and rm: "removed (heap sl) h' a p"
    and p: "\<And>j. j \<le> max_level sl \<Longrightarrow> p j = last (header sl # level_list (heap sl) j tw)"
    and l': "l' \<le> skip_list_level sl"
      "\<forall>j. l' < j \<and> j \<le> skip_list_level sl \<longrightarrow> nxt h' j (header sl) = None"
      "l' = 0 \<or> nxt h' l' (header sl) \<noteq> None"
    and sl': "sl' = sl\<lparr>heap := h', skip_list_level := l', element_count := element_count sl - 1\<rparr>"
  shows "sl_inv sl' (tw @ bs)"
proof -
  have dist: "distinct (header sl # tw @ a # bs)" using inv unfolding sl_inv_def by blast
  have lvl: "skip_list_level sl \<le> max_level sl" using inv unfolding sl_inv_def by blast
  have chains: "chain (nxt h' j) (header sl) (level_list h' j (tw @ bs))" if "j \<le> max_level sl" for j
    using inv that p [OF that] by (intro removed_chain [OF rm dist]) (simp_all add: sl_inv_def)
  have same: "\<forall>b \<in> set (header sl # tw @ bs). keyof h' b = keyof (heap sl) b
      \<and> lvlof h' b = lvlof (heap sl) b \<and> fwd_len h' b = fwd_len (heap sl) b"
    using rm dist by (auto simp: removed_def)
  have heights: "\<forall>b \<in> set (tw @ bs). fwd_len (heap sl) b = lvlof (heap sl) b + 1
      \<and> lvlof (heap sl) b \<le> skip_list_level sl"
    using inv unfolding sl_inv_def by simp
  have low: "lvlof h' b \<le> l'" if b: "b \<in> set (tw @ bs)" for b
  proof (rule ccontr)
    let ?j = "lvlof h' b"
    assume "\<not> ?j \<le> l'"
    moreover have j: "?j \<le> skip_list_level sl" using b same heights by simp
    ultimately have "nxt h' ?j (header sl) = None" using l'(2) by simp
    moreover have "level_list h' ?j (tw @ bs) \<noteq> []"
      using b by (auto simp: level_list_def filter_empty_conv)
    ultimately show False
      using chains [of ?j] j lvl by (cases "level_list h' ?j (tw @ bs)") auto
  qed
  have "l' = 0 \<or> (\<exists>b \<in> set (tw @ bs). lvlof h' b = l')"
  proof (cases "l' = 0")
    case False
    then have "chain (nxt h' l') (header sl) (level_list h' l' (tw @ bs))" "nxt h' l' (header sl) \<noteq> None"
      using l'(1,3) lvl by (auto intro: chains)
    then obtain b where "b \<in> set (level_list h' l' (tw @ bs))"
      by (cases "level_list h' l' (tw @ bs)") auto
    then have "b \<in> set (tw @ bs)" "l' \<le> lvlof h' b" by (auto simp: level_list_def)
    with low show ?thesis by (meson le_antisym)
  qed simp
  moreover have keq: "map (keyof h') tw = map (keyof (heap sl)) tw" "map (keyof h') bs = map (keyof (heap sl)) bs"
    using same by simp_all
  have "sorted_wrt (<) (map (keyof (heap sl)) (tw @ a # bs))" using inv unfolding sl_inv_def by blast
  then have "sorted_wrt (<) (map (keyof h') (tw @ bs))" by (simp add: keq sorted_wrt_append)
  moreover have "\<forall>b. live (heap sl) b \<longleftrightarrow> b \<in> set (header sl # tw @ a # bs)"
    using inv unfolding sl_inv_def by blast
  then have "\<forall>b. live h' b \<longleftrightarrow> b \<in> set (header sl # tw @ bs)"
    using rm dist by (auto simp: removed_def)
  moreover have "fwd_len h' (header sl) = max_level sl + 1" "distinct (header sl # tw @ bs)"
      "l' \<le> max_level sl" "element_count sl - 1 = int (length (tw @ bs))"
      "\<forall>b \<in> set (tw @ bs). fwd_len h' b = lvlof h' b + 1 \<and> lvlof h' b \<le> l'"
    using inv same dist l'(1) lvl heights low by (auto simp: sl_inv_def)
  ultimately show ?thesis
    using chains unfolding sl_inv_def sl'
    by (intro conjI) (simp_all only: SkipList.simps, simp_all)
qed

lemma map_of_remove_sorted:
  assumes "k \<notin> fst ` set (xs @ ys)"
  shows "map_of (xs @ ys) = (map_of (xs @ (k, v) # ys))(k := None)"
proof -
  have "map_of (xs @ ys) k = None" using assms by (auto simp: map_of_eq_None_iff)
  moreover have "map_of (xs @ ys) x = map_of (xs @ (k, v) # ys) x" if "x \<noteq> k" for x
    using that by (induction xs) auto
  ultimately show ?thesis by (auto simp: fun_eq_iff)
qed

lemma removed_map:
  assumes inv: "sl_inv sl (tw @ a # bs)" and inv': "sl_inv sl' (tw @ bs)"
    and rm: "removed (heap sl) (heap sl') a p"
  shows "sl_map sl' = (sl_map sl)(keyof (heap sl) a := None)"
proof -
  let ?e = "\<lambda>b. (keyof (heap sl) b, valof (heap sl) b)"
  have dist: "distinct (header sl # tw @ a # bs)" using inv unfolding sl_inv_def by blast
  then have ent': "sl_entries sl' = map ?e tw @ map ?e bs"
    using rm by (auto simp: sl_entries_inv [OF inv'] removed_def)
  have ent: "sl_entries sl = map ?e tw @ ?e a # map ?e bs" by (simp add: sl_entries_inv [OF inv])
  have "sorted_wrt (<) (map (keyof (heap sl)) (tw @ a # bs))" using inv unfolding sl_inv_def by blast
  then have "keyof (heap sl) a \<notin> fst ` set (map ?e tw @ map ?e bs)"
    by (auto simp: sorted_wrt_append)
  from map_of_remove_sorted [OF this, of "valof (heap sl) a"] show ?thesis
    by (simp add: sl_map_def ent ent')
qed

text \<open>What the unlinking loop of \<open>delete_element\<close> leaves behind, before the node is freed.\<close>

lemma unlink_removed:
  assumes inv: "sl_inv sl as" and ab: "dropWhile (\<lambda>b. keyof (heap sl) b < key) as = a # bs"
    and u: "length u = max_level sl + 1"
      "\<And>j. j \<le> skip_list_level sl \<Longrightarrow> u ! j = Some (pred_at (heap sl) (header sl) key as j)"
  obtains h1 where "unlink u a [0 ..< skip_list_level sl + 1] (heap sl) = Inr h1"
    and "same_shape (heap sl) h1"
    and "\<And>j b. nxt h1 j b = (if j \<le> lvlof (heap sl) a \<and> b = pred_at (heap sl) (header sl) key as j
                            then nxt (heap sl) j a else nxt (heap sl) j b)"
proof -
  let ?h = "heap sl" let ?p = "pred_at ?h (header sl) key as" let ?P = "\<lambda>b. keyof ?h b < key"
  have as: "as = takeWhile ?P as @ a # bs" unfolding ab [symmetric] by simp
  then have a: "a \<in> set as" by (metis in_set_conv_decomp)
  have lvl: "skip_list_level sl \<le> max_level sl" using inv unfolding sl_inv_def by blast
  have ha: "fwd_len ?h a = lvlof ?h a + 1" "lvlof ?h a \<le> skip_list_level sl" "live ?h a"
    using inv a unfolding sl_inv_def by simp_all
  have nx: "nxt ?h j (?p j) = (case level_list ?h j (a # bs) of [] \<Rightarrow> None | x # _ \<Rightarrow> Some x)"
    if "j \<le> max_level sl" for j
  proof -
    have "chain (nxt ?h j) (header sl) (level_list ?h j as)"
      using inv that unfolding sl_inv_def by blast
    then have "chain (nxt ?h j) (header sl) (level_list ?h j (takeWhile ?P as) @ level_list ?h j (a # bs))"
      by (subst (asm) as) (simp add: level_list_def)
    from chain_next [OF this] show ?thesis by (simp add: pred_at_def)
  qed
  have dist: "a \<notin> set bs" using inv as unfolding sl_inv_def
    by (metis distinct.simps(2) distinct_append)
  have "\<exists>h1. unlink u a [0 ..< skip_list_level sl + 1] ?h = Inr h1 \<and> same_shape ?h h1
    \<and> (\<forall>j b. nxt h1 j b = (if 0 \<le> j \<and> j < lvlof ?h a + 1 \<and> b = ?p j then nxt ?h j a else nxt ?h j b))"
  proof (rule unlink_upt)
    show "nxt ?h j (?p j) = Some a" if "j < lvlof ?h a + 1" for j
      using that nx [of j] ha(2) lvl by (simp add: level_list_def)
    show "nxt ?h (lvlof ?h a + 1) (?p (lvlof ?h a + 1)) \<noteq> Some a"
      if "lvlof ?h a + 1 < skip_list_level sl + 1"
    proof
      assume "nxt ?h (lvlof ?h a + 1) (?p (lvlof ?h a + 1)) = Some a"
      then have "a \<in> set (level_list ?h (lvlof ?h a + 1) (a # bs))"
        using nx [of "lvlof ?h a + 1"] that lvl by (auto split: list.splits)
      then show False by (simp add: level_list_def)
    qed
    show "u ! j = Some (?p j) \<and> live ?h (?p j) \<and> j < fwd_len ?h (?p j)"
      if "j < skip_list_level sl + 1" for j
      using that u(2) [of j] sl_inv_fwd [OF inv, of j "?p j"] lvl
        pred_at_in [of ?h "header sl" key as j] by (auto simp: set_level_list dest: set_takeWhileD)
  qed (use ha u(1) lvl in auto)
  then show thesis using that by (auto simp: less_Suc_eq_le)
qed

lemma delete_absent:
  assumes inv: "sl_inv sl as" and absent: "\<forall>x \<in> set as. keyof (heap sl) x \<noteq> key"
  shows "delete_element key sl = Inr sl"
proof -
  have lvl: "skip_list_level sl \<le> max_level sl" using inv by (simp add: sl_inv_def)
  obtain u where d: "descend (heap sl) key (skip_list_level sl) (header sl)
        (replicate (max_level sl + 1) None) = Inr (pred_at (heap sl) (header sl) key as 0, u)"
    using descend_inv [OF inv lvl, of "replicate (max_level sl + 1) None" "header sl" key] by auto
  show ?thesis
  proof (cases "dropWhile (\<lambda>a. keyof (heap sl) a < key) as")
    case Nil
    show ?thesis using d by (simp add: delete_element_def pred_at_0_next [OF inv] Nil)
  next
    case (Cons a bs)
    then have "a \<in> set as" by (metis list.set_intros(1) set_dropWhileD)
    with absent have "nkey (the (hget (heap sl) a)) \<noteq> key" by (simp add: keyof_def)
    with d \<open>a \<in> set as\<close> sl_inv_liveD [OF inv, of a] show ?thesis
      by (simp add: delete_element_def pred_at_0_next [OF inv] Cons deref_live)
  qed
qed

lemma delete_present:
  assumes inv: "sl_inv sl as" and x: "x \<in> set as" "keyof (heap sl) x = key"
  obtains sl' as' where "delete_element key sl = Inr sl'" and "sl_inv sl' as'"
    and "sl_map sl' = (sl_map sl)(key := None)" and "max_level sl' = max_level sl"
    and "\<forall>b \<in> set as'. keyof (heap sl') b \<noteq> key"
proof -
  let ?h = "heap sl" let ?hdr = "header sl" let ?P = "\<lambda>b. keyof ?h b < key"
  let ?p = "pred_at ?h ?hdr key as" let ?tw = "takeWhile ?P as"
  have lvl: "skip_list_level sl \<le> max_level sl" using inv by (simp add: sl_inv_def)
  obtain u where d: "descend ?h key (skip_list_level sl) ?hdr (replicate (max_level sl + 1) None)
      = Inr (?p 0, u)"
    and u: "length u = max_level sl + 1" "\<And>j. j \<le> skip_list_level sl \<Longrightarrow> u ! j = Some (?p j)"
    using descend_inv [OF inv lvl, of "replicate (max_level sl + 1) None" ?hdr key] by auto
  obtain a bs where ab: "dropWhile ?P as = a # bs"
    using x not_found_all by (metis neq_Nil_conv less_irrefl)
  have as: "as = ?tw @ a # bs" unfolding ab [symmetric] by simp
  then have a: "a \<in> set as" by (metis in_set_conv_decomp)
  have ka: "keyof ?h a = key" using found_iff [OF inv ab] x by blast
  have inv2: "sl_inv sl (?tw @ a # bs)" using inv as by simp
  have la: "live ?h a" "live ?h ?hdr" "a \<noteq> ?hdr" using inv a by (auto simp: sl_inv_def)
  obtain h1 where h1: "unlink u a [0 ..< skip_list_level sl + 1] ?h = Inr h1" "same_shape ?h h1"
      "\<And>j b. nxt h1 j b = (if j \<le> lvlof ?h a \<and> b = ?p j then nxt ?h j a else nxt ?h j b)"
    using unlink_removed [OF inv ab u] by metis
  have "live h1 ?hdr" "skip_list_level sl < fwd_len h1 ?hdr" and la1: "live h1 a"
    using h1(2) la inv lvl by (simp_all add: same_shape_def sl_inv_def)
  then obtain l' where l': "shrink_level h1 ?hdr (skip_list_level sl) = Inr l'" "l' \<le> skip_list_level sl"
      "\<forall>j. l' < j \<and> j \<le> skip_list_level sl \<longrightarrow> nxt h1 j ?hdr = None" "l' = 0 \<or> nxt h1 l' ?hdr \<noteq> None"
    using shrink_level_ok by blast
  obtain h' where h': "free_node a h1 = Inr h'" "\<And>b. live h' b \<longleftrightarrow> b \<noteq> a \<and> live h1 b"
      "\<And>b. b \<noteq> a \<Longrightarrow> hget h' b = hget h1 b"
    using free_node_ok [OF la1] by metis
  have eqs: "b \<noteq> a \<Longrightarrow> keyof h' b = keyof h1 b \<and> valof h' b = valof h1 b \<and> lvlof h' b = lvlof h1 b
      \<and> fwd_len h' b = fwd_len h1 b \<and> nxt h' j b = nxt h1 j b" for j b
    by (simp add: keyof_def valof_def lvlof_def fwd_len_def nxt_def h'(3))
  have rm: "removed ?h h' a ?p"
    using h1(2) eqs by (auto simp: removed_def h'(2) h1(3) same_shape_def)
  define sl' where "sl' = sl\<lparr>heap := h', skip_list_level := l', element_count := element_count sl - 1\<rparr>"
  have res: "delete_element key sl = Inr sl'"
    using d h1(1) l'(1) h'(1) deref_live [OF la(1)] ka [unfolded keyof_def]
    by (simp add: delete_element_def pred_at_0_next [OF inv] ab sl'_def del: upt_Suc)
  have inv': "sl_inv sl' (?tw @ bs)"
    using l' la(3) eqs by (intro removed_inv [OF inv2 rm _ l'(2) _ _ sl'_def]) (auto simp: pred_at_def)
  have m: "sl_map sl' = (sl_map sl)(key := None)"
    using removed_map [OF inv2 inv'] rm ka by (simp add: sl'_def)
  have "keyof (heap sl') b \<noteq> key" if "b \<in> set (?tw @ bs)" for b
    using sl_map_inv [OF inv' that] m by auto
  with res inv' m show thesis by (intro that [of sl' "?tw @ bs"]) (auto simp: sl'_def)
qed

end
