(* ===== verification/Store.thy ===== *)
theory Store
  imports Prelude
begin

text \<open>
  The interface the key-value server uses its store through, with the laws it relies on: a
  look-up returns the abstract map's answer, a put updates it, neither aborts, and the
  representation invariant is kept. The skip list provides it (theory \<open>SkipListStore\<close>), the
  server's command execution is proved over it.
\<close>

locale kv_store =
  fixes invar :: "'s \<Rightarrow> bool"
    and abs_map :: "'s \<Rightarrow> 'k \<rightharpoonup> 'v"
    and lookup :: "'k \<Rightarrow> 's \<Rightarrow> 'e + 'v option"
    and put :: "'k \<Rightarrow> 'v \<Rightarrow> 'r \<Rightarrow> 's \<Rightarrow> 'e + 's"
    and fair :: "'r \<Rightarrow> bool"
  assumes lookup_abs: "invar s \<Longrightarrow> lookup k s = Inr (abs_map s k)"
    and put_abs: "invar s \<Longrightarrow> fair r \<Longrightarrow>
          \<exists>s'. put k v r s = Inr s' \<and> invar s' \<and> abs_map s' = (abs_map s)(k \<mapsto> v)"
begin

lemma lookup_after_put:
  assumes "invar s" and "fair r" and "put k v r s = Inr s'"
  shows "lookup k' s' = Inr (if k' = k then Some v else abs_map s k')"
  using put_abs [OF assms(1,2), of k v] assms(3) by (auto simp: lookup_abs)

text \<open>A sequence of puts behaves as the left-to-right update of the map.\<close>

definition put_all :: "('k \<times> 'v \<times> 'r) list \<Rightarrow> 's \<Rightarrow> 'e + 's" where
  "put_all = foldE (\<lambda>(k, v, r) s. put k v r s)"

lemma put_all_abs:
  assumes "invar s" and "\<forall>(k, v, r) \<in> set kvs. fair r"
  shows "\<exists>s'. put_all kvs s = Inr s' \<and> invar s'
    \<and> abs_map s' = abs_map s ++ map_of (rev (map (\<lambda>(k, v, r). (k, v)) kvs))"
  using assms
proof (induction kvs arbitrary: s)
  case Nil
  then show ?case by (simp add: put_all_def)
next
  case (Cons x kvs)
  obtain k v r where x: "x = (k, v, r)" by (cases x) auto
  obtain t where t: "put k v r s = Inr t" "invar t" "abs_map t = (abs_map s)(k \<mapsto> v)"
    using put_abs [of s r k v] Cons.prems by (auto simp: x)
  from Cons.IH [OF t(2)] Cons.prems(2) obtain s' where
    "put_all kvs t = Inr s'" "invar s'"
    "abs_map s' = abs_map t ++ map_of (rev (map (\<lambda>(k, v, r). (k, v)) kvs))" by auto
  with t(1,3) show ?case
    by (auto simp: x put_all_def fun_eq_iff map_add_def split: option.splits)
qed

end

text \<open>A store that can also remove keys and be counted.\<close>

locale kv_store_del = kv_store invar abs_map lookup put fair
  for invar :: "'s \<Rightarrow> bool"
    and abs_map :: "'s \<Rightarrow> 'k \<rightharpoonup> 'v"
    and lookup :: "'k \<Rightarrow> 's \<Rightarrow> 'e + 'v option"
    and put :: "'k \<Rightarrow> 'v \<Rightarrow> 'r \<Rightarrow> 's \<Rightarrow> 'e + 's"
    and fair :: "'r \<Rightarrow> bool" +
  fixes del :: "'k \<Rightarrow> 's \<Rightarrow> 'e + 's"
    and count :: "'s \<Rightarrow> int"
  assumes del_abs: "invar s \<Longrightarrow> \<exists>s'. del k s = Inr s' \<and> invar s' \<and> abs_map s' = (abs_map s)(k := None)"
    and count_abs: "invar s \<Longrightarrow> count s = int (card (dom (abs_map s)))"
begin

lemma put_then_del:
  assumes "invar s" and "fair r" and "abs_map s k = None"
  shows "\<exists>s'. bindE (put k v r s) (del k) = Inr s' \<and> invar s' \<and> abs_map s' = abs_map s"
proof -
  obtain t where t: "put k v r s = Inr t" "invar t" "abs_map t = (abs_map s)(k \<mapsto> v)"
    using put_abs [OF assms(1,2)] by blast
  from del_abs [OF t(2), of k] t(1,3) assms(3) show ?thesis by (auto simp: fun_upd_idem)
qed

end

end
