(* ===== verification/SkipListStore.thy ===== *)
theory SkipListStore
  imports SkipListOps Store
begin

text \<open>
  The skip list as a provider of the store interface, the dump/load pair the server's snapshots
  use, the destructor, and the properties of the component.
\<close>

section \<open>The interface\<close>

lemma sl_present_iff:
  assumes "sl_inv sl as"
  shows "(\<exists>x \<in> set as. keyof (heap sl) x = key) \<longleftrightarrow> sl_map sl key \<noteq> None"
  using sl_map_inv [OF assms] sl_map_None [OF assms, of key] by force

lemma insert_element_ok:
  assumes "sl_ok sl" and "draws_end rs"
  shows "\<exists>r sl'. insert_element key val rs sl = Inr (r, sl') \<and> sl_ok sl' \<and> max_level sl' = max_level sl
    \<and> (if sl_map sl key = None then r = 0 \<and> sl_map sl' = (sl_map sl)(key \<mapsto> val)
       else r = 1 \<and> sl' = sl)"
proof -
  obtain as where inv: "sl_inv sl as" using assms(1) by (auto simp: sl_ok_def)
  show ?thesis
  proof (cases "sl_map sl key = None")
    case True
    then have "\<forall>x \<in> set as. keyof (heap sl) x \<noteq> key" using sl_present_iff [OF inv] by blast
    from insert_absent [OF inv this assms(2)] True show ?thesis
      unfolding sl_ok_def by metis
  next
    case False
    then obtain x where "x \<in> set as" "keyof (heap sl) x = key" using sl_present_iff [OF inv] by blast
    with insert_present [OF inv] False assms(1) show ?thesis by simp
  qed
qed

lemma delete_element_ok:
  assumes "sl_ok sl"
  shows "\<exists>sl'. delete_element key sl = Inr sl' \<and> sl_ok sl' \<and> max_level sl' = max_level sl
    \<and> sl_map sl' = (sl_map sl)(key := None)"
proof -
  obtain as where inv: "sl_inv sl as" using assms(1) by (auto simp: sl_ok_def)
  show ?thesis
  proof (cases "sl_map sl key = None")
    case True
    then have "\<forall>x \<in> set as. keyof (heap sl) x \<noteq> key" using sl_present_iff [OF inv] by blast
    from delete_absent [OF inv this] True assms show ?thesis by (simp add: fun_upd_idem)
  next
    case False
    then obtain x where "x \<in> set as" "keyof (heap sl) x = key" using sl_present_iff [OF inv] by blast
    from delete_present [OF inv this] show ?thesis unfolding sl_ok_def by metis
  qed
qed

lemma search_ok: "sl_ok sl \<Longrightarrow> search_element key sl = Inr (sl_map sl key)"
  by (auto simp: sl_ok_def search_inv)

lemma insert_set_ok:
  assumes "sl_ok sl" and "draws_end rs"
  shows "\<exists>sl'. insert_set_element key val rs sl = Inr sl' \<and> sl_ok sl'
    \<and> sl_map sl' = (sl_map sl)(key \<mapsto> val)"
proof -
  obtain t where t: "(case sl_map sl key of Some _ \<Rightarrow> delete_element key sl | None \<Rightarrow> Inr sl) = Inr t"
      "sl_ok t" "sl_map t = (sl_map sl)(key := None)"
    using delete_element_ok [OF assms(1), of key] assms(1)
    by (cases "sl_map sl key") (auto simp: fun_upd_idem)
  from insert_element_ok [OF t(2) assms(2), of key val] t(3) obtain sl' where
    "insert_element key val rs t = Inr (0, sl')" "sl_ok sl'" "sl_map sl' = (sl_map sl)(key \<mapsto> val)"
    by auto
  with t(1) show ?thesis by (simp add: insert_set_element_def search_ok [OF assms(1)])
qed

lemma size_ok:
  assumes "sl_ok sl"
  shows "size_sl sl = int (card (dom (sl_map sl)))"
proof -
  obtain as where inv: "sl_inv sl as" using assms by (auto simp: sl_ok_def)
  then have "dom (sl_map sl) = keyof (heap sl) ` set as"
    by (auto simp: sl_map_def sl_entries_inv [OF inv] dom_map_of_conv_image_fst image_image)
  moreover have "distinct (map (keyof (heap sl)) as)"
    using inv by (simp add: sl_inv_def strict_sorted_iff)
  then have "card (keyof (heap sl) ` set as) = length as" by (metis distinct_card length_map set_map)
  ultimately show ?thesis using inv by (simp add: size_sl_def sl_inv_def)
qed

lemma new_ok: "sl_ok (SkipList_new k v ml) \<and> sl_map (SkipList_new k v ml) = Map.empty"
  using new_inv [of k v ml] by (auto simp: sl_ok_def sl_map_def sl_entries_inv)

interpretation skl: kv_store_del sl_ok sl_map search_element insert_set_element draws_end
    delete_element size_sl
proof (unfold_locales, goal_cases)
  case (1 s k)
  then show ?case by (rule search_ok)
next
  case (2 s r k v)
  then show ?case by (rule insert_set_ok)
next
  case (3 s k)
  then show ?case using delete_element_ok by blast
next
  case (4 s)
  then show ?case by (rule size_ok)
qed

section \<open>Dump and load\<close>

text \<open>Loading a dump into a list that holds none of its keys stores every key under itself.\<close>

lemma load_loop_fresh:
  assumes "sl_ok sl" and "distinct ks" and "\<forall>k \<in> set ks. sl_map sl k = None"
    and "length ks \<le> length rss" and "\<forall>rs \<in> set rss. draws_end rs"
  shows "\<exists>sl'. load_loop ks rss sl = Inr sl' \<and> sl_ok sl'
    \<and> sl_map sl' = (\<lambda>k. if k \<in> set ks then Some k else sl_map sl k)"
  using assms
proof (induction ks arbitrary: rss sl)
  case Nil
  then show ?case by simp
next
  case (Cons k ks)
  then obtain rs rss' where rss: "rss = rs # rss'" by (cases rss) auto
  with Cons.prems obtain t where t: "insert_element k k rs sl = Inr (0, t)" "sl_ok t"
      "sl_map t = (sl_map sl)(k \<mapsto> k)"
    using insert_element_ok [of sl rs k k] by auto
  have "\<exists>sl'. load_loop ks rss' t = Inr sl' \<and> sl_ok sl'
      \<and> sl_map sl' = (\<lambda>x. if x \<in> set ks then Some x else sl_map t x)"
    using Cons.prems t by (intro Cons.IH) (auto simp: rss)
  with t(1,3) Cons.prems(2) show ?case by (auto simp: rss fun_eq_iff)
qed

lemma dump_data_ok:
  assumes "sl_ok sl"
  shows "\<exists>d. dump_data sl = Inr d \<and> length (keyDumpVt d) = length (valDumpVt d)
    \<and> sorted_wrt (<) (keyDumpVt d) \<and> map_of (zip (keyDumpVt d) (valDumpVt d)) = sl_map sl
    \<and> set (keyDumpVt d) = dom (sl_map sl)"
proof -
  obtain as where inv: "sl_inv sl as" using assms by (auto simp: sl_ok_def)
  then have "sorted_wrt (<) (map (keyof (heap sl)) as)" by (simp add: sl_inv_def)
  then show ?thesis
    by (auto simp: dump_data_inv [OF inv] sl_map_def sl_entries_inv [OF inv] zip_map_map
        zip_same_conv_map dom_map_of_conv_image_fst image_image comp_def)
qed

section \<open>Destruction\<close>

lemma clear_nodes_chain:
  assumes "chain (nxt h 0) a xs" and "distinct (a # xs)"
    and "\<forall>x \<in> set (a # xs). live h x \<and> 0 < fwd_len h x" and "length xs < fuel"
  shows "\<exists>h'. clear_nodes fuel a h = Inr h' \<and> (\<forall>b. live h' b \<longleftrightarrow> b \<notin> set (a # xs) \<and> live h b)"
  using assms
proof (induction xs arbitrary: a fuel)
  case Nil
  then obtain f where "fuel = Suc f" by (cases fuel) auto
  moreover obtain h' where "free_node a h = Inr h'" "\<And>b. live h' b \<longleftrightarrow> b \<noteq> a \<and> live h b"
    using free_node_ok [of h a] Nil.prems by (metis list.set_intros(1))
  ultimately show ?case using Nil by (auto simp: get_forward_live)
next
  case (Cons x xs)
  then obtain f where f: "fuel = Suc f" by (cases fuel) auto
  have "\<exists>h'. clear_nodes f x h = Inr h' \<and> (\<forall>b. live h' b \<longleftrightarrow> b \<notin> set (x # xs) \<and> live h b)"
    using Cons.prems f by (intro Cons.IH) auto
  then obtain h1 where h1: "clear_nodes f x h = Inr h1" "\<And>b. live h1 b \<longleftrightarrow> b \<notin> set (x # xs) \<and> live h b"
    by blast
  have "live h1 a" using Cons.prems h1(2) by simp
  then obtain h' where "free_node a h1 = Inr h'" "\<And>b. live h' b \<longleftrightarrow> b \<noteq> a \<and> live h1 b"
    using free_node_ok by metis
  with Cons.prems f h1 show ?case by (auto simp: get_forward_live)
qed

lemma destroy_ok:
  assumes "sl_ok sl"
  shows "\<exists>h'. SkipList_destroy sl = Inr h' \<and> (\<forall>b. \<not> live h' b)"
proof -
  obtain as where inv: "sl_inv sl as" using assms by (auto simp: sl_ok_def)
  let ?h = "heap sl"
  have ok: "\<forall>x \<in> set (header sl # as). live ?h x \<and> 0 < fwd_len ?h x"
    using sl_inv_fwd [OF inv, of 0] by auto
  have ch: "chain (nxt ?h 0) (header sl) as" and dist: "distinct (header sl # as)"
    and lv: "\<And>b. live ?h b \<longleftrightarrow> b \<in> set (header sl # as)"
    using inv by (auto simp: sl_inv_def dest: spec [of _ 0])
  have "\<exists>h1. (case nxt ?h 0 (header sl) of None \<Rightarrow> Inr ?h
      | Some a \<Rightarrow> clear_nodes (length ?h) a ?h) = Inr h1 \<and> (\<forall>b. live h1 b \<longleftrightarrow> b = header sl)"
  proof (cases as)
    case Nil
    with ch lv show ?thesis by simp
  next
    case (Cons x xs)
    with ch dist ok sl_inv_length [OF inv] clear_nodes_chain [of ?h x xs "length ?h"] lv
    show ?thesis by auto
  qed
  then obtain h1 where h1: "(case nxt ?h 0 (header sl) of None \<Rightarrow> Inr ?h
      | Some a \<Rightarrow> clear_nodes (length ?h) a ?h) = Inr h1" "\<And>b. live h1 b \<longleftrightarrow> b = header sl" by blast
  obtain h' where "free_node (header sl) h1 = Inr h'" "\<And>b. live h' b \<longleftrightarrow> b \<noteq> header sl \<and> live h1 b"
    using free_node_ok [of h1 "header sl"] h1(2) by metis
  with ok h1 show ?thesis by (auto simp: SkipList_destroy_def get_forward_live)
qed

section \<open>Runs of the public operations\<close>

text \<open>
  The operations a client can call, what the skip list answers, and what a finite map answers;
  the map is the specification.
\<close>

datatype ('k, 'v) sl_cmd =
  Insert 'k 'v "int list" | Delete 'k | Set 'k 'v "int list" | Search 'k | Size

datatype 'v sl_out = Code int | Found "'v option" | Count int | Done

fun run_cmd :: "('k::linorder, 'v) sl_cmd \<Rightarrow> ('k, 'v) SkipList \<Rightarrow> heap_error + 'v sl_out \<times> ('k, 'v) SkipList" where
  "run_cmd (Insert k v rs) sl = bindE (insert_element k v rs sl) (\<lambda>(r, s). Inr (Code r, s))"
| "run_cmd (Delete k) sl = bindE (delete_element k sl) (\<lambda>s. Inr (Done, s))"
| "run_cmd (Set k v rs) sl = bindE (insert_set_element k v rs sl) (\<lambda>s. Inr (Done, s))"
| "run_cmd (Search k) sl = bindE (search_element k sl) (\<lambda>r. Inr (Found r, sl))"
| "run_cmd Size sl = Inr (Count (size_sl sl), sl)"

fun run_cmds :: "('k::linorder, 'v) sl_cmd list \<Rightarrow> ('k, 'v) SkipList
    \<Rightarrow> heap_error + 'v sl_out list \<times> ('k, 'v) SkipList" where
  "run_cmds [] sl = Inr ([], sl)"
| "run_cmds (c # cs) sl =
     bindE (run_cmd c sl) (\<lambda>(x, s). bindE (run_cmds cs s) (\<lambda>(xs, s'). Inr (x # xs, s')))"

fun spec_cmd :: "('k, 'v) sl_cmd \<Rightarrow> ('k \<rightharpoonup> 'v) \<Rightarrow> 'v sl_out \<times> ('k \<rightharpoonup> 'v)" where
  "spec_cmd (Insert k v rs) m = (if m k = None then (Code 0, m(k \<mapsto> v)) else (Code 1, m))"
| "spec_cmd (Delete k) m = (Done, m(k := None))"
| "spec_cmd (Set k v rs) m = (Done, m(k \<mapsto> v))"
| "spec_cmd (Search k) m = (Found (m k), m)"
| "spec_cmd Size m = (Count (int (card (dom m))), m)"

fun spec_cmds :: "('k, 'v) sl_cmd list \<Rightarrow> ('k \<rightharpoonup> 'v) \<Rightarrow> 'v sl_out list \<times> ('k \<rightharpoonup> 'v)" where
  "spec_cmds [] m = ([], m)"
| "spec_cmds (c # cs) m = (let (x, m1) = spec_cmd c m; (xs, m2) = spec_cmds cs m1 in (x # xs, m2))"

fun cmd_fair :: "('k, 'v) sl_cmd \<Rightarrow> bool" where
  "cmd_fair (Insert k v rs) = draws_end rs"
| "cmd_fair (Set k v rs) = draws_end rs"
| "cmd_fair _ = True"

lemma run_cmd_spec:
  assumes "sl_ok sl" and "cmd_fair c"
  shows "\<exists>s. run_cmd c sl = Inr (fst (spec_cmd c (sl_map sl)), s) \<and> sl_ok s
    \<and> sl_map s = snd (spec_cmd c (sl_map sl))"
proof (cases c)
  case (Insert k v rs)
  with assms(2) have "draws_end rs" by simp
  from insert_element_ok [OF assms(1) this, of k v] Insert show ?thesis by auto
next
  case (Delete k)
  with skl.del_abs [OF assms(1), of k] show ?thesis by auto
next
  case (Set k v rs)
  with assms(2) have "draws_end rs" by simp
  from skl.put_abs [OF assms(1) this, of k v] Set show ?thesis by auto
next
  case (Search k)
  with assms(1) skl.lookup_abs [OF assms(1), of k] show ?thesis by simp
next
  case Size
  with assms(1) skl.count_abs [OF assms(1)] show ?thesis by simp
qed

lemma run_cmds_spec:
  assumes "sl_ok sl" and "\<forall>c \<in> set cs. cmd_fair c"
  shows "\<exists>s. run_cmds cs sl = Inr (fst (spec_cmds cs (sl_map sl)), s) \<and> sl_ok s
    \<and> sl_map s = snd (spec_cmds cs (sl_map sl))"
  using assms
proof (induction cs arbitrary: sl)
  case Nil
  then show ?case by simp
next
  case (Cons c cs)
  obtain s where s: "run_cmd c sl = Inr (fst (spec_cmd c (sl_map sl)), s)" "sl_ok s"
      "sl_map s = snd (spec_cmd c (sl_map sl))"
    using run_cmd_spec [of sl c] Cons.prems by auto
  from Cons.IH [OF s(2)] Cons.prems(2) s show ?case
    by (auto simp: split_beta Let_def)
qed

section \<open>Properties\<close>

text \<open>C6: on every sequence of insertions, deletions, replacing insertions, searches and size
  queries, a freshly constructed skip list returns normally (no NULL or dangling pointer is
  followed, no array index is out of bounds, no loop runs away) and answers exactly what a
  finite map answers; the list it ends in is well formed and stands for the map's final state.\<close>

theorem skiplist_refines_map:
  assumes "\<forall>c \<in> set cs. cmd_fair c"
  shows "\<exists>sl. run_cmds cs (SkipList_new k0 v0 ml) = Inr (fst (spec_cmds cs Map.empty), sl)
    \<and> sl_ok sl \<and> sl_map sl = snd (spec_cmds cs Map.empty)"
  using run_cmds_spec [OF _ assms, of "SkipList_new k0 v0 ml"] new_ok [of k0 v0 ml] by metis

theorem skiplist_refines_map_witness:
  "\<exists>sl. run_cmds [Insert 5 50 [1, 0], Insert (3::int) (30::int) [0], Insert 5 51 [0], Delete 3, Set 5 52 [1, 1, 1, 0],
        Search 5, Size] (SkipList_new 0 0 2) = Inr ([Code 0, Code 0, Code 1, Done, Done, Found (Some 52), Count 1], sl)"
  using skiplist_refines_map [of "[Insert 5 50 [1, 0], Insert (3::int) (30::int) [0], Insert 5 51 [0], Delete 3,
      Set 5 52 [1, 1, 1, 0], Search 5, Size]" 0 0 2]
  by (auto simp: draws_end_def simp del: run_cmds.simps)

text \<open>C7: destroying a skip list, after any sequence of operations, returns normally and leaves no
  cell of its heap allocated: every node that was ever created has been deleted exactly once
  (a second deletion or a deletion of a free cell is an error of the model).\<close>

theorem skiplist_destroy_frees_all:
  assumes "\<forall>c \<in> set cs. cmd_fair c"
  shows "\<exists>outs sl h. run_cmds cs (SkipList_new k0 v0 ml) = Inr (outs, sl)
    \<and> SkipList_destroy sl = Inr h \<and> (\<forall>cell \<in> set h. cell = None)"
proof -
  obtain sl where sl: "run_cmds cs (SkipList_new k0 v0 ml) = Inr (fst (spec_cmds cs Map.empty), sl)" "sl_ok sl"
    using run_cmds_spec [OF _ assms, of "SkipList_new k0 v0 ml"] new_ok [of k0 v0 ml] by metis
  from destroy_ok [OF sl(2)] obtain h where h: "SkipList_destroy sl = Inr h" "\<And>b. \<not> live h b" by blast
  have "\<forall>cell \<in> set h. cell = None"
    using h(2) by (metis hget_def in_set_conv_nth live_def)
  with sl(1) h(1) show ?thesis by blast
qed

theorem skiplist_destroy_frees_all_witness:
  "\<exists>outs sl h. run_cmds [Insert (5::int) (50::int) [1, 0], Insert 7 70 [0], Delete 5] (SkipList_new 0 0 3) = Inr (outs, sl)
    \<and> SkipList_destroy sl = Inr h \<and> (\<forall>cell \<in> set h. cell = None)"
  by (rule skiplist_destroy_frees_all) (simp add: draws_end_def)

text \<open>Dumping a skip list and loading the dump into a freshly constructed one restores the set of
  keys but not the values: whatever was stored, every key of the restored list is bound to itself,
  because \<open>load_file\<close> passes \<open>keyDumpVt_[i]\<close> where the value belongs. The archive library is only
  assumed to read back what it wrote.\<close>

theorem load_file_binds_keys_to_themselves:
  fixes sl :: "('k::linorder, 'k) SkipList"
  assumes reach: "run_cmds cs (SkipList_new k0 v0 ml) = Inr (outs, sl)" "\<forall>c \<in> set cs. cmd_fair c"
    and archive: "\<And>d. dump_data sl = Inr d \<Longrightarrow> oarchive d \<noteq> [] \<and> iarchive (oarchive d) = Some d"
    and draws: "card (dom (sl_map sl)) \<le> length rss" "\<forall>rs \<in> set rss. draws_end rs"
  shows "\<exists>str sl'. dump_file oarchive sl = Inr str
    \<and> load_file iarchive str rss (SkipList_new k0 v0 ml) = Inr sl' \<and> sl_ok sl'
    \<and> dom (sl_map sl') = dom (sl_map sl) \<and> (\<forall>k \<in> dom (sl_map sl'). sl_map sl' k = Some k)"
proof -
  have "sl_ok sl"
    using run_cmds_spec [OF _ reach(2), of "SkipList_new k0 v0 ml"] new_ok [of k0 v0 ml] reach(1) by auto
  then obtain d where d: "dump_data sl = Inr d" "sorted_wrt (<) (keyDumpVt d)"
      "set (keyDumpVt d) = dom (sl_map sl)"
    using dump_data_ok by blast
  then have dist: "distinct (keyDumpVt d)" by (simp add: strict_sorted_iff)
  with d(3) have "length (keyDumpVt d) \<le> length rss" using draws(1) by (metis distinct_card)
  with load_loop_fresh [OF _ dist, of "SkipList_new k0 v0 ml" rss] new_ok [of k0 v0 ml] draws(2)
  obtain sl' where "load_loop (keyDumpVt d) rss (SkipList_new k0 v0 ml) = Inr sl'" "sl_ok sl'"
      "\<And>k. sl_map sl' k = (if k \<in> dom (sl_map sl) then Some k else None)"
    by (auto simp: fun_eq_iff d(3))
  with d archive [OF d(1)] show ?thesis
    by (auto simp: dump_file_def load_file_def dom_def split: if_splits)
qed

theorem load_file_binds_keys_to_themselves_witness:
  "\<exists>outs sl str sl'. run_cmds [Insert (5::int) (50::int) [1, 0]] (SkipList_new 0 0 3) = Inr (outs, sl)
    \<and> sl_map sl 5 = Some 50
    \<and> load_file (\<lambda>_. Some \<lparr>keyDumpVt = [5::int], valDumpVt = [50]\<rparr>) str [[0]] (SkipList_new 0 0 3) = Inr sl'
    \<and> sl_map sl' 5 = Some 5"
proof -
  have fair: "\<forall>c \<in> set [Insert (5::int) (50::int) [1, 0]]. cmd_fair c" by (simp add: draws_end_def)
  define sl where "sl = \<lparr>heap = [Some \<lparr>nkey = 0, nvalue = 0, node_level = 3, forward = [Some 1, Some 1, Some 1, None]\<rparr>,
             Some \<lparr>nkey = 5::int, nvalue = 50::int, node_level = 2, forward = [None, None, None]\<rparr>],
           max_level = 3, skip_list_level = 2, header = 0, element_count = 1\<rparr>"
  have sl: "run_cmds [Insert (5::int) (50::int) [1, 0]] (SkipList_new 0 0 3) = Inr ([Code 0], sl)"
    unfolding sl_def by code_simp
  have dd: "dump_data sl = Inr \<lparr>keyDumpVt = [5], valDumpVt = [50]\<rparr>" unfolding sl_def by code_simp
  then have m: "sl_map sl = [5 \<mapsto> 50]" by (simp add: sl_map_def sl_entries_def)
  obtain str sl' where "load_file (\<lambda>_. Some \<lparr>keyDumpVt = [5], valDumpVt = [50]\<rparr>) str [[0]] (SkipList_new 0 0 3) = Inr sl'"
      "dom (sl_map sl') = dom (sl_map sl)" "\<forall>k \<in> dom (sl_map sl'). sl_map sl' k = Some k"
    using load_file_binds_keys_to_themselves [OF sl fair, of "\<lambda>_. ''x''"
        "\<lambda>_. Some \<lparr>keyDumpVt = [5], valDumpVt = [50]\<rparr>" "[[0]]"]
    by (auto simp: dd m draws_end_def)
  with sl m show ?thesis by (metis domI fun_upd_same)
qed

end
