(* ===== verification/LockQueue.thy ===== *)
theory LockQueue
  imports Prelude
begin

text \<open>
  The blocking queue \<open>LockQueue\<close> of \<open>src/raft/raftCore/include/util.h\<close> that carries apply
  messages from Raft to the server and commit notices back to waiting calls. The mutex makes every
  operation atomic; what happens while a caller waits is a list of wake-ups.
\<close>

section \<open>Model\<close>

type_synonym 'a LockQueue = "'a list"

definition Push :: "'a \<Rightarrow> 'a LockQueue \<Rightarrow> 'a LockQueue" where
  "Push data q = q @ [data]"

text \<open>
  One wake-up of a waiting caller: the condition variable was signalled, or the deadline passed;
  either way the queue has received some pushes meanwhile.
\<close>

datatype 'a wakeup = Notified "'a list" | TimedOut "'a list"

text \<open>\<open>Pop\<close> waits as long as the queue is empty; \<open>None\<close>: still waiting when the wake-ups end.\<close>

fun Pop :: "'a wakeup list \<Rightarrow> 'a LockQueue \<Rightarrow> ('a \<times> 'a LockQueue) option" where
  "Pop ws (x # q) = Some (x, q)"
| "Pop [] [] = None"
| "Pop (Notified xs # ws) [] = Pop ws xs"
| "Pop (TimedOut xs # ws) [] = Pop ws xs"

text \<open>
  \<open>timeOutPop\<close>: \<open>Some (Some x, q)\<close> for true with \<open>x\<close>, \<open>Some (None, q)\<close> for false. When the wait
  ends by its deadline the call gives up even if an element has just arrived.
\<close>

fun timeOutPop :: "'a wakeup list \<Rightarrow> 'a LockQueue \<Rightarrow> ('a option \<times> 'a LockQueue) option" where
  "timeOutPop ws (x # q) = Some (Some x, q)"
| "timeOutPop [] [] = None"
| "timeOutPop (TimedOut xs # ws) [] = Some (None, xs)"
| "timeOutPop (Notified xs # ws) [] = timeOutPop ws xs"

section \<open>First in, first out\<close>

text \<open>A channel: what is pushed comes out, once, in the order it was pushed.\<close>

locale channel =
  fixes push :: "'a \<Rightarrow> 'q \<Rightarrow> 'q"
    and pop :: "'q \<Rightarrow> ('a \<times> 'q) option"
    and contents :: "'q \<Rightarrow> 'a list"
  assumes contents_push: "contents (push x q) = contents q @ [x]"
    and pop_empty: "contents q = [] \<Longrightarrow> pop q = None"
    and pop_front: "contents q = x # xs \<Longrightarrow> \<exists>q'. pop q = Some (x, q') \<and> contents q' = xs"
begin

fun push_all :: "'a list \<Rightarrow> 'q \<Rightarrow> 'q" where
  "push_all [] q = q"
| "push_all (x # xs) q = push_all xs (push x q)"

fun pop_n :: "nat \<Rightarrow> 'q \<Rightarrow> ('a list \<times> 'q) option" where
  "pop_n 0 q = Some ([], q)"
| "pop_n (Suc n) q = (case pop q of None \<Rightarrow> None
     | Some (x, q') \<Rightarrow> map_option (\<lambda>(xs, q''). (x # xs, q'')) (pop_n n q'))"

lemma contents_push_all: "contents (push_all xs q) = contents q @ xs"
  by (induction xs arbitrary: q) (simp_all add: contents_push)

lemma pop_n_contents:
  "contents q = xs @ ys \<Longrightarrow> \<exists>q'. pop_n (length xs) q = Some (xs, q') \<and> contents q' = ys"
proof (induction xs arbitrary: q)
  case Nil
  then show ?case by simp
next
  case (Cons x xs)
  from pop_front [of q x "xs @ ys"] Cons.prems obtain q' where
    "pop q = Some (x, q')" "contents q' = xs @ ys" by auto
  with Cons.IH [of q'] show ?case by auto
qed

lemma pop_pushed:
  assumes "contents q = []"
  shows "\<exists>q'. pop_n (length xs) (push_all xs q) = Some (xs, q') \<and> contents q' = []"
  using pop_n_contents [of "push_all xs q" xs "[]"] assms by (simp add: contents_push_all)

end

interpretation lq: channel Push "Pop []" "\<lambda>q. q"
  by unfold_locales (auto simp: Push_def)

lemma timeOutPop_Pop: "timeOutPop ws q = Some (Some x, q') \<Longrightarrow> Pop ws q = Some (x, q')"
  by (induction ws q rule: timeOutPop.induct) auto

end
