(* ===== verification/Persister.thy ===== *)
theory Persister
  imports Prelude
begin

text \<open>
  Durable storage of a Raft node (\<open>src/raft/raftCore/Persister.cpp\<close>): two files and the two
  output streams kept open on them. A stream is its open flag and the characters it still buffers;
  \<open>spill\<close> is the standard library's choice of how many buffered characters it writes out early
  (any number is allowed). The files are assumed to open.
\<close>

section \<open>Model\<close>

record ofstream =
  is_open :: bool
  pending :: string

record Persister =
  raftStateFile :: string
  snapshotFile :: string
  m_raftStateOutStream :: ofstream
  m_snapshotOutStream :: ofstream
  m_raftStateSize :: int

text \<open>The stream operations, each on a pair of a file's contents and the stream on it.\<close>

definition stream_open :: "string \<times> ofstream \<Rightarrow> string \<times> ofstream" where
  \<comment> \<open>\<open>open(name)\<close> and \<open>open(name, out | trunc)\<close> of an \<open>ofstream\<close>: both truncate\<close>
  "stream_open fs = ([], \<lparr>is_open = True, pending = []\<rparr>)"

definition stream_close :: "string \<times> ofstream \<Rightarrow> string \<times> ofstream" where
  "stream_close fs = (fst fs @ pending (snd fs), \<lparr>is_open = False, pending = []\<rparr>)"

definition stream_write :: "nat \<Rightarrow> string \<Rightarrow> string \<times> ofstream \<Rightarrow> string \<times> ofstream" where
  "stream_write spill data fs =
     (if is_open (snd fs)
      then (fst fs @ take spill (pending (snd fs) @ data),
            \<lparr>is_open = True, pending = drop spill (pending (snd fs) @ data)\<rparr>)
      else fs)"

text \<open>\<open>ifs >> s\<close>: skip white space, then read up to the next white space.\<close>

definition is_space :: "char \<Rightarrow> bool" where
  "is_space c \<longleftrightarrow> of_char c \<in> {9, 10, 11, 12, 13, 32 :: nat}"

definition read_word :: "string \<Rightarrow> string" where
  "read_word s = takeWhile (\<lambda>c. \<not> is_space c) (dropWhile is_space s)"

definition clearRaftState :: "Persister \<Rightarrow> Persister" where
  "clearRaftState p =
     (let fs0 = (raftStateFile p, m_raftStateOutStream p);
          fs1 = (if is_open (snd fs0) then stream_close fs0 else fs0);
          (f, st) = stream_open fs1
      in p\<lparr>m_raftStateSize := 0, raftStateFile := f, m_raftStateOutStream := st\<rparr>)"

definition clearSnapshot :: "Persister \<Rightarrow> Persister" where
  "clearSnapshot p =
     (let fs0 = (snapshotFile p, m_snapshotOutStream p);
          fs1 = (if is_open (snd fs0) then stream_close fs0 else fs0);
          (f, st) = stream_open fs1
      in p\<lparr>snapshotFile := f, m_snapshotOutStream := st\<rparr>)"

definition clearRaftStateAndSnapshot :: "Persister \<Rightarrow> Persister" where
  "clearRaftStateAndSnapshot p = clearSnapshot (clearRaftState p)"

definition Save :: "nat \<Rightarrow> string \<Rightarrow> string \<Rightarrow> Persister \<Rightarrow> Persister" where
  "Save spill raftstate snapshot p =
     (let p1 = clearRaftStateAndSnapshot p;
          (f, st) = stream_write spill raftstate (raftStateFile p1, m_raftStateOutStream p1);
          (g, su) = stream_write spill snapshot (snapshotFile p1, m_snapshotOutStream p1)
      in p1\<lparr>raftStateFile := f, m_raftStateOutStream := st, snapshotFile := g, m_snapshotOutStream := su\<rparr>)"

definition SaveRaftState :: "nat \<Rightarrow> string \<Rightarrow> Persister \<Rightarrow> Persister" where
  "SaveRaftState spill data p =
     (let p1 = clearRaftState p;
          (f, st) = stream_write spill data (raftStateFile p1, m_raftStateOutStream p1)
      in p1\<lparr>raftStateFile := f, m_raftStateOutStream := st,
            m_raftStateSize := m_raftStateSize p1 + int (length data)\<rparr>)"

text \<open>
  \<open>ReadSnapshot\<close>: closes (and so flushes) the stream, reads one word of the file, and on the way
  out re-opens the stream with the default mode of \<open>ofstream\<close>.
\<close>

definition ReadSnapshot :: "Persister \<Rightarrow> string \<times> Persister" where
  "ReadSnapshot p =
     (let fs0 = (snapshotFile p, m_snapshotOutStream p);
          fs1 = (if is_open (snd fs0) then stream_close fs0 else fs0);
          snapshot = read_word (fst fs1);
          (f, st) = stream_open fs1
      in (snapshot, p\<lparr>snapshotFile := f, m_snapshotOutStream := st\<rparr>))"

definition RaftStateSize :: "Persister \<Rightarrow> int" where
  "RaftStateSize p = m_raftStateSize p"

definition ReadRaftState :: "Persister \<Rightarrow> string" where
  "ReadRaftState p = read_word (raftStateFile p)"

text \<open>
  The constructor, given what the two files of this node hold from an earlier run: it truncates
  both and opens the streams.
\<close>

definition Persister_new :: "string \<Rightarrow> string \<Rightarrow> Persister" where
  "Persister_new oldRaftState oldSnapshot =
     (let f0 = []; g0 = [];
          (f, st) = stream_open (f0, \<lparr>is_open = False, pending = []\<rparr>);
          (g, su) = stream_open (g0, \<lparr>is_open = False, pending = []\<rparr>)
      in \<lparr>raftStateFile = f, snapshotFile = g, m_raftStateOutStream = st,
          m_snapshotOutStream = su, m_raftStateSize = 0\<rparr>)"

text \<open>The destructor closes both streams; what remains are the two files.\<close>

definition Persister_destroy :: "Persister \<Rightarrow> string \<times> string" where
  "Persister_destroy p =
     (let fs = (raftStateFile p, m_raftStateOutStream p);
          gs = (snapshotFile p, m_snapshotOutStream p)
      in (fst (if is_open (snd fs) then stream_close fs else fs),
          fst (if is_open (snd gs) then stream_close gs else gs)))"

section \<open>Facts\<close>

lemmas persister_defs =
  stream_open_def stream_close_def stream_write_def clearRaftState_def clearSnapshot_def
  clearRaftStateAndSnapshot_def Save_def SaveRaftState_def ReadSnapshot_def RaftStateSize_def
  ReadRaftState_def Persister_new_def Persister_destroy_def

lemma read_word_word: "\<forall>c \<in> set s. \<not> is_space c \<Longrightarrow> read_word s = s"
proof -
  assume a: "\<forall>c \<in> set s. \<not> is_space c"
  then have "dropWhile is_space s = s" by (cases s) auto
  with a show ?thesis by (simp add: read_word_def takeWhile_eq_all_conv)
qed

lemma read_word_Nil [simp]: "read_word [] = []"
  by (simp add: read_word_def)

lemma read_word_no_space: "c \<in> set (read_word s) \<Longrightarrow> \<not> is_space c"
  unfolding read_word_def by (auto dest: set_takeWhileD)

end
