(* ===== verification/Raft.thy ===== *)
theory Raft
  imports LockQueue Persister
begin

text \<open>
  One Raft node (\<open>src/raft/raftCore/raft.cpp\<close>, \<open>raft.h\<close>, \<open>ApplyMsg.h\<close>, \<open>raftRPC.proto\<close>): the
  fields of class \<open>Raft\<close> as a record and every member function as a function on it. Each RPC
  handler runs under the node's mutex and is one step; functions that release the mutex around a
  remote call (\<open>sendRequestVote\<close>, \<open>sendAppendEntries\<close>, \<open>leaderSendSnapShot\<close>) are split at the
  call, and what arrives is an argument. Work handed to the scheduler is appended to \<open>m_tasks\<close>.

  \<open>myAssert\<close> terminates the process: it is the error \<open>AssertFailed\<close>. Reading a vector out of range
  and using a null persister are errors too. \<open>int\<close> stands for C++'s 32-bit \<open>int\<close>: terms and
  indices are assumed not to reach \<open>2 ^ 31\<close>, where the signed arithmetic of the code has no
  defined result. Logging is left out.
\<close>

section \<open>Messages and state\<close>

record LogEntry =
  command :: string
  logterm :: int
  logindex :: int

record AppendEntriesArgs =
  ae_term :: int
  ae_leaderid :: int
  ae_prevlogindex :: int
  ae_prevlogterm :: int
  ae_entries :: "LogEntry list"
  ae_leadercommit :: int

record AppendEntriesReply =
  aer_term :: int
  aer_success :: bool
  aer_updatenextindex :: int
  aer_appstate :: int

record RequestVoteArgs =
  rv_term :: int
  rv_candidateid :: int
  rv_lastlogindex :: int
  rv_lastlogterm :: int

record RequestVoteReply =
  rvr_term :: int
  rvr_votegranted :: bool
  rvr_votestate :: int

record InstallSnapshotRequest =
  is_leaderid :: int
  is_term :: int
  is_lastsnapshotincludeindex :: int
  is_lastsnapshotincludeterm :: int
  is_data :: string

record InstallSnapshotResponse =
  isr_term :: int

text \<open>Messages start with the default values of proto3.\<close>

definition AppendEntriesReply_new :: AppendEntriesReply where
  "AppendEntriesReply_new =
     \<lparr>aer_term = 0, aer_success = False, aer_updatenextindex = 0, aer_appstate = 0\<rparr>"

definition InstallSnapshotResponse_new :: InstallSnapshotResponse where
  "InstallSnapshotResponse_new = \<lparr>isr_term = 0\<rparr>"

definition Disconnected :: int where "Disconnected = 0"
definition AppNormal :: int where "AppNormal = 1"
definition Voted :: int where "Voted = 1"
definition Expire :: int where "Expire = 2"
definition Normal :: int where "Normal = 3"

record ApplyMsg =
  CommandValid :: bool
  Command :: string
  CommandIndex :: int
  SnapshotValid :: bool
  Snapshot_data :: string
  SnapshotTerm :: int
  SnapshotIndex :: int

definition ApplyMsg_new :: ApplyMsg where
  "ApplyMsg_new = \<lparr>CommandValid = False, Command = [], CommandIndex = -1, SnapshotValid = False,
     Snapshot_data = [], SnapshotTerm = -1, SnapshotIndex = -1\<rparr>"

datatype Status = Follower | Candidate | Leader

text \<open>
  The functions queued on the IO manager. A \<open>shared_ptr<int>\<close> counter captured by several of them
  is an index into \<open>m_counters\<close>.
\<close>

datatype task =
    DoHeartBeat
  | SendRequestVote nat RequestVoteArgs nat
  | SendAppendEntries nat AppendEntriesArgs nat
  | LeaderSendSnapShot nat
  | PushMsgToKvServer ApplyMsg

record Raft =
  m_npeers :: nat
  m_me :: nat
  m_persister :: "Persister option"
  m_currentTerm :: int
  m_votedFor :: int
  m_logs :: "LogEntry list"
  m_commitIndex :: int
  m_lastApplied :: int
  m_nextIndex :: "int list"
  m_matchIndex :: "int list"
  m_status :: Status
  m_lastResetElectionTime :: int
  m_lastResetHearBeatTime :: int
  m_lastSnapshotIncludeIndex :: int
  m_lastSnapshotIncludeTerm :: int
  applyChan :: "ApplyMsg LockQueue"
  m_tasks :: "task list"
  m_counters :: "int list"

datatype raft_error = AssertFailed | VectorOutOfRange | NullPersister | ArchiveError

text \<open>
  Code outside the repository that the node uses: the protobuf serialisation of an entry, the
  Boost text archive of the persistent part, and the buffering of output streams.
\<close>

record BoostPersistRaftNode =
  b_currentTerm :: int
  b_votedFor :: int
  b_lastSnapshotIncludeIndex :: int
  b_lastSnapshotIncludeTerm :: int
  b_logs :: "string list"

record env =
  SerializeAsString :: "LogEntry \<Rightarrow> string"
  ParseFromString :: "string \<Rightarrow> LogEntry"
  text_oarchive :: "BoostPersistRaftNode \<Rightarrow> string"
  text_iarchive :: "string \<Rightarrow> BoostPersistRaftNode option"
  spill :: nat

section \<open>Vectors\<close>

definition vec_get :: "'a list \<Rightarrow> int \<Rightarrow> raft_error + 'a" where
  "vec_get xs i = (if 0 \<le> i \<and> i < int (length xs) then Inr (xs ! nat i) else Inl VectorOutOfRange)"

definition vec_set :: "'a list \<Rightarrow> int \<Rightarrow> 'a \<Rightarrow> raft_error + 'a list" where
  "vec_set xs i v = (if 0 \<le> i \<and> i < int (length xs) then Inr (xs[nat i := v]) else Inl VectorOutOfRange)"

definition myAssert :: "bool \<Rightarrow> raft_error + unit" where
  "myAssert condition = guardE AssertFailed condition"

section \<open>The log\<close>

definition getLastLogIndexAndTerm :: "Raft \<Rightarrow> int \<times> int" where
  "getLastLogIndexAndTerm rf =
     (if m_logs rf = [] then (m_lastSnapshotIncludeIndex rf, m_lastSnapshotIncludeTerm rf)
      else (logindex (last (m_logs rf)), logterm (last (m_logs rf))))"

definition getLastLogIndex :: "Raft \<Rightarrow> int" where
  "getLastLogIndex rf = fst (getLastLogIndexAndTerm rf)"

definition getLastLogTerm :: "Raft \<Rightarrow> int" where
  "getLastLogTerm rf = snd (getLastLogIndexAndTerm rf)"

definition getNewCommandIndex :: "Raft \<Rightarrow> int" where
  "getNewCommandIndex rf = getLastLogIndex rf + 1"

definition getSlicesIndexFromLogIndex :: "Raft \<Rightarrow> int \<Rightarrow> raft_error + int" where
  "getSlicesIndexFromLogIndex rf logIndex =
     bindE (myAssert (logIndex > m_lastSnapshotIncludeIndex rf)) (\<lambda>_.
     bindE (myAssert (logIndex \<le> getLastLogIndex rf)) (\<lambda>_.
     Inr (logIndex - m_lastSnapshotIncludeIndex rf - 1)))"

text \<open>\<open>m_logs[getSlicesIndexFromLogIndex(logIndex)]\<close>.\<close>

definition logAt :: "Raft \<Rightarrow> int \<Rightarrow> raft_error + LogEntry" where
  "logAt rf logIndex = bindE (getSlicesIndexFromLogIndex rf logIndex) (vec_get (m_logs rf))"

definition getLogTermFromLogIndex :: "Raft \<Rightarrow> int \<Rightarrow> raft_error + int" where
  "getLogTermFromLogIndex rf logIndex =
     bindE (myAssert (logIndex \<ge> m_lastSnapshotIncludeIndex rf)) (\<lambda>_.
     bindE (myAssert (logIndex \<le> getLastLogIndex rf)) (\<lambda>_.
     if logIndex = m_lastSnapshotIncludeIndex rf then Inr (m_lastSnapshotIncludeTerm rf)
     else bindE (logAt rf logIndex) (\<lambda>e. Inr (logterm e))))"

definition matchLog :: "Raft \<Rightarrow> int \<Rightarrow> int \<Rightarrow> raft_error + bool" where
  "matchLog rf logIndex logTerm =
     bindE (myAssert (logIndex \<ge> m_lastSnapshotIncludeIndex rf \<and> logIndex \<le> getLastLogIndex rf)) (\<lambda>_.
     bindE (getLogTermFromLogIndex rf logIndex) (\<lambda>t. Inr (logTerm = t)))"

definition UpToDate :: "Raft \<Rightarrow> int \<Rightarrow> int \<Rightarrow> bool" where
  "UpToDate rf index trm =
     (let (lastIndex, lastTerm) = getLastLogIndexAndTerm rf
      in trm > lastTerm \<or> (trm = lastTerm \<and> index \<ge> lastIndex))"

section \<open>Persistence\<close>

definition persistData :: "env \<Rightarrow> Raft \<Rightarrow> string" where
  "persistData ev rf = text_oarchive ev
     \<lparr>b_currentTerm = m_currentTerm rf, b_votedFor = m_votedFor rf,
      b_lastSnapshotIncludeIndex = m_lastSnapshotIncludeIndex rf,
      b_lastSnapshotIncludeTerm = m_lastSnapshotIncludeTerm rf,
      b_logs = map (SerializeAsString ev) (m_logs rf)\<rparr>"

definition persist :: "env \<Rightarrow> Raft \<Rightarrow> Raft" where
  "persist ev rf = (case m_persister rf of
       None \<Rightarrow> rf
     | Some p \<Rightarrow> rf\<lparr>m_persister := Some (SaveRaftState (spill ev) (persistData ev rf) p)\<rparr>)"

definition readPersist :: "env \<Rightarrow> string \<Rightarrow> Raft \<Rightarrow> raft_error + Raft" where
  "readPersist ev data rf =
     (if data = [] then Inr rf
      else bindE (optE ArchiveError (text_iarchive ev data)) (\<lambda>b.
        Inr (rf\<lparr>m_currentTerm := b_currentTerm b, m_votedFor := b_votedFor b,
                m_lastSnapshotIncludeIndex := b_lastSnapshotIncludeIndex b,
                m_lastSnapshotIncludeTerm := b_lastSnapshotIncludeTerm b,
                m_logs := map (ParseFromString ev) (b_logs b)\<rparr>)))"

text \<open>\<open>m_persister->Save(persistData(), snapshot)\<close>.\<close>

definition saveSnapshot :: "env \<Rightarrow> string \<Rightarrow> Raft \<Rightarrow> raft_error + Raft" where
  "saveSnapshot ev snapshot rf =
     bindE (optE NullPersister (m_persister rf)) (\<lambda>p.
       Inr (rf\<lparr>m_persister := Some (Save (spill ev) (persistData ev rf) snapshot p)\<rparr>))"

definition GetRaftStateSize :: "Raft \<Rightarrow> raft_error + int" where
  "GetRaftStateSize rf = bindE (optE NullPersister (m_persister rf)) (\<lambda>p. Inr (RaftStateSize p))"

section \<open>Follower handlers\<close>

subsection \<open>AppendEntries\<close>

text \<open>One round of the loop over \<open>args->entries\<close>.\<close>

definition appendEntry :: "LogEntry \<Rightarrow> Raft \<Rightarrow> raft_error + Raft" where
  "appendEntry log rf =
     (if logindex log > getLastLogIndex rf then Inr (rf\<lparr>m_logs := m_logs rf @ [log]\<rparr>)
      else
        bindE (logAt rf (logindex log)) (\<lambda>e.
        bindE (myAssert (\<not> (logterm e = logterm log \<and> command e \<noteq> command log))) (\<lambda>_.
        if logterm e \<noteq> logterm log then
          bindE (getSlicesIndexFromLogIndex rf (logindex log)) (\<lambda>k.
          bindE (vec_set (m_logs rf) k log) (\<lambda>logs'. Inr (rf\<lparr>m_logs := logs'\<rparr>)))
        else Inr rf)))"

text \<open>
  The backward scan for the first index of the conflicting term: \<open>n\<close> indices are left to look
  at, from \<open>index\<close> down to the snapshot index; \<open>upd\<close> is the answer so far.
\<close>

fun scanConflict :: "Raft \<Rightarrow> int \<Rightarrow> nat \<Rightarrow> int \<Rightarrow> int \<Rightarrow> raft_error + int" where
  "scanConflict rf prev 0 index upd = Inr upd"
| "scanConflict rf prev (Suc n) index upd =
     bindE (getLogTermFromLogIndex rf index) (\<lambda>t.
     bindE (getLogTermFromLogIndex rf prev) (\<lambda>t'.
       if t \<noteq> t' then Inr (index + 1) else scanConflict rf prev n (index - 1) upd))"

text \<open>The part after the term checks, where \<open>args->term() == m_currentTerm\<close>.\<close>

definition appendToLog :: "AppendEntriesArgs \<Rightarrow> AppendEntriesReply \<Rightarrow> Raft
    \<Rightarrow> raft_error + AppendEntriesReply \<times> Raft" where
  "appendToLog args reply rf =
     bindE (matchLog rf (ae_prevlogindex args) (ae_prevlogterm args)) (\<lambda>matched.
     if matched then
       bindE (foldE appendEntry (ae_entries args) rf) (\<lambda>rf1.
       bindE (myAssert (getLastLogIndex rf1 \<ge> ae_prevlogindex args + int (length (ae_entries args)))) (\<lambda>_.
       let rf2 = (if ae_leadercommit args > m_commitIndex rf1
                  then rf1\<lparr>m_commitIndex := min (ae_leadercommit args) (getLastLogIndex rf1)\<rparr>
                  else rf1) in
       bindE (myAssert (getLastLogIndex rf2 \<ge> m_commitIndex rf2)) (\<lambda>_.
       Inr (reply\<lparr>aer_success := True, aer_term := m_currentTerm rf2\<rparr>, rf2))))
     else
       bindE (scanConflict rf (ae_prevlogindex args)
                (nat (ae_prevlogindex args - m_lastSnapshotIncludeIndex rf + 1))
                (ae_prevlogindex args) (ae_prevlogindex args)) (\<lambda>upd.
       Inr (reply\<lparr>aer_updatenextindex := upd, aer_success := False, aer_term := m_currentTerm rf\<rparr>, rf)))"

text \<open>
  \<open>DEFER { persist(); }\<close> runs on every return after it was set up; leaving through \<open>exit\<close> skips it.
  A previous index below the snapshot sets the reply and goes on, as in the code (no \<open>return\<close>).
\<close>

definition AppendEntries :: "env \<Rightarrow> int \<Rightarrow> AppendEntriesArgs \<Rightarrow> Raft
    \<Rightarrow> raft_error + AppendEntriesReply \<times> Raft" where
  "AppendEntries ev now args rf =
     (let reply = AppendEntriesReply_new\<lparr>aer_appstate := AppNormal\<rparr> in
      if ae_term args < m_currentTerm rf then
        Inr (reply\<lparr>aer_success := False, aer_term := m_currentTerm rf, aer_updatenextindex := -100\<rparr>, rf)
      else
        let rf1 = (if ae_term args > m_currentTerm rf
                   then rf\<lparr>m_status := Follower, m_currentTerm := ae_term args, m_votedFor := -1\<rparr>
                   else rf) in
        bindE (myAssert (ae_term args = m_currentTerm rf1)) (\<lambda>_.
        let rf2 = rf1\<lparr>m_status := Follower, m_lastResetElectionTime := now\<rparr> in
        bindE (if ae_prevlogindex args > getLastLogIndex rf2 then
                 Inr (reply\<lparr>aer_success := False, aer_term := m_currentTerm rf2,
                            aer_updatenextindex := getLastLogIndex rf2 + 1\<rparr>, rf2)
               else
                 let reply1 = (if ae_prevlogindex args < m_lastSnapshotIncludeIndex rf2
                               then reply\<lparr>aer_success := False, aer_term := m_currentTerm rf2,
                                          aer_updatenextindex := m_lastSnapshotIncludeIndex rf2 + 1\<rparr>
                               else reply)
                 in appendToLog args reply1 rf2) (\<lambda>(reply', rf').
        Inr (reply', persist ev rf'))))"

subsection \<open>RequestVote\<close>

definition RequestVote :: "env \<Rightarrow> int \<Rightarrow> RequestVoteArgs \<Rightarrow> Raft
    \<Rightarrow> raft_error + RequestVoteReply \<times> Raft" where
  "RequestVote ev now args rf =
     (if rv_term args < m_currentTerm rf then
        Inr (\<lparr>rvr_term = m_currentTerm rf, rvr_votegranted = False, rvr_votestate = Expire\<rparr>, persist ev rf)
      else
        let rf1 = (if rv_term args > m_currentTerm rf
                   then rf\<lparr>m_status := Follower, m_currentTerm := rv_term args, m_votedFor := -1\<rparr>
                   else rf) in
        bindE (myAssert (rv_term args = m_currentTerm rf1)) (\<lambda>_.
        if \<not> UpToDate rf1 (rv_lastlogindex args) (rv_lastlogterm args) then
          Inr (\<lparr>rvr_term = m_currentTerm rf1, rvr_votegranted = False, rvr_votestate = Voted\<rparr>, persist ev rf1)
        else if m_votedFor rf1 \<noteq> -1 \<and> m_votedFor rf1 \<noteq> rv_candidateid args then
          Inr (\<lparr>rvr_term = m_currentTerm rf1, rvr_votegranted = False, rvr_votestate = Voted\<rparr>, persist ev rf1)
        else
          let rf2 = rf1\<lparr>m_votedFor := rv_candidateid args, m_lastResetElectionTime := now\<rparr> in
          Inr (\<lparr>rvr_term = m_currentTerm rf2, rvr_votegranted = True, rvr_votestate = Normal\<rparr>, persist ev rf2)))"

subsection \<open>InstallSnapshot\<close>

definition InstallSnapshot :: "env \<Rightarrow> int \<Rightarrow> InstallSnapshotRequest \<Rightarrow> Raft
    \<Rightarrow> raft_error + InstallSnapshotResponse \<times> Raft" where
  "InstallSnapshot ev now args rf =
     (let reply = InstallSnapshotResponse_new in
      if is_term args < m_currentTerm rf then Inr (reply\<lparr>isr_term := m_currentTerm rf\<rparr>, rf)
      else
        let rf1 = (if is_term args > m_currentTerm rf
                   then persist ev (rf\<lparr>m_currentTerm := is_term args, m_votedFor := -1, m_status := Follower\<rparr>)
                   else rf);
            rf2 = rf1\<lparr>m_status := Follower, m_lastResetElectionTime := now\<rparr> in
        if is_lastsnapshotincludeindex args \<le> m_lastSnapshotIncludeIndex rf2 then Inr (reply, rf2)
        else
          bindE (if getLastLogIndex rf2 > is_lastsnapshotincludeindex args
                 then bindE (getSlicesIndexFromLogIndex rf2 (is_lastsnapshotincludeindex args)) (\<lambda>k.
                        Inr (drop (nat (k + 1)) (m_logs rf2)))
                 else Inr []) (\<lambda>logs'.
          let rf3 = rf2\<lparr>m_logs := logs',
                m_commitIndex := max (m_commitIndex rf2) (is_lastsnapshotincludeindex args),
                m_lastApplied := max (m_lastApplied rf2) (is_lastsnapshotincludeindex args),
                m_lastSnapshotIncludeIndex := is_lastsnapshotincludeindex args,
                m_lastSnapshotIncludeTerm := is_lastsnapshotincludeterm args\<rparr>;
              msg = ApplyMsg_new\<lparr>SnapshotValid := True, Snapshot_data := is_data args,
                SnapshotTerm := is_lastsnapshotincludeterm args,
                SnapshotIndex := is_lastsnapshotincludeindex args\<rparr>;
              rf4 = rf3\<lparr>m_tasks := m_tasks rf3 @ [PushMsgToKvServer msg]\<rparr> in
          bindE (saveSnapshot ev (is_data args) rf4) (\<lambda>rf5.
          Inr (reply\<lparr>isr_term := m_currentTerm rf3\<rparr>, rf5))))"

definition CondInstallSnapshot :: "int \<Rightarrow> int \<Rightarrow> string \<Rightarrow> Raft \<Rightarrow> bool" where
  "CondInstallSnapshot lastIncludedTerm lastIncludedIndex snapshot rf = True"

definition pushMsgToKvServer :: "ApplyMsg \<Rightarrow> Raft \<Rightarrow> Raft" where
  "pushMsgToKvServer msg rf = rf\<lparr>applyChan := Push msg (applyChan rf)\<rparr>"

section \<open>Elections\<close>

text \<open>\<open>for (i = 0; i < n; i++) { m_nextIndex[i] = next; m_matchIndex[i] = 0; }\<close>.\<close>

definition resetLeaderArrays :: "nat \<Rightarrow> int \<Rightarrow> Raft \<Rightarrow> raft_error + Raft" where
  "resetLeaderArrays n nxt rf =
     foldE (\<lambda>i r. bindE (vec_set (m_nextIndex r) (int i) nxt) (\<lambda>ni.
                 bindE (vec_set (m_matchIndex r) (int i) 0) (\<lambda>mi.
                 Inr (r\<lparr>m_nextIndex := ni, m_matchIndex := mi\<rparr>)))) [0 ..< n] rf"

definition requestVoteArgs :: "Raft \<Rightarrow> RequestVoteArgs" where
  "requestVoteArgs rf =
     \<lparr>rv_term = m_currentTerm rf, rv_candidateid = int (m_me rf),
      rv_lastlogindex = fst (getLastLogIndexAndTerm rf), rv_lastlogterm = snd (getLastLogIndexAndTerm rf)\<rparr>"

definition doElection :: "env \<Rightarrow> int \<Rightarrow> Raft \<Rightarrow> raft_error + Raft" where
  "doElection ev now rf =
     (if m_status rf = Leader then Inr rf
      else
        let rf1 = persist ev (rf\<lparr>m_status := Candidate, m_currentTerm := m_currentTerm rf + 1,
                                 m_votedFor := int (m_me rf)\<rparr>);
            votedNum = length (m_counters rf1);
            rf2 = rf1\<lparr>m_counters := m_counters rf1 @ [1], m_lastResetElectionTime := now\<rparr> in
        if m_npeers rf2 = 1 then
          bindE (resetLeaderArrays (m_npeers rf2) (getLastLogIndex rf2 + 1)
                   (rf2\<lparr>m_status := Leader\<rparr>)) (\<lambda>rf3.
          Inr (persist ev (rf3\<lparr>m_tasks := m_tasks rf3 @ [DoHeartBeat]\<rparr>)))
        else
          Inr (rf2\<lparr>m_tasks := m_tasks rf2 @
                 map (\<lambda>i. SendRequestVote i (requestVoteArgs rf2) votedNum)
                   (filter (\<lambda>i. i \<noteq> m_me rf2) [0 ..< m_npeers rf2])\<rparr>))"

text \<open>
  \<open>sendRequestVote\<close> after the remote call: \<open>reply\<close> is \<open>None\<close> where the call failed, and the
  counter \<open>*votedNum\<close> lives in \<open>m_counters\<close>.
\<close>

definition sendRequestVote_reply :: "env \<Rightarrow> RequestVoteReply option \<Rightarrow> nat \<Rightarrow> Raft \<Rightarrow> raft_error + Raft" where
  "sendRequestVote_reply ev mreply votedNum rf = (case mreply of
       None \<Rightarrow> Inr rf
     | Some reply \<Rightarrow>
         if rvr_term reply > m_currentTerm rf then
           Inr (persist ev (rf\<lparr>m_status := Follower, m_currentTerm := rvr_term reply, m_votedFor := -1\<rparr>))
         else if rvr_term reply < m_currentTerm rf then Inr rf
         else
           bindE (myAssert (rvr_term reply = m_currentTerm rf)) (\<lambda>_.
           if \<not> rvr_votegranted reply then Inr rf
           else
             bindE (vec_get (m_counters rf) (int votedNum)) (\<lambda>c.
             let rf1 = rf\<lparr>m_counters := (m_counters rf)[votedNum := c + 1]\<rparr> in
             if c + 1 \<ge> int (m_npeers rf1 div 2 + 1) then
               let rf2 = rf1\<lparr>m_counters := (m_counters rf1)[votedNum := 0]\<rparr> in
               bindE (myAssert (m_status rf2 \<noteq> Leader)) (\<lambda>_.
               bindE (resetLeaderArrays (length (m_nextIndex rf2)) (getLastLogIndex rf2 + 1)
                        (rf2\<lparr>m_status := Leader\<rparr>)) (\<lambda>rf3.
               Inr (persist ev (rf3\<lparr>m_tasks := m_tasks rf3 @ [DoHeartBeat]\<rparr>))))
             else Inr rf1)))"

text \<open>
  One round of \<open>electionTimeOutTicker\<close> on a node that is not leader, after the sleep: \<open>wakeTime\<close>
  was read before it, the reset time after it.
\<close>

definition electionTick :: "env \<Rightarrow> int \<Rightarrow> int \<Rightarrow> Raft \<Rightarrow> raft_error + Raft" where
  "electionTick ev wakeTime now rf =
     (if m_lastResetElectionTime rf - wakeTime > 0 then Inr rf else doElection ev now rf)"

section \<open>Replication by the leader\<close>

definition getPrevLogInfo :: "nat \<Rightarrow> Raft \<Rightarrow> raft_error + int \<times> int" where
  "getPrevLogInfo server rf =
     bindE (vec_get (m_nextIndex rf) (int server)) (\<lambda>ni.
     if ni = m_lastSnapshotIncludeIndex rf + 1
     then Inr (m_lastSnapshotIncludeIndex rf, m_lastSnapshotIncludeTerm rf)
     else bindE (logAt rf (ni - 1)) (\<lambda>e. Inr (ni - 1, logterm e)))"

text \<open>The message built for one follower, and the loop body of \<open>doHeartBeat\<close>.\<close>

definition appendEntriesFor :: "nat \<Rightarrow> Raft \<Rightarrow> raft_error + AppendEntriesArgs" where
  "appendEntriesFor i rf =
     bindE (getPrevLogInfo i rf) (\<lambda>(preLogIndex, prevLogTerm).
     bindE (if preLogIndex \<noteq> m_lastSnapshotIncludeIndex rf
            then bindE (getSlicesIndexFromLogIndex rf preLogIndex) (\<lambda>k. Inr (drop (nat (k + 1)) (m_logs rf)))
            else Inr (m_logs rf)) (\<lambda>es.
     bindE (myAssert (preLogIndex + int (length es) = getLastLogIndex rf)) (\<lambda>_.
     Inr \<lparr>ae_term = m_currentTerm rf, ae_leaderid = int (m_me rf), ae_prevlogindex = preLogIndex,
          ae_prevlogterm = prevLogTerm, ae_entries = es, ae_leadercommit = m_commitIndex rf\<rparr>)))"

definition heartBeatTo :: "nat \<Rightarrow> nat \<Rightarrow> Raft \<Rightarrow> raft_error + Raft" where
  "heartBeatTo appendNums i rf =
     (if i = m_me rf then Inr rf
      else
        bindE (vec_get (m_nextIndex rf) (int i)) (\<lambda>ni.
        bindE (myAssert (ni \<ge> 1)) (\<lambda>_.
        if ni \<le> m_lastSnapshotIncludeIndex rf
        then Inr (rf\<lparr>m_tasks := m_tasks rf @ [LeaderSendSnapShot i]\<rparr>)
        else
          bindE (appendEntriesFor i rf) (\<lambda>args.
          Inr (rf\<lparr>m_tasks := m_tasks rf @ [SendAppendEntries i args appendNums]\<rparr>)))))"

definition doHeartBeat :: "int \<Rightarrow> Raft \<Rightarrow> raft_error + Raft" where
  "doHeartBeat now rf =
     (if m_status rf \<noteq> Leader then Inr rf
      else
        let appendNums = length (m_counters rf) in
        bindE (foldE (heartBeatTo appendNums) [0 ..< m_npeers rf]
                 (rf\<lparr>m_counters := m_counters rf @ [1]\<rparr>)) (\<lambda>rf1.
        Inr (rf1\<lparr>m_lastResetHearBeatTime := now\<rparr>)))"

definition heartBeatTick :: "int \<Rightarrow> int \<Rightarrow> Raft \<Rightarrow> raft_error + Raft" where
  "heartBeatTick wakeTime now rf =
     (if m_lastResetHearBeatTime rf - wakeTime > 0 then Inr rf else doHeartBeat now rf)"

text \<open>
  \<open>sendAppendEntries\<close> after the remote call; first its last part, from
  \<open>if (*appendNums >= 1 + m_peers.size() / 2)\<close> on, with the counter already incremented.
\<close>

definition commitReplicated :: "AppendEntriesArgs \<Rightarrow> nat \<Rightarrow> Raft \<Rightarrow> raft_error + Raft" where
  "commitReplicated args appendNums rf =
     (if m_counters rf ! appendNums \<ge> int (1 + m_npeers rf div 2) then
        let rf2 = rf\<lparr>m_counters := (m_counters rf)[appendNums := 0]\<rparr>;
            rf3 = (if ae_entries args \<noteq> [] \<and> logterm (last (ae_entries args)) = m_currentTerm rf2
                   then rf2\<lparr>m_commitIndex := max (m_commitIndex rf2)
                           (ae_prevlogindex args + int (length (ae_entries args)))\<rparr>
                   else rf2) in
        bindE (myAssert (m_commitIndex rf3 \<le> getLastLogIndex rf3)) (\<lambda>_. Inr rf3)
      else Inr rf)"

definition sendAppendEntries_reply :: "nat \<Rightarrow> AppendEntriesArgs \<Rightarrow> AppendEntriesReply option \<Rightarrow> nat
    \<Rightarrow> Raft \<Rightarrow> raft_error + Raft" where
  "sendAppendEntries_reply server args mreply appendNums rf = (case mreply of
       None \<Rightarrow> Inr rf
     | Some reply \<Rightarrow>
         if aer_appstate reply = Disconnected then Inr rf
         else if aer_term reply > m_currentTerm rf then
           Inr (rf\<lparr>m_status := Follower, m_currentTerm := aer_term reply, m_votedFor := -1\<rparr>)
         else if aer_term reply < m_currentTerm rf then Inr rf
         else if m_status rf \<noteq> Leader then Inr rf
         else
           bindE (myAssert (aer_term reply = m_currentTerm rf)) (\<lambda>_.
           if \<not> aer_success reply then
             (if aer_updatenextindex reply \<noteq> -100
              then bindE (vec_set (m_nextIndex rf) (int server) (aer_updatenextindex reply)) (\<lambda>ni.
                   Inr (rf\<lparr>m_nextIndex := ni\<rparr>))
              else Inr rf)
           else
             bindE (vec_get (m_counters rf) (int appendNums)) (\<lambda>c.
             bindE (vec_get (m_matchIndex rf) (int server)) (\<lambda>m.
             let m' = max m (ae_prevlogindex args + int (length (ae_entries args))) in
             bindE (vec_set (m_matchIndex rf) (int server) m') (\<lambda>mi.
             bindE (vec_set (m_nextIndex rf) (int server) (m' + 1)) (\<lambda>ni.
             let rf1 = rf\<lparr>m_counters := (m_counters rf)[appendNums := c + 1],
                          m_matchIndex := mi, m_nextIndex := ni\<rparr> in
             bindE (myAssert (m' + 1 \<le> getLastLogIndex rf1 + 1)) (\<lambda>_.
             commitReplicated args appendNums rf1)))))))"

text \<open>\<open>leaderSendSnapShot\<close> before and after the remote call.\<close>

definition leaderSendSnapShot_request :: "Raft \<Rightarrow> raft_error + InstallSnapshotRequest \<times> Raft" where
  "leaderSendSnapShot_request rf =
     bindE (optE NullPersister (m_persister rf)) (\<lambda>p.
     let (snapshot, p') = ReadSnapshot p in
     Inr (\<lparr>is_leaderid = int (m_me rf), is_term = m_currentTerm rf,
           is_lastsnapshotincludeindex = m_lastSnapshotIncludeIndex rf,
           is_lastsnapshotincludeterm = m_lastSnapshotIncludeTerm rf, is_data = snapshot\<rparr>,
          rf\<lparr>m_persister := Some p'\<rparr>))"

definition leaderSendSnapShot_reply :: "env \<Rightarrow> int \<Rightarrow> nat \<Rightarrow> InstallSnapshotRequest
    \<Rightarrow> InstallSnapshotResponse option \<Rightarrow> Raft \<Rightarrow> raft_error + Raft" where
  "leaderSendSnapShot_reply ev now server args mreply rf = (case mreply of
       None \<Rightarrow> Inr rf
     | Some reply \<Rightarrow>
         if m_status rf \<noteq> Leader \<or> m_currentTerm rf \<noteq> is_term args then Inr rf
         else if isr_term reply > m_currentTerm rf then
           Inr ((persist ev (rf\<lparr>m_currentTerm := isr_term reply, m_votedFor := -1, m_status := Follower\<rparr>))
                \<lparr>m_lastResetElectionTime := now\<rparr>)
         else
           bindE (vec_set (m_matchIndex rf) (int server) (is_lastsnapshotincludeindex args)) (\<lambda>mi.
           bindE (vec_set (m_nextIndex rf) (int server) (is_lastsnapshotincludeindex args + 1)) (\<lambda>ni.
           Inr (rf\<lparr>m_matchIndex := mi, m_nextIndex := ni\<rparr>))))"

text \<open>
  \<open>leaderUpdateCommitIndex\<close>: \<open>count\<close> is the inner loop over the peers, the outer loop runs from
  the last index down to the one after the snapshot.
\<close>

definition countReplicas :: "Raft \<Rightarrow> int \<Rightarrow> raft_error + nat" where
  "countReplicas rf index =
     foldE (\<lambda>i sum. if i = m_me rf then Inr (sum + 1)
                   else bindE (vec_get (m_matchIndex rf) (int i)) (\<lambda>m.
                        Inr (if m \<ge> index then sum + 1 else sum))) [0 ..< m_npeers rf] 0"

fun commitScan :: "Raft \<Rightarrow> nat \<Rightarrow> int \<Rightarrow> raft_error + int" where
  "commitScan rf 0 index = Inr (m_lastSnapshotIncludeIndex rf)"
| "commitScan rf (Suc n) index =
     bindE (countReplicas rf index) (\<lambda>sum.
     bindE (if sum \<ge> m_npeers rf div 2 + 1
            then bindE (getLogTermFromLogIndex rf index) (\<lambda>t. Inr (t = m_currentTerm rf))
            else Inr False) (\<lambda>ok.
     if ok then Inr index else commitScan rf n (index - 1)))"

definition leaderUpdateCommitIndex :: "Raft \<Rightarrow> raft_error + Raft" where
  "leaderUpdateCommitIndex rf =
     bindE (commitScan rf (nat (getLastLogIndex rf - m_lastSnapshotIncludeIndex rf)) (getLastLogIndex rf))
       (\<lambda>c. Inr (rf\<lparr>m_commitIndex := c\<rparr>))"

section \<open>The service interface\<close>

text \<open>\<open>Start\<close>, for a command already turned into a string; the result is
  \<open>(newLogIndex, newLogTerm, isLeader)\<close>.\<close>

definition Start :: "env \<Rightarrow> string \<Rightarrow> Raft \<Rightarrow> raft_error + (int \<times> int \<times> bool) \<times> Raft" where
  "Start ev cmd rf =
     (if m_status rf \<noteq> Leader then Inr ((-1, -1, False), rf)
      else
        let newLogEntry = \<lparr>command = cmd, logterm = m_currentTerm rf, logindex = getNewCommandIndex rf\<rparr>;
            rf1 = persist ev (rf\<lparr>m_logs := m_logs rf @ [newLogEntry]\<rparr>) in
        bindE (leaderUpdateCommitIndex rf1) (\<lambda>rf2.
        Inr ((logindex newLogEntry, logterm newLogEntry, True), rf2)))"

definition GetState :: "Raft \<Rightarrow> int \<times> bool" where
  "GetState rf = (m_currentTerm rf, m_status rf = Leader)"

text \<open>\<open>getApplyLogs\<close>: \<open>n\<close> entries are left between \<open>m_lastApplied\<close> and \<open>m_commitIndex\<close>.\<close>

fun applyLoop :: "nat \<Rightarrow> Raft \<Rightarrow> ApplyMsg list \<Rightarrow> raft_error + ApplyMsg list \<times> Raft" where
  "applyLoop 0 rf applyMsgs = Inr (applyMsgs, rf)"
| "applyLoop (Suc n) rf applyMsgs =
     (let rf1 = rf\<lparr>m_lastApplied := m_lastApplied rf + 1\<rparr> in
      bindE (logAt rf1 (m_lastApplied rf1)) (\<lambda>e.
      bindE (myAssert (logindex e = m_lastApplied rf1)) (\<lambda>_.
      applyLoop n rf1 (applyMsgs @ [ApplyMsg_new\<lparr>CommandValid := True, SnapshotValid := False,
                                      Command := command e, CommandIndex := m_lastApplied rf1\<rparr>]))))"

definition getApplyLogs :: "Raft \<Rightarrow> raft_error + ApplyMsg list \<times> Raft" where
  "getApplyLogs rf =
     bindE (myAssert (m_commitIndex rf \<le> getLastLogIndex rf)) (\<lambda>_.
     applyLoop (nat (m_commitIndex rf - m_lastApplied rf)) rf [])"

text \<open>
  One round of \<open>applierTicker\<close>: collect under the lock, then push without it. Both are one step here. Only
  the applier and the handler of snapshots push, and the latter from a thread of its own, so what the fusion
  hides is a snapshot message that comes between two of the commands.
\<close>

definition applierTick :: "Raft \<Rightarrow> raft_error + Raft" where
  "applierTick rf =
     bindE (getApplyLogs rf) (\<lambda>(msgs, rf1).
     Inr (rf1\<lparr>applyChan := fold Push msgs (applyChan rf1)\<rparr>))"

text \<open>\<open>Snapshot\<close>: the service has a snapshot up to \<open>index\<close>; drop the log that far.\<close>

definition Snapshot :: "env \<Rightarrow> int \<Rightarrow> string \<Rightarrow> Raft \<Rightarrow> raft_error + Raft" where
  "Snapshot ev index snapshot rf =
     (if m_lastSnapshotIncludeIndex rf \<ge> index \<or> index > m_commitIndex rf then Inr rf
      else
        let lastLogIndex = getLastLogIndex rf in
        bindE (logAt rf index) (\<lambda>e.
        bindE (foldE (\<lambda>i ls. bindE (logAt rf i) (\<lambda>x. Inr (ls @ [x])))
                 [index + 1 .. getLastLogIndex rf] []) (\<lambda>trunckedLogs.
        let rf1 = rf\<lparr>m_lastSnapshotIncludeIndex := index, m_lastSnapshotIncludeTerm := logterm e,
                     m_logs := trunckedLogs, m_commitIndex := max (m_commitIndex rf) index,
                     m_lastApplied := max (m_lastApplied rf) index\<rparr> in
        bindE (saveSnapshot ev snapshot rf1) (\<lambda>rf2.
        bindE (myAssert (int (length (m_logs rf2)) + m_lastSnapshotIncludeIndex rf2 = lastLogIndex)) (\<lambda>_.
        Inr rf2)))))"

text \<open>\<open>init\<close> on a default-constructed node, up to the scheduling of the three tickers.\<close>

definition init :: "env \<Rightarrow> int \<Rightarrow> nat \<Rightarrow> nat \<Rightarrow> Persister \<Rightarrow> ApplyMsg LockQueue \<Rightarrow> raft_error + Raft" where
  "init ev now npeers me persister applyCh =
     (let rf = \<lparr>m_npeers = npeers, m_me = me, m_persister = Some persister, m_currentTerm = 0,
                m_votedFor = -1, m_logs = [], m_commitIndex = 0, m_lastApplied = 0,
                m_nextIndex = replicate npeers 0, m_matchIndex = replicate npeers 0,
                m_status = Follower, m_lastResetElectionTime = now, m_lastResetHearBeatTime = now,
                m_lastSnapshotIncludeIndex = 0, m_lastSnapshotIncludeTerm = 0,
                applyChan = applyCh, m_tasks = [], m_counters = []\<rparr> in
      bindE (readPersist ev (ReadRaftState persister) rf) (\<lambda>rf1.
      Inr (if m_lastSnapshotIncludeIndex rf1 > 0
           then rf1\<lparr>m_lastApplied := m_lastSnapshotIncludeIndex rf1\<rparr> else rf1)))"

end
