(* ===== verification/RaftLog.thy ===== *)
theory RaftLog
  imports Raft
begin

text \<open>
  The shape of a node's log and the accessors on it. A log is well formed when its entries carry
  consecutive indices starting right after the snapshot; then every accessor of the code returns
  normally on the indices it is meant for.
\<close>

section \<open>Well-formed logs\<close>

definition log_wf :: "Raft \<Rightarrow> bool" where
  "log_wf rf \<longleftrightarrow>
     (\<forall>k < length (m_logs rf). logindex (m_logs rf ! k) = m_lastSnapshotIncludeIndex rf + 1 + int k)"

definition raft_wf :: "Raft \<Rightarrow> bool" where
  "raft_wf rf \<longleftrightarrow> log_wf rf
     \<and> length (m_nextIndex rf) = m_npeers rf \<and> length (m_matchIndex rf) = m_npeers rf
     \<and> m_me rf < m_npeers rf
     \<and> 0 \<le> m_lastSnapshotIncludeIndex rf
     \<and> m_lastSnapshotIncludeIndex rf \<le> m_lastApplied rf
     \<and> m_lastApplied rf \<le> getLastLogIndex rf
     \<and> m_commitIndex rf \<le> getLastLogIndex rf
     \<and> m_persister rf \<noteq> None"

text \<open>The log as a partial function on logical indices; the term is known at the snapshot too.\<close>

definition entry_at :: "Raft \<Rightarrow> int \<Rightarrow> LogEntry option" where
  "entry_at rf i =
     (if m_lastSnapshotIncludeIndex rf < i \<and> i \<le> m_lastSnapshotIncludeIndex rf + int (length (m_logs rf))
      then Some (m_logs rf ! nat (i - m_lastSnapshotIncludeIndex rf - 1)) else None)"

definition term_at :: "Raft \<Rightarrow> int \<Rightarrow> int option" where
  "term_at rf i = (if i = m_lastSnapshotIncludeIndex rf then Some (m_lastSnapshotIncludeTerm rf)
                   else map_option logterm (entry_at rf i))"

lemma last_index_wf:
  assumes "log_wf rf"
  shows "getLastLogIndex rf = m_lastSnapshotIncludeIndex rf + int (length (m_logs rf))"
proof (cases "m_logs rf = []")
  case True
  then show ?thesis by (simp add: getLastLogIndex_def getLastLogIndexAndTerm_def)
next
  case False
  then have "logindex (last (m_logs rf)) = m_lastSnapshotIncludeIndex rf + 1 + int (length (m_logs rf) - 1)"
    using assms by (simp add: log_wf_def last_conv_nth)
  with False show ?thesis
    by (simp add: getLastLogIndex_def getLastLogIndexAndTerm_def of_nat_diff Suc_leI)
qed

lemma last_term_wf:
  assumes "log_wf rf"
  shows "term_at rf (getLastLogIndex rf) = Some (getLastLogTerm rf)"
proof (cases "m_logs rf = []")
  case True
  then show ?thesis
    by (simp add: term_at_def getLastLogTerm_def getLastLogIndex_def getLastLogIndexAndTerm_def)
next
  case False
  then have "nat (getLastLogIndex rf - m_lastSnapshotIncludeIndex rf - 1) = length (m_logs rf) - 1"
    by (simp add: last_index_wf [OF assms])
  with False show ?thesis
    by (simp add: term_at_def entry_at_def last_index_wf [OF assms] last_conv_nth getLastLogTerm_def
        getLastLogIndexAndTerm_def nat_diff_distrib)
qed

lemma entry_at_None_iff:
  assumes "log_wf rf"
  shows "entry_at rf i = None \<longleftrightarrow> i \<le> m_lastSnapshotIncludeIndex rf \<or> getLastLogIndex rf < i"
  by (auto simp: entry_at_def last_index_wf [OF assms])

lemma entry_at_index:
  assumes "log_wf rf" and "entry_at rf i = Some e"
  shows "logindex e = i \<and> m_lastSnapshotIncludeIndex rf < i \<and> i \<le> getLastLogIndex rf"
  using assms by (auto simp: entry_at_def log_wf_def last_index_wf split: if_splits)

lemma entry_at_nth:
  "k < length (m_logs rf) \<Longrightarrow> entry_at rf (m_lastSnapshotIncludeIndex rf + 1 + int k) = Some (m_logs rf ! k)"
  by (simp add: entry_at_def)

lemma slices_wf:
  assumes "log_wf rf" and "m_lastSnapshotIncludeIndex rf < i" and "i \<le> getLastLogIndex rf"
  shows "getSlicesIndexFromLogIndex rf i = Inr (i - m_lastSnapshotIncludeIndex rf - 1)"
  using assms by (simp add: getSlicesIndexFromLogIndex_def myAssert_def)

lemma logAt_wf:
  assumes "log_wf rf" and "entry_at rf i = Some e"
  shows "logAt rf i = Inr e"
  using assms entry_at_index [OF assms]
  by (auto simp: logAt_def slices_wf vec_get_def entry_at_def split: if_splits)

lemma logAt_below_snapshot:
  "i \<le> m_lastSnapshotIncludeIndex rf \<Longrightarrow> logAt rf i = Inl AssertFailed"
  by (simp add: logAt_def getSlicesIndexFromLogIndex_def myAssert_def)

lemma getLogTerm_wf:
  assumes "log_wf rf" and "term_at rf i = Some t"
  shows "getLogTermFromLogIndex rf i = Inr t"
proof (cases "i = m_lastSnapshotIncludeIndex rf")
  case True
  then show ?thesis using assms
    by (simp add: getLogTermFromLogIndex_def myAssert_def last_index_wf term_at_def)
next
  case False
  with assms(2) obtain e where e: "entry_at rf i = Some e" "logterm e = t" by (auto simp: term_at_def)
  with entry_at_index [OF assms(1) e(1)] logAt_wf [OF assms(1) e(1)] False show ?thesis
    by (simp add: getLogTermFromLogIndex_def myAssert_def)
qed

lemma term_at_Some_iff:
  assumes "log_wf rf"
  shows "(\<exists>t. term_at rf i = Some t) \<longleftrightarrow> m_lastSnapshotIncludeIndex rf \<le> i \<and> i \<le> getLastLogIndex rf"
  using entry_at_None_iff [OF assms, of i] last_index_wf [OF assms]
  by (cases "entry_at rf i") (auto simp: term_at_def)

lemma matchLog_wf:
  assumes "log_wf rf" and "m_lastSnapshotIncludeIndex rf \<le> i" and "i \<le> getLastLogIndex rf"
  shows "matchLog rf i t = Inr (term_at rf i = Some t)"
proof -
  obtain t' where "term_at rf i = Some t'" using term_at_Some_iff [OF assms(1)] assms(2,3) by blast
  with getLogTerm_wf [OF assms(1) this] assms(2,3) show ?thesis
    by (auto simp: matchLog_def myAssert_def)
qed

lemma matchLog_below_snapshot:
  "i < m_lastSnapshotIncludeIndex rf \<Longrightarrow> matchLog rf i t = Inl AssertFailed"
  by (simp add: matchLog_def myAssert_def)

section \<open>Frame: what the log functions read\<close>

text \<open>
  Two nodes with the same log part answer the log accessors alike, whatever their other fields.
\<close>

definition same_log :: "Raft \<Rightarrow> Raft \<Rightarrow> bool" where
  "same_log rf rf' \<longleftrightarrow> m_logs rf' = m_logs rf
     \<and> m_lastSnapshotIncludeIndex rf' = m_lastSnapshotIncludeIndex rf
     \<and> m_lastSnapshotIncludeTerm rf' = m_lastSnapshotIncludeTerm rf"

lemma same_log_simps:
  assumes "same_log rf rf'"
  shows "getLastLogIndexAndTerm rf' = getLastLogIndexAndTerm rf" "getLastLogIndex rf' = getLastLogIndex rf"
    "getLastLogTerm rf' = getLastLogTerm rf" "entry_at rf' = entry_at rf" "term_at rf' = term_at rf"
    "log_wf rf' = log_wf rf" "logAt rf' = logAt rf"
    "getLogTermFromLogIndex rf' = getLogTermFromLogIndex rf" "matchLog rf' = matchLog rf"
    "UpToDate rf' = UpToDate rf" "getSlicesIndexFromLogIndex rf' = getSlicesIndexFromLogIndex rf"
proof -
  show last: "getLastLogIndexAndTerm rf' = getLastLogIndexAndTerm rf"
    using assms by (simp add: same_log_def getLastLogIndexAndTerm_def)
  then show li: "getLastLogIndex rf' = getLastLogIndex rf" and "getLastLogTerm rf' = getLastLogTerm rf"
    by (simp_all add: getLastLogIndex_def getLastLogTerm_def)
  show ea: "entry_at rf' = entry_at rf" using assms by (simp add: same_log_def entry_at_def fun_eq_iff)
  then show "term_at rf' = term_at rf" using assms by (simp add: same_log_def term_at_def fun_eq_iff)
  show "log_wf rf' = log_wf rf" using assms by (simp add: same_log_def log_wf_def)
  show sl: "getSlicesIndexFromLogIndex rf' = getSlicesIndexFromLogIndex rf"
    using assms li by (simp add: same_log_def getSlicesIndexFromLogIndex_def fun_eq_iff)
  then show la: "logAt rf' = logAt rf" using assms by (simp add: same_log_def logAt_def fun_eq_iff)
  then show gt: "getLogTermFromLogIndex rf' = getLogTermFromLogIndex rf"
    using assms li by (simp add: same_log_def getLogTermFromLogIndex_def fun_eq_iff)
  then show "matchLog rf' = matchLog rf"
    using assms li by (simp add: same_log_def matchLog_def fun_eq_iff)
  show "UpToDate rf' = UpToDate rf" by (simp add: UpToDate_def last fun_eq_iff)
qed

text \<open>\<open>persist\<close> writes the persister field only.\<close>

lemma persist_fields [simp]:
  "m_npeers (persist ev rf) = m_npeers rf" "m_me (persist ev rf) = m_me rf"
  "m_currentTerm (persist ev rf) = m_currentTerm rf" "m_votedFor (persist ev rf) = m_votedFor rf"
  "m_logs (persist ev rf) = m_logs rf" "m_commitIndex (persist ev rf) = m_commitIndex rf"
  "m_lastApplied (persist ev rf) = m_lastApplied rf" "m_nextIndex (persist ev rf) = m_nextIndex rf"
  "m_matchIndex (persist ev rf) = m_matchIndex rf" "m_status (persist ev rf) = m_status rf"
  "m_lastResetElectionTime (persist ev rf) = m_lastResetElectionTime rf"
  "m_lastResetHearBeatTime (persist ev rf) = m_lastResetHearBeatTime rf"
  "m_lastSnapshotIncludeIndex (persist ev rf) = m_lastSnapshotIncludeIndex rf"
  "m_lastSnapshotIncludeTerm (persist ev rf) = m_lastSnapshotIncludeTerm rf"
  "applyChan (persist ev rf) = applyChan rf" "m_tasks (persist ev rf) = m_tasks rf"
  "m_counters (persist ev rf) = m_counters rf"
  "(m_persister (persist ev rf) = None) = (m_persister rf = None)"
  by (simp_all add: persist_def split: option.splits)

lemma same_log_persist [simp]: "same_log rf (persist ev rf)"
  by (simp add: same_log_def)

lemma last_index_persist [simp]: "getLastLogIndex (persist ev rf) = getLastLogIndex rf"
  by (rule same_log_simps) simp

lemma log_wf_persist [simp]: "log_wf (persist ev rf) = log_wf rf"
  by (rule same_log_simps) simp

lemma raft_wf_persist [simp]: "raft_wf (persist ev rf) = raft_wf rf"
  by (simp add: raft_wf_def)

lemma raft_wf_frame:
  assumes "same_log rf rf'"
    and "m_npeers rf' = m_npeers rf" "m_me rf' = m_me rf" "m_lastApplied rf' = m_lastApplied rf"
    and "length (m_nextIndex rf') = length (m_nextIndex rf)"
    and "length (m_matchIndex rf') = length (m_matchIndex rf)"
    and "m_commitIndex rf' \<le> getLastLogIndex rf" and "m_persister rf' = None \<longleftrightarrow> m_persister rf = None"
    and "raft_wf rf"
  shows "raft_wf rf'"
  using assms same_log_simps [OF assms(1)] by (simp add: raft_wf_def same_log_def)

text \<open>Appending entries to a log whose indices continue it.\<close>

lemma log_wf_append:
  assumes "log_wf rf" and "logindex e = getLastLogIndex rf + 1"
  shows "log_wf (rf\<lparr>m_logs := m_logs rf @ [e]\<rparr>)"
  using assms last_index_wf [OF assms(1)] by (auto simp: log_wf_def nth_append less_Suc_eq)

end
