(* ===== verification/RaftAppend.thy ===== *)
theory RaftAppend
  imports RaftLog
begin

text \<open>
  The follower's side of log replication: what \<open>AppendEntries\<close> does to a well-formed node on every
  branch, under the shape of message a leader builds.
\<close>

section \<open>Messages a leader builds\<close>

text \<open>Consecutive indices from the one after the previous index.\<close>

definition contiguous :: "int \<Rightarrow> LogEntry list \<Rightarrow> bool" where
  "contiguous i es \<longleftrightarrow> (\<forall>k < length es. logindex (es ! k) = i + int k)"

definition ae_wf :: "AppendEntriesArgs \<Rightarrow> bool" where
  "ae_wf args \<longleftrightarrow> contiguous (ae_prevlogindex args + 1) (ae_entries args)"

text \<open>Same index and term, same command: what the code asserts and Raft's log matching promises.\<close>

definition compatible :: "Raft \<Rightarrow> LogEntry list \<Rightarrow> bool" where
  "compatible rf es \<longleftrightarrow> (\<forall>e \<in> set es. \<forall>e'. entry_at rf (logindex e) = Some e' \<and> logterm e' = logterm e
     \<longrightarrow> command e' = command e)"

text \<open>The log after \<open>es\<close> was written over it from index \<open>i\<close> on.\<close>

definition overlay :: "(int \<Rightarrow> LogEntry option) \<Rightarrow> int \<Rightarrow> LogEntry list \<Rightarrow> int \<Rightarrow> LogEntry option" where
  "overlay f i es = (\<lambda>j. if i \<le> j \<and> j < i + int (length es) then Some (es ! nat (j - i)) else f j)"

lemma contiguous_Cons [simp]:
  "contiguous i (e # es) \<longleftrightarrow> logindex e = i \<and> contiguous (i + 1) es"
proof
  assume *: "contiguous i (e # es)"
  then have "logindex ((e # es) ! 0) = i + int 0" unfolding contiguous_def by blast
  moreover have "logindex (es ! k) = i + 1 + int k" if "k < length es" for k
  proof -
    from that * have "logindex ((e # es) ! Suc k) = i + int (Suc k)"
      unfolding contiguous_def by (metis Suc_less_eq length_Cons)
    then show ?thesis by simp
  qed
  ultimately show "logindex e = i \<and> contiguous (i + 1) es" by (simp add: contiguous_def)
next
  assume "logindex e = i \<and> contiguous (i + 1) es"
  then show "contiguous i (e # es)" by (auto simp: contiguous_def nth_Cons split: nat.splits)
qed

lemma contiguous_Nil [simp]: "contiguous i []"
  by (simp add: contiguous_def)

lemma contiguous_index: "contiguous i es \<Longrightarrow> e \<in> set es \<Longrightarrow> i \<le> logindex e \<and> logindex e < i + int (length es)"
  by (auto simp: contiguous_def in_set_conv_nth)

lemma overlay_Nil [simp]: "overlay f i [] = f"
  by (auto simp: overlay_def fun_eq_iff)

lemma overlay_Cons: "overlay f i (e # es) = overlay (f(i \<mapsto> e)) (i + 1) es"
  by (auto simp: overlay_def fun_eq_iff nth_Cons' nat_diff_distrib' intro!: arg_cong [of _ _ "(!) es"])

lemma compatible_mono: "compatible rf es \<Longrightarrow> set es' \<subseteq> set es \<Longrightarrow> compatible rf es'"
  unfolding compatible_def by blast

section \<open>Writing one entry\<close>

lemma LogEntry_eqI:
  "command e = command e' \<Longrightarrow> logterm e = logterm e' \<Longrightarrow> logindex e = logindex e' \<Longrightarrow> e = (e' :: LogEntry)"
  by simp

lemma appendEntry_wf:
  assumes wf: "log_wf rf" and compat: "compatible rf [e]"
    and i: "m_lastSnapshotIncludeIndex rf < logindex e" "logindex e \<le> getLastLogIndex rf + 1"
  shows "\<exists>logs'. appendEntry e rf = Inr (rf\<lparr>m_logs := logs'\<rparr>) \<and> log_wf (rf\<lparr>m_logs := logs'\<rparr>)
    \<and> entry_at (rf\<lparr>m_logs := logs'\<rparr>) = (entry_at rf)(logindex e \<mapsto> e)
    \<and> getLastLogIndex (rf\<lparr>m_logs := logs'\<rparr>) = max (getLastLogIndex rf) (logindex e)"
proof (cases "logindex e > getLastLogIndex rf")
  case True
  with i have e: "logindex e = getLastLogIndex rf + 1" by simp
  let ?rf = "rf\<lparr>m_logs := m_logs rf @ [e]\<rparr>"
  have wf': "log_wf ?rf" by (rule log_wf_append [OF wf e])
  have "entry_at ?rf = (entry_at rf)(logindex e \<mapsto> e)"
    using last_index_wf [OF wf] e by (auto simp: entry_at_def fun_eq_iff nth_append)
  moreover have "getLastLogIndex ?rf = max (getLastLogIndex rf) (logindex e)"
    using e by (simp add: getLastLogIndex_def getLastLogIndexAndTerm_def)
  ultimately show ?thesis using True wf' by (auto simp: appendEntry_def)
next
  case False
  then obtain e' where e': "entry_at rf (logindex e) = Some e'"
    using entry_at_None_iff [OF wf, of "logindex e"] i(1) by fastforce
  let ?k = "nat (logindex e - m_lastSnapshotIncludeIndex rf - 1)"
  have k: "?k < length (m_logs rf)" "m_logs rf ! ?k = e'"
    using e' by (auto simp: entry_at_def split: if_splits)
  have idx: "logindex e' = logindex e" using entry_at_index [OF wf e'] by simp
  have at: "logAt rf (logindex e) = Inr e'" by (rule logAt_wf [OF wf e'])
  have sl: "getSlicesIndexFromLogIndex rf (logindex e) = Inr (logindex e - m_lastSnapshotIncludeIndex rf - 1)"
    using slices_wf [OF wf i(1)] False by simp
  have ok: "\<not> (logterm e' = logterm e \<and> command e' \<noteq> command e)"
    using compat e' by (auto simp: compatible_def)
  show ?thesis
  proof (cases "logterm e' = logterm e")
    case True
    with ok idx have "e' = e" by (intro LogEntry_eqI) auto
    with e' have "(entry_at rf)(logindex e \<mapsto> e) = entry_at rf" by (simp add: fun_upd_idem)
    moreover have "appendEntry e rf = Inr rf"
      using False at \<open>e' = e\<close> by (simp add: appendEntry_def myAssert_def)
    ultimately show ?thesis using wf False by (intro exI [of _ "m_logs rf"]) simp
  next
    case diff: False
    let ?rf = "rf\<lparr>m_logs := (m_logs rf)[?k := e]\<rparr>"
    have "appendEntry e rf = Inr ?rf"
      using diff False at sl k(1) i(1) by (simp add: appendEntry_def myAssert_def vec_set_def)
    moreover have wf': "log_wf ?rf"
      using wf k(1) i(1) by (auto simp: log_wf_def nth_list_update)
    moreover have "entry_at ?rf = (entry_at rf)(logindex e \<mapsto> e)"
      using i(1) k(1) by (auto simp: entry_at_def fun_eq_iff nth_list_update nat_eq_iff)
    moreover have "getLastLogIndex ?rf = max (getLastLogIndex rf) (logindex e)"
      using last_index_wf [OF wf'] last_index_wf [OF wf] False by simp
    ultimately show ?thesis by blast
  qed
qed

lemma appendEntries_wf:
  assumes "log_wf rf" and "contiguous i es" and "compatible rf es"
    and "m_lastSnapshotIncludeIndex rf < i" "i \<le> getLastLogIndex rf + 1"
  shows "\<exists>logs'. foldE appendEntry es rf = Inr (rf\<lparr>m_logs := logs'\<rparr>) \<and> log_wf (rf\<lparr>m_logs := logs'\<rparr>)
    \<and> entry_at (rf\<lparr>m_logs := logs'\<rparr>) = overlay (entry_at rf) i es
    \<and> getLastLogIndex (rf\<lparr>m_logs := logs'\<rparr>) = max (getLastLogIndex rf) (i + int (length es) - 1)"
  using assms
proof (induction es arbitrary: rf i)
  case Nil
  then show ?case by (intro exI [of _ "m_logs rf"]) auto
next
  case (Cons e es)
  from Cons.prems(2) have e: "logindex e = i" and es: "contiguous (i + 1) es" by simp_all
  have c: "compatible rf [e]" "compatible rf es" by (rule compatible_mono [OF Cons.prems(3)]; auto)+
  from appendEntry_wf [OF Cons.prems(1) c(1)] Cons.prems(4,5) e obtain logs where
    l: "appendEntry e rf = Inr (rf\<lparr>m_logs := logs\<rparr>)" "log_wf (rf\<lparr>m_logs := logs\<rparr>)"
      "entry_at (rf\<lparr>m_logs := logs\<rparr>) = (entry_at rf)(i \<mapsto> e)"
      "getLastLogIndex (rf\<lparr>m_logs := logs\<rparr>) = max (getLastLogIndex rf) i"
    by auto
  let ?rf = "rf\<lparr>m_logs := logs\<rparr>"
  have "logindex x \<noteq> i" if "x \<in> set es" for x using contiguous_index [OF es that] by simp
  then have "compatible ?rf es" using c(2) unfolding compatible_def l(3) by (metis fun_upd_other)
  from Cons.IH [OF l(2) es this] Cons.prems(4) l(4) obtain logs' where
    "foldE appendEntry es ?rf = Inr (?rf\<lparr>m_logs := logs'\<rparr>)" "log_wf (?rf\<lparr>m_logs := logs'\<rparr>)"
    "entry_at (?rf\<lparr>m_logs := logs'\<rparr>) = overlay (entry_at ?rf) (i + 1) es"
    "getLastLogIndex (?rf\<lparr>m_logs := logs'\<rparr>) = max (getLastLogIndex ?rf) (i + 1 + int (length es) - 1)"
    by auto
  then show ?case using l(1,3,4) by (intro exI [of _ logs']) (simp add: overlay_Cons)
qed


section \<open>The rejection hint\<close>

text \<open>The indices from \<open>u\<close> to \<open>prev\<close> all have the term of the last of them.\<close>

definition same_terms :: "Raft \<Rightarrow> int \<Rightarrow> int \<Rightarrow> bool" where
  "same_terms rf u prev \<longleftrightarrow> (\<forall>j. u \<le> j \<and> j \<le> prev \<longrightarrow> term_at rf j = term_at rf prev)"

lemma scanConflict_wf:
  assumes "log_wf rf" and "m_lastSnapshotIncludeIndex rf \<le> prev" "prev \<le> getLastLogIndex rf"
    and "index \<le> prev" and "n = nat (index - m_lastSnapshotIncludeIndex rf + 1)"
  shows "\<exists>u. scanConflict rf prev n index prev = Inr u \<and> u \<le> prev
    \<and> (m_lastSnapshotIncludeIndex rf < u \<or> u = prev)
    \<and> (\<forall>j. u \<le> j \<and> j \<le> index \<longrightarrow> term_at rf j = term_at rf prev)"
  using assms(4,5)
proof (induction n arbitrary: index)
  case 0
  then show ?case using assms(2) by (intro exI [of _ prev]) auto
next
  case (Suc n)
  have i: "m_lastSnapshotIncludeIndex rf \<le> index" using Suc.prems(2) by simp
  obtain t where t: "term_at rf index = Some t"
    using term_at_Some_iff [OF assms(1), of index] i Suc.prems(1) assms(3) by auto
  obtain t' where t': "term_at rf prev = Some t'"
    using term_at_Some_iff [OF assms(1), of prev] assms(2,3) by auto
  note gl = getLogTerm_wf [OF assms(1) t] getLogTerm_wf [OF assms(1) t']
  show ?case
  proof (cases "t = t'")
    case True
    have "index - 1 \<le> prev" "n = nat (index - 1 - m_lastSnapshotIncludeIndex rf + 1)"
      using Suc.prems by auto
    from Suc.IH [OF this] obtain u where u: "scanConflict rf prev n (index - 1) prev = Inr u"
      "u \<le> prev" "m_lastSnapshotIncludeIndex rf < u \<or> u = prev"
      "\<forall>j. u \<le> j \<and> j \<le> index - 1 \<longrightarrow> term_at rf j = term_at rf prev" by blast
    have "term_at rf j = term_at rf prev" if "u \<le> j" "j \<le> index" for j
      using u(4) that t t' True by (cases "j = index") auto
    with u(1-3) True gl show ?thesis by auto
  next
    case False
    with t t' have "index \<noteq> prev" by auto
    with False gl i Suc.prems(1) show ?thesis by auto
  qed
qed

section \<open>The handler\<close>

text \<open>The test that decides between success and rejection.\<close>

definition accepts :: "Raft \<Rightarrow> AppendEntriesArgs \<Rightarrow> bool" where
  "accepts rf args \<longleftrightarrow> ae_term args \<ge> m_currentTerm rf
     \<and> term_at rf (ae_prevlogindex args) = Some (ae_prevlogterm args)"

text \<open>What every message of a current leader does to a node, whatever the answer.\<close>

definition follow :: "int \<Rightarrow> AppendEntriesArgs \<Rightarrow> Raft \<Rightarrow> Raft" where
  "follow now args rf = (if ae_term args > m_currentTerm rf
     then rf\<lparr>m_status := Follower, m_currentTerm := ae_term args, m_votedFor := -1,
             m_lastResetElectionTime := now\<rparr>
     else rf\<lparr>m_status := Follower, m_lastResetElectionTime := now\<rparr>)"

lemma follow_simps [simp]:
  "same_log rf (follow now args rf)"
  "m_status (follow now args rf) = Follower" "m_npeers (follow now args rf) = m_npeers rf"
  "m_me (follow now args rf) = m_me rf" "m_lastApplied (follow now args rf) = m_lastApplied rf"
  "m_commitIndex (follow now args rf) = m_commitIndex rf" "m_nextIndex (follow now args rf) = m_nextIndex rf"
  "m_matchIndex (follow now args rf) = m_matchIndex rf" "m_persister (follow now args rf) = m_persister rf"
  "m_currentTerm (follow now args rf) = max (m_currentTerm rf) (ae_term args)"
  "m_votedFor (follow now args rf) = (if ae_term args > m_currentTerm rf then -1 else m_votedFor rf)"
  "m_tasks (follow now args rf) = m_tasks rf" "m_counters (follow now args rf) = m_counters rf"
  by (auto simp: follow_def same_log_def)

lemma AppendEntries_stale:
  "ae_term args < m_currentTerm rf \<Longrightarrow> AppendEntries ev now args rf =
     Inr (AppendEntriesReply_new\<lparr>aer_appstate := AppNormal, aer_success := False,
            aer_term := m_currentTerm rf, aer_updatenextindex := -100\<rparr>, rf)"
  by (simp add: AppendEntries_def)

lemma AppendEntries_current:
  assumes "ae_term args \<ge> m_currentTerm rf"
  shows "AppendEntries ev now args rf =
     (let reply = AppendEntriesReply_new\<lparr>aer_appstate := AppNormal\<rparr>; rf2 = follow now args rf in
      bindE (if ae_prevlogindex args > getLastLogIndex rf2 then
               Inr (reply\<lparr>aer_success := False, aer_term := m_currentTerm rf2,
                          aer_updatenextindex := getLastLogIndex rf2 + 1\<rparr>, rf2)
             else
               let reply1 = (if ae_prevlogindex args < m_lastSnapshotIncludeIndex rf2
                             then reply\<lparr>aer_success := False, aer_term := m_currentTerm rf2,
                                        aer_updatenextindex := m_lastSnapshotIncludeIndex rf2 + 1\<rparr>
                             else reply)
               in appendToLog args reply1 rf2) (\<lambda>(reply', rf'). Inr (reply', persist ev rf')))"
proof -
  have "follow now args rf =
      (if ae_term args > m_currentTerm rf
       then rf\<lparr>m_status := Follower, m_currentTerm := ae_term args, m_votedFor := -1\<rparr>
       else rf)\<lparr>m_status := Follower, m_lastResetElectionTime := now\<rparr>"
    by (simp add: follow_def)
  with assms show ?thesis
    by (auto simp: AppendEntries_def myAssert_def Let_def)
qed


section \<open>Every branch of the handler\<close>

text \<open>Success: the entries are in place, everything else of the log is as it was.\<close>

lemma AppendEntries_accept:
  assumes wf: "raft_wf rf" and acc: "accepts rf args" and ae: "ae_wf args"
    and compat: "compatible rf (ae_entries args)"
  shows "\<exists>reply logs. AppendEntries ev now args rf = Inr (reply, persist ev ((follow now args rf)
        \<lparr>m_logs := logs,
         m_commitIndex := max (m_commitIndex rf) (min (ae_leadercommit args)
            (max (getLastLogIndex rf) (ae_prevlogindex args + int (length (ae_entries args)))))\<rparr>))
    \<and> aer_success reply \<and> aer_term reply = ae_term args \<and> aer_appstate reply = AppNormal
    \<and> log_wf (rf\<lparr>m_logs := logs\<rparr>)
    \<and> entry_at (rf\<lparr>m_logs := logs\<rparr>) = overlay (entry_at rf) (ae_prevlogindex args + 1) (ae_entries args)
    \<and> getLastLogIndex (rf\<lparr>m_logs := logs\<rparr>)
        = max (getLastLogIndex rf) (ae_prevlogindex args + int (length (ae_entries args)))"
proof -
  let ?prev = "ae_prevlogindex args" and ?es = "ae_entries args"
  let ?rf = "follow now args rf"
  have sl: "same_log rf ?rf" by simp
  note same = same_log_simps [OF sl]
  have lw: "log_wf rf" and lw': "log_wf ?rf" and ci: "m_commitIndex rf \<le> getLastLogIndex rf"
    using wf same(6) by (simp_all add: raft_wf_def)
  have tm: "term_at rf ?prev = Some (ae_prevlogterm args)" and ge: "m_currentTerm rf \<le> ae_term args"
    using acc by (simp_all add: accepts_def)
  have pr: "m_lastSnapshotIncludeIndex rf \<le> ?prev" "?prev \<le> getLastLogIndex rf"
    using term_at_Some_iff [OF lw] tm by blast+
  have snap: "m_lastSnapshotIncludeIndex ?rf = m_lastSnapshotIncludeIndex rf"
    using sl by (simp add: same_log_def)
  have ml: "matchLog ?rf ?prev (ae_prevlogterm args) = Inr True"
    using matchLog_wf [OF lw pr] tm same(9) by simp
  have "compatible ?rf ?es" using compat unfolding compatible_def same(4) .
  from appendEntries_wf [OF lw' _ this, of "?prev + 1"] ae pr snap same(2,4)
  obtain logs where l: "foldE appendEntry ?es ?rf = Inr (?rf\<lparr>m_logs := logs\<rparr>)"
    "log_wf (?rf\<lparr>m_logs := logs\<rparr>)"
    "entry_at (?rf\<lparr>m_logs := logs\<rparr>) = overlay (entry_at rf) (?prev + 1) ?es"
    "getLastLogIndex (?rf\<lparr>m_logs := logs\<rparr>) = max (getLastLogIndex rf) (?prev + int (length ?es))"
    by (auto simp: ae_wf_def)
  have sl2: "same_log (?rf\<lparr>m_logs := logs\<rparr>) (rf\<lparr>m_logs := logs\<rparr>)"
    using sl by (simp add: same_log_def)
  note same2 = same_log_simps [OF sl2]
  let ?rf1 = "?rf\<lparr>m_logs := logs\<rparr>"
  let ?last = "max (getLastLogIndex rf) (?prev + int (length ?es))"
  let ?ci = "max (m_commitIndex rf) (min (ae_leadercommit args) ?last)"
  let ?rf2 = "?rf1\<lparr>m_commitIndex := ?ci\<rparr>"
  have eq2: "(if ae_leadercommit args > m_commitIndex ?rf1
        then ?rf1\<lparr>m_commitIndex := min (ae_leadercommit args) (getLastLogIndex ?rf1)\<rparr> else ?rf1) = ?rf2"
    using ci unfolding l(4) by (auto simp: max_def min_def)
  have last2: "getLastLogIndex ?rf2 = ?last"
    using same_log_simps(2) [of ?rf1 ?rf2] l(4) by (simp add: same_log_def)
  have ok: "getLastLogIndex ?rf1 \<ge> ?prev + int (length ?es)" unfolding l(4) by simp
  have ok2: "getLastLogIndex ?rf2 \<ge> m_commitIndex ?rf2" unfolding last2 using ci by simp
  define reply where "reply = AppendEntriesReply_new\<lparr>aer_appstate := AppNormal\<rparr>"
  have "appendToLog args reply ?rf = Inr (reply\<lparr>aer_success := True, aer_term := m_currentTerm ?rf2\<rparr>, ?rf2)"
    unfolding appendToLog_def ml bindE_Inr if_True l(1) Let_def eq2
    using ok ok2 by (simp add: myAssert_def)
  then have "AppendEntries ev now args rf
      = Inr (reply\<lparr>aer_success := True, aer_term := m_currentTerm ?rf2\<rparr>, persist ev ?rf2)"
    unfolding AppendEntries_current [OF ge] Let_def reply_def
    using pr snap same(2) by simp
  moreover have "m_currentTerm ?rf2 = ae_term args" using ge by simp
  ultimately show ?thesis using l same2 by (auto simp: reply_def)
qed

text \<open>Rejection by a current term, when the previous index is not below the snapshot.\<close>

lemma AppendEntries_reject:
  assumes wf: "log_wf rf" and ge: "ae_term args \<ge> m_currentTerm rf"
    and rej: "\<not> accepts rf args" and sn: "m_lastSnapshotIncludeIndex rf \<le> ae_prevlogindex args"
  shows "\<exists>reply. AppendEntries ev now args rf = Inr (reply, persist ev (follow now args rf))
    \<and> \<not> aer_success reply \<and> aer_term reply = ae_term args \<and> aer_appstate reply = AppNormal
    \<and> (m_lastSnapshotIncludeIndex rf < aer_updatenextindex reply \<or> aer_updatenextindex reply = ae_prevlogindex args)
    \<and> aer_updatenextindex reply \<le> ae_prevlogindex args
    \<and> same_terms rf (aer_updatenextindex reply) (ae_prevlogindex args)"
proof -
  let ?prev = "ae_prevlogindex args"
  let ?rf = "follow now args rf"
  have sl: "same_log rf ?rf" by simp
  note same = same_log_simps [OF sl]
  have wf': "log_wf ?rf" using wf same(6) by simp
  have snap: "m_lastSnapshotIncludeIndex ?rf = m_lastSnapshotIncludeIndex rf"
    using sl by (simp add: same_log_def)
  show ?thesis
  proof (cases "?prev > getLastLogIndex rf")
    case True
    have "term_at rf j = None" if "getLastLogIndex rf < j" for j
      using term_at_Some_iff [OF wf, of j] that by (cases "term_at rf j") auto
    moreover have "m_lastSnapshotIncludeIndex rf \<le> getLastLogIndex rf" using last_index_wf [OF wf] by simp
    ultimately show ?thesis
      using True ge same(2) unfolding AppendEntries_current [OF ge] Let_def same_terms_def by simp
  next
    case False
    with sn have pr: "m_lastSnapshotIncludeIndex rf \<le> ?prev" "?prev \<le> getLastLogIndex rf" by simp_all
    have ml: "matchLog ?rf ?prev (ae_prevlogterm args) = Inr False"
      using matchLog_wf [OF wf pr] rej ge same(9) by (simp add: accepts_def)
    obtain u where u: "scanConflict ?rf ?prev (nat (?prev - m_lastSnapshotIncludeIndex ?rf + 1)) ?prev ?prev = Inr u"
      "u \<le> ?prev" "m_lastSnapshotIncludeIndex rf < u \<or> u = ?prev"
      "same_terms rf u ?prev"
      using scanConflict_wf [OF wf' _ _ order_refl refl, of ?prev] pr same(2,5) snap by (auto simp: same_terms_def)
    define reply where "reply = AppendEntriesReply_new\<lparr>aer_appstate := AppNormal\<rparr>"
    have "appendToLog args reply ?rf = Inr (reply\<lparr>aer_updatenextindex := u, aer_success := False,
        aer_term := m_currentTerm ?rf\<rparr>, ?rf)"
      unfolding appendToLog_def ml u(1) by simp
    then have "AppendEntries ev now args rf = Inr (reply\<lparr>aer_updatenextindex := u, aer_success := False,
        aer_term := ae_term args\<rparr>, persist ev ?rf)"
      unfolding AppendEntries_current [OF ge] Let_def reply_def using False sn snap same(2) ge by simp
    moreover have "aer_appstate reply = AppNormal" by (simp add: reply_def)
    ultimately show ?thesis using u(2-4) by simp
  qed
qed

text \<open>A current leader whose previous index is below the snapshot: the process exits.\<close>

lemma AppendEntries_below_snapshot:
  assumes "log_wf rf" and "ae_term args \<ge> m_currentTerm rf"
    and "ae_prevlogindex args < m_lastSnapshotIncludeIndex rf"
  shows "AppendEntries ev now args rf = Inl AssertFailed"
proof -
  let ?rf = "follow now args rf"
  have sl: "same_log rf ?rf" by simp
  have "ae_prevlogindex args \<le> getLastLogIndex rf" using last_index_wf [OF assms(1)] assms(3) by simp
  moreover have "matchLog ?rf (ae_prevlogindex args) t = Inl AssertFailed" for t
    using matchLog_below_snapshot [OF assms(3)] same_log_simps(9) [OF sl] by simp
  ultimately show ?thesis
    unfolding AppendEntries_current [OF assms(2)] Let_def appendToLog_def
    using same_log_simps(2) [OF sl] by simp
qed

end
