(* ===== verification/RaftFrame.thy ===== *)
theory RaftFrame
  imports RaftAppend
begin

text \<open>
  What the handlers that are not about voting leave alone. The relation \<open>calm\<close> collects it: terms
  only grow, a vote is only forgotten with a new term, nobody becomes leader, and the pending vote
  requests stay. It holds for every handler on every argument, whether or not the log is well formed.
\<close>

section \<open>The relation\<close>

fun is_vote :: "task \<Rightarrow> bool" where
  "is_vote (SendRequestVote i args k) = True"
| "is_vote _ = False"

definition calm :: "Raft \<Rightarrow> Raft \<Rightarrow> bool" where
  "calm rf rf' \<longleftrightarrow> m_me rf' = m_me rf \<and> m_npeers rf' = m_npeers rf
     \<and> m_currentTerm rf \<le> m_currentTerm rf'
     \<and> (m_currentTerm rf' = m_currentTerm rf \<longrightarrow> m_votedFor rf' = m_votedFor rf)
     \<and> (m_status rf' = Leader \<longrightarrow> m_status rf = Leader \<and> m_currentTerm rf' = m_currentTerm rf)
     \<and> filter is_vote (m_tasks rf') = filter is_vote (m_tasks rf)
     \<and> length (m_nextIndex rf') = length (m_nextIndex rf)
     \<and> length (m_matchIndex rf') = length (m_matchIndex rf)"

lemma calm_refl [simp]: "calm rf rf"
  by (simp add: calm_def)

lemma calm_trans: "calm a b \<Longrightarrow> calm b c \<Longrightarrow> calm a c"
  unfolding calm_def by (elim conjE) (intro conjI; auto)

text \<open>The part of the state that messages about the log do not touch.\<close>

definition same_votes :: "Raft \<Rightarrow> Raft \<Rightarrow> bool" where
  "same_votes rf rf' \<longleftrightarrow> m_me rf' = m_me rf \<and> m_npeers rf' = m_npeers rf
     \<and> m_currentTerm rf' = m_currentTerm rf \<and> m_votedFor rf' = m_votedFor rf \<and> m_status rf' = m_status rf
     \<and> m_tasks rf' = m_tasks rf \<and> m_counters rf' = m_counters rf
     \<and> length (m_nextIndex rf') = length (m_nextIndex rf)
     \<and> length (m_matchIndex rf') = length (m_matchIndex rf)"

lemma same_votes_calm: "same_votes rf rf' \<Longrightarrow> calm rf rf' \<and> m_counters rf' = m_counters rf"
  by (simp add: same_votes_def calm_def)

lemma same_votes_refl [simp]: "same_votes rf rf"
  by (simp add: same_votes_def)

lemma same_votes_persist [simp]: "same_votes rf (persist ev rf)"
  by (simp add: same_votes_def)

lemma same_votes_trans: "same_votes a b \<Longrightarrow> same_votes b c \<Longrightarrow> same_votes a c"
  by (simp add: same_votes_def)

lemma same_votes_logs [simp]:
  "same_votes rf (rf\<lparr>m_logs := ls\<rparr>)" "same_votes rf (rf\<lparr>m_commitIndex := c\<rparr>)"
  "same_votes rf (rf\<lparr>m_persister := p\<rparr>)"
  by (simp_all add: same_votes_def)

section \<open>Frames of the helpers\<close>

lemma vec_set_length: "vec_set xs i v = Inr ys \<Longrightarrow> length ys = length xs"
  by (auto simp: vec_set_def split: if_splits)

lemma appendEntry_frame: "appendEntry e rf = Inr rf' \<Longrightarrow> same_votes rf rf'"
  by (auto simp: appendEntry_def result_simps Let_def split: if_splits)

lemma appendEntries_frame: "foldE appendEntry es rf = Inr rf' \<Longrightarrow> same_votes rf rf'"
  by (rule foldE_invariant [where P = "same_votes rf"])
    (auto intro: same_votes_trans dest: appendEntry_frame)

lemma appendToLog_frame: "appendToLog args reply rf = Inr (reply', rf') \<Longrightarrow> same_votes rf rf'"
  unfolding appendToLog_def
  by (auto simp: result_simps Let_def split: if_splits
      dest: appendEntries_frame intro: same_votes_trans)

lemma saveSnapshot_frame: "saveSnapshot ev s rf = Inr rf' \<Longrightarrow> \<exists>p. rf' = rf\<lparr>m_persister := p\<rparr>"
  by (auto simp: saveSnapshot_def result_simps)

section \<open>The handlers\<close>

lemma AppendEntries_calm:
  assumes "AppendEntries ev now args rf = Inr (reply, rf')"
  shows "calm rf rf' \<and> m_counters rf' = m_counters rf \<and> m_tasks rf' = m_tasks rf"
proof (cases "ae_term args < m_currentTerm rf")
  case True
  with assms show ?thesis by (auto simp: AppendEntries_def)
next
  case False
  then have ge: "ae_term args \<ge> m_currentTerm rf" by simp
  let ?rf2 = "follow now args rf"
  have c: "calm rf ?rf2 \<and> m_counters ?rf2 = m_counters rf \<and> m_tasks ?rf2 = m_tasks rf"
    by (simp add: calm_def)
  have "same_votes ?rf2 rf'"
    using assms unfolding AppendEntries_current [OF ge] Let_def
    by (auto simp: result_simps dest!: appendToLog_frame split: if_split_asm
        intro: same_votes_trans [OF _ same_votes_persist])
  with c show ?thesis
    using same_votes_calm [of ?rf2 rf'] calm_trans [of rf ?rf2 rf'] by (auto simp: same_votes_def)
qed

lemma InstallSnapshot_calm:
  assumes "InstallSnapshot ev now args rf = Inr (reply, rf')"
  shows "calm rf rf' \<and> m_counters rf' = m_counters rf \<and> (\<exists>ts. m_tasks rf' = m_tasks rf @ ts \<and> (\<forall>t \<in> set ts. \<exists>m. t = PushMsgToKvServer m))"
  using assms unfolding InstallSnapshot_def
  by (auto simp: Let_def result_simps calm_def dest!: saveSnapshot_frame split: if_split_asm)

lemma leaderSendSnapShot_reply_calm:
  assumes "leaderSendSnapShot_reply ev now server args mreply rf = Inr rf'"
  shows "calm rf rf' \<and> m_counters rf' = m_counters rf \<and> m_tasks rf' = m_tasks rf"
  using assms unfolding leaderSendSnapShot_reply_def
  by (auto simp: result_simps calm_def dest!: vec_set_length split: option.splits if_split_asm)

lemma leaderSendSnapShot_request_calm:
  assumes "leaderSendSnapShot_request rf = Inr (args, rf')"
  shows "calm rf rf' \<and> m_counters rf' = m_counters rf \<and> m_tasks rf' = m_tasks rf"
  using assms unfolding leaderSendSnapShot_request_def
  by (auto simp: result_simps calm_def split_beta Let_def)

lemma leaderUpdateCommitIndex_frame: "leaderUpdateCommitIndex rf = Inr rf' \<Longrightarrow> \<exists>c. rf' = rf\<lparr>m_commitIndex := c\<rparr>"
  by (auto simp: leaderUpdateCommitIndex_def result_simps)

lemma Start_calm:
  assumes "Start ev cmd rf = Inr (r, rf')"
  shows "calm rf rf' \<and> m_counters rf' = m_counters rf \<and> m_tasks rf' = m_tasks rf"
  using assms unfolding Start_def
  by (auto simp: Let_def result_simps calm_def dest!: leaderUpdateCommitIndex_frame split: if_split_asm)

lemma applyLoop_frame: "applyLoop n rf ms = Inr (ms', rf') \<Longrightarrow> \<exists>a. rf' = rf\<lparr>m_lastApplied := a\<rparr>"
proof (induction n arbitrary: rf ms)
  case 0
  then have "rf' = rf\<lparr>m_lastApplied := m_lastApplied rf\<rparr>" by simp
  then show ?case by blast
next
  case (Suc n)
  then obtain ms1 where "applyLoop n (rf\<lparr>m_lastApplied := m_lastApplied rf + 1\<rparr>) ms1 = Inr (ms', rf')"
    by (auto simp: Let_def result_simps)
  from Suc.IH [OF this] show ?case by auto
qed

lemma applierTick_calm:
  assumes "applierTick rf = Inr rf'"
  shows "calm rf rf' \<and> m_counters rf' = m_counters rf \<and> m_tasks rf' = m_tasks rf"
  using assms unfolding applierTick_def getApplyLogs_def
  by (auto simp: result_simps calm_def dest!: applyLoop_frame)

lemma Snapshot_calm:
  assumes "Snapshot ev index snap rf = Inr rf'"
  shows "calm rf rf' \<and> m_counters rf' = m_counters rf \<and> m_tasks rf' = m_tasks rf"
  using assms unfolding Snapshot_def
  by (auto simp: Let_def result_simps calm_def dest!: saveSnapshot_frame split: if_split_asm)

text \<open>The two that use counters: a heartbeat makes a new one, its answers write that one.\<close>

lemma heartBeatTo_frame:
  assumes "heartBeatTo k i rf = Inr rf'"
  shows "\<exists>ts. rf' = rf\<lparr>m_tasks := m_tasks rf @ ts\<rparr>
    \<and> (\<forall>t \<in> set ts. t = LeaderSendSnapShot i \<or> (\<exists>args. t = SendAppendEntries i args k))"
proof (cases "i = m_me rf")
  case True
  with assms show ?thesis by (intro exI [of _ "[]"]) (simp add: heartBeatTo_def)
next
  case False
  with assms obtain t where "rf' = rf\<lparr>m_tasks := m_tasks rf @ [t]\<rparr>"
      "t = LeaderSendSnapShot i \<or> (\<exists>args. t = SendAppendEntries i args k)"
    unfolding heartBeatTo_def by (auto simp: result_simps split: if_split_asm)
  then show ?thesis by (intro exI [of _ "[t]"]) simp
qed

definition beat_tasks :: "nat \<Rightarrow> task list \<Rightarrow> bool" where
  "beat_tasks k ts \<longleftrightarrow> (\<forall>t \<in> set ts. (\<exists>i. t = LeaderSendSnapShot i) \<or> (\<exists>i args. t = SendAppendEntries i args k))"

lemma beat_tasks_filter: "beat_tasks k ts \<Longrightarrow> filter is_vote ts = []"
  by (auto simp: beat_tasks_def filter_empty_conv)

lemma heartBeats_frame:
  "foldE (heartBeatTo k) is rf = Inr rf' \<Longrightarrow> \<exists>ts. rf' = rf\<lparr>m_tasks := m_tasks rf @ ts\<rparr> \<and> beat_tasks k ts"
proof (induction "is" arbitrary: rf)
  case Nil
  then show ?case by (intro exI [of _ "[]"]) (simp add: beat_tasks_def)
next
  case (Cons i js)
  from Cons.prems obtain rf1 where r: "heartBeatTo k i rf = Inr rf1" "foldE (heartBeatTo k) js rf1 = Inr rf'"
    by (auto simp: result_simps)
  from heartBeatTo_frame [OF r(1)] obtain ts where ts: "rf1 = rf\<lparr>m_tasks := m_tasks rf @ ts\<rparr>" "beat_tasks k ts"
    unfolding beat_tasks_def by blast
  from Cons.IH [OF r(2)] obtain ts' where "rf' = rf1\<lparr>m_tasks := m_tasks rf1 @ ts'\<rparr>" "beat_tasks k ts'" by blast
  with ts have "rf' = rf\<lparr>m_tasks := m_tasks rf @ (ts @ ts')\<rparr> \<and> beat_tasks k (ts @ ts')"
    by (auto simp: beat_tasks_def)
  then show ?case by blast
qed

lemma doHeartBeat_calm:
  assumes "doHeartBeat now rf = Inr rf'"
  shows "calm rf rf' \<and> (rf' = rf \<or> m_counters rf' = m_counters rf @ [1]
    \<and> (\<exists>ts. m_tasks rf' = m_tasks rf @ ts \<and> beat_tasks (length (m_counters rf)) ts))"
  using assms unfolding doHeartBeat_def
  by (auto simp: Let_def result_simps calm_def beat_tasks_filter dest!: heartBeats_frame split: if_split_asm)

lemma commitReplicated_frame:
  assumes "commitReplicated args k rf = Inr rf'"
  shows "same_votes (rf\<lparr>m_counters := m_counters rf'\<rparr>) rf'
    \<and> length (m_counters rf') = length (m_counters rf)
    \<and> (\<forall>j. j \<noteq> k \<longrightarrow> m_counters rf' ! j = m_counters rf ! j)"
  using assms unfolding commitReplicated_def Let_def
  by (auto simp: result_simps same_votes_def split: if_split_asm)

lemma sendAppendEntries_reply_calm:
  assumes "sendAppendEntries_reply server args mreply k rf = Inr rf'"
  shows "calm rf rf' \<and> m_tasks rf' = m_tasks rf \<and> length (m_counters rf') = length (m_counters rf)
    \<and> (\<forall>j. j \<noteq> k \<longrightarrow> m_counters rf' ! j = m_counters rf ! j)"
proof (cases mreply)
  case None
  with assms show ?thesis by (simp add: sendAppendEntries_reply_def)
next
  case (Some reply)
  consider (quiet) "aer_appstate reply = Disconnected \<or> aer_term reply < m_currentTerm rf \<or> m_status rf \<noteq> Leader"
      "\<not> (aer_appstate reply \<noteq> Disconnected \<and> aer_term reply > m_currentTerm rf)"
    | (newer) "aer_appstate reply \<noteq> Disconnected" "aer_term reply > m_currentTerm rf"
    | (reject) "aer_appstate reply \<noteq> Disconnected" "aer_term reply = m_currentTerm rf"
        "m_status rf = Leader" "\<not> aer_success reply"
    | (accept) "aer_appstate reply \<noteq> Disconnected" "aer_term reply = m_currentTerm rf"
        "m_status rf = Leader" "aer_success reply"
    by linarith
  then show ?thesis
  proof cases
    case quiet
    with assms Some show ?thesis by (auto simp: sendAppendEntries_reply_def split: if_split_asm)
  next
    case newer
    with assms Some show ?thesis by (auto simp: sendAppendEntries_reply_def calm_def)
  next
    case reject
    with assms Some show ?thesis
      by (auto simp: sendAppendEntries_reply_def result_simps calm_def dest!: vec_set_length split: if_split_asm)
  next
    case accept
    with assms Some obtain c mi ni where *: "length mi = length (m_matchIndex rf)" "length ni = length (m_nextIndex rf)"
        "commitReplicated args k (rf\<lparr>m_counters := (m_counters rf)[k := c + 1], m_matchIndex := mi,
           m_nextIndex := ni\<rparr>) = Inr rf'"
      by (auto simp: sendAppendEntries_reply_def Let_def result_simps dest!: vec_set_length)
    from commitReplicated_frame [OF *(3)] *(1,2) show ?thesis
      by (simp add: same_votes_def calm_def)
  qed
qed

end
