(* ===== verification/RaftLeader.thy ===== *)
theory RaftLeader
  imports RaftFrame
begin

text \<open>
  The leader's side of replication: the messages a heartbeat builds, what the answers do to the
  leader's indices, and the commit rule.
\<close>

section \<open>The message for one follower\<close>

text \<open>The log from index \<open>i\<close> on.\<close>

definition log_from :: "Raft \<Rightarrow> int \<Rightarrow> LogEntry list" where
  "log_from rf i = drop (nat (i - m_lastSnapshotIncludeIndex rf - 1)) (m_logs rf)"

lemma log_from_length:
  assumes "log_wf rf" "m_lastSnapshotIncludeIndex rf < i" "i \<le> getLastLogIndex rf + 1"
  shows "int (length (log_from rf i)) = getLastLogIndex rf + 1 - i"
  using assms(2,3) last_index_wf [OF assms(1)] by (simp add: log_from_def)

lemma log_from_contiguous:
  assumes "log_wf rf" "m_lastSnapshotIncludeIndex rf < i"
  shows "contiguous i (log_from rf i)"
  using assms unfolding contiguous_def log_from_def log_wf_def by auto

lemma log_from_nth:
  assumes "log_wf rf" "m_lastSnapshotIncludeIndex rf < i" "i \<le> j" "j \<le> getLastLogIndex rf"
  shows "entry_at rf j = Some (log_from rf i ! nat (j - i))"
proof -
  have "nat (i - m_lastSnapshotIncludeIndex rf - 1) + nat (j - i) = nat (j - m_lastSnapshotIncludeIndex rf - 1)"
    using assms by simp
  with assms last_index_wf [OF assms(1)] show ?thesis
    by (simp add: log_from_def entry_at_def)
qed

text \<open>What \<open>doHeartBeat\<close> sends to a peer whose next index is \<open>ni\<close>, above the snapshot.\<close>

definition append_args :: "Raft \<Rightarrow> int \<Rightarrow> AppendEntriesArgs" where
  "append_args rf ni = \<lparr>ae_term = m_currentTerm rf, ae_leaderid = int (m_me rf), ae_prevlogindex = ni - 1,
     ae_prevlogterm = the (term_at rf (ni - 1)), ae_entries = log_from rf ni, ae_leadercommit = m_commitIndex rf\<rparr>"

lemma appendEntriesFor_wf:
  assumes wf: "log_wf rf" and i: "i < length (m_nextIndex rf)" and ni: "m_nextIndex rf ! i = ni"
    and r: "m_lastSnapshotIncludeIndex rf < ni" "ni \<le> getLastLogIndex rf + 1"
  shows "appendEntriesFor i rf = Inr (append_args rf ni)"
proof -
  have g: "vec_get (m_nextIndex rf) (int i) = Inr ni" using i ni by (simp add: vec_get_def)
  have len: "ni - 1 + int (length (log_from rf ni)) = getLastLogIndex rf"
    using log_from_length [OF wf r] by simp
  obtain t where t: "term_at rf (ni - 1) = Some t"
    using term_at_Some_iff [OF wf, of "ni - 1"] r by auto
  show ?thesis
  proof (cases "ni = m_lastSnapshotIncludeIndex rf + 1")
    case True
    then have "t = m_lastSnapshotIncludeTerm rf" using t by (simp add: term_at_def)
    moreover have "log_from rf ni = m_logs rf" using True by (simp add: log_from_def)
    ultimately show ?thesis using True g len t
      by (simp add: appendEntriesFor_def getPrevLogInfo_def append_args_def myAssert_def)
  next
    case False
    with t obtain e where e: "entry_at rf (ni - 1) = Some e" "logterm e = t" by (auto simp: term_at_def)
    have at: "logAt rf (ni - 1) = Inr e" by (rule logAt_wf [OF wf e(1)])
    have sl: "getSlicesIndexFromLogIndex rf (ni - 1) = Inr (ni - 1 - m_lastSnapshotIncludeIndex rf - 1)"
      using slices_wf [OF wf, of "ni - 1"] r False by simp
    have "drop (nat (ni - 1 - m_lastSnapshotIncludeIndex rf - 1 + 1)) (m_logs rf) = log_from rf ni"
      by (simp add: log_from_def)
    with False g len t e at sl show ?thesis
      by (simp add: appendEntriesFor_def getPrevLogInfo_def append_args_def myAssert_def)
  qed
qed

lemma append_args_wf:
  "log_wf rf \<Longrightarrow> m_lastSnapshotIncludeIndex rf < ni \<Longrightarrow> ae_wf (append_args rf ni)"
  using log_from_contiguous [of rf ni] by (simp add: ae_wf_def append_args_def)

section \<open>A heartbeat round\<close>

definition beat_task :: "Raft \<Rightarrow> nat \<Rightarrow> nat \<Rightarrow> task" where
  "beat_task rf k i = (if m_nextIndex rf ! i \<le> m_lastSnapshotIncludeIndex rf then LeaderSendSnapShot i
     else SendAppendEntries i (append_args rf (m_nextIndex rf ! i)) k)"

definition next_ok :: "Raft \<Rightarrow> bool" where
  "next_ok rf \<longleftrightarrow> (\<forall>i < m_npeers rf. i \<noteq> m_me rf \<longrightarrow>
     1 \<le> m_nextIndex rf ! i \<and> m_nextIndex rf ! i \<le> getLastLogIndex rf + 1)"

lemma append_args_cong:
  "same_log rf rf' \<Longrightarrow> m_currentTerm rf' = m_currentTerm rf \<Longrightarrow> m_me rf' = m_me rf
    \<Longrightarrow> m_commitIndex rf' = m_commitIndex rf \<Longrightarrow> append_args rf' ni = append_args rf ni"
  using same_log_simps(5) [of rf rf'] by (simp add: append_args_def log_from_def same_log_def)

lemma heartBeats_wf:
  assumes wf: "log_wf rf" and len: "length (m_nextIndex rf) = m_npeers rf" and nx: "next_ok rf"
    and "\<forall>i \<in> set is. i < m_npeers rf"
  shows "foldE (heartBeatTo k) is (rf\<lparr>m_counters := cs, m_tasks := ts\<rparr>)
    = Inr (rf\<lparr>m_counters := cs, m_tasks := ts @ map (beat_task rf k) (filter (\<lambda>i. i \<noteq> m_me rf) is)\<rparr>)"
  using assms(4)
proof (induction "is" arbitrary: ts)
  case Nil
  then show ?case by simp
next
  case (Cons i js)
  let ?rf = "rf\<lparr>m_counters := cs, m_tasks := ts\<rparr>"
  have sl: "same_log rf ?rf" by (simp add: same_log_def)
  show ?case
  proof (cases "i = m_me rf")
    case True
    then have "heartBeatTo k i ?rf = Inr ?rf" by (simp add: heartBeatTo_def)
    with Cons True show ?thesis by simp
  next
    case False
    let ?ni = "m_nextIndex rf ! i"
    have i: "i < length (m_nextIndex rf)" "1 \<le> ?ni" "?ni \<le> getLastLogIndex rf + 1"
      using Cons.prems len nx False by (auto simp: next_ok_def)
    have g: "vec_get (m_nextIndex ?rf) (int i) = Inr ?ni" using i by (simp add: vec_get_def)
    have "heartBeatTo k i ?rf = Inr (rf\<lparr>m_counters := cs, m_tasks := ts @ [beat_task rf k i]\<rparr>)"
    proof (cases "?ni \<le> m_lastSnapshotIncludeIndex rf")
      case True
      with False g i(2) show ?thesis by (simp add: heartBeatTo_def myAssert_def beat_task_def)
    next
      case snap: False
      have "appendEntriesFor i ?rf = Inr (append_args ?rf ?ni)"
        by (rule appendEntriesFor_wf) (use wf i snap same_log_simps(2,6) [OF sl] in auto)
      moreover have "append_args ?rf ?ni = append_args rf ?ni" by (rule append_args_cong [OF sl]) simp_all
      ultimately show ?thesis using False g i(2) snap by (simp add: heartBeatTo_def myAssert_def beat_task_def)
    qed
    with Cons False show ?thesis by simp
  qed
qed

lemma doHeartBeat_wf:
  assumes wf: "raft_wf rf" and nx: "next_ok rf" and l: "m_status rf = Leader"
  shows "doHeartBeat now rf = Inr (rf\<lparr>m_counters := m_counters rf @ [1],
    m_tasks := m_tasks rf @ map (beat_task rf (length (m_counters rf))) (filter (\<lambda>i. i \<noteq> m_me rf) [0 ..< m_npeers rf]),
    m_lastResetHearBeatTime := now\<rparr>)"
proof -
  have rf: "rf\<lparr>m_counters := cs, m_tasks := m_tasks rf\<rparr> = rf\<lparr>m_counters := cs\<rparr>" for cs by simp
  have "\<forall>i \<in> set [0 ..< m_npeers rf]. i < m_npeers rf" by simp
  from heartBeats_wf [OF _ _ nx this, where k = "length (m_counters rf)" and cs = "m_counters rf @ [1]"
      and ts = "m_tasks rf", unfolded rf] wf
  have "foldE (heartBeatTo (length (m_counters rf))) [0 ..< m_npeers rf] (rf\<lparr>m_counters := m_counters rf @ [1]\<rparr>)
    = Inr (rf\<lparr>m_counters := m_counters rf @ [1], m_tasks := m_tasks rf
        @ map (beat_task rf (length (m_counters rf))) (filter (\<lambda>i. i \<noteq> m_me rf) [0 ..< m_npeers rf])\<rparr>)"
    by (simp add: raft_wf_def)
  with l show ?thesis by (simp add: doHeartBeat_def Let_def)
qed

section \<open>The answers\<close>

text \<open>A rejection lowers the next index of that follower to the hint.\<close>

lemma reply_rejected:
  assumes "m_status rf = Leader" "aer_term reply = m_currentTerm rf" "aer_appstate reply = AppNormal"
    and "\<not> aer_success reply" "aer_updatenextindex reply \<noteq> -100" "i < length (m_nextIndex rf)"
  shows "sendAppendEntries_reply i args (Some reply) k rf
    = Inr (rf\<lparr>m_nextIndex := (m_nextIndex rf)[i := aer_updatenextindex reply]\<rparr>)"
  using assms by (simp add: sendAppendEntries_reply_def AppNormal_def Disconnected_def myAssert_def vec_set_def)

text \<open>
  A success raises the follower's match index; the commit index moves when this answer completes a
  majority for a message whose last entry is of the current term.
\<close>

definition acked :: "nat \<Rightarrow> AppendEntriesArgs \<Rightarrow> nat \<Rightarrow> Raft \<Rightarrow> Raft" where
  "acked i args k rf =
     (let m = max (m_matchIndex rf ! i) (ae_prevlogindex args + int (length (ae_entries args)));
          c = m_counters rf ! k + 1;
          full = c \<ge> int (1 + m_npeers rf div 2)
      in rf\<lparr>m_counters := (m_counters rf)[k := if full then 0 else c],
            m_matchIndex := (m_matchIndex rf)[i := m], m_nextIndex := (m_nextIndex rf)[i := m + 1],
            m_commitIndex := (if full \<and> ae_entries args \<noteq> [] \<and> logterm (last (ae_entries args)) = m_currentTerm rf
              then max (m_commitIndex rf) (ae_prevlogindex args + int (length (ae_entries args)))
              else m_commitIndex rf)\<rparr>)"

lemma reply_success:
  assumes "m_status rf = Leader" "aer_term reply = m_currentTerm rf" "aer_appstate reply = AppNormal"
    and "aer_success reply" and wf: "raft_wf rf" and i: "i < m_npeers rf" and k: "k < length (m_counters rf)"
    and m: "m_matchIndex rf ! i \<le> getLastLogIndex rf"
      "ae_prevlogindex args + int (length (ae_entries args)) \<le> getLastLogIndex rf"
  shows "sendAppendEntries_reply i args (Some reply) k rf = Inr (acked i args k rf) \<and> raft_wf (acked i args k rf)"
proof -
  have len: "length (m_nextIndex rf) = m_npeers rf" "length (m_matchIndex rf) = m_npeers rf"
    and ci: "m_commitIndex rf \<le> getLastLogIndex rf" using wf by (simp_all add: raft_wf_def)
  let ?m = "max (m_matchIndex rf ! i) (ae_prevlogindex args + int (length (ae_entries args)))"
  let ?c = "m_counters rf ! k + 1"
  let ?rf1 = "rf\<lparr>m_counters := (m_counters rf)[k := ?c],
    m_matchIndex := (m_matchIndex rf)[i := ?m], m_nextIndex := (m_nextIndex rf)[i := ?m + 1]\<rparr>"
  have li: "getLastLogIndex (rf\<lparr>m_counters := a, m_matchIndex := b, m_nextIndex := c, m_commitIndex := d\<rparr>)
      = getLastLogIndex rf" "getLastLogIndex (rf\<lparr>m_counters := a, m_matchIndex := b, m_nextIndex := c\<rparr>)
      = getLastLogIndex rf" for a b c d
    by (rule same_log_simps(2); simp add: same_log_def)+
  have g: "vec_get (m_counters rf) (int k) = Inr (m_counters rf ! k)"
    "vec_get (m_matchIndex rf) (int i) = Inr (m_matchIndex rf ! i)"
    "vec_set (m_matchIndex rf) (int i) v = Inr ((m_matchIndex rf)[i := v])"
    "vec_set (m_nextIndex rf) (int i) v = Inr ((m_nextIndex rf)[i := v])" for v
    using k i len by (simp_all add: vec_get_def vec_set_def)
  have "sendAppendEntries_reply i args (Some reply) k rf = commitReplicated args k ?rf1"
    using assms(1-4) m g li
    by (simp add: sendAppendEntries_reply_def AppNormal_def Disconnected_def myAssert_def Let_def)
  also have "\<dots> = Inr (acked i args k rf)"
  proof (cases "?c \<ge> int (1 + m_npeers rf div 2)")
    case False
    with k have "commitReplicated args k ?rf1 = Inr ?rf1" by (simp add: commitReplicated_def)
    moreover have "?rf1 = acked i args k rf"
      by (rule Raft.Raft.equality) (use False in \<open>simp_all add: acked_def Let_def\<close>)
    ultimately show ?thesis by simp
  next
    case True
    let ?rf2 = "?rf1\<lparr>m_counters := (m_counters ?rf1)[k := 0]\<rparr>"
    let ?rf3 = "if ae_entries args \<noteq> [] \<and> logterm (last (ae_entries args)) = m_currentTerm ?rf2
                   then ?rf2\<lparr>m_commitIndex := max (m_commitIndex ?rf2)
                           (ae_prevlogindex args + int (length (ae_entries args)))\<rparr>
                   else ?rf2"
    have "same_log rf ?rf3" by (simp add: same_log_def)
    then have "getLastLogIndex ?rf3 = getLastLogIndex rf" by (rule same_log_simps(2))
    then have "m_commitIndex ?rf3 \<le> getLastLogIndex ?rf3" using ci m by simp
    moreover have "m_counters ?rf1 ! k \<ge> int (1 + m_npeers ?rf1 div 2)" using True k by simp
    ultimately have "commitReplicated args k ?rf1 = Inr ?rf3"
      unfolding commitReplicated_def Let_def myAssert_def by (simp only: if_True guardE_True bindE_Inr)
    moreover have "?rf3 = acked i args k rf"
      by (rule Raft.Raft.equality) (use True k in \<open>simp_all add: acked_def Let_def\<close>)
    ultimately show ?thesis by simp
  qed
  finally have "sendAppendEntries_reply i args (Some reply) k rf = Inr (acked i args k rf)" .
  moreover have "raft_wf (acked i args k rf)"
    by (rule raft_wf_frame [OF _ _ _ _ _ _ _ _ wf])
      (use ci m in \<open>auto simp: acked_def Let_def same_log_def\<close>)
  ultimately show ?thesis by blast
qed

section \<open>The commit rule of \<open>leaderUpdateCommitIndex\<close>\<close>

definition replicas :: "Raft \<Rightarrow> int \<Rightarrow> nat set" where
  "replicas rf j = {i. i < m_npeers rf \<and> (i = m_me rf \<or> m_matchIndex rf ! i \<ge> j)}"

definition committable :: "Raft \<Rightarrow> int \<Rightarrow> bool" where
  "committable rf j \<longleftrightarrow> m_npeers rf div 2 + 1 \<le> card (replicas rf j) \<and> term_at rf j = Some (m_currentTerm rf)"

lemma countReplicas_wf:
  assumes "length (m_matchIndex rf) = m_npeers rf"
  shows "countReplicas rf j = Inr (card (replicas rf j))"
proof -
  let ?f = "\<lambda>i sum. if i = m_me rf then Inr (sum + 1)
                   else bindE (vec_get (m_matchIndex rf) (int i)) (\<lambda>m.
                        Inr (if m \<ge> j then sum + 1 else sum)) :: raft_error + nat"
  let ?P = "\<lambda>i. i = m_me rf \<or> m_matchIndex rf ! i \<ge> j"
  have "foldE ?f [0 ..< k] 0 = Inr (card {i. i < k \<and> ?P i})" if "k \<le> m_npeers rf" for k
    using that
  proof (induction k)
    case 0
    then show ?case by simp
  next
    case (Suc k)
    have "{i. i < Suc k \<and> ?P i} = (if ?P k then insert k {i. i < k \<and> ?P i} else {i. i < k \<and> ?P i})"
      by (auto simp: less_Suc_eq)
    with Suc assms show ?case by (auto simp: foldE_append vec_get_def)
  qed
  then show ?thesis by (simp add: countReplicas_def replicas_def)
qed

lemma commitScan_wf:
  assumes wf: "log_wf rf" and len: "length (m_matchIndex rf) = m_npeers rf"
    and "index \<le> getLastLogIndex rf" "int n = index - m_lastSnapshotIncludeIndex rf"
  shows "\<exists>c. commitScan rf n index = Inr c \<and> m_lastSnapshotIncludeIndex rf \<le> c \<and> c \<le> index
    \<and> (m_lastSnapshotIncludeIndex rf < c \<longrightarrow> committable rf c)
    \<and> (\<forall>j. c < j \<and> j \<le> index \<longrightarrow> \<not> committable rf j)"
  using assms(3,4)
proof (induction n arbitrary: index)
  case 0
  then show ?case by auto
next
  case (Suc n)
  obtain t where t: "term_at rf index = Some t"
    using term_at_Some_iff [OF wf, of index] Suc.prems by auto
  have ok: "(if card (replicas rf index) \<ge> m_npeers rf div 2 + 1
            then bindE (getLogTermFromLogIndex rf index) (\<lambda>t. Inr (t = m_currentTerm rf))
            else Inr False) = Inr (committable rf index)"
    by (simp add: committable_def t getLogTerm_wf [OF wf t])
  show ?case
  proof (cases "committable rf index")
    case True
    with ok Suc.prems show ?thesis by (auto simp: countReplicas_wf [OF len] simp del: bindE_eq_Inr)
  next
    case False
    from Suc.IH [of "index - 1"] Suc.prems obtain c where c: "commitScan rf n (index - 1) = Inr c"
      "m_lastSnapshotIncludeIndex rf \<le> c" "c \<le> index - 1" "m_lastSnapshotIncludeIndex rf < c \<longrightarrow> committable rf c"
      "\<forall>j. c < j \<and> j \<le> index - 1 \<longrightarrow> \<not> committable rf j" by auto
    have "\<not> committable rf j" if "c < j" "j \<le> index" for j
      using c(5) that False by (cases "j = index") auto
    moreover have "commitScan rf (Suc n) index = Inr c"
      using ok False c(1) by (simp add: countReplicas_wf [OF len])
    ultimately show ?thesis using c(2-4) by auto
  qed
qed

lemma leaderUpdateCommitIndex_wf:
  assumes "raft_wf rf"
  shows "\<exists>c. leaderUpdateCommitIndex rf = Inr (rf\<lparr>m_commitIndex := c\<rparr>)
    \<and> m_lastSnapshotIncludeIndex rf \<le> c \<and> c \<le> getLastLogIndex rf
    \<and> (m_lastSnapshotIncludeIndex rf < c \<longrightarrow> committable rf c)
    \<and> (\<forall>j. c < j \<and> j \<le> getLastLogIndex rf \<longrightarrow> \<not> committable rf j)"
proof -
  have wf: "log_wf rf" "length (m_matchIndex rf) = m_npeers rf" using assms by (simp_all add: raft_wf_def)
  have "int (nat (getLastLogIndex rf - m_lastSnapshotIncludeIndex rf))
      = getLastLogIndex rf - m_lastSnapshotIncludeIndex rf"
    using last_index_wf [OF wf(1)] by simp
  from commitScan_wf [OF wf order_refl this] show ?thesis
    by (auto simp: leaderUpdateCommitIndex_def)
qed

end
