(* ===== verification/RaftService.thy ===== *)
theory RaftService
  imports RaftLeader
begin

text \<open>
  The side of a node that faces the service: applying committed entries, compacting the log behind a
  snapshot, installing a snapshot from the leader, starting agreement on a command, and what the
  persistent state brings back.
\<close>

section \<open>Applying\<close>

definition apply_msg :: "Raft \<Rightarrow> int \<Rightarrow> ApplyMsg" where
  "apply_msg rf i = ApplyMsg_new\<lparr>CommandValid := True, SnapshotValid := False,
     Command := command (the (entry_at rf i)), CommandIndex := i\<rparr>"

lemma applyLoop_wf:
  assumes "log_wf rf" "m_lastSnapshotIncludeIndex rf \<le> m_lastApplied rf"
    and "m_lastApplied rf + int n \<le> getLastLogIndex rf"
  shows "applyLoop n rf ms = Inr (ms @ map (apply_msg rf) [m_lastApplied rf + 1 .. m_lastApplied rf + int n],
    rf\<lparr>m_lastApplied := m_lastApplied rf + int n\<rparr>)"
  using assms
proof (induction n arbitrary: rf ms)
  case 0
  then show ?case by simp
next
  case (Suc n)
  let ?a = "m_lastApplied rf + 1"
  let ?rf = "rf\<lparr>m_lastApplied := ?a\<rparr>"
  have sl: "same_log rf ?rf" by (simp add: same_log_def)
  note same = same_log_simps [OF sl]
  obtain e where e: "entry_at rf ?a = Some e"
    using entry_at_None_iff [OF Suc.prems(1), of ?a] Suc.prems(2,3) by fastforce
  have at: "logAt ?rf ?a = Inr e" using logAt_wf [OF Suc.prems(1) e] same(7) by simp
  have idx: "logindex e = ?a" using entry_at_index [OF Suc.prems(1) e] by simp
  have msg: "apply_msg ?rf = apply_msg rf" by (simp add: apply_msg_def same(4) fun_eq_iff)
  have IH: "applyLoop n ?rf ms' = Inr (ms' @ map (apply_msg rf) [?a + 1 .. ?a + int n],
      ?rf\<lparr>m_lastApplied := ?a + int n\<rparr>)" for ms'
    using Suc.IH [of ?rf ms'] Suc.prems same(2,6) msg by simp
  have up: "[?a .. m_lastApplied rf + int (Suc n)] = ?a # [?a + 1 .. ?a + int n]"
    by (subst upto.simps) (simp add: algebra_simps)
  show ?case
    unfolding applyLoop.simps Let_def using at idx IH up e
    by (simp add: myAssert_def apply_msg_def algebra_simps)
qed

lemma getApplyLogs_wf:
  assumes "raft_wf rf"
  shows "getApplyLogs rf = Inr (map (apply_msg rf) [m_lastApplied rf + 1 .. m_commitIndex rf],
    rf\<lparr>m_lastApplied := max (m_lastApplied rf) (m_commitIndex rf)\<rparr>)"
proof -
  let ?n = "nat (m_commitIndex rf - m_lastApplied rf)"
  have wf: "log_wf rf" "m_lastSnapshotIncludeIndex rf \<le> m_lastApplied rf"
    "m_lastApplied rf + int ?n \<le> getLastLogIndex rf" "m_commitIndex rf \<le> getLastLogIndex rf"
    using assms by (auto simp: raft_wf_def)
  have n: "m_lastApplied rf + int ?n = max (m_lastApplied rf) (m_commitIndex rf)" by auto
  have u: "[m_lastApplied rf + 1 .. max (m_lastApplied rf) (m_commitIndex rf)]
      = [m_lastApplied rf + 1 .. m_commitIndex rf]" by (auto simp: max_def)
  show ?thesis
    using applyLoop_wf [OF wf(1-3), of "[]"] wf(4) unfolding n u
    by (simp add: getApplyLogs_def myAssert_def)
qed

lemma fold_Push: "fold Push ms q = q @ ms"
  by (induction ms arbitrary: q) (simp_all add: Push_def)

section \<open>Compaction\<close>

text \<open>The log above an index of it, with a new snapshot index.\<close>

lemma compacted_log:
  assumes wf: "log_wf rf" and i: "m_lastSnapshotIncludeIndex rf \<le> index" "index \<le> getLastLogIndex rf"
    and rf': "m_logs rf' = log_from rf (index + 1)" "m_lastSnapshotIncludeIndex rf' = index"
  shows "log_wf rf' \<and> getLastLogIndex rf' = getLastLogIndex rf
    \<and> (\<forall>j. entry_at rf' j = (if j \<le> index then None else entry_at rf j))"
proof -
  have wf': "log_wf rf'"
    using log_from_contiguous [OF wf, of "index + 1"] i rf' unfolding log_wf_def contiguous_def by simp
  have len: "int (length (log_from rf (index + 1))) = getLastLogIndex rf - index"
    using log_from_length [OF wf, of "index + 1"] i by simp
  have last: "getLastLogIndex rf' = getLastLogIndex rf"
    using last_index_wf [OF wf'] len rf' by simp
  have "entry_at rf' j = entry_at rf j" if "index < j" "j \<le> getLastLogIndex rf" for j
  proof -
    from that have "0 < nat (j - index)" by simp
    then have "log_from rf (index + 1) ! nat (j - (index + 1)) = log_from rf (index + 1) ! nat (j - index - 1)"
      by (simp add: algebra_simps)
    with that log_from_nth [OF wf, of "index + 1" j] i len rf' show ?thesis
      by (simp add: entry_at_def)
  qed
  moreover have "entry_at rf' j = None" if "j \<le> index \<or> getLastLogIndex rf < j" for j
    using entry_at_None_iff [OF wf', of j] last rf' that by auto
  moreover have "entry_at rf j = None" if "getLastLogIndex rf < j" for j
    using entry_at_None_iff [OF wf] that by blast
  ultimately have "entry_at rf' j = (if j \<le> index then None else entry_at rf j)" for j
    by (cases "j \<le> index"; cases "j \<le> getLastLogIndex rf") auto
  with wf' last show ?thesis by blast
qed

lemma collect_log:
  assumes wf: "log_wf rf" and i: "m_lastSnapshotIncludeIndex rf < i" "i \<le> getLastLogIndex rf + 1"
  shows "foldE (\<lambda>i ls. bindE (logAt rf i) (\<lambda>x. Inr (ls @ [x]))) [i .. getLastLogIndex rf] acc
    = Inr (acc @ log_from rf i)"
  using i
proof (induction "nat (getLastLogIndex rf + 1 - i)" arbitrary: i acc)
  case 0
  then show ?case using log_from_length [OF wf, of i] by simp
next
  case (Suc n)
  then have le: "i \<le> getLastLogIndex rf" by simp
  let ?k = "nat (i - m_lastSnapshotIncludeIndex rf - 1)"
  have k: "?k < length (m_logs rf)" using le last_index_wf [OF wf] Suc.prems(1) by simp
  have e: "entry_at rf i = Some (m_logs rf ! ?k)" using log_from_nth [OF wf Suc.prems(1) order_refl le] k
    by (simp add: log_from_def)
  have split: "log_from rf i = m_logs rf ! ?k # log_from rf (i + 1)"
  proof -
    have "Suc ?k = nat (i + 1 - m_lastSnapshotIncludeIndex rf - 1)" using Suc.prems(1) by simp
    with k show ?thesis by (metis Cons_nth_drop_Suc log_from_def)
  qed
  have up: "[i .. getLastLogIndex rf] = i # [i + 1 .. getLastLogIndex rf]" using le by (simp add: upto_rec1)
  have "n = nat (getLastLogIndex rf + 1 - (i + 1))" using Suc.hyps(2) by simp
  from Suc.hyps(1) [OF this] Suc.prems le show ?case
    by (simp add: up split logAt_wf [OF wf e])
qed

text \<open>The state after a snapshot the service took.\<close>

definition compacted :: "env \<Rightarrow> int \<Rightarrow> int \<Rightarrow> string \<Rightarrow> Raft \<Rightarrow> Raft \<Rightarrow> bool" where
  "compacted ev index trm snapshot rf rf' \<longleftrightarrow> m_lastSnapshotIncludeIndex rf' = index
     \<and> m_lastSnapshotIncludeTerm rf' = trm \<and> m_commitIndex rf' = max (m_commitIndex rf) index
     \<and> m_lastApplied rf' = max (m_lastApplied rf) index
     \<and> m_persister rf' = map_option (Save (spill ev) (persistData ev rf') snapshot) (m_persister rf)
     \<and> m_currentTerm rf' = m_currentTerm rf \<and> m_votedFor rf' = m_votedFor rf"

lemma persistData_fields:
  "m_currentTerm rf' = m_currentTerm rf \<Longrightarrow> m_votedFor rf' = m_votedFor rf \<Longrightarrow> same_log rf rf'
    \<Longrightarrow> persistData ev rf' = persistData ev rf"
  by (simp add: persistData_def same_log_def)

lemma Snapshot_wf:
  assumes wf: "raft_wf rf" and i: "m_lastSnapshotIncludeIndex rf < index" "index \<le> m_commitIndex rf"
  shows "\<exists>rf'. Snapshot ev index snapshot rf = Inr rf' \<and> compacted ev index (the (term_at rf index)) snapshot rf rf'
    \<and> raft_wf rf' \<and> m_logs rf' = log_from rf (index + 1)"
proof -
  have lw: "log_wf rf" and ci: "m_commitIndex rf \<le> getLastLogIndex rf" using wf by (simp_all add: raft_wf_def)
  obtain p where p: "m_persister rf = Some p" using wf by (auto simp: raft_wf_def)
  obtain e where e: "entry_at rf index = Some e"
    using entry_at_None_iff [OF lw, of index] i ci by fastforce
  then have t: "logterm e = the (term_at rf index)" using i by (simp add: term_at_def)
  have logs: "foldE (\<lambda>i ls. bindE (logAt rf i) (\<lambda>x. Inr (ls @ [x]))) [index + 1 .. getLastLogIndex rf] []
      = Inr (log_from rf (index + 1))"
    using collect_log [OF lw, of "index + 1" "[]"] i ci by simp
  define rf1 where "rf1 = rf\<lparr>m_lastSnapshotIncludeIndex := index, m_lastSnapshotIncludeTerm := logterm e,
     m_logs := log_from rf (index + 1), m_commitIndex := max (m_commitIndex rf) index,
     m_lastApplied := max (m_lastApplied rf) index\<rparr>"
  define rf2 where "rf2 = rf1\<lparr>m_persister := Some (Save (spill ev) (persistData ev rf1) snapshot p)\<rparr>"
  have cl: "log_wf rf2 \<and> getLastLogIndex rf2 = getLastLogIndex rf
      \<and> (\<forall>j. entry_at rf2 j = (if j \<le> index then None else entry_at rf j))"
    by (rule compacted_log [OF lw]) (use i ci in \<open>simp_all add: rf2_def rf1_def\<close>)
  have len: "int (length (m_logs rf2)) + m_lastSnapshotIncludeIndex rf2 = getLastLogIndex rf"
    using last_index_wf [of rf2] cl by simp
  have "saveSnapshot ev snapshot rf1 = Inr rf2" using p by (simp add: saveSnapshot_def rf2_def rf1_def)
  then have "Snapshot ev index snapshot rf = Inr rf2"
    unfolding Snapshot_def Let_def logAt_wf [OF lw e] logs bindE_Inr rf1_def [symmetric]
    using i len by (simp add: myAssert_def)
  moreover have "compacted ev index (the (term_at rf index)) snapshot rf rf2"
    unfolding compacted_def using p t
    by (simp add: rf2_def rf1_def persistData_def)
  moreover have "raft_wf rf2" using cl wf i ci unfolding raft_wf_def by (auto simp: rf2_def rf1_def)
  ultimately show ?thesis by (auto simp: rf2_def rf1_def)
qed

lemma Snapshot_refused:
  "index \<le> m_lastSnapshotIncludeIndex rf \<or> m_commitIndex rf < index \<Longrightarrow> Snapshot ev index snapshot rf = Inr rf"
  by (auto simp: Snapshot_def)

section \<open>Installing the leader's snapshot\<close>

lemma InstallSnapshot_stale:
  "is_term args < m_currentTerm rf \<Longrightarrow> InstallSnapshot ev now args rf = Inr (\<lparr>isr_term = m_currentTerm rf\<rparr>, rf)"
  by (simp add: InstallSnapshot_def InstallSnapshotResponse_new_def)

text \<open>The state as a follower of the sender, before the snapshot itself is looked at.\<close>

definition follow_snapshot :: "env \<Rightarrow> int \<Rightarrow> InstallSnapshotRequest \<Rightarrow> Raft \<Rightarrow> Raft" where
  "follow_snapshot ev now args rf =
     (if is_term args > m_currentTerm rf
      then persist ev (rf\<lparr>m_currentTerm := is_term args, m_votedFor := -1, m_status := Follower\<rparr>) else rf)
     \<lparr>m_status := Follower, m_lastResetElectionTime := now\<rparr>"

lemma follow_snapshot_simps [simp]:
  "same_log rf (follow_snapshot ev now args rf)"
  "m_currentTerm (follow_snapshot ev now args rf) = max (m_currentTerm rf) (is_term args)"
  "m_status (follow_snapshot ev now args rf) = Follower"
  "m_commitIndex (follow_snapshot ev now args rf) = m_commitIndex rf"
  "m_lastApplied (follow_snapshot ev now args rf) = m_lastApplied rf"
  "m_tasks (follow_snapshot ev now args rf) = m_tasks rf"
  "m_npeers (follow_snapshot ev now args rf) = m_npeers rf" "m_me (follow_snapshot ev now args rf) = m_me rf"
  "m_nextIndex (follow_snapshot ev now args rf) = m_nextIndex rf"
  "m_matchIndex (follow_snapshot ev now args rf) = m_matchIndex rf"
  "(m_persister (follow_snapshot ev now args rf) = None) = (m_persister rf = None)"
  by (auto simp: follow_snapshot_def same_log_def)

lemma InstallSnapshot_current:
  "is_term args \<ge> m_currentTerm rf \<Longrightarrow> InstallSnapshot ev now args rf =
     (let rf2 = follow_snapshot ev now args rf in
      if is_lastsnapshotincludeindex args \<le> m_lastSnapshotIncludeIndex rf2 then Inr (InstallSnapshotResponse_new, rf2)
      else
          bindE (if getLastLogIndex rf2 > is_lastsnapshotincludeindex args
                 then bindE (getSlicesIndexFromLogIndex rf2 (is_lastsnapshotincludeindex args)) (\<lambda>k.
                        Inr (drop (nat (k + 1)) (m_logs rf2)))
                 else Inr []) (\<lambda>logs'.
          let rf3 = rf2\<lparr>m_logs := logs',
                m_commitIndex := max (m_commitIndex rf2) (is_lastsnapshotincludeindex args),
                m_lastApplied := max (m_lastApplied rf2) (is_lastsnapshotincludeindex args),
                m_lastSnapshotIncludeIndex := is_lastsnapshotincludeindex args,
                m_lastSnapshotIncludeTerm := is_lastsnapshotincludeterm args\<rparr>;
              msg = ApplyMsg_new\<lparr>SnapshotValid := True, Snapshot_data := is_data args,
                SnapshotTerm := is_lastsnapshotincludeterm args,
                SnapshotIndex := is_lastsnapshotincludeindex args\<rparr>;
              rf4 = rf3\<lparr>m_tasks := m_tasks rf3 @ [PushMsgToKvServer msg]\<rparr> in
          bindE (saveSnapshot ev (is_data args) rf4) (\<lambda>rf5.
          Inr (InstallSnapshotResponse_new\<lparr>isr_term := m_currentTerm rf3\<rparr>, rf5))))"
  unfolding InstallSnapshot_def follow_snapshot_def Let_def by (simp only: if_False not_less [symmetric])

lemma InstallSnapshot_wf:
  assumes wf: "raft_wf rf" and t: "is_term args \<ge> m_currentTerm rf"
    and i: "m_lastSnapshotIncludeIndex rf < is_lastsnapshotincludeindex args"
  shows "\<exists>rf'. InstallSnapshot ev now args rf = Inr (\<lparr>isr_term = is_term args\<rparr>, rf') \<and> raft_wf rf'
    \<and> m_lastSnapshotIncludeIndex rf' = is_lastsnapshotincludeindex args
    \<and> m_lastSnapshotIncludeTerm rf' = is_lastsnapshotincludeterm args
    \<and> m_logs rf' = log_from rf (is_lastsnapshotincludeindex args + 1)
    \<and> m_lastApplied rf' = max (m_lastApplied rf) (is_lastsnapshotincludeindex args)
    \<and> m_commitIndex rf' = max (m_commitIndex rf) (is_lastsnapshotincludeindex args)
    \<and> m_tasks rf' = m_tasks rf @ [PushMsgToKvServer (ApplyMsg_new\<lparr>SnapshotValid := True,
        Snapshot_data := is_data args, SnapshotTerm := is_lastsnapshotincludeterm args,
        SnapshotIndex := is_lastsnapshotincludeindex args\<rparr>)]"
proof -
  let ?i = "is_lastsnapshotincludeindex args"
  let ?rf2 = "follow_snapshot ev now args rf"
  have sl: "same_log rf ?rf2" by simp
  note same = same_log_simps [OF sl]
  have lw: "log_wf rf" using wf by (simp add: raft_wf_def)
  have fields: "m_logs ?rf2 = m_logs rf" "m_lastSnapshotIncludeIndex ?rf2 = m_lastSnapshotIncludeIndex rf"
    using sl by (simp_all add: same_log_def)
  have logs: "(if getLastLogIndex ?rf2 > ?i
      then bindE (getSlicesIndexFromLogIndex ?rf2 ?i) (\<lambda>k. Inr (drop (nat (k + 1)) (m_logs ?rf2)))
      else Inr []) = (Inr (log_from rf (?i + 1)) :: raft_error + LogEntry list)"
  proof (cases "getLastLogIndex rf > ?i")
    case True
    with slices_wf [OF lw i] same(2,11) fields show ?thesis by (simp add: log_from_def algebra_simps)
  next
    case False
    with last_index_wf [OF lw] have "length (m_logs rf) \<le> nat (?i - m_lastSnapshotIncludeIndex rf)" by simp
    then have "log_from rf (?i + 1) = []" by (simp add: log_from_def)
    with False same(2) show ?thesis by simp
  qed
  obtain p where p: "m_persister ?rf2 = Some p" using wf by (cases "m_persister ?rf2") (auto simp: raft_wf_def)
  let ?msg = "ApplyMsg_new\<lparr>SnapshotValid := True, Snapshot_data := is_data args,
     SnapshotTerm := is_lastsnapshotincludeterm args, SnapshotIndex := ?i\<rparr>"
  define rf4 where "rf4 = ?rf2\<lparr>m_logs := log_from rf (?i + 1),
     m_commitIndex := max (m_commitIndex ?rf2) ?i, m_lastApplied := max (m_lastApplied ?rf2) ?i,
     m_lastSnapshotIncludeIndex := ?i, m_lastSnapshotIncludeTerm := is_lastsnapshotincludeterm args,
     m_tasks := m_tasks ?rf2 @ [PushMsgToKvServer ?msg]\<rparr>"
  define rf5 where "rf5 = rf4\<lparr>m_persister := Some (Save (spill ev) (persistData ev rf4) (is_data args) p)\<rparr>"
  have "saveSnapshot ev (is_data args) rf4 = Inr rf5" using p by (simp add: saveSnapshot_def rf5_def rf4_def)
  then have "InstallSnapshot ev now args rf = Inr (\<lparr>isr_term = is_term args\<rparr>, rf5)"
    unfolding InstallSnapshot_current [OF t] Let_def logs using i t fields
    by (simp add: rf4_def InstallSnapshotResponse_new_def)
  moreover have "log_wf rf5"
    using log_from_contiguous [OF lw, of "?i + 1"] i unfolding log_wf_def contiguous_def
    by (simp add: rf5_def rf4_def)
  moreover have last: "getLastLogIndex rf5 = max (getLastLogIndex rf) ?i"
  proof (cases "?i \<le> getLastLogIndex rf")
    case True
    with log_from_length [OF lw, of "?i + 1"] i last_index_wf [OF \<open>log_wf rf5\<close>] show ?thesis
      by (simp add: rf5_def rf4_def)
  next
    case False
    with last_index_wf [OF lw] have "length (m_logs rf) \<le> nat (?i - m_lastSnapshotIncludeIndex rf)" by simp
    then have "m_logs rf5 = []" by (simp add: rf5_def rf4_def log_from_def)
    with False last_index_wf [OF \<open>log_wf rf5\<close>] show ?thesis by (simp add: rf5_def rf4_def)
  qed
  moreover have "raft_wf rf5"
    using \<open>log_wf rf5\<close> wf i unfolding raft_wf_def last by (auto simp: rf5_def rf4_def)
  ultimately show ?thesis by (auto simp: rf5_def rf4_def)
qed

section \<open>Starting agreement\<close>

lemma Start_wf:
  assumes wf: "raft_wf rf" and l: "m_status rf = Leader"
  shows "\<exists>rf' c. Start ev cmd rf = Inr ((getLastLogIndex rf + 1, m_currentTerm rf, True), rf')
    \<and> raft_wf rf' \<and> m_logs rf' = m_logs rf @ [\<lparr>command = cmd, logterm = m_currentTerm rf,
        logindex = getLastLogIndex rf + 1\<rparr>]
    \<and> rf' = (persist ev (rf\<lparr>m_logs := m_logs rf'\<rparr>))\<lparr>m_commitIndex := c\<rparr>
    \<and> (c = m_lastSnapshotIncludeIndex rf \<or> committable rf' c)"
proof -
  let ?e = "\<lparr>command = cmd, logterm = m_currentTerm rf, logindex = getLastLogIndex rf + 1\<rparr>"
  let ?rf0 = "rf\<lparr>m_logs := m_logs rf @ [?e]\<rparr>"
  let ?rf1 = "persist ev ?rf0"
  have lw: "log_wf ?rf0" using wf by (intro log_wf_append) (simp_all add: raft_wf_def)
  have last: "getLastLogIndex ?rf0 = getLastLogIndex rf + 1"
    by (simp add: getLastLogIndex_def getLastLogIndexAndTerm_def)
  have "raft_wf ?rf0" using wf lw last by (auto simp: raft_wf_def)
  then have wf1: "raft_wf ?rf1" by simp
  obtain c where c: "leaderUpdateCommitIndex ?rf1 = Inr (?rf1\<lparr>m_commitIndex := c\<rparr>)"
    "c \<le> getLastLogIndex ?rf1" "m_lastSnapshotIncludeIndex ?rf1 \<le> c"
    "m_lastSnapshotIncludeIndex ?rf1 < c \<longrightarrow> committable ?rf1 c"
    using leaderUpdateCommitIndex_wf [OF wf1] by blast
  let ?rf2 = "?rf1\<lparr>m_commitIndex := c\<rparr>"
  have sl: "same_log ?rf1 ?rf2" by (simp add: same_log_def)
  have "raft_wf ?rf2" by (rule raft_wf_frame [OF sl _ _ _ _ _ _ _ wf1]) (use c in auto)
  moreover have "committable ?rf2 c = committable ?rf1 c"
    using same_log_simps(5) [OF sl] by (simp add: committable_def replicas_def)
  moreover have "Start ev cmd rf = Inr ((getLastLogIndex rf + 1, m_currentTerm rf, True), ?rf2)"
    using l c(1) by (simp add: Start_def getNewCommandIndex_def)
  ultimately show ?thesis using c by (intro exI [of _ ?rf2] exI [of _ c]) auto
qed

section \<open>What comes back from the archive\<close>

definition persistent_part :: "env \<Rightarrow> Raft \<Rightarrow> BoostPersistRaftNode" where
  "persistent_part ev rf = \<lparr>b_currentTerm = m_currentTerm rf, b_votedFor = m_votedFor rf,
      b_lastSnapshotIncludeIndex = m_lastSnapshotIncludeIndex rf,
      b_lastSnapshotIncludeTerm = m_lastSnapshotIncludeTerm rf,
      b_logs = map (SerializeAsString ev) (m_logs rf)\<rparr>"

lemma readPersist_persistData:
  assumes "text_iarchive ev (text_oarchive ev (persistent_part ev rf)) = Some (persistent_part ev rf)"
    and "text_oarchive ev (persistent_part ev rf) \<noteq> []"
    and "\<forall>e \<in> set (m_logs rf). ParseFromString ev (SerializeAsString ev e) = e"
  shows "readPersist ev (persistData ev rf) rf0 =
    Inr (rf0\<lparr>m_currentTerm := m_currentTerm rf, m_votedFor := m_votedFor rf,
            m_lastSnapshotIncludeIndex := m_lastSnapshotIncludeIndex rf,
            m_lastSnapshotIncludeTerm := m_lastSnapshotIncludeTerm rf, m_logs := m_logs rf\<rparr>)"
proof -
  have "persistData ev rf = text_oarchive ev (persistent_part ev rf)"
    by (simp add: persistData_def persistent_part_def)
  moreover have "map (ParseFromString ev) (b_logs (persistent_part ev rf)) = m_logs rf"
    using assms(3) by (simp add: persistent_part_def o_def map_idI)
  ultimately show ?thesis using assms(1,2) by (simp add: readPersist_def) (simp add: persistent_part_def)
qed

end
