(* ===== verification/RaftVote.thy ===== *)
theory RaftVote
  imports RaftFrame
begin

text \<open>
  Elections on one node: \<open>RequestVote\<close> on every branch, the start of an election and the counting of
  the answers.
\<close>

section \<open>Granting a vote\<close>

definition grants :: "Raft \<Rightarrow> RequestVoteArgs \<Rightarrow> bool" where
  "grants rf args \<longleftrightarrow> rv_term args \<ge> m_currentTerm rf
     \<and> UpToDate rf (rv_lastlogindex args) (rv_lastlogterm args)
     \<and> (rv_term args > m_currentTerm rf \<or> m_votedFor rf = -1 \<or> m_votedFor rf = rv_candidateid args)"

lemma UpToDate_fields:
  "m_logs rf' = m_logs rf \<Longrightarrow> m_lastSnapshotIncludeIndex rf' = m_lastSnapshotIncludeIndex rf
    \<Longrightarrow> m_lastSnapshotIncludeTerm rf' = m_lastSnapshotIncludeTerm rf \<Longrightarrow> UpToDate rf' = UpToDate rf"
  by (rule same_log_simps) (simp add: same_log_def)

lemma RequestVote_cases:
  obtains reply rf2 where "RequestVote ev now args rf = Inr (reply, persist ev rf2)"
    "same_log rf rf2" "m_me rf2 = m_me rf" "m_npeers rf2 = m_npeers rf" "m_tasks rf2 = m_tasks rf"
    "m_counters rf2 = m_counters rf" "m_nextIndex rf2 = m_nextIndex rf" "m_matchIndex rf2 = m_matchIndex rf"
    "m_commitIndex rf2 = m_commitIndex rf" "m_lastApplied rf2 = m_lastApplied rf"
    "m_persister rf2 = m_persister rf"
    "m_currentTerm rf2 = max (m_currentTerm rf) (rv_term args)" "rvr_term reply = m_currentTerm rf2"
    "rvr_votegranted reply = grants rf args"
    "m_votedFor rf2 = (if grants rf args then rv_candidateid args
       else if rv_term args > m_currentTerm rf then -1 else m_votedFor rf)"
    "m_status rf2 = (if rv_term args > m_currentTerm rf then Follower else m_status rf)"
proof (cases "rv_term args < m_currentTerm rf")
  case True
  then have "RequestVote ev now args rf
    = Inr (\<lparr>rvr_term = m_currentTerm rf, rvr_votegranted = False, rvr_votestate = Expire\<rparr>, persist ev rf)"
    "\<not> grants rf args"
    by (simp_all add: RequestVote_def grants_def)
  with True show ?thesis by (intro that) (auto simp: same_log_def)
next
  case False
  define rf1 where "rf1 = (if rv_term args > m_currentTerm rf
    then rf\<lparr>m_status := Follower, m_currentTerm := rv_term args, m_votedFor := -1\<rparr> else rf)"
  define rf2 where "rf2 = (if grants rf args
    then rf1\<lparr>m_votedFor := rv_candidateid args, m_lastResetElectionTime := now\<rparr> else rf1)"
  define reply where "reply = \<lparr>rvr_term = rv_term args, rvr_votegranted = grants rf args,
    rvr_votestate = (if grants rf args then Normal else Voted)\<rparr>"
  have t: "m_currentTerm rf1 = rv_term args" using False by (simp add: rf1_def)
  have u: "UpToDate rf1 = UpToDate rf" by (rule UpToDate_fields) (simp_all add: rf1_def)
  have v: "m_votedFor rf1 = (if rv_term args > m_currentTerm rf then -1 else m_votedFor rf)"
    by (simp add: rf1_def)
  have g: "grants rf args \<longleftrightarrow> UpToDate rf1 (rv_lastlogindex args) (rv_lastlogterm args)
      \<and> \<not> (m_votedFor rf1 \<noteq> -1 \<and> m_votedFor rf1 \<noteq> rv_candidateid args)"
    using False by (auto simp: grants_def u v)
  have "RequestVote ev now args rf = Inr (reply, persist ev rf2)"
    unfolding RequestVote_def Let_def rf1_def [symmetric] using False t
    by (simp add: myAssert_def reply_def rf2_def g)
  moreover have "m_currentTerm rf2 = max (m_currentTerm rf) (rv_term args)"
    using False by (simp add: rf2_def rf1_def)
  ultimately show ?thesis using False
    by (intro that [of reply rf2]) (auto simp: rf2_def rf1_def same_log_def reply_def)
qed

section \<open>Standing for election and counting\<close>

lemma resetLeaderArrays_ok:
  assumes "length (m_nextIndex rf) = n" "length (m_matchIndex rf) = n"
  shows "resetLeaderArrays n nxt rf = Inr (rf\<lparr>m_nextIndex := replicate n nxt, m_matchIndex := replicate n 0\<rparr>)"
proof -
  let ?f = "\<lambda>i r. bindE (vec_set (m_nextIndex r) (int i) nxt) (\<lambda>ni.
                 bindE (vec_set (m_matchIndex r) (int i) 0) (\<lambda>mi.
                 Inr (r\<lparr>m_nextIndex := ni, m_matchIndex := mi\<rparr>)))"
  have "foldE ?f [0 ..< k] rf = Inr (rf\<lparr>m_nextIndex := replicate k nxt @ drop k (m_nextIndex rf),
      m_matchIndex := replicate k 0 @ drop k (m_matchIndex rf)\<rparr>)" if "k \<le> n" for k
    using that
  proof (induction k)
    case 0
    then show ?case by simp
  next
    case (Suc k)
    have upd: "(replicate k v @ drop k xs)[k := v] = replicate (Suc k) v @ drop (Suc k) xs"
      if "k < length xs" for v :: int and xs
      using that by (simp add: list_update_append Cons_nth_drop_Suc [symmetric] replicate_append_same)
    have d: "int k < int (length (replicate k v @ drop k xs))" if "length xs = n" for v :: int and xs
      using that Suc.prems by simp
    show ?case using Suc assms
      by (simp add: foldE_append vec_set_def upd del: append_assoc replicate.simps)
  qed
  from this [of n] assms show ?thesis by (simp add: resetLeaderArrays_def)
qed

text \<open>
  Standing for election: a new term, the own vote, one counter at one, and a request to every peer;
  a node without peers leads at once.
\<close>

lemma doElection_cases:
  assumes "length (m_nextIndex rf) = m_npeers rf" "length (m_matchIndex rf) = m_npeers rf"
  obtains (leader) "m_status rf = Leader" "doElection ev now rf = Inr rf"
  | (stand) rf' where "m_status rf \<noteq> Leader" "doElection ev now rf = Inr rf'" "same_log rf rf'"
      "m_me rf' = m_me rf" "m_npeers rf' = m_npeers rf" "m_currentTerm rf' = m_currentTerm rf + 1"
      "m_votedFor rf' = int (m_me rf)" "m_counters rf' = m_counters rf @ [1]"
      "length (m_nextIndex rf') = m_npeers rf" "length (m_matchIndex rf') = m_npeers rf"
      "m_status rf' = (if m_npeers rf = 1 then Leader else Candidate)"
      "m_tasks rf' = m_tasks rf @ (if m_npeers rf = 1 then [DoHeartBeat] else
         map (\<lambda>i. SendRequestVote i \<lparr>rv_term = m_currentTerm rf + 1, rv_candidateid = int (m_me rf),
                rv_lastlogindex = getLastLogIndex rf, rv_lastlogterm = getLastLogTerm rf\<rparr> (length (m_counters rf)))
           (filter (\<lambda>i. i \<noteq> m_me rf) [0 ..< m_npeers rf]))"
      "m_lastApplied rf' = m_lastApplied rf" "m_commitIndex rf' = m_commitIndex rf"
      "(m_persister rf' = None) = (m_persister rf = None)"
proof (cases "m_status rf = Leader")
  case True
  then show ?thesis by (intro leader) (simp_all add: doElection_def)
next
  case False
  define rf1 where "rf1 = persist ev (rf\<lparr>m_status := Candidate, m_currentTerm := m_currentTerm rf + 1,
                                 m_votedFor := int (m_me rf)\<rparr>)"
  define rf2 where "rf2 = rf1\<lparr>m_counters := m_counters rf1 @ [1], m_lastResetElectionTime := now\<rparr>"
  have de: "doElection ev now rf = (if m_npeers rf2 = 1 then
          bindE (resetLeaderArrays (m_npeers rf2) (getLastLogIndex rf2 + 1)
                   (rf2\<lparr>m_status := Leader\<rparr>)) (\<lambda>rf3.
          Inr (persist ev (rf3\<lparr>m_tasks := m_tasks rf3 @ [DoHeartBeat]\<rparr>)))
        else
          Inr (rf2\<lparr>m_tasks := m_tasks rf2 @
                 map (\<lambda>i. SendRequestVote i (requestVoteArgs rf2) (length (m_counters rf1)))
                   (filter (\<lambda>i. i \<noteq> m_me rf2) [0 ..< m_npeers rf2])\<rparr>))"
    unfolding doElection_def Let_def rf1_def rf2_def using False by (simp only: if_False)
  have f [simp]: "m_me rf2 = m_me rf" "m_npeers rf2 = m_npeers rf" "m_currentTerm rf2 = m_currentTerm rf + 1"
    "m_votedFor rf2 = int (m_me rf)" "m_counters rf2 = m_counters rf @ [1]" "m_status rf2 = Candidate"
    "m_nextIndex rf2 = m_nextIndex rf" "m_matchIndex rf2 = m_matchIndex rf" "m_tasks rf2 = m_tasks rf"
    "m_counters rf1 = m_counters rf" "m_logs rf2 = m_logs rf"
    "m_lastSnapshotIncludeIndex rf2 = m_lastSnapshotIncludeIndex rf"
    "m_lastSnapshotIncludeTerm rf2 = m_lastSnapshotIncludeTerm rf"
    "m_lastApplied rf2 = m_lastApplied rf" "m_commitIndex rf2 = m_commitIndex rf"
    "(m_persister rf2 = None) = (m_persister rf = None)"
    by (simp_all add: rf2_def rf1_def)
  have li: "getLastLogIndexAndTerm rf2 = getLastLogIndexAndTerm rf"
    by (rule same_log_simps) (simp add: same_log_def)
  have args: "requestVoteArgs rf2 = \<lparr>rv_term = m_currentTerm rf + 1, rv_candidateid = int (m_me rf),
      rv_lastlogindex = getLastLogIndex rf, rv_lastlogterm = getLastLogTerm rf\<rparr>"
    by (simp add: requestVoteArgs_def li getLastLogIndex_def getLastLogTerm_def)
  show ?thesis
  proof (cases "m_npeers rf = 1")
    case True
    have "resetLeaderArrays (m_npeers rf2) (getLastLogIndex rf2 + 1) (rf2\<lparr>m_status := Leader\<rparr>)
      = Inr (rf2\<lparr>m_status := Leader, m_nextIndex := replicate (m_npeers rf) (getLastLogIndex rf2 + 1),
                 m_matchIndex := replicate (m_npeers rf) 0\<rparr>)" (is "_ = Inr ?rf3")
      by (subst resetLeaderArrays_ok) (simp_all add: assms)
    then have "doElection ev now rf = Inr (persist ev (?rf3\<lparr>m_tasks := m_tasks rf @ [DoHeartBeat]\<rparr>))"
      unfolding de using True by simp
    from stand [OF False this] show ?thesis using True by (simp add: same_log_def)
  next
    case npeers: False
    have "doElection ev now rf = Inr (rf2\<lparr>m_tasks := m_tasks rf2 @
                 map (\<lambda>i. SendRequestVote i (requestVoteArgs rf2) (length (m_counters rf1)))
                   (filter (\<lambda>i. i \<noteq> m_me rf2) [0 ..< m_npeers rf2])\<rparr>)"
      unfolding de using npeers by simp
    from stand [OF False this] show ?thesis using npeers by (simp add: same_log_def args assms)
  qed
qed

text \<open>Counting an answer.\<close>

lemma sendRequestVote_reply_cases:
  assumes lens: "length (m_nextIndex rf) = m_npeers rf" "length (m_matchIndex rf) = m_npeers rf"
    and k: "k < length (m_counters rf)"
  obtains (newer) rf' where "sendRequestVote_reply ev (Some reply) k rf = Inr rf'"
      "rvr_term reply > m_currentTerm rf" "calm rf rf'" "m_counters rf' = m_counters rf" "m_tasks rf' = m_tasks rf"
      "m_status rf' = Follower" "same_log rf rf'"
      "m_lastApplied rf' = m_lastApplied rf" "m_commitIndex rf' = m_commitIndex rf"
      "(m_persister rf' = None) = (m_persister rf = None)"
  | (ignored) "sendRequestVote_reply ev (Some reply) k rf = Inr rf"
      "\<not> (rvr_term reply = m_currentTerm rf \<and> rvr_votegranted reply)"
  | (counted) "sendRequestVote_reply ev (Some reply) k rf
        = Inr (rf\<lparr>m_counters := (m_counters rf)[k := m_counters rf ! k + 1]\<rparr>)"
      "rvr_term reply = m_currentTerm rf" "rvr_votegranted reply"
      "m_counters rf ! k + 1 < int (m_npeers rf div 2 + 1)"
  | (twice) "sendRequestVote_reply ev (Some reply) k rf = Inl AssertFailed"
      "rvr_term reply = m_currentTerm rf" "rvr_votegranted reply" "m_status rf = Leader"
      "m_counters rf ! k + 1 \<ge> int (m_npeers rf div 2 + 1)"
  | (elected) rf' where "sendRequestVote_reply ev (Some reply) k rf = Inr rf'"
      "rvr_term reply = m_currentTerm rf" "rvr_votegranted reply" "m_status rf \<noteq> Leader"
      "m_counters rf ! k + 1 \<ge> int (m_npeers rf div 2 + 1)"
      "m_me rf' = m_me rf" "m_npeers rf' = m_npeers rf" "m_currentTerm rf' = m_currentTerm rf"
      "m_votedFor rf' = m_votedFor rf" "m_counters rf' = (m_counters rf)[k := 0]"
      "length (m_nextIndex rf') = m_npeers rf" "length (m_matchIndex rf') = m_npeers rf"
      "m_status rf' = Leader" "m_tasks rf' = m_tasks rf @ [DoHeartBeat]" "same_log rf rf'"
      "m_lastApplied rf' = m_lastApplied rf" "m_commitIndex rf' = m_commitIndex rf"
      "(m_persister rf' = None) = (m_persister rf = None)"
proof -
  consider "rvr_term reply > m_currentTerm rf"
    | "rvr_term reply < m_currentTerm rf \<or> (rvr_term reply = m_currentTerm rf \<and> \<not> rvr_votegranted reply)"
    | (vote) "rvr_term reply = m_currentTerm rf" "rvr_votegranted reply" by linarith
  then show ?thesis
  proof cases
    case 1
    let ?rf = "persist ev (rf\<lparr>m_status := Follower, m_currentTerm := rvr_term reply, m_votedFor := -1\<rparr>)"
    from 1 have "sendRequestVote_reply ev (Some reply) k rf = Inr ?rf" by (simp add: sendRequestVote_reply_def)
    from newer [OF this 1] 1 show ?thesis by (simp add: calm_def same_log_def)
  next
    case 2
    then show ?thesis by (intro ignored) (auto simp: sendRequestVote_reply_def myAssert_def)
  next
    case vote
    have g: "vec_get (m_counters rf) (int k) = Inr (m_counters rf ! k)" using k by (simp add: vec_get_def)
    show ?thesis
    proof (cases "m_counters rf ! k + 1 \<ge> int (m_npeers rf div 2 + 1)")
      case False
      with vote g show ?thesis
        by (intro counted) (auto simp: sendRequestVote_reply_def myAssert_def Let_def)
    next
      case True
      show ?thesis
      proof (cases "m_status rf = Leader")
        case leads: True
        with True vote g show ?thesis
          by (intro twice) (auto simp: sendRequestVote_reply_def myAssert_def Let_def)
      next
        case False
        let ?rf2 = "rf\<lparr>m_counters := (m_counters rf)[k := m_counters rf ! k + 1, k := 0]\<rparr>"
        have "resetLeaderArrays (length (m_nextIndex ?rf2)) (getLastLogIndex ?rf2 + 1) (?rf2\<lparr>m_status := Leader\<rparr>)
          = Inr (?rf2\<lparr>m_status := Leader, m_nextIndex := replicate (m_npeers rf) (getLastLogIndex ?rf2 + 1),
                      m_matchIndex := replicate (m_npeers rf) 0\<rparr>)" (is "_ = Inr ?rf3")
          by (subst resetLeaderArrays_ok) (simp_all add: lens)
        then have "sendRequestVote_reply ev (Some reply) k rf
            = Inr (persist ev (?rf3\<lparr>m_tasks := m_tasks rf @ [DoHeartBeat]\<rparr>))"
          using True False vote g by (simp add: sendRequestVote_reply_def myAssert_def Let_def)
        from elected [OF this vote False True] show ?thesis by (simp add: same_log_def)
      qed
    qed
  qed
qed

end
