(* ===== verification/RaftInv.thy ===== *)
theory RaftInv
  imports RaftService RaftVote
begin

text \<open>
  The invariant of a node under every operation of the code, for messages that some leader could
  have built: consecutive entries in an append request. Everything else in a message is arbitrary.
\<close>

section \<open>Operations of a node\<close>

inductive operation :: "env \<Rightarrow> Raft \<Rightarrow> Raft \<Rightarrow> bool" for ev where
  election: "electionTick ev wakeTime now rf = Inr rf' \<Longrightarrow> operation ev rf rf'"
| vote: "RequestVote ev now vargs rf = Inr (vreply, rf') \<Longrightarrow> operation ev rf rf'"
| ballot: "k < length (m_counters rf) \<Longrightarrow> sendRequestVote_reply ev mvreply k rf = Inr rf' \<Longrightarrow> operation ev rf rf'"
| append: "ae_wf args \<Longrightarrow> AppendEntries ev now args rf = Inr (reply, rf') \<Longrightarrow> operation ev rf rf'"
| install: "InstallSnapshot ev now sargs rf = Inr (sreply, rf') \<Longrightarrow> operation ev rf rf'"
| heartbeat: "heartBeatTick wakeTime now rf = Inr rf' \<Longrightarrow> operation ev rf rf'"
| acknowledge: "sendAppendEntries_reply server args mreply k rf = Inr rf' \<Longrightarrow> operation ev rf rf'"
| send_snapshot: "leaderSendSnapShot_request rf = Inr (sargs, rf') \<Longrightarrow> operation ev rf rf'"
| snapshot_done: "leaderSendSnapShot_reply ev now server sargs msreply rf = Inr rf' \<Longrightarrow> operation ev rf rf'"
| agree: "Start ev cmd rf = Inr (res, rf') \<Longrightarrow> operation ev rf rf'"
| applying: "applierTick rf = Inr rf' \<Longrightarrow> operation ev rf rf'"
| pushing: "operation ev rf (pushMsgToKvServer msg rf)"
| compact: "Snapshot ev index snapshot rf = Inr rf' \<Longrightarrow> operation ev rf rf'"

section \<open>Each keeps the node well formed\<close>

lemma appendEntry_Inr_compatible:
  assumes "log_wf rf" "m_lastSnapshotIncludeIndex rf < logindex e" "appendEntry e rf = Inr rf'"
  shows "compatible rf [e]"
  unfolding compatible_def
proof (intro ballI allI impI)
  fix x e' assume "x \<in> set [e]" "entry_at rf (logindex x) = Some e' \<and> logterm e' = logterm x"
  then have e': "entry_at rf (logindex e) = Some e'" "logterm e' = logterm e" and x: "x = e" by auto
  then have "\<not> logindex e > getLastLogIndex rf" using entry_at_index [OF assms(1) e'(1)] by simp
  with assms(3) logAt_wf [OF assms(1) e'(1)] e'(2) have "command e' = command e"
    by (auto simp: appendEntry_def myAssert_def result_simps split: if_split_asm)
  with x show "command e' = command x" by simp
qed

lemma appendEntries_Inr_wf:
  assumes "log_wf rf" "contiguous i es" "m_lastSnapshotIncludeIndex rf < i" "i \<le> getLastLogIndex rf + 1"
    and "foldE appendEntry es rf = Inr rf'"
  shows "\<exists>logs. rf' = rf\<lparr>m_logs := logs\<rparr> \<and> log_wf rf' \<and> getLastLogIndex rf \<le> getLastLogIndex rf'"
  using assms
proof (induction es arbitrary: rf i)
  case Nil
  then show ?case by (intro exI [of _ "m_logs rf"]) simp
next
  case (Cons e es)
  from Cons.prems(5) obtain rf1 where 1: "appendEntry e rf = Inr rf1" "foldE appendEntry es rf1 = Inr rf'"
    by (auto simp: result_simps)
  from Cons.prems(2) have e: "logindex e = i" "contiguous (i + 1) es" by simp_all
  have c: "compatible rf [e]"
    by (rule appendEntry_Inr_compatible [OF Cons.prems(1) _ 1(1)]) (use e Cons.prems(3) in simp)
  from appendEntry_wf [OF Cons.prems(1) c] e Cons.prems(3,4) 1(1) obtain logs where
    l: "rf1 = rf\<lparr>m_logs := logs\<rparr>" "log_wf rf1" "getLastLogIndex rf1 = max (getLastLogIndex rf) i" by auto
  from Cons.IH [OF l(2) e(2) _ _ 1(2)] Cons.prems(3) l obtain logs' where
    "rf' = rf1\<lparr>m_logs := logs'\<rparr>" "log_wf rf'" "getLastLogIndex rf1 \<le> getLastLogIndex rf'" by auto
  with l show ?case by auto
qed

lemma appendToLog_Inr_wf:
  assumes wf: "raft_wf rf" and ae: "ae_wf args" and r: "appendToLog args reply rf = Inr (reply', rf')"
  shows "raft_wf rf'"
proof -
  have lw: "log_wf rf" using wf by (simp add: raft_wf_def)
  from r obtain matched where m: "matchLog rf (ae_prevlogindex args) (ae_prevlogterm args) = Inr matched"
    unfolding appendToLog_def by (auto simp: result_simps)
  then have prev: "m_lastSnapshotIncludeIndex rf \<le> ae_prevlogindex args" "ae_prevlogindex args \<le> getLastLogIndex rf"
    by (auto simp: matchLog_def result_simps myAssert_def)
  show ?thesis
  proof (cases matched)
    case False
    with r m show ?thesis using wf unfolding appendToLog_def by (auto simp: result_simps)
  next
    case True
    with r m obtain rf1 where f: "foldE appendEntry (ae_entries args) rf = Inr rf1"
      unfolding appendToLog_def by (auto simp: result_simps)
    from appendEntries_Inr_wf [OF lw ae [unfolded ae_wf_def] _ _ f] prev obtain logs where
      l: "rf1 = rf\<lparr>m_logs := logs\<rparr>" "log_wf rf1" "getLastLogIndex rf \<le> getLastLogIndex rf1" by auto
    define rf2 where "rf2 = (if ae_leadercommit args > m_commitIndex rf1
                  then rf1\<lparr>m_commitIndex := min (ae_leadercommit args) (getLastLogIndex rf1)\<rparr> else rf1)"
    have rf': "rf' = rf2"
      using r unfolding appendToLog_def m using True f
      by (simp add: Let_def result_simps rf2_def [symmetric])
    have "same_log rf1 rf2" by (simp add: rf2_def same_log_def)
    note sl = same_log_simps(2,6) [OF this]
    have "m_commitIndex rf2 \<le> getLastLogIndex rf1"
      using wf l by (auto simp: rf2_def raft_wf_def)
    with wf l sl show ?thesis unfolding rf' raft_wf_def
      by (auto simp: rf2_def)
  qed
qed

lemma follow_wf: "raft_wf rf \<Longrightarrow> raft_wf (follow now args rf)"
  by (rule raft_wf_frame [of rf]) (auto simp: raft_wf_def)

lemma AppendEntries_keeps_wf:
  assumes wf: "raft_wf rf" and ae: "ae_wf args" and r: "AppendEntries ev now args rf = Inr (reply, rf')"
  shows "raft_wf rf'"
proof (cases "ae_term args < m_currentTerm rf")
  case True
  with r wf show ?thesis by (simp add: AppendEntries_stale)
next
  case False
  then have ge: "ae_term args \<ge> m_currentTerm rf" by simp
  from r show ?thesis unfolding AppendEntries_current [OF ge] Let_def
    using follow_wf [OF wf] appendToLog_Inr_wf [OF follow_wf [OF wf] ae]
    by (auto simp: result_simps split: if_split_asm)
qed

lemma commitReplicated_keeps_wf:
  assumes wf: "raft_wf rf" and r: "commitReplicated args k rf = Inr rf'"
  shows "raft_wf rf'"
proof (cases "m_counters rf ! k \<ge> int (1 + m_npeers rf div 2)")
  case False
  with r wf show ?thesis by (simp add: commitReplicated_def)
next
  case True
  let ?rf2 = "rf\<lparr>m_counters := (m_counters rf)[k := 0]\<rparr>"
  define rf3 where "rf3 = (if ae_entries args \<noteq> [] \<and> logterm (last (ae_entries args)) = m_currentTerm ?rf2
                   then ?rf2\<lparr>m_commitIndex := max (m_commitIndex ?rf2)
                           (ae_prevlogindex args + int (length (ae_entries args)))\<rparr> else ?rf2)"
  have rf': "rf' = rf3" and c: "m_commitIndex rf3 \<le> getLastLogIndex rf3"
    using r True unfolding commitReplicated_def Let_def rf3_def [symmetric]
    by (auto simp: result_simps myAssert_def)
  have sl: "same_log rf rf3" by (simp add: rf3_def same_log_def)
  show ?thesis unfolding rf'
    by (rule raft_wf_frame [OF sl _ _ _ _ _ _ _ wf]) (use c same_log_simps(2) [OF sl] in \<open>auto simp: rf3_def\<close>)
qed

lemma same_log_wf:
  assumes "raft_wf rf" "same_log rf rf'" "calm rf rf'" "m_lastApplied rf' = m_lastApplied rf"
    and "m_commitIndex rf' = m_commitIndex rf" "m_persister rf' = None \<longleftrightarrow> m_persister rf = None"
  shows "raft_wf rf'"
  by (rule raft_wf_frame [OF assms(2) _ _ assms(4) _ _ _ assms(6,1)])
    (use assms in \<open>auto simp: calm_def raft_wf_def\<close>)

lemma sendAppendEntries_reply_keeps_wf:
  assumes wf: "raft_wf rf" and r: "sendAppendEntries_reply server args mreply k rf = Inr rf'"
  shows "raft_wf rf'"
proof (cases mreply)
  case None
  with r wf show ?thesis by (simp add: sendAppendEntries_reply_def)
next
  case (Some reply)
  consider (quiet) "aer_appstate reply = Disconnected \<or> aer_term reply < m_currentTerm rf \<or> m_status rf \<noteq> Leader"
      "\<not> (aer_appstate reply \<noteq> Disconnected \<and> aer_term reply > m_currentTerm rf)"
    | (newer) "aer_appstate reply \<noteq> Disconnected" "aer_term reply > m_currentTerm rf"
    | (reject) "aer_appstate reply \<noteq> Disconnected" "aer_term reply = m_currentTerm rf"
        "m_status rf = Leader" "\<not> aer_success reply"
    | (accept) "aer_appstate reply \<noteq> Disconnected" "aer_term reply = m_currentTerm rf"
        "m_status rf = Leader" "aer_success reply"
    by linarith
  then show ?thesis
  proof cases
    case quiet
    with r Some wf show ?thesis by (auto simp: sendAppendEntries_reply_def split: if_split_asm)
  next
    case newer
    with r Some have "rf' = rf\<lparr>m_status := Follower, m_currentTerm := aer_term reply, m_votedFor := -1\<rparr>"
      by (simp add: sendAppendEntries_reply_def)
    then show ?thesis by (intro same_log_wf [OF wf]) (use newer in \<open>auto simp: same_log_def calm_def\<close>)
  next
    case reject
    with r Some wf show ?thesis
      by (auto simp: sendAppendEntries_reply_def result_simps split: if_split_asm dest!: vec_set_length
          intro!: same_log_wf [OF wf] simp: same_log_def calm_def)
  next
    case accept
    with r Some obtain c mi ni where *: "length mi = length (m_matchIndex rf)" "length ni = length (m_nextIndex rf)"
        "commitReplicated args k (rf\<lparr>m_counters := (m_counters rf)[k := c + 1], m_matchIndex := mi,
           m_nextIndex := ni\<rparr>) = Inr rf'"
      by (auto simp: sendAppendEntries_reply_def Let_def result_simps dest!: vec_set_length)
    have "raft_wf (rf\<lparr>m_counters := (m_counters rf)[k := c + 1], m_matchIndex := mi, m_nextIndex := ni\<rparr>)"
      by (rule same_log_wf [OF wf]) (use *(1,2) in \<open>auto simp: same_log_def calm_def\<close>)
    from commitReplicated_keeps_wf [OF this *(3)] show ?thesis .
  qed
qed

lemma InstallSnapshot_keeps_wf:
  assumes wf: "raft_wf rf" and r: "InstallSnapshot ev now args rf = Inr (reply, rf')"
  shows "raft_wf rf'"
proof (cases "is_term args < m_currentTerm rf")
  case True
  with r wf show ?thesis by (simp add: InstallSnapshot_stale)
next
  case False
  then have ge: "is_term args \<ge> m_currentTerm rf" by simp
  show ?thesis
  proof (cases "is_lastsnapshotincludeindex args \<le> m_lastSnapshotIncludeIndex rf")
    case True
    let ?rf2 = "follow_snapshot ev now args rf"
    have sl: "same_log rf ?rf2" by simp
    then have "m_lastSnapshotIncludeIndex ?rf2 = m_lastSnapshotIncludeIndex rf" by (simp add: same_log_def)
    with r True have "rf' = ?rf2" unfolding InstallSnapshot_current [OF ge] by (simp add: Let_def)
    then show ?thesis using raft_wf_frame [OF sl _ _ _ _ _ _ _ wf] wf by (simp add: raft_wf_def)
  next
    case False
    with InstallSnapshot_wf [OF wf ge, of ev now] r show ?thesis by auto
  qed
qed

lemma election_keeps_wf:
  assumes wf: "raft_wf rf" and r: "electionTick ev wakeTime now rf = Inr rf'"
  shows "raft_wf rf'"
proof (cases "m_lastResetElectionTime rf - wakeTime > 0")
  case True
  with r wf show ?thesis by (simp add: electionTick_def)
next
  case False
  have lens: "length (m_nextIndex rf) = m_npeers rf" "length (m_matchIndex rf) = m_npeers rf"
    using wf by (simp_all add: raft_wf_def)
  from False r have d: "doElection ev now rf = Inr rf'" by (simp add: electionTick_def)
  show ?thesis
  proof (cases rule: doElection_cases [OF lens, of ev now])
    case 1
    with d wf show ?thesis by simp
  next
    case (2 rf2)
    with d have "rf' = rf2" by simp
    note r2 = 2 [folded this]
    show ?thesis by (rule raft_wf_frame [OF r2(3) _ _ _ _ _ _ _ wf]) (use r2 lens wf in \<open>auto simp: raft_wf_def\<close>)
  qed
qed

lemma RequestVote_keeps_wf:
  assumes wf: "raft_wf rf" and r: "RequestVote ev now args rf = Inr (reply, rf')"
  shows "raft_wf rf'"
proof (rule RequestVote_cases [of ev now args rf])
  fix reply' rf2
  assume eq: "RequestVote ev now args rf = Inr (reply', persist ev rf2)" and sl: "same_log rf rf2"
    and f: "m_me rf2 = m_me rf" "m_npeers rf2 = m_npeers rf" "m_nextIndex rf2 = m_nextIndex rf"
    "m_matchIndex rf2 = m_matchIndex rf" "m_commitIndex rf2 = m_commitIndex rf"
    "m_lastApplied rf2 = m_lastApplied rf" "m_persister rf2 = m_persister rf"
  from eq r have "rf' = persist ev rf2" by simp
  moreover have "raft_wf rf2" by (rule raft_wf_frame [OF sl _ _ _ _ _ _ _ wf]) (use f wf in \<open>auto simp: raft_wf_def\<close>)
  ultimately show "raft_wf rf'" by simp
qed

lemma sendRequestVote_reply_keeps_wf:
  assumes wf: "raft_wf rf" and k: "k < length (m_counters rf)"
    and r: "sendRequestVote_reply ev mreply k rf = Inr rf'"
  shows "raft_wf rf'"
proof (cases mreply)
  case None
  with r wf show ?thesis by (simp add: sendRequestVote_reply_def)
next
  case (Some reply)
  have lens: "length (m_nextIndex rf) = m_npeers rf" "length (m_matchIndex rf) = m_npeers rf"
    using wf by (simp_all add: raft_wf_def)
  show ?thesis
  proof (cases rule: sendRequestVote_reply_cases [OF lens k, of ev reply])
    case (1 rf2)
    with r Some have "rf' = rf2" by simp
    note r2 = 1 [folded this]
    show ?thesis by (rule same_log_wf [OF wf r2(7,3)]) (use r2 in auto)
  next
    case 2
    with r Some wf show ?thesis by simp
  next
    case 3
    with r Some have "rf' = rf\<lparr>m_counters := (m_counters rf)[k := m_counters rf ! k + 1]\<rparr>" by simp
    then show ?thesis by (intro same_log_wf [OF wf]) (auto simp: same_log_def calm_def)
  next
    case 4
    with r Some show ?thesis by simp
  next
    case (5 rf2)
    with r Some have "rf' = rf2" by simp
    note r2 = 5 [folded this]
    show ?thesis by (rule raft_wf_frame [OF r2(15) _ _ _ _ _ _ _ wf]) (use r2 lens wf in \<open>auto simp: raft_wf_def\<close>)
  qed
qed

lemma heartBeatTick_keeps_wf:
  assumes wf: "raft_wf rf" and r: "heartBeatTick wakeTime now rf = Inr rf'"
  shows "raft_wf rf'"
proof -
  have "doHeartBeat now rf = Inr rf' \<or> rf' = rf" using r by (auto simp: heartBeatTick_def split: if_split_asm)
  moreover have "raft_wf rf'" if hb: "doHeartBeat now rf = Inr rf'"
  proof (cases "m_status rf = Leader")
    case False
    with hb wf show ?thesis by (simp add: doHeartBeat_def)
  next
    case True
    from hb True obtain rf1 where "foldE (heartBeatTo (length (m_counters rf))) [0 ..< m_npeers rf]
        (rf\<lparr>m_counters := m_counters rf @ [1]\<rparr>) = Inr rf1" "rf' = rf1\<lparr>m_lastResetHearBeatTime := now\<rparr>"
      by (auto simp: doHeartBeat_def Let_def result_simps)
    with heartBeats_frame [OF this(1)] obtain ts where
      "rf' = rf\<lparr>m_counters := m_counters rf @ [1], m_tasks := m_tasks rf @ ts, m_lastResetHearBeatTime := now\<rparr>" by auto
    then show ?thesis
      by (intro raft_wf_frame [OF _ _ _ _ _ _ _ _ wf]) (use wf in \<open>auto simp: same_log_def raft_wf_def\<close>)
  qed
  ultimately show ?thesis using wf by auto
qed

lemma snapshot_messages_keep_wf:
  assumes wf: "raft_wf rf"
  shows "leaderSendSnapShot_request rf = Inr (sargs, rf') \<Longrightarrow> raft_wf rf'"
    "leaderSendSnapShot_reply ev now server args mreply rf = Inr rf' \<Longrightarrow> raft_wf rf'"
proof -
  assume "leaderSendSnapShot_request rf = Inr (sargs, rf')"
  then obtain p where "rf' = rf\<lparr>m_persister := Some p\<rparr>"
    by (auto simp: leaderSendSnapShot_request_def result_simps split_beta Let_def)
  then show "raft_wf rf'"
    by (intro raft_wf_frame [OF _ _ _ _ _ _ _ _ wf]) (use wf in \<open>auto simp: same_log_def raft_wf_def\<close>)
next
  assume r: "leaderSendSnapShot_reply ev now server args mreply rf = Inr rf'"
  have f: "same_log rf rf' \<and> m_lastApplied rf' = m_lastApplied rf \<and> m_commitIndex rf' = m_commitIndex rf
      \<and> (m_persister rf' = None \<longleftrightarrow> m_persister rf = None)"
    using r unfolding leaderSendSnapShot_reply_def
    by (auto simp: result_simps same_log_def split: option.splits if_split_asm)
  then show "raft_wf rf'" using leaderSendSnapShot_reply_calm [OF r] by (intro same_log_wf [OF wf]) auto
qed

lemma service_keeps_wf:
  assumes wf: "raft_wf rf"
  shows "Start ev cmd rf = Inr (res, rf') \<Longrightarrow> raft_wf rf'" "applierTick rf = Inr rf' \<Longrightarrow> raft_wf rf'"
    "raft_wf (pushMsgToKvServer msg rf)" "Snapshot ev index snapshot rf = Inr rf' \<Longrightarrow> raft_wf rf'"
proof -
  assume r: "Start ev cmd rf = Inr (res, rf')"
  show "raft_wf rf'"
  proof (cases "m_status rf = Leader")
    case True
    with Start_wf [OF wf, of ev cmd] r show ?thesis by auto
  next
    case False
    with r wf show ?thesis by (simp add: Start_def)
  qed
next
  assume "applierTick rf = Inr rf'"
  then have "rf' = rf\<lparr>m_lastApplied := max (m_lastApplied rf) (m_commitIndex rf),
      applyChan := fold Push (map (apply_msg rf) [m_lastApplied rf + 1 .. m_commitIndex rf]) (applyChan rf)\<rparr>"
    by (auto simp: applierTick_def getApplyLogs_wf [OF wf])
  moreover have "same_log rf (rf\<lparr>m_lastApplied := a, applyChan := c\<rparr>)" for a c by (simp add: same_log_def)
  ultimately show "raft_wf rf'"
    using wf same_log_simps(2,6) [of rf rf'] by (auto simp: raft_wf_def)
next
  show "raft_wf (pushMsgToKvServer msg rf)"
    by (rule raft_wf_frame [OF _ _ _ _ _ _ _ _ wf]) (use wf in \<open>auto simp: pushMsgToKvServer_def same_log_def raft_wf_def\<close>)
next
  assume r: "Snapshot ev index snapshot rf = Inr rf'"
  show "raft_wf rf'"
  proof (cases "index \<le> m_lastSnapshotIncludeIndex rf \<or> m_commitIndex rf < index")
    case True
    with r wf show ?thesis by (simp add: Snapshot_refused)
  next
    case False
    with Snapshot_wf [OF wf, of index ev snapshot] r show ?thesis by auto
  qed
qed

lemma operation_keeps_wf: "operation ev rf rf' \<Longrightarrow> raft_wf rf \<Longrightarrow> raft_wf rf'"
  by (erule operation.cases)
    (auto intro: election_keeps_wf RequestVote_keeps_wf sendRequestVote_reply_keeps_wf AppendEntries_keeps_wf
      InstallSnapshot_keeps_wf heartBeatTick_keeps_wf sendAppendEntries_reply_keeps_wf
      snapshot_messages_keep_wf service_keeps_wf)

end
