(* ===== verification/RaftSync.thy ===== *)
theory RaftSync
  imports RaftInv
begin

text \<open>
  Leader and follower together: a heartbeat message, the follower's handler and the leader's reply
  handler as one round, and the rounds it takes until the follower has the leader's log.
\<close>

section \<open>Rounds\<close>

definition sync_round :: "env \<Rightarrow> nat \<Rightarrow> nat \<Rightarrow> Raft \<times> Raft \<Rightarrow> raft_error + Raft \<times> Raft" where
  "sync_round ev i k lf =
     bindE (appendEntriesFor i (fst lf)) (\<lambda>args.
     bindE (AppendEntries ev 0 args (snd lf)) (\<lambda>(reply, f').
     bindE (sendAppendEntries_reply i args (Some reply) k (fst lf)) (\<lambda>l'. Inr (l', f'))))"

fun sync_rounds :: "env \<Rightarrow> nat \<Rightarrow> nat \<Rightarrow> nat \<Rightarrow> Raft \<times> Raft \<Rightarrow> raft_error + Raft \<times> Raft" where
  "sync_rounds ev i k 0 lf = Inr lf"
| "sync_rounds ev i k (Suc n) lf = bindE (sync_round ev i k lf) (sync_rounds ev i k n)"

text \<open>Raft's log matching property between two nodes.\<close>

definition log_matching :: "Raft \<Rightarrow> Raft \<Rightarrow> bool" where
  "log_matching f l \<longleftrightarrow> (\<forall>p. term_at f p \<noteq> None \<and> term_at f p = term_at l p
     \<longrightarrow> (\<forall>j \<le> p. entry_at f j = entry_at l j))"

text \<open>A leader and a follower that the leader may bring up to date without a snapshot.\<close>

definition can_sync :: "nat \<Rightarrow> nat \<Rightarrow> Raft \<Rightarrow> Raft \<Rightarrow> bool" where
  "can_sync i k l f \<longleftrightarrow> raft_wf l \<and> raft_wf f \<and> m_status l = Leader \<and> m_currentTerm f \<le> m_currentTerm l
     \<and> m_lastSnapshotIncludeIndex l = 0 \<and> m_lastSnapshotIncludeIndex f = 0
     \<and> m_lastSnapshotIncludeTerm f = m_lastSnapshotIncludeTerm l
     \<and> i < m_npeers l \<and> k < length (m_counters l)
     \<and> 1 \<le> m_nextIndex l ! i \<and> m_nextIndex l ! i \<le> getLastLogIndex l + 1
     \<and> m_matchIndex l ! i \<le> getLastLogIndex l \<and> log_matching f l"

definition synced :: "nat \<Rightarrow> Raft \<Rightarrow> Raft \<Rightarrow> bool" where
  "synced i l f \<longleftrightarrow> m_matchIndex l ! i = getLastLogIndex l \<and> m_nextIndex l ! i = getLastLogIndex l + 1
     \<and> (\<forall>j \<le> getLastLogIndex l. entry_at f j = entry_at l j)"

lemma log_matching_compatible:
  assumes "log_wf l" "log_wf f" "log_matching f l" "m_lastSnapshotIncludeIndex l < ni"
    "m_lastSnapshotIncludeIndex f = m_lastSnapshotIncludeIndex l"
  shows "compatible f (log_from l ni)"
  unfolding compatible_def
proof (intro ballI allI impI)
  fix e e' assume "e \<in> set (log_from l ni)" and e': "entry_at f (logindex e) = Some e' \<and> logterm e' = logterm e"
  then obtain q where q: "q < length (log_from l ni)" "log_from l ni ! q = e" by (auto simp: in_set_conv_nth)
  have idx: "logindex e = ni + int q"
    using log_from_contiguous [OF assms(1,4)] q by (auto simp: contiguous_def)
  have "q < length (m_logs l) - nat (ni - m_lastSnapshotIncludeIndex l - 1)"
    using q(1) by (simp add: log_from_def)
  then have "ni + int q \<le> getLastLogIndex l" using last_index_wf [OF assms(1)] assms(4) by linarith
  with log_from_nth [OF assms(1,4), of "ni + int q"] q idx have e: "entry_at l (logindex e) = Some e" by simp
  have "m_lastSnapshotIncludeIndex l < logindex e" using idx assms(4) by simp
  with e e' assms(5) have "term_at f (logindex e) = Some (logterm e)" "term_at l (logindex e) = Some (logterm e)"
    by (simp_all add: term_at_def)
  then have "entry_at f (logindex e) = entry_at l (logindex e)"
    using assms(3) unfolding log_matching_def by (metis option.distinct(1) order_refl)
  with e e' show "command e' = command e" by simp
qed

lemma follow_persist_can_sync:
  assumes "can_sync i k l f" "m_currentTerm l = ae_term args"
  shows "can_sync i k l (persist ev (follow now args f))"
proof -
  have sl: "same_log f (persist ev (follow now args f))"
    using follow_simps(1) [of f now args] by (simp add: same_log_def)
  note same = same_log_simps [OF sl]
  have "raft_wf (persist ev (follow now args f))"
    using assms(1) follow_wf by (simp add: can_sync_def)
  with assms sl same show ?thesis by (simp add: can_sync_def log_matching_def same_log_def)
qed

text \<open>One round either finishes or lowers the next index.\<close>

lemma sync_round_step:
  assumes c: "can_sync i k l f"
  shows "(\<exists>l' f'. sync_round ev i k (l, f) = Inr (l', f') \<and> synced i l' f' \<and> same_log l l')
    \<or> (\<exists>l' f'. sync_round ev i k (l, f) = Inr (l', f') \<and> can_sync i k l' f' \<and> same_log l l'
        \<and> m_nextIndex l' ! i < m_nextIndex l ! i)"
proof -
  let ?ni = "m_nextIndex l ! i"
  let ?args = "append_args l ?ni"
  have lw: "log_wf l" "log_wf f" and wf: "raft_wf l" "raft_wf f" and l: "m_status l = Leader"
    and t: "m_currentTerm f \<le> m_currentTerm l" and s: "m_lastSnapshotIncludeIndex l = 0" "m_lastSnapshotIncludeIndex f = 0"
    and ni: "1 \<le> ?ni" "?ni \<le> getLastLogIndex l + 1" and i: "i < m_npeers l" "i < length (m_nextIndex l)"
      "i < length (m_matchIndex l)"
    and k: "k < length (m_counters l)" and mi: "m_matchIndex l ! i \<le> getLastLogIndex l"
    and lm: "log_matching f l" and s0: "m_lastSnapshotIncludeTerm f = m_lastSnapshotIncludeTerm l"
    using c by (auto simp: can_sync_def raft_wf_def)
  have r: "m_lastSnapshotIncludeIndex l < ?ni" using s ni by simp
  have args: "appendEntriesFor i l = Inr ?args" by (rule appendEntriesFor_wf [OF lw(1) i(2) refl r ni(2)])
  have ae: "ae_wf ?args" by (rule append_args_wf [OF lw(1) r])
  have len: "ae_prevlogindex ?args + int (length (ae_entries ?args)) = getLastLogIndex l"
    using log_from_length [OF lw(1) r ni(2)] by (simp add: append_args_def)
  have f: "ae_term ?args = m_currentTerm l" "ae_prevlogindex ?args = ?ni - 1" "ae_entries ?args = log_from l ?ni"
    by (simp_all add: append_args_def)
  obtain tp where tp: "term_at l (?ni - 1) = Some tp" using term_at_Some_iff [OF lw(1), of "?ni - 1"] s ni by auto
  show ?thesis
  proof (cases "accepts f ?args")
    case True
    have "compatible f (ae_entries ?args)"
      unfolding f by (rule log_matching_compatible [OF lw lm r]) (use s in simp)
    from AppendEntries_accept [OF wf(2) True ae this, of ev 0] obtain reply logs f' where
      f': "f' = persist ev ((follow 0 ?args f)\<lparr>m_logs := logs,
         m_commitIndex := max (m_commitIndex f) (min (ae_leadercommit ?args)
            (max (getLastLogIndex f) (ae_prevlogindex ?args + int (length (ae_entries ?args)))))\<rparr>)" and
      a: "AppendEntries ev 0 ?args f = Inr (reply, f')" "aer_success reply" "aer_term reply = ae_term ?args"
        "aer_appstate reply = AppNormal"
        "entry_at (f\<lparr>m_logs := logs\<rparr>) = overlay (entry_at f) (ae_prevlogindex ?args + 1) (ae_entries ?args)"
      by blast
    have "same_log (f\<lparr>m_logs := logs\<rparr>) f'"
      using follow_simps(1) [of f 0 ?args] by (simp add: f' same_log_def)
    from same_log_simps(4) [OF this] a(5) f have ov: "entry_at f' = overlay (entry_at f) ?ni (log_from l ?ni)"
      by simp
    have rp: "sendAppendEntries_reply i ?args (Some reply) k l = Inr (acked i ?args k l)"
      "raft_wf (acked i ?args k l)"
      using reply_success [OF l _ a(4,2) wf(1) i(1) k mi] a(3) f len by auto
    have sl: "same_log l (acked i ?args k l)" by (simp add: acked_def Let_def same_log_def)
    have "term_at f (?ni - 1) = Some tp" using True tp f by (simp add: accepts_def append_args_def)
    with lm tp have pre: "entry_at f j = entry_at l j" if "j \<le> ?ni - 1" for j
      using that unfolding log_matching_def by (metis option.distinct(1))
    have "entry_at f' j = entry_at l j" if "j \<le> getLastLogIndex l" for j
    proof (cases "?ni \<le> j")
      case True
      with that log_from_nth [OF lw(1) r True that] log_from_length [OF lw(1) r ni(2)] show ?thesis
        by (simp add: ov overlay_def)
    next
      case False
      with pre show ?thesis by (simp add: ov overlay_def)
    qed
    then have "synced i (acked i ?args k l) f'"
      using same_log_simps(2,4) [OF sl] i mi len
      by (simp add: synced_def acked_def Let_def max_absorb2)
    with args a(1) rp sl show ?thesis by (auto simp: sync_round_def)
  next
    case False
    have ge: "ae_term ?args \<ge> m_currentTerm f" using t f by simp
    have pr: "m_lastSnapshotIncludeIndex f \<le> ae_prevlogindex ?args" using s ni f by simp
    have "?ni \<noteq> 1"
    proof
      assume "?ni = 1"
      with False ge s s0 tp show False by (simp add: accepts_def f term_at_def append_args_def)
    qed
    from AppendEntries_reject [OF lw(2) ge False pr, of ev 0] obtain reply where
      a: "AppendEntries ev 0 ?args f = Inr (reply, persist ev (follow 0 ?args f))" "\<not> aer_success reply"
        "aer_term reply = m_currentTerm l" "aer_appstate reply = AppNormal"
        "0 < aer_updatenextindex reply" "aer_updatenextindex reply < ?ni"
      using s ni f \<open>?ni \<noteq> 1\<close> by auto
    let ?l = "l\<lparr>m_nextIndex := (m_nextIndex l)[i := aer_updatenextindex reply]\<rparr>"
    have rp: "sendAppendEntries_reply i ?args (Some reply) k l = Inr ?l"
      by (rule reply_rejected) (use l a i in auto)
    have sl: "same_log l ?l" by (simp add: same_log_def)
    have "raft_wf ?l" by (rule raft_wf_frame [OF sl _ _ _ _ _ _ _ wf(1)]) (use wf(1) in \<open>auto simp: raft_wf_def\<close>)
    moreover have "can_sync i k l (persist ev (follow 0 ?args f))"
      by (rule follow_persist_can_sync [OF c]) (simp add: f)
    ultimately have "can_sync i k ?l (persist ev (follow 0 ?args f))"
      using same_log_simps(2,4,5) [OF sl] i a(5,6) ni
      by (simp add: can_sync_def log_matching_def)
    with args a rp sl i show ?thesis by (auto simp: sync_round_def)
  qed
qed

lemma sync_converges:
  assumes "can_sync i k l f"
  shows "\<exists>n \<le> nat (m_nextIndex l ! i). \<exists>l' f'. sync_rounds ev i k n (l, f) = Inr (l', f') \<and> synced i l' f' \<and> same_log l l'"
  using assms
proof (induction "nat (m_nextIndex l ! i)" arbitrary: l f rule: less_induct)
  case less
  have pos: "1 \<le> m_nextIndex l ! i" using less.prems by (simp add: can_sync_def)
  from sync_round_step [OF less.prems, of ev] show ?case
  proof (elim disjE exE conjE)
    fix l' f' assume "sync_round ev i k (l, f) = Inr (l', f')" "synced i l' f'" "same_log l l'"
    with pos show ?thesis by (intro exI [of _ "Suc 0"]) auto
  next
    fix l' f' assume r: "sync_round ev i k (l, f) = Inr (l', f')" "can_sync i k l' f'" "same_log l l'"
      "m_nextIndex l' ! i < m_nextIndex l ! i"
    have "nat (m_nextIndex l' ! i) < nat (m_nextIndex l ! i)" using r(4) pos by simp
    from less.hyps [OF this r(2)] obtain n l'' f'' where
      "n \<le> nat (m_nextIndex l' ! i)" "sync_rounds ev i k n (l', f') = Inr (l'', f'')" "synced i l'' f''" "same_log l' l''"
      by blast
    with r \<open>nat (m_nextIndex l' ! i) < nat (m_nextIndex l ! i)\<close> show ?thesis
      by (intro exI [of _ "Suc n"]) (auto simp: same_log_def)
  qed
qed

end
