(* ===== verification/Election.thy ===== *)
theory Election
  imports RaftVote "HOL-Library.Multiset"
begin

text \<open>
  A cluster of nodes: every handler of \<open>raft.cpp\<close> as a step of one node, vote requests and their
  answers travelling as the code sends them, and every other message arbitrary, whoever made it up.
  The invariant shows that votes are counted soundly, so a term has at most one leader.
\<close>

section \<open>The cluster\<close>

text \<open>
  \<open>answers s c\<close> are the replies on their way to node \<open>c\<close>: who answered, what, and the counter of the
  election. A task leaves \<open>m_tasks\<close> when the scheduler runs it.
\<close>

record Cluster =
  nodes :: "nat \<Rightarrow> Raft"
  answers :: "nat \<Rightarrow> (nat \<times> RequestVoteReply \<times> nat) list"

definition set_node :: "nat \<Rightarrow> Raft \<Rightarrow> Cluster \<Rightarrow> Cluster" where
  "set_node i rf s = s\<lparr>nodes := (nodes s)(i := rf)\<rparr>"

text \<open>Every node has just been started, from whatever its disk held.\<close>

definition started :: "nat \<Rightarrow> Cluster \<Rightarrow> bool" where
  "started n s \<longleftrightarrow> (\<forall>i < n. \<exists>ev now p ch. init ev now n i p ch = Inr (nodes s i)) \<and> (\<forall>c. answers s c = [])"

inductive step :: "env \<Rightarrow> nat \<Rightarrow> Cluster \<Rightarrow> Cluster \<Rightarrow> bool" for ev n where
  timeout: "i < n \<Longrightarrow> electionTick ev wakeTime now (nodes s i) = Inr rf \<Longrightarrow> step ev n s (set_node i rf s)"
| vote_request: "c < n \<Longrightarrow> m_tasks (nodes s c) = ts @ SendRequestVote i args k # ts' \<Longrightarrow> i < n \<Longrightarrow> i \<noteq> c
    \<Longrightarrow> RequestVote ev now args (nodes s i) = Inr (reply, rf)
    \<Longrightarrow> step ev n s (set_node c ((nodes s c)\<lparr>m_tasks := ts @ ts'\<rparr>) (set_node i rf s)
          \<lparr>answers := (answers s)(c := answers s c @ [(i, reply, k)])\<rparr>)"
| vote_answer: "c < n \<Longrightarrow> answers s c = as @ (i, reply, k) # as'
    \<Longrightarrow> sendRequestVote_reply ev (Some reply) k (nodes s c) = Inr rf
    \<Longrightarrow> step ev n s (set_node c rf s\<lparr>answers := (answers s)(c := as @ as')\<rparr>)"
| vote_request_lost: "c < n \<Longrightarrow> m_tasks (nodes s c) = ts @ SendRequestVote i args k # ts'
    \<Longrightarrow> sendRequestVote_reply ev None k ((nodes s c)\<lparr>m_tasks := ts @ ts'\<rparr>) = Inr rf
    \<Longrightarrow> step ev n s (set_node c rf s)"
| vote_answer_lost: "c < n \<Longrightarrow> answers s c = as @ (i, reply, k) # as'
    \<Longrightarrow> sendRequestVote_reply ev None k (nodes s c) = Inr rf
    \<Longrightarrow> step ev n s (set_node c rf s\<lparr>answers := (answers s)(c := as @ as')\<rparr>)"
| any_vote_request: "i < n \<Longrightarrow> RequestVote ev now args (nodes s i) = Inr (reply, rf)
    \<Longrightarrow> step ev n s (set_node i rf s)"
| append: "i < n \<Longrightarrow> AppendEntries ev now args (nodes s i) = Inr (reply, rf) \<Longrightarrow> step ev n s (set_node i rf s)"
| install: "i < n \<Longrightarrow> InstallSnapshot ev now args (nodes s i) = Inr (reply, rf) \<Longrightarrow> step ev n s (set_node i rf s)"
| heartbeat_tick: "i < n \<Longrightarrow> heartBeatTick wakeTime now (nodes s i) = Inr rf \<Longrightarrow> step ev n s (set_node i rf s)"
| heartbeat_task: "i < n \<Longrightarrow> m_tasks (nodes s i) = ts @ DoHeartBeat # ts'
    \<Longrightarrow> doHeartBeat now ((nodes s i)\<lparr>m_tasks := ts @ ts'\<rparr>) = Inr rf \<Longrightarrow> step ev n s (set_node i rf s)"
| append_answer: "i < n \<Longrightarrow> m_tasks (nodes s i) = ts @ SendAppendEntries j args k # ts'
    \<Longrightarrow> sendAppendEntries_reply j args mreply k ((nodes s i)\<lparr>m_tasks := ts @ ts'\<rparr>) = Inr rf
    \<Longrightarrow> step ev n s (set_node i rf s)"
| snapshot_request: "i < n \<Longrightarrow> m_tasks (nodes s i) = ts @ LeaderSendSnapShot j # ts'
    \<Longrightarrow> leaderSendSnapShot_request ((nodes s i)\<lparr>m_tasks := ts @ ts'\<rparr>) = Inr (args, rf)
    \<Longrightarrow> step ev n s (set_node i rf s)"
| snapshot_answer: "i < n \<Longrightarrow> leaderSendSnapShot_reply ev now j args mreply (nodes s i) = Inr rf
    \<Longrightarrow> step ev n s (set_node i rf s)"
| client: "i < n \<Longrightarrow> Start ev cmd (nodes s i) = Inr (r, rf) \<Longrightarrow> step ev n s (set_node i rf s)"
| applier: "i < n \<Longrightarrow> applierTick (nodes s i) = Inr rf \<Longrightarrow> step ev n s (set_node i rf s)"
| push: "i < n \<Longrightarrow> m_tasks (nodes s i) = ts @ PushMsgToKvServer m # ts'
    \<Longrightarrow> step ev n s (set_node i (pushMsgToKvServer m ((nodes s i)\<lparr>m_tasks := ts @ ts'\<rparr>)) s)"
| compact: "i < n \<Longrightarrow> Snapshot ev index snap (nodes s i) = Inr rf \<Longrightarrow> step ev n s (set_node i rf s)"

inductive reachable :: "env \<Rightarrow> nat \<Rightarrow> Cluster \<Rightarrow> bool" for ev n where
  start: "started n s \<Longrightarrow> reachable ev n s"
| further: "reachable ev n s \<Longrightarrow> step ev n s s' \<Longrightarrow> reachable ev n s'"

section \<open>The invariant\<close>

text \<open>Who is still to be heard about the election with counter \<open>k\<close>.\<close>

fun task_voter :: "nat \<Rightarrow> task \<Rightarrow> nat list" where
  "task_voter k (SendRequestVote i args k') = (if k' = k then [i] else [])"
| "task_voter k _ = []"

definition task_voters :: "nat \<Rightarrow> task list \<Rightarrow> nat list" where
  "task_voters k ts = concat (map (task_voter k) ts)"

definition answer_voters :: "nat \<Rightarrow> (nat \<times> RequestVoteReply \<times> nat) list \<Rightarrow> nat list" where
  "answer_voters k as = concat (map (\<lambda>(i, reply, k'). if k' = k then [i] else []) as)"

definition majority :: "nat \<Rightarrow> nat" where
  "majority n = n div 2 + 1"

text \<open>\<open>g\<close>: the votes given so far, as (term, voter, candidate).\<close>

definition votes :: "(int \<times> nat \<times> nat) set \<Rightarrow> int \<Rightarrow> nat \<Rightarrow> nat set" where
  "votes g T c = {v. (T, v, c) \<in> g}"

definition sound_votes :: "nat \<Rightarrow> (int \<times> nat \<times> nat) set \<Rightarrow> bool" where
  "sound_votes n g \<longleftrightarrow> (\<forall>T v c. (T, v, c) \<in> g \<longrightarrow> v < n)
     \<and> (\<forall>T v c c'. (T, v, c) \<in> g \<and> (T, v, c') \<in> g \<longrightarrow> c = c')"

text \<open>
  \<open>E k\<close> is the term of the election counted by \<open>k\<close>, \<open>S k\<close> the voters counted in it so far.
\<close>

definition counter_ok :: "nat \<Rightarrow> (int \<times> nat \<times> nat) set \<Rightarrow> nat \<Rightarrow> Raft
    \<Rightarrow> (nat \<times> RequestVoteReply \<times> nat) list \<Rightarrow> nat \<Rightarrow> int \<Rightarrow> nat set \<Rightarrow> bool" where
  "counter_ok n g i rf as k T V \<longleftrightarrow> k < length (m_counters rf) \<and> T \<le> m_currentTerm rf
     \<and> m_counters rf ! k \<le> int (card V) \<and> V \<subseteq> votes g T i
     \<and> (T = m_currentTerm rf \<and> m_status rf = Leader \<longrightarrow> m_counters rf ! k + int (majority n) \<le> int (card V))
     \<and> distinct (task_voters k (m_tasks rf) @ answer_voters k as)
     \<and> set (task_voters k (m_tasks rf) @ answer_voters k as) \<inter> V = {}"

definition tasks_ok :: "nat \<Rightarrow> nat \<Rightarrow> Raft \<Rightarrow> (nat \<Rightarrow> int option) \<Rightarrow> bool" where
  "tasks_ok n i rf E \<longleftrightarrow>
     (\<forall>j args k. SendRequestVote j args k \<in> set (m_tasks rf) \<longrightarrow>
        j < n \<and> j \<noteq> i \<and> E k = Some (rv_term args) \<and> rv_candidateid args = int i)
     \<and> (\<forall>j args k. SendAppendEntries j args k \<in> set (m_tasks rf) \<longrightarrow> E k = None \<and> k < length (m_counters rf))"

definition answers_ok :: "(int \<times> nat \<times> nat) set \<Rightarrow> nat \<Rightarrow> (nat \<times> RequestVoteReply \<times> nat) list
    \<Rightarrow> (nat \<Rightarrow> int option) \<Rightarrow> bool" where
  "answers_ok g i as E \<longleftrightarrow> (\<forall>j reply k. (j, reply, k) \<in> set as \<longrightarrow>
     (\<exists>T. E k = Some T \<and> (rvr_votegranted reply \<longrightarrow> rvr_term reply = T \<and> (T, j, i) \<in> g)))"

definition voter_ok :: "(int \<times> nat \<times> nat) set \<Rightarrow> nat \<Rightarrow> Raft \<Rightarrow> bool" where
  "voter_ok g i rf \<longleftrightarrow> (\<forall>T c. (T, i, c) \<in> g \<longrightarrow>
     T \<le> m_currentTerm rf \<and> (T = m_currentTerm rf \<longrightarrow> m_votedFor rf = int c))"

definition one_per_term :: "(nat \<Rightarrow> int option) \<Rightarrow> bool" where
  "one_per_term E \<longleftrightarrow> (\<forall>k k' T. E k = Some T \<and> E k' = Some T \<longrightarrow> k = k')"

definition node_ok :: "nat \<Rightarrow> (int \<times> nat \<times> nat) set \<Rightarrow> (nat \<Rightarrow> nat set) \<Rightarrow> (nat \<Rightarrow> int option) \<Rightarrow> nat
    \<Rightarrow> Raft \<Rightarrow> (nat \<times> RequestVoteReply \<times> nat) list \<Rightarrow> bool" where
  "node_ok n g S E i rf as \<longleftrightarrow> m_me rf = i \<and> m_npeers rf = n
     \<and> length (m_nextIndex rf) = n \<and> length (m_matchIndex rf) = n
     \<and> voter_ok g i rf
     \<and> (m_status rf = Leader \<longrightarrow> majority n \<le> card (votes g (m_currentTerm rf) i))
     \<and> (\<forall>k T. E k = Some T \<longrightarrow> counter_ok n g i rf as k T (S k))
     \<and> tasks_ok n i rf E \<and> answers_ok g i as E
     \<and> one_per_term E"

definition vote_inv :: "nat \<Rightarrow> Cluster \<Rightarrow> (int \<times> nat \<times> nat) set \<Rightarrow> (nat \<Rightarrow> nat \<Rightarrow> nat set)
    \<Rightarrow> (nat \<Rightarrow> nat \<Rightarrow> int option) \<Rightarrow> bool" where
  "vote_inv n s g S E \<longleftrightarrow> sound_votes n g \<and> (\<forall>i < n. node_ok n g (S i) (E i) i (nodes s i) (answers s i))"

lemma task_voters_simps [simp]:
  "task_voters k [] = []" "task_voters k (t # ts) = task_voter k t @ task_voters k ts"
  "task_voters k (ts @ ts') = task_voters k ts @ task_voters k ts'"
  by (simp_all add: task_voters_def)

lemma answer_voters_simps [simp]:
  "answer_voters k [] = []" "answer_voters k ((i, r, k') # as) = (if k' = k then [i] else []) @ answer_voters k as"
  "answer_voters k (as @ as') = answer_voters k as @ answer_voters k as'"
  by (simp_all add: answer_voters_def)

lemma task_voters_filter: "task_voters k (filter is_vote ts) = task_voters k ts"
proof (induction ts)
  case (Cons t ts)
  then show ?case by (cases t) simp_all
qed simp

lemma task_voters_other: "(\<And>t. t \<in> set ts \<Longrightarrow> task_voter k t = []) \<Longrightarrow> task_voters k ts = []"
  by (induction ts) auto

lemma vote_in_filter: "SendRequestVote j args k \<in> set ts \<longleftrightarrow> SendRequestVote j args k \<in> set (filter is_vote ts)"
  by simp

lemma finite_votes: "sound_votes n g \<Longrightarrow> finite (votes g T c) \<and> votes g T c \<subseteq> {..<n}"
  by (auto simp: sound_votes_def votes_def intro: finite_subset [of _ "{..<n}"])


section \<open>Steps that are not about votes\<close>

lemma node_ok_other:
  assumes ok: "node_ok n g S E i rf as" and sub: "g \<subseteq> g'" "sound_votes n g'"
    and own: "\<And>T c. (T, i, c) \<in> g' \<Longrightarrow> (T, i, c) \<in> g"
  shows "node_ok n g' S E i rf as"
proof -
  have v: "votes g T c \<subseteq> votes g' T c" for T c using sub(1) by (auto simp: votes_def)
  then have card: "card (votes g T c) \<le> card (votes g' T c)" for T c
    using finite_votes [OF sub(2)] by (intro card_mono) auto
  have "voter_ok g' i rf" using ok own unfolding node_ok_def voter_ok_def by blast
  moreover have "counter_ok n g' i rf as k T (S k)" if "E k = Some T" for k T
    using ok that v [of T i] unfolding node_ok_def counter_ok_def by blast
  moreover have "answers_ok g' i as E" using ok sub(1) unfolding node_ok_def answers_ok_def by blast
  ultimately show ?thesis using ok card order_trans unfolding node_ok_def by meson
qed

lemma node_ok_calm:
  assumes ok: "node_ok n g S E i rf as" and c: "calm rf rf'"
    and cs: "length (m_counters rf) \<le> length (m_counters rf')"
      "\<And>k. E k \<noteq> None \<Longrightarrow> m_counters rf' ! k = m_counters rf ! k"
    and ts: "\<And>j args k. SendAppendEntries j args k \<in> set (m_tasks rf') \<Longrightarrow> E k = None \<and> k < length (m_counters rf')"
  shows "node_ok n g S E i rf' as"
proof -
  have t: "task_voters k (m_tasks rf') = task_voters k (m_tasks rf)" for k
    using c task_voters_filter [of k "m_tasks rf"] task_voters_filter [of k "m_tasks rf'"]
    by (simp add: calm_def)
  have le: "m_currentTerm rf \<le> m_currentTerm rf'" using c by (simp add: calm_def)
  have ld: "m_status rf' = Leader \<Longrightarrow> m_status rf = Leader \<and> m_currentTerm rf' = m_currentTerm rf"
    using c by (simp add: calm_def)
  have "voter_ok g i rf'"
    unfolding voter_ok_def
  proof (intro allI impI)
    fix T c assume "(T, i, c) \<in> g"
    with ok have "T \<le> m_currentTerm rf" "T = m_currentTerm rf \<Longrightarrow> m_votedFor rf = int c"
      by (auto simp: node_ok_def voter_ok_def)
    with le \<open>calm rf rf'\<close> show "T \<le> m_currentTerm rf' \<and> (T = m_currentTerm rf' \<longrightarrow> m_votedFor rf' = int c)"
      by (auto simp: calm_def)
  qed
  moreover have "counter_ok n g i rf' as k T (S k)" if "E k = Some T" for k T
  proof -
    have "counter_ok n g i rf as k T (S k)" using ok that by (simp add: node_ok_def)
    with that cs(1) cs(2) [of k] le ld show ?thesis by (auto simp: counter_ok_def t)
  qed
  moreover have "tasks_ok n i rf' E"
    unfolding tasks_ok_def
  proof (intro conjI allI impI)
    fix j args k assume "SendRequestVote j args k \<in> set (m_tasks rf')"
    with c have "SendRequestVote j args k \<in> set (m_tasks rf)"
      using vote_in_filter unfolding calm_def by metis
    with ok show "j < n" "j \<noteq> i" "E k = Some (rv_term args)" "rv_candidateid args = int i"
      by (auto simp: node_ok_def tasks_ok_def)
  qed (use ts in auto)
  ultimately show ?thesis using ok ld c by (auto simp: node_ok_def calm_def)
qed

lemma node_ok_calm_same:
  assumes "node_ok n g S E i rf as" "calm rf rf'" "m_counters rf' = m_counters rf"
    and "m_tasks rf' = m_tasks rf @ ts" "\<And>j args k. SendAppendEntries j args k \<notin> set ts"
  shows "node_ok n g S E i rf' as"
  using assms by (intro node_ok_calm [OF assms(1,2)]) (auto simp: node_ok_def tasks_ok_def)

text \<open>Taking a task that is not a vote request from the queue.\<close>

lemma node_ok_take:
  assumes "node_ok n g S E i rf as" "m_tasks rf = ts @ t # ts'" "\<not> is_vote t"
  shows "node_ok n g S E i (rf\<lparr>m_tasks := ts @ ts'\<rparr>) as"
  using assms by (intro node_ok_calm [OF assms(1)]) (auto simp: calm_def node_ok_def tasks_ok_def)

text \<open>Pending requests and answers may disappear, or change from one to the other.\<close>

lemma counter_ok_move:
  assumes "counter_ok n g i rf as k T V" and "m_counters rf' = m_counters rf"
    and "m_currentTerm rf' = m_currentTerm rf" "m_status rf' = m_status rf"
    and "distinct (task_voters k (m_tasks rf) @ answer_voters k as)
      \<Longrightarrow> distinct (task_voters k (m_tasks rf') @ answer_voters k as')"
    and "set (task_voters k (m_tasks rf') @ answer_voters k as')
      \<subseteq> set (task_voters k (m_tasks rf) @ answer_voters k as)"
  shows "counter_ok n g i rf' as' k T V"
  using assms unfolding counter_ok_def by (simp only:) blast

lemma node_ok_lost:
  assumes ok: "node_ok n g S E i rf as" and t: "m_tasks rf = ts @ SendRequestVote j args k # ts'"
  shows "node_ok n g S E i (rf\<lparr>m_tasks := ts @ ts'\<rparr>) as"
proof -
  let ?rf = "rf\<lparr>m_tasks := ts @ ts'\<rparr>"
  have "counter_ok n g i ?rf as k T (S k)" if "E k = Some T" for k T
  proof -
    have "counter_ok n g i rf as k T (S k)" using ok that by (simp add: node_ok_def)
    then show ?thesis by (rule counter_ok_move) (simp_all add: t Int_Un_distrib Int_Un_distrib2, blast+)
  qed
  moreover have "tasks_ok n i ?rf E" using ok by (auto simp: node_ok_def tasks_ok_def t)
  ultimately show ?thesis using ok by (auto simp: node_ok_def voter_ok_def)
qed

lemma node_ok_answer_lost:
  assumes ok: "node_ok n g S E i rf (as @ a # as')"
  shows "node_ok n g S E i rf (as @ as')"
proof -
  have "counter_ok n g i rf (as @ as') k T (S k)" if "E k = Some T" for k T
  proof -
    have "counter_ok n g i rf (as @ a # as') k T (S k)" using ok that by (simp add: node_ok_def)
    then show ?thesis by (rule counter_ok_move) (cases a; auto split: if_split_asm)+
  qed
  moreover have "answers_ok g i (as @ as') E" using ok by (auto simp: node_ok_def answers_ok_def)
  ultimately show ?thesis using ok by (auto simp: node_ok_def)
qed

section \<open>A vote is given\<close>

definition add_vote :: "Raft \<Rightarrow> RequestVoteArgs \<Rightarrow> nat \<Rightarrow> (int \<times> nat \<times> nat) set \<Rightarrow> (int \<times> nat \<times> nat) set" where
  "add_vote rf args i g = (if grants rf args \<and> 0 \<le> rv_candidateid args
     then insert (rv_term args, i, nat (rv_candidateid args)) g else g)"

lemma add_vote_other: "(T, j, c) \<in> add_vote rf args i g \<Longrightarrow> j \<noteq> i \<Longrightarrow> (T, j, c) \<in> g"
  by (auto simp: add_vote_def split: if_split_asm)

lemma add_vote_sub: "g \<subseteq> add_vote rf args i g"
  by (auto simp: add_vote_def)

lemma add_vote_sound:
  assumes "sound_votes n g" "voter_ok g i rf" "i < n"
  shows "sound_votes n (add_vote rf args i g)"
proof -
  have "c = nat (rv_candidateid args)" if g: "grants rf args" "(rv_term args, i, c) \<in> g" for c
  proof -
    have "rv_term args \<le> m_currentTerm rf" "rv_term args = m_currentTerm rf \<Longrightarrow> m_votedFor rf = int c"
      using assms(2) g(2) unfolding voter_ok_def by auto
    with g(1) show ?thesis by (auto simp: grants_def)
  qed
  with assms(1,3) show ?thesis
    by (auto simp: sound_votes_def add_vote_def)
qed

lemma RequestVote_node_ok:
  assumes ok: "node_ok n g S E i rf as" and g: "sound_votes n g" "i < n"
    and rv: "RequestVote ev now args rf = Inr (reply, rf')"
  shows "node_ok n (add_vote rf args i g) S E i rf' as \<and> sound_votes n (add_vote rf args i g)
    \<and> rvr_votegranted reply = grants rf args \<and> (grants rf args \<longrightarrow> rvr_term reply = rv_term args)"
proof -
  let ?g = "add_vote rf args i g"
  obtain rf2 where r: "rf' = persist ev rf2" "m_me rf2 = m_me rf" "m_npeers rf2 = m_npeers rf"
    "m_tasks rf2 = m_tasks rf" "m_counters rf2 = m_counters rf" "m_nextIndex rf2 = m_nextIndex rf"
    "m_matchIndex rf2 = m_matchIndex rf"
    "m_currentTerm rf2 = max (m_currentTerm rf) (rv_term args)" "rvr_term reply = m_currentTerm rf2"
    "rvr_votegranted reply = grants rf args"
    "m_votedFor rf2 = (if grants rf args then rv_candidateid args
       else if rv_term args > m_currentTerm rf then -1 else m_votedFor rf)"
    "m_status rf2 = (if rv_term args > m_currentTerm rf then Follower else m_status rf)"
    by (rule RequestVote_cases [of ev now args rf]) (use rv in auto)
  have vo: "voter_ok g i rf" using ok by (simp add: node_ok_def)
  have sound: "sound_votes n ?g" by (rule add_vote_sound [OF g(1) vo g(2)])
  have v: "votes g T c \<subseteq> votes ?g T c" for T c by (auto simp: votes_def add_vote_def)
  then have card: "card (votes g T c) \<le> card (votes ?g T c)" for T c
    using finite_votes [OF sound] by (intro card_mono) auto
  have ct: "grants rf args \<Longrightarrow> m_currentTerm rf2 = rv_term args" by (simp add: r grants_def)
  have "voter_ok ?g i rf'"
    unfolding voter_ok_def
  proof (intro allI impI)
    fix T c assume in_g: "(T, i, c) \<in> ?g"
    show "T \<le> m_currentTerm rf' \<and> (T = m_currentTerm rf' \<longrightarrow> m_votedFor rf' = int c)"
    proof (cases "(T, i, c) \<in> g")
      case True
      with vo have "T \<le> m_currentTerm rf" "T = m_currentTerm rf \<Longrightarrow> m_votedFor rf = int c"
        by (auto simp: voter_ok_def)
      then show ?thesis by (auto simp: r(1,8,11) grants_def)
    next
      case False
      with in_g show ?thesis by (auto simp: add_vote_def r(1,11) ct split: if_split_asm)
    qed
  qed
  moreover have lead: "m_status rf' = Leader \<Longrightarrow> m_status rf = Leader \<and> m_currentTerm rf' = m_currentTerm rf"
    by (auto simp: r(1,8,12) split: if_split_asm)
  moreover have "counter_ok n ?g i rf' as k T (S k)" if "E k = Some T" for k T
  proof -
    have "counter_ok n g i rf as k T (S k)" using ok that by (simp add: node_ok_def)
    with lead v [of T i] show ?thesis by (auto simp: counter_ok_def r(1,4,5,8))
  qed
  moreover have "tasks_ok n i rf' E" using ok by (simp add: node_ok_def tasks_ok_def r(1,4,5))
  moreover have "answers_ok ?g i as E"
    using ok add_vote_sub [of g rf args i] unfolding node_ok_def answers_ok_def by blast
  ultimately have "node_ok n ?g S E i rf' as"
    using ok card [of "m_currentTerm rf" i] by (auto simp: node_ok_def r(1-7))
  with sound r(9,10) ct show ?thesis by simp
qed

text \<open>The request leaves the queue of the candidate, the answer is on its way.\<close>

lemma node_ok_request:
  assumes ok: "node_ok n g S E c rf as" and t: "m_tasks rf = ts @ SendRequestVote i args k # ts'"
    and reply: "rvr_votegranted reply \<Longrightarrow> rvr_term reply = rv_term args \<and> (rv_term args, i, c) \<in> g"
  shows "node_ok n g S E c (rf\<lparr>m_tasks := ts @ ts'\<rparr>) (as @ [(i, reply, k)])"
proof -
  let ?rf = "rf\<lparr>m_tasks := ts @ ts'\<rparr>"
  have "SendRequestVote i args k \<in> set (m_tasks rf)" by (simp add: t)
  with ok have Ek: "E k = Some (rv_term args)" unfolding node_ok_def tasks_ok_def by blast
  have "counter_ok n g c ?rf (as @ [(i, reply, k)]) k' T (S k')" if "E k' = Some T" for k' T
  proof -
    have c: "counter_ok n g c rf as k' T (S k')" using ok that unfolding node_ok_def by blast
    have m: "mset (task_voters k' (m_tasks ?rf) @ answer_voters k' (as @ [(i, reply, k)]))
        = mset (task_voters k' (m_tasks rf) @ answer_voters k' as)"
      by (simp add: t)
    from mset_eq_imp_distinct_iff [OF m] mset_eq_setD [OF m] show ?thesis
      by (intro counter_ok_move [OF c]) (simp, simp, simp, blast, blast)
  qed
  moreover have "tasks_ok n c ?rf E" using ok by (auto simp: node_ok_def tasks_ok_def t)
  moreover have "answers_ok g c (as @ [(i, reply, k)]) E"
    using ok Ek reply by (auto simp: node_ok_def answers_ok_def)
  ultimately show ?thesis using ok by (auto simp: node_ok_def voter_ok_def)
qed


section \<open>Standing for election\<close>

lemma task_voters_requests:
  "task_voters k (map (\<lambda>i. SendRequestVote i args k') is) = (if k' = k then is else [])"
  by (induction "is") auto

lemma task_voters_none: "(\<And>j args. SendRequestVote j args k \<notin> set ts) \<Longrightarrow> task_voters k ts = []"
proof (induction ts)
  case (Cons t ts)
  then show ?case by (cases t) auto
qed simp

lemma answer_voters_none: "(\<And>j reply. (j, reply, k) \<notin> set as) \<Longrightarrow> answer_voters k as = []"
proof (induction as)
  case (Cons a as)
  then show ?case by (cases a) auto
qed simp

lemma fresh_counter:
  assumes "node_ok n g S E i rf as"
  shows "E (length (m_counters rf)) = None" "task_voters (length (m_counters rf)) (m_tasks rf) = []"
    "answer_voters (length (m_counters rf)) as = []"
proof -
  have "\<forall>T. E (length (m_counters rf)) \<noteq> Some T"
    using assms unfolding node_ok_def counter_ok_def by (meson less_irrefl)
  then show E: "E (length (m_counters rf)) = None" by (cases "E (length (m_counters rf))") auto
  show "task_voters (length (m_counters rf)) (m_tasks rf) = []"
    by (rule task_voters_none) (use assms E in \<open>force simp: node_ok_def tasks_ok_def\<close>)
  show "answer_voters (length (m_counters rf)) as = []"
    by (rule answer_voters_none) (use assms E in \<open>force simp: node_ok_def answers_ok_def\<close>)
qed

lemma one_per_term_upd:
  assumes "one_per_term E" "\<And>k T. E k = Some T \<Longrightarrow> T < T'"
  shows "one_per_term (E(k' \<mapsto> T'))"
  using assms unfolding one_per_term_def by (metis fun_upd_apply less_irrefl option.inject)

text \<open>A stand-alone node is its own majority; otherwise the new counter has one vote, its own.\<close>

lemma doElection_node_ok:
  assumes ok: "node_ok n g S E i rf as" and g: "sound_votes n g" "i < n"
    and el: "doElection ev now rf = Inr rf'"
  shows "\<exists>g' S' E'. node_ok n g' S' E' i rf' as \<and> sound_votes n g' \<and> g \<subseteq> g'
    \<and> (\<forall>T j c. (T, j, c) \<in> g' \<longrightarrow> j \<noteq> i \<longrightarrow> (T, j, c) \<in> g)"
proof -
  have lens: "length (m_nextIndex rf) = m_npeers rf" "length (m_matchIndex rf) = m_npeers rf"
    and me: "m_me rf = i" "m_npeers rf = n" and vo: "voter_ok g i rf" and to: "tasks_ok n i rf E"
    and ao: "answers_ok g i as E" and opt: "one_per_term E"
    and co: "\<And>k T. E k = Some T \<Longrightarrow> counter_ok n g i rf as k T (S k)"
    using ok unfolding node_ok_def by auto
  show ?thesis
  proof (cases rule: doElection_cases [OF lens, of ev now])
    case 1
    with el ok g show ?thesis by auto
  next
    case (2 rf2)
    with el have rf': "rf' = rf2" by simp
    note r = 2(3-12) [folded rf', unfolded me]
    let ?T = "m_currentTerm rf + 1" and ?k = "length (m_counters rf)"
    let ?g = "insert (?T, i, i) g"
    have new: "(?T, i, c) \<notin> g" for c using vo unfolding voter_ok_def by force
    have sound: "sound_votes n ?g" using g new unfolding sound_votes_def by blast
    have vsub: "votes g T c \<subseteq> votes ?g T c" for T c by (auto simp: votes_def)
    have vo': "voter_ok ?g i rf'"
      using vo new unfolding voter_ok_def by (force simp: r)
    have old: "counter_ok n ?g i rf' as k T (S k)" if "E k = Some T" for k T
    proof -
      have c: "counter_ok n g i rf as k T (S k)" by (rule co [OF that])
      then have "k \<noteq> ?k" by (auto simp: counter_ok_def)
      then have "task_voters k (m_tasks rf') = task_voters k (m_tasks rf)"
        by (simp add: r task_voters_requests)
      with c vsub [of T i] show ?thesis by (auto simp: counter_ok_def r nth_append)
    qed
    have lt: "T < ?T" if "E k = Some T" for k T using co [OF that] by (simp add: counter_ok_def)
    show ?thesis
    proof (cases "n = 1")
      case True
      have "votes ?g ?T i \<subseteq> {..<1}" using finite_votes [OF sound] True by blast
      moreover have "i \<in> votes ?g ?T i" by (simp add: votes_def)
      ultimately have "votes ?g ?T i = {i}" using True g(2) by auto
      moreover have "tasks_ok n i rf' E"
        using to unfolding tasks_ok_def by (simp add: r True) (meson less_SucI)
      moreover have "answers_ok ?g i as E" using ao unfolding answers_ok_def by blast
      ultimately have "node_ok n ?g S E i rf' as"
        using old vo' opt True unfolding node_ok_def by (simp add: r majority_def)
      with sound show ?thesis by blast
    next
      case False
      let ?E = "E(?k \<mapsto> ?T)" and ?S = "S(?k := {i})"
      have "counter_ok n ?g i rf' as k T (?S k)" if "?E k = Some T" for k T
      proof (cases "k = ?k")
        case True
        have "distinct (filter (\<lambda>j. j \<noteq> i) [0 ..< n])" by simp
        with True that fresh_counter [OF ok] False show ?thesis
          by (auto simp: counter_ok_def r task_voters_requests votes_def)
      next
        case ne: False
        with that old show ?thesis by simp
      qed
      moreover have "tasks_ok n i rf' ?E"
        using to fresh_counter(1) [OF ok] False
        unfolding tasks_ok_def by (fastforce simp: r)
      moreover have "answers_ok ?g i as ?E"
        unfolding answers_ok_def
      proof (intro allI impI)
        fix j reply k assume "(j, reply, k) \<in> set as"
        with ao obtain T where T: "E k = Some T" "rvr_votegranted reply \<longrightarrow> rvr_term reply = T \<and> (T, j, i) \<in> g"
          unfolding answers_ok_def by blast
        with fresh_counter(1) [OF ok] have "k \<noteq> ?k" by auto
        with T show "\<exists>T. ?E k = Some T \<and> (rvr_votegranted reply \<longrightarrow> rvr_term reply = T \<and> (T, j, i) \<in> ?g)"
          by auto
      qed
      moreover have "one_per_term ?E" by (rule one_per_term_upd [OF opt lt])
      ultimately have "node_ok n ?g ?S ?E i rf' as"
        using False vo' unfolding node_ok_def by (auto simp: r)
      with sound show ?thesis by blast
    qed
  qed
qed

section \<open>Counting an answer\<close>

lemma answer_election:
  assumes "node_ok n g S E i rf (as @ (j, reply, k) # as')"
  shows "\<exists>T. E k = Some T \<and> (rvr_votegranted reply \<longrightarrow> rvr_term reply = T \<and> (T, j, i) \<in> g)"
proof -
  have "(j, reply, k) \<in> set (as @ (j, reply, k) # as')" by simp
  with assms show ?thesis unfolding node_ok_def answers_ok_def by blast
qed

lemma counted_votes:
  assumes ok: "node_ok n g S E i rf (as @ (j, reply, k) # as')" and g: "sound_votes n g"
    and yes: "rvr_votegranted reply" "rvr_term reply = m_currentTerm rf"
  shows "E k = Some (m_currentTerm rf)" "j \<notin> S k" "card (insert j (S k)) = card (S k) + 1"
    "insert j (S k) \<subseteq> votes g (m_currentTerm rf) i"
    "counter_ok n g i rf (as @ (j, reply, k) # as') k (m_currentTerm rf) (S k)"
proof -
  obtain T where T: "E k = Some T" "rvr_term reply = T" "(T, j, i) \<in> g"
    using answer_election [OF ok] yes(1) by blast
  then show E: "E k = Some (m_currentTerm rf)" using yes by simp
  then show c: "counter_ok n g i rf (as @ (j, reply, k) # as') k (m_currentTerm rf) (S k)"
    using ok unfolding node_ok_def by blast
  then show j: "j \<notin> S k" by (auto simp: counter_ok_def)
  have "finite (S k)" using c finite_votes [OF g] unfolding counter_ok_def by (meson finite_subset)
  with j show "card (insert j (S k)) = card (S k) + 1" by simp
  show "insert j (S k) \<subseteq> votes g (m_currentTerm rf) i"
    using c T yes by (auto simp: counter_ok_def votes_def)
qed

text \<open>A leader never sees its counter reach a majority again: there are not enough voters left.\<close>

lemma no_second_majority:
  assumes ok: "node_ok n g S E i rf (as @ (j, reply, k) # as')" and g: "sound_votes n g"
    and yes: "rvr_votegranted reply" "rvr_term reply = m_currentTerm rf" and "m_status rf = Leader"
  shows "m_counters rf ! k + 1 < int (n div 2 + 1)"
proof -
  note cv = counted_votes [OF ok g yes]
  have "m_counters rf ! k + int (majority n) \<le> int (card (S k))"
    using cv(5) assms(5) by (simp add: counter_ok_def)
  moreover have "card (insert j (S k)) \<le> n"
    using finite_votes [OF g, of "m_currentTerm rf" i] cv(4) card_mono [of "{..<n}" "insert j (S k)"] by auto
  ultimately show ?thesis using cv(3) by (simp add: majority_def)
qed

lemma answer_node_ok:
  assumes ok: "node_ok n g S E i rf (as @ (j, reply, k) # as')" and g: "sound_votes n g"
    and rp: "sendRequestVote_reply ev (Some reply) k rf = Inr rf'"
  shows "\<exists>S'. node_ok n g S' E i rf' (as @ as')"
proof -
  have less: "node_ok n g S E i rf (as @ as')" by (rule node_ok_answer_lost [OF ok])
  have lens: "length (m_nextIndex rf) = m_npeers rf" "length (m_matchIndex rf) = m_npeers rf"
    and np: "m_npeers rf = n" and opt: "one_per_term E"
    using ok unfolding node_ok_def by auto
  obtain T where "E k = Some T" using answer_election [OF ok] by blast
  then have k: "k < length (m_counters rf)" using ok unfolding node_ok_def counter_ok_def by blast
  show ?thesis
  proof (cases rule: sendRequestVote_reply_cases [OF lens k, of ev reply])
    case (1 rf2)
    with rp have "calm rf rf'" "m_counters rf' = m_counters rf" "m_tasks rf' = m_tasks rf @ []" by auto
    from node_ok_calm_same [OF less this] show ?thesis by auto
  next
    case 2
    with rp less show ?thesis by auto
  next
    case 3
    note cv = counted_votes [OF ok g 3(3,2)]
    let ?S = "S(k := insert j (S k))"
    from 3(1) rp have rf': "rf' = rf\<lparr>m_counters := (m_counters rf)[k := m_counters rf ! k + 1]\<rparr>" by simp
    have "counter_ok n g i rf' (as @ as') k' T (?S k')" if "E k' = Some T" for k' T
    proof (cases "k' = k")
      case True
      with that cv(1) have "T = m_currentTerm rf" by simp
      with True cv(5,2,3,4) show ?thesis by (auto simp: counter_ok_def rf' votes_def)
    next
      case False
      have "counter_ok n g i rf (as @ as') k' T (S k')" using less that unfolding node_ok_def by blast
      with False show ?thesis by (simp add: counter_ok_def rf')
    qed
    with less have "node_ok n g ?S E i rf' (as @ as')"
      unfolding node_ok_def by (auto simp: rf' voter_ok_def tasks_ok_def)
    then show ?thesis by blast
  next
    case 4
    with rp show ?thesis by simp
  next
    case (5 rf2)
    note cv = counted_votes [OF ok g 5(3,2)]
    let ?S = "S(k := insert j (S k))"
    from 5(1) rp have rf': "rf2 = rf'" by simp
    note r = 5(6-14) [unfolded rf']
    have big: "majority n \<le> card (insert j (S k))"
      using 5(5) cv(3,5) np by (simp add: counter_ok_def majority_def)
    have "counter_ok n g i rf' (as @ as') k' T (?S k')" if "E k' = Some T" for k' T
    proof (cases "k' = k")
      case True
      with that cv(1) have "T = m_currentTerm rf" by simp
      with True cv(5,2,3,4) big show ?thesis by (auto simp: counter_ok_def r votes_def)
    next
      case False
      have "counter_ok n g i rf (as @ as') k' T (S k')" using less that unfolding node_ok_def by blast
      moreover have "T \<noteq> m_currentTerm rf" using False that cv(1) opt unfolding one_per_term_def by metis
      ultimately show ?thesis using False by (simp add: counter_ok_def r)
    qed
    moreover have "majority n \<le> card (votes g (m_currentTerm rf) i)"
      using big card_mono [OF _ cv(4)] finite_votes [OF g] order_trans by blast
    ultimately have "node_ok n g ?S E i rf' (as @ as')"
      using less unfolding node_ok_def by (auto simp: r voter_ok_def tasks_ok_def)
    then show ?thesis by blast
  qed
qed


lemma answer_never_aborts:
  assumes ok: "node_ok n g S E i rf (as @ (j, reply, k) # as')" and g: "sound_votes n g"
  shows "\<exists>rf'. sendRequestVote_reply ev (Some reply) k rf = Inr rf'"
proof -
  have lens: "length (m_nextIndex rf) = m_npeers rf" "length (m_matchIndex rf) = m_npeers rf" "m_npeers rf = n"
    using ok unfolding node_ok_def by auto
  obtain T where "E k = Some T" using answer_election [OF ok] by blast
  then have k: "k < length (m_counters rf)" using ok unfolding node_ok_def counter_ok_def by blast
  show ?thesis
  proof (cases rule: sendRequestVote_reply_cases [OF lens(1,2) k, of ev reply])
    case 4
    from no_second_majority [OF ok g 4(3,2,4)] 4(5) lens(3) show ?thesis by simp
  qed auto
qed

section \<open>Every step keeps the invariant\<close>

lemma init_fields:
  assumes "init ev now n i p ch = Inr rf"
  shows "m_me rf = i \<and> m_npeers rf = n \<and> length (m_nextIndex rf) = n \<and> length (m_matchIndex rf) = n
    \<and> m_status rf = Follower \<and> m_tasks rf = [] \<and> m_counters rf = []"
  using assms by (auto simp: init_def readPersist_def Let_def result_simps split: if_split_asm)

lemma started_inv:
  assumes "started n s"
  shows "vote_inv n s {} (\<lambda>_ _. {}) (\<lambda>_ _. None)"
  using assms unfolding started_def vote_inv_def sound_votes_def node_ok_def
  by (auto simp: voter_ok_def tasks_ok_def answers_ok_def one_per_term_def dest!: init_fields)

lemma vote_invD:
  "vote_inv n s g S E \<Longrightarrow> i < n \<Longrightarrow> node_ok n g (S i) (E i) i (nodes s i) (answers s i)"
  by (simp add: vote_inv_def)

lemma set_node_simps [simp]:
  "nodes (set_node i rf s) = (nodes s)(i := rf)" "answers (set_node i rf s) = answers s"
  by (simp_all add: set_node_def)

text \<open>One node moves, and perhaps votes; the others only see the votes.\<close>

lemma vote_inv_move:
  assumes inv: "vote_inv n s g S E" and node: "node_ok n g' S' E' i rf (answers s' i)"
    and g': "g \<subseteq> g'" "sound_votes n g'" "\<And>T j c. (T, j, c) \<in> g' \<Longrightarrow> j \<noteq> i \<Longrightarrow> (T, j, c) \<in> g"
    and s': "nodes s' = (nodes s)(i := rf)" "\<And>j. j \<noteq> i \<Longrightarrow> answers s' j = answers s j"
  shows "vote_inv n s' g' (S(i := S')) (E(i := E'))"
proof -
  have "node_ok n g' (S j) (E j) j (nodes s j) (answers s j)" if "j < n" "j \<noteq> i" for j
    by (rule node_ok_other [OF vote_invD [OF inv that(1)] g'(1,2)]) (use g'(3) that in auto)
  with node g'(2) s' show ?thesis by (auto simp: vote_inv_def)
qed

lemma vote_inv_same:
  assumes "vote_inv n s g S E" "i < n" "node_ok n g (S i) (E i) i rf (answers s i)"
  shows "\<exists>S' E'. vote_inv n (set_node i rf s) g S' E'"
proof -
  from assms(1) have "sound_votes n g" by (simp add: vote_inv_def)
  from vote_inv_move [OF assms(1), of g "S i" "E i" i rf "set_node i rf s"] assms(3) this
  show ?thesis by auto
qed

lemma calm_step:
  assumes inv: "vote_inv n s g S E" "i < n" and c: "calm (nodes s i) rf" "m_counters rf = m_counters (nodes s i)"
    and t: "m_tasks rf = m_tasks (nodes s i)"
  shows "\<exists>S' E'. vote_inv n (set_node i rf s) g S' E'"
  using node_ok_calm_same [OF vote_invD [OF inv] c, of "[]"] t by (intro vote_inv_same [OF inv]) auto

lemma heartbeat_node_ok:
  assumes ok: "node_ok n g S E i rf as" and hb: "doHeartBeat now rf = Inr rf'"
  shows "node_ok n g S E i rf' as"
proof (cases "rf' = rf")
  case True
  with ok show ?thesis by simp
next
  case False
  with doHeartBeat_calm [OF hb] obtain ts where c: "calm rf rf'" "m_counters rf' = m_counters rf @ [1]"
    "m_tasks rf' = m_tasks rf @ ts" "beat_tasks (length (m_counters rf)) ts" by blast
  have k: "k < length (m_counters rf)" if "E k \<noteq> None" for k
    using ok that unfolding node_ok_def counter_ok_def by blast
  have "E k = None \<and> k < length (m_counters rf')" if "SendAppendEntries j args k \<in> set (m_tasks rf')" for j args k
  proof (cases "SendAppendEntries j args k \<in> set (m_tasks rf)")
    case True
    with ok have "E k = None \<and> k < length (m_counters rf)" unfolding node_ok_def tasks_ok_def by blast
    with c(2) show ?thesis by simp
  next
    case False
    with that c(3,4) have "k = length (m_counters rf)" by (auto simp: beat_tasks_def)
    with fresh_counter(1) [OF ok] c(2) show ?thesis by simp
  qed
  moreover have "m_counters rf' ! k = m_counters rf ! k" if "E k \<noteq> None" for k
    using k [OF that] c(2) by (simp add: nth_append)
  ultimately show ?thesis using c(2) by (intro node_ok_calm [OF ok c(1)]) auto
qed

lemma append_answer_node_ok:
  assumes ok: "node_ok n g S E i rf as" and t: "m_tasks rf = ts @ SendAppendEntries j args k # ts'"
    and rp: "sendAppendEntries_reply j args mreply k (rf\<lparr>m_tasks := ts @ ts'\<rparr>) = Inr rf'"
  shows "node_ok n g S E i rf' as"
proof -
  have "SendAppendEntries j args k \<in> set (m_tasks rf)" by (simp add: t)
  with ok have k: "E k = None" unfolding node_ok_def tasks_ok_def by blast
  have ok': "node_ok n g S E i (rf\<lparr>m_tasks := ts @ ts'\<rparr>) as"
    by (rule node_ok_take [OF ok t]) simp
  from sendAppendEntries_reply_calm [OF rp] have c: "calm (rf\<lparr>m_tasks := ts @ ts'\<rparr>) rf'"
    "m_tasks rf' = ts @ ts'" "length (m_counters rf') = length (m_counters rf)"
    "\<And>l. l \<noteq> k \<Longrightarrow> m_counters rf' ! l = m_counters rf ! l" by auto
  have "E l = None \<and> l < length (m_counters rf')" if "SendAppendEntries j' args' l \<in> set (m_tasks rf')" for j' args' l
  proof -
    from that c(2) have "SendAppendEntries j' args' l \<in> set (m_tasks (rf\<lparr>m_tasks := ts @ ts'\<rparr>))" by simp
    with ok' have "E l = None \<and> l < length (m_counters (rf\<lparr>m_tasks := ts @ ts'\<rparr>))"
      unfolding node_ok_def tasks_ok_def by blast
    with c(3) show ?thesis by simp
  qed
  moreover have "m_counters rf' ! l = m_counters (rf\<lparr>m_tasks := ts @ ts'\<rparr>) ! l" if "E l \<noteq> None" for l
    using c(4) [of l] k that by (cases "l = k") auto
  ultimately show ?thesis using c(3) by (intro node_ok_calm [OF ok' c(1)]) auto
qed

lemma step_inv:
  assumes "step ev n s s'" and inv: "vote_inv n s g S E"
  shows "\<exists>g' S' E'. vote_inv n s' g' S' E'"
  using assms(1)
proof cases
  case (timeout i wakeTime now rf)
  have sound: "sound_votes n g" using inv by (simp add: vote_inv_def)
  show ?thesis
  proof (cases "m_lastResetElectionTime (nodes s i) - wakeTime > 0")
    case True
    with timeout(3) have "rf = nodes s i" by (simp add: electionTick_def)
    with vote_inv_same [OF inv timeout(2) vote_invD [OF inv timeout(2)]] timeout(1) show ?thesis by blast
  next
    case False
    with timeout(3) have "doElection ev now (nodes s i) = Inr rf" by (simp add: electionTick_def)
    from doElection_node_ok [OF vote_invD [OF inv timeout(2)] sound timeout(2) this]
    obtain g' S' E' where "node_ok n g' S' E' i rf (answers s i)" "sound_votes n g'" "g \<subseteq> g'"
      "\<forall>T j c. (T, j, c) \<in> g' \<longrightarrow> j \<noteq> i \<longrightarrow> (T, j, c) \<in> g" by blast
    with timeout(1) vote_inv_move [OF inv, of g' S' E' i rf s'] show ?thesis by auto
  qed
next
  case (vote_request c ts i args k ts' now reply rf)
  have sound: "sound_votes n g" using inv by (simp add: vote_inv_def)
  let ?g = "add_vote (nodes s i) args i g"
  from RequestVote_node_ok [OF vote_invD [OF inv vote_request(4)] sound vote_request(4,6)]
  have i: "node_ok n ?g (S i) (E i) i rf (answers s i)" "sound_votes n ?g"
    "rvr_votegranted reply = grants (nodes s i) args"
    "grants (nodes s i) args \<longrightarrow> rvr_term reply = rv_term args" by auto
  have inv1: "vote_inv n (set_node i rf s) ?g (S(i := S i)) (E(i := E i))"
    by (rule vote_inv_move [OF inv]) (use i(1,2) add_vote_sub in \<open>auto dest: add_vote_other\<close>)
  then have c: "node_ok n ?g (S c) (E c) c (nodes s c) (answers s c)"
    using vote_invD [OF inv1 vote_request(2)] vote_request(5) by simp
  have "SendRequestVote i args k \<in> set (m_tasks (nodes s c))" using vote_request(3) by simp
  with c have "rv_candidateid args = int c" unfolding node_ok_def tasks_ok_def by blast
  then have "rvr_term reply = rv_term args \<and> (rv_term args, i, c) \<in> ?g" if "rvr_votegranted reply"
    using that i(3,4) by (simp add: add_vote_def)
  from node_ok_request [OF c vote_request(3) this]
  have "node_ok n ?g (S c) (E c) c ((nodes s c)\<lparr>m_tasks := ts @ ts'\<rparr>) (answers s c @ [(i, reply, k)])" .
  with vote_inv_move [OF inv1, of ?g "S c" "E c" c "(nodes s c)\<lparr>m_tasks := ts @ ts'\<rparr>" s'] i(2) vote_request(1)
  show ?thesis by auto
next
  case (vote_answer c as i reply k as' rf)
  have sound: "sound_votes n g" using inv by (simp add: vote_inv_def)
  from answer_node_ok [OF vote_invD [OF inv vote_answer(2), unfolded vote_answer(3)] sound vote_answer(4)]
  obtain S' where "node_ok n g S' (E c) c rf (as @ as')" by blast
  with vote_inv_move [OF inv, of g S' "E c" c rf s'] sound vote_answer(1) show ?thesis by auto
next
  case (vote_request_lost c ts i args k ts' rf)
  then have rf: "rf = (nodes s c)\<lparr>m_tasks := ts @ ts'\<rparr>" by (simp add: sendRequestVote_reply_def)
  from vote_inv_same [OF inv vote_request_lost(2) node_ok_lost [OF vote_invD [OF inv vote_request_lost(2)]
      vote_request_lost(3)]] vote_request_lost(1) rf show ?thesis by blast
next
  case (vote_answer_lost c as i reply k as' rf)
  have sound: "sound_votes n g" using inv by (simp add: vote_inv_def)
  from vote_answer_lost(4) have rf: "rf = nodes s c" by (simp add: sendRequestVote_reply_def)
  from node_ok_answer_lost [OF vote_invD [OF inv vote_answer_lost(2), unfolded vote_answer_lost(3)]]
  have "node_ok n g (S c) (E c) c rf (as @ as')" by (simp add: rf)
  with vote_inv_move [OF inv, of g "S c" "E c" c rf s'] sound vote_answer_lost(1) show ?thesis by auto
next
  case (any_vote_request i now args reply rf)
  have sound: "sound_votes n g" using inv by (simp add: vote_inv_def)
  let ?g = "add_vote (nodes s i) args i g"
  from RequestVote_node_ok [OF vote_invD [OF inv any_vote_request(2)] sound any_vote_request(2,3)]
  have "node_ok n ?g (S i) (E i) i rf (answers s i)" "sound_votes n ?g" by auto
  then have "vote_inv n (set_node i rf s) ?g (S(i := S i)) (E(i := E i))"
    by (intro vote_inv_move [OF inv]) (use add_vote_sub in \<open>auto dest: add_vote_other\<close>)
  with any_vote_request(1) show ?thesis by blast
next
  case (append i now args reply rf)
  with calm_step [OF inv append(2)] AppendEntries_calm [OF append(3)] show ?thesis by blast
next
  case (install i now args reply rf)
  from InstallSnapshot_calm [OF install(3)] obtain ts where *: "calm (nodes s i) rf"
    "m_counters rf = m_counters (nodes s i)" "m_tasks rf = m_tasks (nodes s i) @ ts"
    "\<forall>t \<in> set ts. \<exists>m. t = PushMsgToKvServer m" by blast
  then have "SendAppendEntries j args' k \<notin> set ts" for j args' k by blast
  from vote_inv_same [OF inv install(2) node_ok_calm_same [OF vote_invD [OF inv install(2)] *(1-3) this]] install(1)
  show ?thesis by blast
next
  case (heartbeat_tick i wakeTime now rf)
  have "node_ok n g (S i) (E i) i rf (answers s i)"
  proof (cases "m_lastResetHearBeatTime (nodes s i) - wakeTime > 0")
    case True
    with heartbeat_tick(3) vote_invD [OF inv heartbeat_tick(2)] show ?thesis by (simp add: heartBeatTick_def)
  next
    case False
    with heartbeat_tick(3) have "doHeartBeat now (nodes s i) = Inr rf" by (simp add: heartBeatTick_def)
    from heartbeat_node_ok [OF vote_invD [OF inv heartbeat_tick(2)] this] show ?thesis .
  qed
  with vote_inv_same [OF inv heartbeat_tick(2)] heartbeat_tick(1) show ?thesis by blast
next
  case (heartbeat_task i ts ts' now rf)
  have "node_ok n g (S i) (E i) i ((nodes s i)\<lparr>m_tasks := ts @ ts'\<rparr>) (answers s i)"
    by (rule node_ok_take [OF vote_invD [OF inv heartbeat_task(2)] heartbeat_task(3)]) simp
  from vote_inv_same [OF inv heartbeat_task(2) heartbeat_node_ok [OF this heartbeat_task(4)]] heartbeat_task(1)
  show ?thesis by blast
next
  case (append_answer i ts j args k ts' mreply rf)
  from vote_inv_same [OF inv append_answer(2) append_answer_node_ok [OF vote_invD [OF inv append_answer(2)]
      append_answer(3,4)]] append_answer(1)
  show ?thesis by blast
next
  case (snapshot_request i ts j ts' args rf)
  have ok: "node_ok n g (S i) (E i) i ((nodes s i)\<lparr>m_tasks := ts @ ts'\<rparr>) (answers s i)"
    by (rule node_ok_take [OF vote_invD [OF inv snapshot_request(2)] snapshot_request(3)]) simp
  from node_ok_calm_same [OF ok, of rf "[]"] leaderSendSnapShot_request_calm [OF snapshot_request(4)]
  have "node_ok n g (S i) (E i) i rf (answers s i)" by auto
  with vote_inv_same [OF inv snapshot_request(2)] snapshot_request(1) show ?thesis by blast
next
  case (snapshot_answer i now j args mreply rf)
  with calm_step [OF inv snapshot_answer(2)] leaderSendSnapShot_reply_calm [OF snapshot_answer(3)] show ?thesis by blast
next
  case (client i cmd r rf)
  with calm_step [OF inv client(2)] Start_calm [OF client(3)] show ?thesis by blast
next
  case (applier i rf)
  with calm_step [OF inv applier(2)] applierTick_calm [OF applier(3)] show ?thesis by blast
next
  case (push i ts m ts')
  have "node_ok n g (S i) (E i) i ((nodes s i)\<lparr>m_tasks := ts @ ts'\<rparr>) (answers s i)"
    by (rule node_ok_take [OF vote_invD [OF inv push(2)] push(3)]) simp
  from node_ok_calm_same [OF this, of "pushMsgToKvServer m ((nodes s i)\<lparr>m_tasks := ts @ ts'\<rparr>)" "[]"]
  have "node_ok n g (S i) (E i) i (pushMsgToKvServer m ((nodes s i)\<lparr>m_tasks := ts @ ts'\<rparr>)) (answers s i)"
    by (simp add: calm_def pushMsgToKvServer_def)
  with vote_inv_same [OF inv push(2)] push(1) show ?thesis by blast
next
  case (compact i index snap rf)
  with calm_step [OF inv compact(2)] Snapshot_calm [OF compact(3)] show ?thesis by blast
qed

lemma reachable_inv: "reachable ev n s \<Longrightarrow> \<exists>g S E. vote_inv n s g S E"
  by (induction rule: reachable.induct) (blast intro: started_inv step_inv)+

text \<open>Two leaders of one term were elected by majorities, which share a voter.\<close>

lemma leaders_agree:
  assumes inv: "vote_inv n s g S E" and i: "i < n" "j < n"
    and l: "m_status (nodes s i) = Leader" "m_status (nodes s j) = Leader"
    and t: "m_currentTerm (nodes s i) = m_currentTerm (nodes s j)"
  shows "i = j"
proof -
  let ?V = "votes g (m_currentTerm (nodes s i))"
  have sound: "sound_votes n g" using inv by (simp add: vote_inv_def)
  have "n div 2 + 1 \<le> card (?V i)" "n div 2 + 1 \<le> card (?V j)"
    using vote_invD [OF inv i(1)] vote_invD [OF inv i(2)] l t by (simp_all add: node_ok_def majority_def)
  then obtain v where "v \<in> ?V i" "v \<in> ?V j"
    using majorities_meet [of "?V i" n "?V j"] finite_votes [OF sound] by blast
  with sound show ?thesis unfolding votes_def sound_votes_def by blast
qed

end
