(* ===== verification/Scenario.thy ===== *)
theory Scenario
  imports Election
begin

text \<open>
  Scripted runs of a cluster: every message that is delivered is one the code itself queued, and its
  reply goes back to the sender. A script is executable, and every state it reaches is reachable in
  the step relation of the cluster.
\<close>

section \<open>Scripts\<close>

datatype event =
    Timeout nat               \<comment> \<open>the election timer of a node expires\<close>
  | Ballot nat nat            \<comment> \<open>the vote request to a peer and its answer\<close>
  | Beat nat                  \<comment> \<open>the heartbeat timer of a node expires\<close>
  | Replicate nat nat         \<comment> \<open>the append request to a peer and its answer\<close>
  | ClientCmd nat string      \<comment> \<open>\<open>Start\<close> on a node\<close>
  | ApplyTick nat             \<comment> \<open>the applier of a node runs\<close>

fun take_ballot :: "nat \<Rightarrow> task list \<Rightarrow> task list \<Rightarrow> (task list \<times> RequestVoteArgs \<times> nat) option" where
  "take_ballot i pre [] = None"
| "take_ballot i pre (SendRequestVote j args k # ts) =
     (if j = i then Some (pre @ ts, args, k) else take_ballot i (pre @ [SendRequestVote j args k]) ts)"
| "take_ballot i pre (t # ts) = take_ballot i (pre @ [t]) ts"

fun take_append :: "nat \<Rightarrow> task list \<Rightarrow> task list \<Rightarrow> (task list \<times> AppendEntriesArgs \<times> nat) option" where
  "take_append i pre [] = None"
| "take_append i pre (SendAppendEntries j args k # ts) =
     (if j = i then Some (pre @ ts, args, k) else take_append i (pre @ [SendAppendEntries j args k]) ts)"
| "take_append i pre (t # ts) = take_append i (pre @ [t]) ts"

definition on_node :: "nat \<Rightarrow> (Raft \<Rightarrow> raft_error + Raft) \<Rightarrow> Raft list \<Rightarrow> raft_error + Raft list" where
  "on_node i f rs = bindE (f (rs ! i)) (\<lambda>rf. Inr (rs[i := rf]))"

fun exec :: "env \<Rightarrow> event \<Rightarrow> Raft list \<Rightarrow> raft_error + Raft list" where
  "exec ev (Timeout i) rs = on_node i (electionTick ev 0 0) rs"
| "exec ev (Ballot c i) rs = (case take_ballot i [] (m_tasks (rs ! c)) of
       None \<Rightarrow> Inr rs
     | Some (ts, args, k) \<Rightarrow>
         bindE (RequestVote ev 0 args (rs ! i)) (\<lambda>(reply, rf).
         on_node c (sendRequestVote_reply ev (Some reply) k)
           (rs[i := rf, c := (rs ! c)\<lparr>m_tasks := ts\<rparr>])))"
| "exec ev (Beat i) rs = on_node i (heartBeatTick 0 0) rs"
| "exec ev (Replicate l i) rs = (case take_append i [] (m_tasks (rs ! l)) of
       None \<Rightarrow> Inr rs
     | Some (ts, args, k) \<Rightarrow>
         bindE (AppendEntries ev 0 args (rs ! i)) (\<lambda>(reply, rf).
         on_node l (\<lambda>r. sendAppendEntries_reply i args (Some reply) k (r\<lparr>m_tasks := ts\<rparr>)) (rs[i := rf])))"
| "exec ev (ClientCmd i cmd) rs = on_node i (\<lambda>r. bindE (Start ev cmd r) (\<lambda>(_, rf). Inr rf)) rs"
| "exec ev (ApplyTick i) rs = on_node i applierTick rs"

fun run :: "env \<Rightarrow> event list \<Rightarrow> Raft list \<Rightarrow> raft_error + Raft list" where
  "run ev [] rs = Inr rs"
| "run ev (e # es) rs = bindE (exec ev e rs) (run ev es)"

fun in_range :: "nat \<Rightarrow> event \<Rightarrow> bool" where
  "in_range n (Timeout i) = (i < n)"
| "in_range n (Ballot c i) = (c < n \<and> i < n \<and> i \<noteq> c)"
| "in_range n (Beat i) = (i < n)"
| "in_range n (Replicate l i) = (l < n \<and> i < n \<and> i \<noteq> l)"
| "in_range n (ClientCmd i cmd) = (i < n)"
| "in_range n (ApplyTick i) = (i < n)"

definition cluster_of :: "Raft list \<Rightarrow> Cluster" where
  "cluster_of rs = \<lparr>nodes = (\<lambda>i. rs ! i), answers = (\<lambda>_. [])\<rparr>"

section \<open>Scripts stay in the reachable states\<close>

lemma set_node_cluster_of: "i < length rs \<Longrightarrow> set_node i rf (cluster_of rs) = cluster_of (rs[i := rf])"
  by (simp add: set_node_def cluster_of_def fun_eq_iff nth_list_update)

lemma cluster_of_simps [simp]: "nodes (cluster_of rs) i = rs ! i" "answers (cluster_of rs) c = []"
  by (simp_all add: cluster_of_def)

lemma take_ballot_split:
  "take_ballot i pre ts = Some (ts', args, k) \<Longrightarrow>
    \<exists>us vs. pre @ ts = us @ SendRequestVote i args k # vs \<and> ts' = us @ vs"
proof (induction i pre ts rule: take_ballot.induct)
  case (2 i pre j a k' ts)
  then show ?case by (auto split: if_split_asm)
qed auto

lemma take_append_split:
  "take_append i pre ts = Some (ts', args, k) \<Longrightarrow>
    \<exists>us vs. pre @ ts = us @ SendAppendEntries i args k # vs \<and> ts' = us @ vs"
proof (induction i pre ts rule: take_append.induct)
  case (2 i pre j a k' ts)
  then show ?case by (auto split: if_split_asm)
qed auto

lemma on_node_Inr: "on_node i f rs = Inr rs' \<longleftrightarrow> (\<exists>rf. f (rs ! i) = Inr rf \<and> rs' = rs[i := rf])"
  by (auto simp: on_node_def result_simps)

lemma exec_reachable:
  assumes r: "reachable ev n (cluster_of rs)" and len: "length rs = n" and e: "in_range n e"
    and x: "exec ev e rs = Inr rs'"
  shows "reachable ev n (cluster_of rs') \<and> length rs' = n"
proof (cases e)
  case (Timeout i)
  with x obtain rf where "electionTick ev 0 0 (rs ! i) = Inr rf" "rs' = rs[i := rf]"
    by (auto simp: on_node_Inr)
  with step.timeout [of i n ev 0 0 "cluster_of rs" rf] e Timeout len r show ?thesis
    by (auto simp: set_node_cluster_of intro: reachable.further)
next
  case (Beat i)
  with x obtain rf where "heartBeatTick 0 0 (rs ! i) = Inr rf" "rs' = rs[i := rf]"
    by (auto simp: on_node_Inr)
  with step.heartbeat_tick [of i n 0 0 "cluster_of rs" rf ev] e Beat len r show ?thesis
    by (auto simp: set_node_cluster_of intro: reachable.further)
next
  case (ClientCmd i cmd)
  with x obtain rr rf where "Start ev cmd (rs ! i) = Inr (rr, rf)" "rs' = rs[i := rf]"
    by (auto simp: on_node_Inr result_simps)
  with step.client [of i n ev cmd "cluster_of rs" rr rf] e ClientCmd len r show ?thesis
    by (auto simp: set_node_cluster_of intro: reachable.further)
next
  case (ApplyTick i)
  with x obtain rf where "applierTick (rs ! i) = Inr rf" "rs' = rs[i := rf]"
    by (auto simp: on_node_Inr)
  with step.applier [of i n "cluster_of rs" rf ev] e ApplyTick len r show ?thesis
    by (auto simp: set_node_cluster_of intro: reachable.further)
next
  case (Ballot c i)
  show ?thesis
  proof (cases "take_ballot i [] (m_tasks (rs ! c))")
    case None
    with x Ballot r len show ?thesis by simp
  next
    case (Some tak)
    obtain ts args k where t: "tak = (ts, args, k)" by (cases tak)
    let ?rc = "(rs ! c)\<lparr>m_tasks := ts\<rparr>"
    from x Ballot Some t obtain reply rf rf' where rv: "RequestVote ev 0 args (rs ! i) = Inr (reply, rf)"
      and rp: "sendRequestVote_reply ev (Some reply) k (rs[i := rf, c := ?rc] ! c) = Inr rf'"
      and rs': "rs' = rs[i := rf, c := ?rc, c := rf']"
      by (auto simp: on_node_Inr result_simps)
    from e Ballot len have rng: "c < length rs" "i < length rs" "i \<noteq> c" by auto
    from take_ballot_split [of i "[]"] Some t obtain us vs where
      split: "m_tasks (rs ! c) = us @ SendRequestVote i args k # vs" "ts = us @ vs" by fastforce
    let ?s1 = "(set_node c ?rc (set_node i rf (cluster_of rs)))
      \<lparr>answers := (answers (cluster_of rs))(c := answers (cluster_of rs) c @ [(i, reply, k)])\<rparr>"
    have "step ev n (cluster_of rs) ?s1"
      using step.vote_request [of c n "cluster_of rs" us i args k vs ev 0 reply rf] rng split rv len by simp
    with r have r1: "reachable ev n ?s1" by (rule reachable.further)
    have "nodes ?s1 c = ?rc" "answers ?s1 c = [] @ (i, reply, k) # []" by simp_all
    from step.vote_answer [OF _ this(2), of n ev rf', unfolded this(1)] rp rng len
    have "step ev n ?s1 (set_node c rf' ?s1\<lparr>answers := (answers ?s1)(c := [] @ [])\<rparr>)" by simp
    from reachable.further [OF r1 this]
    have "reachable ev n (set_node c rf' ?s1\<lparr>answers := (answers ?s1)(c := [] @ [])\<rparr>)" .
    moreover have "set_node c rf' ?s1\<lparr>answers := (answers ?s1)(c := [] @ [])\<rparr> = cluster_of rs'"
      using rng rs' by (simp add: cluster_of_def set_node_def fun_eq_iff nth_list_update)
    ultimately show ?thesis using rs' len by simp
  qed
next
  case (Replicate l i)
  show ?thesis
  proof (cases "take_append i [] (m_tasks (rs ! l))")
    case None
    with x Replicate r len show ?thesis by simp
  next
    case (Some tak)
    obtain ts args k where t: "tak = (ts, args, k)" by (cases tak)
    from e Replicate len have rng: "l < length rs" "i < length rs" "i \<noteq> l" by auto
    from x Replicate Some t rng obtain reply rf rf' where ae: "AppendEntries ev 0 args (rs ! i) = Inr (reply, rf)"
      and rp: "sendAppendEntries_reply i args (Some reply) k ((rs ! l)\<lparr>m_tasks := ts\<rparr>) = Inr rf'"
      and rs': "rs' = rs[i := rf, l := rf']"
      by (auto simp: on_node_Inr result_simps)
    from take_append_split [of i "[]"] Some t obtain us vs where
      split: "m_tasks (rs ! l) = us @ SendAppendEntries i args k # vs" "ts = us @ vs" by fastforce
    have "reachable ev n (cluster_of (rs[i := rf]))"
      using reachable.further [OF r step.append [of i n ev 0 args _ reply rf]] ae rng len
      by (simp add: set_node_cluster_of)
    from reachable.further [OF this step.append_answer [of l n _ us i args k vs "Some reply" rf']]
    show ?thesis using rng split rp rs' len by (simp add: set_node_cluster_of)
  qed
qed

lemma run_reachable:
  "reachable ev n (cluster_of rs) \<Longrightarrow> length rs = n \<Longrightarrow> \<forall>e \<in> set es. in_range n e \<Longrightarrow> run ev es rs = Inr rs'
    \<Longrightarrow> reachable ev n (cluster_of rs') \<and> length rs' = n"
proof (induction es arbitrary: rs)
  case (Cons e es)
  from Cons.prems(4) obtain rs1 where "exec ev e rs = Inr rs1" "run ev es rs1 = Inr rs'"
    by (auto simp: result_simps)
  with exec_reachable [OF Cons.prems(1,2), of e rs1] Cons.prems(3) Cons.IH [of rs1] show ?case by simp
qed simp

section \<open>A fresh cluster\<close>

text \<open>
  A concrete environment: the archive is never read back in these runs, so any text does, and
  streams write nothing early.
\<close>

definition demo_env :: env where
  "demo_env = \<lparr>SerializeAsString = (\<lambda>_. ''e''), ParseFromString = (\<lambda>_. \<lparr>command = [], logterm = 0, logindex = 0\<rparr>),
     text_oarchive = (\<lambda>_. ''a''), text_iarchive = (\<lambda>_. None), spill = 0\<rparr>"

definition fresh_node :: "nat \<Rightarrow> nat \<Rightarrow> Raft" where
  "fresh_node n i = \<lparr>m_npeers = n, m_me = i, m_persister = Some (Persister_new [] []), m_currentTerm = 0,
     m_votedFor = -1, m_logs = [], m_commitIndex = 0, m_lastApplied = 0,
     m_nextIndex = replicate n 0, m_matchIndex = replicate n 0, m_status = Follower,
     m_lastResetElectionTime = 0, m_lastResetHearBeatTime = 0, m_lastSnapshotIncludeIndex = 0,
     m_lastSnapshotIncludeTerm = 0, applyChan = [], m_tasks = [], m_counters = []\<rparr>"

definition fresh_cluster :: "nat \<Rightarrow> Raft list" where
  "fresh_cluster n = map (fresh_node n) [0 ..< n]"

lemma fresh_init: "init ev 0 n i (Persister_new [] []) [] = Inr (fresh_node n i)"
  by (simp add: init_def readPersist_def fresh_node_def persister_defs)

lemma fresh_reachable: "reachable ev n (cluster_of (fresh_cluster n))"
proof (rule reachable.start)
  have "init ev 0 n i (Persister_new [] []) [] = Inr (fresh_cluster n ! i)" if "i < n" for i
    using that fresh_init by (simp add: fresh_cluster_def)
  then show "started n (cluster_of (fresh_cluster n))"
    unfolding started_def cluster_of_simps by blast
qed

lemma length_fresh_cluster [simp]: "length (fresh_cluster n) = n"
  by (simp add: fresh_cluster_def)

end
