(* ===== verification/RaftProps.thy ===== *)
theory RaftProps
  imports RaftSync Scenario
begin

text \<open>
  The properties of the Raft nodes, each with the concrete run or state it is checked on.
\<close>

section \<open>A concrete follower and a concrete leader\<close>

definition demo_entry :: "string \<Rightarrow> int \<Rightarrow> int \<Rightarrow> LogEntry" where
  "demo_entry c t i = \<lparr>command = c, logterm = t, logindex = i\<rparr>"

text \<open>Node 1 of 3 with two entries of term 1; node 0, leading term 2, with a third of term 2.\<close>

definition demo_follower :: Raft where
  "demo_follower = fresh_node 3 1\<lparr>m_currentTerm := 1, m_logs := [demo_entry ''a'' 1 1, demo_entry ''b'' 1 2]\<rparr>"

definition demo_leader :: Raft where
  "demo_leader = fresh_node 3 0\<lparr>m_currentTerm := 2, m_status := Leader,
     m_logs := [demo_entry ''a'' 1 1, demo_entry ''b'' 1 2, demo_entry ''c'' 2 3],
     m_nextIndex := [4, 4, 4], m_counters := [1]\<rparr>"

lemmas demo_defs = demo_follower_def demo_leader_def demo_entry_def fresh_node_def raft_wf_def log_wf_def
  getLastLogIndex_def getLastLogIndexAndTerm_def getLastLogTerm_def

lemma demo_wf: "raft_wf demo_follower" "raft_wf demo_leader"
  by (auto simp: demo_defs less_Suc_eq)

lemma demo_last: "getLastLogIndex demo_follower = 2" "getLastLogIndex demo_leader = 3"
  by (simp_all add: demo_defs)

section \<open>Elections\<close>

text \<open>C1: in every reachable state of a cluster (any number of nodes, started from any disk
  contents, with lost and delayed votes and arbitrary append, snapshot and reply messages) a term
  has at most one leader: a node other than the leader of a term never leads that term.\<close>

theorem election_safety:
  assumes "reachable ev n s" and "i < n" "j < n" "i \<noteq> j"
    and "m_status (nodes s i) = Leader" and "m_currentTerm (nodes s j) = m_currentTerm (nodes s i)"
  shows "m_status (nodes s j) \<noteq> Leader"
  using reachable_inv [OF assms(1)] leaders_agree [of n s _ _ _ i j] assms(2-6) by metis

definition election_script :: "event list" where
  "election_script = [Timeout 0, Ballot 0 1, Ballot 0 2]"

theorem election_safety_witness:
  "case run demo_env election_script (fresh_cluster 3) of Inl _ \<Rightarrow> False
   | Inr rs \<Rightarrow> m_status (rs ! 0) = Leader \<and> m_currentTerm (rs ! 1) = 1 \<and> m_status (rs ! 1) \<noteq> Leader"
proof -
  have "case run demo_env election_script (fresh_cluster 3) of Inl _ \<Rightarrow> False
    | Inr rs \<Rightarrow> m_status (rs ! 0) = Leader \<and> m_currentTerm (rs ! 0) = 1 \<and> m_currentTerm (rs ! 1) = 1"
    by code_simp
  then obtain rs where rs: "run demo_env election_script (fresh_cluster 3) = Inr rs"
    "m_status (rs ! 0) = Leader" "m_currentTerm (rs ! 0) = 1" "m_currentTerm (rs ! 1) = 1"
    by (auto split: sum.splits)
  have "reachable demo_env 3 (cluster_of rs)"
    using run_reachable [OF fresh_reachable _ _ rs(1)] by (simp add: election_script_def)
  from election_safety [OF this, of 0 1] rs show ?thesis by simp
qed

text \<open>C9: the answers to vote requests never abort a node: in every reachable state, handling an
  answer that is on its way returns normally; in particular the assertion that a node does not win
  the same term twice cannot fire, and the vote counter it writes exists.\<close>

theorem vote_answers_never_abort:
  assumes "reachable ev n s" and "c < n" and "(i, reply, k) \<in> set (answers s c)"
  shows "\<exists>rf'. sendRequestVote_reply ev (Some reply) k (nodes s c) = Inr rf'"
proof -
  obtain g S E where inv: "vote_inv n s g S E" using reachable_inv [OF assms(1)] by blast
  obtain as as' where "answers s c = as @ (i, reply, k) # as'" using assms(3) by (metis split_list)
  from answer_never_aborts [OF vote_invD [OF inv assms(2), unfolded this]] inv
  show ?thesis by (simp add: vote_inv_def)
qed

theorem vote_answers_never_abort_witness:
  "\<exists>s reply rf'. reachable demo_env 3 s \<and> answers s 0 = [(1, reply, 0)] \<and> rvr_votegranted reply
    \<and> sendRequestVote_reply demo_env (Some reply) 0 (nodes s 0) = Inr rf'"
proof -
  have "case run demo_env [Timeout 0] (fresh_cluster 3) of Inl _ \<Rightarrow> False
    | Inr rs \<Rightarrow> (case m_tasks (rs ! 0) of SendRequestVote i args k # ts \<Rightarrow> i = 1 \<and> k = 0
        \<and> grants (rs ! 1) args | _ \<Rightarrow> False)"
    by code_simp
  then obtain rs args ts where rs: "run demo_env [Timeout 0] (fresh_cluster 3) = Inr rs"
    "m_tasks (rs ! 0) = [] @ SendRequestVote 1 args 0 # ts" "grants (rs ! 1) args"
    by (auto split: sum.splits list.splits task.splits)
  have r: "reachable demo_env 3 (cluster_of rs)"
    using run_reachable [OF fresh_reachable _ _ rs(1)] by simp
  obtain reply rf where rv: "RequestVote demo_env 0 args (rs ! 1) = Inr (reply, rf)" "rvr_votegranted reply"
    by (rule RequestVote_cases [of demo_env 0 args "rs ! 1"]) (use rs(3) in auto)
  let ?s = "(set_node 0 ((rs ! 0)\<lparr>m_tasks := [] @ ts\<rparr>) (set_node 1 rf (cluster_of rs)))
    \<lparr>answers := (answers (cluster_of rs))(0 := answers (cluster_of rs) 0 @ [(1, reply, 0)])\<rparr>"
  have "step demo_env 3 (cluster_of rs) ?s"
    using step.vote_request [of 0 3 "cluster_of rs" "[]" 1 args 0 ts demo_env 0 reply rf] rs rv by simp
  with r have r': "reachable demo_env 3 ?s" by (rule reachable.further)
  have "(1, reply, 0) \<in> set (answers ?s 0)" by simp
  from vote_answers_never_abort [OF r' _ this] obtain rf' where
    "sendRequestVote_reply demo_env (Some reply) 0 (nodes ?s 0) = Inr rf'" by auto
  with r' rv(2) show ?thesis by (intro exI [of _ ?s] exI [of _ reply] exI [of _ rf']) simp
qed

text \<open>C8: what a vote request does, on every branch: the vote is given exactly when the request's term is
  not old, the candidate's log is at least as up to date, and no other candidate has this node's vote
  for the term; the term becomes the larger one; the answer carries the new term; the log, the commit
  and apply positions are untouched; and what is on disk afterwards is the new term and vote.\<close>

theorem request_vote_correct:
  assumes "m_persister rf = Some p"
  shows "\<exists>reply rf'. RequestVote ev now args rf = Inr (reply, rf')
    \<and> rvr_votegranted reply = (rv_term args \<ge> m_currentTerm rf
         \<and> UpToDate rf (rv_lastlogindex args) (rv_lastlogterm args)
         \<and> (rv_term args > m_currentTerm rf \<or> m_votedFor rf = -1 \<or> m_votedFor rf = rv_candidateid args))
    \<and> rvr_term reply = m_currentTerm rf'
    \<and> m_currentTerm rf' = max (m_currentTerm rf) (rv_term args)
    \<and> m_votedFor rf' = (if rvr_votegranted reply then rv_candidateid args
         else if rv_term args > m_currentTerm rf then -1 else m_votedFor rf)
    \<and> m_status rf' = (if rv_term args > m_currentTerm rf then Follower else m_status rf)
    \<and> same_log rf rf' \<and> m_commitIndex rf' = m_commitIndex rf \<and> m_lastApplied rf' = m_lastApplied rf
    \<and> m_persister rf' = Some (SaveRaftState (spill ev) (persistData ev rf') p)"
proof (rule RequestVote_cases [of ev now args rf])
  fix reply rf2
  assume r: "RequestVote ev now args rf = Inr (reply, persist ev rf2)" "same_log rf rf2"
    "m_commitIndex rf2 = m_commitIndex rf" "m_lastApplied rf2 = m_lastApplied rf" "m_persister rf2 = m_persister rf"
    "m_currentTerm rf2 = max (m_currentTerm rf) (rv_term args)" "rvr_term reply = m_currentTerm rf2"
    "rvr_votegranted reply = grants rf args"
    "m_votedFor rf2 = (if grants rf args then rv_candidateid args
       else if rv_term args > m_currentTerm rf then -1 else m_votedFor rf)"
    "m_status rf2 = (if rv_term args > m_currentTerm rf then Follower else m_status rf)"
  have "m_persister (persist ev rf2) = Some (SaveRaftState (spill ev) (persistData ev rf2) p)"
    using r(5) assms by (simp add: persist_def)
  moreover have "persistData ev (persist ev rf2) = persistData ev rf2"
    by (rule persistData_fields) simp_all
  ultimately show ?thesis using r
    by (intro exI [of _ reply] exI [of _ "persist ev rf2"]) (simp add: same_log_def grants_def)
qed

theorem request_vote_correct_witness:
  "\<exists>reply rf'. RequestVote demo_env 0 \<lparr>rv_term = 2, rv_candidateid = 0, rv_lastlogindex = 3, rv_lastlogterm = 2\<rparr>
      demo_follower = Inr (reply, rf') \<and> rvr_votegranted reply \<and> m_currentTerm rf' = 2 \<and> m_votedFor rf' = 0"
proof -
  let ?args = "\<lparr>rv_term = 2, rv_candidateid = 0, rv_lastlogindex = 3, rv_lastlogterm = 2\<rparr> :: RequestVoteArgs"
  obtain p where "m_persister demo_follower = Some p" by (simp add: demo_defs)
  from request_vote_correct [OF this, of demo_env 0 ?args] obtain reply rf' where
    r: "RequestVote demo_env 0 ?args demo_follower = Inr (reply, rf')" and
    g: "rvr_votegranted reply = (rv_term ?args \<ge> m_currentTerm demo_follower
         \<and> UpToDate demo_follower (rv_lastlogindex ?args) (rv_lastlogterm ?args)
         \<and> (rv_term ?args > m_currentTerm demo_follower \<or> m_votedFor demo_follower = -1
             \<or> m_votedFor demo_follower = rv_candidateid ?args))" and
    t: "m_currentTerm rf' = max (m_currentTerm demo_follower) (rv_term ?args)" and
    v: "m_votedFor rf' = (if rvr_votegranted reply then rv_candidateid ?args
         else if rv_term ?args > m_currentTerm demo_follower then -1 else m_votedFor demo_follower)"
    by blast
  have "rvr_votegranted reply" unfolding g by (simp add: UpToDate_def demo_defs)
  with r t v show ?thesis by (auto simp: demo_defs)
qed

section \<open>Log replication\<close>

text \<open>C3: a node stays well formed through every operation of the code, from its start with an empty
  disk on: its entries carry consecutive indices from the one after its snapshot, the applied
  position lies between the snapshot and the end of the log, and the commit position never passes the end
  of the log. Append requests are assumed to carry consecutive entries; all else is arbitrary.\<close>

theorem node_stays_well_formed:
  assumes "init ev now n i p ch = Inr rf0" and "ReadRaftState p = []" and "i < n"
    and "(operation ev)\<^sup>*\<^sup>* rf0 rf"
  shows "(\<forall>k < length (m_logs rf). logindex (m_logs rf ! k) = m_lastSnapshotIncludeIndex rf + 1 + int k)
    \<and> m_lastSnapshotIncludeIndex rf \<le> m_lastApplied rf \<and> m_lastApplied rf \<le> getLastLogIndex rf
    \<and> m_commitIndex rf \<le> getLastLogIndex rf
    \<and> getLastLogIndex rf = m_lastSnapshotIncludeIndex rf + int (length (m_logs rf))"
proof -
  have "raft_wf rf0"
    using assms(1,2,3) by (auto simp: init_def readPersist_def Let_def raft_wf_def log_wf_def
        getLastLogIndex_def getLastLogIndexAndTerm_def)
  with assms(4) have "raft_wf rf" by (induction rule: rtranclp_induct) (auto intro: operation_keeps_wf)
  then show ?thesis using last_index_wf [of rf] by (simp add: raft_wf_def log_wf_def)
qed

theorem node_stays_well_formed_witness:
  "\<exists>rf. (operation demo_env)\<^sup>*\<^sup>* (fresh_node 3 1) rf \<and> length (m_logs rf) = 1 \<and> logindex (m_logs rf ! 0) = 1"
proof -
  let ?args = "\<lparr>ae_term = 1, ae_leaderid = 0, ae_prevlogindex = 0, ae_prevlogterm = 0,
    ae_entries = [demo_entry ''a'' 1 1], ae_leadercommit = 0\<rparr>"
  have "case AppendEntries demo_env 0 ?args (fresh_node 3 1) of Inl _ \<Rightarrow> False
    | Inr (_, rf) \<Rightarrow> length (m_logs rf) = 1 \<and> m_lastSnapshotIncludeIndex rf = 0" by code_simp
  then obtain reply rf where r: "AppendEntries demo_env 0 ?args (fresh_node 3 1) = Inr (reply, rf)"
    "length (m_logs rf) = 1" "m_lastSnapshotIncludeIndex rf = 0"
    by (auto split: sum.splits)
  have "ae_wf ?args" by (simp add: ae_wf_def demo_entry_def)
  from operation.append [OF this r(1)] have op: "(operation demo_env)\<^sup>*\<^sup>* (fresh_node 3 1) rf" by (rule r_into_rtranclp)
  have "ReadRaftState (Persister_new [] []) = []" by (simp add: persister_defs)
  from node_stays_well_formed [OF fresh_init this _ op] have
    "\<forall>k < length (m_logs rf). logindex (m_logs rf ! k) = m_lastSnapshotIncludeIndex rf + 1 + int k" by simp
  with r op show ?thesis by auto
qed

text \<open>C2: Let a request have consecutive entries, a previous index that is not below the follower's
  snapshot (below it the code asserts), and no entry with the index and term of an entry of the log but
  another command (on which the code asserts, too). Then a
  follower accepts it exactly when the request's term is not old and its own
  log has the previous index with the previous term; then every entry of the request is in its log,
  every other index is as it was, also those behind the request's, the commit position is the larger of its own and the leader's cut at
  the end of the log, and the node is a follower of the request's term. Otherwise it refuses and
  its log and commit position stay.\<close>

theorem append_entries_correct:
  assumes wf: "raft_wf rf" and ae: "ae_wf args" and compat: "compatible rf (ae_entries args)"
    and snap: "m_lastSnapshotIncludeIndex rf \<le> ae_prevlogindex args"
  shows "\<exists>reply rf'. AppendEntries ev now args rf = Inr (reply, rf')
    \<and> aer_success reply = (ae_term args \<ge> m_currentTerm rf
        \<and> term_at rf (ae_prevlogindex args) = Some (ae_prevlogterm args))
    \<and> aer_term reply = m_currentTerm rf' \<and> m_currentTerm rf' = max (m_currentTerm rf) (ae_term args)
    \<and> (if aer_success reply
       then m_status rf' = Follower
         \<and> (\<forall>j. entry_at rf' j = (if ae_prevlogindex args < j \<and> j \<le> ae_prevlogindex args + int (length (ae_entries args))
              then Some (ae_entries args ! nat (j - ae_prevlogindex args - 1)) else entry_at rf j))
         \<and> m_commitIndex rf' = max (m_commitIndex rf) (min (ae_leadercommit args) (getLastLogIndex rf'))
       else same_log rf rf' \<and> m_commitIndex rf' = m_commitIndex rf)"
proof (cases "accepts rf args")
  case True
  from AppendEntries_accept [OF wf True ae compat, of ev now] obtain reply logs rf' where
    f': "rf' = persist ev ((follow now args rf)\<lparr>m_logs := logs,
         m_commitIndex := max (m_commitIndex rf) (min (ae_leadercommit args)
            (max (getLastLogIndex rf) (ae_prevlogindex args + int (length (ae_entries args)))))\<rparr>)" and
    a: "AppendEntries ev now args rf = Inr (reply, rf')" "aer_success reply" "aer_term reply = ae_term args"
      "entry_at (rf\<lparr>m_logs := logs\<rparr>) = overlay (entry_at rf) (ae_prevlogindex args + 1) (ae_entries args)"
      "getLastLogIndex (rf\<lparr>m_logs := logs\<rparr>)
        = max (getLastLogIndex rf) (ae_prevlogindex args + int (length (ae_entries args)))"
    by blast
  have "same_log (rf\<lparr>m_logs := logs\<rparr>) rf'"
    using follow_simps(1) [of rf now args] by (simp add: f' same_log_def)
  note sl = same_log_simps [OF this]
  have "entry_at rf' j = (if ae_prevlogindex args < j \<and> j \<le> ae_prevlogindex args + int (length (ae_entries args))
              then Some (ae_entries args ! nat (j - ae_prevlogindex args - 1)) else entry_at rf j)" for j
    by (simp add: sl(4) a(4) overlay_def algebra_simps)
  moreover have "m_currentTerm rf' = ae_term args" "m_status rf' = Follower" "ae_term args \<ge> m_currentTerm rf"
    "m_commitIndex rf' = max (m_commitIndex rf) (min (ae_leadercommit args) (getLastLogIndex rf'))"
    using True unfolding sl(2) a(5) by (simp_all add: f' accepts_def)
  ultimately show ?thesis using a(1-3) True by (auto simp: accepts_def)
next
  case False
  have lw: "log_wf rf" using wf by (simp add: raft_wf_def)
  show ?thesis
  proof (cases "ae_term args < m_currentTerm rf")
    case True
    then show ?thesis by (auto simp: AppendEntries_stale same_log_def)
  next
    case ge: False
    with False AppendEntries_reject [OF lw _ False snap, of ev now] obtain reply where
      a: "AppendEntries ev now args rf = Inr (reply, persist ev (follow now args rf))" "\<not> aer_success reply"
        "aer_term reply = ae_term args" by auto
    moreover have "same_log rf (persist ev (follow now args rf))"
      using follow_simps(1) [of rf now args] by (simp add: same_log_def)
    ultimately show ?thesis using ge False by (auto simp: accepts_def)
  qed
qed

theorem append_entries_correct_witness:
  "\<exists>reply rf'. AppendEntries demo_env 0 (append_args demo_leader 3) demo_follower = Inr (reply, rf')
    \<and> aer_success reply \<and> entry_at rf' 3 = Some (demo_entry ''c'' 2 3) \<and> entry_at rf' 1 = Some (demo_entry ''a'' 1 1)"
proof -
  let ?args = "append_args demo_leader 3"
  have args: "?args = \<lparr>ae_term = 2, ae_leaderid = 0, ae_prevlogindex = 2, ae_prevlogterm = 1,
      ae_entries = [demo_entry ''c'' 2 3], ae_leadercommit = 0\<rparr>"
    by (simp add: append_args_def log_from_def term_at_def entry_at_def demo_defs)
  have "ae_wf ?args" "compatible demo_follower (ae_entries ?args)"
    "m_lastSnapshotIncludeIndex demo_follower \<le> ae_prevlogindex ?args"
    unfolding args by (simp_all add: ae_wf_def compatible_def entry_at_def demo_defs)
  from append_entries_correct [OF demo_wf(1) this, of demo_env 0] obtain reply rf' where
    r: "AppendEntries demo_env 0 ?args demo_follower = Inr (reply, rf')" and
    s: "aer_success reply = (ae_term ?args \<ge> m_currentTerm demo_follower
        \<and> term_at demo_follower (ae_prevlogindex ?args) = Some (ae_prevlogterm ?args))" and
    e: "aer_success reply \<Longrightarrow> \<forall>j. entry_at rf' j = (if ae_prevlogindex ?args < j \<and> j \<le> ae_prevlogindex ?args
        + int (length (ae_entries ?args)) then Some (ae_entries ?args ! nat (j - ae_prevlogindex ?args - 1))
        else entry_at demo_follower j)"
    by auto
  have ok: "aer_success reply" unfolding s args by (simp add: term_at_def entry_at_def demo_defs)
  from e [OF this] have "entry_at rf' 3 = Some (demo_entry ''c'' 2 3)" "entry_at rf' 1 = Some (demo_entry ''a'' 1 1)"
    unfolding args by (simp_all add: entry_at_def demo_defs)
  with r ok show ?thesis by blast
qed

text \<open>A refusal is useful and harmless: refusing a request of a current term whose previous index
  is not below the follower's snapshot, the follower names as next index one that is at most the
  previous index it refused, and either above its snapshot or that same index; all its entries from
  there to the previous index have one term, so no entry that could still match is skipped except
  within the conflicting term.\<close>

theorem append_entries_refusal_hint:
  assumes wf: "raft_wf rf" and "ae_term args \<ge> m_currentTerm rf"
    and snap: "m_lastSnapshotIncludeIndex rf \<le> ae_prevlogindex args"
    and no: "term_at rf (ae_prevlogindex args) \<noteq> Some (ae_prevlogterm args)"
  shows "\<exists>reply rf'. AppendEntries ev now args rf = Inr (reply, rf') \<and> \<not> aer_success reply
    \<and> aer_updatenextindex reply \<le> ae_prevlogindex args
    \<and> (m_lastSnapshotIncludeIndex rf < aer_updatenextindex reply \<or> aer_updatenextindex reply = ae_prevlogindex args)
    \<and> (\<forall>j. aer_updatenextindex reply \<le> j \<and> j \<le> ae_prevlogindex args
         \<longrightarrow> term_at rf j = term_at rf (ae_prevlogindex args))"
proof -
  have lw: "log_wf rf" using wf by (simp add: raft_wf_def)
  have "\<not> accepts rf args" using no by (simp add: accepts_def)
  from AppendEntries_reject [OF lw assms(2) this snap, of ev now] show ?thesis
    unfolding same_terms_def by blast
qed

theorem append_entries_refusal_hint_witness:
  "\<exists>reply rf'. AppendEntries demo_env 0 (append_args demo_leader 4) demo_follower = Inr (reply, rf')
    \<and> \<not> aer_success reply \<and> aer_updatenextindex reply \<le> 3"
proof -
  let ?args = "append_args demo_leader 4"
  have args: "?args = \<lparr>ae_term = 2, ae_leaderid = 0, ae_prevlogindex = 3, ae_prevlogterm = 2,
      ae_entries = [], ae_leadercommit = 0\<rparr>"
    by (simp add: append_args_def log_from_def term_at_def entry_at_def demo_defs)
  have "ae_term ?args \<ge> m_currentTerm demo_follower" "m_lastSnapshotIncludeIndex demo_follower \<le> ae_prevlogindex ?args"
    "term_at demo_follower (ae_prevlogindex ?args) \<noteq> Some (ae_prevlogterm ?args)"
    unfolding args by (simp_all add: term_at_def entry_at_def demo_defs)
  from append_entries_refusal_hint [OF demo_wf(1) this, of demo_env 0] show ?thesis unfolding args by auto
qed

text \<open>A follower whose snapshot is ahead of the previous index of an append request of a current term
  does not answer: the branch that prepares the refusal lacks its return, the match test that follows
  asserts that the index is not below the snapshot, and the process exits. A delayed duplicate of an
  old request is enough.\<close>

theorem append_below_snapshot_exits:
  assumes "raft_wf rf" and "ae_term args \<ge> m_currentTerm rf"
    and "ae_prevlogindex args < m_lastSnapshotIncludeIndex rf"
  shows "AppendEntries ev now args rf = Inl AssertFailed"
  using assms by (intro AppendEntries_below_snapshot) (auto simp: raft_wf_def)

theorem append_below_snapshot_exits_witness:
  "AppendEntries demo_env 0 (append_args demo_leader 2)
     (demo_follower\<lparr>m_logs := [], m_lastSnapshotIncludeIndex := 2, m_lastSnapshotIncludeTerm := 1, m_commitIndex := 2,
       m_lastApplied := 2\<rparr>) = Inl AssertFailed"
  by (rule append_below_snapshot_exits) (simp_all add: append_args_def demo_defs)

text \<open>C4: log replication makes progress: a leader and a follower without snapshots, whose logs satisfy
  Raft's log matching, reach equal logs up to the leader's last index within as many heartbeat rounds
  as the leader's next index for that follower; then the leader knows it (match and next index). Every
  handler on the way returns normally. Rounds are assumed not to be interleaved with other events.\<close>

theorem replication_converges:
  assumes "raft_wf l" "raft_wf f" "m_status l = Leader" "m_currentTerm f \<le> m_currentTerm l"
    and "m_lastSnapshotIncludeIndex l = 0" "m_lastSnapshotIncludeIndex f = 0"
    and "m_lastSnapshotIncludeTerm f = m_lastSnapshotIncludeTerm l"
    and "i < m_npeers l" "k < length (m_counters l)"
    and "1 \<le> m_nextIndex l ! i" "m_nextIndex l ! i \<le> getLastLogIndex l + 1"
    and "m_matchIndex l ! i \<le> getLastLogIndex l" "log_matching f l"
  shows "\<exists>n \<le> nat (m_nextIndex l ! i). \<exists>l' f'. sync_rounds ev i k n (l, f) = Inr (l', f')
    \<and> m_logs l' = m_logs l \<and> (\<forall>j \<le> getLastLogIndex l. entry_at f' j = entry_at l j)
    \<and> m_matchIndex l' ! i = getLastLogIndex l \<and> m_nextIndex l' ! i = getLastLogIndex l + 1"
proof -
  have "can_sync i k l f" using assms by (simp add: can_sync_def)
  from sync_converges [OF this, of ev] obtain n l' f' where
    r: "n \<le> nat (m_nextIndex l ! i)" "sync_rounds ev i k n (l, f) = Inr (l', f')" "synced i l' f'" "same_log l l'"
    by blast
  from same_log_simps(2,4) [OF r(4)] r(3) have
    "\<forall>j \<le> getLastLogIndex l. entry_at f' j = entry_at l j" "m_matchIndex l' ! i = getLastLogIndex l"
    "m_nextIndex l' ! i = getLastLogIndex l + 1" by (simp_all add: synced_def)
  moreover have "m_logs l' = m_logs l" using r(4) by (simp add: same_log_def)
  ultimately show ?thesis using r(1,2) by blast
qed

theorem replication_converges_witness:
  "\<exists>n \<le> 4. \<exists>l' f'. sync_rounds demo_env 1 0 n (demo_leader, demo_follower) = Inr (l', f')
    \<and> (\<forall>j \<le> 3. entry_at f' j = entry_at demo_leader j) \<and> m_matchIndex l' ! 1 = 3"
proof -
  have "log_matching demo_follower demo_leader"
    unfolding log_matching_def
  proof (intro allI impI)
    fix p j :: int
    assume p: "term_at demo_follower p \<noteq> None \<and> term_at demo_follower p = term_at demo_leader p" and j: "j \<le> p"
    have "p \<le> 2"
    proof (rule ccontr)
      assume "\<not> p \<le> 2"
      then have "term_at demo_follower p = None" by (simp add: term_at_def entry_at_def demo_defs)
      with p show False by simp
    qed
    with j have "j \<le> 2" by simp
    then consider "j \<le> 0" | "j = 1" | "j = 2" by linarith
    then show "entry_at demo_follower j = entry_at demo_leader j"
      by cases (simp_all add: entry_at_def demo_defs)
  qed
  from replication_converges [OF demo_wf(2,1) _ _ _ _ _ _ _ _ _ _ this, of 1 0 demo_env]
  show ?thesis unfolding demo_last by (simp add: demo_leader_def demo_follower_def fresh_node_def) metis
qed

end
