(* ===== verification/RaftServiceProps.thy ===== *)
theory RaftServiceProps
  imports RaftProps
begin

text \<open>
  More properties of the Raft nodes: what the leader sends and commits, what the service is told, how the
  log is compacted, and two ways in which the guarantees of Raft are lost.
\<close>

section \<open>The leader\<close>

text \<open>A heartbeat of a well-formed leader returns normally and queues, for every peer in turn,
  either the sending of the snapshot (when the peer's next index is not above it) or an append request
  whose previous index is one below the next index, with the term the leader has there, and whose entries are
  the leader's whole log from the next index to its end; nothing else of the node changes but the timer
  and the new answer counter, which starts at one.\<close>

theorem heartbeat_messages:
  assumes wf: "raft_wf rf" and "m_status rf = Leader"
    and nx: "\<forall>i < m_npeers rf. i \<noteq> m_me rf \<longrightarrow> 1 \<le> m_nextIndex rf ! i \<and> m_nextIndex rf ! i \<le> getLastLogIndex rf + 1"
  shows "\<exists>ts. doHeartBeat now rf = Inr (rf\<lparr>m_counters := m_counters rf @ [1], m_tasks := m_tasks rf @ ts,
      m_lastResetHearBeatTime := now\<rparr>)
    \<and> list_all2 (\<lambda>i t. if m_nextIndex rf ! i \<le> m_lastSnapshotIncludeIndex rf then t = LeaderSendSnapShot i
        else \<exists>args. t = SendAppendEntries i args (length (m_counters rf))
          \<and> ae_prevlogindex args = m_nextIndex rf ! i - 1
          \<and> term_at rf (ae_prevlogindex args) = Some (ae_prevlogterm args)
          \<and> int (length (ae_entries args)) = getLastLogIndex rf + 1 - m_nextIndex rf ! i
          \<and> (\<forall>k < length (ae_entries args). entry_at rf (m_nextIndex rf ! i + int k) = Some (ae_entries args ! k)))
      (filter (\<lambda>i. i \<noteq> m_me rf) [0 ..< m_npeers rf]) ts"
proof -
  have lw: "log_wf rf" using wf by (simp add: raft_wf_def)
  have "next_ok rf" using nx by (simp add: next_ok_def)
  note hb = doHeartBeat_wf [OF wf this assms(2), of now]
  have "if m_nextIndex rf ! i \<le> m_lastSnapshotIncludeIndex rf then beat_task rf k i = LeaderSendSnapShot i
        else \<exists>args. beat_task rf k i = SendAppendEntries i args k
          \<and> ae_prevlogindex args = m_nextIndex rf ! i - 1
          \<and> term_at rf (ae_prevlogindex args) = Some (ae_prevlogterm args)
          \<and> int (length (ae_entries args)) = getLastLogIndex rf + 1 - m_nextIndex rf ! i
          \<and> (\<forall>k < length (ae_entries args). entry_at rf (m_nextIndex rf ! i + int k) = Some (ae_entries args ! k))"
    if "i < m_npeers rf" "i \<noteq> m_me rf" for i k
  proof (cases "m_nextIndex rf ! i \<le> m_lastSnapshotIncludeIndex rf")
    case True
    then show ?thesis by (simp add: beat_task_def)
  next
    case False
    let ?ni = "m_nextIndex rf ! i"
    have r: "m_lastSnapshotIncludeIndex rf < ?ni" "?ni \<le> getLastLogIndex rf + 1" using False that nx by auto
    obtain t where "term_at rf (?ni - 1) = Some t" using term_at_Some_iff [OF lw, of "?ni - 1"] r by auto
    moreover have "entry_at rf (?ni + int q) = Some (log_from rf ?ni ! q)" if "q < length (log_from rf ?ni)" for q
      using that log_from_nth [OF lw r(1), of "?ni + int q"] log_from_length [OF lw r] by simp
    ultimately show ?thesis using False log_from_length [OF lw r]
      by (simp add: beat_task_def append_args_def)
  qed
  then show ?thesis
    by (intro exI [of _ "map (beat_task rf (length (m_counters rf))) (filter (\<lambda>i. i \<noteq> m_me rf) [0 ..< m_npeers rf])"]
        conjI [OF hb]) (auto simp: list_all2_map2 intro!: list.rel_refl_strong)
qed

theorem heartbeat_messages_witness:
  "\<exists>ts. doHeartBeat 0 demo_leader = Inr (demo_leader\<lparr>m_counters := [1, 1], m_tasks := ts, m_lastResetHearBeatTime := 0\<rparr>)
    \<and> length ts = 2"
proof -
  have "\<forall>i < m_npeers demo_leader. i \<noteq> m_me demo_leader \<longrightarrow> 1 \<le> m_nextIndex demo_leader ! i
      \<and> m_nextIndex demo_leader ! i \<le> getLastLogIndex demo_leader + 1"
    by (auto simp: demo_defs less_Suc_eq numeral_3_eq_3)
  from heartbeat_messages [OF demo_wf(2) _ this, of 0] obtain ts where
    "doHeartBeat 0 demo_leader = Inr (demo_leader\<lparr>m_counters := m_counters demo_leader @ [1],
      m_tasks := m_tasks demo_leader @ ts, m_lastResetHearBeatTime := 0\<rparr>)"
    "length ts = length (filter (\<lambda>i. i \<noteq> m_me demo_leader) [0 ..< m_npeers demo_leader])"
    by (auto simp: demo_leader_def dest: list_all2_lengthD)
  then show ?thesis by (simp add: demo_leader_def fresh_node_def upt_rec)
qed

text \<open>C10: starting agreement on a leader appends exactly one entry, of the current term at the next index,
  and reports that index and term; then the commit position is set to the largest index stored on a
  majority whose entry is of the current term (an earlier term is never committed by counting), and
  when there is none it is set to the snapshot index.\<close>

theorem start_and_commit:
  assumes wf: "raft_wf rf" and l: "m_status rf = Leader"
  shows "\<exists>rf'. Start ev cmd rf = Inr ((getLastLogIndex rf + 1, m_currentTerm rf, True), rf')
    \<and> m_logs rf' = m_logs rf @ [\<lparr>command = cmd, logterm = m_currentTerm rf, logindex = getLastLogIndex rf + 1\<rparr>]
    \<and> (let good = (\<lambda>j. m_npeers rf div 2 + 1 \<le> card {i. i < m_npeers rf \<and> (i = m_me rf \<or> m_matchIndex rf ! i \<ge> j)}
             \<and> term_at rf' j = Some (m_currentTerm rf))
       in (m_commitIndex rf' = m_lastSnapshotIncludeIndex rf \<or> good (m_commitIndex rf'))
        \<and> m_commitIndex rf' \<le> getLastLogIndex rf'
        \<and> (\<forall>j. m_commitIndex rf' < j \<and> j \<le> getLastLogIndex rf' \<longrightarrow> \<not> good j))"
proof -
  let ?e = "\<lparr>command = cmd, logterm = m_currentTerm rf, logindex = getLastLogIndex rf + 1\<rparr>"
  let ?rf0 = "rf\<lparr>m_logs := m_logs rf @ [?e]\<rparr>"
  let ?rf1 = "persist ev ?rf0"
  have "getLastLogIndex ?rf0 = getLastLogIndex rf + 1" by (simp add: getLastLogIndex_def getLastLogIndexAndTerm_def)
  moreover have "log_wf ?rf0" using wf by (intro log_wf_append) (simp_all add: raft_wf_def)
  ultimately have wf1: "raft_wf ?rf1" using wf by (auto simp: raft_wf_def)
  obtain c where c: "leaderUpdateCommitIndex ?rf1 = Inr (?rf1\<lparr>m_commitIndex := c\<rparr>)"
    "m_lastSnapshotIncludeIndex ?rf1 \<le> c" "c \<le> getLastLogIndex ?rf1"
    "m_lastSnapshotIncludeIndex ?rf1 < c \<longrightarrow> committable ?rf1 c"
    "\<forall>j. c < j \<and> j \<le> getLastLogIndex ?rf1 \<longrightarrow> \<not> committable ?rf1 j"
    using leaderUpdateCommitIndex_wf [OF wf1] by blast
  define rf2 where "rf2 = ?rf1\<lparr>m_commitIndex := c\<rparr>"
  have sl: "same_log ?rf1 rf2" by (simp add: rf2_def same_log_def)
  have good: "committable ?rf1 j \<longleftrightarrow> m_npeers rf div 2 + 1
      \<le> card {i. i < m_npeers rf \<and> (i = m_me rf \<or> m_matchIndex rf ! i \<ge> j)} \<and> term_at rf2 j = Some (m_currentTerm rf)" for j
    using same_log_simps(5) [OF sl] by (simp add: committable_def replicas_def)
  have "Start ev cmd rf = Inr ((getLastLogIndex rf + 1, m_currentTerm rf, True), rf2)"
    using l c(1) by (simp add: Start_def getNewCommandIndex_def rf2_def)
  moreover have "c = m_lastSnapshotIncludeIndex rf \<or> committable ?rf1 c" using c(2,4) by auto
  ultimately show ?thesis
    using c(3,5) same_log_simps(2) [OF sl] unfolding Let_def good
    by (intro exI [of _ rf2]) (simp add: rf2_def)
qed

theorem start_and_commit_witness:
  "\<exists>rf'. Start demo_env ''d'' demo_leader = Inr ((4, 2, True), rf') \<and> length (m_logs rf') = 4"
proof -
  have "m_status demo_leader = Leader" by (simp add: demo_leader_def)
  from start_and_commit [OF demo_wf(2) this, of demo_env "''d''"] obtain rf' where
    "Start demo_env ''d'' demo_leader = Inr ((getLastLogIndex demo_leader + 1, m_currentTerm demo_leader, True), rf')"
    "m_logs rf' = m_logs demo_leader @ [\<lparr>command = ''d'', logterm = m_currentTerm demo_leader,
       logindex = getLastLogIndex demo_leader + 1\<rparr>]" by blast
  then show ?thesis by (simp add: demo_last) (simp add: demo_leader_def)
qed

text \<open>The commit position of a leader can move backwards: when no peer is known to have any entry
  yet, as right after an election (every match index is 0), a client's request sets it back to the
  snapshot index, whatever had been committed before.\<close>

theorem start_resets_commit_index:
  assumes wf: "raft_wf rf" and l: "m_status rf = Leader" and n: "2 \<le> m_npeers rf"
    and none: "\<forall>i < m_npeers rf. m_matchIndex rf ! i \<le> m_lastSnapshotIncludeIndex rf"
  shows "\<exists>r rf'. Start ev cmd rf = Inr (r, rf') \<and> m_commitIndex rf' = m_lastSnapshotIncludeIndex rf"
proof -
  obtain rf' c where r: "Start ev cmd rf = Inr ((getLastLogIndex rf + 1, m_currentTerm rf, True), rf')"
    "rf' = (persist ev (rf\<lparr>m_logs := m_logs rf'\<rparr>))\<lparr>m_commitIndex := c\<rparr>"
    "c = m_lastSnapshotIncludeIndex rf \<or> committable rf' c" "raft_wf rf'"
    using Start_wf [OF wf l, of ev cmd] by blast
  have f: "m_commitIndex rf' = c" "m_matchIndex rf' = m_matchIndex rf" "m_npeers rf' = m_npeers rf" "m_me rf' = m_me rf"
    "m_lastSnapshotIncludeIndex rf' = m_lastSnapshotIncludeIndex rf"
    by (subst r(2), simp)+
  have "c = m_lastSnapshotIncludeIndex rf"
  proof (rule ccontr)
    assume ne: "c \<noteq> m_lastSnapshotIncludeIndex rf"
    with r(3) have com: "committable rf' c" by blast
    have "m_lastSnapshotIncludeIndex rf \<le> c"
      using com term_at_Some_iff [of rf' c] r(4) f by (auto simp: committable_def raft_wf_def)
    with ne none have "replicas rf' c \<subseteq> {m_me rf}" by (fastforce simp: replicas_def f)
    then have "card (replicas rf' c) \<le> 1" using card_mono [of "{m_me rf}" "replicas rf' c"] by simp
    moreover have "1 < m_npeers rf div 2 + 1" using n by simp
    ultimately show False using com by (simp add: committable_def f)
  qed
  with r(1) f(1) show ?thesis by blast
qed

theorem start_resets_commit_index_witness:
  "m_commitIndex (demo_leader\<lparr>m_commitIndex := 2\<rparr>) = 2
    \<and> (\<exists>r rf'. Start demo_env ''d'' (demo_leader\<lparr>m_commitIndex := 2\<rparr>) = Inr (r, rf') \<and> m_commitIndex rf' = 0)"
proof -
  have wf: "raft_wf (demo_leader\<lparr>m_commitIndex := 2\<rparr>)" by (auto simp: demo_defs less_Suc_eq)
  have "\<forall>i < m_npeers (demo_leader\<lparr>m_commitIndex := 2\<rparr>). m_matchIndex (demo_leader\<lparr>m_commitIndex := 2\<rparr>) ! i
      \<le> m_lastSnapshotIncludeIndex (demo_leader\<lparr>m_commitIndex := 2\<rparr>)"
    by (auto simp: demo_defs less_Suc_eq numeral_3_eq_3)
  from start_resets_commit_index [OF wf _ _ this, of demo_env "''d''"] show ?thesis
    by (simp add: demo_leader_def fresh_node_def)
qed

section \<open>The service\<close>

text \<open>C11: the applier hands the service exactly the committed commands it has not had yet, each once, in
  log order with consecutive indices, after what was queued before; afterwards the applied position is the
  commit position (or stays ahead of it).\<close>

theorem applier_in_order:
  assumes "raft_wf rf"
  shows "\<exists>rf' ms. applierTick rf = Inr rf' \<and> applyChan rf' = applyChan rf @ ms
    \<and> map CommandIndex ms = [m_lastApplied rf + 1 .. m_commitIndex rf]
    \<and> (\<forall>m \<in> set ms. CommandValid m \<and> (\<exists>e. entry_at rf (CommandIndex m) = Some e \<and> Command m = command e))
    \<and> m_lastApplied rf' = max (m_lastApplied rf) (m_commitIndex rf)"
proof -
  let ?ms = "map (apply_msg rf) [m_lastApplied rf + 1 .. m_commitIndex rf]"
  have lw: "log_wf rf" using assms by (simp add: raft_wf_def)
  have "\<exists>e. entry_at rf i = Some e" if "m_lastApplied rf + 1 \<le> i" "i \<le> m_commitIndex rf" for i
    using entry_at_None_iff [OF lw, of i] that assms by (cases "entry_at rf i") (auto simp: raft_wf_def)
  then have "\<forall>m \<in> set ?ms. CommandValid m \<and> (\<exists>e. entry_at rf (CommandIndex m) = Some e \<and> Command m = command e)"
    by (fastforce simp: apply_msg_def ApplyMsg_new_def)
  moreover have "map CommandIndex ?ms = [m_lastApplied rf + 1 .. m_commitIndex rf]"
    by (simp add: o_def apply_msg_def)
  ultimately show ?thesis
    by (intro exI [of _ "rf\<lparr>m_lastApplied := max (m_lastApplied rf) (m_commitIndex rf), applyChan := applyChan rf @ ?ms\<rparr>"]
        exI [of _ ?ms]) (simp add: applierTick_def getApplyLogs_wf [OF assms] fold_Push)
qed

theorem applier_in_order_witness:
  "\<exists>rf' ms. applierTick (demo_follower\<lparr>m_commitIndex := 2\<rparr>) = Inr rf' \<and> applyChan rf' = ms
    \<and> map CommandIndex ms = [1, 2]"
proof -
  have wf: "raft_wf (demo_follower\<lparr>m_commitIndex := 2\<rparr>)" by (auto simp: demo_defs less_Suc_eq)
  have u: "[1 .. 2 :: int] = [1, 2]" by code_simp
  from applier_in_order [OF wf] show ?thesis by (auto simp: demo_follower_def fresh_node_def u)
qed

text \<open>Compaction: the service's snapshot up to an index that is committed and above the node's
  snapshot replaces the log up to it; the rest of the log and its last index stay, the snapshot's
  term is the term of the entry at that index, and state and snapshot are saved. Any other index
  changes nothing.\<close>

theorem snapshot_compacts:
  assumes wf: "raft_wf rf"
  shows "\<exists>rf'. Snapshot ev index snapshot rf = Inr rf'
    \<and> (if m_lastSnapshotIncludeIndex rf < index \<and> index \<le> m_commitIndex rf
       then m_lastSnapshotIncludeIndex rf' = index \<and> term_at rf' index = term_at rf index
         \<and> getLastLogIndex rf' = getLastLogIndex rf
         \<and> (\<forall>j. entry_at rf' j = (if j \<le> index then None else entry_at rf j))
         \<and> m_persister rf' = map_option (Save (spill ev) (persistData ev rf') snapshot) (m_persister rf)
       else rf' = rf)"
proof (cases "m_lastSnapshotIncludeIndex rf < index \<and> index \<le> m_commitIndex rf")
  case False
  then show ?thesis using Snapshot_refused [of index rf ev snapshot] by auto
next
  case True
  have lw: "log_wf rf" and ci: "m_commitIndex rf \<le> getLastLogIndex rf" using wf by (simp_all add: raft_wf_def)
  obtain rf' where r: "Snapshot ev index snapshot rf = Inr rf'"
    "compacted ev index (the (term_at rf index)) snapshot rf rf'" "m_logs rf' = log_from rf (index + 1)"
    using Snapshot_wf [OF wf, of index ev snapshot] True by blast
  then have f: "m_lastSnapshotIncludeIndex rf' = index" "m_lastSnapshotIncludeTerm rf' = the (term_at rf index)"
    by (simp_all add: compacted_def)
  obtain t where "term_at rf index = Some t" using term_at_Some_iff [OF lw, of index] True ci by auto
  with f have "term_at rf' index = term_at rf index" by (simp add: term_at_def)
  with compacted_log [OF lw _ _ r(3) f(1)] True ci r f show ?thesis by (auto simp: compacted_def)
qed

theorem snapshot_compacts_witness:
  "\<exists>rf'. Snapshot demo_env 1 ''s'' (demo_follower\<lparr>m_commitIndex := 2\<rparr>) = Inr rf'
    \<and> m_lastSnapshotIncludeIndex rf' = 1 \<and> entry_at rf' 1 = None \<and> getLastLogIndex rf' = 2"
proof -
  have wf: "raft_wf (demo_follower\<lparr>m_commitIndex := 2\<rparr>)" by (auto simp: demo_defs less_Suc_eq)
  have c: "m_lastSnapshotIncludeIndex (demo_follower\<lparr>m_commitIndex := 2\<rparr>) < 1
      \<and> 1 \<le> m_commitIndex (demo_follower\<lparr>m_commitIndex := 2\<rparr>)" by (simp add: demo_defs)
  have l: "getLastLogIndex (demo_follower\<lparr>m_commitIndex := 2\<rparr>) = 2" by (simp add: demo_defs)
  from snapshot_compacts [OF wf, of demo_env 1 "''s''"] c l show ?thesis
    by (simp only: if_P [OF c]) auto
qed

text \<open>A snapshot from a leader of a current term that is ahead of the node's own replaces it: the
  log keeps exactly its entries above the snapshot's index (none when it ends there or before), the
  applied and commit positions are at least that index, and the snapshot is queued for the service.\<close>

theorem install_snapshot_correct:
  assumes wf: "raft_wf rf" and t: "is_term args \<ge> m_currentTerm rf"
    and i: "m_lastSnapshotIncludeIndex rf < is_lastsnapshotincludeindex args"
  shows "\<exists>rf'. InstallSnapshot ev now args rf = Inr (\<lparr>isr_term = is_term args\<rparr>, rf') \<and> raft_wf rf'
    \<and> m_lastSnapshotIncludeIndex rf' = is_lastsnapshotincludeindex args
    \<and> term_at rf' (is_lastsnapshotincludeindex args) = Some (is_lastsnapshotincludeterm args)
    \<and> (\<forall>j. entry_at rf' j = (if j \<le> is_lastsnapshotincludeindex args then None else entry_at rf j))
    \<and> is_lastsnapshotincludeindex args \<le> m_lastApplied rf' \<and> is_lastsnapshotincludeindex args \<le> m_commitIndex rf'
    \<and> (\<exists>m. m_tasks rf' = m_tasks rf @ [PushMsgToKvServer m] \<and> SnapshotValid m \<and> Snapshot_data m = is_data args
         \<and> SnapshotIndex m = is_lastsnapshotincludeindex args)"
proof -
  let ?i = "is_lastsnapshotincludeindex args"
  have lw: "log_wf rf" using wf by (simp add: raft_wf_def)
  obtain rf' where r: "InstallSnapshot ev now args rf = Inr (\<lparr>isr_term = is_term args\<rparr>, rf')" "raft_wf rf'"
    "m_lastSnapshotIncludeIndex rf' = ?i" "m_lastSnapshotIncludeTerm rf' = is_lastsnapshotincludeterm args"
    "m_logs rf' = log_from rf (?i + 1)" "m_lastApplied rf' = max (m_lastApplied rf) ?i"
    "m_commitIndex rf' = max (m_commitIndex rf) ?i"
    "m_tasks rf' = m_tasks rf @ [PushMsgToKvServer (ApplyMsg_new\<lparr>SnapshotValid := True,
        Snapshot_data := is_data args, SnapshotTerm := is_lastsnapshotincludeterm args, SnapshotIndex := ?i\<rparr>)]"
    using InstallSnapshot_wf [OF wf t i, of ev now] by blast
  have "\<forall>j. entry_at rf' j = (if j \<le> ?i then None else entry_at rf j)"
  proof (cases "?i \<le> getLastLogIndex rf")
    case True
    with compacted_log [OF lw _ True r(5,3)] i show ?thesis by simp
  next
    case False
    then have "length (m_logs rf) \<le> nat (?i - m_lastSnapshotIncludeIndex rf)" using last_index_wf [OF lw] by simp
    then have "m_logs rf' = []" using r(5) by (simp add: log_from_def)
    then have "entry_at rf' j = None" for j by (simp add: entry_at_def)
    moreover have "entry_at rf j = None" if "\<not> j \<le> ?i" for j using False that entry_at_None_iff [OF lw] by simp
    ultimately show ?thesis by simp
  qed
  moreover have "term_at rf' ?i = Some (is_lastsnapshotincludeterm args)" using r(3,4) by (simp add: term_at_def)
  ultimately show ?thesis using r(1-3,6-8) by simp
qed

theorem install_snapshot_correct_witness:
  "\<exists>rf'. InstallSnapshot demo_env 0 \<lparr>is_leaderid = 0, is_term = 2, is_lastsnapshotincludeindex = 1,
      is_lastsnapshotincludeterm = 1, is_data = ''s''\<rparr> demo_follower = Inr (\<lparr>isr_term = 2\<rparr>, rf')
    \<and> entry_at rf' 1 = None \<and> entry_at rf' 2 = Some (demo_entry ''b'' 1 2)"
proof -
  let ?args = "\<lparr>is_leaderid = 0, is_term = 2, is_lastsnapshotincludeindex = 1,
      is_lastsnapshotincludeterm = 1, is_data = ''s''\<rparr>"
  have "is_term ?args \<ge> m_currentTerm demo_follower"
    "m_lastSnapshotIncludeIndex demo_follower < is_lastsnapshotincludeindex ?args" by (simp_all add: demo_defs)
  from install_snapshot_correct [OF demo_wf(1) this, of demo_env 0] obtain rf' where
    "InstallSnapshot demo_env 0 ?args demo_follower = Inr (\<lparr>isr_term = is_term ?args\<rparr>, rf')"
    "\<forall>j. entry_at rf' j = (if j \<le> is_lastsnapshotincludeindex ?args then None else entry_at demo_follower j)"
    by blast
  moreover have "entry_at demo_follower 2 = Some (demo_entry ''b'' 1 2)" by (simp add: entry_at_def demo_defs)
  ultimately show ?thesis by simp
qed

section \<open>Guarantees that are lost\<close>

text \<open>C5: state machine safety fails. In a five-node cluster, without any crash, and with every message one
  that the code itself sent, two nodes hand their services different commands for the same log
  index: the command \<open>x\<close> that the leader of term 2 committed on three nodes and applied is
  overwritten. The conflicting entry at index 2 of node 1 is replaced without dropping the stale entry
  after it, so its log looks as up to date as the one of the old leader, which wins the next election
  with the vote of node 1 and commits its own command at index 2.\<close>

definition lost_entry_script :: "event list" where
  "lost_entry_script =
     [Timeout 0, Ballot 0 1, Ballot 0 2, Ballot 0 3, Ballot 0 4, ClientCmd 0 ''a'', Beat 0,
      Replicate 0 1, Replicate 0 2, Replicate 0 3, Replicate 0 4,
      ClientCmd 0 ''b'', ClientCmd 0 ''c'', Beat 0, Replicate 0 1,
      Timeout 2, Ballot 2 3, Ballot 2 4, ClientCmd 2 ''x'', Beat 2, Replicate 2 1, Replicate 2 3, ApplyTick 2,
      Replicate 0 4,
      Timeout 0, Ballot 0 1, Ballot 0 4, ClientCmd 0 ''y'', Beat 0, Replicate 0 1, Replicate 0 4,
      Beat 0, Replicate 0 1, Replicate 0 4, ApplyTick 0]"

definition applied_commands :: "Raft \<Rightarrow> (int \<times> string) list" where
  "applied_commands rf = map (\<lambda>m. (CommandIndex m, Command m)) (filter CommandValid (applyChan rf))"

theorem committed_entry_is_lost:
  "\<exists>rs. run demo_env lost_entry_script (fresh_cluster 5) = Inr rs
    \<and> reachable demo_env 5 (cluster_of rs)
    \<and> (2, ''x'') \<in> set (applied_commands (rs ! 2)) \<and> (2, ''b'') \<in> set (applied_commands (rs ! 0))"
proof -
  have "case run demo_env lost_entry_script (fresh_cluster 5) of Inl _ \<Rightarrow> False
    | Inr rs \<Rightarrow> (2, ''x'') \<in> set (applied_commands (rs ! 2)) \<and> (2, ''b'') \<in> set (applied_commands (rs ! 0))"
    by code_simp
  then obtain rs where rs: "run demo_env lost_entry_script (fresh_cluster 5) = Inr rs"
    "(2, ''x'') \<in> set (applied_commands (rs ! 2))" "(2, ''b'') \<in> set (applied_commands (rs ! 0))"
    by (auto split: sum.splits)
  have "\<forall>e \<in> set lost_entry_script. in_range 5 e" by (simp add: lost_entry_script_def)
  from run_reachable [OF fresh_reachable _ this rs(1)] rs show ?thesis by simp
qed

text \<open>A restart forgets the vote. Whatever term, vote and log a node has saved, and whatever its
  files hold when its process ends, constructing the persister truncates them, so the started node is
  in term 0 without a vote or a log and grants any candidate its vote in a term in which it
  may already have voted for another.\<close>

theorem restart_forgets_vote:
  assumes "rv_term args \<ge> 0" and "rv_lastlogindex args \<ge> 0" and "rv_lastlogterm args \<ge> 0"
  shows "\<exists>rf0 reply rf1. init ev now n i (Persister_new oldState oldSnapshot) ch = Inr rf0
    \<and> m_currentTerm rf0 = 0 \<and> m_votedFor rf0 = -1 \<and> m_logs rf0 = []
    \<and> RequestVote ev now args rf0 = Inr (reply, rf1) \<and> rvr_votegranted reply
    \<and> m_currentTerm rf1 = rv_term args \<and> m_votedFor rf1 = rv_candidateid args"
proof -
  have "ReadRaftState (Persister_new oldState oldSnapshot) = []" by (simp add: persister_defs)
  then obtain rf0 where i: "init ev now n i (Persister_new oldState oldSnapshot) ch = Inr rf0"
    "m_currentTerm rf0 = 0" "m_votedFor rf0 = -1" "m_logs rf0 = []" "m_lastSnapshotIncludeIndex rf0 = 0"
    "m_lastSnapshotIncludeTerm rf0 = 0"
    by (simp add: init_def readPersist_def)
  then have "grants rf0 args"
    using assms by (auto simp: grants_def UpToDate_def getLastLogIndexAndTerm_def)
  obtain reply rf2 where "RequestVote ev now args rf0 = Inr (reply, persist ev rf2)"
    "rvr_votegranted reply = grants rf0 args" "m_currentTerm rf2 = max (m_currentTerm rf0) (rv_term args)"
    "m_votedFor rf2 = (if grants rf0 args then rv_candidateid args
       else if rv_term args > m_currentTerm rf0 then -1 else m_votedFor rf0)"
    by (rule RequestVote_cases [of ev now args rf0])
  with \<open>grants rf0 args\<close> i(1-4) assms(1) show ?thesis
    by (intro exI [of _ rf0] exI [of _ reply] exI [of _ "persist ev rf2"]) simp
qed

theorem restart_forgets_vote_witness:
  "\<exists>p reply rf rf0 reply' rf1.
    RequestVote demo_env 0 \<lparr>rv_term = 5, rv_candidateid = 0, rv_lastlogindex = 2, rv_lastlogterm = 1\<rparr> demo_follower
      = Inr (reply, rf) \<and> rvr_votegranted reply \<and> m_persister rf = Some p
    \<and> init demo_env 0 3 1 (Persister_new (fst (Persister_destroy p)) (snd (Persister_destroy p))) [] = Inr rf0
    \<and> RequestVote demo_env 0 \<lparr>rv_term = 5, rv_candidateid = 2, rv_lastlogindex = 2, rv_lastlogterm = 1\<rparr> rf0
      = Inr (reply', rf1) \<and> rvr_votegranted reply'"
proof -
  let ?a = "\<lambda>c. \<lparr>rv_term = 5, rv_candidateid = c, rv_lastlogindex = 2, rv_lastlogterm = 1\<rparr> :: RequestVoteArgs"
  have "case RequestVote demo_env 0 (?a 0) demo_follower of Inl _ \<Rightarrow> False
    | Inr (reply, rf) \<Rightarrow> rvr_votegranted reply \<and> (case m_persister rf of None \<Rightarrow> False | Some _ \<Rightarrow> True)"
    by code_simp
  then obtain reply rf p where 1: "RequestVote demo_env 0 (?a 0) demo_follower = Inr (reply, rf)"
    "rvr_votegranted reply" "m_persister rf = Some p"
    by (auto split: sum.splits option.splits)
  from restart_forgets_vote [of "?a 2" demo_env 0 3 1 "fst (Persister_destroy p)" "snd (Persister_destroy p)" "[]"]
  obtain rf0 reply' rf1 where
    "init demo_env 0 3 1 (Persister_new (fst (Persister_destroy p)) (snd (Persister_destroy p))) [] = Inr rf0"
    "RequestVote demo_env 0 (?a 2) rf0 = Inr (reply', rf1)" "rvr_votegranted reply'" by auto
  with 1 show ?thesis by blast
qed

text \<open>The archive itself would do: when the library reads back the archive it wrote of the persistent
  fields, and each entry of the log from its serialisation, what \<open>persistData\<close> writes is what
  \<open>readPersist\<close> restores, field by field, and no other field of the node changes.\<close>

theorem persist_round_trip:
  assumes "text_iarchive ev (text_oarchive ev (persistent_part ev rf)) = Some (persistent_part ev rf)"
    and "text_oarchive ev (persistent_part ev rf) \<noteq> []"
    and "\<forall>e \<in> set (m_logs rf). ParseFromString ev (SerializeAsString ev e) = e"
  shows "readPersist ev (persistData ev rf) rf0 =
    Inr (rf0\<lparr>m_currentTerm := m_currentTerm rf, m_votedFor := m_votedFor rf,
            m_lastSnapshotIncludeIndex := m_lastSnapshotIncludeIndex rf,
            m_lastSnapshotIncludeTerm := m_lastSnapshotIncludeTerm rf, m_logs := m_logs rf\<rparr>)"
  using assms by (rule readPersist_persistData)

theorem persist_round_trip_witness:
  "\<exists>ev rf'. readPersist ev (persistData ev demo_follower) (fresh_node 3 1) = Inr rf'
    \<and> m_currentTerm rf' = 1 \<and> m_logs rf' = [demo_entry ''a'' 1 1, demo_entry ''b'' 1 2]"
proof -
  define ev where "ev = \<lparr>SerializeAsString = command, ParseFromString =
      (\<lambda>s. if s = ''a'' then demo_entry ''a'' 1 1 else demo_entry ''b'' 1 2),
    text_oarchive = (\<lambda>b. concat (b_logs b)),
    text_iarchive = (\<lambda>_. Some \<lparr>b_currentTerm = 1, b_votedFor = -1, b_lastSnapshotIncludeIndex = 0,
       b_lastSnapshotIncludeTerm = 0, b_logs = [''a'', ''b'']\<rparr>), spill = 0\<rparr>"
  have "text_iarchive ev (text_oarchive ev (persistent_part ev demo_follower)) = Some (persistent_part ev demo_follower)"
    "text_oarchive ev (persistent_part ev demo_follower) \<noteq> []"
    "\<forall>e \<in> set (m_logs demo_follower). ParseFromString ev (SerializeAsString ev e) = e"
    by (simp_all add: ev_def persistent_part_def demo_defs)
  from persist_round_trip [OF this, of "fresh_node 3 1"] show ?thesis
    by (intro exI [of _ ev]) (simp add: demo_follower_def fresh_node_def)
qed

end
