(* ===== verification/StorageProps.thy ===== *)
theory StorageProps
  imports Persister
begin

text \<open>
  Properties of the durable storage of a node.
\<close>

text \<open>A snapshot can be read once. Right after \<open>Save\<close>, reading the snapshot yields its first
  white-space delimited word; the read re-opens the file for output, which truncates it, so the second read yields
  nothing. (A leader that sends the snapshot to two followers sends the second an empty one.)\<close>

theorem snapshot_reads_once:
  "fst (ReadSnapshot (Save spill raftstate snapshot p)) = read_word snapshot
   \<and> fst (ReadSnapshot (snd (ReadSnapshot (Save spill raftstate snapshot p)))) = []"
  by (simp add: persister_defs Let_def)

text \<open>What \<open>SaveRaftState\<close> leaves: it counts the bytes of the new state as the state size; in the file is only
  the part that the stream has written out, until the stream is closed, which completes it; and whoever
  then reads the file with \<open>ReadRaftState\<close> gets its first word only, so of a text archive, whose fields are
  separated by spaces, the first field is all that comes back.\<close>

theorem saved_state_reads_first_word:
  assumes "word \<noteq> []" and "\<forall>c \<in> set word. \<not> is_space c" and "data = word @ CHR '' '' # rest"
  shows "RaftStateSize (SaveRaftState spill data p) = int (length data)
   \<and> raftStateFile (SaveRaftState spill data p) = take spill data
   \<and> fst (Persister_destroy (SaveRaftState spill data p)) = data
   \<and> ReadRaftState (p'\<lparr>raftStateFile := fst (Persister_destroy (SaveRaftState spill data p))\<rparr>) = word"
proof -
  have sp: "is_space (CHR '' '')" by (simp add: is_space_def)
  have f: "fst (Persister_destroy (SaveRaftState spill data p)) = data" by (simp add: persister_defs Let_def)
  have "takeWhile (\<lambda>c. \<not> is_space c) data = word" using assms(2,3) sp by (simp add: takeWhile_tail)
  moreover have "dropWhile is_space data = data" using assms by (cases word) auto
  ultimately have "read_word data = word" by (simp add: read_word_def)
  with f show ?thesis by (simp add: persister_defs Let_def)
qed

theorem saved_state_reads_first_word_witness:
  "ReadRaftState ((Persister_new [] [])\<lparr>raftStateFile :=
     fst (Persister_destroy (SaveRaftState 3 ''22 serialization::archive 18'' (Persister_new [] [])))\<rparr>) = ''22''"
proof -
  have "''22'' \<noteq> []" "\<forall>c \<in> set ''22''. \<not> is_space c"
    "''22 serialization::archive 18'' = ''22'' @ CHR '' '' # ''serialization::archive 18''"
    by (simp_all add: is_space_def)
  from saved_state_reads_first_word [OF this] show ?thesis by blast
qed

end
