(* ===== verification/KvServer.thy ===== *)
theory KvServer
  imports SkipListStore RaftService "HOL-Library.List_Lexorder" "HOL-Library.Char_ord"
begin

text \<open>
  The key-value server (\<open>src/raft/raftCore/kvServer.cpp\<close>, \<open>kvServer.h\<close>, class \<open>Op\<close> of \<open>util.h\<close>): the
  state machine that executes the commands Raft commits, the two client calls, and the snapshots.
  The calls wait for their command on a queue that is found by the log index; they are split at that
  wait. Queues live on the heap (\<open>new\<close>, \<open>delete\<close>): \<open>channels\<close> is that heap, \<open>waitApplyCh\<close> holds addresses
  into it, and using a freed queue is an error. Each operation holds the mutex and is one step; what
  \<open>m_kvDB\<close> would hold is never written by the code and is left out, as is all output.
\<close>

section \<open>Model\<close>

record Op =
  Operation :: string
  Key :: string
  Value :: string
  ClientId :: string
  RequestId :: int

definition Op_new :: Op where
  "Op_new = \<lparr>Operation = [], Key = [], Value = [], ClientId = [], RequestId = 0\<rparr>"

definition OK :: string where "OK = ''OK''"
definition ErrNoKey :: string where "ErrNoKey = ''ErrNoKey''"
definition ErrWrongLeader :: string where "ErrWrongLeader = ''ErrWrongLeader''"

record GetArgs =
  ga_key :: string
  ga_clientid :: string
  ga_requestid :: int

record GetReply =
  gr_err :: string
  gr_value :: string

record PutAppendArgs =
  pa_key :: string
  pa_value :: string
  pa_op :: string
  pa_clientid :: string
  pa_requestid :: int

text \<open>The archives of the Boost library the server uses; reading may throw.\<close>

record kv_env =
  raft_env :: env
  op_oarchive :: "Op \<Rightarrow> string"
  op_iarchive :: "string \<Rightarrow> Op option"
  kv_oarchive :: "string \<times> (string \<rightharpoonup> int) \<Rightarrow> string"
  kv_iarchive :: "string \<Rightarrow> (string \<times> (string \<rightharpoonup> int)) option"
  dump_oarchive :: "(string, string) SkipListDump \<Rightarrow> string"
  dump_iarchive :: "string \<Rightarrow> (string, string) SkipListDump option"

datatype kv_error = StoreError heap_error | RaftError raft_error | ArchiveException | UseAfterFree

record KvServer =
  m_raftNode :: Raft
  m_maxRaftState :: int
  m_serializedKVData :: string
  m_skipList :: "(string, string) SkipList"
  waitApplyCh :: "int \<rightharpoonup> nat"
  channels :: "Op LockQueue option list"
  m_lastRequestId :: "string \<rightharpoonup> int"
  m_lastSnapShotRaftLogIndex :: int

section \<open>Executing commands\<close>

definition ExecutePutOpOnKVDB :: "Op \<Rightarrow> int list \<Rightarrow> KvServer \<Rightarrow> kv_error + KvServer" where
  "ExecutePutOpOnKVDB op rs kv =
     bindE (mapE StoreError (insert_set_element (Key op) (Value op) rs (m_skipList kv))) (\<lambda>sl.
     Inr (kv\<lparr>m_skipList := sl, m_lastRequestId := (m_lastRequestId kv)(ClientId op \<mapsto> RequestId op)\<rparr>))"

definition ExecuteAppendOpOnKVDB :: "Op \<Rightarrow> int list \<Rightarrow> KvServer \<Rightarrow> kv_error + KvServer" where
  "ExecuteAppendOpOnKVDB op rs kv =
     bindE (mapE StoreError (insert_set_element (Key op) (Value op) rs (m_skipList kv))) (\<lambda>sl.
     Inr (kv\<lparr>m_skipList := sl, m_lastRequestId := (m_lastRequestId kv)(ClientId op \<mapsto> RequestId op)\<rparr>))"

text \<open>The out parameters \<open>(*value, *exist)\<close> come first.\<close>

definition ExecuteGetOpOnKVDB :: "Op \<Rightarrow> KvServer \<Rightarrow> kv_error + (string \<times> bool) \<times> KvServer" where
  "ExecuteGetOpOnKVDB op kv =
     bindE (mapE StoreError (search_element (Key op) (m_skipList kv))) (\<lambda>r.
     Inr (case r of None \<Rightarrow> ([], False) | Some v \<Rightarrow> (v, True),
          kv\<lparr>m_lastRequestId := (m_lastRequestId kv)(ClientId op \<mapsto> RequestId op)\<rparr>))"

definition ifRequestDuplicate :: "string \<Rightarrow> int \<Rightarrow> KvServer \<Rightarrow> bool" where
  "ifRequestDuplicate cid rid kv = (case m_lastRequestId kv cid of None \<Rightarrow> False | Some r \<Rightarrow> rid \<le> r)"

section \<open>Snapshots\<close>

definition getSnapshotData :: "kv_env \<Rightarrow> KvServer \<Rightarrow> kv_error + string \<times> KvServer" where
  "getSnapshotData ev kv =
     bindE (mapE StoreError (dump_file (dump_oarchive ev) (m_skipList kv))) (\<lambda>d.
     let kv1 = kv\<lparr>m_serializedKVData := d\<rparr>;
         str = kv_oarchive ev (m_serializedKVData kv1, m_lastRequestId kv1)
     in Inr (str, kv1\<lparr>m_serializedKVData := []\<rparr>))"

definition MakeSnapShot :: "kv_env \<Rightarrow> KvServer \<Rightarrow> kv_error + string \<times> KvServer" where
  "MakeSnapShot ev kv = getSnapshotData ev kv"

definition parseFromString :: "kv_env \<Rightarrow> string \<Rightarrow> int list list \<Rightarrow> KvServer \<Rightarrow> kv_error + KvServer" where
  "parseFromString ev str rss kv =
     bindE (optE ArchiveException (kv_iarchive ev str)) (\<lambda>(d, lastRequestId).
     let kv1 = kv\<lparr>m_serializedKVData := d, m_lastRequestId := lastRequestId\<rparr> in
     bindE (mapE StoreError (load_file (dump_iarchive ev) (m_serializedKVData kv1) rss (m_skipList kv1))) (\<lambda>sl.
     Inr (kv1\<lparr>m_skipList := sl, m_serializedKVData := []\<rparr>)))"

definition ReadSnapShotToInstall :: "kv_env \<Rightarrow> string \<Rightarrow> int list list \<Rightarrow> KvServer \<Rightarrow> kv_error + KvServer" where
  "ReadSnapShotToInstall ev snapshot rss kv =
     (if snapshot = [] then Inr kv else parseFromString ev snapshot rss kv)"

text \<open>
  \<open>GetRaftStateSize() > m_maxRaftState / 10.0\<close>, multiplied out; the parameter \<open>proportion\<close> is
  not used by the code.
\<close>

definition IfNeedToSendSnapShotCommand :: "kv_env \<Rightarrow> int \<Rightarrow> int \<Rightarrow> KvServer \<Rightarrow> kv_error + KvServer" where
  "IfNeedToSendSnapShotCommand ev raftIndex proportion kv =
     bindE (mapE RaftError (GetRaftStateSize (m_raftNode kv))) (\<lambda>size.
     if 10 * size > m_maxRaftState kv then
       bindE (MakeSnapShot ev kv) (\<lambda>(snapshot, kv1).
       bindE (mapE RaftError (Snapshot (raft_env ev) raftIndex snapshot (m_raftNode kv1))) (\<lambda>rf.
       Inr (kv1\<lparr>m_raftNode := rf\<rparr>)))
     else Inr kv)"

definition GetSnapShotFromRaft :: "kv_env \<Rightarrow> ApplyMsg \<Rightarrow> int list list \<Rightarrow> KvServer \<Rightarrow> kv_error + KvServer" where
  "GetSnapShotFromRaft ev message rss kv =
     (if CondInstallSnapshot (SnapshotTerm message) (SnapshotIndex message) (Snapshot_data message) (m_raftNode kv)
      then bindE (ReadSnapShotToInstall ev (Snapshot_data message) rss kv) (\<lambda>kv1.
           Inr (kv1\<lparr>m_lastSnapShotRaftLogIndex := SnapshotIndex message\<rparr>))
      else Inr kv)"

section \<open>Queues of waiting calls\<close>

definition channel_at :: "nat \<Rightarrow> KvServer \<Rightarrow> kv_error + Op LockQueue" where
  "channel_at p kv =
     (if p < length (channels kv) then optE UseAfterFree (channels kv ! p) else Inl UseAfterFree)"

definition set_channel :: "nat \<Rightarrow> Op LockQueue option \<Rightarrow> KvServer \<Rightarrow> KvServer" where
  "set_channel p q kv = kv\<lparr>channels := (channels kv)[p := q]\<rparr>"

text \<open>The queue for a log index, made when there is none.\<close>

definition open_channel :: "int \<Rightarrow> KvServer \<Rightarrow> nat \<times> KvServer" where
  "open_channel raftIndex kv = (case waitApplyCh kv raftIndex of
       Some p \<Rightarrow> (p, kv)
     | None \<Rightarrow> (length (channels kv),
         kv\<lparr>channels := channels kv @ [Some []],
            waitApplyCh := (waitApplyCh kv)(raftIndex \<mapsto> length (channels kv))\<rparr>))"

text \<open>\<open>tmp = waitApplyCh[raftIndex]; waitApplyCh.erase(raftIndex); delete tmp\<close>; a missing index gives
  a null pointer, which \<open>delete\<close> ignores.\<close>

definition close_channel :: "int \<Rightarrow> KvServer \<Rightarrow> KvServer" where
  "close_channel raftIndex kv = (case waitApplyCh kv raftIndex of
       None \<Rightarrow> kv
     | Some p \<Rightarrow> (set_channel p None kv)\<lparr>waitApplyCh := (waitApplyCh kv)(raftIndex := None)\<rparr>)"

definition SendMessageToWaitChan :: "Op \<Rightarrow> int \<Rightarrow> KvServer \<Rightarrow> kv_error + bool \<times> KvServer" where
  "SendMessageToWaitChan op raftIndex kv = (case waitApplyCh kv raftIndex of
       None \<Rightarrow> Inr (False, kv)
     | Some p \<Rightarrow> bindE (channel_at p kv) (\<lambda>q. Inr (True, set_channel p (Some (Push op q)) kv)))"

text \<open>
  \<open>timeOutPop\<close> on the queue at \<open>p\<close>: \<open>timedOut\<close> says that the wait ends by its deadline, before the
  caller has seen an element; \<open>None\<close> is a call that goes on waiting.
\<close>

definition wait_channel :: "bool \<Rightarrow> nat \<Rightarrow> KvServer \<Rightarrow> kv_error + (Op option \<times> KvServer) option" where
  "wait_channel timedOut p kv =
     bindE (channel_at p kv) (\<lambda>q.
     Inr (case (if timedOut then timeOutPop [TimedOut q] [] else timeOutPop [] q) of
            None \<Rightarrow> None
          | Some (r, q') \<Rightarrow> Some (r, set_channel p (Some q') kv)))"

section \<open>Messages from Raft\<close>

definition GetCommandFromRaft :: "kv_env \<Rightarrow> ApplyMsg \<Rightarrow> int list \<Rightarrow> KvServer \<Rightarrow> kv_error + KvServer" where
  "GetCommandFromRaft ev message rs kv =
     bindE (optE ArchiveException (op_iarchive ev (Command message))) (\<lambda>op.
     if CommandIndex message \<le> m_lastSnapShotRaftLogIndex kv then Inr kv
     else
       bindE (if \<not> ifRequestDuplicate (ClientId op) (RequestId op) kv then
                bindE (if Operation op = ''Put'' then ExecutePutOpOnKVDB op rs kv else Inr kv) (\<lambda>kv1.
                if Operation op = ''Append'' then ExecuteAppendOpOnKVDB op rs kv1 else Inr kv1)
              else Inr kv) (\<lambda>kv2.
       bindE (if m_maxRaftState kv2 \<noteq> -1 then IfNeedToSendSnapShotCommand ev (CommandIndex message) 9 kv2
              else Inr kv2) (\<lambda>kv3.
       bindE (SendMessageToWaitChan op (CommandIndex message) kv3) (\<lambda>(_, kv4). Inr kv4))))"

text \<open>One round of \<open>ReadRaftApplyCommandLoop\<close>; with an empty queue it waits and nothing changes.\<close>

definition ReadRaftApplyCommandLoop :: "kv_env \<Rightarrow> int list \<Rightarrow> int list list \<Rightarrow> KvServer \<Rightarrow> kv_error + KvServer" where
  "ReadRaftApplyCommandLoop ev rs rss kv = (case Pop [] (applyChan (m_raftNode kv)) of
       None \<Rightarrow> Inr kv
     | Some (message, q) \<Rightarrow>
         let kv0 = kv\<lparr>m_raftNode := (m_raftNode kv)\<lparr>applyChan := q\<rparr>\<rparr> in
         bindE (if CommandValid message then GetCommandFromRaft ev message rs kv0 else Inr kv0) (\<lambda>kv1.
         if SnapshotValid message then GetSnapShotFromRaft ev message rss kv1 else Inr kv1))"

section \<open>Client calls\<close>

text \<open>A call either has its answer or waits for its operation at a log index, on a queue.\<close>

datatype 'r call = Answer 'r | Waiting Op int nat

definition start_call :: "kv_env \<Rightarrow> Op \<Rightarrow> 'r \<Rightarrow> KvServer \<Rightarrow> kv_error + 'r call \<times> KvServer" where
  "start_call ev op wrongLeader kv =
     bindE (mapE RaftError (Start (raft_env ev) (op_oarchive ev op) (m_raftNode kv))) (\<lambda>((raftIndex, _, isLeader), rf).
     let kv1 = kv\<lparr>m_raftNode := rf\<rparr> in
     if \<not> isLeader then Inr (Answer wrongLeader, kv1)
     else let (p, kv2) = open_channel raftIndex kv1 in Inr (Waiting op raftIndex p, kv2))"

definition Get_op :: "GetArgs \<Rightarrow> Op" where
  "Get_op args = \<lparr>Operation = ''Get'', Key = ga_key args, Value = [], ClientId = ga_clientid args,
     RequestId = ga_requestid args\<rparr>"

definition Get :: "kv_env \<Rightarrow> GetArgs \<Rightarrow> KvServer \<Rightarrow> kv_error + GetReply call \<times> KvServer" where
  "Get ev args kv = start_call ev (Get_op args) \<lparr>gr_err = ErrWrongLeader, gr_value = []\<rparr> kv"

definition Get_answer :: "Op \<Rightarrow> KvServer \<Rightarrow> kv_error + GetReply \<times> KvServer" where
  "Get_answer op kv =
     bindE (ExecuteGetOpOnKVDB op kv) (\<lambda>((value, exist), kv1).
     Inr (if exist then \<lparr>gr_err = OK, gr_value = value\<rparr> else \<lparr>gr_err = ErrNoKey, gr_value = []\<rparr>, kv1))"

definition Get_finish :: "bool \<Rightarrow> Op \<Rightarrow> int \<Rightarrow> nat \<Rightarrow> KvServer \<Rightarrow> kv_error + (GetReply \<times> KvServer) option" where
  "Get_finish timedOut op raftIndex p kv =
     bindE (wait_channel timedOut p kv) (\<lambda>w. case w of
       None \<Rightarrow> Inr None
     | Some (r, kv1) \<Rightarrow>
         bindE (case r of
             None \<Rightarrow>
               (let (_, isLeader) = GetState (m_raftNode kv1) in
                if ifRequestDuplicate (ClientId op) (RequestId op) kv1 \<and> isLeader then Get_answer op kv1
                else Inr (\<lparr>gr_err = ErrWrongLeader, gr_value = []\<rparr>, kv1))
           | Some raftCommitOp \<Rightarrow>
               (if ClientId raftCommitOp = ClientId op \<and> RequestId raftCommitOp = RequestId op
                then Get_answer op kv1
                else Inr (\<lparr>gr_err = ErrWrongLeader, gr_value = []\<rparr>, kv1))) (\<lambda>(reply, kv2).
         Inr (Some (reply, close_channel raftIndex kv2))))"

definition PutAppend_op :: "PutAppendArgs \<Rightarrow> Op" where
  "PutAppend_op args = \<lparr>Operation = pa_op args, Key = pa_key args, Value = pa_value args,
     ClientId = pa_clientid args, RequestId = pa_requestid args\<rparr>"

definition PutAppend :: "kv_env \<Rightarrow> PutAppendArgs \<Rightarrow> KvServer \<Rightarrow> kv_error + string call \<times> KvServer" where
  "PutAppend ev args kv = start_call ev (PutAppend_op args) ErrWrongLeader kv"

definition PutAppend_finish :: "bool \<Rightarrow> Op \<Rightarrow> int \<Rightarrow> nat \<Rightarrow> KvServer \<Rightarrow> kv_error + (string \<times> KvServer) option" where
  "PutAppend_finish timedOut op raftIndex p kv =
     bindE (wait_channel timedOut p kv) (\<lambda>w. case w of
       None \<Rightarrow> Inr None
     | Some (r, kv1) \<Rightarrow>
         let err = (case r of
             None \<Rightarrow> if ifRequestDuplicate (ClientId op) (RequestId op) kv1 then OK else ErrWrongLeader
           | Some raftCommitOp \<Rightarrow>
               if ClientId raftCommitOp = ClientId op \<and> RequestId raftCommitOp = RequestId op
               then OK else ErrWrongLeader)
         in Inr (Some (err, close_channel raftIndex kv1)))"

section \<open>Start of a server\<close>

text \<open>The state after the constructor, given the Raft node it made and the persister's snapshot.\<close>

definition KvServer_new :: "kv_env \<Rightarrow> Raft \<Rightarrow> int \<Rightarrow> string \<Rightarrow> int list list \<Rightarrow> kv_error + KvServer" where
  "KvServer_new ev rf maxraftstate snapshot rss =
     (let kv = \<lparr>m_raftNode = rf, m_maxRaftState = maxraftstate, m_serializedKVData = [],
        m_skipList = SkipList_new [] [] 6, waitApplyCh = Map.empty, channels = [],
        m_lastRequestId = Map.empty, m_lastSnapShotRaftLogIndex = 0\<rparr>
      in if snapshot \<noteq> [] then ReadSnapShotToInstall ev snapshot rss kv else Inr kv)"

end
