(* ===== verification/KvServerProps.thy ===== *)
theory KvServerProps
  imports KvServer RaftProps
begin

text \<open>
  What the server's state machine does with committed commands, with snapshots and with waiting
  calls. The store enters through its interface only.
\<close>

section \<open>Invariant and abstraction\<close>

text \<open>Every queue a log index points to is allocated, and no two indices share one.\<close>

definition channels_ok :: "KvServer \<Rightarrow> bool" where
  "channels_ok kv \<longleftrightarrow> (\<forall>i p. waitApplyCh kv i = Some p \<longrightarrow> p < length (channels kv) \<and> channels kv ! p \<noteq> None)
     \<and> (\<forall>i j p. waitApplyCh kv i = Some p \<and> waitApplyCh kv j = Some p \<longrightarrow> i = j)"

definition kv_ok :: "KvServer \<Rightarrow> bool" where
  "kv_ok kv \<longleftrightarrow> sl_ok (m_skipList kv) \<and> raft_wf (m_raftNode kv) \<and> channels_ok kv"

text \<open>The abstract state: the map and the last request of each client.\<close>

definition kv_abs :: "KvServer \<Rightarrow> (string \<rightharpoonup> string) \<times> (string \<rightharpoonup> int)" where
  "kv_abs kv = (sl_map (m_skipList kv), m_lastRequestId kv)"

definition spec_duplicate :: "Op \<Rightarrow> (string \<rightharpoonup> int) \<Rightarrow> bool" where
  "spec_duplicate op l = (case l (ClientId op) of None \<Rightarrow> False | Some r \<Rightarrow> RequestId op \<le> r)"

definition spec_apply :: "Op \<Rightarrow> (string \<rightharpoonup> string) \<times> (string \<rightharpoonup> int) \<Rightarrow> (string \<rightharpoonup> string) \<times> (string \<rightharpoonup> int)" where
  "spec_apply op ml = (if spec_duplicate op (snd ml) \<or> Operation op \<notin> {''Put'', ''Append''} then ml
     else ((fst ml)(Key op \<mapsto> Value op), (snd ml)(ClientId op \<mapsto> RequestId op)))"

section \<open>Lemmas\<close>

lemma put_ok:
  assumes "kv_ok kv" "draws_end rs"
  shows "\<exists>kv'. ExecutePutOpOnKVDB op rs kv = Inr kv' \<and> kv_ok kv'
    \<and> kv_abs kv' = ((fst (kv_abs kv))(Key op \<mapsto> Value op), (snd (kv_abs kv))(ClientId op \<mapsto> RequestId op))
    \<and> m_lastSnapShotRaftLogIndex kv' = m_lastSnapShotRaftLogIndex kv \<and> m_maxRaftState kv' = m_maxRaftState kv
    \<and> waitApplyCh kv' = waitApplyCh kv \<and> channels kv' = channels kv"
proof -
  have "sl_ok (m_skipList kv)" using assms(1) by (simp add: kv_ok_def)
  from skl.put_abs [OF this assms(2), of "Key op" "Value op"] obtain sl where
    "insert_set_element (Key op) (Value op) rs (m_skipList kv) = Inr sl" "sl_ok sl"
    "sl_map sl = (sl_map (m_skipList kv))(Key op \<mapsto> Value op)" by blast
  with assms(1) show ?thesis by (simp add: ExecutePutOpOnKVDB_def kv_ok_def kv_abs_def channels_ok_def)
qed

lemma append_is_put: "ExecuteAppendOpOnKVDB = ExecutePutOpOnKVDB"
  by (intro ext) (simp add: ExecuteAppendOpOnKVDB_def ExecutePutOpOnKVDB_def)

lemma get_ok:
  assumes "kv_ok kv"
  shows "ExecuteGetOpOnKVDB op kv =
    Inr (case fst (kv_abs kv) (Key op) of None \<Rightarrow> ([], False) | Some v \<Rightarrow> (v, True),
         kv\<lparr>m_lastRequestId := (m_lastRequestId kv)(ClientId op \<mapsto> RequestId op)\<rparr>)"
  using skl.lookup_abs [of "m_skipList kv" "Key op"] assms
  by (simp add: ExecuteGetOpOnKVDB_def kv_ok_def kv_abs_def)

lemma Snapshot_total:
  assumes "raft_wf rf"
  shows "\<exists>rf'. Snapshot ev index s rf = Inr rf' \<and> raft_wf rf'"
proof (cases "index \<le> m_lastSnapshotIncludeIndex rf \<or> m_commitIndex rf < index")
  case True
  with Snapshot_refused [OF True] assms show ?thesis by blast
next
  case False
  with Snapshot_wf [OF assms, of index ev s] show ?thesis by auto
qed

lemma snapshot_data_ok:
  assumes "kv_ok kv"
  shows "\<exists>d. dump_data (m_skipList kv) = Inr d \<and> set (keyDumpVt d) = dom (sl_map (m_skipList kv)) \<and> distinct (keyDumpVt d)
    \<and> getSnapshotData ev kv = Inr (kv_oarchive ev (dump_oarchive ev d, m_lastRequestId kv), kv\<lparr>m_serializedKVData := []\<rparr>)"
proof -
  have "sl_ok (m_skipList kv)" using assms by (simp add: kv_ok_def)
  from dump_data_ok [OF this] obtain d where d: "dump_data (m_skipList kv) = Inr d"
    "set (keyDumpVt d) = dom (sl_map (m_skipList kv))" "sorted_wrt (<) (keyDumpVt d)" by blast
  then have "distinct (keyDumpVt d)" by (simp add: strict_sorted_iff)
  with d show ?thesis by (simp add: getSnapshotData_def dump_file_def Let_def)
qed

lemma need_snapshot_ok:
  assumes "kv_ok kv"
  shows "\<exists>kv'. IfNeedToSendSnapShotCommand ev i proportion kv = Inr kv' \<and> kv_ok kv' \<and> kv_abs kv' = kv_abs kv
    \<and> waitApplyCh kv' = waitApplyCh kv \<and> channels kv' = channels kv
    \<and> m_lastSnapShotRaftLogIndex kv' = m_lastSnapShotRaftLogIndex kv \<and> m_maxRaftState kv' = m_maxRaftState kv"
proof -
  have wf: "raft_wf (m_raftNode kv)" using assms by (simp add: kv_ok_def)
  then obtain p where p: "m_persister (m_raftNode kv) = Some p" by (auto simp: raft_wf_def)
  obtain d where "getSnapshotData ev kv = Inr (d, kv\<lparr>m_serializedKVData := []\<rparr>)"
    using snapshot_data_ok [OF assms] by blast
  moreover obtain rf where "Snapshot (raft_env ev) i d (m_raftNode kv) = Inr rf" "raft_wf rf"
    using Snapshot_total [OF wf] by blast
  ultimately show ?thesis using assms p
    by (cases "10 * RaftStateSize p > m_maxRaftState kv")
      (auto simp: IfNeedToSendSnapShotCommand_def GetRaftStateSize_def MakeSnapShot_def kv_ok_def kv_abs_def channels_ok_def)
qed

text \<open>The queues after an operation was sent to the one at address \<open>p\<close>.\<close>

definition notified :: "Op \<Rightarrow> nat option \<Rightarrow> Op LockQueue option list \<Rightarrow> Op LockQueue option list" where
  "notified op p chs = (case p of None \<Rightarrow> chs | Some p \<Rightarrow> chs[p := map_option (Push op) (chs ! p)])"

lemma send_ok:
  assumes "kv_ok kv"
  shows "\<exists>b kv'. SendMessageToWaitChan op i kv = Inr (b, kv') \<and> kv_ok kv' \<and> kv_abs kv' = kv_abs kv
    \<and> m_lastSnapShotRaftLogIndex kv' = m_lastSnapShotRaftLogIndex kv \<and> m_maxRaftState kv' = m_maxRaftState kv
    \<and> waitApplyCh kv' = waitApplyCh kv \<and> channels kv' = notified op (waitApplyCh kv i) (channels kv)"
proof (cases "waitApplyCh kv i")
  case None
  with assms have "SendMessageToWaitChan op i kv = Inr (False, kv)" "notified op (waitApplyCh kv i) (channels kv) = channels kv"
    by (simp_all add: SendMessageToWaitChan_def notified_def)
  with assms show ?thesis by metis
next
  case (Some p)
  with assms have "p < length (channels kv) \<and> channels kv ! p \<noteq> None"
    unfolding kv_ok_def channels_ok_def by blast
  then obtain q where q: "p < length (channels kv)" "channels kv ! p = Some q" by blast
  with Some assms show ?thesis
    by (auto simp: SendMessageToWaitChan_def channel_at_def set_channel_def kv_ok_def kv_abs_def channels_ok_def
        notified_def nth_list_update)
qed

lemma spec_duplicate_abs: "ifRequestDuplicate (ClientId op) (RequestId op) kv = spec_duplicate op (snd (kv_abs kv))"
  by (simp add: ifRequestDuplicate_def spec_duplicate_def kv_abs_def)

lemma command_ok:
  assumes ok: "kv_ok kv" and rs: "draws_end rs" and op: "op_iarchive ev (Command m) = Some op"
    and idx: "m_lastSnapShotRaftLogIndex kv < CommandIndex m"
  shows "\<exists>kv'. GetCommandFromRaft ev m rs kv = Inr kv' \<and> kv_ok kv' \<and> kv_abs kv' = spec_apply op (kv_abs kv)
    \<and> m_lastSnapShotRaftLogIndex kv' = m_lastSnapShotRaftLogIndex kv \<and> m_maxRaftState kv' = m_maxRaftState kv
    \<and> waitApplyCh kv' = waitApplyCh kv
    \<and> channels kv' = notified op (waitApplyCh kv (CommandIndex m)) (channels kv)"
proof -
  obtain kv2 where 2: "(if \<not> ifRequestDuplicate (ClientId op) (RequestId op) kv then
      bindE (if Operation op = ''Put'' then ExecutePutOpOnKVDB op rs kv else Inr kv) (\<lambda>kv1.
      if Operation op = ''Append'' then ExecuteAppendOpOnKVDB op rs kv1 else Inr kv1)
      else Inr kv) = Inr kv2" "kv_ok kv2" "kv_abs kv2 = spec_apply op (kv_abs kv)"
    "m_lastSnapShotRaftLogIndex kv2 = m_lastSnapShotRaftLogIndex kv" "m_maxRaftState kv2 = m_maxRaftState kv"
    "waitApplyCh kv2 = waitApplyCh kv" "channels kv2 = channels kv"
  proof (cases "spec_duplicate op (snd (kv_abs kv)) \<or> Operation op \<notin> {''Put'', ''Append''}")
    case True
    then have "spec_apply op (kv_abs kv) = kv_abs kv" by (simp add: spec_apply_def)
    with True ok that [of kv] show ?thesis by (auto simp: spec_duplicate_abs)
  next
    case False
    then have s: "spec_apply op (kv_abs kv)
        = ((fst (kv_abs kv))(Key op \<mapsto> Value op), (snd (kv_abs kv))(ClientId op \<mapsto> RequestId op))"
      by (simp add: spec_apply_def)
    from put_ok [OF ok rs, of op] obtain kv' where p: "ExecutePutOpOnKVDB op rs kv = Inr kv'" "kv_ok kv'"
      "kv_abs kv' = spec_apply op (kv_abs kv)" "m_lastSnapShotRaftLogIndex kv' = m_lastSnapShotRaftLogIndex kv"
      "m_maxRaftState kv' = m_maxRaftState kv" "waitApplyCh kv' = waitApplyCh kv" "channels kv' = channels kv"
      unfolding s by blast
    from False consider "Operation op = ''Put''" | "Operation op = ''Append''" by auto
    then show ?thesis
      by cases (use False p that [of kv'] in \<open>auto simp: spec_duplicate_abs append_is_put\<close>)
  qed
  obtain kv3 where 3: "(if m_maxRaftState kv2 \<noteq> -1 then IfNeedToSendSnapShotCommand ev (CommandIndex m) 9 kv2
      else Inr kv2) = Inr kv3" "kv_ok kv3" "kv_abs kv3 = kv_abs kv2"
    "m_lastSnapShotRaftLogIndex kv3 = m_lastSnapShotRaftLogIndex kv2" "m_maxRaftState kv3 = m_maxRaftState kv2"
    "waitApplyCh kv3 = waitApplyCh kv2" "channels kv3 = channels kv2"
    using need_snapshot_ok [OF 2(2), of ev "CommandIndex m" 9] 2(2) by (cases "m_maxRaftState kv2 \<noteq> -1") auto
  obtain b kv4 where 4: "SendMessageToWaitChan op (CommandIndex m) kv3 = Inr (b, kv4)" "kv_ok kv4" "kv_abs kv4 = kv_abs kv3"
    "m_lastSnapShotRaftLogIndex kv4 = m_lastSnapShotRaftLogIndex kv3" "m_maxRaftState kv4 = m_maxRaftState kv3"
    "waitApplyCh kv4 = waitApplyCh kv3" "channels kv4 = notified op (waitApplyCh kv3 (CommandIndex m)) (channels kv3)"
    using send_ok [OF 3(2)] by blast
  have "GetCommandFromRaft ev m rs kv = Inr kv4"
    unfolding GetCommandFromRaft_def op optE_simps bindE_Inr 2(1) 3(1) 4(1) using idx by simp
  with 2 3 4 show ?thesis by auto
qed

lemma commands_ok:
  assumes "kv_ok kv" and "\<forall>(m, rs) \<in> set ms. draws_end rs \<and> op_iarchive ev (Command m) = Some (decode m)
      \<and> m_lastSnapShotRaftLogIndex kv < CommandIndex m"
  shows "\<exists>kv'. foldE (\<lambda>(m, rs). GetCommandFromRaft ev m rs) ms kv = Inr kv' \<and> kv_ok kv'
    \<and> kv_abs kv' = fold (\<lambda>(m, rs). spec_apply (decode m)) ms (kv_abs kv)"
  using assms
proof (induction ms arbitrary: kv)
  case Nil
  then show ?case by simp
next
  case (Cons x ms)
  obtain m rs where x: "x = (m, rs)" by (cases x)
  from Cons.prems command_ok [of kv rs ev m "decode m"] obtain kv1 where
    "GetCommandFromRaft ev m rs kv = Inr kv1" "kv_ok kv1" "kv_abs kv1 = spec_apply (decode m) (kv_abs kv)"
    "m_lastSnapShotRaftLogIndex kv1 = m_lastSnapShotRaftLogIndex kv" by (auto simp: x)
  with Cons.IH [of kv1] Cons.prems(2) show ?case by (auto simp: x)
qed

text \<open>Loading a dump into any list: new keys are bound to themselves, present keys keep their values.\<close>

lemma load_loop_any:
  assumes "sl_ok sl" and "length ks \<le> length rss" and "\<forall>rs \<in> set rss. draws_end rs"
  shows "\<exists>sl'. load_loop ks rss sl = Inr sl' \<and> sl_ok sl'
    \<and> sl_map sl' = (\<lambda>k. if sl_map sl k \<noteq> None then sl_map sl k else if k \<in> set ks then Some k else None)"
  using assms
proof (induction ks arbitrary: rss sl)
  case Nil
  then show ?case by (auto simp: fun_eq_iff)
next
  case (Cons k ks)
  then obtain rs rss' where rss: "rss = rs # rss'" by (cases rss) auto
  with Cons.prems obtain r t where t: "insert_element k k rs sl = Inr (r, t)" "sl_ok t"
      "sl_map t = (if sl_map sl k = None then (sl_map sl)(k \<mapsto> k) else sl_map sl)"
    using insert_element_ok [of sl rs k k] by (auto split: if_split_asm)
  have "\<exists>sl'. load_loop ks rss' t = Inr sl' \<and> sl_ok sl' \<and> sl_map sl'
      = (\<lambda>x. if sl_map t x \<noteq> None then sl_map t x else if x \<in> set ks then Some x else None)"
    using Cons.prems t by (intro Cons.IH) (auto simp: rss)
  with t(1,3) show ?case by (auto simp: rss fun_eq_iff)
qed

section \<open>Properties\<close>

text \<open>C12: the server is the state machine of its log: handling any sequence of committed commands (with
  indices above the last installed snapshot), it returns normally on each, and its map and its
  table of last requests are those of the specification, in which a Put or an Append of a client
  is executed exactly when its request number is larger than the last one recorded for the client,
  and then sets the key and records the number. Snapshots taken on the way (any size limit) and
  waiting calls do not disturb it.\<close>

theorem server_executes_log:
  assumes "kv_ok kv"
    and "\<forall>(m, rs) \<in> set ms. draws_end rs \<and> op_iarchive ev (Command m) = Some (decode m)
      \<and> m_lastSnapShotRaftLogIndex kv < CommandIndex m"
  shows "\<exists>kv'. foldE (\<lambda>(m, rs). GetCommandFromRaft ev m rs) ms kv = Inr kv' \<and> kv_ok kv'
    \<and> (sl_map (m_skipList kv'), m_lastRequestId kv')
      = fold (\<lambda>(m, rs) (mp, last). let op = decode m in
          if (\<exists>r. last (ClientId op) = Some r \<and> RequestId op \<le> r) \<or> Operation op \<notin> {''Put'', ''Append''} then (mp, last)
          else (mp(Key op \<mapsto> Value op), last(ClientId op \<mapsto> RequestId op))) ms
        (sl_map (m_skipList kv), m_lastRequestId kv)"
proof -
  have "spec_apply op = (\<lambda>(mp, last).
      if (\<exists>r. last (ClientId op) = Some r \<and> RequestId op \<le> r) \<or> Operation op \<notin> {''Put'', ''Append''} then (mp, last)
      else (mp(Key op \<mapsto> Value op), last(ClientId op \<mapsto> RequestId op)))" for op
    by (auto simp: spec_apply_def spec_duplicate_def fun_eq_iff split: option.splits)
  then have "(\<lambda>(m, rs). spec_apply (decode m)) = (\<lambda>(m, rs) (mp, last). let op = decode m in
          if (\<exists>r. last (ClientId op) = Some r \<and> RequestId op \<le> r) \<or> Operation op \<notin> {''Put'', ''Append''} then (mp, last)
          else (mp(Key op \<mapsto> Value op), last(ClientId op \<mapsto> RequestId op)))"
    by (simp add: fun_eq_iff Let_def)
  with commands_ok [OF assms] show ?thesis unfolding kv_abs_def by metis
qed

text \<open>A small server for the examples: an empty store, no size limit, commands coded by their kind and key.\<close>

definition demo_op :: "string \<Rightarrow> string \<Rightarrow> string \<Rightarrow> int \<Rightarrow> Op" where
  "demo_op kind k v r = \<lparr>Operation = kind, Key = k, Value = v, ClientId = ''c'', RequestId = r\<rparr>"

definition demo_kv :: KvServer where
  "demo_kv = \<lparr>m_raftNode = demo_leader, m_maxRaftState = -1, m_serializedKVData = [], m_skipList = SkipList_new [] [] 6,
     waitApplyCh = Map.empty, channels = [], m_lastRequestId = Map.empty, m_lastSnapShotRaftLogIndex = 0\<rparr>"

definition demo_msg :: "string \<Rightarrow> int \<Rightarrow> ApplyMsg" where
  "demo_msg c i = ApplyMsg_new\<lparr>CommandValid := True, Command := c, CommandIndex := i\<rparr>"

definition demo_decode :: "string \<Rightarrow> Op" where
  "demo_decode c = (if c = ''1'' then demo_op ''Put'' ''k'' ''v'' 1 else if c = ''2'' then demo_op ''Append'' ''k'' ''w'' 2
     else demo_op ''Get'' ''k'' [] 3)"

definition demo_kv_env :: kv_env where
  "demo_kv_env = \<lparr>raft_env = demo_env, op_oarchive = Value, op_iarchive = (\<lambda>c. Some (demo_decode c)),
     kv_oarchive = fst, kv_iarchive = (\<lambda>d. Some (d, [''c'' \<mapsto> 2])),
     dump_oarchive = (\<lambda>d. concat (keyDumpVt d)), dump_iarchive = (\<lambda>s. Some \<lparr>keyDumpVt = [''k''], valDumpVt = [''w'']\<rparr>)\<rparr>"

lemma demo_kv_ok: "kv_ok demo_kv" "sl_map (m_skipList demo_kv) = Map.empty"
  using new_ok [of "[] :: string" "[] :: string" 6] demo_wf(2) by (simp_all add: kv_ok_def demo_kv_def channels_ok_def)

theorem server_executes_log_witness:
  "\<exists>kv'. foldE (\<lambda>(m, rs). GetCommandFromRaft demo_kv_env m rs)
      [(demo_msg ''1'' 1, [0]), (demo_msg ''1'' 2, [0]), (demo_msg ''2'' 3, [0])] demo_kv = Inr kv'
    \<and> sl_map (m_skipList kv') = [''k'' \<mapsto> ''w''] \<and> m_lastRequestId kv' = [''c'' \<mapsto> 2]"
proof -
  let ?ms = "[(demo_msg ''1'' 1, [0]), (demo_msg ''1'' 2, [0]), (demo_msg ''2'' 3, [0])] :: (ApplyMsg \<times> int list) list"
  have "\<forall>(m, rs) \<in> set ?ms. draws_end rs \<and> op_iarchive demo_kv_env (Command m) = Some ((\<lambda>m. demo_decode (Command m)) m)
      \<and> m_lastSnapShotRaftLogIndex demo_kv < CommandIndex m"
    by (simp add: draws_end_def demo_kv_env_def demo_kv_def demo_msg_def)
  from server_executes_log [OF demo_kv_ok(1) this] obtain kv' where
    r: "foldE (\<lambda>(m, rs). GetCommandFromRaft demo_kv_env m rs) ?ms demo_kv = Inr kv'"
    "(sl_map (m_skipList kv'), m_lastRequestId kv')
      = fold (\<lambda>(m, rs) (mp, last). let op = demo_decode (Command m) in
          if (\<exists>r. last (ClientId op) = Some r \<and> RequestId op \<le> r) \<or> Operation op \<notin> {''Put'', ''Append''} then (mp, last)
          else (mp(Key op \<mapsto> Value op), last(ClientId op \<mapsto> RequestId op))) ?ms
        (sl_map (m_skipList demo_kv), m_lastRequestId demo_kv)" by blast
  have "m_lastRequestId demo_kv = Map.empty" by (simp add: demo_kv_def)
  with r(2) demo_kv_ok(2) have "sl_map (m_skipList kv') = [''k'' \<mapsto> ''w''] \<and> m_lastRequestId kv' = [''c'' \<mapsto> 2]"
    by (simp add: demo_msg_def demo_decode_def demo_op_def)
  with r(1) show ?thesis by blast
qed

text \<open>An Append does not append: executed, it leaves exactly its own value under the key, whatever the
  key held, just as a Put does.\<close>

theorem append_overwrites:
  assumes "kv_ok kv" and "draws_end rs"
  shows "\<exists>kv'. ExecuteAppendOpOnKVDB op rs kv = Inr kv'
    \<and> sl_map (m_skipList kv') = (sl_map (m_skipList kv))(Key op \<mapsto> Value op)
    \<and> ExecutePutOpOnKVDB op rs kv = Inr kv'"
  using put_ok [OF assms, of op] by (auto simp: append_is_put kv_abs_def)

theorem append_overwrites_witness:
  "\<exists>kv1 kv2. ExecutePutOpOnKVDB (demo_op ''Put'' ''k'' ''v'' 1) [0] demo_kv = Inr kv1
    \<and> ExecuteAppendOpOnKVDB (demo_op ''Append'' ''k'' ''w'' 2) [0] kv1 = Inr kv2
    \<and> sl_map (m_skipList kv2) ''k'' = Some ''w''"
proof -
  have rs: "draws_end [0 :: int]" by (simp add: draws_end_def)
  obtain kv1 where 1: "ExecutePutOpOnKVDB (demo_op ''Put'' ''k'' ''v'' 1) [0] demo_kv = Inr kv1" "kv_ok kv1"
    using put_ok [OF demo_kv_ok(1) rs] by blast
  from append_overwrites [OF 1(2) rs, of "demo_op ''Append'' ''k'' ''w'' 2"] 1(1) show ?thesis
    by (auto simp: demo_op_def)
qed

text \<open>Reading weakens the duplicate check: answering a Get sets the client's last request to the Get's own
  number even when that is smaller than what was recorded, so every request of the client with a larger
  number counts as new again; a second delivery of such a Put is executed a second time.\<close>

theorem get_forgets_requests:
  assumes ok: "kv_ok kv" and rs: "draws_end rs" and last: "m_lastRequestId kv (ClientId put) = Some r"
    and dup: "RequestId put \<le> r" and get: "ClientId get = ClientId put" "RequestId get < RequestId put"
    and put: "Operation put = ''Put''" "op_iarchive ev (Command m) = Some put" "m_lastSnapShotRaftLogIndex kv < CommandIndex m"
  shows "\<exists>kv0 out kv1 kv2. GetCommandFromRaft ev m rs kv = Inr kv0 \<and> sl_map (m_skipList kv0) = sl_map (m_skipList kv)
    \<and> ExecuteGetOpOnKVDB get kv = Inr (out, kv1) \<and> GetCommandFromRaft ev m rs kv1 = Inr kv2
    \<and> sl_map (m_skipList kv2) = (sl_map (m_skipList kv))(Key put \<mapsto> Value put)"
proof -
  obtain kv0 where 0: "GetCommandFromRaft ev m rs kv = Inr kv0" "kv_abs kv0 = spec_apply put (kv_abs kv)"
    using command_ok [OF ok rs put(2,3)] by blast
  let ?kv1 = "kv\<lparr>m_lastRequestId := (m_lastRequestId kv)(ClientId get \<mapsto> RequestId get)\<rparr>"
  have "kv_ok ?kv1" using ok by (simp add: kv_ok_def channels_ok_def)
  from command_ok [OF this rs put(2)] put(3) obtain kv2 where
    2: "GetCommandFromRaft ev m rs ?kv1 = Inr kv2" "kv_abs kv2 = spec_apply put (kv_abs ?kv1)" by auto
  have "sl_map (m_skipList kv0) = sl_map (m_skipList kv)"
    using 0(2) last dup by (simp add: spec_apply_def spec_duplicate_def kv_abs_def)
  moreover have "sl_map (m_skipList kv2) = (sl_map (m_skipList kv))(Key put \<mapsto> Value put)"
    using 2(2) get put(1) by (simp add: spec_apply_def spec_duplicate_def kv_abs_def)
  ultimately show ?thesis using 0(1) 2(1) get_ok [OF ok, of get] by blast
qed

theorem get_forgets_requests_witness:
  "\<exists>kv kv0 out kv1 kv2. m_lastRequestId kv ''c'' = Some 2
    \<and> GetCommandFromRaft demo_kv_env (demo_msg ''1'' 9) [0] kv = Inr kv0 \<and> sl_map (m_skipList kv0) ''k'' = None
    \<and> ExecuteGetOpOnKVDB (demo_op ''Get'' ''k'' [] 0) kv = Inr (out, kv1)
    \<and> GetCommandFromRaft demo_kv_env (demo_msg ''1'' 9) [0] kv1 = Inr kv2 \<and> sl_map (m_skipList kv2) ''k'' = Some ''v''"
proof -
  let ?kv = "demo_kv\<lparr>m_lastRequestId := [''c'' \<mapsto> 2]\<rparr>"
  let ?put = "demo_op ''Put'' ''k'' ''v'' 1" and ?get = "demo_op ''Get'' ''k'' [] 0"
  have "kv_ok ?kv" using demo_kv_ok(1) by (simp add: kv_ok_def channels_ok_def)
  moreover have "draws_end [0 :: int]" by (simp add: draws_end_def)
  moreover have "m_lastRequestId ?kv (ClientId ?put) = Some 2" "RequestId ?put \<le> 2" "ClientId ?get = ClientId ?put"
    "RequestId ?get < RequestId ?put" "Operation ?put = ''Put''"
    "op_iarchive demo_kv_env (Command (demo_msg ''1'' 9)) = Some ?put"
    "m_lastSnapShotRaftLogIndex ?kv < CommandIndex (demo_msg ''1'' 9)"
    by (simp_all add: demo_op_def demo_kv_env_def demo_msg_def demo_decode_def demo_kv_def)
  ultimately obtain kv0 out kv1 kv2 where
    r: "GetCommandFromRaft demo_kv_env (demo_msg ''1'' 9) [0] ?kv = Inr kv0"
    "sl_map (m_skipList kv0) = sl_map (m_skipList ?kv)" "ExecuteGetOpOnKVDB ?get ?kv = Inr (out, kv1)"
    "GetCommandFromRaft demo_kv_env (demo_msg ''1'' 9) [0] kv1 = Inr kv2"
    "sl_map (m_skipList kv2) = (sl_map (m_skipList ?kv))(Key ?put \<mapsto> Value ?put)"
    using get_forgets_requests by blast
  have "sl_map (m_skipList ?kv) = Map.empty" using demo_kv_ok(2) by simp
  then have "sl_map (m_skipList kv0) ''k'' = None" "sl_map (m_skipList kv2) ''k'' = Some ''v''"
    using r(2,5) by (simp_all add: demo_op_def)
  moreover have "m_lastRequestId ?kv ''c'' = Some 2" by simp
  ultimately show ?thesis using r(1,3,4) by blast
qed

end
