(* ===== verification/KvServerCalls.thy ===== *)
theory KvServerCalls
  imports KvServerProps
begin

text \<open>
  What the client calls of the server answer and what they leave behind: the queues they wait on,
  and the snapshots servers hand to each other.
\<close>

section \<open>Lemmas\<close>

lemma open_channel_ok:
  assumes "kv_ok kv"
  shows "\<exists>p kv'. open_channel i kv = (p, kv') \<and> kv_ok kv' \<and> kv_abs kv' = kv_abs kv \<and> waitApplyCh kv' i = Some p
    \<and> m_raftNode kv' = m_raftNode kv \<and> open_channel i kv' = (p, kv')"
proof (cases "waitApplyCh kv i")
  case None
  moreover from assms have "waitApplyCh kv j = Some p \<Longrightarrow> p < length (channels kv)" for j p
    by (simp add: kv_ok_def channels_ok_def)
  ultimately show ?thesis using assms
    by (fastforce simp: open_channel_def kv_ok_def kv_abs_def channels_ok_def nth_append)
next
  case (Some p)
  with assms show ?thesis by (simp add: open_channel_def)
qed

lemma close_channel_ok:
  assumes "kv_ok kv"
  shows "kv_ok (close_channel i kv)" "kv_abs (close_channel i kv) = kv_abs kv" "waitApplyCh (close_channel i kv) i = None"
proof -
  show "kv_abs (close_channel i kv) = kv_abs kv" "waitApplyCh (close_channel i kv) i = None"
    by (simp_all add: close_channel_def set_channel_def kv_abs_def split: option.split)
  have ok: "sl_ok (m_skipList kv)" "raft_wf (m_raftNode kv)" and ch: "channels_ok kv" using assms by (simp_all add: kv_ok_def)
  show "kv_ok (close_channel i kv)"
  proof (cases "waitApplyCh kv i")
    case None
    with assms show ?thesis by (simp add: close_channel_def)
  next
    case (Some p)
    have ne: "q \<noteq> p" if "j \<noteq> i" "waitApplyCh kv j = Some q" for j q
      using ch Some that unfolding channels_ok_def by blast
    have "channels_ok (close_channel i kv)"
      using ch ne Some unfolding channels_ok_def close_channel_def set_channel_def
      by (simp add: nth_list_update) blast
    with ok show ?thesis by (simp add: kv_ok_def close_channel_def set_channel_def Some)
  qed
qed

lemma channel_in_use:
  assumes "kv_ok kv" "waitApplyCh kv i = Some p"
  shows "\<exists>q. channel_at p kv = Inr q \<and> p < length (channels kv) \<and> channels kv ! p = Some q"
proof -
  from assms have "p < length (channels kv) \<and> channels kv ! p \<noteq> None" unfolding kv_ok_def channels_ok_def by blast
  then show ?thesis by (auto simp: channel_at_def)
qed

lemma set_channel_ok:
  assumes "kv_ok kv" "waitApplyCh kv i = Some p"
  shows "kv_ok (set_channel p (Some q) kv)" "kv_abs (set_channel p (Some q) kv) = kv_abs kv"
  using assms by (auto simp: kv_ok_def channels_ok_def set_channel_def kv_abs_def nth_list_update)

lemma get_answer_ok:
  assumes "kv_ok kv"
  shows "Get_answer op kv = Inr (case fst (kv_abs kv) (Key op) of
        None \<Rightarrow> \<lparr>gr_err = ErrNoKey, gr_value = []\<rparr> | Some v \<Rightarrow> \<lparr>gr_err = OK, gr_value = v\<rparr>,
      kv\<lparr>m_lastRequestId := (m_lastRequestId kv)(ClientId op \<mapsto> RequestId op)\<rparr>)"
    "kv_ok (kv\<lparr>m_lastRequestId := (m_lastRequestId kv)(ClientId op \<mapsto> RequestId op)\<rparr>)"
  using get_ok [OF assms, of op] assms
  by (simp_all add: Get_answer_def kv_ok_def channels_ok_def split: option.split)

lemma command_notifies:
  assumes ok: "kv_ok kv" and rs: "draws_end rs" and w: "waitApplyCh kv (CommandIndex m) = Some p" "channels kv ! p = Some []"
    and m: "op_iarchive ev (Command m) = Some op" "m_lastSnapShotRaftLogIndex kv < CommandIndex m"
  shows "\<exists>kv'. GetCommandFromRaft ev m rs kv = Inr kv' \<and> kv_ok kv' \<and> kv_abs kv' = spec_apply op (kv_abs kv)
    \<and> waitApplyCh kv' (CommandIndex m) = Some p \<and> channel_at p kv' = Inr [op]"
proof -
  obtain kv' where r: "GetCommandFromRaft ev m rs kv = Inr kv'" "kv_ok kv'" "kv_abs kv' = spec_apply op (kv_abs kv)"
    "waitApplyCh kv' = waitApplyCh kv" "channels kv' = notified op (waitApplyCh kv (CommandIndex m)) (channels kv)"
    using command_ok [OF ok rs m] by blast
  moreover have "p < length (channels kv)" using channel_in_use [OF ok w(1)] by blast
  ultimately show ?thesis using w by (simp add: channel_at_def notified_def Push_def)
qed

lemma wait_notified:
  assumes "channel_at p kv = Inr (x # q)"
  shows "wait_channel False p kv = Inr (Some (Some x, set_channel p (Some q) kv))"
  using assms by (simp add: wait_channel_def)

section \<open>Properties\<close>

text \<open>What a client call starts: on a node that is not the leader both calls answer ErrWrongLeader and
  change nothing; on the leader the command is appended to the log in the current term, the store
  is untouched, and the call waits at the new entry's index, on the queue that index is bound to.\<close>

theorem calls_start:
  assumes ok: "kv_ok kv"
  shows "(m_status (m_raftNode kv) \<noteq> Leader \<longrightarrow>
      PutAppend ev put kv = Inr (Answer ErrWrongLeader, kv)
    \<and> Get ev get kv = Inr (Answer \<lparr>gr_err = ErrWrongLeader, gr_value = []\<rparr>, kv))
    \<and> (m_status (m_raftNode kv) = Leader \<longrightarrow>
      (\<exists>p kv'. PutAppend ev put kv = Inr (Waiting (PutAppend_op put) (getLastLogIndex (m_raftNode kv) + 1) p, kv')
        \<and> kv_ok kv' \<and> sl_map (m_skipList kv') = sl_map (m_skipList kv) \<and> m_lastRequestId kv' = m_lastRequestId kv
        \<and> waitApplyCh kv' (getLastLogIndex (m_raftNode kv) + 1) = Some p
        \<and> m_logs (m_raftNode kv') = m_logs (m_raftNode kv) @ [\<lparr>command = op_oarchive ev (PutAppend_op put),
            logterm = m_currentTerm (m_raftNode kv), logindex = getLastLogIndex (m_raftNode kv) + 1\<rparr>]))"
proof (intro conjI impI)
  assume f: "m_status (m_raftNode kv) \<noteq> Leader"
  then show "PutAppend ev put kv = Inr (Answer ErrWrongLeader, kv)"
    by (simp add: PutAppend_def start_call_def Start_def)
  from f show "Get ev get kv = Inr (Answer \<lparr>gr_err = ErrWrongLeader, gr_value = []\<rparr>, kv)"
    by (simp add: Get_def start_call_def Start_def)
next
  assume l: "m_status (m_raftNode kv) = Leader"
  let ?rf = "m_raftNode kv" and ?cmd = "op_oarchive ev (PutAppend_op put)"
  have "raft_wf ?rf" using ok by (simp add: kv_ok_def)
  from Start_wf [OF this l, of "raft_env ev" ?cmd] obtain rf' where
    rf: "Start (raft_env ev) ?cmd ?rf = Inr ((getLastLogIndex ?rf + 1, m_currentTerm ?rf, True), rf')" "raft_wf rf'"
      "m_logs rf' = m_logs ?rf @ [\<lparr>command = ?cmd, logterm = m_currentTerm ?rf, logindex = getLastLogIndex ?rf + 1\<rparr>]"
    by blast
  have "kv_ok (kv\<lparr>m_raftNode := rf'\<rparr>)" "kv_abs (kv\<lparr>m_raftNode := rf'\<rparr>) = kv_abs kv"
    using ok rf(2) by (simp_all add: kv_ok_def channels_ok_def kv_abs_def)
  with open_channel_ok [of "kv\<lparr>m_raftNode := rf'\<rparr>" "getLastLogIndex ?rf + 1"] obtain p kv' where
    "open_channel (getLastLogIndex ?rf + 1) (kv\<lparr>m_raftNode := rf'\<rparr>) = (p, kv')" "kv_ok kv'" "kv_abs kv' = kv_abs kv"
    "waitApplyCh kv' (getLastLogIndex ?rf + 1) = Some p" "m_raftNode kv' = rf'" by auto
  with rf show "\<exists>p kv'. PutAppend ev put kv = Inr (Waiting (PutAppend_op put) (getLastLogIndex ?rf + 1) p, kv')
        \<and> kv_ok kv' \<and> sl_map (m_skipList kv') = sl_map (m_skipList kv) \<and> m_lastRequestId kv' = m_lastRequestId kv
        \<and> waitApplyCh kv' (getLastLogIndex ?rf + 1) = Some p
        \<and> m_logs (m_raftNode kv') = m_logs ?rf @ [\<lparr>command = ?cmd,
            logterm = m_currentTerm ?rf, logindex = getLastLogIndex ?rf + 1\<rparr>]"
    by (simp add: PutAppend_def start_call_def kv_abs_def)
qed

theorem calls_start_witness:
  "\<exists>p kv'. PutAppend demo_kv_env \<lparr>pa_key = ''k'', pa_value = ''v'', pa_op = ''Put'', pa_clientid = ''c'', pa_requestid = 1\<rparr> demo_kv
      = Inr (Waiting (demo_op ''Put'' ''k'' ''v'' 1) 4 p, kv') \<and> waitApplyCh kv' 4 = Some p"
proof -
  let ?put = "\<lparr>pa_key = ''k'', pa_value = ''v'', pa_op = ''Put'', pa_clientid = ''c'', pa_requestid = 1\<rparr>"
  have rf: "m_raftNode demo_kv = demo_leader" by (simp add: demo_kv_def)
  then have l: "m_status (m_raftNode demo_kv) = Leader" by (simp add: demo_leader_def)
  have op: "PutAppend_op ?put = demo_op ''Put'' ''k'' ''v'' 1" by (simp add: PutAppend_op_def demo_op_def)
  have i: "getLastLogIndex (m_raftNode demo_kv) + 1 = 4" by (simp add: rf demo_last)
  from calls_start [OF demo_kv_ok(1), of demo_kv_env ?put undefined] l show ?thesis unfolding op i by blast
qed

text \<open>C13: a waiting call gets its own answer: when the command at the index of a waiting call is delivered, it is
  executed and the call returns; a Put or an Append answers OK, and a Get the value the store then has
  for its key or ErrNoKey, exactly when the delivered command is the call's own (client and request),
  and ErrWrongLeader otherwise; the queue is removed.\<close>

theorem waiting_call_answered:
  assumes ok: "kv_ok kv" and rs: "draws_end rs" and w: "waitApplyCh kv (CommandIndex m) = Some p" "channels kv ! p = Some []"
    and m: "op_iarchive ev (Command m) = Some op" "m_lastSnapShotRaftLogIndex kv < CommandIndex m"
  shows "\<exists>kv1 kv2 kv3. GetCommandFromRaft ev m rs kv = Inr kv1
    \<and> PutAppend_finish False mine (CommandIndex m) p kv1 = Inr (Some
        (if ClientId op = ClientId mine \<and> RequestId op = RequestId mine then OK else ErrWrongLeader, kv2))
    \<and> Get_finish False mine (CommandIndex m) p kv1 = Inr (Some
        (if ClientId op = ClientId mine \<and> RequestId op = RequestId mine
         then (case sl_map (m_skipList kv1) (Key mine) of
             None \<Rightarrow> \<lparr>gr_err = ErrNoKey, gr_value = []\<rparr> | Some v \<Rightarrow> \<lparr>gr_err = OK, gr_value = v\<rparr>)
         else \<lparr>gr_err = ErrWrongLeader, gr_value = []\<rparr>, kv3))
    \<and> kv_ok kv2 \<and> waitApplyCh kv2 (CommandIndex m) = None \<and> sl_map (m_skipList kv2) = sl_map (m_skipList kv1)
    \<and> kv_ok kv3 \<and> waitApplyCh kv3 (CommandIndex m) = None \<and> sl_map (m_skipList kv3) = sl_map (m_skipList kv1)"
proof -
  obtain kv1 where 1: "GetCommandFromRaft ev m rs kv = Inr kv1" "kv_ok kv1"
      "waitApplyCh kv1 (CommandIndex m) = Some p" "channel_at p kv1 = Inr [op]"
    using command_notifies [OF ok rs w m] by blast
  let ?kv2 = "set_channel p (Some []) kv1" and ?mine = "ClientId op = ClientId mine \<and> RequestId op = RequestId mine"
  let ?kv3 = "if ?mine then ?kv2\<lparr>m_lastRequestId := (m_lastRequestId ?kv2)(ClientId mine \<mapsto> RequestId mine)\<rparr> else ?kv2"
  note s = set_channel_ok [OF 1(2,3), of "[]"]
  have ok3: "kv_ok ?kv3" using s(1) get_answer_ok(2) [OF s(1), of mine] by simp
  have same: "sl_map (m_skipList ?kv2) = sl_map (m_skipList kv1)" using s(2) by (simp add: kv_abs_def)
  have pa: "PutAppend_finish False mine (CommandIndex m) p kv1
      = Inr (Some (if ?mine then OK else ErrWrongLeader, close_channel (CommandIndex m) ?kv2))"
    by (simp add: PutAppend_finish_def wait_notified [OF 1(4)])
  have g: "Get_finish False mine (CommandIndex m) p kv1 = Inr (Some
        (if ?mine
         then (case sl_map (m_skipList kv1) (Key mine) of
             None \<Rightarrow> \<lparr>gr_err = ErrNoKey, gr_value = []\<rparr> | Some v \<Rightarrow> \<lparr>gr_err = OK, gr_value = v\<rparr>)
         else \<lparr>gr_err = ErrWrongLeader, gr_value = []\<rparr>, close_channel (CommandIndex m) ?kv3))"
    using get_answer_ok(1) [OF s(1), of mine] same
    by (simp add: Get_finish_def wait_notified [OF 1(4)] kv_abs_def)
  have "sl_map (m_skipList (close_channel (CommandIndex m) ?kv2)) = sl_map (m_skipList kv1)"
    "sl_map (m_skipList (close_channel (CommandIndex m) ?kv3)) = sl_map (m_skipList kv1)"
    using close_channel_ok(2) [OF s(1), of "CommandIndex m"] close_channel_ok(2) [OF ok3, of "CommandIndex m"] same
    by (simp_all add: kv_abs_def)
  with 1(1) pa g close_channel_ok(1,3) [OF s(1)] close_channel_ok(1,3) [OF ok3] show ?thesis by blast
qed

definition demo_waiting :: KvServer where
  "demo_waiting = demo_kv\<lparr>waitApplyCh := [1 \<mapsto> 0], channels := [Some []]\<rparr>"

lemma demo_waiting_ok: "kv_ok demo_waiting" "sl_map (m_skipList demo_waiting) = Map.empty"
    "waitApplyCh demo_waiting 1 = Some 0" "channels demo_waiting ! 0 = Some []" "m_lastRequestId demo_waiting = Map.empty"
    "m_lastSnapShotRaftLogIndex demo_waiting = 0"
  using demo_kv_ok by (simp_all add: demo_waiting_def kv_ok_def channels_ok_def demo_kv_def)

theorem waiting_call_answered_witness:
  "\<exists>kv1 kv2. GetCommandFromRaft demo_kv_env (demo_msg ''1'' 1) [0] demo_waiting = Inr kv1
    \<and> PutAppend_finish False (demo_op ''Put'' ''k'' ''v'' 1) 1 0 kv1 = Inr (Some (OK, kv2))"
proof -
  have m: "CommandIndex (demo_msg ''1'' 1) = 1" "Command (demo_msg ''1'' 1) = ''1''" by (simp_all add: demo_msg_def)
  have rs: "draws_end [0 :: int]" by (simp add: draws_end_def)
  have d: "op_iarchive demo_kv_env (Command (demo_msg ''1'' 1)) = Some (demo_op ''Put'' ''k'' ''v'' 1)"
    by (simp add: m demo_kv_env_def demo_decode_def)
  have i: "m_lastSnapShotRaftLogIndex demo_waiting < CommandIndex (demo_msg ''1'' 1)" by (simp add: m demo_waiting_ok)
  have w: "waitApplyCh demo_waiting (CommandIndex (demo_msg ''1'' 1)) = Some 0" by (simp add: m demo_waiting_ok)
  from waiting_call_answered [OF demo_waiting_ok(1) rs w demo_waiting_ok(4) d i, of "demo_op ''Put'' ''k'' ''v'' 1"]
  show ?thesis by (auto simp: m(1))
qed

text \<open>C14: waiting calls can share a queue, and the first to return frees it under the others: two calls that start to
  wait at one log index (a new leader gives an index away again) get the same queue; after the first
  of them has returned, the other fails with a use after free whenever it wakes.\<close>

theorem shared_queue_is_freed:
  assumes ok: "kv_ok kv" and first: "open_channel i kv = (p, kv1)" and second: "open_channel i kv1 = (p', kv2)"
    and fin: "PutAppend_finish t op i p kv2 = Inr (Some (err, kv3))"
  shows "p' = p \<and> PutAppend_finish t' op' i p' kv3 = Inl UseAfterFree \<and> Get_finish t' op' i p' kv3 = Inl UseAfterFree"
proof -
  obtain kv1' where o: "open_channel i kv = (p, kv1')" "kv_ok kv1'" "waitApplyCh kv1' i = Some p" "open_channel i kv1' = (p, kv1')"
    using open_channel_ok [OF ok, of i] first by auto
  with first second have eq: "p' = p" "kv2 = kv1" and k: "kv_ok kv1" "waitApplyCh kv1 i = Some p" by auto
  have pl: "p < length (channels kv1)" using channel_in_use [OF k] by blast
  from fin obtain o1 where o1: "wait_channel t p kv1 = Inr o1" by (auto simp: PutAppend_finish_def eq bindE_eq_Inr)
  with fin obtain r kv4 where w: "wait_channel t p kv1 = Inr (Some (r, kv4))" and 3: "kv3 = close_channel i kv4"
    by (cases o1) (auto simp: PutAppend_finish_def eq Let_def)
  from w obtain q where 4: "kv4 = set_channel p (Some q) kv1"
    by (auto simp: wait_channel_def bindE_eq_Inr split: option.split_asm)
  have "channel_at p kv3 = Inl UseAfterFree"
    using pl k(2) by (simp add: 3 4 close_channel_def set_channel_def channel_at_def)
  then show ?thesis by (simp add: eq PutAppend_finish_def Get_finish_def wait_channel_def)
qed

theorem shared_queue_is_freed_witness:
  "\<exists>p kv1 kv2 kv3. open_channel 4 demo_kv = (p, kv1) \<and> open_channel 4 kv1 = (p, kv2)
    \<and> PutAppend_finish True (demo_op ''Put'' ''k'' ''v'' 1) 4 p kv2 = Inr (Some (ErrWrongLeader, kv3))
    \<and> Get_finish False (demo_op ''Get'' ''k'' [] 2) 4 p kv3 = Inl UseAfterFree"
proof -
  obtain p kv1 where o: "open_channel 4 demo_kv = (p, kv1)" "kv_ok kv1" "waitApplyCh kv1 4 = Some p"
      "open_channel 4 kv1 = (p, kv1)" "kv_abs kv1 = kv_abs demo_kv"
    using open_channel_ok [OF demo_kv_ok(1), of 4] by blast
  obtain q where "channel_at p kv1 = Inr q" using channel_in_use [OF o(2,3)] by blast
  moreover have "m_lastRequestId kv1 = Map.empty" using o(5) by (simp add: kv_abs_def demo_kv_def)
  ultimately have f: "PutAppend_finish True (demo_op ''Put'' ''k'' ''v'' 1) 4 p kv1
      = Inr (Some (ErrWrongLeader, close_channel 4 (set_channel p (Some q) kv1)))"
    by (simp add: PutAppend_finish_def wait_channel_def ifRequestDuplicate_def set_channel_def)
  from shared_queue_is_freed [OF demo_kv_ok(1) o(1,4) f, of False "demo_op ''Get'' ''k'' [] 2"] o(1,4) f
  show ?thesis by blast
qed

text \<open>A snapshot handed from one server to another carries the request table and the set of keys, but no value:
  after installation every key of the sender the receiver did not have is bound to itself, keys the
  receiver had keep their old values, and the sender's own state is unchanged.\<close>

theorem snapshot_transfer:
  assumes ok: "kv_ok kv" "kv_ok kv2"
    and archives: "\<And>s. s \<noteq> [] \<Longrightarrow> kv_oarchive ev (s, m_lastRequestId kv) \<noteq> []
        \<and> kv_iarchive ev (kv_oarchive ev (s, m_lastRequestId kv)) = Some (s, m_lastRequestId kv)"
      "\<And>d. dump_data (m_skipList kv) = Inr d \<Longrightarrow> dump_oarchive ev d \<noteq> [] \<and> dump_iarchive ev (dump_oarchive ev d) = Some d"
    and draws: "card (dom (sl_map (m_skipList kv))) \<le> length rss" "\<forall>rs \<in> set rss. draws_end rs"
  shows "\<exists>str kv1 kv'. MakeSnapShot ev kv = Inr (str, kv1)
    \<and> sl_map (m_skipList kv1) = sl_map (m_skipList kv) \<and> m_lastRequestId kv1 = m_lastRequestId kv
    \<and> ReadSnapShotToInstall ev str rss kv2 = Inr kv' \<and> kv_ok kv' \<and> m_lastRequestId kv' = m_lastRequestId kv
    \<and> sl_map (m_skipList kv') = (\<lambda>k. case sl_map (m_skipList kv2) k of
        Some v \<Rightarrow> Some v | None \<Rightarrow> if sl_map (m_skipList kv) k = None then None else Some k)"
proof -
  obtain d where d: "dump_data (m_skipList kv) = Inr d" "set (keyDumpVt d) = dom (sl_map (m_skipList kv))"
      "distinct (keyDumpVt d)"
    and make: "MakeSnapShot ev kv = Inr (kv_oarchive ev (dump_oarchive ev d, m_lastRequestId kv), kv\<lparr>m_serializedKVData := []\<rparr>)"
    using snapshot_data_ok [OF ok(1), of ev] by (auto simp: MakeSnapShot_def)
  have "length (keyDumpVt d) \<le> length rss" using d(2,3) draws(1) by (metis distinct_card)
  moreover have sl2: "sl_ok (m_skipList kv2)" using ok(2) by (simp add: kv_ok_def)
  ultimately obtain sl where sl: "load_loop (keyDumpVt d) rss (m_skipList kv2) = Inr sl" "sl_ok sl"
    "sl_map sl = (\<lambda>k. if sl_map (m_skipList kv2) k \<noteq> None then sl_map (m_skipList kv2) k
       else if k \<in> set (keyDumpVt d) then Some k else None)"
    using load_loop_any [of "m_skipList kv2" "keyDumpVt d" rss] draws(2) by blast
  have "sl_map sl = (\<lambda>k. case sl_map (m_skipList kv2) k of
        Some v \<Rightarrow> Some v | None \<Rightarrow> if sl_map (m_skipList kv) k = None then None else Some k)"
    by (auto simp: sl(3) d(2) fun_eq_iff dom_def split: option.split)
  moreover have "ReadSnapShotToInstall ev (kv_oarchive ev (dump_oarchive ev d, m_lastRequestId kv)) rss kv2
      = Inr (kv2\<lparr>m_serializedKVData := [], m_lastRequestId := m_lastRequestId kv, m_skipList := sl\<rparr>)"
    using archives(1) archives(2) [OF d(1)] sl(1) by (simp add: ReadSnapShotToInstall_def parseFromString_def load_file_def Let_def)
  moreover have "kv_ok (kv2\<lparr>m_serializedKVData := [], m_lastRequestId := m_lastRequestId kv, m_skipList := sl\<rparr>)"
    using ok(2) sl(2) by (simp add: kv_ok_def channels_ok_def)
  ultimately show ?thesis using make by simp
qed

definition demo_sender :: KvServer where
  "demo_sender = demo_kv\<lparr>m_lastRequestId := [''c'' \<mapsto> 2],
     m_skipList := \<lparr>heap = [Some \<lparr>nkey = [], nvalue = [], node_level = 6,
               forward = [Some 1, Some 1, None, None, None, None, None]\<rparr>,
             Some \<lparr>nkey = ''k'', nvalue = ''w'', node_level = 1, forward = [None, None]\<rparr>],
           max_level = 6, skip_list_level = 1, header = 0, element_count = 1\<rparr>\<rparr>"

lemma demo_sender_list:
  "insert_set_element ''k'' ''w'' [0] (SkipList_new [] [] 6) = Inr (m_skipList demo_sender)"
  "dump_data (m_skipList demo_sender) = Inr \<lparr>keyDumpVt = [''k''], valDumpVt = [''w'']\<rparr>"
  by (code_simp, code_simp)

theorem snapshot_transfer_witness:
  "\<exists>str kv1 kv'. MakeSnapShot demo_kv_env demo_sender = Inr (str, kv1)
    \<and> sl_map (m_skipList kv1) ''k'' = Some ''w''
    \<and> ReadSnapShotToInstall demo_kv_env str [[0]] demo_kv = Inr kv'
    \<and> m_lastRequestId kv' = [''c'' \<mapsto> 2] \<and> sl_map (m_skipList kv') ''k'' = Some ''k''"
proof -
  have rs: "\<forall>rs \<in> set [[0 :: int]]. draws_end rs" "draws_end [0 :: int]" by (simp_all add: draws_end_def)
  have "sl_ok (SkipList_new [] [] 6 :: (string, string) SkipList)"
    "sl_map (SkipList_new [] [] 6 :: (string, string) SkipList) = Map.empty"
    using new_ok [of "[] :: string" "[] :: string" 6] by simp_all
  from skl.put_abs [OF this(1) rs(2), of "''k''" "''w''"] this(2) have
    sl: "sl_ok (m_skipList demo_sender)" "sl_map (m_skipList demo_sender) = [''k'' \<mapsto> ''w'']"
    by (simp_all add: demo_sender_list(1))
  have l: "m_lastRequestId demo_sender = [''c'' \<mapsto> 2]" by (simp add: demo_sender_def)
  have ok: "kv_ok demo_sender"
    using demo_kv_ok(1) sl(1) by (simp add: demo_sender_def kv_ok_def channels_ok_def)
  have a1: "s \<noteq> [] \<Longrightarrow> kv_oarchive demo_kv_env (s, m_lastRequestId demo_sender) \<noteq> []
      \<and> kv_iarchive demo_kv_env (kv_oarchive demo_kv_env (s, m_lastRequestId demo_sender)) = Some (s, m_lastRequestId demo_sender)" for s
    by (simp add: l) (simp add: demo_kv_env_def)
  have a2: "dump_data (m_skipList demo_sender) = Inr d \<Longrightarrow> dump_oarchive demo_kv_env d \<noteq> []
      \<and> dump_iarchive demo_kv_env (dump_oarchive demo_kv_env d) = Some d" for d
    by (simp add: demo_sender_list(2)) (auto simp: demo_kv_env_def)
  have n: "card (dom (sl_map (m_skipList demo_sender))) \<le> length [[0 :: int]]" by (simp add: sl(2))
  from snapshot_transfer [OF ok demo_kv_ok(1) a1 a2 n rs(1)] show ?thesis
    unfolding sl(2) demo_kv_ok(2) l by fastforce
qed

end
