(* ===== verification/ByteArray.thy ===== *)
theory ByteArray
  imports Prelude "HOL-Library.Word"
begin

text \<open>
  The serialisation buffer \<open>ByteArray\<close> of \<open>src/sylar/bytearray.cc\<close> and \<open>bytearray.h\<close>, with the byte
  order helpers of \<open>endian.h\<close>. The chain of memory blocks from \<open>m_root\<close> along \<open>next\<close> is a list
  (the size of a block is its length); \<open>m_cur\<close> is a position in it, \<open>None\<close> for the null pointer. A cell
  of a block is \<open>None\<close> until it is written, since \<open>new char[s]\<close> does not initialise it. Sizes are
  natural numbers: a buffer is shorter than \<open>2 ^ 64\<close>; where the code subtracts sizes without a
  check the wrap-around is written out.
\<close>

unbundle bit_operations_syntax

section \<open>Model\<close>

type_synonym byte = "8 word"
type_synonym block = "byte option list"

datatype byte_order = SYLAR_LITTLE_ENDIAN | SYLAR_BIG_ENDIAN

text \<open>
  \<open>OutOfRange\<close> is the exception the code throws; \<open>NullPointer\<close> a dereferenced null pointer;
  \<open>Uninitialised\<close> a value that depends on memory never written; \<open>BadLength\<close> a negative length.
\<close>

datatype ba_error = OutOfRange | NullPointer | Uninitialised | BadLength

record ByteArray =
  m_baseSize :: nat
  m_position :: nat
  m_capacity :: nat
  m_size :: nat
  m_endian :: byte_order
  m_blocks :: "block list"
  m_cur :: "nat option"

text \<open>\<open>new char[s]\<close>\<close>

definition ByteNode_new :: "nat \<Rightarrow> block" where
  "ByteNode_new s = replicate s None"

definition ByteArray_new :: "nat \<Rightarrow> ByteArray" where
  "ByteArray_new base_size = \<lparr>m_baseSize = base_size, m_position = 0, m_capacity = base_size, m_size = 0,
     m_endian = SYLAR_BIG_ENDIAN, m_blocks = [ByteNode_new base_size], m_cur = Some 0\<rparr>"

definition isLittleEndian :: "ByteArray \<Rightarrow> bool" where
  "isLittleEndian ba = (m_endian ba = SYLAR_LITTLE_ENDIAN)"

definition setIsLittleEndian :: "bool \<Rightarrow> ByteArray \<Rightarrow> ByteArray" where
  "setIsLittleEndian val ba = (if val then ba\<lparr>m_endian := SYLAR_LITTLE_ENDIAN\<rparr> else ba\<lparr>m_endian := SYLAR_BIG_ENDIAN\<rparr>)"

definition getReadSize :: "ByteArray \<Rightarrow> nat" where
  "getReadSize ba = m_size ba - m_position ba"

definition getCapacity :: "ByteArray \<Rightarrow> nat" where
  "getCapacity ba = m_capacity ba - m_position ba"

section \<open>Blocks\<close>

text \<open>The block behind a pointer, and the pointer to the next block.\<close>

definition block_at :: "nat option \<Rightarrow> ByteArray \<Rightarrow> ba_error + block" where
  "block_at p ba = (case p of None \<Rightarrow> Inl NullPointer
     | Some c \<Rightarrow> if c < length (m_blocks ba) then Inr (m_blocks ba ! c) else Inl NullPointer)"

definition next_block :: "nat option \<Rightarrow> ByteArray \<Rightarrow> nat option" where
  "next_block p ba = (case p of None \<Rightarrow> None
     | Some c \<Rightarrow> if Suc c < length (m_blocks ba) then Some (Suc c) else None)"

text \<open>How many blocks there are from a pointer on; it bounds every walk along \<open>next\<close>.\<close>

definition blocks_left :: "nat option \<Rightarrow> ByteArray \<Rightarrow> nat" where
  "blocks_left p ba = (case p of None \<Rightarrow> 0 | Some c \<Rightarrow> length (m_blocks ba) - c)"

lemma blocks_left_next: "block_at p ba = Inr b \<Longrightarrow> blocks_left (next_block p ba) ba < blocks_left p ba"
  by (auto simp: block_at_def next_block_def blocks_left_def split: option.splits if_splits)

lemma blocks_left_cong: "length (m_blocks ba') = length (m_blocks ba) \<Longrightarrow> blocks_left p ba' = blocks_left p ba"
  by (simp add: blocks_left_def split: option.split)

text \<open>\<open>memcpy(ptr + npos, bs, len)\<close>\<close>

definition overlay :: "nat \<Rightarrow> byte list \<Rightarrow> block \<Rightarrow> block" where
  "overlay npos bs b = take npos b @ map Some bs @ drop (npos + length bs) b"

definition put_block :: "nat option \<Rightarrow> block \<Rightarrow> ByteArray \<Rightarrow> ByteArray" where
  "put_block p b ba = (case p of None \<Rightarrow> ba | Some c \<Rightarrow> ba\<lparr>m_blocks := (m_blocks ba)[c := b]\<rparr>)"

lemma put_block_same [simp]:
  "m_baseSize (put_block p b ba) = m_baseSize ba" "m_position (put_block p b ba) = m_position ba"
  "m_capacity (put_block p b ba) = m_capacity ba" "m_size (put_block p b ba) = m_size ba"
  "m_endian (put_block p b ba) = m_endian ba" "m_cur (put_block p b ba) = m_cur ba"
  by (simp_all add: put_block_def split: option.split)

lemma length_put_block [simp]: "length (m_blocks (put_block p b ba)) = length (m_blocks ba)"
  by (simp add: put_block_def split: option.split)

text \<open>\<open>ceil(1.0 * size / m_baseSize)\<close> new blocks are appended, so many that \<open>size\<close> bytes fit.\<close>

definition addCapacity :: "nat \<Rightarrow> ByteArray \<Rightarrow> ByteArray" where
  "addCapacity n ba =
     (if n = 0 then ba
      else let old_cap = getCapacity ba in
        if old_cap \<ge> n then ba
        else
          let n1 = n - old_cap;
              count = (n1 + m_baseSize ba - 1) div m_baseSize ba;
              ba1 = ba\<lparr>m_blocks := m_blocks ba @ replicate count (ByteNode_new (m_baseSize ba)),
                       m_capacity := m_capacity ba + count * m_baseSize ba\<rparr>
          in if old_cap = 0 then ba1\<lparr>m_cur := Some (length (m_blocks ba))\<rparr> else ba1)"

definition clear :: "ByteArray \<Rightarrow> ByteArray" where
  "clear ba = ba\<lparr>m_position := 0, m_size := 0, m_capacity := m_baseSize ba,
                 m_blocks := take 1 (m_blocks ba), m_cur := Some 0\<rparr>"

section \<open>Reading and writing\<close>

text \<open>One block is written per round; the arguments are the bytes left and the offset \<open>npos\<close>.\<close>

function write_loop :: "byte list \<Rightarrow> nat \<Rightarrow> ByteArray \<Rightarrow> ba_error + ByteArray" where
  "write_loop buf npos ba =
     (if buf = [] then Inr ba
      else case block_at (m_cur ba) ba of
        Inl e \<Rightarrow> Inl e
      | Inr b \<Rightarrow>
          let ncap = length b - npos in
          if ncap \<ge> length buf then
            let ba1 = put_block (m_cur ba) (overlay npos buf b) ba;
                ba2 = (if length b = npos + length buf then ba1\<lparr>m_cur := next_block (m_cur ba) ba\<rparr> else ba1)
            in Inr (ba2\<lparr>m_position := m_position ba + length buf\<rparr>)
          else
            write_loop (drop ncap buf) 0
              ((put_block (m_cur ba) (overlay npos (take ncap buf) b) ba)
                 \<lparr>m_position := m_position ba + ncap, m_cur := next_block (m_cur ba) ba\<rparr>))"
  by pat_completeness auto
termination
proof (relation "measure (\<lambda>(buf, npos, ba). blocks_left (m_cur ba) ba)", goal_cases)
  case 1
  show ?case by simp
next
  case (2 buf npos ba b ncap)
  have "blocks_left p ((put_block (m_cur ba) c ba)\<lparr>m_position := i, m_cur := q\<rparr>) = blocks_left p ba" for c i p q
    by (rule blocks_left_cong) simp
  with blocks_left_next [OF 2(2)] show ?case by simp
qed

declare write_loop.simps [simp del]

definition write_bytes :: "byte list \<Rightarrow> ByteArray \<Rightarrow> ba_error + ByteArray" where
  "write_bytes buf ba =
     (if buf = [] then Inr ba
      else
        let ba1 = addCapacity (length buf) ba in
        bindE (write_loop buf (m_position ba1 mod m_baseSize ba1) ba1) (\<lambda>ba2.
        Inr (if m_position ba2 > m_size ba2 then ba2\<lparr>m_size := m_position ba2\<rparr> else ba2)))"

text \<open>The rounds of \<open>read\<close>, from the block at \<open>p\<close>: the bytes and the pointer afterwards.\<close>

function read_loop :: "nat \<Rightarrow> nat \<Rightarrow> nat option \<Rightarrow> ByteArray \<Rightarrow> ba_error + byte option list \<times> nat option" where
  "read_loop n npos p ba =
     (if n = 0 then Inr ([], p)
      else case block_at p ba of
        Inl e \<Rightarrow> Inl e
      | Inr b \<Rightarrow>
          let ncap = length b - npos in
          if ncap \<ge> n then
            Inr (take n (drop npos b), if length b = npos + n then next_block p ba else p)
          else
            bindE (read_loop (n - ncap) 0 (next_block p ba) ba) (\<lambda>(bs, p').
            Inr (take ncap (drop npos b) @ bs, p')))"
  by pat_completeness auto
termination
  by (relation "measure (\<lambda>(n, npos, p, ba). blocks_left p ba)") (auto dest: blocks_left_next)

declare read_loop.simps [simp del]

text \<open>The size of the current block is read before the loop, also when nothing is to be copied.\<close>

definition read_bytes :: "nat \<Rightarrow> ByteArray \<Rightarrow> ba_error + byte option list \<times> ByteArray" where
  "read_bytes n ba =
     (if n > getReadSize ba then Inl OutOfRange
      else
        bindE (block_at (m_cur ba) ba) (\<lambda>_.
        bindE (read_loop n (m_position ba mod m_baseSize ba) (m_cur ba) ba) (\<lambda>(bs, p).
        Inr (bs, ba\<lparr>m_cur := p, m_position := m_position ba + n\<rparr>))))"

text \<open>\<open>cur = cur->next\<close>, \<open>count\<close> times\<close>

fun walk :: "nat \<Rightarrow> nat option \<Rightarrow> ByteArray \<Rightarrow> ba_error + nat option" where
  "walk 0 p ba = Inr p"
| "walk (Suc count) p ba = bindE (block_at p ba) (\<lambda>_. walk count (next_block p ba) ba)"

text \<open>
  The constant \<open>read\<close> at a position. The check subtracts sizes without looking which one is
  larger, and the capacity of the first block read is taken from \<open>m_cur\<close>.
\<close>

definition read_at :: "nat \<Rightarrow> nat \<Rightarrow> ByteArray \<Rightarrow> ba_error + byte option list" where
  "read_at n position ba =
     (if n > (m_size ba + 2 ^ 64 - position) mod 2 ^ 64 then Inl OutOfRange
      else
        bindE (walk (position div m_baseSize ba) (Some 0) ba) (\<lambda>cur.
        bindE (block_at (m_cur ba) ba) (\<lambda>_.
        bindE (read_loop n (position mod m_baseSize ba) cur ba) (\<lambda>(bs, _). Inr bs))))"

text \<open>The loop of \<open>setPosition\<close>: skip the blocks that lie before \<open>v\<close>.\<close>

function seek :: "nat \<Rightarrow> nat option \<Rightarrow> ByteArray \<Rightarrow> ba_error + nat option" where
  "seek v p ba = (case block_at p ba of Inl e \<Rightarrow> Inl e
     | Inr b \<Rightarrow>
         if v > length b then seek (v - length b) (next_block p ba) ba
         else if v = length b then Inr (next_block p ba) else Inr p)"
  by pat_completeness auto
termination
  by (relation "measure (\<lambda>(v, p, ba). blocks_left p ba)") (auto dest: blocks_left_next)

declare seek.simps [simp del]

definition setPosition :: "nat \<Rightarrow> ByteArray \<Rightarrow> ba_error + ByteArray" where
  "setPosition v ba =
     (if v > m_capacity ba then Inl OutOfRange
      else
        let ba1 = ba\<lparr>m_position := v, m_size := max (m_size ba) v\<rparr> in
        bindE (seek v (Some 0) ba1) (\<lambda>p. Inr (ba1\<lparr>m_cur := p\<rparr>)))"

end
