(* ===== verification/ByteArrayInv.thy ===== *)
theory ByteArrayInv
  imports ByteArray
begin

text \<open>
  The blocks of a \<open>ByteArray\<close> as one flat sequence of cells: the invariant of the buffer, and each
  operation in terms of the flat contents and the position.
\<close>

section \<open>Sequences of equally long blocks\<close>

lemma concat_blocks_length: "(\<forall>b \<in> set bs. length b = B) \<Longrightarrow> length (concat bs) = B * length bs"
  by (induction bs) auto

lemma block_split:
  assumes "\<forall>b \<in> set bs. length b = B" "c < length bs"
  shows "\<exists>u w. length u = c * B \<and> concat bs = u @ bs ! c @ w \<and> (\<forall>x. concat (bs[c := x]) = u @ x @ w)"
proof -
  let ?u = "concat (take c bs)" and ?w = "concat (drop (Suc c) bs)"
  have "\<forall>b \<in> set (take c bs). length b = B" using assms(1) by (auto dest: in_set_takeD)
  from concat_blocks_length [OF this] have "length ?u = c * B" using assms(2) by (simp add: min_def)
  moreover have "concat bs = concat (take c bs @ bs ! c # drop (Suc c) bs)"
    using id_take_nth_drop [OF assms(2)] by simp
  then have "concat bs = ?u @ bs ! c @ ?w" by simp
  moreover have "\<forall>x. concat (bs[c := x]) = ?u @ x @ ?w" by (simp add: upd_conv_take_nth_drop [OF assms(2)])
  ultimately show ?thesis by blast
qed

lemma length_overlay [simp]: "npos + length bs \<le> length b \<Longrightarrow> length (overlay npos bs b) = length b"
  by (simp add: overlay_def)

lemma overlay_middle:
  assumes "npos + length bs \<le> length b"
  shows "overlay (length a + npos) bs (a @ b @ c) = a @ overlay npos bs b @ c"
  using assms by (simp add: overlay_def add.assoc)

lemma overlay_split:
  assumes "p + length bs \<le> length F" "n \<le> length bs"
  shows "overlay (p + n) (drop n bs) (overlay p (take n bs) F) = overlay p bs F"
proof -
  have "map Some bs = map Some (take n bs) @ map Some (drop n bs)" by (metis append_take_drop_id map_append)
  then show ?thesis using assms by (simp add: overlay_def min_def ac_simps)
qed

lemma overlay_take:
  assumes "p \<le> s" "s \<le> length F" "p + length bs \<le> length F"
  shows "take (max s (p + length bs)) (overlay p bs F) = overlay p bs (take s F)"
proof (cases "s \<le> p + length bs")
  case True
  then have "max s (p + length bs) = p + length bs" "drop (p + length bs) (take s F) = []" by simp_all
  moreover have "bs \<noteq> [] \<Longrightarrow> p < length F" using assms(3) by (cases bs) auto
  ultimately show ?thesis using assms by (cases "bs = []") (simp_all add: overlay_def min_def)
next
  case False
  then have "max s (p + length bs) = s" by simp
  with assms False show ?thesis by (simp add: overlay_def min_def drop_take)
qed

section \<open>Invariant\<close>

definition blocks_ok :: "ByteArray \<Rightarrow> bool" where
  "blocks_ok ba \<longleftrightarrow> 0 < m_baseSize ba \<and> m_blocks ba \<noteq> [] \<and> (\<forall>b \<in> set (m_blocks ba). length b = m_baseSize ba)
     \<and> m_capacity ba = m_baseSize ba * length (m_blocks ba)"

text \<open>The pointer to the block that holds position \<open>v\<close>; null at the end of the last block.\<close>

definition cur_at :: "ByteArray \<Rightarrow> nat \<Rightarrow> nat option" where
  "cur_at ba v = (if v < m_capacity ba then Some (v div m_baseSize ba) else None)"

definition ba_inv :: "ByteArray \<Rightarrow> bool" where
  "ba_inv ba \<longleftrightarrow> blocks_ok ba \<and> m_position ba \<le> m_size ba \<and> m_size ba \<le> m_capacity ba
     \<and> m_cur ba = cur_at ba (m_position ba)"

definition flat :: "ByteArray \<Rightarrow> byte option list" where
  "flat ba = concat (m_blocks ba)"

definition ba_data :: "ByteArray \<Rightarrow> byte option list" where
  "ba_data ba = take (m_size ba) (flat ba)"

definition unread :: "ByteArray \<Rightarrow> byte option list" where
  "unread ba = drop (m_position ba) (ba_data ba)"

text \<open>Blocks, pointers and flat contents do not depend on position, size, byte order or current pointer.\<close>

lemma layout_simps [simp]:
  "blocks_ok (ba\<lparr>m_cur := p\<rparr>) = blocks_ok ba" "blocks_ok (ba\<lparr>m_position := i\<rparr>) = blocks_ok ba"
  "blocks_ok (ba\<lparr>m_size := i\<rparr>) = blocks_ok ba" "blocks_ok (ba\<lparr>m_endian := en\<rparr>) = blocks_ok ba"
  "cur_at (ba\<lparr>m_cur := p\<rparr>) = cur_at ba" "cur_at (ba\<lparr>m_position := i\<rparr>) = cur_at ba"
  "cur_at (ba\<lparr>m_size := i\<rparr>) = cur_at ba" "cur_at (ba\<lparr>m_endian := en\<rparr>) = cur_at ba"
  "flat (ba\<lparr>m_cur := p\<rparr>) = flat ba" "flat (ba\<lparr>m_position := i\<rparr>) = flat ba"
  "flat (ba\<lparr>m_size := i\<rparr>) = flat ba" "flat (ba\<lparr>m_endian := en\<rparr>) = flat ba"
  "cur_at (put_block p b ba) = cur_at ba"
  by (auto simp: blocks_ok_def cur_at_def flat_def fun_eq_iff)

lemma flat_length: "blocks_ok ba \<Longrightarrow> length (flat ba) = m_capacity ba"
  by (simp add: flat_def blocks_ok_def concat_blocks_length)

lemma data_length: "ba_inv ba \<Longrightarrow> length (ba_data ba) = m_size ba"
  by (simp add: ba_inv_def ba_data_def flat_length)

lemma unread_length: "ba_inv ba \<Longrightarrow> length (unread ba) = getReadSize ba"
  by (simp add: unread_def data_length getReadSize_def)

lemma new_ba_inv:
  assumes "0 < base_size"
  shows "ba_inv (ByteArray_new base_size)" "ba_data (ByteArray_new base_size) = []"
  using assms by (simp_all add: ba_inv_def blocks_ok_def cur_at_def ByteArray_new_def ByteNode_new_def ba_data_def)

text \<open>Where position \<open>v\<close> lies: the block behind the pointer, what is before it and after it.\<close>

lemma block_at_flat:
  assumes "blocks_ok ba" "v < m_capacity ba"
  shows "\<exists>b u w. block_at (cur_at ba v) ba = Inr b \<and> length b = m_baseSize ba
    \<and> length u = v div m_baseSize ba * m_baseSize ba \<and> flat ba = u @ b @ w
    \<and> (\<forall>x. flat (put_block (cur_at ba v) x ba) = u @ x @ w)"
proof -
  let ?B = "m_baseSize ba" and ?bs = "m_blocks ba"
  have B: "0 < ?B" "\<forall>b \<in> set ?bs. length b = ?B" "m_capacity ba = ?B * length ?bs" using assms(1) by (simp_all add: blocks_ok_def)
  have c: "v div ?B < length ?bs" using assms(2) B(1,3) by (simp add: less_mult_imp_div_less mult.commute)
  from block_split [OF B(2) c] B(2) c assms(2) show ?thesis
    by (fastforce simp: block_at_def cur_at_def flat_def put_block_def)
qed

lemma cur_at_next:
  assumes "blocks_ok ba" "v < m_capacity ba"
  shows "next_block (cur_at ba v) ba = cur_at ba (v div m_baseSize ba * m_baseSize ba + m_baseSize ba)"
proof -
  let ?B = "m_baseSize ba" and ?bs = "m_blocks ba"
  have B: "0 < ?B" "m_capacity ba = ?B * length ?bs" using assms(1) by (simp_all add: blocks_ok_def)
  have "v div ?B * ?B + ?B = Suc (v div ?B) * ?B" by simp
  moreover have "Suc (v div ?B) * ?B < ?B * length ?bs \<longleftrightarrow> Suc (v div ?B) < length ?bs"
    using B(1) by (metis mult.commute mult_less_cancel2)
  moreover have "Suc (v div ?B) * ?B div ?B = Suc (v div ?B)" using B(1) by simp
  ultimately show ?thesis using assms(2) by (simp add: next_block_def cur_at_def B(2) del: mult_Suc)
qed

lemma blocks_ok_put:
  assumes "blocks_ok ba" "length b = m_baseSize ba"
  shows "blocks_ok (put_block p b ba)"
  using assms by (auto simp: blocks_ok_def put_block_def split: option.split dest: set_update_subset_insert [THEN subsetD])

section \<open>The loops on the flat contents\<close>

text \<open>Where a read or a write of \<open>n\<close> bytes from position \<open>v\<close> inside the capacity ends in the block of \<open>v\<close>.\<close>

lemma ends_in_block:
  fixes v n B :: nat
  assumes "0 < B" "n \<le> B - v mod B" "0 < n"
  shows "B = v mod B + n \<Longrightarrow> v div B * B + B = v + n"
    and "B \<noteq> v mod B + n \<Longrightarrow> (v + n) div B = v div B \<and> v div B * B + B > v + n"
proof -
  have v: "v = v div B * B + v mod B" by simp
  show "B = v mod B + n \<Longrightarrow> v div B * B + B = v + n" using v by linarith
  assume "B \<noteq> v mod B + n"
  then have lt: "v mod B + n < B" using assms(2) mod_less_divisor [OF assms(1), of v] by linarith
  have "v + n = v div B * B + (v mod B + n)" using v by linarith
  with lt have "(v + n) div B = v div B" by (metis add.commute div_mult_self3 div_less add_0 assms(1) less_irrefl)
  with lt v show "(v + n) div B = v div B \<and> v div B * B + B > v + n" by linarith
qed

lemma cap_multiple:
  assumes "blocks_ok ba" "v < m_capacity ba"
  shows "v div m_baseSize ba * m_baseSize ba + m_baseSize ba \<le> m_capacity ba"
proof -
  have B: "0 < m_baseSize ba" "m_capacity ba = m_baseSize ba * length (m_blocks ba)" using assms(1) by (simp_all add: blocks_ok_def)
  then have "Suc (v div m_baseSize ba) \<le> length (m_blocks ba)"
    using assms(2) by (simp add: less_mult_imp_div_less mult.commute Suc_leI)
  then have "Suc (v div m_baseSize ba) * m_baseSize ba \<le> length (m_blocks ba) * m_baseSize ba" by (rule mult_le_mono1)
  then show ?thesis using B(2) by (simp add: mult.commute)
qed

lemma read_loop_flat:
  assumes "blocks_ok ba" "v + n \<le> m_capacity ba" "0 < n \<or> v < m_capacity ba"
  shows "read_loop n (v mod m_baseSize ba) (cur_at ba v) ba = Inr (take n (drop v (flat ba)), cur_at ba (v + n))"
  using assms(2,3)
proof (induction n arbitrary: v rule: less_induct)
  case (less n)
  let ?B = "m_baseSize ba"
  have B: "0 < ?B" using assms(1) by (simp add: blocks_ok_def)
  show ?case
  proof (cases "n = 0")
    case True
    then show ?thesis by (simp add: read_loop.simps)
  next
    case False
    with less.prems have v: "v < m_capacity ba" by linarith
    obtain b u w where b: "block_at (cur_at ba v) ba = Inr b" "length b = ?B" "length u = v div ?B * ?B" "flat ba = u @ b @ w"
      using block_at_flat [OF assms(1) v] by blast
    have m: "v mod ?B < ?B" using B by simp
    have d: "drop v (flat ba) = drop (v mod ?B) b @ w"
    proof -
      have "drop v (flat ba) = drop (length u + v mod ?B) (flat ba)" by (simp add: b(3))
      then show ?thesis using m b(2) by (simp add: b(4))
    qed
    have nx: "next_block (cur_at ba v) ba = cur_at ba (v div ?B * ?B + ?B)" by (rule cur_at_next [OF assms(1) v])
    show ?thesis
    proof (cases "?B - v mod ?B \<ge> n")
      case True
      then have t: "take n (drop (v mod ?B) b) = take n (drop v (flat ba))" using b(2) by (simp add: d)
      have "(if ?B = v mod ?B + n then next_block (cur_at ba v) ba else cur_at ba v) = cur_at ba (v + n)"
        using ends_in_block [OF B True] False nx v cap_multiple [OF assms(1) v] by (auto simp: cur_at_def)
      with True False t b(1,2) show ?thesis by (simp add: read_loop.simps [of n])
    next
      case inner: False
      let ?k = "?B - v mod ?B"
      have e: "v + ?k = v div ?B * ?B + ?B" using m using div_mult_mod_eq [of v ?B] by linarith
      have k: "0 < ?k" "?k < n" using m inner by linarith+
      have "read_loop (n - ?k) ((v + ?k) mod ?B) (cur_at ba (v + ?k)) ba
          = Inr (take (n - ?k) (drop (v + ?k) (flat ba)), cur_at ba (v + ?k + (n - ?k)))"
        using k less.prems by (intro less.IH) auto
      moreover have "(v + ?k) mod ?B = 0" unfolding e by simp
      ultimately have r: "read_loop (n - ?k) 0 (next_block (cur_at ba v) ba) ba
          = Inr (take (n - ?k) (drop (v + ?k) (flat ba)), cur_at ba (v + n))"
        using k by (simp add: nx e [symmetric])
      have "take ?k (drop (v mod ?B) b) @ take (n - ?k) (drop (v + ?k) (flat ba)) = take n (drop v (flat ba))"
      proof -
        have "take ?k (drop v (flat ba)) = take ?k (drop (v mod ?B) b)" using b(2) by (simp add: d)
        moreover have "take n (drop v (flat ba)) = take (?k + (n - ?k)) (drop v (flat ba))" using k by simp
        ultimately show ?thesis by (simp only: take_add drop_drop add.commute [of ?k v])
      qed
      with r False inner b(1,2) show ?thesis by (simp add: read_loop.simps [of n])
    qed
  qed
qed

text \<open>What a write changes: cells from \<open>v\<close> on, the position and the pointer.\<close>

definition written :: "byte list \<Rightarrow> nat \<Rightarrow> ByteArray \<Rightarrow> ByteArray \<Rightarrow> bool" where
  "written buf v ba ba' \<longleftrightarrow> blocks_ok ba' \<and> flat ba' = overlay v buf (flat ba)
     \<and> m_baseSize ba' = m_baseSize ba \<and> m_capacity ba' = m_capacity ba \<and> m_size ba' = m_size ba \<and> m_endian ba' = m_endian ba
     \<and> m_position ba' = m_position ba + length buf \<and> m_cur ba' = cur_at ba (v + length buf)"

lemma write_loop_flat:
  assumes "blocks_ok ba" "v + length buf \<le> m_capacity ba" "buf \<noteq> []" "m_cur ba = cur_at ba v"
  shows "\<exists>ba'. write_loop buf (v mod m_baseSize ba) ba = Inr ba' \<and> written buf v ba ba'"
  using assms
proof (induction "length buf" arbitrary: buf v ba rule: less_induct)
  case less
  let ?B = "m_baseSize ba" and ?n = "length buf"
  have B: "0 < ?B" using less.prems by (simp add: blocks_ok_def)
  have n: "0 < ?n" using less.prems(3) by simp
  with less.prems(2) have v: "v < m_capacity ba" by linarith
  obtain b u w where b: "block_at (cur_at ba v) ba = Inr b" "length b = ?B" "length u = v div ?B * ?B" "flat ba = u @ b @ w"
      "\<forall>x. flat (put_block (cur_at ba v) x ba) = u @ x @ w"
    using block_at_flat [OF less.prems(1) v] by blast
  have m: "v mod ?B < ?B" using B by simp
  have nx: "next_block (cur_at ba v) ba = cur_at ba (v div ?B * ?B + ?B)" by (rule cur_at_next [OF less.prems(1) v])
  have put: "flat (put_block (cur_at ba v) (overlay (v mod ?B) bs b) ba) = overlay v bs (flat ba)"
    "blocks_ok (put_block (cur_at ba v) (overlay (v mod ?B) bs b) ba)"
    if "v mod ?B + length bs \<le> ?B" for bs
  proof -
    have "overlay (length u + v mod ?B) bs (u @ b @ w) = u @ overlay (v mod ?B) bs b @ w"
      using that b(2) by (intro overlay_middle) simp
    then show "flat (put_block (cur_at ba v) (overlay (v mod ?B) bs b) ba) = overlay v bs (flat ba)" using b by simp
    show "blocks_ok (put_block (cur_at ba v) (overlay (v mod ?B) bs b) ba)"
      using that b(2) less.prems(1) by (intro blocks_ok_put) simp_all
  qed
  show ?case
  proof (cases "?B - v mod ?B \<ge> ?n")
    case True
    have "(if ?B = v mod ?B + ?n then next_block (cur_at ba v) ba else cur_at ba v) = cur_at ba (v + ?n)"
      using ends_in_block [OF B True n] nx v cap_multiple [OF less.prems(1) v] by (auto simp: cur_at_def)
    moreover have "v mod ?B + ?n \<le> ?B" using True m by linarith
    ultimately show ?thesis
      using put [of buf] True n b(1,2) less.prems(3,4) B
      by (simp add: write_loop.simps [of buf] written_def Let_def split: if_splits)
  next
    case inner: False
    let ?k = "?B - v mod ?B"
    have e: "v + ?k = v div ?B * ?B + ?B" using m using div_mult_mod_eq [of v ?B] by linarith
    have k: "0 < ?k" "?k < ?n" "v mod ?B + ?k = ?B" using m inner by linarith+
    let ?ba1 = "(put_block (cur_at ba v) (overlay (v mod ?B) (take ?k buf) b) ba)
        \<lparr>m_position := m_position ba + ?k, m_cur := cur_at ba (v + ?k)\<rparr>"
    have ba1: "blocks_ok ?ba1" "flat ?ba1 = overlay v (take ?k buf) (flat ba)"
      "m_baseSize ?ba1 = ?B" "m_capacity ?ba1 = m_capacity ba" "cur_at ?ba1 = cur_at ba"
      using put [of "take ?k buf"] k by simp_all
    have z: "(v + ?k) mod ?B = 0" unfolding e by simp
    have "\<exists>ba'. write_loop (drop ?k buf) ((v + ?k) mod m_baseSize ?ba1) ?ba1 = Inr ba'
        \<and> written (drop ?k buf) (v + ?k) ?ba1 ba'"
      using ba1 k less.prems by (intro less.hyps) auto
    then obtain ba' where r: "write_loop (drop ?k buf) 0 ?ba1 = Inr ba'" "written (drop ?k buf) (v + ?k) ?ba1 ba'"
      by (auto simp: z ba1(3))
    have "flat ba' = overlay v buf (flat ba)"
      using r(2) ba1(2) overlay_split [of v buf "flat ba" ?k] less.prems(1,2) k(2)
      by (simp add: written_def flat_length)
    then have "written buf v ba ba'"
      using r(2) k ba1(3,4,5) by (simp add: written_def)
    moreover have "write_loop buf (v mod ?B) ba = Inr ba'"
      using r(1) inner less.prems(3,4) b(1,2) k by (simp add: write_loop.simps [of buf] nx e)
    ultimately show ?thesis by blast
  qed
qed

section \<open>The operations\<close>

lemma addCapacity_ok:
  assumes "ba_inv ba" "0 < n"
  shows "ba_inv (addCapacity n ba)" "m_position ba + n \<le> m_capacity (addCapacity n ba)"
    "ba_data (addCapacity n ba) = ba_data ba" "\<exists>k. flat (addCapacity n ba) = flat ba @ replicate k None"
    "m_position (addCapacity n ba) = m_position ba" "m_endian (addCapacity n ba) = m_endian ba"
    "m_size (addCapacity n ba) = m_size ba" "m_baseSize (addCapacity n ba) = m_baseSize ba"
proof -
  let ?cap = "getCapacity ba" and ?B = "m_baseSize ba" and ?l = "length (m_blocks ba)"
  let ?k = "(n - ?cap + ?B - 1) div ?B"
  have ok: "blocks_ok ba" and B: "0 < ?B" "m_capacity ba = ?B * ?l"
    and pos: "m_position ba \<le> m_size ba" "m_size ba \<le> m_capacity ba" "m_cur ba = cur_at ba (m_position ba)"
    using assms(1) by (simp_all add: ba_inv_def blocks_ok_def)
  define ba1 where "ba1 = ba\<lparr>m_blocks := m_blocks ba @ replicate ?k (ByteNode_new ?B), m_capacity := m_capacity ba + ?k * ?B\<rparr>"
  show "m_position (addCapacity n ba) = m_position ba" "m_endian (addCapacity n ba) = m_endian ba"
    "m_size (addCapacity n ba) = m_size ba" "m_baseSize (addCapacity n ba) = ?B"
    by (simp_all add: addCapacity_def Let_def)
  have ok1: "blocks_ok ba1" using ok by (auto simp: ba1_def blocks_ok_def ByteNode_new_def algebra_simps)
  have f1: "flat ba1 = flat ba @ concat (replicate ?k (replicate ?B None))" by (simp add: ba1_def flat_def ByteNode_new_def)
  have nones: "concat (replicate j (replicate ?B None)) = replicate (j * ?B) (None :: byte option)" for j
    by (induction j) (simp_all add: replicate_add [symmetric])
  have r: "addCapacity n ba = (if n \<le> ?cap then ba else if ?cap = 0 then ba1\<lparr>m_cur := Some ?l\<rparr> else ba1)"
    using assms(2) by (simp add: addCapacity_def ba1_def Let_def)
  have big: "m_position ba + n \<le> m_capacity ba1" if "\<not> n \<le> ?cap"
  proof -
    have "n - ?cap \<le> ?k * ?B"
    proof -
      have "(n - ?cap + ?B - 1) div ?B * ?B + (n - ?cap + ?B - 1) mod ?B = n - ?cap + ?B - 1" by simp
      moreover have "(n - ?cap + ?B - 1) mod ?B < ?B" using B(1) by simp
      ultimately show ?thesis using B(1) that by linarith
    qed
    moreover have "m_capacity ba1 = m_capacity ba + ?k * ?B" by (simp add: ba1_def)
    moreover have "?cap = m_capacity ba - m_position ba" by (simp add: getCapacity_def)
    ultimately show ?thesis using pos that by linarith
  qed
  have fields: "m_position ba1 = m_position ba" "m_size ba1 = m_size ba" "m_cur ba1 = m_cur ba" "m_baseSize ba1 = ?B"
    "m_capacity ba \<le> m_capacity ba1" by (simp_all add: ba1_def)
  have end_block: "cur_at ba1 (m_position ba) = Some ?l" if "?cap = 0" "\<not> n \<le> ?cap"
  proof -
    have "m_position ba = ?B * ?l" using that(1) pos B(2) by (simp add: getCapacity_def)
    moreover have "m_position ba < m_capacity ba1" using big [OF that(2)] assms(2) by linarith
    ultimately show ?thesis using B(1) by (simp add: cur_at_def fields)
  qed
  have mid_block: "cur_at ba1 (m_position ba) = m_cur ba" if "?cap \<noteq> 0"
    using that pos fields by (simp add: cur_at_def getCapacity_def)
  have inv2: "ba_inv (addCapacity n ba)"
    if "\<not> n \<le> ?cap"
  proof (cases "?cap = 0")
    case True
    with that end_block [OF True that] ok1 pos fields show ?thesis
      by (simp add: r ba_inv_def)
  next
    case False
    with that mid_block [OF False] ok1 pos fields show ?thesis
      by (simp add: r ba_inv_def)
  qed
  with assms(1) show "ba_inv (addCapacity n ba)" by (cases "n \<le> ?cap") (simp_all add: r)
  show "m_position ba + n \<le> m_capacity (addCapacity n ba)"
    using big assms(2) by (cases "n \<le> ?cap") (auto simp: r getCapacity_def)
  have fl: "flat (addCapacity n ba) = (if n \<le> ?cap then flat ba else flat ba1)" by (simp add: r flat_def)
  then show "\<exists>k. flat (addCapacity n ba) = flat ba @ replicate k None"
    unfolding fl f1 nones by (metis append_Nil2 replicate_0)
  show "ba_data (addCapacity n ba) = ba_data ba"
    using pos flat_length [OF ok] by (simp add: ba_data_def fl f1) (simp add: r fields)
qed

lemma write_ok:
  assumes "ba_inv ba"
  shows "\<exists>ba'. write_bytes buf ba = Inr ba' \<and> ba_inv ba' \<and> m_position ba' = m_position ba + length buf
    \<and> ba_data ba' = overlay (m_position ba) buf (ba_data ba) \<and> m_endian ba' = m_endian ba \<and> m_baseSize ba' = m_baseSize ba
    \<and> m_size ba' = max (m_size ba) (m_position ba + length buf)"
proof (cases "buf = []")
  case True
  with assms show ?thesis by (simp add: write_bytes_def overlay_def ba_inv_def)
next
  case False
  let ?ba1 = "addCapacity (length buf) ba" and ?p = "m_position ba"
  note a = addCapacity_ok [OF assms, of "length buf"]
  have n: "0 < length buf" using False by simp
  have cur: "m_cur ?ba1 = cur_at ?ba1 ?p" and ok: "blocks_ok ?ba1" using a(1,5) [OF n] by (simp_all add: ba_inv_def)
  have le: "?p \<le> m_size ba" using assms by (simp add: ba_inv_def)
  obtain ba2 where w: "write_loop buf (?p mod m_baseSize ?ba1) ?ba1 = Inr ba2" "written buf ?p ?ba1 ba2"
    using write_loop_flat [OF ok a(2) [OF n] False cur] by blast
  have c2: "cur_at ba2 = cur_at ?ba1" using w(2) by (simp add: written_def cur_at_def fun_eq_iff)
  let ?ba3 = "if m_position ba2 > m_size ba2 then ba2\<lparr>m_size := m_position ba2\<rparr> else ba2"
  have "write_bytes buf ba = Inr ?ba3" using False w(1) a(5) [OF n] by (simp add: write_bytes_def Let_def)
  moreover have f: "m_position ?ba3 = ?p + length buf" "m_size ?ba3 = max (m_size ba) (?p + length buf)"
    "m_endian ?ba3 = m_endian ba" "m_baseSize ?ba3 = m_baseSize ba"
    using w(2) a(5-8) [OF n] by (simp_all add: written_def max_def)
  moreover have "ba_inv ?ba3"
    using w(2) a(2) [OF n] a(1,5,7) [OF n] le c2
    by (auto simp: written_def ba_inv_def max_def)
  moreover have "ba_data ?ba3 = overlay ?p buf (ba_data ba)"
  proof -
    have cap: "length (flat ?ba1) = m_capacity ?ba1" by (rule flat_length [OF ok])
    have "ba_data ?ba3 = take (max (m_size ba) (?p + length buf)) (overlay ?p buf (flat ?ba1))"
      using w(2) f(2) by (simp add: ba_data_def written_def flat_def)
    also have "\<dots> = overlay ?p buf (take (m_size ba) (flat ?ba1))"
      using le a(1,2,7) [OF n] cap by (intro overlay_take) (simp_all add: ba_inv_def)
    also have "take (m_size ba) (flat ?ba1) = ba_data ba" using a(3,7) [OF n] by (simp add: ba_data_def)
    finally show ?thesis .
  qed
  ultimately show ?thesis by blast
qed

lemma read_ok:
  assumes "ba_inv ba" "n \<le> getReadSize ba" "0 < n \<or> m_position ba < m_capacity ba"
  shows "\<exists>ba'. read_bytes n ba = Inr (take n (unread ba), ba') \<and> ba_inv ba' \<and> m_position ba' = m_position ba + n
    \<and> ba_data ba' = ba_data ba \<and> m_endian ba' = m_endian ba \<and> m_baseSize ba' = m_baseSize ba"
proof -
  let ?p = "m_position ba"
  have ok: "blocks_ok ba" and le: "?p \<le> m_size ba" "m_size ba \<le> m_capacity ba" and cur: "m_cur ba = cur_at ba ?p"
    using assms(1) by (simp_all add: ba_inv_def)
  have n: "?p + n \<le> m_size ba" using assms(2) le by (simp add: getReadSize_def)
  then have v: "?p < m_capacity ba" using assms(3) le by linarith
  have r: "read_loop n (?p mod m_baseSize ba) (m_cur ba) ba = Inr (take n (drop ?p (flat ba)), cur_at ba (?p + n))"
    using read_loop_flat [OF ok] n le assms(3) by (simp add: cur)
  have "take n (drop ?p (flat ba)) = take n (unread ba)"
    using n le by (simp add: unread_def ba_data_def drop_take min_def)
  moreover have "\<exists>b. block_at (m_cur ba) ba = Inr b" using block_at_flat [OF ok v] by (auto simp: cur)
  ultimately show ?thesis using r assms(2) ok n le
    by (auto simp: read_bytes_def ba_inv_def ba_data_def)
qed

text \<open>The ways a read fails: too few bytes, and nothing to read at the very end of the last block.\<close>

lemma read_fails:
  assumes "ba_inv ba"
  shows "getReadSize ba < n \<Longrightarrow> read_bytes n ba = Inl OutOfRange"
    and "m_position ba = m_capacity ba \<Longrightarrow> read_bytes 0 ba = Inl NullPointer"
  using assms by (simp_all add: read_bytes_def ba_inv_def block_at_def cur_at_def)

lemma unread_read:
  assumes "ba_inv ba" "ba_inv ba'" "m_position ba' = m_position ba + n" "ba_data ba' = ba_data ba"
  shows "unread ba' = drop n (unread ba)"
  using assms by (simp add: unread_def add.commute)

lemma seek_flat:
  assumes "blocks_ok ba" "c < length (m_blocks ba)" "c * m_baseSize ba + v \<le> m_capacity ba"
  shows "seek v (Some c) ba = Inr (cur_at ba (c * m_baseSize ba + v))"
  using assms(2,3)
proof (induction v arbitrary: c rule: less_induct)
  case (less v)
  let ?B = "m_baseSize ba" and ?l = "length (m_blocks ba)"
  have B: "0 < ?B" "\<forall>b \<in> set (m_blocks ba). length b = ?B" "m_capacity ba = ?B * ?l" using assms(1) by (simp_all add: blocks_ok_def)
  have b: "block_at (Some c) ba = Inr (m_blocks ba ! c)" "length (m_blocks ba ! c) = ?B" using less.prems B(2) by (simp_all add: block_at_def)
  have cB: "c * ?B < m_capacity ba" using less.prems(1) B by (simp add: mult.commute)
  have nx: "next_block (Some c) ba = cur_at ba (c * ?B + ?B)"
    using cur_at_next [OF assms(1) cB] cB B(1) by (simp add: cur_at_def)
  consider "v < ?B" | "v = ?B" | "v > ?B" by linarith
  then show ?case
  proof cases
    case 1
    have "c * ?B + ?B \<le> m_capacity ba" using cap_multiple [OF assms(1) cB] B(1) by simp
    with 1 B(1) have "cur_at ba (c * ?B + v) = Some c" by (simp add: cur_at_def)
    with 1 b show ?thesis by (simp add: seek.simps [of v])
  next
    case 2
    with b nx show ?thesis by (simp add: seek.simps [of "m_baseSize ba"])
  next
    case 3
    then have "c * ?B + ?B < m_capacity ba" using less.prems(2) by linarith
    then have "Suc c * ?B < ?l * ?B" using B(3) by (simp add: mult.commute)
    then have c1: "Suc c < ?l" by (rule mult_less_cancel2 [THEN iffD1, THEN conjunct2])
    have e: "Suc c * ?B + (v - ?B) = c * ?B + v" using 3 by simp
    have "seek (v - ?B) (Some (Suc c)) ba = Inr (cur_at ba (c * ?B + v))"
      using less.IH [of "v - ?B" "Suc c"] 3 B(1) c1 less.prems(2) unfolding e by linarith
    with 3 b c1 show ?thesis by (simp add: seek.simps [of v] next_block_def)
  qed
qed

lemma setPosition_ok:
  assumes "ba_inv ba" "v \<le> m_capacity ba"
  shows "\<exists>ba'. setPosition v ba = Inr ba' \<and> ba_inv ba' \<and> m_position ba' = v \<and> m_size ba' = max (m_size ba) v
    \<and> flat ba' = flat ba \<and> m_endian ba' = m_endian ba \<and> m_baseSize ba' = m_baseSize ba \<and> m_capacity ba' = m_capacity ba"
proof -
  let ?ba1 = "ba\<lparr>m_position := v, m_size := max (m_size ba) v\<rparr>"
  have ok: "blocks_ok ?ba1" "m_capacity ?ba1 = m_capacity ba" "cur_at ?ba1 = cur_at ba" using assms(1) by (simp_all add: ba_inv_def)
  then have "0 < length (m_blocks ?ba1)" by (auto simp: blocks_ok_def)
  with seek_flat [OF ok(1), of 0 v] assms(2) ok(3) have "seek v (Some 0) ?ba1 = Inr (cur_at ba v)" by simp
  with assms ok show ?thesis by (simp add: setPosition_def Let_def ba_inv_def)
qed

lemma setPosition_inside:
  assumes "ba_inv ba" "v \<le> m_size ba"
  shows "\<exists>ba'. setPosition v ba = Inr ba' \<and> ba_inv ba' \<and> m_position ba' = v \<and> ba_data ba' = ba_data ba
    \<and> m_endian ba' = m_endian ba \<and> m_baseSize ba' = m_baseSize ba \<and> unread ba' = drop v (ba_data ba)"
proof -
  have "v \<le> m_capacity ba" using assms by (simp add: ba_inv_def)
  from setPosition_ok [OF assms(1) this] assms(2) show ?thesis
    by (auto simp: ba_data_def unread_def max_def)
qed

end
