(* ===== verification/ByteArrayCodec.thy ===== *)
theory ByteArrayCodec
  imports ByteArray
begin

text \<open>
  The typed operations of \<open>ByteArray\<close>: integers of fixed width in either byte order, integers of
  variable length, zigzag coding, strings, and the conversions and file operations. A signed value is
  the word of its bits, a \<open>float\<close> or \<open>double\<close> its bit pattern (the code copies it bit by bit), a
  \<open>std::string\<close> a list of bytes. The machine is little endian, as \<open>SYLAR_BYTE_ORDER\<close> is on all
  supported platforms.
\<close>

unbundle bit_operations_syntax

section \<open>Byte order\<close>

definition SYLAR_BYTE_ORDER :: byte_order where
  "SYLAR_BYTE_ORDER = SYLAR_LITTLE_ENDIAN"

text \<open>The memory image of an integer, and the integer of an image.\<close>

fun le_bytes :: "nat \<Rightarrow> 'a::len word \<Rightarrow> byte list" where
  "le_bytes 0 v = []"
| "le_bytes (Suc n) v = ucast v # le_bytes n (drop_bit 8 v)"

fun le_word :: "byte list \<Rightarrow> 'a::len word" where
  "le_word [] = 0"
| "le_word (b # bs) = ucast b OR push_bit 8 (le_word bs)"

definition byteswap :: "'a::len word \<Rightarrow> 'a word" where
  "byteswap v = le_word (rev (le_bytes (LENGTH('a) div 8) v))"

section \<open>Fixed width\<close>

text \<open>
  The body all fixed-width writers share, and the macro \<open>XX\<close> of the readers; \<open>cells\<close> is the use of
  bytes as a value.
\<close>

definition write_fixed :: "'a::len word \<Rightarrow> ByteArray \<Rightarrow> ba_error + ByteArray" where
  "write_fixed v ba = write_bytes (le_bytes (LENGTH('a) div 8)
     (if m_endian ba \<noteq> SYLAR_BYTE_ORDER then byteswap v else v)) ba"

definition cells :: "byte option list \<Rightarrow> ba_error + byte list" where
  "cells bs = (if None \<in> set bs then Inl Uninitialised else Inr (map the bs))"

definition read_fixed :: "ByteArray \<Rightarrow> ba_error + 'a::len word \<times> ByteArray" where
  "read_fixed ba =
     bindE (read_bytes (LENGTH('a) div 8) ba) (\<lambda>(bs, ba1).
     bindE (cells bs) (\<lambda>bs.
     let v = le_word bs in
     Inr (if m_endian ba1 = SYLAR_BYTE_ORDER then v else byteswap v, ba1)))"

definition writeFuint8 :: "8 word \<Rightarrow> ByteArray \<Rightarrow> ba_error + ByteArray" where
  "writeFuint8 v ba = write_bytes [v] ba"

definition writeFint8 :: "8 word \<Rightarrow> ByteArray \<Rightarrow> ba_error + ByteArray" where
  "writeFint8 v ba = write_bytes [v] ba"

definition writeFint16 :: "16 word \<Rightarrow> ByteArray \<Rightarrow> ba_error + ByteArray" where
  "writeFint16 v ba = write_fixed v ba"

definition writeFuint16 :: "16 word \<Rightarrow> ByteArray \<Rightarrow> ba_error + ByteArray" where
  "writeFuint16 v ba = write_fixed v ba"

definition writeFint32 :: "32 word \<Rightarrow> ByteArray \<Rightarrow> ba_error + ByteArray" where
  "writeFint32 v ba = write_fixed v ba"

definition writeFuint32 :: "32 word \<Rightarrow> ByteArray \<Rightarrow> ba_error + ByteArray" where
  "writeFuint32 v ba = write_fixed v ba"

definition writeFint64 :: "64 word \<Rightarrow> ByteArray \<Rightarrow> ba_error + ByteArray" where
  "writeFint64 v ba = write_fixed v ba"

definition writeFuint64 :: "64 word \<Rightarrow> ByteArray \<Rightarrow> ba_error + ByteArray" where
  "writeFuint64 v ba = write_fixed v ba"

definition readFuint8 :: "ByteArray \<Rightarrow> ba_error + 8 word \<times> ByteArray" where
  "readFuint8 ba = bindE (read_bytes 1 ba) (\<lambda>(bs, ba1). bindE (cells bs) (\<lambda>bs. Inr (hd bs, ba1)))"

definition readFint8 :: "ByteArray \<Rightarrow> ba_error + 8 word \<times> ByteArray" where
  "readFint8 ba = bindE (read_bytes 1 ba) (\<lambda>(bs, ba1). bindE (cells bs) (\<lambda>bs. Inr (hd bs, ba1)))"

definition readFint16 :: "ByteArray \<Rightarrow> ba_error + 16 word \<times> ByteArray" where
  "readFint16 ba = read_fixed ba"

definition readFuint16 :: "ByteArray \<Rightarrow> ba_error + 16 word \<times> ByteArray" where
  "readFuint16 ba = read_fixed ba"

definition readFint32 :: "ByteArray \<Rightarrow> ba_error + 32 word \<times> ByteArray" where
  "readFint32 ba = read_fixed ba"

definition readFuint32 :: "ByteArray \<Rightarrow> ba_error + 32 word \<times> ByteArray" where
  "readFuint32 ba = read_fixed ba"

definition readFint64 :: "ByteArray \<Rightarrow> ba_error + 64 word \<times> ByteArray" where
  "readFint64 ba = read_fixed ba"

definition readFuint64 :: "ByteArray \<Rightarrow> ba_error + 64 word \<times> ByteArray" where
  "readFuint64 ba = read_fixed ba"

definition writeFloat :: "32 word \<Rightarrow> ByteArray \<Rightarrow> ba_error + ByteArray" where
  "writeFloat v ba = writeFuint32 v ba"

definition writeDouble :: "64 word \<Rightarrow> ByteArray \<Rightarrow> ba_error + ByteArray" where
  "writeDouble v ba = writeFuint64 v ba"

definition readFloat :: "ByteArray \<Rightarrow> ba_error + 32 word \<times> ByteArray" where
  "readFloat ba = readFuint32 ba"

definition readDouble :: "ByteArray \<Rightarrow> ba_error + 64 word \<times> ByteArray" where
  "readDouble ba = readFuint64 ba"

section \<open>Variable length\<close>

text \<open>Doubling and negating wrap around here, as they do on the machine; in C++ the overflow of
  the signed \<open>v * 2\<close> and of the negation of the smallest value is undefined.\<close>

definition EncodeZigzag32 :: "32 word \<Rightarrow> 32 word" where
  "EncodeZigzag32 v = (if v <s 0 then (- v) * 2 - 1 else v * 2)"

definition EncodeZigzag64 :: "64 word \<Rightarrow> 64 word" where
  "EncodeZigzag64 v = (if v <s 0 then (- v) * 2 - 1 else v * 2)"

definition DecodeZigzag32 :: "32 word \<Rightarrow> 32 word" where
  "DecodeZigzag32 v = drop_bit 1 v XOR - (v AND 1)"

definition DecodeZigzag64 :: "64 word \<Rightarrow> 64 word" where
  "DecodeZigzag64 v = drop_bit 1 v XOR - (v AND 1)"

text \<open>The bytes the loop leaves in \<open>tmp\<close>.\<close>

function varint :: "'a::len word \<Rightarrow> byte list" where
  "varint v = (if unat v \<ge> 0x80 then (ucast (v AND 0x7F) OR 0x80) # varint (drop_bit 7 v) else [ucast v])"
  by pat_completeness auto
termination
proof (relation "measure unat", goal_cases)
  case (2 v)
  have "unat (drop_bit 7 v) = unat v div 2 ^ 7" unfolding unat_drop_bit_eq by (rule drop_bit_eq_div)
  with 2 show ?case by simp
qed simp

declare varint.simps [simp del]

definition writeUint32 :: "32 word \<Rightarrow> ByteArray \<Rightarrow> ba_error + ByteArray" where
  "writeUint32 v ba = write_bytes (varint v) ba"

definition writeUint64 :: "64 word \<Rightarrow> ByteArray \<Rightarrow> ba_error + ByteArray" where
  "writeUint64 v ba = write_bytes (varint v) ba"

definition writeInt32 :: "32 word \<Rightarrow> ByteArray \<Rightarrow> ba_error + ByteArray" where
  "writeInt32 v ba = writeUint32 (EncodeZigzag32 v) ba"

definition writeInt64 :: "64 word \<Rightarrow> ByteArray \<Rightarrow> ba_error + ByteArray" where
  "writeInt64 v ba = writeUint64 (EncodeZigzag64 v) ba"

text \<open>The reading loop at shift \<open>i\<close>.\<close>

function read_var :: "nat \<Rightarrow> 'a::len word \<Rightarrow> ByteArray \<Rightarrow> ba_error + 'a word \<times> ByteArray" where
  "read_var i acc ba =
     (if i < LENGTH('a) then
        bindE (readFuint8 ba) (\<lambda>(b, ba1).
        if b < 0x80 then Inr (acc OR push_bit i (ucast b), ba1)
        else read_var (i + 7) (acc OR push_bit i (ucast (b AND 0x7f))) ba1)
      else Inr (acc, ba))"
  by pat_completeness auto
termination by (relation "measure (\<lambda>(i, acc :: 'a word, ba). LENGTH('a) - i)") auto

declare read_var.simps [simp del]

definition readUint32 :: "ByteArray \<Rightarrow> ba_error + 32 word \<times> ByteArray" where
  "readUint32 ba = read_var 0 0 ba"

definition readUint64 :: "ByteArray \<Rightarrow> ba_error + 64 word \<times> ByteArray" where
  "readUint64 ba = read_var 0 0 ba"

definition readInt32 :: "ByteArray \<Rightarrow> ba_error + 32 word \<times> ByteArray" where
  "readInt32 ba = bindE (readUint32 ba) (\<lambda>(v, ba1). Inr (DecodeZigzag32 v, ba1))"

definition readInt64 :: "ByteArray \<Rightarrow> ba_error + 64 word \<times> ByteArray" where
  "readInt64 ba = bindE (readUint64 ba) (\<lambda>(v, ba1). Inr (DecodeZigzag64 v, ba1))"

section \<open>Strings\<close>

definition writeStringF16 :: "byte list \<Rightarrow> ByteArray \<Rightarrow> ba_error + ByteArray" where
  "writeStringF16 s ba = bindE (writeFuint16 (word_of_nat (length s)) ba) (write_bytes s)"

definition writeStringF32 :: "byte list \<Rightarrow> ByteArray \<Rightarrow> ba_error + ByteArray" where
  "writeStringF32 s ba = bindE (writeFuint32 (word_of_nat (length s)) ba) (write_bytes s)"

definition writeStringF64 :: "byte list \<Rightarrow> ByteArray \<Rightarrow> ba_error + ByteArray" where
  "writeStringF64 s ba = bindE (writeFuint64 (word_of_nat (length s)) ba) (write_bytes s)"

definition writeStringVint :: "byte list \<Rightarrow> ByteArray \<Rightarrow> ba_error + ByteArray" where
  "writeStringVint s ba = bindE (writeUint64 (word_of_nat (length s)) ba) (write_bytes s)"

definition writeStringWithoutLength :: "byte list \<Rightarrow> ByteArray \<Rightarrow> ba_error + ByteArray" where
  "writeStringWithoutLength s ba = write_bytes s ba"

text \<open>\<open>buff.resize(len); read(&buff[0], len)\<close>\<close>

definition read_string :: "nat \<Rightarrow> ByteArray \<Rightarrow> ba_error + byte list \<times> ByteArray" where
  "read_string len ba = bindE (read_bytes len ba) (\<lambda>(bs, ba1). bindE (cells bs) (\<lambda>bs. Inr (bs, ba1)))"

definition readStringF16 :: "ByteArray \<Rightarrow> ba_error + byte list \<times> ByteArray" where
  "readStringF16 ba = bindE (readFuint16 ba) (\<lambda>(len, ba1). read_string (unat len) ba1)"

definition readStringF32 :: "ByteArray \<Rightarrow> ba_error + byte list \<times> ByteArray" where
  "readStringF32 ba = bindE (readFuint32 ba) (\<lambda>(len, ba1). read_string (unat len) ba1)"

definition readStringF64 :: "ByteArray \<Rightarrow> ba_error + byte list \<times> ByteArray" where
  "readStringF64 ba = bindE (readFuint64 ba) (\<lambda>(len, ba1). read_string (unat len) ba1)"

definition readStringVint :: "ByteArray \<Rightarrow> ba_error + byte list \<times> ByteArray" where
  "readStringVint ba = bindE (readUint64 ba) (\<lambda>(len, ba1). read_string (unat len) ba1)"

definition ba_toString :: "ByteArray \<Rightarrow> ba_error + byte option list" where
  "ba_toString ba = (if getReadSize ba = 0 then Inr [] else read_at (getReadSize ba) (m_position ba) ba)"

section \<open>Buffers and files\<close>

text \<open>An \<open>iovec\<close>: the block and offset of its base, and its length.\<close>

record iovec =
  iov_block :: nat
  iov_off :: nat
  iov_len :: nat

text \<open>The loop all three buffer functions share.\<close>

function iov_loop :: "nat \<Rightarrow> nat \<Rightarrow> nat option \<Rightarrow> ByteArray \<Rightarrow> ba_error + iovec list" where
  "iov_loop n npos p ba =
     (if n = 0 then Inr []
      else case block_at p ba of
        Inl e \<Rightarrow> Inl e
      | Inr b \<Rightarrow>
          let ncap = length b - npos in
          if ncap \<ge> n then Inr [\<lparr>iov_block = the p, iov_off = npos, iov_len = n\<rparr>]
          else bindE (iov_loop (n - ncap) 0 (next_block p ba) ba) (\<lambda>ios.
            Inr (\<lparr>iov_block = the p, iov_off = npos, iov_len = ncap\<rparr> # ios)))"
  by pat_completeness auto
termination
  by (relation "measure (\<lambda>(n, npos, p, ba). blocks_left p ba)") (auto dest: blocks_left_next)

declare iov_loop.simps [simp del]

definition getReadBuffers :: "nat \<Rightarrow> ByteArray \<Rightarrow> ba_error + nat \<times> iovec list" where
  "getReadBuffers len0 ba =
     (let len = (if len0 > getReadSize ba then getReadSize ba else len0) in
      if len = 0 then Inr (0, [])
      else bindE (iov_loop len (m_position ba mod m_baseSize ba) (m_cur ba) ba) (\<lambda>ios. Inr (len, ios)))"

text \<open>The variant with a position still limits the length by what is left after \<open>m_position\<close>.\<close>

definition getReadBuffers_at :: "nat \<Rightarrow> nat \<Rightarrow> ByteArray \<Rightarrow> ba_error + nat \<times> iovec list" where
  "getReadBuffers_at len0 position ba =
     (let len = (if len0 > getReadSize ba then getReadSize ba else len0) in
      if len = 0 then Inr (0, [])
      else bindE (walk (position div m_baseSize ba) (Some 0) ba) (\<lambda>cur.
           bindE (iov_loop len (position mod m_baseSize ba) cur ba) (\<lambda>ios. Inr (len, ios))))"

definition getWriteBuffers :: "nat \<Rightarrow> ByteArray \<Rightarrow> ba_error + (nat \<times> iovec list) \<times> ByteArray" where
  "getWriteBuffers len ba =
     (if len = 0 then Inr ((0, []), ba)
      else
        let ba1 = addCapacity len ba in
        bindE (iov_loop len (m_position ba1 mod m_baseSize ba1) (m_cur ba1) ba1) (\<lambda>ios. Inr ((len, ios), ba1)))"

text \<open>
  The loop of \<open>writeToFile\<close> over \<open>read_size\<close>, \<open>pos\<close> and \<open>cur\<close>; \<open>int64_t\<close> values are integers. The
  file content is the result; a round with a negative length is an error.
\<close>

function file_loop :: "nat \<Rightarrow> nat \<Rightarrow> nat option \<Rightarrow> ByteArray \<Rightarrow> ba_error + byte option list" where
  "file_loop read_size pos p ba =
     (if read_size = 0 then Inr []
      else case block_at p ba of
        Inl e \<Rightarrow> Inl e
      | Inr b \<Rightarrow>
          let diff = pos mod m_baseSize ba;
              chunk = (if read_size > m_baseSize ba then m_baseSize ba else read_size)
          in if chunk < diff then Inl BadLength
             else bindE (file_loop (read_size - (chunk - diff)) (pos + (chunk - diff)) (next_block p ba) ba) (\<lambda>bs.
                  Inr (take (chunk - diff) (drop diff b) @ bs)))"
  by pat_completeness auto
termination
  by (relation "measure (\<lambda>(n, pos, p, ba). blocks_left p ba)") (auto dest: blocks_left_next)

declare file_loop.simps [simp del]

definition writeToFile :: "ByteArray \<Rightarrow> ba_error + byte option list" where
  "writeToFile ba = file_loop (getReadSize ba) (m_position ba) (m_cur ba) ba"

text \<open>\<open>readFromFile\<close>: the file is read in pieces of the block size; each is written.\<close>

function chunks :: "nat \<Rightarrow> byte list \<Rightarrow> byte list list" where
  "chunks B bs = (if length bs < B \<or> B = 0 then [bs] else take B bs # chunks B (drop B bs))"
  by pat_completeness auto
termination by (relation "measure (\<lambda>(B, bs). length bs)") auto

declare chunks.simps [simp del]

definition readFromFile :: "byte list \<Rightarrow> ByteArray \<Rightarrow> ba_error + ByteArray" where
  "readFromFile bs ba = foldE write_bytes (chunks (m_baseSize ba) bs) ba"

text \<open>\<open>toHexString\<close>: two hexadecimal digits and a blank per byte, 32 to a line.\<close>

definition hex_digit :: "nat \<Rightarrow> char" where
  "hex_digit n = ''0123456789abcdef'' ! n"

fun hex_from :: "nat \<Rightarrow> byte list \<Rightarrow> string" where
  "hex_from i [] = []"
| "hex_from i (b # bs) = (if i > 0 \<and> i mod 32 = 0 then [CHR 10] else [])
     @ [hex_digit (unat b div 16), hex_digit (unat b mod 16), CHR '' ''] @ hex_from (i + 1) bs"

definition toHexString :: "ByteArray \<Rightarrow> ba_error + string" where
  "toHexString ba = bindE (ba_toString ba) (\<lambda>str. bindE (cells str) (\<lambda>bs. Inr (hex_from 0 bs)))"

end
