(* ===== verification/ByteArrayWords.thy ===== *)
theory ByteArrayWords
  imports ByteArrayCodec
begin

text \<open>
  The codings of integers on words alone: memory images and byte order, zigzag, and the bytes of an
  integer of variable length.
\<close>

unbundle bit_operations_syntax

section \<open>Memory images\<close>

lemma length_le_bytes [simp]: "length (le_bytes n v) = n"
  by (induction n arbitrary: v) simp_all

lemma le_word_bytes: "le_word (le_bytes n v) = take_bit (8 * n) v"
proof (induction n arbitrary: v)
  case 0
  then show ?case by simp
next
  case (Suc n)
  show ?case
    by (rule bit_word_eqI) (auto simp: Suc bit_simps less_diff_conv2 not_less)
qed

lemma le_word_bytes_all:
  fixes v :: "'a::len word"
  assumes "LENGTH('a) \<le> 8 * n"
  shows "le_word (le_bytes n v) = v"
proof -
  have "take_bit (8 * n) v = v" by (rule bit_word_eqI) (use assms in \<open>auto simp: bit_simps\<close>)
  then show ?thesis by (simp add: le_word_bytes)
qed

lemma nth_le_bytes: "i < n \<Longrightarrow> le_bytes n v ! i = ucast (drop_bit (8 * i) v)"
proof (induction n arbitrary: i v)
  case (Suc n)
  then show ?case by (cases i) (simp_all add: drop_bit_drop_bit add.commute)
qed simp

lemma bit_le_word:
  "bit (le_word bs :: 'a::len word) j
    \<longleftrightarrow> j < LENGTH('a) \<and> j < 8 * length bs \<and> bit (bs ! (j div 8)) (j mod 8)"
proof (induction bs arbitrary: j)
  case (Cons b bs)
  show ?case
  proof (cases "j < 8")
    case True
    then show ?thesis by (auto simp: bit_simps)
  next
    case False
    then have "j div 8 = Suc ((j - 8) div 8)" "(j - 8) mod 8 = j mod 8" by (simp_all add: le_div_geq le_mod_geq)
    moreover have "\<not> bit b j" using bit_imp_le_length [of b j] False by auto
    ultimately show ?thesis using False by (auto simp: bit_simps Cons)
  qed
qed simp

lemma le_bytes_word:
  assumes "8 * length bs \<le> LENGTH('a)"
  shows "le_bytes (length bs) (le_word bs :: 'a::len word) = bs"
proof (rule nth_equalityI)
  fix i assume i: "i < length (le_bytes (length bs) (le_word bs :: 'a word))"
  have "ucast (drop_bit (8 * i) (le_word bs :: 'a word)) = bs ! i"
    by (rule bit_word_eqI) (use assms i in \<open>auto simp: bit_simps bit_le_word\<close>)
  with i show "le_bytes (length bs) (le_word bs :: 'a word) ! i = bs ! i" by (simp add: nth_le_bytes)
qed simp

text \<open>Swapping reverses the memory image, and is its own inverse.\<close>

lemma le_bytes_byteswap:
  assumes "8 * n = LENGTH('a)"
  shows "le_bytes n (byteswap (v :: 'a::len word)) = rev (le_bytes n v)"
proof -
  have "LENGTH('a) div 8 = n" using assms by simp
  then show ?thesis
    using le_bytes_word [of "rev (le_bytes n v)", where 'a = 'a] assms by (simp add: byteswap_def)
qed

lemma byteswap_rev:
  assumes "8 * n = LENGTH('a)"
  shows "byteswap (le_word (rev (le_bytes n v))) = (v :: 'a::len word)"
proof -
  have n: "LENGTH('a) div 8 = n" using assms by simp
  have "le_bytes n (le_word (rev (le_bytes n v)) :: 'a word) = rev (le_bytes n v)"
    using le_bytes_word [of "rev (le_bytes n v)", where 'a = 'a] assms by simp
  then show ?thesis using le_word_bytes_all [of n v] assms by (simp add: byteswap_def n)
qed

lemma byteswap_twice:
  assumes "8 * n = LENGTH('a)"
  shows "byteswap (byteswap (v :: 'a::len word)) = v"
proof -
  have "LENGTH('a) div 8 = n" using assms by simp
  then have "byteswap v = le_word (rev (le_bytes n v))" by (simp add: byteswap_def)
  then show ?thesis using byteswap_rev [OF assms] by simp
qed

section \<open>Zigzag\<close>

lemma zigzag_decode:
  fixes v :: "'a::len word"
  assumes "1 < LENGTH('a)"
  defines "e \<equiv> if v <s 0 then (- v) * 2 - 1 else v * 2"
  shows "drop_bit 1 e XOR - (e AND 1) = v"
proof -
  have two: "v * 2 = push_bit 1 v" by (simp add: push_bit_eq_mult)
  have b2: "bit (v * 2) n \<longleftrightarrow> n < LENGTH('a) \<and> n \<noteq> 0 \<and> bit v (n - 1)" for n
    unfolding two by (auto simp: bit_push_bit_iff simp del: One_nat_def)
  have msb: "v <s 0 \<longleftrightarrow> bit v (LENGTH('a) - 1)"
    by (simp add: word_sless_alt bit_last_iff)
  show ?thesis
  proof (cases "v <s 0")
    case True
    have "(- v) * 2 - 1 = - (v * 2) - 1" by simp
    also have "\<dots> = NOT (v * 2)" by (rule not_eq_complement [symmetric])
    finally have e: "e = NOT (v * 2)" using True by (simp add: e_def)
    have one: "e AND 1 = 1" by (rule bit_word_eqI) (auto simp: e bit_simps b2)
    have "bit v (LENGTH('a) - 1)" using True msb by blast
    moreover have "n = LENGTH('a) - 1" if "n < LENGTH('a)" "\<not> Suc n < LENGTH('a)" for n using that by linarith
    ultimately have "drop_bit 1 e XOR - 1 = v"
      by (intro bit_word_eqI) (auto simp: e bit_simps b2)
    with one show ?thesis by simp
  next
    case False
    then have e: "e = v * 2" by (simp add: e_def)
    have zero: "e AND 1 = 0" by (rule bit_word_eqI) (auto simp: e bit_simps b2)
    have "\<not> bit v (LENGTH('a) - 1)" using False msb by blast
    moreover have "n = LENGTH('a) - 1" if "n < LENGTH('a)" "\<not> Suc n < LENGTH('a)" for n using that by linarith
    ultimately have "drop_bit 1 e = v" by (intro bit_word_eqI) (auto simp: e bit_simps b2)
    with zero show ?thesis by simp
  qed
qed

lemma zigzag_encode:
  fixes u :: "'a::len word"
  assumes "1 < LENGTH('a)"
  defines "d \<equiv> drop_bit 1 u XOR - (u AND 1)"
  shows "(if d <s 0 then (- d) * 2 - 1 else d * 2) = u"
proof -
  have b2: "bit (d * 2) n \<longleftrightarrow> n < LENGTH('a) \<and> n \<noteq> 0 \<and> bit d (n - 1)" for n
  proof -
    have "d * 2 = push_bit 1 d" by (simp add: push_bit_eq_mult)
    then show ?thesis by (auto simp: bit_push_bit_iff simp del: One_nat_def)
  qed
  have msb: "d <s 0 \<longleftrightarrow> bit d (LENGTH('a) - 1)" by (simp add: word_sless_alt bit_last_iff)
  show ?thesis
  proof (cases "bit u 0")
    case True
    have "u AND 1 = 1" by (rule bit_word_eqI) (use True in \<open>auto simp: bit_simps bit_0\<close>)
    then have d: "d = NOT (drop_bit 1 u)" by (simp add: d_def)
    have neg: "d <s 0" unfolding msb unfolding d using assms(1) by (simp add: bit_simps)
    have "(- d) * 2 - 1 = - (d * 2) - 1" by simp
    also have "\<dots> = NOT (d * 2)" by (rule not_eq_complement [symmetric])
    also have "\<dots> = u"
    proof (rule bit_word_eqI)
      fix n assume "n < LENGTH('a)"
      with True show "bit (NOT (d * 2)) n \<longleftrightarrow> bit u n" by (cases n) (simp_all add: bit_not_iff b2, simp_all add: d bit_simps)
    qed
    finally show ?thesis using neg by simp
  next
    case False
    have "u AND 1 = 0" by (rule bit_word_eqI) (use False in \<open>auto simp: bit_simps bit_0\<close>)
    then have d: "d = drop_bit 1 u" by (simp add: d_def)
    have "\<not> d <s 0" unfolding msb unfolding d using assms(1) by (simp add: bit_simps)
    moreover have "d * 2 = u"
    proof (rule bit_word_eqI)
      fix n assume "n < LENGTH('a)"
      with False show "bit (d * 2) n \<longleftrightarrow> bit u n" by (cases n) (simp_all add: b2, simp_all add: d bit_simps)
    qed
    ultimately show ?thesis by simp
  qed
qed

section \<open>Variable length\<close>

lemma varint_not_empty [simp]: "varint v \<noteq> []"
  by (simp add: varint.simps [of v])

text \<open>The buffer \<open>tmp\<close> the code fills has one byte for every seven bits, rounded up.\<close>

lemma varint_length:
  assumes "unat v < 128 ^ n" "0 < n"
  shows "length (varint v) \<le> n"
  using assms
proof (induction n arbitrary: v)
  case (Suc n)
  have d: "unat (drop_bit 7 v) = unat v div 128" by (simp add: unat_drop_bit_eq drop_bit_eq_div [where 'a = nat])
  show ?case
  proof (cases "unat v < 128")
    case True
    then show ?thesis by (simp add: varint.simps [of v])
  next
    case False
    then have "0 < n" using Suc.prems by (cases n) auto
    moreover have "unat (drop_bit 7 v) < 128 ^ n" using Suc.prems(1) by (simp add: d less_mult_imp_div_less mult.commute)
    ultimately have "length (varint (drop_bit 7 v)) \<le> n" by (rule Suc.IH [rotated])
    with False show ?thesis by (simp add: varint.simps [of v])
  qed
qed simp

text \<open>What one round of the reading loop adds.\<close>

lemma varint_step:
  fixes v acc :: "'a::len word"
  assumes "7 \<le> LENGTH('a)"
  shows "acc OR push_bit i (ucast ((ucast (v AND 0x7F) OR 0x80 :: byte) AND 0x7f)) OR push_bit (i + 7) (drop_bit 7 v)
    = acc OR push_bit i v"
proof -
  have m: "(0x7F :: 'b::len word) = mask 7" by (simp add: mask_eq_exp_minus_1)
  have h: "bit (0x80 :: int) j \<longleftrightarrow> j = 7" for j
    using bit_exp_iff [of 7 j, where 'a = int] by auto
  have a: "7 + (n - (i + 7)) = n - i" if "i + 7 \<le> n" for n using that by simp
  show ?thesis unfolding m
  proof (rule bit_word_eqI)
    fix n assume "n < LENGTH('a)"
    then show "bit (acc OR push_bit i (ucast ((ucast (v AND mask 7) OR 0x80 :: byte) AND mask 7)) OR push_bit (i + 7) (drop_bit 7 v)) n
        \<longleftrightarrow> bit (acc OR push_bit i v) n"
      by (cases "i + 7 \<le> n") (auto simp: bit_simps a h)
  qed
qed

lemma varint_byte: "(b OR 0x80 :: byte) \<ge> 0x80"
  by (rule le_word_or2 [THEN ord_le_eq_trans]) (simp add: or.commute)

lemma varint_last:
  fixes v :: "'a::len word"
  assumes "unat v < 128"
  shows "(ucast v :: byte) < 0x80" "(ucast (ucast v :: byte) :: 'a word) = v"
proof -
  have u: "unat (ucast v :: byte) = unat v" using assms by (simp add: unsigned_ucast_eq take_bit_nat_eq_self)
  then show "(ucast v :: byte) < 0x80" using assms by (simp add: word_less_nat_alt)
  have "unat v < 2 ^ LENGTH('a)" by (rule unsigned_less)
  then have "unat (ucast b :: 'a word) = unat v" if "unat b = unat v" for b :: byte
    using that by (simp add: unsigned_ucast_eq take_bit_nat_eq_self)
  from unsigned_word_eqI [OF this [OF u]] show "(ucast (ucast v :: byte) :: 'a word) = v" .
qed

end
