(* ===== verification/ByteStream.thy ===== *)
theory ByteStream
  imports ByteArrayInv ByteArrayWords
begin

text \<open>
  What the typed readers and writers of \<open>ByteArray\<close> rely on, as two interfaces: a source that hands
  over unread bytes and a sink that lays bytes over its contents. Encoders and decoders are related
  to byte strings once, inside the interfaces; the buffer provides both.
\<close>

unbundle bit_operations_syntax

section \<open>Interfaces\<close>

locale byte_source =
  fixes inv :: "'s \<Rightarrow> bool" and left :: "'s \<Rightarrow> byte option list"
    and rd :: "nat \<Rightarrow> 's \<Rightarrow> 'e + byte option list \<times> 's"
  assumes rd_ok: "inv s \<Longrightarrow> n \<le> length (left s) \<Longrightarrow> 0 < n
    \<Longrightarrow> \<exists>s'. rd n s = Inr (take n (left s), s') \<and> inv s' \<and> left s' = drop n (left s)"
begin

text \<open>A decoder reads value \<open>v\<close> from the bytes \<open>bs\<close> and leaves what follows.\<close>

definition decodes :: "('s \<Rightarrow> 'e + 'v \<times> 's) \<Rightarrow> byte list \<Rightarrow> 'v \<Rightarrow> bool" where
  "decodes dec bs v \<longleftrightarrow> (\<forall>s rest. inv s \<and> left s = map Some bs @ rest
     \<longrightarrow> (\<exists>s'. dec s = Inr (v, s') \<and> inv s' \<and> left s' = rest))"

lemma decodes_rd: "bs \<noteq> [] \<Longrightarrow> n = length bs \<Longrightarrow> decodes (rd n) bs (map Some bs)"
  unfolding decodes_def
proof (intro allI impI)
  fix s rest assume "bs \<noteq> []" "n = length bs" "inv s \<and> left s = map Some bs @ rest"
  with rd_ok [of s n] show "\<exists>s'. rd n s = Inr (map Some bs, s') \<and> inv s' \<and> left s' = rest" by simp
qed

lemma decodes_bind:
  assumes "decodes dec bs v" "decodes (k v) cs w"
  shows "decodes (\<lambda>s. bindE (dec s) (\<lambda>(x, s1). k x s1)) (bs @ cs) w"
  unfolding decodes_def
proof (intro allI impI)
  fix s rest assume s: "inv s \<and> left s = map Some (bs @ cs) @ rest"
  then have "inv s \<and> left s = map Some bs @ (map Some cs @ rest)" by simp
  with assms(1) obtain s1 where "dec s = Inr (v, s1)" "inv s1" "left s1 = map Some cs @ rest"
    unfolding decodes_def by blast
  with assms(2) show "\<exists>s'. bindE (dec s) (\<lambda>(x, s1). k x s1) = Inr (w, s') \<and> inv s' \<and> left s' = rest"
    unfolding decodes_def by fastforce
qed

lemma decodes_map:
  assumes "decodes dec bs v" "f v = Inr w"
  shows "decodes (\<lambda>s. bindE (dec s) (\<lambda>(x, s1). bindE (f x) (\<lambda>y. Inr (y, s1)))) bs w"
  using assms unfolding decodes_def by fastforce

lemma decodesD:
  assumes "decodes dec bs v" "inv s" "left s = map Some bs @ rest"
  shows "\<exists>s'. dec s = Inr (v, s') \<and> inv s' \<and> left s' = rest"
  using assms unfolding decodes_def by blast

end

locale byte_sink =
  fixes inv :: "'s \<Rightarrow> bool" and pos :: "'s \<Rightarrow> nat" and data :: "'s \<Rightarrow> byte option list"
    and wr :: "byte list \<Rightarrow> 's \<Rightarrow> 'e + 's"
  assumes pos_data: "inv s \<Longrightarrow> pos s \<le> length (data s)"
    and wr_ok: "inv s \<Longrightarrow> \<exists>s'. wr bs s = Inr s' \<and> inv s' \<and> pos s' = pos s + length bs
      \<and> data s' = overlay (pos s) bs (data s)"
begin

text \<open>An encoder that writes exactly the bytes \<open>bs\<close>.\<close>

definition emits :: "('s \<Rightarrow> 'e + 's) \<Rightarrow> byte list \<Rightarrow> bool" where
  "emits enc bs \<longleftrightarrow> (\<forall>s. inv s \<longrightarrow> (\<exists>s'. enc s = Inr s' \<and> inv s' \<and> pos s' = pos s + length bs
     \<and> data s' = overlay (pos s) bs (data s)))"

lemma emits_wr: "emits (wr bs) bs"
  using wr_ok by (simp add: emits_def)

lemma overlay_twice:
  "p \<le> length F \<Longrightarrow> overlay (p + length bs) cs (overlay p bs F) = overlay p (bs @ cs) F"
  by (simp add: overlay_def min_def ac_simps)

lemma emits_bind:
  assumes "emits enc bs" "emits enc' cs"
  shows "emits (\<lambda>s. bindE (enc s) enc') (bs @ cs)"
  unfolding emits_def
proof (intro allI impI)
  fix s assume s: "inv s"
  with assms(1) obtain s1 where 1: "enc s = Inr s1" "inv s1" "pos s1 = pos s + length bs"
    "data s1 = overlay (pos s) bs (data s)" unfolding emits_def by blast
  with assms(2) obtain s2 where 2: "enc' s1 = Inr s2" "inv s2" "pos s2 = pos s1 + length cs"
    "data s2 = overlay (pos s1) cs (data s1)" unfolding emits_def by blast
  with 1 overlay_twice [OF pos_data [OF s]] show "\<exists>s'. bindE (enc s) enc' = Inr s' \<and> inv s'
      \<and> pos s' = pos s + length (bs @ cs) \<and> data s' = overlay (pos s) (bs @ cs) (data s)" by simp
qed

lemma emits_fold:
  "(\<And>x. x \<in> set xs \<Longrightarrow> emits (enc x) (wire x)) \<Longrightarrow> emits (foldE enc xs) (concat (map wire xs))"
proof (induction xs)
  case Nil
  then show ?case using pos_data by (simp add: emits_def overlay_def)
next
  case (Cons x xs)
  then have "emits (\<lambda>s. bindE (enc x s) (foldE enc xs)) (wire x @ concat (map wire xs))"
    by (intro emits_bind) auto
  then show ?case by (simp add: emits_def)
qed

end

section \<open>The buffer provides both\<close>

definition reading :: "byte_order \<Rightarrow> byte option list \<Rightarrow> ByteArray \<Rightarrow> bool" where
  "reading en d ba \<longleftrightarrow> ba_inv ba \<and> m_endian ba = en \<and> ba_data ba = d"

definition writing :: "byte_order \<Rightarrow> ByteArray \<Rightarrow> bool" where
  "writing en ba \<longleftrightarrow> ba_inv ba \<and> m_endian ba = en"

interpretation src: byte_source "reading en d" unread read_bytes for en d
proof
  fix s n assume s: "reading en d s" "n \<le> length (unread s)" "0 < n"
  then have i: "ba_inv s" by (simp add: reading_def)
  with s have n: "n \<le> getReadSize s" by (simp add: unread_length)
  obtain s' where r: "read_bytes n s = Inr (take n (unread s), s')" "ba_inv s'" "m_position s' = m_position s + n"
     "ba_data s' = ba_data s" "m_endian s' = m_endian s"
    using read_ok [OF i n] s(3) by blast
  with s(1) unread_read [OF i r(2-4)] show "\<exists>s'. read_bytes n s = Inr (take n (unread s), s') \<and> reading en d s' \<and> unread s' = drop n (unread s)"
    by (auto simp: reading_def)
qed

interpretation snk: byte_sink "writing en" m_position ba_data write_bytes for en
proof
  fix s assume "writing en s"
  then show "m_position s \<le> length (ba_data s)" by (simp add: writing_def data_length) (simp add: ba_inv_def)
next
  fix s bs assume s: "writing en s"
  then have "ba_inv s" by (simp add: writing_def)
  from write_ok [OF this, of bs] s show "\<exists>s'. write_bytes bs s = Inr s' \<and> writing en s'
      \<and> m_position s' = m_position s + length bs \<and> ba_data s' = overlay (m_position s) bs (ba_data s)"
    by (auto simp: writing_def)
qed

lemma cells_Some [simp]: "cells (map Some bs) = Inr bs"
  by (auto simp: cells_def comp_def)

section \<open>Integers\<close>

text \<open>The bytes of a fixed-width integer in either order.\<close>

definition int_bytes :: "byte_order \<Rightarrow> 'a::len word \<Rightarrow> byte list" where
  "int_bytes en v = (if en = SYLAR_LITTLE_ENDIAN then le_bytes (LENGTH('a) div 8) v
     else rev (le_bytes (LENGTH('a) div 8) v))"

text \<open>The widths the code uses.\<close>

definition byte_width :: "'a::len itself \<Rightarrow> bool" where
  "byte_width t \<longleftrightarrow> 8 * (LENGTH('a) div 8) = LENGTH('a)"

lemma byte_widths [simp]:
  "byte_width TYPE(16)" "byte_width TYPE(32)" "byte_width TYPE(64)"
  by (simp_all add: byte_width_def)

lemma fixed_emits:
  assumes "byte_width TYPE('a::len)"
  shows "snk.emits en (write_fixed (v :: 'a word)) (int_bytes en v)"
proof -
  have w: "8 * (LENGTH('a) div 8) = LENGTH('a)" using assms by (simp add: byte_width_def)
  have "write_fixed v ba = write_bytes (int_bytes en v) ba" if "writing en ba" for ba
    using that by (cases en) (simp_all add: write_fixed_def writing_def int_bytes_def SYLAR_BYTE_ORDER_def le_bytes_byteswap [OF w])
  with snk.emits_wr [of en "int_bytes en v"] show ?thesis unfolding snk.emits_def by simp
qed

lemma fixed_decodes:
  assumes "byte_width TYPE('a::len)"
  shows "src.decodes en d read_fixed (int_bytes en v) (v :: 'a word)"
proof -
  have w: "8 * (LENGTH('a) div 8) = LENGTH('a)" using assms by (simp add: byte_width_def)
  then have l: "length (int_bytes en v) = LENGTH('a) div 8" "int_bytes en v \<noteq> []"
    by (simp add: int_bytes_def) (metis add_is_0 int_bytes_def length_le_bytes length_rev len_gt_0 less_irrefl list.size(3) mult_0_right w)
  have "\<exists>s'. read_fixed s = Inr (v, s') \<and> reading en d s' \<and> unread s' = rest"
    if s: "reading en d s" "unread s = map Some (int_bytes en v) @ rest" for s rest
  proof -
    from src.decodesD [OF src.decodes_rd [OF l(2) l(1) [symmetric]] s] obtain s' where
      r: "read_bytes (LENGTH('a) div 8) s = Inr (map Some (int_bytes en v), s')" "reading en d s'" "unread s' = rest" by blast
    then have "m_endian s' = en" by (simp add: reading_def)
    then have "read_fixed s = Inr (v, s')"
      using le_word_bytes_all [of "LENGTH('a) div 8" v] byteswap_rev [OF w, of v] w
      by (cases en) (simp_all add: read_fixed_def r(1) int_bytes_def SYLAR_BYTE_ORDER_def Let_def)
    with r show ?thesis by blast
  qed
  then show ?thesis unfolding src.decodes_def by blast
qed

lemma byte_decodes: "src.decodes en d readFuint8 [b] b" "src.decodes en d readFint8 [b] b"
proof -
  have e: "readFuint8 = (\<lambda>s. bindE (read_bytes 1 s) (\<lambda>(x, s1). bindE (bindE (cells x) (\<lambda>bs. Inr (hd bs))) (\<lambda>y. Inr (y, s1))))"
    by (auto simp: readFuint8_def fun_eq_iff cells_def bindE_def split: sum.split)
  have r: "src.decodes en d (read_bytes 1) [b] (map Some [b])" by (rule src.decodes_rd) simp_all
  have c: "bindE (cells (map Some [b])) (\<lambda>bs. Inr (hd bs)) = Inr b" unfolding cells_Some by simp
  show "src.decodes en d readFuint8 [b] b" unfolding e by (rule src.decodes_map [where f = "\<lambda>x. bindE (cells x) (\<lambda>bs. Inr (hd bs))", OF r c])
  moreover have "readFint8 = readFuint8" by (simp add: fun_eq_iff readFint8_def readFuint8_def)
  ultimately show "src.decodes en d readFint8 [b] b" by simp
qed

section \<open>Variable length\<close>

lemma read_var_decodes:
  fixes v acc :: "'a::len word"
  assumes "7 \<le> LENGTH('a)" "i < LENGTH('a)" "unat v < 2 ^ (LENGTH('a) - i)"
  shows "src.decodes en d (read_var i acc) (varint v) (acc OR push_bit i v)"
  using assms(2,3)
proof (induction v arbitrary: i acc rule: varint.induct)
  case (1 v)
  have "\<exists>s'. read_var i acc s = Inr (acc OR push_bit i v, s') \<and> reading en d s' \<and> unread s' = rest"
    if s: "reading en d s" "unread s = map Some (varint v) @ rest" for s rest
  proof (cases "unat v < 128")
    case True
    then have "varint v = [ucast v]" by (simp add: varint.simps [of v])
    with s(2) have "unread s = map Some [ucast v] @ rest" by simp
    from src.decodesD [OF byte_decodes(1) s(1) this] obtain s' where
      "readFuint8 s = Inr (ucast v, s')" "reading en d s'" "unread s' = rest" by blast
    with varint_last [OF True] 1(2) show ?thesis by (simp add: read_var.simps [of i])
  next
    case False
    let ?b = "ucast (v AND 0x7F) OR 0x80 :: byte" and ?w = "drop_bit 7 v"
    have wu: "unat ?w = unat v div 128" by (simp add: unat_drop_bit_eq drop_bit_eq_div [where 'a = nat])
    have i7: "i + 7 < LENGTH('a)"
    proof (rule ccontr)
      assume "\<not> i + 7 < LENGTH('a)"
      then have "LENGTH('a) - i \<le> 7" by linarith
      then have "(2 :: nat) ^ (LENGTH('a) - i) \<le> 2 ^ 7" by (rule power_increasing) simp
      with 1(3) False show False by simp
    qed
    have small: "unat ?w < 2 ^ (LENGTH('a) - (i + 7))"
    proof -
      have e: "LENGTH('a) - i = (LENGTH('a) - (i + 7)) + 7" using i7 by linarith
      have "(2 :: nat) ^ (LENGTH('a) - i) = 2 ^ (LENGTH('a) - (i + 7)) * 128" by (subst e) (simp add: power_add)
      with 1(3) have "unat v < 2 ^ (LENGTH('a) - (i + 7)) * 128" by simp
      then show ?thesis by (simp add: wu less_mult_imp_div_less)
    qed
    have "varint v = ?b # varint ?w" using False by (simp add: varint.simps [of v])
    with s(2) have "unread s = map Some [?b] @ (map Some (varint ?w) @ rest)" by simp
    from src.decodesD [OF byte_decodes(1) s(1) this] obtain s1 where
      r1: "readFuint8 s = Inr (?b, s1)" "reading en d s1" "unread s1 = map Some (varint ?w) @ rest" by blast
    let ?acc = "acc OR push_bit i (ucast (?b AND 0x7f))"
    have "src.decodes en d (read_var (i + 7) ?acc) (varint ?w) (?acc OR push_bit (i + 7) ?w)"
      using False i7 small by (intro 1(1)) simp_all
    from src.decodesD [OF this r1(2,3)] obtain s' where
      "read_var (i + 7) ?acc s1 = Inr (?acc OR push_bit (i + 7) ?w, s')" "reading en d s'" "unread s' = rest" by blast
    moreover have "?acc OR push_bit (i + 7) ?w = acc OR push_bit i v"
      unfolding or.assoc by (rule varint_step [OF assms(1)])
    moreover have "\<not> ?b < 0x80" using varint_byte [of "ucast (v AND 0x7F)"] by (simp add: not_less)
    ultimately show ?thesis using r1(1) 1(2) by (simp add: read_var.simps [of i])
  qed
  then show ?case unfolding src.decodes_def by blast
qed

lemma uint_decodes:
  "src.decodes en d readUint32 (varint (v :: 32 word)) v" "src.decodes en d readUint64 (varint (w :: 64 word)) w"
proof -
  have "unat v < 2 ^ (LENGTH(32) - 0)" "unat w < 2 ^ (LENGTH(64) - 0)"
    unfolding diff_zero by (rule unsigned_less)+
  with read_var_decodes [of 0 v en d 0] read_var_decodes [of 0 w en d 0]
  show "src.decodes en d readUint32 (varint v) v" "src.decodes en d readUint64 (varint w) w"
    by (simp_all add: src.decodes_def readUint32_def readUint64_def)
qed

lemma zigzag_round_trip:
  "DecodeZigzag32 (EncodeZigzag32 v) = v" "EncodeZigzag32 (DecodeZigzag32 v) = v"
  "DecodeZigzag64 (EncodeZigzag64 w) = w" "EncodeZigzag64 (DecodeZigzag64 w) = w"
  using zigzag_decode [of v] zigzag_encode [of v] zigzag_decode [of w] zigzag_encode [of w]
  unfolding DecodeZigzag32_def EncodeZigzag32_def DecodeZigzag64_def EncodeZigzag64_def by simp_all

lemma int_decodes:
  "src.decodes en d readInt32 (varint (EncodeZigzag32 v)) v" "src.decodes en d readInt64 (varint (EncodeZigzag64 w)) w"
  using src.decodes_map [where f = "\<lambda>v. Inr (DecodeZigzag32 v)", OF uint_decodes(1) refl, of en d "EncodeZigzag32 v"]
    src.decodes_map [where f = "\<lambda>v. Inr (DecodeZigzag64 v)", OF uint_decodes(2) refl, of en d "EncodeZigzag64 w"]
  by (simp_all add: src.decodes_def readInt32_def readInt64_def zigzag_round_trip)

section \<open>Strings\<close>

lemma read_string_decodes:
  assumes "s \<noteq> []"
  shows "src.decodes en d (read_string (length s)) s s"
proof -
  have "src.decodes en d (read_bytes (length s)) s (map Some s)" using assms by (intro src.decodes_rd) simp_all
  from src.decodes_map [where f = cells, OF this cells_Some] show ?thesis
    by (simp add: src.decodes_def read_string_def bindE_def) 
qed

lemma string_decodes:
  assumes s: "s \<noteq> []" and len: "src.decodes en d rlen bs n" "unat n = length s"
  shows "src.decodes en d (\<lambda>ba. bindE (rlen ba) (\<lambda>(n, ba1). read_string (unat n) ba1)) (bs @ s) s"
  by (rule src.decodes_bind [OF len(1)]) (simp add: len(2) read_string_decodes [OF s])

end
