(* ===== verification/ByteArrayProps.thy ===== *)
theory ByteArrayProps
  imports ByteStream
begin

text \<open>
  What the buffer promises its clients: it behaves like one flat sequence of bytes with a position,
  and what is written with the typed writers is read back with the typed readers.
\<close>

unbundle bit_operations_syntax

section \<open>Typed values\<close>

datatype ba_value =
    Fint8 byte | Fuint8 byte | Fint16 "16 word" | Fuint16 "16 word" | Fint32 "32 word" | Fuint32 "32 word"
  | Fint64 "64 word" | Fuint64 "64 word" | Int32 "32 word" | Uint32 "32 word" | Int64 "64 word" | Uint64 "64 word"
  | Float32 "32 word" | Double64 "64 word"
  | StringF16 "byte list" | StringF32 "byte list" | StringF64 "byte list" | StringVint "byte list"

primrec write_value :: "ba_value \<Rightarrow> ByteArray \<Rightarrow> ba_error + ByteArray" where
  "write_value (Fint8 v) = writeFint8 v"
| "write_value (Fuint8 v) = writeFuint8 v"
| "write_value (Fint16 v) = writeFint16 v"
| "write_value (Fuint16 v) = writeFuint16 v"
| "write_value (Fint32 v) = writeFint32 v"
| "write_value (Fuint32 v) = writeFuint32 v"
| "write_value (Fint64 v) = writeFint64 v"
| "write_value (Fuint64 v) = writeFuint64 v"
| "write_value (Int32 v) = writeInt32 v"
| "write_value (Uint32 v) = writeUint32 v"
| "write_value (Int64 v) = writeInt64 v"
| "write_value (Uint64 v) = writeUint64 v"
| "write_value (Float32 v) = writeFloat v"
| "write_value (Double64 v) = writeDouble v"
| "write_value (StringF16 s) = writeStringF16 s"
| "write_value (StringF32 s) = writeStringF32 s"
| "write_value (StringF64 s) = writeStringF64 s"
| "write_value (StringVint s) = writeStringVint s"

definition as_value :: "('v \<Rightarrow> ba_value) \<Rightarrow> (ByteArray \<Rightarrow> ba_error + 'v \<times> ByteArray) \<Rightarrow> ByteArray \<Rightarrow> ba_error + ba_value \<times> ByteArray" where
  "as_value C r ba = bindE (r ba) (\<lambda>(v, ba1). bindE (Inr (C v)) (\<lambda>y. Inr (y, ba1)))"

text \<open>Reads a value of the same type as the given one.\<close>

primrec read_like :: "ba_value \<Rightarrow> ByteArray \<Rightarrow> ba_error + ba_value \<times> ByteArray" where
  "read_like (Fint8 _) = as_value Fint8 readFint8"
| "read_like (Fuint8 _) = as_value Fuint8 readFuint8"
| "read_like (Fint16 _) = as_value Fint16 readFint16"
| "read_like (Fuint16 _) = as_value Fuint16 readFuint16"
| "read_like (Fint32 _) = as_value Fint32 readFint32"
| "read_like (Fuint32 _) = as_value Fuint32 readFuint32"
| "read_like (Fint64 _) = as_value Fint64 readFint64"
| "read_like (Fuint64 _) = as_value Fuint64 readFuint64"
| "read_like (Int32 _) = as_value Int32 readInt32"
| "read_like (Uint32 _) = as_value Uint32 readUint32"
| "read_like (Int64 _) = as_value Int64 readInt64"
| "read_like (Uint64 _) = as_value Uint64 readUint64"
| "read_like (Float32 _) = as_value Float32 readFloat"
| "read_like (Double64 _) = as_value Double64 readDouble"
| "read_like (StringF16 _) = as_value StringF16 readStringF16"
| "read_like (StringF32 _) = as_value StringF32 readStringF32"
| "read_like (StringF64 _) = as_value StringF64 readStringF64"
| "read_like (StringVint _) = as_value StringVint readStringVint"

text \<open>The bytes of a value on the wire.\<close>

primrec wire :: "byte_order \<Rightarrow> ba_value \<Rightarrow> byte list" where
  "wire en (Fint8 v) = [v]"
| "wire en (Fuint8 v) = [v]"
| "wire en (Fint16 v) = int_bytes en v"
| "wire en (Fuint16 v) = int_bytes en v"
| "wire en (Fint32 v) = int_bytes en v"
| "wire en (Fuint32 v) = int_bytes en v"
| "wire en (Fint64 v) = int_bytes en v"
| "wire en (Fuint64 v) = int_bytes en v"
| "wire en (Int32 v) = varint (EncodeZigzag32 v)"
| "wire en (Uint32 v) = varint v"
| "wire en (Int64 v) = varint (EncodeZigzag64 v)"
| "wire en (Uint64 v) = varint v"
| "wire en (Float32 v) = int_bytes en v"
| "wire en (Double64 v) = int_bytes en v"
| "wire en (StringF16 s) = int_bytes en (word_of_nat (length s) :: 16 word) @ s"
| "wire en (StringF32 s) = int_bytes en (word_of_nat (length s) :: 32 word) @ s"
| "wire en (StringF64 s) = int_bytes en (word_of_nat (length s) :: 64 word) @ s"
| "wire en (StringVint s) = varint (word_of_nat (length s) :: 64 word) @ s"

text \<open>The strings whose length fits its field; an empty string is treated below.\<close>

primrec fits :: "ba_value \<Rightarrow> bool" where
  "fits (Fint8 v) = True"
| "fits (Fuint8 v) = True"
| "fits (Fint16 v) = True"
| "fits (Fuint16 v) = True"
| "fits (Fint32 v) = True"
| "fits (Fuint32 v) = True"
| "fits (Fint64 v) = True"
| "fits (Fuint64 v) = True"
| "fits (Int32 v) = True"
| "fits (Uint32 v) = True"
| "fits (Int64 v) = True"
| "fits (Uint64 v) = True"
| "fits (Float32 v) = True"
| "fits (Double64 v) = True"
| "fits (StringF16 s) = (s \<noteq> [] \<and> length s < 2 ^ 16)"
| "fits (StringF32 s) = (s \<noteq> [] \<and> length s < 2 ^ 32)"
| "fits (StringF64 s) = (s \<noteq> [] \<and> length s < 2 ^ 64)"
| "fits (StringVint s) = (s \<noteq> [] \<and> length s < 2 ^ 64)"

fun read_all :: "ba_value list \<Rightarrow> ByteArray \<Rightarrow> ba_error + ba_value list \<times> ByteArray" where
  "read_all [] ba = Inr ([], ba)"
| "read_all (v # vs) ba = bindE (read_like v ba) (\<lambda>(x, ba1). bindE (read_all vs ba1) (\<lambda>(xs, ba2). Inr (x # xs, ba2)))"

lemma write_value_emits: "snk.emits en (write_value v) (wire en v)"
proof -
  have str: "snk.emits en (\<lambda>ba. bindE (enc ba) (write_bytes s)) (bs @ s)" if "snk.emits en enc bs" for enc s bs
    by (rule snk.emits_bind [OF that snk.emits_wr])
  have fx: "snk.emits en (write_fixed v16) (int_bytes en v16)" "snk.emits en (write_fixed v32) (int_bytes en v32)"
    "snk.emits en (write_fixed v64) (int_bytes en v64)" for v16 :: "16 word" and v32 :: "32 word" and v64 :: "64 word"
    by (rule fixed_emits, simp)+
  have defs: "writeFint8 = (\<lambda>v. write_bytes [v])" "writeFuint8 = (\<lambda>v. write_bytes [v])"
    "writeFint16 = write_fixed" "writeFuint16 = write_fixed" "writeFint32 = write_fixed" "writeFuint32 = write_fixed"
    "writeFint64 = write_fixed" "writeFuint64 = write_fixed" "writeFloat = write_fixed" "writeDouble = write_fixed"
    "writeUint32 = (\<lambda>v. write_bytes (varint v))" "writeUint64 = (\<lambda>v. write_bytes (varint v))"
    "writeInt32 = (\<lambda>v. write_bytes (varint (EncodeZigzag32 v)))" "writeInt64 = (\<lambda>v. write_bytes (varint (EncodeZigzag64 v)))"
    "writeStringF16 = (\<lambda>s ba. bindE (write_fixed (word_of_nat (length s) :: 16 word) ba) (write_bytes s))"
    "writeStringF32 = (\<lambda>s ba. bindE (write_fixed (word_of_nat (length s) :: 32 word) ba) (write_bytes s))"
    "writeStringF64 = (\<lambda>s ba. bindE (write_fixed (word_of_nat (length s) :: 64 word) ba) (write_bytes s))"
    "writeStringVint = (\<lambda>s ba. bindE (write_bytes (varint (word_of_nat (length s) :: 64 word)) ba) (write_bytes s))"
    by (auto simp: fun_eq_iff writeFint8_def writeFuint8_def writeFint16_def writeFuint16_def writeFint32_def writeFuint32_def
        writeFint64_def writeFuint64_def writeFloat_def writeDouble_def writeUint32_def writeUint64_def writeInt32_def
        writeInt64_def writeStringF16_def writeStringF32_def writeStringF64_def writeStringVint_def)
  show ?thesis
    by (cases v) (simp_all add: defs fx snk.emits_wr str)
qed

lemma as_value_decodes: "src.decodes en d r bs v \<Longrightarrow> src.decodes en d (as_value C r) bs (C v)"
  using src.decodes_map [where f = "\<lambda>v. Inr (C v)", OF _ refl, of en d r bs v]
  by (simp add: as_value_def [abs_def])

lemma read_like_decodes:
  assumes "fits v"
  shows "src.decodes en d (read_like v) (wire en v) v"
proof -
  have fx: "src.decodes en d read_fixed (int_bytes en v16) v16" "src.decodes en d read_fixed (int_bytes en v32) v32"
    "src.decodes en d read_fixed (int_bytes en v64) v64" for v16 :: "16 word" and v32 :: "32 word" and v64 :: "64 word"
    by (rule fixed_decodes, simp)+
  have len: "unat (word_of_nat (length s) :: 'l::len word) = length s" if "length s < 2 ^ LENGTH('l)" for s :: "byte list"
    using that by (simp add: unsigned_of_nat take_bit_nat_eq_self)
  have defs: "readFint16 = read_fixed" "readFuint16 = read_fixed" "readFint32 = read_fixed" "readFuint32 = read_fixed"
    "readFint64 = read_fixed" "readFuint64 = read_fixed" "readFloat = read_fixed" "readDouble = read_fixed"
    "readStringF16 = (\<lambda>ba. bindE (read_fixed ba) (\<lambda>(n :: 16 word, ba1). read_string (unat n) ba1))"
    "readStringF32 = (\<lambda>ba. bindE (read_fixed ba) (\<lambda>(n :: 32 word, ba1). read_string (unat n) ba1))"
    "readStringF64 = (\<lambda>ba. bindE (read_fixed ba) (\<lambda>(n :: 64 word, ba1). read_string (unat n) ba1))"
    "readStringVint = (\<lambda>ba. bindE (readUint64 ba) (\<lambda>(n, ba1). read_string (unat n) ba1))"
    by (auto simp: fun_eq_iff readFint16_def readFuint16_def readFint32_def readFuint32_def readFint64_def readFuint64_def
        readFloat_def readDouble_def readStringF16_def readStringF32_def readStringF64_def readStringVint_def)
  note str = string_decodes [OF _ fx(1) len] string_decodes [OF _ fx(2) len] string_decodes [OF _ fx(3) len]
    string_decodes [OF _ uint_decodes(2) len]
  show ?thesis
    using assms
    by (cases v) (simp_all add: defs fx byte_decodes uint_decodes int_decodes as_value_decodes str)
qed

lemma read_all_decodes:
  "\<forall>v \<in> set vs. fits v \<Longrightarrow> src.decodes en d (read_all vs) (concat (map (wire en) vs)) vs"
proof (induction vs)
  case Nil
  then show ?case by (simp add: src.decodes_def)
next
  case (Cons v vs)
  have "src.decodes en d (\<lambda>ba. bindE (read_all vs ba) (\<lambda>(xs, ba2). bindE (Inr (v # xs)) (\<lambda>y. Inr (y, ba2))))
      (concat (map (wire en) vs)) (v # vs)"
    by (rule src.decodes_map [where f = "\<lambda>xs. Inr (v # xs)"]) (use Cons in auto)
  then have k: "src.decodes en d ((\<lambda>x ba. bindE (read_all vs ba) (\<lambda>(xs, ba2). Inr (x # xs, ba2))) v)
      (concat (map (wire en) vs)) (v # vs)" by simp
  have "src.decodes en d (\<lambda>ba. bindE (read_like v ba) (\<lambda>(x, ba1). (\<lambda>x ba. bindE (read_all vs ba) (\<lambda>(xs, ba2). Inr (x # xs, ba2))) x ba1))
      (wire en v @ concat (map (wire en) vs)) (v # vs)"
    by (rule src.decodes_bind [where k = "\<lambda>x ba. bindE (read_all vs ba) (\<lambda>(xs, ba2). Inr (x # xs, ba2))", OF read_like_decodes k])
      (use Cons.prems in simp)
  then show ?case by (simp add: src.decodes_def)
qed

section \<open>Properties\<close>

text \<open>C16: what is written comes back: any sequence of values of any of the types, written from the current
  position of a well-formed buffer in either byte order, puts exactly their wire bytes there, and
  after going back to that position the readers of the same types return the same values and stop
  where the writers stopped. Strings are not empty and short enough for their length field.\<close>

theorem bytearray_round_trip:
  assumes inv: "ba_inv ba" and ok: "\<forall>v \<in> set vs. fits v"
  shows "\<exists>ba1 ba2 ba3. foldE write_value vs ba = Inr ba1
    \<and> ba_data ba1 = overlay (m_position ba) (concat (map (wire (m_endian ba)) vs)) (ba_data ba)
    \<and> setPosition (m_position ba) ba1 = Inr ba2 \<and> read_all vs ba2 = Inr (vs, ba3)
    \<and> m_position ba3 = m_position ba1 \<and> ba_data ba3 = ba_data ba1 \<and> ba_inv ba3"
proof -
  let ?en = "m_endian ba" and ?bs = "concat (map (wire (m_endian ba)) vs)" and ?p = "m_position ba"
  have "writing ?en ba" using inv by (simp add: writing_def)
  moreover have "snk.emits ?en (foldE write_value vs) ?bs"
    using snk.emits_fold [of vs ?en write_value "wire ?en"] write_value_emits by blast
  ultimately obtain ba1 where 1: "foldE write_value vs ba = Inr ba1" "writing ?en ba1"
    "m_position ba1 = ?p + length ?bs" "ba_data ba1 = overlay ?p ?bs (ba_data ba)"
    unfolding snk.emits_def by blast
  have le: "?p \<le> length (ba_data ba)" using inv by (simp add: data_length) (simp add: ba_inv_def)
  have inv1: "ba_inv ba1" using 1(2) by (simp add: writing_def)
  have "?p \<le> m_position ba1" "m_position ba1 \<le> m_size ba1" using 1(3) inv1 by (simp_all add: ba_inv_def)
  then obtain ba2 where 2: "setPosition ?p ba1 = Inr ba2" "ba_inv ba2" "ba_data ba2 = ba_data ba1"
      "m_endian ba2 = ?en" "unread ba2 = drop ?p (ba_data ba1)"
    using setPosition_inside [OF inv1, of ?p] 1(2) by (auto simp: writing_def)
  have r2: "reading ?en (ba_data ba1) ba2" using 2 by (simp add: reading_def)
  have u: "unread ba2 = map Some ?bs @ drop (?p + length ?bs) (ba_data ba)"
    using le by (simp add: 2(5) 1(4) overlay_def)
  obtain ba3 where 3: "read_all vs ba2 = Inr (vs, ba3)" "reading ?en (ba_data ba1) ba3"
      "unread ba3 = drop (?p + length ?bs) (ba_data ba)"
    using src.decodesD [OF read_all_decodes [OF ok] r2 u] by blast
  have inv3: "ba_inv ba3" and d3: "ba_data ba3 = ba_data ba1" using 3(2) by (simp_all add: reading_def)
  have "length (ba_data ba1) - m_position ba3 = length (ba_data ba) - (?p + length ?bs)"
    using arg_cong [OF 3(3), of length] by (simp add: unread_def d3)
  moreover have "length (ba_data ba1) = max (length (ba_data ba)) (?p + length ?bs)"
    using le by (simp add: 1(4) overlay_def)
  moreover have "m_position ba3 \<le> length (ba_data ba1)" using inv3 data_length [OF inv3] by (simp add: d3 ba_inv_def)
  ultimately have "m_position ba3 = m_position ba1" using 1(3) by linarith
  with 1(1,4) 2(1) 3(1) d3 inv3 show ?thesis by blast
qed

theorem bytearray_round_trip_witness:
  "\<exists>ba1 ba2 ba3. foldE write_value [Fuint16 258, Int32 (- 3), StringVint [104, 105]] (ByteArray_new 4) = Inr ba1
    \<and> ba_data ba1 = map Some [1, 2, 5, 2, 104, 105] \<and> setPosition 0 ba1 = Inr ba2
    \<and> read_all [Fuint16 258, Int32 (- 3), StringVint [104, 105]] ba2 = Inr ([Fuint16 258, Int32 (- 3), StringVint [104, 105]], ba3)"
proof -
  let ?vs = "[Fuint16 258, Int32 (- 3), StringVint [104, 105]]"
  have f: "\<forall>v \<in> set ?vs. fits v" by simp
  have i: "ba_inv (ByteArray_new 4)" "ba_data (ByteArray_new 4) = []" using new_ba_inv [of 4] by simp_all
  have n: "m_position (ByteArray_new 4) = 0" "m_endian (ByteArray_new 4) = SYLAR_BIG_ENDIAN" by (simp_all add: ByteArray_new_def)
  have "concat (map (wire SYLAR_BIG_ENDIAN) ?vs) = [1, 2, 5, 2, 104, 105]" by code_simp
  then have "overlay 0 (concat (map (wire SYLAR_BIG_ENDIAN) ?vs)) [] = map Some [1, 2, 5, 2, 104, 105]"
    by (simp only: overlay_def) simp
  with bytearray_round_trip [OF i(1) f] show ?thesis unfolding n i(2) by metis
qed

subsection \<open>One flat sequence\<close>

datatype ba_cmd = Write "byte list" | Read nat | SetPosition nat | Clear | SetLittleEndian bool

text \<open>A call that throws or crashes leaves the buffer as it was.\<close>

primrec run_cmd :: "ba_cmd \<Rightarrow> ByteArray \<Rightarrow> (ba_error + byte option list) \<times> ByteArray" where
  "run_cmd (Write bs) ba = (case write_bytes bs ba of Inl e \<Rightarrow> (Inl e, ba) | Inr ba1 \<Rightarrow> (Inr [], ba1))"
| "run_cmd (Read n) ba = (case read_bytes n ba of Inl e \<Rightarrow> (Inl e, ba) | Inr (bs, ba1) \<Rightarrow> (Inr bs, ba1))"
| "run_cmd (SetPosition v) ba = (case setPosition v ba of Inl e \<Rightarrow> (Inl e, ba) | Inr ba1 \<Rightarrow> (Inr [], ba1))"
| "run_cmd Clear ba = (Inr [], clear ba)"
| "run_cmd (SetLittleEndian b) ba = (Inr [], setIsLittleEndian b ba)"

primrec flat_cmd :: "ba_cmd \<Rightarrow> nat \<times> byte option list \<Rightarrow> (ba_error + byte option list) \<times> (nat \<times> byte option list)" where
  "flat_cmd (Write bs) s = (Inr [], fst s + length bs, overlay (fst s) bs (snd s))"
| "flat_cmd (Read n) s = (if n > length (snd s) - fst s then (Inl OutOfRange, s)
     else (Inr (take n (drop (fst s) (snd s))), fst s + n, snd s))"
| "flat_cmd (SetPosition v) s = (Inr [], v, snd s)"
| "flat_cmd Clear s = (Inr [], 0, [])"
| "flat_cmd (SetLittleEndian b) s = (Inr [], s)"

primrec legal_cmd :: "ba_cmd \<Rightarrow> nat \<times> byte option list \<Rightarrow> bool" where
  "legal_cmd (Write bs) s = True"
| "legal_cmd (Read n) s = (0 < n)"
| "legal_cmd (SetPosition v) s = (v \<le> length (snd s))"
| "legal_cmd Clear s = True"
| "legal_cmd (SetLittleEndian b) s = True"

fun run_all :: "('c \<Rightarrow> 's \<Rightarrow> 'o \<times> 's) \<Rightarrow> 'c list \<Rightarrow> 's \<Rightarrow> 'o list \<times> 's" where
  "run_all f [] s = ([], s)"
| "run_all f (c # cs) s = (let (x, s1) = f c s; (xs, s2) = run_all f cs s1 in (x # xs, s2))"

fun legal :: "ba_cmd list \<Rightarrow> nat \<times> byte option list \<Rightarrow> bool" where
  "legal [] s = True"
| "legal (c # cs) s = (legal_cmd c s \<and> legal cs (snd (flat_cmd c s)))"

definition flat_abs :: "ByteArray \<Rightarrow> nat \<times> byte option list" where
  "flat_abs ba = (m_position ba, ba_data ba)"

lemma clear_ok: "ba_inv ba \<Longrightarrow> ba_inv (clear ba) \<and> flat_abs (clear ba) = (0, [])"
  by (cases "m_blocks ba") (auto simp: ba_inv_def blocks_ok_def clear_def cur_at_def flat_abs_def ba_data_def)

lemma run_cmd_flat:
  assumes "ba_inv ba" "legal_cmd c (flat_abs ba)"
  shows "\<exists>x ba1. run_cmd c ba = (x, ba1) \<and> ba_inv ba1 \<and> flat_cmd c (flat_abs ba) = (x, flat_abs ba1)"
proof (cases c)
  case (Write bs)
  with write_ok [OF assms(1), of bs] show ?thesis by (auto simp: flat_abs_def)
next
  case (Read n)
  have l: "length (ba_data ba) - m_position ba = getReadSize ba" using data_length [OF assms(1)] by (simp add: getReadSize_def)
  show ?thesis
  proof (cases "n > getReadSize ba")
    case True
    with Read assms(1) read_fails(1) [OF assms(1) True] l show ?thesis by (simp add: flat_abs_def)
  next
    case False
    then have "n \<le> getReadSize ba" "0 < n" using assms(2) Read by simp_all
    with read_ok [OF assms(1), of n] Read l show ?thesis by (auto simp: flat_abs_def unread_def)
  qed
next
  case (SetPosition v)
  then have "v \<le> m_size ba" using assms(2) data_length [OF assms(1)] by (simp add: flat_abs_def)
  from setPosition_inside [OF assms(1) this] SetPosition show ?thesis by (auto simp: flat_abs_def)
next
  case Clear
  with clear_ok [OF assms(1)] show ?thesis by simp
next
  case (SetLittleEndian b)
  with assms(1) show ?thesis by (simp add: setIsLittleEndian_def ba_inv_def flat_abs_def ba_data_def)
qed

lemma run_all_flat:
  assumes "ba_inv ba" "legal cs (flat_abs ba)"
  shows "\<exists>outs ba1. run_all run_cmd cs ba = (outs, ba1) \<and> ba_inv ba1 \<and> run_all flat_cmd cs (flat_abs ba) = (outs, flat_abs ba1)"
  using assms
proof (induction cs arbitrary: ba)
  case (Cons c cs)
  obtain x ba1 where 1: "run_cmd c ba = (x, ba1)" "ba_inv ba1" "flat_cmd c (flat_abs ba) = (x, flat_abs ba1)"
    using run_cmd_flat [OF Cons.prems(1), of c] Cons.prems(2) by auto
  with Cons.IH [OF 1(2)] Cons.prems(2) show ?case by fastforce
qed simp

text \<open>C15: for a client the chain of blocks is invisible: on a new buffer of any block size, every sequence of
  writes, non-empty reads, jumps inside the data, clears and changes of byte order answers exactly
  like one flat sequence of bytes with a position: reads beyond the end throw and change nothing,
  everything else succeeds, and no null pointer is ever followed.\<close>

theorem bytearray_refines_flat:
  assumes "0 < base_size" and "legal cs (0, [])"
  shows "\<exists>outs ba. run_all run_cmd cs (ByteArray_new base_size) = (outs, ba) \<and> ba_inv ba
    \<and> run_all flat_cmd cs (0, []) = (outs, m_position ba, ba_data ba)"
proof -
  have "flat_abs (ByteArray_new base_size) = (0, [])"
    using new_ba_inv(2) [OF assms(1)] by (simp add: flat_abs_def) (simp add: ByteArray_new_def)
  with run_all_flat [OF new_ba_inv(1) [OF assms(1)], of cs] assms(2) show ?thesis by (auto simp: flat_abs_def)
qed

theorem bytearray_refines_flat_witness:
  "\<exists>outs ba. run_all run_cmd [Write [1, 2, 3, 4, 5], SetPosition 1, Read 3, Read 9] (ByteArray_new 2) = (outs, ba)
    \<and> outs = [Inr [], Inr [], Inr [Some 2, Some 3, Some 4], Inl OutOfRange]"
proof -
  let ?cs = "[Write [1, 2, 3, 4, 5], SetPosition 1, Read 3, Read 9]"
  have "legal ?cs (0, [])" by (simp add: overlay_def)
  then obtain outs ba where "run_all run_cmd ?cs (ByteArray_new 2) = (outs, ba)"
      "run_all flat_cmd ?cs (0, []) = (outs, m_position ba, ba_data ba)"
    using bytearray_refines_flat [of 2 ?cs] by auto
  then show ?thesis by (simp add: overlay_def)
qed

subsection \<open>Bounds\<close>

text \<open>The buffers on the stack are large enough: the encoding of a 32-bit value has at most 5 bytes and of a
  64-bit value at most 10, the sizes of \<open>tmp\<close>, and zigzag coding loses nothing, also at the smallest
  value.\<close>

theorem varint_fits_tmp:
  fixes v :: "32 word" and w :: "64 word"
  shows "length (varint v) \<le> 5 \<and> length (varint w) \<le> 10
    \<and> DecodeZigzag32 (EncodeZigzag32 v) = v \<and> DecodeZigzag64 (EncodeZigzag64 w) = w
    \<and> EncodeZigzag32 (DecodeZigzag32 v) = v \<and> EncodeZigzag64 (DecodeZigzag64 w) = w"
proof -
  have "unat v < 2 ^ LENGTH(32)" "unat w < 2 ^ LENGTH(64)" by (rule unsigned_less)+
  then have "unat v < 128 ^ 5" "unat w < 128 ^ 10" by simp_all
  with varint_length [of v 5] varint_length [of w 10] zigzag_round_trip(1,2) [of v] zigzag_round_trip(3,4) [of w]
  show ?thesis by simp
qed

subsection \<open>Errors\<close>

lemma write_string_emits: "snk.emits en (writeStringF16 s) (int_bytes en (word_of_nat (length s) :: 16 word) @ s)"
  using write_value_emits [of en "StringF16 s"] by simp

text \<open>A string longer than its length field is cut silently: \<open>writeStringF16\<close> stores the length modulo
  65536 but all bytes; \<open>readStringF16\<close> then returns a prefix, and what follows is read out of step.\<close>

theorem string_length_wraps:
  assumes inv: "ba_inv ba" and len: "length s mod 2 ^ 16 \<noteq> 0"
  shows "\<exists>ba1 ba2 ba3. writeStringF16 s ba = Inr ba1 \<and> setPosition (m_position ba) ba1 = Inr ba2
    \<and> readStringF16 ba2 = Inr (take (length s mod 2 ^ 16) s, ba3)
    \<and> m_position ba1 - m_position ba3 = length s - length s mod 2 ^ 16"
proof -
  let ?en = "m_endian ba" and ?p = "m_position ba" and ?n = "word_of_nat (length s) :: 16 word" and ?k = "length s mod 2 ^ 16"
  let ?bs = "int_bytes ?en ?n @ s"
  have "writing ?en ba" using inv by (simp add: writing_def)
  with write_string_emits [of ?en s] obtain ba1 where 1: "writeStringF16 s ba = Inr ba1" "writing ?en ba1"
    "m_position ba1 = ?p + length ?bs" "ba_data ba1 = overlay ?p ?bs (ba_data ba)"
    unfolding snk.emits_def by blast
  have le: "?p \<le> length (ba_data ba)" using inv by (simp add: data_length) (simp add: ba_inv_def)
  have inv1: "ba_inv ba1" using 1(2) by (simp add: writing_def)
  have "?p \<le> m_position ba1" "m_position ba1 \<le> m_size ba1" using 1(3) inv1 by (simp_all add: ba_inv_def)
  then obtain ba2 where 2: "setPosition ?p ba1 = Inr ba2" "ba_inv ba2" "ba_data ba2 = ba_data ba1"
      "m_endian ba2 = ?en" "m_position ba2 = ?p" "unread ba2 = drop ?p (ba_data ba1)"
    using setPosition_inside [OF inv1, of ?p] 1(2) by (auto simp: writing_def)
  have u: "unread ba2 = map Some (int_bytes ?en ?n) @ (map Some s @ drop (?p + length ?bs) (ba_data ba))"
    using le by (simp add: 2(6) 1(4) overlay_def)
  have k: "unat ?n = ?k" by (simp add: unsigned_of_nat take_bit_eq_mod)
  have s: "map Some s = map Some (take ?k s) @ map Some (drop ?k s)" by (metis append_take_drop_id map_append)
  have kl: "?k \<le> length s" "take ?k s \<noteq> []" using len by auto
  have d: "src.decodes ?en (ba_data ba1) readStringF16 (int_bytes ?en ?n @ take ?k s) (take ?k s)"
  proof -
    have "src.decodes ?en (ba_data ba1) read_fixed (int_bytes ?en ?n) ?n" by (rule fixed_decodes) simp
    from string_decodes [OF kl(2) this] show ?thesis
      using kl(1) k by (simp add: src.decodes_def readStringF16_def readFuint16_def min_def)
  qed
  have "reading ?en (ba_data ba1) ba2" using 2 by (simp add: reading_def)
  with src.decodesD [OF d, of ba2 "map Some (drop ?k s) @ drop (?p + length ?bs) (ba_data ba)"] u s obtain ba3 where
    3: "readStringF16 ba2 = Inr (take ?k s, ba3)" "reading ?en (ba_data ba1) ba3"
      "unread ba3 = map Some (drop ?k s) @ drop (?p + length ?bs) (ba_data ba)" by auto
  have inv3: "ba_inv ba3" and d3: "ba_data ba3 = ba_data ba1" using 3(2) by (simp_all add: reading_def)
  have "length (ba_data ba1) - m_position ba3 = length s - ?k + (length (ba_data ba) - (?p + length ?bs))"
    using arg_cong [OF 3(3), of length] by (simp add: unread_def d3)
  moreover have "length (ba_data ba1) = max (length (ba_data ba)) (?p + length ?bs)"
    using le by (simp add: 1(4) overlay_def)
  moreover have "m_position ba3 \<le> length (ba_data ba1)" using inv3 data_length [OF inv3] by (simp add: d3 ba_inv_def)
  ultimately have "m_position ba1 - m_position ba3 = length s - ?k" using 1(3) kl(1) by linarith
  with 1(1) 2(1) 3(1) show ?thesis by blast
qed

theorem string_length_wraps_witness:
  "\<exists>ba1 ba2 ba3. writeStringF16 (replicate 65537 7) (ByteArray_new 4096) = Inr ba1 \<and> setPosition 0 ba1 = Inr ba2
    \<and> readStringF16 ba2 = Inr ([7], ba3)"
proof -
  have i: "ba_inv (ByteArray_new 4096)" by (rule new_ba_inv) simp
  have l: "length (replicate 65537 (7 :: byte)) mod 2 ^ 16 = 1" by simp
  then have t: "take (length (replicate 65537 (7 :: byte)) mod 2 ^ 16) (replicate 65537 (7 :: byte)) = [7]"
    by (simp only: take_replicate) simp
  have n: "m_position (ByteArray_new 4096) = 0" by (simp add: ByteArray_new_def)
  from string_length_wraps [OF i, of "replicate 65537 7"] l show ?thesis unfolding t n by fastforce
qed

text \<open>Reading nothing can crash: with the position at the end of the last block the current block is the null
  pointer, and a read of length 0 dereferences it; so an empty string whose length field ends a block
  cannot be read back. The constant read compares sizes after a wrapping subtraction: a position
  behind the data passes the check and the walk runs off the chain.\<close>

theorem null_pointer_reads:
  assumes inv: "ba_inv ba"
  shows "(m_position ba = m_capacity ba \<longrightarrow> read_bytes 0 ba = Inl NullPointer)
    \<and> (m_size ba < position \<and> position < 2 ^ 64 \<and> m_capacity ba \<le> position \<and> n \<le> m_size ba + 2 ^ 64 - position \<and> 0 < n
       \<and> m_size ba < 2 ^ 64 \<longrightarrow> read_at n position ba = Inl NullPointer)"
proof (intro conjI impI)
  assume "m_position ba = m_capacity ba"
  with inv show "read_bytes 0 ba = Inl NullPointer" by (rule read_fails(2))
next
  assume a: "m_size ba < position \<and> position < 2 ^ 64 \<and> m_capacity ba \<le> position \<and> n \<le> m_size ba + 2 ^ 64 - position
    \<and> 0 < n \<and> m_size ba < 2 ^ 64"
  then have "m_size ba + 2 ^ 64 - position < 2 ^ 64" by linarith
  then have c: "\<not> n > (m_size ba + 2 ^ 64 - position) mod 2 ^ 64" using a by simp
  have ok: "blocks_ok ba" using inv by (simp add: ba_inv_def)
  have walk_end: "walk m None ba = Inl NullPointer" if "0 < m" for m using that by (cases m) (simp_all add: block_at_def)
  have w: "walk m (Some c) ba = Inl NullPointer \<or> walk m (Some c) ba = Inr None"
    if "c + m \<ge> length (m_blocks ba)" "c < length (m_blocks ba)" for m c
    using that
  proof (induction m arbitrary: c)
    case (Suc m)
    show ?case
    proof (cases "Suc c < length (m_blocks ba)")
      case True
      with Suc show ?thesis by (simp add: block_at_def next_block_def)
    next
      case False
      with Suc.prems walk_end [of m] show ?thesis by (cases m) (simp_all add: block_at_def next_block_def)
    qed
  qed simp
  have "length (m_blocks ba) \<le> position div m_baseSize ba"
    using ok a by (metis blocks_ok_def div_le_mono nonzero_mult_div_cancel_left not_less_zero)
  with w [of 0 "position div m_baseSize ba"] ok
  have "walk (position div m_baseSize ba) (Some 0) ba \<in> {Inl NullPointer, Inr None}" by (auto simp: blocks_ok_def)
  then show "read_at n position ba = Inl NullPointer"
    using c a by (auto simp: read_at_def read_loop.simps [of n] block_at_def split: option.split)
qed

theorem null_pointer_reads_witness:
  "\<exists>ba1 ba2 ba3. writeStringF16 [] (ByteArray_new 2) = Inr ba1 \<and> setPosition 0 ba1 = Inr ba2
    \<and> readFuint16 ba2 = Inr (0, ba3) \<and> read_bytes 0 ba3 = Inl NullPointer \<and> readStringF16 ba2 = Inl NullPointer
    \<and> read_at 1 9 ba1 = Inl NullPointer"
proof -
  define ba1 where "ba1 = (ByteArray_new 2)\<lparr>m_blocks := [[Some 0, Some 0]], m_position := 2, m_size := 2, m_cur := None\<rparr>"
  define ba2 where "ba2 = ba1\<lparr>m_position := 0, m_cur := Some 0\<rparr>"
  have 1: "writeStringF16 [] (ByteArray_new 2) = Inr ba1" unfolding ba1_def by code_simp
  have 2: "setPosition 0 ba1 = Inr ba2" unfolding ba1_def ba2_def by code_simp
  have 3: "readFuint16 ba2 = Inr (0, ba1)" unfolding ba1_def ba2_def by code_simp
  have i: "ba_inv ba1" "m_position ba1 = m_capacity ba1" "m_size ba1 = 2" "m_capacity ba1 = 2"
    by (simp_all add: ba1_def ByteArray_new_def ba_inv_def blocks_ok_def cur_at_def)
  have z: "read_bytes 0 ba1 = Inl NullPointer" using null_pointer_reads [OF i(1)] i(2) by blast
  have r: "read_at 1 9 ba1 = Inl NullPointer" using null_pointer_reads [OF i(1), of 9 1] i(3,4) by simp
  have "readStringF16 ba2 = Inl NullPointer" using z by (simp add: readStringF16_def 3 read_string_def)
  with 1 2 3 z r show ?thesis by blast
qed

subsection \<open>Buffers, strings and files\<close>

text \<open>The bytes an \<open>iovec\<close> refers to.\<close>

definition iov_bytes :: "ByteArray \<Rightarrow> iovec \<Rightarrow> byte option list" where
  "iov_bytes ba io = take (iov_len io) (drop (iov_off io) (m_blocks ba ! iov_block io))"

lemma iov_loop_read:
  "read_loop n npos p ba = Inr (bs, p') \<Longrightarrow> \<exists>ios. iov_loop n npos p ba = Inr ios \<and> concat (map (iov_bytes ba) ios) = bs
     \<and> sum_list (map iov_len ios) = n"
proof (induction n npos p ba arbitrary: bs p' rule: read_loop.induct)
  case (1 n npos p ba)
  show ?case
  proof (cases "n = 0")
    case True
    with 1(2) show ?thesis by (simp add: read_loop.simps [of 0] iov_loop.simps [of 0])
  next
    case False
    with 1(2) obtain b where b: "block_at p ba = Inr b"
      by (auto simp: read_loop.simps [of n] split: sum.splits)
    then have p: "b = m_blocks ba ! the p" by (auto simp: block_at_def split: option.splits if_splits)
    show ?thesis
    proof (cases "length b - npos \<ge> n")
      case True
      with False b 1(2) show ?thesis by (auto simp: read_loop.simps [of n] iov_loop.simps [of n] iov_bytes_def p)
    next
      case inner: False
      with False b 1(2) obtain bs' q where r: "read_loop (n - (length b - npos)) 0 (next_block p ba) ba = Inr (bs', q)"
        "bs = take (length b - npos) (drop npos b) @ bs'"
        by (auto simp: read_loop.simps [of n] bindE_eq_Inr)
      from 1(1) [OF False b refl inner r(1)] inner False b r(2) show ?thesis
        by (auto simp: iov_loop.simps [of n] iov_bytes_def p)
    qed
  qed
qed

lemma file_loop_aligned:
  assumes "blocks_ok ba" "v mod m_baseSize ba = 0" "v + n \<le> m_capacity ba"
  shows "file_loop n v (cur_at ba v) ba = Inr (take n (drop v (flat ba)))"
  using assms(2,3)
proof (induction n arbitrary: v rule: less_induct)
  case (less n)
  let ?B = "m_baseSize ba"
  show ?case
  proof (cases "n = 0")
    case True
    then show ?thesis by (simp add: file_loop.simps [of 0])
  next
    case False
    with less.prems have v: "v < m_capacity ba" by linarith
    have B: "0 < ?B" using assms(1) by (simp add: blocks_ok_def)
    obtain b u w where b: "block_at (cur_at ba v) ba = Inr b" "length b = ?B" "length u = v div ?B * ?B" "flat ba = u @ b @ w"
      using block_at_flat [OF assms(1) v] by blast
    have e: "v div ?B * ?B = v" using less.prems(1) by auto
    then have d: "drop v (flat ba) = b @ w" using b(3,4) by simp
    have nx: "next_block (cur_at ba v) ba = cur_at ba (v + ?B)" using cur_at_next [OF assms(1) v] e by simp
    show ?thesis
    proof (cases "n > ?B")
      case True
      have "file_loop (n - ?B) (v + ?B) (cur_at ba (v + ?B)) ba = Inr (take (n - ?B) (drop (v + ?B) (flat ba)))"
        using True B less.prems by (intro less.IH) auto
      moreover have "drop (v + ?B) (flat ba) = w" using d b(2) by (metis add.commute append_eq_conv_conj drop_drop)
      moreover have "take n (drop v (flat ba)) = b @ take (n - ?B) w" using True b(2) d by simp
      ultimately show ?thesis using True False b(1,2) nx less.prems(1) by (simp add: file_loop.simps [of n])
    next
      case small: False
      have "take n (drop v (flat ba)) = take n b" using small b(2) d by simp
      then show ?thesis using small False b(1,2) less.prems(1) by (simp add: file_loop.simps [of n] file_loop.simps [of 0])
    qed
  qed
qed

text \<open>The three ways to hand out what has not been read agree: \<open>getReadBuffers\<close> returns pieces of the blocks
  whose bytes, joined, are the next \<open>len\<close> unread bytes (all of them when fewer are left), and
  \<open>toString\<close> returns all unread bytes; neither changes the buffer.\<close>

theorem unread_bytes_exported:
  assumes inv: "ba_inv ba" and small: "m_size ba < 2 ^ 64"
  shows "\<exists>ios. getReadBuffers len ba = Inr (min len (getReadSize ba), ios)
      \<and> concat (map (iov_bytes ba) ios) = take len (unread ba) \<and> sum_list (map iov_len ios) = min len (getReadSize ba)
      \<and> ba_toString ba = Inr (unread ba)"
proof -
  let ?p = "m_position ba" and ?k = "min len (getReadSize ba)"
  have ok: "blocks_ok ba" and le: "?p \<le> m_size ba" "m_size ba \<le> m_capacity ba" and cur: "m_cur ba = cur_at ba ?p"
    using inv by (simp_all add: ba_inv_def)
  have l: "length (unread ba) = getReadSize ba" by (rule unread_length [OF inv])
  have r: "read_loop k (?p mod m_baseSize ba) (cur_at ba ?p) ba = Inr (take k (unread ba), cur_at ba (?p + k))"
    if "0 < k" "k \<le> getReadSize ba" for k
    using read_loop_flat [OF ok, of ?p k] that le
    by (simp add: unread_def ba_data_def drop_take min_def getReadSize_def)
  have "\<exists>ios. getReadBuffers len ba = Inr (?k, ios) \<and> concat (map (iov_bytes ba) ios) = take len (unread ba)
      \<and> sum_list (map iov_len ios) = ?k"
  proof (cases "?k = 0")
    case True
    then show ?thesis using l by (auto simp: getReadBuffers_def Let_def min_def split: if_splits)
  next
    case False
    then have "take ?k (unread ba) = take len (unread ba)" using l by (simp add: min_def)
    with iov_loop_read [OF r [of ?k]] False show ?thesis
      by (auto simp: getReadBuffers_def Let_def cur min_def split: if_splits)
  qed
  moreover have "ba_toString ba = Inr (unread ba)"
  proof (cases "getReadSize ba = 0")
    case True
    with l show ?thesis by (simp add: ba_toString_def)
  next
    case False
    then have v: "?p < m_capacity ba" using le by (simp add: getReadSize_def)
    have w: "walk m (Some c) ba = Inr (Some (c + m))" if "c + m < length (m_blocks ba)" for m c
      using that
    proof (induction m arbitrary: c)
      case (Suc m)
      then show ?case using Suc.IH [of "Suc c"] by (simp add: block_at_def next_block_def)
    qed simp
    have "?p div m_baseSize ba < length (m_blocks ba)" using ok v by (simp add: blocks_ok_def less_mult_imp_div_less mult.commute)
    with w [of 0] v have "walk (?p div m_baseSize ba) (Some 0) ba = Inr (cur_at ba ?p)" by (simp add: cur_at_def)
    moreover have "\<exists>b. block_at (m_cur ba) ba = Inr b" using block_at_flat [OF ok v] by (auto simp: cur)
    moreover have "(m_size ba + 2 ^ 64 - ?p) mod 2 ^ 64 = getReadSize ba"
    proof -
      have "m_size ba + 2 ^ 64 - ?p = getReadSize ba + 2 ^ 64" using le by (simp add: getReadSize_def)
      moreover have "getReadSize ba < 2 ^ 64" using small by (simp add: getReadSize_def)
      ultimately show ?thesis by simp
    qed
    ultimately show ?thesis using False r [of "getReadSize ba"] l by (auto simp: ba_toString_def read_at_def)
  qed
  ultimately show ?thesis by blast
qed

theorem unread_bytes_exported_witness:
  "\<exists>ba1 ba2 ios. write_bytes [1, 2, 3, 4, 5] (ByteArray_new 2) = Inr ba1 \<and> setPosition 1 ba1 = Inr ba2
    \<and> getReadBuffers 3 ba2 = Inr (3, ios) \<and> concat (map (iov_bytes ba2) ios) = map Some [2, 3, 4]
    \<and> ba_toString ba2 = Inr (map Some [2, 3, 4, 5])"
proof -
  have i: "ba_inv (ByteArray_new 2)" "ba_data (ByteArray_new 2) = []" by (rule new_ba_inv, simp)+
  obtain ba1 where w: "write_bytes [1, 2, 3, 4, 5] (ByteArray_new 2) = Inr ba1" "ba_inv ba1" "m_size ba1 = 5"
      "ba_data ba1 = map Some [1, 2, 3, 4, 5]"
    using write_ok [OF i(1), of "[1, 2, 3, 4, 5]"] i(2) by (auto simp: ByteArray_new_def overlay_def)
  obtain ba2 where 2: "setPosition 1 ba1 = Inr ba2" "ba_inv ba2" "m_position ba2 = 1" "ba_data ba2 = ba_data ba1"
      "unread ba2 = drop 1 (ba_data ba1)"
    using setPosition_inside [OF w(2), of 1] w(3) by auto
  have s: "m_size ba2 = 5" using data_length [OF 2(2)] w(4) 2(4) by simp
  with unread_bytes_exported [OF 2(2), of 3] w 2 show ?thesis by (auto simp: getReadSize_def)
qed

text \<open>\<open>writeToFile\<close> writes exactly the unread bytes when the position is a multiple of the block size; inside a
  block it takes the length of the first piece from the wrong end, and with fewer unread bytes than the
  offset in the block the length it passes on is negative.\<close>

theorem write_to_file_alignment:
  assumes inv: "ba_inv ba"
  shows "(m_position ba mod m_baseSize ba = 0 \<longrightarrow> writeToFile ba = Inr (unread ba))
    \<and> (0 < getReadSize ba \<and> getReadSize ba < m_position ba mod m_baseSize ba \<longrightarrow> writeToFile ba = Inl BadLength)"
proof (intro conjI impI)
  let ?p = "m_position ba"
  have ok: "blocks_ok ba" and le: "?p \<le> m_size ba" "m_size ba \<le> m_capacity ba" and cur: "m_cur ba = cur_at ba ?p"
    using inv by (simp_all add: ba_inv_def)
  assume "?p mod m_baseSize ba = 0"
  from file_loop_aligned [OF ok this, of "getReadSize ba"] le show "writeToFile ba = Inr (unread ba)"
    by (simp add: writeToFile_def cur unread_def ba_data_def drop_take min_def getReadSize_def)
next
  let ?p = "m_position ba" and ?n = "getReadSize ba"
  assume a: "0 < ?n \<and> ?n < ?p mod m_baseSize ba"
  have ok: "blocks_ok ba" and B: "0 < m_baseSize ba" and cur: "m_cur ba = cur_at ba ?p"
    and le: "?p \<le> m_size ba" "m_size ba \<le> m_capacity ba" using inv by (simp_all add: ba_inv_def blocks_ok_def)
  then have "?p < m_capacity ba" using a by (simp add: getReadSize_def)
  from block_at_flat [OF ok this] obtain b where "block_at (m_cur ba) ba = Inr b" by (auto simp: cur)
  moreover have "?n < m_baseSize ba" using a B mod_less_divisor [of "m_baseSize ba" ?p] by linarith
  ultimately show "writeToFile ba = Inl BadLength" using a by (simp add: writeToFile_def file_loop.simps [of ?n])
qed

theorem write_to_file_alignment_witness:
  "\<exists>ba1 ba2 ba3. write_bytes [1, 2, 3, 4] (ByteArray_new 8) = Inr ba1 \<and> setPosition 3 ba1 = Inr ba2
    \<and> writeToFile ba2 = Inl BadLength \<and> setPosition 0 ba1 = Inr ba3 \<and> writeToFile ba3 = Inr (map Some [1, 2, 3, 4])"
proof -
  have i: "ba_inv (ByteArray_new 8)" "ba_data (ByteArray_new 8) = []" by (rule new_ba_inv, simp)+
  obtain ba1 where w: "write_bytes [1, 2, 3, 4] (ByteArray_new 8) = Inr ba1" "ba_inv ba1" "m_size ba1 = 4" "m_baseSize ba1 = 8"
      "ba_data ba1 = map Some [1, 2, 3, 4]"
    using write_ok [OF i(1), of "[1, 2, 3, 4]"] i(2) by (auto simp: ByteArray_new_def overlay_def)
  obtain ba2 where 2: "setPosition 3 ba1 = Inr ba2" "ba_inv ba2" "m_position ba2 = 3" "m_baseSize ba2 = 8" "ba_data ba2 = ba_data ba1"
    using setPosition_inside [OF w(2), of 3] w(3,4) by auto
  obtain ba3 where 3: "setPosition 0 ba1 = Inr ba3" "ba_inv ba3" "m_position ba3 = 0" "unread ba3 = ba_data ba1"
    using setPosition_inside [OF w(2), of 0] by auto
  have "getReadSize ba2 = 1"
    using data_length [OF 2(2)] data_length [OF w(2)] w(3) 2(3,5) by (simp add: getReadSize_def)
  with write_to_file_alignment [OF 2(2)] 2(3,4) have "writeToFile ba2 = Inl BadLength" by simp
  moreover have "writeToFile ba3 = Inr (map Some [1, 2, 3, 4])" using write_to_file_alignment [OF 3(2)] 3(3,4) w(5) by simp
  ultimately show ?thesis using w(1) 2(1) 3(1) by blast
qed

end
