(* ===== verification/Timer.thy ===== *)
theory Timer
  imports Prelude
begin

text \<open>
  Timers and their manager (\<open>src/sylar/timer.cc\<close>, \<open>timer.h\<close>). Timers are objects on the heap, so
  addresses (natural numbers) stand for the shared pointers, and \<open>std::set\<close> with the code's
  comparator is a list kept in the comparator's order, searched with the comparator as the library
  does. Times are \<open>uint64_t\<close> milliseconds; sums and differences wrap around. Each operation holds
  the manager's lock, so it is one step; the current time is an argument.
\<close>

section \<open>Model\<close>

text \<open>A callback, possibly guarded by the condition of \<open>addConditionTimer\<close>.\<close>

datatype 'c callback = Plain 'c | OnTimer nat 'c

record 'c Timer =
  m_recurring :: bool
  m_ms :: nat
  m_next :: nat
  m_cb :: "'c callback option"

record 'c TimerManager =
  timer_heap :: "nat \<Rightarrow> 'c Timer option"
  m_timers :: "nat list"
  m_tickled :: bool

datatype timer_error = EraseEnd | BadTimer

definition wrap64 :: "nat \<Rightarrow> nat" where
  "wrap64 n = n mod 2 ^ 64"

definition TimerManager_new :: "'c TimerManager" where
  "TimerManager_new = \<lparr>timer_heap = (\<lambda>_. None), m_timers = [], m_tickled = False\<rparr>"

definition Timer_new :: "nat \<Rightarrow> nat \<Rightarrow> 'c callback \<Rightarrow> bool \<Rightarrow> 'c Timer" where
  "Timer_new now ms cb recurring =
     \<lparr>m_recurring = recurring, m_ms = ms, m_next = wrap64 (now + ms), m_cb = Some cb\<rparr>"

text \<open>\<open>Timer(uint64_t next)\<close>, the key of a search.\<close>

definition Timer_key :: "nat \<Rightarrow> 'c Timer" where
  "Timer_key next = \<lparr>m_recurring = False, m_ms = 0, m_next = next, m_cb = None\<rparr>"

text \<open>\<open>Comparator::operator()\<close>; \<open>None\<close> is the empty pointer.\<close>

definition Comparator :: "(nat \<Rightarrow> 'c Timer option) \<Rightarrow> nat option \<Rightarrow> nat option \<Rightarrow> bool" where
  "Comparator h lhs rhs =
     (if lhs = None \<and> rhs = None then False
      else if lhs = None then True
      else if rhs = None then False
      else
        let l = the (h (the lhs)); r = the (h (the rhs)) in
        if m_next l < m_next r then True
        else if m_next r < m_next l then False
        else the lhs < the rhs)"

abbreviation before :: "(nat \<Rightarrow> 'c Timer option) \<Rightarrow> nat \<Rightarrow> nat \<Rightarrow> bool" where
  "before h a b \<equiv> Comparator h (Some a) (Some b)"

subsection \<open>The ordered set\<close>

fun set_insert :: "('a \<Rightarrow> 'a \<Rightarrow> bool) \<Rightarrow> 'a \<Rightarrow> 'a list \<Rightarrow> 'a list" where
  "set_insert lt a [] = [a]"
| "set_insert lt a (x # xs) =
     (if lt a x then a # x # xs else if lt x a then x # set_insert lt a xs else x # xs)"

text \<open>The position \<open>find\<close> returns, \<open>None\<close> for \<open>end()\<close>: an element equivalent to the key.\<close>

fun set_find :: "('a \<Rightarrow> 'a \<Rightarrow> bool) \<Rightarrow> 'a \<Rightarrow> 'a list \<Rightarrow> nat option" where
  "set_find lt a [] = None"
| "set_find lt a (x # xs) = (if \<not> lt x a then (if lt a x then None else Some 0)
     else map_option Suc (set_find lt a xs))"

definition erase :: "nat option \<Rightarrow> 'a list \<Rightarrow> timer_error + 'a list" where
  "erase it xs = (case it of None \<Rightarrow> Inl EraseEnd | Some i \<Rightarrow> Inr (take i xs @ drop (Suc i) xs))"

text \<open>The elements before \<open>lower_bound\<close> of a key, and those from it on.\<close>

definition lower_bound :: "('a \<Rightarrow> 'a \<Rightarrow> bool) \<Rightarrow> 'a \<Rightarrow> 'a list \<Rightarrow> 'a list \<times> 'a list" where
  "lower_bound lt a xs = (takeWhile (\<lambda>x. lt x a) xs, dropWhile (\<lambda>x. lt x a) xs)"

section \<open>Operations\<close>

text \<open>\<open>addTimer(val, lock)\<close>; the result says whether \<open>onTimerInsertedAtFront\<close> is called.\<close>

definition insert_timer :: "nat \<Rightarrow> 'c TimerManager \<Rightarrow> bool \<times> 'c TimerManager" where
  "insert_timer a tm =
     (let ts = set_insert (before (timer_heap tm)) a (m_timers tm);
          at_front = (hd ts = a \<and> \<not> m_tickled tm)
      in (at_front, tm\<lparr>m_timers := ts, m_tickled := m_tickled tm \<or> at_front\<rparr>))"

text \<open>\<open>addTimer\<close>: \<open>a\<close> is the address of the new timer.\<close>

definition addTimer :: "nat \<Rightarrow> nat \<Rightarrow> 'c callback \<Rightarrow> bool \<Rightarrow> nat \<Rightarrow> 'c TimerManager \<Rightarrow> bool \<times> 'c TimerManager" where
  "addTimer now ms cb recurring a tm =
     insert_timer a (tm\<lparr>timer_heap := (timer_heap tm)(a \<mapsto> Timer_new now ms cb recurring)\<rparr>)"

definition addConditionTimer :: "nat \<Rightarrow> nat \<Rightarrow> 'c \<Rightarrow> nat \<Rightarrow> bool \<Rightarrow> nat \<Rightarrow> 'c TimerManager \<Rightarrow> bool \<times> 'c TimerManager" where
  "addConditionTimer now ms cb weak_cond recurring a tm = addTimer now ms (OnTimer weak_cond cb) recurring a tm"

text \<open>What calling a callback runs, given which conditions are still alive.\<close>

definition call_cb :: "(nat \<Rightarrow> bool) \<Rightarrow> 'c callback \<Rightarrow> 'c option" where
  "call_cb alive cb = (case cb of Plain c \<Rightarrow> Some c | OnTimer w c \<Rightarrow> if alive w then Some c else None)"

definition timer_at :: "nat \<Rightarrow> 'c TimerManager \<Rightarrow> timer_error + 'c Timer" where
  "timer_at a tm = optE BadTimer (timer_heap tm a)"

definition set_timer :: "nat \<Rightarrow> 'c Timer \<Rightarrow> 'c TimerManager \<Rightarrow> 'c TimerManager" where
  "set_timer a t tm = tm\<lparr>timer_heap := (timer_heap tm)(a \<mapsto> t)\<rparr>"

definition cancel :: "nat \<Rightarrow> 'c TimerManager \<Rightarrow> timer_error + bool \<times> 'c TimerManager" where
  "cancel a tm =
     bindE (timer_at a tm) (\<lambda>t.
     if m_cb t \<noteq> None then
       let tm1 = set_timer a (t\<lparr>m_cb := None\<rparr>) tm in
       bindE (erase (set_find (before (timer_heap tm1)) a (m_timers tm1)) (m_timers tm1)) (\<lambda>ts.
       Inr (True, tm1\<lparr>m_timers := ts\<rparr>))
     else Inr (False, tm))"

definition refresh :: "nat \<Rightarrow> nat \<Rightarrow> 'c TimerManager \<Rightarrow> timer_error + bool \<times> 'c TimerManager" where
  "refresh now a tm =
     bindE (timer_at a tm) (\<lambda>t.
     if m_cb t = None then Inr (False, tm)
     else
       let it = set_find (before (timer_heap tm)) a (m_timers tm) in
       if it = None then Inr (False, tm)
       else
         bindE (erase it (m_timers tm)) (\<lambda>ts.
         let tm1 = set_timer a (t\<lparr>m_next := wrap64 (now + m_ms t)\<rparr>) (tm\<lparr>m_timers := ts\<rparr>) in
         Inr (True, tm1\<lparr>m_timers := set_insert (before (timer_heap tm1)) a (m_timers tm1)\<rparr>)))"

text \<open>\<open>reset\<close>; besides the answer, whether \<open>onTimerInsertedAtFront\<close> is called.\<close>

definition reset :: "nat \<Rightarrow> nat \<Rightarrow> bool \<Rightarrow> nat \<Rightarrow> 'c TimerManager \<Rightarrow> timer_error + (bool \<times> bool) \<times> 'c TimerManager" where
  "reset now ms from_now a tm =
     bindE (timer_at a tm) (\<lambda>t.
     if ms = m_ms t \<and> \<not> from_now then Inr ((True, False), tm)
     else if m_cb t = None then Inr ((False, False), tm)
     else
       let it = set_find (before (timer_heap tm)) a (m_timers tm) in
       if it = None then Inr ((False, False), tm)
       else
         bindE (erase it (m_timers tm)) (\<lambda>ts.
         let start = (if from_now then now else wrap64 (m_next t + 2 ^ 64 - m_ms t));
             tm1 = set_timer a (t\<lparr>m_ms := ms, m_next := wrap64 (start + ms)\<rparr>) (tm\<lparr>m_timers := ts\<rparr>);
             (front, tm2) = insert_timer a tm1
         in Inr ((True, front), tm2)))"

definition getNextTimer :: "nat \<Rightarrow> 'c TimerManager \<Rightarrow> nat \<times> 'c TimerManager" where
  "getNextTimer now_ms tm =
     (let tm1 = tm\<lparr>m_tickled := False\<rparr> in
      case m_timers tm1 of
        [] \<Rightarrow> (2 ^ 64 - 1, tm1)
      | a # _ \<Rightarrow>
          let t = the (timer_heap tm1 a) in
          if now_ms \<ge> m_next t then (0, tm1) else (m_next t - now_ms, tm1))"

definition hasTimer :: "'c TimerManager \<Rightarrow> bool" where
  "hasTimer tm \<longleftrightarrow> m_timers tm \<noteq> []"

text \<open>The loop over the expired timers.\<close>

fun expire_loop :: "nat \<Rightarrow> nat list \<Rightarrow> 'c callback option list \<Rightarrow> 'c TimerManager \<Rightarrow> 'c callback option list \<times> 'c TimerManager" where
  "expire_loop now_ms [] cbs tm = (cbs, tm)"
| "expire_loop now_ms (a # as) cbs tm =
     (let t = the (timer_heap tm a); cbs1 = cbs @ [m_cb t] in
      if m_recurring t then
        let tm1 = set_timer a (t\<lparr>m_next := wrap64 (now_ms + m_ms t)\<rparr>) tm in
        expire_loop now_ms as cbs1 (tm1\<lparr>m_timers := set_insert (before (timer_heap tm1)) a (m_timers tm1)\<rparr>)
      else expire_loop now_ms as cbs1 (set_timer a (t\<lparr>m_cb := None\<rparr>) tm))"

text \<open>\<open>key\<close> is the address of the search key \<open>now_timer\<close>, a new object.\<close>

definition listExpiredCb :: "nat \<Rightarrow> nat \<Rightarrow> 'c TimerManager \<Rightarrow> 'c callback option list \<times> 'c TimerManager" where
  "listExpiredCb now_ms key tm =
     (if m_timers tm = [] then ([], tm)
      else if m_next (the (timer_heap tm (hd (m_timers tm)))) > now_ms then ([], tm)
      else
        let h = (timer_heap tm)(key \<mapsto> Timer_key now_ms);
            (early, rest) = lower_bound (before h) key (m_timers tm);
            expired = early @ takeWhile (\<lambda>a. m_next (the (h a)) = now_ms) rest
        in expire_loop now_ms expired [] (tm\<lparr>m_timers := drop (length expired) (m_timers tm)\<rparr>))"

end
