(* ===== verification/TimerProps.thy ===== *)
theory TimerProps
  imports Timer
begin

text \<open>
  The ordered set the timers live in, as an interface with the code's comparator as its order, and
  the invariant of the manager: the set holds exactly the timers with a callback, in order.
\<close>

section \<open>Sets ordered by a comparator\<close>

locale ordered_set =
  fixes lt :: "'a \<Rightarrow> 'a \<Rightarrow> bool"
  assumes lt_irrefl: "\<not> lt a a"
    and lt_trans: "lt a b \<Longrightarrow> lt b c \<Longrightarrow> lt a c"
    and lt_total: "a \<noteq> b \<Longrightarrow> lt a b \<or> lt b a"
begin

lemma sorted_distinct: "sorted_wrt lt xs \<Longrightarrow> distinct xs"
  by (induction xs) (auto simp: lt_irrefl)

lemma set_insert_set: "a \<notin> set xs \<Longrightarrow> set (set_insert lt a xs) = insert a (set xs)"
  using lt_total by (induction xs) auto

lemma set_insert_sorted: "sorted_wrt lt xs \<Longrightarrow> sorted_wrt lt (set_insert lt a xs)"
proof (induction xs)
  case (Cons x xs)
  have "set (set_insert lt a xs) \<subseteq> insert a (set xs)" by (induction xs) auto
  with Cons show ?case by (auto intro: lt_trans)
qed simp

lemma set_insert_front: "a \<notin> set xs \<Longrightarrow> hd (set_insert lt a xs) = a \<longleftrightarrow> xs = [] \<or> lt a (hd xs)"
  by (cases xs) auto

lemma set_find_in: "sorted_wrt lt xs \<Longrightarrow> a \<in> set xs \<Longrightarrow> \<exists>i. set_find lt a xs = Some i \<and> i < length xs \<and> xs ! i = a"
proof (induction xs)
  case (Cons x xs)
  show ?case
  proof (cases "a = x")
    case True
    then show ?thesis by (simp add: lt_irrefl)
  next
    case False
    with Cons obtain i where "set_find lt a xs = Some i" "i < length xs" "xs ! i = a" by auto
    moreover have "lt x a" using Cons.prems False by auto
    ultimately show ?thesis by auto
  qed
qed simp

lemma set_find_out: "a \<notin> set xs \<Longrightarrow> set_find lt a xs = None"
  using lt_total by (induction xs) auto

lemma erase_ok:
  assumes "sorted_wrt lt xs" "a \<in> set xs"
  shows "\<exists>ys. erase (set_find lt a xs) xs = Inr ys \<and> sorted_wrt lt ys \<and> set ys = set xs - {a}"
proof -
  obtain i where i: "set_find lt a xs = Some i" "i < length xs" "xs ! i = a" using set_find_in [OF assms] by blast
  let ?ys = "take i xs @ drop (Suc i) xs"
  have xs: "xs = take i xs @ a # drop (Suc i) xs" using id_take_nth_drop [OF i(2)] i(3) by simp
  have "distinct (take i xs @ a # drop (Suc i) xs)" using sorted_distinct [OF assms(1)] xs by simp
  moreover have "set xs = set (take i xs @ a # drop (Suc i) xs)" using xs by simp
  ultimately have "set ?ys = set xs - {a}" by auto
  moreover have "sorted_wrt lt (take i xs @ a # drop (Suc i) xs)" using assms(1) xs by simp
  then have "sorted_wrt lt ?ys" by (auto simp: sorted_wrt_append)
  ultimately show ?thesis using i(1) by (simp add: erase_def)
qed

lemma sorted_drop: "sorted_wrt lt xs \<Longrightarrow> sorted_wrt lt (drop n xs)"
  by (simp add: sorted_wrt_drop)

text \<open>In a sorted list the elements with a downward closed property come first.\<close>

lemma filter_prefix:
  assumes "sorted_wrt lt xs" "\<And>a b. lt a b \<Longrightarrow> P b \<Longrightarrow> P a"
  shows "takeWhile P xs = filter P xs" "dropWhile P xs = filter (\<lambda>a. \<not> P a) xs"
  using assms(1)
proof (induction xs)
  case (Cons x xs)
  case 1
  have "\<not> P x \<Longrightarrow> y \<in> set xs \<Longrightarrow> \<not> P y" for y using 1 assms(2) [of x y] by auto
  with Cons 1 show ?case by (auto simp: filter_empty_conv)
next
  case (Cons x xs)
  case 2
  have "\<not> P x \<Longrightarrow> y \<in> set xs \<Longrightarrow> \<not> P y" for y using 2 assms(2) [of x y] by auto
  with Cons 2 show ?case by (auto simp: filter_id_conv)
qed simp_all

end

text \<open>The expiry time of the timer at an address.\<close>

definition expiry :: "(nat \<Rightarrow> 'c Timer option) \<Rightarrow> nat \<Rightarrow> nat" where
  "expiry h a = m_next (the (h a))"

lemma before_iff: "before h a b \<longleftrightarrow> expiry h a < expiry h b \<or> expiry h a = expiry h b \<and> a < b"
  by (auto simp: Comparator_def Let_def expiry_def)

interpretation ord: ordered_set "before h" for h
  by unfold_locales (auto simp: before_iff)

section \<open>Invariant\<close>

definition tm_inv :: "'c TimerManager \<Rightarrow> bool" where
  "tm_inv tm \<longleftrightarrow> sorted_wrt (before (timer_heap tm)) (m_timers tm)
     \<and> (\<forall>a. a \<in> set (m_timers tm) \<longleftrightarrow> (\<exists>t. timer_heap tm a = Some t \<and> m_cb t \<noteq> None))"

lemma sorted_same:
  assumes "sorted_wrt (before h) xs" "\<And>a. a \<in> set xs \<Longrightarrow> h' a = h a"
  shows "sorted_wrt (before h') xs"
  by (rule sorted_wrt_mono_rel [OF _ assms(1)]) (simp add: before_iff expiry_def assms(2))

lemma new_manager_inv: "tm_inv TimerManager_new"
  by (simp add: tm_inv_def TimerManager_new_def)

lemma set_timer_simps [simp]:
  "m_timers (set_timer a t tm) = m_timers tm" "m_tickled (set_timer a t tm) = m_tickled tm"
  "timer_heap (set_timer a t tm) = (timer_heap tm)(a \<mapsto> t)"
  by (simp_all add: set_timer_def)

text \<open>A timer outside the set may be changed and inserted.\<close>

lemma set_and_insert_inv:
  assumes sorted: "sorted_wrt (before (timer_heap tm)) xs" and out: "a \<notin> set xs" and cb: "m_cb t \<noteq> None"
    and others: "\<And>b. b \<noteq> a \<Longrightarrow> b \<in> set xs \<longleftrightarrow> (\<exists>u. timer_heap tm b = Some u \<and> m_cb u \<noteq> None)"
    and tm': "timer_heap tm' = (timer_heap tm)(a \<mapsto> t)" "m_timers tm' = set_insert (before ((timer_heap tm)(a \<mapsto> t))) a xs"
  shows "tm_inv tm'"
proof -
  have "sorted_wrt (before ((timer_heap tm)(a \<mapsto> t))) xs" by (rule sorted_same [OF sorted]) (use out in auto)
  then have "sorted_wrt (before (timer_heap tm')) (m_timers tm')" unfolding tm' by (rule ord.set_insert_sorted)
  moreover have "set (m_timers tm') = insert a (set xs)" unfolding tm' by (rule ord.set_insert_set [OF out])
  ultimately show ?thesis using cb others by (auto simp: tm_inv_def tm')
qed

lemma insert_timer_simps [simp]:
  "timer_heap (snd (insert_timer a tm)) = timer_heap tm"
  "m_timers (snd (insert_timer a tm)) = set_insert (before (timer_heap tm)) a (m_timers tm)"
  by (simp_all add: insert_timer_def Let_def)

lemma addTimer_inv:
  assumes "tm_inv tm" "timer_heap tm a = None"
  shows "tm_inv (snd (addTimer now ms cb recurring a tm))"
  by (rule set_and_insert_inv [of tm "m_timers tm" a "Timer_new now ms cb recurring"])
    (use assms in \<open>auto simp: tm_inv_def addTimer_def Timer_new_def\<close>)

lemma cancel_ok:
  assumes "tm_inv tm" "timer_heap tm a = Some t"
  shows "\<exists>tm'. cancel a tm = Inr (m_cb t \<noteq> None, tm') \<and> tm_inv tm'
    \<and> timer_heap tm' = (timer_heap tm)(a \<mapsto> t\<lparr>m_cb := None\<rparr>) \<and> set (m_timers tm') = set (m_timers tm) - {a}
    \<and> m_tickled tm' = m_tickled tm"
proof (cases "m_cb t = None")
  case True
  then have "timer_heap tm = (timer_heap tm)(a \<mapsto> t\<lparr>m_cb := None\<rparr>)" using assms(2) by (auto simp: fun_eq_iff)
  moreover have "a \<notin> set (m_timers tm)" using assms True by (auto simp: tm_inv_def)
  ultimately show ?thesis using assms True by (simp add: cancel_def timer_at_def)
next
  case False
  let ?h = "(timer_heap tm)(a \<mapsto> t\<lparr>m_cb := None\<rparr>)"
  have a: "a \<in> set (m_timers tm)" and s: "sorted_wrt (before (timer_heap tm)) (m_timers tm)"
    using assms False by (auto simp: tm_inv_def)
  have same: "before ?h = before (timer_heap tm)" by (auto simp: fun_eq_iff before_iff expiry_def assms(2))
  from ord.erase_ok [OF s a] obtain ys where ys: "erase (set_find (before (timer_heap tm)) a (m_timers tm)) (m_timers tm) = Inr ys"
    "sorted_wrt (before (timer_heap tm)) ys" "set ys = set (m_timers tm) - {a}" by blast
  let ?tm' = "(set_timer a (t\<lparr>m_cb := None\<rparr>) tm)\<lparr>m_timers := ys\<rparr>"
  have "cancel a tm = Inr (True, ?tm')"
    using False assms(2) ys(1) by (simp add: cancel_def timer_at_def Let_def same del: fun_upd_apply)
  moreover have "tm_inv ?tm'" using assms(1) ys(2,3) by (simp add: tm_inv_def same del: fun_upd_apply) auto
  ultimately show ?thesis using False ys(3) by simp
qed

text \<open>Taking a timer of the set out, changing it and inserting it again, as \<open>refresh\<close> and \<open>reset\<close> do.\<close>

lemma reinsert_inv:
  assumes inv: "tm_inv tm" and h: "timer_heap tm a = Some t" and cb: "m_cb t \<noteq> None" "m_cb t' \<noteq> None"
  shows "\<exists>i ys. set_find (before (timer_heap tm)) a (m_timers tm) = Some i \<and> erase (Some i) (m_timers tm) = Inr ys
    \<and> set ys = set (m_timers tm) - {a}
    \<and> (\<forall>tm'. timer_heap tm' = (timer_heap tm)(a \<mapsto> t') \<and> m_timers tm' = set_insert (before ((timer_heap tm)(a \<mapsto> t'))) a ys
        \<longrightarrow> tm_inv tm')"
proof -
  have a: "a \<in> set (m_timers tm)" and s: "sorted_wrt (before (timer_heap tm)) (m_timers tm)"
    using inv h cb(1) by (auto simp: tm_inv_def)
  from ord.erase_ok [OF s a] ord.set_find_in [OF s a] obtain i ys where
    ys: "set_find (before (timer_heap tm)) a (m_timers tm) = Some i" "erase (Some i) (m_timers tm) = Inr ys"
    "sorted_wrt (before (timer_heap tm)) ys" "set ys = set (m_timers tm) - {a}" by fastforce
  have others: "b \<in> set ys \<longleftrightarrow> (\<exists>u. timer_heap tm b = Some u \<and> m_cb u \<noteq> None)" if "b \<noteq> a" for b
    using inv that by (auto simp: ys(4) tm_inv_def)
  have "a \<notin> set ys" by (simp add: ys(4))
  from set_and_insert_inv [OF ys(3) this cb(2) others] ys show ?thesis by blast
qed

lemma refresh_ok:
  assumes "tm_inv tm" "timer_heap tm a = Some t"
  shows "\<exists>tm'. refresh now a tm = Inr (m_cb t \<noteq> None, tm') \<and> tm_inv tm'
    \<and> timer_heap tm' = (if m_cb t = None then timer_heap tm else (timer_heap tm)(a \<mapsto> t\<lparr>m_next := wrap64 (now + m_ms t)\<rparr>))"
proof (cases "m_cb t = None")
  case True
  with assms show ?thesis by (simp add: refresh_def timer_at_def)
next
  case False
  from reinsert_inv [OF assms False, of "t\<lparr>m_next := wrap64 (now + m_ms t)\<rparr>"] False assms(2) show ?thesis
    by (fastforce simp: refresh_def timer_at_def Let_def simp del: fun_upd_apply)
qed

lemma reset_ok:
  assumes "tm_inv tm" "timer_heap tm a = Some t"
  shows "\<exists>r tm'. reset now ms from_now a tm = Inr (r, tm') \<and> tm_inv tm'
    \<and> (fst r \<longleftrightarrow> m_cb t \<noteq> None \<or> ms = m_ms t \<and> \<not> from_now)
    \<and> timer_heap tm' = (if m_cb t = None \<or> ms = m_ms t \<and> \<not> from_now then timer_heap tm
        else (timer_heap tm)(a \<mapsto> t\<lparr>m_ms := ms,
          m_next := wrap64 ((if from_now then now else wrap64 (m_next t + 2 ^ 64 - m_ms t)) + ms)\<rparr>))"
proof (cases "m_cb t = None \<or> ms = m_ms t \<and> \<not> from_now")
  case True
  with assms show ?thesis by (auto simp: reset_def timer_at_def)
next
  case False
  let ?t = "t\<lparr>m_ms := ms, m_next := wrap64 ((if from_now then now else wrap64 (m_next t + 2 ^ 64 - m_ms t)) + ms)\<rparr>"
  have cb: "m_cb t \<noteq> None" "m_cb ?t \<noteq> None" using False by simp_all
  from reinsert_inv [OF assms cb] obtain i ys where
    r: "set_find (before (timer_heap tm)) a (m_timers tm) = Some i" "erase (Some i) (m_timers tm) = Inr ys"
    and inv: "\<And>tm'. timer_heap tm' = (timer_heap tm)(a \<mapsto> ?t) \<Longrightarrow> m_timers tm' = set_insert (before ((timer_heap tm)(a \<mapsto> ?t))) a ys
        \<Longrightarrow> tm_inv tm'" by blast
  let ?ins = "insert_timer a (set_timer a ?t (tm\<lparr>m_timers := ys\<rparr>))"
  have "reset now ms from_now a tm = Inr ((True, fst ?ins), snd ?ins)"
    using False r assms(2) by (auto simp: reset_def timer_at_def Let_def case_prod_beta)
  moreover have "tm_inv (snd ?ins)" by (rule inv) simp_all
  ultimately show ?thesis using False by auto
qed

section \<open>Expiry\<close>

text \<open>The heap after the expired timers were handled: recurring ones are due again, the others are done.\<close>

definition after_expiry :: "nat \<Rightarrow> nat set \<Rightarrow> (nat \<Rightarrow> 'c Timer option) \<Rightarrow> nat \<Rightarrow> 'c Timer option" where
  "after_expiry now as h = (\<lambda>a. if a \<in> as then map_option (\<lambda>t. if m_recurring t
     then t\<lparr>m_next := wrap64 (now + m_ms t)\<rparr> else t\<lparr>m_cb := None\<rparr>) (h a) else h a)"

lemma expire_loop_ok:
  assumes "sorted_wrt (before (timer_heap tm)) (m_timers tm)" "distinct as" "set as \<inter> set (m_timers tm) = {}"
    and "\<forall>a \<in> set as. \<exists>t. timer_heap tm a = Some t \<and> m_cb t \<noteq> None"
    and "\<forall>a. a \<notin> set as \<longrightarrow> (a \<in> set (m_timers tm) \<longleftrightarrow> (\<exists>t. timer_heap tm a = Some t \<and> m_cb t \<noteq> None))"
  shows "\<exists>tm'. expire_loop now as cbs tm = (cbs @ map (\<lambda>a. m_cb (the (timer_heap tm a))) as, tm') \<and> tm_inv tm'
    \<and> timer_heap tm' = after_expiry now (set as) (timer_heap tm) \<and> m_tickled tm' = m_tickled tm"
  using assms
proof (induction as arbitrary: cbs tm)
  case Nil
  then show ?case by (simp add: tm_inv_def after_expiry_def)
next
  case (Cons a as)
  obtain t where t: "timer_heap tm a = Some t" "m_cb t \<noteq> None" using Cons.prems(4) by auto
  let ?t = "if m_recurring t then t\<lparr>m_next := wrap64 (now + m_ms t)\<rparr> else t\<lparr>m_cb := None\<rparr>"
  let ?h = "(timer_heap tm)(a \<mapsto> ?t)"
  have a: "a \<notin> set as" "a \<notin> set (m_timers tm)" using Cons.prems(2,3) by auto
  define tm1 where "tm1 = (if m_recurring t then (set_timer a ?t tm)\<lparr>m_timers := set_insert (before ?h) a (m_timers tm)\<rparr>
    else set_timer a ?t tm)"
  have step: "expire_loop now (a # as) cbs tm = expire_loop now as (cbs @ [m_cb t]) tm1"
    by (simp add: Let_def t tm1_def del: fun_upd_apply)
  have h1: "timer_heap tm1 = ?h" "m_tickled tm1 = m_tickled tm" by (simp_all add: tm1_def)
  have ts: "set (m_timers tm1) = (if m_recurring t then insert a (set (m_timers tm)) else set (m_timers tm))"
    by (simp add: tm1_def ord.set_insert_set [OF a(2)])
  have "sorted_wrt (before ?h) (m_timers tm)" by (rule sorted_same [OF Cons.prems(1)]) (use a in auto)
  then have "sorted_wrt (before (timer_heap tm1)) (m_timers tm1)"
    unfolding h1 by (cases "m_recurring t") (simp_all add: tm1_def ord.set_insert_sorted del: fun_upd_apply)
  moreover have "set as \<inter> set (m_timers tm1) = {}" using Cons.prems(3) a(1) by (auto simp: ts)
  moreover have "\<forall>b \<in> set as. \<exists>u. timer_heap tm1 b = Some u \<and> m_cb u \<noteq> None" using Cons.prems(4) a(1) by (auto simp: h1)
  moreover have "\<forall>b. b \<notin> set as \<longrightarrow> (b \<in> set (m_timers tm1) \<longleftrightarrow> (\<exists>u. timer_heap tm1 b = Some u \<and> m_cb u \<noteq> None))"
    using Cons.prems(5) a t(2) by (auto simp: h1 ts)
  ultimately obtain tm' where r: "expire_loop now as (cbs @ [m_cb t]) tm1
      = ((cbs @ [m_cb t]) @ map (\<lambda>a. m_cb (the (timer_heap tm1 a))) as, tm')" "tm_inv tm'"
      "timer_heap tm' = after_expiry now (set as) (timer_heap tm1)" "m_tickled tm' = m_tickled tm1"
    using Cons.IH [of tm1 "cbs @ [m_cb t]"] Cons.prems(2) by auto
  have "map (\<lambda>a. m_cb (the (timer_heap tm1 a))) as = map (\<lambda>a. m_cb (the (timer_heap tm a))) as"
    using a(1) by (auto simp: h1)
  moreover have "after_expiry now (set as) ?h = after_expiry now (set (a # as)) (timer_heap tm)"
    using a(1) t(1) by (auto simp: after_expiry_def fun_eq_iff)
  ultimately show ?case unfolding step r(1) using r(2-4) t(1) by (simp add: h1)
qed

lemma expiry_mono: "before h a b \<Longrightarrow> expiry h b \<le> n \<Longrightarrow> expiry h a \<le> n"
  by (auto simp: before_iff)

text \<open>Which timers are taken out does not depend on the address of the search key.\<close>

lemma expired_timers:
  fixes now :: nat
  assumes inv: "tm_inv tm" and key: "timer_heap tm key = None" and ts: "m_timers tm \<noteq> []"
  defines "h \<equiv> (timer_heap tm)(key \<mapsto> Timer_key now)"
  shows "fst (lower_bound (before h) key (m_timers tm)) @ takeWhile (\<lambda>a. m_next (the (h a)) = now) (snd (lower_bound (before h) key (m_timers tm)))
    = filter (\<lambda>a. expiry (timer_heap tm) a \<le> now) (m_timers tm)"
proof -
  let ?ts = "m_timers tm" and ?h0 = "timer_heap tm"
  have s0: "sorted_wrt (before ?h0) ?ts" using inv by (simp add: tm_inv_def)
  have k: "key \<notin> set ?ts" using inv key by (auto simp: tm_inv_def)
  have e: "expiry h a = expiry ?h0 a" if "a \<in> set ?ts" for a using that k by (auto simp: h_def expiry_def)
  have ek: "expiry h key = now" by (simp add: h_def expiry_def Timer_key_def)
  have s: "sorted_wrt (before h) ?ts" by (rule sorted_same [OF s0]) (use k in \<open>auto simp: h_def\<close>)
  have m: "m_next (the (h a)) = expiry h a" for a by (simp add: expiry_def)
  let ?e = "filter (\<lambda>x. before h x key) ?ts" and ?r = "filter (\<lambda>x. \<not> before h x key) ?ts"
  have lb: "lower_bound (before h) key ?ts = (?e, ?r)"
    unfolding lower_bound_def using ord.filter_prefix [OF s, of "\<lambda>x. before h x key"] ord.lt_trans by auto
  have sr: "sorted_wrt (before h) ?r" by (rule sorted_wrt_filter [OF s])
  have "takeWhile (\<lambda>a. expiry h a = now) ?r = takeWhile (\<lambda>a. expiry h a \<le> now) ?r"
    by (rule takeWhile_cong) (auto simp: before_iff ek)
  also have "\<dots> = filter (\<lambda>a. expiry h a \<le> now) ?r" by (rule ord.filter_prefix(1) [OF sr expiry_mono])
  finally have tw: "takeWhile (\<lambda>a. expiry h a = now) ?r = filter (\<lambda>a. expiry h a \<le> now) ?r" .
  have "?e @ filter (\<lambda>a. expiry h a \<le> now) ?r = filter (\<lambda>a. expiry h a \<le> now) ?ts"
  proof -
    have "filter (\<lambda>a. expiry h a \<le> now) ?ts = filter (\<lambda>a. expiry h a \<le> now) (?e @ ?r)"
      using ord.filter_prefix [OF s, of "\<lambda>x. before h x key"] ord.lt_trans takeWhile_dropWhile_id
      by (metis (no_types, lifting))
    moreover have "filter (\<lambda>a. expiry h a \<le> now) ?e = ?e"
      unfolding filter_id_conv by (auto simp: before_iff ek)
    ultimately show ?thesis by simp
  qed
  also have "\<dots> = filter (\<lambda>a. expiry ?h0 a \<le> now) ?ts" by (rule filter_cong) (simp_all add: e)
  finally show ?thesis by (simp add: lb m tw)
qed

lemma listExpired_ok:
  assumes inv: "tm_inv tm" and key: "timer_heap tm key = None"
  shows "\<exists>tm'. listExpiredCb now key tm
      = (map (\<lambda>a. m_cb (the (timer_heap tm a))) (filter (\<lambda>a. expiry (timer_heap tm) a \<le> now) (m_timers tm)), tm')
    \<and> tm_inv tm'
    \<and> timer_heap tm' = after_expiry now {a \<in> set (m_timers tm). expiry (timer_heap tm) a \<le> now} (timer_heap tm)
    \<and> m_tickled tm' = m_tickled tm"
proof -
  let ?ts = "m_timers tm" and ?h = "timer_heap tm" and ?P = "\<lambda>a. expiry (timer_heap tm) a \<le> now"
  have s: "sorted_wrt (before ?h) ?ts" using inv by (simp add: tm_inv_def)
  have none: "after_expiry now {} ?h = ?h" by (simp add: after_expiry_def)
  consider "?ts = []" | "?ts \<noteq> []" "expiry ?h (hd ?ts) > now" | "?ts \<noteq> []" "expiry ?h (hd ?ts) \<le> now" by linarith
  then show ?thesis
  proof cases
    case 1
    with inv none show ?thesis by (simp add: listExpiredCb_def)
  next
    case 2
    have "filter ?P ?ts = takeWhile ?P ?ts"
      by (rule ord.filter_prefix(1) [OF s expiry_mono, symmetric])
    also have "\<dots> = []" using 2 by (cases ?ts) auto
    finally have f: "filter ?P ?ts = []" .
    then have e: "{a \<in> set ?ts. ?P a} = {}" by (auto simp: filter_empty_conv)
    have "after_expiry now {a \<in> set ?ts. ?P a} ?h = ?h" unfolding e by (rule none)
    moreover have "listExpiredCb now key tm = ([], tm)" using 2 by (simp add: listExpiredCb_def expiry_def [symmetric])
    ultimately show ?thesis using inv f by simp
  next
    case 3
    let ?ex = "filter ?P ?ts"
    have pre: "takeWhile ?P ?ts = ?ex" "dropWhile ?P ?ts = filter (\<lambda>a. \<not> ?P a) ?ts"
      by - (rule ord.filter_prefix [OF s expiry_mono], assumption+)+
    then have d: "drop (length ?ex) ?ts = filter (\<lambda>a. \<not> ?P a) ?ts"
      by (metis dropWhile_eq_drop)
    let ?tm = "tm\<lparr>m_timers := drop (length ?ex) ?ts\<rparr>"
    have l: "listExpiredCb now key tm = expire_loop now ?ex [] ?tm"
      unfolding listExpiredCb_def Let_def case_prod_beta expired_timers [OF inv key 3(1)]
      using 3 by (simp add: expiry_def)
    have "\<exists>tm'. expire_loop now ?ex [] ?tm = ([] @ map (\<lambda>a. m_cb (the (timer_heap ?tm a))) ?ex, tm') \<and> tm_inv tm'
        \<and> timer_heap tm' = after_expiry now (set ?ex) (timer_heap ?tm) \<and> m_tickled tm' = m_tickled ?tm"
    proof (rule expire_loop_ok)
      show "sorted_wrt (before (timer_heap ?tm)) (m_timers ?tm)" using s by (simp add: sorted_wrt_drop)
      show "distinct ?ex" using ord.sorted_distinct [OF s] by simp
      show "set ?ex \<inter> set (m_timers ?tm) = {}" unfolding d by (auto simp: d)
      show "\<forall>a \<in> set ?ex. \<exists>t. timer_heap ?tm a = Some t \<and> m_cb t \<noteq> None" using inv by (auto simp: tm_inv_def)
      show "\<forall>a. a \<notin> set ?ex \<longrightarrow> (a \<in> set (m_timers ?tm) \<longleftrightarrow> (\<exists>t. timer_heap ?tm a = Some t \<and> m_cb t \<noteq> None))"
        using inv by (auto simp: tm_inv_def d)
    qed
    then show ?thesis by (simp add: l)
  qed
qed

section \<open>All operations\<close>

text \<open>
  A step of the manager: a new timer gets an unused address; a handle is the address of a timer
  made before. The outcome of a step that fails would be \<open>Inl\<close>.
\<close>

inductive timer_step :: "'c TimerManager \<Rightarrow> 'c TimerManager \<Rightarrow> bool" where
  add: "timer_heap tm a = None \<Longrightarrow> timer_step tm (snd (addTimer now ms cb recurring a tm))"
| cancel: "timer_heap tm a \<noteq> None \<Longrightarrow> cancel a tm = Inr (b, tm') \<Longrightarrow> timer_step tm tm'"
| refresh: "timer_heap tm a \<noteq> None \<Longrightarrow> refresh now a tm = Inr (b, tm') \<Longrightarrow> timer_step tm tm'"
| reset: "timer_heap tm a \<noteq> None \<Longrightarrow> reset now ms from_now a tm = Inr (r, tm') \<Longrightarrow> timer_step tm tm'"
| expire: "timer_heap tm key = None \<Longrightarrow> timer_step tm (snd (listExpiredCb now key tm))"
| next_timer: "timer_step tm (snd (getNextTimer now tm))"

inductive timer_reachable :: "'c TimerManager \<Rightarrow> bool" where
  start: "timer_reachable TimerManager_new"
| step: "timer_reachable tm \<Longrightarrow> timer_step tm tm' \<Longrightarrow> timer_reachable tm'"

lemma getNextTimer_state: "snd (getNextTimer now tm) = tm\<lparr>m_tickled := False\<rparr>"
  by (simp add: getNextTimer_def Let_def split: list.split)

lemma timer_step_inv: "timer_step tm tm' \<Longrightarrow> tm_inv tm \<Longrightarrow> tm_inv tm'"
proof (induction rule: timer_step.induct)
  case (add tm a now ms cb recurring)
  then show ?case by (simp add: addTimer_inv)
next
  case (cancel tm a b tm')
  with cancel_ok [of tm a] show ?case by auto
next
  case (refresh tm a now b tm')
  with refresh_ok [of tm a _ now] show ?case by auto
next
  case (reset tm a now ms from_now r tm')
  with reset_ok [of tm a _ now ms from_now] show ?case by auto
next
  case (expire tm key now)
  with listExpired_ok [of tm key now] show ?case by auto
next
  case (next_timer tm now)
  then show ?case by (simp add: getNextTimer_state tm_inv_def)
qed

lemma timer_reachable_inv: "timer_reachable tm \<Longrightarrow> tm_inv tm"
  by (induction rule: timer_reachable.induct) (auto intro: new_manager_inv timer_step_inv)

section \<open>Properties\<close>

text \<open>C17: in every state a manager reaches by adding, cancelling, refreshing, resetting and expiring timers, its
  set holds exactly the timers that have a callback, ordered by expiry time; hence the operations on
  handles succeed, \<open>cancel\<close> never erases the end of the set, and cancel and refresh answer whether
  the timer was still active.\<close>

theorem timers_always_consistent:
  assumes reach: "timer_reachable tm" and handle: "timer_heap tm a = Some t"
  shows "sorted_wrt (\<lambda>x y. (expiry (timer_heap tm) x, x) \<noteq> (expiry (timer_heap tm) y, y)
        \<and> expiry (timer_heap tm) x \<le> expiry (timer_heap tm) y) (m_timers tm)
    \<and> (a \<in> set (m_timers tm) \<longleftrightarrow> m_cb t \<noteq> None)
    \<and> (\<exists>tm'. cancel a tm = Inr (m_cb t \<noteq> None, tm') \<and> timer_reachable tm' \<and> a \<notin> set (m_timers tm'))
    \<and> (\<exists>tm'. refresh now a tm = Inr (m_cb t \<noteq> None, tm') \<and> timer_reachable tm')
    \<and> (\<exists>r tm'. reset now ms from_now a tm = Inr (r, tm') \<and> timer_reachable tm')"
proof -
  have inv: "tm_inv tm" by (rule timer_reachable_inv [OF reach])
  then have "sorted_wrt (before (timer_heap tm)) (m_timers tm)" by (simp add: tm_inv_def)
  then have "sorted_wrt (\<lambda>x y. (expiry (timer_heap tm) x, x) \<noteq> (expiry (timer_heap tm) y, y)
        \<and> expiry (timer_heap tm) x \<le> expiry (timer_heap tm) y) (m_timers tm)"
    by (rule sorted_wrt_mono_rel [rotated]) (auto simp: before_iff)
  moreover have "a \<in> set (m_timers tm) \<longleftrightarrow> m_cb t \<noteq> None" using inv handle by (simp add: tm_inv_def)
  moreover from cancel_ok [OF inv handle] have
    "\<exists>tm'. cancel a tm = Inr (m_cb t \<noteq> None, tm') \<and> timer_reachable tm' \<and> a \<notin> set (m_timers tm')"
    using reach handle by (auto intro!: timer_reachable.step [OF reach] timer_step.cancel [of tm a])
  moreover from refresh_ok [OF inv handle, of now] have
    "\<exists>tm'. refresh now a tm = Inr (m_cb t \<noteq> None, tm') \<and> timer_reachable tm'"
    using handle by (auto intro!: timer_reachable.step [OF reach] timer_step.refresh [of tm a])
  moreover from reset_ok [OF inv handle, of now ms from_now] have
    "\<exists>r tm'. reset now ms from_now a tm = Inr (r, tm') \<and> timer_reachable tm'"
    using handle by (auto intro!: timer_reachable.step [OF reach] timer_step.reset [of tm a])
  ultimately show ?thesis by blast
qed

text \<open>C18: when timers expire, \<open>listExpiredCb\<close> hands out the callbacks of exactly the timers due by now, in the
  order of their times, whatever address the search key has; a recurring timer is due again one
  period later, any other one is finished, and all other timers are untouched.\<close>

theorem expired_timers_fire:
  assumes "tm_inv tm" and "timer_heap tm key = None"
  shows "\<exists>tm'. listExpiredCb now key tm
      = (map (\<lambda>a. m_cb (the (timer_heap tm a))) (filter (\<lambda>a. expiry (timer_heap tm) a \<le> now) (m_timers tm)), tm')
    \<and> tm_inv tm'
    \<and> (\<forall>a t. timer_heap tm a = Some t \<longrightarrow> timer_heap tm' a = Some
        (if a \<in> set (m_timers tm) \<and> m_next t \<le> now
         then (if m_recurring t then t\<lparr>m_next := wrap64 (now + m_ms t)\<rparr> else t\<lparr>m_cb := None\<rparr>) else t))"
proof -
  obtain tm' where r: "listExpiredCb now key tm
      = (map (\<lambda>a. m_cb (the (timer_heap tm a))) (filter (\<lambda>a. expiry (timer_heap tm) a \<le> now) (m_timers tm)), tm')"
    "tm_inv tm'" "timer_heap tm' = after_expiry now {a \<in> set (m_timers tm). expiry (timer_heap tm) a \<le> now} (timer_heap tm)"
    using listExpired_ok [OF assms] by blast
  then show ?thesis by (auto simp: after_expiry_def expiry_def)
qed

text \<open>The time to sleep is right: \<open>getNextTimer\<close> answers the largest number exactly when there is no timer,
  otherwise how long it is until the earliest one is due (0 when one is due already); a caller that
  sleeps so long gets a callback from \<open>listExpiredCb\<close>. A new timer wakes the sleeper exactly when it
  is earlier than all others and no wake-up is pending.\<close>

theorem next_timer_is_earliest:
  assumes inv: "tm_inv tm" and key: "timer_heap tm key = None" and new: "timer_heap tm a = None"
  shows "(m_timers tm = [] \<longrightarrow> fst (getNextTimer now tm) = 2 ^ 64 - 1)
    \<and> (m_timers tm \<noteq> [] \<longrightarrow> fst (getNextTimer now tm) = Min (expiry (timer_heap tm) ` set (m_timers tm)) - now
        \<and> fst (listExpiredCb (now + fst (getNextTimer now tm)) key (snd (getNextTimer now tm))) \<noteq> [])
    \<and> (fst (addTimer now ms cb recurring a tm) \<longleftrightarrow> \<not> m_tickled tm \<and> (\<forall>b \<in> set (m_timers tm).
        wrap64 (now + ms) < expiry (timer_heap tm) b \<or> wrap64 (now + ms) = expiry (timer_heap tm) b \<and> a < b))"
proof (intro conjI impI)
  let ?ts = "m_timers tm" and ?h = "timer_heap tm"
  have s: "sorted_wrt (before ?h) ?ts" using inv by (simp add: tm_inv_def)
  show "?ts = [] \<Longrightarrow> fst (getNextTimer now tm) = 2 ^ 64 - 1" by (simp add: getNextTimer_def)
  {
    assume "?ts \<noteq> []"
    then obtain x xs where ts: "?ts = x # xs" by (cases ?ts) auto
    have min: "Min (expiry ?h ` set ?ts) = expiry ?h x"
      using s by (intro Min_eqI) (auto simp: ts before_iff)
    have g: "fst (getNextTimer now tm) = expiry ?h x - now"
      by (simp add: getNextTimer_def ts expiry_def Let_def)
    then show "fst (getNextTimer now tm) = Min (expiry ?h ` set ?ts) - now" by (simp add: min)
    let ?tm = "snd (getNextTimer now tm)" and ?n = "now + fst (getNextTimer now tm)"
    have same: "timer_heap ?tm = ?h" "m_timers ?tm = ?ts" by (simp_all add: getNextTimer_state)
    have "tm_inv ?tm" using inv by (simp add: tm_inv_def same)
    moreover have "timer_heap ?tm key = None" by (simp add: same key)
    ultimately have "fst (listExpiredCb ?n key ?tm) = map (\<lambda>a. m_cb (the (?h a))) (filter (\<lambda>a. expiry ?h a \<le> ?n) ?ts)"
      using listExpired_ok [of ?tm key ?n] unfolding same by auto
    moreover have "expiry ?h x \<le> ?n" by (simp add: g)
    ultimately show "fst (listExpiredCb ?n key ?tm) \<noteq> []" by (simp add: ts)
  }
  let ?h' = "?h(a \<mapsto> Timer_new now ms cb recurring)"
  have out: "a \<notin> set ?ts" using inv new by (auto simp: tm_inv_def)
  have ea: "expiry ?h' a = wrap64 (now + ms)" by (simp add: expiry_def Timer_new_def)
  have eb: "expiry ?h' b = expiry ?h b" if "b \<in> set ?ts" for b using that out by (auto simp: expiry_def)
  have s': "sorted_wrt (before ?h') ?ts" by (rule sorted_same [OF s]) (use out in auto)
  have "?ts = [] \<or> before ?h' a (hd ?ts) \<longleftrightarrow> (\<forall>b \<in> set ?ts. before ?h' a b)"
    using s' ord.lt_trans [of ?h' a "hd ?ts"] by (cases ?ts) auto
  also have "\<dots> \<longleftrightarrow> (\<forall>b \<in> set ?ts. wrap64 (now + ms) < expiry ?h b \<or> wrap64 (now + ms) = expiry ?h b \<and> a < b)"
    by (auto simp: before_iff ea eb)
  finally show "fst (addTimer now ms cb recurring a tm) \<longleftrightarrow> \<not> m_tickled tm \<and> (\<forall>b \<in> set ?ts.
        wrap64 (now + ms) < expiry ?h b \<or> wrap64 (now + ms) = expiry ?h b \<and> a < b)"
    using ord.set_insert_front [OF out, of ?h'] by (auto simp: addTimer_def insert_timer_def Let_def)
qed

text \<open>A manager with a one-shot timer due at 10 and a recurring one due at 15.\<close>

definition demo_timers :: "string TimerManager" where
  "demo_timers = snd (addTimer 5 10 (Plain ''tick'') True 12 (snd (addTimer 5 5 (Plain ''once'') False 11 TimerManager_new)))"

lemma demo_timers_eq:
  "demo_timers = \<lparr>timer_heap = [11 \<mapsto> \<lparr>m_recurring = False, m_ms = 5, m_next = 10, m_cb = Some (Plain ''once'')\<rparr>,
     12 \<mapsto> \<lparr>m_recurring = True, m_ms = 10, m_next = 15, m_cb = Some (Plain ''tick'')\<rparr>], m_timers = [11, 12], m_tickled = True\<rparr>"
  by (simp add: demo_timers_def addTimer_def insert_timer_def Timer_new_def TimerManager_new_def Let_def Comparator_def wrap64_def)

lemma demo_timers_reachable: "timer_reachable demo_timers"
  unfolding demo_timers_def
  by (rule timer_reachable.step [OF timer_reachable.step [OF timer_reachable.start timer_step.add] timer_step.add])
    (simp_all add: TimerManager_new_def addTimer_def)

theorem timers_always_consistent_witness:
  "\<exists>tm'. cancel 11 demo_timers = Inr (True, tm') \<and> 11 \<notin> set (m_timers tm')"
proof -
  have "timer_heap demo_timers 11 = Some \<lparr>m_recurring = False, m_ms = 5, m_next = 10, m_cb = Some (Plain ''once'')\<rparr>"
    by (simp add: demo_timers_eq)
  from timers_always_consistent [OF demo_timers_reachable this, where now = 0 and ms = 0 and from_now = False]
  show ?thesis by auto
qed

theorem expired_timers_fire_witness:
  "\<exists>tm'. listExpiredCb 12 7 demo_timers = ([Some (Plain ''once'')], tm') \<and> map_option m_cb (timer_heap tm' 11) = Some None
    \<and> map_option m_next (timer_heap tm' 12) = Some 15"
proof -
  have k: "timer_heap demo_timers 7 = None" by (simp add: demo_timers_eq)
  have t: "timer_heap demo_timers 11 = Some \<lparr>m_recurring = False, m_ms = 5, m_next = 10, m_cb = Some (Plain ''once'')\<rparr>"
    "timer_heap demo_timers 12 = Some \<lparr>m_recurring = True, m_ms = 10, m_next = 15, m_cb = Some (Plain ''tick'')\<rparr>"
    "m_timers demo_timers = [11, 12]" by (simp_all add: demo_timers_eq)
  obtain tm' where r: "listExpiredCb 12 7 demo_timers = (map (\<lambda>a. m_cb (the (timer_heap demo_timers a)))
      (filter (\<lambda>a. expiry (timer_heap demo_timers) a \<le> 12) (m_timers demo_timers)), tm')"
    "\<forall>a t. timer_heap demo_timers a = Some t \<longrightarrow> timer_heap tm' a = Some
        (if a \<in> set (m_timers demo_timers) \<and> m_next t \<le> 12
         then (if m_recurring t then t\<lparr>m_next := wrap64 (12 + m_ms t)\<rparr> else t\<lparr>m_cb := None\<rparr>) else t)"
    using expired_timers_fire [OF timer_reachable_inv [OF demo_timers_reachable] k, of 12] by blast
  have "timer_heap tm' 11 = Some \<lparr>m_recurring = False, m_ms = 5, m_next = 10, m_cb = None\<rparr>"
    "timer_heap tm' 12 = Some \<lparr>m_recurring = True, m_ms = 10, m_next = 15, m_cb = Some (Plain ''tick'')\<rparr>"
    using r(2) [rule_format, OF t(1)] r(2) [rule_format, OF t(2)] by (simp_all add: t(3))
  with r(1) show ?thesis by (simp add: t expiry_def)
qed

theorem next_timer_is_earliest_witness:
  "fst (getNextTimer 7 demo_timers) = 3 \<and> \<not> fst (addTimer 7 1 (Plain ''now'') False 3 demo_timers)"
proof -
  have k: "timer_heap demo_timers 7 = None" "timer_heap demo_timers 3 = None" by (simp_all add: demo_timers_eq)
  have t: "m_timers demo_timers = [11, 12]" "m_tickled demo_timers" by (simp_all add: demo_timers_eq)
  have "expiry (timer_heap demo_timers) 11 = 10" "expiry (timer_heap demo_timers) 12 = 15"
    by (simp_all add: demo_timers_eq expiry_def)
  with next_timer_is_earliest [OF timer_reachable_inv [OF demo_timers_reachable] k(1,2), of 7 1 "Plain ''now''" False] t
  show ?thesis by simp
qed

end
