(* ===== verification/StringUtil.thy ===== *)
theory StringUtil
  imports Prelude "HOL-Library.Char_ord"
begin

unbundle bit_operations_syntax

text \<open>
  The string and array helpers of src/sylar/util.cc and src/sylar/util.h: URL coding with its two
  tables, trimming, letter case, the parts of a path, joining, slicing and binary search. A C++
  string is a list of characters, a position of a search that can answer \<open>npos\<close> an option.
\<close>

subsection \<open>Searching and cutting strings, as std::string does\<close>

text \<open>\<open>substr s pos n\<close> for a position inside the string; a count past the end is cut.\<close>

definition substr :: "string \<Rightarrow> nat \<Rightarrow> nat \<Rightarrow> string" where
  "substr s pos n = take n (drop pos s)"

definition find_from :: "char \<Rightarrow> nat \<Rightarrow> string \<Rightarrow> nat option" where
  "find_from c pos s =
    (let k = length (takeWhile (\<lambda>x. x \<noteq> c) (drop pos s)) in
     if pos + k < length s then Some (pos + k) else None)"

definition rfind :: "char \<Rightarrow> string \<Rightarrow> nat option" where
  "rfind c s =
    (let k = length (takeWhile (\<lambda>x. x \<noteq> c) (rev s)) in
     if k < length s then Some (length s - 1 - k) else None)"

definition find_first_not_of :: "string \<Rightarrow> string \<Rightarrow> nat option" where
  "find_first_not_of d s =
    (let k = length (takeWhile (\<lambda>x. x \<in> set d) s) in
     if k < length s then Some k else None)"

definition find_last_not_of :: "string \<Rightarrow> string \<Rightarrow> nat option" where
  "find_last_not_of d s =
    (let k = length (takeWhile (\<lambda>x. x \<in> set d) (rev s)) in
     if k < length s then Some (length s - 1 - k) else None)"

text \<open>A C string ends at its first null character.\<close>

definition c_str :: "string \<Rightarrow> string" where
  "c_str s = takeWhile (\<lambda>c. of_char c \<noteq> (0 :: nat)) s"

text \<open>Decimal output of a number, and \<open>atoi\<close>, which reads the digits at the start.\<close>

fun to_string :: "nat \<Rightarrow> string" where
  "to_string n =
    (if n < 10 then [char_of (n + 48)] else to_string (n div 10) @ [char_of (n mod 10 + 48)])"

declare to_string.simps [simp del]

definition isdigit :: "char \<Rightarrow> bool" where
  "isdigit c \<longleftrightarrow> 48 \<le> (of_char c :: nat) \<and> (of_char c :: nat) \<le> 57"

definition digits_value :: "string \<Rightarrow> nat" where
  "digits_value s = foldl (\<lambda>n c. 10 * n + (of_char c - 48)) 0 (takeWhile isdigit s)"

definition isspace :: "char \<Rightarrow> bool" where
  "isspace c \<longleftrightarrow> of_char c = (32 :: nat) \<or> 9 \<le> (of_char c :: nat) \<and> (of_char c :: nat) \<le> 13"

definition atoi :: "string \<Rightarrow> int" where
  "atoi s =
    (case dropWhile isspace s of
       [] \<Rightarrow> 0
     | c # cs \<Rightarrow> if c = CHR ''-'' then - int (digits_value cs)
               else if c = CHR ''+'' then int (digits_value cs)
               else int (digits_value (c # cs)))"

subsection \<open>URL coding\<close>

definition uri_chars :: "nat list" where
  "uri_chars = [
    0, 0, 0, 0, 0, 0, 0, 0,   0, 0, 0, 0, 0, 0, 0, 0,
    0, 0, 0, 0, 0, 0, 0, 0,   0, 0, 0, 0, 0, 0, 0, 0,
    0, 0, 0, 0, 0, 0, 0, 0,   0, 0, 0, 0, 0, 1, 1, 0,
    1, 1, 1, 1, 1, 1, 1, 1,   1, 1, 0, 0, 0, 1, 0, 0,
    0, 1, 1, 1, 1, 1, 1, 1,   1, 1, 1, 1, 1, 1, 1, 1,
    1, 1, 1, 1, 1, 1, 1, 1,   1, 1, 1, 0, 0, 0, 0, 1,
    0, 1, 1, 1, 1, 1, 1, 1,   1, 1, 1, 1, 1, 1, 1, 1,
    1, 1, 1, 1, 1, 1, 1, 1,   1, 1, 1, 0, 0, 0, 1, 0,
    0, 0, 0, 0, 0, 0, 0, 0,   0, 0, 0, 0, 0, 0, 0, 0,
    0, 0, 0, 0, 0, 0, 0, 0,   0, 0, 0, 0, 0, 0, 0, 0,
    0, 0, 0, 0, 0, 0, 0, 0,   0, 0, 0, 0, 0, 0, 0, 0,
    0, 0, 0, 0, 0, 0, 0, 0,   0, 0, 0, 0, 0, 0, 0, 0,
    0, 0, 0, 0, 0, 0, 0, 0,   0, 0, 0, 0, 0, 0, 0, 0,
    0, 0, 0, 0, 0, 0, 0, 0,   0, 0, 0, 0, 0, 0, 0, 0,
    0, 0, 0, 0, 0, 0, 0, 0,   0, 0, 0, 0, 0, 0, 0, 0,
    0, 0, 0, 0, 0, 0, 0, 0,   0, 0, 0, 0, 0, 0, 0, 0]"

definition xdigit_chars :: "nat list" where
  "xdigit_chars = [
    0,0,0,0,0,0,0,0,0,0,0,0,0,0,0,0,
    0,0,0,0,0,0,0,0,0,0,0,0,0,0,0,0,
    0,0,0,0,0,0,0,0,0,0,0,0,0,0,0,0,
    0,1,2,3,4,5,6,7,8,9,0,0,0,0,0,0,
    0,10,11,12,13,14,15,0,0,0,0,0,0,0,0,0,
    0,0,0,0,0,0,0,0,0,0,0,0,0,0,0,0,
    0,10,11,12,13,14,15,0,0,0,0,0,0,0,0,0,
    0,0,0,0,0,0,0,0,0,0,0,0,0,0,0,0,
    0,0,0,0,0,0,0,0,0,0,0,0,0,0,0,0,
    0,0,0,0,0,0,0,0,0,0,0,0,0,0,0,0,
    0,0,0,0,0,0,0,0,0,0,0,0,0,0,0,0,
    0,0,0,0,0,0,0,0,0,0,0,0,0,0,0,0,
    0,0,0,0,0,0,0,0,0,0,0,0,0,0,0,0,
    0,0,0,0,0,0,0,0,0,0,0,0,0,0,0,0,
    0,0,0,0,0,0,0,0,0,0,0,0,0,0,0,0,
    0,0,0,0,0,0,0,0,0,0,0,0,0,0,0,0]"

definition CHAR_IS_UNRESERVED :: "char \<Rightarrow> bool" where
  "CHAR_IS_UNRESERVED c \<longleftrightarrow> uri_chars ! of_char c \<noteq> 0"

definition hexdigits :: string where
  "hexdigits = ''0123456789ABCDEF''"

definition isxdigit :: "char \<Rightarrow> bool" where
  "isxdigit c \<longleftrightarrow> c \<in> set ''0123456789abcdefABCDEF''"

text \<open>
  The result is only built once a character has to be changed: until then \<open>ss\<close> is the null
  pointer, and then it starts with the part of the string already scanned.
\<close>

definition ss_or_prefix :: "string option \<Rightarrow> nat \<Rightarrow> string \<Rightarrow> string" where
  "ss_or_prefix ss i str = (case ss of None \<Rightarrow> substr str 0 i | Some s \<Rightarrow> s)"

fun encode_loop :: "bool \<Rightarrow> string \<Rightarrow> nat \<Rightarrow> string \<Rightarrow> string option \<Rightarrow> string option" where
  "encode_loop space_as_plus str i [] ss = ss"
| "encode_loop space_as_plus str i (c # cs) ss =
    (if \<not> CHAR_IS_UNRESERVED c then
       (let s = ss_or_prefix ss i str in
        encode_loop space_as_plus str (Suc i) cs
          (Some (if c = CHR '' '' \<and> space_as_plus then s @ ''+''
                 else s @ ''%'' @ [hexdigits ! drop_bit 4 (of_char c :: nat)]
                        @ [hexdigits ! ((of_char c :: nat) AND 15)])))
     else encode_loop space_as_plus str (Suc i) cs (map_option (\<lambda>s. s @ [c]) ss))"

definition UrlEncode :: "string \<Rightarrow> bool \<Rightarrow> string" where
  "UrlEncode str space_as_plus =
    (case encode_loop space_as_plus str 0 str None of None \<Rightarrow> str | Some s \<Rightarrow> s)"

fun decode_loop :: "bool \<Rightarrow> string \<Rightarrow> nat \<Rightarrow> string \<Rightarrow> string option \<Rightarrow> string option" where
  "decode_loop space_as_plus str i [] ss = ss"
| "decode_loop space_as_plus str i (c # cs) ss =
    (if c = CHR ''+'' \<and> space_as_plus then
       decode_loop space_as_plus str (Suc i) cs (Some (ss_or_prefix ss i str @ '' ''))
     else if c = CHR ''%'' \<and> 2 \<le> length cs \<and> isxdigit (cs ! 0) \<and> isxdigit (cs ! 1) then
       decode_loop space_as_plus str (i + 3) (drop 2 cs)
         (Some (ss_or_prefix ss i str
           @ [char_of (push_bit 4 (xdigit_chars ! of_char (cs ! 0))
                       OR (xdigit_chars ! of_char (cs ! 1)))]))
     else decode_loop space_as_plus str (Suc i) cs (map_option (\<lambda>s. s @ [c]) ss))"

definition UrlDecode :: "string \<Rightarrow> bool \<Rightarrow> string" where
  "UrlDecode str space_as_plus =
    (case decode_loop space_as_plus str 0 str None of None \<Rightarrow> str | Some s \<Rightarrow> s)"

subsection \<open>Trimming\<close>

definition default_delimit :: string where
  "default_delimit = CHR '' '' # char_of (9 :: nat) # char_of (13 :: nat) # [char_of (10 :: nat)]"

definition Trim :: "string \<Rightarrow> string \<Rightarrow> string" where
  "Trim str delimit =
    (case find_first_not_of delimit str of
       None \<Rightarrow> ''''
     | Some b \<Rightarrow>
         (case find_last_not_of delimit str of
            None \<Rightarrow> substr str b (length str)
          | Some e \<Rightarrow> substr str b (e - b + 1)))"

definition TrimLeft :: "string \<Rightarrow> string \<Rightarrow> string" where
  "TrimLeft str delimit =
    (case find_first_not_of delimit str of
       None \<Rightarrow> ''''
     | Some b \<Rightarrow> substr str b (length str))"

definition TrimRight :: "string \<Rightarrow> string \<Rightarrow> string" where
  "TrimRight str delimit =
    (case find_last_not_of delimit str of
       None \<Rightarrow> ''''
     | Some e \<Rightarrow> substr str 0 e)"

subsection \<open>Letter case and paths\<close>

text \<open>\<open>toupper\<close> and \<open>tolower\<close> of the C locale.\<close>

definition toupper :: "char \<Rightarrow> char" where
  "toupper c = (if 97 \<le> (of_char c :: nat) \<and> (of_char c :: nat) \<le> 122
                then char_of ((of_char c :: nat) - 32) else c)"

definition tolower :: "char \<Rightarrow> char" where
  "tolower c = (if 65 \<le> (of_char c :: nat) \<and> (of_char c :: nat) \<le> 90
                then char_of ((of_char c :: nat) + 32) else c)"

definition ToUpper :: "string \<Rightarrow> string" where
  "ToUpper name = map toupper name"

definition ToLower :: "string \<Rightarrow> string" where
  "ToLower name = map tolower name"

definition Dirname :: "string \<Rightarrow> string" where
  "Dirname filename =
    (if filename = [] then ''.''
     else case rfind (CHR ''/'') filename of
       None \<Rightarrow> ''.''
     | Some pos \<Rightarrow> if pos = 0 then ''/'' else substr filename 0 pos)"

definition Basename :: "string \<Rightarrow> string" where
  "Basename filename =
    (if filename = [] then filename
     else case rfind (CHR ''/'') filename of
       None \<Rightarrow> filename
     | Some pos \<Rightarrow> substr filename (pos + 1) (length filename))"

subsection \<open>Joining, slicing, searching\<close>

text \<open>The first element is the only one no separator is written before.\<close>

fun join_loop :: "bool \<Rightarrow> string \<Rightarrow> string list \<Rightarrow> string \<Rightarrow> string" where
  "join_loop first tag [] ss = ss"
| "join_loop first tag (x # xs) ss =
    join_loop False tag xs (ss @ (if first then '''' else tag) @ x)"

definition Join :: "string list \<Rightarrow> string \<Rightarrow> string" where
  "Join xs tag = join_loop True tag xs ''''"

text \<open>
  \<open>Slice\<close>: while more than \<open>size\<close> elements are left, one slice is moved to the result. With
  \<open>size = 0\<close> the loop does not end, so the value is \<open>None\<close>.
\<close>

partial_function (option) slice_loop ::
    "'a list \<Rightarrow> nat \<Rightarrow> nat \<Rightarrow> nat \<Rightarrow> 'a list list \<Rightarrow> 'a list list option" where
  "slice_loop src sz pos left dst =
    (if left > sz then
       slice_loop src sz (pos + sz) (left - sz) (dst @ [map (\<lambda>i. src ! (pos + i)) [0..<sz]])
     else if left > 0 then Some (dst @ [map (\<lambda>i. src ! (pos + i)) [0..<left]])
     else Some dst)"

definition Slice :: "'a list list \<Rightarrow> 'a list \<Rightarrow> nat \<Rightarrow> 'a list list option" where
  "Slice dst src sz = slice_loop src sz 0 (length src) dst"

datatype search_error = Int_overflow | Bad_index

text \<open>
  Binary search over 32-bit integers: the sum of the two bounds must not overflow, and the array
  is only read inside its length. \<open>begin\<close> starts at 0 and only grows, so the division is one of
  a number that is not negative.
\<close>

function search_loop :: "'a::linorder list \<Rightarrow> 'a \<Rightarrow> int \<Rightarrow> int \<Rightarrow> search_error + int" where
  "search_loop arr v b e =
    (if b \<le> e then
       bindE (guardE Int_overflow (b + e < 2 ^ 31)) (\<lambda>_.
       bindE (optE Bad_index
         (if 0 \<le> (b + e) div 2 \<and> (b + e) div 2 < int (length arr)
          then Some (arr ! nat ((b + e) div 2)) else None))
         (\<lambda>x. if v < x then search_loop arr v b ((b + e) div 2 - 1)
              else if x < v then search_loop arr v ((b + e) div 2 + 1) e
              else Inr ((b + e) div 2)))
     else Inr (- b - 1))"
  by pat_completeness auto
termination
  by (relation "measure (\<lambda>(arr, v, b, e). nat (e - b + 1))") auto

definition BinarySearch :: "'a::linorder list \<Rightarrow> 'a \<Rightarrow> search_error + int" where
  "BinarySearch arr v = search_loop arr v 0 (int (length arr) - 1)"

end
