(* ===== verification/StringProps.thy ===== *)
theory StringProps
  imports StringUtil
begin

text \<open>
  What the helpers of StringUtil guarantee: the loops with their lazily built result are equal to
  a coding character by character, the coded text is made of safe characters and is decoded back;
  trimming against its reference; slicing ends and loses nothing; binary search finds what is in a
  sorted array, and otherwise the place where it belongs.
\<close>

subsection \<open>Hexadecimal digits\<close>

lemma hexdigits_all:
  "list_all (\<lambda>n. isxdigit (hexdigits ! n) \<and> xdigit_chars ! of_char (hexdigits ! n) = n
     \<and> CHAR_IS_UNRESERVED (hexdigits ! n)) [0..<16]"
  by code_simp

lemma hexdigit:
  assumes "n < 16"
  shows "isxdigit (hexdigits ! n)" "xdigit_chars ! of_char (hexdigits ! n) = n"
    "CHAR_IS_UNRESERVED (hexdigits ! n)"
  using hexdigits_all assms by (auto simp: list_all_iff)

lemma nibbles:
  assumes "(n :: nat) < 256"
  shows "push_bit 4 (drop_bit 4 n) OR (n AND 15) = n" "drop_bit 4 n < 16" "n AND 15 < 16"
proof -
  have and15: "n AND 15 = take_bit 4 n"
    by (simp add: take_bit_eq_mask mask_eq_exp_minus_1)
  show "push_bit 4 (drop_bit 4 n) OR (n AND 15) = n"
    unfolding and15 by (rule bit_eqI) (auto simp: bit_simps)
  show "drop_bit 4 n < 16" using assms by (simp add: drop_bit_eq_div)
  show "n AND 15 < 16" unfolding and15 by (simp add: take_bit_eq_mod)
qed

lemma of_char_bound: "(of_char c :: nat) < 256"
  by (cases c) (simp add: of_char_def horner_sum_simps)

lemma reserved:
  "\<not> CHAR_IS_UNRESERVED (CHR ''%'')" "\<not> CHAR_IS_UNRESERVED (CHR ''+'')"
  "\<not> CHAR_IS_UNRESERVED (CHR '' '')" "\<not> CHAR_IS_UNRESERVED (CHR ''&'')"
  "CHAR_IS_UNRESERVED (CHR ''='')"
  by code_simp+

subsection \<open>URL coding, character by character\<close>

definition enc_char :: "bool \<Rightarrow> char \<Rightarrow> string" where
  "enc_char sp c =
    (if CHAR_IS_UNRESERVED c then [c]
     else if c = CHR '' '' \<and> sp then ''+''
     else [CHR ''%'', hexdigits ! drop_bit 4 (of_char c), hexdigits ! ((of_char c :: nat) AND 15)])"

fun dec :: "bool \<Rightarrow> string \<Rightarrow> string" where
  "dec sp [] = []"
| "dec sp (c # cs) =
    (if c = CHR ''+'' \<and> sp then CHR '' '' # dec sp cs
     else if c = CHR ''%'' \<and> 2 \<le> length cs \<and> isxdigit (cs ! 0) \<and> isxdigit (cs ! 1) then
       char_of (push_bit 4 (xdigit_chars ! of_char (cs ! 0)) OR (xdigit_chars ! of_char (cs ! 1)))
         # dec sp (drop 2 cs)
     else c # dec sp cs)"

lemma substr_full [simp]: "length s \<le> n \<Longrightarrow> substr s 0 n = s"
  by (simp add: substr_def)

lemma substr_0: "substr s 0 n = take n s"
  by (simp add: substr_def)

lemma take_Suc_drop: "drop i s = c # cs \<Longrightarrow> take (Suc i) s = take i s @ [c]"
  by (metis append_eq_conv_conj append_take_drop_id length_Cons lessI not_le take_Suc_conv_app_nth
      nth_via_drop drop_all neq_Nil_conv list.distinct(1) linorder_not_le)

lemma drop_Suc_eq: "drop i s = c # cs \<Longrightarrow> drop (Suc i) s = cs"
  by (metis drop_Suc list.sel(3) tl_drop)

lemma prefix_map: "drop i str = c # cs \<Longrightarrow>
  ss_or_prefix (map_option (\<lambda>s. s @ [c]) ss) (Suc i) str = ss_or_prefix ss i str @ [c]"
  by (cases ss) (simp_all add: ss_or_prefix_def substr_0 take_Suc_drop)

lemma prefix_Some [simp]: "ss_or_prefix (Some s) i str = s"
  by (simp add: ss_or_prefix_def)

lemma prefix_None [simp]: "ss_or_prefix None i str = take i str"
  by (simp add: ss_or_prefix_def substr_0)

lemma encode_loop_eq:
  assumes "drop i str = cs"
  shows "(case encode_loop sp str i cs ss of None \<Rightarrow> str | Some s \<Rightarrow> s)
    = ss_or_prefix ss i str @ concat (map (enc_char sp) cs)"
  using assms
proof (induction sp str i cs ss rule: encode_loop.induct)
  case (1 sp str i ss)
  then show ?case by (cases ss) simp_all
next
  case (2 sp str i c cs ss)
  show ?case
  proof (cases "CHAR_IS_UNRESERVED c")
    case True
    from 2(2) [of] True drop_Suc_eq [OF 2(3)] have
      "(case encode_loop sp str (Suc i) cs (map_option (\<lambda>s. s @ [c]) ss) of
          None \<Rightarrow> str | Some s \<Rightarrow> s)
       = ss_or_prefix (map_option (\<lambda>s. s @ [c]) ss) (Suc i) str
         @ concat (map (enc_char sp) cs)" by blast
    with True prefix_map [OF 2(3), of ss] show ?thesis
      by (simp add: enc_char_def [of sp c])
  next
    case False
    from 2(1) [OF False refl drop_Suc_eq [OF 2(3)]] False show ?thesis
      by (simp add: enc_char_def [of sp c] Let_def)
  qed
qed

lemma UrlEncode_eq: "UrlEncode str sp = concat (map (enc_char sp) str)"
  using encode_loop_eq [of 0 str str sp None] by (simp add: UrlEncode_def)

lemma decode_loop_eq:
  assumes "drop i str = cs"
  shows "(case decode_loop sp str i cs ss of None \<Rightarrow> str | Some s \<Rightarrow> s)
    = ss_or_prefix ss i str @ dec sp cs"
  using assms
proof (induction sp str i cs ss rule: decode_loop.induct)
  case (1 sp str i ss)
  then show ?case by (cases ss) simp_all
next
  case (2 sp str i c cs ss)
  have d3: "drop (i + 3) str = drop 2 cs"
    using 2(4) by (metis add.commute drop_drop drop_Suc_eq add_Suc_right numeral_3_eq_3
        numeral_2_eq_2 add_2_eq_Suc')
  show ?case
  proof (cases "c = CHR ''+'' \<and> sp")
    case True
    from 2(1) [OF True drop_Suc_eq [OF 2(4)]] True show ?thesis by simp
  next
    case sp: False
    show ?thesis
    proof (cases "c = CHR ''%'' \<and> 2 \<le> length cs \<and> isxdigit (cs ! 0) \<and> isxdigit (cs ! 1)")
      case True
      from 2(2) [OF sp True d3] True sp show ?thesis by simp
    next
      case False
      from 2(3) [OF sp False drop_Suc_eq [OF 2(4)]] prefix_map [OF 2(4)]
      show ?thesis by (simp only: decode_loop.simps dec.simps sp False if_False if_True
            append_assoc append.simps simp_thms)
    qed
  qed
qed

lemma UrlDecode_eq: "UrlDecode str sp = dec sp str"
  using decode_loop_eq [of 0 str str sp None] by (simp add: UrlDecode_def)

lemma dec_enc_char:
  assumes "p \<longrightarrow> q"
  shows "dec q (enc_char p c @ rest) = c # dec q rest"
proof -
  define n :: nat where "n = of_char c"
  define h where "h = hexdigits ! drop_bit 4 n"
  define l where "l = hexdigits ! (n AND 15)"
  note b = nibbles [OF of_char_bound, of c, folded n_def]
  have h: "isxdigit h" "xdigit_chars ! of_char h = drop_bit 4 n"
    and l: "isxdigit l" "xdigit_chars ! of_char l = n AND 15"
    using b by (simp_all add: h_def l_def hexdigit)
  have c: "char_of (push_bit 4 (xdigit_chars ! of_char h) OR (xdigit_chars ! of_char l)) = c"
    by (simp only: h(2) l(2) b(1)) (simp add: n_def)
  have hex: "dec q (CHR ''%'' # h # l # rest) = c # dec q rest"
    using h(1) l(1) c by (simp del: char_of_char)
  show ?thesis
  proof (cases "CHAR_IS_UNRESERVED c")
    case True
    with reserved have "c \<noteq> CHR ''%''" "c \<noteq> CHR ''+''" by blast+
    with True show ?thesis by (simp add: enc_char_def)
  next
    case False
    with hex assms show ?thesis
      by (simp add: enc_char_def h_def l_def n_def)
  qed
qed

lemma dec_concat: "p \<longrightarrow> q \<Longrightarrow> dec q (concat (map (enc_char p) s)) = s"
  by (induction s) (simp_all add: dec_enc_char del: dec.simps(2))

definition url_char :: "char \<Rightarrow> bool" where
  "url_char c \<longleftrightarrow> CHAR_IS_UNRESERVED c \<or> c = CHR ''%'' \<or> c = CHR ''+''"

lemma enc_char_safe: "list_all url_char (enc_char p c)"
  using nibbles [OF of_char_bound, of c]
  by (simp add: enc_char_def url_char_def hexdigit)

lemma encode_safe: "list_all url_char (UrlEncode s p)"
  unfolding UrlEncode_eq by (induction s) (simp_all add: enc_char_safe)

lemma encode_length: "length (UrlEncode s p) \<le> 3 * length s"
  unfolding UrlEncode_eq by (induction s) (auto simp: enc_char_def)

lemma encode_id: "list_all CHAR_IS_UNRESERVED s \<Longrightarrow> UrlEncode s p = s"
  unfolding UrlEncode_eq by (induction s) (auto simp: enc_char_def)

subsection \<open>Trimming\<close>

definition trim_left :: "string \<Rightarrow> string \<Rightarrow> string" where
  "trim_left s d = dropWhile (\<lambda>x. x \<in> set d) s"

definition trim_right :: "string \<Rightarrow> string \<Rightarrow> string" where
  "trim_right s d = rev (dropWhile (\<lambda>x. x \<in> set d) (rev s))"

lemma length_takeWhile_less: "length (takeWhile P xs) < length xs \<longleftrightarrow> dropWhile P xs \<noteq> []"
  by (metis append_Nil2 length_append length_takeWhile_le less_add_same_cancel1
      length_greater_0_conv nat_neq_iff not_le takeWhile_dropWhile_id)

lemma TrimLeft_eq: "TrimLeft s d = trim_left s d"
  by (auto simp: TrimLeft_def find_first_not_of_def Let_def substr_def trim_left_def
      length_takeWhile_less dropWhile_eq_drop)

lemma take_rev_dropWhile:
  "rev (dropWhile P (rev s)) = take (length s - length (takeWhile P (rev s))) s"
  by (simp add: dropWhile_eq_drop rev_drop)

lemma TrimRight_eq: "TrimRight s d = butlast (trim_right s d)"
proof (cases "dropWhile (\<lambda>x. x \<in> set d) (rev s) = []")
  case True
  then show ?thesis
    by (simp only: TrimRight_def find_last_not_of_def Let_def trim_right_def
        length_takeWhile_less [of _ "rev s", simplified]) simp
next
  case False
  then show ?thesis
    by (simp add: TrimRight_def find_last_not_of_def Let_def trim_right_def take_rev_dropWhile
        length_takeWhile_less [of _ "rev s", simplified] substr_0 butlast_take)
qed

lemma trim_left_Nil: "trim_left s d = [] \<longleftrightarrow> trim_right s d = []"
  by (simp add: trim_left_def trim_right_def)

lemma takeWhile_rev_trim:
  assumes "trim_left s d \<noteq> []"
  shows "takeWhile (\<lambda>x. x \<in> set d) (rev (trim_left s d)) = takeWhile (\<lambda>x. x \<in> set d) (rev s)"
proof -
  let ?P = "\<lambda>x. x \<in> set d"
  have "\<exists>x \<in> set (trim_left s d). \<not> ?P x"
    using assms hd_dropWhile [of ?P s] unfolding trim_left_def
    by (intro bexI [of _ "hd (dropWhile ?P s)"]) auto
  then have "takeWhile ?P (rev (trim_left s d) @ rev (takeWhile ?P s))
      = takeWhile ?P (rev (trim_left s d))"
    by (metis set_rev takeWhile_append1)
  then show ?thesis unfolding trim_left_def
    by (metis rev_append takeWhile_dropWhile_id)
qed

lemma Trim_eq: "Trim s d = trim_right (trim_left s d) d"
proof (cases "trim_left s d = []")
  case True
  then have "find_first_not_of d s = None"
    by (simp add: find_first_not_of_def length_takeWhile_less trim_left_def)
  with True show ?thesis by (simp add: Trim_def trim_right_def)
next
  case False
  let ?P = "\<lambda>x. x \<in> set d"
  let ?a = "length (takeWhile ?P s)" and ?b = "length (takeWhile ?P (rev s))"
  from False trim_left_Nil have r: "dropWhile ?P (rev s) \<noteq> []" by (auto simp: trim_right_def)
  have a: "?a < length s" using False by (simp add: length_takeWhile_less trim_left_def)
  have b: "?b < length s" using r length_takeWhile_less [of ?P "rev s"] by simp
  have len: "length (trim_left s d) = length s - ?a"
    by (simp add: trim_left_def dropWhile_eq_drop)
  have ba: "?b < length (trim_left s d)"
    using takeWhile_rev_trim [OF False] length_takeWhile_less [of ?P "rev (trim_left s d)"]
      False hd_dropWhile [of ?P s]
    by (metis dropWhile_eq_Nil_conv hd_in_set length_rev set_rev trim_left_def)
  have "Trim s d = take (length s - 1 - ?b - ?a + 1) (drop ?a s)"
    using a b by (simp add: Trim_def find_first_not_of_def find_last_not_of_def Let_def substr_def)
  moreover have "trim_right (trim_left s d) d = take (length s - ?a - ?b) (drop ?a s)"
    using takeWhile_rev_trim [OF False] len
    by (simp add: trim_right_def take_rev_dropWhile) (simp add: trim_left_def dropWhile_eq_drop)
  moreover have "length s - 1 - ?b - ?a + 1 = length s - ?a - ?b" using ba len a b by linarith
  ultimately show ?thesis by simp
qed

lemma Trim_id:
  assumes "s = [] \<or> (hd s \<notin> set d \<and> last s \<notin> set d)"
  shows "Trim s d = s"
proof (cases s)
  case (Cons x xs)
  with assms have "trim_left s d = s" by (simp add: trim_left_def)
  moreover have "trim_right s d = s"
  proof -
    from assms Cons have "rev s \<noteq> []" "hd (rev s) \<notin> set d"
      by (simp_all only: hd_rev) auto
    then have "dropWhile (\<lambda>x. x \<in> set d) (rev s) = rev s" by (cases "rev s") auto
    then show ?thesis by (simp add: trim_right_def)
  qed
  ultimately show ?thesis by (simp add: Trim_eq)
qed (simp add: Trim_def find_first_not_of_def)

subsection \<open>Paths\<close>

lemma rfind_Some:
  "rfind c s = Some p \<Longrightarrow> p < length s \<and> s ! p = c \<and> c \<notin> set (drop (Suc p) s)"
proof -
  let ?k = "length (takeWhile (\<lambda>x. x \<noteq> c) (rev s))"
  assume "rfind c s = Some p"
  then have k: "?k < length s" and p: "p = length s - 1 - ?k"
    by (auto simp: rfind_def Let_def split: if_splits)
  have "rev s ! ?k = c" using nth_length_takeWhile [of "\<lambda>x. x \<noteq> c" "rev s"] k by simp
  then have 1: "s ! p = c" using k p by (simp add: rev_nth)
  have "Suc p = length s - ?k" using k p by linarith
  then have "drop (Suc p) s = rev (take ?k (rev s))" by (simp add: take_rev)
  also have "\<dots> = rev (takeWhile (\<lambda>x. x \<noteq> c) (rev s))" by (metis takeWhile_eq_take)
  finally have "c \<notin> set (drop (Suc p) s)" using set_takeWhileD by fastforce
  with 1 k p show ?thesis by simp
qed

lemma rfind_None: "rfind c s = None \<longleftrightarrow> c \<notin> set s"
proof -
  have "rfind c s = None \<longleftrightarrow> \<not> length (takeWhile (\<lambda>x. x \<noteq> c) (rev s)) < length (rev s)"
    by (simp add: rfind_def Let_def)
  then show ?thesis unfolding length_takeWhile_less by auto
qed

lemma Basename_no_slash: "CHR ''/'' \<notin> set (Basename s)"
proof (cases "rfind (CHR ''/'') s")
  case None
  from None have "CHR ''/'' \<notin> set s" by (simp only: rfind_None not_False_eq_True)
  moreover have "Basename s = s" by (simp add: Basename_def None)
  ultimately show ?thesis by simp
next
  case (Some p)
  then show ?thesis using rfind_Some [OF Some] by (auto simp: Basename_def substr_def)
qed

lemma path_split:
  assumes "CHR ''/'' \<in> set s"
  shows "s = (if rfind (CHR ''/'') s = Some 0 then ''/'' else Dirname s @ ''/'') @ Basename s"
proof -
  from assms obtain p where p: "rfind (CHR ''/'') s = Some p"
    using rfind_None [of "CHR ''/''" s] by auto
  note f = rfind_Some [OF p]
  have s: "s = take p s @ CHR ''/'' # drop (Suc p) s" using f by (metis id_take_nth_drop)
  have "s \<noteq> []" using assms by auto
  with p s show ?thesis by (cases "p = 0") (simp_all add: Dirname_def Basename_def substr_def)
qed

subsection \<open>Slicing\<close>

lemma map_nth_offset: "p + n \<le> length xs \<Longrightarrow> map (\<lambda>i. xs ! (p + i)) [0..<n] = take n (drop p xs)"
  by (rule nth_equalityI) simp_all

text \<open>The slices of a list: pieces of the given size, the last one may be shorter.\<close>

fun slices :: "nat \<Rightarrow> 'a list \<Rightarrow> 'a list list" where
  "slices n xs = (if n = 0 \<or> xs = [] then []
     else if length xs \<le> n then [xs] else take n xs # slices n (drop n xs))"

declare slices.simps [simp del]

lemma slice_loop_eq:
  assumes "0 < n" and "p + left = length src"
  shows "slice_loop src n p left dst = Some (dst @ slices n (drop p src))"
  using assms(2)
proof (induction left arbitrary: p dst rule: less_induct)
  case (less left)
  show ?case
  proof (cases "n < left")
    case True
    with less.prems have "map (\<lambda>i. src ! (p + i)) [0..<n] = take n (drop p src)"
      by (intro map_nth_offset) simp
    moreover have "left - n < left" using assms(1) True by simp
    moreover have "p + n + (left - n) = length src" using less.prems True by simp
    ultimately have "slice_loop src n p left dst
        = Some ((dst @ [take n (drop p src)]) @ slices n (drop (p + n) src))"
      using True less.IH [of "left - n" "p + n"] by (subst slice_loop.simps) simp
    moreover have "drop p src \<noteq> []" "\<not> length (drop p src) \<le> n" using less.prems True by auto
    ultimately show ?thesis using assms(1) True less.prems
      by (subst slices.simps) (simp add: add.commute)
  next
    case False
    show ?thesis
    proof (cases "left = 0")
      case True
      with less.prems show ?thesis by (subst slice_loop.simps) (simp add: slices.simps)
    next
      case left: False
      have "map (\<lambda>i. src ! (p + i)) [0..<left] = drop p src"
        using less.prems map_nth_offset [of p left src] by simp
      then show ?thesis using False left less.prems assms(1)
        by (subst slice_loop.simps, subst slices.simps) auto
    qed
  qed
qed

lemma slice_loop_diverges:
  assumes "slice_loop src 0 p left dst = Some r" shows "left = 0"
proof -
  have "0 = (0 :: nat) \<longrightarrow> left = 0"
    by (rule slice_loop.raw_induct [where P = "\<lambda>src sz p left dst r. sz = 0 \<longrightarrow> left = 0",
        OF _ assms]) (fastforce split: if_splits)
  then show ?thesis by simp
qed

lemma concat_slices: "0 < n \<Longrightarrow> concat (slices n xs) = xs"
  by (induction n xs rule: slices.induct) (subst slices.simps, simp)

lemma slices_lengths:
  "0 < n \<Longrightarrow> i < length (slices n xs) \<Longrightarrow>
    length (slices n xs ! i) = (if Suc i < length (slices n xs) then n else (length xs - 1) mod n + 1)"
proof (induction n xs arbitrary: i rule: slices.induct)
  case (1 n xs)
  show ?case
  proof (cases "xs = [] \<or> length xs \<le> n")
    case True
    with 1 show ?thesis by (subst (asm) (2) slices.simps, subst (1 2) slices.simps)
      (auto split: if_splits)
  next
    case False
    then have e: "slices n xs = take n xs # slices n (drop n xs)"
      using "1.prems"(1) by (subst slices.simps) auto
    have ne: "slices n (drop n xs) \<noteq> []"
      using False "1.prems"(1) by (subst slices.simps) auto
    have m: "(length xs - 1) mod n = (length xs - n - 1) mod n"
      using False by (metis diff_commute diff_is_0_eq' le_mod_geq leI less_imp_le nat_le_linear
          le_diff_conv2 add.commute add_le_imp_le_diff Suc_le_eq Suc_eq_plus1 not_less_eq_eq)
    show ?thesis
    proof (cases i)
      case 0
      with e ne False show ?thesis by simp
    next
      case (Suc j)
      with 1 False e m show ?thesis by (simp split: if_splits)
    qed
  qed
qed

subsection \<open>Binary search\<close>

lemma search_loop_correct:
  assumes "sorted arr" and "length arr < 2 ^ 30"
    and "0 \<le> b" and "e < int (length arr)" and "b \<le> e + 1"
    and "\<And>i. i < nat b \<Longrightarrow> arr ! i < v"
    and "\<And>i. i < length arr \<Longrightarrow> e < int i \<Longrightarrow> v < arr ! i"
  shows "\<exists>r. search_loop arr v b e = Inr r \<and>
    (if 0 \<le> r then nat r < length arr \<and> arr ! nat r = v
     else nat (- r - 1) \<le> length arr \<and> (\<forall>x \<in> set (take (nat (- r - 1)) arr). x < v) \<and>
       (\<forall>x \<in> set (drop (nat (- r - 1)) arr). v < x))"
  using assms(3-7)
proof (induction "nat (e - b + 1)" arbitrary: b e rule: less_induct)
  case less
  note b0 = less.prems(1) and e1 = less.prems(2) and be = less.prems(3)
  note lo = less.prems(4) and hi = less.prems(5)
  have mono: "arr ! i \<le> arr ! j" if "i \<le> j" "j < length arr" for i j
    using sorted_nth_mono [OF assms(1) that] .
  show ?case
  proof (cases "b \<le> e")
    case False
    with be have b: "b = e + 1" by simp
    with False have r: "search_loop arr v b e = Inr (- b - 1)" by simp
    have "- (- b - 1) - 1 = b" by simp
    moreover have "\<forall>x \<in> set (take (nat b) arr). x < v"
      using lo by (auto simp: in_set_conv_nth)
    moreover have "\<forall>x \<in> set (drop (nat b) arr). v < x"
      using hi b b0 by (auto simp: in_set_conv_nth)
    moreover have "nat b \<le> length arr" "\<not> 0 \<le> - b - 1" using b b0 e1 by simp_all
    ultimately show ?thesis using r by (simp del: search_loop.simps)
  next
    case True
    define m where "m = (b + e) div 2"
    have m: "b \<le> m" "m \<le> e" using True by (auto simp: m_def)
    have ov: "b + e < 2 ^ 31" using True e1 assms(2) by simp
    have ix: "0 \<le> m" "m < int (length arr)" "nat m < length arr" using m b0 e1 by simp_all
    have step: "search_loop arr v b e =
        (if v < arr ! nat m then search_loop arr v b (m - 1)
         else if arr ! nat m < v then search_loop arr v (m + 1) e else Inr m)"
      using True ov ix(1,2) by (subst search_loop.simps) (simp add: m_def)
    consider (left) "v < arr ! nat m" | (right) "arr ! nat m < v" | (found) "arr ! nat m = v"
      by fastforce
    then show ?thesis
    proof cases
      case left
      have "v < arr ! i" if "i < length arr" "m - 1 < int i" for i
        using left mono [of "nat m" i] that by fastforce
      then show ?thesis
        using less.hyps [of "m - 1" b] m b0 ix lo left by (simp add: step del: search_loop.simps)
    next
      case right
      have "arr ! i < v" if "i < nat (m + 1)" for i
        using right mono [of i "nat m"] that ix by fastforce
      then show ?thesis
        using less.hyps [of e "m + 1"] m b0 e1 hi right less_not_sym [OF right]
        by (simp add: step del: search_loop.simps)
    next
      case found
      with ix show ?thesis by (simp add: step del: search_loop.simps)
    qed
  qed
qed

subsection \<open>The properties\<close>

text \<open>URL coding is reversible: a string of any bytes is decoded to itself, also when only the
  decoder reads a plus sign as a space; the coded string has at most three times the length and
  holds no character but the unreserved ones, the percent sign and the plus sign.\<close>

theorem url_round_trip:
  "UrlDecode (UrlEncode s p) p = s \<and> UrlDecode (UrlEncode s False) True = s
   \<and> list_all url_char (UrlEncode s p) \<and> length (UrlEncode s p) \<le> 3 * length s"
  by (simp add: UrlDecode_eq encode_safe encode_length)
    (simp add: UrlEncode_eq dec_concat)

text \<open>Trimming removes exactly the delimiters at the ends of a string, except that trimming
  on the right also drops the last character that is kept by the reference.\<close>

theorem trim_against_reference:
  "Trim s d = trim_right (trim_left s d) d \<and> TrimLeft s d = trim_left s d
   \<and> TrimRight s d = butlast (trim_right s d)"
  by (simp add: Trim_eq TrimLeft_eq TrimRight_eq)

text \<open>Slicing ends for every slice size but 0 and appends the source, cut into slices of
  the size, the last of which may be shorter; with size 0 it ends for the empty source only.\<close>

theorem slice_correct:
  assumes "0 < n"
  shows "\<exists>ds. Slice dst src n = Some (dst @ ds) \<and> concat ds = src
      \<and> map length ds = map (\<lambda>i. if Suc i < length ds then n else (length src - 1) mod n + 1)
          [0..<length ds]
      \<and> (Slice dst src 0 = None \<longleftrightarrow> src \<noteq> [])"
proof -
  have "Slice dst src n = Some (dst @ slices n src)"
    using slice_loop_eq [OF assms, of 0 "length src" src] by (simp add: Slice_def)
  moreover have "map length (slices n src) = map (\<lambda>i. if Suc i < length (slices n src) then n
      else (length src - 1) mod n + 1) [0..<length (slices n src)]"
    by (rule nth_equalityI) (simp_all add: slices_lengths [OF assms])
  moreover have "Slice dst src 0 = None \<longleftrightarrow> src \<noteq> []"
  proof
    assume "Slice dst src 0 = None"
    moreover have "slice_loop [] 0 0 0 dst = Some dst" by (subst slice_loop.simps) simp
    ultimately show "src \<noteq> []" by (auto simp: Slice_def)
  next
    assume "src \<noteq> []"
    show "Slice dst src 0 = None"
    proof (rule ccontr)
      assume "Slice dst src 0 \<noteq> None"
      then obtain r where "slice_loop src 0 0 (length src) dst = Some r"
        unfolding Slice_def by blast
      from slice_loop_diverges [OF this] \<open>src \<noteq> []\<close> show False by simp
    qed
  qed
  ultimately show ?thesis using concat_slices [OF assms, of src]
    by (intro exI [of _ "slices n src"] conjI)
qed

theorem slice_correct_witness:
  "\<exists>ds. Slice [] [11, 12, 13 :: nat] 2 = Some ([] @ ds) \<and> concat ds = [11, 12, 13]"
proof -
  have "(0 :: nat) < 2" by simp
  from slice_correct [OF this, of "[]" "[11, 12, 13 :: nat]"] show ?thesis by blast
qed

text \<open>Binary search in a sorted array of fewer than 2 to the 30 elements reads inside the array,
  does not overflow and ends: an answer that is not negative is the position of the value, and
  otherwise its position in the array with the value inserted is encoded in the answer.\<close>

theorem binary_search_correct:
  assumes "sorted arr" and "length arr < 2 ^ 30"
  shows "\<exists>r. BinarySearch arr v = Inr r \<and>
    (if 0 \<le> r then nat r < length arr \<and> arr ! nat r = v
     else nat (- r - 1) \<le> length arr \<and> (\<forall>x \<in> set (take (nat (- r - 1)) arr). x < v) \<and>
       (\<forall>x \<in> set (drop (nat (- r - 1)) arr). v < x))"
  unfolding BinarySearch_def by (rule search_loop_correct [OF assms]) simp_all

theorem binary_search_correct_witness:
  "\<exists>r. BinarySearch [11, 12, 17 :: nat] 13 = Inr r \<and> r < 0 \<and> nat (- r - 1) \<le> 3"
proof -
  have s: "sorted [11, 12, 17 :: nat]" and l: "length [11, 12, 17 :: nat] < 2 ^ 30"
    by simp_all
  from binary_search_correct [OF s l, of 13] obtain r
    where r: "BinarySearch [11, 12, 17 :: nat] 13 = Inr r"
      and c: "if 0 \<le> r then nat r < length [11, 12, 17 :: nat] \<and> [11, 12, 17 :: nat] ! nat r = 13
        else nat (- r - 1) \<le> length [11, 12, 17 :: nat]
          \<and> (\<forall>x \<in> set (take (nat (- r - 1)) [11, 12, 17 :: nat]). x < 13)
          \<and> (\<forall>x \<in> set (drop (nat (- r - 1)) [11, 12, 17 :: nat]). 13 < x)" by blast
  have "\<not> 0 \<le> r"
  proof
    assume "0 \<le> r"
    with c have n: "nat r < 3" "[11, 12, 17 :: nat] ! nat r = 13" by simp_all
    then have "nat r = 0 \<or> nat r = 1 \<or> nat r = 2" by linarith
    with n(2) show False by auto
  qed
  with r c show ?thesis by simp
qed

end
