(* ===== verification/Fiber.thy ===== *)
theory Fiber
  imports Prelude
begin

text \<open>
  Fibers (\<open>src/sylar/fiber.cc\<close>, \<open>fiber.h\<close>). Fibers are objects on the heap, named by their
  addresses; the variables declared \<open>thread_local\<close> are functions of the thread. A saved context
  (\<open>coctx\<close>, written by the assembly of the context switch) is the place where execution goes on:
  the entry of \<open>Fiber::run\<close>, the statement after the last \<open>yield\<close> of \<open>Fiber::run\<close>, or some place
  \<open>'k\<close> in the code that switched away. The stack itself and logging are not modelled.
\<close>

section \<open>Model\<close>

datatype fiber_state = INIT | HOLD | EXEC | TERMINATED | READY | EXCEPT

datatype 'k coctx = Entry | NeverReach | Place 'k

record ('cb, 'k) Fiber =
  use_caller :: bool
  m_id :: "64 word"
  m_stacksize :: "32 word"
  m_state :: fiber_state
  m_ctx :: "'k coctx option"
  m_stack :: bool
  fiber_cb :: "'cb option"

text \<open>
  All fibers of the process, its two counters, the three variables of each thread, and the place
  each thread executes.
\<close>

record ('cb, 'k) fibers =
  fiber_heap :: "nat \<Rightarrow> ('cb, 'k) Fiber option"
  s_fiber_id :: "64 word"
  s_fiber_count :: "64 word"
  t_fiber :: "nat \<Rightarrow> nat option"
  t_threadFiber :: "nat \<Rightarrow> nat option"
  t_scheduler_fiber :: "nat \<Rightarrow> nat option"
  executes :: "nat \<Rightarrow> 'k coctx"

datatype fiber_error = BadFiber | FiberAssert | NullFiber | BadContext | NeverReached

definition fiber_at :: "nat \<Rightarrow> ('cb, 'k) fibers \<Rightarrow> fiber_error + ('cb, 'k) Fiber" where
  "fiber_at f st = optE BadFiber (fiber_heap st f)"

definition set_fiber :: "nat \<Rightarrow> ('cb, 'k) Fiber \<Rightarrow> ('cb, 'k) fibers \<Rightarrow> ('cb, 'k) fibers" where
  "set_fiber f x st = st\<lparr>fiber_heap := (fiber_heap st)(f \<mapsto> x)\<rparr>"

text \<open>The state of a fiber is public: the scheduler writes it too.\<close>

definition set_state :: "nat \<Rightarrow> fiber_state \<Rightarrow> ('cb, 'k) fibers \<Rightarrow> fiber_error + ('cb, 'k) fibers" where
  "set_state f s st = bindE (fiber_at f st) (\<lambda>x. Inr (set_fiber f (x\<lparr>m_state := s\<rparr>) st))"

definition getState :: "nat \<Rightarrow> ('cb, 'k) fibers \<Rightarrow> fiber_error + fiber_state" where
  "getState f st = bindE (fiber_at f st) (\<lambda>x. Inr (m_state x))"

section \<open>Operations\<close>

definition SetThis :: "nat \<Rightarrow> nat option \<Rightarrow> ('cb, 'k) fibers \<Rightarrow> ('cb, 'k) fibers" where
  "SetThis t f st = st\<lparr>t_fiber := (t_fiber st)(t := f)\<rparr>"

text \<open>\<open>Fiber()\<close>, the fiber that stands for the stack a thread already has.\<close>

definition Fiber_main :: "nat \<Rightarrow> ('cb, 'k) fibers \<Rightarrow> ('cb, 'k) fibers" where
  "Fiber_main a st =
     set_fiber a \<lparr>use_caller = False, m_id = 0, m_stacksize = 0, m_state = EXEC, m_ctx = None,
       m_stack = False, fiber_cb = None\<rparr> (st\<lparr>s_fiber_count := s_fiber_count st + 1\<rparr>)"

text \<open>\<open>GetThis\<close>; \<open>a\<close> is the address of the fiber it may have to make.\<close>

definition GetThis :: "nat \<Rightarrow> nat \<Rightarrow> ('cb, 'k) fibers \<Rightarrow> fiber_error + nat \<times> ('cb, 'k) fibers" where
  "GetThis t a st =
     (case t_fiber st t of
        Some f \<Rightarrow> bindE (fiber_at f st) (\<lambda>_. Inr (f, st))
      | None \<Rightarrow>
          let st1 = SetThis t (Some a) (Fiber_main a st)
          in Inr (a, st1\<lparr>t_threadFiber := (t_threadFiber st1)(t \<mapsto> a)\<rparr>))"

text \<open>
  \<open>Fiber(cb, stacksize, use_caller)\<close>, run by thread \<open>t\<close>; \<open>stack_size\<close> is the configured size.
\<close>

definition Fiber_new :: "64 word \<Rightarrow> nat \<Rightarrow> nat \<Rightarrow> 'cb option \<Rightarrow> 64 word \<Rightarrow> bool \<Rightarrow> ('cb, 'k) fibers \<Rightarrow> ('cb, 'k) fibers" where
  "Fiber_new stack_size t a cb stacksize caller st =
     (let id = s_fiber_id st + 1;
          st1 = SetThis t (Some a) (st\<lparr>s_fiber_id := id\<rparr>);
          st2 = st1\<lparr>s_fiber_count := s_fiber_count st1 + 1\<rparr>
      in set_fiber a \<lparr>use_caller = caller, m_id = id,
           m_stacksize = ucast (if stacksize \<noteq> 0 then stacksize else stack_size),
           m_state = INIT, m_ctx = Some Entry, m_stack = True, fiber_cb = cb\<rparr> st2)"

text \<open>\<open>~Fiber\<close>, run by thread \<open>t\<close>.\<close>

definition Fiber_destroy :: "nat \<Rightarrow> nat \<Rightarrow> ('cb, 'k) fibers \<Rightarrow> fiber_error + ('cb, 'k) fibers" where
  "Fiber_destroy t f st =
     bindE (fiber_at f st) (\<lambda>x.
     let st1 = SetThis t (Some f) st;
         st2 = st1\<lparr>s_fiber_count := s_fiber_count st1 - 1\<rparr>
     in
     bindE (if m_stack x then
              bindE (guardE FiberAssert (m_state x = TERMINATED \<or> m_state x = EXCEPT \<or> m_state x = INIT)) (\<lambda>_.
              Inr st2)
            else
              bindE (guardE FiberAssert (fiber_cb x = None)) (\<lambda>_.
              bindE (guardE FiberAssert (m_state x = EXEC)) (\<lambda>_.
              Inr (if t_fiber st2 t = Some f then SetThis t None st2 else st2)))) (\<lambda>st3.
     Inr (st3\<lparr>fiber_heap := (fiber_heap st3)(f := None)\<rparr>)))"

definition Fiber_reset :: "nat \<Rightarrow> 'cb option \<Rightarrow> ('cb, 'k) fibers \<Rightarrow> fiber_error + ('cb, 'k) fibers" where
  "Fiber_reset f cb st =
     bindE (fiber_at f st) (\<lambda>x.
     bindE (guardE FiberAssert (m_stack x)) (\<lambda>_.
     bindE (guardE FiberAssert (m_state x = TERMINATED \<or> m_state x = EXCEPT \<or> m_state x = INIT)) (\<lambda>_.
     Inr (set_fiber f (x\<lparr>fiber_cb := cb, m_ctx := Some Entry, m_state := INIT\<rparr>) st))))"

text \<open>
  \<open>coctx_swap(from, to)\<close> by thread \<open>t\<close> from the place \<open>k\<close>: \<open>k\<close> is saved in \<open>from\<close>, and execution
  goes on where \<open>to\<close> was saved.
\<close>

definition coctx_swap :: "nat \<Rightarrow> 'k coctx \<Rightarrow> nat \<Rightarrow> nat \<Rightarrow> ('cb, 'k) fibers \<Rightarrow> fiber_error + ('cb, 'k) fibers" where
  "coctx_swap t k from to st =
     bindE (fiber_at from st) (\<lambda>x.
     let st1 = set_fiber from (x\<lparr>m_ctx := Some k\<rparr>) st in
     bindE (fiber_at to st1) (\<lambda>y.
     bindE (optE BadContext (m_ctx y)) (\<lambda>c.
     Inr (st1\<lparr>executes := (executes st1)(t := c)\<rparr>))))"

text \<open>The fiber that \<open>resume\<close> leaves and \<open>yield\<close> goes back to.\<close>

definition resumer :: "nat \<Rightarrow> ('cb, 'k) Fiber \<Rightarrow> ('cb, 'k) fibers \<Rightarrow> nat option" where
  "resumer t x st = (if use_caller x then t_scheduler_fiber st t else t_threadFiber st t)"

definition Fiber_resume :: "nat \<Rightarrow> 'k coctx \<Rightarrow> nat \<Rightarrow> ('cb, 'k) fibers \<Rightarrow> fiber_error + ('cb, 'k) fibers" where
  "Fiber_resume t k f st =
     (let st1 = SetThis t (Some f) st in
      bindE (fiber_at f st1) (\<lambda>x.
      bindE (guardE FiberAssert (m_state x \<noteq> EXEC)) (\<lambda>_.
      let st2 = set_fiber f (x\<lparr>m_state := EXEC\<rparr>) st1 in
      bindE (optE NullFiber (resumer t x st2)) (\<lambda>m.
      coctx_swap t k m f st2))))"

text \<open>\<open>yield\<close>: the change of state and the switch are one step; in the code another thread may see
  the state \<open>READY\<close> before the registers are saved.\<close>

definition Fiber_yield :: "nat \<Rightarrow> 'k coctx \<Rightarrow> nat \<Rightarrow> ('cb, 'k) fibers \<Rightarrow> fiber_error + ('cb, 'k) fibers" where
  "Fiber_yield t k f st =
     bindE (fiber_at f st) (\<lambda>x.
     if use_caller x then
       let m = t_scheduler_fiber st t; st1 = SetThis t m st in
       bindE (optE NullFiber m) (\<lambda>m.
       coctx_swap t k f m st1)
     else
       let m = t_threadFiber st t; st1 = SetThis t m st;
           st2 = (if m_state x \<noteq> TERMINATED then set_fiber f (x\<lparr>m_state := READY\<rparr>) st1 else st1) in
       bindE (optE NullFiber m) (\<lambda>m.
       coctx_swap t k f m st2))"

text \<open>
  \<open>Fiber::run\<close>, in the parts between which the callback executes. \<open>Fiber_enter\<close>: the fiber
  whose callback is called; calling an empty one throws. \<open>Fiber_return\<close> and \<open>Fiber_throw\<close>: the
  callback of \<open>f\<close> returned or threw. \<open>Fiber_again\<close>: the last \<open>yield\<close> came back.
  (The state \<open>TERM\<close> of the source is called \<open>TERMINATED\<close> here.)
\<close>

definition Fiber_enter :: "nat \<Rightarrow> nat \<Rightarrow> ('cb, 'k) fibers \<Rightarrow> fiber_error + (nat \<times> 'cb option) \<times> ('cb, 'k) fibers" where
  "Fiber_enter t a st =
     bindE (GetThis t a st) (\<lambda>(f, st1).
     bindE (fiber_at f st1) (\<lambda>x.
     Inr ((f, fiber_cb x), st1)))"

definition Fiber_return :: "nat \<Rightarrow> nat \<Rightarrow> ('cb, 'k) fibers \<Rightarrow> fiber_error + ('cb, 'k) fibers" where
  "Fiber_return t f st =
     bindE (fiber_at f st) (\<lambda>x.
     Fiber_yield t NeverReach f (set_fiber f (x\<lparr>fiber_cb := None, m_state := TERMINATED\<rparr>) st))"

definition Fiber_throw :: "nat \<Rightarrow> nat \<Rightarrow> ('cb, 'k) fibers \<Rightarrow> fiber_error + ('cb, 'k) fibers" where
  "Fiber_throw t f st =
     bindE (fiber_at f st) (\<lambda>x.
     Fiber_yield t NeverReach f (set_fiber f (x\<lparr>m_state := EXCEPT\<rparr>) st))"

definition Fiber_again :: "nat \<Rightarrow> ('cb, 'k) fibers \<Rightarrow> fiber_error + ('cb, 'k) fibers" where
  "Fiber_again t st = bindE (guardE NeverReached (executes st t \<noteq> NeverReach)) (\<lambda>_. Inr st)"

definition GetFiberId :: "nat \<Rightarrow> ('cb, 'k) fibers \<Rightarrow> fiber_error + 64 word" where
  "GetFiberId t st =
     (case t_fiber st t of
        Some f \<Rightarrow> bindE (fiber_at f st) (\<lambda>x. Inr (m_id x))
      | None \<Rightarrow> Inr 0)"

definition TotalFibers :: "('cb, 'k) fibers \<Rightarrow> 64 word" where
  "TotalFibers st = s_fiber_count st"

end
