(* ===== verification/Scheduler.thy ===== *)
theory Scheduler
  imports Fiber
begin

text \<open>
  The fiber scheduler (\<open>src/sylar/scheduler.cc\<close>, \<open>scheduler.h\<close>): a queue of tasks that any number of
  threads take from, each in the loop \<open>Scheduler::run\<close>. A thread's activation of \<open>run\<close> is a frame
  with its local variables and the place it has reached; the parts of the loop between which other
  threads can act (the part under the lock, the counters, the switch to a fiber, what follows it)
  are separate steps. Threads are natural numbers; creating and joining them is left out.
\<close>

section \<open>Model\<close>

text \<open>What a fiber runs: \<open>run\<close> or \<open>idle\<close> of the scheduler, or a function of the user.\<close>

datatype 'cb job = Scheduler_run | Scheduler_idle | Job 'cb

text \<open>
  A place in the code: in the loop \<open>run\<close>, in the function \<open>stop\<close> that waits for the root fiber, or in
  the function that the fiber with the given address runs.
\<close>

datatype 'k place = RunLoop | StopCaller | Code nat 'k

record 'cb FiberAndThread =
  ft_fiber :: "nat option"
  ft_cb :: "'cb job option"
  ft_thread :: int

record 'cb Scheduler =
  m_fibers :: "'cb FiberAndThread list"
  m_rootFiber :: "nat option"
  m_threadIds :: "int list"
  m_threadCount :: "64 word"
  m_activeThreadCount :: "64 word"
  m_idleThreadCount :: "64 word"
  m_stopping :: bool
  m_autoStop :: bool
  m_rootThread :: int

text \<open>The places of the loop where other threads can act, and its local variables.\<close>

datatype run_pc = AtTop | Picked | InFiber | AfterFiber | InCb | AfterCb | InIdle | AfterIdle | Exited

record 'cb frame =
  pc :: run_pc
  ft :: "'cb FiberAndThread"
  is_active :: bool
  cb_fiber :: "nat option"
  idle_fiber :: nat

record ('cb, 'k) system =
  fibs :: "('cb job, 'k place) fibers"
  sched :: "'cb Scheduler"
  frames :: "nat \<Rightarrow> 'cb frame option"

definition no_task :: "'cb FiberAndThread" where
  "no_task = \<lparr>ft_fiber = None, ft_cb = None, ft_thread = -1\<rparr>"

definition fiber_task :: "nat \<Rightarrow> int \<Rightarrow> 'cb FiberAndThread" where
  "fiber_task f thr = \<lparr>ft_fiber = Some f, ft_cb = None, ft_thread = thr\<rparr>"

definition cb_task :: "'cb job \<Rightarrow> int \<Rightarrow> 'cb FiberAndThread" where
  "cb_task cb thr = \<lparr>ft_fiber = None, ft_cb = Some cb, ft_thread = thr\<rparr>"

section \<open>The queue\<close>

text \<open>\<open>scheduleNoLock\<close>: whether to wake a thread, and the new state.\<close>

definition scheduleNoLock :: "'cb FiberAndThread \<Rightarrow> 'cb Scheduler \<Rightarrow> bool \<times> 'cb Scheduler" where
  "scheduleNoLock x sc =
     (m_fibers sc = [],
      if ft_fiber x \<noteq> None \<or> ft_cb x \<noteq> None then sc\<lparr>m_fibers := m_fibers sc @ [x]\<rparr> else sc)"

text \<open>\<open>schedule(fc, thread)\<close> and \<open>schedule(begin, end)\<close>; the result says whether \<open>tickle\<close> is called.\<close>

definition schedule :: "'cb FiberAndThread \<Rightarrow> 'cb Scheduler \<Rightarrow> bool \<times> 'cb Scheduler" where
  "schedule x sc = scheduleNoLock x sc"

fun schedule_all :: "'cb FiberAndThread list \<Rightarrow> bool \<Rightarrow> 'cb Scheduler \<Rightarrow> bool \<times> 'cb Scheduler" where
  "schedule_all [] need_tickle sc = (need_tickle, sc)"
| "schedule_all (x # xs) need_tickle sc =
     (let (b, sc1) = scheduleNoLock x sc in schedule_all xs (b \<or> need_tickle) sc1)"

definition hasIdleThreads :: "'cb Scheduler \<Rightarrow> bool" where
  "hasIdleThreads sc \<longleftrightarrow> m_idleThreadCount sc > 0"

text \<open>\<open>Scheduler::stopping\<close>.\<close>

definition stopping :: "'cb Scheduler \<Rightarrow> bool" where
  "stopping sc \<longleftrightarrow> m_autoStop sc \<and> m_stopping sc \<and> m_fibers sc = [] \<and> m_activeThreadCount sc = 0"

text \<open>
  The search of \<open>run\<close> through the queue: \<open>me\<close> is the id of the thread, \<open>state\<close> the state of each
  fiber, \<open>before\<close> what was passed over. The result is the task found, \<open>tickle_me\<close>, and the queue.
\<close>

fun find_task ::
  "int \<Rightarrow> (nat \<Rightarrow> fiber_state) \<Rightarrow> bool \<Rightarrow> 'cb FiberAndThread list \<Rightarrow> 'cb FiberAndThread list
    \<Rightarrow> fiber_error + 'cb FiberAndThread option \<times> bool \<times> 'cb FiberAndThread list" where
  "find_task me state tickle_me before [] = Inr (None, tickle_me, before)"
| "find_task me state tickle_me before (x # xs) =
     (if ft_thread x \<noteq> -1 \<and> ft_thread x \<noteq> me then find_task me state True (before @ [x]) xs
      else
        bindE (guardE FiberAssert (ft_fiber x \<noteq> None \<or> ft_cb x \<noteq> None)) (\<lambda>_.
        if ft_fiber x \<noteq> None \<and> state (the (ft_fiber x)) = EXEC
        then find_task me state tickle_me (before @ [x]) xs
        else Inr (Some x, tickle_me \<or> xs \<noteq> [], before @ xs)))"

section \<open>Construction, start and stop\<close>

text \<open>
  \<open>Scheduler(threads, use_caller)\<close>, run by thread \<open>t\<close>; \<open>a\<close> and \<open>b\<close> are the addresses of the fibers
  it may make, \<open>stack_size\<close> the configured size of a stack.
\<close>

definition Scheduler_new ::
  "64 word \<Rightarrow> nat \<Rightarrow> nat \<Rightarrow> nat \<Rightarrow> 64 word \<Rightarrow> bool \<Rightarrow> ('cb job, 'k place) fibers
    \<Rightarrow> fiber_error + 'cb Scheduler \<times> ('cb job, 'k place) fibers" where
  "Scheduler_new stack_size t a b threads caller fs =
     bindE (guardE FiberAssert (threads > 0)) (\<lambda>_.
     let sc = \<lparr>m_fibers = [], m_rootFiber = None, m_threadIds = [], m_threadCount = threads,
                m_activeThreadCount = 0, m_idleThreadCount = 0, m_stopping = True, m_autoStop = False,
                m_rootThread = -1\<rparr> in
     if caller then
       bindE (GetThis t a fs) (\<lambda>(_, fs1).
       let fs2 = Fiber_new stack_size t b (Some Scheduler_run) 0 False fs1;
           fs3 = fs2\<lparr>t_scheduler_fiber := (t_scheduler_fiber fs2)(t \<mapsto> b)\<rparr>
       in Inr (sc\<lparr>m_rootFiber := Some b, m_rootThread := int t, m_threadIds := [int t],
                  m_threadCount := threads - 1\<rparr>, fs3))
     else Inr (sc, fs))"

text \<open>\<open>start\<close>: \<open>ids\<close> are the ids of the threads made.\<close>

definition start :: "int list \<Rightarrow> 'cb Scheduler \<Rightarrow> 'cb Scheduler" where
  "start ids sc =
     (if \<not> m_stopping sc then sc
      else sc\<lparr>m_stopping := False, m_threadIds := m_threadIds sc @ ids\<rparr>)"

text \<open>
  \<open>stop\<close>, run by thread \<open>t\<close>, up to the point where it waits for the threads: the result says whether
  it returned at once. Where the root fiber is resumed, the thread goes on in it. \<open>here\<close>: the
  scheduler of the calling thread is this one.
\<close>

definition stop :: "bool \<Rightarrow> nat \<Rightarrow> ('cb, 'k) system \<Rightarrow> fiber_error + bool \<times> ('cb, 'k) system" where
  "stop here t s =
     (let sc1 = (sched s)\<lparr>m_autoStop := True\<rparr> in
      bindE (case m_rootFiber sc1 of
               None \<Rightarrow> Inr False
             | Some r \<Rightarrow> bindE (getState r (fibs s)) (\<lambda>rs.
                 Inr (m_threadCount sc1 = 0 \<and> (rs = TERMINATED \<or> rs = INIT)))) (\<lambda>finished.
      let sc2 = (if finished then sc1\<lparr>m_stopping := True\<rparr> else sc1) in
      if finished \<and> stopping sc2 then Inr (True, s\<lparr>sched := sc2\<rparr>)
      else
        bindE (guardE FiberAssert (if m_rootThread sc2 \<noteq> -1 then here else \<not> here)) (\<lambda>_.
        let sc3 = sc2\<lparr>m_stopping := True\<rparr> in
        case m_rootFiber sc3 of
          None \<Rightarrow> Inr (False, s\<lparr>sched := sc3\<rparr>)
        | Some r \<Rightarrow>
            if stopping sc3 then Inr (False, s\<lparr>sched := sc3\<rparr>)
            else bindE (Fiber_resume t (Place StopCaller) r (fibs s)) (\<lambda>fs.
                 Inr (False, s\<lparr>sched := sc3, fibs := fs\<rparr>)))))"

section \<open>The loop\<close>

definition set_frame :: "nat \<Rightarrow> 'cb frame \<Rightarrow> ('cb, 'k) system \<Rightarrow> ('cb, 'k) system" where
  "set_frame t fr s = s\<lparr>frames := (frames s)(t \<mapsto> fr)\<rparr>"

definition state_in :: "('cb, 'k) fibers \<Rightarrow> nat \<Rightarrow> fiber_state" where
  "state_in fs f = (case fiber_heap fs f of None \<Rightarrow> TERMINATED | Some x \<Rightarrow> m_state x)"

text \<open>
  The beginning of \<open>run\<close> by thread \<open>t\<close>; \<open>a\<close> and \<open>i\<close> are the addresses of the thread's own fiber,
  where it has none yet, and of the idle fiber.
\<close>

definition run_start :: "64 word \<Rightarrow> nat \<Rightarrow> nat \<Rightarrow> nat \<Rightarrow> ('cb, 'k) system \<Rightarrow> fiber_error + ('cb, 'k) system" where
  "run_start stack_size t a i s =
     bindE (if int t \<noteq> m_rootThread (sched s) then
              bindE (GetThis t a (fibs s)) (\<lambda>(m, fs1).
              Inr (fs1\<lparr>t_scheduler_fiber := (t_scheduler_fiber fs1)(t \<mapsto> m)\<rparr>))
            else Inr (fibs s)) (\<lambda>fs2.
     let fs3 = Fiber_new stack_size t i (Some Scheduler_idle) 0 True fs2;
         fs4 = fs3\<lparr>executes := (executes fs3)(t := Place RunLoop)\<rparr>
     in Inr (set_frame t \<lparr>pc = AtTop, ft = no_task, is_active = False, cb_fiber = None, idle_fiber = i\<rparr>
               (s\<lparr>fibs := fs4\<rparr>)))"

text \<open>The part under the lock; the result says whether \<open>tickle\<close> is called.\<close>

definition run_pick :: "nat \<Rightarrow> 'cb frame \<Rightarrow> ('cb, 'k) system \<Rightarrow> fiber_error + bool \<times> ('cb, 'k) system" where
  "run_pick t fr s =
     (let sc = sched s in
      bindE (find_task (int t) (state_in (fibs s)) False [] (m_fibers sc)) (\<lambda>(found, tickle_me, rest).
      case found of
        None \<Rightarrow> Inr (tickle_me, set_frame t (fr\<lparr>pc := Picked, ft := no_task, is_active := False\<rparr>) s)
      | Some x \<Rightarrow>
          Inr (tickle_me, set_frame t (fr\<lparr>pc := Picked, ft := x, is_active := True\<rparr>)
            (s\<lparr>sched := sc\<lparr>m_fibers := rest, m_activeThreadCount := m_activeThreadCount sc + 1\<rparr>\<rparr>))))"

text \<open>What the loop does with the task: \<open>a\<close> is the address of a new fiber for a function.\<close>

definition run_dispatch :: "64 word \<Rightarrow> nat \<Rightarrow> nat \<Rightarrow> 'cb frame \<Rightarrow> ('cb, 'k) system \<Rightarrow> fiber_error + ('cb, 'k) system" where
  "run_dispatch stack_size t a fr s =
     (let fs = fibs s; sc = sched s; live = (\<lambda>f. state_in fs f \<noteq> TERMINATED \<and> state_in fs f \<noteq> EXCEPT) in
      if ft_fiber (ft fr) \<noteq> None \<and> live (the (ft_fiber (ft fr))) then
        bindE (Fiber_resume t (Place RunLoop) (the (ft_fiber (ft fr))) fs) (\<lambda>fs1.
        Inr (set_frame t (fr\<lparr>pc := InFiber\<rparr>) (s\<lparr>fibs := fs1\<rparr>)))
      else if ft_cb (ft fr) \<noteq> None then
        bindE (case cb_fiber fr of
                 Some c \<Rightarrow> bindE (Fiber_reset c (ft_cb (ft fr)) fs) (\<lambda>fs1. Inr (c, fs1))
               | None \<Rightarrow> Inr (a, Fiber_new stack_size t a (ft_cb (ft fr)) 0 True fs)) (\<lambda>(c, fs1).
        bindE (Fiber_resume t (Place RunLoop) c fs1) (\<lambda>fs2.
        Inr (set_frame t (fr\<lparr>pc := InCb, ft := no_task, cb_fiber := Some c\<rparr>) (s\<lparr>fibs := fs2\<rparr>))))
      else if is_active fr then
        Inr (set_frame t (fr\<lparr>pc := AtTop\<rparr>)
              (s\<lparr>sched := sc\<lparr>m_activeThreadCount := m_activeThreadCount sc - 1\<rparr>\<rparr>))
      else if state_in fs (idle_fiber fr) = TERMINATED then Inr (set_frame t (fr\<lparr>pc := Exited\<rparr>) s)
      else
        bindE (Fiber_resume t (Place RunLoop) (idle_fiber fr) fs) (\<lambda>fs1.
        Inr (set_frame t (fr\<lparr>pc := InIdle\<rparr>)
              (s\<lparr>fibs := fs1, sched := sc\<lparr>m_idleThreadCount := m_idleThreadCount sc + 1\<rparr>\<rparr>))))"

text \<open>The counters after a fiber switched back.\<close>

definition run_leave :: "nat \<Rightarrow> 'cb frame \<Rightarrow> ('cb, 'k) system \<Rightarrow> ('cb, 'k) system" where
  "run_leave t fr s =
     (let sc = sched s in
      case pc fr of
        InFiber \<Rightarrow> set_frame t (fr\<lparr>pc := AfterFiber\<rparr>)
          (s\<lparr>sched := sc\<lparr>m_activeThreadCount := m_activeThreadCount sc - 1\<rparr>\<rparr>)
      | InCb \<Rightarrow> set_frame t (fr\<lparr>pc := AfterCb\<rparr>)
          (s\<lparr>sched := sc\<lparr>m_activeThreadCount := m_activeThreadCount sc - 1\<rparr>\<rparr>)
      | InIdle \<Rightarrow> set_frame t (fr\<lparr>pc := AfterIdle\<rparr>)
          (s\<lparr>sched := sc\<lparr>m_idleThreadCount := m_idleThreadCount sc - 1\<rparr>\<rparr>)
      | _ \<Rightarrow> s)"

text \<open>What the loop does with a fiber that switched back, by its state.\<close>

definition run_settle :: "nat \<Rightarrow> 'cb frame \<Rightarrow> ('cb, 'k) system \<Rightarrow> fiber_error + ('cb, 'k) system" where
  "run_settle t fr s =
     (let fs = fibs s; sc = sched s in
      case pc fr of
        AfterFiber \<Rightarrow>
          let f = the (ft_fiber (ft fr)); fr1 = fr\<lparr>pc := AtTop, ft := no_task\<rparr> in
          if state_in fs f = READY then
            Inr (set_frame t fr1 (s\<lparr>sched := snd (schedule (fiber_task f (-1)) sc)\<rparr>))
          else if state_in fs f \<noteq> TERMINATED \<and> state_in fs f \<noteq> EXCEPT then
            bindE (set_state f HOLD fs) (\<lambda>fs1. Inr (set_frame t fr1 (s\<lparr>fibs := fs1\<rparr>)))
          else Inr (set_frame t fr1 s)
      | AfterCb \<Rightarrow>
          let c = the (cb_fiber fr); fr1 = fr\<lparr>pc := AtTop\<rparr> in
          if state_in fs c = READY then
            Inr (set_frame t (fr1\<lparr>cb_fiber := None\<rparr>) (s\<lparr>sched := snd (schedule (fiber_task c (-1)) sc)\<rparr>))
          else if state_in fs c = EXCEPT \<or> state_in fs c = TERMINATED then
            bindE (Fiber_reset c None fs) (\<lambda>fs1. Inr (set_frame t fr1 (s\<lparr>fibs := fs1\<rparr>)))
          else
            bindE (set_state c HOLD fs) (\<lambda>fs1.
            Inr (set_frame t (fr1\<lparr>cb_fiber := None\<rparr>) (s\<lparr>fibs := fs1\<rparr>)))
      | AfterIdle \<Rightarrow>
          let i = idle_fiber fr; fr1 = fr\<lparr>pc := AtTop\<rparr> in
          if state_in fs i \<noteq> TERMINATED \<and> state_in fs i \<noteq> EXCEPT then
            bindE (set_state i HOLD fs) (\<lambda>fs1. Inr (set_frame t fr1 (s\<lparr>fibs := fs1\<rparr>)))
          else Inr (set_frame t fr1 s)
      | _ \<Rightarrow> Inr s)"

text \<open>
  One round of \<open>Scheduler::idle\<close> by the idle fiber \<open>i\<close>, and \<open>switchTo\<close> by the function at a place
  \<open>k\<close>: nothing when the thread is already right (\<open>here\<close>: it runs this scheduler).
\<close>

definition idle_round :: "nat \<Rightarrow> nat \<Rightarrow> 'k \<Rightarrow> ('cb, 'k) system \<Rightarrow> fiber_error + ('cb, 'k) system" where
  "idle_round t i k s =
     (if stopping (sched s) then
        bindE (Fiber_return t i (fibs s)) (\<lambda>fs. Inr (s\<lparr>fibs := fs\<rparr>))
      else
        bindE (GetThis t 0 (fibs s)) (\<lambda>(f, fs1).
        bindE (Fiber_yield t (Place (Code i k)) f fs1) (\<lambda>fs2. Inr (s\<lparr>fibs := fs2\<rparr>))))"

definition switchTo :: "bool \<Rightarrow> int \<Rightarrow> nat \<Rightarrow> nat \<Rightarrow> 'k \<Rightarrow> ('cb, 'k) system \<Rightarrow> fiber_error + ('cb, 'k) system" where
  "switchTo here thread t f k s =
     (if here \<and> (thread = -1 \<or> thread = int t) then Inr s
      else
        bindE (GetThis t 0 (fibs s)) (\<lambda>(g, fs1).
        let sc1 = snd (schedule (fiber_task g thread) (sched s)) in
        bindE (GetThis t 0 fs1) (\<lambda>(g2, fs2).
        bindE (Fiber_yield t (Place (Code f k)) g2 fs2) (\<lambda>fs3.
        Inr (s\<lparr>sched := sc1, fibs := fs3\<rparr>)))))"

end
