(* ===== verification/FiberProps.thy ===== *)
theory FiberProps
  imports Fiber
begin

text \<open>
  What the switches between fibers do: the effect of each operation on the states, functions and
  kinds of all fibers (the lemmas the scheduler's invariants rest on), the round trip of \<open>resume\<close>
  and \<open>yield\<close>, and the switches that go wrong.
\<close>

section \<open>Effects of the operations\<close>

text \<open>What is compared of a fiber before and after an operation: all but its saved context.\<close>

definition view :: "('cb, 'k) fibers \<Rightarrow> nat \<Rightarrow> (fiber_state \<times> 'cb option \<times> bool) option" where
  "view fs f = map_option (\<lambda>x. (m_state x, fiber_cb x, use_caller x)) (fiber_heap fs f)"

lemma view_None [simp]: "view fs f = None \<longleftrightarrow> fiber_heap fs f = None"
  by (simp add: view_def)

lemma view_SetThis [simp]: "view (SetThis t g fs) = view fs"
  by (simp add: view_def SetThis_def fun_eq_iff)

lemma view_set_fiber [simp]:
  "view (set_fiber f x fs) = (view fs)(f \<mapsto> (m_state x, fiber_cb x, use_caller x))"
  by (simp add: view_def set_fiber_def fun_eq_iff)

lemma fiber_at_Inr [simp]: "fiber_at f fs = Inr x \<longleftrightarrow> fiber_heap fs f = Some x"
  by (simp add: fiber_at_def)

lemma SetThis_simps [simp]:
  "fiber_heap (SetThis t g fs) = fiber_heap fs" "t_fiber (SetThis t g fs) = (t_fiber fs)(t := g)"
  "t_threadFiber (SetThis t g fs) = t_threadFiber fs"
  "t_scheduler_fiber (SetThis t g fs) = t_scheduler_fiber fs" "executes (SetThis t g fs) = executes fs"
  by (simp_all add: SetThis_def)

lemma set_fiber_simps [simp]:
  "fiber_heap (set_fiber f x fs) = (fiber_heap fs)(f \<mapsto> x)" "t_fiber (set_fiber f x fs) = t_fiber fs"
  "t_threadFiber (set_fiber f x fs) = t_threadFiber fs"
  "t_scheduler_fiber (set_fiber f x fs) = t_scheduler_fiber fs"
  "executes (set_fiber f x fs) = executes fs"
  by (simp_all add: set_fiber_def)

lemma resumer_simps [simp]:
  "resumer t (x\<lparr>m_state := s\<rparr>) fs = resumer t x fs" "resumer t (x\<lparr>fiber_cb := c\<rparr>) fs = resumer t x fs"
  "resumer t x (set_fiber f y fs) = resumer t x fs" "resumer t x (SetThis u g fs) = resumer t x fs"
  by (simp_all add: resumer_def)

text \<open>The variables of the threads that an operation leaves alone.\<close>

definition same_threads :: "('cb, 'k) fibers \<Rightarrow> ('cb, 'k) fibers \<Rightarrow> bool" where
  "same_threads fs fs' \<longleftrightarrow> t_threadFiber fs' = t_threadFiber fs
     \<and> t_scheduler_fiber fs' = t_scheduler_fiber fs"

lemma coctx_swap_effect:
  assumes "coctx_swap t k from to fs = Inr fs'"
  shows "view fs' = view fs" and "t_fiber fs' = t_fiber fs" and "same_threads fs fs'"
    and "u \<noteq> t \<Longrightarrow> executes fs' u = executes fs u"
proof -
  from assms obtain x y c where x: "fiber_heap fs from = Some x"
    and fs': "fs' = (set_fiber from (x\<lparr>m_ctx := Some k\<rparr>) fs)\<lparr>executes := (executes fs)(t := c)\<rparr>"
    by (auto simp: coctx_swap_def result_simps Let_def simp del: set_fiber_simps)
       (simp add: set_fiber_def)
  show "view fs' = view fs" using x by (auto simp: fs' view_def fun_eq_iff)
  show "t_fiber fs' = t_fiber fs" "same_threads fs fs'" "u \<noteq> t \<Longrightarrow> executes fs' u = executes fs u"
    by (simp_all add: fs' same_threads_def)
qed

lemma Fiber_resume_effect:
  assumes "Fiber_resume t k f fs = Inr fs'"
  obtains x where "fiber_heap fs f = Some x" and "m_state x \<noteq> EXEC"
    and "view fs' = (view fs)(f \<mapsto> (EXEC, fiber_cb x, use_caller x))"
    and "t_fiber fs' = (t_fiber fs)(t \<mapsto> f)" and "same_threads fs fs'"
    and "\<And>u. u \<noteq> t \<Longrightarrow> executes fs' u = executes fs u"
proof -
  from assms obtain x m where x: "fiber_heap fs f = Some x" "m_state x \<noteq> EXEC"
    and sw: "coctx_swap t k m f (set_fiber f (x\<lparr>m_state := EXEC\<rparr>) (SetThis t (Some f) fs)) = Inr fs'"
    by (auto simp: Fiber_resume_def Let_def result_simps)
  note e = coctx_swap_effect [OF sw]
  show ?thesis
    by (rule that [OF x]) (use e in \<open>auto simp: same_threads_def\<close>)
qed

lemma Fiber_yield_effect:
  assumes "Fiber_yield t k f fs = Inr fs'"
  obtains x m where "fiber_heap fs f = Some x" and "resumer t x fs = Some m"
    and "view fs' = (view fs)(f \<mapsto> (if use_caller x \<or> m_state x = TERMINATED then m_state x else READY,
      fiber_cb x, use_caller x))"
    and "t_fiber fs' = (t_fiber fs)(t \<mapsto> m)" and "same_threads fs fs'"
    and "\<And>u. u \<noteq> t \<Longrightarrow> executes fs' u = executes fs u"
proof -
  from assms obtain x where x: "fiber_heap fs f = Some x"
    by (auto simp: Fiber_yield_def result_simps)
  show ?thesis
  proof (cases "use_caller x")
    case True
    with assms x obtain m where m: "t_scheduler_fiber fs t = Some m"
      and sw: "coctx_swap t k f m (SetThis t (t_scheduler_fiber fs t) fs) = Inr fs'"
      by (auto simp: Fiber_yield_def result_simps Let_def)
    note e = coctx_swap_effect [OF sw]
    show ?thesis
      by (rule that [OF x, of m]) (use e True x m in \<open>auto simp: same_threads_def resumer_def view_def fun_eq_iff\<close>)
  next
    case False
    with assms x obtain m where m: "t_threadFiber fs t = Some m"
      and sw: "coctx_swap t k f m (if m_state x \<noteq> TERMINATED
          then set_fiber f (x\<lparr>m_state := READY\<rparr>) (SetThis t (t_threadFiber fs t) fs)
          else SetThis t (t_threadFiber fs t) fs) = Inr fs'"
      by (auto simp: Fiber_yield_def result_simps Let_def)
    note e = coctx_swap_effect [OF sw]
    show ?thesis
      by (rule that [OF x, of m])
         (use e False x m in \<open>auto simp: same_threads_def resumer_def view_def fun_eq_iff split: if_splits\<close>)
  qed
qed

lemma Fiber_return_effect:
  assumes "Fiber_return t f fs = Inr fs'"
  obtains x m where "fiber_heap fs f = Some x" and "resumer t x fs = Some m"
    and "view fs' = (view fs)(f \<mapsto> (TERMINATED, None, use_caller x))"
    and "t_fiber fs' = (t_fiber fs)(t \<mapsto> m)" and "same_threads fs fs'"
    and "\<And>u. u \<noteq> t \<Longrightarrow> executes fs' u = executes fs u"
proof -
  from assms obtain x where x: "fiber_heap fs f = Some x"
    and y: "Fiber_yield t NeverReach f (set_fiber f (x\<lparr>fiber_cb := None, m_state := TERMINATED\<rparr>) fs) = Inr fs'"
    by (auto simp: Fiber_return_def result_simps)
  from y obtain m where e: "resumer t (x\<lparr>fiber_cb := None, m_state := TERMINATED\<rparr>) fs = Some m"
    "view fs' = (view fs)(f \<mapsto> (TERMINATED, None, use_caller x))"
    "t_fiber fs' = (t_fiber fs)(t \<mapsto> m)" "same_threads fs fs'" "\<And>u. u \<noteq> t \<Longrightarrow> executes fs' u = executes fs u"
    by (rule Fiber_yield_effect) (auto simp: same_threads_def split: if_splits)
  show ?thesis by (rule that [OF x _ e(2-5)]) (use e(1) in simp)
qed

lemma Fiber_throw_effect:
  assumes "Fiber_throw t f fs = Inr fs'"
  obtains x m where "fiber_heap fs f = Some x" and "resumer t x fs = Some m"
    and "view fs' = (view fs)(f \<mapsto> (if use_caller x then EXCEPT else READY, fiber_cb x, use_caller x))"
    and "t_fiber fs' = (t_fiber fs)(t \<mapsto> m)" and "same_threads fs fs'"
    and "\<And>u. u \<noteq> t \<Longrightarrow> executes fs' u = executes fs u"
proof -
  from assms obtain x where x: "fiber_heap fs f = Some x"
    and y: "Fiber_yield t NeverReach f (set_fiber f (x\<lparr>m_state := EXCEPT\<rparr>) fs) = Inr fs'"
    by (auto simp: Fiber_throw_def result_simps)
  from y obtain m where e: "resumer t (x\<lparr>m_state := EXCEPT\<rparr>) fs = Some m"
    "view fs' = (view fs)(f \<mapsto> (if use_caller x then EXCEPT else READY, fiber_cb x, use_caller x))"
    "t_fiber fs' = (t_fiber fs)(t \<mapsto> m)" "same_threads fs fs'" "\<And>u. u \<noteq> t \<Longrightarrow> executes fs' u = executes fs u"
    by (rule Fiber_yield_effect) (auto simp: same_threads_def split: if_splits)
  show ?thesis by (rule that [OF x _ e(2-5)]) (use e(1) in simp)
qed

lemma Fiber_new_effect:
  "view (Fiber_new n t a cb sz uc fs) = (view fs)(a \<mapsto> (INIT, cb, uc))"
  "t_fiber (Fiber_new n t a cb sz uc fs) = (t_fiber fs)(t \<mapsto> a)"
  "same_threads fs (Fiber_new n t a cb sz uc fs)"
  "executes (Fiber_new n t a cb sz uc fs) = executes fs"
  by (simp_all add: Fiber_new_def Let_def same_threads_def fun_eq_iff view_def SetThis_def)

lemma Fiber_reset_effect:
  assumes "Fiber_reset f cb fs = Inr fs'"
  obtains x where "fiber_heap fs f = Some x" and "m_state x \<in> {TERMINATED, EXCEPT, INIT}"
    and "view fs' = (view fs)(f \<mapsto> (INIT, cb, use_caller x))"
    and "t_fiber fs' = t_fiber fs" and "same_threads fs fs'" and "executes fs' = executes fs"
  using assms by (auto simp: Fiber_reset_def result_simps same_threads_def)

lemma set_state_effect:
  assumes "set_state f st fs = Inr fs'"
  obtains x where "fiber_heap fs f = Some x"
    and "view fs' = (view fs)(f \<mapsto> (st, fiber_cb x, use_caller x))"
    and "t_fiber fs' = t_fiber fs" and "same_threads fs fs'" and "executes fs' = executes fs"
  using assms by (auto simp: set_state_def result_simps same_threads_def)


section \<open>Switching to a fiber and back\<close>

definition ctx_of :: "('cb, 'k) fibers \<Rightarrow> nat \<Rightarrow> 'k coctx option" where
  "ctx_of fs f = (case fiber_heap fs f of None \<Rightarrow> None | Some x \<Rightarrow> m_ctx x)"

definition state_of :: "('cb, 'k) fibers \<Rightarrow> nat \<Rightarrow> fiber_state option" where
  "state_of fs f = map_option m_state (fiber_heap fs f)"

lemma coctx_swap_ok:
  assumes "fiber_heap fs m = Some y" and "fiber_heap fs f = Some x" and "m \<noteq> f" and "m_ctx x = Some c"
  shows "coctx_swap t k m f fs = Inr ((set_fiber m (y\<lparr>m_ctx := Some k\<rparr>) fs)\<lparr>executes := (executes fs)(t := c)\<rparr>)"
  using assms by (simp add: coctx_swap_def fiber_at_def set_fiber_def)

lemma Fiber_resume_ok:
  assumes "fiber_heap fs f = Some x" and "m_state x \<noteq> EXEC" and "m_ctx x = Some c"
    and "resumer t x fs = Some m" and "fiber_heap fs m = Some y" and "m \<noteq> f"
  shows "Fiber_resume t k f fs = Inr ((set_fiber m (y\<lparr>m_ctx := Some k\<rparr>)
    (set_fiber f (x\<lparr>m_state := EXEC\<rparr>) (SetThis t (Some f) fs)))\<lparr>executes := (executes fs)(t := c)\<rparr>)"
  using assms by (simp add: Fiber_resume_def fiber_at_def coctx_swap_ok Let_def)

lemma Fiber_yield_ok:
  assumes "fiber_heap fs f = Some x" and "resumer t x fs = Some m"
    and "fiber_heap fs m = Some y" and "m_ctx y = Some c" and "m \<noteq> f"
  shows "\<exists>fs'. Fiber_yield t k f fs = Inr fs' \<and> executes fs' t = c \<and> t_fiber fs' t = Some m
    \<and> fiber_heap fs' = (fiber_heap fs)(f \<mapsto> x\<lparr>m_ctx := Some k,
        m_state := if use_caller x \<or> m_state x = TERMINATED then m_state x else READY\<rparr>)
    \<and> same_threads fs fs'"
  using assms
  by (cases "use_caller x"; cases "m_state x = TERMINATED")
     (auto simp: Fiber_yield_def fiber_at_def resumer_def same_threads_def coctx_swap_ok Let_def fun_eq_iff)

text \<open>C27: Resuming a suspended fiber continues it where it was suspended, or at its beginning, as
  the current fiber of the thread; when it yields, the thread continues behind the resume, in the
  fiber it was in, and the place and the state of the fiber are recorded: still executing for a
  fiber of the scheduler, ready for a fiber of the user.\<close>

theorem resume_and_yield:
  assumes "fiber_heap fs f = Some x" and "m_state x \<noteq> EXEC" and "m_ctx x = Some c"
    and "resumer t x fs = Some m" and "fiber_heap fs m = Some y" and "m \<noteq> f"
  shows "\<exists>fs1 fs2. Fiber_resume t k f fs = Inr fs1
    \<and> executes fs1 t = c \<and> t_fiber fs1 t = Some f \<and> state_of fs1 f = Some EXEC
    \<and> Fiber_yield t k' f fs1 = Inr fs2
    \<and> executes fs2 t = k \<and> t_fiber fs2 t = Some m \<and> ctx_of fs2 f = Some k'
    \<and> state_of fs2 f = Some (if use_caller x then EXEC else READY)"
proof -
  define fs1 where "fs1 = (set_fiber m (y\<lparr>m_ctx := Some k\<rparr>)
    (set_fiber f (x\<lparr>m_state := EXEC\<rparr>) (SetThis t (Some f) fs)))\<lparr>executes := (executes fs)(t := c)\<rparr>"
  have r: "Fiber_resume t k f fs = Inr fs1" unfolding fs1_def by (rule Fiber_resume_ok [OF assms])
  have h: "fiber_heap fs1 f = Some (x\<lparr>m_state := EXEC\<rparr>)" "fiber_heap fs1 m = Some (y\<lparr>m_ctx := Some k\<rparr>)"
    using assms(6) by (simp_all add: fs1_def)
  have m: "resumer t (x\<lparr>m_state := EXEC\<rparr>) fs1 = Some m"
    using assms(4) by (auto simp: fs1_def resumer_def split: if_splits)
  obtain fs2 where y: "Fiber_yield t k' f fs1 = Inr fs2" "executes fs2 t = k" "t_fiber fs2 t = Some m"
    "fiber_heap fs2 = (fiber_heap fs1)(f \<mapsto> x\<lparr>m_state := EXEC, m_ctx := Some k',
        m_state := if use_caller x then EXEC else READY\<rparr>)"
    using Fiber_yield_ok [OF h(1) m h(2) _ assms(6), of k k'] by auto
  show ?thesis
    using r y h by (intro exI [of _ fs1] exI [of _ fs2]) (simp add: fs1_def ctx_of_def state_of_def)
qed

text \<open>A thread with its own fiber 0 and one fiber 1 of either kind.\<close>

definition two_fibers :: "bool \<Rightarrow> (nat, nat) fibers" where
  "two_fibers uc = Fiber_new 100 7 1 (Some 5) 0 uc (case GetThis 7 0
     \<lparr>fiber_heap = (\<lambda>_. None), s_fiber_id = 0, s_fiber_count = 0, t_fiber = (\<lambda>_. None),
      t_threadFiber = (\<lambda>_. None), t_scheduler_fiber = [7 \<mapsto> 0], executes = (\<lambda>_. Place 0)\<rparr> of
     Inr (_, fs) \<Rightarrow> fs | Inl _ \<Rightarrow> undefined)"

lemma two_fibers_eq: "two_fibers uc =
  \<lparr>fiber_heap = [0 \<mapsto> \<lparr>use_caller = False, m_id = 0, m_stacksize = 0, m_state = EXEC, m_ctx = None,
       m_stack = False, fiber_cb = None\<rparr>,
     1 \<mapsto> \<lparr>use_caller = uc, m_id = 1, m_stacksize = 100, m_state = INIT, m_ctx = Some Entry,
       m_stack = True, fiber_cb = Some 5\<rparr>],
   s_fiber_id = 1, s_fiber_count = 2, t_fiber = [7 \<mapsto> 1], t_threadFiber = [7 \<mapsto> 0],
   t_scheduler_fiber = [7 \<mapsto> 0], executes = (\<lambda>_. Place 0)\<rparr>"
  by (simp add: two_fibers_def GetThis_def Fiber_main_def Fiber_new_def SetThis_def set_fiber_def
    Let_def fun_eq_iff)

theorem resume_and_yield_witness:
  "\<exists>fs1 fs2. Fiber_resume 7 (Place 1) 1 (two_fibers False) = Inr fs1
    \<and> executes fs1 7 = Entry \<and> t_fiber fs1 7 = Some 1 \<and> state_of fs1 1 = Some EXEC
    \<and> Fiber_yield 7 (Place 2) 1 fs1 = Inr fs2
    \<and> executes fs2 7 = Place 1 \<and> t_fiber fs2 7 = Some 0 \<and> ctx_of fs2 1 = Some (Place 2)
    \<and> state_of fs2 1 = Some READY"
  using resume_and_yield [of "two_fibers False" 1 "the (fiber_heap (two_fibers False) 1)" Entry 7 0
      "the (fiber_heap (two_fibers False) 0)" "Place 1" "Place 2"]
  by (simp add: two_fibers_eq resumer_def)


section \<open>Switches that go wrong\<close>

text \<open>A fiber of the user whose function throws is marked ready instead of failed, since the
  last \<open>yield\<close> overwrites the state; whichever thread then resumes it runs into the assertion at
  the end of \<open>Fiber::run\<close>, which ends the process. A fiber of the scheduler keeps the mark.\<close>

theorem throwing_fiber_is_resumed:
  assumes "fiber_heap fs f = Some x" and "resumer t x fs = Some m"
    and "fiber_heap fs m = Some y" and "m_ctx y = Some k" and "m \<noteq> f"
  shows "\<exists>fs1. Fiber_throw t f fs = Inr fs1 \<and> executes fs1 t = k
    \<and> state_of fs1 f = Some (if use_caller x then EXCEPT else READY)
    \<and> (\<forall>u m' y' k'. resumer u x fs1 = Some m' \<and> fiber_heap fs1 m' = Some y' \<and> m' \<noteq> f \<longrightarrow>
        (\<exists>fs2. Fiber_resume u k' f fs1 = Inr fs2 \<and> Fiber_again u fs2 = Inl NeverReached))"
proof -
  let ?fs = "set_fiber f (x\<lparr>m_state := EXCEPT\<rparr>) fs"
  have th: "Fiber_throw t f fs = Fiber_yield t NeverReach f ?fs"
    using assms(1) by (simp add: Fiber_throw_def fiber_at_def)
  have "fiber_heap ?fs f = Some (x\<lparr>m_state := EXCEPT\<rparr>)" "resumer t (x\<lparr>m_state := EXCEPT\<rparr>) ?fs = Some m"
    "fiber_heap ?fs m = Some y"
    using assms by simp_all
  then obtain fs1 where y: "Fiber_yield t NeverReach f ?fs = Inr fs1" "executes fs1 t = k"
    "fiber_heap fs1 = (fiber_heap ?fs)(f \<mapsto> x\<lparr>m_state := EXCEPT, m_ctx := Some NeverReach,
        m_state := if use_caller x then EXCEPT else READY\<rparr>)"
    using Fiber_yield_ok [of ?fs f "x\<lparr>m_state := EXCEPT\<rparr>" t m y k NeverReach] assms(4,5) by auto
  let ?x = "x\<lparr>m_ctx := Some NeverReach, m_state := if use_caller x then EXCEPT else READY\<rparr>"
  have h: "fiber_heap fs1 f = Some ?x" using y(3) by simp
  have "\<exists>fs2. Fiber_resume u k' f fs1 = Inr fs2 \<and> Fiber_again u fs2 = Inl NeverReached"
    if "resumer u x fs1 = Some m'" "fiber_heap fs1 m' = Some y'" "m' \<noteq> f" for u m' y' k'
  proof -
    have "resumer u ?x fs1 = Some m'" using that(1) by (simp add: resumer_def)
    then have "Fiber_resume u k' f fs1 = Inr ((set_fiber m' (y'\<lparr>m_ctx := Some k'\<rparr>)
      (set_fiber f (?x\<lparr>m_state := EXEC\<rparr>) (SetThis u (Some f) fs1)))
        \<lparr>executes := (executes fs1)(u := NeverReach)\<rparr>)"
      by (intro Fiber_resume_ok [OF h _ _ _ that(2,3)]) simp_all
    then show ?thesis by (simp add: Fiber_again_def)
  qed
  then show ?thesis using th y h by (intro exI [of _ fs1]) (simp add: state_of_def, blast)
qed

theorem throwing_fiber_is_resumed_witness:
  "\<exists>fs0 fs1 fs2. Fiber_resume 7 (Place 1) 1 (two_fibers False) = Inr fs0
    \<and> Fiber_throw 7 1 fs0 = Inr fs1 \<and> state_of fs1 1 = Some READY
    \<and> Fiber_resume 7 (Place 1) 1 fs1 = Inr fs2 \<and> Fiber_again 7 fs2 = Inl NeverReached"
proof -
  obtain fs0 where r: "Fiber_resume 7 (Place 1) 1 (two_fibers False) = Inr fs0"
    "fiber_heap fs0 1 = Some (the (fiber_heap (two_fibers False) 1)\<lparr>m_state := EXEC\<rparr>)"
    "fiber_heap fs0 0 = Some (the (fiber_heap (two_fibers False) 0)\<lparr>m_ctx := Some (Place 1)\<rparr>)"
    "t_threadFiber fs0 7 = Some 0"
    using Fiber_resume_ok [of "two_fibers False" 1 "the (fiber_heap (two_fibers False) 1)" Entry 7 0
      "the (fiber_heap (two_fibers False) 0)" "Place 1"]
    by (simp add: two_fibers_eq resumer_def)
  have u: "use_caller (the (fiber_heap (two_fibers False) 1)) = False" by (simp add: two_fibers_eq)
  obtain fs1 where t: "Fiber_throw 7 1 fs0 = Inr fs1" "state_of fs1 1 = Some READY"
    "\<And>m' y'. t_threadFiber fs1 7 = Some m' \<Longrightarrow> fiber_heap fs1 m' = Some y' \<Longrightarrow> m' \<noteq> 1 \<Longrightarrow>
        \<exists>fs2. Fiber_resume 7 (Place 1) 1 fs1 = Inr fs2 \<and> Fiber_again 7 fs2 = Inl NeverReached"
    using throwing_fiber_is_resumed [OF r(2) _ r(3), of 7 "Place 1"] r(4) u
    by (auto simp: resumer_def)
  from t(1) have e: "view fs1 0 = view fs0 0" "t_threadFiber fs1 = t_threadFiber fs0"
    by (auto elim!: Fiber_throw_effect simp: same_threads_def)
  from e(1) r(3) obtain y' where "fiber_heap fs1 0 = Some y'" by (auto simp: view_def)
  with t(3) [of 0 y'] e(2) r(4) have "\<exists>fs2. Fiber_resume 7 (Place 1) 1 fs1 = Inr fs2 \<and> Fiber_again 7 fs2 = Inl NeverReached"
    by simp
  with r(1) t(1,2) show ?thesis by blast
qed

text \<open>The thread that called \<open>stop\<close> and runs the root fiber comes back to \<open>stop\<close> when the root
  fiber ends, unless the root fiber resumed a fiber of the user meanwhile: the switch to that fiber
  overwrote the saved place of \<open>stop\<close>, and the thread enters the finished loop again.\<close>

theorem root_fiber_returns:
  assumes "fiber_heap fs r = Some x" and "\<not> use_caller x" and "m_state x = INIT" and "m_ctx x = Some Entry"
    and "fiber_heap fs g = Some z" and "m_state z = INIT" and "m_ctx z = Some Entry"
    and "fiber_heap fs m = Some y" and "t_threadFiber fs t = Some m" and "t_scheduler_fiber fs t = Some r"
    and "distinct [r, g, m]"
  shows "\<exists>fs1 fs2 fs3 fs4. Fiber_resume t stop_place r fs = Inr fs1
    \<and> Fiber_resume t loop_place g fs1 = Inr fs2
    \<and> Fiber_yield t k g fs2 = Inr fs3 \<and> executes fs3 t = loop_place
    \<and> Fiber_return t r fs3 = Inr fs4
    \<and> executes fs4 t = (if use_caller z then stop_place else loop_place)"
  using assms
  by (cases "use_caller z")
     (simp_all add: Fiber_resume_def Fiber_yield_def Fiber_return_def resumer_def fiber_at_def
       coctx_swap_def set_fiber_def SetThis_def Let_def)

text \<open>A thread whose own fiber is 0, with a root fiber 1 and a fiber 2 of either kind.\<close>

definition three_fibers :: "bool \<Rightarrow> (nat, nat) fibers" where
  "three_fibers uc = Fiber_new 100 7 2 (Some 6) 0 uc ((two_fibers False)\<lparr>t_scheduler_fiber := [7 \<mapsto> 1]\<rparr>)"

theorem root_fiber_returns_witness:
  "\<exists>fs1 fs2 fs3 fs4. Fiber_resume 7 (Place 1) 1 (three_fibers False) = Inr fs1
    \<and> Fiber_resume 7 (Place 2) 2 fs1 = Inr fs2 \<and> Fiber_yield 7 (Place 3) 2 fs2 = Inr fs3
    \<and> executes fs3 7 = Place 2 \<and> Fiber_return 7 1 fs3 = Inr fs4 \<and> executes fs4 7 = Place 2"
  using root_fiber_returns [of "three_fibers False" 1 "the (fiber_heap (three_fibers False) 1)" 2
      "the (fiber_heap (three_fibers False) 2)" 0 "the (fiber_heap (three_fibers False) 0)" 7
      "Place 1" "Place 2" "Place 3"]
  by (simp add: three_fibers_def two_fibers_eq Fiber_new_def Let_def SetThis_def set_fiber_def)

text \<open>
  A function that makes a fiber becomes, for its thread, that fiber: the constructor sets the
  current fiber. Its next \<open>yield\<close> marks the new fiber ready, and saves its own place in it, so that
  the new fiber's function never starts.
\<close>

lemma new_fiber_takes_place:
  assumes "fiber_heap fs f = Some x" and "t_threadFiber fs t = Some m" and "fiber_heap fs m = Some y"
    and "m_ctx y = Some c" and "a \<notin> {f, m}"
  shows "\<exists>fs2. GetThis t b (Fiber_new n t a cb sz False fs) = Inr (a, Fiber_new n t a cb sz False fs)
    \<and> Fiber_yield t k a (Fiber_new n t a cb sz False fs) = Inr fs2
    \<and> ctx_of fs2 a = Some k \<and> state_of fs2 a = Some READY \<and> fiber_heap fs2 f = Some x"
  using assms
  by (simp add: GetThis_def Fiber_new_def Fiber_yield_def fiber_at_def coctx_swap_def set_fiber_def
    SetThis_def ctx_of_def state_of_def Let_def)

end
