(* ===== verification/SchedulerRun.thy ===== *)
theory SchedulerRun
  imports Scheduler FiberProps "HOL-Library.Multiset"
begin

text \<open>
  All runs of a scheduler: the steps of any number of threads in the loop of
  \<open>src/sylar/scheduler.cc\<close>, of the functions the fibers run (which may schedule, yield, make fibers,
  return or throw, in any order), and of the world outside (which schedules until the scheduler is
  told to stop, and tells it to stop). A step that aborts ends the process and is no step here.
\<close>

section \<open>Steps\<close>

text \<open>What a step does to the tasks: it schedules one, takes one from the queue, or neither.\<close>

datatype 'cb label = Scheduled "'cb FiberAndThread" | Taken "'cb FiberAndThread" | Silent

definition idles :: "('cb, 'k) system \<Rightarrow> nat set" where
  "idles s = {idle_fiber fr | t fr. frames s t = Some fr}"

definition fresh :: "nat \<Rightarrow> ('cb, 'k) system \<Rightarrow> bool" where
  "fresh a s \<longleftrightarrow> fiber_heap (fibs s) a = None"

text \<open>A task somebody can schedule: a function, or a fiber that is not one of the idle fibers.\<close>

definition proper_task :: "'cb FiberAndThread \<Rightarrow> ('cb, 'k) system \<Rightarrow> bool" where
  "proper_task x s \<longleftrightarrow>
     (case ft_fiber x of
        Some f \<Rightarrow> \<not> fresh f s \<and> f \<notin> idles s \<and> ft_cb x = None
      | None \<Rightarrow> (\<exists>cb. ft_cb x = Some (Job cb)))"

text \<open>Thread \<open>t\<close> executes the user's function of fiber \<open>f\<close>, inside the activation \<open>fr\<close> of \<open>run\<close>.\<close>

definition in_function :: "nat \<Rightarrow> 'cb frame \<Rightarrow> nat \<Rightarrow> ('cb, 'k) system \<Rightarrow> bool" where
  "in_function t fr f s \<longleftrightarrow> frames s t = Some fr \<and> pc fr \<in> {InFiber, InCb}
     \<and> (\<exists>k. executes (fibs s) t = Place (Code f k))
     \<and> (\<exists>x cb. fiber_heap (fibs s) f = Some x \<and> fiber_cb x = Some (Job cb))"

definition in_loop :: "nat \<Rightarrow> 'cb frame \<Rightarrow> ('cb, 'k) system \<Rightarrow> bool" where
  "in_loop t fr s \<longleftrightarrow> frames s t = Some fr \<and> executes (fibs s) t = Place RunLoop"

definition schedule_in :: "'cb FiberAndThread \<Rightarrow> ('cb, 'k) system \<Rightarrow> ('cb, 'k) system" where
  "schedule_in x s = s\<lparr>sched := snd (schedule x (sched s))\<rparr>"

definition settle_label :: "'cb frame \<Rightarrow> ('cb, 'k) system \<Rightarrow> 'cb label" where
  "settle_label fr s =
     (case pc fr of
        AfterFiber \<Rightarrow> if state_in (fibs s) (the (ft_fiber (ft fr))) = READY
          then Scheduled (fiber_task (the (ft_fiber (ft fr))) (-1)) else Silent
      | AfterCb \<Rightarrow> if state_in (fibs s) (the (cb_fiber fr)) = READY
          then Scheduled (fiber_task (the (cb_fiber fr)) (-1)) else Silent
      | _ \<Rightarrow> Silent)"

inductive sched_step :: "('cb, 'k) system \<Rightarrow> 'cb label \<Rightarrow> ('cb, 'k) system \<Rightarrow> bool" where
  begin_run: "frames s t = None \<Longrightarrow> fresh a s \<Longrightarrow> fresh i s \<Longrightarrow> a \<noteq> i
    \<Longrightarrow> int t \<noteq> m_rootThread (sched s) \<or> (executes (fibs s) t = Entry \<and> t_fiber (fibs s) t = m_rootFiber (sched s))
    \<Longrightarrow> run_start n t a i s = Inr s' \<Longrightarrow> sched_step s Silent s'"
| pick: "in_loop t fr s \<Longrightarrow> pc fr = AtTop \<Longrightarrow> run_pick t fr s = Inr (b, s') \<Longrightarrow> frames s' t = Some fr'
    \<Longrightarrow> sched_step s (if is_active fr' then Taken (ft fr') else Silent) s'"
| dispatch: "in_loop t fr s \<Longrightarrow> pc fr = Picked \<Longrightarrow> fresh a s \<Longrightarrow> run_dispatch n t a fr s = Inr s'
    \<Longrightarrow> sched_step s Silent s'"
| leave: "in_loop t fr s \<Longrightarrow> pc fr \<in> {InFiber, InCb, InIdle} \<Longrightarrow> sched_step s Silent (run_leave t fr s)"
| settle: "in_loop t fr s \<Longrightarrow> pc fr \<in> {AfterFiber, AfterCb, AfterIdle} \<Longrightarrow> run_settle t fr s = Inr s'
    \<Longrightarrow> sched_step s (settle_label fr s) s'"
| enter: "frames s t = Some fr \<Longrightarrow> pc fr \<in> {InFiber, InCb, InIdle} \<Longrightarrow> executes (fibs s) t = Entry
    \<Longrightarrow> Fiber_enter t 0 (fibs s) = Inr ((f, Some cb), fs)
    \<Longrightarrow> sched_step s Silent (s\<lparr>fibs := fs\<lparr>executes := (executes fs)(t := Place (Code f k))\<rparr>\<rparr>)"
| enter_empty: "frames s t = Some fr \<Longrightarrow> pc fr \<in> {InFiber, InCb} \<Longrightarrow> executes (fibs s) t = Entry
    \<Longrightarrow> Fiber_enter t 0 (fibs s) = Inr ((f, None), fs) \<Longrightarrow> Fiber_throw t f fs = Inr fs'
    \<Longrightarrow> sched_step s Silent (s\<lparr>fibs := fs'\<rparr>)"
| user_schedule: "in_function t fr f s \<Longrightarrow> proper_task x s
    \<Longrightarrow> sched_step s (Scheduled x) (schedule_in x s)"
| user_yield: "in_function t fr f s \<Longrightarrow> GetThis t 0 (fibs s) = Inr (g, fs)
    \<Longrightarrow> Fiber_yield t (Place (Code f k)) g fs = Inr fs' \<Longrightarrow> sched_step s Silent (s\<lparr>fibs := fs'\<rparr>)"
| user_new: "in_function t fr f s \<Longrightarrow> fresh a s
    \<Longrightarrow> sched_step s Silent (s\<lparr>fibs := Fiber_new n t a (Some (Job cb)) sz False (fibs s)\<rparr>)"
| user_return: "in_function t fr f s \<Longrightarrow> Fiber_return t f (fibs s) = Inr fs
    \<Longrightarrow> sched_step s Silent (s\<lparr>fibs := fs\<rparr>)"
| user_throw: "in_function t fr f s \<Longrightarrow> Fiber_throw t f (fibs s) = Inr fs
    \<Longrightarrow> sched_step s Silent (s\<lparr>fibs := fs\<rparr>)"
| idle: "frames s t = Some fr \<Longrightarrow> pc fr = InIdle \<Longrightarrow> executes (fibs s) t = Place (Code (idle_fiber fr) k)
    \<Longrightarrow> idle_round t (idle_fiber fr) k s = Inr s' \<Longrightarrow> sched_step s Silent s'"
| outside_schedule: "\<not> m_stopping (sched s) \<Longrightarrow> proper_task x s
    \<Longrightarrow> sched_step s (Scheduled x) (schedule_in x s)"
| outside_stop: "frames s t = None \<Longrightarrow> stop here t s = Inr (b, s') \<Longrightarrow> sched_step s Silent s'"

text \<open>The runs from a scheduler that was just started, with what was scheduled and what was taken.\<close>

definition initial :: "('cb, 'k) system \<Rightarrow> bool" where
  "initial s \<longleftrightarrow> frames s = (\<lambda>_. None) \<and> m_fibers (sched s) = [] \<and> m_activeThreadCount (sched s) = 0
     \<and> m_idleThreadCount (sched s) = 0 \<and> \<not> m_stopping (sched s) \<and> \<not> m_autoStop (sched s)
     \<and> (\<forall>t f. t_fiber (fibs s) t = Some f \<or> t_threadFiber (fibs s) t = Some f
          \<or> t_scheduler_fiber (fibs s) t = Some f \<longrightarrow> \<not> fresh f s)
     \<and> (\<forall>f. m_rootFiber (sched s) = Some f \<longrightarrow> \<not> fresh f s)"

fun log_of :: "'cb label \<Rightarrow> 'cb FiberAndThread list \<times> 'cb FiberAndThread list
    \<Rightarrow> 'cb FiberAndThread list \<times> 'cb FiberAndThread list" where
  "log_of (Scheduled x) (ss, ts) = (ss @ [x], ts)"
| "log_of (Taken x) (ss, ts) = (ss, ts @ [x])"
| "log_of Silent (ss, ts) = (ss, ts)"

inductive sched_run :: "('cb, 'k) system \<Rightarrow> 'cb FiberAndThread list \<Rightarrow> 'cb FiberAndThread list \<Rightarrow> bool" where
  run_init: "initial s \<Longrightarrow> sched_run s [] []"
| run_step: "sched_run s ss ts \<Longrightarrow> sched_step s l s' \<Longrightarrow> log_of l (ss, ts) = (ss', ts') \<Longrightarrow> sched_run s' ss' ts'"

section \<open>The counters and the tasks\<close>

text \<open>The activations in which the loop holds a task, and those in which it is idle.\<close>

definition holds_task :: "'cb frame \<Rightarrow> bool" where
  "holds_task fr \<longleftrightarrow> pc fr \<in> {InFiber, InCb} \<or> (pc fr = Picked \<and> is_active fr)"

definition is_idle :: "'cb frame \<Rightarrow> bool" where
  "is_idle fr \<longleftrightarrow> pc fr = InIdle"

definition picked_ok :: "'cb frame \<Rightarrow> bool" where
  "picked_ok fr \<longleftrightarrow> (pc fr = Picked \<and> \<not> is_active fr \<longrightarrow> ft fr = no_task)"

definition counted :: "('cb frame \<Rightarrow> bool) \<Rightarrow> ('cb, 'k) system \<Rightarrow> nat set" where
  "counted P s = {t. \<exists>fr. frames s t = Some fr \<and> P fr}"

definition count_inv :: "('cb, 'k) system \<Rightarrow> bool" where
  "count_inv s \<longleftrightarrow> finite (dom (frames s)) \<and> (\<forall>t fr. frames s t = Some fr \<longrightarrow> picked_ok fr)
     \<and> m_activeThreadCount (sched s) = of_nat (card (counted holds_task s))
     \<and> m_idleThreadCount (sched s) = of_nat (card (counted is_idle s))"

lemma counted_finite: "finite (dom (frames s)) \<Longrightarrow> finite (counted P s)"
  by (rule finite_subset [of _ "dom (frames s)"]) (auto simp: counted_def)

lemma counted_upd:
  assumes "frames s' = (frames s)(t \<mapsto> fr')"
  shows "counted P s' = (if P fr' then insert t (counted P s) else counted P s - {t})"
  using assms by (auto simp: counted_def split: if_splits)

text \<open>The number changes by what the one activation contributed before and contributes now.\<close>

lemma card_counted_upd:
  assumes "frames s' = (frames s)(t \<mapsto> fr')" and "finite (dom (frames s))"
  shows "(of_nat (card (counted P s')) :: 64 word)
    = of_nat (card (counted P s)) + (if P fr' then 1 else 0) - (if t \<in> counted P s then 1 else 0)"
proof -
  have fin: "finite (counted P s)" by (rule counted_finite [OF assms(2)])
  have "t \<in> counted P s \<Longrightarrow> 0 < card (counted P s)" using fin card_gt_0_iff by blast
  then show ?thesis
    using fin by (auto simp: counted_upd [OF assms(1)] card_insert_if of_nat_diff Suc_le_eq)
qed

lemma count_invI:
  assumes "count_inv s" and "frames s t = fo" and "frames s' = (frames s)(t \<mapsto> fr')"
    and "picked_ok fr'"
    and "m_activeThreadCount (sched s') = m_activeThreadCount (sched s)
      + (if holds_task fr' then 1 else 0) - (if \<exists>fr. fo = Some fr \<and> holds_task fr then 1 else 0)"
    and "m_idleThreadCount (sched s') = m_idleThreadCount (sched s)
      + (if is_idle fr' then 1 else 0) - (if \<exists>fr. fo = Some fr \<and> is_idle fr then 1 else 0)"
  shows "count_inv s'"
proof -
  from assms(1) have fin: "finite (dom (frames s))" by (simp add: count_inv_def)
  have m: "t \<in> counted P s \<longleftrightarrow> (\<exists>fr. fo = Some fr \<and> P fr)" for P
    using assms(2) by (auto simp: counted_def)
  have "finite (dom (frames s'))" using fin assms(3) by simp
  moreover have "\<forall>u fr. frames s' u = Some fr \<longrightarrow> picked_ok fr"
    using assms(1,3,4) by (auto simp: count_inv_def)
  ultimately show ?thesis
    using assms(1,5,6) card_counted_upd [OF assms(3) fin, of holds_task]
      card_counted_upd [OF assms(3) fin, of is_idle]
    by (simp add: count_inv_def m)
qed

lemma count_inv_same:
  assumes "count_inv s" and "frames s' = frames s"
    and "m_activeThreadCount (sched s') = m_activeThreadCount (sched s)"
    and "m_idleThreadCount (sched s') = m_idleThreadCount (sched s)"
  shows "count_inv s'"
  using assms by (simp add: count_inv_def counted_def)


text \<open>What each part of the loop changes besides the fibers.\<close>

lemma find_task_found:
  assumes "find_task me st tm before q = Inr (found, tk, rest)"
  shows "case found of None \<Rightarrow> rest = before @ q
    | Some x \<Rightarrow> mset (before @ q) = add_mset x (mset rest) \<and> x \<in> set q \<and> set rest \<subseteq> set before \<union> set q"
  using assms
  by (induction me st tm before q rule: find_task.induct) (auto split: if_splits option.splits simp: result_simps)

lemma run_start_effect:
  assumes "run_start n t a i s = Inr s'"
  shows "sched s' = sched s" and "frames s' = (frames s)(t \<mapsto>
    \<lparr>pc = AtTop, ft = no_task, is_active = False, cb_fiber = None, idle_fiber = i\<rparr>)"
  using assms by (auto simp: run_start_def result_simps Let_def set_frame_def split: if_splits)

lemma run_pick_cases:
  assumes "run_pick t fr s = Inr (b, s')"
  obtains (none) "s' = set_frame t (fr\<lparr>pc := Picked, ft := no_task, is_active := False\<rparr>) s"
      and "find_task (int t) (state_in (fibs s)) False [] (m_fibers (sched s)) = Inr (None, b, m_fibers (sched s))"
  | (found) x rest where "find_task (int t) (state_in (fibs s)) False [] (m_fibers (sched s)) = Inr (Some x, b, rest)"
      and "s' = set_frame t (fr\<lparr>pc := Picked, ft := x, is_active := True\<rparr>)
            (s\<lparr>sched := (sched s)\<lparr>m_fibers := rest, m_activeThreadCount := m_activeThreadCount (sched s) + 1\<rparr>\<rparr>)"
      and "mset (m_fibers (sched s)) = add_mset x (mset rest)"
proof -
  from assms obtain found rest where f: "find_task (int t) (state_in (fibs s)) False [] (m_fibers (sched s)) = Inr (found, b, rest)"
    and s': "(case found of None \<Rightarrow> Inr (b, set_frame t (fr\<lparr>pc := Picked, ft := no_task, is_active := False\<rparr>) s)
      | Some x \<Rightarrow> Inr (b, set_frame t (fr\<lparr>pc := Picked, ft := x, is_active := True\<rparr>)
            (s\<lparr>sched := (sched s)\<lparr>m_fibers := rest, m_activeThreadCount := m_activeThreadCount (sched s) + 1\<rparr>\<rparr>)))
      = (Inr (b, s') :: fiber_error + _)"
    by (auto simp: run_pick_def Let_def result_simps split: option.splits)
  show ?thesis
  proof (cases found)
    case None
    with s' f find_task_found [OF f] none show ?thesis by simp
  next
    case (Some x)
    with s' f find_task_found [OF f] found [of x rest] show ?thesis by simp
  qed
qed

text \<open>The four branches of the dispatch.\<close>

lemma run_dispatch_cases:
  assumes "run_dispatch n t a fr s = Inr s'"
  obtains (fiber) f fs where "ft_fiber (ft fr) = Some f" and "Fiber_resume t (Place RunLoop) f (fibs s) = Inr fs"
      and "state_in (fibs s) f \<noteq> TERMINATED" and "s' = set_frame t (fr\<lparr>pc := InFiber\<rparr>) (s\<lparr>fibs := fs\<rparr>)"
  | (func) c fs1 fs where "ft_cb (ft fr) \<noteq> None"
      and "cb_fiber fr = None \<and> c = a \<and> fs1 = Fiber_new n t a (ft_cb (ft fr)) 0 True (fibs s)
        \<or> cb_fiber fr = Some c \<and> Fiber_reset c (ft_cb (ft fr)) (fibs s) = Inr fs1"
      and "Fiber_resume t (Place RunLoop) c fs1 = Inr fs"
      and "s' = set_frame t (fr\<lparr>pc := InCb, ft := no_task, cb_fiber := Some c\<rparr>) (s\<lparr>fibs := fs\<rparr>)"
  | (skip) "is_active fr" and "s' = set_frame t (fr\<lparr>pc := AtTop\<rparr>)
        (s\<lparr>sched := (sched s)\<lparr>m_activeThreadCount := m_activeThreadCount (sched s) - 1\<rparr>\<rparr>)"
  | (exit) "\<not> is_active fr" and "state_in (fibs s) (idle_fiber fr) = TERMINATED"
      and "s' = set_frame t (fr\<lparr>pc := Exited\<rparr>) s"
  | (idle) fs where "\<not> is_active fr" and "state_in (fibs s) (idle_fiber fr) \<noteq> TERMINATED"
      and "Fiber_resume t (Place RunLoop) (idle_fiber fr) (fibs s) = Inr fs"
      and "s' = set_frame t (fr\<lparr>pc := InIdle\<rparr>)
        (s\<lparr>fibs := fs, sched := (sched s)\<lparr>m_idleThreadCount := m_idleThreadCount (sched s) + 1\<rparr>\<rparr>)"
proof (cases "ft_fiber (ft fr) \<noteq> None \<and> state_in (fibs s) (the (ft_fiber (ft fr))) \<noteq> TERMINATED
    \<and> state_in (fibs s) (the (ft_fiber (ft fr))) \<noteq> EXCEPT")
  case True
  with assms fiber show ?thesis by (auto simp: run_dispatch_def Let_def result_simps)
next
  case no_fiber: False
  note d = assms [unfolded run_dispatch_def Let_def if_not_P [OF no_fiber]]
  show ?thesis
  proof (cases "ft_cb (ft fr) \<noteq> None")
    case True
    with d obtain c fs1 fs where c: "(case cb_fiber fr of
          Some c \<Rightarrow> bindE (Fiber_reset c (ft_cb (ft fr)) (fibs s)) (\<lambda>fs1. Inr (c, fs1))
        | None \<Rightarrow> Inr (a, Fiber_new n t a (ft_cb (ft fr)) 0 True (fibs s))) = Inr (c, fs1)"
      and r: "Fiber_resume t (Place RunLoop) c fs1 = Inr fs"
        "s' = set_frame t (fr\<lparr>pc := InCb, ft := no_task, cb_fiber := Some c\<rparr>) (s\<lparr>fibs := fs\<rparr>)"
      by (auto simp: result_simps simp del: not_None_eq)
    show ?thesis
      by (rule func [OF True _ r]) (use c in \<open>auto simp: result_simps split: option.splits\<close>)
  next
    case no_cb: False
    show ?thesis
    proof (cases "is_active fr")
      case True
      with d no_cb skip show ?thesis by simp
    next
      case inactive: False
      show ?thesis
      proof (cases "state_in (fibs s) (idle_fiber fr) = TERMINATED")
        case True
        with d no_cb inactive exit show ?thesis by simp
      next
        case False
        with d no_cb inactive obtain fs where "Fiber_resume t (Place RunLoop) (idle_fiber fr) (fibs s) = Inr fs"
          "s' = set_frame t (fr\<lparr>pc := InIdle\<rparr>)
            (s\<lparr>fibs := fs, sched := (sched s)\<lparr>m_idleThreadCount := m_idleThreadCount (sched s) + 1\<rparr>\<rparr>)"
          by (auto simp: result_simps)
        with idle [OF inactive False] show ?thesis by blast
      qed
    qed
  qed
qed

lemma stop_effect:
  assumes "stop here t s = Inr (b, s')"
  shows "frames s' = frames s" and "m_fibers (sched s') = m_fibers (sched s)"
    and "m_activeThreadCount (sched s') = m_activeThreadCount (sched s)"
    and "m_idleThreadCount (sched s') = m_idleThreadCount (sched s)"
    and "m_autoStop (sched s')" and "m_stopping (sched s')"
    and "m_rootFiber (sched s') = m_rootFiber (sched s)"
    and "fibs s' = fibs s \<or> (\<exists>r. m_rootFiber (sched s) = Some r
          \<and> Fiber_resume t (Place StopCaller) r (fibs s) = Inr (fibs s'))"
  using assms
  by (auto simp: stop_def Let_def result_simps split: option.splits if_splits)


lemma set_frame_simps [simp]:
  "frames (set_frame t fr s) = (frames s)(t \<mapsto> fr)" "sched (set_frame t fr s) = sched s"
  "fibs (set_frame t fr s) = fibs s"
  by (simp_all add: set_frame_def)

lemma schedule_in_simps [simp]:
  "frames (schedule_in x s) = frames s" "fibs (schedule_in x s) = fibs s"
  "m_activeThreadCount (sched (schedule_in x s)) = m_activeThreadCount (sched s)"
  "m_idleThreadCount (sched (schedule_in x s)) = m_idleThreadCount (sched s)"
  "m_autoStop (sched (schedule_in x s)) = m_autoStop (sched s)"
  "m_stopping (sched (schedule_in x s)) = m_stopping (sched s)"
  "m_rootFiber (sched (schedule_in x s)) = m_rootFiber (sched s)"
  by (simp_all add: schedule_in_def schedule_def scheduleNoLock_def)

lemma proper_task_scheduled: "proper_task x s \<Longrightarrow> m_fibers (sched (schedule_in x s)) = m_fibers (sched s) @ [x]"
  by (auto simp: schedule_in_def schedule_def scheduleNoLock_def proper_task_def split: option.splits)

text \<open>After a fiber switched back, the loop is at its top again, and the queue has what the label says.\<close>

lemma run_settle_effect:
  assumes "run_settle t fr s = Inr s'" and "pc fr \<in> {AfterFiber, AfterCb, AfterIdle}"
  obtains fr' where "frames s' = (frames s)(t \<mapsto> fr')" and "pc fr' = AtTop"
    and "idle_fiber fr' = idle_fiber fr" and "is_active fr' = is_active fr"
    and "ft_fiber (ft fr') \<in> {None, ft_fiber (ft fr)}" and "cb_fiber fr' \<in> {None, cb_fiber fr}"
    and "m_activeThreadCount (sched s') = m_activeThreadCount (sched s)"
    and "m_idleThreadCount (sched s') = m_idleThreadCount (sched s)"
    and "m_autoStop (sched s') = m_autoStop (sched s)" and "m_stopping (sched s') = m_stopping (sched s)"
    and "m_rootFiber (sched s') = m_rootFiber (sched s)"
    and "m_fibers (sched s') = m_fibers (sched s) @ (case settle_label fr s of Scheduled x \<Rightarrow> [x] | _ \<Rightarrow> [])"
    and "settle_label fr s \<noteq> Taken y"
    and "fibs s' = fibs s
      \<or> (\<exists>c. cb_fiber fr = c \<and> pc fr = AfterCb \<and> Fiber_reset (the c) None (fibs s) = Inr (fibs s'))
      \<or> (\<exists>f. set_state f HOLD (fibs s) = Inr (fibs s') \<and> state_in (fibs s) f \<noteq> TERMINATED
          \<and> f = (case pc fr of AfterFiber \<Rightarrow> the (ft_fiber (ft fr)) | AfterCb \<Rightarrow> the (cb_fiber fr) | _ \<Rightarrow> idle_fiber fr))"
  using assms
  by (cases "pc fr")
     (auto simp: run_settle_def settle_label_def Let_def result_simps schedule_def scheduleNoLock_def
       fiber_task_def no_task_def split: if_splits)

lemma sched_step_count:
  assumes "sched_step s l s'" and "count_inv s"
  shows "count_inv s'"
  using assms
proof cases
  case (begin_run t a i n)
  note e = run_start_effect [OF begin_run(7)]
  show ?thesis
    by (rule count_invI [OF assms(2) begin_run(2) e(2)]) (simp_all add: e(1) holds_task_def is_idle_def picked_ok_def)
next
  case (pick t fr b fr')
  from pick(2) have fr: "frames s t = Some fr" by (simp add: in_loop_def)
  from pick(4) show ?thesis
  proof (cases rule: run_pick_cases)
    case none
    then have f': "frames s' = (frames s)(t \<mapsto> fr\<lparr>pc := Picked, ft := no_task, is_active := False\<rparr>)"
      by simp
    show ?thesis
      by (rule count_invI [OF assms(2) fr f']) (use none pick(3) in \<open>simp_all add: holds_task_def is_idle_def picked_ok_def\<close>)
  next
    case (found x rest)
    then have f': "frames s' = (frames s)(t \<mapsto> fr\<lparr>pc := Picked, ft := x, is_active := True\<rparr>)"
      by simp
    show ?thesis
      by (rule count_invI [OF assms(2) fr f']) (use found pick(3) in \<open>simp_all add: holds_task_def is_idle_def picked_ok_def\<close>)
  qed
next
  case (dispatch t fr a n)
  from dispatch(2) have fr: "frames s t = Some fr" by (simp add: in_loop_def)
  note pcs = dispatch(3)
  from assms(2) fr pcs have act: "\<not> is_active fr \<Longrightarrow> ft fr = no_task"
    by (auto simp: count_inv_def picked_ok_def)
  from dispatch(5) show ?thesis
  proof (cases rule: run_dispatch_cases)
    case (fiber f fs)
    with act have a: "is_active fr" by (cases "is_active fr") (simp_all add: no_task_def)
    from fiber have f': "frames s' = (frames s)(t \<mapsto> fr\<lparr>pc := InFiber\<rparr>)" by simp
    show ?thesis
      by (rule count_invI [OF assms(2) fr f'])
         (use fiber pcs a in \<open>simp_all add: holds_task_def is_idle_def picked_ok_def\<close>)
  next
    case (func c fs1 fs)
    with act have a: "is_active fr" by (cases "is_active fr") (simp_all add: no_task_def)
    from func have f': "frames s' = (frames s)(t \<mapsto> fr\<lparr>pc := InCb, ft := no_task, cb_fiber := Some c\<rparr>)" by simp
    show ?thesis
      by (rule count_invI [OF assms(2) fr f'])
         (use func(4) pcs a in \<open>simp_all add: holds_task_def is_idle_def picked_ok_def\<close>)
  next
    case skip
    then have f': "frames s' = (frames s)(t \<mapsto> fr\<lparr>pc := AtTop\<rparr>)" by simp
    show ?thesis
      by (rule count_invI [OF assms(2) fr f'])
         (use skip pcs in \<open>simp_all add: holds_task_def is_idle_def picked_ok_def\<close>)
  next
    case exit
    then have f': "frames s' = (frames s)(t \<mapsto> fr\<lparr>pc := Exited\<rparr>)" by simp
    show ?thesis
      by (rule count_invI [OF assms(2) fr f'])
         (use exit pcs in \<open>simp_all add: holds_task_def is_idle_def picked_ok_def\<close>)
  next
    case (idle fs)
    then have f': "frames s' = (frames s)(t \<mapsto> fr\<lparr>pc := InIdle\<rparr>)" by simp
    show ?thesis
      by (rule count_invI [OF assms(2) fr f'])
         (use idle pcs in \<open>simp_all add: holds_task_def is_idle_def picked_ok_def\<close>)
  qed
next
  case (leave t fr)
  from leave(3) have fr: "frames s t = Some fr" by (simp add: in_loop_def)
  from leave(4) have f': "frames s' = (frames s)(t \<mapsto> fr\<lparr>pc := (case pc fr of InFiber \<Rightarrow> AfterFiber | InCb \<Rightarrow> AfterCb | _ \<Rightarrow> AfterIdle)\<rparr>)"
    by (auto simp: leave(2) run_leave_def Let_def)
  show ?thesis
    by (rule count_invI [OF assms(2) fr f'])
       (use leave(4) in \<open>auto simp: leave(2) run_leave_def Let_def holds_task_def is_idle_def picked_ok_def\<close>)
next
  case (settle t fr)
  from settle(2) have fr: "frames s t = Some fr" by (simp add: in_loop_def)
  from settle(4,3) show ?thesis
  proof (rule run_settle_effect)
    fix fr' assume a: "frames s' = (frames s)(t \<mapsto> fr')" "pc fr' = AtTop"
      "m_activeThreadCount (sched s') = m_activeThreadCount (sched s)"
      "m_idleThreadCount (sched s') = m_idleThreadCount (sched s)"
    show ?thesis
      by (rule count_invI [OF assms(2) fr a(1)]) (use a settle(3) in \<open>auto simp: holds_task_def is_idle_def picked_ok_def\<close>)
  qed
next
  case (idle t fr k)
  then show ?thesis by (intro count_inv_same [OF assms(2)]) (auto simp: idle_round_def result_simps split: if_splits)
next
  case (outside_stop t here b)
  show ?thesis by (rule count_inv_same [OF assms(2)]) (use stop_effect [OF outside_stop(3)] in simp_all)
qed (auto intro: count_inv_same [OF assms(2)])


lemma sched_step_tasks:
  assumes "sched_step s l s'"
  shows "case l of Scheduled x \<Rightarrow> m_fibers (sched s') = m_fibers (sched s) @ [x]
    | Taken x \<Rightarrow> mset (m_fibers (sched s)) = add_mset x (mset (m_fibers (sched s')))
    | Silent \<Rightarrow> m_fibers (sched s') = m_fibers (sched s)"
  using assms
proof cases
  case (begin_run t a i n)
  then show ?thesis by (simp add: run_start_effect)
next
  case (pick t fr b fr')
  from pick(4) show ?thesis
    by (cases rule: run_pick_cases) (use pick in auto)
next
  case (dispatch t fr a n)
  from dispatch(5) show ?thesis
    by (cases rule: run_dispatch_cases) (simp_all add: dispatch(1))
next
  case (leave t fr)
  then show ?thesis by (auto simp: run_leave_def Let_def)
next
  case (settle t fr)
  from settle(4,3) show ?thesis
  proof (rule run_settle_effect)
    assume q: "m_fibers (sched s') = m_fibers (sched s) @ (case settle_label fr s of Scheduled x \<Rightarrow> [x] | _ \<Rightarrow> [])"
    show ?thesis
    proof (cases "settle_label fr s")
      case (Taken x)
      from settle(4,3) have "settle_label fr s \<noteq> Taken x" by (rule run_settle_effect)
      with Taken show ?thesis by simp
    qed (use q settle(1) in simp_all)
  qed
next
  case (idle t fr k)
  then show ?thesis by (auto simp: idle_round_def result_simps split: if_splits)
next
  case (outside_stop t here b)
  then show ?thesis by (simp add: stop_effect)
qed (simp_all add: proper_task_scheduled)

section \<open>The idle fibers\<close>

text \<open>A fiber that exists and is not one of the idle fibers.\<close>

definition alien :: "nat \<Rightarrow> ('cb, 'k) system \<Rightarrow> bool" where
  "alien f s \<longleftrightarrow> \<not> fresh f s \<and> f \<notin> idles s"

definition idle_ok :: "nat \<Rightarrow> ('cb, 'k) system \<Rightarrow> bool" where
  "idle_ok i s \<longleftrightarrow> (\<exists>st cb. view (fibs s) i = Some (st, cb, True) \<and> cb \<in> {Some Scheduler_idle, None}
     \<and> (st = TERMINATED \<longrightarrow> m_autoStop (sched s) \<and> m_stopping (sched s)))"

definition frame_ok :: "'cb frame \<Rightarrow> ('cb, 'k) system \<Rightarrow> bool" where
  "frame_ok fr s \<longleftrightarrow> (\<forall>c. cb_fiber fr = Some c \<longrightarrow> alien c s)
     \<and> (\<forall>f. ft_fiber (ft fr) = Some f \<longrightarrow> alien f s)
     \<and> (pc fr \<in> {InCb, AfterCb} \<longrightarrow> cb_fiber fr \<noteq> None)
     \<and> (pc fr \<in> {InFiber, AfterFiber} \<longrightarrow> ft_fiber (ft fr) \<noteq> None)"

definition current_ok :: "nat \<Rightarrow> 'cb frame \<Rightarrow> ('cb, 'k) system \<Rightarrow> bool" where
  "current_ok t fr s \<longleftrightarrow> (\<exists>g. t_fiber (fibs s) t = Some g
     \<and> (alien g s \<or> g = idle_fiber fr \<and> pc fr \<notin> {InFiber, InCb}))"

definition globals_ok :: "('cb, 'k) system \<Rightarrow> bool" where
  "globals_ok s \<longleftrightarrow> (\<forall>t f. t_threadFiber (fibs s) t = Some f \<or> t_scheduler_fiber (fibs s) t = Some f
       \<or> (frames s t = None \<and> t_fiber (fibs s) t = Some f) \<longrightarrow> alien f s)
     \<and> (\<forall>f. m_rootFiber (sched s) = Some f \<longrightarrow> alien f s)
     \<and> (\<forall>x \<in> set (m_fibers (sched s)). \<forall>f. ft_fiber x = Some f \<longrightarrow> alien f s)"

definition idle_inv :: "('cb, 'k) system \<Rightarrow> bool" where
  "idle_inv s \<longleftrightarrow>
     (\<forall>t fr. frames s t = Some fr \<longrightarrow> idle_ok (idle_fiber fr) s \<and> frame_ok fr s \<and> current_ok t fr s)
     \<and> (\<forall>t u fr fr'. frames s t = Some fr \<and> frames s u = Some fr' \<and> idle_fiber fr = idle_fiber fr' \<longrightarrow> t = u)
     \<and> globals_ok s"

text \<open>A step of thread \<open>t\<close> keeps the invariant, and leaves the other activations as they are.\<close>

definition kept :: "nat \<Rightarrow> ('cb, 'k) system \<Rightarrow> ('cb, 'k) system \<Rightarrow> bool" where
  "kept t s s' \<longleftrightarrow> idle_inv s' \<and> (\<forall>u. u \<noteq> t \<longrightarrow> frames s' u = frames s u
     \<and> (\<forall>fr. frames s u = Some fr \<longrightarrow> view (fibs s') (idle_fiber fr) = view (fibs s) (idle_fiber fr)))"

lemma keptI:
  assumes "idle_inv s'" and "\<And>u. u \<noteq> t \<Longrightarrow> frames s' u = frames s u"
    and "\<And>u fr. u \<noteq> t \<Longrightarrow> frames s u = Some fr \<Longrightarrow> view (fibs s') (idle_fiber fr) = view (fibs s) (idle_fiber fr)"
  shows "kept t s s'"
  using assms by (simp add: kept_def)

lemma idle_invD:
  assumes "idle_inv s" and "frames s t = Some fr"
  shows "idle_ok (idle_fiber fr) s" and "frame_ok fr s" and "current_ok t fr s"
  using assms by (auto simp: idle_inv_def)

lemma view_fresh: "fresh g s \<longleftrightarrow> view (fibs s) g = None"
  by (simp add: fresh_def)

text \<open>
  A step of one thread in its activation keeps the invariant when it changes no other idle fiber,
  forgets no fiber, and leaves its own activation, its idle fiber and the queue in order.
\<close>

lemma idle_inv_step:
  assumes inv: "idle_inv s" and fr: "frames s t = Some fr"
    and fr': "frames s' = (frames s)(t \<mapsto> fr')" "idle_fiber fr' = idle_fiber fr"
    and dom: "\<And>g. view (fibs s) g \<noteq> None \<Longrightarrow> view (fibs s') g \<noteq> None"
    and views: "\<And>g. g \<in> idles s \<Longrightarrow> g \<noteq> idle_fiber fr \<Longrightarrow> view (fibs s') g = view (fibs s) g"
    and flags: "m_autoStop (sched s') = m_autoStop (sched s)" "m_stopping (sched s') = m_stopping (sched s)"
      "m_rootFiber (sched s') = m_rootFiber (sched s)"
    and own: "idle_ok (idle_fiber fr) s'" "frame_ok fr' s'" "current_ok t fr' s'"
    and others: "\<And>u. u \<noteq> t \<Longrightarrow> t_fiber (fibs s') u = t_fiber (fibs s) u"
    and thr: "same_threads (fibs s) (fibs s')"
    and queue: "\<And>x f. x \<in> set (m_fibers (sched s')) \<Longrightarrow> ft_fiber x = Some f \<Longrightarrow> alien f s'"
  shows "kept t s s'"
proof -
  have idles: "idles s' = idles s"
    using fr fr' by (auto simp: idles_def) (metis option.inject)
  have alien: "alien f s \<Longrightarrow> alien f s'" for f
    using dom [of f] by (simp add: alien_def idles view_fresh)
  have others_view: "view (fibs s') (idle_fiber fu) = view (fibs s) (idle_fiber fu)"
    if u: "frames s u = Some fu" "u \<noteq> t" for u fu
  proof -
    have "idle_fiber fu \<noteq> idle_fiber fr" using inv fr u by (auto simp: idle_inv_def)
    then show ?thesis by (intro views) (use u in \<open>auto simp: idles_def\<close>)
  qed
  have others_ok: "idle_ok (idle_fiber fu) s' \<and> frame_ok fu s' \<and> current_ok u fu s'"
    if u: "frames s u = Some fu" "u \<noteq> t" for u fu
  proof -
    note i = idle_invD [OF inv u(1)]
    have "idle_ok (idle_fiber fu) s'" using i(1) others_view [OF u] by (simp add: idle_ok_def flags)
    moreover have "frame_ok fu s'" using i(2) alien by (auto simp: frame_ok_def)
    moreover have "current_ok u fu s'" using i(3) alien others [OF u(2)] by (auto simp: current_ok_def)
    ultimately show ?thesis by simp
  qed
  moreover have "globals_ok s'"
  proof -
    have g: "globals_ok s" using inv by (simp add: idle_inv_def)
    have "alien f s'" if "t_threadFiber (fibs s') u = Some f \<or> t_scheduler_fiber (fibs s') u = Some f
        \<or> (frames s' u = None \<and> t_fiber (fibs s') u = Some f)" for u f
    proof -
      have "frames s' u = None \<Longrightarrow> u \<noteq> t \<and> frames s u = None" using fr'(1) by (auto split: if_splits)
      then have "t_threadFiber (fibs s) u = Some f \<or> t_scheduler_fiber (fibs s) u = Some f
        \<or> (frames s u = None \<and> t_fiber (fibs s) u = Some f)"
        using that thr others by (auto simp: same_threads_def)
      then have "alien f s" using g unfolding globals_ok_def by blast
      then show ?thesis by (rule alien)
    qed
    moreover have "alien f s'" if "m_rootFiber (sched s') = Some f" for f
      using g that alien flags(3) by (simp add: globals_ok_def)
    ultimately show ?thesis using queue unfolding globals_ok_def by blast
  qed
  moreover have "\<forall>t u fr fr'. frames s' t = Some fr \<and> frames s' u = Some fr' \<and> idle_fiber fr = idle_fiber fr' \<longrightarrow> t = u"
  proof (intro allI impI)
    fix u v fu fv
    assume a: "frames s' u = Some fu \<and> frames s' v = Some fv \<and> idle_fiber fu = idle_fiber fv"
    have "\<exists>f. frames s w = Some f \<and> idle_fiber f = idle_fiber fw" if "frames s' w = Some fw" for w fw
      using that fr fr' by (cases "w = t") auto
    with a obtain f1 f2 where "frames s u = Some f1" "frames s v = Some f2" "idle_fiber f1 = idle_fiber f2"
      by metis
    then show "u = v" using inv unfolding idle_inv_def by blast
  qed
  moreover have "idle_ok (idle_fiber fu) s' \<and> frame_ok fu s' \<and> current_ok u fu s'" if u: "frames s' u = Some fu" for u fu
    using that own fr' others_ok [of u fu] by (cases "u = t") auto
  ultimately have "idle_inv s'" unfolding idle_inv_def by blast
  then show ?thesis by (rule keptI) (use fr'(1) others_view in auto)
qed


lemma idle_in_idles: "frames s t = Some fr \<Longrightarrow> idle_fiber fr \<in> idles s"
  by (auto simp: idles_def)

lemma idles_same:
  assumes "frames s t = Some fr" and "frames s' = (frames s)(t \<mapsto> fr')" and "idle_fiber fr' = idle_fiber fr"
  shows "idles s' = idles s"
  using assms by (auto simp: idles_def) (metis option.inject)

lemma idle_not_fresh: "idle_inv s \<Longrightarrow> i \<in> idles s \<Longrightarrow> \<not> fresh i s"
  unfolding idles_def idle_inv_def idle_ok_def view_fresh by fastforce

lemma resumer_alien: "idle_inv s \<Longrightarrow> resumer t x (fibs s) = Some m \<Longrightarrow> alien m s"
  by (auto simp: resumer_def idle_inv_def globals_ok_def split: if_splits)

text \<open>
  The same for a step that changes one fiber \<open>f\<close>, which is no idle fiber or the thread's own, and
  makes \<open>g\<close> the current fiber of the thread.
\<close>

lemma idle_inv_change:
  assumes inv: "idle_inv s" and fr: "frames s t = Some fr"
    and fr': "frames s' = (frames s)(t \<mapsto> fr')" "idle_fiber fr' = idle_fiber fr"
    and sched: "m_autoStop (sched s') = m_autoStop (sched s)" "m_stopping (sched s') = m_stopping (sched s)"
      "m_rootFiber (sched s') = m_rootFiber (sched s)" "m_fibers (sched s') = m_fibers (sched s)"
    and view: "view (fibs s') = (view (fibs s))(f \<mapsto> v)"
    and f: "f \<notin> idles s \<or> f = idle_fiber fr \<and> idle_ok f s'"
    and thr: "same_threads (fibs s) (fibs s')"
    and cur: "t_fiber (fibs s') = (t_fiber (fibs s))(t \<mapsto> g)"
    and g: "alien g s \<or> g = f \<and> f \<notin> idles s \<or> g = idle_fiber fr \<and> pc fr' \<notin> {InFiber, InCb}"
    and frame: "\<And>c. cb_fiber fr' = Some c \<Longrightarrow> c = f \<and> f \<notin> idles s \<or> alien c s"
      "\<And>c. ft_fiber (ft fr') = Some c \<Longrightarrow> alien c s"
      "pc fr' \<in> {InCb, AfterCb} \<Longrightarrow> cb_fiber fr' \<noteq> None"
      "pc fr' \<in> {InFiber, AfterFiber} \<Longrightarrow> ft_fiber (ft fr') \<noteq> None"
  shows "kept t s s'"
proof -
  note idl = idles_same [OF fr fr']
  have al: "alien c s'" if "alien c s \<or> c = f \<and> f \<notin> idles s" for c
    using that view by (cases v) (auto simp: alien_def idl view_fresh simp del: view_None)
  have own: "idle_ok (idle_fiber fr) s'"
  proof (cases "f = idle_fiber fr")
    case True
    with f idle_in_idles [OF fr] show ?thesis by blast
  next
    case False
    with idle_invD(1) [OF inv fr] view show ?thesis by (simp add: idle_ok_def sched)
  qed
  show ?thesis
  proof (rule idle_inv_step [OF inv fr fr' _ _ sched(1-3) own])
    show "frame_ok fr' s'" unfolding frame_ok_def using frame al by blast
    show "current_ok t fr' s'" using cur g al fr'(2) by (auto simp: current_ok_def)
    show "alien c s'" if "x \<in> set (m_fibers (sched s'))" "ft_fiber x = Some c" for x c
      using inv that sched(4) al by (auto simp: idle_inv_def globals_ok_def)
    show "view (fibs s') i = view (fibs s) i" if "i \<in> idles s" "i \<noteq> idle_fiber fr" for i
      using that f view by auto
    show "view (fibs s') h \<noteq> None" if "view (fibs s) h \<noteq> None" for h
      using that view by (cases v) (simp del: view_None)
  qed (use view thr cur in auto)
qed

text \<open>And for one that changes no fiber.\<close>

lemma idle_inv_keep:
  assumes inv: "idle_inv s" and fr: "frames s t = Some fr"
    and fr': "frames s' = (frames s)(t \<mapsto> fr')" "idle_fiber fr' = idle_fiber fr"
    and sched: "m_autoStop (sched s') = m_autoStop (sched s)" "m_stopping (sched s') = m_stopping (sched s)"
      "m_rootFiber (sched s') = m_rootFiber (sched s)"
    and queue: "\<And>x f. x \<in> set (m_fibers (sched s')) \<Longrightarrow> ft_fiber x = Some f \<Longrightarrow> alien f s"
    and view: "view (fibs s') = view (fibs s)" and thr: "same_threads (fibs s) (fibs s')"
    and cur: "t_fiber (fibs s') = t_fiber (fibs s)"
    and pcs: "pc fr' \<notin> {InFiber, InCb} \<or> pc fr' = pc fr"
    and frame: "\<And>c. cb_fiber fr' = Some c \<or> ft_fiber (ft fr') = Some c \<Longrightarrow> alien c s"
      "pc fr' \<in> {InCb, AfterCb} \<Longrightarrow> cb_fiber fr' \<noteq> None"
      "pc fr' \<in> {InFiber, AfterFiber} \<Longrightarrow> ft_fiber (ft fr') \<noteq> None"
  shows "kept t s s'"
proof -
  note idl = idles_same [OF fr fr']
  have al: "alien c s' = alien c s" for c by (simp add: alien_def idl view_fresh view)
  show ?thesis
  proof (rule idle_inv_step [OF inv fr fr' _ _ sched])
    show "idle_ok (idle_fiber fr) s'" using idle_invD(1) [OF inv fr] by (simp add: idle_ok_def sched view)
    show "frame_ok fr' s'" unfolding frame_ok_def using frame al by blast
    show "current_ok t fr' s'" using idle_invD(3) [OF inv fr] pcs by (auto simp: current_ok_def cur al fr'(2))
    show "alien c s'" if "x \<in> set (m_fibers (sched s'))" "ft_fiber x = Some c" for x c
      using queue that al by blast
  qed (use view thr cur in auto)
qed

lemma queue_alien: "idle_inv s \<Longrightarrow> x \<in> set (m_fibers (sched s)) \<Longrightarrow> ft_fiber x = Some f \<Longrightarrow> alien f s"
  by (auto simp: idle_inv_def globals_ok_def)

end
