(* ===== verification/SchedulerProps.thy ===== *)
theory SchedulerProps
  imports SchedulerRun
begin

text \<open>
  What holds in every run of the scheduler: the idle fibers end only after the scheduler was told
  to stop, the counters count, no task is lost or taken twice, and when all threads have left the
  loop every task has been taken.
\<close>

section \<open>The idle fibers in every step\<close>

lemma alien_not_own: "frames s t = Some fr \<Longrightarrow> alien f s \<Longrightarrow> f \<noteq> idle_fiber fr"
  by (auto simp: alien_def idles_def)

lemma alien_not_idle: "alien f s \<Longrightarrow> f \<notin> idles s"
  by (simp add: alien_def)

text \<open>The function of a user is never run by an idle fiber, nor is one of them current there.\<close>

lemma in_functionD:
  assumes "in_function t fr f s" and "idle_inv s"
  shows "frames s t = Some fr" and "f \<notin> idles s"
    and "t_fiber (fibs s) t = Some g \<Longrightarrow> alien g s"
proof -
  from assms(1) show fr: "frames s t = Some fr" by (simp add: in_function_def)
  from assms(1) obtain x cb where x: "fiber_heap (fibs s) f = Some x" "fiber_cb x = Some (Job cb)"
    by (auto simp: in_function_def)
  show "f \<notin> idles s"
  proof
    assume "f \<in> idles s"
    then have "idle_ok f s" using assms(2) by (auto simp: idles_def idle_inv_def)
    with x show False by (auto simp: idle_ok_def view_def)
  qed
  show "alien g s" if "t_fiber (fibs s) t = Some g"
    using idle_invD(3) [OF assms(2) fr] that assms(1) by (auto simp: current_ok_def in_function_def)
qed

lemma GetThis_current:
  assumes "GetThis t a fs = Inr (g, fs')" and "t_fiber fs t = Some h"
  shows "g = h" and "fs' = fs"
  using assms by (auto simp: GetThis_def result_simps)

lemma idle_inv_pick:
  assumes "idle_inv s" and "in_loop t fr s" and "pc fr = AtTop" and "run_pick t fr s = Inr (b, s')"
  shows "kept t s s'"
  using assms(4)
proof (cases rule: run_pick_cases)
  case none
  from assms(2) have fr: "frames s t = Some fr" by (simp add: in_loop_def)
  show ?thesis
    by (rule idle_inv_keep [OF assms(1) fr, where fr' = "fr\<lparr>pc := Picked, ft := no_task, is_active := False\<rparr>"])
       (use none idle_invD(2) [OF assms(1) fr] queue_alien [OF assms(1)] in
        \<open>auto simp: same_threads_def frame_ok_def no_task_def\<close>)
next
  case (found x rest)
  from assms(2) have fr: "frames s t = Some fr" by (simp add: in_loop_def)
  have x: "x \<in> set (m_fibers (sched s))" "set rest \<subseteq> set (m_fibers (sched s))"
    using found(3) by (metis set_mset_mset set_mset_add_mset_insert insertI1, metis set_mset_mset set_mset_add_mset_insert subset_insertI)
  show ?thesis
    by (rule idle_inv_keep [OF assms(1) fr, where fr' = "fr\<lparr>pc := Picked, ft := x, is_active := True\<rparr>"])
       (use found(2) x idle_invD(2) [OF assms(1) fr] queue_alien [OF assms(1)] in
        \<open>auto simp: same_threads_def frame_ok_def\<close>)
qed

lemma idle_inv_dispatch:
  assumes inv: "idle_inv s" and "in_loop t fr s" and pc: "pc fr = Picked" and a: "fresh a s"
    and "run_dispatch n t a fr s = Inr s'"
  shows "kept t s s'"
proof -
  from assms(2) have fr: "frames s t = Some fr" by (simp add: in_loop_def)
  note ok = idle_invD(2) [OF inv fr]
  have a': "a \<notin> idles s" using idle_not_fresh [OF inv] a by blast
  from assms(5) show ?thesis
  proof (cases rule: run_dispatch_cases)
    case (fiber f fs)
    from fiber(2) obtain x where e: "fiber_heap (fibs s) f = Some x" "view fs = (view (fibs s))(f \<mapsto> (EXEC, fiber_cb x, use_caller x))"
      "t_fiber fs = (t_fiber (fibs s))(t \<mapsto> f)" "same_threads (fibs s) fs" by (rule Fiber_resume_effect)
    have f: "alien f s" using ok fiber(1) by (simp add: frame_ok_def)
    show ?thesis
      by (rule idle_inv_change [OF inv fr, where fr' = "fr\<lparr>pc := InFiber\<rparr>" and f = f and g = f])
         (use fiber e f ok alien_not_idle in \<open>auto simp: frame_ok_def\<close>)
  next
    case (func c fs1 fs)
    from func(3) obtain x where e: "fiber_heap fs1 c = Some x" "view fs = (view fs1)(c \<mapsto> (EXEC, fiber_cb x, use_caller x))"
      "t_fiber fs = (t_fiber fs1)(t \<mapsto> c)" "same_threads fs1 fs" by (rule Fiber_resume_effect)
    have c: "c \<notin> idles s" using func(2) ok a' alien_not_idle by (auto simp: frame_ok_def)
    have r: "view fs = (view (fibs s))(c \<mapsto> (EXEC, fiber_cb x, use_caller x))
      \<and> t_fiber fs = (t_fiber (fibs s))(t \<mapsto> c) \<and> same_threads (fibs s) fs"
      using func(2)
    proof (elim disjE conjE)
      assume "c = a" "fs1 = Fiber_new n t a (ft_cb (ft fr)) 0 True (fibs s)"
      then show ?thesis using e by (auto simp: Fiber_new_effect same_threads_def [of fs1]
        same_threads_def [of _ fs] Fiber_new_effect(3) [unfolded same_threads_def])
    next
      assume "Fiber_reset c (ft_cb (ft fr)) (fibs s) = Inr fs1"
      then show ?thesis by (rule Fiber_reset_effect) (use e in \<open>auto simp: same_threads_def\<close>)
    qed
    show ?thesis
      by (rule idle_inv_change [OF inv fr, where fr' = "fr\<lparr>pc := InCb, ft := no_task, cb_fiber := Some c\<rparr>"
            and f = c and g = c])
         (use func(4) r c ok in \<open>auto simp: frame_ok_def no_task_def\<close>)
  next
    case skip
    show ?thesis
      by (rule idle_inv_keep [OF inv fr, where fr' = "fr\<lparr>pc := AtTop\<rparr>"])
         (use skip ok queue_alien [OF inv] in \<open>auto simp: same_threads_def frame_ok_def\<close>)
  next
    case exit
    show ?thesis
      by (rule idle_inv_keep [OF inv fr, where fr' = "fr\<lparr>pc := Exited\<rparr>"])
         (use exit ok queue_alien [OF inv] in \<open>auto simp: same_threads_def frame_ok_def\<close>)
  next
    case (idle fs)
    from idle(3) obtain x where e: "fiber_heap (fibs s) (idle_fiber fr) = Some x"
      "view fs = (view (fibs s))(idle_fiber fr \<mapsto> (EXEC, fiber_cb x, use_caller x))"
      "t_fiber fs = (t_fiber (fibs s))(t \<mapsto> idle_fiber fr)" "same_threads (fibs s) fs"
      by (rule Fiber_resume_effect)
    have i: "idle_ok (idle_fiber fr) s'"
      using idle_invD(1) [OF inv fr] e(1,2) idle(4) by (auto simp: idle_ok_def view_def)
    show ?thesis
      by (rule idle_inv_change [OF inv fr, where fr' = "fr\<lparr>pc := InIdle\<rparr>" and f = "idle_fiber fr"
            and g = "idle_fiber fr"])
         (use idle(4) e i ok in \<open>auto simp: frame_ok_def\<close>)
  qed
qed

lemma idle_inv_leave:
  assumes inv: "idle_inv s" and "in_loop t fr s" and pc: "pc fr \<in> {InFiber, InCb, InIdle}"
  shows "kept t s (run_leave t fr s)"
proof -
  from assms(2) have fr: "frames s t = Some fr" by (simp add: in_loop_def)
  note ok = idle_invD(2) [OF inv fr]
  let ?fr = "fr\<lparr>pc := (case pc fr of InFiber \<Rightarrow> AfterFiber | InCb \<Rightarrow> AfterCb | _ \<Rightarrow> AfterIdle)\<rparr>"
  have s': "frames (run_leave t fr s) = (frames s)(t \<mapsto> ?fr)" "fibs (run_leave t fr s) = fibs s"
    "m_autoStop (sched (run_leave t fr s)) = m_autoStop (sched s)"
    "m_stopping (sched (run_leave t fr s)) = m_stopping (sched s)"
    "m_rootFiber (sched (run_leave t fr s)) = m_rootFiber (sched s)"
    "m_fibers (sched (run_leave t fr s)) = m_fibers (sched s)"
    using pc by (auto simp: run_leave_def Let_def)
  have "pc ?fr \<notin> {InFiber, InCb}" "pc ?fr \<in> {InCb, AfterCb} \<Longrightarrow> cb_fiber fr \<noteq> None"
    "pc ?fr \<in> {InFiber, AfterFiber} \<Longrightarrow> ft_fiber (ft fr) \<noteq> None"
    using pc ok by (auto simp: frame_ok_def)
  then show ?thesis
    by (intro idle_inv_keep [OF inv fr s'(1)])
       (use ok queue_alien [OF inv] in \<open>simp_all add: s' same_threads_def frame_ok_def\<close>, blast)
qed

lemma idle_inv_settle:
  assumes inv: "idle_inv s" and "in_loop t fr s" and pc: "pc fr \<in> {AfterFiber, AfterCb, AfterIdle}"
    and st: "run_settle t fr s = Inr s'"
  shows "kept t s s'"
  using st pc
proof (rule run_settle_effect)
  from assms(2) have fr: "frames s t = Some fr" by (simp add: in_loop_def)
  note ok = idle_invD(2) [OF inv fr]
  fix fr' y
  assume e: "frames s' = (frames s)(t \<mapsto> fr')" "pc fr' = AtTop" "idle_fiber fr' = idle_fiber fr"
    "ft_fiber (ft fr') \<in> {None, ft_fiber (ft fr)}" "cb_fiber fr' \<in> {None, cb_fiber fr}"
    "m_autoStop (sched s') = m_autoStop (sched s)" "m_stopping (sched s') = m_stopping (sched s)"
    "m_rootFiber (sched s') = m_rootFiber (sched s)"
    and q: "m_fibers (sched s') = m_fibers (sched s) @ (case settle_label fr s of Scheduled x \<Rightarrow> [x] | _ \<Rightarrow> [])"
    and fs: "fibs s' = fibs s
      \<or> (\<exists>c. cb_fiber fr = c \<and> pc fr = AfterCb \<and> Fiber_reset (the c) None (fibs s) = Inr (fibs s'))
      \<or> (\<exists>f. set_state f HOLD (fibs s) = Inr (fibs s') \<and> state_in (fibs s) f \<noteq> TERMINATED
          \<and> f = (case pc fr of AfterFiber \<Rightarrow> the (ft_fiber (ft fr)) | AfterCb \<Rightarrow> the (cb_fiber fr) | _ \<Rightarrow> idle_fiber fr))"
  have lab: "settle_label fr s = Scheduled x \<Longrightarrow> ft_fiber x = Some f \<Longrightarrow> alien f s" for x f
    using ok pc by (auto simp: settle_label_def fiber_task_def frame_ok_def split: if_splits)
  have queue: "alien f s" if "x \<in> set (m_fibers (sched s'))" "ft_fiber x = Some f" for x f
    using that queue_alien [OF inv, of x f] lab [of x f] by (cases "settle_label fr s") (auto simp: q)
  have frs: "alien c s" if "cb_fiber fr' = Some c \<or> ft_fiber (ft fr') = Some c" for c
    using that e(4,5) ok by (auto simp: frame_ok_def)
  have change: "kept t s s'"
    if v: "view (fibs s') = (view (fibs s))(f \<mapsto> v)" "t_fiber (fibs s') = t_fiber (fibs s)"
      "same_threads (fibs s) (fibs s')" "alien f s \<or> f = idle_fiber fr \<and> idle_ok f s'" for f v
  proof -
    note idl = idles_same [OF fr e(1,3)]
    have al: "alien c s \<Longrightarrow> alien c s'" for c
      using v(1) by (cases v) (auto simp: alien_def idl view_fresh simp del: view_None)
    have own: "idle_ok (idle_fiber fr) s'"
      using v(4) alien_not_own [OF fr] idle_invD(1) [OF inv fr] v(1) by (auto simp: idle_ok_def e)
    show ?thesis
    proof (rule idle_inv_step [OF inv fr e(1,3) _ _ e(6,7,8) own])
      show "view (fibs s') h \<noteq> None" if "view (fibs s) h \<noteq> None" for h
        using that v(1) by (cases v) (simp del: view_None)
      show "view (fibs s') i = view (fibs s) i" if "i \<in> idles s" "i \<noteq> idle_fiber fr" for i
        using that v(1,4) alien_not_idle by auto
      show "frame_ok fr' s'" using frs al e(2) by (auto simp: frame_ok_def)
      show "current_ok t fr' s'"
        using idle_invD(3) [OF inv fr] v(2) al e(2,3) by (auto simp: current_ok_def)
      show "alien f s'" if "x \<in> set (m_fibers (sched s'))" "ft_fiber x = Some f" for x f
        using queue [OF that] by (rule al)
    qed (use v(2,3) in auto)
  qed
  from fs show "kept t s s'"
  proof (elim disjE exE conjE)
    assume "fibs s' = fibs s"
    then show ?thesis
      by (intro idle_inv_keep [OF inv fr e(1,3) e(6,7,8) queue]) (use e(2) frs in \<open>auto simp: same_threads_def\<close>)
  next
    fix c assume c: "cb_fiber fr = c" "pc fr = AfterCb" "Fiber_reset (the c) None (fibs s) = Inr (fibs s')"
    from c ok have "alien (the c) s" by (auto simp: frame_ok_def)
    with c(3) show ?thesis by (elim Fiber_reset_effect) (rule change, auto)
  next
    fix f assume f: "set_state f HOLD (fibs s) = Inr (fibs s')"
      "f = (case pc fr of AfterFiber \<Rightarrow> the (ft_fiber (ft fr)) | AfterCb \<Rightarrow> the (cb_fiber fr) | _ \<Rightarrow> idle_fiber fr)"
    from f(1) obtain x where x: "fiber_heap (fibs s) f = Some x"
      "view (fibs s') = (view (fibs s))(f \<mapsto> (HOLD, fiber_cb x, use_caller x))"
      "t_fiber (fibs s') = t_fiber (fibs s)" "same_threads (fibs s) (fibs s')" by (rule set_state_effect)
    have "alien f s \<or> f = idle_fiber fr \<and> idle_ok f s'"
    proof (cases "pc fr = AfterIdle")
      case True
      with f(2) have f': "f = idle_fiber fr" by simp
      with idle_invD(1) [OF inv fr] x(1,2) show ?thesis by (auto simp: idle_ok_def view_def)
    next
      case False
      with f(2) pc ok show ?thesis by (auto simp: frame_ok_def)
    qed
    then show ?thesis by (rule change [OF x(2-4)])
  qed
qed


text \<open>A step that only changes the fibers, of which at most one that is not idle.\<close>

lemma idle_inv_fibs:
  assumes "idle_inv s" and fr: "frames s t = Some fr"
    and "view fs = (view (fibs s))(f \<mapsto> v)" and "f \<notin> idles s"
    and "same_threads (fibs s) fs" and "t_fiber fs = (t_fiber (fibs s))(t \<mapsto> g)"
    and "alien g s \<or> g = f"
  shows "kept t s (s\<lparr>fibs := fs\<rparr>)"
proof (rule idle_inv_change [OF assms(1) fr, where fr' = fr and f = f and g = g])
  show "frames (s\<lparr>fibs := fs\<rparr>) = (frames s)(t \<mapsto> fr)" using fr by (simp add: fun_upd_idem)
qed (use assms idle_invD(2) [OF assms(1) fr] in \<open>auto simp: frame_ok_def\<close>)

lemma idle_inv_executes:
  assumes "idle_inv s" and fr: "frames s t = Some fr"
  shows "kept t s (s\<lparr>fibs := (fibs s)\<lparr>executes := e\<rparr>\<rparr>)"
proof (rule idle_inv_keep [OF assms(1) fr, where fr' = fr])
  show "frames (s\<lparr>fibs := (fibs s)\<lparr>executes := e\<rparr>\<rparr>) = (frames s)(t \<mapsto> fr)" using fr by (simp add: fun_upd_idem)
qed (use idle_invD(2) [OF assms(1) fr] queue_alien [OF assms(1)] in
      \<open>auto simp: frame_ok_def same_threads_def view_def fun_eq_iff\<close>)

lemma idle_inv_enqueue:
  assumes inv: "idle_inv s" and px: "proper_task x s"
  shows "kept t s (schedule_in x s)"
proof -
  let ?s = "schedule_in x s"
  have al: "alien f ?s = alien f s" for f by (simp add: alien_def idles_def fresh_def)
  have "ft_fiber y = Some f \<Longrightarrow> y \<in> set (m_fibers (sched ?s)) \<Longrightarrow> alien f s" for y f
    using px queue_alien [OF inv, of y f]
    by (auto simp: proper_task_scheduled [OF px]) (simp add: proper_task_def alien_def)
  then have "idle_inv ?s"
    using inv by (auto simp: idle_inv_def globals_ok_def idle_ok_def frame_ok_def current_ok_def al)
  then show ?thesis by (rule keptI) simp_all
qed

lemma idle_inv_begin:
  assumes inv: "idle_inv s" and n: "frames s t = None" and a: "fresh a s" and i: "fresh i s" and ai: "a \<noteq> i"
    and root: "int t \<noteq> m_rootThread (sched s)
      \<or> (executes (fibs s) t = Entry \<and> t_fiber (fibs s) t = m_rootFiber (sched s))"
    and st: "run_start n' t a i s = Inr s'"
  shows "kept t s s'"
proof -
  let ?fr = "\<lparr>pc = AtTop, ft = no_task, is_active = False, cb_fiber = None, idle_fiber = i\<rparr>"
  note e = run_start_effect [OF st]
  obtain fs2 where fs2: "(if int t \<noteq> m_rootThread (sched s) then
              bindE (GetThis t a (fibs s)) (\<lambda>(m, fs1).
              Inr (fs1\<lparr>t_scheduler_fiber := (t_scheduler_fiber fs1)(t \<mapsto> m)\<rparr>))
            else Inr (fibs s)) = Inr fs2"
    and s': "fibs s' = (Fiber_new n' t i (Some Scheduler_idle) 0 True fs2)
        \<lparr>executes := (executes fs2)(t := Place RunLoop)\<rparr>"
    using st by (auto simp: run_start_def result_simps Let_def Fiber_new_effect split: if_splits)
  have i': "i \<notin> idles s" using idle_not_fresh [OF inv] i by blast
  have a': "a \<notin> idles s" using idle_not_fresh [OF inv] a by blast
  have idl: "idles s' = insert i (idles s)"
    using n by (auto simp: idles_def e(2) split: if_splits) (metis option.simps(3))
  have v2: "view fs2 g = view (fibs s) g \<or> g = a \<and> view fs2 g \<noteq> None" for g
    using fs2 by (auto simp: GetThis_def result_simps Let_def Fiber_main_def view_def set_fiber_def SetThis_def
      split: if_splits option.splits)
  have v: "view (fibs s') g = (if g = i then Some (INIT, Some Scheduler_idle, True) else view fs2 g)" for g
    by (simp add: s' view_def Fiber_new_def Let_def SetThis_def set_fiber_def)
  have al: "alien f s'" if "alien f s \<or> f = a \<and> view fs2 a \<noteq> None" for f
    using that i a i' a' ai v2 [of f] by (auto simp: alien_def idl v view_fresh simp del: view_None)
  have th: "t_threadFiber fs2 u = Some f \<or> t_scheduler_fiber fs2 u = Some f
      \<Longrightarrow> alien f s \<or> f = a \<and> view fs2 a \<noteq> None" for u f
    using fs2 inv n
    by (auto simp: GetThis_def result_simps Let_def Fiber_main_def set_fiber_def SetThis_def view_def
      idle_inv_def globals_ok_def split: if_splits option.splits)
  have tf: "u \<noteq> t \<Longrightarrow> t_fiber (fibs s') u = t_fiber (fibs s) u" for u
    using fs2 by (auto simp: s' Fiber_new_effect GetThis_def result_simps Let_def Fiber_main_def
      split: if_splits option.splits)
  have old: "idle_ok (idle_fiber fu) s' \<and> frame_ok fu s' \<and> current_ok u fu s'" if u: "frames s u = Some fu" for u fu
  proof -
    note k = idle_invD [OF inv u]
    have "u \<noteq> t" using u n by auto
    have j: "idle_fiber fu \<in> idles s" using u by (auto simp: idles_def)
    then have "view (fibs s') (idle_fiber fu) = view (fibs s) (idle_fiber fu)"
      using i' a' v2 [of "idle_fiber fu"] by (auto simp: v)
    then have "idle_ok (idle_fiber fu) s'" using k(1) by (simp add: idle_ok_def e(1))
    moreover have "frame_ok fu s'" using k(2) al by (auto simp: frame_ok_def)
    moreover have "current_ok u fu s'" using k(3) al tf [OF \<open>u \<noteq> t\<close>] by (auto simp: current_ok_def)
    ultimately show ?thesis by simp
  qed
  have new: "idle_ok i s' \<and> frame_ok ?fr s' \<and> current_ok t ?fr s'"
    by (simp add: idle_ok_def v frame_ok_def current_ok_def no_task_def) (simp add: s' Fiber_new_effect)
  have glob: "globals_ok s'"
  proof -
    have g: "globals_ok s" using inv by (simp add: idle_inv_def)
    have "alien f s'" if "t_threadFiber (fibs s') u = Some f \<or> t_scheduler_fiber (fibs s') u = Some f
        \<or> (frames s' u = None \<and> t_fiber (fibs s') u = Some f)" for u f
    proof -
      have "t_threadFiber fs2 u = Some f \<or> t_scheduler_fiber fs2 u = Some f
          \<or> (u \<noteq> t \<and> frames s u = None \<and> t_fiber (fibs s) u = Some f)"
        using that tf [of u] Fiber_new_effect(3) [of fs2 n' t i "Some Scheduler_idle" 0 True]
        by (auto simp: s' e(2) same_threads_def split: if_splits)
      then show ?thesis using th [of u f] g al [of f] by (auto simp: globals_ok_def)
    qed
    moreover have "alien f s'" if "m_rootFiber (sched s') = Some f" for f
      using g that al by (auto simp: globals_ok_def e(1))
    moreover have "alien f s'" if "x \<in> set (m_fibers (sched s'))" "ft_fiber x = Some f" for x f
      using that queue_alien [OF inv] al by (simp add: e(1))
    ultimately show ?thesis unfolding globals_ok_def by blast
  qed
  have inj: "u = w" if "frames s' u = Some fu" "frames s' w = Some fw" "idle_fiber fu = idle_fiber fw" for u w fu fw
  proof -
    have "frames s x = Some fx \<Longrightarrow> idle_fiber fx \<noteq> i" for x fx using i' by (auto simp: idles_def)
    with that inv show ?thesis unfolding idle_inv_def by (fastforce simp: e(2) split: if_splits)
  qed
  have fr': "idle_ok (idle_fiber fu) s' \<and> frame_ok fu s' \<and> current_ok u fu s'" if "frames s' u = Some fu" for u fu
    using that new old [of u fu] by (auto simp: e(2) split: if_splits)
  have "idle_inv s'" unfolding idle_inv_def using fr' inj glob by blast
  moreover have "view (fibs s') (idle_fiber fu) = view (fibs s) (idle_fiber fu)" if "frames s u = Some fu" for u fu
    using i' a' v2 [of "idle_fiber fu"] idle_in_idles [OF that] by (auto simp: v)
  ultimately show ?thesis by (intro keptI) (simp_all add: e(2))
qed


lemma idle_inv_stop:
  assumes inv: "idle_inv s" and n: "frames s t = None" and st: "stop here t s = Inr (b, s')"
  shows "kept t s s'"
proof -
  note e = stop_effect [OF st]
  have idl: "idles s' = idles s" by (simp add: idles_def e(1))
  have "\<exists>f v. alien f s \<and> view (fibs s') = (view (fibs s))(f \<mapsto> v) \<and> t_fiber (fibs s') = (t_fiber (fibs s))(t \<mapsto> f)
      \<and> same_threads (fibs s) (fibs s')" if "fibs s' \<noteq> fibs s"
  proof -
    from that e(8) obtain r where r: "m_rootFiber (sched s) = Some r"
      "Fiber_resume t (Place StopCaller) r (fibs s) = Inr (fibs s')" by blast
    from r(1) inv have "alien r s" by (auto simp: idle_inv_def globals_ok_def)
    with r(2) show ?thesis by (elim Fiber_resume_effect) blast
  qed
  then consider "fibs s' = fibs s" | f v where "alien f s" "view (fibs s') = (view (fibs s))(f \<mapsto> v)"
    "t_fiber (fibs s') = (t_fiber (fibs s))(t \<mapsto> f)" "same_threads (fibs s) (fibs s')" by blast
  then have c: "(\<forall>c. alien c s \<longrightarrow> alien c s') \<and> (\<forall>i \<in> idles s. view (fibs s') i = view (fibs s) i)
      \<and> (\<forall>u. u \<noteq> t \<longrightarrow> t_fiber (fibs s') u = t_fiber (fibs s) u) \<and> same_threads (fibs s) (fibs s')
      \<and> (\<forall>g. t_fiber (fibs s') t = Some g \<longrightarrow> t_fiber (fibs s) t = Some g \<or> alien g s)"
  proof cases
    case 1
    then show ?thesis by (simp add: alien_def idl fresh_def same_threads_def)
  next
    case (2 f v)
    have "alien c s \<Longrightarrow> alien c s'" for c
      using 2(2) by (cases v) (auto simp: alien_def idl view_fresh simp del: view_None)
    with 2 alien_not_idle [OF 2(1)] show ?thesis by auto
  qed
  have "idle_ok (idle_fiber fu) s' \<and> frame_ok fu s' \<and> current_ok u fu s'" if u: "frames s u = Some fu" for u fu
  proof -
    note k = idle_invD [OF inv u]
    have "u \<noteq> t" using u n by auto
    have "idle_fiber fu \<in> idles s" using u by (auto simp: idles_def)
    then have "idle_ok (idle_fiber fu) s'" using k(1) c e(5,6) by (auto simp: idle_ok_def)
    moreover have "frame_ok fu s'" using k(2) c by (auto simp: frame_ok_def)
    moreover have "current_ok u fu s'" using k(3) c \<open>u \<noteq> t\<close> by (auto simp: current_ok_def)
    ultimately show ?thesis by simp
  qed
  moreover have "globals_ok s'"
  proof -
    have g: "globals_ok s" using inv by (simp add: idle_inv_def)
    have "alien f s'" if "t_threadFiber (fibs s') u = Some f \<or> t_scheduler_fiber (fibs s') u = Some f
        \<or> (frames s' u = None \<and> t_fiber (fibs s') u = Some f)" for u f
    proof -
      have "t_threadFiber (fibs s) u = Some f \<or> t_scheduler_fiber (fibs s) u = Some f
        \<or> (frames s u = None \<and> t_fiber (fibs s) u = Some f) \<or> alien f s"
        using that c n by (cases "u = t") (auto simp: same_threads_def e(1))
      then show ?thesis using g c unfolding globals_ok_def by blast
    qed
    then show ?thesis using g c by (auto simp: globals_ok_def e(2,7))
  qed
  ultimately have "idle_inv s'" using inv by (auto simp: idle_inv_def e(1))
  then show ?thesis by (rule keptI) (use c e(1) in \<open>auto simp: idles_def\<close>)
qed

lemma idle_inv_round:
  assumes inv: "idle_inv s" and fr: "frames s t = Some fr" and pc: "pc fr = InIdle"
    and st: "idle_round t (idle_fiber fr) k s = Inr s'"
  shows "kept t s s'"
proof -
  note ok = idle_invD [OF inv fr]
  have change: "kept t s s'"
    if "s' = s\<lparr>fibs := fs\<rparr>" "view fs = (view (fibs s))(f \<mapsto> v)" "same_threads (fibs s) fs"
      "t_fiber fs = (t_fiber (fibs s))(t \<mapsto> m)" "alien m s"
      "f \<notin> idles s \<or> f = idle_fiber fr \<and> idle_ok f s'" for fs f v m
  proof (rule idle_inv_change [OF inv fr, where fr' = fr and f = f and g = m])
    show "frames s' = (frames s)(t \<mapsto> fr)" using fr that(1) by (simp add: fun_upd_idem)
  qed (use that ok(2) pc in \<open>auto simp: frame_ok_def\<close>)
  show ?thesis
  proof (cases "stopping (sched s)")
    case True
    with st obtain fs where fs: "Fiber_return t (idle_fiber fr) (fibs s) = Inr fs" "s' = s\<lparr>fibs := fs\<rparr>"
      by (auto simp: idle_round_def result_simps)
    from fs(1) show ?thesis
    proof (rule Fiber_return_effect)
      fix x m
      assume x: "fiber_heap (fibs s) (idle_fiber fr) = Some x" and r: "resumer t x (fibs s) = Some m"
        "same_threads (fibs s) fs" "t_fiber fs = (t_fiber (fibs s))(t \<mapsto> m)"
        and v: "view fs = (view (fibs s))(idle_fiber fr \<mapsto> (TERMINATED, None, use_caller x))"
      have "idle_ok (idle_fiber fr) s'"
        using ok(1) x v True by (auto simp: idle_ok_def fs(2) view_def stopping_def)
      with r v resumer_alien [OF inv r(1)] show "kept t s s'" by (intro change [OF fs(2)]) auto
    qed
  next
    case False
    from ok(3) obtain g where g: "t_fiber (fibs s) t = Some g" "alien g s \<or> g = idle_fiber fr"
      by (auto simp: current_ok_def)
    from False st obtain h fs1 fs where h: "GetThis t 0 (fibs s) = Inr (h, fs1)"
      "Fiber_yield t (Place (Code (idle_fiber fr) k)) h fs1 = Inr fs" "s' = s\<lparr>fibs := fs\<rparr>"
      by (auto simp: idle_round_def result_simps)
    from h GetThis_current [OF h(1) g(1)] have fs: "Fiber_yield t (Place (Code (idle_fiber fr) k)) g (fibs s) = Inr fs"
      "s' = s\<lparr>fibs := fs\<rparr>" by simp_all
    from fs(1) show ?thesis
    proof (rule Fiber_yield_effect)
      fix x m
      assume x: "fiber_heap (fibs s) g = Some x" and r: "resumer t x (fibs s) = Some m"
        "same_threads (fibs s) fs" "t_fiber fs = (t_fiber (fibs s))(t \<mapsto> m)"
        and v: "view fs = (view (fibs s))(g \<mapsto>
          (if use_caller x \<or> m_state x = TERMINATED then m_state x else READY, fiber_cb x, use_caller x))"
      have "g \<notin> idles s \<or> g = idle_fiber fr \<and> idle_ok g s'"
      proof (cases "g = idle_fiber fr")
        case True
        with ok(1) x v show ?thesis by (auto simp: idle_ok_def fs(2) view_def)
      qed (use g(2) alien_not_idle in blast)
      with r v resumer_alien [OF inv r(1)] show "kept t s s'" by (intro change [OF fs(2)]) auto
    qed
  qed
qed

section \<open>Leaving the loop\<close>

lemma state_in_view: "state_in fs f = (case view fs f of None \<Rightarrow> TERMINATED | Some (st, _) \<Rightarrow> st)"
  by (simp add: state_in_def view_def split: option.splits)

text \<open>An activation that will not look for a task again: its idle fiber ended and it found none.\<close>

definition leaving :: "'cb frame \<Rightarrow> ('cb, 'k) system \<Rightarrow> bool" where
  "leaving fr s \<longleftrightarrow> state_in (fibs s) (idle_fiber fr) = TERMINATED
     \<and> (pc fr = Exited \<or> pc fr = Picked \<and> \<not> is_active fr)"

definition exit_inv :: "bool \<Rightarrow> ('cb, 'k) system \<Rightarrow> bool" where
  "exit_inv p s \<longleftrightarrow> (\<forall>t fr. frames s t = Some fr \<and> pc fr = Exited \<longrightarrow> leaving fr s)
     \<and> (p \<longrightarrow> (\<forall>t. frames s t = None) \<or> m_fibers (sched s) = []
          \<or> (\<exists>t fr. frames s t = Some fr \<and> \<not> leaving fr s))"

lemma kept_leaving:
  assumes "kept t s s'" and "u \<noteq> t" and "frames s u = Some fr"
  shows "frames s' u = Some fr" and "leaving fr s' = leaving fr s"
  using assms by (auto simp: kept_def leaving_def state_in_view)

lemma exit_inv_step:
  assumes k: "kept t s s'" and inv: "exit_inv p s" and fr: "frames s' t = Some fr'"
    and ex: "pc fr' = Exited \<Longrightarrow> leaving fr' s'"
    and q: "p \<Longrightarrow> \<not> leaving fr' s' \<or> m_fibers (sched s') = []
      \<or> (\<exists>fr. frames s t = Some fr \<and> leaving fr s \<and> m_fibers (sched s') = m_fibers (sched s))"
  shows "exit_inv p s'"
proof -
  have "leaving fu s'" if "frames s' u = Some fu" "pc fu = Exited" for u fu
  proof (cases "u = t")
    case True
    with that fr ex show ?thesis by simp
  next
    case False
    with k that have "frames s u = Some fu" by (simp add: kept_def)
    with kept_leaving [OF k False this] inv that show ?thesis by (simp add: exit_inv_def)
  qed
  moreover have "m_fibers (sched s') = [] \<or> (\<exists>u fu. frames s' u = Some fu \<and> \<not> leaving fu s')" if p: p
    using q [OF p]
  proof (elim disjE exE conjE)
    fix fr0 assume f: "frames s t = Some fr0" "leaving fr0 s" "m_fibers (sched s') = m_fibers (sched s)"
    from inv f(1) consider "m_fibers (sched s) = []" | u fu where "frames s u = Some fu" "\<not> leaving fu s"
      using p unfolding exit_inv_def by force
    then show ?thesis
    proof cases
      case 1
      with f(3) show ?thesis by simp
    next
      case (2 u fu)
      with f have "u \<noteq> t" by auto
      with kept_leaving [OF k this 2(1)] 2(2) show ?thesis by blast
    qed
  qed (use fr in auto)
  ultimately show ?thesis unfolding exit_inv_def by blast
qed

text \<open>A thread in the middle of a task or of its idle fiber is not leaving.\<close>

lemma exit_inv_busy:
  assumes "kept t s s'" and "exit_inv p s" and "frames s' t = Some fr'" and "pc fr' \<notin> {Exited, Picked}"
  shows "exit_inv p s'"
  by (rule exit_inv_step [OF assms(1-3)]) (use assms(4) in \<open>auto simp: leaving_def\<close>)

definition plain_task :: "'cb FiberAndThread \<Rightarrow> bool" where
  "plain_task x \<longleftrightarrow> ft_fiber x = None \<and> ft_thread x = -1"

lemma find_task_plain:
  assumes "\<forall>x \<in> set q. plain_task x" and "find_task me st tm before q = Inr (None, b, rest)"
  shows "q = []"
  using assms by (cases q) (auto simp: plain_task_def result_simps split: if_splits)

text \<open>Every step keeps both invariants; the second as long as all tasks in the queue are functions
  that any thread may run.\<close>

lemma sched_step_kept:
  assumes "sched_step s l s'" and inv: "idle_inv s"
  shows "idle_inv s' \<and> (exit_inv p s \<and> (p \<longrightarrow> (\<forall>x \<in> set (m_fibers (sched s)). plain_task x)) \<longrightarrow> exit_inv p s')"
proof -
  have busy: ?thesis if "kept t s s'" "frames s' t = Some fr'" "pc fr' \<notin> {Exited, Picked}" for t fr'
    using that exit_inv_busy [OF that(1) _ that(2,3)] by (auto simp: kept_def)
  show ?thesis
    using assms(1)
  proof cases
    case (begin_run t a i n)
    then show ?thesis
      by (intro busy [OF idle_inv_begin [OF inv begin_run(2-7)]]) (auto simp: run_start_effect)
  next
    case (pick t fr b fr')
    note k = idle_inv_pick [OF inv pick(2-4)]
    have "exit_inv p s'" if e: "exit_inv p s" and p: "p \<longrightarrow> (\<forall>x \<in> set (m_fibers (sched s)). plain_task x)"
      using pick(4)
    proof (cases rule: run_pick_cases)
      case none
      with find_task_plain [OF _ none(2)] p show ?thesis
        by (intro exit_inv_step [OF k e, where fr' = "fr\<lparr>pc := Picked, ft := no_task, is_active := False\<rparr>"]) auto
    next
      case (found x rest)
      then show ?thesis
        by (intro exit_inv_step [OF k e, where fr' = "fr\<lparr>pc := Picked, ft := x, is_active := True\<rparr>"])
           (auto simp: leaving_def)
    qed
    with k show ?thesis by (simp add: kept_def)
  next
    case (dispatch t fr a n)
    note k = idle_inv_dispatch [OF inv dispatch(2-5)]
    from dispatch(5) show ?thesis
    proof (cases rule: run_dispatch_cases)
      case exit
      have "leaving fr s" using exit dispatch(3) by (simp add: leaving_def)
      moreover have "frames s t = Some fr" using dispatch(2) by (simp add: in_loop_def)
      moreover have "exit_inv p s'" if "exit_inv p s"
        by (rule exit_inv_step [OF k that, where fr' = "fr\<lparr>pc := Exited\<rparr>"])
           (use exit calculation in \<open>auto simp: leaving_def\<close>)
      ultimately show ?thesis using k by (simp add: kept_def)
    qed (rule busy [OF k], simp, simp)+
  next
    case (leave t fr)
    have k: "kept t s s'" unfolding leave(2) by (rule idle_inv_leave [OF inv leave(3,4)])
    have "\<exists>fr'. frames s' t = Some fr' \<and> pc fr' \<notin> {Exited, Picked}"
      using leave(4) unfolding leave(2) by (auto simp: run_leave_def Let_def)
    with k show ?thesis by (elim exE conjE) (rule busy)
  next
    case (settle t fr)
    note k = idle_inv_settle [OF inv settle(2-4)]
    from settle(4,3) obtain fr' where "frames s' = (frames s)(t \<mapsto> fr')" "pc fr' = AtTop"
      by (rule run_settle_effect)
    then show ?thesis by (intro busy [OF k]) auto
  next
    case (enter t fr f cb fs k)
    from idle_invD(3) [OF inv enter(3)] enter(6) have "fs = fibs s"
      by (auto simp: current_ok_def Fiber_enter_def result_simps elim!: GetThis_current)
    then have "kept t s s'" using idle_inv_executes [OF inv enter(3)] by (simp add: enter(2))
    then show ?thesis by (rule busy) (use enter in auto)
  next
    case (enter_empty t fr f fs fs')
    from idle_invD(3) [OF inv enter_empty(3)] obtain g where g: "t_fiber (fibs s) t = Some g"
      "alien g s \<or> g = idle_fiber fr \<and> pc fr \<notin> {InFiber, InCb}" by (auto simp: current_ok_def)
    from enter_empty(6) g(1) have f: "f = g" "fs = fibs s"
      by (auto simp: Fiber_enter_def result_simps dest: GetThis_current)
    from g(2) enter_empty(4) have al: "alien g s" by blast
    from enter_empty(7) have "kept t s (s\<lparr>fibs := fs'\<rparr>)" unfolding f
    proof (rule Fiber_throw_effect)
      fix x m
      assume "resumer t x (fibs s) = Some m" "same_threads (fibs s) fs'" "t_fiber fs' = (t_fiber (fibs s))(t \<mapsto> m)"
        "view fs' = (view (fibs s))(g \<mapsto> (if use_caller x then EXCEPT else READY, fiber_cb x, use_caller x))"
      then show "kept t s (s\<lparr>fibs := fs'\<rparr>)"
        using idle_inv_fibs [OF inv enter_empty(3) _ alien_not_idle [OF al]] resumer_alien [OF inv] by blast
    qed
    then have "kept t s s'" by (simp only: enter_empty(2))
    then show ?thesis by (rule busy) (use enter_empty in auto)
  next
    case (user_schedule t fr f x)
    note u = in_functionD [OF user_schedule(3) inv]
    have "kept t s s'" unfolding user_schedule(2) by (rule idle_inv_enqueue [OF inv user_schedule(4)])
    then show ?thesis by (rule busy) (use u(1) user_schedule(2,3) in \<open>auto simp: in_function_def\<close>)
  next
    case (user_yield t fr f g fs k fs')
    note u = in_functionD [OF user_yield(3) inv]
    from idle_invD(3) [OF inv u(1)] obtain h where h: "t_fiber (fibs s) t = Some h" by (auto simp: current_ok_def)
    from GetThis_current [OF user_yield(4) h] u(3) [OF h] have g: "alien g s" "fs = fibs s" by auto
    from user_yield(5) have "kept t s (s\<lparr>fibs := fs'\<rparr>)" unfolding g(2)
    proof (rule Fiber_yield_effect)
      fix x m
      assume "resumer t x (fibs s) = Some m" "same_threads (fibs s) fs'" "t_fiber fs' = (t_fiber (fibs s))(t \<mapsto> m)"
        "view fs' = (view (fibs s))(g \<mapsto> (if use_caller x \<or> m_state x = TERMINATED then m_state x else READY,
          fiber_cb x, use_caller x))"
      then show "kept t s (s\<lparr>fibs := fs'\<rparr>)"
        using idle_inv_fibs [OF inv u(1) _ alien_not_idle [OF g(1)]] resumer_alien [OF inv] by blast
    qed
    then have "kept t s s'" by (simp only: user_yield(2))
    then show ?thesis by (rule busy) (use user_yield u(1) in \<open>auto simp: in_function_def\<close>)
  next
    case (user_new t fr f a n cb sz)
    note u = in_functionD [OF user_new(3) inv]
    have "a \<notin> idles s" using idle_not_fresh [OF inv] user_new(4) by blast
    then have "kept t s s'" unfolding user_new(2)
      using idle_inv_fibs [OF inv u(1) Fiber_new_effect(1) _ Fiber_new_effect(3,2)] by blast
    then show ?thesis by (rule busy) (use user_new u(1) in \<open>auto simp: in_function_def\<close>)
  next
    case (user_return t fr f fs)
    note u = in_functionD [OF user_return(3) inv]
    from user_return(4) have "kept t s (s\<lparr>fibs := fs\<rparr>)"
    proof (rule Fiber_return_effect)
      fix x m
      assume "resumer t x (fibs s) = Some m" "same_threads (fibs s) fs" "t_fiber fs = (t_fiber (fibs s))(t \<mapsto> m)"
        "view fs = (view (fibs s))(f \<mapsto> (TERMINATED, None, use_caller x))"
      then show "kept t s (s\<lparr>fibs := fs\<rparr>)"
        using idle_inv_fibs [OF inv u(1) _ u(2)] resumer_alien [OF inv] by blast
    qed
    then have "kept t s s'" by (simp only: user_return(2))
    then show ?thesis by (rule busy) (use user_return u(1) in \<open>auto simp: in_function_def\<close>)
  next
    case (user_throw t fr f fs)
    note u = in_functionD [OF user_throw(3) inv]
    from user_throw(4) have "kept t s (s\<lparr>fibs := fs\<rparr>)"
    proof (rule Fiber_throw_effect)
      fix x m
      assume "resumer t x (fibs s) = Some m" "same_threads (fibs s) fs" "t_fiber fs = (t_fiber (fibs s))(t \<mapsto> m)"
        "view fs = (view (fibs s))(f \<mapsto> (if use_caller x then EXCEPT else READY, fiber_cb x, use_caller x))"
      then show "kept t s (s\<lparr>fibs := fs\<rparr>)"
        using idle_inv_fibs [OF inv u(1) _ u(2)] resumer_alien [OF inv] by blast
    qed
    then have "kept t s s'" by (simp only: user_throw(2))
    then show ?thesis by (rule busy) (use user_throw u(1) in \<open>auto simp: in_function_def\<close>)
  next
    case (idle t fr k)
    have "frames s' t = Some fr"
      using idle(2,5) by (auto simp: idle_round_def result_simps split: if_splits)
    with idle(3) show ?thesis by (intro busy [OF idle_inv_round [OF inv idle(2,3,5)]]) auto
  next
    case (outside_schedule x)
    note k = idle_inv_enqueue [OF inv outside_schedule(4)]
    have n: "\<not> leaving fu s'" if "frames s' u = Some fu" for u fu
      using idle_invD(1) [OF inv, of u fu] that outside_schedule(2,3)
      by (auto simp: leaving_def idle_ok_def state_in_view)
    have "exit_inv p s'" if "exit_inv p s"
    proof -
      have "leaving fu s'" if "frames s' u = Some fu \<and> pc fu = Exited" for u fu
        using that \<open>exit_inv p s\<close> outside_schedule(2) by (auto simp: exit_inv_def leaving_def)
      moreover have "(\<forall>t. frames s' t = None) \<or> (\<exists>t fr. frames s' t = Some fr \<and> \<not> leaving fr s')"
        using n by (meson option.exhaust)
      ultimately show ?thesis unfolding exit_inv_def by blast
    qed
    with k outside_schedule(2) show ?thesis by (auto simp: kept_def)
  next
    case (outside_stop t here b)
    note k = idle_inv_stop [OF inv outside_stop(2,3)]
    note e = stop_effect [OF outside_stop(3)]
    have "leaving fu s' = leaving fu s" if "frames s u = Some fu" for u fu
      by (rule kept_leaving(2) [OF k _ that]) (use that outside_stop(2) in auto)
    then have "exit_inv p s'" if "exit_inv p s"
      using that unfolding exit_inv_def e(1,2) by blast
    with k show ?thesis by (simp add: kept_def)
  qed
qed


section \<open>All runs\<close>

lemma initial_idle: "initial s \<Longrightarrow> idle_inv s"
  by (auto simp: initial_def idle_inv_def globals_ok_def alien_def idles_def)

lemma initial_count: "initial s \<Longrightarrow> count_inv s"
  by (simp add: initial_def count_inv_def counted_def)

lemma sched_run_inv:
  assumes "sched_run s ss ts"
  shows "count_inv s \<and> idle_inv s \<and> mset ss = mset (m_fibers (sched s)) + mset ts
    \<and> exit_inv (\<forall>x \<in> set ss. plain_task x) s"
  using assms
proof induction
  case (run_init s)
  then show ?case by (simp add: initial_idle initial_count) (simp add: initial_def exit_inv_def)
next
  case (run_step s ss ts l s' ss' ts')
  note c = sched_step_count [OF run_step.hyps(2)] and k = sched_step_kept [OF run_step.hyps(2)]
    and q = sched_step_tasks [OF run_step.hyps(2)]
  have m: "mset ss' = mset (m_fibers (sched s')) + mset ts'" and sub: "set ss \<subseteq> set ss'"
    using q run_step.hyps(3) run_step.IH by (cases l; auto)+
  have "set (m_fibers (sched s)) \<subseteq> set ss"
    using run_step.IH by (metis mset_subset_eq_add_left set_mset_mono set_mset_mset)
  moreover have "exit_inv (\<forall>x \<in> set ss'. plain_task x) s"
    using run_step.IH sub by (auto simp: exit_inv_def)
  ultimately have "exit_inv (\<forall>x \<in> set ss'. plain_task x) s'"
    using k [of "\<forall>x \<in> set ss'. plain_task x"] sub run_step.IH by blast
  with c k m run_step.IH show ?case by blast
qed

text \<open>In every run the counters say how many threads hold a task and how many are idle, so
  that \<open>stopping\<close> holds only when no task is queued and none is held; and a thread has left the loop
  only if the scheduler was told to stop.\<close>

theorem scheduler_counters:
  assumes "sched_run s ss ts" and "card (dom (frames s)) < 2 ^ 64"
  shows "m_activeThreadCount (sched s) = of_nat (card {t. \<exists>fr. frames s t = Some fr \<and> holds_task fr})
    \<and> m_idleThreadCount (sched s) = of_nat (card {t. \<exists>fr. frames s t = Some fr \<and> pc fr = InIdle})
    \<and> (stopping (sched s) \<longrightarrow> m_fibers (sched s) = [] \<and> (\<forall>t fr. frames s t = Some fr \<longrightarrow> \<not> holds_task fr))
    \<and> (\<forall>t fr. frames s t = Some fr \<and> pc fr = Exited \<longrightarrow> m_autoStop (sched s) \<and> m_stopping (sched s))"
proof -
  note inv = sched_run_inv [OF assms(1)]
  from inv have c: "m_activeThreadCount (sched s) = of_nat (card (counted holds_task s))"
    "m_idleThreadCount (sched s) = of_nat (card (counted is_idle s))" and fin: "finite (dom (frames s))"
    by (simp_all add: count_inv_def)
  have "counted holds_task s = {}" if "m_activeThreadCount (sched s) = 0"
  proof -
    have "card (counted holds_task s) \<le> card (dom (frames s))"
      by (rule card_mono [OF fin]) (auto simp: counted_def)
    with assms(2) have "card (counted holds_task s) < 2 ^ 64" by simp
    then have "unat (of_nat (card (counted holds_task s)) :: 64 word) = card (counted holds_task s)"
      by (simp add: unat_of_nat)
    with that c(1) have "card (counted holds_task s) = 0" by simp
    with counted_finite [OF fin] show ?thesis by simp
  qed
  moreover have "m_autoStop (sched s) \<and> m_stopping (sched s)" if f: "frames s t = Some fr" "pc fr = Exited" for t fr
  proof -
    from inv have e: "exit_inv (\<forall>x \<in> set ss. plain_task x) s" and i: "idle_inv s" by blast+
    from e f have "leaving fr s" unfolding exit_inv_def by blast
    with idle_invD(1) [OF i f(1)] show ?thesis
      by (auto simp: leaving_def idle_ok_def state_in_view)
  qed
  moreover have "counted holds_task s = {} \<Longrightarrow> frames s t = Some fr \<Longrightarrow> \<not> holds_task fr" for t fr
    by (auto simp: counted_def)
  ultimately show ?thesis
    using c unfolding stopping_def counted_def is_idle_def by blast
qed



section \<open>An example run\<close>

text \<open>Steps of one thread as commands, so that a run can be computed.\<close>

datatype cmd = Begin nat nat | Pick | Dispatch nat | Leave | Settle | Enter | Return | Idle | Submit nat | Stop

fun silent :: "fiber_error + (nat, nat) system \<Rightarrow> (nat label \<times> (nat, nat) system) option" where
  "silent (Inl _) = None"
| "silent (Inr s') = Some (Silent, s')"

lemma silent_Some [simp]: "silent r = Some (l, s') \<longleftrightarrow> l = Silent \<and> r = Inr s'"
  by (cases r) auto

fun exec_frame :: "nat \<Rightarrow> cmd \<Rightarrow> nat frame \<Rightarrow> (nat, nat) system \<Rightarrow> (nat label \<times> (nat, nat) system) option" where
  "exec_frame t Pick fr s =
     (if executes (fibs s) t = Place RunLoop \<and> pc fr = AtTop then
        (case run_pick t fr s of Inl _ \<Rightarrow> None
         | Inr (_, s') \<Rightarrow>
            (case frames s' t of None \<Rightarrow> None
             | Some fr' \<Rightarrow> Some (if is_active fr' then Taken (ft fr') else Silent, s'))) else None)"
| "exec_frame t (Dispatch a) fr s =
     (if executes (fibs s) t = Place RunLoop \<and> pc fr = Picked \<and> fiber_heap (fibs s) a = None
      then silent (run_dispatch 100 t a fr s) else None)"
| "exec_frame t Leave fr s =
     (if executes (fibs s) t = Place RunLoop \<and> pc fr \<in> {InFiber, InCb, InIdle}
      then Some (Silent, run_leave t fr s) else None)"
| "exec_frame t Settle fr s =
     (if executes (fibs s) t = Place RunLoop \<and> pc fr \<in> {AfterFiber, AfterCb, AfterIdle} then
        (case run_settle t fr s of Inl _ \<Rightarrow> None | Inr s' \<Rightarrow> Some (settle_label fr s, s')) else None)"
| "exec_frame t Enter fr s =
     (if executes (fibs s) t = Entry \<and> pc fr \<in> {InFiber, InCb, InIdle} then
        (case Fiber_enter t 0 (fibs s) of
           Inr ((f, Some cb), fs) \<Rightarrow>
             Some (Silent, s\<lparr>fibs := fs\<lparr>executes := (executes fs)(t := Place (Code f 0))\<rparr>\<rparr>)
         | _ \<Rightarrow> None) else None)"
| "exec_frame t Return fr s =
     (case executes (fibs s) t of
        Place (Code f k) \<Rightarrow>
          (case fiber_heap (fibs s) f of
             Some x \<Rightarrow> (case fiber_cb x of
                 Some (Job _) \<Rightarrow> if pc fr \<in> {InFiber, InCb} then
                   (case Fiber_return t f (fibs s) of Inl _ \<Rightarrow> None
                    | Inr fs \<Rightarrow> Some (Silent, s\<lparr>fibs := fs\<rparr>)) else None
               | _ \<Rightarrow> None)
           | None \<Rightarrow> None)
      | _ \<Rightarrow> None)"
| "exec_frame t Idle fr s =
     (if executes (fibs s) t = Place (Code (idle_fiber fr) 0) \<and> pc fr = InIdle
      then silent (idle_round t (idle_fiber fr) 0 s) else None)"
| "exec_frame t _ fr s = None"

fun exec_cmd :: "nat \<Rightarrow> cmd \<Rightarrow> (nat, nat) system \<Rightarrow> (nat label \<times> (nat, nat) system) option" where
  "exec_cmd t (Begin a i) s =
     (if frames s t = None \<and> fiber_heap (fibs s) a = None \<and> fiber_heap (fibs s) i = None
        \<and> a \<noteq> i \<and> int t \<noteq> m_rootThread (sched s) then silent (run_start 100 t a i s) else None)"
| "exec_cmd t (Submit n) s =
     (if m_stopping (sched s) then None
      else Some (Scheduled (cb_task (Job n) (-1)), schedule_in (cb_task (Job n) (-1)) s))"
| "exec_cmd t Stop s =
     (case stop False 99 s of Inl _ \<Rightarrow> None
      | Inr (_, s') \<Rightarrow> if frames s 99 = None then Some (Silent, s') else None)"
| "exec_cmd t c s = (case frames s t of None \<Rightarrow> None | Some fr \<Rightarrow> exec_frame t c fr s)"

lemma pick_taken:
  "run_pick t fr s = Inr (b, s') \<Longrightarrow> frames s t = Some fr \<Longrightarrow> executes (fibs s) t = Place RunLoop \<Longrightarrow> pc fr = AtTop \<Longrightarrow> frames s' t = Some fr'
    \<Longrightarrow> is_active fr' \<Longrightarrow> sched_step s (Taken (ft fr')) s'"
  using pick [of t fr s b s' fr'] by (simp add: in_loop_def)

lemma pick_none:
  "run_pick t fr s = Inr (b, s') \<Longrightarrow> frames s t = Some fr \<Longrightarrow> executes (fibs s) t = Place RunLoop \<Longrightarrow> pc fr = AtTop \<Longrightarrow> frames s' t = Some fr'
    \<Longrightarrow> \<not> is_active fr' \<Longrightarrow> sched_step s Silent s'"
  using pick [of t fr s b s' fr'] by (simp add: in_loop_def)

lemma exec_frame_sound:
  assumes "exec_frame t c fr s = Some (l, s')" and fr: "frames s t = Some fr"
  shows "sched_step s l s'"
proof (cases c)
  case Pick
  with assms(1) show ?thesis
    by (auto simp: in_loop_def fr split: if_splits sum.splits option.splits
      intro: pick_taken [OF _ fr] pick_none [OF _ fr])
next
  case (Dispatch a)
  with assms(1) show ?thesis
    by (auto simp: in_loop_def fresh_def fr split: if_splits intro!: dispatch [where fr = fr and a = a and t = t])
next
  case Leave
  with assms(1) show ?thesis
    by (auto simp: in_loop_def fr split: if_splits intro!: leave)
next
  case Settle
  with assms(1) show ?thesis
    by (auto simp: in_loop_def fr split: if_splits sum.splits intro!: settle)
next
  case Enter
  with assms(1) show ?thesis
    by (auto simp: fr split: if_splits sum.splits option.splits prod.splits intro!: enter)
next
  case Return
  with assms(1) show ?thesis
    by (auto simp: in_function_def fr split: if_splits sum.splits option.splits coctx.splits
      place.splits job.splits intro!: user_return)
next
  case Idle
  with assms(1) show ?thesis
    by (auto simp: fr split: if_splits intro!: idle [where fr = fr and t = t])
qed (use assms in simp_all)

lemma exec_cmd_sound:
  assumes "exec_cmd t c s = Some (l, s')"
  shows "sched_step s l s'"
  using assms
proof (cases "(t, c, s)" rule: exec_cmd.cases)
  case (1 a i)
  with assms show ?thesis by (auto simp: fresh_def split: if_splits intro: begin_run)
next
  case (2 n)
  with assms show ?thesis
    by (auto simp: proper_task_def cb_task_def split: if_splits intro!: outside_schedule)
next
  case 3
  with assms show ?thesis by (auto split: if_splits sum.splits intro: outside_stop)
qed (auto split: option.splits dest!: exec_frame_sound simp del: exec_frame.simps)

fun exec_run :: "nat \<Rightarrow> cmd list \<Rightarrow> (nat, nat) system \<times> nat FiberAndThread list \<times> nat FiberAndThread list
    \<Rightarrow> ((nat, nat) system \<times> nat FiberAndThread list \<times> nat FiberAndThread list) option" where
  "exec_run t [] r = Some r"
| "exec_run t (c # cs) (s, ss, ts) =
     (case exec_cmd t c s of None \<Rightarrow> None | Some (l, s') \<Rightarrow> exec_run t cs (s', log_of l (ss, ts)))"

lemma exec_run_sound:
  assumes "exec_run t cs (s, ss, ts) = Some (s', ss', ts')" and "sched_run s ss ts"
  shows "sched_run s' ss' ts'"
  using assms
proof (induction cs arbitrary: s ss ts)
  case (Cons c cs)
  from Cons.prems(1) obtain l s1 where c: "exec_cmd t c s = Some (l, s1)"
    "exec_run t cs (s1, log_of l (ss, ts)) = Some (s', ss', ts')"
    by (auto split: option.splits)
  obtain ss1 ts1 where l: "log_of l (ss, ts) = (ss1, ts1)" by (cases "log_of l (ss, ts)")
  from run_step [OF Cons.prems(2) exec_cmd_sound [OF c(1)] l] c(2) l show ?case
    by (intro Cons.IH) simp_all
qed simp

definition demo_system :: "(nat, nat) system" where
  "demo_system = \<lparr>fibs = \<lparr>fiber_heap = (\<lambda>_. None), s_fiber_id = 0, s_fiber_count = 0, t_fiber = (\<lambda>_. None),
     t_threadFiber = (\<lambda>_. None), t_scheduler_fiber = (\<lambda>_. None), executes = (\<lambda>_. Entry)\<rparr>,
   sched = \<lparr>m_fibers = [], m_rootFiber = None, m_threadIds = [], m_threadCount = 1,
     m_activeThreadCount = 0, m_idleThreadCount = 0, m_stopping = False, m_autoStop = False, m_rootThread = -1\<rparr>,
   frames = (\<lambda>_. None)\<rparr>"

definition demo_script :: "cmd list" where
  "demo_script = [Begin 0 1, Submit 7, Pick, Dispatch 2, Enter, Return, Leave, Settle, Pick, Dispatch 3, Enter,
     Stop, Idle, Leave, Settle, Pick, Dispatch 3]"

definition demo_end :: "(nat, nat) system" where
  "demo_end = fst (the (exec_run 1 demo_script (demo_system, [], [])))"

lemmas loop_defs = run_start_def GetThis_def Fiber_main_def SetThis_def set_fiber_def Fiber_new_def
  run_pick_def state_in_def set_frame_def run_dispatch_def Fiber_resume_def Fiber_yield_def fiber_at_def
  resumer_def coctx_swap_def no_task_def cb_task_def Fiber_enter_def Fiber_return_def run_leave_def
  run_settle_def settle_label_def Fiber_reset_def set_state_def idle_round_def stopping_def stop_def
  schedule_in_def schedule_def scheduleNoLock_def

lemma demo_run:
  "sched_run demo_end [cb_task (Job 7) (-1)] [cb_task (Job 7) (-1)]"
  "\<exists>fr. frames demo_end = [1 \<mapsto> fr] \<and> pc fr = Exited"
proof -
  have i: "sched_run demo_system [] []"
    by (rule run_init) (simp add: initial_def demo_system_def)
  have r: "\<exists>s. exec_run 1 demo_script (demo_system, [], []) = Some (s, [cb_task (Job 7) (-1)], [cb_task (Job 7) (-1)])
      \<and> (\<exists>fr. frames s = [1 \<mapsto> fr] \<and> pc fr = Exited)"
    by (simp add: demo_script_def demo_system_def Let_def loop_defs) (rule exI, rule conjI, rule refl, simp)
  then obtain s fr where s: "exec_run 1 demo_script (demo_system, [], []) = Some (s, [cb_task (Job 7) (-1)], [cb_task (Job 7) (-1)])"
    "frames s = [1 \<mapsto> fr]" "pc fr = Exited" by blast
  then have "demo_end = s" by (simp add: demo_end_def)
  with exec_run_sound [OF s(1) i] show "sched_run demo_end [cb_task (Job 7) (-1)] [cb_task (Job 7) (-1)]"
    by simp
  show "\<exists>fr. frames demo_end = [1 \<mapsto> fr] \<and> pc fr = Exited"
    unfolding \<open>demo_end = s\<close> using s(2,3) by blast
qed

theorem scheduler_counters_witness:
  "m_activeThreadCount (sched demo_end) = of_nat (card {t. \<exists>fr. frames demo_end t = Some fr \<and> holds_task fr})
    \<and> m_autoStop (sched demo_end) \<and> m_stopping (sched demo_end)"
proof -
  from demo_run(2) obtain fr where fr: "frames demo_end = [1 \<mapsto> fr]" "pc fr = Exited" by blast
  then have "frames demo_end 1 = Some fr" "card (dom (frames demo_end)) < 2 ^ 64" by simp_all
  with scheduler_counters [OF demo_run(1)] fr(2) show ?thesis by blast
qed


end
