(* ===== verification/IoManager.thy ===== *)
theory IoManager
  imports Scheduler Timer
begin

unbundle bit_operations_syntax

text \<open>
  The scheduler with I/O events and timers (\<open>src/sylar/iomanager.cc\<close>, \<open>iomanager.h\<close>). The context of
  each file descriptor says which events are awaited and what to schedule when one happens; the
  kernel's \<open>epoll_ctl\<close> is a parameter that maps the request and the state of the epoll instance to
  a return value and a new state. Each operation holds the lock of the context it works on, so it
  is one step. Logging is left out.
\<close>

section \<open>Model\<close>

definition NONE :: "32 word" where "NONE = 0"
definition READ :: "32 word" where "READ = 1"
definition WRITE :: "32 word" where "WRITE = 4"

text \<open>The flags of \<open>epoll\<close> the code uses.\<close>

definition EPOLLIN :: "32 word" where "EPOLLIN = 1"
definition EPOLLOUT :: "32 word" where "EPOLLOUT = 4"
definition EPOLLERR :: "32 word" where "EPOLLERR = 8"
definition EPOLLHUP :: "32 word" where "EPOLLHUP = 16"
definition EPOLLET :: "32 word" where "EPOLLET = 0x80000000"

datatype EpollCtlOp = EPOLL_CTL_ADD | EPOLL_CTL_MOD | EPOLL_CTL_DEL

record 'c EventContext =
  ec_scheduler :: "nat option"
  ec_fiber :: "nat option"
  ec_cb :: "'c callback option"

record 'c FdContext =
  read_ctx :: "'c EventContext"
  write_ctx :: "'c EventContext"
  ctx_fd :: int
  events :: "32 word"

text \<open>
  The manager: its contexts, the count of awaited events, the timers, the state \<open>'e\<close> of the epoll
  instance, its own number among the schedulers, and all schedulers, since an event goes back to
  the scheduler that asked for it. \<open>tickles\<close> counts the bytes written to the pipe.
\<close>

record ('c, 'e) IOManager =
  m_fdContexts :: "'c FdContext list"
  m_pendingEventCount :: "64 word"
  io_timers :: "'c TimerManager"
  m_epfd :: 'e
  this_scheduler :: nat
  schedulers :: "nat \<Rightarrow> 'c callback Scheduler"
  tickles :: nat

datatype io_error = BadIndex | IoAssert | NullScheduler

definition no_event :: "'c EventContext" where
  "no_event = \<lparr>ec_scheduler = None, ec_fiber = None, ec_cb = None\<rparr>"

definition FdContext_new :: "int \<Rightarrow> 'c FdContext" where
  "FdContext_new fd = \<lparr>read_ctx = no_event, write_ctx = no_event, ctx_fd = fd, events = NONE\<rparr>"

section \<open>The context of a descriptor\<close>

definition getContext :: "32 word \<Rightarrow> 'c FdContext \<Rightarrow> io_error + 'c EventContext" where
  "getContext event fc =
     (if event = READ then Inr (read_ctx fc)
      else if event = WRITE then Inr (write_ctx fc)
      else Inl IoAssert)"

definition put_context :: "32 word \<Rightarrow> 'c EventContext \<Rightarrow> 'c FdContext \<Rightarrow> 'c FdContext" where
  "put_context event c fc = (if event = READ then fc\<lparr>read_ctx := c\<rparr> else fc\<lparr>write_ctx := c\<rparr>)"

text \<open>\<open>resetContext\<close>.\<close>

definition resetContext :: "32 word \<Rightarrow> 'c FdContext \<Rightarrow> 'c FdContext" where
  "resetContext event fc = put_context event no_event fc"

text \<open>\<open>tickle\<close>: a byte for the pipe when a thread of this scheduler is idle.\<close>

definition tickle :: "('c, 'e) IOManager \<Rightarrow> ('c, 'e) IOManager" where
  "tickle io =
     (if \<not> hasIdleThreads (schedulers io (this_scheduler io)) then io
      else io\<lparr>tickles := tickles io + 1\<rparr>)"

text \<open>Scheduling on one of the schedulers; only this one is known to be an \<open>IOManager\<close>.\<close>

definition schedule_on :: "nat \<Rightarrow> 'c callback FiberAndThread \<Rightarrow> ('c, 'e) IOManager \<Rightarrow> ('c, 'e) IOManager" where
  "schedule_on k x io =
     (let (need_tickle, sc) = schedule x (schedulers io k);
          io1 = io\<lparr>schedulers := (schedulers io)(k := sc)\<rparr>
      in if need_tickle \<and> k = this_scheduler io then tickle io1 else io1)"

text \<open>\<open>triggerEvent\<close>; scheduling takes the function or the fiber out of the context.\<close>

definition triggerEvent :: "32 word \<Rightarrow> 'c FdContext \<Rightarrow> ('c, 'e) IOManager \<Rightarrow> io_error + 'c FdContext \<times> ('c, 'e) IOManager" where
  "triggerEvent event fc io =
     bindE (guardE IoAssert (events fc AND event \<noteq> 0)) (\<lambda>_.
     let fc1 = fc\<lparr>events := events fc AND NOT event\<rparr> in
     bindE (getContext event fc1) (\<lambda>ctx.
     bindE (optE NullScheduler (ec_scheduler ctx)) (\<lambda>k.
     let x = (case ec_cb ctx of
           Some cb \<Rightarrow> cb_task (Job cb) (-1)
         | None \<Rightarrow> \<lparr>ft_fiber = ec_fiber ctx, ft_cb = None, ft_thread = -1\<rparr>);
         ctx1 = (if ec_cb ctx \<noteq> None then ctx\<lparr>ec_cb := None\<rparr> else ctx\<lparr>ec_fiber := None\<rparr>)
     in Inr (put_context event (ctx1\<lparr>ec_scheduler := None\<rparr>) fc1, schedule_on k x io))))"

section \<open>Operations\<close>

definition contextResize :: "nat \<Rightarrow> 'c FdContext list \<Rightarrow> 'c FdContext list" where
  "contextResize sz cs =
     take sz cs @ map (\<lambda>i. FdContext_new (int i)) [length cs ..< sz]"

definition fd_at :: "int \<Rightarrow> ('c, 'e) IOManager \<Rightarrow> io_error + 'c FdContext" where
  "fd_at fd io = (if 0 \<le> fd \<and> nat fd < length (m_fdContexts io) then Inr (m_fdContexts io ! nat fd) else Inl BadIndex)"

definition set_fd :: "int \<Rightarrow> 'c FdContext \<Rightarrow> ('c, 'e) IOManager \<Rightarrow> ('c, 'e) IOManager" where
  "set_fd fd fc io = io\<lparr>m_fdContexts := (m_fdContexts io)[nat fd := fc]\<rparr>"

text \<open>
  \<open>addEvent\<close>: \<open>sch\<close> is the scheduler of the calling thread, \<open>cur\<close> its current fiber and that
  fiber's state. \<open>ctl\<close> is the kernel's \<open>epoll_ctl\<close>, here and below.
\<close>

definition addEvent ::
  "(EpollCtlOp \<Rightarrow> int \<Rightarrow> 32 word \<Rightarrow> 'e \<Rightarrow> int \<times> 'e) \<Rightarrow> nat option \<Rightarrow> nat \<times> fiber_state
    \<Rightarrow> int \<Rightarrow> 32 word \<Rightarrow> 'c callback option \<Rightarrow> ('c, 'e) IOManager \<Rightarrow> io_error + int \<times> ('c, 'e) IOManager" where
  "addEvent ctl sch cur fd event cb io =
     (let io0 = (if int (length (m_fdContexts io)) > fd then io
                 else io\<lparr>m_fdContexts := contextResize (nat (fd * 3 div 2)) (m_fdContexts io)\<rparr>) in
      bindE (fd_at fd io0) (\<lambda>fc.
      if events fc AND event \<noteq> 0 then Inr (-1, io0)
      else
        let op = (if events fc \<noteq> 0 then EPOLL_CTL_MOD else EPOLL_CTL_ADD);
            (rt, e) = ctl op fd (EPOLLET OR events fc OR event) (m_epfd io0);
            io1 = io0\<lparr>m_epfd := e\<rparr> in
        if rt \<noteq> 0 then Inr (-1, io1)
        else
          let io2 = io1\<lparr>m_pendingEventCount := m_pendingEventCount io1 + 1\<rparr>;
              fc1 = fc\<lparr>events := events fc OR event\<rparr> in
          bindE (getContext event fc1) (\<lambda>ctx.
          bindE (guardE IoAssert (ec_scheduler ctx = None \<and> ec_fiber ctx = None \<and> ec_cb ctx = None)) (\<lambda>_.
          let ctx1 = ctx\<lparr>ec_scheduler := sch\<rparr> in
          case cb of
            Some c \<Rightarrow> Inr (0, set_fd fd (put_context event (ctx1\<lparr>ec_cb := Some c\<rparr>) fc1) io2)
          | None \<Rightarrow>
              bindE (guardE IoAssert (snd cur = EXEC)) (\<lambda>_.
              Inr (0, set_fd fd (put_context event (ctx1\<lparr>ec_fiber := Some (fst cur)\<rparr>) fc1) io2))))))"

text \<open>The beginning that \<open>delEvent\<close> and \<open>cancelEvent\<close> share: the kernel stops watching the event.\<close>

definition unwatch ::
  "(EpollCtlOp \<Rightarrow> int \<Rightarrow> 32 word \<Rightarrow> 'e \<Rightarrow> int \<times> 'e) \<Rightarrow> int \<Rightarrow> 32 word \<Rightarrow> ('c, 'e) IOManager
    \<Rightarrow> io_error + ('c FdContext option \<times> ('c, 'e) IOManager)" where
  "unwatch ctl fd event io =
     (if int (length (m_fdContexts io)) \<le> fd then Inr (None, io)
      else
        bindE (fd_at fd io) (\<lambda>fc.
        if events fc AND event = 0 then Inr (None, io)
        else
          let new_events = events fc AND NOT event;
              op = (if new_events \<noteq> 0 then EPOLL_CTL_MOD else EPOLL_CTL_DEL);
              (rt, e) = ctl op fd (EPOLLET OR new_events) (m_epfd io);
              io1 = io\<lparr>m_epfd := e\<rparr> in
          if rt \<noteq> 0 then Inr (None, io1) else Inr (Some fc, io1)))"

definition delEvent ::
  "(EpollCtlOp \<Rightarrow> int \<Rightarrow> 32 word \<Rightarrow> 'e \<Rightarrow> int \<times> 'e) \<Rightarrow> int \<Rightarrow> 32 word \<Rightarrow> ('c, 'e) IOManager
    \<Rightarrow> io_error + bool \<times> ('c, 'e) IOManager" where
  "delEvent ctl fd event io =
     bindE (unwatch ctl fd event io) (\<lambda>(r, io1).
     case r of
       None \<Rightarrow> Inr (False, io1)
     | Some fc \<Rightarrow>
         let io2 = io1\<lparr>m_pendingEventCount := m_pendingEventCount io1 - 1\<rparr>;
             fc1 = fc\<lparr>events := events fc AND NOT event\<rparr> in
         bindE (getContext event fc1) (\<lambda>_.
         Inr (True, set_fd fd (resetContext event fc1) io2)))"

definition cancelEvent ::
  "(EpollCtlOp \<Rightarrow> int \<Rightarrow> 32 word \<Rightarrow> 'e \<Rightarrow> int \<times> 'e) \<Rightarrow> int \<Rightarrow> 32 word \<Rightarrow> ('c, 'e) IOManager
    \<Rightarrow> io_error + bool \<times> ('c, 'e) IOManager" where
  "cancelEvent ctl fd event io =
     bindE (unwatch ctl fd event io) (\<lambda>(r, io1).
     case r of
       None \<Rightarrow> Inr (False, io1)
     | Some fc \<Rightarrow>
         bindE (triggerEvent event fc io1) (\<lambda>(fc1, io2).
         let io3 = set_fd fd fc1 io2 in
         Inr (True, io3\<lparr>m_pendingEventCount := m_pendingEventCount io3 - 1\<rparr>)))"

text \<open>\<open>if(fd_ctx->events & e) { triggerEvent(e); --m_pendingEventCount; }\<close>, with \<open>flags\<close> tested.\<close>

definition trigger_if :: "32 word \<Rightarrow> 32 word \<Rightarrow> 'c FdContext \<times> ('c, 'e) IOManager \<Rightarrow> io_error + 'c FdContext \<times> ('c, 'e) IOManager" where
  "trigger_if flags event = (\<lambda>(fc, io).
     if flags AND event \<noteq> 0 then
       bindE (triggerEvent event fc io) (\<lambda>(fc1, io1).
       Inr (fc1, io1\<lparr>m_pendingEventCount := m_pendingEventCount io1 - 1\<rparr>))
     else Inr (fc, io))"

definition cancelAll ::
  "(EpollCtlOp \<Rightarrow> int \<Rightarrow> 32 word \<Rightarrow> 'e \<Rightarrow> int \<times> 'e) \<Rightarrow> int \<Rightarrow> ('c, 'e) IOManager
    \<Rightarrow> io_error + bool \<times> ('c, 'e) IOManager" where
  "cancelAll ctl fd io =
     (if int (length (m_fdContexts io)) \<le> fd then Inr (False, io)
      else
        bindE (fd_at fd io) (\<lambda>fc.
        if events fc = 0 then Inr (False, io)
        else
          let (rt, e) = ctl EPOLL_CTL_DEL fd 0 (m_epfd io); io1 = io\<lparr>m_epfd := e\<rparr> in
          if rt \<noteq> 0 then Inr (False, io1)
          else
            bindE (trigger_if (events fc) READ (fc, io1)) (\<lambda>(fc1, io2).
            bindE (trigger_if (events fc1) WRITE (fc1, io2)) (\<lambda>(fc2, io3).
            bindE (guardE IoAssert (events fc2 = 0)) (\<lambda>_.
            Inr (True, set_fd fd fc2 io3))))))"

text \<open>\<open>stopping(timeout)\<close>, at the time \<open>now_ms\<close>; its first part is the timeout.\<close>

definition io_stopping :: "nat \<Rightarrow> ('c, 'e) IOManager \<Rightarrow> (nat \<times> bool) \<times> ('c, 'e) IOManager" where
  "io_stopping now_ms io =
     (let (timeout, tm) = getNextTimer now_ms (io_timers io); io1 = io\<lparr>io_timers := tm\<rparr> in
      ((timeout, timeout = 2 ^ 64 - 1 \<and> m_pendingEventCount io1 = 0
          \<and> stopping (schedulers io1 (this_scheduler io1))), io1))"

text \<open>The timeout handed to \<open>epoll_wait\<close>, an \<open>int\<close>.\<close>

definition wait_timeout :: "nat \<Rightarrow> int" where
  "wait_timeout next_timeout =
     (let as_int = (\<lambda>n. sint (word_of_nat n :: 32 word));
          t = (if next_timeout \<noteq> 2 ^ 64 - 1 then (if as_int next_timeout > 1000 then 1000 else next_timeout)
               else 1000)
      in as_int t)"

text \<open>What \<open>epoll_wait\<close> reports: the pipe is readable, or flags for a descriptor.\<close>

datatype epoll_event = Tickled | FdEvent int "32 word"

text \<open>The events a report stands for: an error stands for all events that are awaited.\<close>

definition real_events :: "32 word \<Rightarrow> 'c FdContext \<Rightarrow> 32 word" where
  "real_events flags0 fc =
     (let flags = (if flags0 AND (EPOLLERR OR EPOLLHUP) \<noteq> 0
                   then flags0 OR ((EPOLLIN OR EPOLLOUT) AND events fc) else flags0);
          real1 = (if flags AND EPOLLIN \<noteq> 0 then NONE OR READ else NONE)
      in if flags AND EPOLLOUT \<noteq> 0 then real1 OR WRITE else real1)"

text \<open>The body of the loop over the reported events.\<close>

definition handle_event ::
  "(EpollCtlOp \<Rightarrow> int \<Rightarrow> 32 word \<Rightarrow> 'e \<Rightarrow> int \<times> 'e) \<Rightarrow> epoll_event \<Rightarrow> ('c, 'e) IOManager
    \<Rightarrow> io_error + ('c, 'e) IOManager" where
  "handle_event ctl ev io =
     (case ev of
        Tickled \<Rightarrow> Inr (io\<lparr>tickles := 0\<rparr>)
      | FdEvent fd flags0 \<Rightarrow>
          bindE (fd_at fd io) (\<lambda>fc.
          let real = real_events flags0 fc in
          if events fc AND real = NONE then Inr io
          else
            let left_events = events fc AND NOT real;
                op = (if left_events \<noteq> 0 then EPOLL_CTL_MOD else EPOLL_CTL_DEL);
                (rt2, e) = ctl op (ctx_fd fc) (EPOLLET OR left_events) (m_epfd io);
                io1 = io\<lparr>m_epfd := e\<rparr> in
            if rt2 \<noteq> 0 then Inr io1
            else
              bindE (trigger_if real READ (fc, io1)) (\<lambda>(fc1, io2).
              bindE (trigger_if real WRITE (fc1, io2)) (\<lambda>(fc2, io3).
              Inr (set_fd fd fc2 io3)))))"

text \<open>
  One round of \<open>idle\<close>: what is checked before the wait (the result \<open>None\<close> ends the loop, else the
  timeout of the wait), and what is done after it with the time \<open>now\<close> and the reported events;
  \<open>key\<close> is the address of the search key of the timers.
\<close>

definition idle_before :: "nat \<Rightarrow> ('c, 'e) IOManager \<Rightarrow> int option \<times> ('c, 'e) IOManager" where
  "idle_before now_ms io =
     (let ((next_timeout, stop), io1) = io_stopping now_ms io in
      (if stop then None else Some (wait_timeout next_timeout), io1))"

definition timer_task :: "'c callback option \<Rightarrow> 'c callback FiberAndThread" where
  "timer_task cb = \<lparr>ft_fiber = None, ft_cb = map_option Job cb, ft_thread = -1\<rparr>"

definition idle_after ::
  "(EpollCtlOp \<Rightarrow> int \<Rightarrow> 32 word \<Rightarrow> 'e \<Rightarrow> int \<times> 'e) \<Rightarrow> nat \<Rightarrow> nat \<Rightarrow> epoll_event list
    \<Rightarrow> ('c, 'e) IOManager \<Rightarrow> io_error + ('c, 'e) IOManager" where
  "idle_after ctl now key evs io =
     (let (cbs, tm) = listExpiredCb now key (io_timers io);
          io1 = io\<lparr>io_timers := tm\<rparr>;
          io2 = (if cbs = [] then io1
                 else let (need_tickle, sc) = schedule_all (map timer_task cbs) False
                             (schedulers io1 (this_scheduler io1));
                          io' = io1\<lparr>schedulers := (schedulers io1)(this_scheduler io1 := sc)\<rparr>
                      in if need_tickle then tickle io' else io')
      in foldE (handle_event ctl) evs io2)"

text \<open>\<open>onTimerInsertedAtFront\<close>, and the constructor, with contexts for 32
  descriptors, which starts the threads \<open>ids\<close>.\<close>

definition onTimerInsertedAtFront :: "('c, 'e) IOManager \<Rightarrow> ('c, 'e) IOManager" where
  "onTimerInsertedAtFront io = tickle io"

definition IOManager_new :: "'e \<Rightarrow> nat \<Rightarrow> int list \<Rightarrow> (nat \<Rightarrow> 'c callback Scheduler) \<Rightarrow> ('c, 'e) IOManager" where
  "IOManager_new e k ids scs =
     \<lparr>m_fdContexts = contextResize 32 [], m_pendingEventCount = 0, io_timers = TimerManager_new,
      m_epfd = e, this_scheduler = k, schedulers = scs(k := start ids (scs k)), tickles = 0\<rparr>"

end
