(* ===== verification/IoManagerProps.thy ===== *)
theory IoManagerProps
  imports IoManager
begin

unbundle bit_operations_syntax

text \<open>
  What the event contexts promise: the awaited events, what is stored for them, the count and the
  kernel's interest list always agree, no operation aborts on a fresh report, each event is
  scheduled once; and the two places where this fails, a stale report and a far timer.
\<close>

section \<open>The kernel\<close>

text \<open>
  What the code relies on of \<open>epoll_ctl\<close> (its manual page): \<open>interest\<close> gives the flags a descriptor
  is watched for. A successful call changes the entry of the descriptor as asked, a failing one
  changes nothing; adding a watched descriptor fails, and so does changing or deleting one that is
  not watched.
\<close>

definition epoll_laws ::
  "(EpollCtlOp \<Rightarrow> int \<Rightarrow> 32 word \<Rightarrow> 'e \<Rightarrow> int \<times> 'e) \<Rightarrow> ('e \<Rightarrow> int \<Rightarrow> 32 word option) \<Rightarrow> bool" where
  "epoll_laws ctl interest \<longleftrightarrow>
     (\<forall>op fd w e rt e'. ctl op fd w e = (rt, e') \<longrightarrow>
        (rt = 0 \<longrightarrow> interest e' = (interest e)(fd := if op = EPOLL_CTL_DEL then None else Some w)
           \<and> (op = EPOLL_CTL_ADD \<longleftrightarrow> interest e fd = None))
        \<and> (rt \<noteq> 0 \<longrightarrow> interest e' = interest e))"

section \<open>The invariant\<close>

definition slot_ok :: "bool \<Rightarrow> 'c EventContext \<Rightarrow> bool" where
  "slot_ok b c \<longleftrightarrow> (if b then ec_scheduler c \<noteq> None \<and> (ec_fiber c = None \<longleftrightarrow> ec_cb c \<noteq> None) else c = no_event)"

definition waits :: "32 word \<Rightarrow> 'c FdContext \<Rightarrow> bool" where
  "waits event fc \<longleftrightarrow> events fc AND event \<noteq> 0"

definition fd_ok :: "'c FdContext \<Rightarrow> bool" where
  "fd_ok fc \<longleftrightarrow> events fc \<in> {0, 1, 4, 5} \<and> slot_ok (waits READ fc) (read_ctx fc) \<and> slot_ok (waits WRITE fc) (write_ctx fc)"

definition pend :: "'c FdContext \<Rightarrow> nat" where
  "pend fc = (if waits READ fc then 1 else 0) + (if waits WRITE fc then 1 else 0)"

definition watched :: "'c FdContext \<Rightarrow> 32 word option" where
  "watched fc = (if events fc = 0 then None else Some (EPOLLET OR events fc))"

definition io_inv :: "('e \<Rightarrow> int \<Rightarrow> 32 word option) \<Rightarrow> ('c, 'e) IOManager \<Rightarrow> bool" where
  "io_inv interest io \<longleftrightarrow> 32 \<le> length (m_fdContexts io)
     \<and> (\<forall>i < length (m_fdContexts io). fd_ok (m_fdContexts io ! i) \<and> ctx_fd (m_fdContexts io ! i) = int i
          \<and> interest (m_epfd io) (int i) = watched (m_fdContexts io ! i))
     \<and> (\<forall>i \<ge> length (m_fdContexts io). interest (m_epfd io) (int i) = None)
     \<and> m_pendingEventCount io = of_nat (sum_list (map pend (m_fdContexts io)))"

lemma sum_list_update_word:
  "i < length xs \<Longrightarrow> (of_nat (sum_list (map f (xs[i := x]))) :: 64 word)
    = of_nat (sum_list (map f xs)) - of_nat (f (xs ! i)) + of_nat (f x)"
  by (induction xs arbitrary: i) (auto split: nat.splits simp: nth_Cons)

lemma io_inv_set:
  assumes inv: "io_inv interest io" and fd: "0 \<le> fd" "nat fd < length (m_fdContexts io)"
    and fc: "fd_ok fc" "ctx_fd fc = fd"
    and io': "m_fdContexts io' = (m_fdContexts io)[nat fd := fc]"
      "interest (m_epfd io') = (interest (m_epfd io))(fd := watched fc)"
      "m_pendingEventCount io' = m_pendingEventCount io - of_nat (pend (m_fdContexts io ! nat fd)) + of_nat (pend fc)"
  shows "io_inv interest io'"
proof -
  have "of_nat (sum_list (map pend (m_fdContexts io'))) = m_pendingEventCount io'"
    using inv fd(2) by (simp add: io' sum_list_update_word io_inv_def)
  then show ?thesis
    using inv fd fc by (auto simp: io_inv_def io' nth_list_update)
qed

lemma io_invD:
  assumes "io_inv interest io" and "0 \<le> fd" and "nat fd < length (m_fdContexts io)"
  shows "fd_ok (m_fdContexts io ! nat fd)" and "ctx_fd (m_fdContexts io ! nat fd) = fd"
    and "interest (m_epfd io) fd = watched (m_fdContexts io ! nat fd)"
  using assms by (auto simp: io_inv_def)

text \<open>The slot of an event, and the task that is scheduled for it.\<close>

definition slot :: "32 word \<Rightarrow> 'c FdContext \<Rightarrow> 'c EventContext" where
  "slot event fc = (if event = READ then read_ctx fc else write_ctx fc)"

definition task_of :: "'c EventContext \<Rightarrow> 'c callback FiberAndThread" where
  "task_of c = (case ec_cb c of Some cb \<Rightarrow> cb_task (Job cb) (-1)
     | None \<Rightarrow> \<lparr>ft_fiber = ec_fiber c, ft_cb = None, ft_thread = -1\<rparr>)"

abbreviation an_event :: "32 word \<Rightarrow> bool" where
  "an_event ev \<equiv> ev \<in> {READ, WRITE}"

lemma add_event_ctx:
  assumes "fd_ok fc" and "an_event ev" and "\<not> waits ev fc" and "slot_ok True c"
  defines "fc' \<equiv> put_context ev c (fc\<lparr>events := events fc OR ev\<rparr>)"
  shows "fd_ok fc'" and "pend fc' = Suc (pend fc)" and "watched fc' = Some (EPOLLET OR events fc OR ev)"
    and "ctx_fd fc' = ctx_fd fc" and "slot ev fc' = c"
  using assms
  by (auto simp: fd_ok_def put_context_def slot_def waits_def pend_def watched_def READ_def WRITE_def or.assoc)

lemma remove_event_ctx:
  assumes "fd_ok fc" and "an_event ev" and "waits ev fc"
  defines "fc' \<equiv> put_context ev no_event (fc\<lparr>events := events fc AND NOT ev\<rparr>)"
  shows "fd_ok fc'" and "Suc (pend fc') = pend fc"
    and "watched fc' = (if events fc AND NOT ev = 0 then None else Some (EPOLLET OR events fc AND NOT ev))"
    and "ctx_fd fc' = ctx_fd fc" and "slot ev fc' = no_event" and "events fc' = events fc AND NOT ev"
    and "slot_ok True (slot ev fc)"
    and "ev' \<noteq> ev \<Longrightarrow> an_event ev' \<Longrightarrow> waits ev' fc' = waits ev' fc \<and> slot ev' fc' = slot ev' fc"
  using assms
  by (auto simp: fd_ok_def put_context_def slot_def waits_def pend_def watched_def READ_def WRITE_def slot_ok_def)

lemma getContext_event: "an_event ev \<Longrightarrow> getContext ev fc = Inr (slot ev fc)"
  by (auto simp: getContext_def slot_def READ_def WRITE_def)

text \<open>Triggering an awaited event schedules its task once and empties its slot.\<close>

lemma triggerEvent_ok:
  assumes "fd_ok fc" and "an_event ev" and "waits ev fc"
  shows "triggerEvent ev fc io = Inr (put_context ev no_event (fc\<lparr>events := events fc AND NOT ev\<rparr>),
    schedule_on (the (ec_scheduler (slot ev fc))) (task_of (slot ev fc)) io)"
proof -
  have s: "slot_ok True (slot ev fc)" by (rule remove_event_ctx(7) [OF assms])
  have e: "slot ev (fc\<lparr>events := w\<rparr>) = slot ev fc" for w by (simp add: slot_def)
  show ?thesis
    using assms(2,3) s
    by (cases "slot ev fc") (auto simp: triggerEvent_def waits_def getContext_event e slot_ok_def task_of_def no_event_def Let_def
      split: option.splits)
qed

lemma tickle_simps [simp]:
  "m_fdContexts (tickle io) = m_fdContexts io" "m_epfd (tickle io) = m_epfd io"
  "m_pendingEventCount (tickle io) = m_pendingEventCount io" "io_timers (tickle io) = io_timers io"
  "this_scheduler (tickle io) = this_scheduler io" "schedulers (tickle io) = schedulers io"
  by (simp_all add: tickle_def)

lemma schedule_on_simps [simp]:
  "m_fdContexts (schedule_on k x io) = m_fdContexts io" "m_epfd (schedule_on k x io) = m_epfd io"
  "m_pendingEventCount (schedule_on k x io) = m_pendingEventCount io"
  "io_timers (schedule_on k x io) = io_timers io" "this_scheduler (schedule_on k x io) = this_scheduler io"
  "schedulers (schedule_on k x io) = (schedulers io)(k := snd (schedule x (schedulers io k)))"
  by (simp_all add: schedule_on_def split_beta Let_def)

definition queue :: "('c, 'e) IOManager \<Rightarrow> nat \<Rightarrow> 'c callback FiberAndThread list" where
  "queue io k = m_fibers (schedulers io k)"

lemma task_of_scheduled:
  "slot_ok True c \<Longrightarrow> queue (schedule_on k (task_of c) io) = (queue io)(k := queue io k @ [task_of c])"
  by (auto simp: queue_def fun_eq_iff schedule_def scheduleNoLock_def task_of_def cb_task_def slot_ok_def
    split: option.splits)

section \<open>The operations\<close>

lemma contextResize_length: "length cs \<le> n \<Longrightarrow> length (contextResize n cs) = n"
  by (simp add: contextResize_def)

lemma contextResize_nth:
  "length cs \<le> n \<Longrightarrow> i < n \<Longrightarrow> contextResize n cs ! i = (if i < length cs then cs ! i else FdContext_new (int i))"
  by (simp add: contextResize_def nth_append)

lemma FdContext_new_ok [simp]:
  "fd_ok (FdContext_new fd)" "ctx_fd (FdContext_new fd) = fd" "watched (FdContext_new fd) = None"
  "pend (FdContext_new fd) = 0"
  by (simp_all add: FdContext_new_def fd_ok_def slot_ok_def waits_def watched_def pend_def NONE_def)

lemma contextResize_inv:
  assumes inv: "io_inv interest io" and n: "length (m_fdContexts io) \<le> n"
  shows "io_inv interest (io\<lparr>m_fdContexts := contextResize n (m_fdContexts io)\<rparr>)"
proof -
  have "sum_list (map pend (contextResize n (m_fdContexts io))) = sum_list (map pend (m_fdContexts io))"
    using n by (simp add: contextResize_def comp_def)
  with inv n show ?thesis
    by (auto simp: io_inv_def contextResize_length contextResize_nth not_less)
qed

lemma contextResize_32:
  "length (contextResize 32 []) = 32" "i < 32 \<Longrightarrow> contextResize 32 [] ! i = FdContext_new (int i)"
  "sum_list (map pend (contextResize 32 [])) = 0"
proof -
  show "length (contextResize 32 []) = 32" by (rule contextResize_length) simp
  show "i < 32 \<Longrightarrow> contextResize 32 [] ! i = FdContext_new (int i)" by (subst contextResize_nth) simp_all
  show "sum_list (map pend (contextResize 32 [])) = 0" by (simp add: contextResize_def comp_def)
qed

lemma IOManager_new_inv:
  assumes "\<forall>fd. interest e fd = None"
  shows "io_inv interest (IOManager_new e k ids scs)"
  using assms by (simp add: io_inv_def IOManager_new_def contextResize_32)


abbreviation context_at :: "int \<Rightarrow> ('c, 'e) IOManager \<Rightarrow> 'c FdContext" where
  "context_at fd io \<equiv> m_fdContexts io ! nat fd"

text \<open>A failing call of the kernel changes nothing that the invariant speaks of.\<close>

lemma io_inv_epfd:
  assumes "io_inv interest io" and "interest e = interest (m_epfd io)"
  shows "io_inv interest (io\<lparr>m_epfd := e\<rparr>)"
  using assms by (simp add: io_inv_def)

lemma epoll_fails:
  "epoll_laws ctl interest \<Longrightarrow> ctl op fd w e = (rt, e') \<Longrightarrow> rt \<noteq> 0 \<Longrightarrow> interest e' = interest e"
  unfolding epoll_laws_def by blast

lemma epoll_succeeds:
  "epoll_laws ctl interest \<Longrightarrow> ctl op fd w e = (0, e')
    \<Longrightarrow> interest e' = (interest e)(fd := if op = EPOLL_CTL_DEL then None else Some w)"
  unfolding epoll_laws_def by blast

text \<open>\<open>addEvent\<close> makes room, then stores the event and counts it, unless it is stored already or
  the kernel refuses.\<close>

definition room :: "int \<Rightarrow> ('c, 'e) IOManager \<Rightarrow> ('c, 'e) IOManager" where
  "room fd io = (if int (length (m_fdContexts io)) > fd then io
      else io\<lparr>m_fdContexts := contextResize (nat (fd * 3 div 2)) (m_fdContexts io)\<rparr>)"

definition new_slot :: "nat \<Rightarrow> nat \<times> fiber_state \<Rightarrow> 'c callback option \<Rightarrow> 'c EventContext" where
  "new_slot k cur cb = \<lparr>ec_scheduler = Some k, ec_fiber = (if cb = None then Some (fst cur) else None), ec_cb = cb\<rparr>"

lemma room_inv:
  assumes inv: "io_inv interest io" and fd: "0 \<le> fd"
  shows "io_inv interest (room fd io)" and "nat fd < length (m_fdContexts (room fd io))"
proof -
  have len: "32 \<le> length (m_fdContexts io)" using inv by (simp add: io_inv_def)
  have grow: "length (m_fdContexts io) \<le> nat (fd * 3 div 2) \<and> nat fd < nat (fd * 3 div 2)"
    if "\<not> int (length (m_fdContexts io)) > fd" using that len fd by linarith
  show "io_inv interest (room fd io)"
    using inv contextResize_inv [OF inv] grow by (simp add: room_def)
  show "nat fd < length (m_fdContexts (room fd io))"
    using fd grow by (auto simp: room_def contextResize_length)
qed

lemma addEvent_eq:
  assumes inv: "io_inv interest io" and ev: "an_event ev" and fd: "0 \<le> fd"
    and cb: "cb \<noteq> None \<or> snd cur = EXEC"
  defines "io0 \<equiv> room fd io" and "fc \<equiv> context_at fd (room fd io)"
  shows "addEvent ctl (Some k) cur fd ev cb io =
      (if waits ev fc then Inr (-1, io0)
       else let (rt, e) = ctl (if events fc \<noteq> 0 then EPOLL_CTL_MOD else EPOLL_CTL_ADD) fd
              (EPOLLET OR events fc OR ev) (m_epfd io0) in
         if rt \<noteq> 0 then Inr (-1, io0\<lparr>m_epfd := e\<rparr>)
         else Inr (0, set_fd fd (put_context ev (new_slot k cur cb) (fc\<lparr>events := events fc OR ev\<rparr>))
             (io0\<lparr>m_epfd := e, m_pendingEventCount := m_pendingEventCount io0 + 1\<rparr>)))"
proof -
  note r = room_inv [OF inv fd]
  have at: "fd_at fd io0 = Inr fc" using fd r(2) by (simp add: fd_at_def io0_def fc_def)
  have ok: "fd_ok fc" unfolding fc_def by (rule io_invD(1) [OF r(1) fd r(2)])
  have empty: "slot ev (fc\<lparr>events := w\<rparr>) = no_event" if "\<not> waits ev fc" for w
    using that ok ev by (auto simp: fd_ok_def slot_ok_def slot_def WRITE_def READ_def)
  show ?thesis
  proof (cases "waits ev fc")
    case True
    then show ?thesis
      by (simp add: addEvent_def io0_def [symmetric] room_def [symmetric] at waits_def)
  next
    case False
    then have e: "events fc AND ev = 0" by (simp add: waits_def)
    obtain rt e' where ctl: "ctl (if events fc \<noteq> 0 then EPOLL_CTL_MOD else EPOLL_CTL_ADD) fd
              (EPOLLET OR events fc OR ev) (m_epfd io0) = (rt, e')" by fastforce
    have "addEvent ctl (Some k) cur fd ev cb io = bindE (fd_at fd io0) (\<lambda>fc.
      if events fc AND ev \<noteq> 0 then Inr (-1, io0)
      else
        let op = (if events fc \<noteq> 0 then EPOLL_CTL_MOD else EPOLL_CTL_ADD);
            (rt, e) = ctl op fd (EPOLLET OR events fc OR ev) (m_epfd io0);
            io1 = io0\<lparr>m_epfd := e\<rparr> in
        if rt \<noteq> 0 then Inr (-1, io1)
        else
          let io2 = io1\<lparr>m_pendingEventCount := m_pendingEventCount io1 + 1\<rparr>;
              fc1 = fc\<lparr>events := events fc OR ev\<rparr> in
          bindE (getContext ev fc1) (\<lambda>ctx.
          bindE (guardE IoAssert (ec_scheduler ctx = None \<and> ec_fiber ctx = None \<and> ec_cb ctx = None)) (\<lambda>_.
          let ctx1 = ctx\<lparr>ec_scheduler := Some k\<rparr> in
          case cb of
            Some c \<Rightarrow> Inr (0, set_fd fd (put_context ev (ctx1\<lparr>ec_cb := Some c\<rparr>) fc1) io2)
          | None \<Rightarrow>
              bindE (guardE IoAssert (snd cur = EXEC)) (\<lambda>_.
              Inr (0, set_fd fd (put_context ev (ctx1\<lparr>ec_fiber := Some (fst cur)\<rparr>) fc1) io2)))))"
      by (simp only: addEvent_def io0_def room_def Let_def)
    also have "\<dots> = (if rt \<noteq> 0 then Inr (-1, io0\<lparr>m_epfd := e'\<rparr>)
         else Inr (0, set_fd fd (put_context ev (new_slot k cur cb) (fc\<lparr>events := events fc OR ev\<rparr>))
             (io0\<lparr>m_epfd := e', m_pendingEventCount := m_pendingEventCount io0 + 1\<rparr>)))"
      using cb by (cases cb) (simp_all add: at e ctl getContext_event [OF ev] empty [OF False] no_event_def
        new_slot_def Let_def)
    finally show ?thesis using False ctl by simp
  qed
qed


text \<open>What adding, deleting and cancelling do to the invariant, and to the queues.\<close>

lemma set_fd_simps [simp]:
  "m_fdContexts (set_fd fd fc io) = (m_fdContexts io)[nat fd := fc]" "m_epfd (set_fd fd fc io) = m_epfd io"
  "m_pendingEventCount (set_fd fd fc io) = m_pendingEventCount io" "schedulers (set_fd fd fc io) = schedulers io"
  "io_timers (set_fd fd fc io) = io_timers io"
  by (simp_all add: set_fd_def)

lemma addEvent_inv:
  assumes inv: "io_inv interest io" and laws: "epoll_laws ctl interest" and ev: "an_event ev" and fd: "0 \<le> fd"
    and cb: "cb \<noteq> None \<or> snd cur = EXEC"
  shows "\<exists>rt io'. addEvent ctl (Some k) cur fd ev cb io = Inr (rt, io') \<and> io_inv interest io'
    \<and> queue io' = queue io"
proof -
  note r = room_inv [OF inv fd]
  let ?io = "room fd io" and ?fc = "context_at fd (room fd io)"
  note d = io_invD [OF r(1) fd r(2)]
  have q: "queue ?io = queue io" by (simp add: queue_def room_def fun_eq_iff)
  obtain rt e where ctl: "ctl (if events ?fc \<noteq> 0 then EPOLL_CTL_MOD else EPOLL_CTL_ADD) fd
      (EPOLLET OR events ?fc OR ev) (m_epfd ?io) = (rt, e)" by fastforce
  note eq = addEvent_eq [where ctl = ctl and k = k, OF inv ev fd cb, unfolded ctl Let_def prod.case]
  show ?thesis
  proof (cases "waits ev ?fc \<or> rt \<noteq> 0")
    case True
    with eq r(1) q io_inv_epfd [OF r(1) epoll_fails [OF laws ctl]] show ?thesis
      by (auto simp: queue_def fun_eq_iff)
  next
    case False
    let ?fc' = "put_context ev (new_slot k cur cb) (?fc\<lparr>events := events ?fc OR ev\<rparr>)"
    have s: "slot_ok True (new_slot k cur cb)" by (auto simp: slot_ok_def new_slot_def)
    note a = add_event_ctx [OF d(1) ev _ s]
    have "io_inv interest (set_fd fd ?fc' (?io\<lparr>m_epfd := e, m_pendingEventCount := m_pendingEventCount ?io + 1\<rparr>))"
    proof (rule io_inv_set [OF r(1) fd r(2) a(1)])
      show "ctx_fd ?fc' = fd" using a(4) d(2) False by simp
      show "interest (m_epfd (set_fd fd ?fc' (?io\<lparr>m_epfd := e, m_pendingEventCount := m_pendingEventCount ?io + 1\<rparr>)))
          = (interest (m_epfd ?io))(fd := watched ?fc')"
        using epoll_succeeds [OF laws, of _ fd] ctl False a(3) by (auto split: if_splits)
    qed (use False a(2) in simp_all)
    with eq False q show ?thesis by (auto simp: queue_def fun_eq_iff)
  qed
qed

text \<open>The kernel's answer when it is told no longer to watch a descriptor for some of its events.\<close>

definition gives_up :: "(EpollCtlOp \<Rightarrow> int \<Rightarrow> 32 word \<Rightarrow> 'e \<Rightarrow> int \<times> 'e) \<Rightarrow> int \<Rightarrow> 32 word
    \<Rightarrow> ('c, 'e) IOManager \<Rightarrow> bool" where
  "gives_up ctl fd evs io \<longleftrightarrow>
     (let left = events (context_at fd io) AND NOT evs
      in fst (ctl (if left \<noteq> 0 then EPOLL_CTL_MOD else EPOLL_CTL_DEL) fd (EPOLLET OR left) (m_epfd io)) = 0)"

lemma unwatch_cases:
  assumes inv: "io_inv interest io" and laws: "epoll_laws ctl interest" and ev: "an_event ev" and fd: "0 \<le> fd"
  obtains (refused) e where "unwatch ctl fd ev io = Inr (None, io\<lparr>m_epfd := e\<rparr>)"
      and "interest e = interest (m_epfd io)"
      and "nat fd < length (m_fdContexts io) \<Longrightarrow> waits ev (context_at fd io) \<Longrightarrow> \<not> gives_up ctl fd ev io"
  | (accepted) e where "unwatch ctl fd ev io = Inr (Some (context_at fd io), io\<lparr>m_epfd := e\<rparr>)"
      and "nat fd < length (m_fdContexts io)" and "waits ev (context_at fd io)"
      and "interest e = (interest (m_epfd io))(fd := watched (put_context ev no_event
            ((context_at fd io)\<lparr>events := events (context_at fd io) AND NOT ev\<rparr>)))"
      and "gives_up ctl fd ev io"
proof (cases "nat fd < length (m_fdContexts io) \<and> waits ev (context_at fd io)")
  case False
  with fd have "unwatch ctl fd ev io = Inr (None, io)"
    by (auto simp: unwatch_def fd_at_def waits_def)
  with refused [of "m_epfd io"] False show ?thesis by simp
next
  case True
  let ?fc = "context_at fd io"
  obtain rt e where ctl: "ctl (if events ?fc AND NOT ev \<noteq> 0 then EPOLL_CTL_MOD else EPOLL_CTL_DEL) fd
      (EPOLLET OR (events ?fc AND NOT ev)) (m_epfd io) = (rt, e)" by fastforce
  have u: "unwatch ctl fd ev io = Inr (if rt \<noteq> 0 then None else Some ?fc, io\<lparr>m_epfd := e\<rparr>)"
    using True fd ctl by (auto simp: unwatch_def fd_at_def waits_def Let_def)
  have g: "gives_up ctl fd ev io \<longleftrightarrow> rt = 0" by (simp add: gives_up_def ctl)
  show ?thesis
  proof (cases "rt = 0")
    case False
    with u refused epoll_fails [OF laws ctl] g show ?thesis by simp
  next
    case rt: True
    have "interest e = (interest (m_epfd io))(fd := watched (put_context ev no_event
            (?fc\<lparr>events := events ?fc AND NOT ev\<rparr>)))"
      using epoll_succeeds [OF laws ctl [unfolded rt]] remove_event_ctx(3) [OF io_invD(1) [OF inv fd] ev] True
      by (auto split: if_splits)
    with u rt True accepted g show ?thesis by simp
  qed
qed

lemma io_inv_remove:
  assumes inv: "io_inv interest io" and ev: "an_event ev" and fd: "0 \<le> fd" "nat fd < length (m_fdContexts io)"
    and w: "waits ev (context_at fd io)"
    and io': "m_fdContexts io' = (m_fdContexts io)[nat fd := put_context ev no_event
        ((context_at fd io)\<lparr>events := events (context_at fd io) AND NOT ev\<rparr>)]"
      "interest (m_epfd io') = (interest (m_epfd io))(fd := watched (put_context ev no_event
        ((context_at fd io)\<lparr>events := events (context_at fd io) AND NOT ev\<rparr>)))"
      "m_pendingEventCount io' = m_pendingEventCount io - 1"
  shows "io_inv interest io'"
proof -
  note d = io_invD [OF inv fd] and a = remove_event_ctx [OF io_invD(1) [OF inv fd] ev w]
  have p: "of_nat (pend (context_at fd io)) = 1 + (of_nat (pend (put_context ev no_event
      ((context_at fd io)\<lparr>events := events (context_at fd io) AND NOT ev\<rparr>))) :: 64 word)"
    using a(2) by (metis of_nat_Suc)
  show ?thesis
    by (rule io_inv_set [OF inv fd a(1) _ io'(1,2)]) (use a(4) d(2) io'(3) p in simp_all)
qed

lemma delEvent_inv:
  assumes inv: "io_inv interest io" and laws: "epoll_laws ctl interest" and ev: "an_event ev" and fd: "0 \<le> fd"
  shows "\<exists>b io'. delEvent ctl fd ev io = Inr (b, io') \<and> io_inv interest io' \<and> queue io' = queue io
    \<and> (b \<longrightarrow> waits ev (context_at fd io))"
proof (cases rule: unwatch_cases [OF inv laws ev fd])
  case (1 e)
  with io_inv_epfd [OF inv 1(2)] show ?thesis
    by (intro exI [of _ False] exI [of _ "io\<lparr>m_epfd := e\<rparr>"]) (simp add: delEvent_def queue_def fun_eq_iff)
next
  case (2 e)
  let ?io = "set_fd fd (put_context ev no_event ((context_at fd io)\<lparr>events := events (context_at fd io) AND NOT ev\<rparr>))
    (io\<lparr>m_epfd := e, m_pendingEventCount := m_pendingEventCount io - 1\<rparr>)"
  have "io_inv interest ?io"
    by (rule io_inv_remove [OF inv ev fd 2(2,3)]) (use 2(4) in simp_all)
  with 2 show ?thesis
    by (intro exI [of _ True] exI [of _ ?io]) (simp add: delEvent_def Let_def getContext_event [OF ev] resetContext_def queue_def fun_eq_iff)
qed

lemma cancelEvent_inv:
  assumes inv: "io_inv interest io" and laws: "epoll_laws ctl interest" and ev: "an_event ev" and fd: "0 \<le> fd"
  shows "\<exists>b io'. cancelEvent ctl fd ev io = Inr (b, io') \<and> io_inv interest io'
    \<and> (if b then waits ev (context_at fd io)
         \<and> queue io' = (let c = slot ev (context_at fd io); k = the (ec_scheduler c)
             in (queue io)(k := queue io k @ [task_of c]))
       else queue io' = queue io)"
proof (cases rule: unwatch_cases [OF inv laws ev fd])
  case (1 e)
  with io_inv_epfd [OF inv 1(2)] show ?thesis
    by (intro exI [of _ False] exI [of _ "io\<lparr>m_epfd := e\<rparr>"]) (simp add: cancelEvent_def queue_def fun_eq_iff)
next
  case (2 e)
  let ?fc = "context_at fd io" and ?c = "slot ev (context_at fd io)"
  note ok = io_invD(1) [OF inv fd 2(2)]
  let ?io2 = "schedule_on (the (ec_scheduler ?c)) (task_of ?c) (io\<lparr>m_epfd := e\<rparr>)"
  let ?io = "(set_fd fd (put_context ev no_event (?fc\<lparr>events := events ?fc AND NOT ev\<rparr>)) ?io2)
    \<lparr>m_pendingEventCount := m_pendingEventCount io - 1\<rparr>"
  have q: "queue ?io = queue ?io2" by (simp add: queue_def fun_eq_iff)
  have "queue (io\<lparr>m_epfd := e\<rparr>) = queue io" by (simp add: queue_def fun_eq_iff)
  with q task_of_scheduled [OF remove_event_ctx(7) [OF ok ev 2(3)], of _ "io\<lparr>m_epfd := e\<rparr>"]
  have "queue ?io = (queue io)(the (ec_scheduler ?c) := queue io (the (ec_scheduler ?c)) @ [task_of ?c])"
    by simp
  moreover have "io_inv interest ?io"
    by (rule io_inv_remove [OF inv ev fd 2(2,3)]) (use 2(4) in simp_all)
  ultimately show ?thesis
    using 2 by (intro exI [of _ True] exI [of _ ?io])
      (simp add: cancelEvent_def Let_def triggerEvent_ok [OF ok ev 2(3)])
qed

lemma removed_event: "fd_ok fc \<Longrightarrow> an_event ev \<Longrightarrow> waits ev fc
    \<Longrightarrow> \<not> waits ev (put_context ev no_event (fc\<lparr>events := events fc AND NOT ev\<rparr>))"
  using remove_event_ctx(6) [of fc ev] by (auto simp: fd_ok_def waits_def READ_def WRITE_def)

lemma delEvent_ends:
  assumes inv: "io_inv interest io" and laws: "epoll_laws ctl interest" and ev: "an_event ev" and fd: "0 \<le> fd"
    and d: "delEvent ctl fd ev io = Inr (True, io')"
  shows "\<not> waits ev (context_at fd io')"
proof (cases rule: unwatch_cases [OF inv laws ev fd])
  case (1 e)
  with d show ?thesis by (simp add: delEvent_def)
next
  case (2 e)
  with d removed_event [OF io_invD(1) [OF inv fd 2(2)] ev 2(3)] show ?thesis
    by (auto simp: delEvent_def Let_def getContext_event [OF ev] resetContext_def)
qed

text \<open>Deleting and cancelling an awaited event succeed exactly when the kernel gives it up.\<close>

lemma removal_results:
  assumes inv: "io_inv interest io" and laws: "epoll_laws ctl interest" and ev: "an_event ev" and fd: "0 \<le> fd"
    and w: "nat fd < length (m_fdContexts io)" "waits ev (context_at fd io)"
  shows "cancelEvent ctl fd ev io = Inr (b, io1) \<Longrightarrow> b \<longleftrightarrow> gives_up ctl fd ev io"
    and "delEvent ctl fd ev io = Inr (b, io1) \<Longrightarrow> b \<longleftrightarrow> gives_up ctl fd ev io"
proof -
  have "(cancelEvent ctl fd ev io = Inr (b, io1) \<longrightarrow> b = gives_up ctl fd ev io)
      \<and> (delEvent ctl fd ev io = Inr (b, io1) \<longrightarrow> b = gives_up ctl fd ev io)"
  proof (cases rule: unwatch_cases [OF inv laws ev fd])
    case (1 e)
    with w show ?thesis by (auto simp: cancelEvent_def delEvent_def)
  next
    case (2 e)
    then show ?thesis
      by (auto simp: cancelEvent_def delEvent_def Let_def getContext_event [OF ev]
        triggerEvent_ok [OF io_invD(1) [OF inv fd 2(2)] ev 2(3)])
  qed
  then show "cancelEvent ctl fd ev io = Inr (b, io1) \<Longrightarrow> b \<longleftrightarrow> gives_up ctl fd ev io"
    and "delEvent ctl fd ev io = Inr (b, io1) \<Longrightarrow> b \<longleftrightarrow> gives_up ctl fd ev io" by blast+
qed

text \<open>Triggering both events of a context, as \<open>cancelAll\<close> and the event loop do.\<close>

definition fire :: "'c EventContext \<Rightarrow> (nat \<Rightarrow> 'c callback FiberAndThread list) \<Rightarrow> nat \<Rightarrow> 'c callback FiberAndThread list" where
  "fire c q = q(the (ec_scheduler c) := q (the (ec_scheduler c)) @ [task_of c])"

definition fire_if :: "32 word \<Rightarrow> 32 word \<Rightarrow> 'c FdContext \<Rightarrow> (nat \<Rightarrow> 'c callback FiberAndThread list)
    \<Rightarrow> nat \<Rightarrow> 'c callback FiberAndThread list" where
  "fire_if flags ev fc q = (if flags AND ev \<noteq> 0 then fire (slot ev fc) q else q)"

lemma trigger_if_ok:
  assumes ok: "fd_ok fc" and ev: "an_event ev" and w: "flags AND ev \<noteq> 0 \<Longrightarrow> waits ev fc"
  shows "\<exists>fc' io'. trigger_if flags ev (fc, io) = Inr (fc', io') \<and> fd_ok fc' \<and> ctx_fd fc' = ctx_fd fc
    \<and> events fc' = (if flags AND ev \<noteq> 0 then events fc AND NOT ev else events fc)
    \<and> m_pendingEventCount io' - of_nat (pend fc') = m_pendingEventCount io - of_nat (pend fc)
    \<and> m_fdContexts io' = m_fdContexts io \<and> m_epfd io' = m_epfd io
    \<and> queue io' = fire_if flags ev fc (queue io)
    \<and> (\<forall>ev'. an_event ev' \<and> ev' \<noteq> ev \<longrightarrow> waits ev' fc' = waits ev' fc \<and> slot ev' fc' = slot ev' fc)"
proof (cases "flags AND ev \<noteq> 0")
  case False
  then show ?thesis using ok by (simp add: trigger_if_def fire_if_def)
next
  case True
  let ?fc = "put_context ev no_event (fc\<lparr>events := events fc AND NOT ev\<rparr>)" and ?c = "slot ev fc"
  let ?io2 = "schedule_on (the (ec_scheduler ?c)) (task_of ?c) io"
  let ?io = "?io2\<lparr>m_pendingEventCount := m_pendingEventCount ?io2 - 1\<rparr>"
  note a = remove_event_ctx [OF ok ev w [OF True]]
  have t: "trigger_if flags ev (fc, io) = Inr (?fc, ?io)"
    using True by (simp add: trigger_if_def triggerEvent_ok [OF ok ev w [OF True]])
  have "queue ?io = queue ?io2" by (simp add: queue_def fun_eq_iff)
  then have q: "queue ?io = fire_if flags ev fc (queue io)"
    using True task_of_scheduled [OF a(7)] by (simp add: fire_if_def fire_def)
  have "of_nat (pend fc) = 1 + (of_nat (pend ?fc) :: 64 word)" using a(2) by (metis of_nat_Suc)
  with t q a True show ?thesis by (intro exI [of _ ?fc] exI [of _ ?io]) auto
qed

lemma event_words:
  "an_event READ" "an_event WRITE" "READ \<noteq> WRITE" "WRITE \<noteq> READ"
  by (simp_all add: READ_def WRITE_def)

text \<open>The part after the kernel agreed, for any flags that are awaited.\<close>

lemma trigger_both_ok:
  assumes ok: "fd_ok fc" and r: "flags AND READ \<noteq> 0 \<Longrightarrow> waits READ fc"
    and w: "\<And>fc1. waits WRITE fc1 = waits WRITE fc \<Longrightarrow> flags2 fc1 AND WRITE \<noteq> 0 \<longleftrightarrow> flags AND WRITE \<noteq> 0"
    and w': "flags AND WRITE \<noteq> 0 \<Longrightarrow> waits WRITE fc"
  shows "\<exists>fc1 io1 fc2 io2. trigger_if flags READ (fc, io) = Inr (fc1, io1)
    \<and> trigger_if (flags2 fc1) WRITE (fc1, io1) = Inr (fc2, io2)
    \<and> fd_ok fc2 \<and> ctx_fd fc2 = ctx_fd fc
    \<and> events fc2 = (let e = (if flags AND READ \<noteq> 0 then events fc AND NOT READ else events fc) in
        if flags AND WRITE \<noteq> 0 then e AND NOT WRITE else e)
    \<and> m_pendingEventCount io2 - of_nat (pend fc2) = m_pendingEventCount io - of_nat (pend fc)
    \<and> m_fdContexts io2 = m_fdContexts io \<and> m_epfd io2 = m_epfd io
    \<and> queue io2 = fire_if flags WRITE fc (fire_if flags READ fc (queue io))"
proof -
  obtain fc1 io1 where 1: "trigger_if flags READ (fc, io) = Inr (fc1, io1)" "fd_ok fc1" "ctx_fd fc1 = ctx_fd fc"
    "events fc1 = (if flags AND READ \<noteq> 0 then events fc AND NOT READ else events fc)"
    "m_pendingEventCount io1 - of_nat (pend fc1) = m_pendingEventCount io - of_nat (pend fc)"
    "m_fdContexts io1 = m_fdContexts io" "m_epfd io1 = m_epfd io" "queue io1 = fire_if flags READ fc (queue io)"
    "waits WRITE fc1 = waits WRITE fc" "slot WRITE fc1 = slot WRITE fc"
    using trigger_if_ok [OF ok event_words(1) r, of flags io] event_words by metis
  have w1: "flags2 fc1 AND WRITE \<noteq> 0 \<longleftrightarrow> flags AND WRITE \<noteq> 0" by (rule w [OF 1(9)])
  obtain fc2 io2 where 2: "trigger_if (flags2 fc1) WRITE (fc1, io1) = Inr (fc2, io2)" "fd_ok fc2"
    "ctx_fd fc2 = ctx_fd fc1"
    "events fc2 = (if flags2 fc1 AND WRITE \<noteq> 0 then events fc1 AND NOT WRITE else events fc1)"
    "m_pendingEventCount io2 - of_nat (pend fc2) = m_pendingEventCount io1 - of_nat (pend fc1)"
    "m_fdContexts io2 = m_fdContexts io1" "m_epfd io2 = m_epfd io1"
    "queue io2 = fire_if (flags2 fc1) WRITE fc1 (queue io1)"
    using trigger_if_ok [OF 1(2) event_words(2), of "flags2 fc1" io1] w1 w' 1(9) by metis
  have "fire_if (flags2 fc1) WRITE fc1 q = fire_if flags WRITE fc q" for q
    using w1 1(10) by (simp add: fire_if_def)
  with 1 2 w1 show ?thesis
    by (intro exI [of _ fc1] exI [of _ io1] exI [of _ fc2] exI [of _ io2]) (simp add: Let_def)
qed


lemma fd_event_words: "fd_ok fc \<Longrightarrow> events fc \<in> {0, 1, 4, 5}"
  by (simp add: fd_ok_def)

lemma cancelEvent_ends:
  assumes inv: "io_inv interest io" and laws: "epoll_laws ctl interest" and ev: "an_event ev" and fd: "0 \<le> fd"
    and c: "cancelEvent ctl fd ev io = Inr (b, io')"
  shows "b \<Longrightarrow> \<not> waits ev (context_at fd io')" and "\<not> b \<Longrightarrow> m_fdContexts io' = m_fdContexts io"
proof -
  let ?fc = "context_at fd io"
  let ?new = "put_context ev no_event (?fc\<lparr>events := events ?fc AND NOT ev\<rparr>)"
  have "(b \<longrightarrow> context_at fd io' = ?new \<and> waits ev ?fc \<and> fd_ok ?fc) \<and> (\<not> b \<longrightarrow> m_fdContexts io' = m_fdContexts io)"
  proof (cases rule: unwatch_cases [OF inv laws ev fd])
    case (1 e)
    with c show ?thesis by (auto simp: cancelEvent_def)
  next
    case (2 e)
    note ok = io_invD(1) [OF inv fd 2(2)]
    from 2 ok c show ?thesis by (auto simp: cancelEvent_def triggerEvent_ok [OF ok ev 2(3)] Let_def)
  qed
  moreover have "\<not> waits ev ?new" if "waits ev ?fc" "fd_ok ?fc"
    using remove_event_ctx(6) [OF that(2) ev that(1)] fd_event_words [OF that(2)] ev
    by (auto simp: waits_def READ_def WRITE_def)
  ultimately show "b \<Longrightarrow> \<not> waits ev (context_at fd io')" and "\<not> b \<Longrightarrow> m_fdContexts io' = m_fdContexts io" by auto
qed

lemma io_inv_trigger:
  assumes inv: "io_inv interest io" and fd: "0 \<le> fd" "nat fd < length (m_fdContexts io)"
    and fc: "fd_ok fc" "ctx_fd fc = fd"
    and p: "m_pendingEventCount io' - of_nat (pend fc) = m_pendingEventCount io - of_nat (pend (context_at fd io))"
    and io': "m_fdContexts io' = m_fdContexts io"
      "interest (m_epfd io') = (interest (m_epfd io))(fd := watched fc)"
  shows "io_inv interest (set_fd fd fc io')"
proof (rule io_inv_set [OF inv fd fc])
  show "m_pendingEventCount (set_fd fd fc io')
      = m_pendingEventCount io - of_nat (pend (context_at fd io)) + of_nat (pend fc)"
    using p by (simp add: algebra_simps)
qed (use io' in simp_all)


text \<open>A report is fresh when every event it stands for is still awaited.\<close>

definition fresh_report :: "int \<Rightarrow> 32 word \<Rightarrow> ('c, 'e) IOManager \<Rightarrow> bool" where
  "fresh_report fd flags io \<longleftrightarrow> 0 \<le> fd \<and> nat fd < length (m_fdContexts io)
     \<and> (\<forall>ev. an_event ev \<and> real_events flags (context_at fd io) AND ev \<noteq> 0 \<longrightarrow> waits ev (context_at fd io))"

lemma real_events_words: "real_events flags fc \<in> {0, 1, 4, 5}"
  by (auto simp: real_events_def NONE_def READ_def WRITE_def Let_def)

lemma handle_event_inv:
  assumes inv: "io_inv interest io" and laws: "epoll_laws ctl interest" and fr: "fresh_report fd flags io"
  shows "\<exists>io'. handle_event ctl (FdEvent fd flags) io = Inr io' \<and> io_inv interest io'
    \<and> (let fc = context_at fd io; real = real_events flags fc in
       if events fc AND real \<noteq> 0 \<and> gives_up ctl fd real io
       then events (context_at fd io') = events fc AND NOT real
            \<and> queue io' = fire_if real WRITE fc (fire_if real READ fc (queue io))
       else context_at fd io' = fc \<and> queue io' = queue io)"
proof -
  let ?fc = "context_at fd io" and ?real = "real_events flags (context_at fd io)"
  from fr have fd: "0 \<le> fd" "nat fd < length (m_fdContexts io)"
    and w: "\<And>ev. an_event ev \<Longrightarrow> ?real AND ev \<noteq> 0 \<Longrightarrow> waits ev ?fc"
    by (auto simp: fresh_report_def)
  note d = io_invD [OF inv fd]
  let ?left = "events ?fc AND NOT ?real"
  obtain rt e where ctl: "ctl (if ?left \<noteq> 0 then EPOLL_CTL_MOD else EPOLL_CTL_DEL) (ctx_fd ?fc)
      (EPOLLET OR ?left) (m_epfd io) = (rt, e)" by fastforce
  let ?io = "io\<lparr>m_epfd := e\<rparr>"
  have q: "queue ?io = queue io" by (simp add: queue_def fun_eq_iff)
  have g: "gives_up ctl fd ?real io \<longleftrightarrow> rt = 0" using ctl d(2) by (simp add: gives_up_def)
  have h: "handle_event ctl (FdEvent fd flags) io =
      (if events ?fc AND ?real = NONE then Inr io else if rt \<noteq> 0 then Inr ?io
       else bindE (trigger_if ?real READ (?fc, ?io)) (\<lambda>(fc1, io2).
            bindE (trigger_if ?real WRITE (fc1, io2)) (\<lambda>(fc2, io3). Inr (set_fd fd fc2 io3))))"
    using fd ctl by (simp add: handle_event_def fd_at_def Let_def)
  consider "events ?fc AND ?real = NONE" | "events ?fc AND ?real \<noteq> NONE" "rt \<noteq> 0"
    | "events ?fc AND ?real \<noteq> NONE" "rt = 0" by blast
  then show ?thesis
  proof cases
    case 1
    with h inv show ?thesis by (simp add: NONE_def)
  next
    case 2
    with h io_inv_epfd [OF inv epoll_fails [OF laws ctl]] q g show ?thesis by simp
  next
    case 3
    obtain fc1 io1 fc2 io2 where t: "trigger_if ?real READ (?fc, ?io) = Inr (fc1, io1)"
      "trigger_if ?real WRITE (fc1, io1) = Inr (fc2, io2)" "fd_ok fc2" "ctx_fd fc2 = ctx_fd ?fc"
      "events fc2 = (let e = (if ?real AND READ \<noteq> 0 then events ?fc AND NOT READ else events ?fc) in
        if ?real AND WRITE \<noteq> 0 then e AND NOT WRITE else e)"
      "m_pendingEventCount io2 - of_nat (pend fc2) = m_pendingEventCount ?io - of_nat (pend ?fc)"
      "m_fdContexts io2 = m_fdContexts ?io" "m_epfd io2 = m_epfd ?io"
      "queue io2 = fire_if ?real WRITE ?fc (fire_if ?real READ ?fc (queue ?io))"
      using trigger_both_ok [OF d(1), of ?real "\<lambda>_. ?real" ?io] w event_words by blast
    have e: "events fc2 = ?left"
      unfolding t(5) using fd_event_words [OF d(1)] real_events_words [of flags ?fc]
      by (auto simp: READ_def WRITE_def Let_def)
    have "io_inv interest (set_fd fd fc2 io2)"
      by (rule io_inv_trigger [OF inv fd t(3)])
         (use t d(2) e epoll_succeeds [OF laws ctl [unfolded 3(2)]] in \<open>simp_all add: watched_def\<close>)
    moreover have "queue (set_fd fd fc2 io2) = queue io2" by (simp add: queue_def fun_eq_iff)
    ultimately show ?thesis using h 3 t q e fd g by (simp add: Let_def NONE_def)
  qed
qed


section \<open>All sequences of operations\<close>








text \<open>An example of a kernel: its state is the interest list, and the calls fail as documented.\<close>

definition demo_ctl :: "EpollCtlOp \<Rightarrow> int \<Rightarrow> 32 word \<Rightarrow> (int \<Rightarrow> 32 word option) \<Rightarrow> int \<times> (int \<Rightarrow> 32 word option)" where
  "demo_ctl op fd w e =
     (case op of
        EPOLL_CTL_ADD \<Rightarrow> if e fd = None then (0, e(fd := Some w)) else (-1, e)
      | EPOLL_CTL_MOD \<Rightarrow> if e fd = None then (-1, e) else (0, e(fd := Some w))
      | EPOLL_CTL_DEL \<Rightarrow> if e fd = None then (-1, e) else (0, e(fd := None)))"

lemma demo_ctl_laws: "epoll_laws demo_ctl (\<lambda>e. e)"
  unfolding epoll_laws_def demo_ctl_def
proof (intro allI impI)
  fix op fd w e rt e'
  show "(case op of EPOLL_CTL_ADD \<Rightarrow> if e fd = None then (0, e(fd := Some w)) else (-1, e)
      | EPOLL_CTL_MOD \<Rightarrow> if e fd = None then (-1, e) else (0, e(fd := Some w))
      | EPOLL_CTL_DEL \<Rightarrow> if e fd = None then (-1, e) else (0, e(fd := None))) = (rt, e')
    \<Longrightarrow> (rt = (0::int) \<longrightarrow> e' = e(fd := if op = EPOLL_CTL_DEL then None else Some w)
           \<and> (op = EPOLL_CTL_ADD) = (e fd = None)) \<and> (rt \<noteq> 0 \<longrightarrow> e' = e)"
    by (cases op) (auto split: if_splits)
qed

definition demo_sched :: "nat \<Rightarrow> nat callback Scheduler" where
  "demo_sched = (\<lambda>_. \<lparr>m_fibers = [], m_rootFiber = None, m_threadIds = [], m_threadCount = 1,
     m_activeThreadCount = 0, m_idleThreadCount = 0, m_stopping = True, m_autoStop = False, m_rootThread = -1\<rparr>)"



section \<open>Each event is scheduled once\<close>

lemma addEvent_stored:
  assumes inv: "io_inv interest io" and laws: "epoll_laws ctl interest" and ev: "an_event ev" and fd: "0 \<le> fd"
    and cb: "cb \<noteq> None \<or> snd cur = EXEC" and add: "addEvent ctl (Some k) cur fd ev cb io = Inr (0, io1)"
  shows "waits ev (context_at fd io1)" and "slot ev (context_at fd io1) = new_slot k cur cb"
    and "io_inv interest io1" and "queue io1 = queue io" and "nat fd < length (m_fdContexts io1)"
proof -
  note r = room_inv [OF inv fd]
  let ?fc = "context_at fd (room fd io)"
  let ?new = "put_context ev (new_slot k cur cb) (?fc\<lparr>events := events ?fc OR ev\<rparr>)"
  have s: "slot_ok True (new_slot k cur cb)" by (auto simp: slot_ok_def new_slot_def)
  from add addEvent_eq [where ctl = ctl and k = k, OF inv ev fd cb] obtain e where
    n: "\<not> waits ev ?fc" and io1: "io1 = set_fd fd ?new ((room fd io)\<lparr>m_epfd := e,
      m_pendingEventCount := m_pendingEventCount (room fd io) + 1\<rparr>)"
    by (auto simp: Let_def split: if_splits prod.splits)
  note a = add_event_ctx [OF io_invD(1) [OF r(1) fd r(2)] ev n s]
  have at: "context_at fd io1 = ?new" using r(2) by (simp add: io1)
  show "slot ev (context_at fd io1) = new_slot k cur cb" unfolding at by (rule a(5))
  have "events ?new = events ?fc OR ev" by (auto simp: put_context_def)
  then show "waits ev (context_at fd io1)"
    unfolding at waits_def using ev fd_event_words [OF io_invD(1) [OF r(1) fd r(2)]]
    by (auto simp: READ_def WRITE_def)
  show "io_inv interest io1" "queue io1 = queue io"
    using addEvent_inv [OF inv laws ev fd cb, of k] add by auto
  show "nat fd < length (m_fdContexts io1)" using r(2) by (simp add: io1)
qed

lemma waits_removed:
  assumes "fd_ok fc" and "an_event ev" and "events fc' = events fc AND NOT real" and "real AND ev \<noteq> 0"
    and "real \<in> {0, 1, 4, 5}"
  shows "\<not> waits ev fc'"
  using assms by (auto simp: fd_ok_def waits_def READ_def WRITE_def)

text \<open>What is scheduled for an event: the function given, or the fiber that asked.\<close>

definition event_task :: "nat \<times> fiber_state \<Rightarrow> 'c callback option \<Rightarrow> 'c callback FiberAndThread" where
  "event_task cur cb = (case cb of Some c \<Rightarrow> cb_task (Job c) (-1) | None \<Rightarrow> fiber_task (fst cur) (-1))"

lemma report_result:
  assumes inv: "io_inv interest io" and laws: "epoll_laws ctl interest" and ev: "an_event ev"
    and f: "fresh_report fd flags io" and r: "real_events flags (context_at fd io) = ev"
    and s: "slot ev (context_at fd io) = new_slot k cur cb"
  shows "\<exists>io'. handle_event ctl (FdEvent fd flags) io = Inr io' \<and> io_inv interest io'
    \<and> (if gives_up ctl fd ev io
       then \<not> waits ev (context_at fd io') \<and> queue io' = (queue io)(k := queue io k @ [task_of (new_slot k cur cb)])
       else context_at fd io' = context_at fd io \<and> queue io' = queue io)"
proof -
  let ?fc = "context_at fd io"
  from f have fd: "0 \<le> fd" "nat fd < length (m_fdContexts io)" by (simp_all add: fresh_report_def)
  have n: "ev AND ev \<noteq> 0" using ev by (auto simp: READ_def WRITE_def)
  with f r ev have w: "waits ev ?fc" unfolding fresh_report_def by metis
  obtain io' where h: "handle_event ctl (FdEvent fd flags) io = Inr io'" "io_inv interest io'"
    "if events ?fc AND ev \<noteq> 0 \<and> gives_up ctl fd ev io
     then events (context_at fd io') = events ?fc AND NOT ev
          \<and> queue io' = fire_if ev WRITE ?fc (fire_if ev READ ?fc (queue io))
     else context_at fd io' = ?fc \<and> queue io' = queue io"
    using handle_event_inv [OF inv laws f] unfolding Let_def r by blast
  have e: "fire_if ev WRITE ?fc (fire_if ev READ ?fc q) = q(k := q k @ [task_of (new_slot k cur cb)])" for q
    using ev s by (auto simp: fire_if_def fire_def READ_def WRITE_def new_slot_def)
  have "\<not> waits ev (context_at fd io')" if "events (context_at fd io') = events ?fc AND NOT ev"
    by (rule waits_removed [OF io_invD(1) [OF inv fd] ev that n]) (use ev in \<open>auto simp: READ_def WRITE_def\<close>)
  with h w e show ?thesis by (auto simp: waits_def)
qed

lemma cancel_unawaited: "0 \<le> fd \<Longrightarrow> \<not> waits ev (context_at fd io) \<Longrightarrow> cancelEvent ctl fd ev io = Inr (False, io)"
  by (auto simp: cancelEvent_def unwatch_def fd_at_def waits_def)

text \<open>C25: What was added for an event is scheduled exactly once, on the scheduler it was added from.
  Deleting the event schedules nothing; cancelling it, or a report of it, schedules its task and
  ends the wait, so that cancelling it again does nothing. All three succeed exactly when
  the kernel gives the event up; when it refuses, the event stays awaited and nothing is scheduled.\<close>

theorem event_scheduled_once:
  assumes inv: "io_inv interest io" and laws: "epoll_laws ctl interest" and ev: "an_event ev" and fd: "0 \<le> fd"
    and cb: "cb \<noteq> None \<or> snd cur = EXEC" and add: "addEvent ctl (Some k) cur fd ev cb io = Inr (0, io1)"
  shows "waits ev (context_at fd io1) \<and> queue io1 = queue io
    \<and> (\<exists>io2. delEvent ctl fd ev io1 = Inr (gives_up ctl fd ev io1, io2) \<and> queue io2 = queue io
         \<and> (gives_up ctl fd ev io1 \<longrightarrow> \<not> waits ev (context_at fd io2)))
    \<and> (\<exists>io2. cancelEvent ctl fd ev io1 = Inr (gives_up ctl fd ev io1, io2)
         \<and> (if gives_up ctl fd ev io1
            then queue io2 = (queue io)(k := queue io k @ [event_task cur cb]) \<and> \<not> waits ev (context_at fd io2)
              \<and> cancelEvent ctl fd ev io2 = Inr (False, io2)
            else queue io2 = queue io \<and> waits ev (context_at fd io2)))
    \<and> (\<forall>flags. fresh_report fd flags io1 \<and> real_events flags (context_at fd io1) = ev \<longrightarrow>
         (\<exists>io2. handle_event ctl (FdEvent fd flags) io1 = Inr io2
           \<and> (if gives_up ctl fd ev io1
              then queue io2 = (queue io)(k := queue io k @ [event_task cur cb]) \<and> \<not> waits ev (context_at fd io2)
                \<and> cancelEvent ctl fd ev io2 = Inr (False, io2)
              else queue io2 = queue io \<and> waits ev (context_at fd io2))))"
proof -
  note s = addEvent_stored [OF inv laws ev fd cb add]
  note res = removal_results [OF s(3) laws ev fd s(5,1)]
  have t: "task_of (new_slot k cur cb) = event_task cur cb" "the (ec_scheduler (new_slot k cur cb)) = k"
    using cb by (auto simp: task_of_def new_slot_def event_task_def fiber_task_def split: option.splits)
  note again = cancel_unawaited [OF fd]
  obtain b2 io2 where del: "delEvent ctl fd ev io1 = Inr (b2, io2)" "queue io2 = queue io"
    using delEvent_inv [OF s(3) laws ev fd] s(4) by auto
  obtain b3 io3 where can: "cancelEvent ctl fd ev io1 = Inr (b3, io3)"
    "if b3 then queue io3 = (queue io)(k := queue io k @ [event_task cur cb]) else queue io3 = queue io"
    using cancelEvent_inv [OF s(3) laws ev fd] by (auto simp: Let_def s(2) t s(4) split: if_splits)
  note ends = cancelEvent_ends [OF s(3) laws ev fd can(1)]
  have rep: "\<exists>io2. handle_event ctl (FdEvent fd flags) io1 = Inr io2
      \<and> (if gives_up ctl fd ev io1
         then queue io2 = (queue io)(k := queue io k @ [event_task cur cb]) \<and> \<not> waits ev (context_at fd io2)
           \<and> cancelEvent ctl fd ev io2 = Inr (False, io2)
         else queue io2 = queue io \<and> waits ev (context_at fd io2))"
    if "fresh_report fd flags io1" "real_events flags (context_at fd io1) = ev" for flags
    using report_result [OF s(3) laws ev that s(2)] s(1,4) t again by (auto split: if_splits)
  have "\<not> waits ev (context_at fd io2)" if "gives_up ctl fd ev io1"
    by (rule delEvent_ends [OF s(3) laws ev fd]) (use del res(2) that in auto)
  with s(1,4) del can res ends again rep show ?thesis by auto
qed

lemma demo_added:
  "\<exists>io1. addEvent demo_ctl (Some 1) (0, EXEC) 5 READ (Some (Plain 7)) (IOManager_new (\<lambda>_. None) 1 [8] demo_sched)
      = Inr (0, io1) \<and> m_epfd io1 = [5 \<mapsto> EPOLLET OR READ] \<and> events (context_at 5 io1) = READ"
proof -
  let ?io = "IOManager_new (\<lambda>_. None) 1 [8] demo_sched"
  have inv: "io_inv (\<lambda>e. e) ?io" by (rule IOManager_new_inv) simp
  have room: "room 5 ?io = ?io" "context_at 5 ?io = FdContext_new 5" "length (m_fdContexts ?io) = 32"
    by (simp_all add: room_def IOManager_new_def contextResize_32)
  show ?thesis
    using addEvent_eq [where ctl = demo_ctl and k = 1 and cur = "(0, EXEC)", OF inv event_words(1), of 5 "Some (Plain 7)"]
    unfolding room(1,2)
    by (simp add: waits_def FdContext_new_def NONE_def demo_ctl_def Let_def room(3) put_context_def)
       (simp add: IOManager_new_def contextResize_32)
qed

theorem event_scheduled_once_witness:
  "\<exists>io1 io2. addEvent demo_ctl (Some 1) (0, EXEC) 5 READ (Some (Plain 7)) (IOManager_new (\<lambda>_. None) 1 [8] demo_sched) = Inr (0, io1)
    \<and> cancelEvent demo_ctl 5 READ io1 = Inr (True, io2)
    \<and> queue io2 1 = [cb_task (Job (Plain 7)) (-1)]"
proof -
  let ?io = "IOManager_new (\<lambda>_. None) 1 [8] demo_sched"
  have inv: "io_inv (\<lambda>e. e) ?io" by (rule IOManager_new_inv) simp
  obtain io1 where a: "addEvent demo_ctl (Some 1) (0, EXEC) 5 READ (Some (Plain 7)) ?io = Inr (0, io1)"
    "m_epfd io1 = [5 \<mapsto> EPOLLET OR READ]"
    using demo_added by blast
  have c: "(0 :: int) \<le> 5" "Some (Plain (7 :: nat)) \<noteq> None \<or> snd (0 :: nat, EXEC) = EXEC" by simp_all
  note s = addEvent_stored [OF inv demo_ctl_laws event_words(1) c a(1)]
  obtain io2 where 2: "cancelEvent demo_ctl 5 READ io1 = Inr (True, io2)"
  proof (cases rule: unwatch_cases [OF s(3) demo_ctl_laws event_words(1) c(1)])
    case (1 e)
    then show ?thesis
      using s(1,5) a(2)
      by (auto simp: unwatch_def fd_at_def waits_def Let_def demo_ctl_def split: if_splits)
  next
    case (2 e)
    then have "\<exists>io2. cancelEvent demo_ctl 5 READ io1 = Inr (True, io2)"
      by (simp only: cancelEvent_def Let_def bindE_Inr prod.case option.case
        triggerEvent_ok [OF io_invD(1) [OF s(3) c(1) s(5)] event_words(1) s(1)]) blast
    with that show ?thesis by blast
  qed
  have "queue ?io 1 = []" by (simp add: queue_def IOManager_new_def demo_sched_def start_def)
  with event_scheduled_once [OF inv demo_ctl_laws event_words(1) c a(1)] a 2 show ?thesis
    by (auto simp: event_task_def)
qed


section \<open>A stale report, and a far timer\<close>

text \<open>A report that stands for both events while only one of them is still awaited, because
  another thread deleted or cancelled the other one after the kernel had reported both, ends the
  process: the loop triggers both, and the assertion of \<open>triggerEvent\<close> fails.\<close>

theorem stale_report_aborts:
  fixes io :: "('c, 'e) IOManager"
  assumes inv: "io_inv interest io" and fd: "0 \<le> fd" "nat fd < length (m_fdContexts io)"
    and one: "events (m_fdContexts io ! nat fd) = READ \<or> events (m_fdContexts io ! nat fd) = WRITE"
    and both: "flags AND EPOLLIN \<noteq> 0" "flags AND EPOLLOUT \<noteq> 0"
    and ctl: "fst (ctl EPOLL_CTL_DEL fd (EPOLLET OR 0) (m_epfd io)) = 0"
  shows "handle_event ctl (FdEvent fd flags) io = Inl IoAssert"
proof -
  let ?fc = "context_at fd io"
  note d = io_invD [OF inv fd]
  have b: "(flags OR w) AND EPOLLIN \<noteq> 0 \<and> (flags OR w) AND EPOLLOUT \<noteq> 0" for w
    using both by (metis bit.conj_disj_distrib2 or_eq_0_iff)
  have r: "real_events flags ?fc = 5"
    using b both by (simp add: real_events_def Let_def NONE_def READ_def WRITE_def)
  have left: "events ?fc AND 5 \<noteq> NONE" "events ?fc AND NOT 5 = 0"
    using one by (auto simp: READ_def WRITE_def NONE_def)
  obtain e where e: "ctl EPOLL_CTL_DEL fd (EPOLLET OR 0) (m_epfd io) = (0, e)"
    using ctl by (metis prod.collapse)
  have h: "handle_event ctl (FdEvent fd flags) io =
      bindE (trigger_if 5 READ (?fc, io\<lparr>m_epfd := e\<rparr>)) (\<lambda>(fc1, io2).
      bindE (trigger_if 5 WRITE (fc1, io2)) (\<lambda>(fc2, io3). Inr (set_fd fd fc2 io3)))"
    using fd e d(2) left by (simp add: handle_event_def fd_at_def Let_def r)
  have miss: "trigger_if 5 ev (fc, io') = Inl IoAssert" if "\<not> waits ev fc" "an_event ev" for ev fc and io' :: "('c, 'e) IOManager"
    using that by (auto simp: trigger_if_def triggerEvent_def waits_def READ_def WRITE_def)
  show ?thesis
  proof (cases "waits READ ?fc")
    case False
    with h miss event_words show ?thesis by simp
  next
    case True
    then have nw: "\<not> waits WRITE ?fc" using one by (auto simp: waits_def READ_def WRITE_def)
    obtain fc1 io1 where "trigger_if 5 READ (?fc, io\<lparr>m_epfd := e\<rparr>) = Inr (fc1, io1)" "waits WRITE fc1 = waits WRITE ?fc"
      using trigger_if_ok [OF d(1) event_words(1), of 5] True event_words by metis
    with h miss [of WRITE fc1 io1] nw event_words show ?thesis by simp
  qed
qed

theorem stale_report_aborts_witness:
  "\<exists>io1. addEvent demo_ctl (Some 1) (0, EXEC) 5 READ (Some (Plain 7)) (IOManager_new (\<lambda>_. None) 1 [8] demo_sched) = Inr (0, io1)
    \<and> handle_event demo_ctl (FdEvent 5 (EPOLLIN OR EPOLLOUT)) io1 = Inl IoAssert"
proof -
  let ?io = "IOManager_new (\<lambda>_. None) 1 [8] demo_sched"
  have inv: "io_inv (\<lambda>e. e) ?io" by (rule IOManager_new_inv) simp
  obtain io1 where a: "addEvent demo_ctl (Some 1) (0, EXEC) 5 READ (Some (Plain 7)) ?io = Inr (0, io1)"
    "m_epfd io1 = [5 \<mapsto> EPOLLET OR READ]" "events (context_at 5 io1) = READ"
    using demo_added by blast
  have c: "(0 :: int) \<le> 5" "Some (Plain (7 :: nat)) \<noteq> None \<or> snd (0 :: nat, EXEC) = EXEC" by simp_all
  note s = addEvent_stored [OF inv demo_ctl_laws event_words(1) c a(1)]
  have "handle_event demo_ctl (FdEvent 5 (EPOLLIN OR EPOLLOUT)) io1 = Inl IoAssert"
    by (rule stale_report_aborts [OF s(3) c(1) s(5)]) (use a(2,3) in \<open>simp_all add: demo_ctl_def EPOLLIN_def EPOLLOUT_def\<close>)
  with a(1) show ?thesis by blast
qed

text \<open>C26: The time \<open>epoll_wait\<close> may sleep is at most a second, and never longer than the time to the next
  timer as long as that time fits an \<open>int\<close>; without a timer it is a second. But the conversions
  to \<open>int\<close> keep only the time modulo 2^32 milliseconds, and take the upper half of that range as
  negative, which means to sleep until an event comes: with the next timer 2^31 to 2^32
  milliseconds away, and the same times plus any multiple of 2^32, the wait is for ever.\<close>

theorem wait_timeout_bounds:
  shows "(n < 2 ^ 31 \<longrightarrow> wait_timeout n = min (int n) 1000) \<and> wait_timeout (2 ^ 64 - 1) = 1000
    \<and> wait_timeout n \<le> 1000
    \<and> (n \<noteq> 2 ^ 64 - 1 \<longrightarrow> (if n mod 2 ^ 32 < 2 ^ 31 then wait_timeout n = min (int (n mod 2 ^ 32)) 1000
        else wait_timeout n < 0))"
proof -
  have s: "sint (word_of_nat k :: 32 word) = (int k + 2 ^ 31) mod 2 ^ 32 - 2 ^ 31" for k
    using int_word_sint [where 'a = 32, of "int k"] by simp
  have small: "sint (word_of_nat k :: 32 word) = int k" if "k < 2 ^ 31" for k
    using that by (simp add: s)
  have large: "sint (word_of_nat k :: 32 word) = int k - 2 ^ 32" if "2 ^ 31 \<le> k" "k < 2 ^ 32" for k
  proof -
    have "(int k + 2 ^ 31) mod 2 ^ 32 = int k + 2 ^ 31 - 2 ^ 32"
      using that mod_pos_pos_trivial [of "int k - 2 ^ 31" "2 ^ 32"] mod_add_self2 [of "int k - 2 ^ 31" "2 ^ 32 :: int"]
      by (simp add: add.commute)
    then show ?thesis by (simp add: s)
  qed
  have m: "sint (word_of_nat n :: 32 word) = sint (word_of_nat (n mod 2 ^ 32) :: 32 word)"
    unfolding s by (simp add: zmod_int mod_add_left_eq)
  have all: "if n mod 2 ^ 32 < 2 ^ 31 then wait_timeout n = min (int (n mod 2 ^ 32)) 1000 else wait_timeout n < 0"
    if "n \<noteq> 2 ^ 64 - 1"
    using that small [of "n mod 2 ^ 32"] small [of 1000] large [of "n mod 2 ^ 32"] m
    by (auto simp: wait_timeout_def Let_def min_def)
  have none: "wait_timeout (2 ^ 64 - 1) = 1000" using small [of 1000] by (simp add: wait_timeout_def)
  from all none have "wait_timeout n \<le> 1000" by (cases "n = 2 ^ 64 - 1") (auto split: if_splits)
  with all none show ?thesis by auto
qed

theorem wait_timeout_bounds_witness:
  "wait_timeout 250 = 250 \<and> wait_timeout (2 ^ 64 - 1) = 1000 \<and> wait_timeout 3000000000 < 0 \<and> wait_timeout (2 ^ 33) = 0
    \<and> wait_timeout (2 ^ 32 + 2 ^ 31) < 0"
  using wait_timeout_bounds [of 250] wait_timeout_bounds [of 3000000000] wait_timeout_bounds [of "2 ^ 33"]
    wait_timeout_bounds [of "2 ^ 32 + 2 ^ 31"] by simp

end
