(* ===== verification/FdManager.thy ===== *)
theory FdManager
  imports Prelude
begin

unbundle bit_operations_syntax

text \<open>
  What the process knows of its file descriptors (\<open>src/sylar/fd_manager.cc\<close>, \<open>fd_manager.h\<close>).
  The system calls used are parameters over a state \<open>'s\<close> of the operating system, collected in
  \<open>sys_calls\<close>; a call answers with its result and the value of \<open>errno\<close>, which counts only for the
  result -1.
\<close>

section \<open>System calls\<close>

text \<open>The commands of \<open>fcntl\<close> the code names, and any other.\<close>

datatype fcntl_cmd = F_DUPFD | F_GETFD | F_SETFD | F_GETFL | F_SETFL | F_GETLK | F_SETLK | F_SETLKW
  | F_SETOWN | F_GETOWN | F_SETSIG | F_GETSIG | F_SETOWN_EX | F_GETOWN_EX | F_SETLEASE | F_GETLEASE
  | F_NOTIFY | F_DUPFD_CLOEXEC | F_SETPIPE_SZ | F_GETPIPE_SZ | F_COMMAND int

datatype fcntl_arg = NoArg | IntArg "32 word" | PtrArg nat

text \<open>The memory handed to \<open>setsockopt\<close>: a \<open>timeval\<close> or some other option.\<close>

datatype sock_opt = Timeval int int | OtherOpt "8 word list"

type_synonym io_result = "int \<times> int"

text \<open>
  \<open>sys_fstat\<close> says whether a descriptor is a socket (\<open>None\<close> when the call fails), \<open>sys_close\<close> and the
  others are the functions of the C library found by \<open>dlsym\<close>; \<open>sys_epoll_ctl\<close> changes the epoll
  instance of the I/O manager.
\<close>

record ('s, 'e) sys_calls =
  sys_fstat :: "int \<Rightarrow> 's \<Rightarrow> bool option"
  sys_fcntl :: "int \<Rightarrow> fcntl_cmd \<Rightarrow> fcntl_arg \<Rightarrow> 's \<Rightarrow> 32 word \<times> 's"
  sys_ioctl :: "int \<Rightarrow> 64 word \<Rightarrow> 32 word \<Rightarrow> 's \<Rightarrow> io_result \<times> 's"
  sys_socket :: "int \<Rightarrow> int \<Rightarrow> int \<Rightarrow> 's \<Rightarrow> io_result \<times> 's"
  sys_close :: "int \<Rightarrow> 's \<Rightarrow> io_result \<times> 's"
  sys_setsockopt :: "int \<Rightarrow> int \<Rightarrow> int \<Rightarrow> sock_opt \<Rightarrow> 's \<Rightarrow> io_result \<times> 's"
  sys_so_error :: "int \<Rightarrow> 's \<Rightarrow> io_result \<times> int \<times> 's"
  sys_epoll_ctl :: "'e"

definition O_NONBLOCK :: "32 word" where "O_NONBLOCK = 0x800"
definition SOL_SOCKET :: int where "SOL_SOCKET = 1"
definition SO_RCVTIMEO :: int where "SO_RCVTIMEO = 20"
definition SO_SNDTIMEO :: int where "SO_SNDTIMEO = 21"

section \<open>The context of a descriptor\<close>

record FdCtx =
  m_isInit :: bool
  m_isSocket :: bool
  m_sysNonblock :: bool
  m_userNonblock :: bool
  m_isClosed :: bool
  m_fd :: int
  m_recvTimeout :: "64 word"
  m_sendTimeout :: "64 word"

text \<open>\<open>init\<close>: a socket is made non-blocking in the kernel.\<close>

definition FdCtx_init :: "('s, 'e) sys_calls \<Rightarrow> FdCtx \<Rightarrow> 's \<Rightarrow> bool \<times> FdCtx \<times> 's" where
  "FdCtx_init sys c s =
     (if m_isInit c then (True, c, s)
      else
        let c1 = c\<lparr>m_recvTimeout := - 1, m_sendTimeout := - 1\<rparr>;
            c2 = (case sys_fstat sys (m_fd c1) s of
                None \<Rightarrow> c1\<lparr>m_isInit := False, m_isSocket := False\<rparr>
              | Some sock \<Rightarrow> c1\<lparr>m_isInit := True, m_isSocket := sock\<rparr>);
            (c3, s1) =
              (if m_isSocket c2 then
                 let (flags, sa) = sys_fcntl sys (m_fd c2) F_GETFL (IntArg 0) s;
                     sb = (if flags AND O_NONBLOCK = 0
                           then snd (sys_fcntl sys (m_fd c2) F_SETFL (IntArg (flags OR O_NONBLOCK)) sa) else sa)
                 in (c2\<lparr>m_sysNonblock := True\<rparr>, sb)
               else (c2\<lparr>m_sysNonblock := False\<rparr>, s));
            c4 = c3\<lparr>m_userNonblock := False, m_isClosed := False\<rparr>
        in (m_isInit c4, c4, s1))"

definition FdCtx_new :: "('s, 'e) sys_calls \<Rightarrow> int \<Rightarrow> 's \<Rightarrow> FdCtx \<times> 's" where
  "FdCtx_new sys fd s =
     snd (FdCtx_init sys \<lparr>m_isInit = False, m_isSocket = False, m_sysNonblock = False, m_userNonblock = False,
       m_isClosed = False, m_fd = fd, m_recvTimeout = - 1, m_sendTimeout = - 1\<rparr> s)"

definition setTimeout :: "int \<Rightarrow> 64 word \<Rightarrow> FdCtx \<Rightarrow> FdCtx" where
  "setTimeout ty v c = (if ty = SO_RCVTIMEO then c\<lparr>m_recvTimeout := v\<rparr> else c\<lparr>m_sendTimeout := v\<rparr>)"

definition getTimeout :: "int \<Rightarrow> FdCtx \<Rightarrow> 64 word" where
  "getTimeout ty c = (if ty = SO_RCVTIMEO then m_recvTimeout c else m_sendTimeout c)"

section \<open>The table\<close>

text \<open>\<open>m_datas\<close>; an empty pointer is \<open>None\<close>. \<open>BadFd\<close> is an index outside the vector.\<close>

type_synonym FdManager = "FdCtx option list"

datatype fd_error = BadFd

definition FdManager_new :: FdManager where
  "FdManager_new = replicate 64 None"

definition fd_slot :: "int \<Rightarrow> FdManager \<Rightarrow> fd_error + FdCtx option" where
  "fd_slot fd m = (if 0 \<le> fd \<and> nat fd < length m then Inr (m ! nat fd) else Inl BadFd)"

definition set_slot :: "int \<Rightarrow> FdCtx option \<Rightarrow> FdManager \<Rightarrow> fd_error + FdManager" where
  "set_slot fd c m = (if 0 \<le> fd \<and> nat fd < length m then Inr (m[nat fd := c]) else Inl BadFd)"

text \<open>
  \<open>get\<close> is two steps, since it changes the lock in between: a lookup under the read lock, which
  answers or asks (\<open>None\<close>) for a new context, and the creation under the write lock.
\<close>

definition get_lookup :: "int \<Rightarrow> bool \<Rightarrow> FdManager \<Rightarrow> fd_error + FdCtx option option" where
  "get_lookup fd auto_create m =
     (if fd = -1 then Inr (Some None)
      else if int (length m) \<le> fd then (if \<not> auto_create then Inr (Some None) else Inr None)
      else
        bindE (fd_slot fd m) (\<lambda>c.
        if c \<noteq> None \<or> \<not> auto_create then Inr (Some c) else Inr None))"

definition get_create :: "('s, 'e) sys_calls \<Rightarrow> int \<Rightarrow> FdManager \<Rightarrow> 's \<Rightarrow> fd_error + FdCtx \<times> FdManager \<times> 's" where
  "get_create sys fd m s =
     (let (ctx, s1) = FdCtx_new sys fd s;
          m1 = (if fd \<ge> int (length m) then
                  take (nat (fd * 3 div 2)) m @ replicate (nat (fd * 3 div 2) - length m) None else m)
      in bindE (set_slot fd (Some ctx) m1) (\<lambda>m2. Inr (ctx, m2, s1)))"

definition fd_get :: "('s, 'e) sys_calls \<Rightarrow> int \<Rightarrow> bool \<Rightarrow> FdManager \<Rightarrow> 's \<Rightarrow> fd_error + FdCtx option \<times> FdManager \<times> 's" where
  "fd_get sys fd auto_create m s =
     bindE (get_lookup fd auto_create m) (\<lambda>r.
     case r of
       Some c \<Rightarrow> Inr (c, m, s)
     | None \<Rightarrow> bindE (get_create sys fd m s) (\<lambda>(ctx, m1, s1). Inr (Some ctx, m1, s1)))"

definition fd_del :: "int \<Rightarrow> FdManager \<Rightarrow> fd_error + FdManager" where
  "fd_del fd m = (if int (length m) \<le> fd then Inr m else set_slot fd None m)"

end
