(* ===== verification/Hook.thy ===== *)
theory Hook
  imports FdManager IoManager "HOL-Library.While_Combinator" "HOL-Library.Signed_Division"
begin

unbundle bit_operations_syntax

text \<open>
  The replaced system calls (\<open>src/sylar/hook.cc\<close>): on a thread with hooks enabled a call that would
  block stores the current fiber with the I/O manager and yields. Since other code runs before the
  fiber is resumed, such a function is split at its \<open>yield\<close>: it answers \<open>Return\<close> with its result or
  \<open>Wait\<close> with the variables it keeps, and another definition goes on from there. Reading the
  configuration and logging are left out.
\<close>

section \<open>Model\<close>

definition EINTR :: int where "EINTR = 4"
definition EBADF :: int where "EBADF = 9"
definition EAGAIN :: int where "EAGAIN = 11"
definition ETIMEDOUT :: int where "ETIMEDOUT = 110"
definition EINPROGRESS :: int where "EINPROGRESS = 115"
definition FIONBIO :: "64 word" where "FIONBIO = 0x5421"

text \<open>The functions handed to the timers: the one for a wait that timed out, with the address of its
  \<open>timer_info\<close>, and the one that wakes a sleeping fiber.\<close>

datatype hook_job = TimedOut nat int "32 word" | ScheduleFiber nat

type_synonym 'e ctl = "EpollCtlOp \<Rightarrow> int \<Rightarrow> 32 word \<Rightarrow> 'e \<Rightarrow> int \<times> 'e"

text \<open>
  What the calls of all threads share: the table of descriptors, the I/O manager, the fields
  \<open>cancelled\<close> of the \<open>timer_info\<close> objects that are alive, and the operating system; and of each
  thread the flag \<open>t_hook_enable\<close> and \<open>errno\<close>.
\<close>

record ('e, 's) hook_state =
  fd_table :: FdManager
  io_manager :: "(hook_job, 'e) IOManager"
  timer_infos :: "nat \<Rightarrow> int option"
  hook_os :: 's
  hook_enable :: "nat \<Rightarrow> bool"
  errno :: "nat \<Rightarrow> int"

text \<open>
  One call: its thread, the time, the scheduler and the current fiber of the thread, and the
  addresses of the timer and the \<open>timer_info\<close> it may make.
\<close>

record call_env =
  env_thread :: nat
  env_now :: nat
  env_sched :: "nat option"
  env_cur :: "nat \<times> fiber_state"
  env_timer :: nat
  env_info :: nat

record io_wait =
  w_fd :: int
  w_event :: "32 word"
  w_timeout :: "64 word"
  w_timer :: "nat option"
  w_info :: nat

datatype io_outcome = Return int | Wait io_wait

datatype hook_error = HookFd fd_error | HookIo io_error | HookTimer timer_error
  | NullIOManager | BadInfo | BadArgument | NeverReturns

definition is_hook_enable :: "nat \<Rightarrow> ('e, 's) hook_state \<Rightarrow> bool" where
  "is_hook_enable t st = hook_enable st t"

definition set_hook_enable :: "nat \<Rightarrow> bool \<Rightarrow> ('e, 's) hook_state \<Rightarrow> ('e, 's) hook_state" where
  "set_hook_enable t flag st = st\<lparr>hook_enable := (hook_enable st)(t := flag)\<rparr>"

definition set_errno :: "nat \<Rightarrow> int \<Rightarrow> ('e, 's) hook_state \<Rightarrow> ('e, 's) hook_state" where
  "set_errno t e st = st\<lparr>errno := (errno st)(t := e)\<rparr>"

text \<open>A call of the C library by thread \<open>t\<close>: \<open>errno\<close> is set when it answers -1.\<close>

definition pass :: "nat \<Rightarrow> ('s \<Rightarrow> io_result \<times> 's) \<Rightarrow> ('e, 's) hook_state \<Rightarrow> int \<times> ('e, 's) hook_state" where
  "pass t f st =
     (let ((n, e), s) = f (hook_os st); st1 = st\<lparr>hook_os := s\<rparr>
      in (n, if n = -1 then set_errno t e st1 else st1))"

definition lookup_ctx :: "int \<Rightarrow> ('e, 's) hook_state \<Rightarrow> hook_error + FdCtx option" where
  "lookup_ctx fd st = mapE HookFd (bindE (get_lookup fd False (fd_table st)) (\<lambda>r. Inr (case r of None \<Rightarrow> None | Some c \<Rightarrow> c)))"

definition create_ctx :: "('s, 'e ctl) sys_calls \<Rightarrow> int \<Rightarrow> ('e, 's) hook_state \<Rightarrow> hook_error + ('e, 's) hook_state" where
  "create_ctx sys fd st =
     mapE HookFd (bindE (fd_get sys fd True (fd_table st) (hook_os st)) (\<lambda>(_, m, s).
     Inr (st\<lparr>fd_table := m, hook_os := s\<rparr>)))"

definition put_ctx :: "int \<Rightarrow> FdCtx \<Rightarrow> ('e, 's) hook_state \<Rightarrow> hook_error + ('e, 's) hook_state" where
  "put_ctx fd c st = mapE HookFd (bindE (set_slot fd (Some c) (fd_table st)) (\<lambda>m. Inr (st\<lparr>fd_table := m\<rparr>)))"

section \<open>Waiting\<close>

text \<open>\<open>IOManager::GetThis()\<close>, which is null on the threads of another scheduler.\<close>

definition need_iom :: "call_env \<Rightarrow> ('e, 's) hook_state \<Rightarrow> hook_error + unit" where
  "need_iom env st = guardE NullIOManager (env_sched env = Some (this_scheduler (io_manager st)))"

text \<open>\<open>addTimer\<close> of the I/O manager, which is woken up for a timer that comes first.\<close>

definition add_io_timer :: "call_env \<Rightarrow> nat \<Rightarrow> hook_job callback \<Rightarrow> ('e, 's) hook_state \<Rightarrow> ('e, 's) hook_state" where
  "add_io_timer env ms cb st =
     (let io = io_manager st; (front, tm) = addTimer (env_now env) ms cb False (env_timer env) (io_timers io);
          io1 = io\<lparr>io_timers := tm\<rparr>
      in st\<lparr>io_manager := if front then onTimerInsertedAtFront io1 else io1\<rparr>)"

definition cancel_timer :: "nat option \<Rightarrow> ('e, 's) hook_state \<Rightarrow> hook_error + ('e, 's) hook_state" where
  "cancel_timer timer st =
     (case timer of
        None \<Rightarrow> Inr st
      | Some a \<Rightarrow> mapE HookTimer (bindE (cancel a (io_timers (io_manager st))) (\<lambda>(_, tm).
          Inr (st\<lparr>io_manager := (io_manager st)\<lparr>io_timers := tm\<rparr>\<rparr>))))"

definition free_info :: "nat \<Rightarrow> ('e, 's) hook_state \<Rightarrow> ('e, 's) hook_state" where
  "free_info i st = st\<lparr>timer_infos := (timer_infos st)(i := None)\<rparr>"

text \<open>
  The steps before the \<open>yield\<close> that \<open>do_io\<close> and \<open>connect_with_timeout\<close> share: a timer for the
  timeout, unless it is -1, and the event; the result says whether \<open>addEvent\<close> failed, in which case
  the timer is cancelled again.
\<close>

definition begin_wait ::
  "('s, 'e ctl) sys_calls \<Rightarrow> call_env \<Rightarrow> int \<Rightarrow> 32 word \<Rightarrow> 64 word \<Rightarrow> nat \<Rightarrow> ('e, 's) hook_state
    \<Rightarrow> hook_error + io_wait option \<times> ('e, 's) hook_state" where
  "begin_wait sys env fd event to info st =
     bindE (need_iom env st) (\<lambda>_.
     let (timer, st1) =
           (if to \<noteq> - 1 then
              (Some (env_timer env), add_io_timer env (unat to) (OnTimer info (TimedOut info fd event)) st)
            else (None, st)) in
     bindE (mapE HookIo (addEvent (sys_epoll_ctl sys) (env_sched env) (env_cur env) fd event None (io_manager st1))) (\<lambda>(rt, io).
     let st2 = st1\<lparr>io_manager := io\<rparr> in
     if rt \<noteq> 0 then bindE (cancel_timer timer st2) (\<lambda>st3. Inr (None, st3))
     else Inr (Some \<lparr>w_fd = fd, w_event = event, w_timeout = to, w_timer = timer, w_info = info\<rparr>, st2)))"

text \<open>
  After the \<open>yield\<close>: the timer is cancelled; the result is \<open>cancelled\<close>, 0 when the event came.
\<close>

definition end_wait :: "io_wait \<Rightarrow> ('e, 's) hook_state \<Rightarrow> hook_error + int \<times> ('e, 's) hook_state" where
  "end_wait w st =
     bindE (cancel_timer (w_timer w) st) (\<lambda>st1.
     bindE (optE BadInfo (timer_infos st1 (w_info w))) (\<lambda>c. Inr (c, st1)))"

text \<open>What the functions handed to timers do, run later by a thread of the manager.\<close>

definition run_job :: "('s, 'e ctl) sys_calls \<Rightarrow> hook_job \<Rightarrow> ('e, 's) hook_state \<Rightarrow> hook_error + ('e, 's) hook_state" where
  "run_job sys job st =
     (case job of
        TimedOut info fd event \<Rightarrow>
          (case timer_infos st info of
             None \<Rightarrow> Inr st
           | Some c \<Rightarrow>
               if c \<noteq> 0 then Inr st
               else
                 let st1 = st\<lparr>timer_infos := (timer_infos st)(info \<mapsto> ETIMEDOUT)\<rparr> in
                 bindE (mapE HookIo (cancelEvent (sys_epoll_ctl sys) fd event (io_manager st1))) (\<lambda>(_, io).
                 Inr (st1\<lparr>io_manager := io\<rparr>)))
      | ScheduleFiber f \<Rightarrow>
          Inr (st\<lparr>io_manager := schedule_on (this_scheduler (io_manager st)) (fiber_task f (-1)) (io_manager st)\<rparr>))"

text \<open>A callback as the timer stores it, with its condition.\<close>

definition run_callback :: "('s, 'e ctl) sys_calls \<Rightarrow> hook_job callback \<Rightarrow> ('e, 's) hook_state \<Rightarrow> hook_error + ('e, 's) hook_state" where
  "run_callback sys cb st =
     (case call_cb (\<lambda>w. timer_infos st w \<noteq> None) cb of None \<Rightarrow> Inr st | Some job \<Rightarrow> run_job sys job st)"

section \<open>Reading and writing\<close>

text \<open>The call \<open>fun\<close>, repeated while a signal interrupts it.\<close>

definition call_uninterrupted :: "('s \<Rightarrow> io_result \<times> 's) \<Rightarrow> 's \<Rightarrow> (io_result \<times> 's) option" where
  "call_uninterrupted f s = while_option (\<lambda>((n, e), _). n = -1 \<and> e = EINTR) (\<lambda>(_, s). f s) (f s)"

text \<open>\<open>do_io\<close> from the label \<open>retry\<close> to its \<open>yield\<close> or return.\<close>

definition do_io_retry ::
  "('s, 'e ctl) sys_calls \<Rightarrow> call_env \<Rightarrow> ('s \<Rightarrow> io_result \<times> 's) \<Rightarrow> int \<Rightarrow> 32 word \<Rightarrow> 64 word \<Rightarrow> nat
    \<Rightarrow> ('e, 's) hook_state \<Rightarrow> hook_error + io_outcome \<times> ('e, 's) hook_state" where
  "do_io_retry sys env f fd event to info st =
     bindE (optE NeverReturns (call_uninterrupted f (hook_os st))) (\<lambda>((n, e), s).
     let st1 = st\<lparr>hook_os := s\<rparr>;
         st2 = (if n = -1 then set_errno (env_thread env) e st1 else st1) in
     if n = -1 \<and> e = EAGAIN then
       bindE (begin_wait sys env fd event to info st2) (\<lambda>(w, st3).
       case w of None \<Rightarrow> Inr (Return (-1), free_info info st3) | Some w \<Rightarrow> Inr (Wait w, st3))
     else Inr (Return n, free_info info st2))"

text \<open>\<open>do_io\<close> up to its first \<open>yield\<close>, and from a \<open>yield\<close> on.\<close>

definition do_io ::
  "('s, 'e ctl) sys_calls \<Rightarrow> call_env \<Rightarrow> ('s \<Rightarrow> io_result \<times> 's) \<Rightarrow> int \<Rightarrow> 32 word \<Rightarrow> int
    \<Rightarrow> ('e, 's) hook_state \<Rightarrow> hook_error + io_outcome \<times> ('e, 's) hook_state" where
  "do_io sys env f fd event timeout_so st =
     (let through = (let (n, st1) = pass (env_thread env) f st in Inr (Return n, st1)) in
      if \<not> is_hook_enable (env_thread env) st then through
      else
        bindE (lookup_ctx fd st) (\<lambda>c.
        case c of
          None \<Rightarrow> through
        | Some ctx \<Rightarrow>
            if m_isClosed ctx then Inr (Return (-1), set_errno (env_thread env) EBADF st)
            else if \<not> m_isSocket ctx \<or> m_userNonblock ctx then through
            else
              do_io_retry sys env f fd event (getTimeout timeout_so ctx) (env_info env)
                (st\<lparr>timer_infos := (timer_infos st)(env_info env \<mapsto> 0)\<rparr>)))"

definition do_io_resumed ::
  "('s, 'e ctl) sys_calls \<Rightarrow> call_env \<Rightarrow> ('s \<Rightarrow> io_result \<times> 's) \<Rightarrow> io_wait
    \<Rightarrow> ('e, 's) hook_state \<Rightarrow> hook_error + io_outcome \<times> ('e, 's) hook_state" where
  "do_io_resumed sys env f w st =
     bindE (end_wait w st) (\<lambda>(cancelled, st1).
     if cancelled \<noteq> 0 then
       Inr (Return (-1), free_info (w_info w) (set_errno (env_thread env) cancelled st1))
     else do_io_retry sys env f (w_fd w) (w_event w) (w_timeout w) (w_info w) st1)"

text \<open>The functions built on it; \<open>f\<close> is the original call with its arguments. \<open>accept\<close> registers the
  descriptor it returns.\<close>

definition hook_read :: "('s, 'e ctl) sys_calls \<Rightarrow> call_env \<Rightarrow> (int \<Rightarrow> 's \<Rightarrow> io_result \<times> 's) \<Rightarrow> int
    \<Rightarrow> ('e, 's) hook_state \<Rightarrow> hook_error + io_outcome \<times> ('e, 's) hook_state" where
  "hook_read sys env f fd = do_io sys env (f fd) fd READ SO_RCVTIMEO"

definition hook_write :: "('s, 'e ctl) sys_calls \<Rightarrow> call_env \<Rightarrow> (int \<Rightarrow> 's \<Rightarrow> io_result \<times> 's) \<Rightarrow> int
    \<Rightarrow> ('e, 's) hook_state \<Rightarrow> hook_error + io_outcome \<times> ('e, 's) hook_state" where
  "hook_write sys env f fd = do_io sys env (f fd) fd WRITE SO_SNDTIMEO"

definition accept_result :: "('s, 'e ctl) sys_calls \<Rightarrow> io_outcome \<times> ('e, 's) hook_state
    \<Rightarrow> hook_error + io_outcome \<times> ('e, 's) hook_state" where
  "accept_result sys r =
     (case r of
        (Return fd, st) \<Rightarrow> if fd \<ge> 0 then bindE (create_ctx sys fd st) (\<lambda>st1. Inr (Return fd, st1)) else Inr (Return fd, st)
      | (Wait w, st) \<Rightarrow> Inr (Wait w, st))"

definition hook_accept :: "('s, 'e ctl) sys_calls \<Rightarrow> call_env \<Rightarrow> (int \<Rightarrow> 's \<Rightarrow> io_result \<times> 's) \<Rightarrow> int
    \<Rightarrow> ('e, 's) hook_state \<Rightarrow> hook_error + io_outcome \<times> ('e, 's) hook_state" where
  "hook_accept sys env f s st = bindE (do_io sys env (f s) s READ SO_RCVTIMEO st) (accept_result sys)"

definition hook_accept_resumed :: "('s, 'e ctl) sys_calls \<Rightarrow> call_env \<Rightarrow> (int \<Rightarrow> 's \<Rightarrow> io_result \<times> 's) \<Rightarrow> io_wait
    \<Rightarrow> ('e, 's) hook_state \<Rightarrow> hook_error + io_outcome \<times> ('e, 's) hook_state" where
  "hook_accept_resumed sys env f w st = bindE (do_io_resumed sys env (f (w_fd w)) w st) (accept_result sys)"

section \<open>Sleeping\<close>

text \<open>
  Each function adds a timer that schedules the fiber, then yields; \<open>sleep_ms\<close> is what they share,
  and the result is 0 once the fiber is resumed. The milliseconds are computed in the types of the
  code: \<open>unsigned int\<close>, and for \<open>nanosleep\<close> a \<open>long\<close> narrowed to \<open>int\<close>, whose sign extends.
\<close>

definition sleep_ms :: "call_env \<Rightarrow> nat \<Rightarrow> ('e, 's) hook_state \<Rightarrow> hook_error + ('e, 's) hook_state" where
  "sleep_ms env ms st =
     bindE (need_iom env st) (\<lambda>_. Inr (add_io_timer env ms (Plain (ScheduleFiber (fst (env_cur env)))) st))"

definition hook_sleep :: "call_env \<Rightarrow> 32 word \<Rightarrow> ('e, 's) hook_state \<Rightarrow> hook_error + ('e, 's) hook_state" where
  "hook_sleep env seconds st = sleep_ms env (unat (seconds * 1000)) st"

definition hook_usleep :: "call_env \<Rightarrow> 32 word \<Rightarrow> ('e, 's) hook_state \<Rightarrow> hook_error + ('e, 's) hook_state" where
  "hook_usleep env usec st = sleep_ms env (unat (usec div 1000)) st"

definition nanosleep_ms :: "int \<Rightarrow> int \<Rightarrow> nat" where
  "nanosleep_ms tv_sec tv_nsec =
     (let timeout_ms = word_of_int (tv_sec * 1000 + tv_nsec sdiv 1000 sdiv 1000) :: 32 word
      in unat (scast timeout_ms :: 64 word))"

definition hook_nanosleep :: "call_env \<Rightarrow> int \<Rightarrow> int \<Rightarrow> ('e, 's) hook_state \<Rightarrow> hook_error + ('e, 's) hook_state" where
  "hook_nanosleep env tv_sec tv_nsec st = sleep_ms env (nanosleep_ms tv_sec tv_nsec) st"

section \<open>Connecting, opening and closing\<close>

definition hook_socket :: "('s, 'e ctl) sys_calls \<Rightarrow> nat \<Rightarrow> int \<Rightarrow> int \<Rightarrow> int \<Rightarrow> ('e, 's) hook_state \<Rightarrow> hook_error + int \<times> ('e, 's) hook_state" where
  "hook_socket sys t domain ty protocol st =
     (let (fd, st1) = pass t (sys_socket sys domain ty protocol) st in
      if \<not> is_hook_enable t st then Inr (fd, st1)
      else if fd = -1 then Inr (fd, st1)
      else bindE (create_ctx sys fd st1) (\<lambda>st2. Inr (fd, st2)))"

text \<open>The end of \<open>connect_with_timeout\<close>: the result of the connection is asked for.\<close>

definition connect_result :: "('s, 'e ctl) sys_calls \<Rightarrow> nat \<Rightarrow> int \<Rightarrow> ('e, 's) hook_state \<Rightarrow> io_outcome \<times> ('e, 's) hook_state" where
  "connect_result sys t fd st =
     (let ((n, e), err, s) = sys_so_error sys fd (hook_os st); st1 = st\<lparr>hook_os := s\<rparr> in
      if n = -1 then (Return (-1), set_errno t e st1)
      else if err = 0 then (Return 0, st1)
      else (Return (-1), set_errno t err st1))"

definition connect_with_timeout ::
  "('s, 'e ctl) sys_calls \<Rightarrow> call_env \<Rightarrow> ('s \<Rightarrow> io_result \<times> 's) \<Rightarrow> int \<Rightarrow> 64 word
    \<Rightarrow> ('e, 's) hook_state \<Rightarrow> hook_error + io_outcome \<times> ('e, 's) hook_state" where
  "connect_with_timeout sys env connect_f fd timeout_ms st =
     (let t = env_thread env; info = env_info env; through = (let (n, st1) = pass t connect_f st in Inr (Return n, st1)) in
      if \<not> is_hook_enable t st then through
      else
        bindE (lookup_ctx fd st) (\<lambda>c.
        case c of
          None \<Rightarrow> Inr (Return (-1), set_errno t EBADF st)
        | Some ctx \<Rightarrow>
            if m_isClosed ctx then Inr (Return (-1), set_errno t EBADF st)
            else if \<not> m_isSocket ctx then through
            else if m_userNonblock ctx then through
            else
              let (n, st1) = pass t connect_f st in
              if n = 0 then Inr (Return 0, st1)
              else if n \<noteq> -1 \<or> errno st1 t \<noteq> EINPROGRESS then Inr (Return n, st1)
              else
                bindE (begin_wait sys env fd WRITE timeout_ms info (st1\<lparr>timer_infos := (timer_infos st1)(info \<mapsto> 0)\<rparr>)) (\<lambda>(w, st2).
                case w of
                  Some w \<Rightarrow> Inr (Wait w, st2)
                | None \<Rightarrow> Inr (connect_result sys t fd (free_info info st2)))))"

definition connect_resumed :: "('s, 'e ctl) sys_calls \<Rightarrow> call_env \<Rightarrow> io_wait \<Rightarrow> ('e, 's) hook_state
    \<Rightarrow> hook_error + io_outcome \<times> ('e, 's) hook_state" where
  "connect_resumed sys env w st =
     bindE (end_wait w st) (\<lambda>(cancelled, st1).
     let st2 = free_info (w_info w) st1 in
     if cancelled \<noteq> 0 then Inr (Return (-1), set_errno (env_thread env) cancelled st2)
     else Inr (connect_result sys (env_thread env) (w_fd w) st2))"

definition hook_close :: "('s, 'e ctl) sys_calls \<Rightarrow> call_env \<Rightarrow> int \<Rightarrow> ('e, 's) hook_state \<Rightarrow> hook_error + int \<times> ('e, 's) hook_state" where
  "hook_close sys env fd st =
     (let t = env_thread env in
      if \<not> is_hook_enable t st then Inr (pass t (sys_close sys fd) st)
      else
        bindE (lookup_ctx fd st) (\<lambda>c.
        if c = None then Inr (pass t (sys_close sys fd) st)
        else
          bindE (if env_sched env = Some (this_scheduler (io_manager st))
                 then mapE HookIo (bindE (cancelAll (sys_epoll_ctl sys) fd (io_manager st)) (\<lambda>(_, io). Inr (st\<lparr>io_manager := io\<rparr>)))
                 else Inr st) (\<lambda>st1.
          bindE (mapE HookFd (fd_del fd (fd_table st1))) (\<lambda>m.
          Inr (pass t (sys_close sys fd) (st1\<lparr>fd_table := m\<rparr>))))))"

section \<open>Options\<close>

text \<open>\<open>fcntl\<close>: which of the commands hand their argument on.\<close>

definition no_argument :: "fcntl_cmd \<Rightarrow> bool" where
  "no_argument cmd \<longleftrightarrow> (case cmd of F_GETFD \<Rightarrow> True | F_GETOWN \<Rightarrow> True | F_GETSIG \<Rightarrow> True | F_GETLEASE \<Rightarrow> True
     | F_GETPIPE_SZ \<Rightarrow> True | F_COMMAND _ \<Rightarrow> True | _ \<Rightarrow> False)"

definition hook_fcntl :: "('s, 'e ctl) sys_calls \<Rightarrow> int \<Rightarrow> fcntl_cmd \<Rightarrow> fcntl_arg \<Rightarrow> ('e, 's) hook_state
    \<Rightarrow> hook_error + 32 word \<times> ('e, 's) hook_state" where
  "hook_fcntl sys fd cmd arg st =
     (let call = (\<lambda>a st1. let (r, s) = sys_fcntl sys fd cmd a (hook_os st1) in (r, st1\<lparr>hook_os := s\<rparr>));
          plain = (\<lambda>c. c = None \<or> m_isClosed (the c) \<or> \<not> m_isSocket (the c)) in
      case cmd of
        F_SETFL \<Rightarrow>
          (case arg of
             IntArg a \<Rightarrow>
               bindE (lookup_ctx fd st) (\<lambda>c.
               if plain c then Inr (call arg st)
               else
                 bindE (put_ctx fd ((the c)\<lparr>m_userNonblock := a AND O_NONBLOCK \<noteq> 0\<rparr>) st) (\<lambda>st1.
                 Inr (call (IntArg (if m_sysNonblock (the c) then a OR O_NONBLOCK else a AND NOT O_NONBLOCK)) st1)))
           | _ \<Rightarrow> Inl BadArgument)
      | F_GETFL \<Rightarrow>
          (let (flags, st1) = call NoArg st in
           bindE (lookup_ctx fd st1) (\<lambda>c.
           Inr (if plain c then flags
                else if m_userNonblock (the c) then flags OR O_NONBLOCK else flags AND NOT O_NONBLOCK, st1)))
      | _ \<Rightarrow> Inr (call (if no_argument cmd then NoArg else arg) st))"

text \<open>\<open>ioctl\<close>; \<open>value\<close> is the integer its pointer points to.\<close>

definition hook_ioctl :: "('s, 'e ctl) sys_calls \<Rightarrow> nat \<Rightarrow> int \<Rightarrow> 64 word \<Rightarrow> 32 word \<Rightarrow> ('e, 's) hook_state
    \<Rightarrow> hook_error + int \<times> ('e, 's) hook_state" where
  "hook_ioctl sys t d request value st =
     (if request = FIONBIO then
        bindE (lookup_ctx d st) (\<lambda>c.
        if c = None \<or> m_isClosed (the c) \<or> \<not> m_isSocket (the c) then Inr (pass t (sys_ioctl sys d request value) st)
        else
          bindE (put_ctx d ((the c)\<lparr>m_userNonblock := value \<noteq> 0\<rparr>) st) (\<lambda>st1.
          Inr (pass t (sys_ioctl sys d request value) st1)))
      else Inr (pass t (sys_ioctl sys d request value) st))"

definition timeval_ms :: "int \<Rightarrow> int \<Rightarrow> 64 word" where
  "timeval_ms tv_sec tv_usec = word_of_int (tv_sec * 1000 + tv_usec sdiv 1000)"

definition hook_setsockopt :: "('s, 'e ctl) sys_calls \<Rightarrow> nat \<Rightarrow> int \<Rightarrow> int \<Rightarrow> int \<Rightarrow> sock_opt \<Rightarrow> ('e, 's) hook_state
    \<Rightarrow> hook_error + int \<times> ('e, 's) hook_state" where
  "hook_setsockopt sys t sockfd level optname optval st =
     bindE
       (if is_hook_enable t st \<and> level = SOL_SOCKET \<and> (optname = SO_RCVTIMEO \<or> optname = SO_SNDTIMEO) then
          bindE (lookup_ctx sockfd st) (\<lambda>c.
          case c of
            None \<Rightarrow> Inr st
          | Some ctx \<Rightarrow>
              (case optval of
                 Timeval sec usec \<Rightarrow> put_ctx sockfd (setTimeout optname (timeval_ms sec usec) ctx) st
               | OtherOpt _ \<Rightarrow> Inl BadArgument))
        else Inr st) (\<lambda>st1.
     Inr (pass t (sys_setsockopt sys sockfd level optname optval) st1))"

end
