(* ===== verification/HookProps.thy ===== *)
theory HookProps
  imports Hook IoManagerProps TimerProps
begin

unbundle bit_operations_syntax

text \<open>
  What the replaced system calls promise: the table of descriptors is a map, a blocked call is
  resumed once, by its event or by its timeout, users see the non-blocking flag they set, sleeping
  lasts as long as asked; and the inputs for which this fails.
\<close>

section \<open>The table of descriptors\<close>

definition table :: "FdManager \<Rightarrow> int \<Rightarrow> FdCtx option" where
  "table m fd = (if 0 \<le> fd \<and> nat fd < length m then m ! nat fd else None)"

lemma get_lookup_eq:
  "0 \<le> fd \<Longrightarrow> get_lookup fd auto m = Inr (if table m fd \<noteq> None \<or> \<not> auto then Some (table m fd) else None)"
  by (auto simp: get_lookup_def table_def fd_slot_def)

lemma get_create_eq:
  assumes "0 \<le> fd" and "64 \<le> length m"
  obtains m' where "get_create sys fd m s = Inr (fst (FdCtx_new sys fd s), m', snd (FdCtx_new sys fd s))"
    and "table m' = (table m)(fd \<mapsto> fst (FdCtx_new sys fd s))" and "64 \<le> length m'"
proof -
  let ?n = "nat (fd * 3 div 2)"
  let ?m = "if fd \<ge> int (length m) then take ?n m @ replicate (?n - length m) None else m"
  let ?m' = "?m[nat fd := Some (fst (FdCtx_new sys fd s))]"
  have grow: "length m \<le> ?n \<and> nat fd < ?n" if "fd \<ge> int (length m)" using that assms(2) by linarith
  have len: "nat fd < length ?m" "64 \<le> length ?m'" using grow assms by auto
  show ?thesis
  proof (rule that [of ?m'])
    show "get_create sys fd m s = Inr (fst (FdCtx_new sys fd s), ?m', snd (FdCtx_new sys fd s))"
      using len(1) assms(1) by (simp add: get_create_def Let_def split_beta set_slot_def split del: if_split)
    show "table ?m' = (table m)(fd \<mapsto> fst (FdCtx_new sys fd s))"
      using grow assms(1) by (auto simp: table_def fun_eq_iff nth_list_update nth_append)
    show "64 \<le> length ?m'" by (rule len(2))
  qed
qed

lemma fd_del_eq:
  assumes "0 \<le> fd"
  obtains m' where "fd_del fd m = Inr m'" and "table m' = (table m)(fd := None)" and "length m' = length m"
proof (cases "int (length m) \<le> fd")
  case True
  then show ?thesis by (intro that [of m]) (auto simp: fd_del_def table_def fun_eq_iff)
next
  case False
  then show ?thesis
    using assms by (intro that [of "m[nat fd := None]"]) (auto simp: fd_del_def table_def set_slot_def fun_eq_iff nth_list_update)
qed

lemma set_slot_eq:
  assumes "table m fd \<noteq> None"
  shows "\<exists>m'. set_slot fd (Some c) m = Inr m' \<and> table m' = (table m)(fd \<mapsto> c) \<and> length m' = length m"
  using assms by (intro exI [of _ "m[nat fd := Some c]"])
    (auto simp: set_slot_def table_def fun_eq_iff nth_list_update split: if_splits)

text \<open>In a state: looking up, changing and creating a context.\<close>

definition ctxs :: "('e, 's) hook_state \<Rightarrow> int \<Rightarrow> FdCtx option" where
  "ctxs st = table (fd_table st)"

lemma lookup_ctx_eq: "0 \<le> fd \<Longrightarrow> lookup_ctx fd st = Inr (ctxs st fd)"
  by (simp add: lookup_ctx_def get_lookup_eq ctxs_def)

lemma put_ctx_eq:
  assumes "ctxs st fd \<noteq> None"
  obtains m where "put_ctx fd c st = Inr (st\<lparr>fd_table := m\<rparr>)" and "table m = (ctxs st)(fd \<mapsto> c)"
  using set_slot_eq [of "fd_table st" fd c] assms by (auto simp: put_ctx_def ctxs_def)

lemma create_ctx_known:
  "0 \<le> fd \<Longrightarrow> ctxs st fd \<noteq> None \<Longrightarrow> create_ctx sys fd st = Inr st"
  by (auto simp: create_ctx_def fd_get_def get_lookup_eq ctxs_def)

lemma ctxs_simps [simp]:
  "ctxs (st\<lparr>hook_os := s\<rparr>) = ctxs st" "ctxs (st\<lparr>io_manager := io\<rparr>) = ctxs st" "ctxs (st\<lparr>timer_infos := is\<rparr>) = ctxs st"
  "ctxs (set_errno t e st) = ctxs st" "ctxs (st\<lparr>fd_table := m\<rparr>) = table m"
  by (simp_all add: ctxs_def set_errno_def)

lemma set_errno_simps [simp]:
  "hook_os (set_errno t e st) = hook_os st" "io_manager (set_errno t e st) = io_manager st"
  "timer_infos (set_errno t e st) = timer_infos st" "hook_enable (set_errno t e st) = hook_enable st"
  "fd_table (set_errno t e st) = fd_table st" "errno (set_errno t e st) = (errno st)(t := e)"
  by (simp_all add: set_errno_def)

section \<open>Waiting for an event or a timeout\<close>

definition hook_inv :: "('e \<Rightarrow> int \<Rightarrow> 32 word option) \<Rightarrow> ('e, 's) hook_state \<Rightarrow> bool" where
  "hook_inv interest st \<longleftrightarrow> io_inv interest (io_manager st) \<and> tm_inv (io_timers (io_manager st))"

lemma io_inv_timers [simp]: "io_inv interest (io\<lparr>io_timers := tm\<rparr>) = io_inv interest io"
  by (simp add: io_inv_def)

lemma io_inv_tickle [simp]: "io_inv interest (tickle io) = io_inv interest io"
  by (simp add: io_inv_def)

lemma addEvent_keeps:
  "addEvent ctl sch cur fd ev cb io = Inr (rt, io') \<Longrightarrow> io_timers io' = io_timers io \<and> this_scheduler io' = this_scheduler io"
  by (auto simp: addEvent_def Let_def result_simps set_fd_def split: if_splits prod.splits option.splits)

lemma triggerEvent_keeps:
  "triggerEvent ev fc io = Inr (fc', io') \<Longrightarrow> io_timers io' = io_timers io \<and> this_scheduler io' = this_scheduler io"
  by (auto simp: triggerEvent_def Let_def result_simps)

lemma cancelEvent_keeps:
  "cancelEvent ctl fd ev io = Inr (b, io') \<Longrightarrow> io_timers io' = io_timers io \<and> this_scheduler io' = this_scheduler io"
  by (auto simp: cancelEvent_def unwatch_def Let_def result_simps set_fd_def dest!: triggerEvent_keeps
      split: if_splits prod.splits option.splits)

text \<open>The state after a timer was added.\<close>

lemma add_io_timer_effect:
  fixes st :: "('e, 's) hook_state"
  defines "st' \<equiv> \<lambda>env ms cb. add_io_timer env ms cb st"
  shows "io_timers (io_manager (st' env ms cb)) = snd (addTimer (env_now env) ms cb False (env_timer env) (io_timers (io_manager st)))"
    and "io_inv interest (io_manager (st' env ms cb)) = io_inv interest (io_manager st)"
    and "queue (io_manager (st' env ms cb)) = queue (io_manager st)"
    and "m_fdContexts (io_manager (st' env ms cb)) = m_fdContexts (io_manager st)"
    and "this_scheduler (io_manager (st' env ms cb)) = this_scheduler (io_manager st)"
    and "timer_infos (st' env ms cb) = timer_infos st" "hook_os (st' env ms cb) = hook_os st"
    and "m_epfd (io_manager (st' env ms cb)) = m_epfd (io_manager st)"
    and "errno (st' env ms cb) = errno st" "hook_enable (st' env ms cb) = hook_enable st" "fd_table (st' env ms cb) = fd_table st"
  by (simp_all add: st'_def add_io_timer_def Let_def split_beta onTimerInsertedAtFront_def queue_def fun_eq_iff)

lemma addTimer_new:
  "timer_heap (snd (addTimer now ms cb r a tm)) a = Some (Timer_new now ms cb r)"
  by (simp add: addTimer_def)

lemma hook_inv_timer:
  assumes "hook_inv interest st" and "timer_heap (io_timers (io_manager st)) (env_timer env) = None"
  shows "hook_inv interest (add_io_timer env ms cb st)"
  using assms by (simp add: hook_inv_def add_io_timer_effect addTimer_inv)

definition wait_timer :: "call_env \<Rightarrow> int \<Rightarrow> 32 word \<Rightarrow> 64 word \<Rightarrow> nat \<Rightarrow> hook_job Timer" where
  "wait_timer env fd ev to info = Timer_new (env_now env) (unat to) (OnTimer info (TimedOut info fd ev)) False"

text \<open>The kernel takes up a new event of a descriptor that is not awaited yet.\<close>

definition takes_up :: "'e ctl \<Rightarrow> int \<Rightarrow> 32 word \<Rightarrow> ('c, 'e) IOManager \<Rightarrow> bool" where
  "takes_up ctl fd ev io \<longleftrightarrow>
     (let fc = context_at fd (room fd io)
      in \<not> waits ev fc \<and> fst (ctl (if events fc \<noteq> 0 then EPOLL_CTL_MOD else EPOLL_CTL_ADD) fd
           (EPOLLET OR events fc OR ev) (m_epfd io)) = 0)"

lemma takes_up_cong:
  "m_fdContexts io' = m_fdContexts io \<Longrightarrow> m_epfd io' = m_epfd io \<Longrightarrow> takes_up ctl fd ev io' = takes_up ctl fd ev io"
  by (simp add: takes_up_def room_def)

lemma addEvent_taken:
  assumes "io_inv interest io" and "an_event ev" and "0 \<le> fd" and "cb \<noteq> None \<or> snd cur = EXEC"
    and "takes_up ctl fd ev io" and "addEvent ctl (Some k) cur fd ev cb io = Inr (rt, io')"
  shows "rt = 0"
proof -
  have e: "m_epfd (room fd io) = m_epfd io" by (simp add: room_def)
  from assms(5,6) show ?thesis
    unfolding addEvent_eq [where ctl = ctl and k = k, OF assms(1-4)] takes_up_def e
    by (auto simp: Let_def split: prod.splits if_splits)
qed

text \<open>The state a wait leaves behind: the event is awaited for the fiber, its timer is pending.\<close>

definition waiting :: "call_env \<Rightarrow> int \<Rightarrow> 32 word \<Rightarrow> 64 word \<Rightarrow> nat \<Rightarrow> (hook_job, 'e) IOManager \<Rightarrow> bool" where
  "waiting env fd ev to info io \<longleftrightarrow> nat fd < length (m_fdContexts io) \<and> waits ev (context_at fd io)
     \<and> slot ev (context_at fd io) = new_slot (this_scheduler io) (env_cur env) None
     \<and> (to \<noteq> - 1 \<longrightarrow> timer_heap (io_timers io) (env_timer env) = Some (wait_timer env fd ev to info))"

text \<open>How a call may be made: on a thread of the manager, by a running fiber, with new addresses.\<close>

definition proper_env :: "call_env \<Rightarrow> ('e, 's) hook_state \<Rightarrow> bool" where
  "proper_env env st \<longleftrightarrow> env_sched env = Some (this_scheduler (io_manager st)) \<and> snd (env_cur env) = EXEC
     \<and> timer_heap (io_timers (io_manager st)) (env_timer env) = None"

lemma cancel_timer_ok:
  assumes "hook_inv interest st" and "\<And>a. timer = Some a \<Longrightarrow> \<exists>t. timer_heap (io_timers (io_manager st)) a = Some t"
  shows "\<exists>tm. cancel_timer timer st = Inr (st\<lparr>io_manager := (io_manager st)\<lparr>io_timers := tm\<rparr>\<rparr>)
    \<and> hook_inv interest (st\<lparr>io_manager := (io_manager st)\<lparr>io_timers := tm\<rparr>\<rparr>)
    \<and> (\<forall>a. timer = Some a \<longrightarrow> a \<notin> set (m_timers tm))"
proof (cases timer)
  case None
  then show ?thesis
    using assms(1) by (intro exI [of _ "io_timers (io_manager st)"]) (simp add: cancel_timer_def)
next
  case (Some a)
  with assms(2) obtain t where t: "timer_heap (io_timers (io_manager st)) a = Some t" by blast
  have "tm_inv (io_timers (io_manager st))" using assms(1) by (simp add: hook_inv_def)
  from cancel_ok [OF this t] Some assms(1) show ?thesis
    by (auto simp: cancel_timer_def hook_inv_def)
qed

lemma begin_wait_ok:
  assumes inv: "hook_inv interest st" and laws: "epoll_laws (sys_epoll_ctl sys) interest"
    and ev: "an_event ev" and fd: "0 \<le> fd" and env: "proper_env env st"
  obtains w io where "begin_wait sys env fd ev to info st = Inr (w, st\<lparr>io_manager := io\<rparr>)"
    and "hook_inv interest (st\<lparr>io_manager := io\<rparr>)" and "queue io = queue (io_manager st)"
    and "this_scheduler io = this_scheduler (io_manager st)"
    and "w \<noteq> None \<Longrightarrow> waiting env fd ev to info io \<and> w = Some \<lparr>w_fd = fd, w_event = ev, w_timeout = to,
          w_timer = (if to \<noteq> - 1 then Some (env_timer env) else None), w_info = info\<rparr>"
    and "\<And>a. w \<noteq> None \<Longrightarrow> a \<noteq> env_timer env \<Longrightarrow> timer_heap (io_timers io) a = timer_heap (io_timers (io_manager st)) a"
    and "takes_up (sys_epoll_ctl sys) fd ev (io_manager st) \<Longrightarrow> w \<noteq> None"
proof -
  let ?cb = "OnTimer info (TimedOut info fd ev)" and ?k = "this_scheduler (io_manager st)"
  let ?timer = "if to \<noteq> - 1 then Some (env_timer env) else None"
  define st1 where "st1 = (if to \<noteq> - 1 then add_io_timer env (unat to) ?cb st else st)"
  have st1: "st1\<lparr>io_manager := x\<rparr> = st\<lparr>io_manager := x\<rparr>" for x
    by (simp add: st1_def add_io_timer_def split_beta Let_def)
  have h1: "hook_inv interest st1"
    using inv env hook_inv_timer [of interest st env] by (simp add: st1_def proper_env_def)
  have k1: "this_scheduler (io_manager st1) = ?k" "queue (io_manager st1) = queue (io_manager st)"
    by (simp_all add: st1_def add_io_timer_effect)
  have t1: "timer_heap (io_timers (io_manager st1)) (env_timer env) = Some (wait_timer env fd ev to info)" if "to \<noteq> - 1"
    using that by (simp add: st1_def add_io_timer_effect addTimer_new wait_timer_def)
  have t2: "timer_heap (io_timers (io_manager st1)) a = timer_heap (io_timers (io_manager st)) a" if "a \<noteq> env_timer env" for a
    using that by (simp add: st1_def add_io_timer_effect addTimer_def)
  have c: "None \<noteq> None \<or> snd (env_cur env) = EXEC" and sch: "env_sched env = Some ?k"
    using env by (simp_all add: proper_env_def)
  have i1: "io_inv interest (io_manager st1)" using h1 by (simp add: hook_inv_def)
  obtain rt io where a: "addEvent (sys_epoll_ctl sys) (Some ?k) (env_cur env) fd ev None (io_manager st1) = Inr (rt, io)"
    "io_inv interest io" "queue io = queue (io_manager st1)"
    using addEvent_inv [OF i1 laws ev fd c] by blast
  note keep = addEvent_keeps [OF a(1)]
  have taken: "rt = 0" if "takes_up (sys_epoll_ctl sys) fd ev (io_manager st)"
  proof (rule addEvent_taken [OF i1 ev fd c _ a(1)])
    show "takes_up (sys_epoll_ctl sys) fd ev (io_manager st1)"
      using that takes_up_cong [of "io_manager st1" "io_manager st"] by (simp add: st1_def add_io_timer_effect)
  qed
  have h2: "hook_inv interest (st\<lparr>io_manager := io\<rparr>)"
    using h1 a(2) keep by (simp add: hook_inv_def)
  have eq: "begin_wait sys env fd ev to info st =
      (if rt \<noteq> 0 then bindE (cancel_timer ?timer (st\<lparr>io_manager := io\<rparr>)) (\<lambda>st3. Inr (None, st3))
       else Inr (Some \<lparr>w_fd = fd, w_event = ev, w_timeout = to, w_timer = ?timer, w_info = info\<rparr>, st\<lparr>io_manager := io\<rparr>))"
    using a(1) st1 [of io] sch by (cases "to = - 1") (simp_all add: begin_wait_def need_iom_def st1_def)
  show ?thesis
  proof (cases "rt = 0")
    case True
    have "waiting env fd ev to info io"
      using addEvent_stored(1,2,5) [OF i1 laws ev fd c a(1) [unfolded True]] t1 keep k1 by (auto simp: waiting_def)
    with True eq h2 a(3) k1 keep t2 show ?thesis by (intro that [of _ io]) auto
  next
    case False
    have "\<exists>t. timer_heap (io_timers (io_manager (st\<lparr>io_manager := io\<rparr>))) b = Some t" if "?timer = Some b" for b
      using that t1 keep by (auto split: if_splits)
    from cancel_timer_ok [OF h2, of ?timer, OF this] obtain tm
      where "cancel_timer ?timer (st\<lparr>io_manager := io\<rparr>) = Inr (st\<lparr>io_manager := io\<lparr>io_timers := tm\<rparr>\<rparr>)"
        "hook_inv interest (st\<lparr>io_manager := io\<lparr>io_timers := tm\<rparr>\<rparr>)"
      by auto
    with False eq a(3) k1 keep taken show ?thesis
      by (intro that [of None "io\<lparr>io_timers := tm\<rparr>"]) (auto simp: queue_def fun_eq_iff)
  qed
qed

text \<open>The fiber of an awaited event has been scheduled once more, and the event is no longer awaited.\<close>

definition woken :: "nat \<Rightarrow> 32 word \<Rightarrow> int \<Rightarrow> (hook_job, 'e) IOManager \<Rightarrow> (hook_job, 'e) IOManager \<Rightarrow> bool" where
  "woken fiber ev fd io io' \<longleftrightarrow> \<not> waits ev (context_at fd io')
     \<and> queue io' = (queue io)(this_scheduler io := queue io (this_scheduler io) @ [fiber_task fiber (-1)])"

lemma new_slot_task:
  "task_of (new_slot k cur None) = fiber_task (fst cur) (-1)" "ec_scheduler (new_slot k cur None) = Some k"
  by (simp_all add: task_of_def new_slot_def fiber_task_def)

text \<open>The function of the timer ends a wait.\<close>

lemma timeout_ends_wait:
  assumes inv: "hook_inv interest st" and laws: "epoll_laws (sys_epoll_ctl sys) interest"
    and ev: "an_event ev" and fd: "0 \<le> fd" and wt: "waiting env fd ev to info (io_manager st)"
    and info: "timer_infos st info = Some 0"
  obtains io where "run_callback sys (OnTimer info (TimedOut info fd ev)) st
      = Inr (st\<lparr>timer_infos := (timer_infos st)(info \<mapsto> ETIMEDOUT), io_manager := io\<rparr>)"
    and "hook_inv interest (st\<lparr>io_manager := io\<rparr>)" and "gives_up (sys_epoll_ctl sys) fd ev (io_manager st) \<Longrightarrow> woken (fst (env_cur env)) ev fd (io_manager st) io"
    and "io_timers io = io_timers (io_manager st)"
proof -
  let ?io = "io_manager st"
  have i: "io_inv interest ?io" using inv by (simp add: hook_inv_def)
  obtain b io where c: "cancelEvent (sys_epoll_ctl sys) fd ev ?io = Inr (b, io)" "io_inv interest io"
    "if b then waits ev (context_at fd ?io)
         \<and> queue io = (let c = slot ev (context_at fd ?io); k = the (ec_scheduler c)
             in (queue ?io)(k := queue ?io k @ [task_of c]))
       else queue io = queue ?io"
    using cancelEvent_inv [OF i laws ev fd] by blast
  note keep = cancelEvent_keeps [OF c(1)] and ends = cancelEvent_ends [OF i laws ev fd c(1)]
  show ?thesis
  proof (rule that)
    show "run_callback sys (OnTimer info (TimedOut info fd ev)) st
        = Inr (st\<lparr>timer_infos := (timer_infos st)(info \<mapsto> ETIMEDOUT), io_manager := io\<rparr>)"
      using info c(1) by (simp add: run_callback_def call_cb_def run_job_def Let_def)
    show "hook_inv interest (st\<lparr>io_manager := io\<rparr>)" using inv c(2) keep by (simp add: hook_inv_def)
    assume "gives_up (sys_epoll_ctl sys) fd ev ?io"
    then have b using removal_results(1) [OF i laws ev fd _ _ c(1)] wt by (simp add: waiting_def)
    then show "woken (fst (env_cur env)) ev fd ?io io"
      using c(3) wt ends by (auto simp: woken_def waiting_def new_slot_task Let_def)
  next
    show "io_timers io = io_timers ?io" using keep by simp
  qed
qed

text \<open>A resumed call whose \<open>timer_info\<close> is marked fails.\<close>

lemma resumed_after_timeout:
  assumes inv: "hook_inv interest st" and info: "timer_infos st (w_info w) = Some c" "c \<noteq> 0"
    and timer: "\<And>a. w_timer w = Some a \<Longrightarrow> \<exists>t. timer_heap (io_timers (io_manager st)) a = Some t"
  shows "\<exists>st'. do_io_resumed sys env f w st = Inr (Return (-1), st') \<and> errno st' (env_thread env) = c
    \<and> hook_os st' = hook_os st \<and> timer_infos st' (w_info w) = None"
  using cancel_timer_ok [of interest st "w_timer w", OF inv timer] info by (auto simp: do_io_resumed_def end_wait_def free_info_def)

lemma resumed_after_event:
  assumes inv: "hook_inv interest st" and info: "timer_infos st (w_info w) = Some 0"
    and timer: "\<And>a. w_timer w = Some a \<Longrightarrow> \<exists>t. timer_heap (io_timers (io_manager st)) a = Some t"
  obtains tm where "do_io_resumed sys env f w st = do_io_retry sys env f (w_fd w) (w_event w) (w_timeout w) (w_info w)
      (st\<lparr>io_manager := (io_manager st)\<lparr>io_timers := tm\<rparr>\<rparr>)"
    and "hook_inv interest (st\<lparr>io_manager := (io_manager st)\<lparr>io_timers := tm\<rparr>\<rparr>)"
    and "\<forall>a. w_timer w = Some a \<longrightarrow> a \<notin> set (m_timers tm)"
  using cancel_timer_ok [of interest st "w_timer w", OF inv timer] info by (auto simp: do_io_resumed_def end_wait_def)

text \<open>A descriptor whose calls are replaced: a socket the user wants to block on.\<close>

definition hooked :: "nat \<Rightarrow> int \<Rightarrow> FdCtx \<Rightarrow> ('e, 's) hook_state \<Rightarrow> bool" where
  "hooked t fd c st \<longleftrightarrow> hook_enable st t \<and> 0 \<le> fd \<and> ctxs st fd = Some c \<and> m_isSocket c
     \<and> \<not> m_userNonblock c \<and> \<not> m_isClosed c"

lemma do_io_hooked:
  "hooked (env_thread env) fd c st \<Longrightarrow> do_io sys env f fd ev so st =
     do_io_retry sys env f fd ev (getTimeout so c) (env_info env) (st\<lparr>timer_infos := (timer_infos st)(env_info env \<mapsto> 0)\<rparr>)"
  by (simp add: do_io_def hooked_def is_hook_enable_def lookup_ctx_eq)

text \<open>The round of a call that would block.\<close>

lemma do_io_retry_blocks:
  assumes blocks: "call_uninterrupted f (hook_os st) = Some ((-1, EAGAIN), s)"
    and inv: "hook_inv interest st" and laws: "epoll_laws (sys_epoll_ctl sys) interest"
    and ev: "an_event ev" and fd: "0 \<le> fd" and env: "proper_env env st"
    and call: "do_io_retry sys env f fd ev to info st = Inr (Wait w, st')"
  shows "w = \<lparr>w_fd = fd, w_event = ev, w_timeout = to, w_timer = (if to \<noteq> - 1 then Some (env_timer env) else None), w_info = info\<rparr>"
    and "hook_inv interest st'" and "waiting env fd ev to info (io_manager st')"
    and "queue (io_manager st') = queue (io_manager st)" and "hook_os st' = s" and "timer_infos st' = timer_infos st"
    and "this_scheduler (io_manager st') = this_scheduler (io_manager st)"
    and "a \<noteq> env_timer env \<Longrightarrow> timer_heap (io_timers (io_manager st')) a = timer_heap (io_timers (io_manager st)) a"
proof -
  let ?st = "set_errno (env_thread env) EAGAIN (st\<lparr>hook_os := s\<rparr>)"
  have "hook_inv interest ?st" "proper_env env ?st" using inv env by (simp_all add: hook_inv_def proper_env_def)
  from begin_wait_ok [OF this(1) laws ev fd this(2), of to info] obtain w' io where
    b: "begin_wait sys env fd ev to info ?st = Inr (w', ?st\<lparr>io_manager := io\<rparr>)"
      "hook_inv interest (?st\<lparr>io_manager := io\<rparr>)" "queue io = queue (io_manager ?st)"
      "this_scheduler io = this_scheduler (io_manager ?st)"
      "w' \<noteq> None \<Longrightarrow> waiting env fd ev to info io \<and> w' = Some \<lparr>w_fd = fd, w_event = ev, w_timeout = to,
          w_timer = (if to \<noteq> - 1 then Some (env_timer env) else None), w_info = info\<rparr>"
      "\<And>a. w' \<noteq> None \<Longrightarrow> a \<noteq> env_timer env \<Longrightarrow> timer_heap (io_timers io) a = timer_heap (io_timers (io_manager ?st)) a"
    by metis
  have c: "w' = Some w \<and> st' = ?st\<lparr>io_manager := io\<rparr>"
    using call b(1) blocks by (auto simp: do_io_retry_def split: option.splits)
  with b show "w = \<lparr>w_fd = fd, w_event = ev, w_timeout = to, w_timer = (if to \<noteq> - 1 then Some (env_timer env) else None), w_info = info\<rparr>"
    "hook_inv interest st'" "waiting env fd ev to info (io_manager st')"
    "queue (io_manager st') = queue (io_manager st)" "hook_os st' = s" "timer_infos st' = timer_infos st"
    "this_scheduler (io_manager st') = this_scheduler (io_manager st)"
    "a \<noteq> env_timer env \<Longrightarrow> timer_heap (io_timers (io_manager st')) a = timer_heap (io_timers (io_manager st)) a"
    by simp_all
qed

text \<open>A pending timer is among the expired ones from the time it is due.\<close>

lemma pending_timer_expires:
  assumes inv: "tm_inv tm" and key: "timer_heap tm key = None" and t: "timer_heap tm a = Some t" "m_cb t = Some cb"
    and now: "m_next t \<le> now"
  shows "Some cb \<in> set (fst (listExpiredCb now key tm))"
proof -
  have "a \<in> set (m_timers tm)" using inv t by (auto simp: tm_inv_def)
  moreover have "expiry (timer_heap tm) a \<le> now" using t now by (simp add: expiry_def)
  ultimately have "m_cb t \<in> (\<lambda>a. m_cb (the (timer_heap tm a))) ` {a \<in> set (m_timers tm). expiry (timer_heap tm) a \<le> now}"
    using t(1) by force
  with listExpired_ok [OF inv key, of now] t(2) show ?thesis by auto
qed

lemma do_io_retry_waits:
  assumes "call_uninterrupted f (hook_os st) = Some ((-1, EAGAIN), s)"
    and "hook_inv interest st" and "epoll_laws (sys_epoll_ctl sys) interest"
    and "an_event ev" and "0 \<le> fd" and "proper_env env st" and "takes_up (sys_epoll_ctl sys) fd ev (io_manager st)"
  shows "\<exists>w st'. do_io_retry sys env f fd ev to info st = Inr (Wait w, st')"
proof -
  let ?st = "set_errno (env_thread env) EAGAIN (st\<lparr>hook_os := s\<rparr>)"
  have "hook_inv interest ?st" "proper_env env ?st" using assms by (simp_all add: hook_inv_def proper_env_def)
  from begin_wait_ok [OF this(1) assms(3-5) this(2), of to info] obtain w io where
    b: "begin_wait sys env fd ev to info ?st = Inr (w, ?st\<lparr>io_manager := io\<rparr>)"
      "takes_up (sys_epoll_ctl sys) fd ev (io_manager ?st) \<Longrightarrow> w \<noteq> None" by metis
  have "io_manager ?st = io_manager st" by simp
  with b(2) assms(7) obtain w' where "w = Some w'" by auto
  with b(1) assms(1) show ?thesis by (simp add: do_io_retry_def)
qed

section \<open>A blocked call\<close>

text \<open>C28: A call on a socket that would block is suspended when the kernel takes up its event: the
  event is awaited for the fiber of the call and, unless the timeout of the socket is -1, a timer is
  pending, due after that timeout; from then on it is among the expired ones. When its function runs
  while the event is still awaited, whatever happened to the timers meanwhile, and the kernel gives
  the event up, the event is cancelled and the fiber scheduled exactly once; the resumed call fails
  with -1 and \<open>ETIMEDOUT\<close>, without another attempt.\<close>

theorem blocked_call_times_out:
  assumes inv: "hook_inv interest st" and laws: "epoll_laws (sys_epoll_ctl sys) interest" and ev: "an_event ev"
    and hooked: "hooked (env_thread env) fd c st" and env: "proper_env env st"
    and blocks: "call_uninterrupted f (hook_os st) = Some ((-1, EAGAIN), s)"
    and takes: "takes_up (sys_epoll_ctl sys) fd ev (io_manager st)"
  shows "\<exists>w st1. do_io sys env f fd ev so st = Inr (Wait w, st1)
    \<and> waits ev (context_at fd (io_manager st1)) \<and> ec_fiber (slot ev (context_at fd (io_manager st1))) = Some (fst (env_cur env))
    \<and> queue (io_manager st1) = queue (io_manager st) \<and> hook_os st1 = s
    \<and> (getTimeout so c \<noteq> - 1 \<longrightarrow> (\<exists>t cb. timer_heap (io_timers (io_manager st1)) (env_timer env) = Some t
        \<and> m_next t = wrap64 (env_now env + unat (getTimeout so c)) \<and> m_cb t = Some cb
        \<and> (\<forall>now key. m_next t \<le> now \<and> timer_heap (io_timers (io_manager st1)) key = None \<longrightarrow>
            Some cb \<in> set (fst (listExpiredCb now key (io_timers (io_manager st1)))))
        \<and> (\<forall>tm. tm_inv tm \<and> timer_heap tm (env_timer env) \<noteq> None
              \<and> gives_up (sys_epoll_ctl sys) fd ev (io_manager st1) \<longrightarrow>
            (\<exists>st2. run_callback sys cb (st1\<lparr>io_manager := (io_manager st1)\<lparr>io_timers := tm\<rparr>\<rparr>) = Inr st2
              \<and> \<not> waits ev (context_at fd (io_manager st2))
              \<and> queue (io_manager st2) = (let k = this_scheduler (io_manager st); q = queue (io_manager st)
                  in q(k := q k @ [fiber_task (fst (env_cur env)) (-1)]))
              \<and> (\<exists>st3. do_io_resumed sys env' f w st2 = Inr (Return (-1), st3)
                  \<and> errno st3 (env_thread env') = ETIMEDOUT \<and> hook_os st3 = s)))))"
proof -
  let ?to = "getTimeout so c" and ?info = "env_info env"
  let ?st = "st\<lparr>timer_infos := (timer_infos st)(?info \<mapsto> 0)\<rparr>"
  have fd: "0 \<le> fd" using hooked by (simp add: hooked_def)
  have st: "hook_inv interest ?st" "proper_env env ?st" "call_uninterrupted f (hook_os ?st) = Some ((-1, EAGAIN), s)"
    "takes_up (sys_epoll_ctl sys) fd ev (io_manager ?st)"
    using inv env blocks takes by (simp_all add: hook_inv_def proper_env_def)
  obtain w st1 where retry: "do_io_retry sys env f fd ev ?to ?info ?st = Inr (Wait w, st1)"
    using do_io_retry_waits [OF st(3,1) laws ev fd st(2,4)] by blast
  have call: "do_io sys env f fd ev so st = Inr (Wait w, st1)"
    using retry do_io_hooked [OF hooked] by simp
  note b = do_io_retry_blocks [OF st(3,1) laws ev fd st(2) retry]
  let ?io = "io_manager st1" and ?cb = "OnTimer ?info (TimedOut ?info fd ev)"
  have later: "\<exists>st2. run_callback sys ?cb (st1\<lparr>io_manager := ?io\<lparr>io_timers := tm\<rparr>\<rparr>) = Inr st2
      \<and> woken (fst (env_cur env)) ev fd ?io (io_manager st2)
      \<and> (\<exists>st3. do_io_resumed sys env' f w st2 = Inr (Return (-1), st3)
          \<and> errno st3 (env_thread env') = ETIMEDOUT \<and> hook_os st3 = s)"
    if to: "?to \<noteq> - 1" and tm: "tm_inv tm" "timer_heap tm (env_timer env) \<noteq> None"
      and up: "gives_up (sys_epoll_ctl sys) fd ev ?io" for tm
  proof -
    let ?st1 = "st1\<lparr>io_manager := ?io\<lparr>io_timers := tm\<rparr>\<rparr>"
    have h: "hook_inv interest ?st1" using b(2) tm by (simp add: hook_inv_def)
    have wt: "waiting (env\<lparr>env_timer := 0\<rparr>) fd ev (- 1) ?info (io_manager ?st1)" using b(3) by (simp add: waiting_def)
    have i: "timer_infos ?st1 ?info = Some 0" using b(6) by simp
    have g: "gives_up (sys_epoll_ctl sys) fd ev (io_manager ?st1)" using up by (simp add: gives_up_def)
    from timeout_ends_wait [OF h laws ev fd wt i] g obtain io where
      r: "run_callback sys ?cb ?st1
        = Inr (?st1\<lparr>timer_infos := (timer_infos ?st1)(?info \<mapsto> ETIMEDOUT), io_manager := io\<rparr>)"
        "hook_inv interest (?st1\<lparr>io_manager := io\<rparr>)" "woken (fst (env_cur env)) ev fd (io_manager ?st1) io"
        "io_timers io = tm"
      by auto
    let ?st2 = "?st1\<lparr>timer_infos := (timer_infos ?st1)(?info \<mapsto> ETIMEDOUT), io_manager := io\<rparr>"
    have "hook_inv interest ?st2" using r(2) by (simp add: hook_inv_def)
    from resumed_after_timeout [OF this, of w ETIMEDOUT sys env' f] have
      "\<exists>st3. do_io_resumed sys env' f w ?st2 = Inr (Return (-1), st3)
        \<and> errno st3 (env_thread env') = ETIMEDOUT \<and> hook_os st3 = s"
      using b(1,5) r(4) tm(2) to by (auto simp: ETIMEDOUT_def)
    with r(1,3) show ?thesis by (auto simp: woken_def queue_def fun_eq_iff)
  qed
  let ?t = "wait_timer env fd ev ?to ?info"
  have t: "timer_heap (io_timers ?io) (env_timer env) = Some ?t" if "?to \<noteq> - 1"
    using b(3) that by (simp add: waiting_def)
  have due: "m_next ?t = wrap64 (env_now env + unat ?to)" "m_cb ?t = Some ?cb"
    by (simp_all add: wait_timer_def Timer_new_def)
  have "Some ?cb \<in> set (fst (listExpiredCb now key (io_timers ?io)))"
    if "?to \<noteq> - 1" "m_next ?t \<le> now" "timer_heap (io_timers ?io) key = None" for now key
    using pending_timer_expires [OF _ that(3) t [OF that(1)] due(2) that(2)] b(2) by (simp add: hook_inv_def)
  with call b(3-5,7) t due later show ?thesis
    by (intro exI [of _ w] exI [of _ st1]) (auto simp: waiting_def woken_def new_slot_def Let_def)
qed

text \<open>Handling a report keeps the timers.\<close>

lemma trigger_if_keeps:
  "trigger_if flags ev (fc, io) = Inr (fc', io') \<Longrightarrow> io_timers io' = io_timers io \<and> this_scheduler io' = this_scheduler io"
  by (auto simp: trigger_if_def result_simps dest!: triggerEvent_keeps split: if_splits)

lemma handle_event_keeps:
  "handle_event ctl (FdEvent fd flags) io = Inr io' \<Longrightarrow> io_timers io' = io_timers io \<and> this_scheduler io' = this_scheduler io"
  by (auto simp: handle_event_def Let_def result_simps set_fd_def dest!: trigger_if_keeps split: if_splits prod.splits)

text \<open>C29: When the event of a suspended call is reported and the kernel gives it up, the event is no
  longer awaited and the fiber of the call is scheduled exactly once: if nothing else is queued, a
  thread that looks for work takes that fiber. The call the fiber then resumes cancels
  its timer and tries again: if the attempt does not block, its result is the result of the call, no
  timer is left in the manager, and the function of the timer does nothing even when it runs late.\<close>

theorem event_resumes_call:
  assumes inv: "hook_inv interest st" and laws: "epoll_laws (sys_epoll_ctl sys) interest" and ev: "an_event ev"
    and hooked: "hooked (env_thread env) fd c st" and env: "proper_env env st"
    and blocks: "call_uninterrupted f (hook_os st) = Some ((-1, EAGAIN), s)"
    and call: "do_io sys env f fd ev so st = Inr (Wait w, st1)"
    and report: "fresh_report fd flags (io_manager st1)" "real_events flags (context_at fd (io_manager st1)) = ev"
      "gives_up (sys_epoll_ctl sys) fd ev (io_manager st1)"
    and again: "call_uninterrupted f s2 = Some ((n, e), s3)" "\<not> (n = -1 \<and> e = EAGAIN)"
  shows "\<exists>io2. handle_event (sys_epoll_ctl sys) (FdEvent fd flags) (io_manager st1) = Inr io2
    \<and> \<not> waits ev (context_at fd io2)
    \<and> queue io2 = (let k = this_scheduler (io_manager st); q = queue (io_manager st)
        in q(k := q k @ [fiber_task (fst (env_cur env)) (-1)]))
    \<and> (queue (io_manager st) (this_scheduler (io_manager st)) = [] \<and> state (fst (env_cur env)) \<noteq> EXEC \<longrightarrow>
        find_task me state False [] (queue io2 (this_scheduler (io_manager st)))
          = Inr (Some (fiber_task (fst (env_cur env)) (-1)), False, []))
    \<and> (\<exists>st3. do_io_resumed sys env' f w (st1\<lparr>io_manager := io2, hook_os := s2\<rparr>) = Inr (Return n, st3)
        \<and> hook_os st3 = s3 \<and> (n = -1 \<longrightarrow> errno st3 (env_thread env') = e)
        \<and> (getTimeout so c \<noteq> - 1 \<longrightarrow> env_timer env \<notin> set (m_timers (io_timers (io_manager st3))))
        \<and> run_callback sys (OnTimer (env_info env) (TimedOut (env_info env) fd ev)) st3 = Inr st3)"
proof -
  let ?to = "getTimeout so c" and ?info = "env_info env"
  let ?st = "st\<lparr>timer_infos := (timer_infos st)(?info \<mapsto> 0)\<rparr>"
  have fd: "0 \<le> fd" using hooked by (simp add: hooked_def)
  have st: "hook_inv interest ?st" "proper_env env ?st" "call_uninterrupted f (hook_os ?st) = Some ((-1, EAGAIN), s)"
    using inv env blocks by (simp_all add: hook_inv_def proper_env_def)
  have retry: "do_io_retry sys env f fd ev ?to ?info ?st = Inr (Wait w, st1)"
    using call do_io_hooked [OF hooked] by simp
  note b = do_io_retry_blocks [OF st(3,1) laws ev fd st(2) retry]
  have i1: "io_inv interest (io_manager st1)" using b(2) by (simp add: hook_inv_def)
  have sl: "slot ev (context_at fd (io_manager st1)) = new_slot (this_scheduler (io_manager st)) (env_cur env) None"
    using b(3,7) by (simp add: waiting_def)
  from report_result [OF i1 laws ev report(1,2) sl] report(3) obtain io2 where
    h: "handle_event (sys_epoll_ctl sys) (FdEvent fd flags) (io_manager st1) = Inr io2" "io_inv interest io2"
      "\<not> waits ev (context_at fd io2)"
      "queue io2 = (let k = this_scheduler (io_manager st); q = queue (io_manager st)
        in q(k := q k @ [fiber_task (fst (env_cur env)) (-1)]))"
    using b(4) by (auto simp: new_slot_task Let_def)
  note keep = handle_event_keeps [OF h(1)]
  let ?st2 = "st1\<lparr>io_manager := io2, hook_os := s2\<rparr>"
  have h2: "hook_inv interest ?st2" using h(2) b(2) keep by (simp add: hook_inv_def)
  have "\<exists>t. timer_heap (io_timers (io_manager ?st2)) a = Some t" if "w_timer w = Some a" for a
    using that b(1,3) keep by (auto simp: waiting_def split: if_splits)
  from resumed_after_event [of interest ?st2 w sys env' f, OF h2 _ this] obtain tm where
    r: "do_io_resumed sys env' f w ?st2 = do_io_retry sys env' f fd ev ?to ?info (?st2\<lparr>io_manager := io2\<lparr>io_timers := tm\<rparr>\<rparr>)"
      "\<forall>a. w_timer w = Some a \<longrightarrow> a \<notin> set (m_timers tm)"
    using b(1,6) by simp metis
  let ?st3 = "?st2\<lparr>io_manager := io2\<lparr>io_timers := tm\<rparr>, hook_os := s3\<rparr>"
  let ?last = "free_info ?info (if n = -1 then set_errno (env_thread env') e ?st3 else ?st3)"
  have "do_io_resumed sys env' f w ?st2 = Inr (Return n, ?last)"
    using r(1) again by (auto simp: do_io_retry_def Let_def)
  moreover have "run_callback sys (OnTimer ?info (TimedOut ?info fd ev)) ?last = Inr ?last"
    by (simp add: run_callback_def call_cb_def free_info_def)
  moreover have "?to \<noteq> - 1 \<longrightarrow> env_timer env \<notin> set (m_timers (io_timers (io_manager ?last)))"
    using r(2) b(1) by (simp add: free_info_def)
  moreover have "hook_os ?last = s3 \<and> (n = -1 \<longrightarrow> errno ?last (env_thread env') = e)"
    by (simp add: free_info_def)
  moreover have "find_task me state False [] (queue io2 (this_scheduler (io_manager st)))
      = Inr (Some (fiber_task (fst (env_cur env)) (-1)), False, [])"
    if "queue (io_manager st) (this_scheduler (io_manager st)) = []" "state (fst (env_cur env)) \<noteq> EXEC"
    using that h(4) by (simp add: Let_def fiber_task_def)
  ultimately show ?thesis using h(1,3,4) by blast
qed

text \<open>C30: The object that says whether a wait has timed out belongs to the whole call, not to one wait.
  When a call is suspended again after its event came, the function of the timer of the first wait,
  if it had been taken for running before that timer was cancelled, ends the second wait: the call
  fails with \<open>ETIMEDOUT\<close> although the second timer is still pending.\<close>

theorem earlier_timeout_ends_later_wait:
  assumes inv: "hook_inv interest st" and laws: "epoll_laws (sys_epoll_ctl sys) interest" and ev: "an_event ev" and fd: "0 \<le> fd"
    and w: "w_fd w = fd" "w_event w = ev" "w_timer w = Some a" "w_timeout w \<noteq> - 1"
    and env: "proper_env env st" and info: "timer_infos st (w_info w) = Some 0"
    and first: "timer_heap (io_timers (io_manager st)) a = Some t" "m_cb t = None"
    and blocks: "call_uninterrupted f (hook_os st) = Some ((-1, EAGAIN), s)"
    and call: "do_io_resumed sys env f w st = Inr (Wait w', st1)"
  shows "\<exists>st2. run_callback sys (OnTimer (w_info w) (TimedOut (w_info w) fd ev)) st1 = Inr st2
    \<and> (\<exists>st3. do_io_resumed sys env' f w' st2 = Inr (Return (-1), st3) \<and> errno st3 (env_thread env') = ETIMEDOUT)
    \<and> (\<exists>t'. timer_heap (io_timers (io_manager st2)) (env_timer env) = Some t' \<and> m_cb t' \<noteq> None
        \<and> m_next t' = wrap64 (env_now env + unat (w_timeout w)))"
proof -
  let ?info = "w_info w" and ?to = "w_timeout w"
  have tm: "tm_inv (io_timers (io_manager st))" using inv by (simp add: hook_inv_def)
  from cancel_ok [OF this first(1)] first(2) have c: "cancel a (io_timers (io_manager st)) = Inr (False, io_timers (io_manager st))"
    by (auto simp: cancel_def timer_at_def first)
  have retry: "do_io_retry sys env f fd ev ?to ?info st = Inr (Wait w', st1)"
    using call w info c by (simp add: do_io_resumed_def end_wait_def cancel_timer_def)
  note b = do_io_retry_blocks [OF blocks inv laws ev fd env retry]
  have i1: "timer_infos st1 ?info = Some 0" using info b(6) by simp
  obtain io where r: "run_callback sys (OnTimer ?info (TimedOut ?info fd ev)) st1
      = Inr (st1\<lparr>timer_infos := (timer_infos st1)(?info \<mapsto> ETIMEDOUT), io_manager := io\<rparr>)"
    "hook_inv interest (st1\<lparr>io_manager := io\<rparr>)" "io_timers io = io_timers (io_manager st1)"
    by (rule timeout_ends_wait [OF b(2) laws ev fd b(3) i1])
  let ?st2 = "st1\<lparr>timer_infos := (timer_infos st1)(?info \<mapsto> ETIMEDOUT), io_manager := io\<rparr>"
  have timer: "timer_heap (io_timers io) (env_timer env) = Some (wait_timer env fd ev ?to ?info)"
    using b(3) w(4) r(3) by (simp add: waiting_def)
  have "hook_inv interest ?st2" using r(2) by (simp add: hook_inv_def)
  from resumed_after_timeout [OF this, of w' ETIMEDOUT sys env' f] have
    "\<exists>st3. do_io_resumed sys env' f w' ?st2 = Inr (Return (-1), st3) \<and> errno st3 (env_thread env') = ETIMEDOUT"
    using b(1) timer w(4) by (auto simp: ETIMEDOUT_def)
  with r(1) timer show ?thesis by (auto simp: wait_timer_def Timer_new_def)
qed

section \<open>The table, and the flags users see\<close>

text \<open>The table is a finite map from descriptors to contexts that grows as needed and is never
  accessed outside its bounds: \<open>get\<close> answers the context that is there; without one it makes a new
  context when asked to, and then only for that descriptor; \<open>del\<close> removes one context.\<close>

theorem fd_table_refines_map:
  assumes fd: "0 \<le> fd" and len: "64 \<le> length m"
  shows "(if table m fd \<noteq> None \<or> \<not> auto then fd_get sys fd auto m s = Inr (table m fd, m, s)
      else \<exists>m'. fd_get sys fd auto m s = Inr (Some (fst (FdCtx_new sys fd s)), m', snd (FdCtx_new sys fd s))
        \<and> table m' = (table m)(fd \<mapsto> fst (FdCtx_new sys fd s)) \<and> 64 \<le> length m')
    \<and> (\<exists>m'. fd_del fd m = Inr m' \<and> table m' = (table m)(fd := None) \<and> 64 \<le> length m')
    \<and> table FdManager_new = (\<lambda>_. None) \<and> fd_get sys (- 1) auto m s = Inr (None, m, s)"
proof -
  obtain m' where "get_create sys fd m s = Inr (fst (FdCtx_new sys fd s), m', snd (FdCtx_new sys fd s))"
    "table m' = (table m)(fd \<mapsto> fst (FdCtx_new sys fd s))" "64 \<le> length m'"
    by (rule get_create_eq [OF fd len])
  moreover obtain m'' where "fd_del fd m = Inr m''" "table m'' = (table m)(fd := None)" "length m'' = length m"
    by (rule fd_del_eq [OF fd])
  moreover have "table FdManager_new = (\<lambda>_. None)" by (simp add: FdManager_new_def table_def fun_eq_iff)
  moreover have "fd_get sys (- 1) auto m s = Inr (None, m, s)" by (simp add: fd_get_def get_lookup_def)
  ultimately show ?thesis
    using len by (simp add: fd_get_def get_lookup_eq [OF fd])
qed

text \<open>What the code relies on of \<open>fcntl\<close> (its manual page), for the flags \<open>flags s fd\<close> of a descriptor.\<close>

definition fcntl_laws :: "('s, 'e) sys_calls \<Rightarrow> ('s \<Rightarrow> int \<Rightarrow> 32 word) \<Rightarrow> bool" where
  "fcntl_laws sys flags \<longleftrightarrow>
     (\<forall>fd s. sys_fcntl sys fd F_GETFL NoArg s = (flags s fd, s))
   \<and> (\<forall>fd a s s'. sys_fcntl sys fd F_SETFL (IntArg a) s = (0, s') \<longrightarrow> flags s' fd AND O_NONBLOCK = a AND O_NONBLOCK)"

lemma bit_O_NONBLOCK: "bit O_NONBLOCK n \<longleftrightarrow> n = 11"
proof -
  have "O_NONBLOCK = 2 ^ 11" by (simp add: O_NONBLOCK_def)
  then have "bit O_NONBLOCK n \<longleftrightarrow> bit (2 ^ 11 :: 32 word) n" by (simp only:)
  also have "\<dots> \<longleftrightarrow> n = 11" unfolding bit_exp_iff by auto
  finally show ?thesis .
qed

lemma nonblock_words:
  "(a OR O_NONBLOCK) AND O_NONBLOCK = O_NONBLOCK" "(a AND NOT O_NONBLOCK) AND O_NONBLOCK = 0"
  "(a OR O_NONBLOCK) AND NOT O_NONBLOCK = a AND NOT O_NONBLOCK" "O_NONBLOCK \<noteq> 0"
  "(a AND NOT O_NONBLOCK) AND NOT O_NONBLOCK = a AND NOT O_NONBLOCK"
  by (auto intro!: bit_word_eqI simp: bit_simps bit_O_NONBLOCK) (simp add: O_NONBLOCK_def)

lemma nonblock_cases: "a AND O_NONBLOCK = (if bit a 11 then O_NONBLOCK else 0)"
  by (rule bit_word_eqI) (auto simp: bit_simps bit_O_NONBLOCK)

text \<open>For a socket the code made non-blocking, the flag \<open>O_NONBLOCK\<close> a user reads with
  \<open>fcntl\<close> is the one the user set, whatever it was, the other flags are those of the kernel, and
  the kernel's own flag stays set; the calls on the socket wait exactly when the user cleared the flag.\<close>

theorem nonblocking_flag_round_trip:
  assumes laws: "fcntl_laws sys flags" and fd: "0 \<le> fd" and c: "ctxs st fd = Some c"
    and sock: "m_isSocket c" "\<not> m_isClosed c" "m_sysNonblock c"
    and set: "hook_fcntl sys fd F_SETFL (IntArg a) st = Inr (0, st1)"
    and get: "hook_fcntl sys fd F_GETFL NoArg st1 = Inr (r, st2)"
  shows "r AND O_NONBLOCK = a AND O_NONBLOCK \<and> r AND NOT O_NONBLOCK = flags (hook_os st1) fd AND NOT O_NONBLOCK
    \<and> flags (hook_os st1) fd AND O_NONBLOCK = O_NONBLOCK \<and> st2 = st1
    \<and> (hook_enable st t \<longrightarrow> (\<exists>c'. hooked t fd c' st1) = (a AND O_NONBLOCK = 0))"
proof -
  let ?c = "c\<lparr>m_userNonblock := a AND O_NONBLOCK \<noteq> 0\<rparr>"
  obtain m where m: "put_ctx fd ?c st = Inr (st\<lparr>fd_table := m\<rparr>)" "table m = (ctxs st)(fd \<mapsto> ?c)"
    by (rule put_ctx_eq [of st fd ?c]) (simp_all add: c)
  obtain x s where sys: "sys_fcntl sys fd F_SETFL (IntArg (a OR O_NONBLOCK)) (hook_os st) = (x, s)" by fastforce
  have 1: "x = 0" "st1 = st\<lparr>fd_table := m, hook_os := s\<rparr>"
    using set m(1) sys fd c sock by (simp_all add: hook_fcntl_def lookup_ctx_eq Let_def)
  have k: "flags s fd AND O_NONBLOCK = O_NONBLOCK"
    using laws sys 1(1) nonblock_words(1) by (auto simp: fcntl_laws_def)
  have "sys_fcntl sys fd F_GETFL NoArg s = (flags s fd, s)" using laws by (simp add: fcntl_laws_def)
  then have r: "st2 = st1" "r = (if a AND O_NONBLOCK \<noteq> 0 then flags s fd OR O_NONBLOCK else flags s fd AND NOT O_NONBLOCK)"
    using get fd sock m(2) by (auto simp: hook_fcntl_def lookup_ctx_eq Let_def 1(2) split: if_splits)
  have "ctxs st1 fd = Some ?c" "hook_enable st1 = hook_enable st" using m(2) 1(2) by simp_all
  with r k 1(2) fd sock nonblock_cases [of a] show ?thesis by (auto simp: nonblock_words hooked_def split: if_splits)
qed

text \<open>Clearing the non-blocking flag with \<open>ioctl\<close> instead of \<open>fcntl\<close> clears it in the kernel
  too, so that the calls on the socket, which are still replaced, block the thread with all its fibers.\<close>

theorem ioctl_makes_kernel_block:
  assumes law: "\<And>s e s'. sys_ioctl sys fd FIONBIO 0 s = ((0, e), s') \<Longrightarrow> flags s' fd AND O_NONBLOCK = 0"
    and fd: "0 \<le> fd" and c: "ctxs st fd = Some c" "m_isSocket c" "\<not> m_isClosed c"
    and call: "hook_ioctl sys t fd FIONBIO 0 st = Inr (0, st1)"
  shows "flags (hook_os st1) fd AND O_NONBLOCK = 0
    \<and> (hook_enable st t' \<longrightarrow> hooked t' fd (c\<lparr>m_userNonblock := False\<rparr>) st1)"
proof -
  let ?c = "c\<lparr>m_userNonblock := False\<rparr>"
  obtain m where m: "put_ctx fd ?c st = Inr (st\<lparr>fd_table := m\<rparr>)" "table m = (ctxs st)(fd \<mapsto> ?c)"
    by (rule put_ctx_eq [of st fd ?c]) (simp_all add: c)
  obtain n e s where sys: "sys_ioctl sys fd FIONBIO 0 (hook_os st) = ((n, e), s)" by (metis prod.exhaust)
  have "n = 0" "st1 = st\<lparr>fd_table := m, hook_os := s\<rparr>"
    using call m(1) sys fd c by (auto simp: hook_ioctl_def lookup_ctx_eq pass_def Let_def split: if_splits)
  with law [of "hook_os st"] sys m(2) c fd show ?thesis by (simp add: hooked_def)
qed

text \<open>A context outlives a descriptor that is closed on a thread without hooks: a socket opened
  later under the same number gets the flags and timeouts of the old one, and is not made
  non-blocking, since nothing but \<open>socket\<close> is called for it.\<close>

theorem context_of_closed_descriptor_survives:
  assumes closed: "\<not> hook_enable st (env_thread env)" "hook_close sys env fd st = Inr (0, st1)"
    and c: "ctxs st fd = Some c" and fd: "0 \<le> fd"
    and opened: "hook_enable st t" "hook_socket sys t domain ty protocol st1 = Inr (fd, st2)"
  shows "ctxs st2 fd = Some c \<and> hook_os st2 = snd (sys_socket sys domain ty protocol (snd (sys_close sys fd (hook_os st))))"
proof -
  obtain e s where cl: "sys_close sys fd (hook_os st) = ((0, e), s)" "st1 = st\<lparr>hook_os := s\<rparr>"
    using closed by (auto simp: hook_close_def is_hook_enable_def pass_def Let_def split: prod.splits if_splits)
  obtain n e' s' where so: "sys_socket sys domain ty protocol s = ((n, e'), s')" by (metis prod.exhaust)
  have "st2 = st1\<lparr>hook_os := s'\<rparr>"
    using opened so fd c cl(2) create_ctx_known [of fd "st1\<lparr>hook_os := s'\<rparr>" sys]
    by (auto simp: hook_socket_def is_hook_enable_def pass_def Let_def bindE_eq_Inr split: if_splits)
  with c cl so show ?thesis by simp
qed

section \<open>Sleeping, and short timeouts\<close>

text \<open>A sleep leaves one timer that schedules the fiber.\<close>

definition sleeping :: "call_env \<Rightarrow> nat \<Rightarrow> ('e, 's) hook_state \<Rightarrow> bool" where
  "sleeping env ms st \<longleftrightarrow> timer_heap (io_timers (io_manager st)) (env_timer env)
     = Some (Timer_new (env_now env) ms (Plain (ScheduleFiber (fst (env_cur env)))) False)"

lemma sleep_ms_ok:
  assumes "proper_env env st"
  shows "\<exists>st1. sleep_ms env ms st = Inr st1 \<and> sleeping env ms st1"
  using assms by (simp add: sleep_ms_def need_iom_def proper_env_def sleeping_def add_io_timer_effect addTimer_new)

lemma queue_schedule_fiber:
  "queue (schedule_on k (fiber_task f (-1)) io) j = queue io j @ (if j = k then [fiber_task f (-1)] else [])"
  by (simp add: queue_def schedule_def scheduleNoLock_def fiber_task_def)

lemma scast_int:
  fixes n :: int
  defines "w \<equiv> word_of_int n :: 32 word"
  shows "- (2 ^ 31) \<le> n \<Longrightarrow> n < 2 ^ 31 \<Longrightarrow> unat (scast w :: 64 word) = nat (n mod 2 ^ 64)"
    and "2 ^ 31 \<le> n \<Longrightarrow> n < 2 ^ 32 \<Longrightarrow> unat (scast w :: 64 word) = nat (n + 2 ^ 64 - 2 ^ 32)"
proof -
  have small: "unat (scast (word_of_int k :: 32 word) :: 64 word) = nat (k mod 2 ^ 64)"
    if "- (2 ^ 31) \<le> k" "k < 2 ^ 31" for k
  proof -
    have "sint (word_of_int k :: 32 word) = k"
      using that int_word_sint [where 'a = 32, of k] by (simp add: mod_pos_pos_trivial)
    then show ?thesis by (simp add: scast_eq uint_word_of_int take_bit_eq_mod flip: nat_uint_eq)
  qed
  show "- (2 ^ 31) \<le> n \<Longrightarrow> n < 2 ^ 31 \<Longrightarrow> unat (scast w :: 64 word) = nat (n mod 2 ^ 64)"
    unfolding w_def by (rule small)
  assume n: "2 ^ 31 \<le> n" "n < 2 ^ 32"
  have "w = word_of_int (n - 2 ^ 32)" by (simp add: w_def)
  with small [of "n - 2 ^ 32"] n have "unat (scast w :: 64 word) = nat ((n - 2 ^ 32) mod 2 ^ 64)" by simp
  moreover have "(n - 2 ^ 32) mod 2 ^ 64 = n + 2 ^ 64 - 2 ^ 32"
    using n mod_pos_pos_trivial [of "n + 2 ^ 64 - 2 ^ 32" "2 ^ 64"] mod_add_self2 [of "n - 2 ^ 32" "2 ^ 64 :: int"]
    by (simp add: algebra_simps)
  ultimately show "unat (scast w :: 64 word) = nat (n + 2 ^ 64 - 2 ^ 32)" by simp
qed

lemma nanosleep_ms_eq:
  assumes "0 \<le> sec" "0 \<le> nsec"
  defines "n \<equiv> sec * 1000 + nsec div 1000000"
  shows "n < 2 ^ 31 \<Longrightarrow> nanosleep_ms sec nsec = nat n"
    and "2 ^ 31 \<le> n \<Longrightarrow> n < 2 ^ 32 \<Longrightarrow> nanosleep_ms sec nsec = nat (n + 2 ^ 64 - 2 ^ 32)"
proof -
  have d: "nsec sdiv 1000 sdiv 1000 = nsec div 1000000"
    using assms(2) by (simp add: signed_divide_int_def sgn_if zdiv_zmult2_eq [symmetric])
  have n: "0 \<le> n" using assms by simp
  have eq: "nanosleep_ms sec nsec = unat (scast (word_of_int n :: 32 word) :: 64 word)"
    by (simp only: nanosleep_ms_def d Let_def n_def)
  show "n < 2 ^ 31 \<Longrightarrow> nanosleep_ms sec nsec = nat n"
    using scast_int(1) [of n] n eq by simp
  show "2 ^ 31 \<le> n \<Longrightarrow> n < 2 ^ 32 \<Longrightarrow> nanosleep_ms sec nsec = nat (n + 2 ^ 64 - 2 ^ 32)"
    using scast_int(2) [of n] eq by simp
qed

text \<open>A sleep ends as late as was asked for, rounded down to milliseconds, if that is less than
  2^32 milliseconds, or 2^31 for \<open>nanosleep\<close>: \<open>sleep\<close> wraps around there and wakes up early, while
  \<open>nanosleep\<close> then sleeps for more than 500 million years. The timer schedules the sleeping fiber once.\<close>

theorem sleep_durations:
  assumes env: "proper_env env st"
  shows "(\<exists>st1. hook_sleep env seconds st = Inr st1 \<and> sleeping env (1000 * unat seconds mod 2 ^ 32) st1)
    \<and> (\<exists>st1. hook_usleep env usec st = Inr st1 \<and> sleeping env (unat usec div 1000) st1)
    \<and> (0 \<le> sec \<and> 0 \<le> nsec \<and> sec * 1000 + nsec div 1000000 < 2 ^ 31 \<longrightarrow>
        (\<exists>st1. hook_nanosleep env sec nsec st = Inr st1 \<and> sleeping env (nat (sec * 1000 + nsec div 1000000)) st1))
    \<and> (0 \<le> sec \<and> 0 \<le> nsec \<and> 2 ^ 31 \<le> sec * 1000 + nsec div 1000000 \<and> sec * 1000 + nsec div 1000000 < 2 ^ 32 \<longrightarrow>
        (\<exists>st1. hook_nanosleep env sec nsec st = Inr st1
          \<and> sleeping env (nat (sec * 1000 + nsec div 1000000 + 2 ^ 64 - 2 ^ 32)) st1))
    \<and> (\<exists>st3. run_callback sys (Plain (ScheduleFiber f)) st2 = Inr st3
        \<and> queue (io_manager st3) = (\<lambda>k. queue (io_manager st2) k
            @ (if k = this_scheduler (io_manager st2) then [fiber_task f (-1)] else [])))"
proof -
  note s = sleep_ms_ok [OF env]
  have "unat (seconds * 1000) = 1000 * unat seconds mod 2 ^ 32" by (simp add: unat_word_ariths mult.commute)
  then have "\<exists>st1. hook_sleep env seconds st = Inr st1 \<and> sleeping env (1000 * unat seconds mod 2 ^ 32) st1"
    using s by (simp add: hook_sleep_def)
  moreover have "\<exists>st1. hook_usleep env usec st = Inr st1 \<and> sleeping env (unat usec div 1000) st1"
    using s [of "unat usec div 1000"] by (simp add: hook_usleep_def unat_div_distrib)
  ultimately show ?thesis
    using s by (auto simp: hook_nanosleep_def nanosleep_ms_eq run_callback_def call_cb_def run_job_def queue_schedule_fiber fun_eq_iff)
qed

text \<open>After a receive timeout below a millisecond, in particular after the timeout 0, which means
  to wait for ever, a call that would block has already timed out: its timer is expired at the time
  the call is made.\<close>

theorem zero_timeout_expires_at_once:
  assumes set: "hook_setsockopt sys t fd SOL_SOCKET SO_RCVTIMEO (Timeval 0 usec) st = Inr (n, st1)" "0 \<le> usec" "usec < 1000"
    and inv: "hook_inv interest st1" and laws: "epoll_laws (sys_epoll_ctl sys) interest"
    and hooked: "hook_enable st t" "hooked (env_thread env) fd c st" and env: "proper_env env st1" "env_now env < 2 ^ 64"
    and blocks: "call_uninterrupted f (hook_os st1) = Some ((-1, EAGAIN), s)"
    and call: "hook_read sys env (\<lambda>_. f) fd st1 = Inr (Wait w, st2)" and key: "timer_heap (io_timers (io_manager st2)) key = None"
  shows "Some (OnTimer (env_info env) (TimedOut (env_info env) fd READ))
    \<in> set (fst (listExpiredCb (env_now env) key (io_timers (io_manager st2))))"
proof -
  let ?c = "setTimeout SO_RCVTIMEO 0 c" and ?info = "env_info env"
  have fd: "0 \<le> fd" "ctxs st fd = Some c" using hooked(2) by (simp_all add: hooked_def)
  have z: "timeval_ms 0 usec = 0" using set(2,3) by (simp add: timeval_ms_def signed_divide_int_def)
  obtain m where m: "put_ctx fd ?c st = Inr (st\<lparr>fd_table := m\<rparr>)" "table m = (ctxs st)(fd \<mapsto> ?c)"
    by (rule put_ctx_eq [of st fd ?c]) (simp_all add: fd)
  have st1: "st1 = snd (pass t (sys_setsockopt sys fd SOL_SOCKET SO_RCVTIMEO (Timeval 0 usec)) (st\<lparr>fd_table := m\<rparr>))"
    using set(1) hooked(1) fd m(1) z by (simp add: hook_setsockopt_def is_hook_enable_def lookup_ctx_eq)
  have h: "hooked (env_thread env) fd ?c st1"
    using hooked(2) m(2) unfolding st1 by (simp add: hooked_def pass_def Let_def split_beta setTimeout_def)
  have to: "getTimeout SO_RCVTIMEO ?c = 0" by (simp add: getTimeout_def setTimeout_def)
  have ev: "an_event READ" by simp
  let ?st1 = "st1\<lparr>timer_infos := (timer_infos st1)(?info \<mapsto> 0)\<rparr>"
  have st': "hook_inv interest ?st1" "proper_env env ?st1" "call_uninterrupted f (hook_os ?st1) = Some ((-1, EAGAIN), s)"
    using inv env blocks by (simp_all add: hook_inv_def proper_env_def)
  have retry: "do_io_retry sys env f fd READ 0 ?info ?st1 = Inr (Wait w, st2)"
    using call do_io_hooked [OF h, of sys f READ SO_RCVTIMEO] to by (simp add: hook_read_def)
  note b = do_io_retry_blocks [OF st'(3,1) laws ev fd(1) st'(2) retry]
  let ?tm = "io_timers (io_manager st2)" and ?t = "wait_timer env fd READ 0 ?info"
  have t: "timer_heap ?tm (env_timer env) = Some ?t" using b(3) by (simp add: waiting_def)
  have cb: "m_cb ?t = Some (OnTimer ?info (TimedOut ?info fd READ))" "m_next ?t = env_now env"
    using env(2) by (simp_all add: wait_timer_def Timer_new_def wrap64_def)
  have "tm_inv ?tm" using b(2) by (simp add: hook_inv_def)
  then show ?thesis by (rule pending_timer_expires [OF _ key t cb(1)]) (simp add: cb(2))
qed

section \<open>An example\<close>

text \<open>An operating system that keeps the flags of the descriptors, and a socket 5 with a timeout of 30
  milliseconds on which calls block.\<close>

definition demo_sys :: "(int \<Rightarrow> 32 word, (int \<Rightarrow> 32 word option) ctl) sys_calls" where
  "demo_sys =
     \<lparr>sys_fstat = (\<lambda>_ _. Some True),
      sys_fcntl = (\<lambda>fd cmd arg s. case cmd of F_GETFL \<Rightarrow> (s fd, s)
        | F_SETFL \<Rightarrow> (0, case arg of IntArg a \<Rightarrow> s(fd := a) | _ \<Rightarrow> s) | _ \<Rightarrow> (0, s)),
      sys_ioctl = (\<lambda>fd request v s.
        ((0, 0), if request = FIONBIO then s(fd := if v = 0 then s fd AND NOT O_NONBLOCK else s fd OR O_NONBLOCK) else s)),
      sys_socket = (\<lambda>_ _ _ s. ((5, 0), s(5 := 0))), sys_close = (\<lambda>_ s. ((0, 0), s)),
      sys_setsockopt = (\<lambda>_ _ _ _ s. ((0, 0), s)), sys_so_error = (\<lambda>_ s. ((0, 0), 0, s)), sys_epoll_ctl = demo_ctl\<rparr>"

definition demo_socket :: FdCtx where
  "demo_socket = \<lparr>m_isInit = True, m_isSocket = True, m_sysNonblock = True, m_userNonblock = False,
     m_isClosed = False, m_fd = 5, m_recvTimeout = 30, m_sendTimeout = - 1\<rparr>"

definition hook_sched :: "nat \<Rightarrow> hook_job callback Scheduler" where
  "hook_sched = (\<lambda>_. \<lparr>m_fibers = [], m_rootFiber = None, m_threadIds = [], m_threadCount = 1,
     m_activeThreadCount = 0, m_idleThreadCount = 0, m_stopping = True, m_autoStop = False, m_rootThread = -1\<rparr>)"

definition demo_hook :: "(int \<Rightarrow> 32 word option, int \<Rightarrow> 32 word) hook_state" where
  "demo_hook = \<lparr>fd_table = FdManager_new[5 := Some demo_socket], io_manager = IOManager_new (\<lambda>_. None) 1 [8] hook_sched,
     timer_infos = (\<lambda>_. None), hook_os = (\<lambda>_. O_NONBLOCK), hook_enable = (\<lambda>t. t = 0), errno = (\<lambda>_. 0)\<rparr>"

definition demo_env :: call_env where
  "demo_env = \<lparr>env_thread = 0, env_now = 100, env_sched = Some 1, env_cur = (7, EXEC), env_timer = 40, env_info = 50\<rparr>"

definition would_block :: "(int \<Rightarrow> 32 word) \<Rightarrow> io_result \<times> (int \<Rightarrow> 32 word)" where
  "would_block s = ((-1, EAGAIN), s)"

lemma demo_laws: "epoll_laws (sys_epoll_ctl demo_sys) (\<lambda>e. e)"
  by (simp add: demo_sys_def demo_ctl_laws)

lemma demo_fcntl_laws: "fcntl_laws demo_sys (\<lambda>s. s)"
  by (simp add: fcntl_laws_def demo_sys_def)

lemma demo_io:
  "io_manager demo_hook = IOManager_new (\<lambda>_. None) 1 [8] hook_sched" "this_scheduler (io_manager demo_hook) = 1"
  "io_timers (io_manager demo_hook) = TimerManager_new" "m_fdContexts (io_manager demo_hook) = contextResize 32 []"
  "m_epfd (io_manager demo_hook) = (\<lambda>_. None)"
  by (simp_all add: demo_hook_def IOManager_new_def)

lemma demo_hook_inv: "hook_inv (\<lambda>e. e) demo_hook"
  unfolding hook_inv_def demo_io(3) unfolding demo_io(1) by (simp add: IOManager_new_inv new_manager_inv)

lemma demo_ctxs: "ctxs demo_hook 5 = Some demo_socket"
  by (simp add: ctxs_def demo_hook_def table_def FdManager_new_def)

lemma demo_hooked: "hooked (env_thread demo_env) 5 demo_socket demo_hook"
  unfolding hooked_def demo_ctxs by (simp add: demo_socket_def demo_env_def demo_hook_def)

lemma demo_proper: "proper_env demo_env demo_hook"
  by (simp add: proper_env_def demo_io(2-5)) (simp add: demo_env_def TimerManager_new_def)

lemma demo_blocks: "call_uninterrupted would_block s = Some ((-1, EAGAIN), s)"
  by (simp add: call_uninterrupted_def would_block_def while_option_unfold EAGAIN_def EINTR_def)

text \<open>The event is added where nothing is awaited yet, so the call waits.\<close>

lemma demo_event_added:
  assumes inv: "io_inv (\<lambda>e. e) io" and io: "m_fdContexts io = contextResize 32 []" "m_epfd io = (\<lambda>_. None)"
  shows "\<exists>io'. addEvent demo_ctl (Some 1) (7, EXEC) 5 READ None io = Inr (0, io')"
proof -
  have room: "room 5 io = io" "context_at 5 io = FdContext_new 5"
    using contextResize_32(2) [of 5] by (simp_all add: room_def io contextResize_32(1))
  show ?thesis
    using addEvent_eq [where ctl = demo_ctl and k = 1 and cur = "(7, EXEC)" and cb = None, OF inv event_words(1), of 5]
    unfolding room by (simp add: waits_def FdContext_new_def NONE_def demo_ctl_def io(2) Let_def)
qed

lemma demo_retry_waits:
  assumes inv: "hook_inv (\<lambda>e. e) st" and env: "proper_env demo_env st" and to: "to \<noteq> - 1"
    and io: "m_fdContexts (io_manager st) = contextResize 32 []" "m_epfd (io_manager st) = (\<lambda>_. None)"
    and blocks: "call_uninterrupted f (hook_os st) = Some ((-1, EAGAIN), s)"
  shows "\<exists>w st1. do_io_retry demo_sys demo_env f 5 READ to info st = Inr (Wait w, st1)"
proof -
  let ?st = "set_errno 0 EAGAIN (st\<lparr>hook_os := s\<rparr>)"
  let ?st1 = "add_io_timer demo_env (unat to) (OnTimer info (TimedOut info 5 READ)) ?st"
  have "io_inv (\<lambda>e. e) (io_manager ?st1)" using inv by (simp add: add_io_timer_effect hook_inv_def)
  moreover have "m_fdContexts (io_manager ?st1) = contextResize 32 []" using io by (simp add: add_io_timer_effect)
  moreover have "m_epfd (io_manager ?st1) = (\<lambda>_. None)"
    using io by (simp add: add_io_timer_def split_beta Let_def onTimerInsertedAtFront_def)
  ultimately obtain io' where a: "addEvent demo_ctl (Some 1) (7, EXEC) 5 READ None (io_manager ?st1) = Inr (0, io')"
    using demo_event_added by blast
  have "env_sched demo_env = Some 1" "env_cur demo_env = (7, EXEC)" "env_thread demo_env = 0" "sys_epoll_ctl demo_sys = demo_ctl"
    by (simp_all add: demo_env_def demo_sys_def)
  moreover from this env have "this_scheduler (io_manager st) = 1" by (simp add: proper_env_def)
  ultimately show ?thesis
    using a to by (simp add: do_io_retry_def blocks begin_wait_def need_iom_def)
qed

text \<open>Whatever the operating system is like, as long as the call would block.\<close>

lemma demo_any_os:
  defines "st \<equiv> \<lambda>s. demo_hook\<lparr>hook_os := s\<rparr>"
  shows "hook_inv (\<lambda>e. e) (st s)" "proper_env demo_env (st s)" "hooked (env_thread demo_env) 5 demo_socket (st s)"
  using demo_hook_inv demo_proper demo_hooked by (simp_all add: st_def hook_inv_def proper_env_def hooked_def)

text \<open>The kernel of the example takes up events, and gives up those that are awaited.\<close>

lemma demo_takes_up: "takes_up (sys_epoll_ctl demo_sys) 5 READ (io_manager (demo_hook\<lparr>hook_os := s\<rparr>))"
proof -
  have "room 5 (io_manager demo_hook) = io_manager demo_hook" "context_at 5 (io_manager demo_hook) = FdContext_new 5"
    using contextResize_32(2) [of 5] by (simp_all add: room_def demo_io(4) contextResize_32(1))
  moreover have "sys_epoll_ctl demo_sys = demo_ctl" by (simp add: demo_sys_def)
  ultimately show ?thesis
    by (simp add: takes_up_def waits_def FdContext_new_def NONE_def demo_ctl_def demo_io(5) Let_def)
qed

lemma demo_gives_up:
  assumes "io_inv (\<lambda>e. e) io" and "0 \<le> fd" and "nat fd < length (m_fdContexts io)" and "waits ev (context_at fd io)"
  shows "gives_up demo_ctl fd ev io"
proof -
  have "m_epfd io fd = watched (context_at fd io)" by (rule io_invD(3) [OF assms(1-3)])
  moreover have "events (context_at fd io) \<noteq> 0" using assms(4) by (auto simp: waits_def)
  ultimately show ?thesis by (simp add: gives_up_def demo_ctl_def watched_def Let_def)
qed

lemma demo_suspended:
  assumes "call_uninterrupted f s = Some ((-1, EAGAIN), s')"
  shows "\<exists>w st1. do_io demo_sys demo_env f 5 READ SO_RCVTIMEO (demo_hook\<lparr>hook_os := s\<rparr>) = Inr (Wait w, st1)
    \<and> hook_inv (\<lambda>e. e) st1 \<and> waiting demo_env 5 READ (getTimeout SO_RCVTIMEO demo_socket) (env_info demo_env) (io_manager st1)
    \<and> gives_up (sys_epoll_ctl demo_sys) 5 READ (io_manager st1)"
proof -
  let ?st = "demo_hook\<lparr>hook_os := s, timer_infos := (timer_infos demo_hook)(env_info demo_env \<mapsto> 0)\<rparr>"
  have st: "hook_inv (\<lambda>e. e) ?st" "proper_env demo_env ?st" "call_uninterrupted f (hook_os ?st) = Some ((-1, EAGAIN), s')"
    "takes_up (sys_epoll_ctl demo_sys) 5 READ (io_manager ?st)"
    using demo_any_os [of s] assms demo_takes_up [of s] by (simp_all add: hook_inv_def proper_env_def)
  have fd: "(0 :: int) \<le> 5" by simp
  obtain w st1 where r: "do_io_retry demo_sys demo_env f 5 READ (getTimeout SO_RCVTIMEO demo_socket) (env_info demo_env) ?st = Inr (Wait w, st1)"
    using do_io_retry_waits [OF st(3,1) demo_laws event_words(1) fd st(2,4)] by blast
  note b = do_io_retry_blocks(2,3) [OF st(3,1) demo_laws event_words(1) fd st(2) r]
  then have "gives_up (sys_epoll_ctl demo_sys) 5 READ (io_manager st1)"
    using demo_gives_up [of "io_manager st1" 5 READ] by (simp add: hook_inv_def waiting_def) (simp add: demo_sys_def)
  with r b show ?thesis
    using do_io_hooked [OF demo_any_os(3) [of s], of demo_sys f READ SO_RCVTIMEO] by simp
qed

theorem blocked_call_times_out_witness:
  "\<exists>w st1 t cb st2 st3. do_io demo_sys demo_env would_block 5 READ SO_RCVTIMEO (demo_hook\<lparr>hook_os := (\<lambda>_. 0)\<rparr>) = Inr (Wait w, st1)
    \<and> timer_heap (io_timers (io_manager st1)) 40 = Some t \<and> m_next t = 130 \<and> m_cb t = Some cb
    \<and> run_callback demo_sys cb st1 = Inr st2 \<and> \<not> waits READ (context_at 5 (io_manager st2))
    \<and> do_io_resumed demo_sys demo_env would_block w st2 = Inr (Return (-1), st3) \<and> errno st3 0 = ETIMEDOUT"
proof -
  have to: "getTimeout SO_RCVTIMEO demo_socket = 30" by (simp add: getTimeout_def demo_socket_def)
  have env: "env_timer demo_env = 40" "env_now demo_env = 100" "env_thread demo_env = 0" by (simp_all add: demo_env_def)
  obtain w st1 where c: "do_io demo_sys demo_env would_block 5 READ SO_RCVTIMEO (demo_hook\<lparr>hook_os := (\<lambda>_. 0)\<rparr>) = Inr (Wait w, st1)"
    "hook_inv (\<lambda>e. e) st1" "gives_up (sys_epoll_ctl demo_sys) 5 READ (io_manager st1)"
    using demo_suspended [OF demo_blocks] by blast
  let ?tm = "io_timers (io_manager st1)"
  have same: "st1\<lparr>io_manager := (io_manager st1)\<lparr>io_timers := ?tm\<rparr>\<rparr> = st1" by simp
  have "\<exists>t cb. timer_heap ?tm 40 = Some t \<and> m_next t = wrap64 130 \<and> m_cb t = Some cb
      \<and> (tm_inv ?tm \<and> timer_heap ?tm 40 \<noteq> None \<and> gives_up (sys_epoll_ctl demo_sys) 5 READ (io_manager st1) \<longrightarrow>
          (\<exists>st2. run_callback demo_sys cb (st1\<lparr>io_manager := (io_manager st1)\<lparr>io_timers := ?tm\<rparr>\<rparr>) = Inr st2
            \<and> \<not> waits READ (context_at 5 (io_manager st2))
            \<and> (\<exists>st3. do_io_resumed demo_sys demo_env would_block w st2 = Inr (Return (-1), st3) \<and> errno st3 0 = ETIMEDOUT)))"
    using blocked_call_times_out [OF demo_any_os(1) demo_laws event_words(1) demo_any_os(3,2) demo_blocks demo_takes_up,
      where so = SO_RCVTIMEO and env' = demo_env, of "\<lambda>_. 0", unfolded env to c(1)]
    by (auto dest!: spec [of _ ?tm])
  with c show ?thesis unfolding same by (auto simp: hook_inv_def wrap64_def)
qed

definition answers_later :: "(int \<Rightarrow> 32 word) \<Rightarrow> io_result \<times> (int \<Rightarrow> 32 word)" where
  "answers_later s = (if s 9 = 0 then ((-1, EAGAIN), s) else ((12, 0), s))"

lemma demo_answers:
  "call_uninterrupted answers_later (\<lambda>_. 0) = Some ((-1, EAGAIN), \<lambda>_. 0)"
  "call_uninterrupted answers_later (\<lambda>_. 1) = Some ((12, 0), \<lambda>_. 1)"
  by (simp_all add: call_uninterrupted_def answers_later_def while_option_unfold EAGAIN_def EINTR_def)

theorem event_resumes_call_witness:
  "\<exists>w st1 io2 st3. do_io demo_sys demo_env answers_later 5 READ SO_RCVTIMEO (demo_hook\<lparr>hook_os := (\<lambda>_. 0)\<rparr>) = Inr (Wait w, st1)
    \<and> handle_event demo_ctl (FdEvent 5 EPOLLIN) (io_manager st1) = Inr io2
    \<and> do_io_resumed demo_sys demo_env answers_later w (st1\<lparr>io_manager := io2, hook_os := (\<lambda>_. 1)\<rparr>) = Inr (Return 12, st3)
    \<and> 40 \<notin> set (m_timers (io_timers (io_manager st3)))"
proof -
  let ?st = "demo_hook\<lparr>hook_os := (\<lambda>_. 0 :: 32 word)\<rparr>"
  have r: "call_uninterrupted answers_later (hook_os ?st) = Some ((-1, EAGAIN), \<lambda>_. 0)" using demo_answers by simp
  obtain w st1 where c: "do_io demo_sys demo_env answers_later 5 READ SO_RCVTIMEO ?st = Inr (Wait w, st1)"
    and b: "waiting demo_env 5 READ (getTimeout SO_RCVTIMEO demo_socket) (env_info demo_env) (io_manager st1)"
    and g: "gives_up (sys_epoll_ctl demo_sys) 5 READ (io_manager st1)"
    using demo_suspended [OF demo_answers(1)] by blast
  have e: "real_events EPOLLIN fc = READ" for fc :: "hook_job FdContext"
    by (simp add: real_events_def EPOLLIN_def EPOLLOUT_def EPOLLERR_def EPOLLHUP_def READ_def NONE_def WRITE_def Let_def)
  have f: "fresh_report 5 EPOLLIN (io_manager st1)"
    using b e by (auto simp: waiting_def fresh_report_def READ_def WRITE_def)
  have "getTimeout SO_RCVTIMEO demo_socket \<noteq> - 1" "env_timer demo_env = 40" "sys_epoll_ctl demo_sys = demo_ctl"
    by (simp_all add: getTimeout_def demo_socket_def demo_env_def demo_sys_def)
  with event_resumes_call [OF demo_any_os(1) demo_laws event_words(1) demo_any_os(3,2) r c f e g demo_answers(2)] c
  show ?thesis by simp blast
qed

text \<open>A call that was resumed while the function of its first timer had been taken for running.\<close>

theorem earlier_timeout_ends_later_wait_witness:
  "\<exists>st w' st1 st2 st3. timer_infos st 50 = Some 0
    \<and> do_io_resumed demo_sys demo_env would_block \<lparr>w_fd = 5, w_event = READ, w_timeout = 30, w_timer = Some 39, w_info = 50\<rparr> st = Inr (Wait w', st1)
    \<and> run_callback demo_sys (OnTimer 50 (TimedOut 50 5 READ)) st1 = Inr st2
    \<and> do_io_resumed demo_sys demo_env would_block w' st2 = Inr (Return (-1), st3)"
proof -
  let ?w = "\<lparr>w_fd = 5, w_event = READ, w_timeout = 30, w_timer = Some 39, w_info = 50\<rparr>"
  let ?t = "(Timer_new 60 30 (OnTimer 50 (TimedOut 50 5 READ)) False)\<lparr>m_cb := None\<rparr>"
  let ?io = "(io_manager demo_hook)\<lparr>io_timers := TimerManager_new\<lparr>timer_heap := [39 \<mapsto> ?t]\<rparr>\<rparr>"
  let ?st = "demo_hook\<lparr>timer_infos := [50 \<mapsto> 0], io_manager := ?io\<rparr>"
  have inv: "hook_inv (\<lambda>e. e) ?st"
    using demo_hook_inv by (simp add: hook_inv_def tm_inv_def TimerManager_new_def)
  have env: "proper_env demo_env ?st"
    using demo_proper by (simp add: proper_env_def) (simp add: demo_env_def)
  have b: "call_uninterrupted would_block (hook_os ?st) = Some ((-1, EAGAIN), hook_os ?st)" by (rule demo_blocks)
  obtain w' st1 where "do_io_retry demo_sys demo_env would_block 5 READ 30 50 ?st = Inr (Wait w', st1)"
    using demo_retry_waits [OF inv env _ _ _ b, of 30 50] by (auto simp: demo_io(2-5))
  then have c: "do_io_resumed demo_sys demo_env would_block ?w ?st = Inr (Wait w', st1)"
    by (simp add: do_io_resumed_def end_wait_def cancel_timer_def cancel_def timer_at_def)
  have w: "w_fd ?w = 5" "w_event ?w = READ" "w_timer ?w = Some 39" "w_timeout ?w \<noteq> - 1" by simp_all
  have i: "timer_infos ?st (w_info ?w) = Some 0" "timer_heap (io_timers (io_manager ?st)) 39 = Some ?t" "m_cb ?t = None" by simp_all
  obtain st2 st3 where "run_callback demo_sys (OnTimer 50 (TimedOut 50 5 READ)) st1 = Inr st2"
    "do_io_resumed demo_sys demo_env would_block w' st2 = Inr (Return (-1), st3)"
    using earlier_timeout_ends_later_wait [OF inv demo_laws event_words(1) _ w env i b c, of demo_env] by auto
  with c i(1) show ?thesis by (intro exI [of _ ?st]) auto
qed

theorem fd_table_refines_map_witness:
  "\<exists>m'. fd_get demo_sys 100 True FdManager_new (\<lambda>_. 0) = Inr (Some (fst (FdCtx_new demo_sys 100 (\<lambda>_. 0))), m', (\<lambda>_. 0)(100 := O_NONBLOCK))
    \<and> length m' = 150"
proof -
  have "table FdManager_new 100 = None" by (simp add: table_def FdManager_new_def)
  with fd_table_refines_map [where fd = 100 and m = FdManager_new and sys = demo_sys and auto = True and s = "\<lambda>_. 0"]
  have "\<exists>m'. fd_get demo_sys 100 True FdManager_new (\<lambda>_. 0)
      = Inr (Some (fst (FdCtx_new demo_sys 100 (\<lambda>_. 0))), m', snd (FdCtx_new demo_sys 100 (\<lambda>_. 0)))"
    by (auto simp: FdManager_new_def)
  then show ?thesis
    by (auto simp: fd_get_def get_create_def get_lookup_def set_slot_def FdManager_new_def Let_def split_beta
      FdCtx_new_def FdCtx_init_def demo_sys_def)
qed

theorem nonblocking_flag_round_trip_witness:
  "\<exists>st1 st2. hook_fcntl demo_sys 5 F_SETFL (IntArg 2) demo_hook = Inr (0, st1) \<and> hook_fcntl demo_sys 5 F_GETFL NoArg st1 = Inr (2, st2)
    \<and> hook_os st1 5 = 2 OR O_NONBLOCK"
proof -
  have n: "(0 :: int) \<le> 5" "ctxs demo_hook 5 = Some demo_socket" by (simp_all add: demo_ctxs)
  let ?c = "demo_socket\<lparr>m_userNonblock := False\<rparr>"
  obtain m where m: "put_ctx 5 ?c demo_hook = Inr (demo_hook\<lparr>fd_table := m\<rparr>)" "table m = (ctxs demo_hook)(5 \<mapsto> ?c)"
    by (rule put_ctx_eq [of demo_hook 5 ?c]) (simp_all add: demo_ctxs)
  have sock: "m_isSocket demo_socket" "\<not> m_isClosed demo_socket" "m_sysNonblock demo_socket" by (simp_all add: demo_socket_def)
  let ?st1 = "demo_hook\<lparr>fd_table := m, hook_os := (hook_os demo_hook)(5 := 2 OR O_NONBLOCK)\<rparr>"
  have z: "(2 :: 32 word) AND O_NONBLOCK = 0" by (simp add: O_NONBLOCK_def)
  have s: "hook_fcntl demo_sys 5 F_SETFL (IntArg 2) demo_hook = Inr (0, ?st1)"
    using m(1) sock by (simp add: hook_fcntl_def lookup_ctx_eq demo_ctxs z Let_def) (simp add: demo_sys_def)
  obtain r where g: "hook_fcntl demo_sys 5 F_GETFL NoArg ?st1 = Inr (r, ?st1)"
    using m(2) by (simp add: hook_fcntl_def lookup_ctx_eq Let_def) (simp add: demo_sys_def)
  have f: "(2 OR O_NONBLOCK) AND NOT O_NONBLOCK = (2 :: 32 word)" by (simp add: O_NONBLOCK_def)
  from nonblocking_flag_round_trip [OF demo_fcntl_laws n sock s g] have
    "r AND O_NONBLOCK = 0" "r AND NOT O_NONBLOCK = 2" by (simp_all add: z f)
  moreover have "r = (r AND O_NONBLOCK) OR (r AND NOT O_NONBLOCK)" by (rule bit_word_eqI) (auto simp: bit_simps)
  ultimately have "r = 2" by simp
  with s g show ?thesis by auto
qed

theorem ioctl_makes_kernel_block_witness:
  "\<exists>st1. hook_ioctl demo_sys 0 5 FIONBIO 0 demo_hook = Inr (0, st1) \<and> hook_os st1 5 AND O_NONBLOCK = 0"
proof -
  let ?c = "demo_socket\<lparr>m_userNonblock := False\<rparr>"
  obtain m where m: "put_ctx 5 ?c demo_hook = Inr (demo_hook\<lparr>fd_table := m\<rparr>)"
    by (rule put_ctx_eq [of demo_hook 5 ?c]) (simp_all add: demo_ctxs)
  have sock: "m_isSocket demo_socket" "\<not> m_isClosed demo_socket" by (simp_all add: demo_socket_def)
  obtain st1 where "hook_ioctl demo_sys 0 5 FIONBIO 0 demo_hook = Inr (0, st1)"
    using m sock by (simp add: hook_ioctl_def lookup_ctx_eq demo_ctxs pass_def Let_def) (simp add: demo_sys_def)
  with ioctl_makes_kernel_block [of demo_sys 5 "\<lambda>s. s" demo_hook demo_socket 0 st1] sock show ?thesis
    by (simp add: demo_ctxs) (simp add: demo_sys_def nonblock_words split: if_splits)
qed

theorem context_of_closed_descriptor_survives_witness:
  "\<exists>st1 st2. hook_close demo_sys (demo_env\<lparr>env_thread := 3\<rparr>) 5 demo_hook = Inr (0, st1)
    \<and> hook_socket demo_sys 0 2 1 0 st1 = Inr (5, st2) \<and> ctxs st2 5 = Some demo_socket \<and> hook_os st2 5 = 0"
proof -
  have a: "\<not> hook_enable demo_hook (env_thread (demo_env\<lparr>env_thread := 3\<rparr>))" "hook_enable demo_hook 0"
    by (simp_all add: demo_hook_def)
  obtain st1 where c: "hook_close demo_sys (demo_env\<lparr>env_thread := 3\<rparr>) 5 demo_hook = Inr (0, st1)" "st1 = demo_hook"
    using a(1) by (simp add: hook_close_def is_hook_enable_def pass_def Let_def) (simp add: demo_sys_def)
  obtain st2 where d: "hook_socket demo_sys 0 2 1 0 st1 = Inr (5, st2)"
    using a(2) create_ctx_known [of 5 "demo_hook\<lparr>hook_os := (hook_os demo_hook)(5 := 0)\<rparr>" demo_sys] c(2)
    by (simp add: hook_socket_def is_hook_enable_def pass_def Let_def demo_ctxs) (simp add: demo_sys_def)
  have "hook_os st2 = (hook_os demo_hook)(5 := 0)" "ctxs st2 5 = Some demo_socket"
    using context_of_closed_descriptor_survives [OF a(1) c(1) demo_ctxs _ a(2) d] by (simp_all add: demo_sys_def)
  with c(1) d show ?thesis by auto
qed

theorem sleep_durations_witness:
  "\<exists>st1. hook_sleep demo_env 4294968 demo_hook = Inr st1 \<and> sleeping demo_env 704 st1"
  using conjunct1 [OF sleep_durations [OF demo_proper, of 4294968]] by simp

theorem zero_timeout_expires_at_once_witness:
  "\<exists>st1 w st2. hook_setsockopt demo_sys 0 5 SOL_SOCKET SO_RCVTIMEO (Timeval 0 0) demo_hook = Inr (0, st1)
    \<and> hook_read demo_sys demo_env (\<lambda>_. would_block) 5 st1 = Inr (Wait w, st2)
    \<and> fst (listExpiredCb 100 77 (io_timers (io_manager st2))) \<noteq> []"
proof -
  let ?c = "setTimeout SO_RCVTIMEO 0 demo_socket"
  obtain m where m: "put_ctx 5 ?c demo_hook = Inr (demo_hook\<lparr>fd_table := m\<rparr>)" "table m = (ctxs demo_hook)(5 \<mapsto> ?c)"
    by (rule put_ctx_eq [of demo_hook 5 ?c]) (simp_all add: demo_ctxs)
  let ?st1 = "demo_hook\<lparr>fd_table := m\<rparr>"
  have h: "hook_enable demo_hook 0" by (simp add: demo_hook_def)
  have z: "timeval_ms 0 0 = 0" by (simp add: timeval_ms_def)
  have s: "hook_setsockopt demo_sys 0 5 SOL_SOCKET SO_RCVTIMEO (Timeval 0 0) demo_hook = Inr (0, ?st1)"
    using m(1) h by (simp add: hook_setsockopt_def is_hook_enable_def lookup_ctx_eq demo_ctxs z pass_def Let_def) (simp add: demo_sys_def)
  have st: "hook_inv (\<lambda>e. e) ?st1" "proper_env demo_env ?st1" "hooked (env_thread demo_env) 5 ?c ?st1"
    using demo_hook_inv demo_proper demo_hooked m(2) by (simp_all add: hook_inv_def proper_env_def hooked_def setTimeout_def)
  let ?st0 = "?st1\<lparr>timer_infos := (timer_infos ?st1)(env_info demo_env \<mapsto> 0)\<rparr>"
  have st0: "hook_inv (\<lambda>e. e) ?st0" "proper_env demo_env ?st0" using st by (simp_all add: hook_inv_def proper_env_def)
  obtain w st2 where r: "do_io_retry demo_sys demo_env would_block 5 READ 0 (env_info demo_env) ?st0 = Inr (Wait w, st2)"
    using demo_retry_waits [OF st0 _ _ _ demo_blocks, of 0 "env_info demo_env"] by (auto simp: demo_io(2-5))
  have "timer_heap (io_timers (io_manager st2)) 77 = timer_heap (io_timers (io_manager ?st0)) 77"
    by (rule do_io_retry_blocks(8) [OF demo_blocks st0(1) demo_laws event_words(1) _ st0(2) r]) (simp_all add: demo_env_def)
  then have key: "timer_heap (io_timers (io_manager st2)) 77 = None" by (simp add: demo_io(3) TimerManager_new_def)
  have "getTimeout SO_RCVTIMEO ?c = 0" by (simp add: getTimeout_def setTimeout_def)
  with r have c: "hook_read demo_sys demo_env (\<lambda>_. would_block) 5 ?st1 = Inr (Wait w, st2)"
    using do_io_hooked [OF st(3), of demo_sys would_block READ SO_RCVTIMEO] by (simp add: hook_read_def)
  have "env_now demo_env = 100" by (simp add: demo_env_def)
  with zero_timeout_expires_at_once [OF s _ _ st(1) demo_laws h demo_hooked st(2) _ demo_blocks c key] have
    "fst (listExpiredCb 100 77 (io_timers (io_manager st2))) \<noteq> []" by auto
  with s c show ?thesis by blast
qed

end
