(* ===== verification/Address.thy ===== *)
theory Address
  imports StringUtil ByteArrayCodec
begin

unbundle bit_operations_syntax

text \<open>
  Network addresses (\<open>src/sylar/address.cc\<close>, \<open>address.h\<close>, and the byte order of \<open>endian.h\<close> on a
  little-endian machine). The socket address structures of the system are their fields, and their
  bytes in memory where addresses are compared or made from memory. Name resolution and the list of
  interfaces come from the C library and are parameters; reading addresses from text
  (\<open>inet_pton\<close>) is one too. Logging is left out.
\<close>

section \<open>Model\<close>

datatype address_error = BadShift | OutOfBounds | NullAddress | PathTooLong | NoAddress

definition AF_UNSPEC :: int where "AF_UNSPEC = 0"
definition AF_UNIX :: "16 word" where "AF_UNIX = 1"
definition AF_INET :: "16 word" where "AF_INET = 2"
definition AF_INET6 :: "16 word" where "AF_INET6 = 10"

record sockaddr_in =
  sin_port :: "16 word"
  sin_addr :: "32 word"
  sin_zero :: "byte list"

record sockaddr_in6 =
  sin6_port :: "16 word"
  sin6_flowinfo :: "32 word"
  s6_addr :: "byte list"
  sin6_scope_id :: "32 word"

record sockaddr_un =
  sun_path :: "byte list"
  un_length :: nat

datatype address =
    IPv4Address sockaddr_in
  | IPv6Address sockaddr_in6
  | UnixAddress sockaddr_un
  | UnknownAddress "16 word" "byte list"

text \<open>\<open>byteswapOnLittleEndian\<close>.\<close>

definition byteswapOnLittleEndian :: "'a::len word \<Rightarrow> 'a word" where
  "byteswapOnLittleEndian t = byteswap t"

section \<open>Bits\<close>

text \<open>
  \<open>CreateMask\<close> for \<open>uint32_t\<close> and \<open>uint8_t\<close>: the shift is by \<open>32 - bits\<close> in the type \<open>int\<close>, so it
  is undefined for 0 (and for more than 32) bits; for \<open>uint8_t\<close> it always fits. The overflow for
  one bit is taken to wrap around.
\<close>

definition CreateMask32 :: "nat \<Rightarrow> address_error + 32 word" where
  "CreateMask32 bits = (if 1 \<le> bits \<and> bits \<le> 32 then Inr (push_bit (32 - bits) 1 - 1) else Inl BadShift)"

definition CreateMask8 :: "nat \<Rightarrow> byte" where
  "CreateMask8 bits = push_bit (8 - bits) 1 - 1"

text \<open>\<open>CountBytes\<close>: the loop clears the lowest bit that is set.\<close>

lemma clear_lowest_less: "v \<noteq> 0 \<Longrightarrow> unat (v AND (v - 1)) < unat (v :: 'a::len word)"
proof -
  assume "v \<noteq> 0"
  have "unat (v AND (v - 1)) \<le> unat (v - 1)" by (metis and.commute word_and_le1 word_le_nat_alt)
  with \<open>v \<noteq> 0\<close> show ?thesis using unat_gt_0 [of v] by (simp add: unat_minus_one)
qed

function count_from :: "'a::len word \<Rightarrow> nat \<Rightarrow> nat" where
  "count_from v result = (if v \<noteq> 0 then count_from (v AND (v - 1)) (result + 1) else result)"
  by pat_completeness auto
termination by (relation "measure (\<lambda>(v, _). unat v)") (auto simp: clear_lowest_less)

declare count_from.simps [simp del]

definition CountBytes :: "'a::len word \<Rightarrow> nat" where
  "CountBytes value = count_from value 0"

section \<open>Addresses in memory\<close>

text \<open>The bytes at \<open>getAddr()\<close>, and how many of them \<open>getAddrLen()\<close> says there are.\<close>

definition memory_of :: "address \<Rightarrow> byte list" where
  "memory_of a =
     (case a of
        IPv4Address s \<Rightarrow> le_bytes 2 AF_INET @ le_bytes 2 (sin_port s) @ le_bytes 4 (sin_addr s) @ sin_zero s
      | IPv6Address s \<Rightarrow> le_bytes 2 AF_INET6 @ le_bytes 2 (sin6_port s) @ le_bytes 4 (sin6_flowinfo s) @ s6_addr s
          @ le_bytes 4 (sin6_scope_id s)
      | UnixAddress s \<Rightarrow> le_bytes 2 AF_UNIX @ sun_path s
      | UnknownAddress fam bs \<Rightarrow> le_bytes 2 fam @ bs)"

definition getAddrLen :: "address \<Rightarrow> nat" where
  "getAddrLen a =
     (case a of IPv4Address _ \<Rightarrow> 16 | IPv6Address _ \<Rightarrow> 28 | UnixAddress s \<Rightarrow> un_length s | UnknownAddress _ _ \<Rightarrow> 16)"

definition getFamily :: "address \<Rightarrow> 16 word" where
  "getFamily a = (case a of IPv4Address _ \<Rightarrow> AF_INET | IPv6Address _ \<Rightarrow> AF_INET6 | UnixAddress _ \<Rightarrow> AF_UNIX
     | UnknownAddress fam _ \<Rightarrow> fam)"

text \<open>\<open>memcmp\<close> of the first \<open>n\<close> bytes.\<close>

fun memcmp :: "nat \<Rightarrow> byte list \<Rightarrow> byte list \<Rightarrow> address_error + int" where
  "memcmp 0 as bs = Inr 0"
| "memcmp (Suc n) (a # as) (b # bs) = (if a < b then Inr (-1) else if b < a then Inr 1 else memcmp n as bs)"
| "memcmp (Suc n) _ _ = Inl OutOfBounds"

definition address_less :: "address \<Rightarrow> address \<Rightarrow> address_error + bool" where
  "address_less lhs rhs =
     bindE (memcmp (min (getAddrLen lhs) (getAddrLen rhs)) (memory_of lhs) (memory_of rhs)) (\<lambda>result.
     Inr (if result < 0 then True
          else if result > 0 then False
          else if getAddrLen lhs < getAddrLen rhs then True else False))"

definition address_eq :: "address \<Rightarrow> address \<Rightarrow> address_error + bool" where
  "address_eq lhs rhs =
     (if getAddrLen lhs \<noteq> getAddrLen rhs then Inr False
      else bindE (memcmp (getAddrLen lhs) (memory_of lhs) (memory_of rhs)) (\<lambda>result. Inr (result = 0)))"

text \<open>\<open>Address::Create\<close> from the memory at a pointer, \<open>None\<close> the null pointer: the family decides
  how much is copied.\<close>

definition read_mem :: "nat \<Rightarrow> nat \<Rightarrow> byte list \<Rightarrow> address_error + byte list" where
  "read_mem i n bs = (if i + n \<le> length bs then Inr (take n (drop i bs)) else Inl OutOfBounds)"

definition Address_Create :: "byte list option \<Rightarrow> address_error + address option" where
  "Address_Create addr =
     (case addr of
        None \<Rightarrow> Inr None
      | Some mem \<Rightarrow>
          bindE (read_mem 0 2 mem) (\<lambda>f. let fam = le_word f :: 16 word in
          if fam = AF_INET then
            bindE (read_mem 0 16 mem) (\<lambda>b.
            Inr (Some (IPv4Address \<lparr>sin_port = le_word (take 2 (drop 2 b)), sin_addr = le_word (take 4 (drop 4 b)),
              sin_zero = drop 8 b\<rparr>)))
          else if fam = AF_INET6 then
            bindE (read_mem 0 28 mem) (\<lambda>b.
            Inr (Some (IPv6Address \<lparr>sin6_port = le_word (take 2 (drop 2 b)), sin6_flowinfo = le_word (take 4 (drop 4 b)),
              s6_addr = take 16 (drop 8 b), sin6_scope_id = le_word (drop 24 b)\<rparr>)))
          else bindE (read_mem 0 16 mem) (\<lambda>b. Inr (Some (UnknownAddress fam (drop 2 b))))))"

section \<open>IPv4\<close>

definition IPv4_new :: "32 word \<Rightarrow> 16 word \<Rightarrow> sockaddr_in" where
  "IPv4_new addr port =
     \<lparr>sin_port = byteswapOnLittleEndian port, sin_addr = byteswapOnLittleEndian addr, sin_zero = replicate 8 0\<rparr>"

text \<open>\<open>IPv4Address::Create\<close>; \<open>pton\<close> is \<open>inet_pton\<close>, which gives the address in memory order.\<close>

definition IPv4_Create :: "(string \<Rightarrow> 32 word option) \<Rightarrow> string \<Rightarrow> 16 word \<Rightarrow> sockaddr_in option" where
  "IPv4_Create pton addr port =
     (let rt = (IPv4_new 0 0)\<lparr>sin_port := byteswapOnLittleEndian port\<rparr>
      in case pton addr of None \<Rightarrow> None | Some a \<Rightarrow> Some (rt\<lparr>sin_addr := a\<rparr>))"

definition IPv4_insert :: "sockaddr_in \<Rightarrow> string" where
  "IPv4_insert s =
     (let addr = byteswapOnLittleEndian (sin_addr s) in
      to_string (unat (drop_bit 24 addr AND 0xff)) @ ''.'' @ to_string (unat (drop_bit 16 addr AND 0xff)) @ ''.''
      @ to_string (unat (drop_bit 8 addr AND 0xff)) @ ''.'' @ to_string (unat (addr AND 0xff))
      @ '':'' @ to_string (unat (byteswapOnLittleEndian (sin_port s))))"

definition IPv4_broadcastAddress :: "nat \<Rightarrow> sockaddr_in \<Rightarrow> address_error + sockaddr_in option" where
  "IPv4_broadcastAddress prefix_len s =
     (if prefix_len > 32 then Inr None
      else bindE (CreateMask32 prefix_len) (\<lambda>m. Inr (Some (s\<lparr>sin_addr := sin_addr s OR byteswapOnLittleEndian m\<rparr>))))"

definition IPv4_networdAddress :: "nat \<Rightarrow> sockaddr_in \<Rightarrow> address_error + sockaddr_in option" where
  "IPv4_networdAddress prefix_len s =
     (if prefix_len > 32 then Inr None
      else bindE (CreateMask32 prefix_len) (\<lambda>m. Inr (Some (s\<lparr>sin_addr := sin_addr s AND byteswapOnLittleEndian m\<rparr>))))"

definition IPv4_subnetMask :: "nat \<Rightarrow> address_error + sockaddr_in" where
  "IPv4_subnetMask prefix_len =
     bindE (CreateMask32 prefix_len) (\<lambda>m.
     Inr \<lparr>sin_port = 0, sin_addr = NOT (byteswapOnLittleEndian m), sin_zero = replicate 8 0\<rparr>)"

definition IPv4_getPort :: "sockaddr_in \<Rightarrow> nat" where
  "IPv4_getPort s = unat (byteswapOnLittleEndian (sin_port s))"

definition IPv4_setPort :: "16 word \<Rightarrow> sockaddr_in \<Rightarrow> sockaddr_in" where
  "IPv4_setPort v s = s\<lparr>sin_port := byteswapOnLittleEndian v\<rparr>"

section \<open>IPv6\<close>

definition IPv6_new :: "byte list \<Rightarrow> 16 word \<Rightarrow> sockaddr_in6" where
  "IPv6_new bytes port =
     \<lparr>sin6_port = byteswapOnLittleEndian port, sin6_flowinfo = 0, s6_addr = take 16 bytes, sin6_scope_id = 0\<rparr>"

definition IPv6_Create :: "(string \<Rightarrow> byte list option) \<Rightarrow> string \<Rightarrow> 16 word \<Rightarrow> sockaddr_in6 option" where
  "IPv6_Create pton addr port =
     (let rt = IPv6_new (replicate 16 0) port
      in case pton addr of None \<Rightarrow> None | Some a \<Rightarrow> Some (rt\<lparr>s6_addr := a\<rparr>))"

text \<open>Output with \<open>std::hex\<close>.\<close>

fun to_hex :: "nat \<Rightarrow> string" where
  "to_hex n = (if n < 16 then [hex_digit n] else to_hex (n div 16) @ [hex_digit (n mod 16)])"

declare to_hex.simps [simp del]

text \<open>The 16 bytes read as eight \<open>uint16_t\<close>, and the loop over them from \<open>i\<close> on.\<close>

definition groups :: "byte list \<Rightarrow> 16 word list" where
  "groups bs = map (\<lambda>i. le_word (take 2 (drop (2 * i) bs))) [0..<8]"

fun ipv6_loop :: "16 word list \<Rightarrow> nat list \<Rightarrow> bool \<Rightarrow> string \<Rightarrow> bool \<times> string" where
  "ipv6_loop addr [] used_zeros os = (used_zeros, os)"
| "ipv6_loop addr (i # is) used_zeros os =
     (if addr ! i = 0 \<and> \<not> used_zeros then ipv6_loop addr is used_zeros os
      else
        let first = (i \<noteq> 0 \<and> addr ! (i - 1) = 0 \<and> \<not> used_zeros);
            os1 = (if first then os @ '':'' else os);
            os2 = (if i \<noteq> 0 then os1 @ '':'' else os1)
        in ipv6_loop addr is (used_zeros \<or> first) (os2 @ to_hex (unat (byteswapOnLittleEndian (addr ! i)))))"

definition IPv6_insert :: "sockaddr_in6 \<Rightarrow> string" where
  "IPv6_insert s =
     (let addr = groups (s6_addr s); (used_zeros, os) = ipv6_loop addr [0..<8] False ''[''
      in (if \<not> used_zeros \<and> addr ! 7 = 0 then os @ ''::'' else os)
         @ '']:'' @ to_string (unat (byteswapOnLittleEndian (sin6_port s))))"

text \<open>
  The functions on networks change the byte the prefix ends in and those behind it. The array has
  16 bytes.
\<close>

definition change_byte :: "nat \<Rightarrow> (byte \<Rightarrow> byte) \<Rightarrow> byte list \<Rightarrow> address_error + byte list" where
  "change_byte i f bs = (if i < length bs then Inr (bs[i := f (bs ! i)]) else Inl OutOfBounds)"

definition fill_from :: "nat \<Rightarrow> byte \<Rightarrow> byte list \<Rightarrow> byte list" where
  "fill_from i v bs = fold (\<lambda>j bs. bs[j := v]) [i..<16] bs"

definition IPv6_broadcastAddress :: "nat \<Rightarrow> sockaddr_in6 \<Rightarrow> address_error + sockaddr_in6" where
  "IPv6_broadcastAddress prefix_len s =
     bindE (change_byte (prefix_len div 8) (\<lambda>b. b OR CreateMask8 (prefix_len mod 8)) (s6_addr s)) (\<lambda>bs.
     Inr (s\<lparr>s6_addr := fill_from (prefix_len div 8 + 1) 0xff bs\<rparr>))"

definition IPv6_networdAddress :: "nat \<Rightarrow> sockaddr_in6 \<Rightarrow> address_error + sockaddr_in6" where
  "IPv6_networdAddress prefix_len s =
     bindE (change_byte (prefix_len div 8) (\<lambda>b. b AND NOT (CreateMask8 (prefix_len mod 8))) (s6_addr s)) (\<lambda>bs.
     Inr (s\<lparr>s6_addr := fill_from (prefix_len div 8 + 1) 0 bs\<rparr>))"

definition IPv6_subnetMask :: "nat \<Rightarrow> address_error + sockaddr_in6" where
  "IPv6_subnetMask prefix_len =
     bindE (change_byte (prefix_len div 8) (\<lambda>_. NOT (CreateMask8 (prefix_len mod 8))) (replicate 16 0)) (\<lambda>bs.
     Inr \<lparr>sin6_port = 0, sin6_flowinfo = 0, s6_addr = fold (\<lambda>j bs. bs[j := 0xff]) [0..<prefix_len div 8] bs,
       sin6_scope_id = 0\<rparr>)"

definition IPv6_getPort :: "sockaddr_in6 \<Rightarrow> nat" where
  "IPv6_getPort s = unat (byteswapOnLittleEndian (sin6_port s))"

definition IPv6_setPort :: "16 word \<Rightarrow> sockaddr_in6 \<Rightarrow> sockaddr_in6" where
  "IPv6_setPort v s = s\<lparr>sin6_port := byteswapOnLittleEndian v\<rparr>"

section \<open>Local sockets\<close>

text \<open>The path starts behind the two bytes of the family; it has room for 108 bytes.\<close>

definition MAX_PATH_LEN :: nat where "MAX_PATH_LEN = 107"

definition bytes_of :: "string \<Rightarrow> byte list" where
  "bytes_of s = map of_char s"

definition chars_of :: "byte list \<Rightarrow> string" where
  "chars_of bs = map (\<lambda>b. char_of (unat b)) bs"

definition Unix_default :: sockaddr_un where
  "Unix_default = \<lparr>sun_path = replicate 108 0, un_length = 2 + MAX_PATH_LEN\<rparr>"

definition Unix_new :: "string \<Rightarrow> address_error + sockaddr_un" where
  "Unix_new p =
     (let len = (if p \<noteq> [] \<and> of_char (p ! 0) = (0 :: byte) then length p else length p + 1) in
      if len > 108 then Inl PathTooLong
      else Inr \<lparr>sun_path = take len (bytes_of p @ [0]) @ replicate (108 - len) 0, un_length = len + 2\<rparr>)"

definition Unix_setAddrLen :: "nat \<Rightarrow> sockaddr_un \<Rightarrow> sockaddr_un" where
  "Unix_setAddrLen v s = s\<lparr>un_length := v\<rparr>"

text \<open>\<open>getPath\<close>, and \<open>insert\<close>, which writes the same text. A name of the abstract namespace starts
  with a null byte, written as two characters. A path that fills its array has no end there.\<close>

definition Unix_getPath :: "sockaddr_un \<Rightarrow> address_error + string" where
  "Unix_getPath s =
     (if un_length s > 2 \<and> sun_path s ! 0 = 0 then
        bindE (read_mem 1 (un_length s - 3) (sun_path s)) (\<lambda>b. Inr ([CHR 92, CHR ''0''] @ chars_of b))
      else if 0 \<in> set (sun_path s) then Inr (chars_of (takeWhile (\<lambda>b. b \<noteq> 0) (sun_path s)))
      else Inl OutOfBounds)"

text \<open>\<open>toString\<close>.\<close>

definition toString :: "address \<Rightarrow> address_error + string" where
  "toString a =
     (case a of
        IPv4Address s \<Rightarrow> Inr (IPv4_insert s)
      | IPv6Address s \<Rightarrow> Inr (IPv6_insert s)
      | UnixAddress s \<Rightarrow> Unix_getPath s
      | UnknownAddress fam _ \<Rightarrow> Inr (''[UnknownAddress family='' @ to_string (unat fam) @ '']''))"

definition Unknown_new :: "16 word \<Rightarrow> address" where
  "Unknown_new family = UnknownAddress family (replicate 14 0)"

section \<open>Names and interfaces\<close>

text \<open>
  How \<open>Lookup\<close> takes a host apart; the results are the strings \<open>getaddrinfo\<close> is given, which end
  at a null character. \<open>drop (Suc i)\<close> is the pointer behind the position found.
\<close>

definition memchr :: "char \<Rightarrow> string \<Rightarrow> nat option" where
  "memchr c s = (let k = length (takeWhile (\<lambda>x. x \<noteq> c) s) in if k < length s then Some k else None)"

definition split_host :: "string \<Rightarrow> string \<times> string option" where
  "split_host host =
     (let (node1, service1) =
           (if host \<noteq> [] \<and> hd host = CHR ''['' then
              (case memchr (CHR '']'') (tl host) of
                 Some i \<Rightarrow> (take i (tl host),
                   if drop (Suc (Suc i)) host \<noteq> [] \<and> hd (drop (Suc (Suc i)) host) = CHR '':''
                   then Some (drop (Suc (Suc (Suc i))) host) else None)
               | None \<Rightarrow> ([], None))
            else ([], None));
          (node2, service2) =
           (if node1 = [] then
              (case memchr (CHR '':'') host of
                 Some i \<Rightarrow>
                   if memchr (CHR '':'') (drop (Suc i) host) = None then (take i host, Some (drop (Suc i) host))
                   else (node1, Some (drop i host))
               | None \<Rightarrow> (node1, None))
            else (node1, service1));
          node3 = (if node2 = [] then host else node2)
      in (c_str node3, map_option c_str service2))"

text \<open>\<open>Lookup\<close>: \<open>resolve\<close> is \<open>getaddrinfo\<close> for the family, type and protocol asked for, which gives
  the memory of the addresses found; the result is \<open>None\<close> when the code answers false.\<close>

fun create_all :: "byte list list \<Rightarrow> address_error + address option list" where
  "create_all [] = Inr []"
| "create_all (m # ms) = bindE (Address_Create (Some m)) (\<lambda>a. bindE (create_all ms) (\<lambda>as. Inr (a # as)))"

definition Lookup :: "(string \<Rightarrow> string option \<Rightarrow> byte list list option) \<Rightarrow> string \<Rightarrow> address_error + address option list option" where
  "Lookup resolve host =
     (let (node, service) = split_host host in
      case resolve node service of
        None \<Rightarrow> Inr None
      | Some ms \<Rightarrow> bindE (create_all ms) (\<lambda>as. Inr (if as \<noteq> [] then Some as else None)))"

definition LookupAny :: "(string \<Rightarrow> string option \<Rightarrow> byte list list option) \<Rightarrow> string \<Rightarrow> address_error + address option" where
  "LookupAny resolve host =
     bindE (Lookup resolve host) (\<lambda>r. Inr (case r of None \<Rightarrow> None | Some as \<Rightarrow> hd as))"

definition is_ip :: "address option \<Rightarrow> bool" where
  "is_ip a = (case a of Some (IPv4Address _) \<Rightarrow> True | Some (IPv6Address _) \<Rightarrow> True | _ \<Rightarrow> False)"

definition LookupAnyIPAddress :: "(string \<Rightarrow> string option \<Rightarrow> byte list list option) \<Rightarrow> string \<Rightarrow> address_error + address option" where
  "LookupAnyIPAddress resolve host =
     bindE (Lookup resolve host) (\<lambda>r. Inr (case r of None \<Rightarrow> None
        | Some as \<Rightarrow> (case filter is_ip as of [] \<Rightarrow> None | a # _ \<Rightarrow> a)))"

text \<open>\<open>IPAddress::Create\<close>: \<open>numeric\<close> is \<open>getaddrinfo\<close> for numbers only; it gives at least one address.\<close>

definition set_port :: "16 word \<Rightarrow> address \<Rightarrow> address option" where
  "set_port port a =
     (case a of
        IPv4Address s \<Rightarrow> Some (IPv4Address (IPv4_setPort port s))
      | IPv6Address s \<Rightarrow> Some (IPv6Address (IPv6_setPort port s))
      | _ \<Rightarrow> None)"

definition IPAddress_Create :: "(string \<Rightarrow> byte list option) \<Rightarrow> string \<Rightarrow> 16 word \<Rightarrow> address_error + address option" where
  "IPAddress_Create numeric addr port =
     (case numeric addr of
        None \<Rightarrow> Inr None
      | Some m \<Rightarrow> bindE (Address_Create (Some m)) (\<lambda>a. Inr (Option.bind a (set_port port))))"

text \<open>
  \<open>GetInterfaceAddresses\<close>: the list of \<open>getifaddrs\<close>, \<open>None\<close> if that fails, has the name, the
  memory of the address (a null pointer is \<open>None\<close>) and that of the mask. The multimap is a list in
  the order of insertion; only entries of one name are ever taken from it.
\<close>

type_synonym ifaddr = "string \<times> byte list option \<times> byte list"

fun interface_loop :: "int \<Rightarrow> ifaddr list \<Rightarrow> (string \<times> address \<times> nat) list \<Rightarrow> address_error + (string \<times> address \<times> nat) list" where
  "interface_loop family [] result = Inr result"
| "interface_loop family ((name, addr, netmask) # rest) result =
     bindE (optE NullAddress addr) (\<lambda>mem.
     bindE (read_mem 0 2 mem) (\<lambda>f.
     let fam = le_word f :: 16 word in
     if family \<noteq> AF_UNSPEC \<and> family \<noteq> uint fam then interface_loop family rest result
     else if fam = AF_INET then
       bindE (Address_Create (Some mem)) (\<lambda>a.
       bindE (read_mem 4 4 netmask) (\<lambda>m.
       interface_loop family rest (result @ [(name, the a, CountBytes (le_word m :: 32 word))])))
     else if fam = AF_INET6 then
       bindE (Address_Create (Some mem)) (\<lambda>a.
       bindE (read_mem 8 16 netmask) (\<lambda>m.
       interface_loop family rest (result @ [(name, the a, sum_list (map CountBytes m))])))
     else interface_loop family rest result))"

definition GetInterfaceAddresses :: "ifaddr list option \<Rightarrow> string \<Rightarrow> int \<Rightarrow> address_error + (address \<times> nat) list option" where
  "GetInterfaceAddresses ifs iface family =
     (if iface = [] \<or> iface = ''*'' then
        Inr (Some ((if family = uint AF_INET \<or> family = AF_UNSPEC then [(IPv4Address (IPv4_new 0 0), 0)] else [])
          @ (if family = uint AF_INET6 \<or> family = AF_UNSPEC then [(IPv6Address (IPv6_new (replicate 16 0) 0), 0)] else [])))
      else
        case ifs of
          None \<Rightarrow> Inr None
        | Some l \<Rightarrow>
            bindE (interface_loop family l []) (\<lambda>results.
            if results = [] then Inr None
            else
              let found = map snd (filter (\<lambda>r. fst r = iface) results)
              in Inr (if found \<noteq> [] then Some found else None)))"

end
