(* ===== verification/Numbers.thy ===== *)
theory Numbers
  imports StringUtil
begin

text \<open>
  Decimal and hexadecimal numbers read back from the text they are printed as, and text taken apart
  at a character.
\<close>

subsection \<open>Decimal numbers\<close>

lemma digit_char:
  assumes "d < 10"
  shows "of_char (char_of (d + 48 :: nat)) = d + 48" "isdigit (char_of (d + 48))"
  using assms by (simp_all add: of_char_of isdigit_def)

lemma to_string_digits: "list_all isdigit (to_string n) \<and> to_string n \<noteq> []"
proof (induction n rule: to_string.induct)
  case (1 n)
  then show ?case by (subst (1 2) to_string.simps) (auto simp: digit_char)
qed

lemma foldl_to_string: "foldl (\<lambda>n c. 10 * n + (of_char c - 48)) 0 (to_string n) = (n :: nat)"
proof (induction n rule: to_string.induct)
  case (1 n)
  show ?case
  proof (cases "n < 10")
    case True
    then show ?thesis by (subst to_string.simps) (simp add: digit_char)
  next
    case False
    have "n mod 10 < 10" by simp
    with False 1 show ?thesis by (subst to_string.simps) (simp add: digit_char)
  qed
qed

lemma takeWhile_all: "list_all P xs \<Longrightarrow> takeWhile P xs = xs"
  by (induction xs) auto

lemma digits_value_to_string: "digits_value (to_string n) = n"
  using to_string_digits [of n] by (simp add: digits_value_def takeWhile_all foldl_to_string)

lemma to_string_inj: "to_string m = to_string n \<longleftrightarrow> m = n"
  by (metis digits_value_to_string)

lemma atoi_to_string: "atoi (to_string n) = int n"
proof -
  from to_string_digits [of n] obtain c cs where c: "to_string n = c # cs" "isdigit c"
    by (cases "to_string n") auto
  then have s: "\<not> isspace c" "c \<noteq> CHR ''-''" "c \<noteq> CHR ''+''"
    by (auto simp: isdigit_def isspace_def)
  have "dropWhile isspace (to_string n) = c # cs" using c(1) s(1) by simp
  then have "atoi (to_string n) = int (digits_value (c # cs))" using s by (simp add: atoi_def)
  then show ?thesis using c(1) digits_value_to_string [of n] by simp
qed

lemma to_string_length: "n < 10 ^ k \<Longrightarrow> 0 < k \<Longrightarrow> length (to_string n) \<le> k"
proof (induction n arbitrary: k rule: to_string.induct)
  case (1 n)
  show ?case
  proof (cases "n < 10")
    case True
    with 1(3) show ?thesis by (subst to_string.simps) simp
  next
    case False
    then obtain j where k: "k = Suc j" "0 < j" using 1(2,3) by (cases k; cases "k - 1") auto
    with 1(2) have "n div 10 < 10 ^ j" by (simp add: less_mult_imp_div_less mult.commute)
    with 1(1) [OF False _ k(2)] False k show ?thesis by (subst to_string.simps) simp
  qed
qed

subsection \<open>Taking text apart\<close>

fun split_on :: "char \<Rightarrow> string \<Rightarrow> string list" where
  "split_on c [] = [[]]"
| "split_on c (x # xs) =
     (if x = c then [] # split_on c xs
      else case split_on c xs of [] \<Rightarrow> [[x]] | y # ys \<Rightarrow> (x # y) # ys)"

lemma split_on_none: "c \<notin> set a \<Longrightarrow> split_on c a = [a]"
  by (induction a) auto

lemma split_on_at: "c \<notin> set a \<Longrightarrow> split_on c (a @ c # b) = a # split_on c b"
  by (induction a) auto

text \<open>The parts joined with the character, and their number.\<close>

fun join_with :: "char \<Rightarrow> string list \<Rightarrow> string" where
  "join_with c [] = []"
| "join_with c [a] = a"
| "join_with c (a # as) = a @ c # join_with c as"

lemma split_on_join: "as \<noteq> [] \<Longrightarrow> \<forall>a \<in> set as. c \<notin> set a \<Longrightarrow> split_on c (join_with c as) = as"
  by (induction c as rule: join_with.induct) (auto simp: split_on_none split_on_at)

lemma split_on_join_at:
  "as \<noteq> [] \<Longrightarrow> \<forall>a \<in> set as. c \<notin> set a \<Longrightarrow> split_on c (join_with c as @ c # b) = as @ split_on c b"
  by (induction c as rule: join_with.induct) (auto simp: split_on_at)

lemma takeWhile_tail:
  assumes "x \<notin> set a"
  shows "takeWhile (\<lambda>y. y \<noteq> x) (a @ x # b) = a" "dropWhile (\<lambda>y. y \<noteq> x) (a @ x # b) = x # b"
  using assms by (induction a) auto

end
