(* ===== verification/AddressProps.thy ===== *)
theory AddressProps
  imports Address ByteArrayWords StringProps Numbers
begin

unbundle bit_operations_syntax

text \<open>
  What addresses promise: their order is the lexicographic order of their bytes, the functions on
  networks compute the bits they should (with two exceptions), the text of an address
  determines it, the path of a local socket is found again, and hosts are taken apart at
  the right colon unless they are plain IPv6 addresses.
\<close>

section \<open>Comparing addresses\<close>

definition well_formed :: "address \<Rightarrow> bool" where
  "well_formed a \<longleftrightarrow>
     (case a of
        IPv4Address s \<Rightarrow> length (sin_zero s) = 8
      | IPv6Address s \<Rightarrow> length (s6_addr s) = 16
      | UnixAddress s \<Rightarrow> length (sun_path s) = 108 \<and> un_length s \<le> 110
      | UnknownAddress fam bs \<Rightarrow> length bs = 14)"

definition raw :: "address \<Rightarrow> byte list" where
  "raw a = take (getAddrLen a) (memory_of a)"

lemma raw_length: "well_formed a \<Longrightarrow> getAddrLen a \<le> length (memory_of a) \<and> length (raw a) = getAddrLen a"
  by (auto simp: well_formed_def raw_def memory_of_def getAddrLen_def split: address.splits)

lemma memcmp_lex:
  "n \<le> length as \<Longrightarrow> n \<le> length bs \<Longrightarrow> \<exists>r. memcmp n as bs = Inr r
    \<and> (r < 0 \<longleftrightarrow> ord_class.lexordp (take n as) (take n bs)) \<and> (r = 0 \<longleftrightarrow> take n as = take n bs)"
proof (induction n as bs rule: memcmp.induct)
  case (2 n a as b bs)
  then show ?case by (cases "a < b"; cases "b < a") auto
qed auto

lemma lexordp_prefix:
  fixes as bs :: "byte list"
  defines "n \<equiv> min (length as) (length bs)"
  shows "ord_class.lexordp as bs \<longleftrightarrow> ord_class.lexordp (take n as) (take n bs) \<or> take n as = take n bs \<and> length as < length bs"
  unfolding n_def
proof (induction as arbitrary: bs)
  case Nil
  then show ?case by (cases bs) auto
next
  case (Cons a as)
  show ?case
  proof (cases bs)
    case (Cons b bs')
    with Cons.IH [of bs'] show ?thesis by auto
  qed simp
qed

text \<open>C31: Comparing two addresses is comparing the bytes the system is given for them: \<open>==\<close> holds
  exactly for equal bytes, and \<open><\<close> is the lexicographic order on them, which is a strict total order.\<close>

theorem addresses_ordered_by_bytes:
  assumes "well_formed a" and "well_formed b"
  shows "address_eq a b = Inr (raw a = raw b) \<and> address_less a b = Inr (ord_class.lexordp (raw a) (raw b))
    \<and> (address_less a b = Inr True \<or> address_eq a b = Inr True \<or> address_less b a = Inr True)
    \<and> (address_less a b = Inr True \<longrightarrow> address_less b a = Inr False)"
proof -
  have less: "address_less a b = Inr (ord_class.lexordp (raw a) (raw b))" if "well_formed a" "well_formed b" for a b
  proof -
    note l = raw_length [OF that(1)] raw_length [OF that(2)]
    let ?n = "min (getAddrLen a) (getAddrLen b)"
    obtain r where r: "memcmp ?n (memory_of a) (memory_of b) = Inr r"
      "r < 0 \<longleftrightarrow> ord_class.lexordp (take ?n (memory_of a)) (take ?n (memory_of b))"
      "r = 0 \<longleftrightarrow> take ?n (memory_of a) = take ?n (memory_of b)"
      using memcmp_lex [of ?n "memory_of a" "memory_of b"] l by (metis min.coboundedI1 min.coboundedI2)
    have t: "take ?n (raw a) = take ?n (memory_of a)" "take ?n (raw b) = take ?n (memory_of b)"
      by (simp_all add: raw_def)
    have "ord_class.lexordp (raw a) (raw b) \<longleftrightarrow> r < 0 \<or> r = 0 \<and> getAddrLen a < getAddrLen b"
      using lexordp_prefix [of "raw a" "raw b"] l t r(2,3) by simp
    then show ?thesis using r(1) by (auto simp: address_less_def)
  qed
  note l = raw_length [OF assms(1)] raw_length [OF assms(2)]
  have eq: "address_eq a b = Inr (raw a = raw b)"
  proof (cases "getAddrLen a = getAddrLen b")
    case True
    obtain r where "memcmp (getAddrLen a) (memory_of a) (memory_of b) = Inr r"
      "r = 0 \<longleftrightarrow> take (getAddrLen a) (memory_of a) = take (getAddrLen a) (memory_of b)"
      using memcmp_lex [of "getAddrLen a" "memory_of a" "memory_of b"] l True by auto
    with True show ?thesis by (simp add: address_eq_def raw_def)
  next
    case False
    with l have "raw a \<noteq> raw b" by auto
    with False show ?thesis by (simp add: address_eq_def)
  qed
  have "ord_class.lexordp (raw a) (raw b) \<or> raw a = raw b \<or> ord_class.lexordp (raw b) (raw a)" by (rule lexordp_linear)
  moreover have "ord_class.lexordp (raw a) (raw b) \<Longrightarrow> \<not> ord_class.lexordp (raw b) (raw a)" using lexordp_antisym by blast
  ultimately show ?thesis using eq less assms by auto
qed

theorem addresses_ordered_by_bytes_witness:
  "let a = IPv4Address \<lparr>sin_port = 0x901f, sin_addr = 0x0100007f, sin_zero = replicate 8 0\<rparr>;
       b = UnixAddress \<lparr>sun_path = 0x2f # replicate 107 0, un_length = 3\<rparr>
   in address_eq a b = Inr False \<and> address_less b a = Inr True \<and> address_less a b = Inr False"
proof -
  let ?a = "IPv4Address \<lparr>sin_port = 0x901f, sin_addr = 0x0100007f, sin_zero = replicate 8 0\<rparr>"
  let ?b = "UnixAddress \<lparr>sun_path = 0x2f # replicate 107 0, un_length = 3\<rparr>"
  have "well_formed ?a" "well_formed ?b" by (simp_all add: well_formed_def getAddrLen_def memory_of_def)
  moreover have "length (raw ?a) \<noteq> length (raw ?b)" by code_simp
  then have "raw ?a \<noteq> raw ?b" by metis
  moreover have "address_less ?b ?a = Inr True"
    by code_simp
  ultimately show ?thesis using addresses_ordered_by_bytes [of ?a ?b] addresses_ordered_by_bytes [of ?b ?a] by auto
qed

section \<open>Words\<close>

lemma bit_byteswap:
  assumes "LENGTH('a) = 8 * n" and "j < LENGTH('a)"
  shows "bit (byteswap (v :: 'a::len word)) j \<longleftrightarrow> bit v (8 * (n - 1 - j div 8) + j mod 8)"
proof -
  have j: "j div 8 < n" using assms by (simp add: less_mult_imp_div_less mult.commute)
  have "bit (byteswap v) j \<longleftrightarrow> bit (le_bytes n v ! (n - 1 - j div 8)) (j mod 8)"
    using assms j by (simp add: byteswap_def bit_le_word rev_nth)
  also have "\<dots> \<longleftrightarrow> bit v (8 * (n - 1 - j div 8) + j mod 8)"
    using j assms(1) by (subst nth_le_bytes) (auto simp: bit_simps dest: bit_imp_le_length)
  finally show ?thesis .
qed

lemma byteswap_bitwise:
  assumes "LENGTH('a) = 8 * n"
  shows "byteswap (v OR w) = byteswap v OR byteswap (w :: 'a::len word)" "byteswap (v AND w) = byteswap v AND byteswap w"
    "byteswap (NOT v) = NOT (byteswap v)"
proof -
  have "8 * (n - 1 - j div 8) + j mod 8 < 8 * n" if "j < 8 * n" for j
  proof -
    have "j div 8 < n" using that by simp
    then have "8 * (n - 1 - j div 8) + 8 \<le> 8 * n" by simp
    moreover have "j mod 8 < 8" by simp
    ultimately show ?thesis by linarith
  qed
  then show "byteswap (v OR w) = byteswap v OR byteswap w" "byteswap (v AND w) = byteswap v AND byteswap w"
    "byteswap (NOT v) = NOT (byteswap v)"
    using assms by (auto intro!: bit_word_eqI simp: bit_byteswap [OF assms] bit_simps)
qed

text \<open>The number of set bits.\<close>

lemma clear_lowest:
  fixes v :: "'a::len word"
  assumes "v \<noteq> 0"
  shows "\<exists>l. bit v l \<and> {n. bit (v AND (v - 1)) n} = {n. bit v n} - {l}"
proof -
  define l where "l = (LEAST n. bit v n)"
  have ex: "\<exists>n. bit v n" using assms by (metis bit_eq_iff bit_0_eq bot_apply bot_bool_def)
  then have l: "bit v l" unfolding l_def by (rule LeastI_ex)
  have low: "\<not> bit v n" if "n < l" for n using that not_less_Least unfolding l_def by blast
  have len: "l < LENGTH('a)" using l by (rule bit_imp_le_length)
  define x where "x = v AND NOT (2 ^ l)"
  have bx: "bit x n \<longleftrightarrow> bit v n \<and> n \<noteq> l" for n
    using len by (auto simp: x_def bit_simps dest: bit_imp_le_length)
  have v: "v = x + 2 ^ l"
  proof -
    have "x + 2 ^ l = x OR 2 ^ l" by (rule disjunctive_add) (auto simp: bx bit_simps)
    moreover have "v = x OR 2 ^ l" by (rule bit_word_eqI) (use l len in \<open>auto simp: bx bit_simps\<close>)
    ultimately show ?thesis by simp
  qed
  have "v - 1 = x + mask l" by (simp add: v mask_eq_exp_minus_1)
  also have "\<dots> = x OR mask l" by (rule disjunctive_add) (use low in \<open>auto simp: bx bit_simps\<close>)
  finally have "v AND (v - 1) = x"
    by (auto intro!: bit_word_eqI simp: bx bit_simps dest: low)
  then show ?thesis using l bx by (intro exI [of _ l]) auto
qed

lemma count_from_card: "count_from v r = r + card {n. bit (v :: 'a::len word) n}"
proof (induction v r rule: count_from.induct)
  case (1 v r)
  have fin: "finite {n. bit v n}"
    by (rule finite_subset [of _ "{..<LENGTH('a)}"]) (auto dest: bit_imp_le_length)
  show ?case
  proof (cases "v = 0")
    case True
    then show ?thesis by (subst count_from.simps) (simp add: bot_fun_def)
  next
    case False
    obtain l where l: "bit v l" "{n. bit (v AND (v - 1)) n} = {n. bit v n} - {l}" using clear_lowest [OF False] by blast
    have "count_from v r = count_from (v AND (v - 1)) (r + 1)"
      unfolding count_from.simps [of v r] using False by (simp only: if_True not_False_eq_True simp_thms)
    also have "\<dots> = r + 1 + card ({n. bit v n} - {l})" unfolding 1 [OF False] l(2) ..
    also have "\<dots> = r + card {n. bit v n}" using card_Suc_Diff1 [OF fin, of l] l(1) by simp
    finally show ?thesis .
  qed
qed

section \<open>Networks\<close>

text \<open>For a prefix of 1 to 32 bits the broadcast address has the bits behind the prefix set, and
  the subnet mask is the mask of that many bits, so that counting its bits gives the length of
  the prefix again. But the function meant to give the network keeps the bits behind the prefix and
  clears the prefix. For the prefix 0 all three are undefined, and beyond 32 there is no address.\<close>

theorem ipv4_networks:
  defines "addr \<equiv> \<lambda>s. byteswapOnLittleEndian (sin_addr s)"
  assumes p: "1 \<le> p" "p \<le> 32"
  shows "(\<exists>b n m. IPv4_broadcastAddress p s = Inr (Some b) \<and> addr b = addr s OR mask (32 - p)
      \<and> IPv4_networdAddress p s = Inr (Some n) \<and> addr n = addr s AND mask (32 - p)
      \<and> IPv4_subnetMask p = Inr m \<and> addr m = NOT (mask (32 - p)) \<and> CountBytes (sin_addr m) = p)
    \<and> IPv4_broadcastAddress 0 s = Inl BadShift \<and> IPv4_networdAddress 0 s = Inl BadShift \<and> IPv4_subnetMask 0 = Inl BadShift
    \<and> (32 < q \<longrightarrow> IPv4_broadcastAddress q s = Inr None \<and> IPv4_networdAddress q s = Inr None \<and> IPv4_subnetMask q = Inl BadShift)"
proof -
  have n: "LENGTH(32) = 8 * 4" by simp
  note bw = byteswap_bitwise [OF n]
  have tw: "byteswap (byteswap v) = v" for v :: "32 word" by (rule byteswap_twice [of 4]) simp_all
  have c: "CreateMask32 p = Inr (mask (32 - p))" using p by (simp add: CreateMask32_def mask_eq_exp_minus_1 push_bit_of_1)
  have "CountBytes (NOT (byteswap (mask (32 - p))) :: 32 word) = p"
  proof -
    have "{j. bit (NOT (byteswap (mask (32 - p))) :: 32 word) j} = {j. j < 32 \<and> \<not> 8 * (3 - j div 8) + j mod 8 < 32 - p}"
      by (auto simp: bit_simps bit_byteswap [OF n] dest: bit_imp_le_length)
    also have "card \<dots> = card {i. i < 32 \<and> \<not> i < 32 - p}"
      by (rule bij_betw_same_card [of "\<lambda>j. 8 * (3 - j div 8) + j mod 8"],
          rule bij_betw_byWitness [of _ "\<lambda>j. 8 * (3 - j div 8) + j mod 8"]) auto
    also have "{i. i < 32 \<and> \<not> i < 32 - p} = {32 - p..<32}" by auto
    finally show ?thesis using p by (simp add: CountBytes_def count_from_card)
  qed
  moreover have "CreateMask32 0 = Inl BadShift" "32 < q \<Longrightarrow> CreateMask32 q = Inl BadShift"
    by (simp_all add: CreateMask32_def)
  ultimately show ?thesis
    using p by (auto simp: IPv4_broadcastAddress_def IPv4_networdAddress_def IPv4_subnetMask_def c addr_def
        byteswapOnLittleEndian_def bw tw)
qed

theorem ipv4_networks_witness:
  "\<exists>n. IPv4_networdAddress 24 (IPv4_new 0xC0A80107 80) = Inr (Some n) \<and> byteswapOnLittleEndian (sin_addr n) = 7"
proof -
  have "byteswapOnLittleEndian (sin_addr (IPv4_new 0xC0A80107 80)) = 0xC0A80107"
    unfolding IPv4_new_def byteswapOnLittleEndian_def by (simp add: byteswap_twice [of 4])
  with ipv4_networks [of 24 "IPv4_new 0xC0A80107 80" 0] show ?thesis by (auto simp: mask_eq_exp_minus_1)
qed

text \<open>The bits of an IPv6 address in the order of the network.\<close>

definition addr_bit :: "byte list \<Rightarrow> nat \<Rightarrow> bool" where
  "addr_bit bs j = bit (bs ! (j div 8)) (7 - j mod 8)"

lemma fold_set_nth:
  "distinct js \<Longrightarrow> j < length bs \<Longrightarrow> fold (\<lambda>j bs. bs[j := v]) js bs ! j = (if j \<in> set js then v else bs ! j)"
  by (induction js arbitrary: bs) (auto simp: nth_list_update)

lemma length_fold_set [simp]: "length (fold (\<lambda>j bs. bs[j := v]) js bs) = length bs"
  by (induction js arbitrary: bs) auto

lemma bit_CreateMask8: "bit (CreateMask8 k) i \<longleftrightarrow> i < 8 - k"
  by (auto simp: CreateMask8_def push_bit_of_1 mask_eq_exp_minus_1 [symmetric] bit_simps)

lemma bit_255: "bit (0xff :: byte) i \<longleftrightarrow> i < 8"
proof -
  have e: "(0xff :: byte) = mask 8" by (simp add: mask_eq_exp_minus_1)
  show ?thesis unfolding e bit_mask_iff by auto
qed

lemma byte_position:
  fixes j p :: nat
  assumes "j < 128"
  shows "j div 8 < p div 8 \<Longrightarrow> j < p" "j div 8 > p div 8 \<Longrightarrow> \<not> j < p"
    "j div 8 = p div 8 \<Longrightarrow> (7 - j mod 8 < 8 - p mod 8) = (\<not> j < p)"
proof -
  have "j = 8 * (j div 8) + j mod 8" "p = 8 * (p div 8) + p mod 8" by simp_all
  moreover have "j mod 8 < 8" "p mod 8 < 8" by simp_all
  ultimately show "j div 8 < p div 8 \<Longrightarrow> j < p" "j div 8 > p div 8 \<Longrightarrow> \<not> j < p"
    "j div 8 = p div 8 \<Longrightarrow> (7 - j mod 8 < 8 - p mod 8) = (\<not> j < p)"
    by linarith+
qed

text \<open>For IPv6 prefixes below 128 bits, the network keeps the bits of the prefix and clears the
  others, the broadcast address sets them, and the mask has exactly the bits of the prefix. For a
  prefix of 128 bits, a single address, all three access the array of bytes out of bounds.\<close>

theorem ipv6_networks:
  assumes len: "length (s6_addr s) = 16"
  shows "(p < 128 \<longrightarrow> (\<exists>b n m. IPv6_broadcastAddress p s = Inr (s\<lparr>s6_addr := b\<rparr>)
      \<and> IPv6_networdAddress p s = Inr (s\<lparr>s6_addr := n\<rparr>) \<and> IPv6_subnetMask p = Inr m
      \<and> length b = 16 \<and> length n = 16 \<and> length (s6_addr m) = 16
      \<and> (\<forall>j < 128. addr_bit b j = (addr_bit (s6_addr s) j \<or> p \<le> j)
          \<and> addr_bit n j = (addr_bit (s6_addr s) j \<and> j < p) \<and> addr_bit (s6_addr m) j = (j < p))))
    \<and> (128 \<le> p \<longrightarrow> IPv6_broadcastAddress p s = Inl OutOfBounds \<and> IPv6_networdAddress p s = Inl OutOfBounds
      \<and> IPv6_subnetMask p = Inl OutOfBounds)"
proof -
  have nth: "fold (\<lambda>j bs. bs[j := v]) [a..<e] bs ! i = (if a \<le> i \<and> i < e then v else bs ! i)"
    if "i < length bs" for v a e i and bs :: "byte list"
    using fold_set_nth [of "[a..<e]" i bs v] that by simp
  let ?q = "p div 8" and ?m = "CreateMask8 (p mod 8)"
  let ?b = "fold (\<lambda>j bs. bs[j := 0xff]) [?q + 1..<16] ((s6_addr s)[?q := s6_addr s ! ?q OR ?m])"
  let ?n = "fold (\<lambda>j bs. bs[j := 0]) [?q + 1..<16] ((s6_addr s)[?q := s6_addr s ! ?q AND NOT ?m])"
  let ?s = "fold (\<lambda>j bs. bs[j := 0xff]) [0..<?q] ((replicate 16 0)[?q := NOT ?m])"
  have byte: "?b ! i = (if i < ?q then s6_addr s ! i else if i = ?q then s6_addr s ! ?q OR ?m else 0xff)"
    "?n ! i = (if i < ?q then s6_addr s ! i else if i = ?q then s6_addr s ! ?q AND NOT ?m else 0)"
    "?s ! i = (if i < ?q then 0xff else if i = ?q then NOT ?m else 0)" if "i < 16" "?q < 16" for i
    using that len by (simp_all add: nth nth_list_update)
  have bits: "addr_bit ?b j = (addr_bit (s6_addr s) j \<or> p \<le> j)"
    "addr_bit ?n j = (addr_bit (s6_addr s) j \<and> j < p)" "addr_bit ?s j = (j < p)"
    if p: "p < 128" and j: "j < 128" for j
  proof -
    have i: "j div 8 < 16" "?q < 16" using p j by auto
    have k: "7 - j mod 8 < 8" by simp
    then have f: "bit (0xff :: byte) (7 - j mod 8)" unfolding bit_255 .
    note pos = byte_position [OF j, of p]
    consider (lt) "j div 8 < ?q" | (eq) "j div 8 = ?q" | (gt) "j div 8 > ?q" by linarith
    then have "addr_bit ?b j = (addr_bit (s6_addr s) j \<or> p \<le> j)
      \<and> addr_bit ?n j = (addr_bit (s6_addr s) j \<and> j < p) \<and> addr_bit ?s j = (j < p)"
    proof cases
      case lt
      with pos(1) f show ?thesis unfolding addr_bit_def byte [OF i] by auto
    next
      case eq
      have m: "bit ?m (7 - j mod 8) = (\<not> j < p)" unfolding bit_CreateMask8 by (rule pos(3) [OF eq])
      have x: "bit (x OR ?m) (7 - j mod 8) = (bit x (7 - j mod 8) \<or> \<not> j < p)"
        "bit (x AND NOT ?m) (7 - j mod 8) = (bit x (7 - j mod 8) \<and> j < p)" "bit (NOT ?m) (7 - j mod 8) = (j < p)" for x
        using m k by (simp_all only: bit_or_iff bit_and_iff bit_not_iff possible_bit_word) auto
      show ?thesis unfolding addr_bit_def eq byte [OF i(2) i(2)] by (simp only: less_irrefl if_False if_True x not_less simp_thms)
    next
      case gt
      with pos(2) f show ?thesis unfolding addr_bit_def byte [OF i] by auto
    qed
    then show "addr_bit ?b j = (addr_bit (s6_addr s) j \<or> p \<le> j)"
      "addr_bit ?n j = (addr_bit (s6_addr s) j \<and> j < p)" "addr_bit ?s j = (j < p)" by simp_all
  qed
  have small: "IPv6_broadcastAddress p s = Inr (s\<lparr>s6_addr := ?b\<rparr>)" "IPv6_networdAddress p s = Inr (s\<lparr>s6_addr := ?n\<rparr>)"
    "IPv6_subnetMask p = Inr \<lparr>sin6_port = 0, sin6_flowinfo = 0, s6_addr = ?s, sin6_scope_id = 0\<rparr>" if "p < 128"
    using that len by (simp_all add: IPv6_broadcastAddress_def IPv6_networdAddress_def IPv6_subnetMask_def change_byte_def
        fill_from_def div_less_iff_less_mult)
  have large: "IPv6_broadcastAddress p s = Inl OutOfBounds" "IPv6_networdAddress p s = Inl OutOfBounds"
    "IPv6_subnetMask p = Inl OutOfBounds" if "128 \<le> p"
  proof -
    have "\<not> ?q < 16" using that by simp
    then show "IPv6_broadcastAddress p s = Inl OutOfBounds" "IPv6_networdAddress p s = Inl OutOfBounds"
      "IPv6_subnetMask p = Inl OutOfBounds"
      using len by (simp_all add: IPv6_broadcastAddress_def IPv6_networdAddress_def IPv6_subnetMask_def change_byte_def)
  qed
  show ?thesis
  proof (intro conjI impI)
    assume p: "p < 128"
    show "\<exists>b n m. IPv6_broadcastAddress p s = Inr (s\<lparr>s6_addr := b\<rparr>)
      \<and> IPv6_networdAddress p s = Inr (s\<lparr>s6_addr := n\<rparr>) \<and> IPv6_subnetMask p = Inr m
      \<and> length b = 16 \<and> length n = 16 \<and> length (s6_addr m) = 16
      \<and> (\<forall>j < 128. addr_bit b j = (addr_bit (s6_addr s) j \<or> p \<le> j)
          \<and> addr_bit n j = (addr_bit (s6_addr s) j \<and> j < p) \<and> addr_bit (s6_addr m) j = (j < p))"
      using small [OF p] bits [OF p] len by (intro exI conjI allI impI) (assumption | simp)+
  qed (use large in auto)
qed

theorem ipv6_networks_witness:
  "\<exists>n. IPv6_networdAddress 9 (IPv6_new (replicate 16 0xff) 80) = Inr n \<and> \<not> addr_bit (s6_addr n) 9 \<and> addr_bit (s6_addr n) 8"
proof -
  have "length (s6_addr (IPv6_new (replicate 16 0xff) 80)) = 16" by (simp add: IPv6_new_def)
  note t = ipv6_networks [OF this, of 9]
  have "addr_bit (s6_addr (IPv6_new (replicate 16 0xff) 80)) 8" by (simp add: addr_bit_def IPv6_new_def bit_255)
  with t show ?thesis by auto
qed

section \<open>The text of addresses\<close>

definition hex_value :: "char \<Rightarrow> nat" where
  "hex_value c = length (takeWhile (\<lambda>d. d \<noteq> c) ''0123456789abcdef'')"

definition read_hex :: "string \<Rightarrow> nat" where
  "read_hex s = foldl (\<lambda>n c. 16 * n + hex_value c) 0 s"

lemma hex_digits: "n < 16 \<Longrightarrow> hex_value (hex_digit n) = n \<and> CHR '':'' \<noteq> hex_digit n \<and> CHR '']'' \<noteq> hex_digit n"
proof -
  have "list_all (\<lambda>n. hex_value (hex_digit n) = n \<and> CHR '':'' \<noteq> hex_digit n \<and> CHR '']'' \<noteq> hex_digit n) [0..<16]"
    by code_simp
  then show "n < 16 \<Longrightarrow> hex_value (hex_digit n) = n \<and> CHR '':'' \<noteq> hex_digit n \<and> CHR '']'' \<noteq> hex_digit n"
    by (simp add: list_all_iff)
qed

lemma to_hex_facts: "read_hex (to_hex n) = n \<and> to_hex n \<noteq> [] \<and> CHR '':'' \<notin> set (to_hex n) \<and> CHR '']'' \<notin> set (to_hex n)"
proof (induction n rule: to_hex.induct)
  case (1 n)
  show ?case
  proof (cases "n < 16")
    case True
    then show ?thesis using hex_digits [of n] by (subst (1 2 3 4) to_hex.simps) (simp add: read_hex_def)
  next
    case False
    have "n mod 16 < 16" by simp
    from 1 [OF False] hex_digits [OF this] False show ?thesis
      by (subst (1 2 3 4) to_hex.simps) (simp add: read_hex_def)
  qed
qed

lemma to_string_no: "isdigit c = False \<Longrightarrow> c \<notin> set (to_string n)"
  using to_string_digits [of n] by (auto simp: list_all_iff)

subsection \<open>IPv4\<close>

text \<open>Reading back the four numbers and the port.\<close>

definition read_ipv4 :: "string \<Rightarrow> nat list \<times> nat" where
  "read_ipv4 s =
     (map (\<lambda>p. nat (atoi p)) (split_on (CHR ''.'') (takeWhile (\<lambda>c. c \<noteq> CHR '':'') s)),
      nat (atoi (tl (dropWhile (\<lambda>c. c \<noteq> CHR '':'') s))))"

subsection \<open>IPv6\<close>

abbreviation hex_group :: "16 word \<Rightarrow> string" where
  "hex_group g \<equiv> to_hex (unat (byteswapOnLittleEndian g))"

text \<open>Reading an address as the standard says: an empty group stands for as many zeros as are missing.\<close>

definition read_groups :: "string \<Rightarrow> nat list" where
  "read_groups body =
     (let ps = split_on (CHR '':'') body in
      if [] \<notin> set ps then map read_hex ps
      else
        let front = takeWhile (\<lambda>p. p \<noteq> []) ps; back = filter (\<lambda>p. p \<noteq> []) (dropWhile (\<lambda>p. p \<noteq> []) ps)
        in map read_hex front @ replicate (8 - (length front + length back)) 0 @ map read_hex back)"

definition read_ipv6 :: "string \<Rightarrow> nat list \<times> nat" where
  "read_ipv6 s =
     (let body = takeWhile (\<lambda>c. c \<noteq> CHR '']'') (tl s)
      in (read_groups body, nat (atoi (drop (length body + 3) s))))"

text \<open>What the loop writes for groups that are not zero, for the zeros, and after them.\<close>

lemma ipv6_loop_append:
  "ipv6_loop addr (is @ js) u os = (case ipv6_loop addr is u os of (u1, os1) \<Rightarrow> ipv6_loop addr js u1 os1)"
  by (induction addr "is" u os rule: ipv6_loop.induct) (simp_all add: Let_def)

lemma ipv6_loop_nonzero:
  assumes "\<forall>i < z. addr ! i \<noteq> 0"
  shows "ipv6_loop addr [0..<z] False os = (False, os @ join_with (CHR '':'') (map (\<lambda>i. hex_group (addr ! i)) [0..<z]))"
  using assms
proof (induction z)
  case (Suc z)
  have join: "join_with c (xs @ [x]) = (if xs = [] then x else join_with c xs @ c # x)" for c x xs
    by (induction c xs rule: join_with.induct) auto
  have "ipv6_loop addr [z] False os' = (False, os' @ (if z = 0 then [] else '':'') @ hex_group (addr ! z))" for os'
    using Suc.prems by (simp add: Let_def)
  with Suc show ?case by (simp add: ipv6_loop_append join del: ipv6_loop.simps)
qed simp

lemma ipv6_loop_zeros: "\<forall>i \<in> set is. addr ! i = 0 \<Longrightarrow> ipv6_loop addr is False os = (False, os)"
  by (induction "is") auto

lemma ipv6_loop_used:
  "0 \<notin> set is \<Longrightarrow> ipv6_loop addr is True os = (True, os @ concat (map (\<lambda>i. CHR '':'' # hex_group (addr ! i)) is))"
  by (induction "is" arbitrary: os) (auto simp: Let_def)

lemma concat_join: "xs \<noteq> [] \<Longrightarrow> concat (map (\<lambda>x. c # f x) xs) = c # join_with c (map f xs)"
proof (induction xs)
  case (Cons x xs)
  then show ?case by (cases xs) auto
qed simp

text \<open>The zeros that are left out: from the first one to the end of its run.\<close>

lemma takeWhile_holds: "i < length (takeWhile P xs) \<Longrightarrow> P (xs ! i)"
  by (induction xs arbitrary: i) (auto simp: nth_Cons split: if_splits nat.splits)

lemma first_zeros:
  assumes "0 \<in> set (gs :: 16 word list)"
  obtains z e where "z < e" "e \<le> length gs" "\<forall>i < z. gs ! i \<noteq> 0" "\<forall>i. z \<le> i \<and> i < e \<longrightarrow> gs ! i = 0"
    and "e = length gs \<or> gs ! e \<noteq> 0"
proof -
  define z where "z = length (takeWhile (\<lambda>g. g \<noteq> 0) gs)"
  define rest where "rest = dropWhile (\<lambda>g. g \<noteq> 0) gs"
  define e where "e = z + length (takeWhile (\<lambda>g. g = 0) rest)"
  have gs: "gs = takeWhile (\<lambda>g. g \<noteq> 0) gs @ rest" by (simp add: rest_def)
  have hd: "rest \<noteq> []" "hd rest = 0"
    using assms hd_dropWhile [of "\<lambda>g. g \<noteq> 0" gs] by (auto simp: rest_def dropWhile_eq_Nil_conv)
  have nth: "gs ! (z + i) = rest ! i" for i by (subst gs) (simp add: z_def nth_append)
  have len: "length gs = z + length rest" by (subst gs) (simp add: z_def)
  show ?thesis
  proof (rule that [of z e])
    show "z < e" using hd by (cases rest) (simp_all add: e_def)
    show "e \<le> length gs" using length_takeWhile_le [of "\<lambda>g. g = 0" rest] by (simp add: len e_def)
    show "\<forall>i < z. gs ! i \<noteq> 0"
      using takeWhile_holds [of _ "\<lambda>g. g \<noteq> 0" gs] by (simp add: z_def)
    show "\<forall>i. z \<le> i \<and> i < e \<longrightarrow> gs ! i = 0"
    proof (intro allI impI)
      fix i assume "z \<le> i \<and> i < e"
      then have "gs ! i = rest ! (i - z)" "i - z < length (takeWhile (\<lambda>g. g = 0) rest)" using nth [of "i - z"] by (auto simp: e_def)
      then show "gs ! i = 0" using takeWhile_holds [of "i - z" "\<lambda>g. g = 0" rest] by simp
    qed
    show "e = length gs \<or> gs ! e \<noteq> 0"
      using nth_length_takeWhile [of "\<lambda>g. g = 0" rest] nth [of "e - z"] length_takeWhile_le [of "\<lambda>g. g = 0" rest]
      by (auto simp: len e_def le_less)
  qed
qed

lemma hex_group_facts:
  "read_hex (hex_group g) = unat (byteswapOnLittleEndian g)" "hex_group g \<noteq> []" "CHR '':'' \<notin> set (hex_group g)"
  "CHR '']'' \<notin> set (hex_group g)"
  using to_hex_facts by blast+

lemma no_empty_group: "[] \<notin> hex_group ` A"
proof
  assume "[] \<in> hex_group ` A"
  then obtain g where "[] = hex_group g" by (rule imageE)
  then show False using hex_group_facts(2) [of g] by simp
qed

lemma read_groups_plain:
  assumes "gs \<noteq> []"
  shows "read_groups (join_with (CHR '':'') (map hex_group gs)) = map (\<lambda>g. unat (byteswapOnLittleEndian g)) gs"
proof -
  have "split_on (CHR '':'') (join_with (CHR '':'') (map hex_group gs)) = map hex_group gs"
    by (rule split_on_join) (use assms hex_group_facts in auto)
  then show ?thesis by (simp add: read_groups_def no_empty_group hex_group_facts(1))
qed

lemma read_groups_zeros:
  "read_groups (join_with (CHR '':'') (map hex_group pre) @ ''::'' @ join_with (CHR '':'') (map hex_group post))
    = map (\<lambda>g. unat (byteswapOnLittleEndian g)) pre @ replicate (8 - (length pre + length post)) 0
      @ map (\<lambda>g. unat (byteswapOnLittleEndian g)) post"
proof -
  let ?c = "CHR '':''" and ?pre = "map hex_group pre" and ?post = "map hex_group post"
  have post: "split_on ?c (join_with ?c ?post) = (if post = [] then [[]] else ?post)"
    using split_on_join [of ?post ?c] hex_group_facts by auto
  have "split_on ?c (join_with ?c ?pre @ ''::'' @ join_with ?c ?post)
      = (if pre = [] then [[]] else ?pre) @ [] # (if post = [] then [[]] else ?post)"
    using split_on_join_at [of ?pre ?c "?c # join_with ?c ?post"] hex_group_facts post by auto
  moreover have "takeWhile (\<lambda>p. p \<noteq> []) (?pre @ [] # xs) = ?pre" "dropWhile (\<lambda>p. p \<noteq> []) (?pre @ [] # xs) = [] # xs" for xs
    using hex_group_facts by (simp_all add: takeWhile_append dropWhile_append)
  moreover have "filter (\<lambda>p. p \<noteq> []) ?post = ?post" using hex_group_facts by (simp add: filter_id_conv)
  ultimately show ?thesis
    using hex_group_facts by (cases "pre = []"; cases "post = []") (simp_all add: read_groups_def)
qed

text \<open>The text between the brackets.\<close>

definition ipv6_body :: "16 word list \<Rightarrow> string" where
  "ipv6_body addr = (let (used_zeros, os) = ipv6_loop addr [0..<8] False [] in
     if \<not> used_zeros \<and> addr ! 7 = 0 then os @ ''::'' else os)"

lemma ipv6_loop_prefix: "ipv6_loop addr is u (p @ os) = (let (u1, os1) = ipv6_loop addr is u os in (u1, p @ os1))"
  by (induction "is" arbitrary: u os) (simp_all add: Let_def split_beta)

lemma IPv6_insert_body:
  "IPv6_insert s = ''['' @ ipv6_body (groups (s6_addr s)) @ '']:'' @ to_string (IPv6_getPort s)"
  using ipv6_loop_prefix [of "groups (s6_addr s)" "[0..<8]" False "''[''" "[]"]
  by (simp add: IPv6_insert_def ipv6_body_def IPv6_getPort_def split_beta Let_def)

lemma map_nth_range: "e \<le> length xs \<Longrightarrow> map (\<lambda>i. f (xs ! i)) [a..<e] = map f (take (e - a) (drop a xs))"
  by (rule nth_equalityI) auto

lemma ipv6_body_groups:
  assumes len: "length addr = 8"
  shows "(\<exists>pre post. ipv6_body addr = join_with (CHR '':'') (map hex_group pre) @ ''::'' @ join_with (CHR '':'') (map hex_group post)
      \<and> addr = pre @ replicate (8 - (length pre + length post)) 0 @ post)
    \<or> ipv6_body addr = join_with (CHR '':'') (map hex_group addr)"
proof (cases "0 \<in> set addr")
  case False
  then have nz: "\<forall>i < 8. addr ! i \<noteq> 0" using len by (metis nth_mem)
  with ipv6_loop_nonzero [of 8 addr "[]"] map_nth_range [of 8 addr hex_group 0] len show ?thesis
    by (simp add: ipv6_body_def)
next
  case True
  obtain z e where ze: "z < e" "e \<le> 8" "\<forall>i < z. addr ! i \<noteq> 0" "\<forall>i. z \<le> i \<and> i < e \<longrightarrow> addr ! i = 0"
    "e = 8 \<or> addr ! e \<noteq> 0"
    using first_zeros [OF True] len by metis
  let ?J = "\<lambda>gs. join_with (CHR '':'') (map hex_group gs)"
  have "[0..<8] = [0..<e] @ [e..<8]" "[0..<e] = [0..<z] @ [z..<e]"
    using upt_add_eq_append [of 0 e "8 - e"] upt_add_eq_append [of 0 z "e - z"] ze(1,2) by simp_all
  then have "[0..<8] = [0..<z] @ [z..<e] @ [e..<8]" by (simp only: append_assoc)
  then have loop: "ipv6_loop addr [0..<8] False [] = ipv6_loop addr [e..<8] False (?J (take z addr))"
    using ipv6_loop_nonzero [OF ze(3), of "[]"] ipv6_loop_zeros [of "[z..<e]" addr] ze len map_nth_range [of z addr hex_group 0]
    by (simp add: ipv6_loop_append)
  have "drop z (take e addr) = replicate (e - z) 0"
    using ze(1,2,4) len by (intro nth_equalityI) auto
  moreover have "addr = take z addr @ drop z (take e addr) @ drop e addr"
  proof -
    have "take e addr = take z addr @ drop z (take e addr)"
      using append_take_drop_id [of z "take e addr"] ze(1) by (simp add: min_def)
    then show ?thesis using append_take_drop_id [of e addr] by (metis append_assoc)
  qed
  moreover have "8 - (length (take z addr) + length (drop e addr)) = e - z" using ze(1,2) len by simp
  ultimately have addr: "addr = take z addr @ replicate (8 - (length (take z addr) + length (drop e addr))) 0 @ drop e addr"
    by simp
  have "ipv6_body addr = ?J (take z addr) @ ''::'' @ ?J (drop e addr)"
  proof (cases "e = 8")
    case True
    then have "addr ! 7 = 0" using ze(1,4) by auto
    with loop True len show ?thesis by (simp add: ipv6_body_def)
  next
    case False
    then have e: "e < 8" "addr ! e \<noteq> 0" "addr ! (e - 1) = 0" "0 < e" using ze by auto
    have "[e..<8] = e # [Suc e..<8]" using e(1) by (rule upt_conv_Cons)
    then have "ipv6_loop addr [e..<8] False os
        = ipv6_loop addr [Suc e..<8] True (os @ ''::'' @ hex_group (addr ! e))" for os
      using e by (simp add: Let_def)
    moreover have "ipv6_loop addr [Suc e..<8] True os
        = (True, os @ concat (map (\<lambda>g. CHR '':'' # hex_group g) (drop (Suc e) addr)))" for os
    proof -
      have "map (\<lambda>i. CHR '':'' # hex_group (addr ! i)) [Suc e..<8] = map (\<lambda>g. CHR '':'' # hex_group g) (drop (Suc e) addr)"
        using map_nth_range [of 8 addr "\<lambda>g. CHR '':'' # hex_group g" "Suc e"] len by simp
      then show ?thesis using ipv6_loop_used [of "[Suc e..<8]" addr os] by simp
    qed
    moreover have "drop e addr = addr ! e # drop (Suc e) addr" using e(1) len by (simp add: Cons_nth_drop_Suc)
    moreover have "?J (g # gs) = hex_group g @ concat (map (\<lambda>g. CHR '':'' # hex_group g) gs)" for g gs
      using concat_join [of gs "CHR '':''" hex_group] by (cases "gs = []") (auto simp: neq_Nil_conv)
    ultimately have "ipv6_loop addr [e..<8] False os = (True, os @ ''::'' @ ?J (drop e addr))" for os
      by simp
    with loop show ?thesis by (simp add: ipv6_body_def)
  qed
  with addr show ?thesis by blast
qed

lemma join_with_no: "d \<noteq> c \<Longrightarrow> \<forall>x \<in> set xs. d \<notin> set x \<Longrightarrow> d \<notin> set (join_with c xs)"
  by (induction c xs rule: join_with.induct) auto

lemma body_no_bracket: "length addr = 8 \<Longrightarrow> CHR '']'' \<notin> set (ipv6_body addr)"
proof -
  have j: "CHR '']'' \<notin> set (join_with (CHR '':'') (map hex_group gs))" for gs
    using hex_group_facts(4) by (intro join_with_no) auto
  show "length addr = 8 \<Longrightarrow> CHR '']'' \<notin> set (ipv6_body addr)"
    using ipv6_body_groups [of addr] j by auto
qed

lemma read_groups_body:
  assumes "length addr = 8"
  shows "read_groups (ipv6_body addr) = map (\<lambda>g. unat (byteswapOnLittleEndian g)) addr"
  using ipv6_body_groups [OF assms]
proof (elim disjE exE conjE)
  fix pre post
  assume b: "ipv6_body addr = join_with (CHR '':'') (map hex_group pre) @ ''::'' @ join_with (CHR '':'') (map hex_group post)"
    and a: "addr = pre @ replicate (8 - (length pre + length post)) 0 @ post"
  have "byteswap (0 :: 16 word) = 0" by (rule bit_word_eqI) (simp add: bit_byteswap [of 2])
  then have "map (\<lambda>g. unat (byteswapOnLittleEndian g)) (pre @ replicate (8 - (length pre + length post)) 0 @ post)
      = read_groups (ipv6_body addr)"
    unfolding b read_groups_zeros by (simp add: byteswapOnLittleEndian_def)
  with a show ?thesis by simp
next
  assume "ipv6_body addr = join_with (CHR '':'') (map hex_group addr)"
  moreover have "addr \<noteq> []" using assms by auto
  then have "read_groups (join_with (CHR '':'') (map hex_group addr)) = map (\<lambda>g. unat (byteswapOnLittleEndian g)) addr"
    by (rule read_groups_plain)
  ultimately show ?thesis by (simp only:)
qed

lemma groups_inj:
  assumes "length as = 16" and "length bs = 16" and g: "groups as = groups bs"
  shows "as = bs"
proof (rule nth_equalityI)
  show "length as = length bs" using assms by simp
  fix i assume "i < length as"
  then have i: "i div 2 < 8" "i = 2 * (i div 2) + i mod 2" "i mod 2 < 2" using assms(1) by auto
  have len: "length (take 2 (drop (2 * (i div 2)) xs)) = 2" if "length xs = 16" for xs :: "byte list"
    using that i by simp
  have "groups as ! (i div 2) = groups bs ! (i div 2)" by (simp add: g)
  then have "(le_word (take 2 (drop (2 * (i div 2)) as)) :: 16 word) = le_word (take 2 (drop (2 * (i div 2)) bs))"
    using i(1) by (simp add: groups_def)
  then have "le_bytes 2 (le_word (take 2 (drop (2 * (i div 2)) as)) :: 16 word) = le_bytes 2 (le_word (take 2 (drop (2 * (i div 2)) bs)) :: 16 word)"
    by simp
  then have "take 2 (drop (2 * (i div 2)) as) = take 2 (drop (2 * (i div 2)) bs)"
    using le_bytes_word [of "take 2 (drop (2 * (i div 2)) as)", where 'a = 16]
      le_bytes_word [of "take 2 (drop (2 * (i div 2)) bs)", where 'a = 16] len assms(1,2) by simp
  then have "take 2 (drop (2 * (i div 2)) as) ! (i mod 2) = take 2 (drop (2 * (i div 2)) bs) ! (i mod 2)" by simp
  then show "as ! i = bs ! i" using i assms(1,2) by simp
qed

text \<open>C32: The text of an IPv6 address can be read back by the rules of the standard, whatever zeros
  are left out, and the text of an IPv4 address too: reading gives the groups (the bytes) and the port. Hence
  different addresses have different texts.\<close>

theorem address_text_round_trip:
  assumes len: "length (s6_addr s) = 16" "length (s6_addr s') = 16"
  shows "read_ipv6 (IPv6_insert s) = (map (\<lambda>g. unat (byteswapOnLittleEndian g)) (groups (s6_addr s)), IPv6_getPort s)
    \<and> (IPv6_insert s = IPv6_insert s' \<longrightarrow> s6_addr s = s6_addr s' \<and> sin6_port s = sin6_port s')
    \<and> read_ipv4 (IPv4_insert s4) = (map (\<lambda>i. unat (drop_bit i (byteswapOnLittleEndian (sin_addr s4)) AND 0xff)) [24, 16, 8, 0], IPv4_getPort s4)"
proof -
  have r6: "read_ipv6 (IPv6_insert s) = (map (\<lambda>g. unat (byteswapOnLittleEndian g)) (groups (s6_addr s)), IPv6_getPort s)" for s
  proof -
    let ?b = "ipv6_body (groups (s6_addr s))"
    have l: "length (groups (s6_addr s)) = 8" by (simp add: groups_def)
    have t: "IPv6_insert s = CHR ''['' # ?b @ CHR '']'' # CHR '':'' # to_string (IPv6_getPort s)" by (simp add: IPv6_insert_body)
    have "takeWhile (\<lambda>c. c \<noteq> CHR '']'') (tl (IPv6_insert s)) = ?b"
      unfolding t by (simp add: takeWhile_tail(1) body_no_bracket [OF l])
    moreover have "drop (length ?b + 3) (IPv6_insert s) = to_string (IPv6_getPort s)"
      unfolding t by (simp add: eval_nat_numeral)
    ultimately show ?thesis by (simp add: read_ipv6_def read_groups_body [OF l] atoi_to_string)
  qed
  have inj: "s6_addr s = s6_addr s' \<and> sin6_port s = sin6_port s'" if e: "IPv6_insert s = IPv6_insert s'"
  proof -
    have tw: "byteswap (byteswap v) = v" for v :: "16 word" by (rule byteswap_twice [of 2]) simp
    have swap: "unat (byteswapOnLittleEndian v) = unat (byteswapOnLittleEndian w) \<longleftrightarrow> v = w" for v w :: "16 word"
      by (metis byteswapOnLittleEndian_def tw unsigned_word_eqI)
    have "map (\<lambda>g. unat (byteswapOnLittleEndian g)) (groups (s6_addr s)) = map (\<lambda>g. unat (byteswapOnLittleEndian g)) (groups (s6_addr s'))"
      and p: "IPv6_getPort s = IPv6_getPort s'"
      using r6 [of s] r6 [of s'] e by simp_all
    then have "groups (s6_addr s) = groups (s6_addr s')" using swap by (auto intro!: nth_equalityI simp: list_eq_iff_nth_eq)
    with groups_inj [OF len] p swap show ?thesis by (simp add: IPv6_getPort_def)
  qed
  have r4: "read_ipv4 (IPv4_insert s4) = (map (\<lambda>i. unat (drop_bit i (byteswapOnLittleEndian (sin_addr s4)) AND 0xff)) [24, 16, 8, 0], IPv4_getPort s4)"
  proof -
    let ?ns = "map (\<lambda>i. to_string (unat (drop_bit i (byteswapOnLittleEndian (sin_addr s4)) AND 0xff))) [24, 16, 8, 0]"
    have dots: "CHR ''.'' \<notin> set (to_string n)" "CHR '':'' \<notin> set (to_string n)" for n
      by (rule to_string_no; simp add: isdigit_def)+
    have t: "IPv4_insert s4 = join_with (CHR ''.'') ?ns @ CHR '':'' # to_string (IPv4_getPort s4)"
      by (simp add: IPv4_insert_def IPv4_getPort_def Let_def)
    have c: "CHR '':'' \<notin> set (join_with (CHR ''.'') ?ns)" by (rule join_with_no) (simp_all add: dots)
    have "split_on (CHR ''.'') (join_with (CHR ''.'') ?ns) = ?ns" by (rule split_on_join) (simp_all add: dots)
    then show ?thesis
      unfolding read_ipv4_def t takeWhile_tail(1) [OF c] takeWhile_tail(2) [OF c] by (simp add: atoi_to_string)
  qed
  show ?thesis using r6 inj r4 by blast
qed

theorem address_text_round_trip_witness:
  "read_ipv6 (IPv6_insert (IPv6_new (replicate 14 0 @ [0, 1]) 80)) = ([0, 0, 0, 0, 0, 0, 0, 1], 80)"
proof -
  let ?s = "IPv6_new (replicate 14 0 @ [0, 1]) 80"
  have l: "length (s6_addr ?s) = 16" by (simp add: IPv6_new_def)
  have "byteswap (byteswap (80 :: 16 word)) = 80" by (rule byteswap_twice [of 2]) simp
  then have "IPv6_getPort ?s = 80" by (simp add: IPv6_getPort_def IPv6_new_def byteswapOnLittleEndian_def)
  moreover have "map (\<lambda>g. unat (byteswapOnLittleEndian g)) (groups (s6_addr ?s)) = [0, 0, 0, 0, 0, 0, 0, 1]"
    by code_simp
  ultimately show ?thesis using address_text_round_trip [OF l l] by simp
qed

section \<open>Names of hosts, and paths\<close>

lemma memchr_at: "c \<notin> set a \<Longrightarrow> memchr c (a @ c # b) = Some (length a)"
  by (simp add: memchr_def takeWhile_tail(1))

lemma memchr_none: "memchr c s = None \<longleftrightarrow> c \<notin> set s"
proof -
  have "length (takeWhile (\<lambda>x. x \<noteq> c) s) < length s \<longleftrightarrow> c \<in> set s"
    by (induction s) auto
  then show ?thesis by (auto simp: memchr_def Let_def)
qed

lemma nul_char: "(of_char c :: nat) = 0 \<longleftrightarrow> c = CHR 0x00"
proof -
  have "(of_char (CHR 0x00) :: nat) = 0" by simp
  then show ?thesis using of_char_eq_iff [of c "CHR 0x00", where 'a = nat] by (simp only:)
qed

lemma c_str_plain: "CHR 0x00 \<notin> set s \<Longrightarrow> c_str s = s"
  unfolding c_str_def nul_char by (induction s) auto

text \<open>A host with a port, an IPv6 address in brackets with or without a port and a name without
  colons are taken apart as expected. But for a host with several colons, such as a plain IPv6
  address, the service that is looked up is the text from the first colon on.\<close>

theorem hosts_taken_apart:
  assumes nul: "CHR 0x00 \<notin> set node" "CHR 0x00 \<notin> set port" and node: "node \<noteq> []"
  shows "(CHR '']'' \<notin> set node \<longrightarrow> split_host (''['' @ node @ '']:'' @ port) = (node, Some port)
      \<and> split_host (''['' @ node @ '']'') = (node, None))
    \<and> (hd node \<noteq> CHR ''['' \<and> CHR '':'' \<notin> set node \<longrightarrow>
        split_host node = (node, None)
      \<and> (CHR '':'' \<notin> set port \<longrightarrow> split_host (node @ '':'' @ port) = (node, Some port))
      \<and> (CHR '':'' \<in> set port \<longrightarrow> split_host (node @ '':'' @ port) = (node @ '':'' @ port, Some ('':'' @ port))))"
proof -
  have c: "c_str node = node" "c_str port = port" "c_str (node @ CHR '':'' # port) = node @ CHR '':'' # port"
    "c_str (CHR '':'' # port) = CHR '':'' # port"
    using nul by (simp_all add: c_str_plain)
  have bracket: "split_host (''['' @ node @ '']:'' @ port) = (node, Some port)" "split_host (''['' @ node @ '']'') = (node, None)"
    if "CHR '']'' \<notin> set node"
    using memchr_at [OF that, of "'':'' @ port"] memchr_at [OF that, of "[]"] node c
    by (simp_all add: split_host_def)
  have plain: "split_host node = (node, None)" if "hd node \<noteq> CHR ''['' \<and> CHR '':'' \<notin> set node"
  proof -
    have "memchr (CHR '':'') node = None" using that by (simp add: memchr_none)
    with that node c show ?thesis by (simp add: split_host_def)
  qed
  have port: "split_host (node @ '':'' @ port)
      = (if CHR '':'' \<in> set port then (node @ '':'' @ port, Some ('':'' @ port)) else (node, Some port))"
    if "hd node \<noteq> CHR ''['' \<and> CHR '':'' \<notin> set node"
  proof -
    have "memchr (CHR '':'') (node @ CHR '':'' # port) = Some (length node)" by (rule memchr_at) (use that in simp)
    moreover have "memchr (CHR '':'') port = None \<longleftrightarrow> CHR '':'' \<notin> set port" by (rule memchr_none)
    ultimately show ?thesis using that node c by (auto simp: split_host_def)
  qed
  show ?thesis using bracket plain port by simp
qed

theorem hosts_taken_apart_witness:
  "split_host ''fe80::1'' = (''fe80::1'', Some ''::1'') \<and> split_host ''[::1]:80'' = (''::1'', Some ''80'')"
  using hosts_taken_apart [of "''fe80''" "'':1''"] hosts_taken_apart [of "''::1''" "''80''"] by simp

text \<open>The path of a local socket is found again, and a name of the abstract namespace behind two
  characters for its null byte; longer ones are refused.\<close>

lemma unat_of_char_byte: "unat (of_char c :: byte) = of_char c"
proof -
  have "(of_char c :: byte) = of_nat (of_char c)" by (simp add: of_nat_of_char)
  moreover have "(of_char c :: nat) < 256" using of_char_bound by simp
  ultimately show ?thesis by (simp add: unat_of_nat)
qed

lemma of_char_byte_0: "(of_char c :: byte) = 0 \<longleftrightarrow> c = CHR 0x00"
proof -
  have "(of_char c :: byte) = 0 \<longleftrightarrow> (of_char c :: nat) = 0" 
    unfolding unat_of_char_byte [symmetric] by (simp add: unat_eq_zero)
  also have "\<dots> \<longleftrightarrow> c = CHR 0x00" by (rule nul_char)
  finally show ?thesis .
qed

lemma chars_of_bytes: "chars_of (bytes_of s) = s"
  by (simp add: chars_of_def bytes_of_def comp_def unat_of_char_byte)

theorem unix_path_round_trip:
  assumes nul: "CHR 0x00 \<notin> set p"
  shows "(p \<noteq> [] \<and> length p \<le> 107 \<longrightarrow> (\<exists>s. Unix_new p = Inr s \<and> well_formed (UnixAddress s) \<and> Unix_getPath s = Inr p))
    \<and> (length p \<le> 107 \<longrightarrow> (\<exists>s. Unix_new (CHR 0x00 # p) = Inr s \<and> well_formed (UnixAddress s)
        \<and> Unix_getPath s = Inr ([CHR 92, CHR ''0''] @ p)))
    \<and> (107 < length p \<longrightarrow> Unix_new p = Inl PathTooLong \<and> Unix_new (CHR 0x00 # p) = Inl PathTooLong)"
proof (intro conjI impI)
  have nz: "\<forall>b \<in> set (bytes_of p). b \<noteq> 0" using nul by (auto simp: bytes_of_def of_char_byte_0)
  have l: "length (bytes_of p) = length p" by (simp add: bytes_of_def)
  {
    assume p: "p \<noteq> [] \<and> length p \<le> 107"
    then have hd: "(of_char (p ! 0) :: byte) \<noteq> 0" "bytes_of p ! 0 \<noteq> 0" using nz l by (auto simp: bytes_of_def)
    let ?s = "\<lparr>sun_path = bytes_of p @ 0 # replicate (107 - length p) 0, un_length = length p + 3\<rparr>"
    have "Unix_new p = Inr ?s" using p hd(1) l by (simp add: Unix_new_def)
    moreover have "well_formed (UnixAddress ?s)" using p l by (simp add: well_formed_def)
    moreover have "takeWhile (\<lambda>b. b \<noteq> 0) (bytes_of p @ 0 # xs) = bytes_of p" for xs
      by (rule takeWhile_tail(1) [where x = 0, unfolded]) (use nz in auto)
    then have "Unix_getPath ?s = Inr p"
      using hd(2) p l by (simp add: Unix_getPath_def nth_append chars_of_bytes)
    ultimately show "\<exists>s. Unix_new p = Inr s \<and> well_formed (UnixAddress s) \<and> Unix_getPath s = Inr p" by blast
  }
  {
    assume p: "length p \<le> 107"
    let ?s = "\<lparr>sun_path = 0 # bytes_of p @ replicate (107 - length p) 0, un_length = length p + 3\<rparr>"
    have z: "(of_char (CHR 0x00) :: byte) = 0" by simp
    have "Unix_new (CHR 0x00 # p) = Inr ?s" using p l z by (simp add: Unix_new_def bytes_of_def)
    moreover have "well_formed (UnixAddress ?s)" using p l by (simp add: well_formed_def)
    moreover have "Unix_getPath ?s = Inr ([CHR 92, CHR ''0''] @ p)"
      using p l by (simp add: Unix_getPath_def read_mem_def chars_of_bytes)
    ultimately show "\<exists>s. Unix_new (CHR 0x00 # p) = Inr s \<and> well_formed (UnixAddress s)
        \<and> Unix_getPath s = Inr ([CHR 92, CHR ''0''] @ p)" by blast
  }
  assume p: "107 < length p"
  then have "(of_char (p ! 0) :: byte) \<noteq> 0" using nz l by (cases p) (auto simp: bytes_of_def)
  with p show "Unix_new p = Inl PathTooLong" by (simp add: Unix_new_def)
  show "Unix_new (CHR 0x00 # p) = Inl PathTooLong" using p by (simp add: Unix_new_def)
qed

end
