(* ===== verification/LogFormat.thy ===== *)
theory LogFormat
  imports StringUtil
begin

text \<open>
  Levels, events and the patterns of the log (\<open>src/sylar/log.cc\<close>, \<open>log.h\<close>): \<open>LogFormatter::init\<close> takes a
  pattern apart into items, and \<open>format\<close> writes an event with them. The date is written by
  \<open>strftime\<close>, a parameter. A position in the pattern is what is left of it.
\<close>

section \<open>Levels\<close>

datatype Level = UNKNOW | DEBUG | INFO | WARN | ERROR | FATAL

fun level_value :: "Level \<Rightarrow> nat" where
  "level_value UNKNOW = 0"
| "level_value DEBUG = 1"
| "level_value INFO = 2"
| "level_value WARN = 3"
| "level_value ERROR = 4"
| "level_value FATAL = 5"

instantiation Level :: linorder
begin

definition less_eq_Level :: "Level \<Rightarrow> Level \<Rightarrow> bool" where
  "less_eq_Level a b \<longleftrightarrow> level_value a \<le> level_value b"

definition less_Level :: "Level \<Rightarrow> Level \<Rightarrow> bool" where
  "less_Level a b \<longleftrightarrow> level_value a < level_value b"

instance
proof
  fix a b :: Level
  show "a \<le> b \<Longrightarrow> b \<le> a \<Longrightarrow> a = b" by (cases a; cases b) (simp_all add: less_eq_Level_def)
qed (auto simp: less_eq_Level_def less_Level_def)

end

definition Level_ToString :: "Level \<Rightarrow> string" where
  "Level_ToString level =
     (case level of DEBUG \<Rightarrow> ''DEBUG'' | INFO \<Rightarrow> ''INFO'' | WARN \<Rightarrow> ''WARN'' | ERROR \<Rightarrow> ''ERROR'' | FATAL \<Rightarrow> ''FATAL''
      | UNKNOW \<Rightarrow> ''UNKNOW'')"

definition Level_FromString :: "string \<Rightarrow> Level" where
  "Level_FromString str =
     (if str = ''debug'' then DEBUG
      else if str = ''info'' then INFO
      else if str = ''warn'' then WARN
      else if str = ''error'' then ERROR
      else if str = ''fatal'' then FATAL
      else if str = ''DEBUG'' then DEBUG
      else if str = ''INFO'' then INFO
      else if str = ''WARN'' then WARN
      else if str = ''ERROR'' then ERROR
      else if str = ''FATAL'' then FATAL
      else UNKNOW)"

section \<open>Events\<close>

text \<open>An event; \<open>e_logger\<close> is the address of its logger.\<close>

record LogEvent =
  e_file :: string
  e_line :: int
  e_elapse :: nat
  e_threadId :: nat
  e_fiberId :: nat
  e_time :: nat
  e_threadName :: string
  e_content :: string
  e_logger :: nat
  e_level :: Level

text \<open>\<open>LogEvent::format\<close>; \<open>printed\<close> is what \<open>vasprintf\<close> makes of its arguments, \<open>None\<close> if it fails.\<close>

definition event_format :: "string option \<Rightarrow> LogEvent \<Rightarrow> LogEvent" where
  "event_format printed ev = (case printed of None \<Rightarrow> ev | Some s \<Rightarrow> ev\<lparr>e_content := e_content ev @ s\<rparr>)"

section \<open>Patterns\<close>

datatype FormatItem =
    MessageFormatItem | LevelFormatItem | ElapseFormatItem | NameFormatItem | ThreadIdFormatItem
  | NewLineFormatItem | DateTimeFormatItem string | FilenameFormatItem | LineFormatItem
  | TabFormatItem | FiberIdFormatItem | ThreadNameFormatItem | StringFormatItem string

record LogFormatter =
  m_pattern :: string
  m_items :: "FormatItem list"
  m_error :: bool

definition isalpha :: "char \<Rightarrow> bool" where
  "isalpha c \<longleftrightarrow> (let n = of_char c :: nat in 65 \<le> n \<and> n \<le> 90 \<or> 97 \<le> n \<and> n \<le> 122)"

text \<open>
  The inner loop, behind a percent sign: \<open>in_fmt\<close> is \<open>fmt_status\<close>, \<open>acc\<close> the text since the sign,
  \<open>facc\<close> that since the brace. The result is \<open>str\<close>, \<open>fmt\<close>, \<open>fmt_status\<close> and the rest of the pattern.
\<close>

fun scan_item :: "bool \<Rightarrow> string \<Rightarrow> string \<Rightarrow> string \<Rightarrow> string \<Rightarrow> string \<times> string \<times> bool \<times> string" where
  "scan_item in_fmt acc facc str [] = (str, [], in_fmt, [])"
| "scan_item in_fmt acc facc str (c # cs) =
     (if \<not> in_fmt \<and> \<not> isalpha c \<and> c \<noteq> CHR ''{'' \<and> c \<noteq> CHR ''}'' then (acc, [], False, c # cs)
      else if \<not> in_fmt \<and> c = CHR ''{'' then scan_item True acc [] acc cs
      else if in_fmt \<and> c = CHR ''}'' then (str, facc, False, cs)
      else if cs = [] then (if str = [] then acc @ [c] else str, [], in_fmt, [])
      else scan_item in_fmt (acc @ [c]) (facc @ [c]) str cs)"

lemma scan_item_length: "scan_item b acc facc str cs = (s, f, e, rest) \<Longrightarrow> length rest \<le> length cs"
  by (induction b acc facc str cs rule: scan_item.induct) (force split: if_splits)+

text \<open>The outer loop: literal text so far, the entries (text, format, kind), \<open>m_error\<close>, and the rest.\<close>

function init_loop :: "string \<Rightarrow> (string \<times> string \<times> nat) list \<Rightarrow> bool \<Rightarrow> string \<Rightarrow> string \<times> (string \<times> string \<times> nat) list \<times> bool" where
  "init_loop nstr vec err [] = (nstr, vec, err)"
| "init_loop nstr vec err (c # cs) =
     (if c \<noteq> CHR ''%'' then init_loop (nstr @ [c]) vec err cs
      else if cs \<noteq> [] \<and> hd cs = CHR ''%'' then init_loop (nstr @ ''%'') vec err cs
      else
        case scan_item False [] [] [] cs of (str, fmt, fmt_status, rest) \<Rightarrow>
          if \<not> fmt_status then
            init_loop [] (vec @ (if nstr \<noteq> [] then [(nstr, [], 0)] else []) @ [(str, fmt, 1)]) err rest
          else init_loop nstr (vec @ [(''<<pattern_error>>'', fmt, 0)]) True cs)"
  by pat_completeness auto

termination
  by (relation "measure (\<lambda>(_, _, _, rest). length rest)") (auto dest!: scan_item_length [OF sym])

text \<open>The table of items.\<close>

definition format_item_for :: "string \<Rightarrow> string \<Rightarrow> FormatItem option" where
  "format_item_for str fmt =
     (if str = ''m'' then Some MessageFormatItem
      else if str = ''p'' then Some LevelFormatItem
      else if str = ''r'' then Some ElapseFormatItem
      else if str = ''c'' then Some NameFormatItem
      else if str = ''t'' then Some ThreadIdFormatItem
      else if str = ''n'' then Some NewLineFormatItem
      else if str = ''d'' then Some (DateTimeFormatItem (if fmt = [] then ''%Y-%m-%d %H:%M:%S'' else fmt))
      else if str = ''f'' then Some FilenameFormatItem
      else if str = ''l'' then Some LineFormatItem
      else if str = ''T'' then Some TabFormatItem
      else if str = ''F'' then Some FiberIdFormatItem
      else if str = ''N'' then Some ThreadNameFormatItem
      else None)"

fun make_items :: "(string \<times> string \<times> nat) list \<Rightarrow> bool \<Rightarrow> FormatItem list \<times> bool" where
  "make_items [] err = ([], err)"
| "make_items ((str, fmt, kind) # vec) err =
     (let (item, e) =
           (if kind = 0 then (StringFormatItem str, err)
            else case format_item_for str fmt of
                None \<Rightarrow> (StringFormatItem (''<<error_format %'' @ str @ ''>>''), True)
              | Some i \<Rightarrow> (i, err));
          (items, e') = make_items vec e
      in (item # items, e'))"

definition LogFormatter_new :: "string \<Rightarrow> LogFormatter" where
  "LogFormatter_new pattern =
     (let (nstr, vec, err) = init_loop [] [] False pattern;
          (items, e) = make_items (vec @ (if nstr \<noteq> [] then [(nstr, [], 0)] else [])) err
      in \<lparr>m_pattern = pattern, m_items = items, m_error = e\<rparr>)"

section \<open>Writing an event\<close>

text \<open>\<open>strf\<close> is \<open>strftime\<close> in local time, in 64 bytes; \<open>name\<close> is the name of the event's logger.\<close>

definition item_format :: "(string \<Rightarrow> nat \<Rightarrow> string) \<Rightarrow> string \<Rightarrow> Level \<Rightarrow> LogEvent \<Rightarrow> FormatItem \<Rightarrow> string" where
  "item_format strf name level ev item =
     (case item of
        MessageFormatItem \<Rightarrow> e_content ev
      | LevelFormatItem \<Rightarrow> Level_ToString level
      | ElapseFormatItem \<Rightarrow> to_string (e_elapse ev)
      | NameFormatItem \<Rightarrow> name
      | ThreadIdFormatItem \<Rightarrow> to_string (e_threadId ev)
      | FiberIdFormatItem \<Rightarrow> to_string (e_fiberId ev)
      | ThreadNameFormatItem \<Rightarrow> e_threadName ev
      | DateTimeFormatItem fmt \<Rightarrow> strf fmt (e_time ev)
      | FilenameFormatItem \<Rightarrow> e_file ev
      | LineFormatItem \<Rightarrow> (if e_line ev < 0 then ''-'' @ to_string (nat (- e_line ev)) else to_string (nat (e_line ev)))
      | NewLineFormatItem \<Rightarrow> [CHR 0x0A]
      | StringFormatItem s \<Rightarrow> s
      | TabFormatItem \<Rightarrow> [CHR 0x09])"

definition format_event :: "(string \<Rightarrow> nat \<Rightarrow> string) \<Rightarrow> string \<Rightarrow> Level \<Rightarrow> LogEvent \<Rightarrow> LogFormatter \<Rightarrow> string" where
  "format_event strf name level ev f = concat (map (item_format strf name level ev) (m_items f))"

end
