(* ===== verification/LogFormatProps.thy ===== *)
theory LogFormatProps
  imports LogFormat
begin

text \<open>
  What patterns mean: a pattern built from texts and items is taken apart into exactly those, while
  a doubled percent sign and a closing brace behind an item are not understood. Levels are read
  back as they are written.
\<close>

section \<open>Pieces\<close>

datatype piece = Text string | Item char | FormattedItem char string

fun piece_text :: "piece \<Rightarrow> string" where
  "piece_text (Text s) = s"
| "piece_text (Item c) = [CHR ''%'', c]"
| "piece_text (FormattedItem c f) = [CHR ''%'', c, CHR ''{''] @ f @ ''}''"

fun piece_item :: "piece \<Rightarrow> FormatItem" where
  "piece_item (Text s) = StringFormatItem s"
| "piece_item (Item c) = the (format_item_for [c] [])"
| "piece_item (FormattedItem c f) = the (format_item_for [c] f)"

fun piece_entry :: "piece \<Rightarrow> string \<times> string \<times> nat" where
  "piece_entry (Text s) = (s, [], 0)"
| "piece_entry (Item c) = ([c], [], 1)"
| "piece_entry (FormattedItem c f) = ([c], f, 1)"

definition item_letter :: "char \<Rightarrow> bool" where
  "item_letter c \<longleftrightarrow> c \<in> set ''mprctndflTFN''"

text \<open>What may follow an item without a format: nothing, an item, or a text that does not go on with a
  letter or a brace.\<close>

definition ends_item :: "string \<Rightarrow> bool" where
  "ends_item r \<longleftrightarrow> r = [] \<or> \<not> isalpha (hd r) \<and> hd r \<noteq> CHR ''{'' \<and> hd r \<noteq> CHR ''}''"

definition pieces_text :: "piece list \<Rightarrow> string" where
  "pieces_text ps = concat (map piece_text ps)"

fun is_text :: "piece \<Rightarrow> bool" where
  "is_text (Text _) = True"
| "is_text _ = False"

fun good_pieces :: "piece list \<Rightarrow> bool" where
  "good_pieces [] = True"
| "good_pieces (Text s # ps) = (s \<noteq> [] \<and> CHR ''%'' \<notin> set s \<and> (ps = [] \<or> \<not> is_text (hd ps)) \<and> good_pieces ps)"
| "good_pieces (Item c # ps) = (item_letter c \<and> ends_item (pieces_text ps) \<and> good_pieces ps)"
| "good_pieces (FormattedItem c f # ps) = (item_letter c \<and> CHR ''}'' \<notin> set f \<and> good_pieces ps)"

lemma item_letter_facts:
  assumes "item_letter c"
  shows "isalpha c" "c \<noteq> CHR ''%''" "c \<noteq> CHR ''{''" "c \<noteq> CHR ''}''" "\<exists>i. format_item_for [c] f = Some i"
proof -
  have "list_all (\<lambda>c. isalpha c \<and> c \<noteq> CHR ''%'' \<and> c \<noteq> CHR ''{'' \<and> c \<noteq> CHR ''}'') ''mprctndflTFN''" by code_simp
  with assms show "isalpha c" "c \<noteq> CHR ''%''" "c \<noteq> CHR ''{''" "c \<noteq> CHR ''}''"
    unfolding list_all_iff item_letter_def by blast+
  have "list_all (\<lambda>c. \<exists>i. format_item_for [c] f = Some i) ''mprctndflTFN''" by (simp add: format_item_for_def)
  with assms show "\<exists>i. format_item_for [c] f = Some i" unfolding list_all_iff item_letter_def by blast
qed

lemma scan_format:
  "CHR ''}'' \<notin> set f \<Longrightarrow> scan_item True acc facc str (f @ CHR ''}'' # rest) = (str, facc @ f, False, rest)"
  by (induction f arbitrary: acc facc) auto

lemma scan_letter:
  assumes "isalpha c" "c \<noteq> CHR ''{''" "c \<noteq> CHR ''}''"
  shows "ends_item r \<Longrightarrow> scan_item False [] [] [] (c # r) = ([c], [], False, r)"
    and "CHR ''}'' \<notin> set f \<Longrightarrow> scan_item False [] [] [] (c # CHR ''{'' # f @ CHR ''}'' # r) = ([c], f, False, r)"
  using assms by (cases r; simp add: ends_item_def) (simp add: scan_format assms)

lemma init_loop_text:
  "CHR ''%'' \<notin> set s \<Longrightarrow> init_loop nstr vec err (s @ r) = init_loop (nstr @ s) vec err r"
  by (induction s arbitrary: nstr) auto

abbreviation flushed :: "string \<Rightarrow> (string \<times> string \<times> nat) list" where
  "flushed nstr \<equiv> (if nstr \<noteq> [] then [(nstr, [], 0)] else [])"

lemma init_loop_pieces:
  "good_pieces ps \<Longrightarrow> nstr = [] \<or> ps = [] \<or> \<not> is_text (hd ps) \<Longrightarrow>
     \<exists>n v. init_loop nstr vec err (pieces_text ps) = (n, v, err) \<and> v @ flushed n = vec @ flushed nstr @ map piece_entry ps"
proof (induction ps arbitrary: nstr vec)
  case Nil
  then show ?case by (simp add: pieces_text_def)
next
  case (Cons p ps)
  show ?case
  proof (cases p)
    case (Text s)
    with Cons.prems have s: "nstr = []" "s \<noteq> []" "CHR ''%'' \<notin> set s" "ps = [] \<or> \<not> is_text (hd ps)" "good_pieces ps" by auto
    have "init_loop nstr vec err (pieces_text (p # ps)) = init_loop s vec err (pieces_text ps)"
      using s init_loop_text [OF s(3), of nstr vec err] by (simp add: Text pieces_text_def)
    with Cons.IH [OF s(5), of s vec] s show ?thesis by (simp add: Text)
  next
    case (Item c)
    with Cons.prems have c: "item_letter c" "ends_item (pieces_text ps)" "good_pieces ps" by auto
    note f = item_letter_facts [OF c(1)]
    have "init_loop nstr vec err (pieces_text (p # ps)) = init_loop [] (vec @ flushed nstr @ [([c], [], 1)]) err (pieces_text ps)"
      using f scan_letter(1) [OF _ _ _ c(2), of c] by (simp add: Item pieces_text_def)
    with Cons.IH [OF c(3), of "[]" "vec @ flushed nstr @ [([c], [], 1)]"] show ?thesis by (simp add: Item)
  next
    case (FormattedItem c g)
    with Cons.prems have c: "item_letter c" "CHR ''}'' \<notin> set g" "good_pieces ps" by auto
    note f = item_letter_facts [OF c(1)]
    have "init_loop nstr vec err (pieces_text (p # ps)) = init_loop [] (vec @ flushed nstr @ [([c], g, 1)]) err (pieces_text ps)"
      using f scan_letter(2) [OF _ _ _ c(2), of c] by (simp add: FormattedItem pieces_text_def)
    with Cons.IH [OF c(3), of "[]" "vec @ flushed nstr @ [([c], g, 1)]"] show ?thesis by (simp add: FormattedItem)
  qed
qed

lemma make_items_pieces: "good_pieces ps \<Longrightarrow> make_items (map piece_entry ps) err = (map piece_item ps, err)"
proof (induction ps rule: good_pieces.induct)
  case (3 c ps)
  moreover obtain i where "format_item_for [c] [] = Some i" using item_letter_facts(5) 3 by auto
  ultimately show ?case by simp
next
  case (4 c f ps)
  moreover obtain i where "format_item_for [c] f = Some i" using item_letter_facts(5) 4 by auto
  ultimately show ?case by simp
qed simp_all

section \<open>Properties\<close>

text \<open>C33: A pattern written as a sequence of texts, items and items with a format in braces is taken
  apart into exactly these, without an error, so that an event is written piece by piece: as long as
  texts are not empty, have no percent sign and do not follow each other, the letters of items are
  known ones, items without a format are not followed by a letter or an opening brace,
  and formats have no closing brace.\<close>

theorem pattern_round_trip:
  assumes "good_pieces ps"
  shows "LogFormatter_new (pieces_text ps) = \<lparr>m_pattern = pieces_text ps, m_items = map piece_item ps, m_error = False\<rparr>
    \<and> format_event strf name level ev (LogFormatter_new (pieces_text ps))
      = concat (map (\<lambda>p. item_format strf name level ev (piece_item p)) ps)"
proof -
  obtain n v where "init_loop [] [] False (pieces_text ps) = (n, v, False)" "v @ flushed n = map piece_entry ps"
    using init_loop_pieces [OF assms, of "[]" "[]" False] by auto
  then have "LogFormatter_new (pieces_text ps) = \<lparr>m_pattern = pieces_text ps, m_items = map piece_item ps, m_error = False\<rparr>"
    by (simp add: LogFormatter_new_def make_items_pieces [OF assms])
  then show ?thesis by (simp add: format_event_def comp_def)
qed

text \<open>The pattern every logger starts with.\<close>

definition default_pieces :: "piece list" where
  "default_pieces = [FormattedItem (CHR ''d'') ''%Y-%m-%d %H:%M:%S'', Item (CHR ''T''), Item (CHR ''t''), Item (CHR ''T''),
     Item (CHR ''N''), Text '':'', Item (CHR ''F''), Item (CHR ''T''), Text ''['', Item (CHR ''p''), Text '']'', Item (CHR ''T''),
     Text ''['', Item (CHR ''c''), Text '']'', Item (CHR ''T''), Item (CHR ''f''), Text '':'', Item (CHR ''l''), Item (CHR ''T''),
     Item (CHR ''m''), Item (CHR ''n'')]"

theorem pattern_round_trip_witness:
  "m_items (LogFormatter_new ''%d{%Y-%m-%d %H:%M:%S}%T%t%T%N:%F%T[%p]%T[%c]%T%f:%l%T%m%n'')
    = [DateTimeFormatItem ''%Y-%m-%d %H:%M:%S'', TabFormatItem, ThreadIdFormatItem, TabFormatItem, ThreadNameFormatItem,
       StringFormatItem '':'', FiberIdFormatItem, TabFormatItem, StringFormatItem ''['', LevelFormatItem, StringFormatItem '']'',
       TabFormatItem, StringFormatItem ''['', NameFormatItem, StringFormatItem '']'', TabFormatItem, FilenameFormatItem,
       StringFormatItem '':'', LineFormatItem, TabFormatItem, MessageFormatItem, NewLineFormatItem]"
proof -
  have "good_pieces default_pieces"
    by (simp add: default_pieces_def item_letter_def ends_item_def pieces_text_def isalpha_def)
  from pattern_round_trip [OF this] show ?thesis
    by (simp add: default_pieces_def pieces_text_def format_item_for_def)
qed

text \<open>A doubled percent sign, which a comment describes as a percent sign, also begins an item with
  its second half: at the end of a pattern the result is an error item, before a letter an item. A
  closing brace right behind an item becomes part of its name, and is an error.\<close>

theorem percent_and_brace_misread:
  assumes "CHR ''%'' \<notin> set s"
  shows "LogFormatter_new (s @ ''%%'') = \<lparr>m_pattern = s @ ''%%'',
      m_items = [StringFormatItem (s @ ''%''), StringFormatItem ''<<error_format %>>''], m_error = True\<rparr>
    \<and> (item_letter c \<longrightarrow> m_items (LogFormatter_new (s @ ''%%'' @ [c])) = [StringFormatItem (s @ ''%''), piece_item (Item c)])
    \<and> (item_letter c \<longrightarrow> m_error (LogFormatter_new (''%'' @ [c] @ ''}'')))"
proof -
  have "init_loop [] [] False (s @ ''%%'') = ([], [(s @ ''%'', [], 0), ([], [], 1)], False)"
    using init_loop_text [OF assms, of "[]" "[]" False "''%%''"] by simp
  moreover have "init_loop [] [] False (s @ ''%%'' @ [c]) = ([], [(s @ ''%'', [], 0), ([c], [], 1)], False)" if "item_letter c"
    using init_loop_text [OF assms, of "[]" "[]" False "''%%'' @ [c]"] item_letter_facts [OF that]
    by (simp add: scan_letter(1) ends_item_def)
  moreover have "init_loop [] [] False (''%'' @ [c] @ ''}'') = ([], [([c, CHR ''}''], [], 1)], False)" if "item_letter c"
    using item_letter_facts [OF that] by simp
  moreover have "format_item_for [] [] = None" "format_item_for [c, CHR ''}''] [] = None" by (simp_all add: format_item_for_def)
  moreover have "\<exists>i. format_item_for [c] [] = Some i" if "item_letter c" by (rule item_letter_facts(5) [OF that])
  ultimately show ?thesis by (auto simp: LogFormatter_new_def)
qed

theorem percent_and_brace_misread_witness:
  "m_error (LogFormatter_new ''100%%'') \<and> m_items (LogFormatter_new ''100%%n'') = [StringFormatItem ''100%'', NewLineFormatItem]"
proof -
  have "item_letter (CHR ''n'')" "CHR ''%'' \<notin> set ''100''" by (simp_all add: item_letter_def)
  with percent_and_brace_misread [of "''100''" "CHR ''n''"] show ?thesis by (simp add: format_item_for_def)
qed

lemma level_round_trip: "Level_FromString (Level_ToString l) = l"
  by (cases l) (simp_all add: Level_ToString_def Level_FromString_def)

end
