(* ===== verification/Log.thy ===== *)
theory Log
  imports LogFormat
begin

text \<open>
  Loggers, appenders and their configuration (\<open>src/sylar/log.cc\<close>, \<open>log.h\<close>). Loggers and appenders are
  objects on the heap, named by their addresses, which are given out in order; files are
  inodes found by name, so that a file can be replaced while a stream is open on it. Nodes of the
  YAML library are a datatype, its text is not modelled. Each operation holds the lock of its
  object, so it is one step.
\<close>

section \<open>Model\<close>

datatype appender_kind = StdoutLogAppender | FileLogAppender string

record LogAppender =
  ap_kind :: appender_kind
  ap_level :: Level
  ap_hasFormatter :: bool
  ap_formatter :: "LogFormatter option"
  ap_stream :: "nat option"
  ap_lastTime :: nat

record Logger =
  lg_name :: string
  lg_level :: Level
  lg_appenders :: "nat list"
  lg_formatter :: "LogFormatter option"
  lg_root :: "nat option"

text \<open>All loggers and appenders, the table and the root of the \<open>LoggerManager\<close>, what was written to
  the standard output, the files by name and their contents, and the next address.\<close>

record log_state =
  loggers :: "nat \<Rightarrow> Logger option"
  appenders :: "nat \<Rightarrow> LogAppender option"
  m_loggers :: "string \<Rightarrow> nat option"
  m_root :: nat
  m_async :: bool
  std_out :: string
  files :: "string \<Rightarrow> nat option"
  file_content :: "nat \<Rightarrow> string"
  log_next :: nat

datatype log_error = BadLogger | BadAppender | NullFormatter | NoFuel | NullName | BadNode | NullAppender

text \<open>What the log uses of the system: \<open>strftime\<close>, and whether a file can be opened, after its
  directory has been made if needed.\<close>

record log_env =
  le_strftime :: "string \<Rightarrow> nat \<Rightarrow> string"
  le_can_open :: "string \<Rightarrow> bool"

definition logger_at :: "nat \<Rightarrow> log_state \<Rightarrow> log_error + Logger" where
  "logger_at l st = optE BadLogger (loggers st l)"

definition appender_at :: "nat \<Rightarrow> log_state \<Rightarrow> log_error + LogAppender" where
  "appender_at a st = optE BadAppender (appenders st a)"

definition set_logger :: "nat \<Rightarrow> Logger \<Rightarrow> log_state \<Rightarrow> log_state" where
  "set_logger l x st = st\<lparr>loggers := (loggers st)(l \<mapsto> x)\<rparr>"

definition set_appender :: "nat \<Rightarrow> LogAppender \<Rightarrow> log_state \<Rightarrow> log_state" where
  "set_appender a x st = st\<lparr>appenders := (appenders st)(a \<mapsto> x)\<rparr>"

section \<open>Appenders\<close>

definition ap_setFormatter :: "LogFormatter option \<Rightarrow> LogAppender \<Rightarrow> LogAppender" where
  "ap_setFormatter val ap = ap\<lparr>ap_formatter := val, ap_hasFormatter := val \<noteq> None\<rparr>"

definition ap_setLevel :: "Level \<Rightarrow> LogAppender \<Rightarrow> LogAppender" where
  "ap_setLevel val ap = ap\<lparr>ap_level := val\<rparr>"

text \<open>\<open>FileLogAppender::reopen\<close>: the stream is opened for appending on the file that has the name now,
  which is created if there is none.\<close>

definition reopen :: "log_env \<Rightarrow> string \<Rightarrow> LogAppender \<Rightarrow> log_state \<Rightarrow> LogAppender \<times> log_state" where
  "reopen env filename ap st =
     (if \<not> le_can_open env filename then (ap\<lparr>ap_stream := None\<rparr>, st)
      else
        case files st filename of
          Some i \<Rightarrow> (ap\<lparr>ap_stream := Some i\<rparr>, st)
        | None \<Rightarrow>
            let i = log_next st
            in (ap\<lparr>ap_stream := Some i\<rparr>,
                st\<lparr>files := (files st)(filename \<mapsto> i), file_content := (file_content st)(i := []), log_next := i + 1\<rparr>))"

definition new_appender :: "appender_kind \<Rightarrow> LogAppender" where
  "new_appender kind = \<lparr>ap_kind = kind, ap_level = DEBUG, ap_hasFormatter = False, ap_formatter = None,
     ap_stream = None, ap_lastTime = 0\<rparr>"

text \<open>A new appender on the heap; the constructor for files opens the file.\<close>

definition Appender_new :: "log_env \<Rightarrow> appender_kind \<Rightarrow> log_state \<Rightarrow> nat \<times> log_state" where
  "Appender_new env kind st =
     (let (ap, st1) = (case kind of
           StdoutLogAppender \<Rightarrow> (new_appender kind, st)
         | FileLogAppender f \<Rightarrow> reopen env f (new_appender kind) st);
          a = log_next st1
      in (a, set_appender a ap (st1\<lparr>log_next := a + 1\<rparr>)))"

text \<open>\<open>log\<close> of the two kinds; \<open>name\<close> is the name of the event's logger.\<close>

definition appender_log :: "log_env \<Rightarrow> string \<Rightarrow> Level \<Rightarrow> LogEvent \<Rightarrow> nat \<Rightarrow> log_state \<Rightarrow> log_error + log_state" where
  "appender_log env name level ev a st =
     bindE (appender_at a st) (\<lambda>ap.
     if \<not> level \<ge> ap_level ap then Inr st
     else
       case ap_kind ap of
         StdoutLogAppender \<Rightarrow>
           bindE (optE NullFormatter (ap_formatter ap)) (\<lambda>f.
           Inr (st\<lparr>std_out := std_out st @ format_event (le_strftime env) name level ev f\<rparr>))
       | FileLogAppender filename \<Rightarrow>
           let (ap1, st1) =
                 (if e_time ev \<ge> ap_lastTime ap + 3 then
                    let (ap', st') = reopen env filename ap st; ap'' = ap'\<lparr>ap_lastTime := e_time ev\<rparr>
                    in (ap'', set_appender a ap'' st')
                  else (ap, st)) in
           bindE (optE NullFormatter (ap_formatter ap1)) (\<lambda>f.
           case ap_stream ap1 of
             Some i \<Rightarrow> Inr (st1\<lparr>file_content := (file_content st1)(i := file_content st1 i
                 @ format_event (le_strftime env) name level ev f)\<rparr>)
           | None \<Rightarrow> Inr (st1\<lparr>std_out := std_out st1 @ ''error'' @ [CHR 0x0A]\<rparr>)))"

section \<open>Loggers\<close>

definition default_pattern :: string where
  "default_pattern = ''%d{%Y-%m-%d %H:%M:%S}%T%t%T%N:%F%T[%p]%T[%c]%T%f:%l%T%m%n''"

definition Logger_new :: "string \<Rightarrow> Logger" where
  "Logger_new name = \<lparr>lg_name = name, lg_level = DEBUG, lg_appenders = [],
     lg_formatter = Some (LogFormatter_new default_pattern), lg_root = None\<rparr>"

definition lg_setLevel :: "nat \<Rightarrow> Level \<Rightarrow> log_state \<Rightarrow> log_error + log_state" where
  "lg_setLevel l val st = bindE (logger_at l st) (\<lambda>lg. Inr (set_logger l (lg\<lparr>lg_level := val\<rparr>) st))"

text \<open>\<open>setFormatter\<close>: appenders that have no formatter of their own get the new one too.\<close>

definition inherit :: "LogFormatter option \<Rightarrow> nat \<Rightarrow> log_state \<Rightarrow> log_error + log_state" where
  "inherit val a st =
     bindE (appender_at a st) (\<lambda>ap.
     Inr (if \<not> ap_hasFormatter ap then set_appender a (ap\<lparr>ap_formatter := val\<rparr>) st else st))"

definition lg_setFormatter :: "nat \<Rightarrow> LogFormatter option \<Rightarrow> log_state \<Rightarrow> log_error + log_state" where
  "lg_setFormatter l val st =
     bindE (logger_at l st) (\<lambda>lg.
     foldE (inherit val) (lg_appenders lg) (set_logger l (lg\<lparr>lg_formatter := val\<rparr>) st))"

definition lg_setPattern :: "nat \<Rightarrow> string \<Rightarrow> log_state \<Rightarrow> log_error + log_state" where
  "lg_setPattern l val st =
     bindE (logger_at l st) (\<lambda>lg.
     let new_val = LogFormatter_new val;
         st1 = st\<lparr>std_out := std_out st @ ''---'' @ val @ [CHR 0x0A]\<rparr> in
     if m_error new_val then
       Inr (st1\<lparr>std_out := std_out st1 @ ''Logger setFormatter name='' @ lg_name lg @ '' value='' @ val
         @ '' invalid formatter'' @ [CHR 0x0A]\<rparr>)
     else lg_setFormatter l (Some new_val) st1)"

definition addAppender :: "nat \<Rightarrow> nat \<Rightarrow> log_state \<Rightarrow> log_error + log_state" where
  "addAppender l a st =
     bindE (logger_at l st) (\<lambda>lg.
     bindE (appender_at a st) (\<lambda>ap.
     let st1 = (if ap_formatter ap = None then set_appender a (ap\<lparr>ap_formatter := lg_formatter lg\<rparr>) st else st)
     in Inr (set_logger l (lg\<lparr>lg_appenders := lg_appenders lg @ [a]\<rparr>) st1)))"

definition delAppender :: "nat \<Rightarrow> nat \<Rightarrow> log_state \<Rightarrow> log_error + log_state" where
  "delAppender l a st =
     bindE (logger_at l st) (\<lambda>lg. Inr (set_logger l (lg\<lparr>lg_appenders := remove1 a (lg_appenders lg)\<rparr>) st))"

definition clearAppenders :: "nat \<Rightarrow> log_state \<Rightarrow> log_error + log_state" where
  "clearAppenders l st = bindE (logger_at l st) (\<lambda>lg. Inr (set_logger l (lg\<lparr>lg_appenders := []\<rparr>) st))"

text \<open>
  \<open>logInternal\<close>: all appenders, or the root if there are none; the name written is that of the
  event's own logger. The fuel bounds the chain of roots, which has length two.
\<close>

fun logInternal :: "nat \<Rightarrow> log_env \<Rightarrow> nat \<Rightarrow> Level \<Rightarrow> LogEvent \<Rightarrow> log_state \<Rightarrow> log_error + log_state" where
  "logInternal 0 env l level ev st = Inl NoFuel"
| "logInternal (Suc n) env l level ev st =
     bindE (logger_at l st) (\<lambda>lg.
     if lg_appenders lg \<noteq> [] then
       bindE (logger_at (e_logger ev) st) (\<lambda>own.
       foldE (appender_log env (lg_name own) level ev) (lg_appenders lg) st)
     else
       case lg_root lg of
         None \<Rightarrow> Inr st
       | Some r \<Rightarrow>
           bindE (logger_at r st) (\<lambda>root.
           if level \<ge> lg_level root then logInternal n env r level ev st else Inr st))"

text \<open>\<open>Logger::log\<close>: below the level nothing happens; with asynchronous logging the event is handed to
  the dispatcher (the first part of the result), without the level it was logged at.\<close>

definition Logger_log :: "log_env \<Rightarrow> nat \<Rightarrow> Level \<Rightarrow> LogEvent \<Rightarrow> log_state \<Rightarrow> log_error + LogEvent option \<times> log_state" where
  "Logger_log env l level ev st =
     bindE (logger_at l st) (\<lambda>lg.
     if level < lg_level lg then Inr (None, st)
     else if m_async st then Inr (Some ev, st)
     else bindE (logInternal 2 env l level ev st) (\<lambda>st1. Inr (None, st1)))"

text \<open>What the dispatcher does with an event.\<close>

definition dispatch_event :: "log_env \<Rightarrow> LogEvent \<Rightarrow> log_state \<Rightarrow> log_error + log_state" where
  "dispatch_event env ev st = logInternal 2 env (e_logger ev) (e_level ev) ev st"

section \<open>The manager\<close>

definition getLogger :: "string \<Rightarrow> log_state \<Rightarrow> nat \<times> log_state" where
  "getLogger name st =
     (case m_loggers st name of
        Some l \<Rightarrow> (l, st)
      | None \<Rightarrow>
          let l = log_next st
          in (l, set_logger l ((Logger_new name)\<lparr>lg_root := Some (m_root st)\<rparr>)
               (st\<lparr>m_loggers := (m_loggers st)(name \<mapsto> l), log_next := l + 1\<rparr>)))"

text \<open>The constructor: logger 0 is the root, appender 1 writes to the standard output.\<close>

definition LoggerManager_new :: log_state where
  "LoggerManager_new =
     \<lparr>loggers = [0 \<mapsto> (Logger_new ''root'')\<lparr>lg_appenders := [1]\<rparr>],
      appenders = [1 \<mapsto> (new_appender StdoutLogAppender)\<lparr>ap_formatter := Some (LogFormatter_new default_pattern)\<rparr>],
      m_loggers = [''root'' \<mapsto> 0], m_root = 0, m_async = True, std_out = [], files = (\<lambda>_. None),
      file_content = (\<lambda>_. []), log_next = 2\<rparr>"

section \<open>Configuration\<close>

datatype yaml = YScalar string | YSeq "yaml list" | YMap "(string \<times> yaml) list"

record LogAppenderDefine =
  lad_type :: nat
  lad_level :: Level
  lad_formatter :: string
  lad_file :: string

record LogDefine =
  ld_name :: string
  ld_level :: Level
  ld_formatter :: string
  ld_appenders :: "LogAppenderDefine list"

text \<open>\<open>n[key]\<close> where it is defined, and \<open>as<std::string>()\<close>.\<close>

definition yget :: "string \<Rightarrow> yaml \<Rightarrow> yaml option" where
  "yget key n = (case n of YMap kvs \<Rightarrow> map_of kvs key | _ \<Rightarrow> None)"

definition as_string :: "yaml \<Rightarrow> log_error + string" where
  "as_string n = (case n of YScalar s \<Rightarrow> Inr s | _ \<Rightarrow> Inl BadNode)"

definition ystring :: "string \<Rightarrow> yaml \<Rightarrow> log_error + string" where
  "ystring key n = (case yget key n of None \<Rightarrow> Inr [] | Some v \<Rightarrow> as_string v)"

text \<open>The body of the loop over appenders in \<open>LexicalCast<std::string, LogDefine>\<close>; \<open>None\<close> is \<open>continue\<close>.\<close>

definition read_appender :: "yaml \<Rightarrow> log_error + LogAppenderDefine option" where
  "read_appender a =
     (case yget ''type'' a of
        None \<Rightarrow> Inr None
      | Some t \<Rightarrow>
          bindE (as_string t) (\<lambda>type_name.
          let lad = \<lparr>lad_type = 0, lad_level = UNKNOW, lad_formatter = [], lad_file = []\<rparr> in
          if type_name = ''FileLogAppender'' then
            (case yget ''file'' a of
               None \<Rightarrow> Inr None
             | Some f \<Rightarrow> bindE (as_string f) (\<lambda>file. bindE (ystring ''formatter'' a) (\<lambda>fmt.
                 Inr (Some (lad\<lparr>lad_type := 1, lad_file := file, lad_formatter := fmt\<rparr>)))))
          else if type_name = ''StdoutLogAppender'' then
            bindE (ystring ''formatter'' a) (\<lambda>fmt. Inr (Some (lad\<lparr>lad_type := 2, lad_formatter := fmt\<rparr>)))
          else Inr None))"

fun read_appenders :: "yaml list \<Rightarrow> log_error + LogAppenderDefine list" where
  "read_appenders [] = Inr []"
| "read_appenders (a # as) =
     bindE (read_appender a) (\<lambda>r. bindE (read_appenders as) (\<lambda>rs. Inr (case r of None \<Rightarrow> rs | Some x \<Rightarrow> x # rs)))"

definition read_define :: "yaml \<Rightarrow> log_error + LogDefine" where
  "read_define n =
     bindE (optE NullName (yget ''name'' n)) (\<lambda>v.
     bindE (as_string v) (\<lambda>name.
     bindE (ystring ''level'' n) (\<lambda>level.
     bindE (ystring ''formatter'' n) (\<lambda>fmt.
     bindE (case yget ''appenders'' n of Some (YSeq as) \<Rightarrow> read_appenders as | _ \<Rightarrow> Inr []) (\<lambda>aps.
     Inr \<lparr>ld_name = name, ld_level = Level_FromString level, ld_formatter = fmt, ld_appenders = aps\<rparr>)))))"

text \<open>\<open>LexicalCast<LogDefine, std::string>\<close>.\<close>

definition write_appender :: "LogAppenderDefine \<Rightarrow> yaml" where
  "write_appender a =
     YMap ((if lad_type a = 1 then [(''type'', YScalar ''FileLogAppender''), (''file'', YScalar (lad_file a))]
            else if lad_type a = 2 then [(''type'', YScalar ''StdoutLogAppender'')] else [])
        @ (if lad_level a \<noteq> UNKNOW then [(''level'', YScalar (Level_ToString (lad_level a)))] else [])
        @ (if lad_formatter a \<noteq> [] then [(''formatter'', YScalar (lad_formatter a))] else []))"

definition write_define :: "LogDefine \<Rightarrow> yaml" where
  "write_define i =
     YMap ([(''name'', YScalar (ld_name i))]
        @ (if ld_level i \<noteq> UNKNOW then [(''level'', YScalar (Level_ToString (ld_level i)))] else [])
        @ (if ld_formatter i \<noteq> [] then [(''formatter'', YScalar (ld_formatter i))] else [])
        @ (if ld_appenders i \<noteq> [] then [(''appenders'', YSeq (map write_appender (ld_appenders i)))] else []))"

text \<open>
  The listener of \<open>LogIniter\<close>. A set of definitions is a list with different names in their order;
  \<open>no_stdout\<close> is the option d of the command line.
\<close>

definition find_define :: "string \<Rightarrow> LogDefine list \<Rightarrow> LogDefine option" where
  "find_define name ds = find (\<lambda>d. ld_name d = name) ds"

definition config_appender :: "log_env \<Rightarrow> bool \<Rightarrow> string \<Rightarrow> nat \<Rightarrow> LogAppenderDefine \<Rightarrow> log_state \<Rightarrow> log_error + log_state" where
  "config_appender env no_stdout name l a st =
     (if lad_type a = 2 \<and> no_stdout then Inr st
      else if lad_type a \<noteq> 1 \<and> lad_type a \<noteq> 2 then Inl NullAppender
      else
        let (p, st1) = Appender_new env (if lad_type a = 1 then FileLogAppender (lad_file a) else StdoutLogAppender) st in
        bindE (appender_at p st1) (\<lambda>ap.
        let ap1 = ap_setLevel (lad_level a) ap;
            fmt = LogFormatter_new (lad_formatter a);
            (ap2, st2) =
              (if lad_formatter a \<noteq> [] then
                 (if \<not> m_error fmt then (ap_setFormatter (Some fmt) ap1, st1)
                  else (ap1, st1\<lparr>std_out := std_out st1 @ ''log.name='' @ name @ '' appender type='' @ to_string (lad_type a)
                    @ '' formatter='' @ lad_formatter a @ '' is invalid'' @ [CHR 0x0A]\<rparr>))
               else (ap1, st1))
        in addAppender l p (set_appender p ap2 st2)))"

definition config_logger :: "log_env \<Rightarrow> bool \<Rightarrow> LogDefine list \<Rightarrow> LogDefine \<Rightarrow> log_state \<Rightarrow> log_error + log_state" where
  "config_logger env no_stdout old_value i st =
     (if find_define (ld_name i) old_value = Some i then Inr st
      else
        let (l, st1) = getLogger (ld_name i) st in
        bindE (lg_setLevel l (ld_level i) st1) (\<lambda>st2.
        bindE (if ld_formatter i \<noteq> [] then lg_setPattern l (ld_formatter i) st2 else Inr st2) (\<lambda>st3.
        bindE (clearAppenders l st3) (\<lambda>st4.
        foldE (config_appender env no_stdout (ld_name i) l) (ld_appenders i) st4))))"

definition drop_logger :: "LogDefine list \<Rightarrow> LogDefine \<Rightarrow> log_state \<Rightarrow> log_error + log_state" where
  "drop_logger new_value i st =
     (if find_define (ld_name i) new_value \<noteq> None then Inr st
      else
        let (l, st1) = getLogger (ld_name i) st in
        bindE (lg_setLevel l UNKNOW st1) (\<lambda>st2. clearAppenders l st2))"

text \<open>The listener of the configuration, without the line it writes itself when it is called.\<close>

definition on_logger_conf_changed :: "log_env \<Rightarrow> bool \<Rightarrow> LogDefine list \<Rightarrow> LogDefine list \<Rightarrow> log_state \<Rightarrow> log_error + log_state" where
  "on_logger_conf_changed env no_stdout old_value new_value st =
     bindE (foldE (config_logger env no_stdout old_value) new_value st) (\<lambda>st1.
     foldE (drop_logger new_value) old_value st1)"

section \<open>Output as YAML\<close>

definition appender_yaml :: "LogAppender \<Rightarrow> yaml" where
  "appender_yaml ap =
     YMap ((case ap_kind ap of
              FileLogAppender f \<Rightarrow> [(''type'', YScalar ''FileLogAppender''), (''file'', YScalar f)]
            | StdoutLogAppender \<Rightarrow> [(''type'', YScalar ''StdoutLogAppender'')])
        @ (if ap_level ap \<noteq> UNKNOW then [(''level'', YScalar (Level_ToString (ap_level ap)))] else [])
        @ (case ap_formatter ap of Some f \<Rightarrow> if ap_hasFormatter ap then [(''formatter'', YScalar (m_pattern f))] else [] | None \<Rightarrow> []))"

definition logger_yaml :: "nat \<Rightarrow> log_state \<Rightarrow> log_error + yaml" where
  "logger_yaml l st =
     bindE (logger_at l st) (\<lambda>lg.
     bindE (foldE (\<lambda>a ys. bindE (appender_at a st) (\<lambda>ap. Inr (ys @ [appender_yaml ap]))) (lg_appenders lg) []) (\<lambda>aps.
     Inr (YMap ([(''name'', YScalar (lg_name lg))]
        @ (if lg_level lg \<noteq> UNKNOW then [(''level'', YScalar (Level_ToString (lg_level lg)))] else [])
        @ (case lg_formatter lg of Some f \<Rightarrow> [(''formatter'', YScalar (m_pattern f))] | None \<Rightarrow> [])
        @ (if aps \<noteq> [] then [(''appenders'', YSeq aps)] else [])))))"

end
