(* ===== verification/LogProps.thy ===== *)
theory LogProps
  imports Log
begin

text \<open>
  What loggers promise: their heap stays well formed under every operation, so that logging never
  follows a bad pointer or a missing formatter and the chain of roots ends; the configuration
  makes loggers as defined; and a definition survives being written as YAML, but for the levels
  of appenders.
\<close>

section \<open>The heap of loggers\<close>

definition good_appender :: "log_state \<Rightarrow> nat \<Rightarrow> bool" where
  "good_appender st a \<longleftrightarrow> (\<exists>ap. appenders st a = Some ap \<and> ap_formatter ap \<noteq> None)"

definition good_logger :: "log_state \<Rightarrow> nat \<Rightarrow> Logger \<Rightarrow> bool" where
  "good_logger st l lg \<longleftrightarrow>
     l < log_next st \<and> lg_formatter lg \<noteq> None \<and> (\<forall>a \<in> set (lg_appenders lg). good_appender st a)
     \<and> lg_root lg = (if l = m_root st then None else Some (m_root st))"

definition log_wf :: "log_state \<Rightarrow> bool" where
  "log_wf st \<longleftrightarrow>
     (\<forall>l lg. loggers st l = Some lg \<longrightarrow> good_logger st l lg)
     \<and> (\<forall>a. appenders st a \<noteq> None \<longrightarrow> a < log_next st)
     \<and> loggers st (m_root st) \<noteq> None
     \<and> (\<forall>name l. m_loggers st name = Some l \<longrightarrow> (\<exists>lg. loggers st l = Some lg \<and> lg_name lg = name))"

lemma log_wfD:
  assumes "log_wf st"
  shows "loggers st l = Some lg \<Longrightarrow> good_logger st l lg" "appenders st a = Some ap \<Longrightarrow> a < log_next st"
    "\<exists>root. loggers st (m_root st) = Some root"
    "m_loggers st name = Some l \<Longrightarrow> \<exists>lg. loggers st l = Some lg \<and> lg_name lg = name"
  using assms by (auto simp: log_wf_def)

lemma good_loggerD:
  assumes "good_logger st l lg"
  shows "l < log_next st" "\<exists>f. lg_formatter lg = Some f" "a \<in> set (lg_appenders lg) \<Longrightarrow> good_appender st a"
    "l \<noteq> m_root st \<Longrightarrow> lg_root lg = Some (m_root st)" "l = m_root st \<Longrightarrow> lg_root lg = None"
  using assms by (auto simp: good_logger_def)

text \<open>What no operation changes: the root, the names, and the addresses that are in use.\<close>

definition grows :: "log_state \<Rightarrow> log_state \<Rightarrow> bool" where
  "grows st st' \<longleftrightarrow>
     m_root st' = m_root st \<and> m_async st' = m_async st \<and> log_next st \<le> log_next st'
     \<and> (\<forall>a. good_appender st a \<longrightarrow> good_appender st' a)
     \<and> (\<forall>l. loggers st l \<noteq> None \<longrightarrow> loggers st' l \<noteq> None)
     \<and> (\<forall>name l. m_loggers st name = Some l \<longrightarrow> m_loggers st' name = Some l)"

lemma grows_refl [simp]: "grows st st"
  by (simp add: grows_def)

lemma grows_trans: "grows st st' \<Longrightarrow> grows st' st'' \<Longrightarrow> grows st st''"
  by (auto simp: grows_def)

lemma good_logger_grows: "good_logger st l lg \<Longrightarrow> grows st st' \<Longrightarrow> good_logger st' l lg"
  by (auto simp: good_logger_def grows_def)

text \<open>Changing one logger, one appender, or neither.\<close>

lemma set_logger_wf:
  assumes "log_wf st" and "good_logger st l lg" and "loggers st l = Some old" and "lg_name lg = lg_name old"
  shows "log_wf (set_logger l lg st) \<and> grows st (set_logger l lg st)"
  using assms by (force simp: log_wf_def grows_def set_logger_def good_logger_def good_appender_def)

lemma set_appender_wf:
  assumes wf: "log_wf st" and "a < log_next st" and "good_appender st a \<Longrightarrow> ap_formatter ap \<noteq> None"
  shows "log_wf (set_appender a ap st) \<and> grows st (set_appender a ap st)"
proof -
  have g: "grows st (set_appender a ap st)"
    using assms by (auto simp: grows_def set_appender_def good_appender_def)
  show ?thesis
    using assms g good_logger_grows [OF _ g] by (auto simp: log_wf_def set_appender_def)
qed

text \<open>Output changes neither.\<close>

definition same_heap :: "log_state \<Rightarrow> log_state \<Rightarrow> bool" where
  "same_heap st st' \<longleftrightarrow> loggers st' = loggers st \<and> appenders st' = appenders st \<and> m_loggers st' = m_loggers st
     \<and> m_root st' = m_root st \<and> m_async st' = m_async st \<and> log_next st \<le> log_next st'"

lemma same_heap_wf:
  assumes "log_wf st" and "same_heap st st'"
  shows "log_wf st' \<and> grows st st'"
proof -
  have g: "grows st st'" using assms(2) by (auto simp: same_heap_def grows_def good_appender_def)
  show ?thesis
    using assms g good_logger_grows [OF _ g] by (fastforce simp: log_wf_def same_heap_def)
qed

section \<open>Writing\<close>

text \<open>What a step of logging does to the rest: it stays well formed, and loggers stay as they are.\<close>

definition logged :: "log_state \<Rightarrow> log_state \<Rightarrow> bool" where
  "logged st st' \<longleftrightarrow> log_wf st' \<and> grows st st' \<and> loggers st' = loggers st \<and> m_loggers st' = m_loggers st"

lemma logged_refl: "log_wf st \<Longrightarrow> logged st st"
  by (simp add: logged_def)

lemma logged_trans: "logged st st' \<Longrightarrow> logged st' st'' \<Longrightarrow> logged st st''"
  by (auto simp: logged_def intro: grows_trans)

lemma logged_wf: "logged st st' \<Longrightarrow> log_wf st'"
  by (simp add: logged_def)

lemma same_heap_logged: "log_wf st \<Longrightarrow> same_heap st st' \<Longrightarrow> logged st st'"
  using same_heap_wf [of st st'] by (auto simp: logged_def same_heap_def)

lemma reopen_effect:
  assumes "reopen env f ap st = (ap', st')"
  shows "same_heap st st' \<and> ap_formatter ap' = ap_formatter ap \<and> ap_kind ap' = ap_kind ap \<and> ap_level ap' = ap_level ap
    \<and> ap_hasFormatter ap' = ap_hasFormatter ap"
  using assms by (auto simp: reopen_def Let_def same_heap_def split: if_splits option.splits)

lemma set_appender_logged:
  "log_wf st \<Longrightarrow> a < log_next st \<Longrightarrow> (good_appender st a \<Longrightarrow> ap_formatter ap \<noteq> None) \<Longrightarrow> logged st (set_appender a ap st)"
  using set_appender_wf [of st a ap] by (auto simp: logged_def set_appender_def)

lemma appender_log_ok:
  assumes wf: "log_wf st" and good: "good_appender st a"
  shows "\<exists>st'. appender_log env name level ev a st = Inr st' \<and> logged st st'"
proof -
  from good obtain ap f where ap: "appenders st a = Some ap" "ap_formatter ap = Some f"
    by (auto simp: good_appender_def)
  show ?thesis
  proof (cases "ap_kind ap")
    case StdoutLogAppender
    with ap wf show ?thesis
      by (auto simp: appender_log_def appender_at_def intro: logged_refl same_heap_logged simp: same_heap_def)
  next
    case (FileLogAppender filename)
    show ?thesis
    proof (cases "e_time ev \<ge> ap_lastTime ap + 3")
      case False
      with ap wf FileLogAppender show ?thesis
        by (auto simp: appender_log_def appender_at_def intro: logged_refl same_heap_logged simp: same_heap_def split: option.splits)
    next
      case True
      obtain ap' st1 where r: "reopen env filename ap st = (ap', st1)" by fastforce
      note e = reopen_effect [OF r]
      let ?ap = "ap'\<lparr>ap_lastTime := e_time ev\<rparr>" and ?st = "set_appender a (ap'\<lparr>ap_lastTime := e_time ev\<rparr>) st1"
      have l1: "logged st st1" using same_heap_logged wf e by blast
      have "a < log_next st1" using log_wfD(2) [OF wf ap(1)] e by (auto simp: same_heap_def)
      with l1 e ap have "logged st1 ?st" by (intro set_appender_logged) (auto simp: logged_def)
      with l1 have l2: "logged st ?st" by (rule logged_trans)
      have w: "logged st (?st\<lparr>file_content := c\<rparr>)" "logged st (?st\<lparr>std_out := d\<rparr>)" for c d
        using l2 by (auto intro!: logged_trans [OF l2] same_heap_logged simp: same_heap_def logged_wf)
      show ?thesis
        using True FileLogAppender ap r e w wf
        by (auto simp: appender_log_def appender_at_def Let_def split: option.splits intro: logged_refl)
    qed
  qed
qed

lemma appenders_log_ok:
  assumes "log_wf st" and "\<forall>a \<in> set as. good_appender st a"
  shows "\<exists>st'. foldE (appender_log env name level ev) as st = Inr st' \<and> logged st st'"
proof (rule foldE_total)
  fix a t
  assume "logged st t" "a \<in> set as"
  with assms show "\<exists>t'. appender_log env name level ev a t = Inr t' \<and> logged t t'"
    by (intro appender_log_ok) (auto simp: logged_def grows_def)
qed (use assms in \<open>auto intro: logged_trans logged_refl\<close>)

lemma logInternal_ok:
  assumes wf: "log_wf st" and l: "loggers st l = Some lg" and own: "loggers st (e_logger ev) \<noteq> None"
  shows "\<exists>st'. logInternal (Suc (Suc n)) env l level ev st = Inr st' \<and> logged st st'"
proof -
  from own obtain o' where o': "loggers st (e_logger ev) = Some o'" by auto
  have here: "\<exists>st'. logInternal (Suc n) env l level ev st = Inr st' \<and> logged st st'"
    if "loggers st l = Some lg" "lg_appenders lg \<noteq> [] \<or> lg_root lg = None" for n l lg
  proof -
    have "\<forall>a \<in> set (lg_appenders lg). good_appender st a"
      using log_wfD(1) [OF wf that(1)] by (auto simp: good_logger_def)
    from appenders_log_ok [OF wf this, of env "lg_name o'" level ev] that o' wf show ?thesis
      by (auto simp: logger_at_def intro: logged_refl)
  qed
  show ?thesis
  proof (cases "lg_appenders lg \<noteq> [] \<or> lg_root lg = None")
    case True
    with here l show ?thesis by blast
  next
    case False
    then obtain r where r: "lg_root lg = Some r" "lg_appenders lg = []" by auto
    with log_wfD(1) [OF wf l] have root: "r = m_root st" by (auto simp: good_logger_def split: if_splits)
    obtain rt where rt: "loggers st r = Some rt" using log_wfD(3) [OF wf] root by auto
    with log_wfD(1) [OF wf rt] root have "lg_root rt = None" by (auto simp: good_logger_def)
    from here [OF rt, of n] this obtain st' where
      st': "logInternal (Suc n) env r level ev st = Inr st' \<and> logged st st'" by auto
    have "logInternal (Suc (Suc n)) env l level ev st
        = (if level \<ge> lg_level rt then logInternal (Suc n) env r level ev st else Inr st)"
      using l r rt by (simp add: logger_at_def)
    with st' wf show ?thesis by (auto intro: logged_refl)
  qed
qed

section \<open>Configuration\<close>

text \<open>A step that touches only the loggers with names in a set, their appenders, and new ones.\<close>

definition used_by :: "log_state \<Rightarrow> string set \<Rightarrow> nat \<Rightarrow> bool" where
  "used_by st N a \<longleftrightarrow> (\<exists>n \<in> N. \<exists>l lg. m_loggers st n = Some l \<and> loggers st l = Some lg \<and> a \<in> set (lg_appenders lg))"

definition kept_loggers :: "string set \<Rightarrow> log_state \<Rightarrow> log_state \<Rightarrow> bool" where
  "kept_loggers N st st' \<longleftrightarrow>
     (\<forall>n. n \<notin> N \<longrightarrow> m_loggers st' n = m_loggers st n)
     \<and> (\<forall>l lg. loggers st l = Some lg \<and> (\<forall>n \<in> N. m_loggers st n \<noteq> Some l) \<longrightarrow> loggers st' l = Some lg)
     \<and> (\<forall>n l lg. m_loggers st' n = Some l \<and> loggers st l = Some lg \<longrightarrow> m_loggers st n = Some l)
     \<and> (\<forall>l lg'. loggers st' l = Some lg' \<and> loggers st l = None \<longrightarrow> (\<exists>n \<in> N. m_loggers st' n = Some l))"

definition kept_appenders :: "string set \<Rightarrow> log_state \<Rightarrow> log_state \<Rightarrow> bool" where
  "kept_appenders N st st' \<longleftrightarrow>
     (\<forall>a ap. appenders st a = Some ap \<and> \<not> used_by st N a \<longrightarrow> appenders st' a = Some ap)
     \<and> (\<forall>a. appenders st' a = None \<longrightarrow> appenders st a = None)
     \<and> (\<forall>l lg' a ap. loggers st' l = Some lg' \<and> a \<in> set (lg_appenders lg') \<and> appenders st a = Some ap
         \<longrightarrow> (\<exists>lg. loggers st l = Some lg \<and> a \<in> set (lg_appenders lg)))"

definition touches :: "string set \<Rightarrow> log_state \<Rightarrow> log_state \<Rightarrow> bool" where
  "touches N st st' \<longleftrightarrow> log_wf st' \<and> grows st st' \<and> kept_loggers N st st' \<and> kept_appenders N st st'"

lemma touches_refl: "log_wf st \<Longrightarrow> touches N st st"
  by (auto simp: touches_def kept_loggers_def kept_appenders_def)

lemma touchesD:
  assumes "touches N st st'"
  shows "log_wf st'" "grows st st'" "n \<notin> N \<Longrightarrow> m_loggers st' n = m_loggers st n"
    "loggers st l = Some lg \<Longrightarrow> \<forall>n \<in> N. m_loggers st n \<noteq> Some l \<Longrightarrow> loggers st' l = Some lg"
    "m_loggers st' n = Some l \<Longrightarrow> loggers st l = Some lg \<Longrightarrow> m_loggers st n = Some l"
    "appenders st a = Some ap \<Longrightarrow> \<not> used_by st N a \<Longrightarrow> appenders st' a = Some ap"
    "appenders st' a = None \<Longrightarrow> appenders st a = None"
    "loggers st' l = Some lg' \<Longrightarrow> a \<in> set (lg_appenders lg') \<Longrightarrow> appenders st a = Some ap
      \<Longrightarrow> \<exists>lg. loggers st l = Some lg \<and> a \<in> set (lg_appenders lg)"
    "loggers st' l = Some lg' \<Longrightarrow> loggers st l = None \<Longrightarrow> \<exists>n \<in> N. m_loggers st' n = Some l"
proof -
  from assms have 1: "log_wf st'" and 2: "grows st st'" and l: "kept_loggers N st st'" and a: "kept_appenders N st st'"
    by (simp_all add: touches_def)
  show "log_wf st'" "grows st st'" by (fact 1 2)+
  show "n \<notin> N \<Longrightarrow> m_loggers st' n = m_loggers st n"
    "loggers st l = Some lg \<Longrightarrow> \<forall>n \<in> N. m_loggers st n \<noteq> Some l \<Longrightarrow> loggers st' l = Some lg"
    "m_loggers st' n = Some l \<Longrightarrow> loggers st l = Some lg \<Longrightarrow> m_loggers st n = Some l"
    "loggers st' l = Some lg' \<Longrightarrow> loggers st l = None \<Longrightarrow> \<exists>n \<in> N. m_loggers st' n = Some l"
    using l [unfolded kept_loggers_def] by blast+
  show "appenders st a = Some ap \<Longrightarrow> \<not> used_by st N a \<Longrightarrow> appenders st' a = Some ap"
    "appenders st' a = None \<Longrightarrow> appenders st a = None"
    "loggers st' l = Some lg' \<Longrightarrow> a \<in> set (lg_appenders lg') \<Longrightarrow> appenders st a = Some ap
      \<Longrightarrow> \<exists>lg. loggers st l = Some lg \<and> a \<in> set (lg_appenders lg)"
    using a [unfolded kept_appenders_def] by blast+
qed

lemma touches_trans:
  assumes 1: "touches N st st'" and 2: "touches M st' st''"
  shows "touches (N \<union> M) st st''"
proof -
  have used: "used_by st (N \<union> M) a" if "used_by st' M a" "appenders st a = Some ap" for a ap
  proof -
    from that obtain n l lg' where n: "n \<in> M" "m_loggers st' n = Some l" "loggers st' l = Some lg'" "a \<in> set (lg_appenders lg')"
      by (auto simp: used_by_def)
    from touchesD(8) [OF 1 n(3,4) that(2)] obtain lg where lg: "loggers st l = Some lg" "a \<in> set (lg_appenders lg)" by auto
    with touchesD(5) [OF 1 n(2)] n(1) show ?thesis unfolding used_by_def by blast
  qed
  have log: "loggers st'' l = Some lg" if "loggers st l = Some lg" "\<forall>n \<in> N \<union> M. m_loggers st n \<noteq> Some l" for l lg
    using touchesD(4) [OF 1 that(1)] touchesD(4) [OF 2, of l lg] touchesD(5) [OF 1 _ that(1)] that(2) by blast
  have names: "m_loggers st n = Some l" if "m_loggers st'' n = Some l" "loggers st l = Some lg" for n l lg
  proof -
    from touchesD(2) [OF 1] that(2) obtain lg' where "loggers st' l = Some lg'" by (auto simp: grows_def)
    with touchesD(5) [OF 2 that(1)] touchesD(5) [OF 1 _ that(2)] show ?thesis by blast
  qed
  have app: "appenders st'' a = Some ap" if "appenders st a = Some ap" "\<not> used_by st (N \<union> M) a" for a ap
  proof -
    have "\<not> used_by st N a" using that(2) by (auto simp: used_by_def)
    with touchesD(6) [OF 1 that(1)] have "appenders st' a = Some ap" by blast
    with touchesD(6) [OF 2] used that show ?thesis by blast
  qed
  have fresh: "\<exists>lg. loggers st l = Some lg \<and> a \<in> set (lg_appenders lg)"
    if "loggers st'' l = Some lg'" "a \<in> set (lg_appenders lg')" "appenders st a = Some ap" for l lg' a ap
  proof -
    from touchesD(7) [OF 1, of a] that(3) obtain ap' where "appenders st' a = Some ap'" by fastforce
    from touchesD(8) [OF 2 that(1,2) this] touchesD(8) [OF 1 _ _ that(3)] show ?thesis by blast
  qed
  have new: "\<exists>n \<in> N \<union> M. m_loggers st'' n = Some l" if "loggers st'' l = Some lg'" "loggers st l = None" for l lg'
  proof (cases "loggers st' l")
    case None
    with touchesD(9) [OF 2 that(1)] show ?thesis by blast
  next
    case (Some lg)
    from touchesD(9) [OF 1 Some that(2)] obtain n where "n \<in> N" "m_loggers st' n = Some l" by blast
    moreover from this touchesD(2) [OF 2] have "m_loggers st'' n = Some l" by (simp add: grows_def)
    ultimately show ?thesis by blast
  qed
  have "kept_loggers (N \<union> M) st st''"
    unfolding kept_loggers_def
  proof (intro conjI allI impI)
    fix n assume "n \<notin> N \<union> M"
    then show "m_loggers st'' n = m_loggers st n" using touchesD(3) [OF 1] touchesD(3) [OF 2] by simp
  qed (use log names new in blast)+
  moreover have "kept_appenders (N \<union> M) st st''"
    unfolding kept_appenders_def using app fresh touchesD(7) [OF 1] touchesD(7) [OF 2] by blast
  moreover have "grows st st''" using touchesD(2) [OF 1] touchesD(2) [OF 2] by (rule grows_trans)
  ultimately show ?thesis using touchesD(1) [OF 2] by (simp add: touches_def)
qed

lemma touches_mono: "touches N st st' \<Longrightarrow> N \<subseteq> M \<Longrightarrow> touches M st st'"
  unfolding touches_def kept_loggers_def kept_appenders_def used_by_def by blast

lemma same_heap_touches: "log_wf st \<Longrightarrow> same_heap st st' \<Longrightarrow> touches N st st'"
  using same_heap_wf [of st st'] by (auto simp: touches_def same_heap_def kept_loggers_def kept_appenders_def)

text \<open>The logger with a name, and changing it.\<close>

definition named :: "log_state \<Rightarrow> string \<Rightarrow> nat \<Rightarrow> Logger \<Rightarrow> bool" where
  "named st name l lg \<longleftrightarrow> log_wf st \<and> m_loggers st name = Some l \<and> loggers st l = Some lg"

lemma namedD: "named st name l lg \<Longrightarrow> log_wf st" "named st name l lg \<Longrightarrow> loggers st l = Some lg"
  "named st name l lg \<Longrightarrow> m_loggers st name = Some l" "named st name l lg \<Longrightarrow> good_logger st l lg"
  "named st name l lg \<Longrightarrow> lg_name lg = name" "named st name l lg \<Longrightarrow> logger_at l st = Inr lg"
  using log_wfD(1,4) by (fastforce simp: named_def logger_at_def)+

lemma named_appender:
  assumes "named st name l lg" and "a \<in> set (lg_appenders lg)"
  shows "\<exists>ap. appenders st a = Some ap \<and> ap_formatter ap \<noteq> None \<and> a < log_next st" "used_by st {name} a"
  using assms namedD(4) [OF assms(1)] log_wfD(2) [OF namedD(1) [OF assms(1)]]
  by (auto simp: good_logger_def good_appender_def used_by_def named_def)

lemma change_logger:
  assumes n: "named st name l old" and "lg_name lg = lg_name old" "lg_root lg = lg_root old" "lg_formatter lg \<noteq> None"
    and app: "\<forall>a \<in> set (lg_appenders lg). good_appender st a"
    and old: "set (lg_appenders lg) \<subseteq> set (lg_appenders old)"
  shows "touches {name} st (set_logger l lg st) \<and> named (set_logger l lg st) name l lg"
proof -
  have "good_logger st l lg" using namedD(4) [OF n] assms by (simp add: good_logger_def)
  with set_logger_wf [OF namedD(1) [OF n] this namedD(2) [OF n]] assms(2)
  have wf: "log_wf (set_logger l lg st)" "grows st (set_logger l lg st)" by simp_all
  moreover have "kept_loggers {name} st (set_logger l lg st)"
    using namedD(3) [OF n] by (auto simp: kept_loggers_def set_logger_def)
  moreover have "kept_appenders {name} st (set_logger l lg st)"
    using namedD(2) [OF n] old by (auto simp: kept_appenders_def set_logger_def)
  moreover have "named (set_logger l lg st) name l lg" using wf namedD(3) [OF n] by (simp add: named_def set_logger_def)
  ultimately show ?thesis by (simp add: touches_def)
qed

lemma change_appender:
  assumes n: "named st name l lg" and a: "a \<in> set (lg_appenders lg)" and "ap_formatter ap \<noteq> None"
  shows "touches {name} st (set_appender a ap st) \<and> named (set_appender a ap st) name l lg"
proof -
  from named_appender(1) [OF n a] have "a < log_next st" by blast
  with set_appender_wf [OF namedD(1) [OF n] this] assms(3)
  have wf: "log_wf (set_appender a ap st)" "grows st (set_appender a ap st)" by simp_all
  moreover have "kept_appenders {name} st (set_appender a ap st)"
    using named_appender(2) [OF n a] by (auto simp: kept_appenders_def set_appender_def)
  moreover have "kept_loggers {name} st (set_appender a ap st)"
    by (auto simp: kept_loggers_def set_appender_def)
  moreover have "named (set_appender a ap st) name l lg" using wf n by (simp add: named_def set_appender_def)
  ultimately show ?thesis by (simp add: touches_def)
qed

lemma getLogger_ok:
  assumes wf: "log_wf st" and g: "getLogger name st = (l, st')"
  shows "\<exists>lg. named st' name l lg \<and> touches {name} st st'
    \<and> (m_loggers st name = None \<longrightarrow> lg = (Logger_new name)\<lparr>lg_root := Some (m_root st)\<rparr>)
    \<and> (\<forall>l. m_loggers st name = Some l \<longrightarrow> st' = st)"
proof (cases "m_loggers st name")
  case (Some k)
  with wf g log_wfD(4) [OF wf Some] show ?thesis by (auto simp: getLogger_def named_def intro: touches_refl)
next
  case None
  let ?lg = "(Logger_new name)\<lparr>lg_root := Some (m_root st)\<rparr>" and ?l = "log_next st"
  have st': "l = ?l" "st' = set_logger ?l ?lg (st\<lparr>m_loggers := (m_loggers st)(name \<mapsto> ?l), log_next := ?l + 1\<rparr>)"
    using g None by (auto simp: getLogger_def Let_def)
  have new: "loggers st ?l = None" using log_wfD(1) [OF wf, of ?l] by (cases "loggers st ?l") (auto simp: good_logger_def)
  obtain root where root: "loggers st (m_root st) = Some root" using log_wfD(3) [OF wf] by blast
  then have r: "m_root st < ?l" using log_wfD(1) [OF wf root] by (simp add: good_logger_def)
  have g: "grows st st'" using None by (auto simp: st' grows_def set_logger_def good_appender_def)
  have "log_wf st'"
    unfolding log_wf_def
  proof (intro conjI allI impI)
    fix k lg assume k: "loggers st' k = Some lg"
    show "good_logger st' k lg"
    proof (cases "k = ?l")
      case True
      with k r show ?thesis by (auto simp: st' set_logger_def good_logger_def Logger_new_def)
    next
      case False
      with k have "loggers st k = Some lg" by (simp add: st' set_logger_def)
      from good_logger_grows [OF log_wfD(1) [OF wf this] g] show ?thesis .
    qed
  next
    fix a assume "appenders st' a \<noteq> None"
    with log_wfD(2) [OF wf, of a] show "a < log_next st'" by (auto simp: st' set_logger_def)
  next
    show "loggers st' (m_root st') \<noteq> None" using root by (simp add: st' set_logger_def)
  next
    fix n k assume n: "m_loggers st' n = Some k"
    show "\<exists>lg. loggers st' k = Some lg \<and> lg_name lg = n"
    proof (cases "n = name")
      case True
      with n show ?thesis by (simp add: st' set_logger_def Logger_new_def)
    next
      case False
      with n have "m_loggers st n = Some k" by (simp add: st' set_logger_def)
      from log_wfD(4) [OF wf this] new show ?thesis by (auto simp: st' set_logger_def)
    qed
  qed
  moreover have "kept_loggers {name} st st'" using new None by (auto simp: kept_loggers_def st' set_logger_def)
  moreover have "kept_appenders {name} st st'" using new by (auto simp: kept_appenders_def st' set_logger_def Logger_new_def)
  ultimately have "touches {name} st st'" "named st' name l ?lg"
    using g by (simp_all add: touches_def named_def) (simp add: st' set_logger_def)
  with None show ?thesis by auto
qed

text \<open>The operations of a logger.\<close>

lemma setLevel_ok:
  assumes n: "named st name l lg"
  shows "\<exists>st'. lg_setLevel l val st = Inr st' \<and> touches {name} st st' \<and> named st' name l (lg\<lparr>lg_level := val\<rparr>)"
  using change_logger [OF n, of "lg\<lparr>lg_level := val\<rparr>"] namedD(4,6) [OF n]
  by (simp add: lg_setLevel_def good_logger_def)

lemma clearAppenders_ok:
  assumes n: "named st name l lg"
  shows "\<exists>st'. clearAppenders l st = Inr st' \<and> touches {name} st st' \<and> named st' name l (lg\<lparr>lg_appenders := []\<rparr>)"
  using change_logger [OF n, of "lg\<lparr>lg_appenders := []\<rparr>"] namedD(4,6) [OF n]
  by (simp add: clearAppenders_def good_logger_def)

lemma touches_step: "touches N st st' \<Longrightarrow> touches N st' st'' \<Longrightarrow> touches N st st''"
  using touches_trans [of N st st' N st''] by simp

lemma setFormatter_ok:
  assumes n: "named st name l lg"
  shows "\<exists>st'. lg_setFormatter l (Some f) st = Inr st' \<and> touches {name} st st' \<and> named st' name l (lg\<lparr>lg_formatter := Some f\<rparr>)"
proof -
  let ?lg = "lg\<lparr>lg_formatter := Some f\<rparr>" and ?st = "set_logger l (lg\<lparr>lg_formatter := Some f\<rparr>) st"
  have s: "touches {name} st ?st" "named ?st name l ?lg"
    using change_logger [OF n, of ?lg] namedD(4) [OF n] by (simp_all add: good_logger_def)
  have "\<exists>st'. foldE (inherit (Some f)) (lg_appenders lg) ?st = Inr st' \<and> (touches {name} st st' \<and> named st' name l ?lg)"
  proof (rule foldE_total [where R = "\<lambda>_ t. touches {name} st t \<and> named t name l ?lg"])
    fix a t
    assume t: "touches {name} st t \<and> named t name l ?lg" and a: "a \<in> set (lg_appenders lg)"
    from a have a': "a \<in> set (lg_appenders ?lg)" by simp
    from named_appender(1) [OF conjunct2 [OF t] a'] obtain ap where ap: "appenders t a = Some ap" by auto
    have "touches {name} t (set_appender a (ap\<lparr>ap_formatter := Some f\<rparr>) t)
        \<and> named (set_appender a (ap\<lparr>ap_formatter := Some f\<rparr>) t) name l ?lg"
      using change_appender [OF conjunct2 [OF t] a', of "ap\<lparr>ap_formatter := Some f\<rparr>"] by simp
    with t ap show "\<exists>t'. inherit (Some f) a t = Inr t' \<and> (touches {name} st t' \<and> named t' name l ?lg)"
      by (auto simp: inherit_def appender_at_def intro: touches_step)
  qed (use s in simp_all)
  then show ?thesis using namedD(6) [OF n] by (simp add: lg_setFormatter_def)
qed

text \<open>Output.\<close>

lemma out_ok:
  "named st name l lg \<Longrightarrow> touches N st (st\<lparr>std_out := s\<rparr>) \<and> named (st\<lparr>std_out := s\<rparr>) name l lg"
proof -
  assume n: "named st name l lg"
  have h: "same_heap st (st\<lparr>std_out := s\<rparr>)" by (simp add: same_heap_def)
  with n same_heap_wf [OF namedD(1) [OF n] h] same_heap_touches [OF namedD(1) [OF n] h] show ?thesis
    by (simp add: named_def)
qed

lemma setPattern_ok:
  assumes n: "named st name l lg"
  shows "\<exists>st'. lg_setPattern l val st = Inr st' \<and> touches {name} st st'
    \<and> named st' name l (if m_error (LogFormatter_new val) then lg else lg\<lparr>lg_formatter := Some (LogFormatter_new val)\<rparr>)"
proof -
  let ?st = "st\<lparr>std_out := std_out st @ ''---'' @ val @ [CHR 0x0A]\<rparr>"
  have o1: "touches {name} st ?st" "named ?st name l lg" using out_ok [OF n] by simp_all
  show ?thesis
  proof (cases "m_error (LogFormatter_new val)")
    case True
    then show ?thesis using out_ok [OF o1(2)] namedD(6) [OF n] o1(1)
      by (auto simp: lg_setPattern_def Let_def intro: touches_step)
  next
    case False
    from setFormatter_ok [OF o1(2), of "LogFormatter_new val"] obtain st' where
      "lg_setFormatter l (Some (LogFormatter_new val)) ?st = Inr st'" "touches {name} ?st st'"
      "named st' name l (lg\<lparr>lg_formatter := Some (LogFormatter_new val)\<rparr>)" by blast
    with False o1(1) namedD(6) [OF n] show ?thesis
      by (auto simp: lg_setPattern_def Let_def intro: touches_step)
  qed
qed

text \<open>A new appender is added to a logger.\<close>

lemma add_new_appender:
  assumes n: "named st name l lg" and lg: "loggers st' = (loggers st)(l \<mapsto> lg\<lparr>lg_appenders := lg_appenders lg @ [a]\<rparr>)"
    and ap: "appenders st' = (appenders st)(a \<mapsto> ap)" "ap_formatter ap \<noteq> None"
    and rest: "m_loggers st' = m_loggers st" "m_root st' = m_root st" "m_async st' = m_async st"
      "log_next st \<le> a" "a < log_next st'"
  shows "touches {name} st st' \<and> named st' name l (lg\<lparr>lg_appenders := lg_appenders lg @ [a]\<rparr>) \<and> appenders st a = None"
proof -
  have wf: "log_wf st" by (rule namedD(1) [OF n])
  have new: "appenders st a = None" using log_wfD(2) [OF wf, of a] rest(4) by (cases "appenders st a") auto
  have g: "grows st st'" using new lg ap rest by (auto simp: grows_def good_appender_def)
  have "log_wf st'"
    unfolding log_wf_def
  proof (intro conjI allI impI)
    fix k lg' assume k: "loggers st' k = Some lg'"
    show "good_logger st' k lg'"
    proof (cases "k = l")
      case True
      with k lg have "lg' = lg\<lparr>lg_appenders := lg_appenders lg @ [a]\<rparr>" by simp
      moreover have "good_appender st' a" using ap by (simp add: good_appender_def)
      moreover have "good_logger st' l lg" using good_logger_grows [OF namedD(4) [OF n] g] .
      ultimately show ?thesis using True by (auto simp: good_logger_def)
    next
      case False
      with k lg have "loggers st k = Some lg'" by simp
      from good_logger_grows [OF log_wfD(1) [OF wf this] g] show ?thesis .
    qed
  next
    fix b assume "appenders st' b \<noteq> None"
    with ap log_wfD(2) [OF wf, of b] rest show "b < log_next st'" by (auto split: if_splits)
  next
    show "loggers st' (m_root st') \<noteq> None" using log_wfD(3) [OF wf] lg rest by auto
  next
    fix n' k assume "m_loggers st' n' = Some k"
    with log_wfD(4) [OF wf, of n' k] rest lg namedD(2) [OF n]
    show "\<exists>lg. loggers st' k = Some lg \<and> lg_name lg = n'" by auto
  qed
  moreover have "kept_loggers {name} st st'"
    using lg rest namedD(3) [OF n] namedD(2) [OF n] by (auto simp: kept_loggers_def)
  moreover have "kept_appenders {name} st st'"
    using lg ap new namedD(2) [OF n] by (auto simp: kept_appenders_def)
  ultimately show ?thesis using g lg rest new namedD(3) [OF n] by (simp add: touches_def named_def)
qed

definition shown :: "bool \<Rightarrow> LogAppenderDefine \<Rightarrow> bool" where
  "shown no_stdout d \<longleftrightarrow> \<not> (lad_type d = 2 \<and> no_stdout)"

text \<open>The appender a definition asks for; \<open>fmt\<close> is the formatter of its logger.\<close>

definition appender_made :: "LogAppenderDefine \<Rightarrow> LogFormatter option \<Rightarrow> LogAppender \<Rightarrow> bool" where
  "appender_made d fmt ap \<longleftrightarrow>
     ap_kind ap = (if lad_type d = 1 then FileLogAppender (lad_file d) else StdoutLogAppender)
     \<and> ap_level ap = lad_level d
     \<and> (let own = LogFormatter_new (lad_formatter d); has = (lad_formatter d \<noteq> [] \<and> \<not> m_error own)
        in ap_hasFormatter ap = has \<and> ap_formatter ap = (if has then Some own else fmt))"

definition proper_define :: "LogAppenderDefine \<Rightarrow> bool" where
  "proper_define d \<longleftrightarrow> lad_type d = 1 \<or> lad_type d = 2"

lemma Appender_new_effect:
  assumes "Appender_new env kind st = (a, st1)"
  shows "\<exists>ap. ap_kind ap = kind \<and> ap_hasFormatter ap = False \<and> ap_formatter ap = None
    \<and> appenders st1 = (appenders st)(a \<mapsto> ap) \<and> loggers st1 = loggers st \<and> m_loggers st1 = m_loggers st
    \<and> m_root st1 = m_root st \<and> m_async st1 = m_async st \<and> log_next st \<le> a \<and> a < log_next st1"
proof (cases kind)
  case StdoutLogAppender
  with assms show ?thesis
    by (intro exI [of _ "new_appender kind"]) (auto simp: Appender_new_def Let_def set_appender_def new_appender_def)
next
  case (FileLogAppender f)
  obtain ap st0 where r: "reopen env f (new_appender kind) st = (ap, st0)" by fastforce
  from reopen_effect [OF r] FileLogAppender r assms show ?thesis
    by (auto simp: Appender_new_def Let_def set_appender_def new_appender_def same_heap_def)
qed

lemma config_appender_ok:
  assumes n: "named st name l lg" and d: "proper_define d"
  shows "\<exists>st' as. config_appender env ns log_name l d st = Inr st' \<and> touches {name} st st'
    \<and> named st' name l (lg\<lparr>lg_appenders := lg_appenders lg @ as\<rparr>)
    \<and> (\<forall>b ap. appenders st b = Some ap \<longrightarrow> appenders st' b = Some ap)
    \<and> list_all2 (\<lambda>d a. appenders st a = None \<and> (\<exists>ap. appenders st' a = Some ap \<and> appender_made d (lg_formatter lg) ap))
        (filter (shown ns) [d]) as"
proof (cases "shown ns d")
  case False
  then show ?thesis using n namedD(1) [OF n]
    by (intro exI [of _ st] exI [of _ "[]"]) (auto simp: config_appender_def shown_def intro: touches_refl)
next
  case True
  let ?kind = "if lad_type d = 1 then FileLogAppender (lad_file d) else StdoutLogAppender"
  obtain a st1 where new: "Appender_new env ?kind st = (a, st1)" by fastforce
  from Appender_new_effect [OF new] obtain ap where ap: "ap_kind ap = ?kind" "ap_hasFormatter ap = False" "ap_formatter ap = None"
    "appenders st1 = (appenders st)(a \<mapsto> ap)" and st1: "loggers st1 = loggers st" "m_loggers st1 = m_loggers st"
    "m_root st1 = m_root st" "m_async st1 = m_async st" "log_next st \<le> a" "a < log_next st1" by blast
  let ?own = "LogFormatter_new (lad_formatter d)"
  let ?has = "lad_formatter d \<noteq> [] \<and> \<not> m_error ?own"
  let ?ap = "if ?has then ap\<lparr>ap_level := lad_level d, ap_formatter := Some ?own, ap_hasFormatter := True\<rparr>
    else ap\<lparr>ap_level := lad_level d, ap_formatter := lg_formatter lg\<rparr>"
  have f: "ap_formatter ?ap \<noteq> None" using namedD(4) [OF n] by (auto simp: good_logger_def)
  have lg: "loggers st1 l = Some lg" using namedD(2) [OF n] st1 by simp
  have proper: "\<not> (lad_type d = 2 \<and> ns)" "\<not> (lad_type d \<noteq> 1 \<and> lad_type d \<noteq> 2)"
    using d True by (auto simp: proper_define_def shown_def)
  let ?out = "std_out st1 @ ''log.name='' @ log_name @ '' appender type='' @ to_string (lad_type d)
    @ '' formatter='' @ lad_formatter d @ '' is invalid'' @ [CHR 0x0A]"
  let ?st2 = "if lad_formatter d \<noteq> [] \<and> m_error ?own then st1\<lparr>std_out := ?out\<rparr> else st1"
  define st' where "st' = set_logger l (lg\<lparr>lg_appenders := lg_appenders lg @ [a]\<rparr>) (set_appender a ?ap ?st2)"
  have call: "config_appender env ns log_name l d st = Inr st'"
  proof -
    have app: "appender_at a st1 = Inr ap" using ap by (simp add: appender_at_def)
    have kinds: "(lad_type d = 2 \<and> ns) = False" "(lad_type d \<noteq> 1 \<and> lad_type d \<noteq> 2) = False" using proper by blast+
    show ?thesis unfolding config_appender_def kinds if_False new Let_def prod.case
      using lg st1 ap f app
      by (cases "lad_formatter d = []"; cases "m_error ?own")
        (simp_all add: st'_def addAppender_def logger_at_def appender_at_def
          set_appender_def set_logger_def ap_setLevel_def ap_setFormatter_def)
  qed
  have st': "loggers st' = (loggers st)(l \<mapsto> lg\<lparr>lg_appenders := lg_appenders lg @ [a]\<rparr>)" "appenders st' = (appenders st)(a \<mapsto> ?ap)"
    "m_loggers st' = m_loggers st" "m_root st' = m_root st" "m_async st' = m_async st" "log_next st' = log_next st1"
    using st1 ap(4) by (simp_all add: st'_def set_logger_def set_appender_def)
  have a: "a < log_next st'" using st'(6) st1(6) by simp
  note ok = add_new_appender [OF n st'(1,2) f st'(3,4,5) st1(5) a]
  have "appender_made d (lg_formatter lg) ?ap" using ap(1,2) by (auto simp: appender_made_def Let_def)
  with ok call st'(2) True show ?thesis
    by (intro exI [of _ st'] exI [of _ "[a]"]) auto
qed

lemma config_appenders_ok:
  assumes "named st name l lg" and "\<forall>d \<in> set ds. proper_define d"
  shows "\<exists>st' as. foldE (config_appender env ns log_name l) ds st = Inr st' \<and> touches {name} st st'
    \<and> named st' name l (lg\<lparr>lg_appenders := lg_appenders lg @ as\<rparr>)
    \<and> (\<forall>b ap. appenders st b = Some ap \<longrightarrow> appenders st' b = Some ap)
    \<and> list_all2 (\<lambda>d a. appenders st a = None \<and> (\<exists>ap. appenders st' a = Some ap \<and> appender_made d (lg_formatter lg) ap))
        (filter (shown ns) ds) as"
  using assms
proof (induction ds arbitrary: st lg)
  case Nil
  then show ?case by (intro exI [of _ st] exI [of _ "[]"]) (auto simp: named_def intro: touches_refl)
next
  case (Cons d ds)
  from Cons.prems(2) have "proper_define d" by simp
  from config_appender_ok [OF Cons.prems(1) this, of env ns log_name] obtain st1 as1 where
    1: "config_appender env ns log_name l d st = Inr st1" "touches {name} st st1"
      "named st1 name l (lg\<lparr>lg_appenders := lg_appenders lg @ as1\<rparr>)"
      "\<forall>b ap. appenders st b = Some ap \<longrightarrow> appenders st1 b = Some ap"
      "list_all2 (\<lambda>d a. appenders st a = None \<and> (\<exists>ap. appenders st1 a = Some ap \<and> appender_made d (lg_formatter lg) ap))
        (filter (shown ns) [d]) as1" by blast
  from Cons.IH [OF 1(3)] Cons.prems(2) obtain st2 as2 where
    2: "foldE (config_appender env ns log_name l) ds st1 = Inr st2" "touches {name} st1 st2"
      "named st2 name l (lg\<lparr>lg_appenders := (lg_appenders lg @ as1) @ as2\<rparr>)"
      "\<forall>b ap. appenders st1 b = Some ap \<longrightarrow> appenders st2 b = Some ap"
      "list_all2 (\<lambda>d a. appenders st1 a = None \<and> (\<exists>ap. appenders st2 a = Some ap \<and> appender_made d (lg_formatter lg) ap))
        (filter (shown ns) ds) as2" by auto
  have "list_all2 (\<lambda>d a. appenders st a = None \<and> (\<exists>ap. appenders st2 a = Some ap \<and> appender_made d (lg_formatter lg) ap))
      (filter (shown ns) [d] @ filter (shown ns) ds) (as1 @ as2)"
  proof (rule list_all2_appendI)
    show "list_all2 (\<lambda>d a. appenders st a = None \<and> (\<exists>ap. appenders st2 a = Some ap \<and> appender_made d (lg_formatter lg) ap))
        (filter (shown ns) [d]) as1"
      by (rule list_all2_mono [OF 1(5)]) (use 2(4) in blast)
    show "list_all2 (\<lambda>d a. appenders st a = None \<and> (\<exists>ap. appenders st2 a = Some ap \<and> appender_made d (lg_formatter lg) ap))
        (filter (shown ns) ds) as2"
      by (rule list_all2_mono [OF 2(5)]) (use touchesD(7) [OF 1(2)] in blast)
  qed
  moreover have "touches {name} st st2" using touches_step [OF 1(2) 2(2)] .
  ultimately show ?case using 1(1,4) 2(1,3,4)
    by (intro exI [of _ st2] exI [of _ "as1 @ as2"]) (auto split: if_splits)
qed

text \<open>What a definition promises: its logger has the level, the formatter if there is a good one, and
  exactly the appenders asked for, which no other logger uses.\<close>

definition configured :: "bool \<Rightarrow> LogDefine \<Rightarrow> log_state \<Rightarrow> bool" where
  "configured ns i st \<longleftrightarrow>
     (\<exists>l lg. named st (ld_name i) l lg \<and> lg_level lg = ld_level i
       \<and> (ld_formatter i \<noteq> [] \<and> \<not> m_error (LogFormatter_new (ld_formatter i))
           \<longrightarrow> lg_formatter lg = Some (LogFormatter_new (ld_formatter i)))
       \<and> list_all2 (\<lambda>d a. \<exists>ap. appenders st a = Some ap \<and> appender_made d (lg_formatter lg) ap)
           (filter (shown ns) (ld_appenders i)) (lg_appenders lg)
       \<and> (\<forall>l' lg'. loggers st l' = Some lg' \<and> l' \<noteq> l \<longrightarrow> set (lg_appenders lg') \<inter> set (lg_appenders lg) = {}))"

definition dropped :: "string \<Rightarrow> log_state \<Rightarrow> bool" where
  "dropped name st \<longleftrightarrow> (\<exists>l lg. named st name l lg \<and> lg_level lg = UNKNOW \<and> lg_appenders lg = [])"

lemma named_unique: "named st n l lg \<Longrightarrow> named st n' l lg' \<Longrightarrow> n' = n"
  using namedD(2,5) by (metis option.inject)

lemma named_touches:
  assumes n: "named st n l lg" and t: "touches N st st'" and "n \<notin> N"
  shows "named st' n l lg"
proof -
  have "m_loggers st n' \<noteq> Some l" if "n' \<in> N" for n'
    using named_unique [OF n, of n' lg] n that assms(3) by (auto simp: named_def)
  then show ?thesis using n touchesD(1,3,4) [OF t] assms(3) by (auto simp: named_def)
qed

lemma configured_touches:
  assumes c: "configured ns i st" and t: "touches N st st'" and i: "ld_name i \<notin> N"
  shows "configured ns i st'"
proof -
  from c obtain l lg where n: "named st (ld_name i) l lg" and lg: "lg_level lg = ld_level i"
      "ld_formatter i \<noteq> [] \<and> \<not> m_error (LogFormatter_new (ld_formatter i))
        \<longrightarrow> lg_formatter lg = Some (LogFormatter_new (ld_formatter i))"
    and made: "list_all2 (\<lambda>d a. \<exists>ap. appenders st a = Some ap \<and> appender_made d (lg_formatter lg) ap)
        (filter (shown ns) (ld_appenders i)) (lg_appenders lg)"
    and own: "\<forall>l' lg'. loggers st l' = Some lg' \<and> l' \<noteq> l \<longrightarrow> set (lg_appenders lg') \<inter> set (lg_appenders lg) = {}"
    unfolding configured_def by blast
  have n': "named st' (ld_name i) l lg" by (rule named_touches [OF n t i])
  have used: "\<exists>ap. appenders st a = Some ap" if "a \<in> set (lg_appenders lg)" for a
    using named_appender(1) [OF n that] by blast
  have "\<not> used_by st N a" if "a \<in> set (lg_appenders lg)" for a
  proof
    assume "used_by st N a"
    then obtain n' l' lg' where u: "n' \<in> N" "m_loggers st n' = Some l'" "loggers st l' = Some lg'" "a \<in> set (lg_appenders lg')"
      by (auto simp: used_by_def)
    with own that have "l' = l" by blast
    with u n have "named st n' l lg'" by (simp add: named_def)
    from named_unique [OF n this] u(1) i show False by simp
  qed
  then have same: "appenders st' a = Some ap" if "appenders st a = Some ap" "a \<in> set (lg_appenders lg)" for a ap
    using touchesD(6) [OF t] that by blast
  have "list_all2 (\<lambda>d a. \<exists>ap. appenders st' a = Some ap \<and> appender_made d (lg_formatter lg) ap)
      (filter (shown ns) (ld_appenders i)) (lg_appenders lg)"
    by (rule list.rel_mono_strong [OF made]) (use same in blast)
  moreover have "set (lg_appenders lg') \<inter> set (lg_appenders lg) = {}" if "loggers st' l' = Some lg'" "l' \<noteq> l" for l' lg'
  proof -
    have False if a: "a \<in> set (lg_appenders lg')" "a \<in> set (lg_appenders lg)" for a
    proof -
      from used [OF a(2)] obtain ap where "appenders st a = Some ap" by blast
      from touchesD(8) [OF t \<open>loggers st' l' = Some lg'\<close> a(1) this] own a(2) \<open>l' \<noteq> l\<close> show False by blast
    qed
    then show ?thesis by blast
  qed
  ultimately show ?thesis unfolding configured_def using n' lg by blast
qed

lemma dropped_touches: "dropped n st \<Longrightarrow> touches N st st' \<Longrightarrow> n \<notin> N \<Longrightarrow> dropped n st'"
  unfolding dropped_def using named_touches by blast

definition proper_logger :: "LogDefine \<Rightarrow> bool" where
  "proper_logger i \<longleftrightarrow> (\<forall>d \<in> set (ld_appenders i). proper_define d)"

lemma config_logger_ok:
  assumes wf: "log_wf st" and i: "proper_logger i" and changed: "find_define (ld_name i) old \<noteq> Some i"
  shows "\<exists>st'. config_logger env ns old i st = Inr st' \<and> touches {ld_name i} st st' \<and> configured ns i st'"
proof -
  let ?name = "ld_name i"
  obtain l st1 where g: "getLogger ?name st = (l, st1)" by fastforce
  from getLogger_ok [OF wf g] obtain lg1 where 1: "named st1 ?name l lg1" "touches {?name} st st1" by blast
  from setLevel_ok [OF 1(1), of "ld_level i"] obtain st2 where
    2: "lg_setLevel l (ld_level i) st1 = Inr st2" "touches {?name} st1 st2" "named st2 ?name l (lg1\<lparr>lg_level := ld_level i\<rparr>)" by blast
  obtain st3 lg3 where
    3: "(if ld_formatter i \<noteq> [] then lg_setPattern l (ld_formatter i) st2 else Inr st2) = Inr st3" "touches {?name} st2 st3"
      "named st3 ?name l lg3" "lg_level lg3 = ld_level i"
      "ld_formatter i \<noteq> [] \<and> \<not> m_error (LogFormatter_new (ld_formatter i)) \<longrightarrow> lg_formatter lg3 = Some (LogFormatter_new (ld_formatter i))"
  proof (cases "ld_formatter i = []")
    case True
    with 2(3) namedD(1) [OF 2(3)] show ?thesis
      by (intro that [of st2 "lg1\<lparr>lg_level := ld_level i\<rparr>"]) (auto intro: touches_refl)
  next
    case False
    with setPattern_ok [OF 2(3), of "ld_formatter i"] show ?thesis by (auto intro: that split: if_splits)
  qed
  from clearAppenders_ok [OF 3(3)] obtain st4 where
    4: "clearAppenders l st3 = Inr st4" "touches {?name} st3 st4" "named st4 ?name l (lg3\<lparr>lg_appenders := []\<rparr>)" by blast
  from config_appenders_ok [OF 4(3), of "ld_appenders i" env ns ?name] i obtain st5 as where
    5: "foldE (config_appender env ns ?name l) (ld_appenders i) st4 = Inr st5" "touches {?name} st4 st5"
      "named st5 ?name l (lg3\<lparr>lg_appenders := as\<rparr>)"
      "list_all2 (\<lambda>d a. appenders st4 a = None \<and> (\<exists>ap. appenders st5 a = Some ap \<and> appender_made d (lg_formatter lg3) ap))
        (filter (shown ns) (ld_appenders i)) as"
    by (auto simp: proper_logger_def)
  have call: "config_logger env ns old i st = Inr st5"
    using changed g 2(1) 3(1) 4(1) 5(1) by (simp add: config_logger_def)
  have t: "touches {?name} st st5"
    by (meson 1(2) 2(2) 3(2) 4(2) 5(2) touches_step)
  have fresh: "appenders st4 a = None" if "a \<in> set as" for a
    using 5(4) that by (auto simp: list_all2_conv_all_nth in_set_conv_nth)
  have "set (lg_appenders lg') \<inter> set as = {}" if l': "loggers st5 l' = Some lg'" "l' \<noteq> l" for l' lg'
  proof (cases "loggers st4 l'")
    case None
    with touchesD(9) [OF 5(2) l'(1)] 5(3) l'(2) show ?thesis by (simp add: named_def)
  next
    case (Some lg4)
    with touchesD(4) [OF 5(2) Some] 4(3) l' have "lg' = lg4" by (simp add: named_def)
    moreover have "good_appender st4 a" if "a \<in> set (lg_appenders lg4)" for a
      using log_wfD(1) [OF namedD(1) [OF 4(3)] Some] that by (simp add: good_logger_def)
    ultimately show ?thesis using fresh by (fastforce simp: good_appender_def)
  qed
  moreover have "list_all2 (\<lambda>d a. \<exists>ap. appenders st5 a = Some ap \<and> appender_made d (lg_formatter lg3) ap)
      (filter (shown ns) (ld_appenders i)) as"
    by (rule list_all2_mono [OF 5(4)]) blast
  ultimately have "configured ns i st5"
    unfolding configured_def using 5(3) 3(4,5) by (intro exI [of _ l] exI [of _ "lg3\<lparr>lg_appenders := as\<rparr>"] conjI) auto
  with call t show ?thesis by blast
qed

lemma drop_logger_ok:
  assumes wf: "log_wf st" and gone: "find_define (ld_name i) new = None"
  shows "\<exists>st'. drop_logger new i st = Inr st' \<and> touches {ld_name i} st st' \<and> dropped (ld_name i) st'"
proof -
  let ?name = "ld_name i"
  obtain l st1 where g: "getLogger ?name st = (l, st1)" by fastforce
  from getLogger_ok [OF wf g] obtain lg1 where 1: "named st1 ?name l lg1" "touches {?name} st st1" by blast
  from setLevel_ok [OF 1(1), of UNKNOW] obtain st2 where
    2: "lg_setLevel l UNKNOW st1 = Inr st2" "touches {?name} st1 st2" "named st2 ?name l (lg1\<lparr>lg_level := UNKNOW\<rparr>)" by blast
  from clearAppenders_ok [OF 2(3)] obtain st3 where
    3: "clearAppenders l st2 = Inr st3" "touches {?name} st2 st3"
      "named st3 ?name l (lg1\<lparr>lg_level := UNKNOW, lg_appenders := []\<rparr>)" by auto
  have "drop_logger new i st = Inr st3" using gone g 2(1) 3(1) by (simp add: drop_logger_def)
  moreover have "touches {?name} st st3" by (meson 1(2) 2(2) 3(2) touches_step)
  moreover have "dropped ?name st3" using 3(3) unfolding dropped_def by force
  ultimately show ?thesis by blast
qed

text \<open>A loop over definitions with different names; \<open>T i\<close> are the names its step touches.\<close>

lemma fold_touches:
  assumes wf: "log_wf s" and names: "distinct (map ld_name xs)" "\<And>i. T i \<subseteq> {ld_name i}"
    and step: "\<And>i t. i \<in> set xs \<Longrightarrow> log_wf t \<Longrightarrow> \<exists>t'. f i t = Inr t' \<and> touches (T i) t t' \<and> Q i t'"
    and stable: "\<And>i t t' N. Q i t \<Longrightarrow> touches N t t' \<Longrightarrow> ld_name i \<notin> N \<Longrightarrow> Q i t'"
  shows "\<exists>t. foldE f xs s = Inr t \<and> touches (\<Union> (T ` set xs)) s t \<and> (\<forall>i \<in> set xs. Q i t)"
  using names(1) step
proof (induction xs rule: rev_induct)
  case Nil
  with wf show ?case by (auto intro: touches_refl)
next
  case (snoc i xs)
  have d: "distinct (map ld_name xs)" using snoc.prems(1) by simp
  from snoc.IH [OF d] snoc.prems(2) obtain t where
    t: "foldE f xs s = Inr t" "touches (\<Union> (T ` set xs)) s t" "\<forall>i \<in> set xs. Q i t" by auto
  from snoc.prems(2) [of i t] touchesD(1) [OF t(2)] obtain t' where
    t': "f i t = Inr t'" "touches (T i) t t'" "Q i t'" by auto
  have "Q j t'" if "j \<in> set xs" for j
  proof -
    have "ld_name j \<noteq> ld_name i" using snoc.prems(1) that by (auto simp: image_iff)
    with names(2) have "ld_name j \<notin> T i" by blast
    with stable [OF _ t'(2)] t(3) that show ?thesis by blast
  qed
  then show ?case
    using t t' touches_trans [OF t(2) t'(2)] by (auto simp: foldE_append Un_commute)
qed

text \<open>The listener.\<close>

lemma configuration_changed_ok:
  assumes wf: "log_wf st" and new: "\<forall>i \<in> set new. proper_logger i"
    and names: "distinct (map ld_name old)" "distinct (map ld_name new)"
  shows "\<exists>st'. on_logger_conf_changed env no_stdout old new st = Inr st' \<and> log_wf st'
    \<and> (\<forall>i \<in> set new. i \<notin> set old \<longrightarrow> configured no_stdout i st')
    \<and> (\<forall>i \<in> set old. ld_name i \<notin> ld_name ` set new \<longrightarrow> dropped (ld_name i) st')
    \<and> (\<forall>name l lg. named st name l lg
        \<and> name \<notin> ld_name ` (set new - set old) \<and> name \<notin> ld_name ` set old - ld_name ` set new \<longrightarrow> named st' name l lg)"
proof -
  let ?T = "\<lambda>i. if i \<in> set old then {} else {ld_name i}" and ?U = "\<lambda>i. if find_define (ld_name i) new = None then {ld_name i} else {}"
  have find: "find_define (ld_name i) ds = Some i \<longleftrightarrow> i \<in> set ds" if "distinct (map ld_name ds)" for i ds
  proof -
    have "find (\<lambda>d. ld_name d = ld_name i) ds = Some i \<longleftrightarrow> i \<in> set ds"
      using that by (induction ds) force+
    then show ?thesis by (simp add: find_define_def)
  qed
  have gone: "find_define n ds = None \<longleftrightarrow> n \<notin> ld_name ` set ds" for n ds
    by (auto simp: find_define_def find_None_iff)
  have "\<exists>t. foldE (config_logger env no_stdout old) new st = Inr t \<and> touches (\<Union> (?T ` set new)) st t
      \<and> (\<forall>i \<in> set new. i \<notin> set old \<longrightarrow> configured no_stdout i t)"
  proof (rule fold_touches [OF wf names(2)])
    fix i t assume "i \<in> set new" "log_wf t"
    with new config_logger_ok [of t i old env no_stdout] find [OF names(1), of i]
    show "\<exists>t'. config_logger env no_stdout old i t = Inr t' \<and> touches (?T i) t t' \<and> (i \<notin> set old \<longrightarrow> configured no_stdout i t')"
      by (cases "i \<in> set old") (auto simp: config_logger_def intro: touches_refl)
  qed (auto intro: configured_touches)
  then obtain t where t: "foldE (config_logger env no_stdout old) new st = Inr t" "touches (\<Union> (?T ` set new)) st t"
    "\<forall>i \<in> set new. i \<notin> set old \<longrightarrow> configured no_stdout i t" by blast
  have "\<exists>t'. foldE (drop_logger new) old t = Inr t' \<and> touches (\<Union> (?U ` set old)) t t'
      \<and> (\<forall>i \<in> set old. find_define (ld_name i) new = None \<longrightarrow> dropped (ld_name i) t')"
  proof (rule fold_touches [OF touchesD(1) [OF t(2)] names(1)])
    fix i s assume "log_wf s"
    with drop_logger_ok [of s i new]
    show "\<exists>t'. drop_logger new i s = Inr t' \<and> touches (?U i) s t' \<and> (find_define (ld_name i) new = None \<longrightarrow> dropped (ld_name i) t')"
      by (cases "find_define (ld_name i) new") (auto simp: drop_logger_def intro: touches_refl)
  qed (auto intro: dropped_touches)
  then obtain t' where t': "foldE (drop_logger new) old t = Inr t'" "touches (\<Union> (?U ` set old)) t t'"
    "\<forall>i \<in> set old. find_define (ld_name i) new = None \<longrightarrow> dropped (ld_name i) t'" by blast
  have "configured no_stdout i t'" if "i \<in> set new" "i \<notin> set old" for i
    by (rule configured_touches [OF _ t'(2)]) (use t(3) that gone in \<open>force simp: image_iff split: if_splits\<close>)+
  moreover have "named t' n l lg" if "named st n l lg" "n \<notin> ld_name ` (set new - set old)" "n \<notin> ld_name ` set old - ld_name ` set new" for n l lg
    by (rule named_touches [OF named_touches [OF that(1) t(2)] t'(2)]) (use that gone in \<open>auto split: if_splits\<close>)
  ultimately show ?thesis
    using t(1) t' gone touchesD(1) [OF t'(2)] by (auto simp: on_logger_conf_changed_def)
qed

text \<open>A logger without appenders at the lowest level does what the root does with the same event.\<close>

lemma dropped_logs_to_root:
  assumes "named st name l lg" and "lg_level lg = UNKNOW" and "lg_appenders lg = []" and "lg_root lg = Some r"
    and "\<not> m_async st"
  shows "Logger_log env l level ev st = Logger_log env r level ev st"
proof -
  have l: "logger_at l st = Inr lg" using namedD(2) [OF assms(1)] by (simp add: logger_at_def)
  have r: "r = m_root st" using namedD(4) [OF assms(1)] assms(4) by (auto simp: good_logger_def split: if_splits)
  then obtain root where root: "loggers st r = Some root" using log_wfD(3) [OF namedD(1) [OF assms(1)]] by blast
  then have "lg_root root = None" using log_wfD(1) [OF namedD(1) [OF assms(1)] root] r by (simp add: good_logger_def)
  moreover have "\<not> level < UNKNOW" by (cases level) (simp_all add: less_Level_def)
  ultimately show ?thesis
    using assms(2-5) l root by (auto simp: Logger_log_def numeral_2_eq_2 logger_at_def not_less)
qed

text \<open>C35: When the configuration changes from one set of definitions to another, with appenders of
  the two known types, the listener succeeds and the loggers stay well formed: every
  definition that is new or different has its logger with its level, its formatter and exactly its
  appenders in their order; every definition that is gone leaves its logger without
  appenders at the lowest level, so that all its events go to the root logger (lemma
  \<open>dropped_logs_to_root\<close>); and the loggers of unchanged definitions and of all
  other names are as before.\<close>

theorem configuration_applied:
  assumes wf: "log_wf st" and new: "\<forall>i \<in> set new. proper_logger i"
    and names: "distinct (map ld_name old)" "distinct (map ld_name new)"
  shows "\<exists>st'. on_logger_conf_changed env no_stdout old new st = Inr st' \<and> log_wf st'
    \<and> (\<forall>i \<in> set new. i \<notin> set old \<longrightarrow> configured no_stdout i st')
    \<and> (\<forall>i \<in> set old. ld_name i \<notin> ld_name ` set new \<longrightarrow> dropped (ld_name i) st')
    \<and> (\<forall>name l lg. named st name l lg
        \<and> name \<notin> ld_name ` (set new - set old) \<and> name \<notin> ld_name ` set old - ld_name ` set new \<longrightarrow> named st' name l lg)"
  by (rule configuration_changed_ok [OF assms])

section \<open>Any use of the log\<close>

text \<open>What a program does with the log: each operation finds its logger by name. An event that is
  handed to the dispatcher is written by it.\<close>

datatype log_op =
    SetLevel string Level
  | SetPattern string string
  | AddAppender string appender_kind
  | DelAppender string nat
  | ClearAppenders string
  | Configure "LogDefine list" "LogDefine list"
  | LogIt string Level LogEvent

definition run_log_op :: "log_env \<Rightarrow> bool \<Rightarrow> log_op \<Rightarrow> log_state \<Rightarrow> log_error + log_state" where
  "run_log_op env no_stdout cmd st =
     (case cmd of
        SetLevel name v \<Rightarrow> (let (l, st1) = getLogger name st in lg_setLevel l v st1)
      | SetPattern name p \<Rightarrow> (let (l, st1) = getLogger name st in lg_setPattern l p st1)
      | AddAppender name kind \<Rightarrow>
          (let (l, st1) = getLogger name st; (a, st2) = Appender_new env kind st1 in addAppender l a st2)
      | DelAppender name a \<Rightarrow> (let (l, st1) = getLogger name st in delAppender l a st1)
      | ClearAppenders name \<Rightarrow> (let (l, st1) = getLogger name st in clearAppenders l st1)
      | Configure old new \<Rightarrow> on_logger_conf_changed env no_stdout old new st
      | LogIt name level ev \<Rightarrow>
          (let (l, st1) = getLogger name st in
           bindE (Logger_log env l level (ev\<lparr>e_logger := l, e_level := level\<rparr>) st1) (\<lambda>(r, st2).
           case r of None \<Rightarrow> Inr st2 | Some ev1 \<Rightarrow> dispatch_event env ev1 st2)))"

definition proper_op :: "log_op \<Rightarrow> bool" where
  "proper_op cmd \<longleftrightarrow>
     (case cmd of
        Configure old new \<Rightarrow> (\<forall>i \<in> set new. proper_logger i) \<and> distinct (map ld_name old) \<and> distinct (map ld_name new)
      | _ \<Rightarrow> True)"

lemma LoggerManager_new_wf: "log_wf LoggerManager_new"
  by (auto simp: log_wf_def LoggerManager_new_def good_logger_def good_appender_def Logger_new_def new_appender_def
    split: if_splits)

lemma delAppender_ok:
  assumes n: "named st name l lg"
  shows "\<exists>st'. delAppender l a st = Inr st' \<and> log_wf st'"
  using change_logger [OF n, of "lg\<lparr>lg_appenders := remove1 a (lg_appenders lg)\<rparr>"] namedD(4,6) [OF n]
    set_remove1_subset [of a "lg_appenders lg"]
  by (auto simp: delAppender_def good_logger_def touches_def)

lemma addAppender_new_ok:
  assumes n: "named st name l lg" and new: "Appender_new env kind st = (a, st1)"
  shows "\<exists>st'. addAppender l a st1 = Inr st' \<and> log_wf st'"
proof -
  from Appender_new_effect [OF new] obtain ap where ap: "ap_formatter ap = None" "appenders st1 = (appenders st)(a \<mapsto> ap)"
    and st1: "loggers st1 = loggers st" "m_loggers st1 = m_loggers st"
    "m_root st1 = m_root st" "m_async st1 = m_async st" "log_next st \<le> a" "a < log_next st1" by blast
  let ?ap = "ap\<lparr>ap_formatter := lg_formatter lg\<rparr>"
  let ?st = "set_logger l (lg\<lparr>lg_appenders := lg_appenders lg @ [a]\<rparr>) (set_appender a ?ap st1)"
  have "addAppender l a st1 = Inr ?st"
    using ap st1 namedD(2) [OF n] by (simp add: addAppender_def logger_at_def appender_at_def set_appender_def set_logger_def)
  moreover have "log_wf ?st"
    by (rule touchesD(1) [where st = st and N = "{name}"], rule conjunct1, rule add_new_appender [OF n, where ap = ?ap])
      (use ap st1 namedD(4) [OF n] in \<open>auto simp: set_logger_def set_appender_def good_logger_def\<close>)
  ultimately show ?thesis by blast
qed

lemma Logger_log_ok:
  assumes wf: "log_wf st" and l: "loggers st l = Some lg" and ev: "loggers st (e_logger ev) \<noteq> None"
  shows "\<exists>r st'. Logger_log env l level ev st = Inr (r, st') \<and> logged st st'
    \<and> (r \<noteq> None \<longrightarrow> r = Some ev \<and> st' = st)"
  using logInternal_ok [OF wf l ev, of 0 env level] l logged_refl [OF wf]
  by (auto simp: Logger_log_def logger_at_def numeral_2_eq_2)

text \<open>C34: Nothing a program does with the log can fail: from the manager the program starts with, any
  sequence of setting levels and patterns, adding, removing and clearing appenders, configuring and
  logging succeeds; no pointer is bad, every appender has a formatter, and the chain of roots ends.\<close>

theorem log_operations_never_fail:
  assumes "\<forall>cmd \<in> set cmds. proper_op cmd"
  shows "\<exists>st. foldE (run_log_op env no_stdout) cmds LoggerManager_new = Inr st \<and> log_wf st"
proof (rule foldE_total [where R = "\<lambda>_ st. log_wf st"])
  fix cmd st
  assume wf: "log_wf st" and "cmd \<in> set cmds"
  with assms have cmd: "proper_op cmd" by simp
  have get: "\<exists>l st1 lg. getLogger name st = (l, st1) \<and> named st1 name l lg" for name
    using getLogger_ok [OF wf, of name] by (metis surj_pair)
  show "\<exists>st'. run_log_op env no_stdout cmd st = Inr st' \<and> log_wf st'"
  proof (cases cmd)
    case (SetLevel name v)
    from get [of name] show ?thesis using setLevel_ok SetLevel by (fastforce simp: run_log_op_def touches_def)
  next
    case (SetPattern name p)
    from get [of name] show ?thesis using setPattern_ok SetPattern by (fastforce simp: run_log_op_def touches_def)
  next
    case (AddAppender name kind)
    from get [of name] obtain l st1 lg where g: "getLogger name st = (l, st1)" "named st1 name l lg" by blast
    obtain a st2 where n: "Appender_new env kind st1 = (a, st2)" by fastforce
    from addAppender_new_ok [OF g(2) n] g n AddAppender show ?thesis by (simp add: run_log_op_def)
  next
    case (DelAppender name a)
    from get [of name] show ?thesis using delAppender_ok DelAppender by (fastforce simp: run_log_op_def)
  next
    case (ClearAppenders name)
    from get [of name] show ?thesis using clearAppenders_ok ClearAppenders by (fastforce simp: run_log_op_def touches_def)
  next
    case (Configure old new)
    with cmd have "\<forall>i \<in> set new. proper_logger i" "distinct (map ld_name old)" "distinct (map ld_name new)"
      by (simp_all add: proper_op_def)
    from configuration_changed_ok [OF wf this, of env no_stdout] obtain st' where
      "on_logger_conf_changed env no_stdout old new st = Inr st'" "log_wf st'" by blast
    with Configure show ?thesis by (simp add: run_log_op_def)
  next
    case (LogIt name level ev)
    from get [of name] obtain l st1 lg where g: "getLogger name st = (l, st1)" "named st1 name l lg" by blast
    let ?ev = "ev\<lparr>e_logger := l, e_level := level\<rparr>"
    from Logger_log_ok [OF namedD(1,2) [OF g(2)], of ?ev env level] namedD(2) [OF g(2)] obtain r st2 where
      r: "Logger_log env l level ?ev st1 = Inr (r, st2)" "logged st1 st2" "r \<noteq> None \<longrightarrow> r = Some ?ev \<and> st2 = st1" by auto
    show ?thesis
    proof (cases r)
      case None
      with r g LogIt show ?thesis by (simp add: run_log_op_def logged_def)
    next
      case (Some e)
      from logInternal_ok [OF namedD(1,2) [OF g(2)], of ?ev 0 env level] namedD(2) [OF g(2)] obtain st3 where
        "logInternal 2 env l level ?ev st1 = Inr st3" "logged st1 st3" by (auto simp: numeral_2_eq_2)
      with Some r g LogIt show ?thesis by (auto simp: run_log_op_def dispatch_event_def logged_def)
    qed
  qed
qed (use LoggerManager_new_wf in auto)

section \<open>Definitions as YAML\<close>

text \<open>A definition written as YAML is read back, provided files are given for exactly the appenders
  that write to one, but the levels of the appenders are lost.\<close>

theorem log_definition_round_trip:
  assumes "\<forall>d \<in> set (ld_appenders i). proper_define d \<and> (lad_type d = 2 \<longrightarrow> lad_file d = [])"
  shows "read_define (write_define i) = Inr (i\<lparr>ld_appenders := map (lad_level_update (\<lambda>_. UNKNOW)) (ld_appenders i)\<rparr>)"
proof -
  have a: "read_appender (write_appender d) = Inr (Some (d\<lparr>lad_level := UNKNOW\<rparr>))"
    if "proper_define d \<and> (lad_type d = 2 \<longrightarrow> lad_file d = [])" for d
    using that by (cases d) (auto simp: read_appender_def write_appender_def proper_define_def yget_def ystring_def as_string_def)
  have as: "read_appenders (map write_appender ds) = Inr (map (lad_level_update (\<lambda>_. UNKNOW)) ds)"
    if "\<forall>d \<in> set ds. proper_define d \<and> (lad_type d = 2 \<longrightarrow> lad_file d = [])" for ds
    using that by (induction ds) (simp_all add: a)
  have l: "Level_FromString (Level_ToString v) = v" for v
    by (cases v) (simp_all add: Level_FromString_def Level_ToString_def)
  have e: "Level_FromString [] = UNKNOW" by (simp add: Level_FromString_def)
  show ?thesis
    using as [OF assms] by (cases i) (simp add: read_define_def write_define_def yget_def ystring_def as_string_def l e)
qed

section \<open>Examples\<close>

definition demo_define :: LogDefine where
  "demo_define = \<lparr>ld_name = ''raft'', ld_level = INFO, ld_formatter = ''%d%T%m%n'',
     ld_appenders = [\<lparr>lad_type = 1, lad_level = DEBUG, lad_formatter = [], lad_file = ''raft.log''\<rparr>,
       \<lparr>lad_type = 2, lad_level = WARN, lad_formatter = ''%m%n'', lad_file = []\<rparr>]\<rparr>"

definition demo_env :: log_env where
  "demo_env = \<lparr>le_strftime = (\<lambda>_ _. ''2024''), le_can_open = (\<lambda>_. True)\<rparr>"

lemma demo_define_proper: "proper_logger demo_define"
  by (simp add: proper_logger_def demo_define_def proper_define_def)

theorem configuration_applied_witness:
  "\<exists>st. on_logger_conf_changed demo_env False [] [demo_define] LoggerManager_new = Inr st \<and> configured False demo_define st"
  using configuration_applied [OF LoggerManager_new_wf, of "[demo_define]" "[]" demo_env False] demo_define_proper by auto

theorem log_operations_never_fail_witness:
  "\<exists>st. foldE (run_log_op demo_env False)
      [Configure [] [demo_define], LogIt ''raft'' WARN \<lparr>e_file = ''raft.cpp'', e_line = 12, e_elapse = 0, e_threadId = 1,
         e_fiberId = 0, e_time = 5, e_threadName = ''main'', e_content = ''hello'', e_logger = 0, e_level = WARN\<rparr>,
       Configure [demo_define] [], SetPattern ''raft'' ''%m''] LoggerManager_new = Inr st \<and> log_wf st"
  by (rule log_operations_never_fail) (simp add: proper_op_def demo_define_proper)

theorem log_definition_round_trip_witness:
  "read_define (write_define demo_define)
    = Inr (demo_define\<lparr>ld_appenders := map (lad_level_update (\<lambda>_. UNKNOW)) (ld_appenders demo_define)\<rparr>)"
  by (rule log_definition_round_trip) (simp add: demo_define_def proper_define_def)

end
