(* ===== verification/AsyncLog.thy ===== *)
theory AsyncLog
  imports Log
begin

text \<open>
  Asynchronous logging (\<open>AsyncLogger\<close>, \<open>LoggerManager::setAsync\<close> and \<open>dispatchAsync\<close> in
  \<open>src/sylar/log.cc\<close>): producers queue events under a mutex and raise a semaphore, one thread swaps
  the queue and writes the events, and a controlling thread starts and stops it. A step is
  what happens between two points at which threads can interleave: an access to an atomic
  variable, a critical section, or a call of \<open>logInternal\<close>, which holds the locks of the loggers.
  The atomic variables are taken to be sequentially consistent.
\<close>

section \<open>State\<close>

text \<open>Where a producer is in \<open>push\<close>, the thread in \<open>run\<close>, the controller in \<open>start\<close> or \<open>stop\<close>.\<close>

datatype producer = Away | Dispatching LogEvent | Queueing LogEvent | Notifying

datatype writer = NoThread | Waiting | Swapping | Writing "LogEvent list" | Checking
  | LastSwap | LastWriting "LogEvent list" | Ended

datatype controller = Free | Started | Creating | SetOn | SetOff | Stopped | Waking | Joining | Joined

record AsyncLogger =
  q_events :: "LogEvent list"
  q_sem :: nat
  q_running :: bool
  q_stopping :: bool
  q_thread :: writer
  q_controller :: controller
  q_producers :: "nat \<Rightarrow> producer"
  q_log :: log_state

definition AsyncLogger_new :: "log_state \<Rightarrow> AsyncLogger" where
  "AsyncLogger_new st =
     \<lparr>q_events = [], q_sem = 0, q_running = False, q_stopping = False, q_thread = NoThread, q_controller = Free,
      q_producers = (\<lambda>_. Away), q_log = st\<rparr>"

text \<open>What a step does that can be seen: producer \<open>i\<close> calls \<open>log\<close> of logger \<open>l\<close>, which is done at once or
  hands the event on; an event is queued or written by it; an event is written by the thread.\<close>

datatype async_label =
    Called nat nat Level LogEvent | Handed nat nat Level LogEvent | Queued nat LogEvent | Direct nat LogEvent
  | Written LogEvent | Silent

definition set_producer :: "nat \<Rightarrow> producer \<Rightarrow> AsyncLogger \<Rightarrow> AsyncLogger" where
  "set_producer i p s = s\<lparr>q_producers := (q_producers s)(i := p)\<rparr>"

section \<open>Producers\<close>

text \<open>\<open>Logger::log\<close> up to \<open>dispatchAsync\<close>, or all of it; the first part of the result says whether the event
  is handed on.\<close>

definition producer_log :: "log_env \<Rightarrow> nat \<Rightarrow> nat \<Rightarrow> Level \<Rightarrow> LogEvent \<Rightarrow> AsyncLogger \<Rightarrow> log_error + bool \<times> AsyncLogger" where
  "producer_log env i l level ev s =
     bindE (Logger_log env l level ev (q_log s)) (\<lambda>(r, st).
     Inr (r \<noteq> None, set_producer i (case r of None \<Rightarrow> Away | Some ev1 \<Rightarrow> Dispatching ev1) (s\<lparr>q_log := st\<rparr>)))"

text \<open>\<open>push\<close>: the test of \<open>m_running\<close>; then the event is written here or on its way into the queue.\<close>

definition push_test :: "nat \<Rightarrow> LogEvent \<Rightarrow> AsyncLogger \<Rightarrow> log_env \<Rightarrow> log_error + bool \<times> AsyncLogger" where
  "push_test i ev s env =
     (if \<not> q_running s then
        bindE (dispatch_event env ev (q_log s)) (\<lambda>st. Inr (True, set_producer i Away (s\<lparr>q_log := st\<rparr>)))
      else Inr (False, set_producer i (Queueing ev) s))"

definition push_queue :: "nat \<Rightarrow> LogEvent \<Rightarrow> AsyncLogger \<Rightarrow> AsyncLogger" where
  "push_queue i ev s = set_producer i Notifying (s\<lparr>q_events := q_events s @ [ev]\<rparr>)"

definition push_notify :: "nat \<Rightarrow> AsyncLogger \<Rightarrow> AsyncLogger" where
  "push_notify i s = set_producer i Away (s\<lparr>q_sem := q_sem s + 1\<rparr>)"

section \<open>The thread\<close>

text \<open>\<open>run\<close>, one step; the first part of the result is the event that was written. \<open>None\<close> while it cannot
  go on.\<close>

definition run_writer :: "log_env \<Rightarrow> AsyncLogger \<Rightarrow> (log_error + LogEvent option \<times> AsyncLogger) option" where
  "run_writer env s =
     (case q_thread s of
        NoThread \<Rightarrow> None
      | Waiting \<Rightarrow>
          if q_sem s = 0 then None else Some (Inr (None, s\<lparr>q_sem := q_sem s - 1, q_thread := Swapping\<rparr>))
      | Swapping \<Rightarrow> Some (Inr (None, s\<lparr>q_thread := Writing (q_events s), q_events := []\<rparr>))
      | Writing [] \<Rightarrow> Some (Inr (None, s\<lparr>q_thread := (if q_stopping s then Checking else Waiting)\<rparr>))
      | Writing (ev # evs) \<Rightarrow>
          Some (bindE (dispatch_event env ev (q_log s)) (\<lambda>st. Inr (Some ev, s\<lparr>q_log := st, q_thread := Writing evs\<rparr>)))
      | Checking \<Rightarrow> Some (Inr (None, s\<lparr>q_thread := (if q_events s = [] then LastSwap else Waiting)\<rparr>))
      | LastSwap \<Rightarrow> Some (Inr (None, s\<lparr>q_thread := LastWriting (q_events s), q_events := []\<rparr>))
      | LastWriting [] \<Rightarrow> Some (Inr (None, s\<lparr>q_thread := Ended\<rparr>))
      | LastWriting (ev # evs) \<Rightarrow>
          Some (bindE (dispatch_event env ev (q_log s)) (\<lambda>st. Inr (Some ev, s\<lparr>q_log := st, q_thread := LastWriting evs\<rparr>)))
      | Ended \<Rightarrow> None)"

section \<open>The controller\<close>

text \<open>\<open>setAsync(val)\<close>: for true \<open>start\<close> and then \<open>m_async\<close>, for false \<open>m_async\<close> and then \<open>stop\<close>.\<close>

definition setAsync :: "bool \<Rightarrow> AsyncLogger \<Rightarrow> AsyncLogger" where
  "setAsync val s =
     (if val = m_async (q_log s) then s
      else if val then
        (if q_running s then s\<lparr>q_controller := SetOn\<rparr> else s\<lparr>q_running := True, q_controller := Started\<rparr>)
      else s\<lparr>q_log := (q_log s)\<lparr>m_async := False\<rparr>, q_controller := SetOff\<rparr>)"

definition run_controller :: "AsyncLogger \<Rightarrow> AsyncLogger option" where
  "run_controller s =
     (case q_controller s of
        Free \<Rightarrow> None
      | Started \<Rightarrow> Some (s\<lparr>q_stopping := False, q_controller := Creating\<rparr>)
      | Creating \<Rightarrow> Some (s\<lparr>q_thread := Waiting, q_controller := SetOn\<rparr>)
      | SetOn \<Rightarrow> Some (s\<lparr>q_log := (q_log s)\<lparr>m_async := True\<rparr>, q_controller := Free\<rparr>)
      | SetOff \<Rightarrow> Some (if q_running s then s\<lparr>q_running := False, q_controller := Stopped\<rparr> else s\<lparr>q_controller := Free\<rparr>)
      | Stopped \<Rightarrow> Some (s\<lparr>q_stopping := True, q_controller := Waking\<rparr>)
      | Waking \<Rightarrow> Some (s\<lparr>q_sem := q_sem s + 1, q_controller := Joining\<rparr>)
      | Joining \<Rightarrow> if q_thread s = Ended then Some (s\<lparr>q_thread := NoThread, q_controller := Joined\<rparr>) else None
      | Joined \<Rightarrow> Some (s\<lparr>q_stopping := False, q_controller := Free\<rparr>))"

section \<open>Steps\<close>

inductive async_step :: "log_env \<Rightarrow> AsyncLogger \<Rightarrow> async_label \<Rightarrow> AsyncLogger \<Rightarrow> bool" for env where
  call: "q_producers s i = Away \<Longrightarrow> producer_log env i l level ev s = Inr (handed, s')
    \<Longrightarrow> async_step env s (if handed then Handed i l level ev else Called i l level ev) s'"
| test: "q_producers s i = Dispatching ev \<Longrightarrow> push_test i ev s env = Inr (direct, s')
    \<Longrightarrow> async_step env s (if direct then Direct i ev else Silent) s'"
| queue: "q_producers s i = Queueing ev \<Longrightarrow> async_step env s (Queued i ev) (push_queue i ev s)"
| notify: "q_producers s i = Notifying \<Longrightarrow> async_step env s Silent (push_notify i s)"
| thread: "run_writer env s = Some (Inr (w, s')) \<Longrightarrow> async_step env s (case w of None \<Rightarrow> Silent | Some ev \<Rightarrow> Written ev) s'"
| set_async: "q_controller s = Free \<Longrightarrow> async_step env s Silent (setAsync val s)"
| control: "run_controller s = Some s' \<Longrightarrow> async_step env s Silent s'"

inductive async_run :: "log_env \<Rightarrow> AsyncLogger \<Rightarrow> async_label list \<Rightarrow> AsyncLogger \<Rightarrow> bool" for env where
  none: "async_run env s [] s"
| snoc: "async_run env s ls s' \<Longrightarrow> async_step env s' l s'' \<Longrightarrow> async_run env s (ls @ [l]) s''"

end
