(* ===== verification/AsyncLogProps.thy ===== *)
theory AsyncLogProps
  imports AsyncLog LogProps
begin

text \<open>
  What asynchronous logging promises: events are written once, in the order in which they were
  queued; what is written is what synchronous logging would write; no wake-up is lost and
  stopping writes everything that was queued before. A producer that is between its test and
  the queue while the thread is stopped leaves its event in the queue.
\<close>

section \<open>Order\<close>

definition queued :: "async_label list \<Rightarrow> LogEvent list" where
  "queued ls = concat (map (\<lambda>l. case l of Queued i ev \<Rightarrow> [ev] | _ \<Rightarrow> []) ls)"

definition written :: "async_label list \<Rightarrow> LogEvent list" where
  "written ls = concat (map (\<lambda>l. case l of Written ev \<Rightarrow> [ev] | _ \<Rightarrow> []) ls)"

text \<open>The events producer \<open>i\<close> handed on, and those that left its hands.\<close>

definition handed_by :: "nat \<Rightarrow> async_label list \<Rightarrow> LogEvent list" where
  "handed_by i ls = concat (map (\<lambda>l. case l of Handed j _ _ ev \<Rightarrow> if j = i then [ev] else [] | _ \<Rightarrow> []) ls)"

definition passed_by :: "nat \<Rightarrow> async_label list \<Rightarrow> LogEvent list" where
  "passed_by i ls = concat (map (\<lambda>l. case l of Queued j ev \<Rightarrow> if j = i then [ev] else []
     | Direct j ev \<Rightarrow> if j = i then [ev] else [] | _ \<Rightarrow> []) ls)"

lemmas label_lists = queued_def written_def handed_by_def passed_by_def

definition batch :: "AsyncLogger \<Rightarrow> LogEvent list" where
  "batch s = (case q_thread s of Writing evs \<Rightarrow> evs | LastWriting evs \<Rightarrow> evs | _ \<Rightarrow> [])"

definition in_hand :: "nat \<Rightarrow> AsyncLogger \<Rightarrow> LogEvent list" where
  "in_hand i s = (case q_producers s i of Dispatching ev \<Rightarrow> [ev] | Queueing ev \<Rightarrow> [ev] | _ \<Rightarrow> [])"

text \<open>Starting and stopping, and where the thread is meanwhile.\<close>

definition phase_inv :: "AsyncLogger \<Rightarrow> bool" where
  "phase_inv s \<longleftrightarrow>
     (case q_controller s of
        Started \<Rightarrow> q_running s \<and> q_thread s = NoThread
      | Creating \<Rightarrow> q_running s \<and> q_thread s = NoThread \<and> \<not> q_stopping s
      | Stopped \<Rightarrow> \<not> q_running s \<and> q_thread s \<noteq> NoThread \<and> \<not> q_stopping s
      | Waking \<Rightarrow> \<not> q_running s \<and> q_thread s \<noteq> NoThread \<and> q_stopping s
      | Joining \<Rightarrow> \<not> q_running s \<and> q_thread s \<noteq> NoThread \<and> q_stopping s
      | Joined \<Rightarrow> \<not> q_running s \<and> q_thread s = NoThread
      | _ \<Rightarrow> (q_running s \<longleftrightarrow> q_thread s \<noteq> NoThread) \<and> \<not> q_stopping s)"

text \<open>The thread leaves its loop only when it is stopped, and waits only while nothing is to be done.\<close>

definition in_loop :: "writer \<Rightarrow> bool" where
  "in_loop t \<longleftrightarrow> (case t of NoThread \<Rightarrow> True | Waiting \<Rightarrow> True | Swapping \<Rightarrow> True | Writing _ \<Rightarrow> True | _ \<Rightarrow> False)"

definition wake_inv :: "AsyncLogger \<Rightarrow> bool" where
  "wake_inv s \<longleftrightarrow>
     (in_loop (q_thread s) \<or> q_stopping s)
     \<and> (q_events s = [] \<or> q_sem s > 0 \<or> (\<exists>i. q_producers s i = Notifying) \<or> q_thread s = Swapping \<or> q_thread s = LastSwap)
     \<and> (q_controller s = Joining \<and> q_thread s = Waiting \<longrightarrow> q_sem s > 0 \<or> q_events s \<noteq> [])"

definition control_inv :: "AsyncLogger \<Rightarrow> bool" where
  "control_inv s \<longleftrightarrow> phase_inv s \<and> wake_inv s"

lemmas inv_defs = control_inv_def phase_inv_def wake_inv_def

lemma in_loop_simps [simp]:
  "in_loop NoThread" "in_loop Waiting" "in_loop Swapping" "in_loop (Writing evs)" "\<not> in_loop Checking" "\<not> in_loop LastSwap"
  "\<not> in_loop (LastWriting evs)" "\<not> in_loop Ended"
  by (simp_all add: in_loop_def)

text \<open>The steps of the thread, one by one.\<close>

lemma run_writer_cases:
  assumes "run_writer env s = Some (Inr (w, s'))"
  obtains
    (wake) "q_thread s = Waiting" "q_sem s > 0" "w = None" "s' = s\<lparr>q_sem := q_sem s - 1, q_thread := Swapping\<rparr>"
  | (swap) "q_thread s = Swapping" "w = None" "s' = s\<lparr>q_thread := Writing (q_events s), q_events := []\<rparr>"
  | (written) "q_thread s = Writing []" "w = None" "s' = s\<lparr>q_thread := (if q_stopping s then Checking else Waiting)\<rparr>"
  | (wrote) ev evs st where "q_thread s = Writing (ev # evs)" "w = Some ev" "dispatch_event env ev (q_log s) = Inr st"
      "s' = s\<lparr>q_log := st, q_thread := Writing evs\<rparr>"
  | (check) "q_thread s = Checking" "w = None" "s' = s\<lparr>q_thread := (if q_events s = [] then LastSwap else Waiting)\<rparr>"
  | (last_swap) "q_thread s = LastSwap" "w = None" "s' = s\<lparr>q_thread := LastWriting (q_events s), q_events := []\<rparr>"
  | (ends) "q_thread s = LastWriting []" "w = None" "s' = s\<lparr>q_thread := Ended\<rparr>"
  | (last_wrote) ev evs st where "q_thread s = LastWriting (ev # evs)" "w = Some ev" "dispatch_event env ev (q_log s) = Inr st"
      "s' = s\<lparr>q_log := st, q_thread := LastWriting evs\<rparr>"
proof (cases "q_thread s")
  case NoThread
  with assms show ?thesis by (simp add: run_writer_def)
next
  case Waiting
  with assms show ?thesis by (intro wake) (auto simp: run_writer_def split: if_splits)
next
  case Swapping
  with assms show ?thesis by (intro swap) (auto simp: run_writer_def)
next
  case (Writing evs)
  show ?thesis
  proof (cases evs)
    case Nil
    with assms Writing show ?thesis by (intro written) (auto simp: run_writer_def)
  next
    case (Cons ev evs')
    with assms Writing obtain st where "dispatch_event env ev (q_log s) = Inr st" "w = Some ev"
      "s' = s\<lparr>q_log := st, q_thread := Writing evs'\<rparr>" by (auto simp: run_writer_def bindE_eq_Inr)
    with Cons Writing show ?thesis by (intro wrote) simp_all
  qed
next
  case Checking
  with assms show ?thesis by (intro check) (auto simp: run_writer_def)
next
  case LastSwap
  with assms show ?thesis by (intro last_swap) (auto simp: run_writer_def)
next
  case (LastWriting evs)
  show ?thesis
  proof (cases evs)
    case Nil
    with assms LastWriting show ?thesis by (intro ends) (auto simp: run_writer_def)
  next
    case (Cons ev evs')
    with assms LastWriting obtain st where "dispatch_event env ev (q_log s) = Inr st" "w = Some ev"
      "s' = s\<lparr>q_log := st, q_thread := LastWriting evs'\<rparr>" by (auto simp: run_writer_def bindE_eq_Inr)
    with Cons LastWriting show ?thesis by (intro last_wrote) simp_all
  qed
next
  case Ended
  with assms show ?thesis by (simp add: run_writer_def)
qed

lemma control_inv_new: "control_inv (AsyncLogger_new st)"
  by (simp add: inv_defs AsyncLogger_new_def)

lemma run_controller_inv:
  assumes inv: "control_inv s" and c: "run_controller s = Some s'"
  shows "control_inv s'" "batch s' = batch s" "q_events s' = q_events s" "q_producers s' = q_producers s"
    "q_log s' = (q_log s)\<lparr>m_async := m_async (q_log s')\<rparr>"
proof -
  show "control_inv s'"
  proof -
    have e: "q_events s = [] \<or> q_sem s > 0 \<or> (\<exists>i. q_producers s i = Notifying) \<or> q_thread s = Swapping \<or> q_thread s = LastSwap"
      and l: "in_loop (q_thread s) \<or> q_stopping s" using inv by (simp_all add: inv_defs)
    from c inv e l show ?thesis
      by (cases "q_controller s") (simp_all only: inv_defs run_controller_def controller.case option.simps, auto split: if_splits)
  qed
  show "batch s' = batch s"
    using inv c by (cases "q_controller s") (auto simp: inv_defs run_controller_def batch_def split: if_splits)
  show "q_events s' = q_events s" "q_producers s' = q_producers s" "q_log s' = (q_log s)\<lparr>m_async := m_async (q_log s')\<rparr>"
    using c by (cases "q_controller s"; auto simp: run_controller_def split: if_splits)+
qed

lemma setAsync_inv:
  assumes inv: "control_inv s" and c: "q_controller s = Free"
  shows "control_inv (setAsync v s)" "batch (setAsync v s) = batch s" "q_events (setAsync v s) = q_events s"
    "q_producers (setAsync v s) = q_producers s" "q_log (setAsync v s) = (q_log s)\<lparr>m_async := m_async (q_log (setAsync v s))\<rparr>"
  using assms by (auto simp: inv_defs setAsync_def batch_def)

lemma run_writer_inv:
  assumes inv: "control_inv s" and w: "run_writer env s = Some (Inr (w, s'))"
  shows "control_inv s'" "q_producers s' = q_producers s"
    "batch s @ q_events s = (case w of None \<Rightarrow> [] | Some ev \<Rightarrow> [ev]) @ batch s' @ q_events s'"
proof -
  from w show "q_producers s' = q_producers s" by (cases rule: run_writer_cases) simp_all
  from w show "batch s @ q_events s = (case w of None \<Rightarrow> [] | Some ev \<Rightarrow> [ev]) @ batch s' @ q_events s'"
    by (cases rule: run_writer_cases) (simp_all add: batch_def)
  from w have "phase_inv s'"
    by (cases rule: run_writer_cases) (use inv in \<open>auto simp: inv_defs split: controller.splits\<close>)
  moreover from w have "wake_inv s'"
    by (cases rule: run_writer_cases) (use inv in \<open>auto simp: inv_defs split: controller.splits\<close>)
  ultimately show "control_inv s'" by (simp add: control_inv_def)
qed

text \<open>The steps of producers.\<close>

lemma run_producer_inv:
  assumes inv: "control_inv s"
  shows "producer_log env i l level ev s = Inr (h, s') \<Longrightarrow> q_producers s i = Away \<Longrightarrow> control_inv s'"
    "push_test i ev s env = Inr (d, s') \<Longrightarrow> q_producers s i = Dispatching ev \<Longrightarrow> control_inv s'"
    "q_producers s i = Queueing ev \<Longrightarrow> control_inv (push_queue i ev s)"
    "control_inv (push_notify i s)"
proof -
  have other: "(\<exists>j. ((q_producers s)(i := p)) j = Notifying) \<longleftrightarrow> (\<exists>j. q_producers s j = Notifying)"
    if "q_producers s i \<noteq> Notifying" "p \<noteq> Notifying" for p
    using that by (metis fun_upd_def)
  have keep: "control_inv (set_producer i p (s\<lparr>q_log := st\<rparr>))" "control_inv (set_producer i p s)"
    if "q_producers s i \<noteq> Notifying" "p \<noteq> Notifying" for p st
    using inv other [OF that] by (simp_all add: inv_defs set_producer_def cong: controller.case_cong)
  show "producer_log env i l level ev s = Inr (h, s') \<Longrightarrow> q_producers s i = Away \<Longrightarrow> control_inv s'"
    by (auto simp: producer_log_def result_simps intro!: keep split: option.splits)
  show "push_test i ev s env = Inr (d, s') \<Longrightarrow> q_producers s i = Dispatching ev \<Longrightarrow> control_inv s'"
    by (auto simp: push_test_def result_simps intro!: keep split: if_splits)
  show "control_inv (push_queue i ev s)" if "q_producers s i = Queueing ev"
    using inv by (auto simp: inv_defs push_queue_def set_producer_def cong: controller.case_cong)
  show "control_inv (push_notify i s)"
    using inv by (auto simp: inv_defs push_notify_def set_producer_def cong: controller.case_cong)
qed

text \<open>What every step does to the order of events.\<close>

definition order_inv :: "async_label list \<Rightarrow> AsyncLogger \<Rightarrow> bool" where
  "order_inv ls s \<longleftrightarrow> control_inv s \<and> queued ls = written ls @ batch s @ q_events s
     \<and> (\<forall>i. handed_by i ls = passed_by i ls @ in_hand i s)"

lemma label_lists_snoc:
  "queued (ls @ [l]) = queued ls @ queued [l]" "written (ls @ [l]) = written ls @ written [l]"
  "handed_by i (ls @ [l]) = handed_by i ls @ handed_by i [l]" "passed_by i (ls @ [l]) = passed_by i ls @ passed_by i [l]"
  by (simp_all add: label_lists)

lemma single_lists [simp]:
  "queued [Silent] = []" "written [Silent] = []" "handed_by i [Silent] = []" "passed_by i [Silent] = []"
  "queued [Called j lg v ev] = []" "written [Called j lg v ev] = []" "handed_by i [Called j lg v ev] = []" "passed_by i [Called j lg v ev] = []"
  "queued [Handed j lg v ev] = []" "written [Handed j lg v ev] = []" "passed_by i [Handed j lg v ev] = []"
  "handed_by i [Handed j lg v ev] = (if j = i then [ev] else [])"
  "queued [Direct j ev] = []" "written [Direct j ev] = []" "handed_by i [Direct j ev] = []"
  "passed_by i [Direct j ev] = (if j = i then [ev] else [])"
  "queued [Queued j ev] = [ev]" "written [Queued j ev] = []" "handed_by i [Queued j ev] = []"
  "passed_by i [Queued j ev] = (if j = i then [ev] else [])"
  "queued [Written ev] = []" "written [Written ev] = [ev]" "handed_by i [Written ev] = []" "passed_by i [Written ev] = []"
  by (simp_all add: label_lists)

lemma producer_log_effect:
  assumes "producer_log env i l level ev s = Inr (h, s')"
  shows "\<exists>st. s' = set_producer i (if h then Dispatching ev else Away) (s\<lparr>q_log := st\<rparr>)
    \<and> Logger_log env l level ev (q_log s) = Inr (if h then Some ev else None, st)"
proof -
  from assms obtain r st where r: "Logger_log env l level ev (q_log s) = Inr (r, st)" "h = (r \<noteq> None)"
    "s' = set_producer i (case r of None \<Rightarrow> Away | Some ev1 \<Rightarrow> Dispatching ev1) (s\<lparr>q_log := st\<rparr>)"
    by (auto simp: producer_log_def result_simps)
  from r(1) have "r = None \<or> r = Some ev" by (auto simp: Logger_log_def result_simps split: if_splits)
  with r show ?thesis by auto
qed

lemma push_test_effect:
  assumes "push_test i ev s env = Inr (d, s')"
  shows "if d then \<exists>st. s' = set_producer i Away (s\<lparr>q_log := st\<rparr>) \<and> dispatch_event env ev (q_log s) = Inr st
    else s' = set_producer i (Queueing ev) s"
  using assms by (auto simp: push_test_def result_simps split: if_splits)

lemma producer_simps [simp]:
  "batch (set_producer i p s) = batch s" "q_events (set_producer i p s) = q_events s" "q_log (set_producer i p s) = q_log s"
  "batch (s\<lparr>q_log := st\<rparr>) = batch s" "batch (s\<lparr>q_sem := n\<rparr>) = batch s" "batch (s\<lparr>q_events := evs\<rparr>) = batch s"
  "in_hand j (s\<lparr>q_log := st\<rparr>) = in_hand j s" "in_hand j (s\<lparr>q_sem := n\<rparr>) = in_hand j s"
  "in_hand j (s\<lparr>q_events := evs\<rparr>) = in_hand j s"
  "in_hand j (set_producer i p s) = (if j = i then (case p of Dispatching ev \<Rightarrow> [ev] | Queueing ev \<Rightarrow> [ev] | _ \<Rightarrow> []) else in_hand j s)"
  by (simp_all add: set_producer_def batch_def in_hand_def)

lemma in_hand_at [simp]:
  "q_producers s i = Away \<Longrightarrow> in_hand i s = []" "q_producers s i = Notifying \<Longrightarrow> in_hand i s = []"
  "q_producers s i = Dispatching ev \<Longrightarrow> in_hand i s = [ev]" "q_producers s i = Queueing ev \<Longrightarrow> in_hand i s = [ev]"
  by (simp_all add: in_hand_def)

lemma in_hand_same: "q_producers s' = q_producers s \<Longrightarrow> in_hand i s' = in_hand i s"
  by (simp add: in_hand_def)

lemma async_step_order:
  assumes "async_step env s l s'" and inv: "order_inv ls s"
  shows "order_inv (ls @ [l]) s'"
  using assms(1)
proof cases
  case (call i lg level ev handed)
  then have "control_inv s'" using run_producer_inv(1) inv by (auto simp: order_inv_def)
  with call(1,2) inv producer_log_effect [OF call(3)] show ?thesis
    by (auto simp: order_inv_def label_lists_snoc)
next
  case (test i ev direct)
  then have "control_inv s'" using run_producer_inv(2) inv by (auto simp: order_inv_def)
  with test(1,2) inv push_test_effect [OF test(3)] show ?thesis
    by (auto simp: order_inv_def label_lists_snoc split: if_splits)
next
  case (queue i ev)
  then have "control_inv s'" using run_producer_inv(3) inv by (auto simp: order_inv_def)
  with queue inv show ?thesis by (simp add: order_inv_def label_lists_snoc push_queue_def)
next
  case (notify i)
  then have "control_inv s'" using run_producer_inv(4) inv by (auto simp: order_inv_def)
  with notify inv show ?thesis by (simp add: order_inv_def label_lists_snoc push_notify_def)
next
  case (thread w)
  from inv have c: "control_inv s" by (simp add: order_inv_def)
  note r = run_writer_inv [OF c thread(2)]
  have p: "in_hand i s' = in_hand i s" for i using r(2) by (rule in_hand_same)
  have "queued ls = written (ls @ [l]) @ batch s' @ q_events s'"
    using inv r(3) thread(1) by (simp add: order_inv_def label_lists_snoc) (auto split: option.splits)
  moreover have "queued [l] = []" "handed_by i [l] = []" "passed_by i [l] = []" for i
    using thread(1) by (simp_all split: option.splits)
  ultimately show ?thesis using r(1) inv p by (simp add: order_inv_def label_lists_snoc)
next
  case (set_async v)
  from inv have c: "control_inv s" by (simp add: order_inv_def)
  note r = setAsync_inv [OF c set_async(3), of v]
  have "in_hand i s' = in_hand i s" for i by (rule in_hand_same) (simp add: r(4) set_async(2))
  with inv r(1-3) set_async(1,2) show ?thesis by (simp add: order_inv_def label_lists_snoc)
next
  case control
  from inv have c: "control_inv s" by (simp add: order_inv_def)
  note r = run_controller_inv [OF c control(2)]
  have "in_hand i s' = in_hand i s" for i using r(4) by (rule in_hand_same)
  with inv r(1-3) control(1) show ?thesis by (simp add: order_inv_def label_lists_snoc)
qed

lemma async_run_order: "async_run env s ls s' \<Longrightarrow> order_inv [] s \<Longrightarrow> order_inv ls s'"
  by (induction rule: async_run.induct) (auto intro: async_step_order)

lemma order_inv_new: "order_inv [] (AsyncLogger_new st)"
  using control_inv_new [of st] by (simp add: order_inv_def label_lists AsyncLogger_new_def batch_def in_hand_def)

section \<open>Contents\<close>

text \<open>Logging does not look at the flag for asynchronous logging below \<open>Logger::log\<close>.\<close>

definition off :: "log_state \<Rightarrow> log_state" where
  "off st = st\<lparr>m_async := False\<rparr>"

definition off_result :: "log_error + log_state \<Rightarrow> log_error + log_state" where
  "off_result m = bindE m (\<lambda>st. Inr (off st))"

lemma off_simps [simp]:
  "loggers (off st) = loggers st" "appenders (off st) = appenders st" "m_async (off st) = False"
  "std_out (off st) = std_out st" "files (off st) = files st" "file_content (off st) = file_content st" "log_next (off st) = log_next st"
  "off (off st) = off st" "off (st\<lparr>m_async := v\<rparr>) = off st" "off_result (Inr st) = Inr (off st)" "off_result (Inl e) = Inl e"
  "logger_at l (off st) = logger_at l st" "appender_at a (off st) = appender_at a st"
  by (simp_all add: off_def off_result_def logger_at_def appender_at_def)

lemma reopen_off:
  "reopen env f ap (off st) = (fst (reopen env f ap st), off (snd (reopen env f ap st)))"
  by (auto simp: reopen_def Let_def off_def split: option.splits)

lemma set_appender_off: "set_appender a ap (off st) = off (set_appender a ap st)"
  by (simp add: set_appender_def off_def)

lemma out_off: "off st\<lparr>std_out := s\<rparr> = off (st\<lparr>std_out := s\<rparr>)" "off st\<lparr>file_content := c\<rparr> = off (st\<lparr>file_content := c\<rparr>)"
  by (simp_all add: off_def)

lemma appender_log_off:
  "appender_log env name level ev a (off st) = off_result (appender_log env name level ev a st)"
  by (auto simp: appender_log_def reopen_off set_appender_off out_off Let_def bindE_def split_def split: sum.splits appender_kind.splits option.splits)

lemma fold_off:
  "(\<And>x st. f x (off st) = off_result (f x st)) \<Longrightarrow> foldE f xs (off st) = off_result (foldE f xs st)"
  by (induction xs arbitrary: st) (simp_all add: off_result_def bindE_def split: sum.splits)

lemma logInternal_off: "logInternal n env l level ev (off st) = off_result (logInternal n env l level ev st)"
proof (induction n arbitrary: l st)
  case (Suc n)
  have f: "foldE (appender_log env name level ev) as (off st) = off_result (foldE (appender_log env name level ev) as st)" for name as st
    by (rule fold_off) (rule appender_log_off)
  show ?case by (simp add: Suc.IH f bindE_def split: sum.splits option.splits)
qed simp

text \<open>Logging an event at once, at its level and with its logger.\<close>

definition log_at_once :: "log_env \<Rightarrow> LogEvent \<Rightarrow> log_state \<Rightarrow> log_error + log_state" where
  "log_at_once env ev st =
     bindE (Logger_log env (e_logger ev) (e_level ev) ev (off st)) (\<lambda>r. Inr (snd r))"

definition legit :: "log_state \<Rightarrow> LogEvent \<Rightarrow> bool" where
  "legit st ev \<longleftrightarrow> (\<exists>lg. loggers st (e_logger ev) = Some lg \<and> \<not> e_level ev < lg_level lg)"

lemma dispatch_at_once:
  assumes "dispatch_event env ev st = Inr st'" and "legit st ev"
  shows "log_at_once env ev (off st) = Inr (off st')"
  using assms by (auto simp: log_at_once_def dispatch_event_def legit_def Logger_log_def logInternal_off logger_at_def)

lemma logged_at_once:
  assumes "Logger_log env (e_logger ev) (e_level ev) ev st = Inr (None, st')"
  shows "log_at_once env ev (off st) = Inr (off st')"
proof -
  obtain lg where lg: "logger_at (e_logger ev) st = Inr lg"
    using assms by (cases "logger_at (e_logger ev) st") (simp_all add: Logger_log_def)
  then show ?thesis
    using assms by (cases "e_level ev < lg_level lg"; cases "logInternal 2 env (e_logger ev) (e_level ev) ev st")
      (simp_all add: log_at_once_def Logger_log_def logInternal_off split: if_splits)
qed

text \<open>The events in the order in which they are written; those below the level of their logger are
  among them, for which logging at once does nothing.\<close>

definition effects :: "async_label list \<Rightarrow> LogEvent list" where
  "effects ls = concat (map (\<lambda>l. case l of Called _ _ _ ev \<Rightarrow> [ev] | Direct _ ev \<Rightarrow> [ev] | Written ev \<Rightarrow> [ev] | _ \<Rightarrow> []) ls)"

text \<open>The loggers are those of \<open>st\<close>, and every event is logged with its own level and logger.\<close>

definition proper_calls :: "log_state \<Rightarrow> async_label list \<Rightarrow> bool" where
  "proper_calls st ls \<longleftrightarrow>
     (\<forall>l \<in> set ls. case l of
        Called _ lg level ev \<Rightarrow> lg = e_logger ev \<and> level = e_level ev \<and> loggers st lg \<noteq> None
      | Handed _ lg level ev \<Rightarrow> lg = e_logger ev \<and> level = e_level ev \<and> loggers st lg \<noteq> None
      | _ \<Rightarrow> True)"

definition pending :: "AsyncLogger \<Rightarrow> LogEvent set" where
  "pending s = set (batch s) \<union> set (q_events s) \<union> (\<Union>i. set (in_hand i s))"

definition data_inv :: "log_env \<Rightarrow> log_state \<Rightarrow> async_label list \<Rightarrow> AsyncLogger \<Rightarrow> bool" where
  "data_inv env st0 ls s \<longleftrightarrow> log_wf (q_log s) \<and> loggers (q_log s) = loggers st0
     \<and> (\<forall>ev \<in> pending s. legit st0 ev) \<and> foldE (log_at_once env) (effects ls) (off st0) = Inr (off (q_log s))"

lemma log_wf_async [simp]: "log_wf (st\<lparr>m_async := v\<rparr>) = log_wf st"
  by (simp add: log_wf_def good_logger_def good_appender_def)

lemma effects_snoc:
  "effects (ls @ [Silent]) = effects ls" "effects (ls @ [Handed i lg v ev]) = effects ls" "effects (ls @ [Queued i ev]) = effects ls"
  "effects (ls @ [Called i lg v ev]) = effects ls @ [ev]" "effects (ls @ [Direct i ev]) = effects ls @ [ev]"
  "effects (ls @ [Written ev]) = effects ls @ [ev]"
  by (simp_all add: effects_def)

lemma data_inv_append:
  assumes inv: "data_inv env st0 ls s" and e: "effects ls' = effects ls @ [ev]"
    and log: "log_at_once env ev (off (q_log s)) = Inr (off (q_log s'))" and ok: "logged (q_log s) (q_log s')"
    and p: "pending s' \<subseteq> pending s"
  shows "data_inv env st0 ls' s'"
  using assms by (auto simp: data_inv_def foldE_append logged_def)

lemma data_inv_same:
  assumes inv: "data_inv env st0 ls s" and e: "effects ls' = effects ls"
    and log: "\<exists>v. q_log s' = (q_log s)\<lparr>m_async := v\<rparr>" and p: "\<forall>ev \<in> pending s'. ev \<in> pending s \<or> legit st0 ev"
  shows "data_inv env st0 ls' s'"
  using assms by (auto simp: data_inv_def)

lemma async_step_data:
  assumes st: "async_step env s l s'" and inv: "data_inv env st0 ls s" and c: "control_inv s"
    and calls: "proper_calls st0 [l]"
  shows "data_inv env st0 (ls @ [l]) s'"
  using st
proof cases
  case (call i lg level ev handed)
  from producer_log_effect [OF call(3)] obtain st where
    s': "s' = set_producer i (if handed then Dispatching ev else Away) (s\<lparr>q_log := st\<rparr>)"
    and log: "Logger_log env lg level ev (q_log s) = Inr (if handed then Some ev else None, st)" by blast
  have own: "lg = e_logger ev" "level = e_level ev" "loggers st0 lg \<noteq> None"
    using calls call(1) by (auto simp: proper_calls_def split: if_splits)
  then obtain x where x: "loggers (q_log s) (e_logger ev) = Some x" using inv by (auto simp: data_inv_def)
  from Logger_log_ok [of "q_log s" lg x ev env level] log own x inv
  have ok: "logged (q_log s) st" "handed \<Longrightarrow> st = q_log s" by (auto simp: data_inv_def split: if_splits)
  show ?thesis
  proof (cases handed)
    case True
    have "legit st0 ev" using log x inv True own by (auto simp: Logger_log_def logger_at_def legit_def data_inv_def split: if_splits)
    with True ok(2) s' call(1) show ?thesis
      by (intro data_inv_same [OF inv]) (auto simp: effects_snoc pending_def intro: exI [of _ "m_async (q_log s)"] split: if_splits)
  next
    case False
    with log own have "log_at_once env ev (off (q_log s)) = Inr (off st)" by (intro logged_at_once) simp
    with False ok(1) s' call(1) show ?thesis
      by (intro data_inv_append [OF inv]) (auto simp: effects_snoc pending_def split: if_splits)
  qed
next
  case (test i ev direct)
  have "ev \<in> (\<Union>i. set (in_hand i s))" by (rule UN_I [of i]) (simp_all add: test(2))
  then have "ev \<in> pending s" by (simp add: pending_def)
  with inv have p: "legit st0 ev" by (simp add: data_inv_def)
  with inv have lo: "legit (q_log s) ev" by (auto simp: data_inv_def legit_def)
  show ?thesis
  proof (cases direct)
    case True
    with push_test_effect [OF test(3)] obtain st where
      s': "s' = set_producer i Away (s\<lparr>q_log := st\<rparr>)" and d: "dispatch_event env ev (q_log s) = Inr st" by auto
    from logInternal_ok [of "q_log s" "e_logger ev" _ ev 0 env "e_level ev"] lo inv d
    have "logged (q_log s) st" by (fastforce simp: data_inv_def legit_def dispatch_event_def numeral_2_eq_2)
    with True dispatch_at_once [OF d lo] s' test(1) show ?thesis
      by (intro data_inv_append [OF inv]) (auto simp: effects_snoc pending_def split: if_splits)
  next
    case False
    with push_test_effect [OF test(3)] p test(1) show ?thesis
      by (intro data_inv_same [OF inv]) (auto simp: effects_snoc pending_def intro: exI [of _ "m_async (q_log s)"] split: if_splits)
  qed
next
  case (queue i ev)
  then show ?thesis
    by (intro data_inv_same [OF inv])
      (auto simp: effects_snoc pending_def push_queue_def intro: exI [of _ "m_async (q_log s)"] exI [of _ i] split: if_splits)
next
  case (notify i)
  then show ?thesis
    by (intro data_inv_same [OF inv])
      (auto simp: effects_snoc pending_def push_notify_def intro: exI [of _ "m_async (q_log s)"] split: if_splits)
next
  case (thread w)
  note r = run_writer_inv [OF c thread(2)]
  have h: "in_hand i s' = in_hand i s" for i using r(2) by (rule in_hand_same)
  have q: "pending s = set (batch s @ q_events s) \<union> (\<Union>i. set (in_hand i s))" for s by (simp add: pending_def)
  have "set (batch s' @ q_events s') \<subseteq> set (batch s @ q_events s)" unfolding r(3) by auto
  with h have sub: "pending s' \<subseteq> pending s" by (auto simp: q simp del: set_append)
  show ?thesis
  proof (cases w)
    case None
    have "q_log s' = q_log s" using thread(2) None by (cases rule: run_writer_cases) simp_all
    with None thread(1) sub show ?thesis
      by (intro data_inv_same [OF inv]) (auto simp: effects_snoc intro: exI [of _ "m_async (q_log s)"])
  next
    case (Some ev)
    have d: "dispatch_event env ev (q_log s) = Inr (q_log s')"
      using thread(2) Some by (cases rule: run_writer_cases) simp_all
    have "ev \<in> set (batch s @ q_events s)" unfolding r(3) using Some by simp
    then have "ev \<in> pending s" by (simp add: q)
    with inv have lo: "legit (q_log s) ev" by (auto simp: data_inv_def legit_def)
    from logInternal_ok [of "q_log s" "e_logger ev" _ ev 0 env "e_level ev"] lo inv d
    have "logged (q_log s) (q_log s')" by (fastforce simp: data_inv_def legit_def dispatch_event_def numeral_2_eq_2)
    with Some dispatch_at_once [OF d lo] sub thread(1) show ?thesis
      by (intro data_inv_append [OF inv]) (auto simp: effects_snoc)
  qed
next
  case (set_async v)
  note r = setAsync_inv [OF c set_async(3), of v]
  have "in_hand i s' = in_hand i s" for i by (rule in_hand_same) (simp add: r(4) set_async(2))
  with r(2,3,5) set_async(1,2) show ?thesis
    by (intro data_inv_same [OF inv]) (auto simp: effects_snoc pending_def)
next
  case control
  note r = run_controller_inv [OF c control(2)]
  have "in_hand i s' = in_hand i s" for i using r(4) by (rule in_hand_same)
  with r(2,3,5) control(1) show ?thesis
    by (intro data_inv_same [OF inv]) (auto simp: effects_snoc pending_def)
qed

lemma async_run_data:
  assumes "async_run env s ls s'" and "order_inv [] s" and "data_inv env st0 [] s" and "proper_calls st0 ls"
  shows "data_inv env st0 ls s'"
  using assms
proof (induction rule: async_run.induct)
  case (snoc s ls s' l s'')
  from snoc.prems have "data_inv env st0 ls s'" by (intro snoc.IH) (auto simp: proper_calls_def)
  moreover have "control_inv s'" using async_run_order [OF snoc.hyps(1)] snoc.prems by (simp add: order_inv_def)
  ultimately show ?case using snoc.prems by (intro async_step_data [OF snoc.hyps(2)]) (auto simp: proper_calls_def)
qed simp

lemma data_inv_new: "log_wf st \<Longrightarrow> data_inv env st [] (AsyncLogger_new st)"
  by (simp add: data_inv_def AsyncLogger_new_def pending_def batch_def in_hand_def effects_def)

section \<open>Stopping\<close>

inductive thread_run :: "log_env \<Rightarrow> AsyncLogger \<Rightarrow> LogEvent list \<Rightarrow> AsyncLogger \<Rightarrow> bool" for env where
  none: "thread_run env s [] s"
| step: "run_writer env s = Some (Inr (w, s')) \<Longrightarrow> thread_run env s' evs s''
    \<Longrightarrow> thread_run env s ((case w of None \<Rightarrow> [] | Some ev \<Rightarrow> [ev]) @ evs) s''"

lemmas silent_step = thread_run.step [where w = None, simplified] and write_step = thread_run.step [where w = "Some ev" for ev, simplified]

definition ready :: "log_state \<Rightarrow> AsyncLogger \<Rightarrow> bool" where
  "ready st s \<longleftrightarrow> q_stopping s \<and> log_wf (q_log s) \<and> loggers (q_log s) = loggers st"

definition ends_with :: "log_env \<Rightarrow> AsyncLogger \<Rightarrow> LogEvent list \<Rightarrow> bool" where
  "ends_with env s evs \<longleftrightarrow> (\<exists>s'. thread_run env s evs s' \<and> q_thread s' = Ended \<and> q_events s' = [])"

lemma ends_silent: "run_writer env s = Some (Inr (None, s')) \<Longrightarrow> ends_with env s' evs \<Longrightarrow> ends_with env s evs"
  unfolding ends_with_def using silent_step by blast

lemma ends_write: "run_writer env s = Some (Inr (Some ev, s')) \<Longrightarrow> ends_with env s' evs \<Longrightarrow> ends_with env s (ev # evs)"
  unfolding ends_with_def using write_step by fastforce

lemma dispatch_ready:
  assumes "ready st s" and "legit st ev"
  shows "\<exists>st'. dispatch_event env ev (q_log s) = Inr st' \<and> ready st (s\<lparr>q_log := st'\<rparr>)"
proof -
  from assms obtain lg where lg: "loggers (q_log s) (e_logger ev) = Some lg" by (auto simp: ready_def legit_def)
  with logInternal_ok [of "q_log s" "e_logger ev" lg ev 0 env "e_level ev"] assms(1) show ?thesis
    by (auto simp: ready_def dispatch_event_def numeral_2_eq_2 logged_def)
qed

lemma ends_last_writing:
  assumes "ready st s" and "q_thread s = LastWriting evs" and "q_events s = []" and "\<forall>ev \<in> set evs. legit st ev"
  shows "ends_with env s evs"
  using assms
proof (induction evs arbitrary: s)
  case Nil
  have "ends_with env (s\<lparr>q_thread := Ended\<rparr>) []"
    unfolding ends_with_def using Nil.prems(3) thread_run.none by fastforce
  then show ?case by (rule ends_silent [rotated]) (simp add: run_writer_def Nil.prems)
next
  case (Cons ev evs)
  from dispatch_ready [OF Cons.prems(1), of ev env] Cons.prems(4) obtain st' where
    d: "dispatch_event env ev (q_log s) = Inr st'" "ready st (s\<lparr>q_log := st'\<rparr>)" by auto
  have "ends_with env (s\<lparr>q_log := st', q_thread := LastWriting evs\<rparr>) evs"
    by (rule Cons.IH) (use d Cons.prems in \<open>simp_all add: ready_def\<close>)
  then show ?case by (rule ends_write [rotated]) (simp add: run_writer_def Cons.prems d)
qed

lemma ends_check:
  assumes "ready st s" and "q_thread s = Checking" and "q_events s = []"
  shows "ends_with env s []"
proof -
  have "ends_with env (s\<lparr>q_thread := LastWriting [], q_events := []\<rparr>) []"
    by (rule ends_last_writing [where st = st]) (use assms in \<open>simp_all add: ready_def\<close>)
  then have "ends_with env (s\<lparr>q_thread := LastSwap\<rparr>) []"
    by (rule ends_silent [rotated]) (simp add: run_writer_def assms)
  then show ?thesis by (rule ends_silent [rotated]) (simp add: run_writer_def assms)
qed

lemma ends_writing:
  assumes "ready st s" and "q_thread s = Writing evs" and "\<forall>ev \<in> set evs. legit st ev"
    and rest: "\<And>s'. ready st s' \<Longrightarrow> q_thread s' = Checking \<Longrightarrow> q_events s' = q_events s \<Longrightarrow> q_sem s' = q_sem s \<Longrightarrow> ends_with env s' evs'"
  shows "ends_with env s (evs @ evs')"
  using assms
proof (induction evs arbitrary: s)
  case Nil
  have "ends_with env (s\<lparr>q_thread := Checking\<rparr>) evs'"
    by (rule Nil.prems(4)) (use Nil.prems(1) in \<open>simp_all add: ready_def\<close>)
  then have "ends_with env s evs'"
    by (rule ends_silent [rotated]) (use Nil.prems(1,2) in \<open>simp add: run_writer_def ready_def\<close>)
  then show ?case by simp
next
  case (Cons ev evs)
  from dispatch_ready [OF Cons.prems(1), of ev env] Cons.prems(3) obtain st' where
    d: "dispatch_event env ev (q_log s) = Inr st'" "ready st (s\<lparr>q_log := st'\<rparr>)" by auto
  have "ends_with env (s\<lparr>q_log := st', q_thread := Writing evs\<rparr>) (evs @ evs')"
    by (rule Cons.IH) (use d Cons.prems in \<open>simp_all add: ready_def\<close>)
  then have "ends_with env s (ev # evs @ evs')" by (rule ends_write [rotated]) (simp add: run_writer_def Cons.prems d)
  then show ?case by simp
qed

lemma ends_swapping:
  assumes "ready st s" and "q_thread s = Swapping" and "\<forall>ev \<in> set (q_events s). legit st ev"
  shows "ends_with env s (q_events s)"
proof -
  let ?s = "s\<lparr>q_thread := Writing (q_events s), q_events := []\<rparr>"
  have "ends_with env ?s (q_events s @ [])"
  proof (rule ends_writing [where st = st])
    fix s' assume "ready st s'" "q_thread s' = Checking" "q_events s' = q_events ?s"
    then show "ends_with env s' []" by (intro ends_check) simp_all
  qed (use assms in \<open>simp_all add: ready_def\<close>)
  then have "ends_with env ?s (q_events s)" by simp
  then show ?thesis by (rule ends_silent [rotated]) (simp add: run_writer_def assms(2))
qed

lemma ends_waiting:
  assumes "ready st s" and "q_thread s = Waiting" and "q_sem s > 0" and "\<forall>ev \<in> set (q_events s). legit st ev"
  shows "ends_with env s (q_events s)"
proof -
  let ?s = "s\<lparr>q_sem := q_sem s - 1, q_thread := Swapping\<rparr>"
  have "ends_with env ?s (q_events ?s)" by (rule ends_swapping [where st = st]) (use assms in \<open>simp_all add: ready_def\<close>)
  then have "ends_with env ?s (q_events s)" by simp
  then show ?thesis by (rule ends_silent [rotated]) (simp add: run_writer_def assms(2,3))
qed

lemma ends_checking:
  assumes "ready st s" and "q_thread s = Checking" and "q_events s = [] \<or> q_sem s > 0" and "\<forall>ev \<in> set (q_events s). legit st ev"
  shows "ends_with env s (q_events s)"
proof (cases "q_events s = []")
  case True
  with ends_check [OF assms(1,2)] show ?thesis by simp
next
  case False
  let ?s = "s\<lparr>q_thread := Waiting\<rparr>"
  have "ends_with env ?s (q_events ?s)" by (rule ends_waiting [where st = st]) (use assms False in \<open>simp_all add: ready_def\<close>)
  then have "ends_with env ?s (q_events s)" by simp
  then show ?thesis by (rule ends_silent [rotated]) (simp add: run_writer_def assms(2) False)
qed

text \<open>C36: In every run, with any number of producers and any starting and stopping, every producer's events
  leave its hands in the order of its calls, the thread writes each queued event once, in the order of
  the queue, and no wake-up is lost: when the thread sleeps and no producer is about to wake it,
  nothing is queued and nobody waits for the thread to end.\<close>

theorem async_events_in_order:
  assumes "async_run env (AsyncLogger_new st) ls s"
  shows "queued ls = written ls @ batch s @ q_events s
    \<and> (\<forall>i. handed_by i ls = passed_by i ls @ in_hand i s)
    \<and> (q_thread s = Waiting \<and> q_sem s = 0 \<and> (\<forall>i. q_producers s i \<noteq> Notifying)
        \<longrightarrow> q_events s = [] \<and> q_controller s \<noteq> Joining)"
proof -
  have "order_inv ls s" by (rule async_run_order [OF assms order_inv_new])
  then show ?thesis by (auto simp: order_inv_def inv_defs)
qed

text \<open>C37: However producers, thread and controller interleave, what is written is what writing the same
  events at once would write, in the order in which they are written, provided every event is logged on its own
  logger and at its own level: the level that is passed with it does not reach the thread.\<close>

theorem async_writes_like_sync:
  assumes "async_run env (AsyncLogger_new st) ls s" and "log_wf st" and "proper_calls st ls"
  shows "foldE (log_at_once env) (effects ls) (off st) = Inr (off (q_log s)) \<and> log_wf (q_log s)"
  using async_run_data [OF assms(1) order_inv_new data_inv_new [OF assms(2)] assms(3)]
  by (simp add: data_inv_def)

text \<open>C38: When the logger is stopped, no producer is between its test and the wake-up, and the thread has
  not taken its last batch yet, the thread by itself writes everything that is queued and ends, so that
  stopping returns.\<close>

theorem stop_writes_queue:
  assumes run: "async_run env (AsyncLogger_new st) ls s" and wf: "log_wf st" and calls: "proper_calls st ls"
    and stop: "q_controller s = Joining" "\<forall>i. q_producers s i \<noteq> Notifying" "\<forall>evs. q_thread s \<noteq> LastWriting evs" "q_thread s \<noteq> Ended"
  shows "\<exists>s'. thread_run env s (batch s @ q_events s) s' \<and> q_thread s' = Ended \<and> q_events s' = []
    \<and> run_controller s' \<noteq> None"
proof -
  have inv: "order_inv ls s" by (rule async_run_order [OF run order_inv_new])
  have d: "data_inv env st ls s" by (rule async_run_data [OF run order_inv_new data_inv_new [OF wf] calls])
  have ready: "ready st s" using inv d stop(1) by (auto simp: order_inv_def data_inv_def inv_defs ready_def)
  have legit: "\<forall>ev \<in> set (batch s) \<union> set (q_events s). legit st ev" using d by (auto simp: data_inv_def pending_def)
  have sem: "q_events s = [] \<or> q_sem s > 0 \<or> q_thread s = Swapping \<or> q_thread s = LastSwap"
    using inv stop(2) by (auto simp: order_inv_def inv_defs)
  have "ends_with env s (batch s @ q_events s)"
  proof (cases "q_thread s")
    case NoThread
    with inv stop(1) show ?thesis by (simp add: order_inv_def inv_defs)
  next
    case Waiting
    with inv stop(1) sem have "q_sem s > 0" by (auto simp: order_inv_def inv_defs)
    with ends_waiting [OF ready Waiting this] legit Waiting show ?thesis by (simp add: batch_def)
  next
    case Swapping
    with ends_swapping [OF ready Swapping] legit show ?thesis by (simp add: batch_def)
  next
    case (Writing evs)
    have "ends_with env s (evs @ q_events s)"
    proof (rule ends_writing [OF ready Writing])
      fix s' assume "ready st s'" "q_thread s' = Checking" "q_events s' = q_events s" "q_sem s' = q_sem s"
      with ends_checking [of st s' env] sem legit Writing show "ends_with env s' (q_events s)" by auto
    qed (use legit Writing in \<open>simp add: batch_def\<close>)
    with Writing show ?thesis by (simp add: batch_def)
  next
    case Checking
    with ends_checking [OF ready Checking] sem legit show ?thesis by (simp add: batch_def)
  next
    case LastSwap
    have "ends_with env (s\<lparr>q_thread := LastWriting (q_events s), q_events := []\<rparr>) (q_events s)"
      by (rule ends_last_writing [where st = st]) (use ready legit in \<open>simp_all add: ready_def\<close>)
    then have "ends_with env s (q_events s)" by (rule ends_silent [rotated]) (simp add: run_writer_def LastSwap)
    with LastSwap show ?thesis by (simp add: batch_def)
  qed (use stop in simp_all)
  moreover have "thread_run env t evs t' \<Longrightarrow> q_controller t' = q_controller t" for t evs t'
  proof (induction rule: thread_run.induct)
    case (step s w s' evs s'')
    from step.hyps(1) have "q_controller s' = q_controller s" by (cases rule: run_writer_cases) simp_all
    with step.IH show ?case by simp
  qed simp
  ultimately show ?thesis using stop(1) unfolding ends_with_def by (fastforce simp: run_controller_def)
qed

section \<open>A race\<close>

text \<open>Runs as lists of commands.\<close>

datatype async_cmd = DoSet bool | DoControl | DoThread | DoLog nat nat Level LogEvent | DoTest nat | DoQueue nat | DoNotify nat

fun exec_async :: "log_env \<Rightarrow> async_cmd \<Rightarrow> AsyncLogger \<Rightarrow> (async_label \<times> AsyncLogger) option" where
  "exec_async env (DoSet v) s = (if q_controller s = Free then Some (Silent, setAsync v s) else None)"
| "exec_async env DoControl s = (case run_controller s of None \<Rightarrow> None | Some s' \<Rightarrow> Some (Silent, s'))"
| "exec_async env DoThread s =
     (case run_writer env s of
        Some (Inr (w, s')) \<Rightarrow> Some (case w of None \<Rightarrow> Silent | Some ev \<Rightarrow> Written ev, s')
      | _ \<Rightarrow> None)"
| "exec_async env (DoLog i l level ev) s =
     (if q_producers s i \<noteq> Away then None
      else case producer_log env i l level ev s of
          Inl _ \<Rightarrow> None
        | Inr (h, s') \<Rightarrow> Some (if h then Handed i l level ev else Called i l level ev, s'))"
| "exec_async env (DoTest i) s =
     (case q_producers s i of
        Dispatching ev \<Rightarrow>
          (case push_test i ev s env of Inl _ \<Rightarrow> None | Inr (d, s') \<Rightarrow> Some (if d then Direct i ev else Silent, s'))
      | _ \<Rightarrow> None)"
| "exec_async env (DoQueue i) s = (case q_producers s i of Queueing ev \<Rightarrow> Some (Queued i ev, push_queue i ev s) | _ \<Rightarrow> None)"
| "exec_async env (DoNotify i) s = (if q_producers s i = Notifying then Some (Silent, push_notify i s) else None)"

fun exec_all :: "log_env \<Rightarrow> async_cmd list \<Rightarrow> async_label list \<Rightarrow> AsyncLogger \<Rightarrow> (async_label list \<times> AsyncLogger) option" where
  "exec_all env [] ls s = Some (ls, s)"
| "exec_all env (c # cs) ls s = (case exec_async env c s of None \<Rightarrow> None | Some (l, s') \<Rightarrow> exec_all env cs (ls @ [l]) s')"

lemma exec_async_sound: "exec_async env c s = Some (l, s') \<Longrightarrow> async_step env s l s'"
proof (cases c)
  case (DoSet v)
  assume "exec_async env c s = Some (l, s')"
  with DoSet show ?thesis by (auto split: if_splits intro: async_step.set_async)
next
  case DoControl
  assume "exec_async env c s = Some (l, s')"
  with DoControl show ?thesis by (auto split: option.splits intro: async_step.control)
next
  case DoThread
  assume "exec_async env c s = Some (l, s')"
  with DoThread obtain w where "run_writer env s = Some (Inr (w, s'))" "l = (case w of None \<Rightarrow> Silent | Some ev \<Rightarrow> Written ev)"
    by (auto split: option.splits sum.splits)
  then show ?thesis using async_step.thread by blast
next
  case (DoLog i lg v ev)
  assume "exec_async env c s = Some (l, s')"
  with DoLog obtain h where "q_producers s i = Away" "producer_log env i lg v ev s = Inr (h, s')"
    "l = (if h then Handed i lg v ev else Called i lg v ev)" by (auto split: if_splits sum.splits)
  then show ?thesis using async_step.call by blast
next
  case (DoTest i)
  assume "exec_async env c s = Some (l, s')"
  with DoTest obtain ev d where "q_producers s i = Dispatching ev" "push_test i ev s env = Inr (d, s')"
    "l = (if d then Direct i ev else Silent)" by (auto split: producer.splits sum.splits)
  then show ?thesis using async_step.test by blast
next
  case (DoQueue i)
  assume "exec_async env c s = Some (l, s')"
  with DoQueue show ?thesis by (auto split: producer.splits intro: async_step.queue)
next
  case (DoNotify i)
  assume "exec_async env c s = Some (l, s')"
  with DoNotify show ?thesis by (auto split: if_splits intro: async_step.notify)
qed

lemma exec_all_sound: "exec_all env cs ls s' = Some (ls', s'') \<Longrightarrow> async_run env s ls s' \<Longrightarrow> async_run env s ls' s''"
  by (induction cs arbitrary: ls s') (auto split: option.splits intro: async_run.snoc dest: exec_async_sound)

lemmas exec_simps = setAsync_def run_controller_def run_writer_def producer_log_def push_test_def push_queue_def push_notify_def
  set_producer_def Logger_log_def logger_at_def AsyncLogger_new_def

text \<open>C39: An event can be lost: a producer finds the logger running, then it is stopped completely, and then
  the producer queues its event. Nothing runs any more that would write it, although \<open>log\<close> returned.\<close>

theorem late_event_is_lost:
  assumes "loggers st l = Some lg" and "\<not> level < lg_level lg" and "\<not> m_async st"
  shows "\<exists>ls s. async_run env (AsyncLogger_new st) ls s \<and> handed_by i ls = [ev] \<and> (\<forall>j. q_producers s j = Away)
    \<and> q_controller s = Free \<and> \<not> q_running s \<and> run_writer env s = None \<and> q_events s = [ev] \<and> off (q_log s) = off st"
proof -
  let ?stop = "[DoSet False, DoControl, DoControl, DoControl, DoThread, DoThread, DoThread, DoThread, DoThread, DoThread, DoControl, DoControl]"
  let ?cs = "[DoSet True, DoControl, DoControl, DoControl, DoLog i l level ev, DoTest i] @ ?stop @ [DoQueue i, DoNotify i]"
  obtain ls s where r: "exec_all env ?cs [] (AsyncLogger_new st) = Some (ls, s)" and
    s: "handed_by i ls = [ev]" "q_producers s = (\<lambda>_. Away)(i := Away)" "q_controller s = Free" "\<not> q_running s"
      "q_thread s = NoThread" "q_events s = [ev]" "off (q_log s) = off st"
    using assms by (simp add: exec_simps handed_by_def)
  then show ?thesis using exec_all_sound [OF r async_run.none]
    by (intro exI [of _ ls] exI [of _ s]) (simp add: run_writer_def)
qed

section \<open>Examples\<close>

definition demo_st :: log_state where
  "demo_st = LoggerManager_new\<lparr>m_async := False\<rparr>"

definition demo_ev :: LogEvent where
  "demo_ev = \<lparr>e_file = ''kv.cpp'', e_line = 7, e_elapse = 0, e_threadId = 1, e_fiberId = 0, e_time = 5,
     e_threadName = ''main'', e_content = ''hello'', e_logger = 0, e_level = INFO\<rparr>"

definition demo_cmds :: "async_cmd list" where
  "demo_cmds = [DoSet True, DoControl, DoControl, DoControl, DoLog 3 0 INFO demo_ev, DoTest 3, DoQueue 3, DoNotify 3]"

lemma demo_st_wf: "log_wf demo_st"
  unfolding demo_st_def log_wf_async by (rule LoggerManager_new_wf)

definition demo_root :: Logger where
  "demo_root = (Logger_new ''root'')\<lparr>lg_appenders := [1]\<rparr>"

lemma demo_st_simps:
  "m_async demo_st = False" "loggers demo_st 0 = Some demo_root" "e_logger demo_ev = 0" "e_level demo_ev = INFO"
  by (simp_all add: demo_st_def demo_ev_def LoggerManager_new_def demo_root_def)

lemma demo_level: "\<not> INFO < lg_level demo_root"
  by (simp add: demo_root_def Logger_new_def less_Level_def)

lemma demo_queued:
  "\<exists>ls s. async_run env (AsyncLogger_new demo_st) ls s \<and> proper_calls demo_st ls \<and> queued ls = [demo_ev] \<and> q_thread s = Waiting
     \<and> q_sem s = 1 \<and> q_events s = [demo_ev] \<and> q_producers s = (\<lambda>_. Away) \<and> q_controller s = Free \<and> effects ls = []
     \<and> q_running s \<and> m_async (q_log s)"
proof -
  obtain ls s where r: "exec_all env demo_cmds [] (AsyncLogger_new demo_st) = Some (ls, s)" and
    s: "proper_calls demo_st ls" "queued ls = [demo_ev]" "q_thread s = Waiting" "q_sem s = 1" "q_events s = [demo_ev]"
      "q_producers s = (\<lambda>_. Away)(3 := Away)" "q_controller s = Free" "effects ls = []" "q_running s" "m_async (q_log s)"
    using demo_level by (simp add: demo_cmds_def exec_simps demo_st_simps label_lists effects_def proper_calls_def)
  have "q_producers s = (\<lambda>_. Away)" using s(6) by auto
  with s show ?thesis using exec_all_sound [OF r async_run.none] by (intro exI [of _ ls] exI [of _ s]) simp
qed

theorem late_event_is_lost_witness:
  "\<exists>ls s. async_run demo_env (AsyncLogger_new demo_st) ls s \<and> handed_by 3 ls = [demo_ev] \<and> (\<forall>j. q_producers s j = Away)
    \<and> q_controller s = Free \<and> \<not> q_running s \<and> run_writer demo_env s = None \<and> q_events s = [demo_ev] \<and> off (q_log s) = off demo_st"
  by (rule late_event_is_lost [where l = 0 and level = INFO]) (use demo_level in \<open>simp_all add: demo_st_simps\<close>)

theorem async_events_in_order_witness:
  "\<exists>ls s. async_run demo_env (AsyncLogger_new demo_st) ls s \<and> [demo_ev] = written ls @ batch s @ q_events s"
proof -
  from demo_queued [of demo_env] obtain ls s where r: "async_run demo_env (AsyncLogger_new demo_st) ls s" "queued ls = [demo_ev]" by blast
  with async_events_in_order [OF r(1)] show ?thesis by (intro exI [of _ ls] exI [of _ s]) simp
qed

theorem async_writes_like_sync_witness:
  "\<exists>ls s. async_run demo_env (AsyncLogger_new demo_st) ls s \<and> effects ls = [demo_ev]
    \<and> foldE (log_at_once demo_env) [demo_ev] (off demo_st) = Inr (off (q_log s))"
proof -
  from Logger_log_ok [OF demo_st_wf demo_st_simps(2), of demo_ev demo_env INFO] obtain r st where
    log: "Logger_log demo_env 0 INFO demo_ev demo_st = Inr (r, st)" by (auto simp: demo_st_simps)
  then have "r = None" using demo_level by (auto simp: Logger_log_def demo_st_simps logger_at_def result_simps split: if_splits)
  with log obtain s where s: "producer_log demo_env 0 0 INFO demo_ev (AsyncLogger_new demo_st) = Inr (False, s)"
    by (simp add: producer_log_def AsyncLogger_new_def)
  let ?ls = "[Called 0 0 INFO demo_ev]"
  have "async_step demo_env (AsyncLogger_new demo_st) (Called 0 0 INFO demo_ev) s"
    using async_step.call [OF _ s] by (simp add: AsyncLogger_new_def)
  from async_run.snoc [OF async_run.none this] have run: "async_run demo_env (AsyncLogger_new demo_st) ?ls s" by simp
  have ls: "effects ?ls = [demo_ev]" "proper_calls demo_st ?ls" by (simp_all add: effects_def proper_calls_def demo_st_simps)
  from async_writes_like_sync [OF run demo_st_wf ls(2)] run ls(1) show ?thesis by (intro exI [of _ ?ls] exI [of _ s]) simp
qed

theorem stop_writes_queue_witness:
  "\<exists>ls s s'. async_run demo_env (AsyncLogger_new demo_st) ls s \<and> thread_run demo_env s [demo_ev] s' \<and> q_thread s' = Ended
    \<and> q_events s' = [] \<and> run_controller s' \<noteq> None"
proof -
  obtain ls s where r: "exec_all demo_env (demo_cmds @ [DoSet False, DoControl, DoControl, DoControl]) [] (AsyncLogger_new demo_st) = Some (ls, s)"
    and s: "proper_calls demo_st ls" "q_thread s = Waiting" "q_events s = [demo_ev]" "q_producers s = (\<lambda>_. Away)(3 := Away)" "q_controller s = Joining"
    using demo_level by (simp add: demo_cmds_def exec_simps demo_st_simps proper_calls_def)
  from exec_all_sound [OF r async_run.none] have run: "async_run demo_env (AsyncLogger_new demo_st) ls s" .
  from stop_writes_queue [OF run demo_st_wf s(1,5)] s run show ?thesis by (fastforce simp: batch_def)
qed

end
