(* ===== verification/StdMap.thy ===== *)
theory StdMap
  imports Prelude
begin

text \<open>
  std::map with a user-supplied comparison: a list of pairs kept in the order of the comparison,
  in which two keys are the same when neither is less than the other. The contract a comparison
  has to meet (a strict weak order) is a locale, and what lookup, insertion, assignment and erasure
  then do is proved inside it once.
\<close>

type_synonym ('k, 'v) std_map = "('k \<times> 'v) list"

fun map_find :: "('k \<Rightarrow> 'k \<Rightarrow> bool) \<Rightarrow> 'k \<Rightarrow> ('k, 'v) std_map \<Rightarrow> 'v option" where
  "map_find lt k [] = None"
| "map_find lt k ((k', v') # m) =
    (if lt k' k then map_find lt k m else if lt k k' then None else Some v')"

text \<open>\<open>m[k] = v\<close>: the key that is already there stays as it was spelled.\<close>

fun map_assign :: "('k \<Rightarrow> 'k \<Rightarrow> bool) \<Rightarrow> 'k \<Rightarrow> 'v \<Rightarrow> ('k, 'v) std_map \<Rightarrow> ('k, 'v) std_map" where
  "map_assign lt k v [] = [(k, v)]"
| "map_assign lt k v ((k', v') # m) =
    (if lt k' k then (k', v') # map_assign lt k v m
     else if lt k k' then (k, v) # (k', v') # m else (k', v) # m)"

text \<open>\<open>m.insert(make_pair(k, v))\<close>: nothing changes when the key is there.\<close>

fun map_insert :: "('k \<Rightarrow> 'k \<Rightarrow> bool) \<Rightarrow> 'k \<Rightarrow> 'v \<Rightarrow> ('k, 'v) std_map \<Rightarrow> ('k, 'v) std_map" where
  "map_insert lt k v [] = [(k, v)]"
| "map_insert lt k v ((k', v') # m) =
    (if lt k' k then (k', v') # map_insert lt k v m
     else if lt k k' then (k, v) # (k', v') # m else (k', v') # m)"

fun map_erase :: "('k \<Rightarrow> 'k \<Rightarrow> bool) \<Rightarrow> 'k \<Rightarrow> ('k, 'v) std_map \<Rightarrow> ('k, 'v) std_map" where
  "map_erase lt k [] = []"
| "map_erase lt k ((k', v') # m) =
    (if lt k' k then (k', v') # map_erase lt k m
     else if lt k k' then (k', v') # m else m)"

definition in_order :: "('k \<Rightarrow> 'k \<Rightarrow> bool) \<Rightarrow> ('k, 'v) std_map \<Rightarrow> bool" where
  "in_order lt m \<longleftrightarrow> sorted_wrt lt (map fst m)"

lemma in_order_simps [simp]:
  "in_order lt []"
  "in_order lt ((k, v) # m) \<longleftrightarrow> (\<forall>x \<in> fst ` set m. lt k x) \<and> in_order lt m"
  by (auto simp: in_order_def)

text \<open>\<open>insert\<close> on an unordered map: a key that is there keeps its value.\<close>

definition insert_new :: "'k \<Rightarrow> 'v \<Rightarrow> ('k \<rightharpoonup> 'v) \<Rightarrow> ('k \<rightharpoonup> 'v)" where
  "insert_new k v m = (case m k of None \<Rightarrow> m(k \<mapsto> v) | Some _ \<Rightarrow> m)"

locale compare =
  fixes lt :: "'k \<Rightarrow> 'k \<Rightarrow> bool"
  assumes irrefl: "\<not> lt a a"
    and trans: "lt a b \<Longrightarrow> lt b c \<Longrightarrow> lt a c"
    and incomparable: "\<not> lt a b \<Longrightarrow> \<not> lt b a \<Longrightarrow> \<not> lt b c \<Longrightarrow> \<not> lt c b \<Longrightarrow> \<not> lt a c"
begin

definition same :: "'k \<Rightarrow> 'k \<Rightarrow> bool" where
  "same a b \<longleftrightarrow> \<not> lt a b \<and> \<not> lt b a"

lemma same_refl [simp]: "same a a"
  by (simp add: same_def irrefl)

lemma same_sym: "same a b \<longleftrightarrow> same b a"
  by (auto simp: same_def)

lemma same_trans: "same a b \<Longrightarrow> same b c \<Longrightarrow> same a c"
  unfolding same_def using incomparable [of a b c] incomparable [of c b a] by blast

lemma less_same: "lt a b \<Longrightarrow> same b c \<Longrightarrow> lt a c"
  unfolding same_def using incomparable [of a c b] trans by blast

lemma same_less: "same a b \<Longrightarrow> lt b c \<Longrightarrow> lt a c"
  unfolding same_def using incomparable [of b a c] trans by blast

lemma keys_assign: "set (map fst (map_assign lt k v m)) \<subseteq> insert k (set (map fst m))"
  by (induction lt k v m rule: map_assign.induct) auto

lemma keys_insert: "set (map fst (map_insert lt k v m)) \<subseteq> insert k (set (map fst m))"
  by (induction lt k v m rule: map_insert.induct) auto

lemma keys_erase: "set (map fst (map_erase lt k m)) \<subseteq> set (map fst m)"
  by (induction lt k m rule: map_erase.induct) auto

lemma asym: "lt a b \<Longrightarrow> \<not> lt b a"
  using irrefl [of a] trans [of a b a] by blast

lemma all_less: "lt k k' \<Longrightarrow> (\<forall>x \<in> fst ` set m. lt k' x) \<Longrightarrow> (\<forall>x \<in> fst ` set m. lt k x)"
  using trans [of k k'] by blast

lemma compare_cases:
  obtains (below) "lt k' k" | (above) "lt k k'" "\<not> lt k' k" | (at) "same k k'"
  unfolding same_def using asym [of k k'] by blast

lemma order_assign: "in_order lt m \<Longrightarrow> in_order lt (map_assign lt k v m)"
proof (induction m)
  case (Cons p m)
  obtain k' v' where p: "p = (k', v')" by (cases p)
  from Cons.prems p have m: "\<forall>x \<in> fst ` set m. lt k' x" "in_order lt m" by simp_all
  show ?case
  proof (cases rule: compare_cases [of k' k])
    case below
    with keys_assign [of k v m] m(1) have "\<forall>x \<in> fst ` set (map_assign lt k v m). lt k' x"
      unfolding set_map by blast
    with below Cons.IH [OF m(2)] p show ?thesis by simp
  next
    case above
    with all_less [OF above(1) m(1)] m p show ?thesis by simp
  next
    case at
    with m p show ?thesis by (simp add: same_def)
  qed
qed simp

lemma order_insert: "in_order lt m \<Longrightarrow> in_order lt (map_insert lt k v m)"
proof (induction m)
  case (Cons p m)
  obtain k' v' where p: "p = (k', v')" by (cases p)
  from Cons.prems p have m: "\<forall>x \<in> fst ` set m. lt k' x" "in_order lt m" by simp_all
  show ?case
  proof (cases rule: compare_cases [of k' k])
    case below
    with keys_insert [of k v m] m(1) have "\<forall>x \<in> fst ` set (map_insert lt k v m). lt k' x"
      unfolding set_map by blast
    with below Cons.IH [OF m(2)] p show ?thesis by simp
  next
    case above
    with all_less [OF above(1) m(1)] m p show ?thesis by simp
  next
    case at
    with m p show ?thesis by (simp add: same_def)
  qed
qed simp

lemma order_erase: "in_order lt m \<Longrightarrow> in_order lt (map_erase lt k m)"
proof (induction m)
  case (Cons p m)
  obtain k' v' where p: "p = (k', v')" by (cases p)
  from Cons.prems p have m: "\<forall>x \<in> fst ` set m. lt k' x" "in_order lt m" by simp_all
  from keys_erase [of k m] m(1) have "\<forall>x \<in> fst ` set (map_erase lt k m). lt k' x"
    unfolding set_map by blast
  with Cons.IH [OF m(2)] m p show ?case by simp
qed simp

lemma find_same: "same q k \<Longrightarrow> map_find lt q m = map_find lt k m"
proof (induction m)
  case (Cons p m)
  obtain k' v' where p: "p = (k', v')" by (cases p)
  have "lt k' q \<longleftrightarrow> lt k' k" "lt q k' \<longleftrightarrow> lt k k'"
    using Cons.prems less_same [of k' q k] less_same [of k' k q] same_less [of q k k']
      same_less [of k q k'] same_sym [of q k] by blast+
  with Cons p show ?case by simp
qed simp

lemma find_new:
  assumes "lt k k'"
  shows "map_find lt q ((k, v) # (k', v') # m) =
    (if same q k then Some v else map_find lt q ((k', v') # m))"
proof (cases rule: compare_cases [of k q])
  case below
  then show ?thesis by (simp add: same_def)
next
  case above
  with trans [OF above(1) assms] asym have "lt q k'" "\<not> lt k' q" by blast+
  with above show ?thesis by (simp add: same_def)
next
  case at
  then show ?thesis by (simp add: same_def)
qed

lemma find_assign:
  "map_find lt q (map_assign lt k v m) = (if same q k then Some v else map_find lt q m)"
proof (induction m)
  case Nil
  then show ?case by (simp add: same_def)
next
  case (Cons p m)
  obtain k' v' where p: "p = (k', v')" by (cases p)
  show ?case
  proof (cases rule: compare_cases [of k' k])
    case below
    with less_same [of k' k q] same_sym [of k q] have "same q k \<Longrightarrow> lt k' q" by blast
    with below Cons.IH p show ?thesis by simp
  next
    case above
    with find_new [OF above(1), of q v v' m] p show ?thesis by simp
  next
    case at
    then have "same q k \<longleftrightarrow> same q k'"
      using same_trans [of q k k'] same_trans [of q k' k] same_sym [of k k'] by blast
    with at p show ?thesis by (simp add: same_def)
  qed
qed

lemma find_insert:
  "map_find lt q (map_insert lt k v m) =
    (if same q k \<and> map_find lt k m = None then Some v else map_find lt q m)"
proof (induction m)
  case Nil
  then show ?case by (simp add: same_def)
next
  case (Cons p m)
  obtain k' v' where p: "p = (k', v')" by (cases p)
  show ?case
  proof (cases rule: compare_cases [of k' k])
    case below
    with less_same [of k' k q] same_sym [of k q] have "same q k \<Longrightarrow> lt k' q" by blast
    with below Cons.IH p show ?thesis by simp
  next
    case above
    with find_new [OF above(1), of q v v' m] p show ?thesis by simp
  next
    case at
    with p show ?thesis by (simp add: same_def)
  qed
qed

lemma find_None: "in_order lt m \<Longrightarrow> \<forall>x \<in> fst ` set m. lt q x \<Longrightarrow> map_find lt q m = None"
  using asym [of q] by (cases m) auto

lemma find_erase:
  assumes "in_order lt m"
  shows "map_find lt q (map_erase lt k m) = (if same q k then None else map_find lt q m)"
  using assms
proof (induction m)
  case (Cons p m)
  obtain k' v' where p: "p = (k', v')" by (cases p)
  from Cons.prems p have m: "\<forall>x \<in> fst ` set m. lt k' x" "in_order lt m" by simp_all
  show ?case
  proof (cases rule: compare_cases [of k' k])
    case below
    with less_same [of k' k q] same_sym [of k q] have "same q k \<Longrightarrow> lt k' q" by blast
    with below Cons.IH [OF m(2)] p show ?thesis by simp
  next
    case above
    with same_less [of q k k'] asym [of q k'] have "same q k \<Longrightarrow> lt q k' \<and> \<not> lt k' q" by blast
    with above p show ?thesis by simp
  next
    case at
    have eq: "same q k \<longleftrightarrow> same q k'"
      using at same_trans [of q k k'] same_trans [of q k' k] same_sym [of k k'] by blast
    have "map_find lt q m = None" if "\<not> lt k' q"
    proof (rule find_None [OF m(2)])
      from that have "lt q k' \<or> same q k'" by (auto simp: same_def)
      then show "\<forall>x \<in> fst ` set m. lt q x"
        using m(1) trans [of q k'] same_less [of q k'] by blast
    qed
    with at eq p show ?thesis by (simp add: same_def)
  qed
qed simp

text \<open>Insertion of several pairs one after the other: the first one with the key wins.\<close>

lemma find_fold_insert:
  "map_find lt q (fold (\<lambda>(k, v). map_insert lt k v) ps m) =
    (case map_find lt q m of Some v \<Rightarrow> Some v
     | None \<Rightarrow> map_option snd (find (\<lambda>(k, v). same q k) ps))"
proof (induction ps arbitrary: m)
  case (Cons p ps)
  obtain k v where p: "p = (k, v)" by (cases p)
  show ?case
  proof (cases "same q k")
    case True
    with Cons.IH p show ?thesis by (simp add: find_insert find_same split: option.split)
  next
    case False
    with Cons.IH p show ?thesis by (simp add: find_insert split: option.split)
  qed
qed (simp split: option.split)

end

end
