(* ===== verification/Config.thy ===== *)
theory Config
  imports LogProps StdMap
begin

text \<open>
  Configuration variables (\<open>src/sylar/config.cc\<close>, \<open>config.h\<close>): the table of variables, their listeners, and
  loading values from YAML and from a directory of files. The values of all types are one type
  of the model, and a variable carries the name of its type; how values of a type are written and read
  as text (\<open>ToStr\<close>, \<open>FromStr\<close>), how a YAML node is written, and what files hold are parameters. A
  listener acts on a state of the program and says whether it returned or threw.
\<close>

section \<open>Variables\<close>

type_synonym ('v, 's) on_change = "'v \<Rightarrow> 'v \<Rightarrow> 's \<Rightarrow> bool \<times> 's"

record ('v, 's) ConfigVar =
  cv_description :: string
  cv_type :: string
  m_val :: 'v
  m_cbs :: "(64 word, ('v, 's) on_change) std_map"

text \<open>The table by name (\<open>GetDatas\<close>), and the last identifier of a listener for every type.\<close>

record ('v, 's) Config =
  s_datas :: "string \<Rightarrow> ('v, 's) ConfigVar option"
  s_fun_id :: "string \<Rightarrow> 64 word"

record 'v casts =
  FromStr :: "string \<Rightarrow> string \<Rightarrow> 'v option"
  ToStr :: "string \<Rightarrow> 'v \<Rightarrow> string option"

datatype config_error = InvalidArgument string | NullVar

definition Config_new :: "('v, 's) Config" where
  "Config_new = \<lparr>s_datas = (\<lambda>_. None), s_fun_id = (\<lambda>_. 0)\<rparr>"

definition var_at :: "string \<Rightarrow> ('v, 's) Config \<Rightarrow> config_error + ('v, 's) ConfigVar" where
  "var_at name cfg = optE NullVar (s_datas cfg name)"

definition set_var :: "string \<Rightarrow> ('v, 's) ConfigVar \<Rightarrow> ('v, 's) Config \<Rightarrow> ('v, 's) Config" where
  "set_var name v cfg = cfg\<lparr>s_datas := (s_datas cfg)(name \<mapsto> v)\<rparr>"

text \<open>The characters names may have, as the code lists them.\<close>

definition name_chars :: string where
  "name_chars = ''abcdefghikjlmnopqrstuvwxyz._012345678''"

text \<open>\<open>Lookup\<close> with a default value, and without; a variable is its name, \<open>None\<close> the null pointer.\<close>

definition Lookup_default :: "string \<Rightarrow> string \<Rightarrow> 'v \<Rightarrow> string \<Rightarrow> ('v, 's) Config \<Rightarrow> config_error + string option \<times> ('v, 's) Config" where
  "Lookup_default ty name default_value description cfg =
     (case s_datas cfg name of
        Some v \<Rightarrow> Inr (if cv_type v = ty then Some name else None, cfg)
      | None \<Rightarrow>
          if find_first_not_of name_chars name \<noteq> None then Inl (InvalidArgument name)
          else Inr (Some name, set_var name
            \<lparr>cv_description = description, cv_type = ty, m_val = default_value, m_cbs = []\<rparr> cfg))"

definition Lookup_name :: "string \<Rightarrow> string \<Rightarrow> ('v, 's) Config \<Rightarrow> string option" where
  "Lookup_name ty name cfg =
     (case s_datas cfg name of None \<Rightarrow> None | Some v \<Rightarrow> if cv_type v = ty then Some name else None)"

definition LookupBase :: "string \<Rightarrow> ('v, 's) Config \<Rightarrow> string option" where
  "LookupBase name cfg = (case s_datas cfg name of None \<Rightarrow> None | Some _ \<Rightarrow> Some name)"

section \<open>Values and listeners\<close>

definition getValue :: "string \<Rightarrow> ('v, 's) Config \<Rightarrow> config_error + 'v" where
  "getValue name cfg = bindE (var_at name cfg) (\<lambda>v. Inr (m_val v))"

fun run_listeners :: "('k, ('v, 's) on_change) std_map \<Rightarrow> 'v \<Rightarrow> 'v \<Rightarrow> 's \<Rightarrow> bool \<times> 's" where
  "run_listeners [] old new st = (True, st)"
| "run_listeners ((_, cb) # cbs) old new st =
     (let (returned, st1) = cb old new st in if returned then run_listeners cbs old new st1 else (False, st1))"

text \<open>\<open>setValue\<close>: the first part of the result is whether it returned; the value is stored after the
  listeners.\<close>

definition setValue :: "string \<Rightarrow> 'v \<Rightarrow> ('v, 's) Config \<times> 's \<Rightarrow> config_error + bool \<times> ('v, 's) Config \<times> 's" where
  "setValue name v s =
     (case s of (cfg, st) \<Rightarrow>
        bindE (var_at name cfg) (\<lambda>var.
        if v = m_val var then Inr (True, cfg, st)
        else
          let (returned, st1) = run_listeners (m_cbs var) (m_val var) v st
          in Inr (returned, if returned then set_var name (var\<lparr>m_val := v\<rparr>) cfg else cfg, st1)))"

text \<open>\<open>fromString\<close> catches what the conversion or a listener throws.\<close>

definition fromString :: "'v casts \<Rightarrow> string \<Rightarrow> string \<Rightarrow> ('v, 's) Config \<times> 's \<Rightarrow> config_error + bool \<times> ('v, 's) Config \<times> 's" where
  "fromString casts name val s =
     bindE (var_at name (fst s)) (\<lambda>var.
     case FromStr casts (cv_type var) val of None \<Rightarrow> Inr (False, s) | Some v \<Rightarrow> setValue name v s)"

definition config_toString :: "'v casts \<Rightarrow> string \<Rightarrow> ('v, 's) Config \<Rightarrow> config_error + string" where
  "config_toString casts name cfg =
     bindE (var_at name cfg) (\<lambda>var. Inr (case ToStr casts (cv_type var) (m_val var) of None \<Rightarrow> [] | Some s \<Rightarrow> s))"

definition addListener :: "string \<Rightarrow> ('v, 's) on_change \<Rightarrow> ('v, 's) Config \<Rightarrow> config_error + 64 word \<times> ('v, 's) Config" where
  "addListener name cb cfg =
     bindE (var_at name cfg) (\<lambda>var.
     let i = s_fun_id cfg (cv_type var) + 1
     in Inr (i, set_var name (var\<lparr>m_cbs := map_assign (<) i cb (m_cbs var)\<rparr>)
          (cfg\<lparr>s_fun_id := (s_fun_id cfg)(cv_type var := i)\<rparr>)))"

definition delListener :: "string \<Rightarrow> 64 word \<Rightarrow> ('v, 's) Config \<Rightarrow> config_error + ('v, 's) Config" where
  "delListener name key cfg =
     bindE (var_at name cfg) (\<lambda>var. Inr (set_var name (var\<lparr>m_cbs := map_erase (<) key (m_cbs var)\<rparr>) cfg))"

definition getListener :: "string \<Rightarrow> 64 word \<Rightarrow> ('v, 's) Config \<Rightarrow> config_error + ('v, 's) on_change option" where
  "getListener name key cfg = bindE (var_at name cfg) (\<lambda>var. Inr (map_find (<) key (m_cbs var)))"

definition clearListener :: "string \<Rightarrow> ('v, 's) Config \<Rightarrow> config_error + ('v, 's) Config" where
  "clearListener name cfg = bindE (var_at name cfg) (\<lambda>var. Inr (set_var name (var\<lparr>m_cbs := []\<rparr>) cfg))"

section \<open>Loading\<close>

text \<open>How deep nodes are nested in maps.\<close>

fun yaml_depth :: "yaml \<Rightarrow> nat" where
  "yaml_depth (YScalar s) = 0"
| "yaml_depth (YSeq ns) = 0"
| "yaml_depth (YMap kvs) = 1 + sum_list (map (\<lambda>(k, v). yaml_depth v) kvs)"

lemma yaml_depth_less: "(k, v) \<in> set kvs \<Longrightarrow> yaml_depth v < yaml_depth (YMap kvs)"
  using member_le_sum_list [of "yaml_depth v" "map (\<lambda>(k, v). yaml_depth v) kvs"] by force

text \<open>\<open>ListAllMember\<close>, the keys of all nodes with their nodes in the order of the file; a node with an
  invalid name is left out with everything in it. The keys of maps are taken to be scalars, as the code
  does.\<close>

function ListAllMember :: "string \<Rightarrow> yaml \<Rightarrow> (string \<times> yaml) list" where
  "ListAllMember prefix node =
     (if find_first_not_of name_chars prefix \<noteq> None then []
      else (prefix, node) #
        (case node of
           YMap kvs \<Rightarrow> concat (map (\<lambda>(k, v). ListAllMember (if prefix = [] then k else prefix @ ''.'' @ k) v) kvs)
         | _ \<Rightarrow> []))"
  by pat_completeness auto

termination
  by (relation "measure (\<lambda>(_, n). yaml_depth n)") (use yaml_depth_less in \<open>auto simp del: yaml_depth.simps\<close>)

declare ListAllMember.simps [simp del]

text \<open>\<open>LoadFromYaml\<close>; \<open>dump\<close> writes a node that is not a scalar as text.\<close>

definition load_entry :: "'v casts \<Rightarrow> (yaml \<Rightarrow> string) \<Rightarrow> string \<times> yaml \<Rightarrow> ('v, 's) Config \<times> 's \<Rightarrow> config_error + ('v, 's) Config \<times> 's" where
  "load_entry casts dump i s =
     (let key = map tolower (fst i) in
      if fst i = [] then Inr s
      else case LookupBase key (fst s) of
          None \<Rightarrow> Inr s
        | Some var \<Rightarrow>
            bindE (fromString casts var (case snd i of YScalar t \<Rightarrow> t | n \<Rightarrow> dump n) s) (\<lambda>(_, s1). Inr s1))"

definition LoadFromYaml :: "'v casts \<Rightarrow> (yaml \<Rightarrow> string) \<Rightarrow> yaml \<Rightarrow> ('v, 's) Config \<times> 's \<Rightarrow> config_error + ('v, 's) Config \<times> 's" where
  "LoadFromYaml casts dump root s = foldE (load_entry casts dump) (ListAllMember [] root) s"

text \<open>\<open>LoadFromConfDir\<close>: the files in their order with their time of modification and what
  \<open>YAML::LoadFile\<close> makes of them, \<open>None\<close> if it throws; \<open>mtimes\<close> is \<open>s_file2modifytime\<close>.\<close>

record conf_file =
  cf_path :: string
  cf_mtime :: "64 word"
  cf_yaml :: "yaml option"

definition load_file_if :: "'v casts \<Rightarrow> (yaml \<Rightarrow> string) \<Rightarrow> bool \<Rightarrow> conf_file
    \<Rightarrow> (string \<Rightarrow> 64 word) \<times> ('v, 's) Config \<times> 's \<Rightarrow> config_error + (string \<Rightarrow> 64 word) \<times> ('v, 's) Config \<times> 's" where
  "load_file_if casts dump force f s =
     (case s of (mtimes, c) \<Rightarrow>
        if \<not> force \<and> mtimes (cf_path f) = cf_mtime f then Inr s
        else
          let mtimes1 = mtimes(cf_path f := cf_mtime f) in
          case cf_yaml f of
            None \<Rightarrow> Inr (mtimes1, c)
          | Some root \<Rightarrow> bindE (LoadFromYaml casts dump root c) (\<lambda>c1. Inr (mtimes1, c1)))"

definition LoadFromConfDir :: "'v casts \<Rightarrow> (yaml \<Rightarrow> string) \<Rightarrow> bool \<Rightarrow> conf_file list
    \<Rightarrow> (string \<Rightarrow> 64 word) \<times> ('v, 's) Config \<times> 's \<Rightarrow> config_error + (string \<Rightarrow> 64 word) \<times> ('v, 's) Config \<times> 's" where
  "LoadFromConfDir casts dump force fs s = foldE (load_file_if casts dump force) fs s"

section \<open>The log as a listener\<close>

text \<open>The variable of the log holds a set of definitions (\<open>g_log_defines\<close>); its listener is that of
  \<open>LogIniter\<close>, which throws nothing.\<close>

definition log_listener :: "log_env \<Rightarrow> bool \<Rightarrow> (LogDefine list, log_state) on_change" where
  "log_listener env no_stdout old new st =
     (case on_logger_conf_changed env no_stdout old new st of Inl _ \<Rightarrow> (False, st) | Inr st1 \<Rightarrow> (True, st1))"

definition LogIniter :: "log_env \<Rightarrow> bool \<Rightarrow> (LogDefine list, log_state) Config \<Rightarrow> config_error + (LogDefine list, log_state) Config" where
  "LogIniter env no_stdout cfg =
     bindE (Lookup_default ''std::set<LogDefine>'' ''logs'' [] ''logs config'' cfg) (\<lambda>(var, cfg1).
     bindE (optE NullVar var) (\<lambda>name.
     bindE (addListener name (log_listener env no_stdout) cfg1) (\<lambda>(_, cfg2). Inr cfg2)))"

end
