(* ===== verification/ConfigProps.thy ===== *)
theory ConfigProps
  imports Config
begin

text \<open>
  What configuration variables promise: names are valid and listeners in order, listeners hear of a new
  value once each and in order before it is stored, loading gives each variable the last value that can be
  read, unchanged files are not loaded again, and the log follows its variable.
\<close>

section \<open>Invariant\<close>

interpretation w64: compare "(<) :: 64 word \<Rightarrow> 64 word \<Rightarrow> bool"
  by unfold_locales auto

definition valid_name :: "string \<Rightarrow> bool" where
  "valid_name name \<longleftrightarrow> set name \<subseteq> set name_chars"

definition config_wf :: "('v, 's) Config \<Rightarrow> bool" where
  "config_wf cfg \<longleftrightarrow> (\<forall>name v. s_datas cfg name = Some v \<longrightarrow> valid_name name \<and> in_order (<) (m_cbs v))"

lemma takeWhile_length_less: "length (takeWhile P xs) < length xs \<longleftrightarrow> \<not> (\<forall>x \<in> set xs. P x)"
  by (induction xs) auto

lemma find_first_not_of_None: "find_first_not_of d s = None \<longleftrightarrow> set s \<subseteq> set d"
  by (auto simp: find_first_not_of_def Let_def takeWhile_length_less)

lemma name_valid_iff: "find_first_not_of name_chars name = None \<longleftrightarrow> valid_name name"
  by (simp add: find_first_not_of_None valid_name_def)

lemma config_wf_set_var:
  "config_wf cfg \<Longrightarrow> s_datas cfg name = Some old \<Longrightarrow> in_order (<) (m_cbs v) \<Longrightarrow> config_wf (set_var name v cfg)"
  by (auto simp: config_wf_def set_var_def)

text \<open>Every operation on the table keeps names valid and listeners in order.\<close>

lemma config_operations_keep_wf:
  assumes wf: "config_wf cfg"
  shows "Lookup_default ty name v desc cfg = Inr (r, cfg') \<Longrightarrow> config_wf cfg'"
    "setValue name v (cfg, st) = Inr (ok, cfg', st') \<Longrightarrow> config_wf cfg'"
    "addListener name cb cfg = Inr (i, cfg') \<Longrightarrow> config_wf cfg'"
    "delListener name i cfg = Inr cfg' \<Longrightarrow> config_wf cfg'"
    "clearListener name cfg = Inr cfg' \<Longrightarrow> config_wf cfg'"
proof -
  show "Lookup_default ty name v desc cfg = Inr (r, cfg') \<Longrightarrow> config_wf cfg'"
    using wf by (auto simp: Lookup_default_def config_wf_def set_var_def name_valid_iff split: option.splits if_splits)
  have o: "in_order (<) (m_cbs x)" if "s_datas cfg name = Some x" for x using wf that by (simp add: config_wf_def)
  show "setValue name v (cfg, st) = Inr (ok, cfg', st') \<Longrightarrow> config_wf cfg'"
    using wf o by (auto simp: setValue_def var_at_def result_simps Let_def split: if_splits prod.splits intro: config_wf_set_var)
  show "config_wf cfg'" if call: "addListener name cb cfg = Inr (i, cfg')"
  proof -
    from call obtain x where x: "s_datas cfg name = Some x" and
      cfg': "cfg' = set_var name (x\<lparr>m_cbs := map_assign (<) i cb (m_cbs x)\<rparr>) (cfg\<lparr>s_fun_id := (s_fun_id cfg)(cv_type x := i)\<rparr>)"
      by (auto simp: addListener_def var_at_def result_simps Let_def)
    have "config_wf (cfg\<lparr>s_fun_id := (s_fun_id cfg)(cv_type x := i)\<rparr>)" using wf by (simp add: config_wf_def)
    moreover have "in_order (<) (map_assign (<) i cb (m_cbs x))" using o [OF x] by (rule w64.order_assign)
    ultimately show ?thesis unfolding cfg' using x by (intro config_wf_set_var) simp_all
  qed
  show "delListener name i cfg = Inr cfg' \<Longrightarrow> config_wf cfg'"
    using wf o by (auto simp: delListener_def var_at_def result_simps intro!: config_wf_set_var w64.order_erase)
  show "clearListener name cfg = Inr cfg' \<Longrightarrow> config_wf cfg'"
    using wf by (auto simp: clearListener_def var_at_def result_simps intro!: config_wf_set_var)
qed

text \<open>The documentation allows all digits, but the list of characters leaves out the 9.\<close>

theorem names_without_nine:
  "valid_name ''http.port8'' \<and> \<not> valid_name ''http.port9''
    \<and> Lookup_default ty ''http.port9'' v desc Config_new = Inl (InvalidArgument ''http.port9'')"
proof -
  have "valid_name ''http.port8''" "\<not> valid_name ''http.port9''"
    by (simp_all add: valid_name_def name_chars_def)
  then show ?thesis using name_valid_iff [of "''http.port9''"] by (simp add: Lookup_default_def Config_new_def)
qed

section \<open>Listeners\<close>

definition notify_all :: "('k, ('v, 's) on_change) std_map \<Rightarrow> 'v \<Rightarrow> 'v \<Rightarrow> 's \<Rightarrow> 's" where
  "notify_all cbs old new st = fold (\<lambda>(_, cb) st. snd (cb old new st)) cbs st"

definition returns :: "('v, 's) on_change \<Rightarrow> bool" where
  "returns cb \<longleftrightarrow> (\<forall>old new st. fst (cb old new st))"

lemma run_listeners_append:
  "run_listeners (as @ bs) old new st
    = (let (r, st1) = run_listeners as old new st in if r then run_listeners bs old new st1 else (False, st1))"
  by (induction as old new st rule: run_listeners.induct) (auto simp: Let_def split: prod.splits)

lemma run_listeners_return:
  "\<forall>(i, cb) \<in> set cbs. returns cb \<Longrightarrow> run_listeners cbs old new st = (True, notify_all cbs old new st)"
proof (induction cbs arbitrary: st)
  case (Cons c cbs)
  obtain i cb where c: "c = (i, cb)" by fastforce
  obtain s1 where "cb old new st = (True, s1)"
  proof (cases "cb old new st")
    case (Pair r s1)
    moreover have "fst (cb old new st)" using Cons.prems c by (simp add: returns_def)
    ultimately show ?thesis using that by simp
  qed
  moreover have "run_listeners cbs old new st' = (True, notify_all cbs old new st')" for st' using Cons by simp
  ultimately show ?case using c by (simp add: notify_all_def)
qed (simp add: notify_all_def)

text \<open>When a value changes, every listener hears of it once, in the order of their identifiers, and then the
  value is stored; the same value again calls nobody. When a listener throws, those before it have
  acted on the new value, those behind it and the variable itself have not heard of it.\<close>

theorem listeners_notified:
  assumes var: "s_datas cfg name = Some var"
  shows "((\<forall>(i, cb) \<in> set (m_cbs var). returns cb) \<and> v \<noteq> m_val var \<longrightarrow>
      setValue name v (cfg, st) = Inr (True, set_var name (var\<lparr>m_val := v\<rparr>) cfg, notify_all (m_cbs var) (m_val var) v st))
    \<and> setValue name (m_val var) (cfg, st) = Inr (True, cfg, st)
    \<and> (m_cbs var = as @ (i, cb) # bs \<and> (\<forall>(i, cb) \<in> set as. returns cb) \<and> (\<forall>old new st. \<not> fst (cb old new st)) \<and> v \<noteq> m_val var \<longrightarrow>
      setValue name v (cfg, st) = Inr (False, cfg, snd (cb (m_val var) v (notify_all as (m_val var) v st))))"
proof (intro conjI impI)
  assume "(\<forall>(i, cb) \<in> set (m_cbs var). returns cb) \<and> v \<noteq> m_val var"
  then have "run_listeners (m_cbs var) (m_val var) v st = (True, notify_all (m_cbs var) (m_val var) v st)" "v \<noteq> m_val var"
    by (auto intro: run_listeners_return)
  then show "setValue name v (cfg, st) = Inr (True, set_var name (var\<lparr>m_val := v\<rparr>) cfg, notify_all (m_cbs var) (m_val var) v st)"
    using var by (simp add: setValue_def var_at_def)
next
  show "setValue name (m_val var) (cfg, st) = Inr (True, cfg, st)" using var by (simp add: setValue_def var_at_def)
next
  assume a: "m_cbs var = as @ (i, cb) # bs \<and> (\<forall>(i, cb) \<in> set as. returns cb) \<and> (\<forall>old new st. \<not> fst (cb old new st)) \<and> v \<noteq> m_val var"
  let ?st = "notify_all as (m_val var) v st"
  have 1: "run_listeners as (m_val var) v st = (True, ?st)" using a by (intro run_listeners_return) blast
  obtain s2 where 2: "cb (m_val var) v ?st = (False, s2)" using a by (cases "cb (m_val var) v ?st") (metis fst_conv)
  then show "setValue name v (cfg, st) = Inr (False, cfg, snd (cb (m_val var) v ?st))"
    using var a 1 by (simp add: setValue_def var_at_def run_listeners_append)
qed

section \<open>Loading\<close>

lemma name_char_lower: "c \<in> set name_chars \<Longrightarrow> tolower c = c"
proof -
  have "list_all (\<lambda>c. tolower c = c) name_chars" by code_simp
  then show "c \<in> set name_chars \<Longrightarrow> tolower c = c" by (simp add: list_all_iff)
qed

text \<open>All keys that are loaded have valid names, so that making them lower case changes nothing: a key with
  a capital letter is refused, and so is everything below it.\<close>

lemma ListAllMember_valid: "(k, n) \<in> set (ListAllMember prefix node) \<Longrightarrow> valid_name k"
proof (induction prefix node arbitrary: k n rule: ListAllMember.induct)
  case (1 prefix node)
  show ?case
  proof (cases "find_first_not_of name_chars prefix")
    case None
    show ?thesis
    proof (cases "k = prefix")
      case True
      with None show ?thesis by (simp add: name_valid_iff)
    next
      case False
      with 1(2) None obtain kvs k' v' where y: "node = YMap kvs" "(k', v') \<in> set kvs"
        "(k, n) \<in> set (ListAllMember (if prefix = [] then k' else prefix @ ''.'' @ k') v')"
        by (subst (asm) ListAllMember.simps) (auto split: yaml.splits)
      from 1(1) [OF _ y(1,2) refl y(3)] None show ?thesis by simp
    qed
  next
    case (Some i)
    with 1(2) show ?thesis by (subst (asm) ListAllMember.simps) simp
  qed
qed

lemma lower_valid: "valid_name k \<Longrightarrow> map tolower k = k"
  by (induction k) (auto simp: valid_name_def name_char_lower)

definition node_text :: "(yaml \<Rightarrow> string) \<Rightarrow> yaml \<Rightarrow> string" where
  "node_text dump n = (case n of YScalar t \<Rightarrow> t | n \<Rightarrow> dump n)"

text \<open>The value after reading texts one after the other; a text that cannot be read changes nothing.\<close>

definition read_texts :: "'v casts \<Rightarrow> string \<Rightarrow> string list \<Rightarrow> 'v \<Rightarrow> 'v" where
  "read_texts casts ty ts v = fold (\<lambda>t v. case FromStr casts ty t of None \<Rightarrow> v | Some v' \<Rightarrow> v') ts v"

definition all_return :: "('v, 's) Config \<Rightarrow> bool" where
  "all_return cfg \<longleftrightarrow> (\<forall>name v. s_datas cfg name = Some v \<longrightarrow> (\<forall>(i, cb) \<in> set (m_cbs v). returns cb))"

definition texts_for :: "(yaml \<Rightarrow> string) \<Rightarrow> string \<Rightarrow> (string \<times> yaml) list \<Rightarrow> string list" where
  "texts_for dump name entries = map (node_text dump \<circ> snd) (filter (\<lambda>i. fst i = name \<and> fst i \<noteq> []) entries)"

definition updated :: "'v casts \<Rightarrow> (yaml \<Rightarrow> string) \<Rightarrow> (string \<times> yaml) list \<Rightarrow> ('v, 's) Config \<Rightarrow> ('v, 's) Config" where
  "updated casts dump entries cfg = cfg\<lparr>s_datas := (\<lambda>name. case s_datas cfg name of None \<Rightarrow> None
     | Some v \<Rightarrow> Some (v\<lparr>m_val := read_texts casts (cv_type v) (texts_for dump name entries) (m_val v)\<rparr>))\<rparr>"

lemma fromString_returns:
  assumes ret: "all_return cfg" and v: "s_datas cfg name = Some v"
  shows "\<exists>ok st'. fromString casts name t (cfg, st)
    = Inr (ok, set_var name (v\<lparr>m_val := read_texts casts (cv_type v) [t] (m_val v)\<rparr>) cfg, st')"
proof -
  have same: "set_var name v cfg = cfg" using v by (simp add: set_var_def fun_upd_idem)
  have l: "run_listeners (m_cbs v) (m_val v) v' st = (True, notify_all (m_cbs v) (m_val v) v' st)" for v'
    using ret v by (intro run_listeners_return) (auto simp: all_return_def)
  show ?thesis
    by (cases "FromStr casts (cv_type v) t") (auto simp: fromString_def var_at_def v read_texts_def same setValue_def l)
qed

lemma load_entry_returns:
  assumes ret: "all_return cfg" and k: "valid_name (fst i)"
  shows "\<exists>st'. load_entry casts dump i (cfg, st) = Inr (updated casts dump [i] cfg, st')"
proof -
  have none: "updated casts dump [i] cfg = cfg" if "fst i = [] \<or> s_datas cfg (fst i) = None"
    using that by (auto simp: updated_def texts_for_def read_texts_def fun_eq_iff split: option.splits intro!: Config.equality)
  show ?thesis
  proof (cases "fst i = [] \<or> s_datas cfg (fst i) = None")
    case True
    then show ?thesis using lower_valid [OF k] none by (auto simp: load_entry_def LookupBase_def)
  next
    case False
    then obtain v where v: "s_datas cfg (fst i) = Some v" by auto
    have "updated casts dump [i] cfg
        = set_var (fst i) (v\<lparr>m_val := read_texts casts (cv_type v) [node_text dump (snd i)] (m_val v)\<rparr>) cfg"
      using v False by (auto simp: updated_def set_var_def texts_for_def read_texts_def fun_eq_iff split: option.splits)
    with fromString_returns [OF ret v, of casts "node_text dump (snd i)" st] lower_valid [OF k] v False show ?thesis
      by (auto simp: load_entry_def LookupBase_def node_text_def)
  qed
qed

lemma all_return_updated: "all_return cfg \<Longrightarrow> all_return (updated casts dump es cfg)"
  by (force simp: all_return_def updated_def split: option.splits)

lemma updated_Cons: "updated casts dump es (updated casts dump [i] cfg) = updated casts dump (i # es) cfg"
proof -
  have "read_texts casts ty (texts_for dump n (i # es)) v
      = read_texts casts ty (texts_for dump n es) (read_texts casts ty (texts_for dump n [i]) v)" for ty n v
    by (auto simp: read_texts_def texts_for_def)
  then show ?thesis by (simp add: updated_def fun_eq_iff split: option.splits)
qed

lemma load_entries_return:
  assumes "all_return cfg" and "\<forall>i \<in> set es. valid_name (fst i)"
  shows "\<exists>st'. foldE (load_entry casts dump) es (cfg, st) = Inr (updated casts dump es cfg, st')"
  using assms
proof (induction es arbitrary: cfg st)
  case Nil
  have "updated casts dump [] cfg = cfg"
    by (auto simp: updated_def texts_for_def read_texts_def fun_eq_iff split: option.splits intro!: Config.equality)
  then show ?case by simp
next
  case (Cons i es)
  from load_entry_returns [OF Cons.prems(1), of i casts dump st] Cons.prems(2) obtain st1 where
    1: "load_entry casts dump i (cfg, st) = Inr (updated casts dump [i] cfg, st1)" by auto
  from Cons.IH [OF all_return_updated [OF Cons.prems(1)], of casts dump "[i]" st1] Cons.prems(2) 1 show ?case
    by (auto simp: updated_Cons)
qed

text \<open>C40: Loading a document, when no listener throws, gives every variable the last of the values found for it
  that can be read (its old value if there is none), and changes nothing else of the table; a key with an
  invalid name, such as one with a capital letter, is left out with everything below it.\<close>

theorem loading_sets_values:
  assumes "all_return cfg"
  shows "\<exists>st'. LoadFromYaml casts dump root (cfg, st) = Inr (updated casts dump (ListAllMember [] root) cfg, st')
    \<and> (\<forall>(k, n) \<in> set (ListAllMember [] root). valid_name k \<and> map tolower k = k)"
proof -
  have v: "\<forall>i \<in> set (ListAllMember [] root). valid_name (fst i)" using ListAllMember_valid by (metis prod.collapse)
  then show ?thesis using load_entries_return [OF assms v, of casts dump st] lower_valid
    by (auto simp: LoadFromYaml_def)
qed

section \<open>Files\<close>

text \<open>A file that was looked at is not loaded again while its time stays the same, even when loading it had
  failed, unless that is forced.\<close>

theorem unchanged_files_skipped:
  assumes first: "LoadFromConfDir casts dump force fs (mtimes, cfg, st) = Inr (mtimes', cfg', st')"
    and names: "distinct (map cf_path fs)"
    and same: "map (\<lambda>f. (cf_path f, cf_mtime f)) fs' = map (\<lambda>f. (cf_path f, cf_mtime f)) fs"
  shows "LoadFromConfDir casts dump False fs' (mtimes', cfg', st') = Inr (mtimes', cfg', st')"
proof -
  have keeps: "fst s' p = fst s p"
    if "foldE (load_file_if casts dump force) fs s = Inr s'" "p \<notin> cf_path ` set fs" for fs s s' p
    using that
  proof (induction fs arbitrary: s)
    case (Cons f fs)
    then obtain t where t: "load_file_if casts dump force f s = Inr t" "foldE (load_file_if casts dump force) fs t = Inr s'"
      by (auto simp: result_simps)
    have "fst t p = fst s p"
      using t(1) Cons.prems(2) by (auto simp: load_file_if_def Let_def result_simps split: prod.splits if_splits option.splits)
    with Cons.IH [OF t(2)] Cons.prems(2) show ?case by simp
  qed simp
  have seen: "\<forall>f \<in> set fs. fst s' (cf_path f) = cf_mtime f"
    if "foldE (load_file_if casts dump force) fs s = Inr s'" "distinct (map cf_path fs)" for fs s s'
    using that
  proof (induction fs arbitrary: s)
    case (Cons f fs)
    then obtain t where t: "load_file_if casts dump force f s = Inr t" "foldE (load_file_if casts dump force) fs t = Inr s'"
      by (auto simp: result_simps)
    have "fst t (cf_path f) = cf_mtime f"
      using t(1) by (auto simp: load_file_if_def Let_def result_simps split: prod.splits if_splits option.splits)
    with keeps [OF t(2), of "cf_path f"] Cons.IH [OF t(2)] Cons.prems(2) show ?case by simp
  qed simp
  have skip: "foldE (load_file_if casts dump False) gs (mtimes', cfg', st') = Inr (mtimes', cfg', st')"
    if "\<forall>g \<in> set gs. mtimes' (cf_path g) = cf_mtime g" for gs
    using that by (induction gs) (simp_all add: load_file_if_def)
  have "\<forall>g \<in> set fs'. mtimes' (cf_path g) = cf_mtime g"
  proof
    fix g assume "g \<in> set fs'"
    then have "(cf_path g, cf_mtime g) \<in> set (map (\<lambda>f. (cf_path f, cf_mtime f)) fs')" by simp
    then show "mtimes' (cf_path g) = cf_mtime g"
      unfolding same using seen [OF first [unfolded LoadFromConfDir_def] names] by auto
  qed
  from skip [OF this] show ?thesis by (simp add: LoadFromConfDir_def)
qed

section \<open>The log\<close>

lemma LogIniter_effect:
  "LogIniter env no_stdout Config_new = Inr (set_var ''logs''
     \<lparr>cv_description = ''logs config'', cv_type = ''std::set<LogDefine>'', m_val = [], m_cbs = [(1, log_listener env no_stdout)]\<rparr>
     (Config_new\<lparr>s_fun_id := (\<lambda>_. 0)(''std::set<LogDefine>'' := 1)\<rparr>))"
proof -
  have "valid_name ''logs''" by (simp add: valid_name_def name_chars_def)
  then have "find_first_not_of name_chars ''logs'' = None" by (simp add: name_valid_iff)
  then show ?thesis
    by (simp add: LogIniter_def Lookup_default_def addListener_def var_at_def set_var_def Config_new_def Let_def)
qed

text \<open>From the start of the program, setting the variable of the log makes every defined logger as its
  definition says, with its level, formatter and appenders.\<close>

theorem log_follows_variable:
  assumes init: "LogIniter env no_stdout Config_new = Inr cfg"
    and ds: "\<forall>i \<in> set ds. proper_logger i" "distinct (map ld_name ds)" and wf: "log_wf st"
  shows "\<exists>cfg' st'. setValue ''logs'' ds (cfg, st) = Inr (True, cfg', st') \<and> log_wf st' \<and> getValue ''logs'' cfg' = Inr ds
    \<and> (\<forall>i \<in> set ds. configured no_stdout i st')"
proof -
  from configuration_changed_ok [OF wf ds(1) _ ds(2), of "[]" env no_stdout] obtain st' where
    st': "on_logger_conf_changed env no_stdout [] ds st = Inr st'" "log_wf st'" "\<forall>i \<in> set ds. configured no_stdout i st'" by auto
  have cfg: "cfg = set_var ''logs''
     \<lparr>cv_description = ''logs config'', cv_type = ''std::set<LogDefine>'', m_val = [], m_cbs = [(1, log_listener env no_stdout)]\<rparr>
     (Config_new\<lparr>s_fun_id := (\<lambda>_. 0)(''std::set<LogDefine>'' := 1)\<rparr>)" using init LogIniter_effect by simp
  show ?thesis
  proof (cases "ds = []")
    case True
    with wf show ?thesis by (simp add: cfg setValue_def getValue_def var_at_def set_var_def)
  next
    case False
    with st' show ?thesis
      by (simp add: cfg setValue_def getValue_def var_at_def set_var_def log_listener_def)
  qed
qed

section \<open>Examples\<close>

definition demo_casts :: "nat casts" where
  "demo_casts = \<lparr>FromStr = (\<lambda>_ t. if t \<noteq> [] \<and> list_all isdigit t then Some (digits_value t) else None),
     ToStr = (\<lambda>_ v. Some (to_string v))\<rparr>"

definition demo_table :: "(nat, unit) Config" where
  "demo_table = set_var ''http.port'' \<lparr>cv_description = [], cv_type = ''int'', m_val = 80, m_cbs = []\<rparr> Config_new"

definition demo_yaml :: yaml where
  "demo_yaml = YMap [(''http'', YMap [(''port'', YScalar ''8080'')]), (''Http'', YMap [(''port'', YScalar ''99'')])]"

lemma demo_texts: "texts_for (\<lambda>_. []) ''http.port'' (ListAllMember [] demo_yaml) = [''8080'']"
  by (simp add: demo_yaml_def ListAllMember.simps find_first_not_of_def name_chars_def texts_for_def node_text_def)

theorem loading_sets_values_witness:
  "\<exists>cfg. LoadFromYaml demo_casts (\<lambda>_. []) demo_yaml (demo_table, ()) = Inr (cfg, ()) \<and> getValue ''http.port'' cfg = Inr 8080"
proof -
  have ret: "all_return demo_table" by (simp add: all_return_def demo_table_def set_var_def Config_new_def)
  have "read_texts demo_casts ''int'' [''8080''] 80 = 8080" by code_simp
  then have "getValue ''http.port'' (updated demo_casts (\<lambda>_. []) (ListAllMember [] demo_yaml) demo_table) = Inr 8080"
    by (simp add: getValue_def var_at_def updated_def demo_table_def set_var_def demo_texts)
  with loading_sets_values [OF ret, of demo_casts "\<lambda>_. []" demo_yaml "()"] show ?thesis by auto
qed

theorem log_follows_variable_witness:
  "\<exists>cfg' st'. setValue ''logs'' [demo_define] (set_var ''logs''
       \<lparr>cv_description = ''logs config'', cv_type = ''std::set<LogDefine>'', m_val = [], m_cbs = [(1, log_listener demo_env False)]\<rparr>
       (Config_new\<lparr>s_fun_id := (\<lambda>_. 0)(''std::set<LogDefine>'' := 1)\<rparr>), LoggerManager_new) = Inr (True, cfg', st')
     \<and> configured False demo_define st'"
  using log_follows_variable [OF LogIniter_effect, where ds = "[demo_define]"] demo_define_proper LoggerManager_new_wf
  by fastforce

end
