(* ===== verification/Http.thy ===== *)
theory Http
  imports StringUtil StdMap
begin

text \<open>
  HTTP messages (src/sylar/http/http.h and http.cc): the tables of methods and status codes, the
  case-insensitive maps of headers, parameters and cookies, requests and responses with their
  lazy parsing of parameters, and the text that is sent. The tables are the X-macros of the code;
  a status is its number, because the parser casts any number to the enumeration.
\<close>

unbundle bit_operations_syntax

subsection \<open>Methods and status codes\<close>

datatype HttpMethod =
    DELETE | GET | HEAD | POST | PUT | CONNECT | OPTIONS | TRACE | COPY | LOCK | MKCOL | MOVE |
    PROPFIND | PROPPATCH | SEARCH | UNLOCK | BIND | REBIND | UNBIND | ACL | REPORT |
    MKACTIVITY | CHECKOUT | MERGE | MSEARCH | NOTIFY | SUBSCRIBE | UNSUBSCRIBE | PATCH |
    PURGE | MKCALENDAR | LINK | UNLINK | SOURCE | INVALID_METHOD

definition HTTP_METHOD_MAP :: "(nat \<times> HttpMethod \<times> string) list" where
  "HTTP_METHOD_MAP = [
    (0, DELETE, ''DELETE''),
    (1, GET, ''GET''),
    (2, HEAD, ''HEAD''),
    (3, POST, ''POST''),
    (4, PUT, ''PUT''),
    (5, CONNECT, ''CONNECT''),
    (6, OPTIONS, ''OPTIONS''),
    (7, TRACE, ''TRACE''),
    (8, COPY, ''COPY''),
    (9, LOCK, ''LOCK''),
    (10, MKCOL, ''MKCOL''),
    (11, MOVE, ''MOVE''),
    (12, PROPFIND, ''PROPFIND''),
    (13, PROPPATCH, ''PROPPATCH''),
    (14, SEARCH, ''SEARCH''),
    (15, UNLOCK, ''UNLOCK''),
    (16, BIND, ''BIND''),
    (17, REBIND, ''REBIND''),
    (18, UNBIND, ''UNBIND''),
    (19, ACL, ''ACL''),
    (20, REPORT, ''REPORT''),
    (21, MKACTIVITY, ''MKACTIVITY''),
    (22, CHECKOUT, ''CHECKOUT''),
    (23, MERGE, ''MERGE''),
    (24, MSEARCH, ''M-SEARCH''),
    (25, NOTIFY, ''NOTIFY''),
    (26, SUBSCRIBE, ''SUBSCRIBE''),
    (27, UNSUBSCRIBE, ''UNSUBSCRIBE''),
    (28, PATCH, ''PATCH''),
    (29, PURGE, ''PURGE''),
    (30, MKCALENDAR, ''MKCALENDAR''),
    (31, LINK, ''LINK''),
    (32, UNLINK, ''UNLINK''),
    (33, SOURCE, ''SOURCE'')]"

definition HTTP_STATUS_MAP :: "(nat \<times> string \<times> string) list" where
  "HTTP_STATUS_MAP = [
    (100, ''CONTINUE'', ''Continue''),
    (101, ''SWITCHING_PROTOCOLS'', ''Switching Protocols''),
    (102, ''PROCESSING'', ''Processing''),
    (200, ''OK'', ''OK''),
    (201, ''CREATED'', ''Created''),
    (202, ''ACCEPTED'', ''Accepted''),
    (203, ''NON_AUTHORITATIVE_INFORMATION'', ''Non-Authoritative Information''),
    (204, ''NO_CONTENT'', ''No Content''),
    (205, ''RESET_CONTENT'', ''Reset Content''),
    (206, ''PARTIAL_CONTENT'', ''Partial Content''),
    (207, ''MULTI_STATUS'', ''Multi-Status''),
    (208, ''ALREADY_REPORTED'', ''Already Reported''),
    (226, ''IM_USED'', ''IM Used''),
    (300, ''MULTIPLE_CHOICES'', ''Multiple Choices''),
    (301, ''MOVED_PERMANENTLY'', ''Moved Permanently''),
    (302, ''FOUND'', ''Found''),
    (303, ''SEE_OTHER'', ''See Other''),
    (304, ''NOT_MODIFIED'', ''Not Modified''),
    (305, ''USE_PROXY'', ''Use Proxy''),
    (307, ''TEMPORARY_REDIRECT'', ''Temporary Redirect''),
    (308, ''PERMANENT_REDIRECT'', ''Permanent Redirect''),
    (400, ''BAD_REQUEST'', ''Bad Request''),
    (401, ''UNAUTHORIZED'', ''Unauthorized''),
    (402, ''PAYMENT_REQUIRED'', ''Payment Required''),
    (403, ''FORBIDDEN'', ''Forbidden''),
    (404, ''NOT_FOUND'', ''Not Found''),
    (405, ''METHOD_NOT_ALLOWED'', ''Method Not Allowed''),
    (406, ''NOT_ACCEPTABLE'', ''Not Acceptable''),
    (407, ''PROXY_AUTHENTICATION_REQUIRED'', ''Proxy Authentication Required''),
    (408, ''REQUEST_TIMEOUT'', ''Request Timeout''),
    (409, ''CONFLICT'', ''Conflict''),
    (410, ''GONE'', ''Gone''),
    (411, ''LENGTH_REQUIRED'', ''Length Required''),
    (412, ''PRECONDITION_FAILED'', ''Precondition Failed''),
    (413, ''PAYLOAD_TOO_LARGE'', ''Payload Too Large''),
    (414, ''URI_TOO_LONG'', ''URI Too Long''),
    (415, ''UNSUPPORTED_MEDIA_TYPE'', ''Unsupported Media Type''),
    (416, ''RANGE_NOT_SATISFIABLE'', ''Range Not Satisfiable''),
    (417, ''EXPECTATION_FAILED'', ''Expectation Failed''),
    (421, ''MISDIRECTED_REQUEST'', ''Misdirected Request''),
    (422, ''UNPROCESSABLE_ENTITY'', ''Unprocessable Entity''),
    (423, ''LOCKED'', ''Locked''),
    (424, ''FAILED_DEPENDENCY'', ''Failed Dependency''),
    (426, ''UPGRADE_REQUIRED'', ''Upgrade Required''),
    (428, ''PRECONDITION_REQUIRED'', ''Precondition Required''),
    (429, ''TOO_MANY_REQUESTS'', ''Too Many Requests''),
    (431, ''REQUEST_HEADER_FIELDS_TOO_LARGE'', ''Request Header Fields Too Large''),
    (451, ''UNAVAILABLE_FOR_LEGAL_REASONS'', ''Unavailable For Legal Reasons''),
    (500, ''INTERNAL_SERVER_ERROR'', ''Internal Server Error''),
    (501, ''NOT_IMPLEMENTED'', ''Not Implemented''),
    (502, ''BAD_GATEWAY'', ''Bad Gateway''),
    (503, ''SERVICE_UNAVAILABLE'', ''Service Unavailable''),
    (504, ''GATEWAY_TIMEOUT'', ''Gateway Timeout''),
    (505, ''HTTP_VERSION_NOT_SUPPORTED'', ''HTTP Version Not Supported''),
    (506, ''VARIANT_ALSO_NEGOTIATES'', ''Variant Also Negotiates''),
    (507, ''INSUFFICIENT_STORAGE'', ''Insufficient Storage''),
    (508, ''LOOP_DETECTED'', ''Loop Detected''),
    (510, ''NOT_EXTENDED'', ''Not Extended''),
    (511, ''NETWORK_AUTHENTICATION_REQUIRED'', ''Network Authentication Required'')]"

definition StringToHttpMethod :: "string \<Rightarrow> HttpMethod" where
  "StringToHttpMethod m =
    (case find (\<lambda>(num, name, str). str = c_str m) HTTP_METHOD_MAP of
       Some (num, name, str) \<Rightarrow> name
     | None \<Rightarrow> INVALID_METHOD)"

definition CharsToHttpMethod :: "string \<Rightarrow> HttpMethod" where
  "CharsToHttpMethod m =
    (case find (\<lambda>(num, name, str). take (length str) (c_str m) = str) HTTP_METHOD_MAP of
       Some (num, name, str) \<Rightarrow> name
     | None \<Rightarrow> INVALID_METHOD)"

text \<open>The number of an enumerator; the one after the table follows its last number.\<close>

definition method_num :: "HttpMethod \<Rightarrow> nat" where
  "method_num m =
    (case find (\<lambda>(num, name, str). name = m) HTTP_METHOD_MAP of
       Some (num, name, str) \<Rightarrow> num
     | None \<Rightarrow> Suc (fst (last HTTP_METHOD_MAP)))"

definition s_method_string :: "string list" where
  "s_method_string = map (\<lambda>(num, name, str). str) HTTP_METHOD_MAP"

definition HttpMethodToString :: "HttpMethod \<Rightarrow> string" where
  "HttpMethodToString m =
    (if length s_method_string \<le> method_num m then ''<unknown>''
     else s_method_string ! method_num m)"

definition HttpStatusToString :: "nat \<Rightarrow> string" where
  "HttpStatusToString s =
    (case find (\<lambda>(code, name, msg). code = s) HTTP_STATUS_MAP of
       Some (code, name, msg) \<Rightarrow> msg
     | None \<Rightarrow> ''<unknown>'')"

subsection \<open>Case-insensitive keys\<close>

text \<open>\<open>strcasecmp\<close> on the C strings: the difference of the first letters that differ.\<close>

fun strcasecmp_chars :: "string \<Rightarrow> string \<Rightarrow> int" where
  "strcasecmp_chars [] [] = 0"
| "strcasecmp_chars [] (y # ys) = - of_char (tolower y)"
| "strcasecmp_chars (x # xs) [] = of_char (tolower x)"
| "strcasecmp_chars (x # xs) (y # ys) =
    (if tolower x = tolower y then strcasecmp_chars xs ys
     else of_char (tolower x) - of_char (tolower y))"

definition strcasecmp :: "string \<Rightarrow> string \<Rightarrow> int" where
  "strcasecmp a b = strcasecmp_chars (c_str a) (c_str b)"

definition CaseInsensitiveLess :: "string \<Rightarrow> string \<Rightarrow> bool" where
  "CaseInsensitiveLess lhs rhs \<longleftrightarrow> strcasecmp lhs rhs < 0"

type_synonym MapType = "(string, string) std_map"

text \<open>\<open>strcasestr\<close>: whether the needle occurs, letter case aside.\<close>

definition strcasestr :: "string \<Rightarrow> string \<Rightarrow> bool" where
  "strcasestr hay needle =
    (let h = map tolower (c_str hay); n = map tolower (c_str needle) in
     list_ex (\<lambda>i. take (length n) (drop i h) = n) [0..<Suc (length h)])"

text \<open>
  \<open>checkGetAs\<close> and \<open>getAs\<close>: the value converted by \<open>boost::lexical_cast\<close>, which may throw.
\<close>

definition checkGetAs :: "(string \<Rightarrow> 'a option) \<Rightarrow> MapType \<Rightarrow> string \<Rightarrow> 'a \<Rightarrow> bool \<times> 'a" where
  "checkGetAs lexical_cast m key d =
    (case map_find CaseInsensitiveLess key m of
       None \<Rightarrow> (False, d)
     | Some s \<Rightarrow> (case lexical_cast s of Some v \<Rightarrow> (True, v) | None \<Rightarrow> (False, d)))"

definition getAs :: "(string \<Rightarrow> 'a option) \<Rightarrow> MapType \<Rightarrow> string \<Rightarrow> 'a \<Rightarrow> 'a" where
  "getAs lexical_cast m key d =
    (case map_find CaseInsensitiveLess key m of
       None \<Rightarrow> d
     | Some s \<Rightarrow> (case lexical_cast s of Some v \<Rightarrow> v | None \<Rightarrow> d))"

subsection \<open>Requests\<close>

record HttpRequest =
  rq_method :: HttpMethod
  rq_version :: "8 word"
  rq_close :: bool
  rq_websocket :: bool
  rq_parserParamFlag :: "8 word"
  rq_path :: string
  rq_query :: string
  rq_fragment :: string
  rq_body :: string
  rq_headers :: MapType
  rq_params :: MapType
  rq_cookies :: MapType

definition HttpRequest_new :: "8 word \<Rightarrow> bool \<Rightarrow> HttpRequest" where
  "HttpRequest_new version close =
    \<lparr>rq_method = GET, rq_version = version, rq_close = close, rq_websocket = False,
     rq_parserParamFlag = 0, rq_path = ''/'', rq_query = '''', rq_fragment = '''',
     rq_body = '''', rq_headers = [], rq_params = [], rq_cookies = []\<rparr>"

text \<open>The functions \<open>getX\<close> with their default value, \<open>hasX\<close>, \<open>setX\<close> and \<open>delX\<close>.\<close>

definition get_value :: "MapType \<Rightarrow> string \<Rightarrow> string \<Rightarrow> string" where
  "get_value m key d = (case map_find CaseInsensitiveLess key m of None \<Rightarrow> d | Some v \<Rightarrow> v)"

definition rq_getHeader :: "string \<Rightarrow> string \<Rightarrow> HttpRequest \<Rightarrow> string" where
  "rq_getHeader key d rq = get_value (rq_headers rq) key d"

definition rq_setHeader :: "string \<Rightarrow> string \<Rightarrow> HttpRequest \<Rightarrow> HttpRequest" where
  "rq_setHeader key val rq =
    rq\<lparr>rq_headers := map_assign CaseInsensitiveLess key val (rq_headers rq)\<rparr>"

definition rq_setParam :: "string \<Rightarrow> string \<Rightarrow> HttpRequest \<Rightarrow> HttpRequest" where
  "rq_setParam key val rq =
    rq\<lparr>rq_params := map_assign CaseInsensitiveLess key val (rq_params rq)\<rparr>"

definition rq_setCookie :: "string \<Rightarrow> string \<Rightarrow> HttpRequest \<Rightarrow> HttpRequest" where
  "rq_setCookie key val rq =
    rq\<lparr>rq_cookies := map_assign CaseInsensitiveLess key val (rq_cookies rq)\<rparr>"

definition rq_delHeader :: "string \<Rightarrow> HttpRequest \<Rightarrow> HttpRequest" where
  "rq_delHeader key rq = rq\<lparr>rq_headers := map_erase CaseInsensitiveLess key (rq_headers rq)\<rparr>"

definition rq_delParam :: "string \<Rightarrow> HttpRequest \<Rightarrow> HttpRequest" where
  "rq_delParam key rq = rq\<lparr>rq_params := map_erase CaseInsensitiveLess key (rq_params rq)\<rparr>"

definition rq_delCookie :: "string \<Rightarrow> HttpRequest \<Rightarrow> HttpRequest" where
  "rq_delCookie key rq = rq\<lparr>rq_cookies := map_erase CaseInsensitiveLess key (rq_cookies rq)\<rparr>"

definition rq_hasHeader :: "string \<Rightarrow> HttpRequest \<Rightarrow> string option" where
  "rq_hasHeader key rq = map_find CaseInsensitiveLess key (rq_headers rq)"

text \<open>
  \<open>PARSE_PARAM\<close>: from \<open>pos\<close> on, the name goes to the next equals sign and the value from there to
  the next separator.
\<close>

function parse_param ::
    "string \<Rightarrow> char \<Rightarrow> (string \<Rightarrow> string) \<Rightarrow> nat \<Rightarrow> MapType \<Rightarrow> MapType" where
  "parse_param str flag trim pos m =
    (case find_from (CHR ''='') pos str of
       None \<Rightarrow> m
     | Some key \<Rightarrow>
         (case find_from flag key str of
            None \<Rightarrow> map_insert CaseInsensitiveLess (trim (substr str pos (key - pos)))
              (UrlDecode (substr str (key + 1) (length str)) True) m
          | Some p \<Rightarrow> parse_param str flag trim (p + 1)
              (map_insert CaseInsensitiveLess (trim (substr str pos (key - pos)))
                (UrlDecode (substr str (key + 1) (p - key - 1)) True) m)))"
  by pat_completeness auto
termination
  by (relation "measure (\<lambda>(str, flag, trim, pos, m). length str + 1 - pos)")
    (auto simp: find_from_def Let_def split: if_splits)

declare parse_param.simps [simp del]

definition initQueryParam :: "HttpRequest \<Rightarrow> HttpRequest" where
  "initQueryParam rq =
    (if rq_parserParamFlag rq AND 1 \<noteq> 0 then rq
     else rq\<lparr>rq_params := parse_param (rq_query rq) (CHR ''&'') id 0 (rq_params rq),
             rq_parserParamFlag := rq_parserParamFlag rq OR 1\<rparr>)"

definition initBodyParam :: "HttpRequest \<Rightarrow> HttpRequest" where
  "initBodyParam rq =
    (if rq_parserParamFlag rq AND 2 \<noteq> 0 then rq
     else if \<not> strcasestr (rq_getHeader ''content-type'' '''' rq)
            ''application/x-www-form-urlencoded'' then
       rq\<lparr>rq_parserParamFlag := rq_parserParamFlag rq OR 2\<rparr>
     else rq\<lparr>rq_params := parse_param (rq_body rq) (CHR ''&'') id 0 (rq_params rq),
             rq_parserParamFlag := rq_parserParamFlag rq OR 2\<rparr>)"

definition initCookies :: "HttpRequest \<Rightarrow> HttpRequest" where
  "initCookies rq =
    (if rq_parserParamFlag rq AND 4 \<noteq> 0 then rq
     else let cookie = rq_getHeader ''cookie'' '''' rq in
       if cookie = [] then rq\<lparr>rq_parserParamFlag := rq_parserParamFlag rq OR 4\<rparr>
       else rq\<lparr>rq_cookies := parse_param cookie (CHR '';'') (\<lambda>s. Trim s default_delimit) 0
                 (rq_cookies rq),
               rq_parserParamFlag := rq_parserParamFlag rq OR 4\<rparr>)"

definition initParam :: "HttpRequest \<Rightarrow> HttpRequest" where
  "initParam rq = initCookies (initBodyParam (initQueryParam rq))"

definition rq_getParam :: "string \<Rightarrow> string \<Rightarrow> HttpRequest \<Rightarrow> HttpRequest \<times> string" where
  "rq_getParam key d rq =
    (let rq1 = initBodyParam (initQueryParam rq) in (rq1, get_value (rq_params rq1) key d))"

definition rq_getCookie :: "string \<Rightarrow> string \<Rightarrow> HttpRequest \<Rightarrow> HttpRequest \<times> string" where
  "rq_getCookie key d rq =
    (let rq1 = initCookies rq in (rq1, get_value (rq_cookies rq1) key d))"

definition rq_hasParam :: "string \<Rightarrow> HttpRequest \<Rightarrow> HttpRequest \<times> string option" where
  "rq_hasParam key rq =
    (let rq1 = initBodyParam (initQueryParam rq) in
     (rq1, map_find CaseInsensitiveLess key (rq_params rq1)))"

definition rq_hasCookie :: "string \<Rightarrow> HttpRequest \<Rightarrow> HttpRequest \<times> string option" where
  "rq_hasCookie key rq =
    (let rq1 = initCookies rq in (rq1, map_find CaseInsensitiveLess key (rq_cookies rq1)))"

text \<open>\<open>init\<close>: the connection header decides whether the connection is kept.\<close>

definition rq_init :: "HttpRequest \<Rightarrow> HttpRequest" where
  "rq_init rq =
    (let conn = rq_getHeader ''connection'' '''' rq in
     if conn \<noteq> [] then rq\<lparr>rq_close := strcasecmp conn ''keep-alive'' \<noteq> 0\<rparr> else rq)"

subsection \<open>Text of a request\<close>

definition crlf :: string where
  "crlf = [char_of (13 :: nat), char_of (10 :: nat)]"

definition version_text :: "8 word \<Rightarrow> string" where
  "version_text v = to_string (unat (drop_bit 4 v)) @ ''.'' @ to_string (unat (v AND 15))"

definition header_lines :: "bool \<Rightarrow> MapType \<Rightarrow> string" where
  "header_lines websocket headers = concat (map (\<lambda>(k, v).
    if \<not> websocket \<and> strcasecmp k ''connection'' = 0 then ''''
    else k @ '': '' @ v @ crlf) headers)"

definition connection_line :: "bool \<Rightarrow> bool \<Rightarrow> string" where
  "connection_line websocket close =
    (if websocket then ''''
     else ''connection: '' @ (if close then ''close'' else ''keep-alive'') @ crlf)"

definition body_text :: "string \<Rightarrow> string" where
  "body_text body =
    (if body \<noteq> [] then ''content-length: '' @ to_string (length body) @ crlf @ crlf @ body
     else crlf)"

definition rq_dump :: "HttpRequest \<Rightarrow> string" where
  "rq_dump rq =
    HttpMethodToString (rq_method rq) @ '' '' @ rq_path rq
    @ (if rq_query rq = [] then '''' else ''?'') @ rq_query rq
    @ (if rq_fragment rq = [] then '''' else ''#'') @ rq_fragment rq
    @ '' HTTP/'' @ version_text (rq_version rq) @ crlf
    @ connection_line (rq_websocket rq) (rq_close rq)
    @ header_lines (rq_websocket rq) (rq_headers rq)
    @ body_text (rq_body rq)"

subsection \<open>Responses\<close>

record HttpResponse =
  rs_status :: nat
  rs_version :: "8 word"
  rs_close :: bool
  rs_websocket :: bool
  rs_body :: string
  rs_reason :: string
  rs_headers :: MapType
  rs_cookies :: "string list"

definition HttpResponse_new :: "8 word \<Rightarrow> bool \<Rightarrow> HttpResponse" where
  "HttpResponse_new version close =
    \<lparr>rs_status = 200, rs_version = version, rs_close = close, rs_websocket = False,
     rs_body = '''', rs_reason = '''', rs_headers = [], rs_cookies = []\<rparr>"

definition createResponse :: "HttpRequest \<Rightarrow> HttpResponse" where
  "createResponse rq = HttpResponse_new (rq_version rq) (rq_close rq)"

definition rs_getHeader :: "string \<Rightarrow> string \<Rightarrow> HttpResponse \<Rightarrow> string" where
  "rs_getHeader key d rs = get_value (rs_headers rs) key d"

definition rs_setHeader :: "string \<Rightarrow> string \<Rightarrow> HttpResponse \<Rightarrow> HttpResponse" where
  "rs_setHeader key val rs =
    rs\<lparr>rs_headers := map_assign CaseInsensitiveLess key val (rs_headers rs)\<rparr>"

definition rs_delHeader :: "string \<Rightarrow> HttpResponse \<Rightarrow> HttpResponse" where
  "rs_delHeader key rs = rs\<lparr>rs_headers := map_erase CaseInsensitiveLess key (rs_headers rs)\<rparr>"

definition setRedirect :: "string \<Rightarrow> HttpResponse \<Rightarrow> HttpResponse" where
  "setRedirect uri rs = rs_setHeader ''Location'' uri (rs\<lparr>rs_status := 302\<rparr>)"

text \<open>\<open>time2str\<close> formats the time of expiry; it belongs to the C library.\<close>

definition rs_setCookie :: "(int \<Rightarrow> string) \<Rightarrow> string \<Rightarrow> string \<Rightarrow> int \<Rightarrow> string \<Rightarrow> string \<Rightarrow> bool
    \<Rightarrow> HttpResponse \<Rightarrow> HttpResponse" where
  "rs_setCookie time2str key val expired cpath domain secure rs =
    rs\<lparr>rs_cookies := rs_cookies rs @
      [key @ ''='' @ val
       @ (if 0 < expired then '';expires='' @ time2str expired @ '' GMT'' else '''')
       @ (if domain \<noteq> [] then '';domain='' @ domain else '''')
       @ (if cpath \<noteq> [] then '';path='' @ cpath else '''')
       @ (if secure then '';secure'' else '''')]\<rparr>"

definition rs_dump :: "HttpResponse \<Rightarrow> string" where
  "rs_dump rs =
    ''HTTP/'' @ version_text (rs_version rs) @ '' '' @ to_string (rs_status rs) @ '' ''
    @ (if rs_reason rs = [] then HttpStatusToString (rs_status rs) else rs_reason rs) @ crlf
    @ header_lines (rs_websocket rs) (rs_headers rs)
    @ concat (map (\<lambda>c. ''Set-Cookie: '' @ c @ crlf) (rs_cookies rs))
    @ connection_line (rs_websocket rs) (rs_close rs)
    @ body_text (rs_body rs)"

end
