(* ===== verification/HttpProps.thy ===== *)
theory HttpProps
  imports Http StringProps "HOL-Library.List_Lexorder"
begin

text \<open>
  What the HTTP messages guarantee: the comparison of keys meets the contract of std::map, so the
  headers are a map over keys without letter case; method names are read back; the parameters of a
  query that was built from encoded pairs are found again.
\<close>

subsection \<open>The comparison of keys\<close>

definition low :: "char \<Rightarrow> nat" where
  "low c = of_char (tolower c)"

definition key_of :: "string \<Rightarrow> nat list" where
  "key_of s = map low (c_str s)"

lemma low_eq [simp]: "low x = low y \<longleftrightarrow> tolower x = tolower y"
  by (simp add: low_def)

lemma low_pos:
  assumes "of_char c \<noteq> (0 :: nat)" shows "0 < low c"
proof (cases "65 \<le> (of_char c :: nat) \<and> (of_char c :: nat) \<le> 90")
  case True
  then have "(of_char c :: nat) + 32 < 256" by linarith
  then have "low c = of_char c + 32" using True by (simp add: low_def tolower_def of_char_of)
  then show ?thesis by simp
next
  case False
  with assms show ?thesis by (simp add: low_def tolower_def)
qed

lemma c_str_nonzero: "c \<in> set (c_str s) \<Longrightarrow> of_char c \<noteq> (0 :: nat)"
  unfolding c_str_def by (blast dest: set_takeWhileD)

lemma strcasecmp_chars_less:
  assumes "\<And>c. c \<in> set xs \<union> set ys \<Longrightarrow> 0 < low c"
  shows "strcasecmp_chars xs ys < 0 \<longleftrightarrow> map low xs < map low ys"
  using assms
proof (induction xs ys rule: strcasecmp_chars.induct)
  case (4 x xs y ys)
  have "(of_char (tolower x) :: int) - of_char (tolower y) < 0 \<longleftrightarrow> low x < low y"
    by (metis diff_less_0_iff_less low_def of_nat_less_iff of_nat_of_char)
  moreover have "tolower x = tolower y \<Longrightarrow> \<not> low x < low y" by (simp add: low_def)
  ultimately show ?case using 4 by (cases "tolower x = tolower y") simp_all
next
  case (2 y ys)
  then have "0 < low y" by simp
  then have "(0 :: int) < of_char (tolower y)"
    by (metis low_def of_nat_0_less_iff of_nat_of_char)
  then show ?case by simp
next
  case (3 x xs)
  have "\<not> (of_char (tolower x) :: int) < 0" by (metis of_nat_less_0_iff of_nat_of_char)
  then show ?case by simp
qed simp_all

lemma strcasecmp_chars_zero:
  assumes "\<And>c. c \<in> set xs \<union> set ys \<Longrightarrow> 0 < low c"
  shows "strcasecmp_chars xs ys = 0 \<longleftrightarrow> map low xs = map low ys"
  using assms
proof (induction xs ys rule: strcasecmp_chars.induct)
  case (2 y ys)
  then have "0 < low y" by simp
  then show ?case by (simp add: low_def) (metis of_nat_0_less_iff of_nat_of_char less_irrefl)
next
  case (3 x xs)
  then have "0 < low x" by simp
  then show ?case by (simp add: low_def) (metis of_nat_0_less_iff of_nat_of_char less_irrefl)
qed simp_all

lemma Less_key: "CaseInsensitiveLess a b \<longleftrightarrow> key_of a < key_of b"
  unfolding CaseInsensitiveLess_def strcasecmp_def key_of_def
  by (rule strcasecmp_chars_less) (auto intro: low_pos dest: c_str_nonzero)

lemma strcasecmp_key: "strcasecmp a b = 0 \<longleftrightarrow> key_of a = key_of b"
  unfolding strcasecmp_def key_of_def
  by (rule strcasecmp_chars_zero) (auto intro: low_pos dest: c_str_nonzero)

interpretation ci: compare CaseInsensitiveLess
  by unfold_locales (auto simp: Less_key)

lemma same_key: "ci.same a b \<longleftrightarrow> key_of a = key_of b"
  unfolding ci.same_def Less_key by auto

subsection \<open>Headers\<close>

datatype header_op = Set_header string string | Del_header string

fun header_step :: "header_op \<Rightarrow> HttpRequest \<Rightarrow> HttpRequest" where
  "header_step (Set_header k v) rq = rq_setHeader k v rq"
| "header_step (Del_header k) rq = rq_delHeader k rq"

text \<open>The abstract headers: a finite map over keys without letter case.\<close>

fun spec_step :: "header_op \<Rightarrow> (nat list \<rightharpoonup> string) \<Rightarrow> (nat list \<rightharpoonup> string)" where
  "spec_step (Set_header k v) m = m(key_of k \<mapsto> v)"
| "spec_step (Del_header k) m = m(key_of k := None)"

definition abs_headers :: "HttpRequest \<Rightarrow> (nat list \<rightharpoonup> string) \<Rightarrow> bool" where
  "abs_headers rq m \<longleftrightarrow> in_order CaseInsensitiveLess (rq_headers rq)
    \<and> (\<forall>q. map_find CaseInsensitiveLess q (rq_headers rq) = m (key_of q))"

lemma header_step_abs: "abs_headers rq m \<Longrightarrow> abs_headers (header_step op rq) (spec_step op m)"
  by (cases op) (auto simp: abs_headers_def rq_setHeader_def rq_delHeader_def ci.order_assign
      ci.order_erase ci.find_assign ci.find_erase same_key)

lemma header_run_abs:
  "abs_headers rq m \<Longrightarrow> abs_headers (fold header_step ops rq) (fold spec_step ops m)"
  by (induction ops arbitrary: rq m) (simp_all add: header_step_abs)

text \<open>The headers of a request are a finite map over keys in which letter case does not count:
  after any sequence of setting and deleting, a lookup under any spelling of a key gives the value
  last set under any spelling, or the default value.\<close>

theorem headers_refine_map:
  "rq_getHeader key d (fold header_step ops (HttpRequest_new version close))
    = (case fold spec_step ops Map.empty (key_of key) of None \<Rightarrow> d | Some v \<Rightarrow> v)"
proof -
  have "abs_headers (HttpRequest_new version close) Map.empty"
    by (simp add: abs_headers_def HttpRequest_new_def)
  from header_run_abs [OF this, of ops] show ?thesis
    by (simp add: abs_headers_def rq_getHeader_def get_value_def)
qed

subsection \<open>Methods\<close>

definition clash :: "string \<Rightarrow> string \<Rightarrow> bool" where
  "clash s t \<longleftrightarrow> take (length t) s = take (length s) t"

lemma method_strings:
  "list_all (\<lambda>s. list_all (\<lambda>t. clash s t = (s = t)) s_method_string
    \<and> list_all (\<lambda>c. of_char c \<noteq> (0 :: nat)) s) s_method_string"
  by code_simp

lemma method_numbers: "map fst HTTP_METHOD_MAP = [0..<34]"
  by code_simp

lemma method_table: "i < 34 \<Longrightarrow> fst (HTTP_METHOD_MAP ! i) = i"
  using method_numbers by (metis diff_zero length_map length_upt nth_map nth_upt plus_nat.add_0)

lemma find_unique:
  assumes "i < length xs" "P (xs ! i)" "\<And>j. j < length xs \<Longrightarrow> P (xs ! j) \<Longrightarrow> xs ! j = xs ! i"
  shows "find P xs = Some (xs ! i)"
proof -
  from assms(1,2) obtain x where x: "find P xs = Some x"
    by (metis find_None_iff nth_mem option.exhaust)
  then obtain j where "j < length xs" "P (xs ! j)" "x = xs ! j" by (auto simp: find_Some_iff)
  with assms(3) x show ?thesis by simp
qed

lemma c_str_id: "list_all (\<lambda>c. of_char c \<noteq> (0 :: nat)) s \<Longrightarrow> c_str (s @ r) = s @ c_str r"
  unfolding c_str_def by (induction s) auto

lemma take_clash: "take (length t) (s @ r) = t \<Longrightarrow> clash s t"
proof -
  assume h: "take (length t) (s @ r) = t"
  have "take (length s) (take (length t) (s @ r)) = take (length t) (take (length s) (s @ r))"
    by (simp only: take_take min.commute)
  with h show ?thesis by (simp add: clash_def)
qed


lemma method_index: "m = INVALID_METHOD \<or> (\<exists>i < 34. \<exists>s. HTTP_METHOD_MAP ! i = (i, m, s))"
proof -
  have "m = INVALID_METHOD \<or> m \<in> (fst \<circ> snd) ` set HTTP_METHOD_MAP"
    by (cases m) (simp_all add: HTTP_METHOD_MAP_def)
  then show ?thesis
  proof
    assume "m \<in> (fst \<circ> snd) ` set HTTP_METHOD_MAP"
    then obtain e where "e \<in> set HTTP_METHOD_MAP" "m = fst (snd e)" by auto
    then obtain i where "i < length HTTP_METHOD_MAP" "m = fst (snd (HTTP_METHOD_MAP ! i))"
      by (metis in_set_conv_nth)
    moreover have "length HTTP_METHOD_MAP = 34" by (simp add: HTTP_METHOD_MAP_def)
    ultimately show ?thesis using method_table [of i] by (metis prod.collapse)
  qed simp
qed

lemma method_map_length: "length HTTP_METHOD_MAP = 34"
  by (simp add: HTTP_METHOD_MAP_def)

lemma s_method_nth: "HTTP_METHOD_MAP ! i = (j, m, s) \<Longrightarrow> i < 34 \<Longrightarrow> s_method_string ! i = s"
  by (simp add: s_method_string_def method_map_length)

lemma s_method_distinct: "distinct s_method_string" "distinct (map (fst \<circ> snd) HTTP_METHOD_MAP)"
  by (simp_all add: s_method_string_def HTTP_METHOD_MAP_def)

lemma method_to_string:
  assumes "HTTP_METHOD_MAP ! i = (i, m, s)" "i < 34"
  shows "HttpMethodToString m = s"
proof -
  have "find (\<lambda>(num, name, str). name = m) HTTP_METHOD_MAP = Some (HTTP_METHOD_MAP ! i)"
  proof (rule find_unique)
    fix j assume j: "j < length HTTP_METHOD_MAP"
      and "case HTTP_METHOD_MAP ! j of (num, name, str) \<Rightarrow> name = m"
    then have "(fst \<circ> snd) (HTTP_METHOD_MAP ! j) = (fst \<circ> snd) (HTTP_METHOD_MAP ! i)"
      using assms(1) by (auto split: prod.splits)
    with j assms(2) s_method_distinct(2) show "HTTP_METHOD_MAP ! j = HTTP_METHOD_MAP ! i"
      by (metis length_map method_map_length nth_eq_iff_index_eq nth_map)
  qed (use assms in \<open>simp_all add: method_map_length\<close>)
  with assms s_method_nth [OF assms] show ?thesis
    by (simp add: HttpMethodToString_def method_num_def s_method_string_def method_map_length)
qed

text \<open>The name of a method is read back as the method, also when other text follows it, and
  the placeholder for an invalid method as the invalid method.\<close>

theorem method_names_round_trip:
  "StringToHttpMethod (HttpMethodToString m) = m
   \<and> (m = INVALID_METHOD \<or> CharsToHttpMethod (HttpMethodToString m @ rest) = m)"
proof (cases "m = INVALID_METHOD")
  case True
  then show ?thesis by simp code_simp
next
  case False
  then obtain i s where e: "HTTP_METHOD_MAP ! i = (i, m, s)" and i: "i < 34"
    using method_index by blast
  note s = method_to_string [OF e i]
  have nth: "s_method_string ! j = snd (snd (HTTP_METHOD_MAP ! j))" if "j < 34" for j
    using that by (simp add: s_method_string_def method_map_length case_prod_beta)
  have len: "length s_method_string = 34" by (simp add: s_method_string_def method_map_length)
  have si: "s \<in> set s_method_string" using nth [OF i] e i len by (metis nth_mem snd_conv)
  have uniq: "HTTP_METHOD_MAP ! j = HTTP_METHOD_MAP ! i"
    if j: "j < length HTTP_METHOD_MAP" and c: "clash s (snd (snd (HTTP_METHOD_MAP ! j)))" for j
  proof -
    have "snd (snd (HTTP_METHOD_MAP ! j)) \<in> set s_method_string"
      using nth [of j] j len by (metis method_map_length nth_mem)
    with method_strings si c have "snd (snd (HTTP_METHOD_MAP ! j)) = s" by (auto simp: list_all_iff)
    then have "s_method_string ! j = s_method_string ! i"
      using nth [of j] nth [OF i] e j by (simp add: method_map_length)
    with s_method_distinct(1) j i len have "j = i"
      by (metis method_map_length nth_eq_iff_index_eq)
    then show ?thesis by simp
  qed
  have cs: "c_str (s @ r) = s @ c_str r" for r
    using method_strings si c_str_id by (auto simp: list_all_iff)
  have "c_str s = s" using cs [of "[]"] by (simp add: c_str_def)
  then have "find (\<lambda>(num, name, str). str = c_str s) HTTP_METHOD_MAP = Some (HTTP_METHOD_MAP ! i)"
  proof (intro find_unique)
    fix j assume j: "j < length HTTP_METHOD_MAP" and cs: "c_str s = s"
      and "case HTTP_METHOD_MAP ! j of (num, name, str) \<Rightarrow> str = c_str s"
    then have "clash s (snd (snd (HTTP_METHOD_MAP ! j)))"
      by (simp add: clash_def case_prod_beta)
    with j show "HTTP_METHOD_MAP ! j = HTTP_METHOD_MAP ! i" by (rule uniq)
  qed (use i e in \<open>simp_all add: method_map_length\<close>)
  moreover have "find (\<lambda>(num, name, str). take (length str) (c_str (s @ rest)) = str)
      HTTP_METHOD_MAP = Some (HTTP_METHOD_MAP ! i)"
  proof (rule find_unique)
    fix j assume j: "j < length HTTP_METHOD_MAP"
      and "case HTTP_METHOD_MAP ! j of (num, name, str) \<Rightarrow> take (length str) (c_str (s @ rest)) = str"
    then have "clash s (snd (snd (HTTP_METHOD_MAP ! j)))"
      by (intro take_clash) (simp add: cs case_prod_beta)
    with j show "HTTP_METHOD_MAP ! j = HTTP_METHOD_MAP ! i" by (rule uniq)
  qed (use i e in \<open>simp_all add: method_map_length cs\<close>)
  ultimately show ?thesis using e s by (simp add: StringToHttpMethod_def CharsToHttpMethod_def)
qed

subsection \<open>Parameters\<close>

lemma takeWhile_not:
  "c \<notin> set u \<Longrightarrow> takeWhile (\<lambda>x. x \<noteq> c) (u @ c # r) = u"
  "c \<notin> set u \<Longrightarrow> takeWhile (\<lambda>x. x \<noteq> c) u = u"
  by (induction u) auto

lemma find_from_found:
  "c \<notin> set u \<Longrightarrow> find_from c (length p) (p @ u @ c # r) = Some (length p + length u)"
  by (simp add: find_from_def Let_def takeWhile_not)

lemma find_from_none: "c \<notin> set u \<Longrightarrow> find_from c (length p) (p @ u) = None"
  by (simp add: find_from_def Let_def takeWhile_not)

text \<open>The text of a list of names and values, as parameters are sent.\<close>

fun param_text :: "char \<Rightarrow> (string \<times> string) list \<Rightarrow> string" where
  "param_text flag [] = ''''"
| "param_text flag [(k, w)] = k @ ''='' @ w"
| "param_text flag ((k, w) # p # ps) = k @ ''='' @ w @ flag # param_text flag (p # ps)"

lemma parse_param_step:
  assumes "CHR ''='' \<notin> set k" "flag \<notin> set w" "flag \<noteq> CHR ''=''"
  shows "parse_param (u @ k @ ''='' @ w @ flag # r) flag trim (length u) m
      = parse_param (u @ k @ ''='' @ w @ flag # r) flag trim (length (u @ k @ ''='' @ w @ [flag]))
          (map_insert CaseInsensitiveLess (trim k) (UrlDecode w True) m)"
    and "parse_param (u @ k @ ''='' @ w) flag trim (length u) m
      = map_insert CaseInsensitiveLess (trim k) (UrlDecode w True) m"
proof -
  have eq: "find_from (CHR ''='') (length u) (u @ k @ ''='' @ t) = Some (length u + length k)" for t
    using find_from_found [OF assms(1), of u t] by simp
  have fl: "find_from flag (length u + length k) (u @ k @ ''='' @ w @ flag # r)
      = Some (length u + length k + 1 + length w)"
    using find_from_found [of flag "''='' @ w" "u @ k" r] assms by simp
  have fn: "find_from flag (length u + length k) (u @ k @ ''='' @ w) = None"
    using find_from_none [of flag "''='' @ w" "u @ k"] assms by simp
  show "parse_param (u @ k @ ''='' @ w @ flag # r) flag trim (length u) m
      = parse_param (u @ k @ ''='' @ w @ flag # r) flag trim (length (u @ k @ ''='' @ w @ [flag]))
          (map_insert CaseInsensitiveLess (trim k) (UrlDecode w True) m)"
    by (subst parse_param.simps) (simp only: eq fl option.case, simp add: substr_def add.assoc)
  show "parse_param (u @ k @ ''='' @ w) flag trim (length u) m
      = map_insert CaseInsensitiveLess (trim k) (UrlDecode w True) m"
    by (subst parse_param.simps) (simp only: eq fn option.case, simp add: substr_def)
qed

definition parsable :: "char \<Rightarrow> string \<times> string \<Rightarrow> bool" where
  "parsable flag p \<longleftrightarrow> CHR ''='' \<notin> set (fst p) \<and> flag \<notin> set (snd p)"

lemma parse_param_text:
  assumes "list_all (parsable flag) ps" "flag \<noteq> CHR ''=''"
  shows "parse_param (u @ param_text flag ps) flag trim (length u) m
    = fold (\<lambda>(k, w). map_insert CaseInsensitiveLess (trim k) (UrlDecode w True)) ps m"
  using assms
proof (induction flag ps arbitrary: u m rule: param_text.induct)
  case (1 flag)
  then show ?case
    using find_from_none [of "CHR ''=''" "[]" u] by (subst parse_param.simps) simp
next
  case (2 flag k w)
  then have "CHR ''='' \<notin> set k" "flag \<notin> set w" "flag \<noteq> CHR ''=''"
    by (simp_all add: parsable_def)
  from parse_param_step(2) [OF this, of u] show ?case by simp
next
  case (3 flag k w p ps)
  then have "CHR ''='' \<notin> set k" "flag \<notin> set w" "flag \<noteq> CHR ''=''"
    by (simp_all add: parsable_def)
  from parse_param_step(1) [OF this, of u "param_text flag (p # ps)"] 3
    "3.IH" [of "u @ k @ ''='' @ w @ [flag]"]
  show ?case by simp
qed

lemma join_loop_False: "join_loop False tag xs ss = ss @ concat (map (\<lambda>x. tag @ x) xs)"
  by (induction xs arbitrary: ss) simp_all

lemma Join_params: "Join (map (\<lambda>(k, w). k @ ''='' @ w) ps) [flag] = param_text flag ps"
  by (induction flag ps rule: param_text.induct) (simp_all add: Join_def join_loop_False)

lemma encode_no_amp: "CHR ''&'' \<notin> set (UrlEncode v sp)" "CHR '';'' \<notin> set (UrlEncode v sp)"
proof -
  have "\<not> url_char (CHR ''&'')" "\<not> url_char (CHR '';'')" by code_simp+
  then show "CHR ''&'' \<notin> set (UrlEncode v sp)" "CHR '';'' \<notin> set (UrlEncode v sp)"
    using encode_safe [of v sp] by (auto simp: list_all_iff)
qed

lemma decode_encode: "UrlDecode (UrlEncode v sp) True = v"
  unfolding UrlDecode_eq UrlEncode_eq by (rule dec_concat) simp

lemma fold_encoded:
  "fold (\<lambda>(k, w). map_insert CaseInsensitiveLess (trim k) (UrlDecode w True))
      (map (\<lambda>(k, v). (k, UrlEncode v sp)) ps) m
    = fold (\<lambda>(k, v). map_insert CaseInsensitiveLess k v) (map (\<lambda>(k, v). (trim k, v)) ps) m"
  by (simp add: fold_map comp_def case_prod_beta decode_encode)

definition first_value :: "string \<Rightarrow> string \<Rightarrow> (string \<times> string) list \<Rightarrow> string" where
  "first_value key d ps =
    (case find (\<lambda>(k, v). strcasecmp key k = 0) ps of Some (k, v) \<Rightarrow> v | None \<Rightarrow> d)"

lemma get_value_fold:
  "get_value (fold (\<lambda>(k, v). map_insert CaseInsensitiveLess k v) ps []) key d = first_value key d ps"
  by (auto simp: get_value_def first_value_def ci.find_fold_insert same_key strcasecmp_key
      split: option.split)

text \<open>C22: A request whose query was joined from names and encoded values answers a lookup of a
  parameter with the value of the first name that is the same but for letter case, or with the
  default; the parameters are parsed once, so that a further lookup sees the same request.\<close>

theorem query_params_round_trip:
  assumes "list_all (\<lambda>(k, v). CHR ''='' \<notin> set k) ps"
    and "rq = (HttpRequest_new version close)\<lparr>rq_query :=
      Join (map (\<lambda>(k, v). k @ ''='' @ UrlEncode v sp) ps) ''&''\<rparr>"
  shows "snd (rq_getParam key d rq) = first_value key d ps
    \<and> rq_getParam key' d' (fst (rq_getParam key d rq))
      = (fst (rq_getParam key d rq), first_value key' d' ps)"
proof -
  let ?qs = "map (\<lambda>(k, v). (k, UrlEncode v sp)) ps"
  let ?m = "fold (\<lambda>(k, v). map_insert CaseInsensitiveLess k v) ps []"
  have q: "rq_query rq = param_text (CHR ''&'') ?qs"
  proof -
    have "map (\<lambda>(k, w). k @ ''='' @ w) ?qs = map (\<lambda>(k, v). k @ ''='' @ UrlEncode v sp) ps" by auto
    then have "Join (map (\<lambda>(k, v). k @ ''='' @ UrlEncode v sp) ps) ''&'' = param_text (CHR ''&'') ?qs"
      using Join_params [of ?qs "CHR ''&''"] by metis
    with assms(2) show ?thesis by simp
  qed
  have p: "list_all (parsable (CHR ''&'')) ?qs"
    using assms(1) by (auto simp: list_all_iff parsable_def encode_no_amp)
  have "parse_param (rq_query rq) (CHR ''&'') id 0 []
      = fold (\<lambda>(k, w). map_insert CaseInsensitiveLess (id k) (UrlDecode w True)) ?qs []"
    using parse_param_text [OF p, of "[]" id "[]"] by (simp add: q)
  also have "\<dots> = ?m" unfolding fold_encoded by (simp add: case_prod_beta)
  finally have parse: "parse_param (rq_query rq) (CHR ''&'') id 0 [] = ?m" .
  have nf: "\<not> strcasestr (get_value [] ''content-type'' '''')
      ''application/x-www-form-urlencoded''" by code_simp
  define rq1 where "rq1 = rq\<lparr>rq_params := ?m, rq_parserParamFlag := 3\<rparr>"
  have 1: "initBodyParam (initQueryParam rq) = rq1"
    using parse nf assms(2)
    by (simp add: initQueryParam_def initBodyParam_def HttpRequest_new_def rq_getHeader_def rq1_def)
  have 2: "initBodyParam (initQueryParam rq1) = rq1"
    by (simp add: initQueryParam_def initBodyParam_def rq1_def)
  have "rq_params rq1 = ?m" by (simp add: rq1_def)
  with 1 2 show ?thesis by (simp add: rq_getParam_def get_value_fold)
qed

theorem query_params_round_trip_witness:
  "snd (rq_getParam ''B'' '''' ((HttpRequest_new 0x11 True)\<lparr>rq_query := ''a=1&b=x+y''\<rparr>)) = ''x y''"
proof -
  let ?ps = "[(''a'', ''1''), (''b'', ''x y'')]"
  have k: "list_all (\<lambda>(k, v). CHR ''='' \<notin> set k) ?ps" by simp
  have j: "Join (map (\<lambda>(k, v). k @ ''='' @ UrlEncode v True) ?ps) ''&'' = ''a=1&b=x+y''" by code_simp
  have f: "first_value ''B'' '''' ?ps = ''x y''" by code_simp
  from query_params_round_trip [OF k refl, where version = "0x11" and close = True and sp = True
      and key = "''B''" and d = "''''"]
  show ?thesis unfolding j f by blast
qed

end
