(* ===== verification/Rpc.thy ===== *)
theory Rpc
  imports Http
begin

text \<open>
  Remote calls over HTTP: the servlet dispatcher (src/sylar/http/servlet.cc), the loop that serves
  one connection (src/sylar/http/http_server.cc), the provider that turns a request into a call of
  a registered service (src/rpc/rpcprovider.cpp), and the channel and controller of the caller
  (src/rpc/mprpcchannel.cpp, mprpccontroller.cpp, src/raft/raftClerk/raftServerRpcUtil.cpp).
  Protobuf messages, services and their coding, \<open>fnmatch\<close> and the network are parameters. The
  state \<open>'s\<close> is whatever the services work on.
\<close>

subsection \<open>Servlets\<close>

text \<open>A handler may change the request, the response and the state; a creator is the servlet it gives.\<close>

type_synonym 's servlet = "HttpRequest \<Rightarrow> HttpResponse \<Rightarrow> 's \<Rightarrow> HttpRequest \<times> HttpResponse \<times> 's"

record 's ServletDispatch =
  m_datas :: "string \<rightharpoonup> 's servlet"
  m_globs :: "(string \<times> 's servlet) list"
  m_default :: "'s servlet option"

definition NotFoundServlet :: "string \<Rightarrow> 's servlet" where
  "NotFoundServlet name rq rs s =
    (rq,
     (rs_setHeader ''Content-Type'' ''text/html''
       (rs_setHeader ''Server'' ''sylar/1.0.0'' (rs\<lparr>rs_status := 404\<rparr>)))
     \<lparr>rs_body := ''<html><head><title>404 Not Found'' @
        ''</title></head><body><center><h1>404 Not Found</h1></center>'' @
        ''<hr><center>'' @ name @ ''</center></body></html>''\<rparr>,
     s)"

definition ServletDispatch_new :: "'s ServletDispatch" where
  "ServletDispatch_new =
    \<lparr>m_datas = Map.empty, m_globs = [], m_default = Some (NotFoundServlet ''sylar/1.0'')\<rparr>"

definition addServlet :: "string \<Rightarrow> 's servlet \<Rightarrow> 's ServletDispatch \<Rightarrow> 's ServletDispatch" where
  "addServlet uri slt d = d\<lparr>m_datas := (m_datas d)(uri \<mapsto> slt)\<rparr>"

text \<open>The first pair with the name is erased.\<close>

fun erase_first :: "string \<Rightarrow> (string \<times> 'a) list \<Rightarrow> (string \<times> 'a) list" where
  "erase_first uri [] = []"
| "erase_first uri (p # ps) = (if fst p = uri then ps else p # erase_first uri ps)"

definition addGlobServlet :: "string \<Rightarrow> 's servlet \<Rightarrow> 's ServletDispatch \<Rightarrow> 's ServletDispatch" where
  "addGlobServlet uri slt d = d\<lparr>m_globs := erase_first uri (m_globs d) @ [(uri, slt)]\<rparr>"

definition delServlet :: "string \<Rightarrow> 's ServletDispatch \<Rightarrow> 's ServletDispatch" where
  "delServlet uri d = d\<lparr>m_datas := (m_datas d)(uri := None)\<rparr>"

definition delGlobServlet :: "string \<Rightarrow> 's ServletDispatch \<Rightarrow> 's ServletDispatch" where
  "delGlobServlet uri d = d\<lparr>m_globs := erase_first uri (m_globs d)\<rparr>"

definition setDefault :: "'s servlet option \<Rightarrow> 's ServletDispatch \<Rightarrow> 's ServletDispatch" where
  "setDefault v d = d\<lparr>m_default := v\<rparr>"

definition getServlet :: "string \<Rightarrow> 's ServletDispatch \<Rightarrow> 's servlet option" where
  "getServlet uri d = m_datas d uri"

definition getGlobServlet :: "string \<Rightarrow> 's ServletDispatch \<Rightarrow> 's servlet option" where
  "getGlobServlet uri d = map_option snd (find (\<lambda>(u, slt). u = uri) (m_globs d))"

definition getMatchedServlet ::
    "(string \<Rightarrow> string \<Rightarrow> bool) \<Rightarrow> string \<Rightarrow> 's ServletDispatch \<Rightarrow> 's servlet option" where
  "getMatchedServlet fnmatch uri d =
    (case m_datas d uri of
       Some slt \<Rightarrow> Some slt
     | None \<Rightarrow>
         (case find (\<lambda>(u, slt). fnmatch u uri) (m_globs d) of
            Some (u, slt) \<Rightarrow> Some slt
          | None \<Rightarrow> m_default d))"

definition dispatch_handle :: "(string \<Rightarrow> string \<Rightarrow> bool) \<Rightarrow> 's ServletDispatch \<Rightarrow> 's servlet" where
  "dispatch_handle fnmatch d rq rs s =
    (case getMatchedServlet fnmatch (rq_path rq) d of
       Some slt \<Rightarrow> slt rq rs s
     | None \<Rightarrow> (rq, rs, s))"

subsection \<open>The server's loop over one connection\<close>

record 's HttpServer =
  m_isKeepalive :: bool
  m_name :: string
  m_dispatch :: "'s ServletDispatch"

definition HttpServer_new :: "bool \<Rightarrow> string \<Rightarrow> 's HttpServer" where
  "HttpServer_new keepalive name =
    \<lparr>m_isKeepalive = keepalive, m_name = name, m_dispatch = ServletDispatch_new\<rparr>"

definition setName :: "string \<Rightarrow> 's HttpServer \<Rightarrow> 's HttpServer" where
  "setName v sv =
    sv\<lparr>m_name := v, m_dispatch := setDefault (Some (NotFoundServlet v)) (m_dispatch sv)\<rparr>"

text \<open>
  One request: the response starts with the version of the request and the name of the server.
  The list holds the requests that \<open>recvRequest\<close> returns, and its end the null pointer that ends
  the loop.
\<close>

definition serve :: "(string \<Rightarrow> string \<Rightarrow> bool) \<Rightarrow> 's HttpServer \<Rightarrow> HttpRequest \<Rightarrow> 's
    \<Rightarrow> HttpRequest \<times> HttpResponse \<times> 's" where
  "serve fnmatch sv rq s =
    dispatch_handle fnmatch (m_dispatch sv) rq
      (rs_setHeader ''Server'' (m_name sv)
        (HttpResponse_new (rq_version rq) (rq_close rq \<or> \<not> m_isKeepalive sv))) s"

fun handleClient :: "(string \<Rightarrow> string \<Rightarrow> bool) \<Rightarrow> 's HttpServer \<Rightarrow> HttpRequest list \<Rightarrow> 's
    \<Rightarrow> HttpResponse list \<times> 's" where
  "handleClient fnmatch sv [] s = ([], s)"
| "handleClient fnmatch sv (rq # rqs) s =
    (let (rq', rs, s') = serve fnmatch sv rq s in
     if \<not> m_isKeepalive sv \<or> rq_close rq' then ([rs], s')
     else let (rss, s'') = handleClient fnmatch sv rqs s' in (rs # rss, s''))"

subsection \<open>The provider\<close>

text \<open>
  A method of a service, as the provider uses it: parsing the request, calling the method, and
  writing the response as bytes.
\<close>

record ('m, 's) rpc_method =
  md_name :: string
  parse_request :: "string \<Rightarrow> 'm option"
  service_call :: "'m \<Rightarrow> 's \<Rightarrow> 'm \<times> 's"
  serialize_response :: "'m \<Rightarrow> string option"

record ('m, 's) service =
  sd_name :: string
  sd_methods :: "('m, 's) rpc_method list"

record ('m, 's) ServiceInfo =
  m_service :: "('m, 's) service"
  m_methodMap :: "string \<rightharpoonup> ('m, 's) rpc_method"

definition NotifyService ::
    "('m, 's) service \<Rightarrow> (string \<rightharpoonup> ('m, 's) ServiceInfo) \<Rightarrow> (string \<rightharpoonup> ('m, 's) ServiceInfo)" where
  "NotifyService svc serviceMap =
    insert_new (sd_name svc)
      \<lparr>m_service = svc,
       m_methodMap = fold (\<lambda>md. insert_new (md_name md) md) (sd_methods svc) Map.empty\<rparr>
      serviceMap"

definition rpc_prefix :: string where
  "rpc_prefix = ''/rpc/''"

text \<open>The handler that \<open>Run\<close> registers; every early return is a branch.\<close>

definition rpc_servlet :: "(string \<rightharpoonup> ('m, 's) ServiceInfo) \<Rightarrow> 's servlet" where
  "rpc_servlet serviceMap rq rs s =
    (if rq_method rq \<noteq> POST then
       (rq, rs\<lparr>rs_status := 405, rs_body := ''Only POST allowed'' @ [char_of (10 :: nat)]\<rparr>, s)
     else
       let body = rq_body rq; fpath = rq_path rq in
       if length fpath \<le> length rpc_prefix \<or> substr fpath 0 (length rpc_prefix) \<noteq> rpc_prefix then
         (rq, rs\<lparr>rs_status := 400,
            rs_body := ''invalid rpc path, expected /rpc/<Service>/<Method>''\<rparr>, s)
       else
         let rest = substr fpath (length rpc_prefix) (length fpath) in
         (case find_from (CHR ''/'') 0 rest of
            None \<Rightarrow> (rq, rs\<lparr>rs_status := 400, rs_body := ''invalid rpc path, missing method''\<rparr>, s)
          | Some pos \<Rightarrow>
              (case serviceMap (substr rest 0 pos) of
                 None \<Rightarrow> (rq, rs\<lparr>rs_status := 404, rs_body := ''service not found''\<rparr>, s)
               | Some info \<Rightarrow>
                   (case m_methodMap info (substr rest (pos + 1) (length rest)) of
                      None \<Rightarrow> (rq, rs\<lparr>rs_status := 404, rs_body := ''method not found''\<rparr>, s)
                    | Some md \<Rightarrow>
                        (case parse_request md body of
                           None \<Rightarrow> (rq, rs\<lparr>rs_status := 400, rs_body := ''request parse error''\<rparr>, s)
                         | Some request \<Rightarrow>
                             (case service_call md request s of
                                (response, s') \<Rightarrow>
                                  (case serialize_response md response of
                                     Some str \<Rightarrow>
                                       (rq, (rs_setHeader ''Content-Type'' ''application/octet-stream''
                                          (rs\<lparr>rs_status := 200\<rparr>))\<lparr>rs_body := str\<rparr>, s')
                                   | None \<Rightarrow>
                                       (rq, rs\<lparr>rs_status := 500,
                                          rs_body := ''serialize response error''\<rparr>, s')))))))
    )"

text \<open>\<open>Run\<close>: the server with the servlet, and the address it is bound to; the port is a short.\<close>

definition int_to_string :: "int \<Rightarrow> string" where
  "int_to_string i = (if i < 0 then ''-'' @ to_string (nat (- i)) else to_string (nat i))"

definition Run_server :: "(string \<rightharpoonup> ('m, 's) ServiceInfo) \<Rightarrow> 's HttpServer" where
  "Run_server serviceMap =
    (let sv = setName ''sylar_rpc_server'' (HttpServer_new True ''sylar/1.0.0'') in
     sv\<lparr>m_dispatch := addGlobServlet ''/rpc/*'' (rpc_servlet serviceMap) (m_dispatch sv)\<rparr>)"

definition Run_bind_addr :: "16 word \<Rightarrow> string" where
  "Run_bind_addr port = ''0.0.0.0:'' @ int_to_string (sint port)"

subsection \<open>Controller and channel\<close>

record MprpcController =
  m_failed :: bool
  m_errText :: string

definition MprpcController_new :: MprpcController where
  "MprpcController_new = \<lparr>m_failed = False, m_errText = ''''\<rparr>"

definition SetFailed :: "string \<Rightarrow> MprpcController \<Rightarrow> MprpcController" where
  "SetFailed reason c = c\<lparr>m_failed := True, m_errText := reason\<rparr>"

text \<open>
  The network below the channel: name resolution, connecting, the state of a connection, sending a
  request on it and receiving a response from it. \<open>'w\<close> is the world, \<open>'a\<close> an address, \<open>'c\<close> a
  connection.
\<close>

record ('a, 'c, 'w) network =
  LookupAnyIPAddress :: "string \<Rightarrow> 'w \<Rightarrow> 'a option"
  sock_connect :: "'a \<Rightarrow> 'w \<Rightarrow> 'c option \<times> 'w"
  isConnected :: "'c \<Rightarrow> 'w \<Rightarrow> bool"
  sendRequest :: "'c \<Rightarrow> HttpRequest \<Rightarrow> 'w \<Rightarrow> 'w"
  recvResponse :: "'c \<Rightarrow> 'w \<Rightarrow> HttpResponse option \<times> 'w"

record 'c MprpcChannel =
  ch_ip :: string
  ch_port :: "16 word"
  ch_httpconn :: "'c option"
  ch_isConnected :: bool

text \<open>The short that is passed is stored as an unsigned number.\<close>

definition MprpcChannel_new :: "string \<Rightarrow> 16 word \<Rightarrow> 'c MprpcChannel" where
  "MprpcChannel_new ip port =
    \<lparr>ch_ip = ip, ch_port = port, ch_httpconn = None, ch_isConnected = False\<rparr>"

definition channel_connect :: "('a, 'c, 'w) network \<Rightarrow> 'c MprpcChannel \<Rightarrow> 'w
    \<Rightarrow> bool \<times> 'c MprpcChannel \<times> 'w" where
  "channel_connect net ch w =
    (if ch_isConnected ch \<and> (case ch_httpconn ch of None \<Rightarrow> False | Some c \<Rightarrow> isConnected net c w)
     then (True, ch, w)
     else (case LookupAnyIPAddress net (ch_ip ch @ '':'' @ to_string (unat (ch_port ch))) w of
             None \<Rightarrow> (False, ch, w)
           | Some addr \<Rightarrow>
               (case sock_connect net addr w of
                  (None, w') \<Rightarrow> (False, ch, w')
                | (Some c, w') \<Rightarrow> (True, ch\<lparr>ch_httpconn := Some c, ch_isConnected := True\<rparr>, w'))))"

definition rpc_request :: "string \<Rightarrow> string \<Rightarrow> string \<Rightarrow> HttpRequest" where
  "rpc_request service_name method_name req_str =
    (let rq = (HttpRequest_new 0x11 True)\<lparr>rq_method := POST,
            rq_path := ''/rpc/'' @ service_name @ ''/'' @ method_name\<rparr>;
         rq = rq_setHeader ''Content-Type'' ''application/octet-stream'' rq;
         rq = rq\<lparr>rq_close := False, rq_body := req_str\<rparr> in
     rq_setHeader ''Content-Length'' (to_string (length req_str)) rq)"

text \<open>
  \<open>CallMethod\<close>: the serialized request (or none, when that fails), the message that parsing the
  response leaves in the reply (the result of \<open>ParseFromString\<close> is not looked at), the reply object
  before the call, the controller and the channel.
\<close>

definition CallMethod :: "('a, 'c, 'w) network \<Rightarrow> string \<Rightarrow> string \<Rightarrow> string option
    \<Rightarrow> (string \<Rightarrow> 'm) \<Rightarrow> 'm \<Rightarrow> MprpcController \<Rightarrow> 'c MprpcChannel \<Rightarrow> 'w
    \<Rightarrow> 'm \<times> MprpcController \<times> 'c MprpcChannel \<times> 'w" where
  "CallMethod net service_name method_name request parse response controller ch w =
    (case channel_connect net ch w of
       (ok, ch1, w1) \<Rightarrow>
         if \<not> ok then (response, SetFailed ''connect to server failed!'' controller, ch1, w1)
         else (case request of
             None \<Rightarrow> (response, SetFailed ''serialize request error!'' controller, ch1, w1)
           | Some req_str \<Rightarrow>
               let c = the (ch_httpconn ch1);
                   w2 = sendRequest net c (rpc_request service_name method_name req_str) w1 in
               (case recvResponse net c w2 of
                  (None, w3) \<Rightarrow> (response, SetFailed ''recv response error!'' controller,
                     ch1\<lparr>ch_isConnected := False\<rparr>, w3)
                | (Some rsp, w3) \<Rightarrow> (parse (rs_body rsp), controller, ch1, w3))))"

text \<open>The stubs of the clerk and of a node: the call with a fresh controller, true unless it failed.\<close>

definition rpc_util_call :: "('a, 'c, 'w) network \<Rightarrow> string \<Rightarrow> string \<Rightarrow> string option
    \<Rightarrow> (string \<Rightarrow> 'm) \<Rightarrow> 'm \<Rightarrow> 'c MprpcChannel \<Rightarrow> 'w \<Rightarrow> (bool \<times> 'm) \<times> 'c MprpcChannel \<times> 'w" where
  "rpc_util_call net service_name method_name request parse reply ch w =
    (case CallMethod net service_name method_name request parse reply MprpcController_new ch w of
       (reply', controller, ch', w') \<Rightarrow> ((\<not> m_failed controller, reply'), ch', w'))"

end
