(* ===== verification/RpcProps.thy ===== *)
theory RpcProps
  imports Rpc HttpProps
begin

text \<open>
  What the servlet dispatcher, the provider and the channel do together: which servlet gets a
  request, that a remote call runs the method it names exactly once, and what the caller sees when
  the server refuses the call.
\<close>

subsection \<open>The dispatcher\<close>

datatype 's dispatch_op =
    Add string "'s servlet" | Add_glob string "'s servlet" | Del string | Del_glob string

fun dispatch_step :: "'s dispatch_op \<Rightarrow> 's ServletDispatch \<Rightarrow> 's ServletDispatch" where
  "dispatch_step (Add u slt) d = addServlet u slt d"
| "dispatch_step (Add_glob u slt) d = addGlobServlet u slt d"
| "dispatch_step (Del u) d = delServlet u d"
| "dispatch_step (Del_glob u) d = delGlobServlet u d"

text \<open>What a list of operations leaves: the last one about a name decides.\<close>

fun exact_after :: "'s dispatch_op list \<Rightarrow> string \<Rightarrow> 's servlet option" where
  "exact_after [] uri = None"
| "exact_after (Add u slt # ops) uri = (case exact_after ops uri of Some x \<Rightarrow> Some x
     | None \<Rightarrow> if u = uri \<and> Del uri \<notin> set ops then Some slt else None)"
| "exact_after (op # ops) uri = exact_after ops uri"

lemma step_default: "m_default (dispatch_step op d) = m_default d"
  by (cases op) (simp_all add: addServlet_def addGlobServlet_def delServlet_def delGlobServlet_def)

lemma run_default: "m_default (fold dispatch_step ops d) = m_default d"
  by (induction ops arbitrary: d) (simp_all add: step_default)

lemma exact_run: "m_datas (fold dispatch_step ops d) uri =
    (case exact_after ops uri of Some x \<Rightarrow> Some x
     | None \<Rightarrow> if Del uri \<in> set ops then None else m_datas d uri)"
proof (induction ops uri arbitrary: d rule: exact_after.induct)
  case (2 u slt ops uri)
  then show ?case by (auto simp: addServlet_def split: option.splits)
qed (auto simp: addGlobServlet_def delServlet_def delGlobServlet_def split: option.splits)

lemma erase_first_keys:
  "distinct (map fst ps) \<Longrightarrow> erase_first u ps = filter (\<lambda>p. fst p \<noteq> u) ps"
  by (induction ps) (auto simp: filter_id_conv image_iff intro!: filter_True [symmetric])

lemma globs_distinct_step:
  assumes "distinct (map fst (m_globs d))"
  shows "distinct (map fst (m_globs (dispatch_step op d)))"
  using assms erase_first_keys [OF assms] distinct_map_filter
  by (cases op) (auto simp: addServlet_def addGlobServlet_def delServlet_def delGlobServlet_def)

lemma globs_distinct:
  "distinct (map fst (m_globs d)) \<Longrightarrow> distinct (map fst (m_globs (fold dispatch_step ops d)))"
  by (induction ops arbitrary: d) (simp_all add: globs_distinct_step)

subsection \<open>Registered services\<close>

lemma fold_insert_new_find:
  "fold (\<lambda>x. insert_new (f x) (g x)) xs m k = (case m k of Some v \<Rightarrow> Some v | None \<Rightarrow> map_option g (find (\<lambda>x. f x = k) xs))"
  by (induction xs arbitrary: m) (auto simp: insert_new_def split: option.splits)

definition registered :: "('m, 's) service list \<Rightarrow> (string \<rightharpoonup> ('m, 's) ServiceInfo)" where
  "registered svcs = fold NotifyService svcs Map.empty"

definition info_of :: "('m, 's) service \<Rightarrow> ('m, 's) ServiceInfo" where
  "info_of svc = \<lparr>m_service = svc,
     m_methodMap = fold (\<lambda>md. insert_new (md_name md) md) (sd_methods svc) Map.empty\<rparr>"

lemma registered_eq: "registered svcs = fold (\<lambda>svc. insert_new (sd_name svc) (info_of svc)) svcs Map.empty"
  unfolding registered_def
  by (rule fold_cong) (simp_all add: NotifyService_def info_of_def fun_eq_iff)

lemma registered_find: "registered svcs name = map_option info_of (find (\<lambda>svc. sd_name svc = name) svcs)"
  unfolding registered_eq by (simp add: fold_insert_new_find)

lemma method_find: "m_methodMap (info_of svc) name = find (\<lambda>md. md_name md = name) (sd_methods svc)"
  unfolding info_of_def by (simp add: fold_insert_new_find [of md_name "\<lambda>x. x"] option.map_ident)

subsection \<open>The servlet of the provider\<close>

lemma rpc_path_parts:
  assumes "CHR ''/'' \<notin> set sn"
  shows "find_from (CHR ''/'') 0 (sn @ ''/'' @ mn) = Some (length sn)"
    "substr (sn @ ''/'' @ mn) 0 (length sn) = sn"
    "substr (sn @ ''/'' @ mn) (length sn + 1) (length (sn @ ''/'' @ mn)) = mn"
  using find_from_found [OF assms, of "[]" mn] by (simp_all add: substr_def)

lemma rpc_servlet_eq:
  assumes "rq_method rq = POST" "rq_path rq = ''/rpc/'' @ sn @ ''/'' @ mn" "CHR ''/'' \<notin> set sn"
  shows "rpc_servlet smap rq rs s =
    (case smap sn of
       None \<Rightarrow> (rq, rs\<lparr>rs_status := 404, rs_body := ''service not found''\<rparr>, s)
     | Some info \<Rightarrow> (case m_methodMap info mn of
         None \<Rightarrow> (rq, rs\<lparr>rs_status := 404, rs_body := ''method not found''\<rparr>, s)
       | Some md \<Rightarrow> (case parse_request md (rq_body rq) of
           None \<Rightarrow> (rq, rs\<lparr>rs_status := 400, rs_body := ''request parse error''\<rparr>, s)
         | Some request \<Rightarrow> (case service_call md request s of (response, s') \<Rightarrow>
             (case serialize_response md response of
                Some str \<Rightarrow> (rq, (rs_setHeader ''Content-Type'' ''application/octet-stream''
                  (rs\<lparr>rs_status := 200\<rparr>))\<lparr>rs_body := str\<rparr>, s')
              | None \<Rightarrow> (rq, rs\<lparr>rs_status := 500, rs_body := ''serialize response error''\<rparr>, s'))))))"
proof -
  have p: "length (''/rpc/'' @ sn @ ''/'' @ mn) > length rpc_prefix"
    "substr (''/rpc/'' @ sn @ ''/'' @ mn) 0 (length rpc_prefix) = rpc_prefix"
    "substr (''/rpc/'' @ sn @ ''/'' @ mn) (length rpc_prefix) (length (''/rpc/'' @ sn @ ''/'' @ mn))
      = sn @ ''/'' @ mn"
    by (simp_all add: rpc_prefix_def substr_def)
  then show ?thesis
    unfolding rpc_servlet_def Let_def assms(1,2) p(2,3) rpc_path_parts [OF assms(3)] option.case
    by simp
qed

lemma serve_rpc:
  assumes "fnmatch ''/rpc/*'' (rq_path rq)"
  shows "\<exists>rs. serve fnmatch (Run_server smap) rq s = rpc_servlet smap rq rs s"
  using assms by (auto simp: serve_def dispatch_handle_def Run_server_def getMatchedServlet_def
      HttpServer_new_def setName_def setDefault_def ServletDispatch_new_def addGlobServlet_def Let_def)

lemma rpc_request_fields [simp]:
  "rq_method (rpc_request sn mn str) = POST"
  "rq_path (rpc_request sn mn str) = ''/rpc/'' @ sn @ ''/'' @ mn"
  "rq_body (rpc_request sn mn str) = str" "rq_close (rpc_request sn mn str) = False"
  by (simp_all add: rpc_request_def Let_def rq_setHeader_def)

subsection \<open>Calls that reach a server\<close>

text \<open>
  What a call of method \<open>mn\<close> of service \<open>sn\<close> means for services with the state \<open>s\<close>: the status and
  the body of the response, and the new state. The first service and the first method of a name count.
\<close>

definition call_result :: "('m, 's) service list \<Rightarrow> string \<times> string \<times> string \<Rightarrow> 's \<Rightarrow> (nat \<times> string) \<times> 's" where
  "call_result svcs c s = (case c of (sn, mn, bytes) \<Rightarrow>
    (case find (\<lambda>svc. sd_name svc = sn) svcs of
       None \<Rightarrow> ((404, ''service not found''), s)
     | Some svc \<Rightarrow> (case find (\<lambda>md. md_name md = mn) (sd_methods svc) of
         None \<Rightarrow> ((404, ''method not found''), s)
       | Some md \<Rightarrow> (case parse_request md bytes of
           None \<Rightarrow> ((400, ''request parse error''), s)
         | Some request \<Rightarrow> (case service_call md request s of (response, s') \<Rightarrow>
             ((case serialize_response md response of
                 Some str \<Rightarrow> (200, str) | None \<Rightarrow> (500, ''serialize response error'')), s'))))))"

fun call_results :: "('m, 's) service list \<Rightarrow> (string \<times> string \<times> string) list \<Rightarrow> 's \<Rightarrow> (nat \<times> string) list \<times> 's" where
  "call_results svcs [] s = ([], s)"
| "call_results svcs (c # cs) s =
    (let (r, s1) = call_result svcs c s; (rs, s2) = call_results svcs cs s1 in (r # rs, s2))"

abbreviation request_of :: "string \<times> string \<times> string \<Rightarrow> HttpRequest" where
  "request_of \<equiv> \<lambda>(sn, mn, bytes). rpc_request sn mn bytes"

lemma serve_call:
  assumes "\<And>u. fnmatch ''/rpc/*'' (''/rpc/'' @ u)" and "CHR ''/'' \<notin> set (fst c)"
  shows "\<exists>rs. serve fnmatch (Run_server (registered svcs)) (request_of c) s = (request_of c, rs, snd (call_result svcs c s))
    \<and> (rs_status rs, rs_body rs) = fst (call_result svcs c s)"
proof -
  obtain sn mn bytes where c: "c = (sn, mn, bytes)" by (metis prod.exhaust)
  let ?rq = "rpc_request sn mn bytes"
  from serve_rpc [of fnmatch ?rq "registered svcs" s] assms(1) obtain rs where
    rs: "serve fnmatch (Run_server (registered svcs)) ?rq s = rpc_servlet (registered svcs) ?rq rs s" by auto
  have "CHR ''/'' \<notin> set sn" using assms(2) c by simp
  note eq = rpc_servlet_eq [OF rpc_request_fields(1) [of sn mn bytes] rpc_request_fields(2) this, of "registered svcs" rs s]
  show ?thesis
    unfolding c prod.case rs eq
    by (auto simp: call_result_def registered_find method_find rs_setHeader_def split: option.split prod.split)
qed

lemma call_results_served:
  assumes glob: "\<And>u. fnmatch ''/rpc/*'' (''/rpc/'' @ u)"
  shows "\<forall>c \<in> set calls. CHR ''/'' \<notin> set (fst c) \<Longrightarrow>
    \<exists>rss s'. handleClient fnmatch (Run_server (registered svcs)) (map request_of calls) s = (rss, s')
      \<and> (map (\<lambda>rs. (rs_status rs, rs_body rs)) rss, s') = call_results svcs calls s"
proof (induction calls arbitrary: s)
  case (Cons c calls)
  have k: "m_isKeepalive (Run_server (registered svcs))"
    by (simp add: Run_server_def HttpServer_new_def setName_def Let_def)
  have cl: "rq_close (request_of c) = False" by (simp split: prod.split)
  have sl: "CHR ''/'' \<notin> set (fst c)" using Cons.prems by simp
  obtain r s1 where r: "call_result svcs c s = (r, s1)" by fastforce
  from serve_call [of fnmatch, OF glob sl, of svcs s] r obtain rs where
    1: "serve fnmatch (Run_server (registered svcs)) (request_of c) s = (request_of c, rs, s1)" "(rs_status rs, rs_body rs) = r"
    by auto
  from Cons.IH [of s1] Cons.prems obtain rss s' where
    2: "handleClient fnmatch (Run_server (registered svcs)) (map request_of calls) s1 = (rss, s')"
      "(map (\<lambda>rs. (rs_status rs, rs_body rs)) rss, s') = call_results svcs calls s1" by auto
  show ?case
    using 1 2 k cl r by (auto simp: Let_def simp flip: 2(2))
qed simp

text \<open>C21: The requests the channel builds do what the calls mean. When any number of them arrive on a
  connection to a server that registered services, for services without a slash in their names, each
  is answered by one response, in order: a known method is run once, on the state the calls before it
  left, with the bytes that were sent, and its serialized response is the body; an unknown service or
  method, or a request that cannot be parsed, gives its error and changes nothing; a response that
  cannot be written gives an error after its method has run. On the caller's side, whatever the network
  does: a call that has a connection sends exactly that one request and receives once, and takes the body of
  any response as the reply, whatever its status; without a connection or a response it fails.\<close>

theorem rpc_calls_served:
  assumes glob: "\<And>u. fnmatch ''/rpc/*'' (''/rpc/'' @ u)" and names: "\<forall>(sn, mn, bytes) \<in> set calls. CHR ''/'' \<notin> set sn"
  shows "(\<exists>rss s'. handleClient fnmatch (Run_server (registered svcs))
        (map (\<lambda>(sn, mn, bytes). rpc_request sn mn bytes) calls) s = (rss, s')
      \<and> (map (\<lambda>rs. (rs_status rs, rs_body rs)) rss, s') = call_results svcs calls s)
    \<and> rpc_util_call net sn mn (Some bytes) parse reply ch w =
      (case channel_connect net ch w of (ok, ch1, w1) \<Rightarrow>
        if \<not> ok then ((False, reply), ch1, w1)
        else let c = the (ch_httpconn ch1) in
          (case recvResponse net c (sendRequest net c (rpc_request sn mn bytes) w1) of
             (None, w2) \<Rightarrow> ((False, reply), ch1\<lparr>ch_isConnected := False\<rparr>, w2)
           | (Some rsp, w2) \<Rightarrow> ((True, parse (rs_body rsp)), ch1, w2)))"
proof (rule conjI)
  have "\<forall>c \<in> set calls. CHR ''/'' \<notin> set (fst c)" using names by auto
  from call_results_served [of fnmatch, OF glob this, of svcs s]
  show "\<exists>rss s'. handleClient fnmatch (Run_server (registered svcs))
        (map (\<lambda>(sn, mn, bytes). rpc_request sn mn bytes) calls) s = (rss, s')
      \<and> (map (\<lambda>rs. (rs_status rs, rs_body rs)) rss, s') = call_results svcs calls s" by simp
qed (auto simp: rpc_util_call_def CallMethod_def SetFailed_def MprpcController_new_def Let_def split: prod.split option.split)

text \<open>A call of a service the server does not know is not reported as a failure to the caller that receives the
  body of its answer: the text of the error is parsed as if it were the reply.\<close>

theorem rpc_error_taken_for_reply:
  assumes glob: "\<And>u. fnmatch ''/rpc/*'' (''/rpc/'' @ u)" and sn: "CHR ''/'' \<notin> set sn" "sn \<notin> sd_name ` set svcs"
    and served: "handleClient fnmatch (Run_server (registered svcs)) [rpc_request sn mn bytes] s = ([rs], s')"
    and conn: "channel_connect net ch w = (True, ch1, w1)"
    and received: "recvResponse net (the (ch_httpconn ch1)) (sendRequest net (the (ch_httpconn ch1)) (rpc_request sn mn bytes) w1)
      = (Some rsp, w2)" "rs_body rsp = rs_body rs"
  shows "rs_status rs = 404 \<and> s' = s
    \<and> rpc_util_call net sn mn (Some bytes) parse reply ch w = ((True, parse ''service not found''), ch1, w2)"
proof -
  have "find (\<lambda>svc. sd_name svc = sn) svcs = None" using sn(2) by (auto simp: find_None_iff)
  then have "call_results svcs [(sn, mn, bytes)] s = ([(404, ''service not found'')], s)" by (simp add: call_result_def)
  with call_results_served [of fnmatch "[(sn, mn, bytes)]", OF glob, of svcs s] sn(1) served
  have "rs_status rs = 404 \<and> rs_body rs = ''service not found'' \<and> s' = s" by auto
  with conn received show ?thesis by (simp add: rpc_util_call_def CallMethod_def MprpcController_new_def Let_def)
qed

text \<open>An example: one service with one method on a counter, and a network that runs the server at once.\<close>

definition demo_method :: "(string, nat) rpc_method" where
  "demo_method = \<lparr>md_name = ''Turn'', parse_request = Some,
     service_call = (\<lambda>m n. (rev m, n + length m)), serialize_response = Some\<rparr>"

definition demo_service :: "(string, nat) service" where
  "demo_service = \<lparr>sd_name = ''Demo'', sd_methods = [demo_method]\<rparr>"

definition demo_fnmatch :: "string \<Rightarrow> string \<Rightarrow> bool" where
  "demo_fnmatch pat s \<longleftrightarrow> take 5 s = take 5 pat"

definition demo_net :: "(unit, unit, nat \<times> HttpResponse option) network" where
  "demo_net = \<lparr>LookupAnyIPAddress = (\<lambda>_ _. Some ()), sock_connect = (\<lambda>_ w. (Some (), w)),
     isConnected = (\<lambda>_ _. True),
     sendRequest = (\<lambda>_ rq w. case handleClient demo_fnmatch (Run_server (registered [demo_service])) [rq] (fst w)
       of (rss, n) \<Rightarrow> (n, Some (hd rss))),
     recvResponse = (\<lambda>_ w. (snd w, (fst w, None)))\<rparr>"

lemma demo_glob: "demo_fnmatch ''/rpc/*'' (''/rpc/'' @ u)"
  by (simp add: demo_fnmatch_def)

lemma demo_connect: "channel_connect demo_net (MprpcChannel_new ''h'' 80) (7, None)
    = (True, \<lparr>ch_ip = ''h'', ch_port = 80, ch_httpconn = Some (), ch_isConnected = True\<rparr>, (7, None))"
  by (simp add: channel_connect_def MprpcChannel_new_def demo_net_def)

theorem rpc_calls_served_witness:
  "\<exists>rss. handleClient demo_fnmatch (Run_server (registered [demo_service]))
      [rpc_request ''Demo'' ''Turn'' ''abc'', rpc_request ''Demo'' ''Walk'' ''x'', rpc_request ''Demo'' ''Turn'' ''de''] 7 = (rss, 12)
    \<and> map (\<lambda>rs. (rs_status rs, rs_body rs)) rss = [(200, ''cba''), (404, ''method not found''), (200, ''ed'')]"
proof -
  have "\<forall>(sn, mn, bytes) \<in> set [(''Demo'', ''Turn'', ''abc''), (''Demo'', ''Walk'', ''x''), (''Demo'', ''Turn'', ''de'')].
      CHR ''/'' \<notin> set sn" by simp
  from conjunct1 [OF rpc_calls_served [of demo_fnmatch, OF demo_glob this, of "[demo_service]" 7]]
  show ?thesis by (auto simp: call_result_def demo_service_def demo_method_def)
qed

theorem rpc_error_taken_for_reply_witness:
  "\<exists>ch w'. rpc_util_call demo_net ''Other'' ''Turn'' (Some ''abc'') id '''' (MprpcChannel_new ''h'' 80) (7, None)
      = ((True, ''service not found''), ch, w')"
proof -
  let ?rq = "rpc_request ''Other'' ''Turn'' ''abc''"
  have sn: "CHR ''/'' \<notin> set ''Other''" "''Other'' \<notin> sd_name ` set [demo_service]" by (simp_all add: demo_service_def)
  from call_results_served [of demo_fnmatch "[(''Other'', ''Turn'', ''abc'')]", OF demo_glob, of "[demo_service]" 7]
  obtain rs s' where h: "handleClient demo_fnmatch (Run_server (registered [demo_service])) [?rq] 7 = ([rs], s')"
    by (auto simp: call_result_def demo_service_def simp del: handleClient.simps)
  have "recvResponse demo_net () (sendRequest demo_net () ?rq (7, None)) = (Some rs, (s', None))"
    by (simp add: demo_net_def h del: handleClient.simps)
  with rpc_error_taken_for_reply [of demo_fnmatch, OF demo_glob sn h demo_connect, of rs _ id "''''"] show ?thesis by simp
qed

end
