(* ===== verification/Clerk.thy ===== *)
theory Clerk
  imports KvServer StringUtil StdMap
begin

text \<open>
  The client of the key-value store: the configuration file (src/rpc/mprpcconfig.cpp) and the clerk
  that sends a request to one server after the other until one of them answers it
  (src/raft/raftClerk/clerk.cpp). The servers are a parameter: an answer for a server, a request and
  a world. The loops need not end, so they are partial.
\<close>

subsection \<open>The configuration file\<close>

text \<open>\<open>Trim\<close>: a text of spaces only is not changed.\<close>

definition config_Trim :: "string \<Rightarrow> string" where
  "config_Trim src_buf =
    (let s = (case find_first_not_of '' '' src_buf of
                None \<Rightarrow> src_buf
              | Some idx \<Rightarrow> substr src_buf idx (length src_buf - idx)) in
     (case find_last_not_of '' '' s of
        None \<Rightarrow> s
      | Some idx \<Rightarrow> substr s 0 (idx + 1)))"

definition newline :: char where
  "newline = char_of (10 :: nat)"

definition config_line :: "string \<Rightarrow> (string \<rightharpoonup> string) \<Rightarrow> (string \<rightharpoonup> string)" where
  "config_line buf m_configMap =
    (let read_buf = config_Trim (c_str buf) in
     if read_buf = [] \<or> hd read_buf = CHR ''#'' then m_configMap
     else (case find_from (CHR ''='') 0 read_buf of
         None \<Rightarrow> m_configMap
       | Some idx \<Rightarrow>
           let key = config_Trim (substr read_buf 0 idx);
               value = config_Trim (case find_from newline idx read_buf of
                   Some endidx \<Rightarrow> substr read_buf (idx + 1) (endidx - idx - 1)
                 | None \<Rightarrow> substr read_buf (idx + 1) (length read_buf))
           in insert_new key value m_configMap))"

text \<open>
  \<open>fgets\<close> with a buffer of 512: at most 511 characters, up to and with the next newline. The loop
  ends when a read has met the end of the file.
\<close>

definition fgets_len :: "string \<Rightarrow> nat" where
  "fgets_len s = min 511 (case find_from newline 0 s of None \<Rightarrow> length s | Some i \<Rightarrow> Suc i)"

function LoadConfigFile :: "string \<Rightarrow> (string \<rightharpoonup> string) \<Rightarrow> (string \<rightharpoonup> string)" where
  "LoadConfigFile s m_configMap =
    (if s = [] then config_line [] m_configMap
     else LoadConfigFile (drop (fgets_len s) s) (config_line (take (fgets_len s) s) m_configMap))"
  by pat_completeness auto
termination
  by (relation "measure (\<lambda>(s, m). length s)") (auto simp: fgets_len_def split: option.split)

declare LoadConfigFile.simps [simp del]

definition Load :: "string \<Rightarrow> (string \<rightharpoonup> string) \<Rightarrow> string" where
  "Load key m_configMap = (case m_configMap key of None \<Rightarrow> '''' | Some v \<Rightarrow> v)"

text \<open>The servers of the configuration: the address and the port, which is cut to 16 bits.\<close>

function config_nodes :: "(string \<rightharpoonup> string) \<Rightarrow> nat \<Rightarrow> (string \<times> 16 word) list" where
  "config_nodes config i =
    (if i < 2 ^ 31 - 2 then
       (let node = ''node'' @ to_string i; nodeIp = Load (node @ ''ip'') config;
            nodePortStr = Load (node @ ''port'') config in
        if nodeIp = [] then []
        else (nodeIp, word_of_int (atoi nodePortStr)) # config_nodes config (Suc i))
     else [])"
  by pat_completeness auto
termination
  by (relation "measure (\<lambda>(config, i). 2 ^ 31 - 2 - i)") auto

declare config_nodes.simps [simp del]

subsection \<open>The clerk\<close>

record Clerk =
  m_servers :: "(string \<times> 16 word) list"
  m_clientId :: string
  m_requestId :: int
  m_recentLeaderId :: nat

definition Clerk_new :: "string \<Rightarrow> Clerk" where
  "Clerk_new uuid =
    \<lparr>m_servers = [], m_clientId = uuid, m_requestId = 0, m_recentLeaderId = 0\<rparr>"

definition Clerk_Init :: "string \<Rightarrow> Clerk \<Rightarrow> Clerk" where
  "Clerk_Init configFile ck =
    ck\<lparr>m_servers := m_servers ck @ config_nodes (LoadConfigFile configFile Map.empty) 0\<rparr>"

text \<open>
  One call of a stub: whether the remote call went through, the reply, and the world after it.
  Using a server past the end of the vector is an error.
\<close>

datatype clerk_error = No_such_server

partial_function (option) get_loop ::
    "(nat \<Rightarrow> GetArgs \<Rightarrow> 'w \<Rightarrow> (bool \<times> GetReply) \<times> 'w) \<Rightarrow> nat \<Rightarrow> GetArgs \<Rightarrow> nat \<Rightarrow> nat \<Rightarrow> 'w
      \<Rightarrow> (clerk_error + (string \<times> nat) \<times> 'w) option" where
  "get_loop rpc_get n args server recent w =
    (if n \<le> server then Some (Inl No_such_server)
     else (case rpc_get server args w of ((ok, reply), w') \<Rightarrow>
       if \<not> ok \<or> gr_err reply = ErrWrongLeader then
         get_loop rpc_get n args ((server + 1) mod n) recent w'
       else if gr_err reply = ErrNoKey then Some (Inr (('''', recent), w'))
       else if gr_err reply = OK then Some (Inr ((gr_value reply, server), w'))
       else get_loop rpc_get n args server recent w'))"

text \<open>The call answers with the value and the new guess of the leader.\<close>

definition Clerk_Get :: "(nat \<Rightarrow> GetArgs \<Rightarrow> 'w \<Rightarrow> (bool \<times> GetReply) \<times> 'w) \<Rightarrow> string \<Rightarrow> Clerk \<Rightarrow> 'w
    \<Rightarrow> (clerk_error + string \<times> Clerk \<times> 'w) option" where
  "Clerk_Get rpc_get key ck w =
    (let ck1 = ck\<lparr>m_requestId := m_requestId ck + 1\<rparr>;
         args = \<lparr>ga_key = key, ga_clientid = m_clientId ck1, ga_requestid = m_requestId ck1\<rparr> in
     case get_loop rpc_get (length (m_servers ck1)) args (m_recentLeaderId ck1)
         (m_recentLeaderId ck1) w of
       None \<Rightarrow> None
     | Some (Inl e) \<Rightarrow> Some (Inl e)
     | Some (Inr ((value, leader), w')) \<Rightarrow>
         Some (Inr (value, ck1\<lparr>m_recentLeaderId := leader\<rparr>, w')))"

partial_function (option) put_loop ::
    "(nat \<Rightarrow> PutAppendArgs \<Rightarrow> 'w \<Rightarrow> (bool \<times> string) \<times> 'w) \<Rightarrow> nat \<Rightarrow> PutAppendArgs \<Rightarrow> nat \<Rightarrow> 'w
      \<Rightarrow> (clerk_error + nat \<times> 'w) option" where
  "put_loop rpc_put n args server w =
    (if n \<le> server then Some (Inl No_such_server)
     else (case rpc_put server args w of ((ok, err), w') \<Rightarrow>
       if \<not> ok \<or> err = ErrWrongLeader then put_loop rpc_put n args ((server + 1) mod n) w'
       else if err = OK then Some (Inr (server, w'))
       else put_loop rpc_put n args server w'))"

definition Clerk_PutAppend :: "(nat \<Rightarrow> PutAppendArgs \<Rightarrow> 'w \<Rightarrow> (bool \<times> string) \<times> 'w) \<Rightarrow> string \<Rightarrow> string
    \<Rightarrow> string \<Rightarrow> Clerk \<Rightarrow> 'w \<Rightarrow> (clerk_error + Clerk \<times> 'w) option" where
  "Clerk_PutAppend rpc_put key value op ck w =
    (let ck1 = ck\<lparr>m_requestId := m_requestId ck + 1\<rparr>;
         args = \<lparr>pa_key = key, pa_value = value, pa_op = op, pa_clientid = m_clientId ck1,
                 pa_requestid = m_requestId ck1\<rparr> in
     case put_loop rpc_put (length (m_servers ck1)) args (m_recentLeaderId ck1) w of
       None \<Rightarrow> None
     | Some (Inl e) \<Rightarrow> Some (Inl e)
     | Some (Inr (leader, w')) \<Rightarrow> Some (Inr (ck1\<lparr>m_recentLeaderId := leader\<rparr>, w')))"

definition Clerk_Put where
  "Clerk_Put rpc_put key value = Clerk_PutAppend rpc_put key value ''Put''"

definition Clerk_Append where
  "Clerk_Append rpc_put key value = Clerk_PutAppend rpc_put key value ''Append''"

end
