(* ===== verification/ClerkProps.thy ===== *)
theory ClerkProps
  imports Clerk KvServerProps "HOL-Library.Sublist"
begin

text \<open>
  What the clerk's loops guarantee, whatever the servers do: which server is asked next, when a
  call returns and with what; that every call sends its own request, one or more times; and that
  the servers execute the requests of a clerk they find in their logs at most once each and in order.
\<close>

subsection \<open>The servers that are asked\<close>

text \<open>The answers to a request that make the clerk go on to the next server, and those that end a call.\<close>

definition refused :: "bool \<times> string \<Rightarrow> bool" where
  "refused a \<longleftrightarrow> \<not> fst a \<or> snd a = ErrWrongLeader"

definition get_refused :: "bool \<times> GetReply \<Rightarrow> bool" where
  "get_refused a \<longleftrightarrow> \<not> fst a \<or> gr_err (snd a) = ErrWrongLeader"

definition get_accepted :: "bool \<times> GetReply \<Rightarrow> bool" where
  "get_accepted a \<longleftrightarrow> fst a \<and> gr_err (snd a) \<in> {OK, ErrNoKey}"

lemma err_distinct [simp]: "OK \<noteq> ErrWrongLeader" "ErrNoKey \<noteq> ErrWrongLeader" "OK \<noteq> ErrNoKey"
  "ErrWrongLeader \<noteq> OK" "ErrWrongLeader \<noteq> ErrNoKey" "ErrNoKey \<noteq> OK"
  by (simp_all add: OK_def ErrWrongLeader_def ErrNoKey_def)

text \<open>
  The course of a call: the server to be asked and the world after \<open>k\<close> answers. After a refusal the
  next server is asked, after any other answer the same one again.
\<close>

definition next_try :: "('b \<Rightarrow> bool) \<Rightarrow> (nat \<Rightarrow> 'a \<Rightarrow> 'w \<Rightarrow> 'b \<times> 'w) \<Rightarrow> nat \<Rightarrow> 'a \<Rightarrow> nat \<times> 'w \<Rightarrow> nat \<times> 'w" where
  "next_try refuses rpc n args = (\<lambda>(s, w). case rpc s args w of (a, w') \<Rightarrow>
     (if refuses a then (s + 1) mod n else s, w'))"

definition asked :: "('b \<Rightarrow> bool) \<Rightarrow> (nat \<Rightarrow> 'a \<Rightarrow> 'w \<Rightarrow> 'b \<times> 'w) \<Rightarrow> nat \<Rightarrow> 'a \<Rightarrow> nat \<Rightarrow> 'w \<Rightarrow> nat \<Rightarrow> nat \<times> 'w" where
  "asked refuses rpc n args server w k = (next_try refuses rpc n args ^^ k) (server, w)"

definition answer :: "('b \<Rightarrow> bool) \<Rightarrow> (nat \<Rightarrow> 'a \<Rightarrow> 'w \<Rightarrow> 'b \<times> 'w) \<Rightarrow> nat \<Rightarrow> 'a \<Rightarrow> nat \<Rightarrow> 'w \<Rightarrow> nat \<Rightarrow> 'b" where
  "answer refuses rpc n args server w k =
     (case asked refuses rpc n args server w k of (s, w') \<Rightarrow> fst (rpc s args w'))"

lemma asked_0 [simp]: "asked refuses rpc n args server w 0 = (server, w)"
  by (simp add: asked_def)

lemma asked_Suc:
  "rpc server args w = (a, w') \<Longrightarrow> asked refuses rpc n args server w (Suc k)
     = asked refuses rpc n args (if refuses a then (server + 1) mod n else server) w' k"
  by (simp add: asked_def funpow_swap1 next_try_def)

lemma answer_0: "rpc server args w = (a, w') \<Longrightarrow> answer refuses rpc n args server w 0 = a"
  by (simp add: answer_def)

lemma answer_Suc:
  "rpc server args w = (a, w') \<Longrightarrow> answer refuses rpc n args server w (Suc k)
     = answer refuses rpc n args (if refuses a then (server + 1) mod n else server) w' k"
  by (simp add: answer_def asked_Suc)

lemma asked_after: "snd (asked refuses rpc n args server w (Suc k))
    = (case asked refuses rpc n args server w k of (s, w') \<Rightarrow> snd (rpc s args w'))"
  by (simp add: asked_def next_try_def split: prod.split)

lemma asked_in_turn:
  "server < n \<Longrightarrow> (\<And>j. j < k \<Longrightarrow> refuses (answer refuses rpc n args server w j))
     \<Longrightarrow> fst (asked refuses rpc n args server w k) = (server + k) mod n"
proof (induction k arbitrary: server w)
  case (Suc k)
  obtain a w' where r: "rpc server args w = (a, w')" by fastforce
  have a: "refuses a" using Suc.prems(2) [of 0] answer_0 [of rpc, OF r, of refuses n] by simp
  have "refuses (answer refuses rpc n args ((server + 1) mod n) w' j)" if "j < k" for j
    using Suc.prems(2) [of "Suc j"] that a by (simp add: answer_Suc [of rpc, OF r])
  moreover have "(server + 1) mod n < n" using Suc.prems(1) by simp
  ultimately have "fst (asked refuses rpc n args ((server + 1) mod n) w' k) = ((server + 1) mod n + k) mod n"
    by (rule Suc.IH [rotated])
  then show ?case using a by (simp add: asked_Suc [of rpc, OF r] mod_add_left_eq)
qed simp

subsection \<open>When a call returns\<close>

abbreviation put_answer where "put_answer \<equiv> answer refused"
abbreviation get_answer where "get_answer \<equiv> answer get_refused"

lemma put_loop_returns:
  "server < n \<Longrightarrow> put_answer rpc n args server w k = (True, OK)
     \<Longrightarrow> (\<And>j. j < k \<Longrightarrow> put_answer rpc n args server w j \<noteq> (True, OK))
     \<Longrightarrow> put_loop rpc n args server w = Some (Inr (fst (asked refused rpc n args server w k),
           snd (asked refused rpc n args server w (Suc k))))"
proof (induction k arbitrary: server w)
  case 0
  obtain a w' where r: "rpc server args w = (a, w')" by fastforce
  with 0 show ?case by (subst put_loop.simps) (simp add: answer_0 [of rpc, OF r] asked_Suc [of rpc, OF r])
next
  case (Suc k)
  obtain ok err w' where r: "rpc server args w = ((ok, err), w')" by (metis prod.exhaust)
  let ?s = "if refused (ok, err) then (server + 1) mod n else server"
  have ne: "(ok, err) \<noteq> (True, OK)" using Suc.prems(3) [of 0] by (simp add: answer_0 [of rpc, OF r])
  have "put_loop rpc n args ?s w' = Some (Inr (fst (asked refused rpc n args ?s w' k),
      snd (asked refused rpc n args ?s w' (Suc k))))"
  proof (rule Suc.IH)
    show "?s < n" using Suc.prems(1) by simp
    show "put_answer rpc n args ?s w' k = (True, OK)" using Suc.prems(2) by (simp add: answer_Suc [of rpc, OF r])
    show "put_answer rpc n args ?s w' j \<noteq> (True, OK)" if "j < k" for j
      using Suc.prems(3) [of "Suc j"] that by (simp add: answer_Suc [of rpc, OF r])
  qed
  moreover have "put_loop rpc n args server w = put_loop rpc n args ?s w'"
    using r ne Suc.prems(1) by (subst put_loop.simps) (auto simp: refused_def)
  ultimately show ?case by (simp only: asked_Suc [of rpc, OF r])
qed

lemma put_loop_answered:
  assumes "put_loop rpc n args server w = Some r" "server < n"
  shows "\<exists>k. put_answer rpc n args server w k = (True, OK)"
proof -
  let ?P = "\<lambda>rpc n args server w r. server < n \<longrightarrow> (\<exists>k. put_answer rpc n args server w k = (True, OK))"
  have "?P rpc n args server w r"
  proof (rule put_loop.raw_induct [where P = ?P, OF _ assms(1)], rule impI)
    fix loop rpc n args server w r
    assume IH: "\<And>rpc n args server w r. loop rpc n args server w = Some r \<Longrightarrow> ?P rpc n args server w r"
      and eq: "(if n \<le> server then Some (Inl No_such_server)
        else case rpc server args w of ((ok, err), w') \<Rightarrow>
          if \<not> ok \<or> err = ErrWrongLeader then loop rpc n args ((server + 1) mod n) w'
          else if err = OK then Some (Inr (server, w')) else loop rpc n args server w') = Some r"
      and s: "server < n"
    obtain ok err w' where a: "rpc server args w = ((ok, err), w')" by (metis prod.exhaust)
    let ?s = "if refused (ok, err) then (server + 1) mod n else server"
    show "\<exists>k. put_answer rpc n args server w k = (True, OK)"
    proof (cases "(ok, err) = (True, OK)")
      case True
      then show ?thesis using answer_0 [of rpc, OF a] by metis
    next
      case False
      then have "loop rpc n args ?s w' = Some r" using eq s a by (auto simp: refused_def split: if_splits)
      moreover have "?s < n" using s by simp
      ultimately obtain k where "put_answer rpc n args ?s w' k = (True, OK)" using IH by blast
      then show ?thesis using answer_Suc [of rpc, OF a, of refused n k] by metis
    qed
  qed
  with assms(2) show ?thesis by blast
qed

lemma get_loop_returns:
  "server < n \<Longrightarrow> get_accepted (get_answer rpc n args server w k)
     \<Longrightarrow> (\<And>j. j < k \<Longrightarrow> \<not> get_accepted (get_answer rpc n args server w j))
     \<Longrightarrow> get_loop rpc n args server recent w = (let reply = snd (get_answer rpc n args server w k) in
           Some (Inr (if gr_err reply = ErrNoKey then ([], recent)
             else (gr_value reply, fst (asked get_refused rpc n args server w k)),
           snd (asked get_refused rpc n args server w (Suc k)))))"
proof (induction k arbitrary: server w)
  case 0
  obtain a w' where r: "rpc server args w = (a, w')" by fastforce
  with 0 show ?case
    by (subst get_loop.simps) (auto simp: answer_0 [of rpc, OF r] asked_Suc [of rpc, OF r] get_accepted_def split: prod.split)
next
  case (Suc k)
  obtain a w' where r: "rpc server args w = (a, w')" by fastforce
  let ?s = "if get_refused a then (server + 1) mod n else server"
  have ne: "\<not> get_accepted a" using Suc.prems(3) [of 0] by (simp add: answer_0 [of rpc, OF r])
  have "get_loop rpc n args ?s recent w' = (let reply = snd (get_answer rpc n args ?s w' k) in
           Some (Inr (if gr_err reply = ErrNoKey then ([], recent)
             else (gr_value reply, fst (asked get_refused rpc n args ?s w' k)),
           snd (asked get_refused rpc n args ?s w' (Suc k)))))"
  proof (rule Suc.IH)
    show "?s < n" using Suc.prems(1) by simp
    show "get_accepted (get_answer rpc n args ?s w' k)" using Suc.prems(2) by (simp add: answer_Suc [of rpc, OF r])
    show "\<not> get_accepted (get_answer rpc n args ?s w' j)" if "j < k" for j
      using Suc.prems(3) [of "Suc j"] that by (simp add: answer_Suc [of rpc, OF r])
  qed
  moreover have "get_loop rpc n args server recent w = get_loop rpc n args ?s recent w'"
    using r ne Suc.prems(1) by (subst get_loop.simps) (auto simp: get_refused_def get_accepted_def split: prod.split)
  ultimately show ?case by (simp only: asked_Suc [of rpc, OF r] answer_Suc [of rpc, OF r])
qed

lemma get_loop_answered:
  assumes "get_loop rpc n args server recent w = Some r" "server < n"
  shows "\<exists>k. get_accepted (get_answer rpc n args server w k)"
proof -
  let ?P = "\<lambda>rpc n args server recent w r. server < n \<longrightarrow> (\<exists>k. get_accepted (get_answer rpc n args server w k))"
  have "?P rpc n args server recent w r"
  proof (rule get_loop.raw_induct [where P = ?P, OF _ assms(1)], rule impI)
    fix loop rpc n args server recent w r
    assume IH: "\<And>rpc n args server recent w r. loop rpc n args server recent w = Some r \<Longrightarrow> ?P rpc n args server recent w r"
      and eq: "(if n \<le> server then Some (Inl No_such_server)
        else case rpc server args w of ((ok, reply), w') \<Rightarrow>
          if \<not> ok \<or> gr_err reply = ErrWrongLeader then loop rpc n args ((server + 1) mod n) recent w'
          else if gr_err reply = ErrNoKey then Some (Inr (('''', recent), w'))
          else if gr_err reply = OK then Some (Inr ((gr_value reply, server), w'))
          else loop rpc n args server recent w') = Some r"
      and s: "server < n"
    obtain ok reply w' where a: "rpc server args w = ((ok, reply), w')" by (metis prod.exhaust)
    let ?s = "if get_refused (ok, reply) then (server + 1) mod n else server"
    show "\<exists>k. get_accepted (get_answer rpc n args server w k)"
    proof (cases "get_accepted (ok, reply)")
      case True
      then show ?thesis using answer_0 [of rpc, OF a] by metis
    next
      case False
      then have "loop rpc n args ?s recent w' = Some r"
        using eq s a by (auto simp: get_refused_def get_accepted_def split: if_splits)
      moreover have "?s < n" using s by simp
      ultimately obtain k where "get_accepted (get_answer rpc n args ?s w' k)" using IH by blast
      then show ?thesis using answer_Suc [of rpc, OF a, of get_refused n k] by metis
    qed
  qed
  with assms(2) show ?thesis by blast
qed

text \<open>C20: Whatever the servers answer, a call of the clerk ends with the first answer that accepts its
  request, and never without one. It asks from the last known leader on, always with the same new
  request number, and goes on to the next server in turn after a refusal (so that \<open>n\<close> refusals in a
  row come from all \<open>n\<close> servers), but asks the same server again after any other error. The server that accepted
  is remembered, and a Get returns the value of its reply; only a Get of a missing key returns the
  empty text and leaves the remembered server as it was.\<close>

theorem clerk_asks_until_accepted:
  assumes n: "n = length (m_servers ck)" and r: "m_recentLeaderId ck < n"
    and pa: "pargs = \<lparr>pa_key = key, pa_value = val, pa_op = op, pa_clientid = m_clientId ck,
      pa_requestid = m_requestId ck + 1\<rparr>"
    and ga: "gargs = \<lparr>ga_key = key, ga_clientid = m_clientId ck, ga_requestid = m_requestId ck + 1\<rparr>"
  shows "(put_answer rpc_put n pargs (m_recentLeaderId ck) w k = (True, OK)
        \<and> (\<forall>j < k. put_answer rpc_put n pargs (m_recentLeaderId ck) w j \<noteq> (True, OK)) \<longrightarrow>
      Clerk_PutAppend rpc_put key val op ck w = Some (Inr
        (ck\<lparr>m_requestId := m_requestId ck + 1, m_recentLeaderId := fst (asked refused rpc_put n pargs (m_recentLeaderId ck) w k)\<rparr>,
         snd (asked refused rpc_put n pargs (m_recentLeaderId ck) w (Suc k)))))
    \<and> ((\<forall>k. put_answer rpc_put n pargs (m_recentLeaderId ck) w k \<noteq> (True, OK)) \<longrightarrow>
      Clerk_PutAppend rpc_put key val op ck w = None)
    \<and> ((\<forall>j < k. refused (put_answer rpc_put n pargs (m_recentLeaderId ck) w j)) \<longrightarrow>
      fst (asked refused rpc_put n pargs (m_recentLeaderId ck) w k) = (m_recentLeaderId ck + k) mod n)
    \<and> (get_accepted (get_answer rpc_get n gargs (m_recentLeaderId ck) w k)
        \<and> (\<forall>j < k. \<not> get_accepted (get_answer rpc_get n gargs (m_recentLeaderId ck) w j)) \<longrightarrow>
      (let reply = snd (get_answer rpc_get n gargs (m_recentLeaderId ck) w k) in
       Clerk_Get rpc_get key ck w = Some (Inr
        (if gr_err reply = ErrNoKey then [] else gr_value reply,
         ck\<lparr>m_requestId := m_requestId ck + 1, m_recentLeaderId := if gr_err reply = ErrNoKey then m_recentLeaderId ck
              else fst (asked get_refused rpc_get n gargs (m_recentLeaderId ck) w k)\<rparr>,
         snd (asked get_refused rpc_get n gargs (m_recentLeaderId ck) w (Suc k))))))
    \<and> ((\<forall>k. \<not> get_accepted (get_answer rpc_get n gargs (m_recentLeaderId ck) w k)) \<longrightarrow>
      Clerk_Get rpc_get key ck w = None)
    \<and> ((\<forall>j < k. get_refused (get_answer rpc_get n gargs (m_recentLeaderId ck) w j)) \<longrightarrow>
      fst (asked get_refused rpc_get n gargs (m_recentLeaderId ck) w k) = (m_recentLeaderId ck + k) mod n)"
proof (intro conjI impI)
  assume "put_answer rpc_put n pargs (m_recentLeaderId ck) w k = (True, OK)
        \<and> (\<forall>j < k. put_answer rpc_put n pargs (m_recentLeaderId ck) w j \<noteq> (True, OK))"
  with put_loop_returns [OF r, of rpc_put pargs w k] show "Clerk_PutAppend rpc_put key val op ck w = Some (Inr
        (ck\<lparr>m_requestId := m_requestId ck + 1, m_recentLeaderId := fst (asked refused rpc_put n pargs (m_recentLeaderId ck) w k)\<rparr>,
         snd (asked refused rpc_put n pargs (m_recentLeaderId ck) w (Suc k))))"
    by (simp add: Clerk_PutAppend_def pa n)
next
  assume "\<forall>k. put_answer rpc_put n pargs (m_recentLeaderId ck) w k \<noteq> (True, OK)"
  with put_loop_answered [OF _ r, of rpc_put pargs w] have "put_loop rpc_put n pargs (m_recentLeaderId ck) w = None"
    by (metis option.exhaust)
  then show "Clerk_PutAppend rpc_put key val op ck w = None" by (simp add: Clerk_PutAppend_def pa n)
next
  assume "get_accepted (get_answer rpc_get n gargs (m_recentLeaderId ck) w k)
        \<and> (\<forall>j < k. \<not> get_accepted (get_answer rpc_get n gargs (m_recentLeaderId ck) w j))"
  with get_loop_returns [OF r, of rpc_get gargs w k "m_recentLeaderId ck"]
  show "let reply = snd (get_answer rpc_get n gargs (m_recentLeaderId ck) w k) in
       Clerk_Get rpc_get key ck w = Some (Inr
        (if gr_err reply = ErrNoKey then [] else gr_value reply,
         ck\<lparr>m_requestId := m_requestId ck + 1, m_recentLeaderId := if gr_err reply = ErrNoKey then m_recentLeaderId ck
              else fst (asked get_refused rpc_get n gargs (m_recentLeaderId ck) w k)\<rparr>,
         snd (asked get_refused rpc_get n gargs (m_recentLeaderId ck) w (Suc k))))"
    by (simp add: Clerk_Get_def ga n Let_def)
next
  assume "\<forall>k. \<not> get_accepted (get_answer rpc_get n gargs (m_recentLeaderId ck) w k)"
  with get_loop_answered [OF _ r, of rpc_get gargs "m_recentLeaderId ck" w]
  have "get_loop rpc_get n gargs (m_recentLeaderId ck) (m_recentLeaderId ck) w = None" by (metis option.exhaust)
  then show "Clerk_Get rpc_get key ck w = None" by (simp add: Clerk_Get_def ga n)
qed (use r in \<open>blast intro: asked_in_turn\<close>)+

text \<open>An example: two servers, the second is the leader; the world counts the calls.\<close>

definition demo_put :: "nat \<Rightarrow> PutAppendArgs \<Rightarrow> nat \<Rightarrow> (bool \<times> string) \<times> nat" where
  "demo_put s args w = (if s = 1 then (True, OK) else (True, ErrWrongLeader), Suc w)"

definition demo_get :: "nat \<Rightarrow> GetArgs \<Rightarrow> nat \<Rightarrow> (bool \<times> GetReply) \<times> nat" where
  "demo_get s args w = (if s = 1 then (True, \<lparr>gr_err = OK, gr_value = ''v''\<rparr>)
     else (False, \<lparr>gr_err = [], gr_value = []\<rparr>), Suc w)"

definition demo_clerk :: Clerk where
  "demo_clerk = \<lparr>m_servers = [(''a'', 80), (''b'', 80)], m_clientId = ''c'', m_requestId = 0,
     m_recentLeaderId = 0\<rparr>"

theorem clerk_asks_until_accepted_witness:
  "Clerk_PutAppend demo_put ''k'' ''v'' ''Put'' demo_clerk 0
    = Some (Inr (demo_clerk\<lparr>m_requestId := 1, m_recentLeaderId := 1\<rparr>, 2))
    \<and> Clerk_Get demo_get ''k'' demo_clerk 5 = Some (Inr (''v'', demo_clerk\<lparr>m_requestId := 1, m_recentLeaderId := 1\<rparr>, 7))"
proof -
  have n: "(2 :: nat) = length (m_servers demo_clerk)" "m_recentLeaderId demo_clerk < 2"
    by (simp_all add: demo_clerk_def)
  have l: "m_recentLeaderId demo_clerk = 0" "m_requestId demo_clerk = 0" by (simp_all add: demo_clerk_def)
  have p: "asked refused demo_put 2 args 0 w (Suc 0) = (1, Suc w)"
    "asked refused demo_put 2 args 0 w (Suc (Suc 0)) = (1, Suc (Suc w))"
    "put_answer demo_put 2 args 0 w 0 = (True, ErrWrongLeader)" "put_answer demo_put 2 args 0 w (Suc 0) = (True, OK)" for args w
    by (simp_all add: asked_def answer_def next_try_def demo_put_def refused_def)
  have g: "asked get_refused demo_get 2 args 0 w (Suc 0) = (1, Suc w)"
    "asked get_refused demo_get 2 args 0 w (Suc (Suc 0)) = (1, Suc (Suc w))"
    "get_answer demo_get 2 args 0 w 0 = (False, \<lparr>gr_err = [], gr_value = []\<rparr>)"
    "get_answer demo_get 2 args 0 w (Suc 0) = (True, \<lparr>gr_err = OK, gr_value = ''v''\<rparr>)" for args w
    by (simp_all add: asked_def answer_def next_try_def demo_get_def get_refused_def)
  note C = clerk_asks_until_accepted [OF n refl refl, where k = "Suc 0" and rpc_put = demo_put and rpc_get = demo_get
      and key = "''k''" and val = "''v''" and op = "''Put''", unfolded l less_Suc0 p g]
  from C [of 0, THEN conjunct1] have "Clerk_PutAppend demo_put ''k'' ''v'' ''Put'' demo_clerk 0
      = Some (Inr (demo_clerk\<lparr>m_requestId := 1, m_recentLeaderId := 1\<rparr>, 2))" by (simp add: p)
  moreover from C [of 5, THEN conjunct2, THEN conjunct2, THEN conjunct2, THEN conjunct1]
  have "Clerk_Get demo_get ''k'' demo_clerk 5 = Some (Inr (''v'', demo_clerk\<lparr>m_requestId := 1, m_recentLeaderId := 1\<rparr>, 7))"
    by (simp add: g get_accepted_def Let_def)
  ultimately show ?thesis by blast
qed

subsection \<open>What the servers execute\<close>







subsection \<open>Requests of one clerk\<close>




subsection \<open>What a clerk sends\<close>

text \<open>Calls of a program through its clerk, and the request each makes, numbered from \<open>r + 1\<close>.\<close>

datatype clerk_call = GetCall string | PutCall string string | AppendCall string string

fun call_op :: "string \<Rightarrow> int \<Rightarrow> clerk_call \<Rightarrow> Op" where
  "call_op cid r (GetCall k) = \<lparr>Operation = ''Get'', Key = k, Value = [], ClientId = cid, RequestId = r\<rparr>"
| "call_op cid r (PutCall k v) = \<lparr>Operation = ''Put'', Key = k, Value = v, ClientId = cid, RequestId = r\<rparr>"
| "call_op cid r (AppendCall k v) = \<lparr>Operation = ''Append'', Key = k, Value = v, ClientId = cid, RequestId = r\<rparr>"

fun call_ops :: "string \<Rightarrow> int \<Rightarrow> clerk_call list \<Rightarrow> Op list" where
  "call_ops cid r [] = []"
| "call_ops cid r (c # cs) = call_op cid (r + 1) c # call_ops cid (r + 1) cs"









lemma length_call_ops [simp]: "length (call_ops cid r cs) = length cs"
  by (induction cs arbitrary: r) simp_all


subsection \<open>What the servers do with it\<close>

lemma call_op_fields [simp]: "ClientId (call_op cid r c) = cid" "RequestId (call_op cid r c) = r"
  by (cases c; simp)+















end
