(* ===== verification/ClerkConfig.thy ===== *)
theory ClerkConfig
  imports Clerk StringProps Numbers
begin

text \<open>
  The configuration file of the clerk read back: lines of the file, and
  the list of servers.
\<close>

subsection \<open>Lines\<close>

text \<open>A text that trimming and reading leave alone.\<close>

definition plain :: "string \<Rightarrow> bool" where
  "plain s \<longleftrightarrow> s \<noteq> [] \<and> hd s \<noteq> CHR '' '' \<and> last s \<noteq> CHR '' '' \<and> newline \<notin> set s
    \<and> char_of (0 :: nat) \<notin> set s"

lemma find_first_space: "s \<noteq> [] \<Longrightarrow> hd s \<noteq> CHR '' '' \<Longrightarrow> find_first_not_of '' '' s = Some 0"
  by (cases s) (simp_all add: find_first_not_of_def)

lemma find_last_space:
  "s \<noteq> [] \<Longrightarrow> last s \<noteq> CHR '' '' \<Longrightarrow> find_last_not_of '' '' s = Some (length s - 1)"
  by (cases s rule: rev_cases) (simp_all add: find_last_not_of_def)

lemma config_Trim_id:
  "s \<noteq> [] \<Longrightarrow> hd s \<noteq> CHR '' '' \<Longrightarrow> last s \<noteq> CHR '' '' \<Longrightarrow> config_Trim s = s"
  by (simp add: config_Trim_def find_first_space find_last_space substr_def Let_def)

lemma find_from_split:
  "c \<notin> set u \<Longrightarrow> find_from c (length p) (p @ u @ c # r) = Some (length p + length u)"
  "c \<notin> set u \<Longrightarrow> find_from c (length p) (p @ u) = None"
proof -
  have t: "c \<notin> set u \<Longrightarrow> takeWhile (\<lambda>x. x \<noteq> c) (u @ c # r) = u"
    "c \<notin> set u \<Longrightarrow> takeWhile (\<lambda>x. x \<noteq> c) u = u" by (induction u) auto
  show "c \<notin> set u \<Longrightarrow> find_from c (length p) (p @ u @ c # r) = Some (length p + length u)"
    "c \<notin> set u \<Longrightarrow> find_from c (length p) (p @ u) = None"
    by (simp_all add: find_from_def Let_def t)
qed

lemma c_str_clean: "char_of (0 :: nat) \<notin> set s \<Longrightarrow> c_str s = s"
proof -
  assume z: "char_of (0 :: nat) \<notin> set s"
  have "of_char c \<noteq> (0 :: nat)" if "c \<in> set s" for c
  proof
    assume "of_char c = (0 :: nat)"
    then have "c = char_of (0 :: nat)" by (metis char_of_char)
    with that z show False by simp
  qed
  then have "list_all (\<lambda>c. of_char c \<noteq> (0 :: nat)) s" unfolding list_all_iff by blast
  then show ?thesis unfolding c_str_def by (rule takeWhile_all)
qed

lemma newline_facts: "newline \<noteq> CHR '' ''" "newline \<noteq> CHR ''=''" "newline \<noteq> CHR ''#''"
  "char_of (0 :: nat) \<noteq> newline" "char_of (0 :: nat) \<noteq> CHR ''=''"
  by (simp_all add: newline_def) code_simp+

lemma config_line_pair:
  assumes k: "plain k" "CHR ''='' \<notin> set k" "hd k \<noteq> CHR ''#''" and v: "plain v"
  shows "config_line (k @ ''='' @ v @ [newline]) m = insert_new k v m"
proof -
  let ?l = "k @ ''='' @ v @ [newline]"
  have "c_str ?l = ?l" using k(1) v newline_facts by (intro c_str_clean) (auto simp: plain_def)
  moreover have "config_Trim ?l = ?l"
    using k(1) newline_facts by (intro config_Trim_id) (auto simp: plain_def)
  moreover have "find_from (CHR ''='') 0 ?l = Some (length k)"
    using find_from_split(1) [OF k(2), of "[]" "v @ [newline]"] by simp
  moreover have "find_from newline (length k) ?l = Some (length k + 1 + length v)"
    using find_from_split(1) [of newline "''='' @ v" k "[]"] v newline_facts by (auto simp: plain_def)
  moreover have "hd ?l \<noteq> CHR ''#''" using k(1,3) by (simp add: plain_def)
  moreover have "config_Trim (substr ?l 0 (length k)) = k"
    using k(1) config_Trim_id [of k] by (simp add: plain_def substr_def)
  moreover have "config_Trim (substr ?l (length k + 1) (length k + 1 + length v - length k - 1)) = v"
    using v config_Trim_id [of v] by (simp add: plain_def substr_def)
  ultimately show ?thesis by (simp only: config_line_def Let_def option.case) simp
qed

lemma fgets_len_line:
  "newline \<notin> set l \<Longrightarrow> length l < 511 \<Longrightarrow> fgets_len (l @ newline # r) = Suc (length l)"
  using find_from_split(1) [of newline l "[]" r] by (simp add: fgets_len_def)

lemma LoadConfigFile_line:
  assumes "newline \<notin> set l" "length l < 511"
  shows "LoadConfigFile (l @ newline # r) m = LoadConfigFile r (config_line (l @ [newline]) m)"
  by (subst LoadConfigFile.simps) (simp add: fgets_len_line [OF assms])

lemma LoadConfigFile_Nil: "LoadConfigFile [] m = m"
  by (subst LoadConfigFile.simps) (simp add: config_line_def config_Trim_def c_str_def
      find_first_not_of_def find_last_not_of_def)

lemma LoadConfigFile_pairs:
  assumes "list_all (\<lambda>(k, v). plain k \<and> CHR ''='' \<notin> set k \<and> hd k \<noteq> CHR ''#'' \<and> plain v
      \<and> length k + length v < 510) ps"
  shows "LoadConfigFile (concat (map (\<lambda>(k, v). k @ ''='' @ v @ [newline]) ps)) m
    = fold (\<lambda>(k, v). insert_new k v) ps m"
  using assms
proof (induction ps arbitrary: m)
  case (Cons p ps)
  obtain k v where p: "p = (k, v)" by (cases p)
  let ?r = "concat (map (\<lambda>(k, v). k @ ''='' @ v @ [newline]) ps)"
  from Cons.prems p have h: "plain k" "CHR ''='' \<notin> set k" "hd k \<noteq> CHR ''#''" "plain v"
    "length k + length v < 510" by simp_all
  then have "newline \<notin> set (k @ ''='' @ v)" "length (k @ ''='' @ v) < 511"
    using newline_facts by (auto simp: plain_def)
  from LoadConfigFile_line [OF this, of ?r m] config_line_pair [OF h(1-4), of m] Cons p
  show ?case by simp
qed (simp add: LoadConfigFile_Nil)

subsection \<open>The servers\<close>

text \<open>The two lines of server \<open>i\<close>.\<close>

definition node_pairs :: "nat \<Rightarrow> string \<times> nat \<Rightarrow> (string \<times> string) list" where
  "node_pairs i nd = [(''node'' @ to_string i @ ''ip'', fst nd),
     (''node'' @ to_string i @ ''port'', to_string (snd nd))]"

fun nodes_pairs :: "nat \<Rightarrow> (string \<times> nat) list \<Rightarrow> (string \<times> string) list" where
  "nodes_pairs i [] = []"
| "nodes_pairs i (nd # nds) = node_pairs i nd @ nodes_pairs (Suc i) nds"

definition config_text :: "(string \<times> nat) list \<Rightarrow> string" where
  "config_text nds = concat (map (\<lambda>(k, v). k @ ''='' @ v @ [newline]) (nodes_pairs 0 nds))"

lemma isdigit_chars: "isdigit c \<Longrightarrow> c \<noteq> CHR '' '' \<and> c \<noteq> newline \<and> c \<noteq> CHR ''='' \<and> c \<noteq> CHR ''i''
    \<and> c \<noteq> CHR ''p'' \<and> c \<noteq> char_of (0 :: nat)"
  by (auto simp: isdigit_def newline_def)

lemma plain_to_string: "plain (to_string n)"
proof -
  have "\<forall>c \<in> set (to_string n). isdigit c" "to_string n \<noteq> []"
    using to_string_digits [of n] by (auto simp: list_all_iff)
  then show ?thesis unfolding plain_def using isdigit_chars hd_in_set last_in_set by metis
qed

lemma node_key_plain: "CHR ''='' \<notin> set (''node'' @ to_string i @ x)"
  "plain x \<Longrightarrow> CHR ''='' \<notin> set x \<Longrightarrow> plain (''node'' @ to_string i @ x)"
  if "CHR ''='' \<notin> set x" for x
proof -
  have d: "\<forall>c \<in> set (to_string i). c \<noteq> CHR ''='' \<and> c \<noteq> newline \<and> c \<noteq> char_of (0 :: nat)"
    using to_string_digits [of i] isdigit_chars by (auto simp: list_all_iff)
  have n: "newline \<notin> set ''node''" "char_of (0 :: nat) \<notin> set ''node''" "CHR ''='' \<notin> set ''node''"
    by code_simp+
  show "CHR ''='' \<notin> set (''node'' @ to_string i @ x)" using that d by auto
  assume "plain x"
  then show "plain (''node'' @ to_string i @ x)" using d n unfolding plain_def by auto
qed

lemma digits_split: "list_all isdigit a \<Longrightarrow> list_all isdigit b \<Longrightarrow> x \<noteq> [] \<Longrightarrow> y \<noteq> [] \<Longrightarrow>
    \<not> isdigit (hd x) \<Longrightarrow> \<not> isdigit (hd y) \<Longrightarrow> a @ x = b @ y \<Longrightarrow> a = b \<and> x = y"
proof (induction a arbitrary: b)
  case Nil
  then show ?case by (cases b) auto
next
  case (Cons c a)
  then show ?case by (cases b) auto
qed

lemma node_key_inj:
  assumes "x \<in> {''ip'', ''port''}" "y \<in> {''ip'', ''port''}"
  shows "''node'' @ to_string i @ x = ''node'' @ to_string j @ y \<longleftrightarrow> i = j \<and> x = y"
proof -
  have "\<not> isdigit (CHR ''i'')" "\<not> isdigit (CHR ''p'')" by (simp_all add: isdigit_def)
  then have "x \<noteq> []" "y \<noteq> []" "\<not> isdigit (hd x)" "\<not> isdigit (hd y)" using assms by auto
  from digits_split [OF _ _ this, of "to_string i" "to_string j"] to_string_digits
  show ?thesis by (auto simp: to_string_inj)
qed

lemma pairs_keys: "k \<in> fst ` set (nodes_pairs i nds) \<Longrightarrow>
    \<exists>j x. i \<le> j \<and> j < i + length nds \<and> x \<in> {''ip'', ''port''} \<and> k = ''node'' @ to_string j @ x"
proof (induction i nds rule: nodes_pairs.induct)
  case (2 i nd nds)
  then consider "k \<in> {''node'' @ to_string i @ ''ip'', ''node'' @ to_string i @ ''port''}"
    | "k \<in> fst ` set (nodes_pairs (Suc i) nds)" by (auto simp: node_pairs_def)
  then show ?case
  proof cases
    case 1
    then show ?thesis by auto
  next
    case 2
    from "2.IH" [OF this] show ?thesis by (metis Suc_leD add_Suc_shift length_Cons)
  qed
qed simp

lemma insert_new_other: "k \<noteq> k' \<Longrightarrow> insert_new k' v m k = m k"
  by (simp add: insert_new_def split: option.split)

lemma fold_new_other: "k \<notin> fst ` set ps \<Longrightarrow> fold (\<lambda>(k, v). insert_new k v) ps m k = m k"
  by (induction ps arbitrary: m) (auto simp: insert_new_other)

lemma key_not_in: "j < i \<or> i + length nds \<le> j \<Longrightarrow> x \<in> {''ip'', ''port''} \<Longrightarrow>
    ''node'' @ to_string j @ x \<notin> fst ` set (nodes_pairs i nds)"
proof
  assume j: "j < i \<or> i + length nds \<le> j" and x: "x \<in> {''ip'', ''port''}"
    and "''node'' @ to_string j @ x \<in> fst ` set (nodes_pairs i nds)"
  from pairs_keys [OF this(3)] obtain l y where "i \<le> l" "l < i + length nds" "y \<in> {''ip'', ''port''}"
    "''node'' @ to_string j @ x = ''node'' @ to_string l @ y" by blast
  with node_key_inj [OF x this(3), of j l] j show False by auto
qed

lemma nodes_lookup:
  assumes "i < length nds" "\<And>j x. b \<le> j \<Longrightarrow> x \<in> {''ip'', ''port''} \<Longrightarrow> m (''node'' @ to_string j @ x) = None"
  shows "fold (\<lambda>(k, v). insert_new k v) (nodes_pairs b nds) m (''node'' @ to_string (b + i) @ ''ip'')
      = Some (fst (nds ! i))
    \<and> fold (\<lambda>(k, v). insert_new k v) (nodes_pairs b nds) m (''node'' @ to_string (b + i) @ ''port'')
      = Some (to_string (snd (nds ! i)))"
  using assms
proof (induction b nds arbitrary: i m rule: nodes_pairs.induct)
  case (2 b nd nds)
  let ?m = "fold (\<lambda>(k, v). insert_new k v) (node_pairs b nd) m"
  have ip: "?m (''node'' @ to_string b @ ''ip'') = Some (fst nd)"
    and port: "?m (''node'' @ to_string b @ ''port'') = Some (to_string (snd nd))"
    using "2.prems"(2) [of b "''ip''"] "2.prems"(2) [of b "''port''"]
    by (simp_all add: node_pairs_def insert_new_def)
  have m: "?m (''node'' @ to_string j @ x) = None" if "Suc b \<le> j" "x \<in> {''ip'', ''port''}" for j x
  proof -
    have "''node'' @ to_string j @ x \<notin> fst ` set (node_pairs b nd)"
      using that node_key_inj [OF that(2), of "''ip''" j b] node_key_inj [OF that(2), of "''port''" j b]
      by (auto simp: node_pairs_def)
    from fold_new_other [OF this, of m] "2.prems"(2) [of j x] that show ?thesis by simp
  qed
  show ?case
  proof (cases i)
    case 0
    with ip port key_not_in [of b "Suc b" nds "''ip''"] key_not_in [of b "Suc b" nds "''port''"]
    show ?thesis by (simp add: fold_new_other)
  next
    case (Suc l)
    with "2.IH" [of l ?m] m "2.prems"(1) show ?thesis by simp
  qed
qed simp

lemma plain_parts: "plain ''ip''" "plain ''port''" "CHR ''='' \<notin> set ''ip''" "CHR ''='' \<notin> set ''port''"
  by code_simp+

definition node_ok :: "string \<times> nat \<Rightarrow> bool" where
  "node_ok nd \<longleftrightarrow> plain (fst nd) \<and> length (fst nd) < 480 \<and> snd nd < 2 ^ 16"

lemma small_bounds: "(2 :: nat) ^ 31 < 10 ^ 10" "(2 :: nat) ^ 16 < 10 ^ 5"
  by simp_all

lemma pairs_ok:
  assumes "list_all node_ok nds" "i + length nds < 2 ^ 31"
  shows "list_all (\<lambda>(k, v). plain k \<and> CHR ''='' \<notin> set k \<and> hd k \<noteq> CHR ''#'' \<and> plain v
      \<and> length k + length v < 510) (nodes_pairs i nds)"
  using assms
proof (induction i nds rule: nodes_pairs.induct)
  case (2 i nd nds)
  have "length (to_string i) \<le> 10"
    using "2.prems"(2) small_bounds(1) by (intro to_string_length) linarith+
  moreover have "length (to_string (snd nd)) \<le> 5"
    using "2.prems"(1) small_bounds(2) by (intro to_string_length) (simp_all add: node_ok_def)
  ultimately have "list_all (\<lambda>(k, v). plain k \<and> CHR ''='' \<notin> set k \<and> hd k \<noteq> CHR ''#'' \<and> plain v
      \<and> length k + length v < 510) (node_pairs i nd)"
    using "2.prems"(1) node_key_plain [of "''ip''" i] node_key_plain [of "''port''" i] plain_parts
      plain_to_string by (simp add: node_pairs_def node_ok_def)
  moreover have "Suc i + length nds < 2 ^ 31" using "2.prems"(2) by simp
  ultimately show ?case using 2 by simp
qed simp

lemma config_nodes_found:
  assumes "\<And>i. i < length nds \<Longrightarrow> Load (''node'' @ to_string (b + i) @ ''ip'') m = fst (nds ! i)
      \<and> Load (''node'' @ to_string (b + i) @ ''port'') m = to_string (snd (nds ! i))"
    and "Load (''node'' @ to_string (b + length nds) @ ''ip'') m = []"
    and "list_all node_ok nds" "b + length nds < 2 ^ 31 - 2"
  shows "config_nodes m b = map (\<lambda>nd. (fst nd, of_nat (snd nd))) nds"
  using assms
proof (induction nds arbitrary: b)
  case Nil
  then show ?case by (subst config_nodes.simps) simp
next
  case (Cons nd nds)
  have rec: "config_nodes m (Suc b) = map (\<lambda>nd. (fst nd, of_nat (snd nd))) nds"
  proof (rule Cons.IH)
    fix i assume "i < length nds"
    with Cons.prems(1) [of "Suc i"]
    show "Load (''node'' @ to_string (Suc b + i) @ ''ip'') m = fst (nds ! i)
      \<and> Load (''node'' @ to_string (Suc b + i) @ ''port'') m = to_string (snd (nds ! i))" by simp
  qed (use Cons.prems(2-4) in simp_all)
  have "Load (''node'' @ to_string b @ ''ip'') m = fst nd" "Load (''node'' @ to_string b @ ''port'') m = to_string (snd nd)"
    using Cons.prems(1) [of 0] by simp_all
  moreover have "fst nd \<noteq> []" using Cons.prems(3) by (simp add: node_ok_def plain_def)
  moreover have "b < 2 ^ 31 - 2" using Cons.prems(4) by simp
  ultimately show ?case
    by (subst config_nodes.simps) (simp add: rec atoi_to_string)
qed

text \<open>A clerk that is initialized from a file with the address and the port of each server, in
  order, knows exactly these servers: every address, and every port below 2 to the 16, although
  it passes through a signed short.\<close>

theorem clerk_reads_servers:
  assumes "list_all node_ok nds" "length nds < 2 ^ 31 - 2"
  shows "m_servers (Clerk_Init (config_text nds) (Clerk_new uuid)) = map (\<lambda>nd. (fst nd, of_nat (snd nd))) nds
    \<and> map (\<lambda>(ip, port). (ip, unat port)) (m_servers (Clerk_Init (config_text nds) (Clerk_new uuid))) = nds"
proof -
  define m where "m = fold (\<lambda>(k, v). insert_new k v) (nodes_pairs 0 nds) Map.empty"
  have load: "LoadConfigFile (config_text nds) Map.empty = m"
    unfolding config_text_def m_def by (rule LoadConfigFile_pairs, rule pairs_ok) (use assms in simp_all)
  have look: "m (''node'' @ to_string i @ ''ip'') = Some (fst (nds ! i))
      \<and> m (''node'' @ to_string i @ ''port'') = Some (to_string (snd (nds ! i)))" if "i < length nds" for i
    using nodes_lookup [OF that, of 0 Map.empty] by (simp add: m_def)
  have none: "m (''node'' @ to_string (length nds) @ ''ip'') = None"
    unfolding m_def using key_not_in [of "length nds" 0 nds "''ip''"] by (subst fold_new_other) simp_all
  have nodes: "config_nodes m 0 = map (\<lambda>nd. (fst nd, of_nat (snd nd))) nds"
    by (rule config_nodes_found) (use look none assms in \<open>simp_all add: Load_def\<close>)
  have "map (\<lambda>(ip, port). (ip, unat (port :: 16 word))) (map (\<lambda>nd. (fst nd, of_nat (snd nd))) nds) = nds"
    using assms(1) by (induction nds) (auto simp: node_ok_def unat_of_nat take_bit_eq_mod)
  with load nodes show ?thesis by (simp add: Clerk_Init_def Clerk_new_def)
qed

theorem clerk_reads_servers_witness:
  "m_servers (Clerk_Init (config_text [(''127.0.0.1'', 29016), (''10.0.0.2'', 40000)]) (Clerk_new ''u''))
    = [(''127.0.0.1'', 29016), (''10.0.0.2'', 40000)]"
proof -
  have "list_all node_ok [(''127.0.0.1'', 29016), (''10.0.0.2'', 40000)]"
    by (simp add: node_ok_def plain_def newline_def) code_simp
  from clerk_reads_servers [OF this, of "''u''"] show ?thesis by simp
qed

end
