(* ===== verification/Spec2Isabelle.thy ===== *)
theory Spec2Isabelle
  imports SkipListStore RaftServiceProps StorageProps KvServerCalls ByteArrayProps TimerProps
    StringProps SchedulerProps IoManagerProps HookProps AddressProps LogFormatProps LogProps AsyncLogProps ConfigProps HttpProps RpcProps ClerkProps ClerkConfig
begin

text \<open>
  A verification development of a replicated key-value store in C++: a Raft implementation
  (\<open>src/raft\<close>), the ordered store it replicates (\<open>src/skipList\<close>), remote calls over HTTP (\<open>src/rpc\<close>),
  and the framework of coroutines, I/O, logging and configuration they run on (\<open>src/sylar\<close>).

  How the parts work together. A clerk sends a Get, Put or Append to one server after the other until
  one accepts it. The server starts agreement on it with its Raft node and waits on a queue
  that is found by the log index. The leader sends the entry with its heartbeats; when a majority
  has it, every node hands it to its server through an apply queue, the server executes
  it on its skip list unless the request number of the client is old, and wakes the waiting
  call. From time to time the server hands its node a snapshot behind which the log is
  dropped. All calls between machines are HTTP requests dispatched to a servlet. A program
  on one machine is a set of fibers run by the threads of a scheduler; a fiber that would
  block in a system call stores itself with the I/O manager and yields, and is scheduled again by
  the event or by a timer.

  Modelling. Every fallible operation answers \<open>error + value\<close>; an error is what would end the process
  or is undefined in C++ (a failed assertion, a bad pointer, an index out of range). Objects that are
  shared or freed live on an explicit heap and are named by their addresses. A critical
  section is one step; a function that releases its lock, waits, calls another machine or yields
  is split there. Three places are coarser than that, and say so: \<open>applierTick\<close>, \<open>Fiber_yield\<close>
  and the listener of the log's configuration. Integers keep their width where the code lets them wrap. The library code that is not
  in the repository (system calls, \<open>epoll\<close>, protobuf, YAML text, \<open>fnmatch\<close>, \<open>getaddrinfo\<close>,
  \<open>strftime\<close>) is a parameter of the definitions that use it; what is assumed of it is a named
  predicate (such as \<open>epoll_laws\<close>) with an instance in the examples. Output is modelled where it
  is the result (the log), and left out elsewhere.

  The theories, by component. For a component \<open>X\<close> its model is in theory \<open>X\<close>, and what it promises
  in \<open>XProps\<close>, with invariants and lemmas on the way in the other theories named.

  \<^item> \<open>Prelude\<close>: the result monad with its rules (\<open>result_simps\<close>), folds, chains of pointers,
    majorities. \<open>StdMap\<close>: \<open>std::map\<close> with a comparison, whose contract is the locale \<open>compare\<close>.
    \<open>Numbers\<close>: numbers and fields in text.
  \<^item> \<open>Raft\<close> is class \<open>Raft\<close> of \<open>raft.cpp\<close>, one definition for each member function, with \<open>Persister\<close>
    (\<open>Persister.cpp\<close>) and \<open>LockQueue\<close> (\<open>util.h\<close>, with the locale \<open>channel\<close>). \<open>RaftLog\<close>,
    \<open>RaftAppend\<close>, \<open>RaftLeader\<close>, \<open>RaftService\<close> and \<open>RaftVote\<close> say what each handler does to a well-formed
    node, \<open>RaftFrame\<close> what it leaves alone, \<open>RaftInv\<close> that the node stays well formed, \<open>RaftSync\<close> that
    rounds of heartbeats converge. \<open>Election\<close> is the cluster as a step relation with the invariant behind
    election safety, \<open>Scenario\<close> runs scripts in it. \<open>RaftProps\<close>, \<open>RaftServiceProps\<close>, \<open>StorageProps\<close>.
  \<^item> \<open>SkipList\<close> (\<open>skipList.h\<close>): nodes with forward pointers on a heap; \<open>SkipListInv\<close> and \<open>SkipListOps\<close>
    the representation invariant and the operations; \<open>Store\<close> the interface a server needs
    (locale \<open>kv_store\<close>), interpreted by the list in \<open>SkipListStore\<close>.
  \<^item> \<open>KvServer\<close> (\<open>kvServer.cpp\<close>): the state machine and the client calls, split at their wait;
    \<open>KvServerProps\<close> and \<open>KvServerCalls\<close>. \<open>Clerk\<close>, \<open>ClerkConfig\<close>, \<open>ClerkProps\<close> (\<open>clerk.cpp\<close>, \<open>mprpcconfig.cpp\<close>).
  \<^item> \<open>Rpc\<close>, \<open>RpcProps\<close>: servlets, the HTTP server's loop, provider and channel (\<open>servlet.cc\<close>,
    \<open>http_server.cc\<close>, \<open>rpcprovider.cpp\<close>, \<open>mprpcchannel.cpp\<close>). \<open>Http\<close>, \<open>HttpProps\<close> (\<open>http.cc\<close>).
  \<^item> \<open>ByteArray\<close>, \<open>ByteArrayCodec\<close> (\<open>bytearray.cc\<close>, \<open>endian.h\<close>): blocks and typed values;
    \<open>ByteArrayInv\<close> the flat view, \<open>ByteArrayWords\<close> the codings, \<open>ByteStream\<close> the contracts of a source and a
    sink of bytes (locales \<open>byte_source\<close>, \<open>byte_sink\<close>). \<open>StringUtil\<close>, \<open>StringProps\<close> (\<open>util.cc\<close>).
  \<^item> \<open>Timer\<close>, \<open>TimerProps\<close> (\<open>timer.cc\<close>, locale \<open>ordered_set\<close>). \<open>Fiber\<close>, \<open>FiberProps\<close> (\<open>fiber.cc\<close>).
    \<open>Scheduler\<close>, \<open>SchedulerRun\<close>, \<open>SchedulerProps\<close> (\<open>scheduler.cc\<close>): the loop in atomic parts, all runs of
    any number of threads, and the invariants. \<open>IoManager\<close>, \<open>IoManagerProps\<close> (\<open>iomanager.cc\<close>), on the
    scheduler and the timers. \<open>FdManager\<close>, \<open>Hook\<close>, \<open>HookProps\<close> (\<open>fd_manager.cc\<close>, \<open>hook.cc\<close>): the hooked
    calls on top of I/O manager, timers and descriptor table.
  \<^item> \<open>Address\<close>, \<open>AddressProps\<close> (\<open>address.cc\<close>).
  \<^item> \<open>LogFormat\<close>, \<open>LogFormatProps\<close>, \<open>Log\<close>, \<open>LogProps\<close> (\<open>log.cc\<close>): patterns, loggers and appenders, and their
    configuration. \<open>AsyncLog\<close>, \<open>AsyncLogProps\<close>: the thread that writes in the background, as
    a step relation. \<open>Config\<close>, \<open>ConfigProps\<close> (\<open>config.cc\<close>, \<open>config.h\<close>): variables, listeners, loading.

  What the groups of properties show. For Raft: a term has at most one leader in every reachable state
  of a cluster in which votes are lost and delayed and all other messages are arbitrary; what each
  handler does on every branch; that followers catch up; and a run in which state machine safety
  fails. For the store and the server: refinement of a finite map, freeing of all nodes, execution of the log like
  a specification, answers to waiting calls, and at-most-once execution for a clerk that retries.
  For the framework: buffers as flat byte sequences with round trips, timers in order, no task lost or
  taken twice, events scheduled once, blocked calls resumed once by event or timeout. For log
  and configuration: nothing fails, the configuration is applied, and writing in the background
  equals writing at once. Where the code does not keep such a promise, the theorem says for which
  inputs, and the failing case is a theorem of its own.

  Fuel and termination. \<open>advance\<close>, \<open>dump_loop\<close> and \<open>clear_nodes\<close> of the skip list get the size of the heap
  as fuel; a level of a well-formed list is shorter, and the refinement theorems show that they never run out.
  \<open>logInternal\<close> gets 2, the length of the chain from a logger to the root
  (\<open>log_operations_never_fail\<close>). The clerk's loops, slicing and the retry of interrupted calls need not
  end: they are partial functions or \<open>while_option\<close>; exactly when a call of the clerk returns is proved
  (\<open>clerk_asks_until_accepted\<close>). Drawing a level of the skip list is given the list of random numbers it
  draws. All other loops are structural or have a measure.

  Bounds. Terms and log indices of Raft are unbounded integers (\<open>int\<close> in the code, assumed below \<open>2 ^ 31\<close>).
  Clocks, ports, addresses, sizes, epoll flags and the codings of \<open>ByteArray\<close> are words.

  Not modelled. The parsers of HTTP and URIs (\<open>uri.rl.cc\<close>, \<open>http11_parser.rl.cc\<close>,
  \<open>httpclient_parser.rl.cc\<close>), half of the repository's lines, are tables of jumps generated by Ragel, and
  \<open>http_parser.cc\<close>, \<open>http_session.cc\<close> and most of \<open>http_connection.cc\<close> are callbacks and loops
  that only make sense with them; so remote calls are modelled on both sides of HTTP, without
  a claim that it carries one to the other. The context switch is assembly; fibers use its effect. Sockets, socket streams,
  the TCP server, threads, locks, daemons and JSON are thin wrappers of system and library calls. Conversions
  of containers to YAML text are parameters of the configuration. The files
  generated by protobuf, tests and examples are left out. The memory of machines other than through
  messages, weak memory models, and running out of memory are not considered.
\<close>

end
